(* ===== verification/Prelude.thy ===== *)
theory Prelude
  imports Main "HOL-Library.Word"
begin

text \<open>
  Shared vocabulary of the development: results with an error side (the \<open>?\<close> operator of the
  source), byte strings with checked reads and writes (an out-of-range slice of the source is a
  panic), little-endian integers, checked 64-bit arithmetic, and sums with finite support.
\<close>

unbundle bit_operations_syntax

named_theorems run_simps \<open>inversion of successful runs: \<open>f x = Inr y\<close> as its conditions\<close>
named_theorems byte_simps \<open>reads after writes on byte strings\<close>

section \<open>Types\<close>

type_synonym u8 = "8 word"
type_synonym u16 = "16 word"
type_synonym u32 = "32 word"
type_synonym u64 = "64 word"
type_synonym u128 = "128 word"
type_synonym bytes = "u8 list"
type_synonym key = bytes

text \<open>
  Errors of a program instruction. \<open>Custom\<close> carries a program's own code; \<open>Panic\<close> is a Rust
  panic (slice out of range, arithmetic check); \<open>Cpi\<close> is an error returned by an invoked
  program.
\<close>

datatype perr = Custom u32 | NotEnoughAccountKeys | MissingRequiredSignature | InvalidAccountData | InvalidRealloc | Panic | Cpi nat

type_synonym 'a res = "perr + 'a"

section \<open>Results\<close>

definition bindE :: "'e + 'a \<Rightarrow> ('a \<Rightarrow> 'e + 'b) \<Rightarrow> 'e + 'b" where
  "bindE m f = (case m of Inl e \<Rightarrow> Inl e | Inr x \<Rightarrow> f x)"

definition ok_or :: "'a option \<Rightarrow> 'e \<Rightarrow> 'e + 'a" where
  "ok_or x e = (case x of None \<Rightarrow> Inl e | Some v \<Rightarrow> Inr v)"

definition get_at :: "'a list \<Rightarrow> nat \<Rightarrow> 'a option" where
  "get_at xs i = (if i < length xs then Some (xs ! i) else None)"

fun foldE :: "('x \<Rightarrow> 's \<Rightarrow> 'e + 's) \<Rightarrow> 'x list \<Rightarrow> 's \<Rightarrow> 'e + 's" where
  "foldE f [] s = Inr s"
| "foldE f (x # xs) s = bindE (f x s) (foldE f xs)"

section \<open>Little-endian integers\<close>

fun le_bytes :: "nat \<Rightarrow> nat \<Rightarrow> bytes" where
  "le_bytes 0 v = []"
| "le_bytes (Suc n) v = of_nat v # le_bytes n (v div 256)"

fun le_nat :: "bytes \<Rightarrow> nat" where
  "le_nat [] = 0"
| "le_nat (b # bs) = unat b + 256 * le_nat bs"

section \<open>Byte strings\<close>

definition slice :: "bytes \<Rightarrow> nat \<Rightarrow> nat \<Rightarrow> bytes" where
  "slice d off n = take n (drop off d)"

definition splice :: "bytes \<Rightarrow> nat \<Rightarrow> bytes \<Rightarrow> bytes" where
  "splice d off bs =
     (if off + length bs \<le> length d then take off d @ bs @ drop (off + length bs) d else d)"

definition get_u16 :: "bytes \<Rightarrow> nat \<Rightarrow> u16" where
  "get_u16 d off = of_nat (le_nat (slice d off 2))"

definition get_u32 :: "bytes \<Rightarrow> nat \<Rightarrow> u32" where
  "get_u32 d off = of_nat (le_nat (slice d off 4))"

definition get_u64 :: "bytes \<Rightarrow> nat \<Rightarrow> u64" where
  "get_u64 d off = of_nat (le_nat (slice d off 8))"

definition u16_le :: "u16 \<Rightarrow> bytes" where
  "u16_le v = le_bytes 2 (unat v)"

definition u32_le :: "u32 \<Rightarrow> bytes" where
  "u32_le v = le_bytes 4 (unat v)"

definition u64_le :: "u64 \<Rightarrow> bytes" where
  "u64_le v = le_bytes 8 (unat v)"

text \<open>Checked accesses: a slice out of range panics.\<close>

definition rd_slice :: "bytes \<Rightarrow> nat \<Rightarrow> nat \<Rightarrow> bytes res" where
  "rd_slice d off n = (if off + n \<le> length d then Inr (slice d off n) else Inl Panic)"

definition wr_slice :: "bytes \<Rightarrow> nat \<Rightarrow> nat \<Rightarrow> bytes \<Rightarrow> bytes res" where
  "wr_slice d off n bs =
     (if off + n \<le> length d \<and> length bs = n then Inr (splice d off bs) else Inl Panic)"

definition rd_u8 :: "bytes \<Rightarrow> nat \<Rightarrow> u8 res" where
  "rd_u8 d i = (if i < length d then Inr (d ! i) else Inl Panic)"

definition wr_u8 :: "bytes \<Rightarrow> nat \<Rightarrow> u8 \<Rightarrow> bytes res" where
  "wr_u8 d i v = (if i < length d then Inr (splice d i [v]) else Inl Panic)"

section \<open>Checked arithmetic\<close>

definition checked_add :: "'a::len word \<Rightarrow> 'a word \<Rightarrow> 'a word option" where
  "checked_add a b = (if unat a + unat b < 2 ^ LENGTH('a) then Some (a + b) else None)"

definition checked_sub :: "'a::len word \<Rightarrow> 'a word \<Rightarrow> 'a word option" where
  "checked_sub a b = (if b \<le> a then Some (a - b) else None)"

definition saturating_sub :: "'a::len word \<Rightarrow> 'a word \<Rightarrow> 'a word" where
  "saturating_sub a b = (if b \<le> a then a - b else 0)"

definition div_ceil :: "nat \<Rightarrow> nat \<Rightarrow> nat" where
  "div_ceil a b = (if a mod b = 0 then a div b else a div b + 1)"

section \<open>Inversion of successful runs\<close>

lemma bindE_Inr [simp, run_simps]: "bindE m f = Inr y \<longleftrightarrow> (\<exists>x. m = Inr x \<and> f x = Inr y)"
  by (auto simp: bindE_def split: sum.splits)

lemma bindE_simps [simp]:
  "bindE (Inl e) f = Inl e"
  "bindE (Inr x) f = f x"
  by (simp_all add: bindE_def)

lemma ok_or_Inr [simp, run_simps]: "ok_or x e = Inr y \<longleftrightarrow> x = Some y"
  by (auto simp: ok_or_def split: option.splits)

lemma ok_or_Inl: "ok_or x e = Inl e' \<longleftrightarrow> x = None \<and> e' = e"
  by (auto simp: ok_or_def split: option.splits)

lemma ok_or_simps [simp]: "ok_or None e = Inl e" "ok_or (Some v) e = Inr v"
  by (simp_all add: ok_or_def)

lemma if_Inr [run_simps]: "(if c then a else b) = Inr y \<longleftrightarrow> c \<and> a = Inr y \<or> \<not> c \<and> b = Inr y"
  by simp

lemma get_at_Some [simp, run_simps]: "get_at xs i = Some x \<longleftrightarrow> i < length xs \<and> x = xs ! i"
  by (auto simp: get_at_def)

lemma foldE_append: "foldE f (xs @ ys) s = bindE (foldE f xs s) (foldE f ys)"
  by (induction xs arbitrary: s) (auto simp: bindE_def split: sum.splits)

text \<open>
  Loops of the source that can fail part way are \<open>foldE\<close>s. A loop body with an invariant
  gives the invariant for the whole loop.
\<close>

locale fold_invariant =
  fixes body :: "'x \<Rightarrow> 's \<Rightarrow> 'e + 's" and inv :: "'s \<Rightarrow> bool" and rel :: "'s \<Rightarrow> 's \<Rightarrow> bool"
  assumes body_inv: "inv s \<Longrightarrow> body x s = Inr s' \<Longrightarrow> inv s' \<and> rel s s'"
    and rel_refl: "rel s s"
    and rel_trans: "rel s1 s2 \<Longrightarrow> rel s2 s3 \<Longrightarrow> rel s1 s3"
begin

lemma fold_inv: "inv s \<Longrightarrow> foldE body xs s = Inr s' \<Longrightarrow> inv s' \<and> rel s s'"
proof (induction xs arbitrary: s)
  case Nil
  then show ?case by (simp add: rel_refl)
next
  case (Cons x xs)
  from Cons.prems(2) obtain s1 where s1: "body x s = Inr s1" "foldE body xs s1 = Inr s'"
    by auto
  from body_inv [OF Cons.prems(1) s1(1)] have "inv s1" "rel s s1" by auto
  with Cons.IH [OF _ s1(2)] show ?case by (blast intro: rel_trans)
qed

end

lemma rd_slice_Inr [simp, run_simps]:
  "rd_slice d off n = Inr bs \<longleftrightarrow> off + n \<le> length d \<and> bs = slice d off n"
  by (auto simp: rd_slice_def)

lemma wr_slice_Inr [simp, run_simps]:
  "wr_slice d off n bs = Inr d' \<longleftrightarrow> off + n \<le> length d \<and> length bs = n \<and> d' = splice d off bs"
  by (auto simp: wr_slice_def)

lemma rd_u8_Inr [simp, run_simps]: "rd_u8 d i = Inr v \<longleftrightarrow> i < length d \<and> v = d ! i"
  by (auto simp: rd_u8_def)

lemma wr_u8_Inr [simp, run_simps]:
  "wr_u8 d i v = Inr d' \<longleftrightarrow> i < length d \<and> d' = splice d i [v]"
  by (auto simp: wr_u8_def)

section \<open>Arithmetic facts\<close>

lemma checked_add_Some [run_simps]:
  "checked_add a b = Some c \<longleftrightarrow> unat a + unat b < 2 ^ LENGTH('a) \<and> c = a + b"
  for a b c :: "'a::len word"
  by (auto simp: checked_add_def)

lemma checked_add_unat:
  "checked_add a b = Some c \<Longrightarrow> unat c = unat a + unat b"
  for a b c :: "'a::len word"
  by (auto simp: checked_add_Some unat_word_ariths)

lemma checked_sub_Some [run_simps]:
  "checked_sub a b = Some c \<longleftrightarrow> b \<le> a \<and> c = a - b"
  for a b c :: "'a::len word"
  by (auto simp: checked_sub_def)

lemma checked_sub_unat:
  "checked_sub a b = Some c \<Longrightarrow> unat a = unat c + unat b"
  for a b c :: "'a::len word"
  by (auto simp: checked_sub_Some unat_sub_if' word_le_nat_alt)

lemma unat_sub_le: "b \<le> a \<Longrightarrow> unat (a - b) + unat b = unat a"
  for a b :: "'a::len word"
  by (simp add: unat_sub_if' word_le_nat_alt)

section \<open>Little-endian round trips\<close>

lemma unat_u8_less: "unat (b :: u8) < 256"
  using unsigned_less [of b, where 'a = nat] by simp

lemma length_le_bytes [simp]: "length (le_bytes n v) = n"
  by (induction n arbitrary: v) auto

lemma le_nat_le_bytes: "le_nat (le_bytes n v) = v mod 256 ^ n"
proof (induction n arbitrary: v)
  case 0
  then show ?case by simp
next
  case (Suc n)
  have "v mod 256 + 256 * (v div 256 mod 256 ^ n) = v mod (256 * 256 ^ n)"
    by (simp add: mod_mult2_eq)
  then show ?case by (simp add: Suc unat_of_nat)
qed

lemma le_nat_bound: "le_nat bs < 256 ^ length bs"
proof (induction bs)
  case Nil
  then show ?case by simp
next
  case (Cons b bs)
  have "unat b < 256" by (rule unat_u8_less)
  moreover have "256 * le_nat bs + 256 \<le> 256 * 256 ^ length bs"
    using Cons by (metis Suc_leI add.commute mult_Suc_right mult_le_mono2)
  ultimately show ?case by simp
qed

lemma le_bytes_le_nat: "le_bytes (length bs) (le_nat bs) = bs"
proof (induction bs)
  case Nil
  then show ?case by simp
next
  case (Cons b bs)
  have "unat b < 256" by (rule unat_u8_less)
  then have d: "(unat b + 256 * le_nat bs) div 256 = le_nat bs" by simp
  have m: "(of_nat (unat b + 256 * le_nat bs) :: u8) = b"
  proof -
    have z: "(256 :: u8) = 0" by simp
    show ?thesis by (simp add: of_nat_mult z del: word_of_nat_eq_0_iff)
  qed
  from d m Cons show ?case by simp
qed

lemma le_nat_zeros [simp]: "le_nat (replicate n 0) = 0"
  by (induction n) auto

lemma length_u_le [simp]:
  "length (u16_le v16) = 2" "length (u32_le v32) = 4" "length (u64_le v) = 8"
  by (simp_all add: u16_le_def u32_le_def u64_le_def)

lemma le_nat_u_le [simp]:
  "le_nat (u16_le v16) = unat v16" "le_nat (u32_le v32) = unat v32" "le_nat (u64_le v) = unat v"
  using unsigned_less [of v16, where 'a = nat] unsigned_less [of v32, where 'a = nat]
    unsigned_less [of v, where 'a = nat]
  by (simp_all add: u16_le_def u32_le_def u64_le_def le_nat_le_bytes)

section \<open>Slices and splices\<close>

lemma length_slice: "off + n \<le> length d \<Longrightarrow> length (slice d off n) = n"
  by (simp add: slice_def)

lemma length_splice [simp]: "length (splice d off bs) = length d"
  by (simp add: splice_def)

lemma splice_nth:
  "off + length bs \<le> length d \<Longrightarrow> i < length d \<Longrightarrow>
   splice d off bs ! i = (if off \<le> i \<and> i < off + length bs then bs ! (i - off) else d ! i)"
  by (auto simp: splice_def nth_append min_def)

lemma slice_nth: "off + n \<le> length d \<Longrightarrow> i < n \<Longrightarrow> slice d off n ! i = d ! (off + i)"
  by (simp add: slice_def)

lemma nth_as_slice: "i < length d \<Longrightarrow> d ! i = slice d i 1 ! 0"
  by (simp add: slice_def)

lemma slice_splice_same [byte_simps]:
  "off + length bs \<le> length d \<Longrightarrow> n = length bs \<Longrightarrow> slice (splice d off bs) off n = bs"
  by (simp add: slice_def splice_def)

lemma slice_splice_other [byte_simps]:
  assumes disj: "off' + n \<le> off \<or> off + length bs \<le> off'"
  shows "slice (splice d off bs) off' n = slice d off' n"
proof (cases "off + length bs \<le> length d")
  case False
  then show ?thesis by (simp add: splice_def)
next
  case fits: True
  show ?thesis
  proof (cases "off' + n \<le> off")
    case True
    then have "take n (drop off' (take off d)) = take n (drop off' d)"
      by (simp add: drop_take min_def)
    moreover have "n \<le> length (drop off' (take off d))" using True fits by simp
    ultimately show ?thesis
      using True fits by (simp add: slice_def splice_def)
  next
    case False
    with disj have le: "off + length bs \<le> off'" by simp
    then obtain j where "off' = off + length bs + j" using le_Suc_ex by blast
    with fits show ?thesis
      by (simp add: slice_def splice_def add.commute add.left_commute)
  qed
qed

lemma nth_splice_other [byte_simps]:
  "i < off \<or> off + length bs \<le> i \<Longrightarrow> splice d off bs ! i = d ! i"
  by (cases "i < length d") (auto simp: splice_nth splice_def nth_append)

lemma nth_splice_same [byte_simps]:
  "off < length d \<Longrightarrow> splice d off [v] ! off = v"
  by (simp add: splice_nth)

lemma get_u64_splice_other [byte_simps]:
  "off' + 8 \<le> off \<or> off + length bs \<le> off' \<Longrightarrow> get_u64 (splice d off bs) off' = get_u64 d off'"
  by (simp add: get_u64_def slice_splice_other)

lemma get_u32_splice_other [byte_simps]:
  "off' + 4 \<le> off \<or> off + length bs \<le> off' \<Longrightarrow> get_u32 (splice d off bs) off' = get_u32 d off'"
  by (simp add: get_u32_def slice_splice_other)

lemma get_u16_splice_other [byte_simps]:
  "off' + 2 \<le> off \<or> off + length bs \<le> off' \<Longrightarrow> get_u16 (splice d off bs) off' = get_u16 d off'"
  by (simp add: get_u16_def slice_splice_other)

lemma get_u64_splice_same [byte_simps]:
  "off + 8 \<le> length d \<Longrightarrow> get_u64 (splice d off (u64_le v)) off = v"
  by (simp add: get_u64_def slice_splice_same)

lemma get_u32_splice_same [byte_simps]:
  "off + 4 \<le> length d \<Longrightarrow> get_u32 (splice d off (u32_le v)) off = v"
  by (simp add: get_u32_def slice_splice_same)

lemma get_u16_splice_same [byte_simps]:
  "off + 2 \<le> length d \<Longrightarrow> get_u16 (splice d off (u16_le v)) off = v"
  by (simp add: get_u16_def slice_splice_same)

lemma u64_le_get_u64: "off + 8 \<le> length d \<Longrightarrow> u64_le (get_u64 d off) = slice d off 8"
proof -
  assume l: "off + 8 \<le> length d"
  have "le_nat (slice d off 8) < 2 ^ 64"
    using le_nat_bound [of "slice d off 8"] l by (simp add: length_slice)
  then have "unat (get_u64 d off) = le_nat (slice d off 8)"
    by (simp add: get_u64_def unat_of_nat)
  then show ?thesis
    using le_bytes_le_nat [of "slice d off 8"] l by (simp add: u64_le_def length_slice)
qed

lemma get_u64_word [simp]: "get_u64 (u64_le a) 0 = a" "get_u64 (u64_le a @ d) 0 = a"
  by (simp_all add: get_u64_def slice_def)

lemma u64_le_eq [simp]: "u64_le a = u64_le b \<longleftrightarrow> a = b"
  by (metis get_u64_word(1))

lemma slice_join: "slice d off n @ slice d (off + n) k = slice d off (n + k)"
  by (simp add: slice_def take_add add.commute [of off n])

lemma slice_single: "i < length d \<Longrightarrow> [d ! i] = slice d i 1"
  by (simp add: slice_def Cons_nth_drop_Suc [symmetric])

section \<open>Sums with finite support\<close>

definition total :: "('k \<Rightarrow> nat) \<Rightarrow> nat" where
  "total f = (\<Sum>k | f k \<noteq> 0. f k)"

lemma total_superset: "finite A \<Longrightarrow> {k. f k \<noteq> 0} \<subseteq> A \<Longrightarrow> total f = sum f A"
  unfolding total_def by (rule sum.mono_neutral_left) auto

lemma finite_support_upd: "finite {k. f k \<noteq> 0} \<Longrightarrow> finite {k. (f(x := v)) k \<noteq> (0::nat)}"
  by (rule finite_subset [of _ "insert x {k. f k \<noteq> 0}"]) auto

lemma total_upd:
  assumes "finite {k. f k \<noteq> 0}"
  shows "total (f(x := v)) + f x = total f + v"
proof -
  let ?A = "insert x {k. f k \<noteq> 0}"
  have fin: "finite ?A" using assms by simp
  have "total (f(x := v)) = sum (f(x := v)) ?A" by (rule total_superset [OF fin]) auto
  also have "\<dots> = v + sum (f(x := v)) (?A - {x})"
    using fin by (subst sum.remove [of ?A x]) auto
  also have "sum (f(x := v)) (?A - {x}) = sum f (?A - {x})" by (rule sum.cong) auto
  finally have 1: "total (f(x := v)) = v + sum f (?A - {x})" .
  have "total f = sum f ?A" by (rule total_superset [OF fin]) auto
  also have "\<dots> = f x + sum f (?A - {x})" using fin by (subst sum.remove [of ?A x]) auto
  finally show ?thesis using 1 by simp
qed

end
