(* ===== verification/Solana.thy ===== *)
theory Solana
  imports Prelude
begin

text \<open>
  The Solana side of every program: accounts, the account list of an instruction, the state of
  all accounts, and what a program gets from the cluster (clock, rent, program-derived addresses,
  hashing, the curve syscall, the instructions of the transaction, calls into other programs). That code is not part of the repository,
  so it is the parameter \<open>runtime\<close>; what the programs rely on is the locale \<open>solana\<close>, whose
  laws are the account modification rules of the runtime and the documented effect of the system
  program's instructions.
\<close>

section \<open>Accounts\<close>

record account =
  lamports :: u64
  owner :: key
  data :: bytes

text \<open>
  The state of every address; an address never used is a system account without data. Two
  positions of an account list with the same address share the account, as on the cluster.
\<close>

type_synonym store = "key \<Rightarrow> account"

record account_info =
  key :: key
  is_signer :: bool
  is_writable :: bool

definition SYSTEM_ID :: key where
  "SYSTEM_ID = replicate 32 0"

definition MAX_PERMITTED_DATA_INCREASE :: nat where
  "MAX_PERMITTED_DATA_INCREASE = 10240"

definition set_data :: "store \<Rightarrow> key \<Rightarrow> bytes \<Rightarrow> store" where
  "set_data s k d = s(k := (s k)\<lparr>data := d\<rparr>)"

definition set_lamports :: "store \<Rightarrow> key \<Rightarrow> u64 \<Rightarrow> store" where
  "set_lamports s k v = s(k := (s k)\<lparr>lamports := v\<rparr>)"

definition set_owner :: "store \<Rightarrow> key \<Rightarrow> key \<Rightarrow> store" where
  "set_owner s k p = s(k := (s k)\<lparr>owner := p\<rparr>)"

definition next_account_info :: "account_info list \<Rightarrow> (account_info \<times> account_info list) res" where
  "next_account_info it = (case it of [] \<Rightarrow> Inl NotEnoughAccountKeys | a # r \<Rightarrow> Inr (a, r))"

section \<open>Cross-program invocation\<close>

record instruction =
  ix_program :: key
  ix_accounts :: "account_info list"
  ix_data :: bytes

datatype system_ix =
    Transfer key key u64
  | CreateAccount key key u64 u64 key
  | Allocate key u64
  | Assign key key

datatype cpi = SystemCpi system_ix | ProgramCpi instruction

fun cpi_program :: "cpi \<Rightarrow> key" where
  "cpi_program (SystemCpi _) = SYSTEM_ID"
| "cpi_program (ProgramCpi i) = ix_program i"

record runtime =
  clock_slot :: u64
  unix_timestamp :: u64
  minimum_balance :: "nat \<Rightarrow> u64"
  find_program_address :: "bytes list \<Rightarrow> key \<Rightarrow> key \<times> u8"
  create_program_address :: "bytes list \<Rightarrow> key \<Rightarrow> key option"
  hashv :: "bytes list \<Rightarrow> bytes"
  curve_multiscalar :: "bytes \<Rightarrow> bytes \<Rightarrow> bytes option"
  load_instruction_at :: "nat \<Rightarrow> account_info \<Rightarrow> store \<Rightarrow> instruction res"
  invoke_signed :: "cpi \<Rightarrow> account_info list \<Rightarrow> bytes list list \<Rightarrow> store \<Rightarrow> store res"

definition invoke :: "runtime \<Rightarrow> cpi \<Rightarrow> account_info list \<Rightarrow> store \<Rightarrow> store res" where
  "invoke rt c infos s = invoke_signed rt c infos [] s"

section \<open>What the runtime guarantees\<close>

text \<open>
  Code of other programs changes neither the data nor the owner of an account owned by \<open>pid\<close>
  and never debits it; an account that becomes owned by \<open>pid\<close> has only zero bytes as data
  (only zeroed data can change owner).
\<close>

definition foreign_step :: "key \<Rightarrow> store \<Rightarrow> store \<Rightarrow> bool" where
  "foreign_step pid s s' \<longleftrightarrow>
     (\<forall>k. owner (s k) = pid \<longrightarrow>
        owner (s' k) = pid \<and> data (s' k) = data (s k) \<and> lamports (s k) \<le> lamports (s' k)) \<and>
     (\<forall>k. owner (s k) \<noteq> pid \<longrightarrow> owner (s' k) = pid \<longrightarrow> (\<forall>b \<in> set (data (s' k)). b = 0))"

definition same_data :: "key set \<Rightarrow> store \<Rightarrow> store \<Rightarrow> bool" where
  "same_data A s s' \<longleftrightarrow> (\<forall>k. k \<notin> A \<longrightarrow> owner (s' k) = owner (s k) \<and> data (s' k) = data (s k))"

locale solana =
  fixes rt :: runtime and pid :: key
  assumes pid_not_system: "pid \<noteq> SYSTEM_ID"
    and cpi_foreign:
      "invoke_signed rt c infos seeds s = Inr s' \<Longrightarrow> cpi_program c \<noteq> pid \<Longrightarrow> foreign_step pid s s'"
    and create_account_effect:
      "invoke_signed rt (SystemCpi (CreateAccount f t l n p)) infos seeds s = Inr s' \<Longrightarrow>
       owner (s t) = SYSTEM_ID \<and> data (s t) = [] \<and>
       owner (s' t) = p \<and> data (s' t) = replicate (unat n) 0 \<and> same_data {t} s s'"
    and allocate_effect:
      "invoke_signed rt (SystemCpi (Allocate t n)) infos seeds s = Inr s' \<Longrightarrow>
       owner (s t) = SYSTEM_ID \<and> data (s t) = [] \<and>
       owner (s' t) = SYSTEM_ID \<and> data (s' t) = replicate (unat n) 0 \<and> same_data {t} s s'"
    and assign_effect:
      "invoke_signed rt (SystemCpi (Assign t p)) infos seeds s = Inr s' \<Longrightarrow>
       owner (s' t) = p \<and> data (s' t) = data (s t) \<and> same_data {t} s s'"
    and transfer_effect:
      "invoke_signed rt (SystemCpi (Transfer f t l)) infos seeds s = Inr s' \<Longrightarrow>
       same_data {} s s'"

text \<open>
  The lamport side of the system program: an account with lamports cannot be created, a created
  account holds exactly the lamports it was given, and a transfer debits a system account and
  credits its target in full.
\<close>

locale solana_lamports = solana +
  assumes create_account_lamports:
      "invoke_signed rt (SystemCpi (CreateAccount f t l n p)) infos seeds s = Inr s' \<Longrightarrow>
       lamports (s t) = 0 \<and> lamports (s' t) = l"
    and transfer_lamports:
      "invoke_signed rt (SystemCpi (Transfer f t l)) infos seeds s = Inr s' \<Longrightarrow>
       owner (s f) = SYSTEM_ID \<and>
       (f \<noteq> t \<longrightarrow> unat (lamports (s' t)) = unat (lamports (s t)) + unat l)"

section \<open>A runtime that satisfies the laws\<close>

text \<open>
  The documented system program: transfers and creations debit a signing system account, a new
  account must be unused, only an empty system account is allocated or assigned. Other programs
  are refused. It is what the witnesses run against.
\<close>

definition signed_by :: "account_info list \<Rightarrow> key \<Rightarrow> bool" where
  "signed_by infos k \<longleftrightarrow> (\<exists>a \<in> set infos. key a = k \<and> is_signer a)"

definition move_lamports :: "key \<Rightarrow> key \<Rightarrow> u64 \<Rightarrow> store \<Rightarrow> store res" where
  "move_lamports f t l s =
     (if owner (s f) \<noteq> SYSTEM_ID \<or> data (s f) \<noteq> [] \<or> lamports (s f) < l then Inl (Cpi 1)
      else let s1 = set_lamports s f (lamports (s f) - l)
           in bindE (ok_or (checked_add (lamports (s1 t)) l) (Cpi 2)) (\<lambda>v. Inr (set_lamports s1 t v)))"

fun system_program :: "system_ix \<Rightarrow> account_info list \<Rightarrow> store \<Rightarrow> store res" where
  "system_program (Transfer f t l) infos s =
     (if \<not> signed_by infos f then Inl (Cpi 3) else move_lamports f t l s)"
| "system_program (CreateAccount f t l n p) infos s =
     (if \<not> signed_by infos f \<or> f = t then Inl (Cpi 3)
      else if lamports (s t) \<noteq> 0 \<or> owner (s t) \<noteq> SYSTEM_ID \<or> data (s t) \<noteq> [] then Inl (Cpi 0)
      else bindE (move_lamports f t l s) (\<lambda>s1.
        Inr (set_owner (set_data s1 t (replicate (unat n) 0)) t p)))"
| "system_program (Allocate t n) infos s =
     (if owner (s t) \<noteq> SYSTEM_ID \<or> data (s t) \<noteq> [] then Inl (Cpi 0)
      else Inr (set_data s t (replicate (unat n) 0)))"
| "system_program (Assign t p) infos s =
     (if owner (s t) \<noteq> SYSTEM_ID \<or> (\<exists>b \<in> set (data (s t)). b \<noteq> 0) then Inl (Cpi 0)
      else Inr (set_owner s t p))"

definition ref_invoke :: "cpi \<Rightarrow> account_info list \<Rightarrow> bytes list list \<Rightarrow> store \<Rightarrow> store res" where
  "ref_invoke c infos seeds s =
     (case c of SystemCpi i \<Rightarrow> system_program i infos s | ProgramCpi i \<Rightarrow> Inl (Cpi 9))"

text \<open>
  Concrete stand-ins for the remaining services: addresses are column sums of their seeds with
  bump 255, the hash is a length-prefixed concatenation, the curve operation always answers the
  same point.
\<close>

definition ref_address :: "bytes list \<Rightarrow> key" where
  "ref_address seeds =
     map (\<lambda>i. sum_list (map (\<lambda>sd. if i < length sd then sd ! i else 0) seeds)) [0..<32]"

definition ref_runtime :: runtime where
  "ref_runtime = \<lparr>clock_slot = 1000, unix_timestamp = 1000, minimum_balance = (\<lambda>n. of_nat (n + 100)),
     find_program_address = (\<lambda>seeds pid. (ref_address seeds, 255)),
     create_program_address = (\<lambda>seeds pid. Some (ref_address (butlast seeds))),
     hashv = (\<lambda>parts. concat (map (\<lambda>x. of_nat (length x) # x) parts)),
     curve_multiscalar = (\<lambda>scalars points. Some (replicate 32 5)),
     load_instruction_at = (\<lambda>_ _ _. Inl InvalidAccountData),
     invoke_signed = ref_invoke\<rparr>"

section \<open>Inversion and frame lemmas\<close>

lemma next_account_info_Inr [simp, run_simps]:
  "next_account_info it = Inr ar \<longleftrightarrow> it = fst ar # snd ar"
  by (cases it; cases ar) (auto simp: next_account_info_def)

lemma set_simps [simp]:
  "owner (set_data s k d j) = owner (s j)" "lamports (set_data s k d j) = lamports (s j)"
  "owner (set_lamports s k v j) = owner (s j)" "data (set_lamports s k v j) = data (s j)"
  "data (set_owner s k p j) = data (s j)" "lamports (set_owner s k p j) = lamports (s j)"
  by (simp_all add: set_data_def set_lamports_def set_owner_def)

lemma set_data_apply: "data (set_data s k d j) = (if j = k then d else data (s j))"
  by (simp add: set_data_def)

lemma set_owner_apply: "owner (set_owner s k p j) = (if j = k then p else owner (s j))"
  by (simp add: set_owner_def)

lemma set_lamports_apply: "lamports (set_lamports s k v j) = (if j = k then v else lamports (s j))"
  by (simp add: set_lamports_def)

lemmas set_apply = set_data_apply set_owner_apply set_lamports_apply

lemma set_data_same [simp]: "data (set_data s k d k) = d"
  by (simp add: set_data_apply)

lemma set_data_other [simp]: "j \<noteq> k \<Longrightarrow> set_data s k d j = s j"
  by (simp add: set_data_def)

lemma foreign_step_refl: "foreign_step pid s s"
  by (simp add: foreign_step_def)

lemma foreign_step_trans:
  "foreign_step pid s1 s2 \<Longrightarrow> foreign_step pid s2 s3 \<Longrightarrow> foreign_step pid s1 s3"
  unfolding foreign_step_def by (metis order_trans)

lemma foreign_step_set_lamports:
  "lamports (s k) \<le> v \<or> owner (s k) \<noteq> pid \<Longrightarrow> foreign_step pid s (set_lamports s k v)"
  by (auto simp: foreign_step_def set_lamports_apply)

lemma move_lamports_same_data: "move_lamports f t l s = Inr s' \<Longrightarrow> same_data {} s s'"
  by (auto simp: move_lamports_def Let_def same_data_def split: if_splits)

lemma checked_add_ge: "checked_add a b = Some c \<Longrightarrow> a \<le> c"
  for a b c :: "'a::len word"
  by (simp add: checked_add_unat word_le_nat_alt)

lemma move_lamports_foreign:
  assumes "move_lamports f t l s = Inr s'" and "pid \<noteq> SYSTEM_ID"
  shows "foreign_step pid s s'"
proof -
  let ?s1 = "set_lamports s f (lamports (s f) - l)"
  from assms(1) obtain v where f: "owner (s f) = SYSTEM_ID"
    and v: "checked_add (lamports (?s1 t)) l = Some v" and s': "s' = set_lamports ?s1 t v"
    by (auto simp: move_lamports_def Let_def split: if_splits)
  have "foreign_step pid s ?s1" using f assms(2) by (simp add: foreign_step_set_lamports)
  moreover have "foreign_step pid ?s1 s'"
    unfolding s' by (rule foreign_step_set_lamports) (use checked_add_ge [OF v] in simp)
  ultimately show ?thesis by (rule foreign_step_trans)
qed

lemma system_program_foreign:
  assumes "system_program i infos s = Inr s'" and "pid \<noteq> SYSTEM_ID"
  shows "foreign_step pid s s'"
proof (cases i)
  case (Transfer f t l)
  with assms show ?thesis by (auto intro: move_lamports_foreign split: if_splits)
next
  case (CreateAccount f t l n p)
  with assms(1) obtain s1 where s1: "move_lamports f t l s = Inr s1" and t: "owner (s t) = SYSTEM_ID"
    and s': "s' = set_owner (set_data s1 t (replicate (unat n) 0)) t p"
    by (auto split: if_splits)
  have "owner (s1 t) = SYSTEM_ID"
    using move_lamports_same_data [OF s1] t by (simp add: same_data_def)
  then have "foreign_step pid s1 s'"
    using assms(2) by (auto simp: s' foreign_step_def set_apply)
  with move_lamports_foreign [OF s1 assms(2)] show ?thesis by (rule foreign_step_trans)
next
  case (Allocate t n)
  with assms show ?thesis by (auto simp: foreign_step_def set_apply split: if_splits)
next
  case (Assign t p)
  with assms show ?thesis by (auto simp: foreign_step_def set_apply split: if_splits)
qed

lemma create_account_same_data:
  assumes "system_program (CreateAccount f t l n p) infos s = Inr s'"
  shows "owner (s t) = SYSTEM_ID \<and> data (s t) = [] \<and> owner (s' t) = p \<and>
    data (s' t) = replicate (unat n) 0 \<and> same_data {t} s s'"
  using assms
  by (auto simp: same_data_def set_apply dest!: move_lamports_same_data split: if_splits)

lemma ref_invoke_solana:
  assumes "invoke_signed rt = ref_invoke" and "pid \<noteq> SYSTEM_ID"
  shows "solana rt pid"
proof
  show "pid \<noteq> SYSTEM_ID" by (rule assms(2))
next
  fix c infos seeds s s'
  assume "invoke_signed rt c infos seeds s = Inr s'"
  then show "foreign_step pid s s'"
    using assms by (cases c) (auto simp: ref_invoke_def intro: system_program_foreign)
next
  fix f t l n p infos seeds s s'
  assume "invoke_signed rt (SystemCpi (CreateAccount f t l n p)) infos seeds s = Inr s'"
  then have "system_program (CreateAccount f t l n p) infos s = Inr s'"
    unfolding assms(1) ref_invoke_def by simp
  then show "owner (s t) = SYSTEM_ID \<and> data (s t) = [] \<and> owner (s' t) = p \<and>
    data (s' t) = replicate (unat n) 0 \<and> same_data {t} s s'"
    by (rule create_account_same_data)
qed (auto simp: assms ref_invoke_def same_data_def set_apply
       dest!: move_lamports_same_data split: if_splits)

lemma ref_runtime_solana: "pid \<noteq> SYSTEM_ID \<Longrightarrow> solana ref_runtime pid"
  by (rule ref_invoke_solana) (simp add: ref_runtime_def)

lemma move_lamports_target:
  assumes "move_lamports f t l s = Inr s'"
  shows "owner (s f) = SYSTEM_ID" and "f \<noteq> t \<Longrightarrow> unat (lamports (s' t)) = unat (lamports (s t)) + unat l"
  using assms
  by (auto simp: move_lamports_def Let_def set_lamports_apply checked_add_unat split: if_splits)

lemma create_account_lamports_ref:
  assumes "system_program (CreateAccount f t l n p) infos s = Inr s'"
  shows "lamports (s t) = 0 \<and> lamports (s' t) = l"
proof -
  from assms obtain s1 where s1: "move_lamports f t l s = Inr s1" "f \<noteq> t" "lamports (s t) = 0"
    and s': "lamports (s' t) = lamports (s1 t)" by (auto split: if_splits)
  from move_lamports_target(2) [OF s1(1,2)] s1(3) have "unat (lamports (s1 t)) = unat l" by simp
  with s' s1(3) show ?thesis by (simp add: word_unat_eq_iff)
qed

lemma ref_invoke_lamports:
  assumes "invoke_signed rt = ref_invoke" and "pid \<noteq> SYSTEM_ID"
  shows "solana_lamports rt pid"
proof (intro solana_lamports.intro solana_lamports_axioms.intro)
  show "solana rt pid" by (rule ref_invoke_solana [OF assms])
next
  fix f t l n p infos seeds s s'
  assume "invoke_signed rt (SystemCpi (CreateAccount f t l n p)) infos seeds s = Inr s'"
  then have "system_program (CreateAccount f t l n p) infos s = Inr s'"
    unfolding assms(1) ref_invoke_def by simp
  then show "lamports (s t) = 0 \<and> lamports (s' t) = l" by (rule create_account_lamports_ref)
next
  fix f t l infos seeds s s'
  assume "invoke_signed rt (SystemCpi (Transfer f t l)) infos seeds s = Inr s'"
  then have "move_lamports f t l s = Inr s'"
    unfolding assms(1) ref_invoke_def by (simp split: if_splits)
  then show "owner (s f) = SYSTEM_ID \<and> (f \<noteq> t \<longrightarrow> unat (lamports (s' t)) = unat (lamports (s t)) + unat l)"
    using move_lamports_target by blast
qed

lemma ref_runtime_lamports: "pid \<noteq> SYSTEM_ID \<Longrightarrow> solana_lamports ref_runtime pid"
  by (rule ref_invoke_lamports) (simp add: ref_runtime_def)

section \<open>Consequences of the laws\<close>

context solana
begin

lemma system_foreign:
  "invoke_signed rt (SystemCpi i) infos seeds s = Inr s' \<Longrightarrow> foreign_step pid s s'"
  using cpi_foreign pid_not_system by (metis cpi_program.simps(1))

lemma created_not_owned:
  "invoke_signed rt (SystemCpi (CreateAccount f t l n p)) infos seeds s = Inr s' \<Longrightarrow> owner (s t) \<noteq> pid"
  using create_account_effect pid_not_system by metis

end

end
