(* ===== verification/Codec.thy ===== *)
theory Codec
  imports Solana
begin

text \<open>
  Packed account records, as every program of the repository stores them: a record is written as
  a sequence of fixed slices and read back at the same offsets. The interface is the locale
  \<open>packed_record\<close>, extended by \<open>account_codec\<close> for records with a discriminator; each packed
  record of a program interprets one of them.
\<close>

section \<open>Sequences of writes\<close>

text \<open>A sequence of \<open>d[a..a + n].copy_from_slice(bs)\<close>.\<close>

definition wr_all :: "(nat \<times> nat \<times> bytes) list \<Rightarrow> bytes \<Rightarrow> bytes res" where
  "wr_all ws = foldE (\<lambda>(off, n, bs) d. wr_slice d off n bs) ws"

definition apart :: "nat \<Rightarrow> nat \<Rightarrow> nat \<times> nat \<times> bytes \<Rightarrow> bool" where
  "apart off n w \<longleftrightarrow> (case w of (off', n', _) \<Rightarrow> off + n \<le> off' \<or> off' + n' \<le> off)"

fun disjoint_writes :: "(nat \<times> nat \<times> bytes) list \<Rightarrow> bool" where
  "disjoint_writes [] = True"
| "disjoint_writes ((off, n, bs) # ws) = (list_all (apart off n) ws \<and> disjoint_writes ws)"

lemma wr_all_Nil [simp]: "wr_all [] d = Inr d"
  by (simp add: wr_all_def)

lemma wr_all_Cons [simp]:
  "wr_all ((off, n, bs) # ws) d = bindE (wr_slice d off n bs) (wr_all ws)"
  by (simp add: wr_all_def)

lemma wr_all_length: "wr_all ws d = Inr d' \<Longrightarrow> length d' = length d"
  by (induction ws arbitrary: d) auto

lemma wr_all_range:
  "wr_all ws d = Inr d' \<Longrightarrow> list_all (\<lambda>(off, n, bs). off + n \<le> length d \<and> length bs = n) ws"
proof (induction ws arbitrary: d)
  case Nil
  then show ?case by simp
next
  case (Cons w ws)
  obtain off n bs where w: "w = (off, n, bs)" by (cases w)
  with Cons.prems have "off + n \<le> length d" "length bs = n" "wr_all ws (splice d off bs) = Inr d'"
    by auto
  with Cons.IH w show ?case by fastforce
qed

lemma wr_all_total:
  "list_all (\<lambda>(off, n, bs). off + n \<le> length d \<and> length bs = n) ws \<Longrightarrow> \<exists>d'. wr_all ws d = Inr d'"
  by (induction ws arbitrary: d) (auto simp: bindE_def wr_slice_def)

lemma wr_all_other:
  "wr_all ws d = Inr d' \<Longrightarrow> list_all (apart off n) ws \<Longrightarrow> slice d' off n = slice d off n"
  by (induction ws arbitrary: d) (auto simp: apart_def slice_splice_other)

lemma wr_all_read:
  "wr_all ws d = Inr d' \<Longrightarrow> disjoint_writes ws \<Longrightarrow> (off, n, bs) \<in> set ws \<Longrightarrow> slice d' off n = bs"
proof (induction ws arbitrary: d)
  case Nil
  then show ?case by simp
next
  case (Cons w ws)
  obtain off' n' bs' where w: "w = (off', n', bs')" by (cases w)
  from Cons.prems(1) have fits: "off' + n' \<le> length d" "length bs' = n'"
    and rest: "wr_all ws (splice d off' bs') = Inr d'" by (auto simp: w)
  show ?case
  proof (cases "(off, n, bs) = (off', n', bs')")
    case True
    then have "slice d' off n = slice (splice d off' bs') off n"
      using Cons.prems(2) by (intro wr_all_other [OF rest]) (auto simp: w)
    with True fits show ?thesis by (simp add: slice_splice_same)
  next
    case False
    with Cons.prems show ?thesis by (intro Cons.IH [OF rest]) (auto simp: w)
  qed
qed

lemma wr_all_nth: "wr_all ws d = Inr d' \<Longrightarrow> disjoint_writes ws \<Longrightarrow> (off, 1, [b]) \<in> set ws \<Longrightarrow> d' ! off = b"
proof -
  assume a: "wr_all ws d = Inr d'" "disjoint_writes ws" "(off, 1, [b]) \<in> set ws"
  have "off < length d'"
    using wr_all_range [OF a(1)] wr_all_length [OF a(1)] a(3) by (auto simp: list_all_iff)
  then show ?thesis using wr_all_read [OF a] by (simp add: nth_as_slice [of off])
qed

lemma wr_all_u64:
  "wr_all ws d = Inr d' \<Longrightarrow> disjoint_writes ws \<Longrightarrow> (off, 8, u64_le v) \<in> set ws \<Longrightarrow> get_u64 d' off = v"
  using wr_all_read [of ws d d' off 8 "u64_le v"] by (simp add: get_u64_def)

lemma wr_all_u32:
  "wr_all ws d = Inr d' \<Longrightarrow> disjoint_writes ws \<Longrightarrow> (off, 4, u32_le v) \<in> set ws \<Longrightarrow> get_u32 d' off = v"
  using wr_all_read [of ws d d' off 4 "u32_le v"] by (simp add: get_u32_def)

lemma wr_all_u16:
  "wr_all ws d = Inr d' \<Longrightarrow> disjoint_writes ws \<Longrightarrow> (off, 2, u16_le v) \<in> set ws \<Longrightarrow> get_u16 d' off = v"
  using wr_all_read [of ws d d' off 2 "u16_le v"] by (simp add: get_u16_def)

section \<open>Packed records\<close>

locale packed_record =
  fixes pack :: "'a \<Rightarrow> bytes \<Rightarrow> bytes res" and of_bytes :: "bytes \<Rightarrow> 'a"
    and wf :: "'a \<Rightarrow> bool" and len :: nat
  assumes pack_length: "pack x d = Inr d' \<Longrightarrow> length d' = length d"
    and pack_of: "pack x d = Inr d' \<Longrightarrow> of_bytes d' = x"
    and pack_rest: "pack x d = Inr d' \<Longrightarrow> len \<le> off \<Longrightarrow> slice d' off n = slice d off n"
    and pack_wf: "pack x d = Inr d' \<Longrightarrow> wf x \<and> len \<le> length d"
    and pack_total: "wf x \<Longrightarrow> len \<le> length d \<Longrightarrow> \<exists>d'. pack x d = Inr d'"
    and of_wf: "len \<le> length d \<Longrightarrow> wf (of_bytes d)"
begin

lemma pack_inj: "pack x d = Inr d' \<Longrightarrow> pack y e = Inr d' \<Longrightarrow> x = y"
  using pack_of by metis

lemma pack_modify:
  "len \<le> length d \<Longrightarrow> wf (f (of_bytes d)) \<Longrightarrow>
   \<exists>d'. pack (f (of_bytes d)) d = Inr d' \<and> of_bytes d' = f (of_bytes d) \<and> length d' = length d"
  using pack_total pack_of pack_length by metis

lemma pack_iff: "(\<exists>d'. pack x d = Inr d') \<longleftrightarrow> wf x \<and> len \<le> length d"
  using pack_wf pack_total by blast

end

text \<open>A record that starts with an eight-byte discriminator.\<close>

locale account_codec = packed_record +
  fixes disc :: bytes
  assumes pack_disc: "pack x d = Inr d' \<Longrightarrow> slice d' 0 8 = disc"
begin

lemma packed_differ: "pack x d = Inr d' \<Longrightarrow> slice e 0 8 \<noteq> disc \<Longrightarrow> d' \<noteq> e"
  using pack_disc by blast

end

lemmas write_simps = disjoint_writes.simps apart_def

end
