(* ===== verification/XsState.thy ===== *)
theory XsState
  imports Codec
begin

text \<open>
  Errors and account layouts of the program \<open>x402_settle\<close> (\<open>programs/x402_settle/src/error.rs\<close>
  and \<open>state.rs\<close>): error codes, constants, byte helpers, the account checks, and the ledger,
  channel and batch header with their packed forms. Escrow and book accounts are accessed at
  field offsets by the source, and so they are here.
\<close>

named_theorems xs_const \<open>constants of the program\<close>

section \<open>error.rs\<close>

datatype xs_error =
    InvalidInstruction | InvalidAccount | AccountInUse | MintNotAllowed
  | Unauthorized | InsufficientFunds | MathOverflow | BadSignature
  | VoucherExpired | StaleVoucher | PairPending | PairMismatch
  | PairTableFull | SlotMismatch | ExitNotReady | EscrowBusy
  | InvalidPayerKey | ChannelState | ChannelExpired | ChannelNotExpired
  | DisputeOpen | OverDeposit | BatchState | BatchDeadline
  | BatchNotTimedOut | ChunkAlreadyStaged | BadChunk | BadMerkleProof
  | BatchIncomplete | BatchTotalMismatch | BatchPayeesFull | BatchOutstanding
  | Insolvent | InvalidParams | WrongPendingBatch | DuplicatePair

definition ERROR_BASE :: u32 where
  "ERROR_BASE = 0x58530000"

fun discr :: "xs_error \<Rightarrow> nat" where
  "discr InvalidInstruction = 1"
| "discr InvalidAccount = 2"
| "discr AccountInUse = 3"
| "discr MintNotAllowed = 4"
| "discr Unauthorized = 5"
| "discr InsufficientFunds = 6"
| "discr MathOverflow = 7"
| "discr BadSignature = 8"
| "discr VoucherExpired = 9"
| "discr StaleVoucher = 10"
| "discr PairPending = 11"
| "discr PairMismatch = 12"
| "discr PairTableFull = 13"
| "discr SlotMismatch = 14"
| "discr ExitNotReady = 15"
| "discr EscrowBusy = 16"
| "discr InvalidPayerKey = 17"
| "discr ChannelState = 18"
| "discr ChannelExpired = 19"
| "discr ChannelNotExpired = 20"
| "discr DisputeOpen = 21"
| "discr OverDeposit = 22"
| "discr BatchState = 23"
| "discr BatchDeadline = 24"
| "discr BatchNotTimedOut = 25"
| "discr ChunkAlreadyStaged = 26"
| "discr BadChunk = 27"
| "discr BadMerkleProof = 28"
| "discr BatchIncomplete = 29"
| "discr BatchTotalMismatch = 30"
| "discr BatchPayeesFull = 31"
| "discr BatchOutstanding = 32"
| "discr Insolvent = 33"
| "discr InvalidParams = 34"
| "discr WrongPendingBatch = 35"
| "discr DuplicatePair = 36"

definition code :: "xs_error \<Rightarrow> u32" where
  "code e = ERROR_BASE + of_nat (discr e)"

definition err :: "xs_error \<Rightarrow> perr" where
  "err e = Custom (code e)"

abbreviation fail :: "xs_error \<Rightarrow> 'a res" where
  "fail e \<equiv> Inl (err e)"

section \<open>state.rs: constants\<close>

definition ascii :: "string \<Rightarrow> bytes" where
  "ascii str = map of_char str"

definition LEDGER_SEED :: bytes where "LEDGER_SEED = ascii ''ledger''"
definition VAULT_SEED :: bytes where "VAULT_SEED = ascii ''vault''"
definition ESCROW_SEED :: bytes where "ESCROW_SEED = ascii ''escrow''"
definition BOOK_SEED :: bytes where "BOOK_SEED = ascii ''book''"
definition CHANNEL_SEED :: bytes where "CHANNEL_SEED = ascii ''channel''"
definition BATCH_SEED :: bytes where "BATCH_SEED = ascii ''batch''"

definition DISC_LEDGER :: bytes where "DISC_LEDGER = ascii ''x4sLEDGR''"
definition DISC_ESCROW :: bytes where "DISC_ESCROW = ascii ''x4sESCRW''"
definition DISC_BOOK :: bytes where "DISC_BOOK = ascii ''x4sBOOK_''"
definition DISC_CHANNEL :: bytes where "DISC_CHANNEL = ascii ''x4sCHANL''"
definition DISC_BATCH :: bytes where "DISC_BATCH = ascii ''x4sBATCH''"

definition EXIT_DELAY_SLOTS :: u64 where [xs_const]: "EXIT_DELAY_SLOTS = 9000"
definition DISPUTE_SLOTS :: u64 where [xs_const]: "DISPUTE_SLOTS = 1500"
definition BATCH_TIMEOUT_SLOTS :: u64 where [xs_const]: "BATCH_TIMEOUT_SLOTS = 1500"
definition MAX_CHANNEL_SLOTS :: u64 where [xs_const]: "MAX_CHANNEL_SLOTS = 6480000"
definition MAX_PAIRS :: nat where [xs_const, simp]: "MAX_PAIRS = 255"
definition BOOK_SLOTS :: nat where [xs_const, simp]: "BOOK_SLOTS = 64"
definition MAX_CHUNKS :: nat where [xs_const, simp]: "MAX_CHUNKS = 256"
definition MAX_CHUNK_LOG :: nat where [xs_const, simp]: "MAX_CHUNK_LOG = 5"
definition MAX_BATCH_PAYEES :: nat where [xs_const, simp]: "MAX_BATCH_PAYEES = 16"

definition KIND_SOL :: u8 where [xs_const, simp]: "KIND_SOL = 0"
definition KIND_TOKEN :: u8 where [xs_const, simp]: "KIND_TOKEN = 1"
definition KIND_TOKEN_2022 :: u8 where [xs_const, simp]: "KIND_TOKEN_2022 = 2"

definition CH_OPEN :: u8 where [xs_const, simp]: "CH_OPEN = 1"
definition CH_CLOSING :: u8 where [xs_const, simp]: "CH_CLOSING = 2"
definition CH_CLOSED :: u8 where [xs_const, simp]: "CH_CLOSED = 3"

definition B_STAGING :: u8 where [xs_const, simp]: "B_STAGING = 1"
definition B_COMMITTED :: u8 where [xs_const, simp]: "B_COMMITTED = 2"
definition B_ABORTED :: u8 where [xs_const, simp]: "B_ABORTED = 3"

section \<open>state.rs: byte helpers\<close>

definition rd_u64 :: "bytes \<Rightarrow> nat \<Rightarrow> u64 res" where
  "rd_u64 d off = bindE (rd_slice d off 8) (\<lambda>b. Inr (of_nat (le_nat b)))"

definition wr_u64 :: "bytes \<Rightarrow> nat \<Rightarrow> u64 \<Rightarrow> bytes res" where
  "wr_u64 d off v = wr_slice d off 8 (u64_le v)"

definition rd_u32 :: "bytes \<Rightarrow> nat \<Rightarrow> u32 res" where
  "rd_u32 d off = bindE (rd_slice d off 4) (\<lambda>b. Inr (of_nat (le_nat b)))"

definition wr_u32 :: "bytes \<Rightarrow> nat \<Rightarrow> u32 \<Rightarrow> bytes res" where
  "wr_u32 d off v = wr_slice d off 4 (u32_le v)"

definition rd_u16 :: "bytes \<Rightarrow> nat \<Rightarrow> u16 res" where
  "rd_u16 d off = bindE (rd_slice d off 2) (\<lambda>b. Inr (of_nat (le_nat b)))"

definition wr_u16 :: "bytes \<Rightarrow> nat \<Rightarrow> u16 \<Rightarrow> bytes res" where
  "wr_u16 d off v = wr_slice d off 2 (u16_le v)"

definition rd_key :: "bytes \<Rightarrow> nat \<Rightarrow> key res" where
  "rd_key d off = rd_slice d off 32"

section \<open>state.rs: account checks\<close>

definition check_program_account ::
  "store \<Rightarrow> account_info \<Rightarrow> key \<Rightarrow> bytes \<Rightarrow> nat option \<Rightarrow> unit res" where
  "check_program_account s acc pid disc len =
     (if owner (s (key acc)) \<noteq> pid then fail InvalidAccount
      else let d = data (s (key acc)) in
        if length d < 9 \<or> slice d 0 8 \<noteq> disc then fail InvalidAccount
        else (case len of None \<Rightarrow> Inr ()
              | Some l \<Rightarrow> if length d \<noteq> l then fail InvalidAccount else Inr ()))"

definition check_pda :: "runtime \<Rightarrow> key \<Rightarrow> bytes list \<Rightarrow> u8 \<Rightarrow> key \<Rightarrow> unit res" where
  "check_pda rt k seeds bump pid =
     (if 6 \<le> length seeds then Inl Panic
      else bindE (ok_or (create_program_address rt (seeds @ [[bump]]) pid) (err InvalidAccount)) (\<lambda>pda.
        if pda \<noteq> k then fail InvalidAccount else Inr ()))"

section \<open>state.rs: ledger\<close>

definition LEDGER_LEN :: nat where [xs_const, simp]: "LEDGER_LEN = 192"

record ledger =
  l_bump :: u8
  l_vault_bump :: u8
  l_kind :: u8
  l_decimals :: u8
  l_mint :: key
  l_token_program :: key
  l_vault :: key
  l_salt :: bytes
  l_exit_delay_slots :: u64
  l_dispute_slots :: u64
  l_batch_timeout_slots :: u64
  l_liabilities :: u64
  l_next_scope :: u64
  l_created_slot :: u64

definition ledger_of :: "bytes \<Rightarrow> ledger" where
  "ledger_of d = \<lparr>l_bump = d ! 8, l_vault_bump = d ! 9, l_kind = d ! 10, l_decimals = d ! 11,
     l_mint = slice d 16 32, l_token_program = slice d 48 32, l_vault = slice d 80 32,
     l_salt = slice d 112 32, l_exit_delay_slots = get_u64 d 144, l_dispute_slots = get_u64 d 152,
     l_batch_timeout_slots = get_u64 d 160, l_liabilities = get_u64 d 168,
     l_next_scope = get_u64 d 176, l_created_slot = get_u64 d 184\<rparr>"

definition ledger_unpack :: "bytes \<Rightarrow> ledger res" where
  "ledger_unpack d = (if length d < LEDGER_LEN then Inl Panic else Inr (ledger_of d))"

definition ledger_pack :: "ledger \<Rightarrow> bytes \<Rightarrow> bytes res" where
  "ledger_pack l d = wr_all
     [(0, 8, DISC_LEDGER), (8, 1, [l_bump l]), (9, 1, [l_vault_bump l]), (10, 1, [l_kind l]),
      (11, 1, [l_decimals l]), (12, 4, replicate 4 0), (16, 32, l_mint l),
      (48, 32, l_token_program l), (80, 32, l_vault l), (112, 32, l_salt l),
      (144, 8, u64_le (l_exit_delay_slots l)), (152, 8, u64_le (l_dispute_slots l)),
      (160, 8, u64_le (l_batch_timeout_slots l)), (168, 8, u64_le (l_liabilities l)),
      (176, 8, u64_le (l_next_scope l)), (184, 8, u64_le (l_created_slot l))] d"

definition ledger_load :: "runtime \<Rightarrow> store \<Rightarrow> account_info \<Rightarrow> key \<Rightarrow> ledger res" where
  "ledger_load rt s acc pid =
     bindE (check_program_account s acc pid DISC_LEDGER (Some LEDGER_LEN)) (\<lambda>_.
     bindE (ledger_unpack (data (s (key acc)))) (\<lambda>l.
     bindE (check_pda rt (key acc) [LEDGER_SEED, l_mint l] (l_bump l) pid) (\<lambda>_. Inr l)))"

definition ledger_store :: "ledger \<Rightarrow> account_info \<Rightarrow> store \<Rightarrow> store res" where
  "ledger_store l acc s =
     bindE (ledger_pack l (data (s (key acc)))) (\<lambda>d. Inr (set_data s (key acc) d))"

definition liabilities_add :: "ledger \<Rightarrow> u64 \<Rightarrow> ledger res" where
  "liabilities_add l v =
     bindE (ok_or (checked_add (l_liabilities l) v) (err MathOverflow)) (\<lambda>x. Inr (l\<lparr>l_liabilities := x\<rparr>))"

definition liabilities_sub :: "ledger \<Rightarrow> u64 \<Rightarrow> ledger res" where
  "liabilities_sub l v =
     bindE (ok_or (checked_sub (l_liabilities l) v) (err MathOverflow)) (\<lambda>x. Inr (l\<lparr>l_liabilities := x\<rparr>))"

section \<open>state.rs: escrow\<close>

definition ESCROW_HDR :: nat where [xs_const, simp]: "ESCROW_HDR = 120"
definition PAIR_LEN :: nat where [xs_const, simp]: "PAIR_LEN = 56"

definition escrow_len :: "nat \<Rightarrow> nat" where
  "escrow_len capacity = ESCROW_HDR + capacity * PAIR_LEN"

definition E_BUMP :: nat where [xs_const, simp]: "E_BUMP = 8"
definition E_CAPACITY :: nat where [xs_const, simp]: "E_CAPACITY = 10"
definition E_PAIR_COUNT :: nat where [xs_const, simp]: "E_PAIR_COUNT = 11"
definition E_PENDING_COUNT :: nat where [xs_const, simp]: "E_PENDING_COUNT = 12"
definition E_LEDGER :: nat where [xs_const, simp]: "E_LEDGER = 16"
definition E_PAYER :: nat where [xs_const, simp]: "E_PAYER = 48"
definition E_SCOPE :: nat where [xs_const, simp]: "E_SCOPE = 80"
definition E_BALANCE :: nat where [xs_const, simp]: "E_BALANCE = 88"
definition E_EXIT_AMOUNT :: nat where [xs_const, simp]: "E_EXIT_AMOUNT = 96"
definition E_EXIT_READY :: nat where [xs_const, simp]: "E_EXIT_READY = 104"
definition E_OPEN_CHANNELS :: nat where [xs_const, simp]: "E_OPEN_CHANNELS = 112"
definition P_PAYEE :: nat where [xs_const, simp]: "P_PAYEE = 0"
definition P_SETTLED :: nat where [xs_const, simp]: "P_SETTLED = 32"
definition P_PENDING_CUM :: nat where [xs_const, simp]: "P_PENDING_CUM = 40"
definition P_PENDING_BATCH :: nat where [xs_const, simp]: "P_PENDING_BATCH = 48"

definition check_escrow :: "runtime \<Rightarrow> store \<Rightarrow> account_info \<Rightarrow> key \<Rightarrow> (key \<times> key) res" where
  "check_escrow rt s acc pid =
     bindE (check_program_account s acc pid DISC_ESCROW None) (\<lambda>_.
     let d = data (s (key acc)) in
     if length d < ESCROW_HDR \<or> length d \<noteq> escrow_len (unat (d ! E_CAPACITY)) then fail InvalidAccount
     else
       bindE (rd_key d E_LEDGER) (\<lambda>led.
       bindE (rd_key d E_PAYER) (\<lambda>payer.
       bindE (rd_u8 d E_BUMP) (\<lambda>bump.
       bindE (check_pda rt (key acc) [ESCROW_SEED, led, payer] bump pid) (\<lambda>_. Inr (led, payer))))))"

definition pair_off :: "nat \<Rightarrow> nat" where
  "pair_off i = ESCROW_HDR + i * PAIR_LEN"

section \<open>state.rs: book\<close>

definition BOOK_HDR :: nat where [xs_const, simp]: "BOOK_HDR = 48"
definition SLOT_LEN :: nat where [xs_const, simp]: "SLOT_LEN = 40"
definition BOOK_LEN :: nat where [xs_const, simp]: "BOOK_LEN = BOOK_HDR + BOOK_SLOTS * SLOT_LEN"

definition K_BUMP :: nat where [xs_const, simp]: "K_BUMP = 8"
definition K_USED :: nat where [xs_const, simp]: "K_USED = 10"
definition K_PAGE :: nat where [xs_const, simp]: "K_PAGE = 12"
definition K_LEDGER :: nat where [xs_const, simp]: "K_LEDGER = 16"
definition S_OWNER :: nat where [xs_const, simp]: "S_OWNER = 0"
definition S_BALANCE :: nat where [xs_const, simp]: "S_BALANCE = 32"

definition slot_off :: "nat \<Rightarrow> nat" where
  "slot_off i = BOOK_HDR + i * SLOT_LEN"

definition check_book :: "runtime \<Rightarrow> store \<Rightarrow> account_info \<Rightarrow> key \<Rightarrow> key res" where
  "check_book rt s acc pid =
     bindE (check_program_account s acc pid DISC_BOOK (Some BOOK_LEN)) (\<lambda>_.
     let d = data (s (key acc)) in
     bindE (rd_key d K_LEDGER) (\<lambda>led.
     bindE (rd_u32 d K_PAGE) (\<lambda>page.
     bindE (rd_u8 d K_BUMP) (\<lambda>bump.
     bindE (check_pda rt (key acc) [BOOK_SEED, led, u32_le page] bump pid) (\<lambda>_. Inr led)))))"

section \<open>state.rs: channel\<close>

definition CHANNEL_LEN :: nat where [xs_const, simp]: "CHANNEL_LEN = 168"

record channel =
  c_bump :: u8
  c_status :: u8
  c_ledger :: key
  c_payer :: key
  c_payee :: key
  c_channel_id :: u64
  c_scope :: u64
  c_deposit :: u64
  c_balance :: u64
  c_best_cum :: u64
  c_expiry_slot :: u64
  c_dispute_end_slot :: u64

definition channel_of :: "bytes \<Rightarrow> channel" where
  "channel_of d = \<lparr>c_bump = d ! 8, c_status = d ! 9, c_ledger = slice d 16 32,
     c_payer = slice d 48 32, c_payee = slice d 80 32, c_channel_id = get_u64 d 112,
     c_scope = get_u64 d 120, c_deposit = get_u64 d 128, c_balance = get_u64 d 136,
     c_best_cum = get_u64 d 144, c_expiry_slot = get_u64 d 152, c_dispute_end_slot = get_u64 d 160\<rparr>"

definition channel_unpack :: "bytes \<Rightarrow> channel res" where
  "channel_unpack d = (if length d < CHANNEL_LEN then Inl Panic else Inr (channel_of d))"

definition channel_pack :: "channel \<Rightarrow> bytes \<Rightarrow> bytes res" where
  "channel_pack c d = wr_all
     [(0, 8, DISC_CHANNEL), (8, 1, [c_bump c]), (9, 1, [c_status c]), (10, 6, replicate 6 0),
      (16, 32, c_ledger c), (48, 32, c_payer c), (80, 32, c_payee c),
      (112, 8, u64_le (c_channel_id c)), (120, 8, u64_le (c_scope c)), (128, 8, u64_le (c_deposit c)),
      (136, 8, u64_le (c_balance c)), (144, 8, u64_le (c_best_cum c)),
      (152, 8, u64_le (c_expiry_slot c)), (160, 8, u64_le (c_dispute_end_slot c))] d"

definition channel_load :: "runtime \<Rightarrow> store \<Rightarrow> account_info \<Rightarrow> key \<Rightarrow> channel res" where
  "channel_load rt s acc pid =
     bindE (check_program_account s acc pid DISC_CHANNEL (Some CHANNEL_LEN)) (\<lambda>_.
     bindE (channel_unpack (data (s (key acc)))) (\<lambda>c.
     bindE (check_pda rt (key acc)
        [CHANNEL_SEED, c_ledger c, c_payer c, c_payee c, u64_le (c_channel_id c)] (c_bump c) pid)
       (\<lambda>_. Inr c)))"

definition channel_store :: "channel \<Rightarrow> account_info \<Rightarrow> store \<Rightarrow> store res" where
  "channel_store c acc s =
     bindE (channel_pack c (data (s (key acc)))) (\<lambda>d. Inr (set_data s (key acc) d))"

section \<open>state.rs: batch\<close>

definition BATCH_HDR :: nat where [xs_const, simp]: "BATCH_HDR = 168"
definition BITMAP_LEN :: nat where [xs_const, simp]: "BITMAP_LEN = MAX_CHUNKS div 8"
definition BATCH_PAYEE_LEN :: nat where [xs_const, simp]: "BATCH_PAYEE_LEN = 48"
definition BATCH_PAYEES_OFF :: nat where [xs_const, simp]: "BATCH_PAYEES_OFF = BATCH_HDR + BITMAP_LEN"
definition BATCH_LEN :: nat where
  [xs_const, simp]: "BATCH_LEN = BATCH_PAYEES_OFF + MAX_BATCH_PAYEES * BATCH_PAYEE_LEN"

record batch_hdr =
  b_bump :: u8
  b_status :: u8
  b_chunk_log :: u8
  b_chunk_size :: u8
  b_n_payees :: u8
  b_num_chunks :: u16
  b_chunks_staged :: u16
  b_ledger :: key
  b_submitter :: key
  b_batch_id :: u64
  b_root :: bytes
  b_count :: u32
  b_staged_count :: u32
  b_total :: u64
  b_staged_total :: u64
  b_held :: u64
  b_deadline_slot :: u64
  b_outstanding :: u32

definition batch_of :: "bytes \<Rightarrow> batch_hdr" where
  "batch_of d = \<lparr>b_bump = d ! 8, b_status = d ! 9, b_chunk_log = d ! 10, b_chunk_size = d ! 11,
     b_n_payees = d ! 12, b_num_chunks = get_u16 d 13, b_chunks_staged = get_u16 d 15,
     b_ledger = slice d 24 32, b_submitter = slice d 56 32, b_batch_id = get_u64 d 88,
     b_root = slice d 96 32, b_count = get_u32 d 128, b_staged_count = get_u32 d 132,
     b_total = get_u64 d 136, b_staged_total = get_u64 d 144, b_held = get_u64 d 152,
     b_deadline_slot = get_u64 d 160, b_outstanding = get_u32 d 17\<rparr>"

definition batch_unpack :: "bytes \<Rightarrow> batch_hdr res" where
  "batch_unpack d = (if length d < BATCH_HDR then Inl Panic else Inr (batch_of d))"

definition batch_pack :: "batch_hdr \<Rightarrow> bytes \<Rightarrow> bytes res" where
  "batch_pack b d = wr_all
     [(0, 8, DISC_BATCH), (8, 1, [b_bump b]), (9, 1, [b_status b]), (10, 1, [b_chunk_log b]),
      (11, 1, [b_chunk_size b]), (12, 1, [b_n_payees b]), (13, 2, u16_le (b_num_chunks b)),
      (15, 2, u16_le (b_chunks_staged b)), (17, 4, u32_le (b_outstanding b)), (21, 3, replicate 3 0),
      (24, 32, b_ledger b), (56, 32, b_submitter b), (88, 8, u64_le (b_batch_id b)), (96, 32, b_root b),
      (128, 4, u32_le (b_count b)), (132, 4, u32_le (b_staged_count b)), (136, 8, u64_le (b_total b)),
      (144, 8, u64_le (b_staged_total b)), (152, 8, u64_le (b_held b)),
      (160, 8, u64_le (b_deadline_slot b))] d"

definition batch_load :: "runtime \<Rightarrow> store \<Rightarrow> account_info \<Rightarrow> key \<Rightarrow> batch_hdr res" where
  "batch_load rt s acc pid =
     bindE (check_program_account s acc pid DISC_BATCH (Some BATCH_LEN)) (\<lambda>_.
     bindE (batch_unpack (data (s (key acc)))) (\<lambda>b.
     bindE (check_pda rt (key acc) [BATCH_SEED, b_ledger b, u64_le (b_batch_id b)] (b_bump b) pid)
       (\<lambda>_. Inr b)))"

definition batch_payee_off :: "nat \<Rightarrow> nat" where
  "batch_payee_off i = BATCH_PAYEES_OFF + i * BATCH_PAYEE_LEN"

section \<open>Inversion of the byte helpers\<close>

lemma rd_u_Inr [simp, run_simps]:
  "rd_u64 d off = Inr v \<longleftrightarrow> off + 8 \<le> length d \<and> v = get_u64 d off"
  "rd_u32 d off = Inr v32 \<longleftrightarrow> off + 4 \<le> length d \<and> v32 = get_u32 d off"
  "rd_u16 d off = Inr v16 \<longleftrightarrow> off + 2 \<le> length d \<and> v16 = get_u16 d off"
  "rd_key d off = Inr k \<longleftrightarrow> off + 32 \<le> length d \<and> k = slice d off 32"
  by (auto simp: rd_u64_def rd_u32_def rd_u16_def rd_key_def get_u64_def get_u32_def get_u16_def)

lemma wr_u_Inr [simp, run_simps]:
  "wr_u64 d off v = Inr d' \<longleftrightarrow> off + 8 \<le> length d \<and> d' = splice d off (u64_le v)"
  "wr_u32 d off v32 = Inr d' \<longleftrightarrow> off + 4 \<le> length d \<and> d' = splice d off (u32_le v32)"
  "wr_u16 d off v16 = Inr d' \<longleftrightarrow> off + 2 \<le> length d \<and> d' = splice d off (u16_le v16)"
  by (auto simp: wr_u64_def wr_u32_def wr_u16_def)

lemma length_DISC [simp]:
  "length DISC_LEDGER = 8" "length DISC_ESCROW = 8" "length DISC_BOOK = 8"
  "length DISC_CHANNEL = 8" "length DISC_BATCH = 8"
  by (simp_all add: DISC_LEDGER_def DISC_ESCROW_def DISC_BOOK_def DISC_CHANNEL_def DISC_BATCH_def
        ascii_def)

lemma distinct_DISC:
  "distinct [DISC_LEDGER, DISC_ESCROW, DISC_BOOK, DISC_CHANNEL, DISC_BATCH, replicate 8 0]"
proof -
  have z: "replicate 8 (0 :: u8) = [0, 0, 0, 0, 0, 0, 0, 0]" by (simp add: numeral_eq_Suc)
  show ?thesis
    by (simp add: DISC_LEDGER_def DISC_ESCROW_def DISC_BOOK_def DISC_CHANNEL_def DISC_BATCH_def
        ascii_def z)
qed

lemma DISC_neq [simp]:
  "DISC_LEDGER \<noteq> DISC_ESCROW" "DISC_LEDGER \<noteq> DISC_BOOK" "DISC_LEDGER \<noteq> DISC_CHANNEL"
  "DISC_LEDGER \<noteq> DISC_BATCH" "DISC_ESCROW \<noteq> DISC_BOOK" "DISC_ESCROW \<noteq> DISC_CHANNEL"
  "DISC_ESCROW \<noteq> DISC_BATCH" "DISC_BOOK \<noteq> DISC_CHANNEL" "DISC_BOOK \<noteq> DISC_BATCH"
  "DISC_CHANNEL \<noteq> DISC_BATCH"
  using distinct_DISC by auto

lemmas DISC_neq_sym [simp] = DISC_neq [symmetric]

end
