(* ===== verification/XsLayout.thy ===== *)
theory XsLayout
  imports XsState
begin

text \<open>
  Facts about the account layouts of \<open>x402_settle\<close>: packed records round-trip and leave the
  rest of the account alone (the locale \<open>account_codec\<close> of \<open>Codec\<close>, interpreted for ledger, channel and
  batch header), and what the load and check functions have established when they succeed.
\<close>

section \<open>Account kinds\<close>

definition is_ledger :: "key \<Rightarrow> account \<Rightarrow> bool" where
  "is_ledger pid a \<longleftrightarrow> owner a = pid \<and> length (data a) = LEDGER_LEN \<and> slice (data a) 0 8 = DISC_LEDGER"

definition is_escrow :: "key \<Rightarrow> account \<Rightarrow> bool" where
  "is_escrow pid a \<longleftrightarrow> owner a = pid \<and> slice (data a) 0 8 = DISC_ESCROW \<and>
     length (data a) = escrow_len (unat (data a ! E_CAPACITY))"

definition is_book :: "key \<Rightarrow> account \<Rightarrow> bool" where
  "is_book pid a \<longleftrightarrow> owner a = pid \<and> length (data a) = BOOK_LEN \<and> slice (data a) 0 8 = DISC_BOOK"

definition is_channel :: "key \<Rightarrow> account \<Rightarrow> bool" where
  "is_channel pid a \<longleftrightarrow> owner a = pid \<and> length (data a) = CHANNEL_LEN \<and> slice (data a) 0 8 = DISC_CHANNEL"

definition is_batch :: "key \<Rightarrow> account \<Rightarrow> bool" where
  "is_batch pid a \<longleftrightarrow> owner a = pid \<and> length (data a) = BATCH_LEN \<and> slice (data a) 0 8 = DISC_BATCH"

definition ledger_wf :: "ledger \<Rightarrow> bool" where
  "ledger_wf l \<longleftrightarrow> length (l_mint l) = 32 \<and> length (l_token_program l) = 32 \<and>
     length (l_vault l) = 32 \<and> length (l_salt l) = 32"

definition channel_wf :: "channel \<Rightarrow> bool" where
  "channel_wf c \<longleftrightarrow> length (c_ledger c) = 32 \<and> length (c_payer c) = 32 \<and> length (c_payee c) = 32"

definition batch_wf :: "batch_hdr \<Rightarrow> bool" where
  "batch_wf b \<longleftrightarrow> length (b_ledger b) = 32 \<and> length (b_submitter b) = 32 \<and> length (b_root b) = 32"

section \<open>Packed records\<close>

interpretation ledger_codec: account_codec ledger_pack ledger_of ledger_wf LEDGER_LEN DISC_LEDGER
proof
  fix x d d'
  assume p: "ledger_pack x d = Inr d'"
  note w = p [unfolded ledger_pack_def]
  note dj = write_simps
  show "length d' = length d" by (rule wr_all_length [OF w])
  show "slice d' 0 8 = DISC_LEDGER" by (rule wr_all_read [OF w]) (simp_all add: dj)
  show "ledger_of d' = x"
    by (rule ledger.equality; simp add: ledger_of_def;
        (rule wr_all_nth [OF w] wr_all_u64 [OF w] wr_all_u32 [OF w] wr_all_u16 [OF w]
          wr_all_read [OF w]); simp add: dj)
  show "ledger_wf x \<and> LEDGER_LEN \<le> length d"
    using wr_all_range [OF w] by (simp add: ledger_wf_def)
  show "slice d' off n = slice d off n" if "LEDGER_LEN \<le> off" for off n
    by (rule wr_all_other [OF w]) (use that in \<open>simp add: dj\<close>)
next
  show "\<exists>d'. ledger_pack x d = Inr d'" if "ledger_wf x" "LEDGER_LEN \<le> length d" for x d
    unfolding ledger_pack_def by (rule wr_all_total) (use that in \<open>simp add: ledger_wf_def\<close>)
  show "ledger_wf (ledger_of d)" if "LEDGER_LEN \<le> length d" for d
    using that by (simp add: ledger_wf_def ledger_of_def length_slice)
qed

interpretation channel_codec: account_codec channel_pack channel_of channel_wf CHANNEL_LEN DISC_CHANNEL
proof
  fix x d d'
  assume p: "channel_pack x d = Inr d'"
  note w = p [unfolded channel_pack_def]
  note dj = write_simps
  show "length d' = length d" by (rule wr_all_length [OF w])
  show "slice d' 0 8 = DISC_CHANNEL" by (rule wr_all_read [OF w]) (simp_all add: dj)
  show "channel_of d' = x"
    by (rule channel.equality; simp add: channel_of_def;
        (rule wr_all_nth [OF w] wr_all_u64 [OF w] wr_all_u32 [OF w] wr_all_u16 [OF w]
          wr_all_read [OF w]); simp add: dj)
  show "channel_wf x \<and> CHANNEL_LEN \<le> length d"
    using wr_all_range [OF w] by (simp add: channel_wf_def)
  show "slice d' off n = slice d off n" if "CHANNEL_LEN \<le> off" for off n
    by (rule wr_all_other [OF w]) (use that in \<open>simp add: dj\<close>)
next
  show "\<exists>d'. channel_pack x d = Inr d'" if "channel_wf x" "CHANNEL_LEN \<le> length d" for x d
    unfolding channel_pack_def by (rule wr_all_total) (use that in \<open>simp add: channel_wf_def\<close>)
  show "channel_wf (channel_of d)" if "CHANNEL_LEN \<le> length d" for d
    using that by (simp add: channel_wf_def channel_of_def length_slice)
qed

interpretation batch_codec: account_codec batch_pack batch_of batch_wf BATCH_HDR DISC_BATCH
proof
  fix x d d'
  assume p: "batch_pack x d = Inr d'"
  note w = p [unfolded batch_pack_def]
  note dj = write_simps
  show "length d' = length d" by (rule wr_all_length [OF w])
  show "slice d' 0 8 = DISC_BATCH" by (rule wr_all_read [OF w]) (simp_all add: dj)
  show "batch_of d' = x"
    by (rule batch_hdr.equality; simp add: batch_of_def;
        (rule wr_all_nth [OF w] wr_all_u64 [OF w] wr_all_u32 [OF w] wr_all_u16 [OF w]
          wr_all_read [OF w]); simp add: dj)
  show "batch_wf x \<and> BATCH_HDR \<le> length d"
    using wr_all_range [OF w] by (simp add: batch_wf_def)
  show "slice d' off n = slice d off n" if "BATCH_HDR \<le> off" for off n
    by (rule wr_all_other [OF w]) (use that in \<open>simp add: dj\<close>)
next
  show "\<exists>d'. batch_pack x d = Inr d'" if "batch_wf x" "BATCH_HDR \<le> length d" for x d
    unfolding batch_pack_def by (rule wr_all_total) (use that in \<open>simp add: batch_wf_def\<close>)
  show "batch_wf (batch_of d)" if "BATCH_HDR \<le> length d" for d
    using that by (simp add: batch_wf_def batch_of_def length_slice)
qed

end
