(* ===== verification/XsToken.thy ===== *)
theory XsToken
  imports XsLayout
begin

text \<open>
  \<open>programs/x402_settle/src/token.rs\<close>: the mint check with the Token-2022 extension allowlist,
  reads of token accounts and the two token instructions the program issues.
\<close>

definition TOKEN_ID :: key where
  "TOKEN_ID =
    [6, 221, 246, 225, 215, 101, 161, 147, 217, 203, 225, 70, 206, 235, 121, 172,
     28, 180, 133, 237, 95, 91, 55, 145, 58, 140, 245, 133, 126, 255, 0, 169]"

definition TOKEN_2022_ID :: key where
  "TOKEN_2022_ID =
    [6, 221, 246, 225, 238, 117, 143, 222, 24, 66, 93, 188, 228, 108, 205, 218,
     182, 26, 252, 77, 131, 185, 13, 39, 254, 189, 249, 40, 216, 161, 139, 252]"

definition MINT_BASE_LEN :: nat where [xs_const, simp]: "MINT_BASE_LEN = 82"
definition ACCOUNT_LEN :: nat where [xs_const, simp]: "ACCOUNT_LEN = 165"
definition MAX_MINT_EXTENSIONS :: nat where [xs_const, simp]: "MAX_MINT_EXTENSIONS = 32"

definition ALLOWED_MINT_EXTENSIONS :: "u16 list" where
  "ALLOWED_MINT_EXTENSIONS = [3, 18, 19, 20, 21, 22, 23]"

text \<open>The TLV loop of \<open>check_mint\<close>: \<open>off\<close> is the offset of the next entry, \<open>n\<close> the entries read.\<close>

function mint_extensions :: "bytes \<Rightarrow> nat \<Rightarrow> nat \<Rightarrow> unit res" where
  "mint_extensions d off n =
     (if off + 4 \<le> length d then
        let ty = get_u16 d off; len = unat (get_u16 d (off + 2)) in
        if ty = 0 then Inr ()
        else if n + 1 > MAX_MINT_EXTENSIONS \<or> ty \<notin> set ALLOWED_MINT_EXTENSIONS then fail MintNotAllowed
        else if off + (4 + len) \<ge> 2 ^ 64 then fail MintNotAllowed
        else mint_extensions d (off + (4 + len)) (n + 1)
      else Inr ())"
  by pat_completeness auto
termination
  by (relation "measure (\<lambda>(d, off, n). length d - off)") auto

definition check_mint :: "store \<Rightarrow> account_info \<Rightarrow> key \<Rightarrow> u8 res" where
  "check_mint s mint token_program =
     (if owner (s (key mint)) \<noteq> token_program then fail MintNotAllowed
      else let d = data (s (key mint)) in
        if length d < MINT_BASE_LEN \<or> d ! 45 \<noteq> 1 then fail MintNotAllowed
        else let decimals = d ! 44 in
          if length d = MINT_BASE_LEN then Inr decimals
          else if token_program \<noteq> TOKEN_2022_ID then fail MintNotAllowed
          else if length d < ACCOUNT_LEN + 1 \<or> d ! ACCOUNT_LEN \<noteq> 1 then fail MintNotAllowed
          else bindE (mint_extensions d (ACCOUNT_LEN + 1) 0) (\<lambda>_. Inr decimals))"

definition account_amount :: "bytes \<Rightarrow> u64 res" where
  "account_amount d = (if length d < ACCOUNT_LEN then fail InvalidAccount else Inr (get_u64 d 64))"

definition initialize_account3 :: "key \<Rightarrow> key \<Rightarrow> key \<Rightarrow> key \<Rightarrow> instruction" where
  "initialize_account3 token_program account mint own =
     \<lparr>ix_program = token_program,
      ix_accounts = [\<lparr>key = account, is_signer = False, is_writable = True\<rparr>,
                     \<lparr>key = mint, is_signer = False, is_writable = False\<rparr>],
      ix_data = 18 # own\<rparr>"

definition transfer_checked :: "key \<Rightarrow> key \<Rightarrow> key \<Rightarrow> key \<Rightarrow> key \<Rightarrow> u64 \<Rightarrow> u8 \<Rightarrow> instruction" where
  "transfer_checked token_program source mint destination authority amount decimals =
     \<lparr>ix_program = token_program,
      ix_accounts = [\<lparr>key = source, is_signer = False, is_writable = True\<rparr>,
                     \<lparr>key = mint, is_signer = False, is_writable = False\<rparr>,
                     \<lparr>key = destination, is_signer = False, is_writable = True\<rparr>,
                     \<lparr>key = authority, is_signer = True, is_writable = False\<rparr>],
      ix_data = 12 # u64_le amount @ [decimals]\<rparr>"

declare mint_extensions.simps [simp del]

section \<open>The extension allowlist\<close>

text \<open>
  The TLV entries a reader of the mint sees from offset \<open>off\<close>: type and length, up to the
  first uninitialised entry.
\<close>

function tlv_entries :: "bytes \<Rightarrow> nat \<Rightarrow> u16 list" where
  "tlv_entries d off =
     (if off + 4 \<le> length d \<and> get_u16 d off \<noteq> 0
      then get_u16 d off # tlv_entries d (off + (4 + unat (get_u16 d (off + 2)))) else [])"
  by pat_completeness auto
termination
  by (relation "measure (\<lambda>(d, off). length d - off)") auto

declare tlv_entries.simps [simp del]

lemma mint_extensions_allowed:
  "mint_extensions d off n = Inr () \<Longrightarrow>
   set (tlv_entries d off) \<subseteq> set ALLOWED_MINT_EXTENSIONS \<and>
   length (tlv_entries d off) + n \<le> max n MAX_MINT_EXTENSIONS"
proof (induction d off n rule: mint_extensions.induct)
  case (1 d off n)
  show ?case
  proof (cases "off + 4 \<le> length d \<and> get_u16 d off \<noteq> 0")
    case False
    then show ?thesis by (auto simp: tlv_entries.simps [of d off])
  next
    case True
    let ?next = "off + (4 + unat (get_u16 d (off + 2)))"
    from True 1(2) have "n + 1 \<le> 32" "get_u16 d off \<in> set ALLOWED_MINT_EXTENSIONS"
      "mint_extensions d ?next (n + 1) = Inr ()" and small: "?next < 2 ^ 64"
      by (auto simp: mint_extensions.simps [of d off n] Let_def split: if_splits)
    with 1(1) [OF _ refl refl] True show ?thesis
      by (auto simp: tlv_entries.simps [of d off])
  qed
qed

lemma mint_extensions_small_len:
  assumes "length d < 2 ^ 60" "n + length (tlv_entries d off) \<le> 32"
    and "set (tlv_entries d off) \<subseteq> set ALLOWED_MINT_EXTENSIONS"
  shows "mint_extensions d off n = Inr ()"
  using assms
proof (induction d off n rule: mint_extensions.induct)
  case (1 d off n)
  show ?case
  proof (cases "off + 4 \<le> length d \<and> get_u16 d off \<noteq> 0")
    case False
    then show ?thesis by (auto simp: mint_extensions.simps [of d off n])
  next
    case True
    let ?next = "off + (4 + unat (get_u16 d (off + 2)))"
    have "unat (get_u16 d (off + 2)) < 2 ^ 16"
      using unsigned_less [of "get_u16 d (off + 2)", where 'a = nat] by simp
    with True 1(2) have small: "\<not> ?next \<ge> 2 ^ 64" by simp
    from True 1(3,4) have "n + 1 \<le> 32" "get_u16 d off \<in> set ALLOWED_MINT_EXTENSIONS"
      "n + 1 + length (tlv_entries d ?next) \<le> 32"
      "set (tlv_entries d ?next) \<subseteq> set ALLOWED_MINT_EXTENSIONS"
      by (auto simp: tlv_entries.simps [of d off])
    with True small 1(1) [OF _ refl refl] 1(2) show ?thesis
      by (simp add: mint_extensions.simps [of d off n] Let_def)
  qed
qed

end
