(* ===== verification/XsCrypto.thy ===== *)
theory XsCrypto
  imports XsToken
begin

text \<open>
  \<open>programs/x402_settle/src/crypto.rs\<close>: scalar arithmetic modulo the ed25519 group order,
  the payer key check, the portable SHA-512, signature verification, the voucher message and the
  Merkle tree of two-phase batches. The curve multiplication (the syscall \<open>sol_curve_multiscalar_mul\<close>
  of the on-chain build, given two scalars and two points) and \<open>hashv\<close> (SHA-256) are the runtime's.
\<close>

section \<open>Constants\<close>

definition VOUCHER_TAG :: bytes where "VOUCHER_TAG = ascii ''X402STL1''"
definition MSG_LEN :: nat where [xs_const, simp]: "MSG_LEN = 224"
definition SALT_DOMAIN :: bytes where "SALT_DOMAIN = ascii ''x402-settle:domain:v1''"

definition BASEPOINT :: bytes where "BASEPOINT = 0x58 # replicate 31 0x66"

definition MASK :: u64 where "MASK = push_bit 52 1 - 1"
definition L52 :: "u64 list" where
  "L52 = [0x2631a5cf5d3ed, 0xdea2f79cd6581, 0x14def9, 0, 0x100000000000]"
definition R52 :: "u64 list" where
  "R52 = [0xf48bd6721e6ed, 0x3bab5ac67e45a, 0xfffffeb35e51b, 0xfffffffffffff, 0xfffffffffff]"
definition RR52 :: "u64 list" where
  "RR52 = [0x9d265e952d13b, 0xd63c715bea69f, 0x5be65cb687604, 0x3dceec73d217f, 0x9411b7c309a]"
definition LFACTOR :: u64 where "LFACTOR = 0x51da312547e1b"
definition L64 :: "u64 list" where
  "L64 = [0x5812631a5cf5d3ed, 0x14def9dea2f79cd6, 0, 0x1000000000000000]"
definition P64 :: "u64 list" where
  "P64 = [0xffffffffffffffed, 0xffffffffffffffff, 0xffffffffffffffff, 0x7fffffffffffffff]"

definition SMALL_ORDER_Y :: "bytes list" where
  "SMALL_ORDER_Y =
    [replicate 32 0,
     1 # replicate 31 0,
     [0xec, 0xff, 0xff, 0xff, 0xff, 0xff, 0xff, 0xff, 0xff, 0xff, 0xff, 0xff, 0xff, 0xff, 0xff, 0xff,
      0xff, 0xff, 0xff, 0xff, 0xff, 0xff, 0xff, 0xff, 0xff, 0xff, 0xff, 0xff, 0xff, 0xff, 0xff, 0x7f],
     [0x26, 0xe8, 0x95, 0x8f, 0xc2, 0xb2, 0x27, 0xb0, 0x45, 0xc3, 0xf4, 0x89, 0xf2, 0xef, 0x98, 0xf0,
      0xd5, 0xdf, 0xac, 0x05, 0xd3, 0xc6, 0x33, 0x39, 0xb1, 0x38, 0x02, 0x88, 0x6d, 0x53, 0xfc, 0x05],
     [0xc7, 0x17, 0x6a, 0x70, 0x3d, 0x4d, 0xd8, 0x4f, 0xba, 0x3c, 0x0b, 0x76, 0x0d, 0x10, 0x67, 0x0f,
      0x2a, 0x20, 0x53, 0xfa, 0x2c, 0x39, 0xcc, 0xc6, 0x4e, 0xc7, 0xfd, 0x77, 0x92, 0xac, 0x03, 0x7a]]"

section \<open>Scalar arithmetic\<close>

definition mul128 :: "u64 \<Rightarrow> u64 \<Rightarrow> u128" where
  "mul128 a b = ucast a * ucast b"

definition sub52 :: "u64 list \<Rightarrow> u64 list \<Rightarrow> u64 list" where
  "sub52 a b =
     (let (borrow, d) = fold (\<lambda>i (borrow, d).
            let w = a ! i - (b ! i + drop_bit 63 borrow) in (w, d @ [w AND MASK])) [0..<5] (0, []);
          under = 0 - drop_bit 63 borrow;
          (carry, r) = fold (\<lambda>i (carry, r).
            let c = drop_bit 52 carry + d ! i + (L52 ! i AND under) in (c, r @ [c AND MASK])) [0..<5] (0, [])
      in r)"

definition add52 :: "u64 list \<Rightarrow> u64 list \<Rightarrow> u64 list" where
  "add52 a b =
     (let (carry, s) = fold (\<lambda>i (carry, s).
            let c = a ! i + b ! i + drop_bit 52 carry in (c, s @ [c AND MASK])) [0..<5] (0, [])
      in sub52 s L52)"

definition part1 :: "u128 \<Rightarrow> u128 \<times> u64" where
  "part1 x = (let p = (ucast x * LFACTOR) AND MASK in (drop_bit 52 (x + mul128 p (L52 ! 0)), p))"

definition part2 :: "u128 \<Rightarrow> u128 \<times> u64" where
  "part2 x = (drop_bit 52 x, ucast x AND MASK)"

definition mont_mul :: "u64 list \<Rightarrow> u64 list \<Rightarrow> u64 list" where
  "mont_mul a b =
     (let z = fold (\<lambda>i z. fold (\<lambda>j z. z[i + j := z ! (i + j) + mul128 (a ! i) (b ! j)]) [0..<5] z)
            [0..<5] (replicate 9 0);
          l = L52;
          (c, n0) = part1 (z ! 0);
          (c, n1) = part1 (c + z ! 1 + mul128 n0 (l ! 1));
          (c, n2) = part1 (c + z ! 2 + mul128 n0 (l ! 2) + mul128 n1 (l ! 1));
          (c, n3) = part1 (c + z ! 3 + mul128 n1 (l ! 2) + mul128 n2 (l ! 1));
          (c, n4) = part1 (c + z ! 4 + mul128 n0 (l ! 4) + mul128 n2 (l ! 2) + mul128 n3 (l ! 1));
          (c, r0) = part2 (c + z ! 5 + mul128 n1 (l ! 4) + mul128 n3 (l ! 2) + mul128 n4 (l ! 1));
          (c, r1) = part2 (c + z ! 6 + mul128 n2 (l ! 4) + mul128 n4 (l ! 2));
          (c, r2) = part2 (c + z ! 7 + mul128 n3 (l ! 4));
          (c, r3) = part2 (c + z ! 8 + mul128 n4 (l ! 4));
          r4 = ucast c
      in sub52 [r0, r1, r2, r3, r4] L52)"

definition rd64 :: "bytes \<Rightarrow> nat \<Rightarrow> u64" where
  "rd64 b off = get_u64 b off"

definition reduce_wide :: "bytes \<Rightarrow> u64 list" where
  "reduce_wide b =
     (let w = map (\<lambda>i. rd64 b (8 * i)) [0..<8];
          lo = [(w ! 0) AND MASK,
                (drop_bit 52 (w ! 0) OR push_bit 12 (w ! 1)) AND MASK,
                (drop_bit 40 (w ! 1) OR push_bit 24 (w ! 2)) AND MASK,
                (drop_bit 28 (w ! 2) OR push_bit 36 (w ! 3)) AND MASK,
                (drop_bit 16 (w ! 3) OR push_bit 48 (w ! 4)) AND MASK];
          hi = [drop_bit 4 (w ! 4) AND MASK,
                (drop_bit 56 (w ! 4) OR push_bit 8 (w ! 5)) AND MASK,
                (drop_bit 44 (w ! 5) OR push_bit 20 (w ! 6)) AND MASK,
                (drop_bit 32 (w ! 6) OR push_bit 32 (w ! 7)) AND MASK,
                drop_bit 20 (w ! 7)]
      in add52 (mont_mul hi RR52) (mont_mul lo R52))"

definition limbs_to_bytes :: "u64 list \<Rightarrow> bytes" where
  "limbs_to_bytes l =
     (let w = [(l ! 0) OR push_bit 52 (l ! 1),
               drop_bit 12 (l ! 1) OR push_bit 40 (l ! 2),
               drop_bit 24 (l ! 2) OR push_bit 28 (l ! 3),
               drop_bit 36 (l ! 3) OR push_bit 16 (l ! 4)]
      in concat (map u64_le w))"

definition neg52 :: "u64 list \<Rightarrow> u64 list" where
  "neg52 k = sub52 (replicate 5 0) k"

text \<open>The comparison loops run from the most significant word down; \<open>ws\<close> is the word list reversed.\<close>

fun words_below :: "(u64 \<times> u64) list \<Rightarrow> bool" where
  "words_below [] = False"
| "words_below ((v, l) # ws) = (if v < l then True else if v > l then False else words_below ws)"

definition is_canonical_scalar :: "bytes \<Rightarrow> bool" where
  "is_canonical_scalar s = words_below (map (\<lambda>i. (rd64 s (8 * i), L64 ! i)) (rev [0..<4]))"

definition is_strict_pubkey :: "bytes \<Rightarrow> bool" where
  "is_strict_pubkey pk =
     (let y = pk[31 := pk ! 31 AND 0x7f] in
      if \<not> words_below (map (\<lambda>i. (rd64 y (8 * i), P64 ! i)) (rev [0..<4])) then False
      else \<not> list_ex (\<lambda>q. q = y) SMALL_ORDER_Y)"

section \<open>SHA-512\<close>

definition K512 :: "u64 list" where
  "K512 =
    [0x428A2F98D728AE22, 0x7137449123EF65CD, 0xB5C0FBCFEC4D3B2F, 0xE9B5DBA58189DBBC,
     0x3956C25BF348B538, 0x59F111F1B605D019, 0x923F82A4AF194F9B, 0xAB1C5ED5DA6D8118,
     0xD807AA98A3030242, 0x12835B0145706FBE, 0x243185BE4EE4B28C, 0x550C7DC3D5FFB4E2,
     0x72BE5D74F27B896F, 0x80DEB1FE3B1696B1, 0x9BDC06A725C71235, 0xC19BF174CF692694,
     0xE49B69C19EF14AD2, 0xEFBE4786384F25E3, 0x0FC19DC68B8CD5B5, 0x240CA1CC77AC9C65,
     0x2DE92C6F592B0275, 0x4A7484AA6EA6E483, 0x5CB0A9DCBD41FBD4, 0x76F988DA831153B5,
     0x983E5152EE66DFAB, 0xA831C66D2DB43210, 0xB00327C898FB213F, 0xBF597FC7BEEF0EE4,
     0xC6E00BF33DA88FC2, 0xD5A79147930AA725, 0x06CA6351E003826F, 0x142929670A0E6E70,
     0x27B70A8546D22FFC, 0x2E1B21385C26C926, 0x4D2C6DFC5AC42AED, 0x53380D139D95B3DF,
     0x650A73548BAF63DE, 0x766A0ABB3C77B2A8, 0x81C2C92E47EDAEE6, 0x92722C851482353B,
     0xA2BFE8A14CF10364, 0xA81A664BBC423001, 0xC24B8B70D0F89791, 0xC76C51A30654BE30,
     0xD192E819D6EF5218, 0xD69906245565A910, 0xF40E35855771202A, 0x106AA07032BBD1B8,
     0x19A4C116B8D2D0C8, 0x1E376C085141AB53, 0x2748774CDF8EEB99, 0x34B0BCB5E19B48A8,
     0x391C0CB3C5C95A63, 0x4ED8AA4AE3418ACB, 0x5B9CCA4F7763E373, 0x682E6FF3D6B2B8A3,
     0x748F82EE5DEFB2FC, 0x78A5636F43172F60, 0x84C87814A1F0AB72, 0x8CC702081A6439EC,
     0x90BEFFFA23631E28, 0xA4506CEBDE82BDE9, 0xBEF9A3F7B2C67915, 0xC67178F2E372532B,
     0xCA273ECEEA26619C, 0xD186B8C721C0C207, 0xEADA7DD6CDE0EB1E, 0xF57D4F7FEE6ED178,
     0x06F067AA72176FBA, 0x0A637DC5A2C898A6, 0x113F9804BEF90DAE, 0x1B710B35131C471B,
     0x28DB77F523047D84, 0x32CAAB7B40C72493, 0x3C9EBE0A15C9BEBC, 0x431D67C49C100D4C,
     0x4CC5D4BECB3E42B6, 0x597F299CFC657E2A, 0x5FCB6FAB3AD6FAEC, 0x6C44198C4A475817]"

definition IV512 :: "u64 list" where
  "IV512 =
    [0x6A09E667F3BCC908, 0xBB67AE8584CAA73B, 0x3C6EF372FE94F82B, 0xA54FF53A5F1D36F1,
     0x510E527FADE682D1, 0x9B05688C2B3E6C1F, 0x1F83D9ABFB41BD6B, 0x5BE0CD19137E2179]"

definition u64_be :: "u64 \<Rightarrow> bytes" where
  "u64_be v = rev (u64_le v)"

definition get_u64_be :: "bytes \<Rightarrow> nat \<Rightarrow> u64" where
  "get_u64_be d off = of_nat (le_nat (rev (slice d off 8)))"

text \<open>One round of \<open>compress\<close>: the rolling schedule \<open>w\<close> and the eight working variables.\<close>

definition round512 :: "nat \<Rightarrow> u64 list \<times> u64 list \<Rightarrow> u64 list \<times> u64 list" where
  "round512 t st =
     (let (w, v) = st;
          (w, wt) = (if t < 16 then (w, w ! t)
            else let w15 = w ! ((t + 1) mod 16); w2 = w ! ((t + 14) mod 16);
                     s0 = word_rotr 1 w15 XOR word_rotr 8 w15 XOR drop_bit 7 w15;
                     s1 = word_rotr 19 w2 XOR word_rotr 61 w2 XOR drop_bit 6 w2;
                     x = w ! (t mod 16) + s0 + w ! ((t + 9) mod 16) + s1
                 in (w[t mod 16 := x], x));
          a = v ! 0; b = v ! 1; c = v ! 2; d = v ! 3; e = v ! 4; f = v ! 5; g = v ! 6; hh = v ! 7;
          s1 = word_rotr 14 e XOR word_rotr 18 e XOR word_rotr 41 e;
          ch = (e AND f) XOR (NOT e AND g);
          t1 = hh + s1 + ch + K512 ! t + wt;
          s0 = word_rotr 28 a XOR word_rotr 34 a XOR word_rotr 39 a;
          maj = (a AND b) XOR (a AND c) XOR (b AND c);
          t2 = s0 + maj
      in (w, [t1 + t2, a, b, c, d + t1, e, f, g]))"

definition compress :: "u64 list \<Rightarrow> bytes \<Rightarrow> u64 list" where
  "compress h block =
     (let w = map (\<lambda>i. get_u64_be block (8 * i)) [0..<16];
          (w', v) = fold round512 [0..<80] (w, h)
      in map2 (+) h v)"

text \<open>
  The inner loop of \<open>sha512\<close>: bytes are copied into the 128-byte buffer and the buffer is
  compressed when it is full. \<open>n < 128\<close> at every iteration, so each one makes progress.
\<close>

function absorb :: "u64 list \<Rightarrow> bytes \<Rightarrow> nat \<Rightarrow> bytes \<Rightarrow> u64 list \<times> bytes \<times> nat" where
  "absorb h buf n rest =
     (if rest = [] \<or> 128 \<le> n then (h, buf, n)
      else let tk = min (128 - n) (length rest);
               buf = splice buf n (take tk rest);
               n = n + tk;
               rest = drop tk rest
           in if n = 128 then absorb (compress h buf) buf 0 rest else absorb h buf n rest)"
  by pat_completeness auto
termination
  by (relation "measure (\<lambda>(h, buf, n, rest). length rest)") auto

declare absorb.simps [simp del]

definition sha512 :: "bytes list \<Rightarrow> bytes" where
  "sha512 parts =
     (let (h, buf, n) = foldl (\<lambda>(h, buf, n) p. absorb h buf n p) (IV512, replicate 128 0, 0) parts;
          total = (of_nat (sum_list (map length parts)) :: u64);
          buf = splice buf n [0x80];
          n = n + 1;
          (h, buf, n) = (if 112 < n
             then let buf = splice buf n (replicate (128 - n) 0) in (compress h buf, buf, 0)
             else (h, buf, n));
          buf = splice buf n (replicate (120 - n) 0);
          buf = splice buf 120 (u64_be (total * 8));
          h = compress h buf
      in concat (map (\<lambda>i. u64_be (h ! i)) [0..<8]))"

section \<open>Signature verification\<close>

definition double_mul :: "runtime \<Rightarrow> bytes \<Rightarrow> bytes \<Rightarrow> bytes \<Rightarrow> bytes option" where
  "double_mul rt s neg_k a = curve_multiscalar rt (s @ neg_k) (BASEPOINT @ a)"

definition verify :: "runtime \<Rightarrow> bytes \<Rightarrow> bytes \<Rightarrow> bytes \<Rightarrow> bool" where
  "verify rt pk msg sig =
     (let s = slice sig 32 32 in
      if \<not> is_canonical_scalar s then False
      else let h = sha512 [slice sig 0 32, pk, msg];
               k = reduce_wide h;
               neg_k = limbs_to_bytes (neg52 k)
           in case double_mul rt s neg_k pk of Some r \<Rightarrow> r = slice sig 0 32 | None \<Rightarrow> False)"

section \<open>Voucher message, leaves, Merkle tree\<close>

definition voucher_message ::
  "bytes \<Rightarrow> bytes \<Rightarrow> bytes \<Rightarrow> bytes \<Rightarrow> bytes \<Rightarrow> u64 \<Rightarrow> u64 \<Rightarrow> u64 \<Rightarrow> bytes \<Rightarrow> bytes" where
  "voucher_message program_id mint salt payer payee scope cumulative expiry_slot quote_hash =
     VOUCHER_TAG @ program_id @ mint @ salt @ payer @ payee @ u64_le scope @ u64_le cumulative @
     u64_le expiry_slot @ quote_hash"

definition ledger_salt :: "runtime \<Rightarrow> bytes \<Rightarrow> bytes \<Rightarrow> u64 \<Rightarrow> bytes \<Rightarrow> bytes" where
  "ledger_salt rt program_id mint slot slot_hash =
     hashv rt [SALT_DOMAIN, program_id, mint, u64_le slot, slot_hash]"

definition batch_leaf :: "runtime \<Rightarrow> u64 \<Rightarrow> bytes \<Rightarrow> bytes" where
  "batch_leaf rt delta msg = hashv rt [[0], u64_le delta, msg]"

definition node :: "runtime \<Rightarrow> bytes \<Rightarrow> bytes \<Rightarrow> bytes" where
  "node rt l r = hashv rt [[1], l, r]"

fun zero_root :: "runtime \<Rightarrow> nat \<Rightarrow> bytes" where
  "zero_root rt 0 = replicate 32 0"
| "zero_root rt (Suc h) = node rt (zero_root rt h) (zero_root rt h)"

text \<open>
  One level of \<open>subtree_root\<close>: the first \<open>live\<close> entries of \<open>lvl\<close> are real, the others are
  the zero subtree of this height.
\<close>

definition tree_level :: "runtime \<Rightarrow> bytes list \<Rightarrow> nat \<Rightarrow> nat \<Rightarrow> bytes \<Rightarrow> bytes list" where
  "tree_level rt lvl half live zero =
     fold (\<lambda>i lvl.
       let l = 2 * i in
       if live \<le> l then lvl[i := node rt zero zero]
       else if live \<le> l + 1 then lvl[i := node rt (lvl ! l) zero]
       else lvl[i := node rt (lvl ! l) (lvl ! (l + 1))]) [0..<half] lvl"

function subtree_levels :: "runtime \<Rightarrow> bytes list \<Rightarrow> nat \<Rightarrow> nat \<Rightarrow> bytes \<Rightarrow> bytes list" where
  "subtree_levels rt lvl n live zero =
     (if 1 < n then
        let half = n div 2 in
        subtree_levels rt (tree_level rt lvl half live zero) half (div_ceil live 2) (node rt zero zero)
      else lvl)"
  by pat_completeness auto
termination
  by (relation "measure (\<lambda>(rt, lvl, n, live, zero). n)") auto

declare subtree_levels.simps [simp del]

definition subtree_root :: "runtime \<Rightarrow> bytes list \<Rightarrow> nat \<Rightarrow> bytes" where
  "subtree_root rt leaves h =
     subtree_levels rt (leaves @ replicate (32 - length leaves) (replicate 32 0)) (2 ^ h)
       (length leaves) (replicate 32 0) ! 0"

text \<open>\<open>1u32 << d\<close> runs up to \<open>d = 31\<close>; the loop of the source stops before for every argument.\<close>

function upper_depth_from :: "nat \<Rightarrow> nat \<Rightarrow> nat" where
  "upper_depth_from d num_chunks = (if 2 ^ d < num_chunks then upper_depth_from (d + 1) num_chunks else d)"
  by pat_completeness auto
termination
proof (relation "measure (\<lambda>(d, num_chunks). num_chunks - d)")
  fix d num_chunks :: nat
  assume "2 ^ d < num_chunks"
  moreover have "d < 2 ^ d" by (rule less_exp)
  ultimately have "d < num_chunks" by (rule less_trans [rotated])
  then show "((d + 1, num_chunks), d, num_chunks) \<in> measure (\<lambda>(d, num_chunks). num_chunks - d)"
    by auto
qed auto

declare upper_depth_from.simps [simp del]

definition upper_depth :: "nat \<Rightarrow> nat" where
  "upper_depth num_chunks = upper_depth_from 0 num_chunks"

definition fold_proof :: "runtime \<Rightarrow> bytes \<Rightarrow> nat \<Rightarrow> bytes list \<Rightarrow> bytes" where
  "fold_proof rt acc index prf =
     fold (\<lambda>(j, sib) acc. if index div 2 ^ j mod 2 = 1 then node rt sib acc else node rt acc sib)
       (enumerate 0 prf) acc"

end
