(* ===== verification/XsWire.thy ===== *)
theory XsWire
  imports XsCrypto
begin

text \<open>
  \<open>programs/x402_settle/src/instruction.rs\<close>: instruction tags, the wire form of vouchers and
  channel closes, program-derived addresses and the client-side instruction builders.
\<close>

section \<open>Tags\<close>

definition INIT_LEDGER :: u8 where [xs_const, simp]: "INIT_LEDGER = 0"
definition OPEN_ESCROW :: u8 where [xs_const, simp]: "OPEN_ESCROW = 1"
definition GROW_ESCROW :: u8 where [xs_const, simp]: "GROW_ESCROW = 2"
definition DEPOSIT :: u8 where [xs_const, simp]: "DEPOSIT = 3"
definition REQUEST_EXIT :: u8 where [xs_const, simp]: "REQUEST_EXIT = 4"
definition WITHDRAW_ESCROW :: u8 where [xs_const, simp]: "WITHDRAW_ESCROW = 5"
definition CLOSE_ESCROW :: u8 where [xs_const, simp]: "CLOSE_ESCROW = 6"
definition CREATE_BOOK :: u8 where [xs_const, simp]: "CREATE_BOOK = 7"
definition REGISTER_PAYEE :: u8 where [xs_const, simp]: "REGISTER_PAYEE = 8"
definition WITHDRAW_PAYEE :: u8 where [xs_const, simp]: "WITHDRAW_PAYEE = 9"
definition SETTLE :: u8 where [xs_const, simp]: "SETTLE = 10"
definition OPEN_CHANNEL :: u8 where [xs_const, simp]: "OPEN_CHANNEL = 11"
definition CLOSE_CHANNELS :: u8 where [xs_const, simp]: "CLOSE_CHANNELS = 12"
definition REQUEST_CHANNEL_CLOSE :: u8 where [xs_const, simp]: "REQUEST_CHANNEL_CLOSE = 13"
definition FINALIZE_CHANNEL :: u8 where [xs_const, simp]: "FINALIZE_CHANNEL = 14"
definition RECLAIM_CHANNEL :: u8 where [xs_const, simp]: "RECLAIM_CHANNEL = 15"
definition BEGIN_BATCH :: u8 where [xs_const, simp]: "BEGIN_BATCH = 16"
definition STAGE_CHUNK :: u8 where [xs_const, simp]: "STAGE_CHUNK = 17"
definition COMMIT_BATCH :: u8 where [xs_const, simp]: "COMMIT_BATCH = 18"
definition ABORT_BATCH :: u8 where [xs_const, simp]: "ABORT_BATCH = 19"
definition RESOLVE_STAGED :: u8 where [xs_const, simp]: "RESOLVE_STAGED = 20"
definition CLOSE_BATCH :: u8 where [xs_const, simp]: "CLOSE_BATCH = 21"

section \<open>Wire formats\<close>

definition VOUCHER_WIRE_LEN :: nat where [xs_const, simp]: "VOUCHER_WIRE_LEN = 116"
definition CLOSE_WIRE_LEN :: nat where [xs_const, simp]: "CLOSE_WIRE_LEN = 115"
definition NO_BOOK :: u8 where [xs_const, simp]: "NO_BOOK = 0xff"

record wire_voucher =
  wv_escrow_ix :: u8
  wv_pair_ix :: u8
  wv_book_ix :: u8
  wv_slot :: u8
  wv_cumulative :: u64
  wv_expiry_slot :: u64
  wv_quote_hash :: bytes
  wv_sig :: bytes

definition voucher_decode :: "bytes \<Rightarrow> wire_voucher res" where
  "voucher_decode b =
     (if length b < VOUCHER_WIRE_LEN then Inl Panic
      else Inr \<lparr>wv_escrow_ix = b ! 0, wv_pair_ix = b ! 1, wv_book_ix = b ! 2, wv_slot = b ! 3,
        wv_cumulative = get_u64 b 4, wv_expiry_slot = get_u64 b 12,
        wv_quote_hash = slice b 20 32, wv_sig = slice b 52 64\<rparr>)"

definition voucher_encode :: "wire_voucher \<Rightarrow> bytes" where
  "voucher_encode v =
     [wv_escrow_ix v, wv_pair_ix v, wv_book_ix v, wv_slot v] @ u64_le (wv_cumulative v) @
     u64_le (wv_expiry_slot v) @ wv_quote_hash v @ wv_sig v"

record wire_close =
  wc_channel_ix :: u8
  wc_book_ix :: u8
  wc_slot :: u8
  wc_cumulative :: u64
  wc_expiry_slot :: u64
  wc_quote_hash :: bytes
  wc_sig :: bytes

definition close_decode :: "bytes \<Rightarrow> wire_close res" where
  "close_decode b =
     (if length b < CLOSE_WIRE_LEN then Inl Panic
      else Inr \<lparr>wc_channel_ix = b ! 0, wc_book_ix = b ! 1, wc_slot = b ! 2,
        wc_cumulative = get_u64 b 3, wc_expiry_slot = get_u64 b 11,
        wc_quote_hash = slice b 19 32, wc_sig = slice b 51 64\<rparr>)"

definition close_encode :: "wire_close \<Rightarrow> bytes" where
  "close_encode v =
     [wc_channel_ix v, wc_book_ix v, wc_slot v] @ u64_le (wc_cumulative v) @
     u64_le (wc_expiry_slot v) @ wc_quote_hash v @ wc_sig v"

section \<open>Program-derived addresses\<close>

definition SOL_MINT :: bytes where "SOL_MINT = replicate 32 0"

definition ledger_pda :: "runtime \<Rightarrow> key \<Rightarrow> bytes \<Rightarrow> key \<times> u8" where
  "ledger_pda rt pid mint = find_program_address rt [LEDGER_SEED, mint] pid"

definition vault_pda :: "runtime \<Rightarrow> key \<Rightarrow> key \<Rightarrow> key \<times> u8" where
  "vault_pda rt pid led = find_program_address rt [VAULT_SEED, led] pid"

definition escrow_pda :: "runtime \<Rightarrow> key \<Rightarrow> key \<Rightarrow> key \<Rightarrow> key \<times> u8" where
  "escrow_pda rt pid led payer = find_program_address rt [ESCROW_SEED, led, payer] pid"

definition book_pda :: "runtime \<Rightarrow> key \<Rightarrow> key \<Rightarrow> u32 \<Rightarrow> key \<times> u8" where
  "book_pda rt pid led page = find_program_address rt [BOOK_SEED, led, u32_le page] pid"

definition channel_pda :: "runtime \<Rightarrow> key \<Rightarrow> key \<Rightarrow> key \<Rightarrow> key \<Rightarrow> u64 \<Rightarrow> key \<times> u8" where
  "channel_pda rt pid led payer payee channel_id =
     find_program_address rt [CHANNEL_SEED, led, payer, payee, u64_le channel_id] pid"

definition batch_pda :: "runtime \<Rightarrow> key \<Rightarrow> key \<Rightarrow> u64 \<Rightarrow> key \<times> u8" where
  "batch_pda rt pid led batch_id = find_program_address rt [BATCH_SEED, led, u64_le batch_id] pid"

section \<open>Builders\<close>

definition SLOT_HASHES_ID :: key where
  "SLOT_HASHES_ID =
    [6, 167, 213, 23, 25, 47, 10, 175, 198, 242, 101, 227, 251, 119, 204, 122,
     218, 130, 197, 41, 208, 190, 59, 19, 110, 45, 0, 85, 32, 0, 0, 0]"

text \<open>\<open>AccountMeta::new\<close> and \<open>AccountMeta::new_readonly\<close>.\<close>

definition meta_new :: "key \<Rightarrow> bool \<Rightarrow> account_info" where
  "meta_new k sg = \<lparr>key = k, is_signer = sg, is_writable = True\<rparr>"

definition meta_ro :: "key \<Rightarrow> bool \<Rightarrow> account_info" where
  "meta_ro k sg = \<lparr>key = k, is_signer = sg, is_writable = False\<rparr>"

record spl_accs =
  sp_vault :: key
  sp_mint :: key
  sp_token_program :: key

definition ix :: "key \<Rightarrow> account_info list \<Rightarrow> bytes \<Rightarrow> instruction" where
  "ix pid accs d = \<lparr>ix_program = pid, ix_accounts = accs, ix_data = d\<rparr>"

definition with_spl :: "account_info list \<Rightarrow> spl_accs option \<Rightarrow> account_info list" where
  "with_spl v spl =
     (case spl of None \<Rightarrow> v
      | Some q \<Rightarrow> v @ [meta_new (sp_vault q) False, meta_ro (sp_mint q) False,
                       meta_ro (sp_token_program q) False])"

definition ix_init_ledger_sol :: "runtime \<Rightarrow> key \<Rightarrow> key \<Rightarrow> instruction" where
  "ix_init_ledger_sol rt pid funder =
     (let led = fst (ledger_pda rt pid SOL_MINT) in
      ix pid [meta_new funder True, meta_new led False, meta_ro SYSTEM_ID False,
              meta_ro SLOT_HASHES_ID False] [INIT_LEDGER, KIND_SOL])"

definition ix_init_ledger_spl :: "runtime \<Rightarrow> key \<Rightarrow> key \<Rightarrow> key \<Rightarrow> key \<Rightarrow> u8 \<Rightarrow> instruction" where
  "ix_init_ledger_spl rt pid funder mint token_program kind =
     (let led = fst (ledger_pda rt pid mint); vault = fst (vault_pda rt pid led) in
      ix pid [meta_new funder True, meta_new led False, meta_ro mint False, meta_new vault False,
              meta_ro token_program False, meta_ro SYSTEM_ID False, meta_ro SLOT_HASHES_ID False]
        [INIT_LEDGER, kind])"

definition ix_open_escrow :: "runtime \<Rightarrow> key \<Rightarrow> key \<Rightarrow> key \<Rightarrow> u8 \<Rightarrow> instruction" where
  "ix_open_escrow rt pid led payer capacity =
     (let esc = fst (escrow_pda rt pid led payer) in
      ix pid [meta_new payer True, meta_new led False, meta_new esc False, meta_ro SYSTEM_ID False]
        [OPEN_ESCROW, capacity])"

definition ix_grow_escrow :: "runtime \<Rightarrow> key \<Rightarrow> key \<Rightarrow> key \<Rightarrow> u8 \<Rightarrow> instruction" where
  "ix_grow_escrow rt pid led payer capacity =
     (let esc = fst (escrow_pda rt pid led payer) in
      ix pid [meta_new payer True, meta_new esc False, meta_ro SYSTEM_ID False] [GROW_ESCROW, capacity])"

definition ix_deposit ::
  "runtime \<Rightarrow> key \<Rightarrow> key \<Rightarrow> key \<Rightarrow> key \<Rightarrow> u64 \<Rightarrow> (key \<times> spl_accs) option \<Rightarrow> instruction" where
  "ix_deposit rt pid led depositor payer amount spl =
     (let esc = fst (escrow_pda rt pid led payer); d = DEPOSIT # u64_le amount in
      ix pid
        (case spl of
           None \<Rightarrow> [meta_new depositor True, meta_new led False, meta_new esc False,
                    meta_ro SYSTEM_ID False]
         | Some (source, q) \<Rightarrow>
             [meta_ro depositor True, meta_new led False, meta_new esc False, meta_new source False,
              meta_new (sp_vault q) False, meta_ro (sp_mint q) False,
              meta_ro (sp_token_program q) False]) d)"

definition ix_request_exit :: "runtime \<Rightarrow> key \<Rightarrow> key \<Rightarrow> key \<Rightarrow> u64 \<Rightarrow> instruction" where
  "ix_request_exit rt pid led payer amount =
     (let esc = fst (escrow_pda rt pid led payer) in
      ix pid [meta_ro payer True, meta_ro led False, meta_new esc False] (REQUEST_EXIT # u64_le amount))"

definition ix_withdraw_escrow ::
  "runtime \<Rightarrow> key \<Rightarrow> key \<Rightarrow> key \<Rightarrow> key \<Rightarrow> spl_accs option \<Rightarrow> instruction" where
  "ix_withdraw_escrow rt pid led payer destination spl =
     (let esc = fst (escrow_pda rt pid led payer) in
      ix pid (with_spl [meta_ro payer True, meta_new led False, meta_new esc False,
                        meta_new destination False] spl) [WITHDRAW_ESCROW])"

definition ix_close_escrow :: "runtime \<Rightarrow> key \<Rightarrow> key \<Rightarrow> key \<Rightarrow> instruction" where
  "ix_close_escrow rt pid led payer =
     (let esc = fst (escrow_pda rt pid led payer) in
      ix pid [meta_new payer True, meta_new esc False] [CLOSE_ESCROW])"

definition ix_create_book :: "runtime \<Rightarrow> key \<Rightarrow> key \<Rightarrow> key \<Rightarrow> u32 \<Rightarrow> instruction" where
  "ix_create_book rt pid led funder page =
     (let bk = fst (book_pda rt pid led page) in
      ix pid [meta_new funder True, meta_ro led False, meta_new bk False, meta_ro SYSTEM_ID False]
        (CREATE_BOOK # u32_le page))"

definition ix_register_payee :: "key \<Rightarrow> key \<Rightarrow> key \<Rightarrow> u8 \<Rightarrow> instruction" where
  "ix_register_payee pid bk payee slot =
     ix pid [meta_ro payee True, meta_new bk False] [REGISTER_PAYEE, slot]"

definition ix_withdraw_payee ::
  "key \<Rightarrow> key \<Rightarrow> key \<Rightarrow> key \<Rightarrow> u8 \<Rightarrow> u64 \<Rightarrow> key \<Rightarrow> spl_accs option \<Rightarrow> instruction" where
  "ix_withdraw_payee pid led bk payee slot amount destination spl =
     ix pid (with_spl [meta_ro payee True, meta_new led False, meta_new bk False,
                       meta_new destination False] spl) ([WITHDRAW_PAYEE, slot] @ u64_le amount)"

definition ix_settle :: "key \<Rightarrow> key \<Rightarrow> key list \<Rightarrow> wire_voucher list \<Rightarrow> instruction" where
  "ix_settle pid led accs vouchers =
     ix pid (meta_ro led False # map (\<lambda>k. meta_new k False) accs)
       ([SETTLE, of_nat (length vouchers)] @ concat (map voucher_encode vouchers))"

definition ix_open_channel ::
  "runtime \<Rightarrow> key \<Rightarrow> key \<Rightarrow> key \<Rightarrow> key \<Rightarrow> u64 \<Rightarrow> u64 \<Rightarrow> u64 \<Rightarrow> instruction" where
  "ix_open_channel rt pid led payer payee channel_id amount expiry_slot =
     (let esc = fst (escrow_pda rt pid led payer);
          ch = fst (channel_pda rt pid led payer payee channel_id) in
      ix pid [meta_new payer True, meta_new led False, meta_new esc False, meta_new ch False,
              meta_ro SYSTEM_ID False]
        (OPEN_CHANNEL # u64_le channel_id @ payee @ u64_le amount @ u64_le expiry_slot))"

definition ix_close_channels :: "key \<Rightarrow> key \<Rightarrow> key list \<Rightarrow> key list \<Rightarrow> wire_close list \<Rightarrow> instruction" where
  "ix_close_channels pid led wrs signers entries =
     ix pid (meta_ro led False # map (\<lambda>k. meta_new k False) wrs @ map (\<lambda>k. meta_ro k True) signers)
       ([CLOSE_CHANNELS, of_nat (length entries)] @ concat (map close_encode entries))"

definition ix_request_channel_close :: "key \<Rightarrow> key \<Rightarrow> key \<Rightarrow> key \<Rightarrow> instruction" where
  "ix_request_channel_close pid led payer ch =
     ix pid [meta_ro payer True, meta_ro led False, meta_new ch False] [REQUEST_CHANNEL_CLOSE]"

definition ix_finalize_channel :: "key \<Rightarrow> key \<Rightarrow> (key \<times> u8) option \<Rightarrow> key option \<Rightarrow> instruction" where
  "ix_finalize_channel pid ch bk payee_signer =
     (let metas = [meta_new ch False];
          (metas, slot) = (case bk of None \<Rightarrow> (metas, 0) | Some (b, n) \<Rightarrow> (metas @ [meta_new b False], n));
          metas = (case payee_signer of None \<Rightarrow> metas | Some p \<Rightarrow> metas @ [meta_ro p True])
      in ix pid metas [FINALIZE_CHANNEL, slot])"

definition ix_reclaim_channel :: "runtime \<Rightarrow> key \<Rightarrow> key \<Rightarrow> key \<Rightarrow> key \<Rightarrow> instruction" where
  "ix_reclaim_channel rt pid led ch payer =
     (let esc = fst (escrow_pda rt pid led payer) in
      ix pid [meta_new ch False, meta_new esc False, meta_new payer False] [RECLAIM_CHANNEL])"

definition ix_begin_batch ::
  "runtime \<Rightarrow> key \<Rightarrow> key \<Rightarrow> key \<Rightarrow> u64 \<Rightarrow> bytes \<Rightarrow> u32 \<Rightarrow> u64 \<Rightarrow> u8 \<Rightarrow> u8 \<Rightarrow> instruction" where
  "ix_begin_batch rt pid led submitter batch_id root cnt tot chunk_log chunk_size =
     (let bt = fst (batch_pda rt pid led batch_id) in
      ix pid [meta_new submitter True, meta_ro led False, meta_new bt False, meta_ro SYSTEM_ID False]
        (BEGIN_BATCH # u64_le batch_id @ root @ u32_le cnt @ u64_le tot @ [chunk_log, chunk_size]))"

definition ix_stage_chunk ::
  "key \<Rightarrow> key \<Rightarrow> key \<Rightarrow> key list \<Rightarrow> key list \<Rightarrow> u16 \<Rightarrow> bytes list \<Rightarrow> wire_voucher list \<Rightarrow> instruction" where
  "ix_stage_chunk pid led bt escrows books chunk_index prf vouchers =
     ix pid ([meta_ro led False, meta_new bt False] @ map (\<lambda>k. meta_new k False) escrows @
             map (\<lambda>k. meta_ro k False) books)
       (STAGE_CHUNK # u16_le chunk_index @ [of_nat (length vouchers), of_nat (length prf)] @
        concat prf @ concat (map voucher_encode vouchers))"

definition ix_commit_batch :: "key \<Rightarrow> key \<Rightarrow> key list \<Rightarrow> instruction" where
  "ix_commit_batch pid bt books =
     ix pid (meta_new bt False # map (\<lambda>k. meta_new k False) books) [COMMIT_BATCH]"

definition ix_abort_batch :: "key \<Rightarrow> key \<Rightarrow> key \<Rightarrow> instruction" where
  "ix_abort_batch pid bt caller = ix pid [meta_ro caller True, meta_new bt False] [ABORT_BATCH]"

definition ix_resolve_staged :: "key \<Rightarrow> key \<Rightarrow> key list \<Rightarrow> (u8 \<times> u8) list \<Rightarrow> instruction" where
  "ix_resolve_staged pid bt escrows entries =
     ix pid (meta_new bt False # map (\<lambda>k. meta_new k False) escrows)
       ([RESOLVE_STAGED, of_nat (length entries)] @ concat (map (\<lambda>(e, p). [e, p]) entries))"

definition ix_close_batch :: "key \<Rightarrow> key \<Rightarrow> key \<Rightarrow> instruction" where
  "ix_close_batch pid bt submitter =
     ix pid [meta_new bt False, meta_new submitter False] [CLOSE_BATCH]"

section \<open>Wire round trips\<close>

definition voucher_wf :: "wire_voucher \<Rightarrow> bool" where
  "voucher_wf v \<longleftrightarrow> length (wv_quote_hash v) = 32 \<and> length (wv_sig v) = 64"

definition close_wf :: "wire_close \<Rightarrow> bool" where
  "close_wf v \<longleftrightarrow> length (wc_quote_hash v) = 32 \<and> length (wc_sig v) = 64"

lemma length_voucher_encode: "voucher_wf v \<Longrightarrow> length (voucher_encode v) = VOUCHER_WIRE_LEN"
  by (simp add: voucher_wf_def voucher_encode_def)

lemma length_close_encode: "close_wf v \<Longrightarrow> length (close_encode v) = CLOSE_WIRE_LEN"
  by (simp add: close_wf_def close_encode_def)

lemma slice_append1: "n \<le> length xs \<Longrightarrow> slice (xs @ ys) 0 n = take n xs"
  by (simp add: slice_def)

lemma slice_append2: "length xs \<le> off \<Longrightarrow> slice (xs @ ys) off n = slice ys (off - length xs) n"
  by (simp add: slice_def)

lemma slice_Cons: "0 < off \<Longrightarrow> slice (x # xs) off n = slice xs (off - 1) n"
  by (cases off) (simp_all add: slice_def)

lemmas wire_simps = slice_append1 slice_append2 slice_Cons get_u64_def

lemma voucher_decode_encode: "voucher_wf v \<Longrightarrow> voucher_decode (voucher_encode v @ rest) = Inr v"
  by (simp add: voucher_decode_def voucher_encode_def voucher_wf_def wire_simps)

lemma close_decode_encode: "close_wf v \<Longrightarrow> close_decode (close_encode v @ rest) = Inr v"
  by (simp add: close_decode_def close_encode_def close_wf_def wire_simps)

end
