(* ===== verification/XsHelpers.thy ===== *)
theory XsHelpers
  imports XsWire
begin

text \<open>
  Helpers of \<open>programs/x402_settle/src/processor.rs\<close>: guards, checked arithmetic, account
  creation and closing, vault holdings, solvency and payouts; and what each of them has
  established when it succeeds.
\<close>

section \<open>Guards and arithmetic\<close>

definition now :: "runtime \<Rightarrow> u64 res" where
  "now rt = Inr (clock_slot rt)"

definition signer :: "account_info \<Rightarrow> unit res" where
  "signer acc = (if \<not> is_signer acc then fail Unauthorized else Inr ())"

definition writable :: "account_info \<Rightarrow> unit res" where
  "writable acc = (if \<not> is_writable acc then fail InvalidAccount else Inr ())"

definition exact :: "bytes \<Rightarrow> nat \<Rightarrow> unit res" where
  "exact d len = (if length d \<noteq> len then fail InvalidInstruction else Inr ())"

definition add :: "u64 \<Rightarrow> u64 \<Rightarrow> u64 res" where
  "add a b = ok_or (checked_add a b) (err MathOverflow)"

definition sub :: "u64 \<Rightarrow> u64 \<Rightarrow> u64 res" where
  "sub a b = ok_or (checked_sub a b) (err MathOverflow)"

section \<open>Creating and closing accounts\<close>

definition create_pda ::
  "runtime \<Rightarrow> account_info \<Rightarrow> account_info \<Rightarrow> account_info \<Rightarrow> nat \<Rightarrow> key \<Rightarrow> bytes list \<Rightarrow> store \<Rightarrow> store res" where
  "create_pda rt funder target system space own seeds s =
     (if key system \<noteq> SYSTEM_ID then fail InvalidAccount
      else
        bindE (signer funder) (\<lambda>_.
        bindE (writable target) (\<lambda>_.
        let rent = minimum_balance rt space; cur = lamports (s (key target)) in
        if cur = 0 then
          invoke_signed rt (SystemCpi (CreateAccount (key funder) (key target) rent (of_nat space) own))
            [funder, target, system] [seeds] s
        else if owner (s (key target)) \<noteq> SYSTEM_ID \<or> data (s (key target)) \<noteq> [] then fail AccountInUse
        else
          bindE (if cur < rent
                 then invoke rt (SystemCpi (Transfer (key funder) (key target) (rent - cur)))
                        [funder, target, system] s
                 else Inr s) (\<lambda>s.
          bindE (invoke_signed rt (SystemCpi (Allocate (key target) (of_nat space)))
                   [target, system] [seeds] s) (\<lambda>s.
          invoke_signed rt (SystemCpi (Assign (key target) own)) [target, system] [seeds] s)))))"

definition close_account :: "account_info \<Rightarrow> account_info \<Rightarrow> store \<Rightarrow> store res" where
  "close_account acc dest s =
     bindE (writable acc) (\<lambda>_.
     bindE (writable dest) (\<lambda>_.
     let l = lamports (s (key acc)) in
     bindE (add (lamports (s (key dest))) l) (\<lambda>v.
     let s = set_lamports s (key dest) v;
         s = set_lamports s (key acc) 0;
         s = set_data s (key acc) [];
         s = set_owner s (key acc) SYSTEM_ID
     in Inr s)))"

section \<open>Vault\<close>

definition holdings :: "runtime \<Rightarrow> ledger \<Rightarrow> account_info \<Rightarrow> account_info option \<Rightarrow> store \<Rightarrow> u64 res" where
  "holdings rt l ledger_acc vault s =
     (if l_kind l = KIND_SOL then
        let rent = minimum_balance rt LEDGER_LEN in
        Inr (saturating_sub (lamports (s (key ledger_acc))) rent)
      else
        bindE (ok_or vault (err InvalidAccount)) (\<lambda>v.
        if key v \<noteq> l_vault l \<or> owner (s (key v)) \<noteq> l_token_program l then fail InvalidAccount
        else account_amount (data (s (key v)))))"

definition check_solvency ::
  "runtime \<Rightarrow> ledger \<Rightarrow> account_info \<Rightarrow> account_info option \<Rightarrow> store \<Rightarrow> unit res" where
  "check_solvency rt l ledger_acc vault s =
     bindE (holdings rt l ledger_acc vault s) (\<lambda>h.
     if h < l_liabilities l then fail Insolvent else Inr ())"

type_synonym spl3 = "account_info \<times> account_info \<times> account_info"

definition spl_accounts ::
  "ledger \<Rightarrow> account_info list \<Rightarrow> store \<Rightarrow> (spl3 \<times> account_info list) res" where
  "spl_accounts l it s =
     bindE (next_account_info it) (\<lambda>(vault, it).
     bindE (next_account_info it) (\<lambda>(mint, it).
     bindE (next_account_info it) (\<lambda>(tp, it).
     if key vault \<noteq> l_vault l \<or> key mint \<noteq> l_mint l \<or> key tp \<noteq> l_token_program l \<or>
        owner (s (key vault)) \<noteq> key tp then fail InvalidAccount
     else Inr ((vault, mint, tp), it))))"

definition pay_out ::
  "runtime \<Rightarrow> ledger \<Rightarrow> account_info \<Rightarrow> account_info \<Rightarrow> spl3 option \<Rightarrow> u64 \<Rightarrow> store \<Rightarrow> store res" where
  "pay_out rt l ledger_acc dest spl amount s =
     bindE (writable dest) (\<lambda>_.
     case spl of
       None \<Rightarrow>
         if l_kind l \<noteq> KIND_SOL \<or> key dest = key ledger_acc then fail InvalidAccount
         else
           bindE (sub (lamports (s (key ledger_acc))) amount) (\<lambda>v.
           let s = set_lamports s (key ledger_acc) v in
           bindE (add (lamports (s (key dest))) amount) (\<lambda>w.
           Inr (set_lamports s (key dest) w)))
     | Some (vault, mint, tp) \<Rightarrow>
         invoke_signed rt
           (ProgramCpi (transfer_checked (key tp) (key vault) (key mint) (key dest) (key ledger_acc)
              amount (l_decimals l)))
           [vault, mint, dest, ledger_acc, tp] [[LEDGER_SEED, l_mint l, [l_bump l]]] s)"

definition is_signer_key :: "account_info list \<Rightarrow> key \<Rightarrow> bool" where
  "is_signer_key accounts k = list_ex (\<lambda>a. is_signer a \<and> key a = k) accounts"

section \<open>Inversion\<close>

lemma guard_Inr [simp, run_simps]:
  "now rt = Inr t \<longleftrightarrow> t = clock_slot rt"
  "signer acc = Inr u \<longleftrightarrow> is_signer acc"
  "writable acc = Inr u \<longleftrightarrow> is_writable acc"
  "exact d len = Inr u \<longleftrightarrow> length d = len"
  by (auto simp: now_def signer_def writable_def exact_def)

lemma add_Inr [run_simps]: "add a b = Inr c \<longleftrightarrow> unat a + unat b < 2 ^ 64 \<and> c = a + b"
  by (simp add: add_def checked_add_Some)

lemma sub_Inr [run_simps]: "sub a b = Inr c \<longleftrightarrow> b \<le> a \<and> c = a - b"
  by (simp add: sub_def checked_sub_Some)

lemma add_unat: "add a b = Inr c \<Longrightarrow> unat c = unat a + unat b"
  by (simp add: add_def checked_add_unat)

lemma sub_unat: "sub a b = Inr c \<Longrightarrow> unat a = unat c + unat b"
  by (simp add: sub_def checked_sub_unat)

lemma check_program_account_Inr [run_simps]:
  "check_program_account s acc pid disc len = Inr u \<longleftrightarrow>
     owner (s (key acc)) = pid \<and> 9 \<le> length (data (s (key acc))) \<and>
     slice (data (s (key acc))) 0 8 = disc \<and>
     (\<forall>l. len = Some l \<longrightarrow> length (data (s (key acc))) = l)"
  by (auto simp: check_program_account_def Let_def split: option.splits)

lemma ledger_load_Inr [run_simps]:
  "ledger_load rt s acc pid = Inr l \<longleftrightarrow>
     is_ledger pid (s (key acc)) \<and> l = ledger_of (data (s (key acc))) \<and>
     check_pda rt (key acc) [LEDGER_SEED, l_mint l] (l_bump l) pid = Inr ()"
  by (auto simp: ledger_load_def check_program_account_Inr is_ledger_def ledger_unpack_def)

lemma channel_load_Inr [run_simps]:
  "channel_load rt s acc pid = Inr c \<longleftrightarrow>
     is_channel pid (s (key acc)) \<and> c = channel_of (data (s (key acc))) \<and>
     check_pda rt (key acc) [CHANNEL_SEED, c_ledger c, c_payer c, c_payee c, u64_le (c_channel_id c)]
       (c_bump c) pid = Inr ()"
  by (auto simp: channel_load_def check_program_account_Inr is_channel_def channel_unpack_def)

lemma batch_load_Inr [run_simps]:
  "batch_load rt s acc pid = Inr b \<longleftrightarrow>
     is_batch pid (s (key acc)) \<and> b = batch_of (data (s (key acc))) \<and>
     check_pda rt (key acc) [BATCH_SEED, b_ledger b, u64_le (b_batch_id b)] (b_bump b) pid = Inr ()"
  by (auto simp: batch_load_def check_program_account_Inr is_batch_def batch_unpack_def)

lemma is_escrow_length: "is_escrow pid a \<Longrightarrow> 120 \<le> length (data a)"
  by (simp add: is_escrow_def escrow_len_def)

lemma check_escrow_Inr [run_simps]:
  "check_escrow rt s acc pid = Inr lp \<longleftrightarrow>
     is_escrow pid (s (key acc)) \<and>
     lp = (slice (data (s (key acc))) 16 32, slice (data (s (key acc))) 48 32) \<and>
     check_pda rt (key acc) [ESCROW_SEED, fst lp, snd lp] (data (s (key acc)) ! 8) pid = Inr ()"
  using is_escrow_length [of pid "s (key acc)"]
  by (auto simp: check_escrow_def check_program_account_Inr is_escrow_def Let_def)

lemma check_book_Inr [run_simps]:
  "check_book rt s acc pid = Inr led \<longleftrightarrow>
     is_book pid (s (key acc)) \<and> led = slice (data (s (key acc))) 16 32 \<and>
     check_pda rt (key acc) [BOOK_SEED, led, u32_le (get_u32 (data (s (key acc))) 12)]
       (data (s (key acc)) ! 8) pid = Inr ()"
  by (auto simp: check_book_def check_program_account_Inr is_book_def Let_def)

lemma close_account_Inr:
  "close_account acc dest s = Inr s' \<longleftrightarrow>
     is_writable acc \<and> is_writable dest \<and>
     (\<exists>v. add (lamports (s (key dest))) (lamports (s (key acc))) = Inr v \<and>
       s' = set_owner (set_data (set_lamports (set_lamports s (key dest) v) (key acc) 0) (key acc) [])
              (key acc) SYSTEM_ID)"
  by (auto simp: close_account_def Let_def)

lemma ledger_store_Inr [run_simps]:
  "ledger_store l acc s = Inr s' \<longleftrightarrow>
     (\<exists>d. ledger_pack l (data (s (key acc))) = Inr d \<and> s' = set_data s (key acc) d)"
  by (auto simp: ledger_store_def)

lemma channel_store_Inr [run_simps]:
  "channel_store c acc s = Inr s' \<longleftrightarrow>
     (\<exists>d. channel_pack c (data (s (key acc))) = Inr d \<and> s' = set_data s (key acc) d)"
  by (auto simp: channel_store_def)

lemma liabilities_Inr [run_simps]:
  "liabilities_add l v = Inr l' \<longleftrightarrow>
     (\<exists>x. add (l_liabilities l) v = Inr x \<and> l' = l\<lparr>l_liabilities := x\<rparr>)"
  "liabilities_sub l v = Inr l' \<longleftrightarrow>
     (\<exists>x. sub (l_liabilities l) v = Inr x \<and> l' = l\<lparr>l_liabilities := x\<rparr>)"
  by (auto simp: liabilities_add_def liabilities_sub_def add_def sub_def)

section \<open>Created accounts\<close>

context solana
begin

text \<open>
  A created account was no account of the program before; afterwards it belongs to the given owner
  and holds zeros; no other account changed its data or owner.
\<close>

lemma create_pda_effect:
  assumes "create_pda rt funder target system space own seeds s = Inr s'" and "space < 2 ^ 64"
  shows "owner (s (key target)) = SYSTEM_ID \<and> data (s (key target)) = [] \<and>
    owner (s' (key target)) = own \<and> data (s' (key target)) = replicate space 0 \<and>
    same_data {key target} s s' \<and> foreign_step pid s s' \<and> is_signer funder"
proof -
  let ?t = "key target"
  have sp: "unat (of_nat space :: u64) = space" using assms(2) by (simp add: unat_of_nat)
  show ?thesis
  proof (cases "lamports (s ?t) = 0")
    case True
    with assms(1) have inv: "invoke_signed rt (SystemCpi (CreateAccount (key funder) ?t
        (minimum_balance rt space) (of_nat space) own)) [funder, target, system] [seeds] s = Inr s'"
      and "is_signer funder"
      by (auto simp: create_pda_def Let_def split: if_splits)
    then show ?thesis using create_account_effect [OF inv] system_foreign [OF inv] sp by simp
  next
    case False
    with assms(1) obtain s1 s2 where used: "owner (s ?t) = SYSTEM_ID" "data (s ?t) = []" "is_signer funder"
      and s1: "s1 = s \<or> (\<exists>l. invoke_signed rt (SystemCpi (Transfer (key funder) ?t l))
          [funder, target, system] [] s = Inr s1)"
      and s2: "invoke_signed rt (SystemCpi (Allocate ?t (of_nat space))) [target, system] [seeds] s1 = Inr s2"
      and s3: "invoke_signed rt (SystemCpi (Assign ?t own)) [target, system] [seeds] s2 = Inr s'"
      by (auto simp: create_pda_def invoke_def Let_def split: if_splits)
    from s1 have "same_data {} s s1" "foreign_step pid s s1"
      using transfer_effect system_foreign by (auto simp: same_data_def foreign_step_refl)
    with allocate_effect [OF s2] assign_effect [OF s3] system_foreign [OF s2] system_foreign [OF s3] used sp
    show ?thesis by (auto simp: same_data_def intro: foreign_step_trans)
  qed
qed

lemma pay_out_foreign:
  assumes "pay_out rt l ledger_acc dest spl amount s = Inr s'"
    and "\<And>v mt tp. spl = Some (v, mt, tp) \<Longrightarrow> key tp \<noteq> pid"
  shows "(\<forall>k. owner (s k) = pid \<longrightarrow> owner (s' k) = pid \<and> data (s' k) = data (s k)) \<and>
    (\<forall>k. owner (s k) \<noteq> pid \<longrightarrow> owner (s' k) = pid \<longrightarrow> (\<forall>b \<in> set (data (s' k)). b = 0))"
proof (cases spl)
  case None
  with assms(1) show ?thesis by (auto simp: pay_out_def Let_def split: if_splits)
next
  case (Some t)
  obtain v mt tp where t: "t = (v, mt, tp)" by (cases t)
  have "key tp \<noteq> pid" using assms(2) Some t by blast
  with Some t assms(1) have "foreign_step pid s s'"
    by (auto simp: pay_out_def transfer_checked_def dest!: cpi_foreign)
  then show ?thesis by (auto simp: foreign_step_def)
qed

end

end
