(* ===== verification/XsEscrow.thy ===== *)
theory XsEscrow
  imports XsHelpers
begin

text \<open>
  Handlers of \<open>programs/x402_settle/src/processor.rs\<close> for ledgers, payer escrows and payee
  books: each is the whole handler with its guards in the order of the source.
\<close>

section \<open>Ledger\<close>

type_synonym ledger_args =
  "bytes \<times> bytes \<times> account_info option \<times> (account_info \<times> account_info) option \<times> u8 \<times> account_info list"

definition init_ledger_kind :: "u8 \<Rightarrow> account_info list \<Rightarrow> store \<Rightarrow> ledger_args res" where
  "init_ledger_kind kind it s =
     (if kind = KIND_SOL then Inr (replicate 32 0, replicate 32 0, None, None, 9, it)
      else if kind = KIND_TOKEN \<or> kind = KIND_TOKEN_2022 then
        bindE (next_account_info it) (\<lambda>(mint, it).
        bindE (next_account_info it) (\<lambda>(vault, it).
        bindE (next_account_info it) (\<lambda>(tp, it).
        let want = (if kind = KIND_TOKEN then TOKEN_ID else TOKEN_2022_ID) in
        if key tp \<noteq> want then fail MintNotAllowed
        else bindE (check_mint s mint (key tp)) (\<lambda>dec.
          Inr (key mint, key tp, Some mint, Some (vault, tp), dec, it)))))
      else fail InvalidParams)"

definition init_vault ::
  "runtime \<Rightarrow> key \<Rightarrow> key \<Rightarrow> account_info \<Rightarrow> account_info option \<Rightarrow> (account_info \<times> account_info) option \<Rightarrow>
   account_info \<Rightarrow> store \<Rightarrow> (key \<times> u8 \<times> store) res" where
  "init_vault rt pid ledger_key funder mint_acc vault_acc system s =
     (case (mint_acc, vault_acc) of
        (Some mint, Some (vault, tp)) \<Rightarrow>
          let (vk, vb) = find_program_address rt [VAULT_SEED, ledger_key] pid in
          if vk \<noteq> key vault then fail InvalidAccount
          else
            bindE (create_pda rt funder vault system ACCOUNT_LEN (key tp) [VAULT_SEED, ledger_key, [vb]] s) (\<lambda>s.
            bindE (invoke rt (ProgramCpi (initialize_account3 (key tp) (key vault) (key mint) ledger_key))
                     [vault, mint, tp] s) (\<lambda>s.
            Inr (vk, vb, s)))
      | _ \<Rightarrow> Inr (ledger_key, 0, s))"

definition init_ledger :: "runtime \<Rightarrow> key \<Rightarrow> account_info list \<Rightarrow> bytes \<Rightarrow> store \<Rightarrow> store res" where
  "init_ledger rt pid accounts d s =
     bindE (exact d 1) (\<lambda>_.
     bindE (rd_u8 d 0) (\<lambda>kind.
     bindE (next_account_info accounts) (\<lambda>(funder, it).
     bindE (next_account_info it) (\<lambda>(ledger_acc, it).
     bindE (init_ledger_kind kind it s) (\<lambda>(mint_key, token_program, mint_acc, vault_acc, decimals, it).
     bindE (next_account_info it) (\<lambda>(system, it).
     bindE (next_account_info it) (\<lambda>(slot_hashes, it).
     let (ledger_key, bump) = find_program_address rt [LEDGER_SEED, mint_key] pid in
     if ledger_key \<noteq> key ledger_acc then fail InvalidAccount
     else if key slot_hashes \<noteq> SLOT_HASHES_ID then fail InvalidAccount
     else let sd = data (s (key slot_hashes)) in
     if length sd < 48 \<or> get_u64 sd 0 = 0 then fail InvalidAccount
     else let salt = ledger_salt rt pid mint_key (get_u64 sd 8) (slice sd 16 32) in
     bindE (create_pda rt funder ledger_acc system LEDGER_LEN pid [LEDGER_SEED, mint_key, [bump]] s) (\<lambda>s.
     bindE (init_vault rt pid ledger_key funder mint_acc vault_acc system s) (\<lambda>(vault_key, vault_bump, s).
     bindE (now rt) (\<lambda>slot.
     let l = \<lparr>l_bump = bump, l_vault_bump = vault_bump, l_kind = kind, l_decimals = decimals,
              l_mint = mint_key, l_token_program = token_program, l_vault = vault_key, l_salt = salt,
              l_exit_delay_slots = EXIT_DELAY_SLOTS, l_dispute_slots = DISPUTE_SLOTS,
              l_batch_timeout_slots = BATCH_TIMEOUT_SLOTS, l_liabilities = 0, l_next_scope = 1,
              l_created_slot = slot\<rparr> in
     bindE (ledger_store l ledger_acc s) (\<lambda>s.
     bindE (check_solvency rt l ledger_acc (map_option fst vault_acc) s) (\<lambda>_. Inr s))))))))))))"

section \<open>Escrow\<close>

definition open_escrow :: "runtime \<Rightarrow> key \<Rightarrow> account_info list \<Rightarrow> bytes \<Rightarrow> store \<Rightarrow> store res" where
  "open_escrow rt pid accounts d s =
     bindE (exact d 1) (\<lambda>_.
     bindE (rd_u8 d 0) (\<lambda>cap.
     let capacity = unat cap in
     if capacity = 0 \<or> capacity > MAX_PAIRS then fail InvalidParams
     else
     bindE (next_account_info accounts) (\<lambda>(payer, it).
     bindE (next_account_info it) (\<lambda>(ledger_acc, it).
     bindE (next_account_info it) (\<lambda>(escrow_acc, it).
     bindE (next_account_info it) (\<lambda>(system, it).
     bindE (signer payer) (\<lambda>_.
     bindE (writable ledger_acc) (\<lambda>_.
     bindE (ledger_load rt s ledger_acc pid) (\<lambda>l.
     if \<not> is_strict_pubkey (key payer) then fail InvalidPayerKey
     else let (ek, bump) = find_program_address rt [ESCROW_SEED, key ledger_acc, key payer] pid in
     if ek \<noteq> key escrow_acc then fail InvalidAccount
     else
     bindE (create_pda rt payer escrow_acc system (escrow_len capacity) pid
              [ESCROW_SEED, key ledger_acc, key payer, [bump]] s) (\<lambda>s.
     let scope = l_next_scope l in
     bindE (add scope 1) (\<lambda>nx.
     let l = l\<lparr>l_next_scope := nx\<rparr> in
     bindE (wr_all [(0, 8, DISC_ESCROW), (E_BUMP, 1, [bump]), (E_CAPACITY, 1, [of_nat capacity]),
              (E_LEDGER, 32, key ledger_acc), (E_PAYER, 32, key payer), (E_SCOPE, 8, u64_le scope)]
              (data (s (key escrow_acc)))) (\<lambda>e.
     let s = set_data s (key escrow_acc) e in
     ledger_store l ledger_acc s))))))))))))"

definition grow_escrow :: "runtime \<Rightarrow> key \<Rightarrow> account_info list \<Rightarrow> bytes \<Rightarrow> store \<Rightarrow> store res" where
  "grow_escrow rt pid accounts d s =
     bindE (exact d 1) (\<lambda>_.
     bindE (rd_u8 d 0) (\<lambda>cap.
     let new_cap = unat cap in
     bindE (next_account_info accounts) (\<lambda>(payer, it).
     bindE (next_account_info it) (\<lambda>(escrow_acc, it).
     bindE (next_account_info it) (\<lambda>(system, it).
     bindE (signer payer) (\<lambda>_.
     bindE (writable escrow_acc) (\<lambda>_.
     bindE (check_escrow rt s escrow_acc pid) (\<lambda>(_, own).
     if own \<noteq> key payer then fail Unauthorized
     else if key system \<noteq> SYSTEM_ID then fail InvalidAccount
     else
     let old_len = length (data (s (key escrow_acc))) in
     bindE (rd_u8 (data (s (key escrow_acc))) E_CAPACITY) (\<lambda>oc.
     let old_cap = unat oc in
     if new_cap \<le> old_cap \<or> new_cap > MAX_PAIRS then fail InvalidParams
     else let new_len = escrow_len new_cap in
     if new_len - old_len > MAX_PERMITTED_DATA_INCREASE then fail InvalidParams
     else let rent = minimum_balance rt new_len; cur = lamports (s (key escrow_acc)) in
     bindE (if cur < rent
            then invoke rt (SystemCpi (Transfer (key payer) (key escrow_acc) (rent - cur)))
                   [payer, escrow_acc, system] s
            else Inr s) (\<lambda>s.
     let e = data (s (key escrow_acc)) @ replicate (new_len - length (data (s (key escrow_acc)))) 0 in
     bindE (wr_u8 e E_CAPACITY (of_nat new_cap)) (\<lambda>e.
     Inr (set_data s (key escrow_acc) e))))))))))))"

definition deposit :: "runtime \<Rightarrow> key \<Rightarrow> account_info list \<Rightarrow> bytes \<Rightarrow> store \<Rightarrow> store res" where
  "deposit rt pid accounts d s =
     bindE (exact d 8) (\<lambda>_.
     bindE (rd_u64 d 0) (\<lambda>amount.
     if amount = 0 then fail InvalidParams
     else
     bindE (next_account_info accounts) (\<lambda>(depositor, it).
     bindE (next_account_info it) (\<lambda>(ledger_acc, it).
     bindE (next_account_info it) (\<lambda>(escrow_acc, it).
     bindE (signer depositor) (\<lambda>_.
     bindE (writable ledger_acc) (\<lambda>_.
     bindE (writable escrow_acc) (\<lambda>_.
     bindE (ledger_load rt s ledger_acc pid) (\<lambda>l.
     bindE (check_escrow rt s escrow_acc pid) (\<lambda>(el, _).
     if el \<noteq> key ledger_acc then fail InvalidAccount
     else
     bindE (if l_kind l = KIND_SOL then
              bindE (next_account_info it) (\<lambda>(system, it).
              if key system \<noteq> SYSTEM_ID then fail InvalidAccount
              else
                bindE (invoke rt (SystemCpi (Transfer (key depositor) (key ledger_acc) amount))
                         [depositor, ledger_acc, system] s) (\<lambda>s. Inr (None, s)))
            else
              bindE (next_account_info it) (\<lambda>(source, it).
              bindE (spl_accounts l it s) (\<lambda>((vault, mint, tp), it).
              bindE (invoke rt (ProgramCpi (transfer_checked (key tp) (key source) (key mint) (key vault)
                        (key depositor) amount (l_decimals l)))
                       [source, mint, vault, depositor, tp] s) (\<lambda>s. Inr (Some vault, s))))) (\<lambda>(vault_for_check, s).
     bindE (rd_u64 (data (s (key escrow_acc))) E_BALANCE) (\<lambda>bal.
     bindE (add bal amount) (\<lambda>b.
     bindE (wr_u64 (data (s (key escrow_acc))) E_BALANCE b) (\<lambda>e.
     let s = set_data s (key escrow_acc) e in
     bindE (liabilities_add l amount) (\<lambda>l.
     bindE (ledger_store l ledger_acc s) (\<lambda>s.
     bindE (check_solvency rt l ledger_acc vault_for_check s) (\<lambda>_. Inr s)))))))))))))))))"

definition request_exit :: "runtime \<Rightarrow> key \<Rightarrow> account_info list \<Rightarrow> bytes \<Rightarrow> store \<Rightarrow> store res" where
  "request_exit rt pid accounts d s =
     bindE (exact d 8) (\<lambda>_.
     bindE (rd_u64 d 0) (\<lambda>amount.
     bindE (next_account_info accounts) (\<lambda>(payer, it).
     bindE (next_account_info it) (\<lambda>(ledger_acc, it).
     bindE (next_account_info it) (\<lambda>(escrow_acc, it).
     bindE (signer payer) (\<lambda>_.
     bindE (writable escrow_acc) (\<lambda>_.
     bindE (ledger_load rt s ledger_acc pid) (\<lambda>l.
     bindE (check_escrow rt s escrow_acc pid) (\<lambda>(el, own).
     if el \<noteq> key ledger_acc then fail InvalidAccount
     else if own \<noteq> key payer then fail Unauthorized
     else
     bindE (if amount = 0 then Inr 0 else bindE (now rt) (\<lambda>t. add t (l_exit_delay_slots l))) (\<lambda>ready.
     bindE (wr_u64 (data (s (key escrow_acc))) E_EXIT_AMOUNT amount) (\<lambda>e.
     bindE (wr_u64 e E_EXIT_READY ready) (\<lambda>e.
     Inr (set_data s (key escrow_acc) e)))))))))))))"

definition withdraw_escrow :: "runtime \<Rightarrow> key \<Rightarrow> account_info list \<Rightarrow> bytes \<Rightarrow> store \<Rightarrow> store res" where
  "withdraw_escrow rt pid accounts d s =
     bindE (exact d 0) (\<lambda>_.
     bindE (next_account_info accounts) (\<lambda>(payer, it).
     bindE (next_account_info it) (\<lambda>(ledger_acc, it).
     bindE (next_account_info it) (\<lambda>(escrow_acc, it).
     bindE (next_account_info it) (\<lambda>(dest, it).
     bindE (signer payer) (\<lambda>_.
     bindE (writable ledger_acc) (\<lambda>_.
     bindE (writable escrow_acc) (\<lambda>_.
     bindE (ledger_load rt s ledger_acc pid) (\<lambda>l.
     bindE (check_escrow rt s escrow_acc pid) (\<lambda>(el, own).
     if el \<noteq> key ledger_acc then fail InvalidAccount
     else if own \<noteq> key payer then fail Unauthorized
     else
     bindE (if l_kind l = KIND_SOL then Inr None
            else bindE (spl_accounts l it s) (\<lambda>(spl, it). Inr (Some spl))) (\<lambda>spl.
     let e = data (s (key escrow_acc)) in
     bindE (rd_u64 e E_EXIT_AMOUNT) (\<lambda>exit_amount.
     bindE (rd_u64 e E_EXIT_READY) (\<lambda>ready.
     bindE (if exit_amount = 0 then Inr True else bindE (now rt) (\<lambda>t. Inr (t < ready))) (\<lambda>early.
     if early then fail ExitNotReady
     else
     bindE (rd_u64 e E_BALANCE) (\<lambda>bal.
     let amount = min exit_amount bal in
     bindE (wr_u64 e E_BALANCE (bal - amount)) (\<lambda>e.
     bindE (wr_u64 e E_EXIT_AMOUNT 0) (\<lambda>e.
     bindE (wr_u64 e E_EXIT_READY 0) (\<lambda>e.
     let s = set_data s (key escrow_acc) e in
     bindE (if amount > 0 then
              bindE (liabilities_sub l amount) (\<lambda>l.
              bindE (ledger_store l ledger_acc s) (\<lambda>s.
              bindE (pay_out rt l ledger_acc dest spl amount s) (\<lambda>s. Inr (l, s))))
            else Inr (l, s)) (\<lambda>(l, s).
     bindE (check_solvency rt l ledger_acc (map_option fst spl) s) (\<lambda>_. Inr s))))))))))))))))))))"

definition close_escrow :: "runtime \<Rightarrow> key \<Rightarrow> account_info list \<Rightarrow> bytes \<Rightarrow> store \<Rightarrow> store res" where
  "close_escrow rt pid accounts d s =
     bindE (exact d 0) (\<lambda>_.
     bindE (next_account_info accounts) (\<lambda>(payer, it).
     bindE (next_account_info it) (\<lambda>(escrow_acc, it).
     bindE (signer payer) (\<lambda>_.
     bindE (check_escrow rt s escrow_acc pid) (\<lambda>(_, own).
     if own \<noteq> key payer then fail Unauthorized
     else let e = data (s (key escrow_acc)) in
     bindE (rd_u64 e E_BALANCE) (\<lambda>bal.
     bindE (rd_u16 e E_PENDING_COUNT) (\<lambda>pending.
     bindE (rd_u32 e E_OPEN_CHANNELS) (\<lambda>channels.
     if bal \<noteq> 0 \<or> pending \<noteq> 0 \<or> channels \<noteq> 0 then fail EscrowBusy
     else close_account escrow_acc payer s))))))))"

section \<open>Books\<close>

definition create_book :: "runtime \<Rightarrow> key \<Rightarrow> account_info list \<Rightarrow> bytes \<Rightarrow> store \<Rightarrow> store res" where
  "create_book rt pid accounts d s =
     bindE (exact d 4) (\<lambda>_.
     bindE (rd_u32 d 0) (\<lambda>page.
     bindE (next_account_info accounts) (\<lambda>(funder, it).
     bindE (next_account_info it) (\<lambda>(ledger_acc, it).
     bindE (next_account_info it) (\<lambda>(book_acc, it).
     bindE (next_account_info it) (\<lambda>(system, it).
     bindE (ledger_load rt s ledger_acc pid) (\<lambda>_.
     let (bk, bump) = find_program_address rt [BOOK_SEED, key ledger_acc, u32_le page] pid in
     if bk \<noteq> key book_acc then fail InvalidAccount
     else
     bindE (create_pda rt funder book_acc system BOOK_LEN pid
              [BOOK_SEED, key ledger_acc, u32_le page, [bump]] s) (\<lambda>s.
     bindE (wr_all [(0, 8, DISC_BOOK), (K_BUMP, 1, [bump]), (K_PAGE, 4, u32_le page),
              (K_LEDGER, 32, key ledger_acc)] (data (s (key book_acc)))) (\<lambda>b.
     Inr (set_data s (key book_acc) b))))))))))"

definition register_payee :: "runtime \<Rightarrow> key \<Rightarrow> account_info list \<Rightarrow> bytes \<Rightarrow> store \<Rightarrow> store res" where
  "register_payee rt pid accounts d s =
     bindE (exact d 1) (\<lambda>_.
     bindE (rd_u8 d 0) (\<lambda>sl.
     let slot = unat sl in
     if slot \<ge> BOOK_SLOTS then fail InvalidParams
     else
     bindE (next_account_info accounts) (\<lambda>(payee, it).
     bindE (next_account_info it) (\<lambda>(book_acc, it).
     bindE (signer payee) (\<lambda>_.
     bindE (writable book_acc) (\<lambda>_.
     bindE (check_book rt s book_acc pid) (\<lambda>_.
     let b = data (s (key book_acc)); off = slot_off slot in
     bindE (rd_slice b off 32) (\<lambda>cur.
     if cur \<noteq> replicate 32 0 then fail SlotMismatch
     else
     bindE (wr_slice b off 32 (key payee)) (\<lambda>b.
     bindE (rd_u16 b K_USED) (\<lambda>used.
     bindE (wr_u16 b K_USED (used + 1)) (\<lambda>b.
     Inr (set_data s (key book_acc) b))))))))))))"

definition withdraw_payee :: "runtime \<Rightarrow> key \<Rightarrow> account_info list \<Rightarrow> bytes \<Rightarrow> store \<Rightarrow> store res" where
  "withdraw_payee rt pid accounts d s =
     bindE (exact d 9) (\<lambda>_.
     bindE (rd_u8 d 0) (\<lambda>sl.
     bindE (rd_u64 d 1) (\<lambda>amount.
     let slot = unat sl in
     if slot \<ge> BOOK_SLOTS \<or> amount = 0 then fail InvalidParams
     else
     bindE (next_account_info accounts) (\<lambda>(payee, it).
     bindE (next_account_info it) (\<lambda>(ledger_acc, it).
     bindE (next_account_info it) (\<lambda>(book_acc, it).
     bindE (next_account_info it) (\<lambda>(dest, it).
     bindE (signer payee) (\<lambda>_.
     bindE (writable ledger_acc) (\<lambda>_.
     bindE (writable book_acc) (\<lambda>_.
     bindE (ledger_load rt s ledger_acc pid) (\<lambda>l.
     bindE (check_book rt s book_acc pid) (\<lambda>bl.
     if bl \<noteq> key ledger_acc then fail InvalidAccount
     else
     bindE (if l_kind l = KIND_SOL then Inr None
            else bindE (spl_accounts l it s) (\<lambda>(spl, it). Inr (Some spl))) (\<lambda>spl.
     let b = data (s (key book_acc)); off = slot_off slot in
     bindE (rd_slice b off 32) (\<lambda>own.
     if own \<noteq> key payee then fail SlotMismatch
     else
     bindE (rd_u64 b (off + S_BALANCE)) (\<lambda>bal.
     if bal < amount then fail InsufficientFunds
     else
     bindE (wr_u64 b (off + S_BALANCE) (bal - amount)) (\<lambda>b.
     let s = set_data s (key book_acc) b in
     bindE (liabilities_sub l amount) (\<lambda>l.
     bindE (ledger_store l ledger_acc s) (\<lambda>s.
     bindE (pay_out rt l ledger_acc dest spl amount s) (\<lambda>s.
     bindE (check_solvency rt l ledger_acc (map_option fst spl) s) (\<lambda>_. Inr s))))))))))))))))))))"

end
