(* ===== verification/XsSettle.thy ===== *)
theory XsSettle
  imports XsEscrow
begin

text \<open>
  Lane B2 of \<open>programs/x402_settle/src/processor.rs\<close>: voucher verification against escrow
  pairs and payee slots, and the \<open>settle\<close> handler that applies a list of vouchers.
\<close>

section \<open>Vouchers\<close>

record vctx =
  ctx_program_id :: key
  ctx_ledger :: key
  ctx_mint :: bytes
  ctx_salt :: bytes
  ctx_now :: u64

text \<open>Accounts already checked in this instruction: bit \<open>i\<close> for account index \<open>i\<close>.\<close>

type_synonym seen = u128

definition test_set :: "seen \<Rightarrow> nat \<Rightarrow> (bool \<times> seen) res" where
  "test_set sn i =
     (if i \<ge> 128 then fail InvalidInstruction
      else let b = push_bit i 1 in Inr (sn AND b \<noteq> 0, sn OR b))"

record b2 =
  b2_escrow_ix :: nat
  b2_pair_ix :: nat
  b2_append :: bool
  b2_payee :: key
  b2_book_ix :: nat
  b2_slot :: nat
  b2_cumulative :: u64
  b2_delta :: u64
  b2_msg :: bytes

fun any_res :: "('a \<Rightarrow> bool res) \<Rightarrow> 'a list \<Rightarrow> bool res" where
  "any_res f [] = Inr False"
| "any_res f (x # xs) = bindE (f x) (\<lambda>b. if b then Inr True else any_res f xs)"

definition pair_exists :: "bytes \<Rightarrow> nat \<Rightarrow> key \<Rightarrow> bool res" where
  "pair_exists e cnt payee =
     bindE (rd_u64 payee 0) (\<lambda>head.
     any_res (\<lambda>i. let off = pair_off i in
        bindE (rd_u64 e off) (\<lambda>h. if h \<noteq> head then Inr False
          else bindE (rd_slice e off 32) (\<lambda>k. Inr (k = payee)))) [0..<cnt])"

text \<open>The pair lookup of \<open>verify_b2\<close>: whether the voucher appends, and the settled amount.\<close>

definition find_pair :: "bytes \<Rightarrow> nat \<Rightarrow> key \<Rightarrow> (bool \<times> u64) res" where
  "find_pair e pi payee =
     bindE (rd_u8 e E_PAIR_COUNT) (\<lambda>c.
     bindE (rd_u8 e E_CAPACITY) (\<lambda>cp.
     let cnt = unat c; cap = unat cp in
     if pi < cnt then
       let off = pair_off pi in
       bindE (rd_key e (off + P_PAYEE)) (\<lambda>k.
       if k \<noteq> payee then fail PairMismatch
       else
       bindE (rd_u64 e (off + P_PENDING_BATCH)) (\<lambda>pb.
       if pb \<noteq> 0 then fail PairPending
       else
       bindE (rd_u64 e (off + P_SETTLED)) (\<lambda>settled. Inr (False, settled))))
     else if pi = cnt then
       if cnt \<ge> cap then fail PairTableFull
       else
       bindE (pair_exists e cnt payee) (\<lambda>dup. if dup then fail DuplicatePair else Inr (True, 0))
     else fail InvalidInstruction))"

definition verify_b2 ::
  "runtime \<Rightarrow> key \<Rightarrow> vctx \<Rightarrow> account_info list \<Rightarrow> wire_voucher \<Rightarrow> nat \<Rightarrow> bool \<Rightarrow> store \<Rightarrow> seen \<Rightarrow> seen \<Rightarrow>
   (b2 \<times> seen \<times> seen) res" where
  "verify_b2 rt pid ctx accounts w first_ix need_book_writable s es bs =
     (let ei = unat (wv_escrow_ix w); bi = unat (wv_book_ix w); slot = unat (wv_slot w) in
     if ei < first_ix \<or> bi < first_ix then fail InvalidInstruction
     else
     bindE (ok_or (get_at accounts ei) (err InvalidInstruction)) (\<lambda>escrow_acc.
     bindE (ok_or (get_at accounts bi) (err InvalidInstruction)) (\<lambda>book_acc.
     bindE (test_set es ei) (\<lambda>(eseen, es).
     bindE (if eseen then Inr ()
            else
              bindE (writable escrow_acc) (\<lambda>_.
              bindE (check_escrow rt s escrow_acc pid) (\<lambda>(l, _).
              if l \<noteq> ctx_ledger ctx then fail InvalidAccount else Inr ()))) (\<lambda>_.
     bindE (test_set bs bi) (\<lambda>(bseen, bs).
     bindE (if bseen then Inr ()
            else
              bindE (if need_book_writable then writable book_acc else Inr ()) (\<lambda>_.
              bindE (check_book rt s book_acc pid) (\<lambda>l.
              if l \<noteq> ctx_ledger ctx then fail InvalidAccount else Inr ()))) (\<lambda>_.
     if slot \<ge> BOOK_SLOTS then fail InvalidInstruction
     else
     bindE (rd_key (data (s (key book_acc))) (slot_off slot)) (\<lambda>payee.
     if payee = replicate 32 0 then fail SlotMismatch
     else if wv_expiry_slot w < ctx_now ctx then fail VoucherExpired
     else
     let e = data (s (key escrow_acc)); pi = unat (wv_pair_ix w) in
     bindE (find_pair e pi payee) (\<lambda>(append, settled).
     if wv_cumulative w \<le> settled then fail StaleVoucher
     else
     let delta = wv_cumulative w - settled in
     bindE (rd_u64 e E_BALANCE) (\<lambda>bal.
     if bal < delta then fail InsufficientFunds
     else
     bindE (rd_key e E_PAYER) (\<lambda>payer.
     bindE (rd_u64 e E_SCOPE) (\<lambda>scope.
     let msg = voucher_message (ctx_program_id ctx) (ctx_mint ctx) (ctx_salt ctx) payer payee scope
                 (wv_cumulative w) (wv_expiry_slot w) (wv_quote_hash w) in
     if \<not> verify rt payer msg (wv_sig w) then fail BadSignature
     else Inr (\<lparr>b2_escrow_ix = ei, b2_pair_ix = pi, b2_append = append, b2_payee = payee,
                b2_book_ix = bi, b2_slot = slot, b2_cumulative = wv_cumulative w, b2_delta = delta,
                b2_msg = msg\<rparr>, es, bs)))))))))))))"

definition pair_entry :: "bytes \<Rightarrow> b2 \<Rightarrow> (bytes \<times> nat) res" where
  "pair_entry e v =
     (let off = pair_off (b2_pair_ix v) in
      if b2_append v then
        bindE (wr_slice e off 32 (b2_payee v)) (\<lambda>e.
        bindE (wr_u64 e (off + P_SETTLED) 0) (\<lambda>e.
        bindE (wr_u64 e (off + P_PENDING_CUM) 0) (\<lambda>e.
        bindE (wr_u64 e (off + P_PENDING_BATCH) 0) (\<lambda>e.
        bindE (rd_u8 e E_PAIR_COUNT) (\<lambda>c.
        bindE (wr_u8 e E_PAIR_COUNT (c + 1)) (\<lambda>e.
        Inr (e, off)))))))
      else Inr (e, off))"

section \<open>Settle\<close>

text \<open>Applies one verified voucher: the pair records the cumulative amount, the delta moves.\<close>

definition settle_apply :: "account_info list \<Rightarrow> b2 \<Rightarrow> store \<Rightarrow> store res" where
  "settle_apply accounts v s =
     bindE (ok_or (get_at accounts (b2_escrow_ix v)) Panic) (\<lambda>escrow_acc.
     bindE (pair_entry (data (s (key escrow_acc))) v) (\<lambda>(e, off).
     bindE (wr_u64 e (off + P_SETTLED) (b2_cumulative v)) (\<lambda>e.
     bindE (rd_u64 e E_BALANCE) (\<lambda>bal0.
     bindE (sub bal0 (b2_delta v)) (\<lambda>bal.
     bindE (wr_u64 e E_BALANCE bal) (\<lambda>e.
     let s = set_data s (key escrow_acc) e in
     bindE (ok_or (get_at accounts (b2_book_ix v)) Panic) (\<lambda>book_acc.
     let b = data (s (key book_acc)); off = slot_off (b2_slot v) + S_BALANCE in
     bindE (rd_u64 b off) (\<lambda>bal0.
     bindE (add bal0 (b2_delta v)) (\<lambda>bal.
     bindE (wr_u64 b off bal) (\<lambda>b.
     Inr (set_data s (key book_acc) b)))))))))))"

definition settle_one ::
  "runtime \<Rightarrow> key \<Rightarrow> vctx \<Rightarrow> account_info list \<Rightarrow> bytes \<Rightarrow> nat \<Rightarrow> store \<times> seen \<times> seen \<Rightarrow>
   (store \<times> seen \<times> seen) res" where
  "settle_one rt pid ctx accounts body i st =
     (let (s, es, bs) = st in
     bindE (rd_slice body (i * VOUCHER_WIRE_LEN) VOUCHER_WIRE_LEN) (\<lambda>raw.
     bindE (voucher_decode raw) (\<lambda>w.
     bindE (verify_b2 rt pid ctx accounts w 1 True s es bs) (\<lambda>(v, es, bs).
     bindE (settle_apply accounts v s) (\<lambda>s. Inr (s, es, bs))))))"

definition settle :: "runtime \<Rightarrow> key \<Rightarrow> account_info list \<Rightarrow> bytes \<Rightarrow> store \<Rightarrow> store res" where
  "settle rt pid accounts d s =
     (case d of [] \<Rightarrow> fail InvalidInstruction
      | nb # body \<Rightarrow>
          let n = unat nb in
          if n = 0 \<or> length body \<noteq> n * VOUCHER_WIRE_LEN then fail InvalidInstruction
          else
          bindE (ok_or (get_at accounts 0) (err InvalidInstruction)) (\<lambda>ledger_acc.
          bindE (ledger_load rt s ledger_acc pid) (\<lambda>l.
          bindE (now rt) (\<lambda>t.
          let ctx = \<lparr>ctx_program_id = pid, ctx_ledger = key ledger_acc, ctx_mint = l_mint l,
                     ctx_salt = l_salt l, ctx_now = t\<rparr> in
          bindE (foldE (settle_one rt pid ctx accounts body) [0..<n] (s, 0, 0)) (\<lambda>(s, _, _).
          Inr s)))))"

end
