(* ===== verification/XsChannel.thy ===== *)
theory XsChannel
  imports XsSettle
begin

text \<open>
  Lane C of \<open>programs/x402_settle/src/processor.rs\<close>: payment channels (open, close with
  vouchers, request close, finalize, reclaim).
\<close>

definition open_channel :: "runtime \<Rightarrow> key \<Rightarrow> account_info list \<Rightarrow> bytes \<Rightarrow> store \<Rightarrow> store res" where
  "open_channel rt pid accounts d s =
     bindE (exact d 56) (\<lambda>_.
     bindE (rd_u64 d 0) (\<lambda>channel_id.
     bindE (rd_key d 8) (\<lambda>payee.
     bindE (rd_u64 d 40) (\<lambda>amount.
     bindE (rd_u64 d 48) (\<lambda>expiry_slot.
     bindE (next_account_info accounts) (\<lambda>(payer, it).
     bindE (next_account_info it) (\<lambda>(ledger_acc, it).
     bindE (next_account_info it) (\<lambda>(escrow_acc, it).
     bindE (next_account_info it) (\<lambda>(channel_acc, it).
     bindE (next_account_info it) (\<lambda>(system, it).
     bindE (signer payer) (\<lambda>_.
     bindE (writable ledger_acc) (\<lambda>_.
     bindE (writable escrow_acc) (\<lambda>_.
     bindE (ledger_load rt s ledger_acc pid) (\<lambda>l.
     bindE (check_escrow rt s escrow_acc pid) (\<lambda>(el, own).
     if el \<noteq> key ledger_acc then fail InvalidAccount
     else if own \<noteq> key payer then fail Unauthorized
     else
     bindE (now rt) (\<lambda>slot.
     if amount = 0 \<or> payee = replicate 32 0 \<or> expiry_slot \<le> slot \<or> expiry_slot - slot > MAX_CHANNEL_SLOTS
     then fail InvalidParams
     else
     let (ck, bump) = find_program_address rt
           [CHANNEL_SEED, key ledger_acc, key payer, payee, u64_le channel_id] pid in
     if ck \<noteq> key channel_acc then fail InvalidAccount
     else
     let e = data (s (key escrow_acc)) in
     bindE (rd_u64 e E_BALANCE) (\<lambda>bal.
     if bal < amount then fail InsufficientFunds
     else
     bindE (wr_u64 e E_BALANCE (bal - amount)) (\<lambda>e.
     bindE (rd_u32 e E_OPEN_CHANNELS) (\<lambda>oc0.
     bindE (ok_or (checked_add oc0 1) (err MathOverflow)) (\<lambda>oc.
     bindE (wr_u32 e E_OPEN_CHANNELS oc) (\<lambda>e.
     let s = set_data s (key escrow_acc) e in
     bindE (create_pda rt payer channel_acc system CHANNEL_LEN pid
              [CHANNEL_SEED, key ledger_acc, key payer, payee, u64_le channel_id, [bump]] s) (\<lambda>s.
     let scope = l_next_scope l in
     bindE (add scope 1) (\<lambda>nx.
     bindE (ledger_store (l\<lparr>l_next_scope := nx\<rparr>) ledger_acc s) (\<lambda>s.
     channel_store
       \<lparr>c_bump = bump, c_status = CH_OPEN, c_ledger = key ledger_acc, c_payer = key payer,
        c_payee = payee, c_channel_id = channel_id, c_scope = scope, c_deposit = amount,
        c_balance = amount, c_best_cum = 0, c_expiry_slot = expiry_slot, c_dispute_end_slot = 0\<rparr>
       channel_acc s))))))))))))))))))))))))"

definition credit_slot ::
  "runtime \<Rightarrow> key \<Rightarrow> account_info \<Rightarrow> key \<Rightarrow> nat \<Rightarrow> key \<Rightarrow> u64 \<Rightarrow> bool \<Rightarrow> store \<Rightarrow> store res" where
  "credit_slot rt pid book_acc led slot payee amount chk s =
     bindE (if chk then
              bindE (writable book_acc) (\<lambda>_.
              bindE (check_book rt s book_acc pid) (\<lambda>bl.
              if bl \<noteq> led then fail InvalidAccount else Inr ()))
            else Inr ()) (\<lambda>_.
     if slot \<ge> BOOK_SLOTS then fail InvalidInstruction
     else
     let b = data (s (key book_acc)); off = slot_off slot in
     bindE (rd_key b off) (\<lambda>own.
     if own \<noteq> payee then fail SlotMismatch
     else
     bindE (rd_u64 b (off + S_BALANCE)) (\<lambda>bal0.
     bindE (add bal0 amount) (\<lambda>bal.
     bindE (wr_u64 b (off + S_BALANCE) bal) (\<lambda>b.
     Inr (set_data s (key book_acc) b))))))"

text \<open>\<open>Signers::of\<close> keeps the first twelve signer keys of the instruction.\<close>

definition signers_of :: "account_info list \<Rightarrow> key list" where
  "signers_of accounts = take 12 (map key (filter is_signer accounts))"

definition signers_has :: "key list \<Rightarrow> key \<Rightarrow> bool" where
  "signers_has ks k = list_ex (\<lambda>x. x = k) ks"

definition close_status :: "channel \<Rightarrow> u64 \<Rightarrow> unit res" where
  "close_status ch slot_now =
     (if c_status ch = CH_OPEN then
        if slot_now \<ge> c_expiry_slot ch then fail ChannelExpired else Inr ()
      else if c_status ch = CH_CLOSING then
        if slot_now > c_dispute_end_slot ch then fail ChannelState else Inr ()
      else fail ChannelState)"

definition close_one ::
  "runtime \<Rightarrow> key \<Rightarrow> key \<Rightarrow> ledger \<Rightarrow> key list \<Rightarrow> account_info list \<Rightarrow> bytes \<Rightarrow> nat \<Rightarrow> store \<times> seen \<Rightarrow>
   (store \<times> seen) res" where
  "close_one rt pid lk l signers accounts body i st =
     (let (s, books) = st in
     bindE (rd_slice body (i * CLOSE_WIRE_LEN) CLOSE_WIRE_LEN) (\<lambda>raw.
     bindE (close_decode raw) (\<lambda>w.
     bindE (ok_or (get_at accounts (unat (wc_channel_ix w))) (err InvalidInstruction)) (\<lambda>ch_acc.
     bindE (writable ch_acc) (\<lambda>_.
     bindE (channel_load rt s ch_acc pid) (\<lambda>ch.
     if c_ledger ch \<noteq> lk then fail InvalidAccount
     else
     bindE (now rt) (\<lambda>slot_now.
     bindE (close_status ch slot_now) (\<lambda>_.
     if wc_expiry_slot w < slot_now then fail VoucherExpired
     else if wc_cumulative w \<le> c_best_cum ch then fail StaleVoucher
     else if wc_cumulative w > c_balance ch then fail OverDeposit
     else
     let msg = voucher_message pid (l_mint l) (l_salt l) (c_payer ch) (c_payee ch) (c_scope ch)
                 (wc_cumulative w) (wc_expiry_slot w) (wc_quote_hash w) in
     if \<not> verify rt (c_payer ch) msg (wc_sig w) then fail BadSignature
     else
     let ch = ch\<lparr>c_best_cum := wc_cumulative w\<rparr> in
     bindE (if signers_has signers (c_payee ch) then
              let bi = unat (wc_book_ix w) in
              if wc_book_ix w = NO_BOOK \<or> bi = 0 then fail InvalidInstruction
              else
              bindE (ok_or (get_at accounts bi) (err InvalidInstruction)) (\<lambda>book_acc.
              bindE (test_set books bi) (\<lambda>(was, books).
              bindE (credit_slot rt pid book_acc lk (unat (wc_slot w)) (c_payee ch) (c_best_cum ch) (\<not> was) s) (\<lambda>s.
              bindE (sub (c_balance ch) (c_best_cum ch)) (\<lambda>bal.
              Inr (ch\<lparr>c_balance := bal, c_status := CH_CLOSED\<rparr>, s, books)))))
            else if c_status ch = CH_OPEN then
              bindE (add slot_now (l_dispute_slots l)) (\<lambda>de.
              Inr (ch\<lparr>c_status := CH_CLOSING, c_dispute_end_slot := de\<rparr>, s, books))
            else Inr (ch, s, books)) (\<lambda>(ch, s, books).
     bindE (channel_store ch ch_acc s) (\<lambda>s. Inr (s, books)))))))))))"

definition close_channels :: "runtime \<Rightarrow> key \<Rightarrow> account_info list \<Rightarrow> bytes \<Rightarrow> store \<Rightarrow> store res" where
  "close_channels rt pid accounts d s =
     (case d of [] \<Rightarrow> fail InvalidInstruction
      | nb # body \<Rightarrow>
          let n = unat nb in
          if n = 0 \<or> length body \<noteq> n * CLOSE_WIRE_LEN then fail InvalidInstruction
          else
          bindE (ok_or (get_at accounts 0) (err InvalidInstruction)) (\<lambda>ledger_acc.
          bindE (ledger_load rt s ledger_acc pid) (\<lambda>l.
          bindE (foldE (close_one rt pid (key ledger_acc) l (signers_of accounts) accounts body)
                   [0..<n] (s, 0)) (\<lambda>(s, _). Inr s))))"

definition request_channel_close :: "runtime \<Rightarrow> key \<Rightarrow> account_info list \<Rightarrow> bytes \<Rightarrow> store \<Rightarrow> store res" where
  "request_channel_close rt pid accounts d s =
     bindE (exact d 0) (\<lambda>_.
     bindE (next_account_info accounts) (\<lambda>(payer, it).
     bindE (next_account_info it) (\<lambda>(ledger_acc, it).
     bindE (next_account_info it) (\<lambda>(ch_acc, it).
     bindE (signer payer) (\<lambda>_.
     bindE (writable ch_acc) (\<lambda>_.
     bindE (ledger_load rt s ledger_acc pid) (\<lambda>l.
     bindE (channel_load rt s ch_acc pid) (\<lambda>ch.
     if c_ledger ch \<noteq> key ledger_acc then fail InvalidAccount
     else if c_payer ch \<noteq> key payer then fail Unauthorized
     else
     bindE (now rt) (\<lambda>slot_now.
     if c_status ch \<noteq> CH_OPEN then fail ChannelState
     else if slot_now \<ge> c_expiry_slot ch then fail ChannelExpired
     else
     bindE (add slot_now (l_dispute_slots l)) (\<lambda>de.
     channel_store (ch\<lparr>c_status := CH_CLOSING, c_dispute_end_slot := de\<rparr>) ch_acc s))))))))))"

definition finalize_status :: "channel \<Rightarrow> bool \<Rightarrow> u64 \<Rightarrow> unit res" where
  "finalize_status ch payee_signed slot_now =
     (if c_status ch = CH_CLOSING \<and> (payee_signed \<or> slot_now > c_dispute_end_slot ch) then Inr ()
      else if c_status ch = CH_CLOSING then fail DisputeOpen
      else if c_status ch = CH_OPEN \<and> payee_signed then Inr ()
      else fail ChannelState)"

definition finalize_channel :: "runtime \<Rightarrow> key \<Rightarrow> account_info list \<Rightarrow> bytes \<Rightarrow> store \<Rightarrow> store res" where
  "finalize_channel rt pid accounts d s =
     bindE (exact d 1) (\<lambda>_.
     bindE (rd_u8 d 0) (\<lambda>sl.
     bindE (ok_or (get_at accounts 0) (err InvalidInstruction)) (\<lambda>ch_acc.
     bindE (writable ch_acc) (\<lambda>_.
     bindE (channel_load rt s ch_acc pid) (\<lambda>ch.
     let payee_signed = is_signer_key accounts (c_payee ch) in
     bindE (now rt) (\<lambda>slot_now.
     bindE (finalize_status ch payee_signed slot_now) (\<lambda>_.
     bindE (if c_best_cum ch > 0 then
              bindE (ok_or (get_at accounts 1) (err InvalidInstruction)) (\<lambda>book_acc.
              bindE (credit_slot rt pid book_acc (c_ledger ch) (unat sl) (c_payee ch) (c_best_cum ch) True s) (\<lambda>s.
              bindE (sub (c_balance ch) (c_best_cum ch)) (\<lambda>bal.
              Inr (ch\<lparr>c_balance := bal\<rparr>, s))))
            else Inr (ch, s)) (\<lambda>(ch, s).
     channel_store (ch\<lparr>c_status := CH_CLOSED\<rparr>) ch_acc s))))))))"

definition reclaim_status :: "channel \<Rightarrow> u64 \<Rightarrow> unit res" where
  "reclaim_status ch slot_now =
     (if c_status ch = CH_CLOSED then Inr ()
      else if c_status ch = CH_OPEN \<and> slot_now \<ge> c_expiry_slot ch then Inr ()
      else if c_status ch = CH_OPEN then fail ChannelNotExpired
      else fail ChannelState)"

definition reclaim_channel :: "runtime \<Rightarrow> key \<Rightarrow> account_info list \<Rightarrow> bytes \<Rightarrow> store \<Rightarrow> store res" where
  "reclaim_channel rt pid accounts d s =
     bindE (exact d 0) (\<lambda>_.
     bindE (next_account_info accounts) (\<lambda>(ch_acc, it).
     bindE (next_account_info it) (\<lambda>(escrow_acc, it).
     bindE (next_account_info it) (\<lambda>(payer, it).
     bindE (writable escrow_acc) (\<lambda>_.
     bindE (channel_load rt s ch_acc pid) (\<lambda>ch.
     bindE (now rt) (\<lambda>slot_now.
     bindE (reclaim_status ch slot_now) (\<lambda>_.
     bindE (check_escrow rt s escrow_acc pid) (\<lambda>(el, own).
     if el \<noteq> c_ledger ch \<or> own \<noteq> c_payer ch \<or> key payer \<noteq> c_payer ch then fail InvalidAccount
     else
     let e = data (s (key escrow_acc)) in
     bindE (rd_u64 e E_BALANCE) (\<lambda>bal0.
     bindE (add bal0 (c_balance ch)) (\<lambda>bal.
     bindE (wr_u64 e E_BALANCE bal) (\<lambda>e.
     bindE (rd_u32 e E_OPEN_CHANNELS) (\<lambda>oc0.
     bindE (ok_or (checked_sub oc0 1) (err MathOverflow)) (\<lambda>oc.
     bindE (wr_u32 e E_OPEN_CHANNELS oc) (\<lambda>e.
     let s = set_data s (key escrow_acc) e in
     close_account ch_acc payer s)))))))))))))))"

end
