(* ===== verification/XsBatch.thy ===== *)
theory XsBatch
  imports XsChannel
begin

text \<open>
  Two-phase batches of \<open>programs/x402_settle/src/processor.rs\<close>: begin, stage chunks of
  vouchers, commit or abort, resolve the staged pairs, close.
\<close>

definition begin_batch :: "runtime \<Rightarrow> key \<Rightarrow> account_info list \<Rightarrow> bytes \<Rightarrow> store \<Rightarrow> store res" where
  "begin_batch rt pid accounts d s =
     bindE (exact d 54) (\<lambda>_.
     bindE (rd_u64 d 0) (\<lambda>batch_id.
     bindE (rd_key d 8) (\<lambda>root.
     bindE (rd_u32 d 40) (\<lambda>cnt.
     bindE (rd_u64 d 44) (\<lambda>tot.
     bindE (rd_u8 d 52) (\<lambda>chunk_log.
     bindE (rd_u8 d 53) (\<lambda>chunk_size.
     if batch_id = 0 \<or> cnt = 0 \<or> unat chunk_log > MAX_CHUNK_LOG \<or> chunk_size = 0 \<or>
        unat chunk_size > 2 ^ unat chunk_log \<or> unat tot < unat cnt then fail InvalidParams
     else let num_chunks = div_ceil (unat cnt) (unat chunk_size) in
     if num_chunks > MAX_CHUNKS then fail InvalidParams
     else
     bindE (next_account_info accounts) (\<lambda>(submitter, it).
     bindE (next_account_info it) (\<lambda>(ledger_acc, it).
     bindE (next_account_info it) (\<lambda>(batch_acc, it).
     bindE (next_account_info it) (\<lambda>(system, it).
     bindE (ledger_load rt s ledger_acc pid) (\<lambda>l.
     let (bk, bump) = find_program_address rt [BATCH_SEED, key ledger_acc, u64_le batch_id] pid in
     if bk \<noteq> key batch_acc then fail InvalidAccount
     else
     bindE (create_pda rt submitter batch_acc system BATCH_LEN pid
              [BATCH_SEED, key ledger_acc, u64_le batch_id, [bump]] s) (\<lambda>s.
     bindE (now rt) (\<lambda>t.
     bindE (add t (l_batch_timeout_slots l)) (\<lambda>deadline.
     let hdr = \<lparr>b_bump = bump, b_status = B_STAGING, b_chunk_log = chunk_log, b_chunk_size = chunk_size,
                b_n_payees = 0, b_num_chunks = of_nat num_chunks, b_chunks_staged = 0,
                b_ledger = key ledger_acc, b_submitter = key submitter, b_batch_id = batch_id,
                b_root = root, b_count = cnt, b_staged_count = 0, b_total = tot, b_staged_total = 0,
                b_held = 0, b_deadline_slot = deadline, b_outstanding = 0\<rparr> in
     bindE (batch_pack hdr (data (s (key batch_acc)))) (\<lambda>bd.
     Inr (set_data s (key batch_acc) bd)))))))))))))))))"

text \<open>The search of \<open>add_batch_payee\<close> for an entry of the same book and slot.\<close>

fun find_payee :: "bytes \<Rightarrow> key \<Rightarrow> u8 \<Rightarrow> nat list \<Rightarrow> nat option res" where
  "find_payee bd bk slot [] = Inr None"
| "find_payee bd bk slot (i # is) =
     (let off = batch_payee_off i in
      bindE (rd_slice bd off 32) (\<lambda>k.
      bindE (if k = bk then bindE (rd_u8 bd (off + 40)) (\<lambda>x. Inr (x = slot)) else Inr False) (\<lambda>hit.
      if hit then Inr (Some i) else find_payee bd bk slot is)))"

definition add_batch_payee ::
  "bytes \<Rightarrow> batch_hdr \<Rightarrow> key \<Rightarrow> u8 \<Rightarrow> u64 \<Rightarrow> (bytes \<times> batch_hdr) res" where
  "add_batch_payee bd hdr bk slot amount =
     bindE (find_payee bd bk slot [0..<unat (b_n_payees hdr)]) (\<lambda>hit.
     case hit of
       Some i \<Rightarrow>
         let off = batch_payee_off i in
         bindE (rd_u64 bd (off + 32)) (\<lambda>a0.
         bindE (add a0 amount) (\<lambda>a.
         bindE (wr_u64 bd (off + 32) a) (\<lambda>bd. Inr (bd, hdr))))
     | None \<Rightarrow>
         let i = unat (b_n_payees hdr) in
         if i \<ge> MAX_BATCH_PAYEES then fail BatchPayeesFull
         else
         let off = batch_payee_off i in
         bindE (wr_slice bd off 32 bk) (\<lambda>bd.
         bindE (wr_u64 bd (off + 32) amount) (\<lambda>bd.
         bindE (wr_u8 bd (off + 40) slot) (\<lambda>bd.
         Inr (bd, hdr\<lparr>b_n_payees := b_n_payees hdr + 1\<rparr>)))))"

text \<open>Reserves a voucher: the delta leaves the escrow balance and the pair is locked.\<close>

definition stage_reserve :: "account_info list \<Rightarrow> u64 \<Rightarrow> b2 \<Rightarrow> store \<Rightarrow> store res" where
  "stage_reserve accounts batch_id v s =
     bindE (ok_or (get_at accounts (b2_escrow_ix v)) Panic) (\<lambda>escrow_acc.
     bindE (pair_entry (data (s (key escrow_acc))) v) (\<lambda>(e, off).
     bindE (wr_u64 e (off + P_PENDING_CUM) (b2_cumulative v)) (\<lambda>e.
     bindE (wr_u64 e (off + P_PENDING_BATCH) batch_id) (\<lambda>e.
     bindE (rd_u64 e E_BALANCE) (\<lambda>bal0.
     bindE (sub bal0 (b2_delta v)) (\<lambda>bal.
     bindE (wr_u64 e E_BALANCE bal) (\<lambda>e.
     bindE (rd_u16 e E_PENDING_COUNT) (\<lambda>pc0.
     bindE (ok_or (checked_add pc0 1) (err MathOverflow)) (\<lambda>pc.
     bindE (wr_u16 e E_PENDING_COUNT pc) (\<lambda>e.
     Inr (set_data s (key escrow_acc) e)))))))))))"

type_synonym stage_st = "store \<times> seen \<times> seen \<times> batch_hdr \<times> bytes list"

definition stage_one ::
  "runtime \<Rightarrow> key \<Rightarrow> vctx \<Rightarrow> account_info list \<Rightarrow> account_info \<Rightarrow> bytes \<Rightarrow> nat \<Rightarrow> stage_st \<Rightarrow> stage_st res" where
  "stage_one rt pid ctx accounts batch_acc body i st =
     (let (s, es, bs, hdr, leaves) = st in
     bindE (rd_slice body (i * VOUCHER_WIRE_LEN) VOUCHER_WIRE_LEN) (\<lambda>raw.
     bindE (voucher_decode raw) (\<lambda>w.
     bindE (verify_b2 rt pid ctx accounts w 2 False s es bs) (\<lambda>(v, es, bs).
     bindE (stage_reserve accounts (b_batch_id hdr) v s) (\<lambda>s.
     bindE (ok_or (get_at accounts (b2_book_ix v)) Panic) (\<lambda>book_acc.
     bindE (add_batch_payee (data (s (key batch_acc))) hdr (key book_acc) (of_nat (b2_slot v)) (b2_delta v)) (\<lambda>(bd, hdr).
     let s = set_data s (key batch_acc) bd in
     bindE (ok_or (checked_add (b_staged_count hdr) 1) (err MathOverflow)) (\<lambda>sc.
     bindE (add (b_staged_total hdr) (b2_delta v)) (\<lambda>stt.
     bindE (add (b_held hdr) (b2_delta v)) (\<lambda>hd.
     bindE (ok_or (checked_add (b_outstanding hdr) 1) (err MathOverflow)) (\<lambda>out.
     Inr (s, es, bs,
          hdr\<lparr>b_staged_count := sc, b_staged_total := stt, b_held := hd, b_outstanding := out\<rparr>,
          leaves @ [batch_leaf rt (b2_delta v) (b2_msg v)]))))))))))))"

definition stage_chunk :: "runtime \<Rightarrow> key \<Rightarrow> account_info list \<Rightarrow> bytes \<Rightarrow> store \<Rightarrow> store res" where
  "stage_chunk rt pid accounts d s =
     (if length d < 4 then fail InvalidInstruction
     else
     bindE (rd_u16 d 0) (\<lambda>ci.
     bindE (rd_u8 d 2) (\<lambda>nb.
     bindE (rd_u8 d 3) (\<lambda>pl.
     let chunk_index = (ucast ci :: u32); n = unat nb; proof_len = unat pl; proof_end = 4 + proof_len * 32 in
     if length d \<noteq> proof_end + n * VOUCHER_WIRE_LEN then fail InvalidInstruction
     else
     bindE (ok_or (get_at accounts 0) (err InvalidInstruction)) (\<lambda>ledger_acc.
     bindE (ok_or (get_at accounts 1) (err InvalidInstruction)) (\<lambda>batch_acc.
     bindE (writable batch_acc) (\<lambda>_.
     bindE (ledger_load rt s ledger_acc pid) (\<lambda>l.
     bindE (batch_load rt s batch_acc pid) (\<lambda>hdr.
     let lk = key ledger_acc in
     if b_ledger hdr \<noteq> lk then fail InvalidAccount
     else if b_status hdr \<noteq> B_STAGING then fail BatchState
     else
     bindE (now rt) (\<lambda>slot_now.
     if slot_now > b_deadline_slot hdr then fail BatchDeadline
     else let num_chunks = (ucast (b_num_chunks hdr) :: u32) in
     if chunk_index \<ge> num_chunks then fail BadChunk
     else let bit_o = BATCH_HDR + unat (chunk_index div 8); bt = (push_bit (unat (chunk_index mod 8)) 1 :: u8) in
     bindE (rd_u8 (data (s (key batch_acc))) bit_o) (\<lambda>cur.
     if cur AND bt \<noteq> 0 then fail ChunkAlreadyStaged
     else let cs = (ucast (b_chunk_size hdr) :: u32);
              expect = unat (min cs (b_count hdr - chunk_index * cs)) in
     if n \<noteq> expect \<or> proof_len \<noteq> upper_depth (unat num_chunks) then fail BadChunk
     else let ctx = \<lparr>ctx_program_id = pid, ctx_ledger = lk, ctx_mint = l_mint l, ctx_salt = l_salt l,
                     ctx_now = slot_now\<rparr>;
              body = drop proof_end d in
     bindE (foldE (stage_one rt pid ctx accounts batch_acc body) [0..<n] (s, 0, 0, hdr, []))
       (\<lambda>(s, es, bs, hdr, leaves).
     if proof_len > 8 then Inl Panic
     else let prf = map (\<lambda>j. slice d (4 + 32 * j) 32) [0..<proof_len];
              chunk_root = subtree_root rt leaves (unat (b_chunk_log hdr)) in
     if fold_proof rt chunk_root (unat chunk_index) prf \<noteq> b_root hdr then fail BadMerkleProof
     else
     let hdr = hdr\<lparr>b_chunks_staged := b_chunks_staged hdr + 1\<rparr>; bd = data (s (key batch_acc)) in
     bindE (rd_u8 bd bit_o) (\<lambda>cur.
     bindE (wr_u8 bd bit_o (cur OR bt)) (\<lambda>bd.
     bindE (batch_pack hdr bd) (\<lambda>bd.
     Inr (set_data s (key batch_acc) bd))))))))))))))))"

definition account_position :: "account_info list \<Rightarrow> key \<Rightarrow> nat option" where
  "account_position accs k =
     (case filter (\<lambda>i. key (accs ! i) = k) [0..<length accs] of [] \<Rightarrow> None | i # _ \<Rightarrow> Some i)"

text \<open>One credit of \<open>commit_batch\<close>: state, checked books and the running sum.\<close>

definition commit_one ::
  "runtime \<Rightarrow> key \<Rightarrow> key \<Rightarrow> account_info list \<Rightarrow> account_info \<Rightarrow> nat \<Rightarrow> store \<times> seen \<times> u64 \<Rightarrow>
   (store \<times> seen \<times> u64) res" where
  "commit_one rt pid led accounts batch_acc i st =
     (let (s, sn, credited) = st; bd = data (s (key batch_acc)); off = batch_payee_off i in
     bindE (rd_key bd off) (\<lambda>book_key.
     bindE (rd_u64 bd (off + 32)) (\<lambda>amount.
     bindE (rd_u8 bd (off + 40)) (\<lambda>sl.
     bindE (ok_or (account_position (tl accounts) book_key) (err InvalidAccount)) (\<lambda>pos.
     let bi = 1 + pos in
     bindE (ok_or (get_at accounts bi) Panic) (\<lambda>book_acc.
     bindE (test_set sn bi) (\<lambda>(was, sn).
     bindE (if was then Inr ()
            else
              bindE (writable book_acc) (\<lambda>_.
              bindE (check_book rt s book_acc pid) (\<lambda>bl.
              if bl \<noteq> led then fail InvalidAccount else Inr ()))) (\<lambda>_.
     let b = data (s (key book_acc)); o2 = slot_off (unat sl) + S_BALANCE in
     bindE (rd_u64 b o2) (\<lambda>bal0.
     bindE (add bal0 amount) (\<lambda>bal.
     bindE (wr_u64 b o2 bal) (\<lambda>b.
     let s = set_data s (key book_acc) b in
     bindE (add credited amount) (\<lambda>credited.
     Inr (s, sn, credited)))))))))))))"

definition commit_batch :: "runtime \<Rightarrow> key \<Rightarrow> account_info list \<Rightarrow> bytes \<Rightarrow> store \<Rightarrow> store res" where
  "commit_batch rt pid accounts d s =
     bindE (exact d 0) (\<lambda>_.
     bindE (ok_or (get_at accounts 0) (err InvalidInstruction)) (\<lambda>batch_acc.
     bindE (writable batch_acc) (\<lambda>_.
     bindE (batch_load rt s batch_acc pid) (\<lambda>hdr.
     if b_status hdr \<noteq> B_STAGING then fail BatchState
     else
     bindE (now rt) (\<lambda>t.
     if t > b_deadline_slot hdr then fail BatchDeadline
     else if b_chunks_staged hdr \<noteq> b_num_chunks hdr \<or> b_staged_count hdr \<noteq> b_count hdr then fail BatchIncomplete
     else if b_staged_total hdr \<noteq> b_total hdr \<or> b_held hdr \<noteq> b_total hdr then fail BatchTotalMismatch
     else
     bindE (foldE (commit_one rt pid (b_ledger hdr) accounts batch_acc) [0..<unat (b_n_payees hdr)] (s, 0, 0))
       (\<lambda>(s, _, credited).
     if credited \<noteq> b_held hdr then fail BatchTotalMismatch
     else
     let hdr = hdr\<lparr>b_held := 0, b_status := B_COMMITTED\<rparr> in
     bindE (batch_pack hdr (data (s (key batch_acc)))) (\<lambda>bd.
     Inr (set_data s (key batch_acc) bd))))))))"

definition abort_batch :: "runtime \<Rightarrow> key \<Rightarrow> account_info list \<Rightarrow> bytes \<Rightarrow> store \<Rightarrow> store res" where
  "abort_batch rt pid accounts d s =
     bindE (exact d 0) (\<lambda>_.
     bindE (next_account_info accounts) (\<lambda>(caller, it).
     bindE (next_account_info it) (\<lambda>(batch_acc, it).
     bindE (signer caller) (\<lambda>_.
     bindE (writable batch_acc) (\<lambda>_.
     bindE (batch_load rt s batch_acc pid) (\<lambda>hdr.
     if b_status hdr \<noteq> B_STAGING then fail BatchState
     else
     bindE (if key caller \<noteq> b_submitter hdr then bindE (now rt) (\<lambda>t. Inr (t \<le> b_deadline_slot hdr))
            else Inr False) (\<lambda>early.
     if early then fail BatchNotTimedOut
     else
     let hdr = hdr\<lparr>b_status := B_ABORTED\<rparr> in
     bindE (batch_pack hdr (data (s (key batch_acc)))) (\<lambda>bd.
     Inr (set_data s (key batch_acc) bd)))))))))"

definition resolve_one ::
  "runtime \<Rightarrow> key \<Rightarrow> bool \<Rightarrow> account_info list \<Rightarrow> bytes \<Rightarrow> nat \<Rightarrow> store \<times> seen \<times> batch_hdr \<Rightarrow>
   (store \<times> seen \<times> batch_hdr) res" where
  "resolve_one rt pid committed accounts body i st =
     (let (s, sn, hdr) = st in
     bindE (rd_u8 body (2 * i)) (\<lambda>eb.
     bindE (rd_u8 body (2 * i + 1)) (\<lambda>pb.
     let ei = unat eb; pi = unat pb in
     if ei = 0 then fail InvalidInstruction
     else
     bindE (ok_or (get_at accounts ei) (err InvalidInstruction)) (\<lambda>escrow_acc.
     bindE (test_set sn ei) (\<lambda>(was, sn).
     bindE (if was then Inr ()
            else
              bindE (writable escrow_acc) (\<lambda>_.
              bindE (check_escrow rt s escrow_acc pid) (\<lambda>(l, _).
              if l \<noteq> b_ledger hdr then fail InvalidAccount else Inr ()))) (\<lambda>_.
     let e = data (s (key escrow_acc)) in
     bindE (rd_u8 e E_PAIR_COUNT) (\<lambda>c.
     if pi \<ge> unat c then fail InvalidInstruction
     else
     let off = pair_off pi in
     bindE (rd_u64 e (off + P_PENDING_BATCH)) (\<lambda>pbat.
     if pbat \<noteq> b_batch_id hdr then fail WrongPendingBatch
     else
     bindE (rd_u64 e (off + P_PENDING_CUM)) (\<lambda>cum.
     bindE (rd_u64 e (off + P_SETTLED)) (\<lambda>settled.
     bindE (sub cum settled) (\<lambda>delta.
     bindE (if committed then bindE (wr_u64 e (off + P_SETTLED) cum) (\<lambda>e. Inr (e, hdr))
            else
              bindE (rd_u64 e E_BALANCE) (\<lambda>bal0.
              bindE (add bal0 delta) (\<lambda>bal.
              bindE (wr_u64 e E_BALANCE bal) (\<lambda>e.
              bindE (sub (b_held hdr) delta) (\<lambda>hd. Inr (e, hdr\<lparr>b_held := hd\<rparr>)))))) (\<lambda>(e, hdr).
     bindE (wr_u64 e (off + P_PENDING_CUM) 0) (\<lambda>e.
     bindE (wr_u64 e (off + P_PENDING_BATCH) 0) (\<lambda>e.
     bindE (rd_u16 e E_PENDING_COUNT) (\<lambda>pc0.
     bindE (ok_or (checked_sub pc0 1) (err MathOverflow)) (\<lambda>pc.
     bindE (wr_u16 e E_PENDING_COUNT pc) (\<lambda>e.
     bindE (ok_or (checked_sub (b_outstanding hdr) 1) (err MathOverflow)) (\<lambda>out.
     Inr (set_data s (key escrow_acc) e, sn, hdr\<lparr>b_outstanding := out\<rparr>)))))))))))))))))))"

definition resolve_staged :: "runtime \<Rightarrow> key \<Rightarrow> account_info list \<Rightarrow> bytes \<Rightarrow> store \<Rightarrow> store res" where
  "resolve_staged rt pid accounts d s =
     (case d of [] \<Rightarrow> fail InvalidInstruction
      | nb # body \<Rightarrow>
          let n = unat nb in
          if n = 0 \<or> length body \<noteq> 2 * n then fail InvalidInstruction
          else
          bindE (ok_or (get_at accounts 0) (err InvalidInstruction)) (\<lambda>batch_acc.
          bindE (writable batch_acc) (\<lambda>_.
          bindE (batch_load rt s batch_acc pid) (\<lambda>hdr.
          bindE (if b_status hdr = B_COMMITTED then Inr True
                 else if b_status hdr = B_ABORTED then Inr False
                 else fail BatchState) (\<lambda>committed.
          bindE (foldE (resolve_one rt pid committed accounts body) [0..<n] (s, 0, hdr)) (\<lambda>(s, _, hdr).
          bindE (batch_pack hdr (data (s (key batch_acc)))) (\<lambda>bd.
          Inr (set_data s (key batch_acc) bd))))))))"

definition close_batch :: "runtime \<Rightarrow> key \<Rightarrow> account_info list \<Rightarrow> bytes \<Rightarrow> store \<Rightarrow> store res" where
  "close_batch rt pid accounts d s =
     bindE (exact d 0) (\<lambda>_.
     bindE (next_account_info accounts) (\<lambda>(batch_acc, it).
     bindE (next_account_info it) (\<lambda>(submitter, it).
     bindE (batch_load rt s batch_acc pid) (\<lambda>hdr.
     if b_status hdr \<noteq> B_COMMITTED \<and> b_status hdr \<noteq> B_ABORTED then fail BatchState
     else if b_outstanding hdr \<noteq> 0 \<or> b_held hdr \<noteq> 0 then fail BatchOutstanding
     else if key submitter \<noteq> b_submitter hdr then fail InvalidAccount
     else close_account batch_acc submitter s))))"

end
