(* ===== verification/XsProcess.thy ===== *)
theory XsProcess
  imports XsBatch
begin

text \<open>
  The entry point of \<open>x402_settle\<close>: dispatch on the instruction tag
  (\<open>programs/x402_settle/src/processor.rs\<close>, \<open>process\<close>). The measurement tag \<open>0xF0\<close> exists in
  test builds only and is not part of the program.
\<close>

definition PROGRAM_ID :: key where
  "PROGRAM_ID =
    [182, 28, 42, 112, 255, 100, 30, 249, 213, 245, 87, 249, 48, 56, 186, 88,
     67, 185, 187, 199, 123, 73, 108, 228, 250, 64, 58, 99, 4, 87, 244, 5]"

definition process :: "runtime \<Rightarrow> key \<Rightarrow> account_info list \<Rightarrow> bytes \<Rightarrow> store \<Rightarrow> store res" where
  "process rt pid accounts d s =
     (case d of [] \<Rightarrow> fail InvalidInstruction
      | t # rest \<Rightarrow>
          if t = INIT_LEDGER then init_ledger rt pid accounts rest s
          else if t = OPEN_ESCROW then open_escrow rt pid accounts rest s
          else if t = GROW_ESCROW then grow_escrow rt pid accounts rest s
          else if t = DEPOSIT then deposit rt pid accounts rest s
          else if t = REQUEST_EXIT then request_exit rt pid accounts rest s
          else if t = WITHDRAW_ESCROW then withdraw_escrow rt pid accounts rest s
          else if t = CLOSE_ESCROW then close_escrow rt pid accounts rest s
          else if t = CREATE_BOOK then create_book rt pid accounts rest s
          else if t = REGISTER_PAYEE then register_payee rt pid accounts rest s
          else if t = WITHDRAW_PAYEE then withdraw_payee rt pid accounts rest s
          else if t = SETTLE then settle rt pid accounts rest s
          else if t = OPEN_CHANNEL then open_channel rt pid accounts rest s
          else if t = CLOSE_CHANNELS then close_channels rt pid accounts rest s
          else if t = REQUEST_CHANNEL_CLOSE then request_channel_close rt pid accounts rest s
          else if t = FINALIZE_CHANNEL then finalize_channel rt pid accounts rest s
          else if t = RECLAIM_CHANNEL then reclaim_channel rt pid accounts rest s
          else if t = BEGIN_BATCH then begin_batch rt pid accounts rest s
          else if t = STAGE_CHUNK then stage_chunk rt pid accounts rest s
          else if t = COMMIT_BATCH then commit_batch rt pid accounts rest s
          else if t = ABORT_BATCH then abort_batch rt pid accounts rest s
          else if t = RESOLVE_STAGED then resolve_staged rt pid accounts rest s
          else if t = CLOSE_BATCH then close_batch rt pid accounts rest s
          else fail InvalidInstruction)"

end
