(* ===== verification/XsValue.thy ===== *)
theory XsValue
  imports XsProcess
begin

text \<open>
  The money model stated in \<open>processor.rs\<close>: every balance of a ledger is an entry (an escrow
  balance, a channel balance, a batch hold or a payee slot), and \<open>Ledger::liabilities\<close> is their
  sum. This theory defines the entries of a ledger and their total, and shows how each kind of
  account write changes them; the handlers are composed of these writes.
\<close>

section \<open>Entries\<close>

definition entry_ledger :: "bytes \<Rightarrow> key option" where
  "entry_ledger d =
     (let disc = slice d 0 8 in
      if disc = DISC_ESCROW \<or> disc = DISC_BOOK \<or> disc = DISC_CHANNEL then Some (slice d 16 32)
      else if disc = DISC_BATCH then Some (slice d 24 32) else None)"

definition book_value :: "bytes \<Rightarrow> nat" where
  "book_value d = (\<Sum>i<BOOK_SLOTS. unat (get_u64 d (slot_off i + S_BALANCE)))"

definition entry_value :: "bytes \<Rightarrow> nat" where
  "entry_value d =
     (let disc = slice d 0 8 in
      if disc = DISC_ESCROW then unat (get_u64 d E_BALANCE)
      else if disc = DISC_BOOK then book_value d
      else if disc = DISC_CHANNEL then unat (c_balance (channel_of d))
      else if disc = DISC_BATCH then unat (b_held (batch_of d)) else 0)"

definition held :: "key \<Rightarrow> key \<Rightarrow> account \<Rightarrow> nat" where
  "held pid L a = (if owner a = pid \<and> entry_ledger (data a) = Some L then entry_value (data a) else 0)"

definition ledger_total :: "key \<Rightarrow> store \<Rightarrow> key \<Rightarrow> nat" where
  "ledger_total pid s L = total (\<lambda>k. held pid L (s k))"

definition liabilities :: "store \<Rightarrow> key \<Rightarrow> nat" where
  "liabilities s L = unat (l_liabilities (ledger_of (data (s L))))"

definition is_entry :: "key \<Rightarrow> account \<Rightarrow> bool" where
  "is_entry pid a \<longleftrightarrow> owner a = pid \<and> entry_ledger (data a) \<noteq> None"

text \<open>
  The books of all ledgers are well formed: finitely many entries, each of an existing ledger,
  and no ledger uses this program as its token program.
\<close>

definition books_ok :: "key \<Rightarrow> store \<Rightarrow> bool" where
  "books_ok pid s \<longleftrightarrow>
     finite {k. is_entry pid (s k)} \<and>
     (\<forall>k L. owner (s k) = pid \<longrightarrow> entry_ledger (data (s k)) = Some L \<longrightarrow> is_ledger pid (s L)) \<and>
     (\<forall>L. is_ledger pid (s L) \<longrightarrow> l_token_program (ledger_of (data (s L))) \<noteq> pid)"

text \<open>Every ledger balances, except that the liabilities of \<open>L\<close> exceed its entries by \<open>x\<close>.\<close>

definition balanced_but :: "key \<Rightarrow> store \<Rightarrow> key \<Rightarrow> int \<Rightarrow> bool" where
  "balanced_but pid s L x \<longleftrightarrow> books_ok pid s \<and>
     (\<forall>M. is_ledger pid (s M) \<longrightarrow>
        int (liabilities s M) = int (ledger_total pid s M) + (if M = L then x else 0))"

definition balanced :: "key \<Rightarrow> store \<Rightarrow> bool" where
  "balanced pid s \<longleftrightarrow> books_ok pid s \<and>
     (\<forall>L. is_ledger pid (s L) \<longrightarrow> liabilities s L = ledger_total pid s L)"

section \<open>Basic facts\<close>

lemma balanced_but_0: "balanced_but pid s L 0 \<longleftrightarrow> balanced pid s"
  by (simp add: balanced_but_def balanced_def)

lemma balanced_but_booksD: "balanced_but pid s L x \<Longrightarrow> books_ok pid s"
  by (simp add: balanced_but_def)

lemma books_okD:
  assumes "books_ok pid s"
  shows "finite {k. is_entry pid (s k)}"
    and "owner (s k) = pid \<Longrightarrow> entry_ledger (data (s k)) = Some L \<Longrightarrow> is_ledger pid (s L)"
    and "is_ledger pid (s L) \<Longrightarrow> l_token_program (ledger_of (data (s L))) \<noteq> pid"
  using assms unfolding books_ok_def by blast+

lemma finite_held: "books_ok pid s \<Longrightarrow> finite {k. held pid L (s k) \<noteq> 0}"
  by (rule finite_subset [of _ "{k. is_entry pid (s k)}"])
    (auto simp: books_ok_def held_def is_entry_def split: if_splits)

lemma is_ledger_not_entry: "is_ledger pid a \<Longrightarrow> entry_ledger (data a) = None"
  by (simp add: is_ledger_def entry_ledger_def)

lemma entry_ledger_kinds:
  "is_escrow pid a \<Longrightarrow> entry_ledger (data a) = Some (slice (data a) 16 32)"
  "is_book pid a \<Longrightarrow> entry_ledger (data a) = Some (slice (data a) 16 32)"
  "is_channel pid a \<Longrightarrow> entry_ledger (data a) = Some (slice (data a) 16 32)"
  "is_batch pid a \<Longrightarrow> entry_ledger (data a) = Some (slice (data a) 24 32)"
  by (simp_all add: entry_ledger_def is_escrow_def is_book_def is_channel_def is_batch_def)

lemma kinds_owner:
  "is_ledger pid a \<Longrightarrow> owner a = pid" "is_escrow pid a \<Longrightarrow> owner a = pid"
  "is_book pid a \<Longrightarrow> owner a = pid" "is_channel pid a \<Longrightarrow> owner a = pid"
  "is_batch pid a \<Longrightarrow> owner a = pid"
  by (simp_all add: is_ledger_def is_escrow_def is_book_def is_channel_def is_batch_def)

lemma kinds_disjoint:
  "is_escrow pid a \<Longrightarrow> \<not> is_ledger pid a" "is_book pid a \<Longrightarrow> \<not> is_ledger pid a"
  "is_channel pid a \<Longrightarrow> \<not> is_ledger pid a" "is_batch pid a \<Longrightarrow> \<not> is_ledger pid a"
  "is_escrow pid a \<Longrightarrow> \<not> is_book pid a" "is_escrow pid a \<Longrightarrow> \<not> is_channel pid a"
  "is_escrow pid a \<Longrightarrow> \<not> is_batch pid a" "is_book pid a \<Longrightarrow> \<not> is_channel pid a"
  "is_book pid a \<Longrightarrow> \<not> is_batch pid a" "is_channel pid a \<Longrightarrow> \<not> is_batch pid a"
  by (auto simp: is_ledger_def is_escrow_def is_book_def is_channel_def is_batch_def)

lemma slice_all_zero: "\<forall>b \<in> set d. b = 0 \<Longrightarrow> \<forall>b \<in> set (slice d off n). b = 0"
  unfolding slice_def by (meson in_set_dropD in_set_takeD)

lemma zero_not_DISC:
  "\<forall>b \<in> set d. b = 0 \<Longrightarrow>
   slice d 0 8 \<notin> {DISC_LEDGER, DISC_ESCROW, DISC_BOOK, DISC_CHANNEL, DISC_BATCH}"
proof -
  assume z: "\<forall>b \<in> set d. b = 0"
  have "slice d 0 8 = disc \<Longrightarrow> length disc = 8 \<Longrightarrow> disc = replicate 8 0" for disc
    using slice_all_zero [OF z, of 0 8] by (metis replicate_eqI)
  then show ?thesis using distinct_DISC by auto
qed

lemma zero_data:
  assumes "\<forall>b \<in> set (data a). b = 0"
  shows "entry_ledger (data a) = None" and "\<not> is_ledger pid a"
  using zero_not_DISC [OF assms] by (auto simp: entry_ledger_def is_ledger_def)

lemma empty_data [simp]: "entry_ledger [] = None"
  using zero_data [of "\<lparr>lamports = 0, owner = [], data = []\<rparr>"] by simp

lemma held_set_data:
  "held pid L (set_data s k d j) =
     (if j = k then (if owner (s k) = pid \<and> entry_ledger d = Some L then entry_value d else 0)
      else held pid L (s j))"
  by (simp add: held_def set_data_def)

section \<open>Steps that do not touch the program's data\<close>

definition quiet :: "key \<Rightarrow> store \<Rightarrow> store \<Rightarrow> bool" where
  "quiet pid s s' \<longleftrightarrow>
     (\<forall>k. owner (s k) = pid \<longrightarrow> owner (s' k) = pid \<and> data (s' k) = data (s k)) \<and>
     (\<forall>k. owner (s k) \<noteq> pid \<longrightarrow> owner (s' k) = pid \<longrightarrow> (\<forall>b \<in> set (data (s' k)). b = 0))"

lemma foreign_quiet: "foreign_step pid s s' \<Longrightarrow> quiet pid s s'"
  by (simp add: foreign_step_def quiet_def)

lemma quiet_refl: "quiet pid s s"
  by (simp add: quiet_def)

lemma quiet_kinds:
  assumes "quiet pid s s'"
  shows "is_ledger pid (s' k) \<longleftrightarrow> is_ledger pid (s k)"
    and "is_entry pid (s' k) \<longleftrightarrow> is_entry pid (s k)"
    and "held pid L (s' k) = held pid L (s k)"
    and "owner (s k) = pid \<Longrightarrow> owner (s' k) = pid \<and> data (s' k) = data (s k)"
proof -
  from assms show same: "owner (s k) = pid \<Longrightarrow> owner (s' k) = pid \<and> data (s' k) = data (s k)"
    by (simp add: quiet_def)
  have fresh: "entry_ledger (data (s' k)) = None \<and> \<not> is_ledger pid (s' k)"
    if "owner (s k) \<noteq> pid" "owner (s' k) = pid"
  proof -
    from assms that have "\<forall>b \<in> set (data (s' k)). b = 0" unfolding quiet_def by blast
    then show ?thesis using zero_data by blast
  qed
  show "is_ledger pid (s' k) \<longleftrightarrow> is_ledger pid (s k)"
  proof (cases "owner (s k) = pid")
    case True
    with same show ?thesis by (simp add: is_ledger_def)
  next
    case False
    with fresh show ?thesis by (metis kinds_owner(1))
  qed
  show "is_entry pid (s' k) \<longleftrightarrow> is_entry pid (s k)"
  proof (cases "owner (s k) = pid")
    case True
    with same show ?thesis by (simp add: is_entry_def)
  next
    case False
    with fresh show ?thesis by (metis is_entry_def)
  qed
  show "held pid L (s' k) = held pid L (s k)"
  proof (cases "owner (s k) = pid")
    case True
    with same show ?thesis by (simp add: held_def)
  next
    case False
    with fresh show ?thesis by (auto simp: held_def)
  qed
qed

lemma quiet_books_ok:
  assumes "quiet pid s s'" and "books_ok pid s"
  shows "books_ok pid s'"
proof -
  note q = quiet_kinds [OF assms(1)]
  have "{k. is_entry pid (s' k)} = {k. is_entry pid (s k)}" by (simp add: q)
  then have fin: "finite {k. is_entry pid (s' k)}" using assms(2) by (simp add: books_ok_def)
  have "is_ledger pid (s' L)" if "owner (s' k) = pid" "entry_ledger (data (s' k)) = Some L" for k L
  proof -
    have "is_entry pid (s k)" using that q(2) [of k] by (auto simp: is_entry_def)
    then have "owner (s k) = pid" "entry_ledger (data (s k)) = Some L"
      using q(4) [of k] that by (auto simp: is_entry_def)
    then show ?thesis using assms(2) q(1) by (auto simp: books_ok_def)
  qed
  moreover have "l_token_program (ledger_of (data (s' L))) \<noteq> pid" if "is_ledger pid (s' L)" for L
    using that q(1) [of L] q(4) [OF kinds_owner(1), of L] books_okD(3) [OF assms(2)] by simp
  ultimately show ?thesis using fin by (auto simp: books_ok_def)
qed

lemma quiet_liabilities: "quiet pid s s' \<Longrightarrow> is_ledger pid (s L) \<Longrightarrow> liabilities s' L = liabilities s L"
  using quiet_kinds(4) [OF _ kinds_owner(1)] by (simp add: liabilities_def)

lemma quiet_total: "quiet pid s s' \<Longrightarrow> ledger_total pid s' L = ledger_total pid s L"
  by (simp add: ledger_total_def quiet_kinds)

lemma quiet_balanced_but:
  assumes "balanced_but pid s L x" and "quiet pid s s'"
  shows "balanced_but pid s' L x"
  using assms quiet_books_ok [OF assms(2)] quiet_liabilities [OF assms(2)]
  by (auto simp: balanced_but_def quiet_total quiet_kinds)

lemma quiet_set_lamports: "quiet pid s (set_lamports s k v)"
  by (simp add: quiet_def)

section \<open>Writes to entries and ledgers\<close>

lemma total_set_data:
  assumes "books_ok pid s" and "owner (s k) = pid" and "entry_ledger d = Some L"
    and "entry_ledger (data (s k)) = Some L \<or> entry_ledger (data (s k)) = None"
  shows "int (ledger_total pid (set_data s k d) M) =
    int (ledger_total pid s M) + (if M = L then int (entry_value d) - int (held pid L (s k)) else 0)"
proof -
  have f: "(\<lambda>j. held pid M (set_data s k d j)) = (\<lambda>j. held pid M (s j))(k := held pid M (set_data s k d k))"
    by (auto simp: held_set_data)
  have "total (\<lambda>j. held pid M (set_data s k d j)) + held pid M (s k) =
      ledger_total pid s M + held pid M (set_data s k d k)"
    unfolding f ledger_total_def by (rule total_upd) (rule finite_held [OF assms(1)])
  moreover have "held pid M (set_data s k d k) = (if M = L then entry_value d else 0)"
    using assms(2,3) by (simp add: held_set_data)
  moreover have "M \<noteq> L \<Longrightarrow> held pid M (s k) = 0" using assms(4) by (auto simp: held_def)
  ultimately show ?thesis by (auto simp: ledger_total_def)
qed

lemma entry_write_books_ok:
  assumes "books_ok pid s" and "owner (s k) = pid" and "\<not> is_ledger pid (s k)"
    and "is_ledger pid (s L)" and "entry_ledger d = Some L"
  shows "books_ok pid (set_data s k d)" and "is_ledger pid (set_data s k d j) \<longleftrightarrow> is_ledger pid (s j)"
proof -
  have nl: "\<not> is_ledger pid (set_data s k d k)"
    using assms(5) by (auto dest!: is_ledger_not_entry)
  then show led: "is_ledger pid (set_data s k d j) \<longleftrightarrow> is_ledger pid (s j)" for j
    using assms(3) by (cases "j = k") (auto simp: set_data_def)
  have "{j. is_entry pid (set_data s k d j)} \<subseteq> insert k {j. is_entry pid (s j)}"
    by (auto simp: is_entry_def set_data_def split: if_splits)
  then have "finite {j. is_entry pid (set_data s k d j)}"
    using assms(1) finite_subset by (auto simp: books_ok_def)
  moreover have "is_ledger pid (set_data s k d M)"
    if "owner (set_data s k d j) = pid" "entry_ledger (data (set_data s k d j)) = Some M" for j M
    using that assms(4,5) books_okD(2) [OF assms(1)] by (cases "j = k") (auto simp: led)
  moreover have "l_token_program (ledger_of (data (set_data s k d M))) \<noteq> pid"
    if "is_ledger pid (set_data s k d M)" for M
    using that assms(3) books_okD(3) [OF assms(1)] by (cases "M = k") (auto simp: led)
  ultimately show "books_ok pid (set_data s k d)" by (auto simp: books_ok_def)
qed

lemma entry_write:
  assumes "balanced_but pid s L x" and "owner (s k) = pid" and "\<not> is_ledger pid (s k)"
    and "is_ledger pid (s L)" and "entry_ledger d = Some L"
    and "entry_ledger (data (s k)) = Some L \<or> entry_ledger (data (s k)) = None"
  shows "balanced_but pid (set_data s k d) L (x + int (held pid L (s k)) - int (entry_value d))"
proof -
  have b: "books_ok pid s" using assms(1) by (rule balanced_but_booksD)
  note w = entry_write_books_ok [OF b assms(2-5)]
  have "int (liabilities (set_data s k d) M) = int (ledger_total pid (set_data s k d) M) +
      (if M = L then x + int (held pid L (s k)) - int (entry_value d) else 0)"
    if "is_ledger pid (set_data s k d M)" for M
  proof -
    from that have M: "is_ledger pid (s M)" by (simp add: w(2))
    then have "M \<noteq> k" using assms(3) by auto
    then have "liabilities (set_data s k d) M = liabilities s M" by (simp add: liabilities_def)
    then show ?thesis
      using assms(1) M total_set_data [OF b assms(2,5,6), of M] by (simp add: balanced_but_def)
  qed
  with w(1) show ?thesis by (simp add: balanced_but_def)
qed

lemma ledger_write:
  assumes "balanced_but pid s L x" and "is_ledger pid (s L)" and "ledger_pack l (data (s L)) = Inr d"
    and "l_token_program l = l_token_program (ledger_of (data (s L)))"
  shows "balanced_but pid (set_data s L d) L (x + int (unat (l_liabilities l)) - int (liabilities s L))"
    and "is_ledger pid (set_data s L d j) \<longleftrightarrow> is_ledger pid (s j)"
proof -
  have len: "length d = LEDGER_LEN" and disc: "slice d 0 8 = DISC_LEDGER" and l: "ledger_of d = l"
    using assms(2) ledger_codec.pack_length [OF assms(3)] ledger_codec.pack_disc [OF assms(3)]
      ledger_codec.pack_of [OF assms(3)] by (auto simp: is_ledger_def)
  have newled: "is_ledger pid (set_data s L d L)"
    using assms(2) len disc by (simp add: is_ledger_def)
  then show led: "is_ledger pid (set_data s L d j) \<longleftrightarrow> is_ledger pid (s j)" for j
    using assms(2) by (cases "j = L") auto
  have b: "books_ok pid s" using assms(1) by (rule balanced_but_booksD)
  have heldeq: "held pid M (set_data s L d j) = held pid M (s j)" for M j
    using is_ledger_not_entry [OF assms(2)] is_ledger_not_entry [OF newled]
    by (cases "j = L") (auto simp: held_def)
  have "{j. is_entry pid (set_data s L d j)} = {j. is_entry pid (s j)}"
    using is_ledger_not_entry [OF assms(2)] is_ledger_not_entry [OF newled]
    by (auto simp: is_entry_def set_data_def split: if_splits)
  then have "finite {j. is_entry pid (set_data s L d j)}" using b by (simp add: books_ok_def)
  moreover have "is_ledger pid (set_data s L d M)"
    if "owner (set_data s L d j) = pid" "entry_ledger (data (set_data s L d j)) = Some M" for j M
    using that books_okD(2) [OF b] is_ledger_not_entry [OF newled] by (cases "j = L") (auto simp: led)
  moreover have "l_token_program (ledger_of (data (set_data s L d M))) \<noteq> pid"
    if "is_ledger pid (set_data s L d M)" for M
    using that books_okD(3) [OF b] assms(2,4) l by (cases "M = L") (auto simp: led)
  ultimately have "books_ok pid (set_data s L d)" by (auto simp: books_ok_def)
  moreover have "liabilities (set_data s L d) M =
      (if M = L then unat (l_liabilities l) else liabilities s M)" for M
    by (simp add: liabilities_def l)
  moreover have "ledger_total pid (set_data s L d) M = ledger_total pid s M" for M
    by (simp add: ledger_total_def heldeq)
  ultimately show "balanced_but pid (set_data s L d) L (x + int (unat (l_liabilities l)) - int (liabilities s L))"
    using assms(1,2) by (auto simp: balanced_but_def led)
qed

text \<open>A new ledger: no entry refers to an address that is no ledger.\<close>

lemma ledger_create:
  assumes "balanced pid s" and "owner (s L) = pid" and "\<not> is_ledger pid (s L)"
    and "entry_ledger (data (s L)) = None" and "length d = LEDGER_LEN" and "slice d 0 8 = DISC_LEDGER"
    and "l_liabilities (ledger_of d) = 0" and "l_token_program (ledger_of d) \<noteq> pid"
  shows "balanced pid (set_data s L d)"
proof -
  have b: "books_ok pid s" using assms(1) by (simp add: balanced_def)
  have newled: "is_ledger pid (set_data s L d L)"
    using assms(2,5,6) by (simp add: is_ledger_def)
  have led: "is_ledger pid (set_data s L d j) \<longleftrightarrow> j = L \<or> is_ledger pid (s j)" for j
    using newled by (cases "j = L") auto
  have heldeq: "held pid M (set_data s L d j) = held pid M (s j)" for M j
    using is_ledger_not_entry [OF newled] assms(4) by (cases "j = L") (auto simp: held_def)
  have noref: "held pid L (s j) = 0" for j
    using b assms(3) by (auto simp: books_ok_def held_def)
  have "{j. is_entry pid (set_data s L d j)} = {j. is_entry pid (s j)}"
    using is_ledger_not_entry [OF newled] assms(4)
    by (auto simp: is_entry_def set_data_def split: if_splits)
  then have "finite {j. is_entry pid (set_data s L d j)}" using b by (simp add: books_ok_def)
  moreover have "is_ledger pid (set_data s L d M)"
    if "owner (set_data s L d j) = pid" "entry_ledger (data (set_data s L d j)) = Some M" for j M
    using that books_okD(2) [OF b] is_ledger_not_entry [OF newled] by (cases "j = L") (auto simp: led)
  moreover have "l_token_program (ledger_of (data (set_data s L d M))) \<noteq> pid"
    if "is_ledger pid (set_data s L d M)" for M
    using that books_okD(3) [OF b] assms(8) by (cases "M = L") (auto simp: led)
  ultimately have "books_ok pid (set_data s L d)" by (auto simp: books_ok_def)
  moreover have "ledger_total pid s L = 0" by (simp add: ledger_total_def noref total_def)
  moreover have "liabilities (set_data s L d) M = (if M = L then 0 else liabilities s M)" for M
    using assms(7) by (simp add: liabilities_def)
  ultimately show ?thesis
    using assms(1) by (auto simp: balanced_def led ledger_total_def heldeq)
qed

text \<open>Closing an entry removes its value from the ledger's total.\<close>

lemma entry_close:
  assumes "balanced_but pid s L x" and "owner (s k) = pid" and "entry_ledger (data (s k)) = Some L"
    and "pid \<noteq> SYSTEM_ID" and s': "s' = s(k := \<lparr>lamports = v, owner = SYSTEM_ID, data = []\<rparr>)"
  shows "balanced_but pid s' L (x + int (entry_value (data (s k))))"
proof -
  have b: "books_ok pid s" using assms(1) by (rule balanced_but_booksD)
  have nl: "\<not> is_ledger pid (s k)" using assms(3) by (auto dest: is_ledger_not_entry)
  have led: "is_ledger pid (s' j) \<longleftrightarrow> is_ledger pid (s j)" for j
    using nl assms(4) by (auto simp: s' is_ledger_def)
  have "{j. is_entry pid (s' j)} \<subseteq> {j. is_entry pid (s j)}"
    by (auto simp: is_entry_def s' split: if_splits)
  then have "finite {j. is_entry pid (s' j)}" using b finite_subset by (auto simp: books_ok_def)
  moreover have "is_ledger pid (s' M)"
    if "owner (s' j) = pid" "entry_ledger (data (s' j)) = Some M" for j M
  proof -
    from that have "j \<noteq> k" by (auto simp: s')
    with that show ?thesis unfolding led by (intro books_okD(2) [OF b, of j]) (simp_all add: s')
  qed
  moreover have "l_token_program (ledger_of (data (s' M))) \<noteq> pid" if "is_ledger pid (s' M)" for M
  proof -
    from that nl have "M \<noteq> k" "is_ledger pid (s M)" unfolding led by auto
    with books_okD(3) [OF b] show ?thesis by (simp add: s')
  qed
  ultimately have bo: "books_ok pid s'" by (auto simp: books_ok_def)
  have f: "(\<lambda>j. held pid M (s' j)) = (\<lambda>j. held pid M (s j))(k := 0)" for M
    by (auto simp: held_def s')
  have "ledger_total pid s' M + held pid M (s k) = ledger_total pid s M" for M
    using total_upd [OF finite_held [OF b], of M k 0] by (simp add: ledger_total_def f)
  moreover have "held pid M (s k) = (if M = L then entry_value (data (s k)) else 0)" for M
    using assms(2,3) by (auto simp: held_def)
  ultimately have tot: "ledger_total pid s M =
      ledger_total pid s' M + (if M = L then entry_value (data (s k)) else 0)" for M
    by simp
  have "liabilities s' M = liabilities s M" if "is_ledger pid (s M)" for M
    using that nl by (cases "M = k") (auto simp: liabilities_def s')
  with assms(1) bo show ?thesis by (simp add: balanced_but_def led tot)
qed

end
