(* ===== verification/XsFrame.thy ===== *)
theory XsFrame
  imports XsValue
begin

text \<open>
  Writes that keep the identity of accounts. Every handler changes an account of the program only
  behind its header: kind, length, capacity and ledger of the account stay. \<open>hdr_same\<close> says it
  of the bytes of one account, \<open>kept\<close> of the store; the lemmas here give the effect of such
  writes on the books.
\<close>

section \<open>Headers\<close>

definition hdr_same :: "bytes \<Rightarrow> bytes \<Rightarrow> bool" where
  "hdr_same d e \<longleftrightarrow> length e = length d \<and> slice e 0 8 = slice d 0 8 \<and> slice e 16 32 = slice d 16 32 \<and>
     (slice d 0 8 = DISC_ESCROW \<longrightarrow> e ! E_CAPACITY = d ! E_CAPACITY)"

lemma hdr_same_refl [simp]: "hdr_same d d"
  by (simp add: hdr_same_def)

lemma hdr_same_trans: "hdr_same d e \<Longrightarrow> hdr_same e f \<Longrightarrow> hdr_same d f"
  by (simp add: hdr_same_def)

lemma hdr_same_splice:
  "hdr_same d e \<Longrightarrow> 48 \<le> off \<or> 11 \<le> off \<and> off + length bs \<le> 16 \<Longrightarrow> hdr_same d (splice e off bs)"
  by (auto simp: hdr_same_def byte_simps)

definition kept :: "store \<Rightarrow> store \<Rightarrow> bool" where
  "kept s s' \<longleftrightarrow> (\<forall>k. owner (s' k) = owner (s k) \<and> hdr_same (data (s k)) (data (s' k)))"

lemma kept_refl [simp]: "kept s s"
  by (simp add: kept_def)

lemma kept_trans: "kept s1 s2 \<Longrightarrow> kept s2 s3 \<Longrightarrow> kept s1 s3"
  unfolding kept_def by (metis hdr_same_trans)

lemma kept_set_data: "hdr_same (data (s k)) e \<Longrightarrow> kept s (set_data s k e)"
  by (auto simp: kept_def set_data_apply)

lemma kept_kinds:
  assumes "kept s s'"
  shows "is_ledger pid (s' k) \<longleftrightarrow> is_ledger pid (s k)"
    and "is_escrow pid (s' k) \<longleftrightarrow> is_escrow pid (s k)"
    and "is_book pid (s' k) \<longleftrightarrow> is_book pid (s k)"
    and "is_channel pid (s' k) \<longleftrightarrow> is_channel pid (s k)"
    and "is_batch pid (s' k) \<longleftrightarrow> is_batch pid (s k)"
    and "slice (data (s' k)) 16 32 = slice (data (s k)) 16 32"
    and "length (data (s' k)) = length (data (s k))"
  using assms
  by (auto simp: kept_def hdr_same_def is_ledger_def is_escrow_def is_book_def is_channel_def is_batch_def)

section \<open>Values of entries\<close>

definition escrow_in :: "key \<Rightarrow> key \<Rightarrow> account \<Rightarrow> bool" where
  "escrow_in pid L a \<longleftrightarrow> is_escrow pid a \<and> slice (data a) 16 32 = L"

definition book_in :: "key \<Rightarrow> key \<Rightarrow> account \<Rightarrow> bool" where
  "book_in pid L a \<longleftrightarrow> is_book pid a \<and> slice (data a) 16 32 = L"

lemma kept_in:
  assumes "kept s s'"
  shows "escrow_in pid L (s' k) \<longleftrightarrow> escrow_in pid L (s k)"
    and "book_in pid L (s' k) \<longleftrightarrow> book_in pid L (s k)"
  using kept_kinds [OF assms] by (simp_all add: escrow_in_def book_in_def)

lemma entry_kinds:
  "slice d 0 8 = DISC_ESCROW \<Longrightarrow> entry_ledger d = Some (slice d 16 32) \<and> entry_value d = unat (get_u64 d E_BALANCE)"
  "slice d 0 8 = DISC_BOOK \<Longrightarrow> entry_ledger d = Some (slice d 16 32) \<and> entry_value d = book_value d"
  "slice d 0 8 = DISC_CHANNEL \<Longrightarrow> entry_ledger d = Some (slice d 16 32) \<and> entry_value d = unat (c_balance (channel_of d))"
  "slice d 0 8 = DISC_BATCH \<Longrightarrow> entry_ledger d = Some (slice d 24 32) \<and> entry_value d = unat (b_held (batch_of d))"
  by (simp_all add: entry_ledger_def entry_value_def)

lemma entry_update:
  assumes "balanced_but pid s L x" and "owner (s k) = pid" and "entry_ledger (data (s k)) = Some L"
    and "entry_ledger e = Some L"
  shows "balanced_but pid (set_data s k e) L (x + int (entry_value (data (s k))) - int (entry_value e))"
proof -
  have nl: "\<not> is_ledger pid (s k)" using assms(3) by (auto dest: is_ledger_not_entry)
  note b = balanced_but_booksD [OF assms(1)]
  have led: "is_ledger pid (s L)" by (rule books_okD(2) [OF b assms(2,3)])
  have "held pid L (s k) = entry_value (data (s k))" using assms(2,3) by (simp add: held_def)
  then show ?thesis using entry_write [OF assms(1,2) nl led assms(4)] assms(3) by simp
qed

section \<open>Steps\<close>

lemma escrow_step:
  assumes "balanced_but pid s L x" and "escrow_in pid L (s k)" and "hdr_same (data (s k)) e"
  shows "balanced_but pid (set_data s k e) L
    (x + int (unat (get_u64 (data (s k)) E_BALANCE)) - int (unat (get_u64 e E_BALANCE)))"
proof -
  have "slice (data (s k)) 0 8 = DISC_ESCROW" "slice e 0 8 = DISC_ESCROW" "slice e 16 32 = L"
    using assms(2,3) by (auto simp: escrow_in_def is_escrow_def hdr_same_def)
  moreover have "owner (s k) = pid" "slice (data (s k)) 16 32 = L"
    using assms(2) by (auto simp: escrow_in_def is_escrow_def)
  ultimately show ?thesis
    using entry_update [OF assms(1), of k e] entry_kinds(1) [of e] entry_kinds(1) [of "data (s k)"] by simp
qed

lemma book_step:
  assumes "balanced_but pid s L x" and "book_in pid L (s k)" and "slice e 0 8 = DISC_BOOK"
    and "slice e 16 32 = L"
  shows "balanced_but pid (set_data s k e) L (x + int (book_value (data (s k))) - int (book_value e))"
proof -
  have "slice (data (s k)) 0 8 = DISC_BOOK" "owner (s k) = pid" "slice (data (s k)) 16 32 = L"
    using assms(2) by (auto simp: book_in_def is_book_def)
  then show ?thesis
    using entry_update [OF assms(1), of k e] entry_kinds(2) [OF assms(3)] assms(4)
      entry_kinds(2) [of "data (s k)"] by simp
qed

lemma channel_step:
  assumes "balanced_but pid s L x" and "is_channel pid (s (key acc))"
    and "c_ledger (channel_of (data (s (key acc)))) = L"
    and "channel_store c acc s = Inr s'" and "c_ledger c = L"
  shows "balanced_but pid s' L
      (x + int (unat (c_balance (channel_of (data (s (key acc)))))) - int (unat (c_balance c)))"
    and "kept s s'" and "channel_of (data (s' (key acc))) = c"
proof -
  from assms(4) obtain e where e: "channel_pack c (data (s (key acc))) = Inr e"
    and s': "s' = set_data s (key acc) e" by (auto simp: channel_store_Inr)
  note p = channel_codec.pack_disc [OF e] channel_codec.pack_of [OF e] channel_codec.pack_length [OF e]
  have old: "slice (data (s (key acc))) 0 8 = DISC_CHANNEL" "owner (s (key acc)) = pid"
    "slice (data (s (key acc))) 16 32 = L"
    using assms(2,3) by (auto simp: is_channel_def channel_of_def)
  have "slice e 16 32 = c_ledger (channel_of e)" by (simp add: channel_of_def)
  then have eL: "slice e 16 32 = L" using p(2) assms(5) by simp
  show "balanced_but pid s' L
      (x + int (unat (c_balance (channel_of (data (s (key acc)))))) - int (unat (c_balance c)))"
    unfolding s' using entry_update [OF assms(1), of "key acc" e] entry_kinds(3) [OF p(1)]
      entry_kinds(3) [OF old(1)] old eL p(2) by simp
  show "kept s s'"
    unfolding s' by (rule kept_set_data) (use old p eL in \<open>simp add: hdr_same_def\<close>)
  show "channel_of (data (s' (key acc))) = c" by (simp add: s' p(2))
qed

lemma batch_step:
  assumes "balanced_but pid s L x" and "is_batch pid (s k)" and "b_ledger (batch_of (data (s k))) = L"
    and "batch_pack h d = Inr e" and "b_ledger h = L"
  shows "balanced_but pid (set_data s k e) L
      (x + int (unat (b_held (batch_of (data (s k))))) - int (unat (b_held h)))"
proof -
  note p = batch_codec.pack_disc [OF assms(4)] batch_codec.pack_of [OF assms(4)]
  have old: "slice (data (s k)) 0 8 = DISC_BATCH" "owner (s k) = pid" "slice (data (s k)) 24 32 = L"
    using assms(2,3) by (auto simp: is_batch_def batch_of_def)
  have "slice e 24 32 = b_ledger (batch_of e)" by (simp add: batch_of_def)
  then have "slice e 24 32 = L" using p(2) assms(5) by simp
  then show ?thesis
    using entry_update [OF assms(1), of k e] entry_kinds(4) [OF p(1)] entry_kinds(4) [OF old(1)] old p(2)
    by simp
qed

lemma ledger_step:
  assumes "balanced_but pid s L x" and "is_ledger pid (s L)"
    and "ledger_store l acc s = Inr s'" and "key acc = L"
    and "l_token_program l = l_token_program (ledger_of (data (s L)))"
    and "l_mint l = l_mint (ledger_of (data (s L)))"
  shows "balanced_but pid s' L (x + int (unat (l_liabilities l)) - int (liabilities s L))"
    and "kept s s'" and "ledger_of (data (s' L)) = l"
proof -
  from assms(3,4) obtain d where d: "ledger_pack l (data (s L)) = Inr d" and s': "s' = set_data s L d"
    by (auto simp: ledger_store_Inr)
  show "balanced_but pid s' L (x + int (unat (l_liabilities l)) - int (liabilities s L))"
    unfolding s' by (rule ledger_write(1) [OF assms(1,2) d assms(5)])
  note p = ledger_codec.pack_disc [OF d] ledger_codec.pack_of [OF d] ledger_codec.pack_length [OF d]
  have mint: "slice d 16 32 = l_mint (ledger_of d)" for d by (simp add: ledger_of_def)
  have "slice d 16 32 = slice (data (s L)) 16 32" unfolding mint p(2) assms(6) ..
  then show "kept s s'"
    unfolding s' by (intro kept_set_data) (use assms(2) p in \<open>simp add: hdr_same_def is_ledger_def\<close>)
  show "ledger_of (data (s' L)) = l" by (simp add: s' p(2))
qed

section \<open>Slots of a book\<close>

lemma slot_other:
  "i \<noteq> j \<Longrightarrow> slot_off j + S_BALANCE + 8 \<le> slot_off i + S_BALANCE \<or> slot_off i + S_BALANCE + 8 \<le> slot_off j + S_BALANCE"
  unfolding slot_off_def by (cases i j rule: linorder_cases) (auto simp: linorder_neq_iff)

lemma book_value_slot:
  assumes "i < BOOK_SLOTS" and "length d = BOOK_LEN"
  shows "book_value (splice d (slot_off i + S_BALANCE) (u64_le v)) + unat (get_u64 d (slot_off i + S_BALANCE)) =
    book_value d + unat v"
proof -
  let ?e = "splice d (slot_off i + S_BALANCE) (u64_le v)"
  let ?f = "\<lambda>e j. unat (get_u64 e (slot_off j + S_BALANCE))"
  have fits: "slot_off i + S_BALANCE + 8 \<le> length d" using assms by (simp add: slot_off_def)
  have sum: "sum (?f e) {..<BOOK_SLOTS} = ?f e i + sum (?f e) ({..<BOOK_SLOTS} - {i})" for e
    using assms(1) by (intro sum.remove) auto
  have "sum (?f ?e) ({..<BOOK_SLOTS} - {i}) = sum (?f d) ({..<BOOK_SLOTS} - {i})"
  proof (rule sum.cong [OF refl])
    fix j
    assume "j \<in> {..<BOOK_SLOTS} - {i}"
    then show "?f ?e j = ?f d j" using slot_other [of i j] by (simp add: byte_simps)
  qed
  moreover have "?f ?e i = unat v" using fits by (simp add: byte_simps)
  ultimately show ?thesis using sum [of d] sum [of ?e] by (simp add: book_value_def)
qed

end
