(* ===== verification/XsMoneyEscrow.thy ===== *)
theory XsMoneyEscrow
  imports XsFrame
begin

text \<open>
  Conservation for the ledger, escrow and book handlers: what a successful run did (the lemmas
  named \<open>_run\<close>), and that the books of every ledger balance afterwards if they did before.
\<close>

section \<open>Inversion of handlers\<close>

lemma ex_unit: "(\<exists>u :: unit. P u) \<longleftrightarrow> P ()"
  by (metis (full_types) old.unit.exhaust)

lemma case_prod_Inr:
  "(case p of (a, b) \<Rightarrow> f a b) = Inr y \<longleftrightarrow> (\<exists>a b. p = (a, b) \<and> f a b = Inr y)"
  by (cases p) simp

lemmas run_inv = ex_unit case_prod_Inr bindE_Inr if_Inr split_paired_Ex prod.case prod.sel prod.inject sum.inject sum.distinct
  simp_thms next_account_info_Inr guard_Inr rd_u_Inr wr_u_Inr rd_slice_Inr wr_slice_Inr rd_u8_Inr
  wr_u8_Inr ok_or_Inr get_at_Some

section \<open>Shared steps\<close>

lemma check_escrow_in: "check_escrow rt s acc pid = Inr (L, own) \<Longrightarrow> escrow_in pid L (s (key acc))"
  by (auto simp: check_escrow_Inr escrow_in_def)

lemma check_book_in: "check_book rt s acc pid = Inr L \<Longrightarrow> book_in pid L (s (key acc))"
  by (auto simp: check_book_Inr book_in_def)

lemma escrow_in_facts:
  assumes "escrow_in pid L a"
  shows "owner a = pid" "slice (data a) 0 8 = DISC_ESCROW" "slice (data a) 16 32 = L"
    "ESCROW_HDR \<le> length (data a)"
  using assms is_escrow_length [of pid a] by (auto simp: escrow_in_def is_escrow_def)

lemma book_in_facts:
  assumes "book_in pid L a"
  shows "owner a = pid" "slice (data a) 0 8 = DISC_BOOK" "slice (data a) 16 32 = L"
    "length (data a) = BOOK_LEN"
  using assms by (auto simp: book_in_def is_book_def)

lemma in_not_ledger:
  "escrow_in pid L (s k) \<Longrightarrow> is_ledger pid (s j) \<Longrightarrow> k \<noteq> j"
  "book_in pid L (s k) \<Longrightarrow> is_ledger pid (s j) \<Longrightarrow> k \<noteq> j"
  by (auto simp: escrow_in_def book_in_def kinds_disjoint)

lemma in_ledger:
  "books_ok pid s \<Longrightarrow> escrow_in pid L (s k) \<Longrightarrow> is_ledger pid (s L)"
  "books_ok pid s \<Longrightarrow> book_in pid L (s k) \<Longrightarrow> is_ledger pid (s L)"
  by (rule books_okD(2) [of pid s k], auto simp: escrow_in_facts entry_kinds)
    (rule books_okD(2) [of pid s k], auto simp: book_in_facts entry_kinds)

lemma quiet_balanced: "balanced pid s \<Longrightarrow> quiet pid s s' \<Longrightarrow> balanced pid s'"
  using quiet_balanced_but [of pid s "[]" 0 s'] by (simp add: balanced_but_0)

lemma quiet_same:
  assumes "quiet pid s s'"
  shows "escrow_in pid L (s k) \<Longrightarrow> escrow_in pid L (s' k) \<and> data (s' k) = data (s k)"
    and "book_in pid L (s k) \<Longrightarrow> book_in pid L (s' k) \<and> data (s' k) = data (s k)"
    and "is_ledger pid (s k) \<Longrightarrow> is_ledger pid (s' k) \<and> data (s' k) = data (s k)"
  using quiet_kinds(4) [OF assms, of k]
  by (auto simp: escrow_in_def book_in_def is_escrow_def is_book_def is_ledger_def)

text \<open>The amount moves into or out of the ledger: one entry and the liabilities change together.\<close>

lemma escrow_and_ledger:
  assumes "balanced pid s" and "escrow_in pid (key acc) (s k)" and "hdr_same (data (s k)) e"
    and "ledger_store l acc (set_data s k e) = Inr s'"
    and "l_token_program l = l_token_program (ledger_of (data (s (key acc))))"
    and "l_mint l = l_mint (ledger_of (data (s (key acc))))"
    and "unat (l_liabilities l) + unat (get_u64 (data (s k)) E_BALANCE) =
      liabilities s (key acc) + unat (get_u64 e E_BALANCE)"
  shows "balanced pid s'"
proof -
  let ?L = "key acc" and ?s = "set_data s k e"
  have b: "balanced_but pid s ?L 0" using assms(1) by (simp add: balanced_but_0)
  have led: "is_ledger pid (s ?L)" by (rule in_ledger(1) [OF balanced_but_booksD [OF b] assms(2)])
  have "k \<noteq> ?L" by (rule in_not_ledger(1) [of pid _ s, OF assms(2) led])
  then have same: "?s ?L = s ?L" by simp
  have "balanced_but pid s' ?L (0 + int (unat (get_u64 (data (s k)) E_BALANCE)) - int (unat (get_u64 e E_BALANCE))
      + int (unat (l_liabilities l)) - int (liabilities ?s ?L))"
    by (rule ledger_step(1) [OF escrow_step [OF b assms(2,3)] _ assms(4) refl])
      (use led assms(5,6) same in simp_all)
  moreover have "liabilities ?s ?L = liabilities s ?L" using same by (simp add: liabilities_def)
  moreover have "0 + int (unat (get_u64 (data (s k)) E_BALANCE)) - int (unat (get_u64 e E_BALANCE))
      + int (unat (l_liabilities l)) - int (liabilities s ?L) = 0"
    using assms(7) by linarith
  ultimately show ?thesis by (metis balanced_but_0)
qed

lemma book_and_ledger:
  assumes "balanced pid s" and "book_in pid (key acc) (s k)" and "hdr_same (data (s k)) e"
    and "ledger_store l acc (set_data s k e) = Inr s'"
    and "l_token_program l = l_token_program (ledger_of (data (s (key acc))))"
    and "l_mint l = l_mint (ledger_of (data (s (key acc))))"
    and "unat (l_liabilities l) + book_value (data (s k)) = liabilities s (key acc) + book_value e"
  shows "balanced pid s'"
proof -
  let ?L = "key acc" and ?s = "set_data s k e"
  have b: "balanced_but pid s ?L 0" using assms(1) by (simp add: balanced_but_0)
  have led: "is_ledger pid (s ?L)" by (rule in_ledger(2) [OF balanced_but_booksD [OF b] assms(2)])
  have "k \<noteq> ?L" by (rule in_not_ledger(2) [of pid _ s, OF assms(2) led])
  then have same: "?s ?L = s ?L" by simp
  have e: "slice e 0 8 = DISC_BOOK" "slice e 16 32 = ?L"
    using assms(3) book_in_facts [OF assms(2)] by (auto simp: hdr_same_def)
  have "balanced_but pid s' ?L (0 + int (book_value (data (s k))) - int (book_value e)
      + int (unat (l_liabilities l)) - int (liabilities ?s ?L))"
    by (rule ledger_step(1) [OF book_step [OF b assms(2) e] _ assms(4) refl])
      (use led assms(5,6) same in simp_all)
  moreover have "liabilities ?s ?L = liabilities s ?L" using same by (simp add: liabilities_def)
  moreover have "0 + int (book_value (data (s k))) - int (book_value e)
      + int (unat (l_liabilities l)) - int (liabilities s ?L) = 0"
    using assms(7) by linarith
  ultimately show ?thesis by (metis balanced_but_0)
qed

text \<open>A write that changes neither balance nor header.\<close>

lemma escrow_same_balance:
  assumes "balanced pid s" and "escrow_in pid L (s k)" and "hdr_same (data (s k)) e"
    and "get_u64 e E_BALANCE = get_u64 (data (s k)) E_BALANCE"
  shows "balanced pid (set_data s k e)"
  using escrow_step [of pid s L 0 k e] assms by (simp add: balanced_but_0)

context solana
begin

lemma cpi_quiet:
  "invoke_signed rt c infos seeds s = Inr s' \<Longrightarrow> cpi_program c \<noteq> pid \<Longrightarrow> quiet pid s s'"
  by (rule foreign_quiet [OF cpi_foreign])

lemma pay_out_quiet:
  assumes "pay_out rt l ledger_acc dest spl amount s = Inr s'"
    and "\<And>v mt tp. spl = Some (v, mt, tp) \<Longrightarrow> key tp \<noteq> pid"
  shows "quiet pid s s'"
  using pay_out_foreign [OF assms] by (simp add: quiet_def)

lemma create_pda_quiet:
  "create_pda rt funder target system space own seeds s = Inr s' \<Longrightarrow> space < 2 ^ 64 \<Longrightarrow> quiet pid s s'"
  using create_pda_effect foreign_quiet by metis

end

section \<open>Deposits and withdrawals\<close>

lemma deposit_run:
  assumes "deposit rt pid accounts d s = Inr s'"
  obtains depositor ledger_acc escrow_acc rest payer l c infos s1 e x dl v where
    "accounts = depositor # ledger_acc # escrow_acc # rest" "get_u64 d 0 \<noteq> 0" "length d = 8"
    "is_signer depositor" "ledger_load rt s ledger_acc pid = Inr l"
    "check_escrow rt s escrow_acc pid = Inr (key ledger_acc, payer)"
    "invoke_signed rt c infos [] s = Inr s1"
    "cpi_program c = (if l_kind l = KIND_SOL then SYSTEM_ID else l_token_program l)"
    "add (get_u64 (data (s1 (key escrow_acc))) E_BALANCE) (get_u64 d 0) = Inr x"
    "e = splice (data (s1 (key escrow_acc))) E_BALANCE (u64_le x)"
    "liabilities_add l (get_u64 d 0) = Inr dl"
    "ledger_store dl ledger_acc (set_data s1 (key escrow_acc) e) = Inr s'"
    "check_solvency rt dl ledger_acc v s' = Inr ()" "(v = None) = (l_kind l = KIND_SOL)"
proof -
  show thesis
    by (insert assms [unfolded deposit_def Let_def],
        clarsimp simp: invoke_def spl_accounts_def run_inv split del: if_split, (elim disjE conjE exE)?;
        rule that; (rule refl | assumption)?)
      (auto simp: transfer_checked_def)
qed

lemma withdraw_escrow_run:
  assumes "withdraw_escrow rt pid accounts d s = Inr s'"
  obtains payer ledger_acc escrow_acc dest rest l spl amount e dl where
    "accounts = payer # ledger_acc # escrow_acc # dest # rest"
    "is_signer payer" "ledger_load rt s ledger_acc pid = Inr l"
    "check_escrow rt s escrow_acc pid = Inr (key ledger_acc, key payer)"
    "(spl = None) = (l_kind l = KIND_SOL)"
    "\<And>v mt tp. spl = Some (v, mt, tp) \<Longrightarrow> key tp = l_token_program l"
    "get_u64 (data (s (key escrow_acc))) E_EXIT_AMOUNT \<noteq> 0"
    "get_u64 (data (s (key escrow_acc))) E_EXIT_READY \<le> clock_slot rt"
    "amount = min (get_u64 (data (s (key escrow_acc))) E_EXIT_AMOUNT) (get_u64 (data (s (key escrow_acc))) E_BALANCE)"
    "e = splice (splice (splice (data (s (key escrow_acc))) E_BALANCE
           (u64_le (get_u64 (data (s (key escrow_acc))) E_BALANCE - amount))) E_EXIT_AMOUNT (u64_le 0))
           E_EXIT_READY (u64_le 0)"
    "amount = 0 \<and> dl = l \<and> s' = set_data s (key escrow_acc) e \<or>
     amount > 0 \<and> liabilities_sub l amount = Inr dl \<and>
       (\<exists>s1. ledger_store dl ledger_acc (set_data s (key escrow_acc) e) = Inr s1 \<and>
         pay_out rt dl ledger_acc dest spl amount s1 = Inr s')"
    "check_solvency rt dl ledger_acc (map_option fst spl) s' = Inr ()"
proof -
  show thesis
    by (insert assms [unfolded withdraw_escrow_def Let_def],
        clarsimp simp: spl_accounts_def run_inv split del: if_split, (elim disjE conjE exE)?;
        rule that; (rule refl | assumption)?)
      (auto simp: linorder_not_less)
qed

section \<open>Other escrow and book handlers\<close>

lemma request_exit_run:
  assumes "request_exit rt pid accounts d s = Inr s'"
  obtains payer ledger_acc escrow_acc rest l ready where
    "accounts = payer # ledger_acc # escrow_acc # rest" "length d = 8" "is_signer payer"
    "ledger_load rt s ledger_acc pid = Inr l"
    "check_escrow rt s escrow_acc pid = Inr (key ledger_acc, key payer)"
    "if get_u64 d 0 = 0 then ready = 0 else add (clock_slot rt) (l_exit_delay_slots l) = Inr ready"
    "s' = set_data s (key escrow_acc) (splice (splice (data (s (key escrow_acc))) E_EXIT_AMOUNT
       (u64_le (get_u64 d 0))) E_EXIT_READY (u64_le ready))"
proof -
  show thesis
    by (insert assms [unfolded request_exit_def Let_def],
        clarsimp simp: run_inv split del: if_split, (elim disjE conjE exE)?;
        rule that; (rule refl | assumption)?)
      (auto)
qed

lemma close_escrow_run:
  assumes "close_escrow rt pid accounts d s = Inr s'"
  obtains payer escrow_acc rest L where
    "accounts = payer # escrow_acc # rest" "is_signer payer"
    "check_escrow rt s escrow_acc pid = Inr (L, key payer)"
    "get_u64 (data (s (key escrow_acc))) E_BALANCE = 0"
    "get_u16 (data (s (key escrow_acc))) E_PENDING_COUNT = 0"
    "get_u32 (data (s (key escrow_acc))) E_OPEN_CHANNELS = 0"
    "close_account escrow_acc payer s = Inr s'"
proof -
  show thesis
    by (insert assms [unfolded close_escrow_def Let_def],
        clarsimp simp: run_inv split del: if_split, (elim disjE conjE exE)?;
        rule that; (rule refl | assumption)?)
      (auto)
qed

lemma open_escrow_run:
  assumes "open_escrow rt pid accounts d s = Inr s'"
  obtains payer ledger_acc escrow_acc system rest l bump s1 nx e where
    "accounts = payer # ledger_acc # escrow_acc # system # rest" "length d = 1" "d ! 0 \<noteq> 0"
    "is_signer payer" "ledger_load rt s ledger_acc pid = Inr l" "is_strict_pubkey (key payer)"
    "find_program_address rt [ESCROW_SEED, key ledger_acc, key payer] pid = (key escrow_acc, bump)"
    "create_pda rt payer escrow_acc system (escrow_len (unat (d ! 0))) pid
       [ESCROW_SEED, key ledger_acc, key payer, [bump]] s = Inr s1"
    "add (l_next_scope l) 1 = Inr nx"
    "wr_all [(0, 8, DISC_ESCROW), (E_BUMP, 1, [bump]), (E_CAPACITY, 1, [of_nat (unat (d ! 0))]),
       (E_LEDGER, 32, key ledger_acc), (E_PAYER, 32, key payer), (E_SCOPE, 8, u64_le (l_next_scope l))]
       (data (s1 (key escrow_acc))) = Inr e"
    "ledger_store (l\<lparr>l_next_scope := nx\<rparr>) ledger_acc (set_data s1 (key escrow_acc) e) = Inr s'"
proof -
  show thesis
    by (insert assms [unfolded open_escrow_def Let_def],
        clarsimp simp: run_inv simp del: wr_all_Cons split del: if_split,
        (elim disjE conjE exE)?;
        rule that; (rule refl | assumption)?)
      (auto)
qed

lemma grow_escrow_run:
  assumes "grow_escrow rt pid accounts d s = Inr s'"
  obtains payer escrow_acc system rest L s1 old where
    "accounts = payer # escrow_acc # system # rest" "length d = 1" "is_signer payer"
    "check_escrow rt s escrow_acc pid = Inr (L, key payer)"
    "unat (data (s (key escrow_acc)) ! E_CAPACITY) < unat (d ! 0)" "unat (d ! 0) \<le> MAX_PAIRS"
    "s1 = s \<or> (\<exists>l infos. invoke_signed rt (SystemCpi (Transfer (key payer) (key escrow_acc) l)) infos [] s = Inr s1)"
    "old = data (s1 (key escrow_acc))"
    "s' = set_data s1 (key escrow_acc)
       (splice (old @ replicate (escrow_len (unat (d ! 0)) - length old) 0) E_CAPACITY [of_nat (unat (d ! 0))])"
proof -
  show thesis
    by (insert assms [unfolded grow_escrow_def Let_def],
        clarsimp simp: run_inv invoke_def split del: if_split,
        (elim disjE conjE exE)?;
        rule that; (rule refl | assumption)?)
      (auto simp: linorder_not_le)
qed

lemma create_book_run:
  assumes "create_book rt pid accounts d s = Inr s'"
  obtains funder ledger_acc book_acc system rest l bump s1 b where
    "accounts = funder # ledger_acc # book_acc # system # rest" "length d = 4"
    "ledger_load rt s ledger_acc pid = Inr l"
    "find_program_address rt [BOOK_SEED, key ledger_acc, u32_le (get_u32 d 0)] pid = (key book_acc, bump)"
    "create_pda rt funder book_acc system BOOK_LEN pid
       [BOOK_SEED, key ledger_acc, u32_le (get_u32 d 0), [bump]] s = Inr s1"
    "wr_all [(0, 8, DISC_BOOK), (K_BUMP, 1, [bump]), (K_PAGE, 4, u32_le (get_u32 d 0)),
       (K_LEDGER, 32, key ledger_acc)] (data (s1 (key book_acc))) = Inr b"
    "s' = set_data s1 (key book_acc) b"
proof -
  show thesis
    by (insert assms [unfolded create_book_def Let_def],
        clarsimp simp: run_inv simp del: wr_all_Cons BOOK_LEN_def split del: if_split,
        (elim disjE conjE exE)?;
        rule that; (rule refl | assumption)?)
      (auto)
qed

lemma register_payee_run:
  assumes "register_payee rt pid accounts d s = Inr s'"
  obtains payee book_acc rest L slot b where
    "accounts = payee # book_acc # rest" "length d = 1" "slot = unat (d ! 0)" "slot < BOOK_SLOTS"
    "is_signer payee" "check_book rt s book_acc pid = Inr L"
    "slice (data (s (key book_acc))) (slot_off slot) 32 = replicate 32 0" "length (key payee) = 32"
    "b = splice (data (s (key book_acc))) (slot_off slot) (key payee)"
    "s' = set_data s (key book_acc) (splice b K_USED (u16_le (get_u16 b K_USED + 1)))"
proof -
  show thesis
    by (insert assms [unfolded register_payee_def Let_def],
        clarsimp simp: run_inv split del: if_split,
        (elim disjE conjE exE)?;
        rule that; (rule refl | assumption)?)
      (auto)
qed

lemma withdraw_payee_run:
  assumes "withdraw_payee rt pid accounts d s = Inr s'"
  obtains payee ledger_acc book_acc dest rest l spl amount slot b dl s1 where
    "accounts = payee # ledger_acc # book_acc # dest # rest" "length d = 9"
    "slot = unat (d ! 0)" "amount = get_u64 d 1" "slot < BOOK_SLOTS" "amount \<noteq> 0"
    "is_signer payee" "ledger_load rt s ledger_acc pid = Inr l"
    "check_book rt s book_acc pid = Inr (key ledger_acc)"
    "(spl = None) = (l_kind l = KIND_SOL)"
    "\<And>v mt tp. spl = Some (v, mt, tp) \<Longrightarrow> key tp = l_token_program l"
    "slice (data (s (key book_acc))) (slot_off slot) 32 = key payee"
    "amount \<le> get_u64 (data (s (key book_acc))) (slot_off slot + S_BALANCE)"
    "b = splice (data (s (key book_acc))) (slot_off slot + S_BALANCE)
       (u64_le (get_u64 (data (s (key book_acc))) (slot_off slot + S_BALANCE) - amount))"
    "liabilities_sub l amount = Inr dl"
    "ledger_store dl ledger_acc (set_data s (key book_acc) b) = Inr s1"
    "pay_out rt dl ledger_acc dest spl amount s1 = Inr s'"
    "check_solvency rt dl ledger_acc (map_option fst spl) s' = Inr ()"
proof -
  show thesis
    by (insert assms [unfolded withdraw_payee_def Let_def],
        clarsimp simp: run_inv spl_accounts_def split del: if_split,
        (elim disjE conjE exE)?;
        rule that; (rule refl | assumption)?)
      (auto simp: linorder_not_less linorder_not_le)
qed

section \<open>Conservation\<close>

context solana
begin

lemma deposit_balanced:
  assumes "balanced pid s" and "deposit rt pid accounts d s = Inr s'"
  shows "balanced pid s'"
  using assms(2)
proof (cases rule: deposit_run)
  case (1 depositor ledger_acc escrow_acc rest payer l c infos s1 e x dl v)
  note run = 1
  let ?E = "key escrow_acc" and ?L = "key ledger_acc"
  from run(5) have led: "is_ledger pid (s ?L)" and l: "l = ledger_of (data (s ?L))"
    by (simp_all add: ledger_load_Inr)
  have "l_token_program l \<noteq> pid" using books_okD(3) led l assms(1) by (simp add: balanced_def)
  then have "cpi_program c \<noteq> pid" using run(8) pid_not_system by (auto split: if_splits)
  then have q: "quiet pid s s1" by (rule cpi_quiet [OF run(7)])
  note esc = quiet_same(1) [OF q check_escrow_in [OF run(6)]] and same = quiet_same(3) [OF q led]
  have len: "ESCROW_HDR \<le> length (data (s1 ?E))" using esc escrow_in_facts(4) by metis
  show ?thesis
  proof (rule escrow_and_ledger [OF quiet_balanced [OF assms(1) q] conjunct1 [OF esc] _ run(12)])
    show "hdr_same (data (s1 ?E)) e" unfolding run(10) by (rule hdr_same_splice) simp_all
    show "l_token_program dl = l_token_program (ledger_of (data (s1 ?L)))"
      "l_mint dl = l_mint (ledger_of (data (s1 ?L)))"
      using run(11) same l by (auto simp: liabilities_Inr)
    show "unat (l_liabilities dl) + unat (get_u64 (data (s1 ?E)) E_BALANCE) =
        liabilities s1 ?L + unat (get_u64 e E_BALANCE)"
      using run(9,11) same l len
      by (auto simp: liabilities_Inr liabilities_def run(10) byte_simps dest!: add_unat)
  qed
qed

lemma withdraw_escrow_balanced:
  assumes "balanced pid s" and "withdraw_escrow rt pid accounts d s = Inr s'"
  shows "balanced pid s'"
  using assms(2)
proof (cases rule: withdraw_escrow_run)
  case (1 payer ledger_acc escrow_acc dest rest l spl amount e dl)
  note run = 1
  let ?E = "key escrow_acc" and ?L = "key ledger_acc"
  from run(3) have led: "is_ledger pid (s ?L)" and l: "l = ledger_of (data (s ?L))"
    by (simp_all add: ledger_load_Inr)
  have tp: "l_token_program l \<noteq> pid" using books_okD(3) led l assms(1) by (simp add: balanced_def)
  note esc = check_escrow_in [OF run(4)]
  have len: "ESCROW_HDR \<le> length (data (s ?E))" by (rule escrow_in_facts(4) [OF esc])
  have hdr: "hdr_same (data (s ?E)) e" unfolding run(10) by (intro hdr_same_splice) simp_all
  have "amount \<le> get_u64 (data (s ?E)) E_BALANCE" by (simp add: run(9))
  then have bal: "unat (get_u64 e E_BALANCE) + unat amount = unat (get_u64 (data (s ?E)) E_BALANCE)"
    using len by (simp add: run(10) byte_simps unat_sub_le)
  show ?thesis
  proof (cases "amount = 0")
    case True
    then have "s' = set_data s ?E e" using run(11) by auto
    then show ?thesis
      using escrow_same_balance [OF assms(1) esc hdr] bal True by (simp add: word_unat_eq_iff)
  next
    case False
    with run(11) obtain s1 where dl: "liabilities_sub l amount = Inr dl"
      and s1: "ledger_store dl ledger_acc (set_data s ?E e) = Inr s1"
      and po: "pay_out rt dl ledger_acc dest spl amount s1 = Inr s'" by auto
    have "balanced pid s1"
      by (rule escrow_and_ledger [OF assms(1) esc hdr s1])
        (use dl bal in \<open>auto simp: liabilities_Inr liabilities_def l dest!: sub_unat\<close>)
    moreover have "quiet pid s1 s'" by (rule pay_out_quiet [OF po]) (use run(6) tp in auto)
    ultimately show ?thesis by (rule quiet_balanced)
  qed
qed

lemma withdraw_payee_balanced:
  assumes "balanced pid s" and "withdraw_payee rt pid accounts d s = Inr s'"
  shows "balanced pid s'"
  using assms(2)
proof (cases rule: withdraw_payee_run)
  case (1 payee ledger_acc book_acc dest rest l spl amount slot b dl s1)
  note run = 1
  let ?B = "key book_acc" and ?L = "key ledger_acc"
  from run(8) have led: "is_ledger pid (s ?L)" and l: "l = ledger_of (data (s ?L))"
    by (simp_all add: ledger_load_Inr)
  have tp: "l_token_program l \<noteq> pid" using books_okD(3) led l assms(1) by (simp add: balanced_def)
  note bk = check_book_in [OF run(9)]
  have hdr: "hdr_same (data (s ?B)) b"
    unfolding run(14) by (intro hdr_same_splice) (simp_all add: slot_off_def)
  have "book_value b + unat amount = book_value (data (s ?B))"
    using book_value_slot [OF run(5) book_in_facts(4) [OF bk], of "get_u64 (data (s ?B)) (slot_off slot + S_BALANCE) - amount"]
      unat_sub_le [OF run(13)] unfolding run(14) by linarith
  then have "balanced pid s1"
    by (intro book_and_ledger [OF assms(1) bk hdr run(16)])
      (use run(15) in \<open>auto simp: liabilities_Inr liabilities_def l dest!: sub_unat\<close>)
  moreover have "quiet pid s1 s'" by (rule pay_out_quiet [OF run(17)]) (use run(11) tp in auto)
  ultimately show ?thesis by (rule quiet_balanced)
qed

lemma request_exit_balanced:
  assumes "balanced pid s" and "request_exit rt pid accounts d s = Inr s'"
  shows "balanced pid s'"
  using assms(2)
proof (cases rule: request_exit_run)
  case (1 payer ledger_acc escrow_acc rest l ready)
  show ?thesis unfolding 1(7)
    by (rule escrow_same_balance [OF assms(1) check_escrow_in [OF 1(5)]])
      (intro hdr_same_splice hdr_same_refl | simp add: byte_simps)+
qed

lemma close_entry_balanced:
  assumes "balanced_but pid s L x" and "owner (s (key acc)) = pid"
    and "entry_ledger (data (s (key acc))) = Some L" and "close_account acc dest s = Inr s'"
  shows "balanced_but pid s' L (x + int (entry_value (data (s (key acc)))))"
proof -
  from assms(4) obtain v where
    s': "s' = set_owner (set_data (set_lamports (set_lamports s (key dest) v) (key acc) 0) (key acc) [])
              (key acc) SYSTEM_ID" by (auto simp: close_account_Inr)
  let ?s = "set_lamports s (key dest) v"
  have "balanced_but pid ?s L x" by (rule quiet_balanced_but [OF assms(1) quiet_set_lamports])
  moreover have "s' = ?s(key acc := \<lparr>lamports = 0, owner = SYSTEM_ID, data = []\<rparr>)"
    by (auto simp: s' set_owner_def set_data_def set_lamports_def)
  ultimately show ?thesis
    using entry_close [of pid ?s L x "key acc" s' 0] assms(2,3) pid_not_system by simp
qed

lemma close_escrow_balanced:
  assumes "balanced pid s" and "close_escrow rt pid accounts d s = Inr s'"
  shows "balanced pid s'"
  using assms(2)
proof (cases rule: close_escrow_run)
  case (1 payer escrow_acc rest L)
  note f = escrow_in_facts [OF check_escrow_in [OF 1(3)]]
  show ?thesis
    using close_entry_balanced [of s L 0, OF _ f(1) _ 1(7)] entry_kinds(1) [OF f(2)] f(3) 1(4) assms(1)
    by (simp add: balanced_but_0)
qed

end

section \<open>Creation\<close>

lemma get_u64_zeros: "get_u64 (replicate n 0) off = 0"
  by (simp add: get_u64_def slice_def)

lemma wr_all_u64_other:
  "wr_all ws d = Inr d' \<Longrightarrow> list_all (apart off 8) ws \<Longrightarrow> get_u64 d' off = get_u64 d off"
  by (simp add: get_u64_def wr_all_other)

lemma init_ledger_kind_run:
  assumes "init_ledger_kind kind it s = Inr (mint_key, tp_key, mint_acc, vault_acc, dec, it')"
  obtains "mint_acc = None" "vault_acc = None" "kind = KIND_SOL" "tp_key = replicate 32 0" "mint_key = replicate 32 0"
  | mint vault tp where "mint_acc = Some mint" "vault_acc = Some (vault, tp)" "key tp = tp_key" "key mint = mint_key"
      "tp_key = (if kind = KIND_TOKEN then TOKEN_ID else TOKEN_2022_ID)" "kind = KIND_TOKEN \<or> kind = KIND_TOKEN_2022"
      "check_mint s mint (key tp) = Inr dec"
proof (cases "kind = KIND_SOL")
  case True
  with assms show thesis by (intro that(1)) (auto simp: init_ledger_kind_def)
next
  case False
  show thesis
    by (insert assms [unfolded init_ledger_kind_def Let_def] False,
        clarsimp simp: run_inv split del: if_split, (elim disjE conjE exE)?;
        rule that(2); (rule refl | assumption)?)
      (auto)
qed

lemma init_ledger_run:
  assumes "init_ledger rt pid accounts d s = Inr s'"
  obtains funder ledger_acc it it' mint_key tp_key mint_acc vault_acc dec system bump sd s1 s2 vk vb l where
    "accounts = funder # ledger_acc # it"
    "init_ledger_kind (d ! 0) it s = Inr (mint_key, tp_key, mint_acc, vault_acc, dec, it')"
    "find_program_address rt [LEDGER_SEED, mint_key] pid = (key ledger_acc, bump)"
    "sd = data (s SLOT_HASHES_ID)"
    "create_pda rt funder ledger_acc system LEDGER_LEN pid [LEDGER_SEED, mint_key, [bump]] s = Inr s1"
    "init_vault rt pid (key ledger_acc) funder mint_acc vault_acc system s1 = Inr (vk, vb, s2)"
    "l = \<lparr>l_bump = bump, l_vault_bump = vb, l_kind = d ! 0, l_decimals = dec,
              l_mint = mint_key, l_token_program = tp_key, l_vault = vk,
              l_salt = ledger_salt rt pid mint_key (get_u64 sd 8) (slice sd 16 32),
              l_exit_delay_slots = EXIT_DELAY_SLOTS, l_dispute_slots = DISPUTE_SLOTS,
              l_batch_timeout_slots = BATCH_TIMEOUT_SLOTS, l_liabilities = 0, l_next_scope = 1,
              l_created_slot = clock_slot rt\<rparr>"
    "ledger_store l ledger_acc s2 = Inr s'" "length d = 1"
    "check_solvency rt l ledger_acc (map_option fst vault_acc) s' = Inr ()"
proof -
  show thesis
    by (insert assms [unfolded init_ledger_def Let_def],
        clarsimp simp: run_inv simp del: LEDGER_LEN_def split del: if_split,
        (elim disjE conjE exE)?;
        rule that; (rule refl | assumption)?)
      (auto)
qed

context solana
begin

lemma entry_create:
  assumes "balanced_but pid s L x" and "create_pda rt funder target system space pid seeds s = Inr s1"
    and "space < 2 ^ 64" and "is_ledger pid (s L)" and "entry_ledger d = Some L"
  shows "balanced_but pid (set_data s1 (key target) d) L (x - int (entry_value d))"
    and "data (s1 (key target)) = replicate space 0" and "quiet pid s s1"
    and "owner (s (key target)) \<noteq> pid"
proof -
  note c = create_pda_effect [OF assms(2,3)]
  from c show q: "quiet pid s s1" and zero: "data (s1 (key target)) = replicate space 0"
    and "owner (s (key target)) \<noteq> pid" using foreign_quiet pid_not_system by auto
  have z: "\<forall>b \<in> set (data (s1 (key target))). b = 0" using zero by auto
  note nz = zero_data [OF z]
  have "held pid L (s1 (key target)) = 0" using nz(1) by (simp add: held_def)
  then show "balanced_but pid (set_data s1 (key target) d) L (x - int (entry_value d))"
    using entry_write [OF quiet_balanced_but [OF assms(1) q], of "key target" d] c nz assms(4,5) quiet_kinds(1) [OF q]
    by simp
qed

lemma open_escrow_balanced:
  assumes "balanced pid s" and "open_escrow rt pid accounts d s = Inr s'"
  shows "balanced pid s'"
  using assms(2)
proof (cases rule: open_escrow_run)
  case (1 payer ledger_acc escrow_acc system rest l bump s1 nx e)
  note run = 1
  let ?E = "key escrow_acc" and ?L = "key ledger_acc"
  from run(5) have led: "is_ledger pid (s ?L)" and l: "l = ledger_of (data (s ?L))"
    by (simp_all add: ledger_load_Inr)
  have sp: "escrow_len (unat (d ! 0)) < 2 ^ 64" using unat_u8_less [of "d ! 0"] by (simp add: escrow_len_def)
  have disc: "slice e 0 8 = DISC_ESCROW" "slice e 16 32 = ?L"
    by (rule wr_all_read [OF run(10)]; simp add: write_simps)+
  have "balanced_but pid s ?L 0" using assms(1) by (simp add: balanced_but_0)
  note c = entry_create [OF this run(8) sp led, of e]
  have "get_u64 e E_BALANCE = get_u64 (data (s1 ?E)) E_BALANCE"
    by (rule wr_all_u64_other [OF run(10)]) (simp add: write_simps)
  then have "entry_value e = 0"
    using entry_kinds(1) [OF disc(1)] c(2) disc by (simp add: entry_kinds get_u64_zeros)
  then have b: "balanced_but pid (set_data s1 ?E e) ?L 0" using c(1) disc by (simp add: entry_kinds)
  have "?E \<noteq> ?L" using c(4) kinds_owner(1) [OF led] disc entry_kinds by auto
  moreover have "data (s1 ?L) = data (s ?L)" "is_ledger pid (s1 ?L)"
    using quiet_same(3) [OF c(3) led] disc entry_kinds by auto
  ultimately have "balanced_but pid s' ?L (0 + int (unat (l_liabilities (l\<lparr>l_next_scope := nx\<rparr>))) -
      int (liabilities (set_data s1 ?E e) ?L))"
    by (intro ledger_step(1) [OF b _ run(11) refl]) (simp_all add: l)
  then show ?thesis
    using \<open>?E \<noteq> ?L\<close> \<open>data (s1 ?L) = data (s ?L)\<close> by (simp add: liabilities_def l balanced_but_0)
qed

lemma grow_escrow_balanced:
  assumes "balanced pid s" and "grow_escrow rt pid accounts d s = Inr s'"
  shows "balanced pid s'"
  using assms(2)
proof (cases rule: grow_escrow_run)
  case (1 payer escrow_acc system rest L s1 old)
  note run = 1
  let ?E = "key escrow_acc"
  let ?e = "splice (old @ replicate (escrow_len (unat (d ! 0)) - length old) 0) E_CAPACITY [of_nat (unat (d ! 0))]"
  have q: "quiet pid s s1"
    using run(7) cpi_quiet pid_not_system quiet_refl by (metis cpi_program.simps(1))
  have esc: "escrow_in pid L (s1 ?E)" using quiet_same(1) [OF q check_escrow_in [OF run(4)]] by simp
  note f = escrow_in_facts [OF esc]
  have front: "slice (old @ zs) off n = slice old off n" if "off + n \<le> 120" for zs off n
    using that f(4) by (simp add: slice_def run(8))
  have e: "slice ?e 0 8 = DISC_ESCROW" "slice ?e 16 32 = L" "get_u64 ?e E_BALANCE = get_u64 old E_BALANCE"
    using f by (simp_all add: byte_simps front get_u64_def run(8) [symmetric])
  have "balanced_but pid s1 L 0" using quiet_balanced [OF assms(1) q] by (simp add: balanced_but_0)
  from entry_update [OF this f(1), of ?e] have "balanced_but pid (set_data s1 ?E ?e) L 0"
    using entry_kinds(1) [OF f(2)] entry_kinds(1) [OF e(1)] f(3) e(2,3) run(8) by simp
  then show ?thesis by (simp add: run(9) balanced_but_0)
qed

lemma create_book_balanced:
  assumes "balanced pid s" and "create_book rt pid accounts d s = Inr s'"
  shows "balanced pid s'"
  using assms(2)
proof (cases rule: create_book_run)
  case (1 funder ledger_acc book_acc system rest l bump s1 b)
  note run = 1
  let ?B = "key book_acc" and ?L = "key ledger_acc"
  from run(3) have led: "is_ledger pid (s ?L)" by (simp add: ledger_load_Inr)
  have disc: "slice b 0 8 = DISC_BOOK" "slice b 16 32 = ?L"
    by (rule wr_all_read [OF run(6)]; simp add: write_simps)+
  have "balanced_but pid s ?L 0" using assms(1) by (simp add: balanced_but_0)
  note c = entry_create [OF this run(5) _ led, of b]
  have "get_u64 b (slot_off i + S_BALANCE) = get_u64 (data (s1 ?B)) (slot_off i + S_BALANCE)" for i
    by (rule wr_all_u64_other [OF run(6)]) (simp add: write_simps slot_off_def)
  then have "book_value b = 0"
    using c(2) disc by (simp add: entry_kinds get_u64_zeros book_value_def)
  then show ?thesis using c(1) disc by (simp add: entry_kinds run(7) balanced_but_0)
qed

lemma register_payee_balanced:
  assumes "balanced pid s" and "register_payee rt pid accounts d s = Inr s'"
  shows "balanced pid s'"
  using assms(2)
proof (cases rule: register_payee_run)
  case (1 payee book_acc rest L slot b)
  note run = 1
  let ?B = "key book_acc" and ?e = "splice b K_USED (u16_le (get_u16 b K_USED + 1))"
  note bk = check_book_in [OF run(6)]
  note f = book_in_facts [OF bk]
  have apart: "slot_off i + S_BALANCE + 8 \<le> slot_off slot \<or> slot_off slot + 32 \<le> slot_off i + S_BALANCE" for i
    by (cases i slot rule: linorder_cases) (auto simp: slot_off_def)
  have e: "slice ?e 0 8 = DISC_BOOK" "slice ?e 16 32 = L"
    using f run(8) by (simp_all add: byte_simps run(9) slot_off_def)
  have "get_u64 ?e (slot_off i + S_BALANCE) = get_u64 (data (s ?B)) (slot_off i + S_BALANCE)" for i
    using apart [of i] run(8) by (simp add: byte_simps run(9))
  then have "book_value ?e = book_value (data (s ?B))" by (simp add: book_value_def)
  then show ?thesis
    using book_step [of pid s L 0, OF _ bk e] assms(1) by (simp add: run(10) balanced_but_0)
qed

lemma init_vault_foreign:
  assumes "init_vault rt pid lk funder mint_acc vault_acc system s = Inr (vk, vb, s')"
    and "\<And>v tp. vault_acc = Some (v, tp) \<Longrightarrow> key tp \<noteq> pid"
  shows "foreign_step pid s s'"
proof (cases "\<exists>mint vault tp. mint_acc = Some mint \<and> vault_acc = Some (vault, tp)")
  case False
  with assms(1) have "s' = s" by (auto simp: init_vault_def split: option.splits)
  then show ?thesis by (simp add: foreign_step_refl)
next
  case True
  then obtain mint vault tp where acc: "mint_acc = Some mint" "vault_acc = Some (vault, tp)" by auto
  with assms(1) obtain s1 where
    s1: "create_pda rt funder vault system ACCOUNT_LEN (key tp) [VAULT_SEED, lk, [vb]] s = Inr s1"
    and s2: "invoke_signed rt (ProgramCpi (initialize_account3 (key tp) (key vault) (key mint) lk))
      [vault, mint, tp] [] s1 = Inr s'"
    by (auto simp: init_vault_def invoke_def Let_def split: if_splits prod.splits)
  have "foreign_step pid s s1" using create_pda_effect [OF s1] by simp
  moreover have "foreign_step pid s1 s'"
    by (rule cpi_foreign [OF s2]) (use assms(2) acc in \<open>simp add: initialize_account3_def\<close>)
  ultimately show ?thesis by (rule foreign_step_trans)
qed

lemma init_ledger_balanced:
  assumes "balanced pid s" and "init_ledger rt pid accounts d s = Inr s'"
    and "TOKEN_ID \<noteq> pid" and "TOKEN_2022_ID \<noteq> pid"
  shows "balanced pid s'"
  using assms(2)
proof (cases rule: init_ledger_run)
  case (1 funder ledger_acc it it' mint_key tp_key mint_acc vault_acc dec system bump sd s1 s2 vk vb l)
  note run = 1
  let ?L = "key ledger_acc"
  have tp: "tp_key \<noteq> pid \<and> (\<forall>v tp. vault_acc = Some (v, tp) \<longrightarrow> key tp \<noteq> pid)"
    using run(2) by (cases rule: init_ledger_kind_run)
      (use assms(3,4) pid_not_system in \<open>auto simp: SYSTEM_ID_def\<close>)
  note c = create_pda_effect [OF run(5)]
  from c have q1: "quiet pid s s1" by (auto intro: foreign_quiet)
  have q2: "quiet pid s1 s2" by (rule foreign_quiet [OF init_vault_foreign [OF run(6)]]) (use tp in auto)
  from quiet_kinds(4) [OF q2, of ?L] c have zero: "owner (s2 ?L) = pid" "data (s2 ?L) = replicate LEDGER_LEN 0"
    by auto
  then have "\<forall>b \<in> set (data (s2 ?L)). b = 0" by auto
  note nz = zero_data [OF this]
  from run(8) obtain e where e: "ledger_pack l (data (s2 ?L)) = Inr e" and s': "s' = set_data s2 ?L e"
    by (auto simp: ledger_store_Inr)
  show ?thesis
    unfolding s' by (rule ledger_create [OF quiet_balanced [OF quiet_balanced [OF assms(1) q1] q2] zero(1) nz(2,1)])
      (use ledger_codec.pack_length [OF e] ledger_codec.pack_disc [OF e] ledger_codec.pack_of [OF e] zero tp
       in \<open>simp_all add: run(7)\<close>)
qed

end

end
