(* ===== verification/XsMoneySettle.thy ===== *)
theory XsMoneySettle
  imports XsMoneyEscrow
begin

text \<open>
  Conservation for voucher settlement. Accounts are checked once per instruction and remembered
  in a bit set (\<open>Seen\<close>); \<open>seen_ok\<close> says that every remembered account really is of its kind,
  which is the invariant that makes the skipped checks sound.
\<close>

section \<open>Accounts checked once\<close>

lemma test_set_Inr:
  "test_set sn i = Inr (b, sn') \<longleftrightarrow> i < 128 \<and> b = bit sn i \<and> sn' = Bit_Operations.set_bit i sn"
  by (auto simp: test_set_def Let_def Bit_Operations.set_bit_eq_or and_exp_eq_0_iff_not_bit)

definition seen_ok :: "(account \<Rightarrow> bool) \<Rightarrow> account_info list \<Rightarrow> seen \<Rightarrow> store \<Rightarrow> bool" where
  "seen_ok P accounts sn s \<longleftrightarrow> (\<forall>i. bit sn i \<longrightarrow> i < length accounts \<and> P (s (key (accounts ! i))))"

lemma seen_ok_empty [simp]: "seen_ok P accounts 0 s"
  by (simp add: seen_ok_def)

lemma seen_ok_insert:
  assumes "seen_ok P accounts sn s" and "test_set sn i = Inr (b, sn')" and "i < length accounts"
    and "\<not> b \<Longrightarrow> P (s (key (accounts ! i)))"
  shows "seen_ok P accounts sn' s" and "P (s (key (accounts ! i)))"
  using assms by (auto simp: seen_ok_def test_set_Inr bit_simps)

lemma seen_ok_kept:
  assumes "kept s s'"
  shows "seen_ok (escrow_in pid L) accounts sn s \<Longrightarrow> seen_ok (escrow_in pid L) accounts sn s'"
    and "seen_ok (book_in pid L) accounts sn s \<Longrightarrow> seen_ok (book_in pid L) accounts sn s'"
  by (simp_all add: seen_ok_def kept_in [OF assms])

section \<open>Verified vouchers\<close>

lemma verify_b2_run:
  assumes "verify_b2 rt pid ctx accounts w first_ix nbw s es bs = Inr (v, es', bs')"
  obtains escrow_acc book_acc eseen bseen payee settled where
    "first_ix \<le> b2_escrow_ix v" "first_ix \<le> b2_book_ix v"
    "b2_escrow_ix v < length accounts" "escrow_acc = accounts ! b2_escrow_ix v"
    "b2_book_ix v < length accounts" "book_acc = accounts ! b2_book_ix v"
    "test_set es (b2_escrow_ix v) = Inr (eseen, es')" "test_set bs (b2_book_ix v) = Inr (bseen, bs')"
    "\<not> eseen \<Longrightarrow> is_writable escrow_acc \<and> (\<exists>own. check_escrow rt s escrow_acc pid = Inr (ctx_ledger ctx, own))"
    "\<not> bseen \<Longrightarrow> check_book rt s book_acc pid = Inr (ctx_ledger ctx)"
    "b2_slot v < BOOK_SLOTS" "b2_payee v = slice (data (s (key book_acc))) (slot_off (b2_slot v)) 32"
    "b2_payee v \<noteq> replicate 32 0" "ctx_now ctx \<le> wv_expiry_slot w"
    "find_pair (data (s (key escrow_acc))) (b2_pair_ix v) (b2_payee v) = Inr (b2_append v, settled)"
    "settled < b2_cumulative v" "b2_delta v = b2_cumulative v - settled"
    "b2_cumulative v = wv_cumulative w"
    "b2_delta v \<le> get_u64 (data (s (key escrow_acc))) E_BALANCE"
    "b2_msg v = voucher_message (ctx_program_id ctx) (ctx_mint ctx) (ctx_salt ctx)
       (slice (data (s (key escrow_acc))) E_PAYER 32) (b2_payee v)
       (get_u64 (data (s (key escrow_acc))) E_SCOPE) (wv_cumulative w) (wv_expiry_slot w) (wv_quote_hash w)"
    "verify rt (slice (data (s (key escrow_acc))) E_PAYER 32) (b2_msg v) (wv_sig w)"
proof -
  show thesis
    by (insert assms [unfolded verify_b2_def Let_def],
        clarsimp simp: run_inv split del: if_split, (elim disjE conjE exE)?;
        rule that; (rule refl | assumption)?)
      (auto simp: linorder_not_less linorder_not_le)
qed

lemma verify_b2_checked:
  assumes "verify_b2 rt pid ctx accounts w first_ix nbw s es bs = Inr (v, es', bs')"
    and "seen_ok (escrow_in pid (ctx_ledger ctx)) accounts es s"
    and "seen_ok (book_in pid (ctx_ledger ctx)) accounts bs s"
  shows "b2_escrow_ix v < length accounts" "b2_book_ix v < length accounts" "b2_slot v < BOOK_SLOTS"
    "escrow_in pid (ctx_ledger ctx) (s (key (accounts ! b2_escrow_ix v)))"
    "book_in pid (ctx_ledger ctx) (s (key (accounts ! b2_book_ix v)))"
    "seen_ok (escrow_in pid (ctx_ledger ctx)) accounts es' s"
    "seen_ok (book_in pid (ctx_ledger ctx)) accounts bs' s"
proof -
  obtain escrow_acc book_acc eseen bseen where
    ix: "b2_escrow_ix v < length accounts" "escrow_acc = accounts ! b2_escrow_ix v"
      "b2_book_ix v < length accounts" "book_acc = accounts ! b2_book_ix v" "b2_slot v < BOOK_SLOTS"
    and ts: "test_set es (b2_escrow_ix v) = Inr (eseen, es')" "test_set bs (b2_book_ix v) = Inr (bseen, bs')"
    and chk: "\<not> eseen \<Longrightarrow> \<exists>own. check_escrow rt s escrow_acc pid = Inr (ctx_ledger ctx, own)"
      "\<not> bseen \<Longrightarrow> check_book rt s book_acc pid = Inr (ctx_ledger ctx)"
    using assms(1) by (elim verify_b2_run) blast
  have "\<not> eseen \<Longrightarrow> escrow_in pid (ctx_ledger ctx) (s (key (accounts ! b2_escrow_ix v)))"
    using chk(1) check_escrow_in ix(2) by metis
  note e = seen_ok_insert [OF assms(2) ts(1) ix(1) this]
  have "\<not> bseen \<Longrightarrow> book_in pid (ctx_ledger ctx) (s (key (accounts ! b2_book_ix v)))"
    using chk(2) check_book_in ix(4) by metis
  note b = seen_ok_insert [OF assms(3) ts(2) ix(3) this]
  from ix e b show "b2_escrow_ix v < length accounts" "b2_book_ix v < length accounts" "b2_slot v < BOOK_SLOTS"
    "escrow_in pid (ctx_ledger ctx) (s (key (accounts ! b2_escrow_ix v)))"
    "book_in pid (ctx_ledger ctx) (s (key (accounts ! b2_book_ix v)))"
    "seen_ok (escrow_in pid (ctx_ledger ctx)) accounts es' s"
    "seen_ok (book_in pid (ctx_ledger ctx)) accounts bs' s" by blast+
qed

lemma pair_entry_frame:
  assumes "pair_entry e v = Inr (e', off)"
  shows "hdr_same e e'" "get_u64 e' E_BALANCE = get_u64 e E_BALANCE" "off = pair_off (b2_pair_ix v)"
    "get_u16 e' E_PENDING_COUNT = get_u16 e E_PENDING_COUNT"
proof -
  have "hdr_same e e' \<and> get_u64 e' E_BALANCE = get_u64 e E_BALANCE \<and> off = pair_off (b2_pair_ix v)
      \<and> get_u16 e' E_PENDING_COUNT = get_u16 e E_PENDING_COUNT"
  proof (cases "b2_append v")
    case False
    with assms show ?thesis by (simp add: pair_entry_def)
  next
    case True
    let ?o = "pair_off (b2_pair_ix v)"
    let ?e = "splice (splice (splice (splice e ?o (b2_payee v)) (?o + 32) (u64_le 0)) (?o + 40) (u64_le 0))
      (?o + 48) (u64_le 0)"
    from True assms have e': "e' = splice ?e 11 [?e ! 11 + 1]" and off: "off = ?o"
      by (auto simp: pair_entry_def Let_def)
    have "hdr_same e ?e" by (intro hdr_same_splice hdr_same_refl) (simp_all add: pair_off_def)
    then have "hdr_same e e'" unfolding e' by (rule hdr_same_splice) simp
    then show ?thesis using off by (simp add: e' byte_simps pair_off_def)
  qed
  then show "hdr_same e e'" "get_u64 e' E_BALANCE = get_u64 e E_BALANCE" "off = pair_off (b2_pair_ix v)"
    "get_u16 e' E_PENDING_COUNT = get_u16 e E_PENDING_COUNT" by auto
qed

section \<open>Settlement\<close>

lemma settle_apply_run:
  assumes "settle_apply accounts v s = Inr s'"
  obtains escrow_acc book_acc e e2 off bal s1 bal' where
    "b2_escrow_ix v < length accounts" "escrow_acc = accounts ! b2_escrow_ix v"
    "b2_book_ix v < length accounts" "book_acc = accounts ! b2_book_ix v"
    "pair_entry (data (s (key escrow_acc))) v = Inr (e, off)"
    "off + P_SETTLED + 8 \<le> length e"
    "e2 = splice e (off + P_SETTLED) (u64_le (b2_cumulative v))"
    "sub (get_u64 e2 E_BALANCE) (b2_delta v) = Inr bal"
    "s1 = set_data s (key escrow_acc) (splice e2 E_BALANCE (u64_le bal))"
    "add (get_u64 (data (s1 (key book_acc))) (slot_off (b2_slot v) + S_BALANCE)) (b2_delta v) = Inr bal'"
    "s' = set_data s1 (key book_acc)
       (splice (data (s1 (key book_acc))) (slot_off (b2_slot v) + S_BALANCE) (u64_le bal'))"
proof -
  show thesis
    by (insert assms [unfolded settle_apply_def Let_def],
        clarsimp simp: run_inv split del: if_split, (elim disjE conjE exE)?;
        rule that; (rule refl | assumption)?)
      (auto simp: linorder_not_less linorder_not_le)
qed

lemma slot_in_book: "slot_off i + S_BALANCE + 8 \<le> BOOK_LEN \<Longrightarrow> i < BOOK_SLOTS"
  by (simp add: slot_off_def)

lemma book_credit:
  assumes "balanced_but pid s L x" and "book_in pid L (s k)" and "i < BOOK_SLOTS"
    and "add (get_u64 (data (s k)) (slot_off i + S_BALANCE)) amount = Inr bal"
    and "s' = set_data s k (splice (data (s k)) (slot_off i + S_BALANCE) (u64_le bal))"
  shows "balanced_but pid s' L (x - int (unat amount))" and "kept s s'"
proof -
  let ?e = "splice (data (s k)) (slot_off i + S_BALANCE) (u64_le bal)"
  have hdr: "hdr_same (data (s k)) ?e" by (rule hdr_same_splice) (simp_all add: slot_off_def)
  then show "kept s s'" unfolding assms(5) by (rule kept_set_data)
  note f = book_in_facts [OF assms(2)]
  have e: "slice ?e 0 8 = DISC_BOOK" "slice ?e 16 32 = L" using hdr f by (auto simp: hdr_same_def)
  have "book_value ?e = book_value (data (s k)) + unat amount"
    using book_value_slot [OF assms(3) f(4), of bal] add_unat [OF assms(4)] by linarith
  then show "balanced_but pid s' L (x - int (unat amount))"
    unfolding assms(5) using book_step [OF assms(1,2) e] by simp
qed

lemma settle_apply_balanced:
  assumes "balanced_but pid s L x" and "settle_apply accounts v s = Inr s'"
    and "escrow_in pid L (s (key (accounts ! b2_escrow_ix v)))"
    and "book_in pid L (s (key (accounts ! b2_book_ix v)))" and "b2_slot v < BOOK_SLOTS"
  shows "balanced_but pid s' L x \<and> kept s s'"
  using assms(2)
proof (cases rule: settle_apply_run)
  case (1 escrow_acc book_acc e e2 off bal s1 bal')
  note run = 1
  let ?E = "key escrow_acc" and ?B = "key book_acc"
  let ?e3 = "splice e2 E_BALANCE (u64_le bal)"
  note p = pair_entry_frame [OF run(5)]
  have hdr: "hdr_same (data (s ?E)) ?e3"
    unfolding run(7) p(3) by (intro hdr_same_splice p(1)) (simp_all add: pair_off_def)
  have len: "ESCROW_HDR \<le> length e2"
    using escrow_in_facts(4) [OF assms(3)] p(1) by (simp add: run(2,7) hdr_same_def)
  have "get_u64 e2 E_BALANCE = get_u64 (data (s ?E)) E_BALANCE"
    unfolding run(7) p(3) p(2) [symmetric] by (simp add: byte_simps pair_off_def)
  then have bal: "unat (get_u64 (data (s ?E)) E_BALANCE) = unat (get_u64 ?e3 E_BALANCE) + unat (b2_delta v)"
    using sub_unat [OF run(8)] len by (simp add: byte_simps)
  have s1: "balanced_but pid s1 L (x + int (unat (b2_delta v)))"
  proof -
    have "x + int (unat (get_u64 (data (s ?E)) E_BALANCE)) - int (unat (get_u64 ?e3 E_BALANCE)) =
        x + int (unat (b2_delta v))" using bal by linarith
    then show ?thesis using escrow_step [OF assms(1) _ hdr] assms(3) unfolding run(9) run(2) by metis
  qed
  have k1: "kept s s1" unfolding run(9) using hdr by (rule kept_set_data)
  have "book_in pid L (s1 ?B)" using assms(4) kept_in(2) [OF k1] by (simp add: run(4))
  from book_credit [OF s1 this assms(5) run(10,11)] k1 show ?thesis by (auto intro: kept_trans)
qed

definition settle_inv :: "key \<Rightarrow> key \<Rightarrow> account_info list \<Rightarrow> store \<times> seen \<times> seen \<Rightarrow> bool" where
  "settle_inv pid L accounts = (\<lambda>(s, es, bs). balanced pid s \<and>
     seen_ok (escrow_in pid L) accounts es s \<and> seen_ok (book_in pid L) accounts bs s)"

interpretation settle_fold:
  fold_invariant "settle_one rt pid ctx accounts body" "settle_inv pid (ctx_ledger ctx) accounts"
    "\<lambda>(s, _) (s', _). kept s s'"
  for rt pid ctx accounts body
proof
  fix st i st'
  assume inv: "settle_inv pid (ctx_ledger ctx) accounts st" and step: "settle_one rt pid ctx accounts body i st = Inr st'"
  obtain s es bs s' es' bs' where st: "st = (s, es, bs)" "st' = (s', es', bs')" by (metis prod.exhaust)
  from step obtain w v where v: "verify_b2 rt pid ctx accounts w 1 True s es bs = Inr (v, es', bs')"
    and a: "settle_apply accounts v s = Inr s'" by (auto simp: settle_one_def st Let_def)
  from inv have seen: "seen_ok (escrow_in pid (ctx_ledger ctx)) accounts es s"
    "seen_ok (book_in pid (ctx_ledger ctx)) accounts bs s" and b: "balanced_but pid s (ctx_ledger ctx) 0"
    by (auto simp: settle_inv_def st balanced_but_0)
  note c = verify_b2_checked [OF v seen]
  from settle_apply_balanced [OF b a c(4,5,3)] have "balanced pid s'" and k: "kept s s'"
    by (auto simp: balanced_but_0)
  with c(6,7) seen_ok_kept [OF k]
  show "settle_inv pid (ctx_ledger ctx) accounts st' \<and> (case st of (s, _) \<Rightarrow> \<lambda>(s', _). kept s s') st'"
    by (simp add: settle_inv_def st)
qed (auto intro: kept_trans)

lemma settle_run:
  assumes "settle rt pid accounts d s = Inr s'"
  obtains nb body l es bs where
    "d = nb # body" "0 < unat nb" "length body = unat nb * VOUCHER_WIRE_LEN"
    "accounts \<noteq> []" "ledger_load rt s (accounts ! 0) pid = Inr l"
    "foldE (settle_one rt pid \<lparr>ctx_program_id = pid, ctx_ledger = key (accounts ! 0), ctx_mint = l_mint l,
       ctx_salt = l_salt l, ctx_now = clock_slot rt\<rparr> accounts body) [0..<unat nb] (s, 0, 0) = Inr (s', es, bs)"
  using assms by (auto simp: settle_def Let_def split: list.splits if_splits)

lemma settle_balanced:
  assumes "balanced pid s" and "settle rt pid accounts d s = Inr s'"
  shows "balanced pid s'"
  using assms(2)
proof (cases rule: settle_run)
  case (1 nb body l es bs)
  have "settle_inv pid (key (accounts ! 0)) accounts (s, 0, 0)" using assms(1) by (simp add: settle_inv_def)
  with settle_fold.fold_inv [OF _ 1(6)] show ?thesis by (simp add: settle_inv_def)
qed

end
