(* ===== verification/XsMoneyChannel.thy ===== *)
theory XsMoneyChannel
  imports XsMoneySettle
begin

text \<open>
  Conservation for payment channels: opening moves an escrow balance into the channel, closing
  and finalizing move the best voucher amount into the payee's slot, reclaiming returns the rest.
\<close>

section \<open>Runs\<close>

lemma open_channel_run:
  assumes "open_channel rt pid accounts d s = Inr s'"
  obtains payer ledger_acc escrow_acc channel_acc system rest l amount payee bump e0 e s1 s2 oc nx where
    "accounts = payer # ledger_acc # escrow_acc # channel_acc # system # rest" "length d = 56"
    "is_signer payer" "ledger_load rt s ledger_acc pid = Inr l"
    "check_escrow rt s escrow_acc pid = Inr (key ledger_acc, key payer)"
    "amount = get_u64 d 40" "payee = slice d 8 32" "amount \<noteq> 0" "clock_slot rt < get_u64 d 48"
    "amount \<le> get_u64 (data (s (key escrow_acc))) E_BALANCE"
    "e0 = splice (data (s (key escrow_acc))) E_BALANCE
       (u64_le (get_u64 (data (s (key escrow_acc))) E_BALANCE - amount))"
    "checked_add (get_u32 e0 E_OPEN_CHANNELS) 1 = Some oc" "e = splice e0 E_OPEN_CHANNELS (u32_le oc)"
    "create_pda rt payer channel_acc system CHANNEL_LEN pid
       [CHANNEL_SEED, key ledger_acc, key payer, payee, u64_le (get_u64 d 0), [bump]]
       (set_data s (key escrow_acc) e) = Inr s1"
    "add (l_next_scope l) 1 = Inr nx"
    "ledger_store (l\<lparr>l_next_scope := nx\<rparr>) ledger_acc s1 = Inr s2"
    "channel_store
       \<lparr>c_bump = bump, c_status = CH_OPEN, c_ledger = key ledger_acc, c_payer = key payer,
        c_payee = payee, c_channel_id = get_u64 d 0, c_scope = l_next_scope l, c_deposit = amount,
        c_balance = amount, c_best_cum = 0, c_expiry_slot = get_u64 d 48, c_dispute_end_slot = 0\<rparr>
       channel_acc s2 = Inr s'"
    "get_u64 d 48 - clock_slot rt \<le> MAX_CHANNEL_SLOTS" "payee \<noteq> replicate 32 0"
proof -
  show thesis
    by (insert assms [unfolded open_channel_def Let_def],
        clarsimp simp: run_inv simp del: CHANNEL_LEN_def split del: if_split, (elim disjE conjE exE)?;
        rule that; (rule refl | assumption)?)
      (auto simp: linorder_not_less linorder_not_le)
qed

lemma credit_slot_run:
  assumes "credit_slot rt pid book_acc led slot payee amount chk s = Inr s'"
  obtains bal where
    "chk \<Longrightarrow> check_book rt s book_acc pid = Inr led" "slot < BOOK_SLOTS"
    "slice (data (s (key book_acc))) (slot_off slot) 32 = payee"
    "add (get_u64 (data (s (key book_acc))) (slot_off slot + S_BALANCE)) amount = Inr bal"
    "s' = set_data s (key book_acc)
       (splice (data (s (key book_acc))) (slot_off slot + S_BALANCE) (u64_le bal))"
proof -
  show thesis
    by (insert assms [unfolded credit_slot_def Let_def],
        clarsimp simp: run_inv split del: if_split, (elim disjE conjE exE)?;
        rule that; (rule refl | assumption)?)
      (auto simp: linorder_not_less linorder_not_le)
qed

lemma close_one_run:
  assumes "close_one rt pid lk l signers accounts body i (s, books) = Inr (s', books')"
  obtains w ch_acc ch ch' s1 where
    "close_decode (slice body (i * CLOSE_WIRE_LEN) CLOSE_WIRE_LEN) = Inr w"
    "unat (wc_channel_ix w) < length accounts" "ch_acc = accounts ! unat (wc_channel_ix w)"
    "channel_load rt s ch_acc pid = Inr ch" "c_ledger ch = lk" "close_status ch (clock_slot rt) = Inr ()"
    "clock_slot rt \<le> wc_expiry_slot w" "c_best_cum ch < wc_cumulative w" "wc_cumulative w \<le> c_balance ch"
    "verify rt (c_payer ch) (voucher_message pid (l_mint l) (l_salt l) (c_payer ch) (c_payee ch) (c_scope ch)
       (wc_cumulative w) (wc_expiry_slot w) (wc_quote_hash w)) (wc_sig w)"
    "signers_has signers (c_payee ch) \<and> (\<exists>book_acc was bal. unat (wc_book_ix w) < length accounts \<and>
        book_acc = accounts ! unat (wc_book_ix w) \<and> test_set books (unat (wc_book_ix w)) = Inr (was, books') \<and>
        credit_slot rt pid book_acc lk (unat (wc_slot w)) (c_payee ch) (wc_cumulative w) (\<not> was) s = Inr s1 \<and>
        sub (c_balance ch) (wc_cumulative w) = Inr bal \<and>
        ch' = ch\<lparr>c_best_cum := wc_cumulative w, c_balance := bal, c_status := CH_CLOSED\<rparr>) \<or>
     \<not> signers_has signers (c_payee ch) \<and> s1 = s \<and> books' = books \<and> c_status ch = CH_OPEN \<and> (\<exists>de.
        add (clock_slot rt) (l_dispute_slots l) = Inr de \<and>
        ch' = ch\<lparr>c_best_cum := wc_cumulative w, c_status := CH_CLOSING, c_dispute_end_slot := de\<rparr>) \<or>
     \<not> signers_has signers (c_payee ch) \<and> s1 = s \<and> books' = books \<and> c_status ch \<noteq> CH_OPEN \<and>
        ch' = ch\<lparr>c_best_cum := wc_cumulative w\<rparr>"
    "channel_store ch' ch_acc s1 = Inr s'"
proof -
  show thesis
    by (insert assms [unfolded close_one_def Let_def],
        clarsimp simp: run_inv split del: if_split, (elim disjE conjE exE)?;
        rule that; (rule refl | assumption)?)
      (auto simp: linorder_not_less linorder_not_le)
qed

lemma close_channels_run:
  assumes "close_channels rt pid accounts d s = Inr s'"
  obtains nb body l books where
    "d = nb # body" "0 < unat nb" "length body = unat nb * CLOSE_WIRE_LEN"
    "accounts \<noteq> []" "ledger_load rt s (accounts ! 0) pid = Inr l"
    "foldE (close_one rt pid (key (accounts ! 0)) l (signers_of accounts) accounts body) [0..<unat nb] (s, 0) =
       Inr (s', books)"
  using assms by (auto simp: close_channels_def Let_def split: list.splits if_splits)

lemma request_channel_close_run:
  assumes "request_channel_close rt pid accounts d s = Inr s'"
  obtains payer ledger_acc ch_acc rest l ch de where
    "accounts = payer # ledger_acc # ch_acc # rest" "is_signer payer"
    "ledger_load rt s ledger_acc pid = Inr l" "channel_load rt s ch_acc pid = Inr ch"
    "c_ledger ch = key ledger_acc" "c_payer ch = key payer" "c_status ch = CH_OPEN"
    "clock_slot rt < c_expiry_slot ch" "add (clock_slot rt) (l_dispute_slots l) = Inr de"
    "channel_store (ch\<lparr>c_status := CH_CLOSING, c_dispute_end_slot := de\<rparr>) ch_acc s = Inr s'"
proof -
  show thesis
    by (insert assms [unfolded request_channel_close_def Let_def],
        clarsimp simp: run_inv split del: if_split, (elim disjE conjE exE)?;
        rule that; (rule refl | assumption)?)
      (auto simp: linorder_not_less linorder_not_le)
qed

lemma finalize_channel_run:
  assumes "finalize_channel rt pid accounts d s = Inr s'"
  obtains ch_acc ch ch' s1 where
    "accounts \<noteq> []" "ch_acc = accounts ! 0" "length d = 1" "channel_load rt s ch_acc pid = Inr ch"
    "finalize_status ch (is_signer_key accounts (c_payee ch)) (clock_slot rt) = Inr ()"
    "c_best_cum ch = 0 \<and> ch' = ch \<and> s1 = s \<or>
     c_best_cum ch > 0 \<and> (\<exists>bal. 1 < length accounts \<and>
       credit_slot rt pid (accounts ! 1) (c_ledger ch) (unat (d ! 0)) (c_payee ch) (c_best_cum ch) True s = Inr s1 \<and>
       sub (c_balance ch) (c_best_cum ch) = Inr bal \<and> ch' = ch\<lparr>c_balance := bal\<rparr>)"
    "channel_store (ch'\<lparr>c_status := CH_CLOSED\<rparr>) ch_acc s1 = Inr s'"
proof -
  show thesis
    by (insert assms [unfolded finalize_channel_def Let_def],
        clarsimp simp: run_inv split del: if_split, (elim disjE conjE exE)?;
        rule that; (rule refl | assumption)?)
      (auto simp: linorder_not_less linorder_not_le)
qed

lemma reclaim_channel_run:
  assumes "reclaim_channel rt pid accounts d s = Inr s'"
  obtains ch_acc escrow_acc payer rest ch bal e0 e oc where
    "accounts = ch_acc # escrow_acc # payer # rest" "channel_load rt s ch_acc pid = Inr ch"
    "reclaim_status ch (clock_slot rt) = Inr ()"
    "check_escrow rt s escrow_acc pid = Inr (c_ledger ch, c_payer ch)" "key payer = c_payer ch"
    "add (get_u64 (data (s (key escrow_acc))) E_BALANCE) (c_balance ch) = Inr bal"
    "e0 = splice (data (s (key escrow_acc))) E_BALANCE (u64_le bal)"
    "checked_sub (get_u32 e0 E_OPEN_CHANNELS) 1 = Some oc" "e = splice e0 E_OPEN_CHANNELS (u32_le oc)"
    "close_account ch_acc payer (set_data s (key escrow_acc) e) = Inr s'"
proof -
  show thesis
    by (insert assms [unfolded reclaim_channel_def Let_def],
        clarsimp simp: run_inv split del: if_split, (elim disjE conjE exE)?;
        rule that; (rule refl | assumption)?)
      (auto simp: linorder_not_less linorder_not_le)
qed

section \<open>Conservation\<close>

lemma credit_slot_balanced:
  assumes "balanced_but pid s L x" and "credit_slot rt pid book_acc L slot payee amount chk s = Inr s'"
    and "chk \<or> book_in pid L (s (key book_acc))"
  shows "balanced_but pid s' L (x - int (unat amount))" "kept s s'" "book_in pid L (s (key book_acc))"
    "\<And>k. is_channel pid (s k) \<Longrightarrow> s' k = s k"
proof -
  from assms(2) obtain bal where run: "chk \<Longrightarrow> check_book rt s book_acc pid = Inr L" "slot < BOOK_SLOTS"
    "add (get_u64 (data (s (key book_acc))) (slot_off slot + S_BALANCE)) amount = Inr bal"
    "s' = set_data s (key book_acc)
       (splice (data (s (key book_acc))) (slot_off slot + S_BALANCE) (u64_le bal))"
    by (elim credit_slot_run) blast
  show bk: "book_in pid L (s (key book_acc))" using run(1) check_book_in assms(3) by blast
  from book_credit [OF assms(1) bk run(2-4)] show "balanced_but pid s' L (x - int (unat amount))" "kept s s'" .
  show "s' k = s k" if "is_channel pid (s k)" for k
  proof -
    have "k \<noteq> key book_acc" using that bk kinds_disjoint(8) by (auto simp: book_in_def)
    then show ?thesis by (simp add: run(4))
  qed
qed

text \<open>A channel that keeps its ledger and loses exactly what was credited.\<close>

lemma channel_settled:
  assumes "balanced_but pid s L x" and "channel_load rt s0 acc pid = Inr ch" and "s (key acc) = s0 (key acc)"
    and "c_ledger ch = L" and "channel_store c acc s = Inr s'" and "c_ledger c = L"
    and "x + int (unat (c_balance ch)) = int (unat (c_balance c))"
  shows "balanced pid s'" and "kept s s'"
proof -
  from assms(2,3) have ch: "is_channel pid (s (key acc))" "channel_of (data (s (key acc))) = ch"
    by (simp_all add: channel_load_Inr)
  note st = channel_step [OF assms(1) ch(1) _ assms(5,6)]
  have "x + int (unat (c_balance (channel_of (data (s (key acc)))))) - int (unat (c_balance c)) = 0"
    using assms(7) ch(2) by simp
  then show "balanced pid s'" using st(1) ch(2) assms(4) by (metis balanced_but_0)
  show "kept s s'" using st(2) ch(2) assms(4) by simp
qed

definition close_inv :: "key \<Rightarrow> key \<Rightarrow> account_info list \<Rightarrow> store \<times> seen \<Rightarrow> bool" where
  "close_inv pid L accounts = (\<lambda>(s, bs). balanced pid s \<and> seen_ok (book_in pid L) accounts bs s)"

interpretation close_fold:
  fold_invariant "close_one rt pid L l signers accounts body" "close_inv pid L accounts"
    "\<lambda>(s, _) (s', _). kept s s'"
  for rt pid L l signers accounts body
proof
  fix st i st'
  assume inv: "close_inv pid L accounts st" and step: "close_one rt pid L l signers accounts body i st = Inr st'"
  obtain s bs s' bs' where st: "st = (s, bs)" "st' = (s', bs')" by (metis prod.exhaust)
  from inv have seen: "seen_ok (book_in pid L) accounts bs s" and b: "balanced_but pid s L 0"
    by (auto simp: close_inv_def st balanced_but_0)
  from step have "close_one rt pid L l signers accounts body i (s, bs) = Inr (s', bs')" by (simp add: st)
  then show "close_inv pid L accounts st' \<and> (case st of (s, _) \<Rightarrow> \<lambda>(s', _). kept s s') st'"
  proof (cases rule: close_one_run)
    case (1 w ch_acc ch ch' s1)
    note run = 1
    have chan: "is_channel pid (s (key ch_acc))" using run(4) by (simp add: channel_load_Inr)
    show ?thesis
    proof (cases "signers_has signers (c_payee ch)")
      case True
      with run(11) obtain was bal where bi: "unat (wc_book_ix w) < length accounts"
        and ts: "test_set bs (unat (wc_book_ix w)) = Inr (was, bs')"
        and cr: "credit_slot rt pid (accounts ! unat (wc_book_ix w)) L (unat (wc_slot w)) (c_payee ch)
          (wc_cumulative w) (\<not> was) s = Inr s1"
        and bal: "sub (c_balance ch) (wc_cumulative w) = Inr bal"
        and ch': "ch' = ch\<lparr>c_best_cum := wc_cumulative w, c_balance := bal, c_status := CH_CLOSED\<rparr>"
        by auto
      have "\<not> was \<or> book_in pid L (s (key (accounts ! unat (wc_book_ix w))))"
        using seen ts by (auto simp: seen_ok_def test_set_Inr)
      note c = credit_slot_balanced [OF b cr this]
      have "balanced pid s'" "kept s1 s'"
        by (rule channel_settled [OF c(1) run(4) _ run(5,12)],
            use c(4) [OF chan] run(5) ch' sub_unat [OF bal] in simp_all)+
      moreover have "seen_ok (book_in pid L) accounts bs' s" using seen_ok_insert(1) [OF seen ts bi] c(3) by simp
      ultimately show ?thesis
        using c(2) by (auto simp: close_inv_def st intro: kept_trans seen_ok_kept)
    next
      case False
      with run(11) have s1: "s1 = s" "bs' = bs" and ch': "c_ledger ch' = L" "c_balance ch' = c_balance ch"
        using run(5) by auto
      have "balanced pid s'" "kept s s'"
        by (rule channel_settled [OF b run(4) _ run(5) run(12) [unfolded s1]], use ch' in simp_all)+
      then show ?thesis using seen by (auto simp: close_inv_def st s1 intro: seen_ok_kept)
    qed
  qed
qed (auto intro: kept_trans)

lemma close_channels_balanced:
  assumes "balanced pid s" and "close_channels rt pid accounts d s = Inr s'"
  shows "balanced pid s'"
  using assms(2)
proof (cases rule: close_channels_run)
  case (1 nb body l books)
  have "close_inv pid (key (accounts ! 0)) accounts (s, 0)" using assms(1) by (simp add: close_inv_def)
  with close_fold.fold_inv [OF _ 1(6)] show ?thesis by (simp add: close_inv_def)
qed

lemma request_channel_close_balanced:
  assumes "balanced pid s" and "request_channel_close rt pid accounts d s = Inr s'"
  shows "balanced pid s'"
  using assms(2)
proof (cases rule: request_channel_close_run)
  case (1 payer ledger_acc ch_acc rest l ch de)
  have "balanced_but pid s (c_ledger ch) 0" using assms(1) by (simp add: balanced_but_0)
  then show ?thesis by (rule channel_settled(1) [OF _ 1(4) refl refl 1(10)]) simp_all
qed

lemma finalize_channel_balanced:
  assumes "balanced pid s" and "finalize_channel rt pid accounts d s = Inr s'"
  shows "balanced pid s'"
  using assms(2)
proof (cases rule: finalize_channel_run)
  case (1 ch_acc ch ch' s1)
  note run = 1
  have b: "balanced_but pid s (c_ledger ch) 0" using assms(1) by (simp add: balanced_but_0)
  have chan: "is_channel pid (s (key ch_acc))" using run(4) by (simp add: channel_load_Inr)
  show ?thesis
  proof (cases "c_best_cum ch > 0")
    case False
    with run(6) have "ch' = ch" "s1 = s" by auto
    then show ?thesis by (intro channel_settled(1) [OF b run(4) refl refl run(7) [unfolded \<open>s1 = s\<close>]]) simp_all
  next
    case True
    with run(6) obtain bal where
      cr: "credit_slot rt pid (accounts ! 1) (c_ledger ch) (unat (d ! 0)) (c_payee ch) (c_best_cum ch) True s = Inr s1"
      and bal: "sub (c_balance ch) (c_best_cum ch) = Inr bal" and ch': "ch' = ch\<lparr>c_balance := bal\<rparr>" by auto
    note c = credit_slot_balanced [OF b cr disjI1 [OF TrueI]]
    show ?thesis
      by (rule channel_settled(1) [OF c(1) run(4) _ refl run(7)])
        (use c(4) [OF chan] ch' sub_unat [OF bal] in simp_all)
  qed
qed

context solana
begin

lemma reclaim_channel_balanced:
  assumes "balanced pid s" and "reclaim_channel rt pid accounts d s = Inr s'"
  shows "balanced pid s'"
  using assms(2)
proof (cases rule: reclaim_channel_run)
  case (1 ch_acc escrow_acc payer rest ch bal e0 e oc)
  note run = 1
  let ?E = "key escrow_acc" and ?C = "key ch_acc" and ?L = "c_ledger ch" and ?s = "set_data s (key escrow_acc) e"
  have b: "balanced_but pid s ?L 0" using assms(1) by (simp add: balanced_but_0)
  note esc = check_escrow_in [OF run(4)]
  note f = escrow_in_facts [OF esc]
  have hdr: "hdr_same (data (s ?E)) e" unfolding run(9) run(7) by (intro hdr_same_splice) simp_all
  have "unat (get_u64 e E_BALANCE) = unat (get_u64 (data (s ?E)) E_BALANCE) + unat (c_balance ch)"
    using add_unat [OF run(6)] f(4) by (simp add: run(9) run(7) byte_simps)
  then have "0 + int (unat (get_u64 (data (s ?E)) E_BALANCE)) - int (unat (get_u64 e E_BALANCE)) =
      - int (unat (c_balance ch))" by linarith
  then have b1: "balanced_but pid ?s ?L (- int (unat (c_balance ch)))"
    using escrow_step [OF b esc hdr] by metis
  have chan: "is_channel pid (s ?C)" "ch = channel_of (data (s ?C))" using run(2) by (simp_all add: channel_load_Inr)
  have "?C \<noteq> ?E" using chan(1) esc kinds_disjoint(6) by (auto simp: escrow_in_def)
  then have same: "?s ?C = s ?C" by simp
  note k = entry_kinds(3) [of "data (s ?C)"]
  have "slice (data (s ?C)) 0 8 = DISC_CHANNEL" "owner (s ?C) = pid" "slice (data (s ?C)) 16 32 = ?L"
    using chan by (auto simp: is_channel_def channel_of_def)
  then have "balanced_but pid s' ?L (- int (unat (c_balance ch)) + int (unat (c_balance ch)))"
    using close_entry_balanced [OF b1 _ _ run(10)] same k chan(2) by simp
  then show ?thesis by (simp add: balanced_but_0)
qed

lemma open_channel_balanced:
  assumes "balanced pid s" and "open_channel rt pid accounts d s = Inr s'"
  shows "balanced pid s'"
  using assms(2)
proof (cases rule: open_channel_run)
  case (1 payer ledger_acc escrow_acc channel_acc system rest l amount payee bump e0 e s1 s2 oc nx)
  note run = 1
  let ?E = "key escrow_acc" and ?C = "key channel_acc" and ?L = "key ledger_acc"
  let ?s = "set_data s ?E e"
  have b: "balanced_but pid s ?L 0" using assms(1) by (simp add: balanced_but_0)
  note esc = check_escrow_in [OF run(5)]
  note f = escrow_in_facts [OF esc]
  from run(4) have led: "is_ledger pid (s ?L)" and l: "l = ledger_of (data (s ?L))"
    by (simp_all add: ledger_load_Inr)
  have hdr: "hdr_same (data (s ?E)) e" unfolding run(13) run(11) by (intro hdr_same_splice) simp_all
  have "unat (get_u64 e E_BALANCE) + unat amount = unat (get_u64 (data (s ?E)) E_BALANCE)"
    using unat_sub_le [OF run(10)] f(4) by (simp add: run(13) run(11) byte_simps)
  then have "0 + int (unat (get_u64 (data (s ?E)) E_BALANCE)) - int (unat (get_u64 e E_BALANCE)) =
      int (unat amount)" by linarith
  then have b1: "balanced_but pid ?s ?L (int (unat amount))"
    using escrow_step [OF b esc hdr] by metis
  have "?E \<noteq> ?L" by (rule in_not_ledger(1) [of pid _ s, OF esc led])
  then have same: "?s ?L = s ?L" by simp
  note c = create_pda_effect [OF run(14)]
  have q: "quiet pid ?s s1" using c by (auto intro: foreign_quiet)
  have zero: "owner (s1 ?C) = pid" "data (s1 ?C) = replicate CHANNEL_LEN 0" and new: "owner (?s ?C) \<noteq> pid"
    using c pid_not_system by auto
  have led1: "is_ledger pid (s1 ?L)" "data (s1 ?L) = data (s ?L)"
    using quiet_same(3) [OF q, of ?L] same led by auto
  note b2 = ledger_step [OF quiet_balanced_but [OF b1 q] led1(1) run(16) refl]
  have b3: "balanced_but pid s2 ?L (int (unat amount))" and k2: "kept s1 s2"
    using b2(1,2) led1(2) by (simp_all add: l liabilities_def)
  have "?C \<noteq> ?L" using new same kinds_owner(1) [OF led] by auto
  then have "s2 ?C = s1 ?C" using run(16) by (auto simp: ledger_store_Inr)
  then have "\<forall>x \<in> set (data (s2 ?C)). x = 0" and own: "owner (s2 ?C) = pid" using zero by auto
  note nz = zero_data [OF this(1)]
  from run(17) obtain x where x: "channel_pack \<lparr>c_bump = bump, c_status = CH_OPEN, c_ledger = ?L, c_payer = key payer,
        c_payee = payee, c_channel_id = get_u64 d 0, c_scope = l_next_scope l, c_deposit = amount,
        c_balance = amount, c_best_cum = 0, c_expiry_slot = get_u64 d 48, c_dispute_end_slot = 0\<rparr> (data (s2 ?C)) = Inr x"
    and s': "s' = set_data s2 ?C x" by (auto simp: channel_store_Inr)
  note p = channel_codec.pack_disc [OF x] channel_codec.pack_of [OF x]
  have "slice x 16 32 = c_ledger (channel_of x)" by (simp add: channel_of_def)
  then have ent: "entry_ledger x = Some ?L" "entry_value x = unat amount"
    using entry_kinds(3) [OF p(1)] p(2) by simp_all
  have led2: "is_ledger pid (s2 ?L)" using kept_kinds(1) [OF k2] led1(1) by simp
  have "held pid ?L (s2 ?C) = 0" using nz(1) by (simp add: held_def)
  then have "balanced_but pid s' ?L 0"
    using entry_write [OF b3 own nz(2) led2 ent(1)] nz(1) ent(2) by (simp add: s')
  then show ?thesis by (simp add: balanced_but_0)
qed

end

end
