(* ===== verification/XsMoneyBatch.thy ===== *)
theory XsMoneyBatch
  imports XsMoneyChannel
begin

text \<open>
  Conservation for two-phase batches: staging moves escrow balances into the batch hold, a commit
  moves the hold into the payees' slots, resolving an aborted batch moves it back.
\<close>

section \<open>The batch account\<close>

lemma batch_of_splice: "168 \<le> off \<Longrightarrow> batch_of (splice d off bs) = batch_of d"
  by (simp add: batch_of_def byte_simps)

lemma batch_tail:
  "168 \<le> off \<Longrightarrow> hdr_same d (splice d off bs) \<and> batch_of (splice d off bs) = batch_of d"
  by (simp add: batch_of_splice hdr_same_splice)

definition batch_in :: "key \<Rightarrow> key \<Rightarrow> account \<Rightarrow> bool" where
  "batch_in pid L a \<longleftrightarrow> is_batch pid a \<and> b_ledger (batch_of (data a)) = L"

lemma batch_in_entry:
  assumes "batch_in pid L a"
  shows "owner a = pid" "entry_ledger (data a) = Some L" "entry_value (data a) = unat (b_held (batch_of (data a)))"
  using assms entry_kinds(4) [of "data a"] by (auto simp: batch_in_def is_batch_def batch_of_def)

lemma batch_in_other:
  "batch_in pid L (s k) \<Longrightarrow> escrow_in pid M (s j) \<Longrightarrow> k \<noteq> j"
  "batch_in pid L (s k) \<Longrightarrow> book_in pid M (s j) \<Longrightarrow> k \<noteq> j"
  using kinds_disjoint(7,9) by (auto simp: batch_in_def escrow_in_def book_in_def)

lemma batch_same_header:
  assumes "balanced_but pid s L x" and "batch_in pid L (s k)" and "hdr_same (data (s k)) e"
    and "batch_of e = batch_of (data (s k))"
  shows "balanced_but pid (set_data s k e) L x" and "batch_in pid L (set_data s k e k)"
proof -
  have "is_batch pid (set_data s k e k)" and e: "slice e 0 8 = DISC_BATCH"
    using assms(2,3) by (auto simp: batch_in_def is_batch_def hdr_same_def)
  then show "batch_in pid L (set_data s k e k)" using assms(2,4) by (simp add: batch_in_def)
  have "slice e 24 32 = b_ledger (batch_of e)" by (simp add: batch_of_def)
  then have "entry_ledger e = Some L" "entry_value e = unat (b_held (batch_of (data (s k))))"
    using entry_kinds(4) [OF e] assms(2,4) by (simp_all add: batch_in_def)
  then show "balanced_but pid (set_data s k e) L x"
    using entry_update [OF assms(1) batch_in_entry(1,2) [OF assms(2)], of e] batch_in_entry(3) [OF assms(2)] by simp
qed

lemma batch_hdr_write:
  assumes "balanced_but pid s L x" and "batch_in pid L (s k)" and "batch_pack h d = Inr e" and "b_ledger h = L"
    and "x + int (unat (b_held (batch_of (data (s k))))) = int (unat (b_held h))"
  shows "balanced pid (set_data s k e)"
proof -
  have "x + int (unat (b_held (batch_of (data (s k))))) - int (unat (b_held h)) = 0" using assms(5) by simp
  then show ?thesis
    using batch_step [OF assms(1) _ _ assms(3,4)] assms(2) unfolding batch_in_def by (metis balanced_but_0)
qed

lemma batch_load_in: "batch_load rt s acc pid = Inr h \<Longrightarrow> batch_in pid (b_ledger h) (s (key acc)) \<and> h = batch_of (data (s (key acc)))"
  by (simp add: batch_load_Inr batch_in_def)

section \<open>Staging\<close>

lemma case_option_Inr:
  "(case p of None \<Rightarrow> a | Some x \<Rightarrow> f x) = Inr y \<longleftrightarrow> p = None \<and> a = Inr y \<or> (\<exists>x. p = Some x \<and> f x = Inr y)"
  by (cases p) simp_all

lemma add_batch_payee_run:
  assumes "add_batch_payee bd hdr bk slot amount = Inr (bd', hdr')"
  obtains (found) i a where "find_payee bd bk slot [0..<unat (b_n_payees hdr)] = Inr (Some i)"
      "add (get_u64 bd (batch_payee_off i + 32)) amount = Inr a"
      "bd' = splice bd (batch_payee_off i + 32) (u64_le a)" "hdr' = hdr"
      "batch_payee_off i + 40 \<le> length bd"
  | (new) off where "find_payee bd bk slot [0..<unat (b_n_payees hdr)] = Inr None"
      "off = batch_payee_off (unat (b_n_payees hdr))" "unat (b_n_payees hdr) < MAX_BATCH_PAYEES"
      "bd' = splice (splice (splice bd off bk) (off + 32) (u64_le amount)) (off + 40) [slot]"
      "hdr' = hdr\<lparr>b_n_payees := b_n_payees hdr + 1\<rparr>" "off + 41 \<le> length bd" "length bk = 32"
proof -
  show thesis
    apply (insert assms [unfolded add_batch_payee_def Let_def],
        clarsimp simp: run_inv case_option_Inr split del: if_split, elim disjE conjE exE)
    subgoal by (rule new [OF _ refl]) auto
    subgoal for x i a by (rule found [of i a]) auto
    done
qed

lemma add_batch_payee_frame:
  assumes "add_batch_payee bd hdr bk slot amount = Inr (bd', hdr')"
  shows "hdr_same bd bd'" "batch_of bd' = batch_of bd" "b_held hdr' = b_held hdr" "b_ledger hdr' = b_ledger hdr"
proof -
  have off: "168 \<le> batch_payee_off i" for i by (simp add: batch_payee_off_def)
  from assms have "hdr_same bd bd' \<and> batch_of bd' = batch_of bd \<and> b_held hdr' = b_held hdr \<and> b_ledger hdr' = b_ledger hdr"
  proof (cases rule: add_batch_payee_run)
    case (found i a)
    then show ?thesis using batch_tail [of "batch_payee_off i + 32"] off [of i] by simp
  next
    case (new o2)
    then have "168 \<le> o2" using off by simp
    then show ?thesis using new by (auto intro!: hdr_same_splice simp: batch_of_splice)
  qed
  then show "hdr_same bd bd'" "batch_of bd' = batch_of bd" "b_held hdr' = b_held hdr" "b_ledger hdr' = b_ledger hdr"
    by auto
qed

lemma stage_reserve_run:
  assumes "stage_reserve accounts batch_id v s = Inr s'"
  obtains escrow_acc e e2 off bal pc where
    "b2_escrow_ix v < length accounts" "escrow_acc = accounts ! b2_escrow_ix v"
    "pair_entry (data (s (key escrow_acc))) v = Inr (e, off)"
    "off + P_PENDING_BATCH + 8 \<le> length e"
    "e2 = splice (splice e (off + P_PENDING_CUM) (u64_le (b2_cumulative v))) (off + P_PENDING_BATCH) (u64_le batch_id)"
    "sub (get_u64 e2 E_BALANCE) (b2_delta v) = Inr bal"
    "checked_add (get_u16 (splice e2 E_BALANCE (u64_le bal)) E_PENDING_COUNT) 1 = Some pc"
    "s' = set_data s (key escrow_acc)
       (splice (splice e2 E_BALANCE (u64_le bal)) E_PENDING_COUNT (u16_le pc))"
proof -
  show thesis
    by (insert assms [unfolded stage_reserve_def Let_def],
        clarsimp simp: run_inv split del: if_split, (elim disjE conjE exE)?;
        rule that; (rule refl | assumption)?)
      (auto simp: linorder_not_less linorder_not_le)
qed

lemma stage_reserve_balanced:
  assumes "balanced_but pid s L x" and "stage_reserve accounts batch_id v s = Inr s'"
    and "escrow_in pid L (s (key (accounts ! b2_escrow_ix v)))"
  shows "balanced_but pid s' L (x + int (unat (b2_delta v)))" "kept s s'"
    "\<And>k. batch_in pid M (s k) \<Longrightarrow> s' k = s k"
proof -
  from assms(2) obtain escrow_acc e e2 off bal pc where
    run: "escrow_acc = accounts ! b2_escrow_ix v" "pair_entry (data (s (key escrow_acc))) v = Inr (e, off)"
    "e2 = splice (splice e (off + P_PENDING_CUM) (u64_le (b2_cumulative v))) (off + P_PENDING_BATCH) (u64_le batch_id)"
    "sub (get_u64 e2 E_BALANCE) (b2_delta v) = Inr bal"
    "s' = set_data s (key escrow_acc) (splice (splice e2 E_BALANCE (u64_le bal)) E_PENDING_COUNT (u16_le pc))"
    by (elim stage_reserve_run) blast
  let ?E = "key escrow_acc"
  let ?e3 = "splice (splice e2 E_BALANCE (u64_le bal)) E_PENDING_COUNT (u16_le pc)"
  have esc: "escrow_in pid L (s ?E)" using assms(3) by (simp add: run(1))
  note p = pair_entry_frame [OF run(2)]
  have hdr: "hdr_same (data (s ?E)) ?e3"
    unfolding run(3) p(3) by (intro hdr_same_splice p(1)) (simp_all add: pair_off_def)
  have len: "ESCROW_HDR \<le> length e2"
    using escrow_in_facts(4) [OF esc] p(1) by (simp add: run(3) hdr_same_def)
  have "get_u64 e2 E_BALANCE = get_u64 (data (s ?E)) E_BALANCE"
    unfolding run(3) p(3) p(2) [symmetric] by (simp add: byte_simps pair_off_def)
  then have "unat (get_u64 (data (s ?E)) E_BALANCE) = unat (get_u64 ?e3 E_BALANCE) + unat (b2_delta v)"
    using sub_unat [OF run(4)] len by (simp add: byte_simps)
  then have "x + int (unat (get_u64 (data (s ?E)) E_BALANCE)) - int (unat (get_u64 ?e3 E_BALANCE)) =
      x + int (unat (b2_delta v))" by linarith
  then show "balanced_but pid s' L (x + int (unat (b2_delta v)))"
    using escrow_step [OF assms(1) esc hdr] unfolding run(5) by metis
  show "kept s s'" unfolding run(5) using hdr by (rule kept_set_data)
  show "s' k = s k" if "batch_in pid M (s k)" for k
    using batch_in_other(1) [of pid M s k, OF that esc] by (simp add: run(5))
qed

definition stage_inv :: "key \<Rightarrow> key \<Rightarrow> account_info list \<Rightarrow> key \<Rightarrow> stage_st \<Rightarrow> bool" where
  "stage_inv pid L accounts B = (\<lambda>(s, es, bs, hdr, leaves).
     batch_in pid L (s B) \<and> b_ledger hdr = L \<and>
     balanced_but pid s L (int (unat (b_held hdr)) - int (unat (b_held (batch_of (data (s B)))))) \<and>
     seen_ok (escrow_in pid L) accounts es s \<and> seen_ok (book_in pid L) accounts bs s)"

lemma stage_one_run:
  assumes "stage_one rt pid ctx accounts batch_acc body i (s, es, bs, hdr, leaves) = Inr (s', es', bs', hdr', leaves')"
  obtains w v s1 bd h1 sc stt hd out where
    "voucher_decode (slice body (i * VOUCHER_WIRE_LEN) VOUCHER_WIRE_LEN) = Inr w"
    "verify_b2 rt pid ctx accounts w 2 False s es bs = Inr (v, es', bs')"
    "stage_reserve accounts (b_batch_id hdr) v s = Inr s1"
    "b2_book_ix v < length accounts"
    "add_batch_payee (data (s1 (key batch_acc))) hdr (key (accounts ! b2_book_ix v)) (of_nat (b2_slot v)) (b2_delta v) = Inr (bd, h1)"
    "s' = set_data s1 (key batch_acc) bd"
    "checked_add (b_staged_count h1) 1 = Some sc" "add (b_staged_total h1) (b2_delta v) = Inr stt"
    "add (b_held h1) (b2_delta v) = Inr hd" "checked_add (b_outstanding h1) 1 = Some out"
    "hdr' = h1\<lparr>b_staged_count := sc, b_staged_total := stt, b_held := hd, b_outstanding := out\<rparr>"
    "leaves' = leaves @ [batch_leaf rt (b2_delta v) (b2_msg v)]"
proof -
  show thesis
    by (insert assms [unfolded stage_one_def Let_def],
        clarsimp simp: run_inv split del: if_split, (elim disjE conjE exE)?;
        rule that; (rule refl | assumption)?)
      (auto simp: linorder_not_less linorder_not_le)
qed

interpretation stage_fold:
  fold_invariant "stage_one rt pid ctx accounts batch_acc body"
    "stage_inv pid (ctx_ledger ctx) accounts (key batch_acc)" "\<lambda>(s, _) (s', _). kept s s'"
  for rt pid ctx accounts batch_acc body
proof
  let ?L = "ctx_ledger ctx" and ?B = "key batch_acc"
  fix st i st'
  assume inv: "stage_inv pid ?L accounts ?B st" and step: "stage_one rt pid ctx accounts batch_acc body i st = Inr st'"
  obtain s es bs hdr lv s' es' bs' hdr' lv' where st: "st = (s, es, bs, hdr, lv)" "st' = (s', es', bs', hdr', lv')"
    by (metis prod.exhaust)
  from inv have bi: "batch_in pid ?L (s ?B)" and hl: "b_ledger hdr = ?L"
    and b: "balanced_but pid s ?L (int (unat (b_held hdr)) - int (unat (b_held (batch_of (data (s ?B))))))"
    and seen: "seen_ok (escrow_in pid ?L) accounts es s" "seen_ok (book_in pid ?L) accounts bs s"
    by (auto simp: stage_inv_def st)
  from step have "stage_one rt pid ctx accounts batch_acc body i (s, es, bs, hdr, lv) = Inr (s', es', bs', hdr', lv')"
    by (simp add: st)
  then show "stage_inv pid ?L accounts ?B st' \<and> (case st of (s, _) \<Rightarrow> \<lambda>(s', _). kept s s') st'"
  proof (cases rule: stage_one_run)
    case (1 w v s1 bd h1 sc stt hd out)
    note run = 1
    note c = verify_b2_checked [OF run(2) seen]
    note r = stage_reserve_balanced [OF b run(3) c(4)]
    have same: "s1 ?B = s ?B" by (rule r(3) [OF bi])
    note p = add_batch_payee_frame [OF run(5)]
    have bi1: "batch_in pid ?L (s1 ?B)" using bi same by simp
    note h = batch_same_header [OF r(1) bi1 p(1,2)]
    have k: "kept s s'" using kept_trans [OF r(2) kept_set_data [of s1 ?B bd]] p(1) by (simp add: run(6))
    have hd: "int (unat (b_held hdr')) = int (unat (b_held hdr)) + int (unat (b2_delta v))"
      using add_unat [OF run(9)] p(3) by (simp add: run(11))
    have x: "int (unat (b_held hdr)) - int (unat (b_held (batch_of (data (s ?B))))) + int (unat (b2_delta v)) =
        int (unat (b_held hdr')) - int (unat (b_held (batch_of (data (s' ?B)))))"
      using hd p(2) same by (simp add: run(6))
    have "balanced_but pid s' ?L (int (unat (b_held hdr')) - int (unat (b_held (batch_of (data (s' ?B))))))"
      using h(1) unfolding run(6) [symmetric] x .
    moreover have "batch_in pid ?L (s' ?B)" using h(2) by (simp add: run(6))
    moreover have "b_ledger hdr' = ?L" using hl p(4) by (simp add: run(11))
    ultimately show ?thesis
      using k c(6,7) seen_ok_kept [OF k] by (simp add: stage_inv_def st)
  qed
qed (auto intro: kept_trans)

lemma stage_chunk_run:
  assumes "stage_chunk rt pid accounts d s = Inr s'"
  obtains ledger_acc batch_acc ci n pl l hdr s1 es bs h1 leaves bit_o bt bd pf where
    "ci = get_u16 d 0" "n = unat (d ! 2)" "pl = unat (d ! 3)" "4 \<le> length d"
    "1 < length accounts" "ledger_acc = accounts ! 0" "batch_acc = accounts ! Suc 0" "ledger_load rt s ledger_acc pid = Inr l"
    "batch_load rt s batch_acc pid = Inr hdr" "b_ledger hdr = key ledger_acc"
    "b_status hdr = B_STAGING" "clock_slot rt \<le> b_deadline_slot hdr"
    "(ucast ci :: u32) < ucast (b_num_chunks hdr)"
    "bit_o = BATCH_HDR + unat ((ucast ci :: u32) div 8)" "bt = 2 ^ unat ((ucast ci :: u32) mod 8)"
    "data (s (key batch_acc)) ! bit_o AND bt = 0"
    "n = unat (min (ucast (b_chunk_size hdr) :: u32) (b_count hdr - ucast ci * ucast (b_chunk_size hdr)))"
    "pl = upper_depth (unat (ucast (b_num_chunks hdr) :: u32))"
    "foldE (stage_one rt pid \<lparr>ctx_program_id = pid, ctx_ledger = key ledger_acc, ctx_mint = l_mint l,
       ctx_salt = l_salt l, ctx_now = clock_slot rt\<rparr> accounts batch_acc (drop (4 + pl * 32) d)) [0..<n]
       (s, 0, 0, hdr, []) = Inr (s1, es, bs, h1, leaves)"
    "pf = map (\<lambda>j. slice d (4 + 32 * j) 32) [0..<pl]"
    "fold_proof rt (subtree_root rt leaves (unat (b_chunk_log h1))) (unat (ucast ci :: u32)) pf = b_root h1"
    "batch_pack (h1\<lparr>b_chunks_staged := b_chunks_staged h1 + 1\<rparr>)
       (splice (data (s1 (key batch_acc))) bit_o [data (s1 (key batch_acc)) ! bit_o OR bt]) = Inr bd"
    "bit_o < length (data (s1 (key batch_acc)))"
    "s' = set_data s1 (key batch_acc) bd"
proof -
  show thesis
    by (insert assms [unfolded stage_chunk_def Let_def],
        clarsimp simp: run_inv split del: if_split, (elim disjE conjE exE)?;
        rule that; (rule refl | assumption)?)
      (auto simp: linorder_not_less linorder_not_le)
qed

lemma stage_chunk_balanced:
  assumes "balanced pid s" and "stage_chunk rt pid accounts d s = Inr s'"
  shows "balanced pid s'"
  using assms(2)
proof (cases rule: stage_chunk_run)
  case (1 ledger_acc batch_acc ci n pl l hdr s1 es bs h1 leaves bit_o bt bd pf)
  note run = 1
  let ?L = "key ledger_acc" and ?B = "key batch_acc"
  have "batch_in pid ?L (s ?B)" "hdr = batch_of (data (s ?B))" using batch_load_in [OF run(9)] run(10) by auto
  then have "stage_inv pid ?L accounts ?B (s, 0, 0, hdr, [])"
    using assms(1) run(10) by (simp add: stage_inv_def balanced_but_0)
  with stage_fold.fold_inv [OF _ run(19)] have "stage_inv pid ?L accounts ?B (s1, es, bs, h1, leaves)" by simp
  then have bi: "batch_in pid ?L (s1 ?B)" and hl: "b_ledger h1 = ?L"
    and b: "balanced_but pid s1 ?L (int (unat (b_held h1)) - int (unat (b_held (batch_of (data (s1 ?B))))))"
    by (auto simp: stage_inv_def)
  show ?thesis unfolding run(24) by (rule batch_hdr_write [OF b bi run(22)]) (simp_all add: hl)
qed

section \<open>Commit\<close>

lemma commit_one_run:
  assumes "commit_one rt pid led accounts batch_acc i (s, sn, credited) = Inr (s', sn', credited')"
  obtains off amount slot pos book_acc was bal where
    "off = batch_payee_off i" "off + 41 \<le> length (data (s (key batch_acc)))"
    "amount = get_u64 (data (s (key batch_acc))) (off + 32)"
    "slot = unat (data (s (key batch_acc)) ! (off + 40))"
    "account_position (tl accounts) (slice (data (s (key batch_acc))) off 32) = Some pos"
    "Suc pos < length accounts" "book_acc = accounts ! Suc pos"
    "test_set sn (Suc pos) = Inr (was, sn')"
    "was \<or> check_book rt s book_acc pid = Inr led"
    "slot_off slot + S_BALANCE + 8 \<le> length (data (s (key book_acc)))"
    "add (get_u64 (data (s (key book_acc))) (slot_off slot + S_BALANCE)) amount = Inr bal"
    "s' = set_data s (key book_acc) (splice (data (s (key book_acc))) (slot_off slot + S_BALANCE) (u64_le bal))"
    "add credited amount = Inr credited'"
proof -
  show thesis
    by (insert assms [unfolded commit_one_def Let_def],
        clarsimp simp: run_inv split del: if_split, (elim disjE conjE exE)?;
        rule that; (rule refl | assumption)?)
      (auto simp: linorder_not_less linorder_not_le)
qed

definition commit_inv :: "key \<Rightarrow> key \<Rightarrow> account_info list \<Rightarrow> key \<Rightarrow> batch_hdr \<Rightarrow> store \<times> seen \<times> u64 \<Rightarrow> bool" where
  "commit_inv pid L accounts B h = (\<lambda>(s, bs, credited).
     batch_in pid L (s B) \<and> batch_of (data (s B)) = h \<and>
     balanced_but pid s L (- int (unat credited)) \<and> seen_ok (book_in pid L) accounts bs s)"

interpretation commit_fold:
  fold_invariant "commit_one rt pid L accounts batch_acc" "commit_inv pid L accounts (key batch_acc) h"
    "\<lambda>(s, _) (s', _). kept s s'"
  for rt pid L accounts batch_acc h
proof
  let ?B = "key batch_acc"
  fix st i st'
  assume inv: "commit_inv pid L accounts ?B h st" and step: "commit_one rt pid L accounts batch_acc i st = Inr st'"
  obtain s bs cr s' bs' cr' where st: "st = (s, bs, cr)" "st' = (s', bs', cr')" by (metis prod.exhaust)
  from inv have bi: "batch_in pid L (s ?B)" and h: "batch_of (data (s ?B)) = h"
    and b: "balanced_but pid s L (- int (unat cr))" and seen: "seen_ok (book_in pid L) accounts bs s"
    by (auto simp: commit_inv_def st)
  from step have "commit_one rt pid L accounts batch_acc i (s, bs, cr) = Inr (s', bs', cr')" by (simp add: st)
  then show "commit_inv pid L accounts ?B h st' \<and> (case st of (s, _) \<Rightarrow> \<lambda>(s', _). kept s s') st'"
  proof (cases rule: commit_one_run)
    case (1 off amount slot pos book_acc was bal)
    note run = 1
    have "\<not> was \<Longrightarrow> book_in pid L (s (key (accounts ! Suc pos)))" using run(7,9) check_book_in by metis
    note c = seen_ok_insert [OF seen run(8,6) this]
    have bk: "book_in pid L (s (key book_acc))" using c(2) by (simp add: run(7))
    have "slot < BOOK_SLOTS" using run(10) book_in_facts(4) [OF bk] by (intro slot_in_book) simp
    note w = book_credit [OF b bk this run(11,12)]
    have "?B \<noteq> key book_acc" by (rule batch_in_other(2) [of pid L s, OF bi bk])
    then have "s' ?B = s ?B" by (simp add: run(12))
    moreover have "- int (unat cr) - int (unat amount) = - int (unat cr')" using add_unat [OF run(13)] by simp
    ultimately show ?thesis
      using w bi h c(1) seen_ok_kept(2) [OF w(2)] by (simp add: commit_inv_def st)
  qed
qed (auto intro: kept_trans)

lemma commit_batch_run:
  assumes "commit_batch rt pid accounts d s = Inr s'"
  obtains batch_acc hdr s1 sn bd where
    "accounts \<noteq> []" "batch_acc = accounts ! 0" "batch_load rt s batch_acc pid = Inr hdr"
    "b_status hdr = B_STAGING" "clock_slot rt \<le> b_deadline_slot hdr"
    "b_chunks_staged hdr = b_num_chunks hdr" "b_staged_count hdr = b_count hdr"
    "b_staged_total hdr = b_total hdr" "b_held hdr = b_total hdr"
    "foldE (commit_one rt pid (b_ledger hdr) accounts batch_acc) [0..<unat (b_n_payees hdr)] (s, 0, 0) =
       Inr (s1, sn, b_held hdr)"
    "batch_pack (hdr\<lparr>b_held := 0, b_status := B_COMMITTED\<rparr>) (data (s1 (key batch_acc))) = Inr bd"
    "s' = set_data s1 (key batch_acc) bd"
proof -
  show thesis
    by (insert assms [unfolded commit_batch_def Let_def],
        clarsimp simp: run_inv split del: if_split, (elim disjE conjE exE)?;
        rule that; (rule refl | assumption)?)
      (auto simp: linorder_not_less linorder_not_le)
qed

lemma commit_batch_balanced:
  assumes "balanced pid s" and "commit_batch rt pid accounts d s = Inr s'"
  shows "balanced pid s'"
  using assms(2)
proof (cases rule: commit_batch_run)
  case (1 batch_acc hdr s1 sn bd)
  note run = 1
  let ?L = "b_ledger hdr" and ?B = "key batch_acc"
  have "commit_inv pid ?L accounts ?B hdr (s, 0, 0)"
    using batch_load_in [OF run(3)] assms(1) by (auto simp: commit_inv_def balanced_but_0)
  with commit_fold.fold_inv [OF _ run(10)] have "commit_inv pid ?L accounts ?B hdr (s1, sn, b_held hdr)" by simp
  then have bi: "batch_in pid ?L (s1 ?B)" and h: "batch_of (data (s1 ?B)) = hdr"
    and b: "balanced_but pid s1 ?L (- int (unat (b_held hdr)))" by (auto simp: commit_inv_def)
  show ?thesis unfolding run(12) by (rule batch_hdr_write [OF b bi run(11)]) (simp_all add: h)
qed

section \<open>Abort, resolve and close\<close>

lemma abort_batch_run:
  assumes "abort_batch rt pid accounts d s = Inr s'"
  obtains caller batch_acc rest hdr bd where
    "accounts = caller # batch_acc # rest" "is_signer caller" "batch_load rt s batch_acc pid = Inr hdr"
    "b_status hdr = B_STAGING" "key caller = b_submitter hdr \<or> b_deadline_slot hdr < clock_slot rt"
    "batch_pack (hdr\<lparr>b_status := B_ABORTED\<rparr>) (data (s (key batch_acc))) = Inr bd"
    "s' = set_data s (key batch_acc) bd"
proof -
  show thesis
    by (insert assms [unfolded abort_batch_def Let_def],
        clarsimp simp: run_inv split del: if_split, (elim disjE conjE exE)?;
        rule that; (rule refl | assumption)?)
      (auto simp: linorder_not_less linorder_not_le)
qed

lemma abort_batch_balanced:
  assumes "balanced pid s" and "abort_batch rt pid accounts d s = Inr s'"
  shows "balanced pid s'"
  using assms(2)
proof (cases rule: abort_batch_run)
  case (1 caller batch_acc rest hdr bd)
  have b: "balanced_but pid s (b_ledger hdr) 0" using assms(1) by (simp add: balanced_but_0)
  note l = batch_load_in [OF 1(3)]
  show ?thesis unfolding 1(7) by (rule batch_hdr_write [OF b conjunct1 [OF l] 1(6)]) (simp_all add: l [THEN conjunct2, symmetric])
qed

lemma resolve_one_run:
  assumes "resolve_one rt pid committed accounts body i (s, sn, hdr) = Inr (s', sn', hdr')"
  obtains ei pi escrow_acc was e off delta e1 h1 pc out cum settled where
    "ei = unat (body ! (2 * i))" "pi = unat (body ! (2 * i + 1))" "ei \<noteq> 0"
    "ei < length accounts" "escrow_acc = accounts ! ei" "test_set sn ei = Inr (was, sn')"
    "was \<or> (\<exists>own. check_escrow rt s escrow_acc pid = Inr (b_ledger hdr, own))"
    "e = data (s (key escrow_acc))" "pi < unat (e ! E_PAIR_COUNT)" "off = pair_off pi"
    "off + 56 \<le> length e" "get_u64 e (off + P_PENDING_BATCH) = b_batch_id hdr"
    "cum = get_u64 e (off + P_PENDING_CUM)" "settled = get_u64 e (off + P_SETTLED)" "sub cum settled = Inr delta"
    "committed \<and> e1 = splice e (off + P_SETTLED) (u64_le cum) \<and> h1 = hdr \<or>
     \<not> committed \<and> (\<exists>bal hd. add (get_u64 e E_BALANCE) delta = Inr bal \<and> sub (b_held hdr) delta = Inr hd \<and>
        e1 = splice e E_BALANCE (u64_le bal) \<and> h1 = hdr\<lparr>b_held := hd\<rparr>)"
    "checked_sub (get_u16 (splice (splice e1 (off + P_PENDING_CUM) (u64_le 0)) (off + P_PENDING_BATCH) (u64_le 0))
       E_PENDING_COUNT) 1 = Some pc"
    "checked_sub (b_outstanding h1) 1 = Some out"
    "s' = set_data s (key escrow_acc) (splice (splice (splice e1 (off + P_PENDING_CUM) (u64_le 0))
       (off + P_PENDING_BATCH) (u64_le 0)) E_PENDING_COUNT (u16_le pc))"
    "hdr' = h1\<lparr>b_outstanding := out\<rparr>"
proof -
  show thesis
    by (insert assms [unfolded resolve_one_def Let_def],
        clarsimp simp: run_inv split del: if_split, (elim disjE conjE exE)?;
        rule that; (rule refl | assumption)?)
      (auto simp: linorder_not_less linorder_not_le)
qed

definition resolve_inv :: "key \<Rightarrow> key \<Rightarrow> account_info list \<Rightarrow> key \<Rightarrow> u64 \<Rightarrow> store \<times> seen \<times> batch_hdr \<Rightarrow> bool" where
  "resolve_inv pid L accounts B h0 = (\<lambda>(s, es, hdr).
     batch_in pid L (s B) \<and> b_held (batch_of (data (s B))) = h0 \<and> b_ledger hdr = L \<and>
     balanced_but pid s L (int (unat (b_held hdr)) - int (unat h0)) \<and> seen_ok (escrow_in pid L) accounts es s)"

interpretation resolve_fold:
  fold_invariant "resolve_one rt pid committed accounts body" "resolve_inv pid L accounts B h0"
    "\<lambda>(s, _) (s', _). kept s s'"
  for rt pid committed accounts body L B h0
proof
  fix st i st'
  assume inv: "resolve_inv pid L accounts B h0 st" and step: "resolve_one rt pid committed accounts body i st = Inr st'"
  obtain s es hdr s' es' hdr' where st: "st = (s, es, hdr)" "st' = (s', es', hdr')" by (metis prod.exhaust)
  from inv have bi: "batch_in pid L (s B)" and h: "b_held (batch_of (data (s B))) = h0" and hl: "b_ledger hdr = L"
    and b: "balanced_but pid s L (int (unat (b_held hdr)) - int (unat h0))"
    and seen: "seen_ok (escrow_in pid L) accounts es s" by (auto simp: resolve_inv_def st)
  from step have "resolve_one rt pid committed accounts body i (s, es, hdr) = Inr (s', es', hdr')" by (simp add: st)
  then show "resolve_inv pid L accounts B h0 st' \<and> (case st of (s, _) \<Rightarrow> \<lambda>(s', _). kept s s') st'"
  proof (cases rule: resolve_one_run)
    case (1 ei pi escrow_acc was e off delta e1 h1 pc out cum settled)
    note run = 1
    let ?E = "key escrow_acc"
    let ?e = "splice (splice (splice e1 (off + P_PENDING_CUM) (u64_le 0))
       (off + P_PENDING_BATCH) (u64_le 0)) E_PENDING_COUNT (u16_le pc)"
    have "\<not> was \<Longrightarrow> escrow_in pid L (s (key (accounts ! ei)))" using run(5,7) check_escrow_in hl by metis
    note c = seen_ok_insert [OF seen run(6,4) this]
    have esc: "escrow_in pid L (s ?E)" using c(2) by (simp add: run(5))
    have off: "120 \<le> off" by (simp add: run(10) pair_off_def)
    note f = escrow_in_facts [OF esc]
    have e1: "hdr_same e e1 \<and> b_ledger h1 = L \<and>
        int (unat (get_u64 e E_BALANCE)) - int (unat (get_u64 e1 E_BALANCE)) =
          int (unat (b_held h1)) - int (unat (b_held hdr))"
    proof (cases committed)
      case True
      with run(16) have "e1 = splice e (off + P_SETTLED) (u64_le cum)" "h1 = hdr" by auto
      then show ?thesis using off hl by (simp add: byte_simps hdr_same_splice)
    next
      case False
      with run(16) obtain bal hd where "add (get_u64 e E_BALANCE) delta = Inr bal" "sub (b_held hdr) delta = Inr hd"
        "e1 = splice e E_BALANCE (u64_le bal)" "h1 = hdr\<lparr>b_held := hd\<rparr>" by auto
      then show ?thesis
        using f(4) hl add_unat [of "get_u64 e E_BALANCE"] sub_unat [of "b_held hdr"]
        by (auto simp: byte_simps hdr_same_splice run(8))
    qed
    then have hdr: "hdr_same (data (s ?E)) ?e" using off by (auto simp: run(8) intro!: hdr_same_splice)
    have "get_u64 ?e E_BALANCE = get_u64 e1 E_BALANCE" using off by (simp add: byte_simps)
    then have x: "int (unat (b_held hdr)) - int (unat h0) + int (unat (get_u64 (data (s ?E)) E_BALANCE)) - int (unat (get_u64 ?e E_BALANCE)) =
        int (unat (b_held hdr')) - int (unat h0)" using e1 by (simp add: run(8) run(20))
    have "balanced_but pid s' L (int (unat (b_held hdr')) - int (unat h0))"
      using escrow_step [OF b esc hdr] unfolding run(19) x .
    moreover have k: "kept s s'" unfolding run(19) using hdr by (rule kept_set_data)
    moreover have "s' B = s B" using batch_in_other(1) [of pid L s, OF bi esc] by (simp add: run(19))
    ultimately show ?thesis
      using bi h c(1) seen_ok_kept(1) [OF k] e1 by (simp add: resolve_inv_def st run(20))
  qed
qed (auto intro: kept_trans)

lemma resolve_staged_run:
  assumes "resolve_staged rt pid accounts d s = Inr s'"
  obtains nb body batch_acc hdr s1 sn h1 bd where
    "d = nb # body" "0 < unat nb" "length body = 2 * unat nb" "accounts \<noteq> []" "batch_acc = accounts ! 0"
    "batch_load rt s batch_acc pid = Inr hdr" "b_status hdr = B_COMMITTED \<or> b_status hdr = B_ABORTED"
    "foldE (resolve_one rt pid (b_status hdr = B_COMMITTED) accounts body) [0..<unat nb] (s, 0, hdr) = Inr (s1, sn, h1)"
    "batch_pack h1 (data (s1 (key batch_acc))) = Inr bd" "s' = set_data s1 (key batch_acc) bd"
proof (cases d)
  case Nil
  with assms show thesis by (simp add: resolve_staged_def)
next
  case (Cons nb body)
  show thesis
    by (insert assms [unfolded resolve_staged_def Let_def] Cons,
        clarsimp simp: run_inv split del: if_split, (elim disjE conjE exE)?;
        rule that [OF Cons]; (rule refl | assumption)?)
      (auto simp: linorder_not_less linorder_not_le)
qed

lemma resolve_staged_balanced:
  assumes "balanced pid s" and "resolve_staged rt pid accounts d s = Inr s'"
  shows "balanced pid s'"
  using assms(2)
proof (cases rule: resolve_staged_run)
  case (1 nb body batch_acc hdr s1 sn h1 bd)
  note run = 1
  let ?L = "b_ledger hdr" and ?B = "key batch_acc" and ?h = "b_held hdr"
  have "resolve_inv pid ?L accounts ?B ?h (s, 0, hdr)"
    using batch_load_in [OF run(6)] assms(1) by (auto simp: resolve_inv_def balanced_but_0)
  with resolve_fold.fold_inv [OF _ run(8)] have "resolve_inv pid ?L accounts ?B ?h (s1, sn, h1)" by simp
  then have bi: "batch_in pid ?L (s1 ?B)" and h: "b_held (batch_of (data (s1 ?B))) = ?h" "b_ledger h1 = ?L"
    and b: "balanced_but pid s1 ?L (int (unat (b_held h1)) - int (unat ?h))" by (auto simp: resolve_inv_def)
  show ?thesis unfolding run(10) by (rule batch_hdr_write [OF b bi run(9) h(2)]) (simp add: h)
qed

lemma close_batch_run:
  assumes "close_batch rt pid accounts d s = Inr s'"
  obtains batch_acc submitter rest hdr where
    "accounts = batch_acc # submitter # rest" "batch_load rt s batch_acc pid = Inr hdr"
    "b_status hdr = B_COMMITTED \<or> b_status hdr = B_ABORTED" "b_outstanding hdr = 0" "b_held hdr = 0"
    "key submitter = b_submitter hdr" "close_account batch_acc submitter s = Inr s'"
proof -
  show thesis
    by (insert assms [unfolded close_batch_def Let_def],
        clarsimp simp: run_inv split del: if_split, (elim disjE conjE exE)?;
        rule that; (rule refl | assumption)?)
      (auto simp: linorder_not_less linorder_not_le)
qed

lemma begin_batch_run:
  assumes "begin_batch rt pid accounts d s = Inr s'"
  obtains submitter ledger_acc batch_acc system rest l bump s1 deadline n bd hdr where
    "accounts = submitter # ledger_acc # batch_acc # system # rest" "length d = 54"
    "ledger_load rt s ledger_acc pid = Inr l"
    "create_pda rt submitter batch_acc system BATCH_LEN pid
       [BATCH_SEED, key ledger_acc, u64_le (get_u64 d 0), [bump]] s = Inr s1"
    "add (clock_slot rt) (l_batch_timeout_slots l) = Inr deadline"
    "n = div_ceil (unat (get_u32 d 40)) (unat (d ! 53))" "n \<le> MAX_CHUNKS" "d ! 53 \<noteq> 0"
    "unat (d ! 53) \<le> 2 ^ unat (d ! 52)" "unat (d ! 52) \<le> MAX_CHUNK_LOG" "get_u64 d 0 \<noteq> 0" "get_u32 d 40 \<noteq> 0"
    "unat (get_u32 d 40) \<le> unat (get_u64 d 44)"
    "hdr = \<lparr>b_bump = bump, b_status = B_STAGING, b_chunk_log = d ! 52, b_chunk_size = d ! 53,
                b_n_payees = 0, b_num_chunks = of_nat n, b_chunks_staged = 0,
                b_ledger = key ledger_acc, b_submitter = key submitter, b_batch_id = get_u64 d 0,
                b_root = slice d 8 32, b_count = get_u32 d 40, b_staged_count = 0, b_total = get_u64 d 44,
                b_staged_total = 0, b_held = 0, b_deadline_slot = deadline, b_outstanding = 0\<rparr>"
    "batch_pack hdr (data (s1 (key batch_acc))) = Inr bd" "s' = set_data s1 (key batch_acc) bd"
proof -
  show thesis
    by (insert assms [unfolded begin_batch_def Let_def],
        clarsimp simp: run_inv simp del: BATCH_LEN_def split del: if_split, (elim disjE conjE exE)?;
        rule that; (rule refl | assumption)?)
      (auto simp: linorder_not_less linorder_not_le)
qed

context solana
begin

lemma close_batch_balanced:
  assumes "balanced pid s" and "close_batch rt pid accounts d s = Inr s'"
  shows "balanced pid s'"
  using assms(2)
proof (cases rule: close_batch_run)
  case (1 batch_acc submitter rest hdr)
  have b: "balanced_but pid s (b_ledger hdr) 0" using assms(1) by (simp add: balanced_but_0)
  note l = batch_load_in [OF 1(2)]
  note e = batch_in_entry [OF conjunct1 [OF l]]
  show ?thesis using close_entry_balanced [OF b e(1,2) 1(7)] e(3) l 1(5) by (simp add: balanced_but_0)
qed

lemma begin_batch_balanced:
  assumes "balanced pid s" and "begin_batch rt pid accounts d s = Inr s'"
  shows "balanced pid s'"
  using assms(2)
proof (cases rule: begin_batch_run)
  case (1 submitter ledger_acc batch_acc system rest l bump s1 deadline n bd hdr)
  note run = 1
  let ?L = "key ledger_acc"
  from run(3) have led: "is_ledger pid (s ?L)" by (simp add: ledger_load_Inr)
  note p = batch_codec.pack_disc [OF run(15)] batch_codec.pack_of [OF run(15)]
  have "slice bd 24 32 = b_ledger (batch_of bd)" by (simp add: batch_of_def)
  then have ent: "entry_ledger bd = Some ?L" "entry_value bd = 0"
    using entry_kinds(4) [OF p(1)] p(2) by (simp_all add: run(14))
  have "balanced_but pid s ?L 0" using assms(1) by (simp add: balanced_but_0)
  from entry_create(1) [OF this run(4) _ led ent(1)] show ?thesis
    unfolding run(16) by (simp add: ent(2) balanced_but_0)
qed

end

end
