(* ===== verification/XsMoney.thy ===== *)
theory XsMoney
  imports XsMoneyBatch
begin

text \<open>
  The program as a whole: every instruction keeps the books of every ledger balanced, and so does
  every state reachable by instructions of the program interleaved with code of other programs.
\<close>

section \<open>One instruction\<close>

context solana
begin

lemmas handlers_balanced =
  open_escrow_balanced grow_escrow_balanced deposit_balanced request_exit_balanced
  withdraw_escrow_balanced close_escrow_balanced create_book_balanced register_payee_balanced
  withdraw_payee_balanced settle_balanced open_channel_balanced close_channels_balanced
  request_channel_close_balanced finalize_channel_balanced reclaim_channel_balanced
  begin_batch_balanced stage_chunk_balanced commit_batch_balanced abort_batch_balanced
  resolve_staged_balanced close_batch_balanced

lemma process_balanced:
  assumes "balanced pid s" and "process rt pid accounts d s = Inr s'"
    and "TOKEN_ID \<noteq> pid" and "TOKEN_2022_ID \<noteq> pid"
  shows "balanced pid s'"
proof (cases d)
  case Nil
  with assms(2) show ?thesis by (simp add: process_def)
next
  case (Cons t rest)
  show ?thesis
    using assms(2)
    by (auto simp only: process_def Cons list.case if_Inr sum.distinct
        intro: handlers_balanced [OF assms(1)] init_ledger_balanced [OF assms(1) _ assms(3,4)])
qed

end

section \<open>Sequences of steps\<close>

text \<open>
  One step of the cluster: an instruction of the program that succeeds (a failing one is rolled
  back by the runtime), or any code of other programs. The clock, the hash, curve and address
  services and the accounts differ from step to step; \<open>m\<close> is the rent-exempt minimum of a ledger
  account, a constant of the cluster.
\<close>

inductive cluster_step :: "u64 \<Rightarrow> key \<Rightarrow> store \<Rightarrow> store \<Rightarrow> bool" for m pid where
  instruction: "solana rt pid \<Longrightarrow> minimum_balance rt LEDGER_LEN = m \<Longrightarrow>
    process rt pid accounts d s = Inr s' \<Longrightarrow> cluster_step m pid s s'"
| foreign: "foreign_step pid s s' \<Longrightarrow> cluster_step m pid s s'"

inductive reachable :: "u64 \<Rightarrow> key \<Rightarrow> store \<Rightarrow> bool" for m pid where
  genesis: "(\<And>k. owner (s k) \<noteq> pid) \<Longrightarrow> reachable m pid s"
| step: "reachable m pid s \<Longrightarrow> cluster_step m pid s s' \<Longrightarrow> reachable m pid s'"

inductive cluster_steps :: "u64 \<Rightarrow> key \<Rightarrow> store \<Rightarrow> store \<Rightarrow> bool" for m pid where
  none: "cluster_steps m pid s s"
| more: "cluster_steps m pid s1 s2 \<Longrightarrow> cluster_step m pid s2 s3 \<Longrightarrow> cluster_steps m pid s1 s3"

lemma genesis_balanced: "(\<And>k. owner (s k) \<noteq> pid) \<Longrightarrow> balanced pid s"
  by (simp add: balanced_def books_ok_def is_entry_def is_ledger_def)

lemma cluster_step_balanced:
  assumes "cluster_step m pid s s'" and "balanced pid s" and "TOKEN_ID \<noteq> pid" and "TOKEN_2022_ID \<noteq> pid"
  shows "balanced pid s'"
  using assms(1)
proof (cases rule: cluster_step.cases)
  case (instruction rt accounts d)
  then show ?thesis using solana.process_balanced assms(2-4) by metis
next
  case foreign
  then show ?thesis using quiet_balanced [OF assms(2) foreign_quiet] by blast
qed

lemma reachable_balanced:
  assumes "reachable m pid s" and "TOKEN_ID \<noteq> pid" and "TOKEN_2022_ID \<noteq> pid"
  shows "balanced pid s"
  using assms(1)
proof (induction rule: reachable.induct)
  case (genesis s)
  then show ?case by (rule genesis_balanced)
next
  case (step s s')
  then show ?case using cluster_step_balanced assms(2,3) by blast
qed

end
