(* ===== verification/XsView.thy ===== *)
theory XsView
  imports XsFrame
begin

text \<open>
  Escrow and book accounts are accessed at byte offsets by the source. This theory reads them as
  records, \<open>escrow_of\<close> with its list of pairs and \<open>book_of\<close> with its list of slots, and shows that
  every byte write of the handlers is a record update.
\<close>

section \<open>Views\<close>

record pair_view =
  pv_payee :: key
  pv_settled :: u64
  pv_cum :: u64
  pv_batch :: u64

record escrow_view =
  ev_bump :: u8
  ev_capacity :: nat
  ev_pending :: u16
  ev_ledger :: key
  ev_payer :: key
  ev_scope :: u64
  ev_balance :: u64
  ev_exit_amount :: u64
  ev_exit_ready :: u64
  ev_open_channels :: u32
  ev_pairs :: "pair_view list"

definition pair_of :: "bytes \<Rightarrow> nat \<Rightarrow> pair_view" where
  "pair_of d i = \<lparr>pv_payee = slice d (pair_off i + P_PAYEE) 32, pv_settled = get_u64 d (pair_off i + P_SETTLED),
     pv_cum = get_u64 d (pair_off i + P_PENDING_CUM), pv_batch = get_u64 d (pair_off i + P_PENDING_BATCH)\<rparr>"

definition escrow_of :: "bytes \<Rightarrow> escrow_view" where
  "escrow_of d = \<lparr>ev_bump = d ! E_BUMP, ev_capacity = unat (d ! E_CAPACITY), ev_pending = get_u16 d E_PENDING_COUNT,
     ev_ledger = slice d E_LEDGER 32, ev_payer = slice d E_PAYER 32, ev_scope = get_u64 d E_SCOPE,
     ev_balance = get_u64 d E_BALANCE, ev_exit_amount = get_u64 d E_EXIT_AMOUNT,
     ev_exit_ready = get_u64 d E_EXIT_READY, ev_open_channels = get_u32 d E_OPEN_CHANNELS,
     ev_pairs = map (pair_of d) [0..<unat (d ! E_PAIR_COUNT)]\<rparr>"

record book_view =
  bv_bump :: u8
  bv_used :: u16
  bv_page :: u32
  bv_ledger :: key
  bv_slots :: "(key \<times> u64) list"

definition book_of :: "bytes \<Rightarrow> book_view" where
  "book_of d = \<lparr>bv_bump = d ! K_BUMP, bv_used = get_u16 d K_USED, bv_page = get_u32 d K_PAGE,
     bv_ledger = slice d K_LEDGER 32,
     bv_slots = map (\<lambda>i. (slice d (slot_off i + S_OWNER) 32, get_u64 d (slot_off i + S_BALANCE))) [0..<BOOK_SLOTS]\<rparr>"

section \<open>Pairs\<close>

lemma pair_apart: "i \<noteq> j \<Longrightarrow> pair_off j + 56 \<le> pair_off i \<or> pair_off i + 56 \<le> pair_off j"
  unfolding pair_off_def by (cases i j rule: linorder_cases) auto

lemma pair_of_other:
  assumes "off + length bs \<le> pair_off i \<or> pair_off i + 56 \<le> off"
  shows "pair_of (splice d off bs) i = pair_of d i"
  using assms by (auto simp: pair_of_def byte_simps)

lemma pair_of_hdr: "off + length bs \<le> 120 \<Longrightarrow> pair_of (splice d off bs) i = pair_of d i"
  by (rule pair_of_other) (simp add: pair_off_def)

lemma pair_of_elsewhere:
  assumes "i \<noteq> j" and "pair_off j \<le> off" and "off + length bs \<le> pair_off j + 56"
  shows "pair_of (splice d off bs) i = pair_of d i"
  by (rule pair_of_other) (use pair_apart [OF assms(1)] assms(2,3) in auto)

lemma pair_of_splice:
  assumes "pair_off i + 56 \<le> length d"
  shows "pair_of (splice d (pair_off i + P_SETTLED) (u64_le v)) i = (pair_of d i)\<lparr>pv_settled := v\<rparr>"
    and "pair_of (splice d (pair_off i + P_PENDING_CUM) (u64_le v)) i = (pair_of d i)\<lparr>pv_cum := v\<rparr>"
    and "pair_of (splice d (pair_off i + P_PENDING_BATCH) (u64_le v)) i = (pair_of d i)\<lparr>pv_batch := v\<rparr>"
    and "length k = 32 \<Longrightarrow> pair_of (splice d (pair_off i) k) i = (pair_of d i)\<lparr>pv_payee := k\<rparr>"
  using assms by (simp_all add: pair_of_def byte_simps)

section \<open>Header writes\<close>

lemma ev_length [simp]: "length (ev_pairs (escrow_of d)) = unat (d ! E_PAIR_COUNT)"
  by (simp add: escrow_of_def)

lemma ev_nth: "i < unat (d ! E_PAIR_COUNT) \<Longrightarrow> ev_pairs (escrow_of d) ! i = pair_of d i"
  by (simp add: escrow_of_def)

lemma escrow_of_balance:
  "120 \<le> length d \<Longrightarrow> escrow_of (splice d E_BALANCE (u64_le v)) = (escrow_of d)\<lparr>ev_balance := v\<rparr>"
  by (simp add: escrow_of_def byte_simps pair_of_hdr)

lemma escrow_of_exit_amount:
  "120 \<le> length d \<Longrightarrow> escrow_of (splice d E_EXIT_AMOUNT (u64_le v)) = (escrow_of d)\<lparr>ev_exit_amount := v\<rparr>"
  by (simp add: escrow_of_def byte_simps pair_of_hdr)

lemma escrow_of_exit_ready:
  "120 \<le> length d \<Longrightarrow> escrow_of (splice d E_EXIT_READY (u64_le v)) = (escrow_of d)\<lparr>ev_exit_ready := v\<rparr>"
  by (simp add: escrow_of_def byte_simps pair_of_hdr)

lemma escrow_of_open_channels:
  "120 \<le> length d \<Longrightarrow> escrow_of (splice d E_OPEN_CHANNELS (u32_le v)) = (escrow_of d)\<lparr>ev_open_channels := v\<rparr>"
  by (simp add: escrow_of_def byte_simps pair_of_hdr)

lemma escrow_of_pending:
  "120 \<le> length d \<Longrightarrow> escrow_of (splice d E_PENDING_COUNT (u16_le v)) = (escrow_of d)\<lparr>ev_pending := v\<rparr>"
  by (simp add: escrow_of_def byte_simps pair_of_hdr)

lemma escrow_of_capacity:
  assumes "120 \<le> length d"
  shows "escrow_of (splice (d @ replicate n 0) E_CAPACITY [c]) = (escrow_of d)\<lparr>ev_capacity := unat c,
    ev_pairs := map (pair_of (d @ replicate n 0)) [0..<unat (d ! E_PAIR_COUNT)]\<rparr>"
proof -
  have s: "off + k \<le> length d \<Longrightarrow> slice (d @ replicate n 0) off k = slice d off k" for off k
    by (simp add: slice_def)
  show ?thesis
    using assms
    by (simp add: escrow_of_def byte_simps pair_of_hdr get_u64_def get_u32_def get_u16_def s nth_append)
qed

lemmas escrow_header_writes =
  escrow_of_balance [unfolded E_BALANCE_def] escrow_of_exit_amount [unfolded E_EXIT_AMOUNT_def]
  escrow_of_exit_ready [unfolded E_EXIT_READY_def] escrow_of_open_channels [unfolded E_OPEN_CHANNELS_def]
  escrow_of_pending [unfolded E_PENDING_COUNT_def]

section \<open>Pair writes\<close>

lemma map_pair_update:
  assumes "\<And>j. j < n \<Longrightarrow> j \<noteq> i \<Longrightarrow> f j = g j" and "i < n" and "f i = x"
  shows "map f [0..<n] = (map g [0..<n])[i := x]"
  using assms by (intro nth_equalityI) (auto simp: nth_list_update)

lemma escrow_of_pair_write:
  assumes "i < unat (d ! E_PAIR_COUNT)" and "pair_off i \<le> off" and "off + length bs \<le> pair_off i + 56"
    and "pair_of (splice d off bs) i = p"
  shows "escrow_of (splice d off bs) = (escrow_of d)\<lparr>ev_pairs := (ev_pairs (escrow_of d))[i := p]\<rparr>"
proof -
  have off: "120 \<le> off" using assms(2) by (simp add: pair_off_def)
  have "map (pair_of (splice d off bs)) [0..<unat (d ! E_PAIR_COUNT)] =
      (map (pair_of d) [0..<unat (d ! E_PAIR_COUNT)])[i := p]"
    by (rule map_pair_update) (use assms pair_of_elsewhere in auto)
  with off show ?thesis by (simp add: escrow_of_def byte_simps)
qed

lemma escrow_of_settled:
  assumes "i < unat (d ! E_PAIR_COUNT)" and "pair_off i + 56 \<le> length d"
  shows "escrow_of (splice d (pair_off i + P_SETTLED) (u64_le v)) =
    (escrow_of d)\<lparr>ev_pairs := (ev_pairs (escrow_of d))[i := (pair_of d i)\<lparr>pv_settled := v\<rparr>]\<rparr>"
  by (rule escrow_of_pair_write [OF assms(1)]) (use pair_of_splice(1) [OF assms(2)] in auto)

lemma escrow_of_cum:
  assumes "i < unat (d ! E_PAIR_COUNT)" and "pair_off i + 56 \<le> length d"
  shows "escrow_of (splice d (pair_off i + P_PENDING_CUM) (u64_le v)) =
    (escrow_of d)\<lparr>ev_pairs := (ev_pairs (escrow_of d))[i := (pair_of d i)\<lparr>pv_cum := v\<rparr>]\<rparr>"
  by (rule escrow_of_pair_write [OF assms(1)]) (use pair_of_splice(2) [OF assms(2)] in auto)

lemma escrow_of_batch:
  assumes "i < unat (d ! E_PAIR_COUNT)" and "pair_off i + 56 \<le> length d"
  shows "escrow_of (splice d (pair_off i + P_PENDING_BATCH) (u64_le v)) =
    (escrow_of d)\<lparr>ev_pairs := (ev_pairs (escrow_of d))[i := (pair_of d i)\<lparr>pv_batch := v\<rparr>]\<rparr>"
  by (rule escrow_of_pair_write [OF assms(1)]) (use pair_of_splice(3) [OF assms(2)] in auto)

text \<open>A voucher that appends a pair adds it, empty, at the end; another leaves the bytes alone.\<close>

lemma pair_entry_view:
  assumes "pair_entry e v = Inr (e', off)" and "unat (e ! E_PAIR_COUNT) < 255"
    and "b2_append v \<longrightarrow> b2_pair_ix v = unat (e ! E_PAIR_COUNT)"
  shows "off = pair_off (b2_pair_ix v)" and "length e' = length e"
    and "escrow_of e' = (if b2_append v
      then (escrow_of e)\<lparr>ev_pairs := ev_pairs (escrow_of e) @
             [\<lparr>pv_payee = b2_payee v, pv_settled = 0, pv_cum = 0, pv_batch = 0\<rparr>]\<rparr>
      else escrow_of e)"
    and "b2_append v \<Longrightarrow> e' ! E_PAIR_COUNT = e ! E_PAIR_COUNT + 1 \<and> unat (e' ! E_PAIR_COUNT) = unat (e ! E_PAIR_COUNT) + 1"
    and "\<not> b2_append v \<Longrightarrow> e' = e"
proof -
  show off: "off = pair_off (b2_pair_ix v)" and "length e' = length e" and "\<not> b2_append v \<Longrightarrow> e' = e"
    using assms(1) by (auto simp: pair_entry_def Let_def split: if_splits)
  let ?n = "unat (e ! E_PAIR_COUNT)"
  have n1: "unat (e ! E_PAIR_COUNT + 1) = ?n + 1"
    using assms(2) by (simp add: unat_word_ariths)
  define e3 where "e3 = splice (splice (splice (splice e (pair_off ?n) (b2_payee v)) (pair_off ?n + 32) (u64_le 0))
      (pair_off ?n + 40) (u64_le 0)) (pair_off ?n + 48) (u64_le 0)"
  have app: "e' = splice e3 11 [e ! 11 + 1] \<and> length (b2_payee v) = 32 \<and> pair_off ?n + 56 \<le> length e" if "b2_append v"
    using assms(1,3) that by (auto simp: pair_entry_def Let_def e3_def byte_simps pair_off_def)
  show "b2_append v \<Longrightarrow> e' ! E_PAIR_COUNT = e ! E_PAIR_COUNT + 1 \<and> unat (e' ! E_PAIR_COUNT) = ?n + 1"
    using app n1 by (auto simp: byte_simps e3_def pair_off_def)
  show "escrow_of e' = (if b2_append v
      then (escrow_of e)\<lparr>ev_pairs := ev_pairs (escrow_of e) @
             [\<lparr>pv_payee = b2_payee v, pv_settled = 0, pv_cum = 0, pv_batch = 0\<rparr>]\<rparr>
      else escrow_of e)"
  proof (cases "b2_append v")
    case False
    with \<open>\<not> b2_append v \<Longrightarrow> e' = e\<close> show ?thesis by simp
  next
    case True
    note a = app [OF True]
    have old: "pair_of e' i = pair_of e i" if "i < ?n" for i
      using that a by (simp add: e3_def pair_of_hdr pair_of_elsewhere [of i ?n])
    have new: "pair_of e' ?n = \<lparr>pv_payee = b2_payee v, pv_settled = 0, pv_cum = 0, pv_batch = 0\<rparr>"
      using a pair_of_splice [of ?n] by (simp add: e3_def pair_of_hdr)
    have "map (pair_of e') [0..<?n + 1] = map (pair_of e) [0..<?n] @
        [\<lparr>pv_payee = b2_payee v, pv_settled = 0, pv_cum = 0, pv_batch = 0\<rparr>]"
      using old new by simp
    moreover have "e' ! 11 = e ! 11 + 1" using a by (simp add: byte_simps e3_def pair_off_def)
    moreover have "120 \<le> pair_off ?n" by (simp add: pair_off_def)
    ultimately show ?thesis
      using True a n1 by (simp add: escrow_of_def e3_def byte_simps)
  qed
qed

section \<open>Book writes\<close>

lemma bv_length [simp]: "length (bv_slots (book_of d)) = BOOK_SLOTS"
  by (simp add: book_of_def)

lemma bv_nth: "i < BOOK_SLOTS \<Longrightarrow> bv_slots (book_of d) ! i = (slice d (slot_off i) 32, get_u64 d (slot_off i + S_BALANCE))"
  by (simp add: book_of_def)

lemma slot_apart: "i \<noteq> j \<Longrightarrow> slot_off j + 40 \<le> slot_off i \<or> slot_off i + 40 \<le> slot_off j"
  unfolding slot_off_def by (cases i j rule: linorder_cases) auto

lemma book_of_slot_write:
  assumes "i < BOOK_SLOTS" and "slot_off i \<le> off" and "off + length bs \<le> slot_off i + 40"
    and "(slice (splice d off bs) (slot_off i) 32, get_u64 (splice d off bs) (slot_off i + S_BALANCE)) = p"
  shows "book_of (splice d off bs) = (book_of d)\<lparr>bv_slots := (bv_slots (book_of d))[i := p]\<rparr>"
proof -
  have off: "48 \<le> off" using assms(2) by (simp add: slot_off_def)
  let ?f = "\<lambda>d j. (slice d (slot_off j + S_OWNER) 32, get_u64 d (slot_off j + S_BALANCE))"
  have other: "?f (splice d off bs) j = ?f d j" if "j \<noteq> i" for j
    using slot_apart [OF that] assms(2,3) by (auto simp: byte_simps)
  have "map (?f (splice d off bs)) [0..<BOOK_SLOTS] = (map (?f d) [0..<BOOK_SLOTS])[i := p]"
    by (rule map_pair_update) (use assms(1,4) other in auto)
  with off show ?thesis by (simp add: book_of_def byte_simps)
qed

lemma book_of_balance:
  assumes "i < BOOK_SLOTS" and "slot_off i + 40 \<le> length d"
  shows "book_of (splice d (slot_off i + S_BALANCE) (u64_le v)) =
    (book_of d)\<lparr>bv_slots := (bv_slots (book_of d))[i := (slice d (slot_off i) 32, v)]\<rparr>"
  by (rule book_of_slot_write [OF assms(1)]) (use assms(2) in \<open>auto simp: byte_simps\<close>)

lemma book_of_owner:
  assumes "i < BOOK_SLOTS" and "slot_off i + 40 \<le> length d" and "length k = 32"
  shows "book_of (splice d (slot_off i) k) =
    (book_of d)\<lparr>bv_slots := (bv_slots (book_of d))[i := (k, get_u64 d (slot_off i + S_BALANCE))]\<rparr>"
  by (rule book_of_slot_write [OF assms(1)]) (use assms(2,3) in \<open>auto simp: byte_simps\<close>)

lemma book_of_used:
  "48 \<le> length d \<Longrightarrow> book_of (splice d K_USED (u16_le v)) = (book_of d)\<lparr>bv_used := v\<rparr>"
  by (simp add: book_of_def byte_simps slot_off_def)

end
