(* ===== verification/XsEvolve.thy ===== *)
theory XsEvolve
  imports XsView
begin

text \<open>
  How accounts of the program evolve. \<open>sane\<close> is the well-formedness invariant of every account
  (distinct payees, pending pairs counted, amounts of a channel consistent with its status);
  \<open>evolves\<close> is what an instruction may do to existing accounts: identities are fixed, settled
  amounts, vouchers and scopes only grow, statuses move forward. Each primitive write of the
  handlers is shown to respect both.
\<close>

section \<open>Invariants of one account\<close>

definition escrow_sane :: "escrow_view \<Rightarrow> bool" where
  "escrow_sane v \<longleftrightarrow> length (ev_pairs v) \<le> ev_capacity v \<and> distinct (map pv_payee (ev_pairs v)) \<and>
     (\<forall>p \<in> set (ev_pairs v). pv_payee p \<noteq> replicate 32 0 \<and> (pv_batch p \<noteq> 0 \<longrightarrow> pv_settled p < pv_cum p)) \<and>
     unat (ev_pending v) = length (filter (\<lambda>p. pv_batch p \<noteq> 0) (ev_pairs v))"

definition channel_sane :: "channel \<Rightarrow> bool" where
  "channel_sane c \<longleftrightarrow> c_payee c \<noteq> replicate 32 0 \<and>
     (c_status c = CH_OPEN \<and> c_best_cum c = 0 \<and> c_balance c = c_deposit c \<or>
      c_status c = CH_CLOSING \<and> c_best_cum c \<le> c_balance c \<and> c_balance c = c_deposit c \<or>
      c_status c = CH_CLOSED \<and> unat (c_balance c) + unat (c_best_cum c) = unat (c_deposit c))"

definition batch_sane :: "batch_hdr \<Rightarrow> bool" where
  "batch_sane h \<longleftrightarrow> b_batch_id h \<noteq> 0 \<and> b_outstanding h \<le> b_staged_count h \<and>
     (b_status h = B_STAGING \<and> b_held h = b_staged_total h \<and> b_outstanding h = b_staged_count h \<or>
      b_status h = B_COMMITTED \<and> b_held h = 0 \<and> b_staged_total h = b_total h \<or>
      b_status h = B_ABORTED)"

definition acct_sane :: "key \<Rightarrow> account \<Rightarrow> bool" where
  "acct_sane pid a \<longleftrightarrow>
     (is_escrow pid a \<longrightarrow> escrow_sane (escrow_of (data a))) \<and>
     (is_channel pid a \<longrightarrow> channel_sane (channel_of (data a))) \<and>
     (is_batch pid a \<longrightarrow> batch_sane (batch_of (data a)))"

definition sane :: "key \<Rightarrow> store \<Rightarrow> bool" where
  "sane pid s \<longleftrightarrow> (\<forall>k. acct_sane pid (s k))"

section \<open>Evolution of one account\<close>

definition ledger_next :: "ledger \<Rightarrow> ledger \<Rightarrow> bool" where
  "ledger_next l l' \<longleftrightarrow> l_next_scope l \<le> l_next_scope l' \<and>
     l' = l\<lparr>l_liabilities := l_liabilities l', l_next_scope := l_next_scope l'\<rparr>"

definition escrow_next :: "escrow_view \<Rightarrow> escrow_view \<Rightarrow> bool" where
  "escrow_next v v' \<longleftrightarrow> ev_ledger v' = ev_ledger v \<and> ev_payer v' = ev_payer v \<and> ev_scope v' = ev_scope v \<and>
     ev_bump v' = ev_bump v \<and> ev_capacity v \<le> ev_capacity v' \<and>
     length (ev_pairs v) \<le> length (ev_pairs v') \<and>
     (\<forall>i < length (ev_pairs v). pv_payee (ev_pairs v' ! i) = pv_payee (ev_pairs v ! i) \<and>
        pv_settled (ev_pairs v ! i) \<le> pv_settled (ev_pairs v' ! i))"

definition book_next :: "book_view \<Rightarrow> book_view \<Rightarrow> bool" where
  "book_next v v' \<longleftrightarrow> bv_ledger v' = bv_ledger v \<and> bv_page v' = bv_page v \<and> bv_bump v' = bv_bump v \<and>
     length (bv_slots v') = length (bv_slots v) \<and>
     (\<forall>i < length (bv_slots v). fst (bv_slots v ! i) \<noteq> replicate 32 0 \<longrightarrow> fst (bv_slots v' ! i) = fst (bv_slots v ! i))"

definition channel_next :: "channel \<Rightarrow> channel \<Rightarrow> bool" where
  "channel_next c c' \<longleftrightarrow>
     c' = c\<lparr>c_status := c_status c', c_balance := c_balance c', c_best_cum := c_best_cum c',
            c_dispute_end_slot := c_dispute_end_slot c'\<rparr> \<and>
     c_best_cum c \<le> c_best_cum c' \<and> c_status c \<le> c_status c' \<and> (c_status c = CH_CLOSED \<longrightarrow> c' = c)"

definition batch_next :: "batch_hdr \<Rightarrow> batch_hdr \<Rightarrow> bool" where
  "batch_next h h' \<longleftrightarrow> b_ledger h' = b_ledger h \<and> b_submitter h' = b_submitter h \<and> b_batch_id h' = b_batch_id h \<and>
     b_root h' = b_root h \<and> b_count h' = b_count h \<and> b_total h' = b_total h \<and>
     b_deadline_slot h' = b_deadline_slot h \<and> b_chunk_log h' = b_chunk_log h \<and>
     b_chunk_size h' = b_chunk_size h \<and> b_num_chunks h' = b_num_chunks h \<and>
     (b_status h \<noteq> B_STAGING \<longrightarrow> b_status h' = b_status h \<and> b_staged_count h' = b_staged_count h \<and>
        b_staged_total h' = b_staged_total h \<and> b_held h' \<le> b_held h \<and> b_outstanding h' \<le> b_outstanding h)"

definition kind_next :: "key \<Rightarrow> account \<Rightarrow> account \<Rightarrow> bool" where
  "kind_next pid a a' \<longleftrightarrow>
     (is_ledger pid a \<longrightarrow> is_ledger pid a' \<and> ledger_next (ledger_of (data a)) (ledger_of (data a'))) \<and>
     (is_escrow pid a \<longrightarrow> is_escrow pid a' \<and> escrow_next (escrow_of (data a)) (escrow_of (data a'))) \<and>
     (is_book pid a \<longrightarrow> is_book pid a' \<and> book_next (book_of (data a)) (book_of (data a'))) \<and>
     (is_channel pid a \<longrightarrow> is_channel pid a' \<and> channel_next (channel_of (data a)) (channel_of (data a'))) \<and>
     (is_batch pid a \<longrightarrow> is_batch pid a' \<and> batch_next (batch_of (data a)) (batch_of (data a')))"

text \<open>
  What only the instructions that create an entry or move money into or out of a ledger do to an
  account: new escrows, channels and ledgers, lower lamports or other liabilities of a ledger.
\<close>

definition no_entry :: "key \<Rightarrow> account \<Rightarrow> account \<Rightarrow> bool" where
  "no_entry pid a a' \<longleftrightarrow>
     (is_escrow pid a' \<longrightarrow> is_escrow pid a) \<and> (is_channel pid a' \<longrightarrow> is_channel pid a) \<and>
     (is_ledger pid a' \<longrightarrow> is_ledger pid a \<and> lamports a \<le> lamports a' \<and>
        l_liabilities (ledger_of (data a')) = l_liabilities (ledger_of (data a)))"

definition evolves :: "key set \<Rightarrow> key \<Rightarrow> store \<Rightarrow> store \<Rightarrow> bool" where
  "evolves A pid s s' \<longleftrightarrow> (\<forall>k. kind_next pid (s k) (s' k) \<and> (k \<notin> A \<longrightarrow> no_entry pid (s k) (s' k)))"

section \<open>Preorders\<close>

lemma ledger_next_refl [simp]: "ledger_next l l"
  by (simp add: ledger_next_def)

lemma ledger_next_trans: "ledger_next a b \<Longrightarrow> ledger_next b c \<Longrightarrow> ledger_next a c"
  unfolding ledger_next_def by (auto intro: order_trans elim: ssubst) (metis ledger.surjective ledger.update_convs(12,13))

lemma escrow_next_refl [simp]: "escrow_next v v"
  by (simp add: escrow_next_def)

lemma escrow_next_trans: "escrow_next a b \<Longrightarrow> escrow_next b c \<Longrightarrow> escrow_next a c"
  unfolding escrow_next_def by (auto intro: order_trans)

lemma book_next_refl [simp]: "book_next v v"
  by (simp add: book_next_def)

lemma book_next_trans: "book_next a b \<Longrightarrow> book_next b c \<Longrightarrow> book_next a c"
  unfolding book_next_def by auto

lemma channel_next_refl [simp]: "channel_next c c"
  by (simp add: channel_next_def)

lemma channel_next_trans: "channel_next a b \<Longrightarrow> channel_next b c \<Longrightarrow> channel_next a c"
  by (cases a, cases b, cases c) (auto simp: channel_next_def intro: order_trans)

lemma batch_next_refl [simp]: "batch_next h h"
  by (simp add: batch_next_def)

lemma batch_next_trans: "batch_next a b \<Longrightarrow> batch_next b c \<Longrightarrow> batch_next a c"
  unfolding batch_next_def by (auto intro: order_trans)

lemma kind_next_refl [simp]: "kind_next pid a a"
  by (simp add: kind_next_def)

lemma kind_next_trans: "kind_next pid a b \<Longrightarrow> kind_next pid b c \<Longrightarrow> kind_next pid a c"
  unfolding kind_next_def
  using ledger_next_trans escrow_next_trans book_next_trans channel_next_trans batch_next_trans by blast

lemma no_entry_refl [simp]: "no_entry pid a a"
  by (simp add: no_entry_def)

lemma no_entry_trans: "no_entry pid a b \<Longrightarrow> no_entry pid b c \<Longrightarrow> no_entry pid a c"
  unfolding no_entry_def by (auto intro: order_trans)

lemma evolves_refl [simp]: "evolves A pid s s"
  by (simp add: evolves_def)

lemma evolves_trans: "evolves A pid s1 s2 \<Longrightarrow> evolves A pid s2 s3 \<Longrightarrow> evolves A pid s1 s3"
  unfolding evolves_def using kind_next_trans no_entry_trans by blast

lemma evolves_mono: "evolves A pid s s' \<Longrightarrow> A \<subseteq> B \<Longrightarrow> evolves B pid s s'"
  unfolding evolves_def by blast

section \<open>Primitive writes\<close>

text \<open>A store changed at one key whose account keeps its kind.\<close>

lemma evolves_set_data:
  assumes "kind_next pid (s k) ((s k)\<lparr>data := e\<rparr>)" and "k \<notin> A \<Longrightarrow> no_entry pid (s k) ((s k)\<lparr>data := e\<rparr>)"
  shows "evolves A pid s (set_data s k e)"
  using assms by (simp add: evolves_def set_data_def)

lemma sane_set_data:
  assumes "sane pid s" and "acct_sane pid ((s k)\<lparr>data := e\<rparr>)"
  shows "sane pid (set_data s k e)"
  using assms by (simp add: sane_def set_data_def)

lemma kinds_exclusive:
  "is_escrow pid a \<Longrightarrow> \<not> is_ledger pid a \<and> \<not> is_book pid a \<and> \<not> is_channel pid a \<and> \<not> is_batch pid a"
  "is_book pid a \<Longrightarrow> \<not> is_ledger pid a \<and> \<not> is_escrow pid a \<and> \<not> is_channel pid a \<and> \<not> is_batch pid a"
  "is_channel pid a \<Longrightarrow> \<not> is_ledger pid a \<and> \<not> is_escrow pid a \<and> \<not> is_book pid a \<and> \<not> is_batch pid a"
  "is_batch pid a \<Longrightarrow> \<not> is_ledger pid a \<and> \<not> is_escrow pid a \<and> \<not> is_book pid a \<and> \<not> is_channel pid a"
  "is_ledger pid a \<Longrightarrow> \<not> is_escrow pid a \<and> \<not> is_book pid a \<and> \<not> is_channel pid a \<and> \<not> is_batch pid a"
  by (auto simp: is_ledger_def is_escrow_def is_book_def is_channel_def is_batch_def)

lemma hdr_same_kinds:
  assumes "hdr_same (data a) e"
  shows "is_ledger pid (a\<lparr>data := e\<rparr>) \<longleftrightarrow> is_ledger pid a" "is_escrow pid (a\<lparr>data := e\<rparr>) \<longleftrightarrow> is_escrow pid a"
    "is_book pid (a\<lparr>data := e\<rparr>) \<longleftrightarrow> is_book pid a" "is_channel pid (a\<lparr>data := e\<rparr>) \<longleftrightarrow> is_channel pid a"
    "is_batch pid (a\<lparr>data := e\<rparr>) \<longleftrightarrow> is_batch pid a"
  using assms
  by (auto simp: hdr_same_def is_ledger_def is_escrow_def is_book_def is_channel_def is_batch_def)

definition moves :: "key set \<Rightarrow> key \<Rightarrow> store \<Rightarrow> store \<Rightarrow> bool" where
  "moves A pid s s' \<longleftrightarrow> sane pid s' \<and> evolves A pid s s'"

lemma moves_trans: "moves A pid s1 s2 \<Longrightarrow> moves A pid s2 s3 \<Longrightarrow> moves A pid s1 s3"
  unfolding moves_def using evolves_trans by blast

lemma moves_refl: "sane pid s \<Longrightarrow> moves A pid s s"
  by (simp add: moves_def)

lemma moves_sane: "moves A pid s s' \<Longrightarrow> sane pid s'"
  by (simp add: moves_def)

lemma escrow_moves:
  assumes "sane pid s" and "is_escrow pid (s k)" and "hdr_same (data (s k)) e"
    and "escrow_next (escrow_of (data (s k))) (escrow_of e)" and "escrow_sane (escrow_of e)"
  shows "moves A pid s (set_data s k e)"
proof -
  note h = hdr_same_kinds [OF assms(3)] kinds_exclusive(1) [OF assms(2)]
  show ?thesis
    unfolding moves_def
    by (intro conjI sane_set_data [OF assms(1)] evolves_set_data)
      (use assms(2,4,5) h in \<open>auto simp: acct_sane_def kind_next_def no_entry_def\<close>)
qed

lemma book_moves:
  assumes "sane pid s" and "is_book pid (s k)" and "hdr_same (data (s k)) e"
    and "book_next (book_of (data (s k))) (book_of e)"
  shows "moves A pid s (set_data s k e)"
proof -
  note h = hdr_same_kinds [OF assms(3)] kinds_exclusive(2) [OF assms(2)]
  show ?thesis
    unfolding moves_def
    by (intro conjI sane_set_data [OF assms(1)] evolves_set_data)
      (use assms(2,4) h in \<open>auto simp: acct_sane_def kind_next_def no_entry_def\<close>)
qed

lemma channel_moves:
  assumes "sane pid s" and "is_channel pid (s (key acc))" and "channel_store c acc s = Inr s'"
    and "channel_next (channel_of (data (s (key acc)))) c" and "channel_sane c"
  shows "moves A pid s s'"
proof -
  from assms(3) obtain e where e: "channel_pack c (data (s (key acc))) = Inr e"
    and s': "s' = set_data s (key acc) e" by (auto simp: channel_store_Inr)
  note p = channel_codec.pack_disc [OF e] channel_codec.pack_of [OF e] channel_codec.pack_length [OF e]
  have ch: "is_channel pid ((s (key acc))\<lparr>data := e\<rparr>)" using assms(2) p by (simp add: is_channel_def)
  note h = kinds_exclusive(3) [OF assms(2)] kinds_exclusive(3) [OF ch]
  show ?thesis
    unfolding moves_def s'
    by (intro conjI sane_set_data [OF assms(1)] evolves_set_data)
      (use assms(2,4,5) ch h p in \<open>auto simp: acct_sane_def kind_next_def no_entry_def\<close>)
qed

lemma batch_moves:
  assumes "sane pid s" and "is_batch pid (s k)" and "length e = length (data (s k))" and "slice e 0 8 = DISC_BATCH"
    and "batch_next (batch_of (data (s k))) (batch_of e)" and "batch_sane (batch_of e)"
  shows "moves A pid s (set_data s k e)"
proof -
  have b: "is_batch pid ((s k)\<lparr>data := e\<rparr>)" using assms(2-4) by (simp add: is_batch_def)
  note h = kinds_exclusive(4) [OF assms(2)] kinds_exclusive(4) [OF b]
  show ?thesis
    unfolding moves_def
    by (intro conjI sane_set_data [OF assms(1)] evolves_set_data)
      (use assms(2,5,6) b h in \<open>auto simp: acct_sane_def kind_next_def no_entry_def\<close>)
qed

lemma ledger_moves:
  assumes "sane pid s" and "is_ledger pid (s (key acc))" and "ledger_store l acc s = Inr s'"
    and "ledger_next (ledger_of (data (s (key acc)))) l"
    and "key acc \<notin> A \<Longrightarrow> l_liabilities l = l_liabilities (ledger_of (data (s (key acc))))"
  shows "moves A pid s s'"
proof -
  from assms(3) obtain e where e: "ledger_pack l (data (s (key acc))) = Inr e"
    and s': "s' = set_data s (key acc) e" by (auto simp: ledger_store_Inr)
  note p = ledger_codec.pack_disc [OF e] ledger_codec.pack_of [OF e] ledger_codec.pack_length [OF e]
  have l: "is_ledger pid ((s (key acc))\<lparr>data := e\<rparr>)" using assms(2) p by (simp add: is_ledger_def)
  note h = kinds_exclusive(5) [OF assms(2)] kinds_exclusive(5) [OF l]
  show ?thesis
    unfolding moves_def s'
    by (intro conjI sane_set_data [OF assms(1)] evolves_set_data)
      (use assms(2,4,5) l h p in \<open>auto simp: acct_sane_def kind_next_def no_entry_def\<close>)
qed

section \<open>Code of other programs\<close>

lemma zeros_no_kind:
  assumes "\<forall>b \<in> set (data a). b = 0"
  shows "\<not> is_ledger pid a" "\<not> is_escrow pid a" "\<not> is_book pid a" "\<not> is_channel pid a" "\<not> is_batch pid a"
  using zero_not_DISC [OF assms]
  by (auto simp: is_ledger_def is_escrow_def is_book_def is_channel_def is_batch_def)

lemma foreign_moves:
  assumes "foreign_step pid s s'" and "sane pid s"
  shows "moves A pid s s'"
proof -
  have "acct_sane pid (s' k) \<and> kind_next pid (s k) (s' k) \<and> no_entry pid (s k) (s' k)" for k
  proof (cases "owner (s k) = pid")
    case True
    with assms(1) have f: "owner (s' k) = pid" "data (s' k) = data (s k)" "lamports (s k) \<le> lamports (s' k)"
      by (auto simp: foreign_step_def)
    then have "is_ledger pid (s' k) = is_ledger pid (s k)" "is_escrow pid (s' k) = is_escrow pid (s k)"
      "is_book pid (s' k) = is_book pid (s k)" "is_channel pid (s' k) = is_channel pid (s k)"
      "is_batch pid (s' k) = is_batch pid (s k)"
      using True by (simp_all add: is_ledger_def is_escrow_def is_book_def is_channel_def is_batch_def)
    with f assms(2) show ?thesis by (auto simp: sane_def acct_sane_def kind_next_def no_entry_def)
  next
    case False
    then have no: "\<not> is_ledger pid (s k)" "\<not> is_escrow pid (s k)" "\<not> is_book pid (s k)" "\<not> is_channel pid (s k)"
      "\<not> is_batch pid (s k)"
      by (simp_all add: is_ledger_def is_escrow_def is_book_def is_channel_def is_batch_def)
    have "\<not> is_ledger pid (s' k) \<and> \<not> is_escrow pid (s' k) \<and> \<not> is_book pid (s' k) \<and> \<not> is_channel pid (s' k) \<and>
      \<not> is_batch pid (s' k)"
    proof (cases "owner (s' k) = pid")
      case True
      with False assms(1) have "\<forall>b \<in> set (data (s' k)). b = 0" by (simp add: foreign_step_def)
      from zeros_no_kind [OF this, of pid] show ?thesis by blast
    next
      case False
      then show ?thesis by (simp add: is_ledger_def is_escrow_def is_book_def is_channel_def is_batch_def)
    qed
    with no show ?thesis by (simp add: acct_sane_def kind_next_def no_entry_def)
  qed
  then show ?thesis by (simp add: moves_def sane_def evolves_def)
qed

end
