(* ===== verification/XsEvolveEscrow.thy ===== *)
theory XsEvolveEscrow
  imports XsEvolve XsMoneyBatch
begin

text \<open>
  Evolution under the ledger, escrow and book handlers: each successful run is a sequence of the
  primitive writes of \<open>XsEvolve\<close>. \<open>step_ok\<close> is what an instruction as a whole guarantees: every
  account evolves or, when it may be closed, disappears.
\<close>

section \<open>Closing\<close>

text \<open>When an account of the program may be closed, at slot \<open>now\<close>.\<close>

definition closable :: "u64 \<Rightarrow> key \<Rightarrow> account \<Rightarrow> bool" where
  "closable t pid a \<longleftrightarrow> \<not> is_ledger pid a \<and> \<not> is_book pid a \<and>
     (is_escrow pid a \<longrightarrow> ev_balance (escrow_of (data a)) = 0 \<and> ev_pending (escrow_of (data a)) = 0 \<and>
        ev_open_channels (escrow_of (data a)) = 0) \<and>
     (is_channel pid a \<longrightarrow> c_status (channel_of (data a)) = CH_CLOSED \<or>
        c_status (channel_of (data a)) = CH_OPEN \<and> c_expiry_slot (channel_of (data a)) \<le> t) \<and>
     (is_batch pid a \<longrightarrow> b_status (batch_of (data a)) \<noteq> B_STAGING \<and> b_outstanding (batch_of (data a)) = 0 \<and>
        b_held (batch_of (data a)) = 0)"

definition step_ok :: "u64 \<Rightarrow> key set \<Rightarrow> key \<Rightarrow> store \<Rightarrow> store \<Rightarrow> bool" where
  "step_ok t A pid s s' \<longleftrightarrow> sane pid s' \<and>
     (\<forall>k. (kind_next pid (s k) (s' k) \<or> closable t pid (s k) \<and> owner (s' k) \<noteq> pid) \<and>
        (k \<notin> A \<longrightarrow> no_entry pid (s k) (s' k)))"

lemma moves_step_ok: "moves A pid s s' \<Longrightarrow> step_ok t A pid s s'"
  by (simp add: moves_def evolves_def step_ok_def)

lemma not_owned_no_kind:
  assumes "owner a \<noteq> pid"
  shows "\<not> is_ledger pid a" "\<not> is_escrow pid a" "\<not> is_book pid a" "\<not> is_channel pid a" "\<not> is_batch pid a"
  using assms by (simp_all add: is_ledger_def is_escrow_def is_book_def is_channel_def is_batch_def)

lemma lamports_moves:
  assumes "sane pid s" and "k \<in> A \<or> lamports (s k) \<le> v"
  shows "moves A pid s (set_lamports s k v)"
proof -
  have k: "is_ledger pid (set_lamports s k v j) = is_ledger pid (s j)" "is_escrow pid (set_lamports s k v j) = is_escrow pid (s j)"
    "is_book pid (set_lamports s k v j) = is_book pid (s j)" "is_channel pid (set_lamports s k v j) = is_channel pid (s j)"
    "is_batch pid (set_lamports s k v j) = is_batch pid (s j)" for j
    by (simp_all add: is_ledger_def is_escrow_def is_book_def is_channel_def is_batch_def)
  show ?thesis
    using assms by (auto simp: moves_def sane_def evolves_def acct_sane_def kind_next_def no_entry_def k set_lamports_apply)
qed

context solana
begin

lemma close_step_ok:
  assumes "moves A pid s s1" and "close_account acc dest s1 = Inr s'" and "closable t pid (s (key acc))"
  shows "step_ok t A pid s s'"
proof -
  from assms(2) [unfolded close_account_Inr] obtain v where
    av: "add (lamports (s1 (key dest))) (lamports (s1 (key acc))) = Inr v" and
    s': "s' = set_owner (set_data (set_lamports (set_lamports s1 (key dest) v) (key acc) 0) (key acc) [])
              (key acc) SYSTEM_ID" by blast
  have v: "lamports (s1 (key dest)) \<le> v" by (simp add: add_unat [OF av] word_le_nat_alt)
  have m: "moves A pid s (set_lamports s1 (key dest) v)"
    by (rule moves_trans [OF assms(1) lamports_moves]) (use moves_sane [OF assms(1)] v in auto)
  have other: "s' k = set_lamports s1 (key dest) v k" if "k \<noteq> key acc" for k
    using that by (simp add: s' set_owner_def set_data_def set_lamports_def)
  have acc: "owner (s' (key acc)) \<noteq> pid" using pid_not_system by (simp add: s' set_owner_apply)
  note no = not_owned_no_kind [OF acc]
  have "acct_sane pid (s' k)" for k
    using m no other [of k] by (cases "k = key acc") (auto simp: moves_def sane_def acct_sane_def)
  moreover have "(kind_next pid (s k) (s' k) \<or> closable t pid (s k) \<and> owner (s' k) \<noteq> pid) \<and>
        (k \<notin> A \<longrightarrow> no_entry pid (s k) (s' k))" for k
    using m no acc assms(3) other [of k]
    by (cases "k = key acc") (auto simp: moves_def evolves_def no_entry_def)
  ultimately show ?thesis by (simp add: step_ok_def sane_def)
qed

section \<open>Creation and payment\<close>

lemma creation_moves:
  assumes "sane pid s" and "\<forall>b \<in> set (data (s k)). b = 0" and "acct_sane pid ((s k)\<lparr>data := e\<rparr>)"
    and "k \<notin> A \<Longrightarrow> no_entry pid (s k) ((s k)\<lparr>data := e\<rparr>)"
  shows "moves A pid s (set_data s k e)"
  unfolding moves_def
  by (intro conjI sane_set_data [OF assms(1,3)] evolves_set_data assms(4))
    (use zeros_no_kind [OF assms(2), of pid] in \<open>simp add: kind_next_def\<close>)

lemma create_pda_moves:
  assumes "sane pid s" and "create_pda rt funder target system space own seeds s = Inr s'" and "space < 2 ^ 64"
  shows "moves A pid s s'" and "data (s' (key target)) = replicate space 0"
    and "\<not> is_ledger pid (s (key target))" and "k \<noteq> key target \<Longrightarrow> owner (s k) = owner (s' k) \<and> data (s' k) = data (s k)"
  using create_pda_effect [OF assms(2,3)] foreign_moves [of pid s s'] assms(1) pid_not_system
  by (auto simp: not_owned_no_kind same_data_def)

lemma pay_out_moves:
  assumes "sane pid s" and "pay_out rt l ledger_acc dest spl amount s = Inr s'"
    and "\<And>v mt tp. spl = Some (v, mt, tp) \<Longrightarrow> key tp \<noteq> pid"
  shows "moves {key ledger_acc} pid s s'"
proof (cases spl)
  case None
  with assms(2) obtain v w where v: "add (lamports (set_lamports s (key ledger_acc) v (key dest))) amount = Inr w"
    and s': "s' = set_lamports (set_lamports s (key ledger_acc) v) (key dest) w"
    by (auto simp: pay_out_def Let_def split: if_splits)
  have m: "moves {key ledger_acc} pid s (set_lamports s (key ledger_acc) v)"
    by (rule lamports_moves [OF assms(1)]) simp
  have "lamports (set_lamports s (key ledger_acc) v (key dest)) \<le> w"
    using add_unat [OF v] by (simp add: word_le_nat_alt)
  then show ?thesis
    unfolding s' by (intro moves_trans [OF m] lamports_moves moves_sane [OF m]) simp
next
  case (Some t)
  obtain v mt tp where t: "t = (v, mt, tp)" by (cases t)
  have "key tp \<noteq> pid" using assms(3) Some t by blast
  with Some t assms(2) have "foreign_step pid s s'"
    by (auto simp: pay_out_def transfer_checked_def dest!: cpi_foreign)
  then show ?thesis using assms(1) by (rule foreign_moves)
qed

end

section \<open>Deposits and withdrawals\<close>

lemma sane_escrow: "sane pid s \<Longrightarrow> is_escrow pid (s k) \<Longrightarrow> escrow_sane (escrow_of (data (s k)))"
  by (simp add: sane_def acct_sane_def)

lemma check_escrow_facts:
  assumes "check_escrow rt s acc pid = Inr (L, own)"
  shows "is_escrow pid (s (key acc))" "120 \<le> length (data (s (key acc)))" "own = ev_payer (escrow_of (data (s (key acc))))"
    "L = ev_ledger (escrow_of (data (s (key acc))))"
  using assms is_escrow_length by (auto simp: check_escrow_Inr escrow_of_def)

lemma check_book_facts:
  assumes "check_book rt s acc pid = Inr L"
  shows "is_book pid (s (key acc))" "length (data (s (key acc))) = BOOK_LEN"
  using assms by (auto simp: check_book_Inr is_book_def)

lemma escrow_header_ok:
  "escrow_next v (v\<lparr>ev_balance := b, ev_exit_amount := x, ev_exit_ready := r, ev_open_channels := c\<rparr>)"
  "escrow_sane v \<Longrightarrow> escrow_sane (v\<lparr>ev_balance := b, ev_exit_amount := x, ev_exit_ready := r, ev_open_channels := c\<rparr>)"
  by (simp_all add: escrow_next_def escrow_sane_def)

lemma escrow_ledger_moves:
  assumes "sane pid s" and "is_escrow pid (s k)" and "is_ledger pid (s (key acc))" and "hdr_same (data (s k)) e"
    and "escrow_next (escrow_of (data (s k))) (escrow_of e)" and "escrow_sane (escrow_of e)"
    and "ledger_store l acc (set_data s k e) = Inr s'" and "ledger_next (ledger_of (data (s (key acc)))) l"
  shows "moves {key acc} pid s s'"
proof -
  have m: "moves {key acc} pid s (set_data s k e)" by (rule escrow_moves) fact+
  have "key acc \<noteq> k" using assms(2,3) kinds_exclusive(5) by metis
  then show ?thesis
    by (intro moves_trans [OF m] ledger_moves [OF moves_sane [OF m] _ assms(7)]) (use assms(3,8) in auto)
qed

lemma book_ledger_moves:
  assumes "sane pid s" and "is_book pid (s k)" and "is_ledger pid (s (key acc))" and "hdr_same (data (s k)) e"
    and "book_next (book_of (data (s k))) (book_of e)"
    and "ledger_store l acc (set_data s k e) = Inr s'" and "ledger_next (ledger_of (data (s (key acc)))) l"
  shows "moves {key acc} pid s s'"
proof -
  have m: "moves {key acc} pid s (set_data s k e)" by (rule book_moves) fact+
  have "key acc \<noteq> k" using assms(2,3) kinds_exclusive(5) by metis
  then show ?thesis
    by (intro moves_trans [OF m] ledger_moves [OF moves_sane [OF m] _ assms(6)]) (use assms(3,7) in auto)
qed

lemma request_exit_moves:
  assumes "sane pid s" and "request_exit rt pid accounts d s = Inr s'"
  shows "moves A pid s s'"
  using assms(2)
proof (cases rule: request_exit_run)
  case (1 payer ledger_acc escrow_acc rest l ready)
  note e = check_escrow_facts [OF 1(5)]
  show ?thesis unfolding 1(7)
    by (intro escrow_moves [OF assms(1) e(1)] hdr_same_splice hdr_same_refl)
      (use e(2) sane_escrow [OF assms(1) e(1)] in \<open>simp_all add: escrow_header_writes escrow_next_def escrow_sane_def\<close>)
qed

lemma ledger_next_liabilities [simp]: "ledger_next l (l\<lparr>l_liabilities := x\<rparr>)"
  by (simp add: ledger_next_def)

lemma book_next_balance:
  assumes "fst (bv_slots v ! i) = fst p"
  shows "book_next v (v\<lparr>bv_slots := (bv_slots v)[i := p]\<rparr>)"
  using assms by (auto simp: book_next_def) (metis nth_list_update_eq nth_list_update_neq)

lemma book_balance_moves:
  assumes "sane pid s" and "book_in pid L (s k)" and "i < BOOK_SLOTS"
  shows "moves A pid s (set_data s k (splice (data (s k)) (slot_off i + S_BALANCE) (u64_le v)))"
    and "hdr_same (data (s k)) (splice (data (s k)) (slot_off i + S_BALANCE) (u64_le v))"
    and "book_next (book_of (data (s k))) (book_of (splice (data (s k)) (slot_off i + S_BALANCE) (u64_le v)))"
proof -
  show hdr: "hdr_same (data (s k)) (splice (data (s k)) (slot_off i + S_BALANCE) (u64_le v))"
    by (rule hdr_same_splice) (simp_all add: slot_off_def)
  have "slot_off i + 40 \<le> length (data (s k))"
    using book_in_facts(4) [OF assms(2)] assms(3) by (simp add: slot_off_def)
  then show nx: "book_next (book_of (data (s k))) (book_of (splice (data (s k)) (slot_off i + S_BALANCE) (u64_le v)))"
    by (subst book_of_balance [OF assms(3)]) (auto intro!: book_next_balance simp: bv_nth [OF assms(3)])
  show "moves A pid s (set_data s k (splice (data (s k)) (slot_off i + S_BALANCE) (u64_le v)))"
    by (rule book_moves [OF assms(1) _ hdr nx]) (use assms(2) in \<open>simp add: book_in_def\<close>)
qed

context solana
begin

lemma deposit_moves:
  assumes "sane pid s" and "books_ok pid s" and "deposit rt pid accounts d s = Inr s'"
  shows "moves {key (accounts ! 1)} pid s s'"
  using assms(3)
proof (cases rule: deposit_run)
  case (1 depositor ledger_acc escrow_acc rest payer l c infos s1 e x dl v)
  note run = 1
  let ?E = "key escrow_acc" and ?L = "key ledger_acc"
  note led = run(5) [unfolded ledger_load_Inr]
  have "cpi_program c \<noteq> pid" using run(8) books_okD(3) [OF assms(2)] led pid_not_system by (auto split: if_splits)
  then have f: "foreign_step pid s s1" by (rule cpi_foreign [OF run(7)])
  have m: "moves {?L} pid s s1" using f assms(1) by (rule foreign_moves)
  note e = check_escrow_facts [OF run(6)]
  have E: "is_escrow pid (s1 ?E)" "data (s1 ?E) = data (s ?E)"
    using quiet_same(1) [OF foreign_quiet [OF f] check_escrow_in [OF run(6)]] by (auto simp: escrow_in_def)
  have L: "is_ledger pid (s1 ?L)" "data (s1 ?L) = data (s ?L)"
    using quiet_same(3) [OF foreign_quiet [OF f]] led by auto
  have "moves {?L} pid s1 s'"
    by (rule escrow_ledger_moves [OF moves_sane [OF m] E(1) L(1) _ _ _ run(12)])
      (use e(2) E sane_escrow [OF moves_sane [OF m] E(1)] L(2) led run(11) in
        \<open>auto simp: run(10) escrow_header_writes escrow_next_def escrow_sane_def liabilities_Inr hdr_same_splice\<close>)
  with m show ?thesis by (simp add: run(1) moves_trans)
qed

lemma withdraw_escrow_moves:
  assumes "sane pid s" and "books_ok pid s" and "withdraw_escrow rt pid accounts d s = Inr s'"
  shows "moves {key (accounts ! 1)} pid s s'"
  using assms(3)
proof (cases rule: withdraw_escrow_run)
  case (1 payer ledger_acc escrow_acc dest rest l spl amount e dl)
  note run = 1
  let ?E = "key escrow_acc" and ?L = "key ledger_acc"
  note led = run(3) [unfolded ledger_load_Inr]
  have tp: "l_token_program l \<noteq> pid" using books_okD(3) [OF assms(2)] led by auto
  note c = check_escrow_facts [OF run(4)]
  have hdr: "hdr_same (data (s ?E)) e" unfolding run(10) by (intro hdr_same_splice hdr_same_refl) simp_all
  have view: "escrow_next (escrow_of (data (s ?E))) (escrow_of e)" "escrow_sane (escrow_of e)"
    using c(2) sane_escrow [OF assms(1) c(1)]
    by (simp_all add: run(10) escrow_header_writes escrow_next_def escrow_sane_def)
  show ?thesis
  proof (cases "amount = 0")
    case True
    with run(11) have "s' = set_data s ?E e" by auto
    then show ?thesis using escrow_moves [OF assms(1) c(1) hdr view] by simp
  next
    case False
    with run(11) obtain s1 where st: "liabilities_sub l amount = Inr dl"
      "ledger_store dl ledger_acc (set_data s ?E e) = Inr s1" and po: "pay_out rt dl ledger_acc dest spl amount s1 = Inr s'"
      by auto
    have m: "moves {?L} pid s s1"
      by (rule escrow_ledger_moves [OF assms(1) c(1) _ hdr view st(2)])
        (use led st(1) in \<open>auto simp: liabilities_Inr\<close>)
    have "moves {?L} pid s1 s'" by (rule pay_out_moves [OF moves_sane [OF m] po]) (use run(6) tp in auto)
    with m show ?thesis by (simp add: run(1) moves_trans)
  qed
qed

lemma withdraw_payee_moves:
  assumes "sane pid s" and "books_ok pid s" and "withdraw_payee rt pid accounts d s = Inr s'"
  shows "moves {key (accounts ! 1)} pid s s'"
  using assms(3)
proof (cases rule: withdraw_payee_run)
  case (1 payee ledger_acc book_acc dest rest l spl amount slot b dl s1)
  note run = 1
  let ?L = "key ledger_acc"
  note led = run(8) [unfolded ledger_load_Inr]
  have tp: "l_token_program l \<noteq> pid" using books_okD(3) [OF assms(2)] led by auto
  note bk = check_book_in [OF run(9)]
  have m: "moves {?L} pid s s1"
    by (rule book_ledger_moves [OF assms(1) _ _ _ _ run(16)])
      (use led run(15) bk book_balance_moves(2,3) [OF assms(1) bk run(5)]
        in \<open>auto simp: liabilities_Inr run(14) book_in_def\<close>)
  have "moves {?L} pid s1 s'" by (rule pay_out_moves [OF moves_sane [OF m] run(17)]) (use run(11) tp in auto)
  with m show ?thesis by (simp add: run(1) moves_trans)
qed

end

end
