(* ===== verification/XsEvolveCreate.thy ===== *)
theory XsEvolveCreate
  imports XsEvolveEscrow
begin

text \<open>
  Evolution under the handlers that create, grow, register in and close accounts of ledgers,
  escrows and books.
\<close>

section \<open>Fresh accounts\<close>

lemma fresh_nth:
  assumes "wr_all ws (replicate n 0) = Inr e" and "list_all (apart i 1) ws" and "i < n"
  shows "e ! i = 0"
proof -
  have "length e = n" using wr_all_length [OF assms(1)] by simp
  then have "e ! i = slice e i 1 ! 0" using assms(3) by (simp add: nth_as_slice)
  also have "\<dots> = 0" using wr_all_other [OF assms(1,2)] assms(3) by (simp add: slice_def)
  finally show ?thesis .
qed

lemma acct_sane_kind:
  "slice (data a) 0 8 = DISC_ESCROW \<Longrightarrow> escrow_sane (escrow_of (data a)) \<Longrightarrow> acct_sane pid a"
  "slice (data a) 0 8 = DISC_CHANNEL \<Longrightarrow> channel_sane (channel_of (data a)) \<Longrightarrow> acct_sane pid a"
  "slice (data a) 0 8 = DISC_BATCH \<Longrightarrow> batch_sane (batch_of (data a)) \<Longrightarrow> acct_sane pid a"
  "slice (data a) 0 8 = DISC_BOOK \<Longrightarrow> acct_sane pid a"
  "slice (data a) 0 8 = DISC_LEDGER \<Longrightarrow> acct_sane pid a"
  by (auto simp: acct_sane_def is_escrow_def is_channel_def is_batch_def)

lemma new_escrow:
  assumes "wr_all [(0, 8, DISC_ESCROW), (E_BUMP, 1, [bump]), (E_CAPACITY, 1, [cap]),
       (E_LEDGER, 32, led), (E_PAYER, 32, payer), (E_SCOPE, 8, u64_le sc)] (replicate n 0) = Inr e" and "120 \<le> n"
  shows "slice e 0 8 = DISC_ESCROW" and "escrow_sane (escrow_of e)" and "length e = n" and "e ! E_CAPACITY = cap"
    and "escrow_of e = \<lparr>ev_bump = bump, ev_capacity = unat cap, ev_pending = 0, ev_ledger = led, ev_payer = payer,
      ev_scope = sc, ev_balance = 0, ev_exit_amount = 0, ev_exit_ready = 0, ev_open_channels = 0, ev_pairs = []\<rparr>"
proof -
  have pc: "e ! E_PAIR_COUNT = 0" by (rule fresh_nth [OF assms(1)]) (use assms(2) in \<open>simp_all add: write_simps\<close>)
  have z: "slice e off k = slice (replicate n 0) off k"
    if "list_all (apart off k) [(0, 8, DISC_ESCROW), (E_BUMP, 1, [bump]), (E_CAPACITY, 1, [cap]),
       (E_LEDGER, 32, led), (E_PAYER, 32, payer), (E_SCOPE, 8, u64_le sc)]" for off k
    by (rule wr_all_other [OF assms(1) that])
  have zz: "get_u16 e E_PENDING_COUNT = 0" "get_u64 e E_BALANCE = 0" "get_u64 e E_EXIT_AMOUNT = 0"
    "get_u64 e E_EXIT_READY = 0" "get_u32 e E_OPEN_CHANNELS = 0"
    by (simp_all add: get_u16_def get_u64_def get_u32_def z write_simps) (simp_all add: slice_def)
  have d: "disjoint_writes [(0, 8, DISC_ESCROW), (E_BUMP, 1, [bump]), (E_CAPACITY, 1, [cap]),
       (E_LEDGER, 32, led), (E_PAYER, 32, payer), (E_SCOPE, 8, u64_le sc)]" by (simp add: write_simps)
  note r = wr_all_read [OF assms(1) d] wr_all_nth [OF assms(1) d] wr_all_u64 [OF assms(1) d]
  show "slice e 0 8 = DISC_ESCROW" and cap: "e ! E_CAPACITY = cap" by (rule r; simp)+
  have rest: "e ! E_BUMP = bump" "slice e E_LEDGER 32 = led" "slice e E_PAYER 32 = payer" "get_u64 e E_SCOPE = sc"
    by (rule r; simp)+
  show view: "escrow_of e = \<lparr>ev_bump = bump, ev_capacity = unat cap, ev_pending = 0, ev_ledger = led, ev_payer = payer,
      ev_scope = sc, ev_balance = 0, ev_exit_amount = 0, ev_exit_ready = 0, ev_open_channels = 0, ev_pairs = []\<rparr>"
    using pc zz cap rest by (simp add: escrow_of_def)
  show "escrow_sane (escrow_of e)" by (simp add: view escrow_sane_def)
  show "length e = n" using wr_all_length [OF assms(1)] by simp
qed

context solana
begin

lemma open_escrow_moves:
  assumes "sane pid s" and "open_escrow rt pid accounts d s = Inr s'"
  shows "moves {key (accounts ! 2)} pid s s'"
  using assms(2)
proof (cases rule: open_escrow_run)
  case (1 payer ledger_acc escrow_acc system rest l bump s1 nx e)
  note run = 1
  let ?E = "key escrow_acc" and ?L = "key ledger_acc"
  note led = run(5) [unfolded ledger_load_Inr]
  have sp: "escrow_len (unat (d ! 0)) < 2 ^ 64" using unat_u8_less [of "d ! 0"] by (simp add: escrow_len_def)
  note c = create_pda_moves [OF assms(1) run(8) sp]
  have e: "slice e 0 8 = DISC_ESCROW" "escrow_sane (escrow_of e)"
    by (rule new_escrow [OF run(10) [unfolded c(2)]], simp add: escrow_len_def)+
  have m: "moves {?E} pid s1 (set_data s1 ?E e)"
    by (rule creation_moves [OF moves_sane [OF c(1)]]) (use e in \<open>auto simp: c(2) intro: acct_sane_kind(1)\<close>)
  have LE: "?L \<noteq> ?E" using c(3) led by auto
  then have "is_ledger pid (s1 ?L)" "data (s1 ?L) = data (s ?L)" using led c(4) by (auto simp: is_ledger_def)
  moreover have "l_next_scope l \<le> nx" using add_unat [OF run(9)] by (simp add: word_le_nat_alt)
  ultimately have "moves {?E} pid (set_data s1 ?E e) s'"
    by (intro ledger_moves [OF moves_sane [OF m] _ run(11)]) (use LE led in \<open>auto simp: ledger_next_def\<close>)
  from moves_trans [OF moves_trans [OF c(1) m] this] show ?thesis by (simp add: run(1))
qed

lemma create_book_moves:
  assumes "sane pid s" and "create_book rt pid accounts d s = Inr s'"
  shows "moves A pid s s'"
  using assms(2)
proof (cases rule: create_book_run)
  case (1 funder ledger_acc book_acc system rest l bump s1 b)
  note run = 1
  note c = create_pda_moves [OF assms(1) run(5)]
  have "slice b 0 8 = DISC_BOOK" by (rule wr_all_read [OF run(6)]; simp add: write_simps)
  then have "moves A pid s1 s'"
    unfolding run(7)
    by (intro creation_moves [OF moves_sane [OF c(1)]])
      (auto simp: c(2) no_entry_def is_escrow_def is_channel_def is_ledger_def intro: acct_sane_kind(4))
  with c(1) show ?thesis by (auto intro: moves_trans)
qed

lemma init_ledger_moves:
  assumes "sane pid s" and "init_ledger rt pid accounts d s = Inr s'"
    and "TOKEN_ID \<noteq> pid" and "TOKEN_2022_ID \<noteq> pid"
  shows "moves {key (accounts ! 1)} pid s s'"
  using assms(2)
proof (cases rule: init_ledger_run)
  case (1 funder ledger_acc it it' mint_key tp_key mint_acc vault_acc dec system bump sd s1 s2 vk vb l)
  note run = 1
  let ?L = "key ledger_acc"
  have tp: "\<forall>v tp. vault_acc = Some (v, tp) \<longrightarrow> key tp \<noteq> pid"
    using run(2) by (cases rule: init_ledger_kind_run)
      (use assms(3,4) pid_not_system in \<open>auto simp: SYSTEM_ID_def\<close>)
  note c = create_pda_moves [OF assms(1) run(5)]
  have f: "foreign_step pid s1 s2" by (rule init_vault_foreign [OF run(6)]) (use tp in auto)
  have m2: "moves {?L} pid s1 s2" using f moves_sane [OF c(1)] by (rule foreign_moves) simp
  have "owner (s1 ?L) = pid" using create_pda_effect [OF run(5)] by simp
  then have zero: "data (s2 ?L) = replicate LEDGER_LEN 0"
    using c(2) f by (simp add: foreign_step_def)
  from run(8) obtain e where e: "ledger_pack l (data (s2 ?L)) = Inr e" and s': "s' = set_data s2 ?L e"
    by (auto simp: ledger_store_Inr)
  have "moves {?L} pid s2 s'"
    unfolding s' by (rule creation_moves [OF moves_sane [OF m2]])
      (use ledger_codec.pack_disc [OF e] zero in \<open>auto intro: acct_sane_kind(5)\<close>)
  from moves_trans [OF moves_trans [OF c(1) m2] this] show ?thesis by (simp add: run(1))
qed

lemma close_escrow_step:
  assumes "sane pid s" and "close_escrow rt pid accounts d s = Inr s'"
  shows "step_ok t A pid s s'"
  using assms(2)
proof (cases rule: close_escrow_run)
  case (1 payer escrow_acc rest L)
  note c = check_escrow_facts [OF 1(3)]
  show ?thesis
    by (rule close_step_ok [OF moves_refl [OF assms(1)] 1(7)])
      (use 1(4-6) c kinds_exclusive(1) [OF c(1)] in \<open>auto simp: closable_def escrow_of_def\<close>)
qed

end

lemma register_payee_moves:
  assumes "sane pid s" and "register_payee rt pid accounts d s = Inr s'"
  shows "moves A pid s s'"
  using assms(2)
proof (cases rule: register_payee_run)
  case (1 payee book_acc rest L slot b)
  note run = 1
  note c = check_book_facts [OF run(6)]
  let ?d = "data (s (key book_acc))"
  have fits: "slot_off slot + 40 \<le> length ?d" using c(2) run(4) by (simp add: slot_off_def)
  have b: "book_of b = (book_of ?d)\<lparr>bv_slots := (bv_slots (book_of ?d))[slot := (key payee, get_u64 ?d (slot_off slot + S_BALANCE))]\<rparr>"
    unfolding run(9) by (rule book_of_owner [OF run(4) fits run(8)])
  have old: "fst (bv_slots (book_of ?d) ! slot) = replicate 32 0" using run(7) bv_nth [OF run(4)] by simp
  have hdr: "hdr_same ?d (splice b K_USED (u16_le (get_u16 b K_USED + 1)))"
    using c(1) by (simp add: run(9) hdr_same_def byte_simps slot_off_def is_book_def)
  have "48 \<le> length b" using c(2) by (simp add: run(9))
  then have "book_next (book_of ?d) (book_of (splice b K_USED (u16_le (get_u16 b K_USED + 1))))"
    unfolding book_of_used [OF \<open>48 \<le> length b\<close>] b using old
    by (simp add: book_next_def) (metis nth_list_update_neq)
  then show ?thesis unfolding run(10) by (rule book_moves [OF assms(1) c(1) hdr])
qed

section \<open>Growth\<close>

lemma grown_pairs:
  assumes "length d = escrow_len cap" and "n \<le> cap"
  shows "map (pair_of (d @ zs)) [0..<n] = map (pair_of d) [0..<n]"
proof (rule map_cong [OF refl])
  fix i
  assume "i \<in> set [0..<n]"
  then have "i * 56 + 56 \<le> cap * 56" using assms(2) by auto
  then have "pair_off i + 56 \<le> length d" using assms(1) by (simp add: pair_off_def escrow_len_def)
  then show "pair_of (d @ zs) i = pair_of d i"
    by (simp add: pair_of_def get_u64_def slice_def)
qed

context solana
begin

lemma grow_escrow_moves:
  assumes "sane pid s" and "grow_escrow rt pid accounts d s = Inr s'"
  shows "moves A pid s s'"
  using assms(2)
proof (cases rule: grow_escrow_run)
  case (1 payer escrow_acc system rest L s1 old)
  note run = 1
  let ?E = "key escrow_acc" and ?c = "unat (d ! 0)"
  let ?g = "old @ replicate (escrow_len ?c - length old) 0"
  let ?e = "splice ?g E_CAPACITY [of_nat ?c]"
  have f: "foreign_step pid s s1" using run(7) system_foreign foreign_step_refl by auto
  have m: "moves A pid s s1" using f assms(1) by (rule foreign_moves)
  have E: "is_escrow pid (s1 ?E)" "old = data (s ?E)"
    using quiet_same(1) [OF foreign_quiet [OF f] check_escrow_in [OF run(4)]] run(8) by (auto simp: escrow_in_def)
  then have old: "owner (s1 ?E) = pid" "slice old 0 8 = DISC_ESCROW" "length old = escrow_len (unat (old ! E_CAPACITY))"
    using run(8) by (auto simp: is_escrow_def)
  have len: "120 \<le> length old" "length old \<le> escrow_len ?c"
    using old(3) run(5) E(2) by (simp_all add: escrow_len_def)
  have sane: "escrow_sane (escrow_of old)" using sane_escrow [OF moves_sane [OF m] E(1)] run(8) by simp
  then have "unat (old ! E_PAIR_COUNT) \<le> unat (old ! E_CAPACITY)" by (simp add: escrow_sane_def escrow_of_def)
  then have view: "escrow_of ?e = (escrow_of old)\<lparr>ev_capacity := ?c\<rparr>"
    using escrow_of_capacity [OF len(1)] grown_pairs [OF old(3)] by (simp add: escrow_of_def)
  have cap: "?e ! E_CAPACITY = d ! 0" using len by (simp add: byte_simps)
  have esc: "is_escrow pid ((s1 ?E)\<lparr>data := ?e\<rparr>)"
    using old len cap by (simp add: is_escrow_def byte_simps) (simp add: slice_def)
  have ok: "escrow_next (escrow_of old) (escrow_of ?e)" "escrow_sane (escrow_of ?e)"
    using sane run(5) E(2) unfolding view by (auto simp: escrow_next_def escrow_sane_def escrow_of_def)
  note h = kinds_exclusive(1) [OF E(1)] kinds_exclusive(1) [OF esc]
  have "moves A pid s1 (set_data s1 ?E ?e)"
    unfolding moves_def
    by (intro conjI sane_set_data [OF moves_sane [OF m]] evolves_set_data)
      (use E(1) esc ok h run(8) in \<open>auto simp: acct_sane_def kind_next_def no_entry_def\<close>)
  with m show ?thesis unfolding run(9) by (rule moves_trans)
qed

end

end
