(* ===== verification/XsEvolveSettle.thy ===== *)
theory XsEvolveSettle
  imports XsEvolveCreate
begin

text \<open>
  Evolution under voucher settlement and the staging of vouchers: what a verified voucher says of
  the pair it names, and the effect of applying it on the escrow and the payee slot.
\<close>

section \<open>Updates of one pair\<close>

lemma length_filter_update:
  "i < length xs \<Longrightarrow> length (filter P (xs[i := x])) + (if P (xs ! i) then 1 else 0) =
     length (filter P xs) + (if P x then 1 else 0)"
proof (induction xs arbitrary: i)
  case Nil
  then show ?case by simp
next
  case (Cons y ys)
  then show ?case by (cases i) auto
qed

lemma escrow_sane_pair:
  assumes "escrow_sane v" and "i < length (ev_pairs v)" and "pv_payee p = pv_payee (ev_pairs v ! i)"
    and "pv_batch p \<noteq> 0 \<longrightarrow> pv_settled p < pv_cum p"
    and "unat pend + (if pv_batch (ev_pairs v ! i) \<noteq> 0 then 1 else 0) =
      unat (ev_pending v) + (if pv_batch p \<noteq> 0 then 1 else 0)"
  shows "escrow_sane (v\<lparr>ev_pairs := (ev_pairs v)[i := p], ev_balance := b, ev_pending := pend\<rparr>)"
proof -
  have "map pv_payee ((ev_pairs v)[i := p]) = map pv_payee (ev_pairs v)"
    using assms(2,3) by (simp add: map_update) (metis list_update_id map_update)
  moreover have "unat pend = length (filter (\<lambda>p. pv_batch p \<noteq> 0) ((ev_pairs v)[i := p]))"
    using length_filter_update [OF assms(2), of "\<lambda>p. pv_batch p \<noteq> 0" p] assms(1,5)
    by (simp add: escrow_sane_def split: if_splits)
  moreover have "pv_payee p \<noteq> replicate 32 0"
    using assms(1-3) nth_mem by (fastforce simp: escrow_sane_def)
  moreover have "set ((ev_pairs v)[i := p]) \<subseteq> insert p (set (ev_pairs v))" by (rule set_update_subset_insert)
  ultimately show ?thesis using assms(1,4) unfolding escrow_sane_def by auto
qed

lemma escrow_sane_append:
  assumes "escrow_sane v" and "length (ev_pairs v) < ev_capacity v" and "k \<notin> set (map pv_payee (ev_pairs v))"
    and "k \<noteq> replicate 32 0"
  shows "escrow_sane (v\<lparr>ev_pairs := ev_pairs v @ [\<lparr>pv_payee = k, pv_settled = 0, pv_cum = 0, pv_batch = 0\<rparr>]\<rparr>)"
  using assms by (auto simp: escrow_sane_def)

lemma escrow_next_pair:
  assumes "escrow_next v w" and "i < length (ev_pairs w)" and "pv_payee p = pv_payee (ev_pairs w ! i)"
    and "pv_settled (ev_pairs w ! i) \<le> pv_settled p"
  shows "escrow_next v (w\<lparr>ev_pairs := (ev_pairs w)[i := p], ev_balance := b, ev_pending := c\<rparr>)"
  using assms by (auto simp: escrow_next_def nth_list_update)

section \<open>The pair a voucher names\<close>

lemma any_res_False: "any_res f xs = Inr False \<Longrightarrow> x \<in> set xs \<Longrightarrow> f x = Inr False"
  by (induction xs) (auto split: if_splits)

lemma pair_exists_False:
  assumes "pair_exists e n payee = Inr False" and "i < n"
  shows "slice e (pair_off i) 32 \<noteq> payee"
proof
  assume eq: "slice e (pair_off i) 32 = payee"
  have len: "8 \<le> length payee" and run: "any_res (\<lambda>i. let off = pair_off i in
        bindE (rd_u64 e off) (\<lambda>h. if h \<noteq> get_u64 payee 0 then Inr False
          else bindE (rd_slice e off 32) (\<lambda>k. Inr (k = payee)))) [0..<n] = Inr False"
    using assms(1) by (auto simp: pair_exists_def)
  have "slice payee 0 8 = slice e (pair_off i) 8"
    unfolding eq [symmetric] by (simp add: slice_def min_def)
  then have "get_u64 payee 0 = get_u64 e (pair_off i)" by (simp add: get_u64_def)
  then show False
    using any_res_False [OF run, of i] assms(2) eq by (auto simp: Let_def split: if_splits)
qed

lemma find_pair_view:
  assumes "find_pair e pi payee = Inr (app, settled)"
  shows "app \<Longrightarrow> pi = unat (e ! E_PAIR_COUNT) \<and> unat (e ! E_PAIR_COUNT) < unat (e ! E_CAPACITY) \<and> settled = 0 \<and>
      payee \<notin> set (map pv_payee (ev_pairs (escrow_of e)))"
    and "\<not> app \<Longrightarrow> pi < unat (e ! E_PAIR_COUNT) \<and> pv_payee (pair_of e pi) = payee \<and>
      pv_batch (pair_of e pi) = 0 \<and> pv_settled (pair_of e pi) = settled"
proof -
  show "app \<Longrightarrow> pi = unat (e ! E_PAIR_COUNT) \<and> unat (e ! E_PAIR_COUNT) < unat (e ! E_CAPACITY) \<and> settled = 0 \<and>
      payee \<notin> set (map pv_payee (ev_pairs (escrow_of e)))"
  proof -
    assume app
    with assms have f: "pi = unat (e ! E_PAIR_COUNT)" "unat (e ! E_PAIR_COUNT) < unat (e ! E_CAPACITY)"
      "settled = 0" "pair_exists e (unat (e ! E_PAIR_COUNT)) payee = Inr False"
      by (auto simp: find_pair_def Let_def split: if_splits)
    from pair_exists_False [OF f(4)] have "payee \<notin> set (map pv_payee (ev_pairs (escrow_of e)))"
      by (force simp: escrow_of_def pair_of_def)
    with f show ?thesis by simp
  qed
  show "\<not> app \<Longrightarrow> pi < unat (e ! E_PAIR_COUNT) \<and> pv_payee (pair_of e pi) = payee \<and>
      pv_batch (pair_of e pi) = 0 \<and> pv_settled (pair_of e pi) = settled"
    using assms by (auto simp: find_pair_def Let_def pair_of_def split: if_splits)
qed

text \<open>After its pair is entered, a verified voucher names a pair of its payee that is not pending.\<close>

lemma voucher_pair:
  assumes "find_pair d (b2_pair_ix v) (b2_payee v) = Inr (b2_append v, settled)"
    and "pair_entry d v = Inr (e, off)" and "escrow_sane (escrow_of d)" and "b2_payee v \<noteq> replicate 32 0"
  shows "off = pair_off (b2_pair_ix v)" and "length e = length d" and "hdr_same d e"
    and "b2_pair_ix v < unat (e ! E_PAIR_COUNT)"
    and "escrow_next (escrow_of d) (escrow_of e)" and "escrow_sane (escrow_of e)"
    and "pv_settled (pair_of e (b2_pair_ix v)) = settled" and "pv_batch (pair_of e (b2_pair_ix v)) = 0"
    and "pv_payee (pair_of e (b2_pair_ix v)) = b2_payee v"
    and "ev_pending (escrow_of e) = ev_pending (escrow_of d)"
proof -
  let ?i = "b2_pair_ix v"
  note fp = find_pair_view [OF assms(1)]
  have small: "unat (d ! E_PAIR_COUNT) < 255"
    if "b2_append v" using fp(1) [OF that] unat_u8_less [of "d ! E_CAPACITY"] by linarith
  show "off = pair_off ?i" and len: "length e = length d" and "hdr_same d e"
    using pair_entry_frame [OF assms(2)] by (auto simp: hdr_same_def)
  show "?i < unat (e ! E_PAIR_COUNT)" "escrow_next (escrow_of d) (escrow_of e)" "escrow_sane (escrow_of e)"
    "pv_settled (pair_of e ?i) = settled" "pv_batch (pair_of e ?i) = 0" "pv_payee (pair_of e ?i) = b2_payee v"
    "ev_pending (escrow_of e) = ev_pending (escrow_of d)"
  proof -
    consider (new) "b2_append v" | (old) "\<not> b2_append v" "e = d"
      using assms(2) by (cases "b2_append v") (auto simp: pair_entry_def)
    then have "?i < unat (e ! E_PAIR_COUNT) \<and> escrow_next (escrow_of d) (escrow_of e) \<and> escrow_sane (escrow_of e) \<and>
      pv_settled (pair_of e ?i) = settled \<and> pv_batch (pair_of e ?i) = 0 \<and> pv_payee (pair_of e ?i) = b2_payee v \<and>
      ev_pending (escrow_of e) = ev_pending (escrow_of d)"
    proof cases
      case new
      note f = fp(1) [OF new]
      note p = pair_entry_view [OF assms(2) small [OF new]]
      have ix: "?i < unat (e ! E_PAIR_COUNT)" and n: "?i = length (ev_pairs (escrow_of d))" using p(4) new f by auto
      have view: "escrow_of e = (escrow_of d)\<lparr>ev_pairs := ev_pairs (escrow_of d) @
             [\<lparr>pv_payee = b2_payee v, pv_settled = 0, pv_cum = 0, pv_batch = 0\<rparr>]\<rparr>" using p(3) new f by simp
      have "pair_of e ?i = ev_pairs (escrow_of e) ! ?i" using ev_nth [OF ix] by simp
      also have "\<dots> = \<lparr>pv_payee = b2_payee v, pv_settled = 0, pv_cum = 0, pv_batch = 0\<rparr>"
        unfolding view using n by (simp add: nth_append)
      finally have "pair_of e ?i = \<lparr>pv_payee = b2_payee v, pv_settled = 0, pv_cum = 0, pv_batch = 0\<rparr>" .
      moreover have "escrow_sane (escrow_of e)"
        unfolding view by (rule escrow_sane_append [OF assms(3)]) (use f assms(4) in \<open>simp_all add: escrow_of_def\<close>)
      moreover have "escrow_next (escrow_of d) (escrow_of e)"
        unfolding view by (simp add: escrow_next_def nth_append)
      ultimately show ?thesis using ix f by (simp add: view)
    next
      case old
      with fp(2) assms(3) show ?thesis by simp
    qed
    then show "?i < unat (e ! E_PAIR_COUNT)" "escrow_next (escrow_of d) (escrow_of e)" "escrow_sane (escrow_of e)"
      "pv_settled (pair_of e ?i) = settled" "pv_batch (pair_of e ?i) = 0" "pv_payee (pair_of e ?i) = b2_payee v"
      "ev_pending (escrow_of e) = ev_pending (escrow_of d)" by auto
  qed
qed

section \<open>Settling and reserving\<close>

lemma pair_fits:
  assumes "length e = escrow_len (unat (e ! E_CAPACITY))" and "escrow_sane (escrow_of e)" and "i < unat (e ! E_PAIR_COUNT)"
  shows "pair_off i + 56 \<le> length e" and "120 \<le> length e"
proof -
  have "i < unat (e ! E_CAPACITY)" using assms(2,3) by (simp add: escrow_sane_def escrow_of_def)
  then have "i * 56 + 56 \<le> unat (e ! E_CAPACITY) * 56" by auto
  then show "pair_off i + 56 \<le> length e" and "120 \<le> length e"
    by (simp_all add: assms(1) pair_off_def escrow_len_def)
qed

lemma escrow_hdr_len:
  assumes "is_escrow pid a" and "hdr_same (data a) e"
  shows "length e = escrow_len (unat (e ! E_CAPACITY))"
  using assms by (simp add: is_escrow_def hdr_same_def)

text \<open>A voucher as it was verified against a store.\<close>

definition voucher_ok :: "account_info list \<Rightarrow> b2 \<Rightarrow> u64 \<Rightarrow> store \<Rightarrow> bool" where
  "voucher_ok accounts v settled s \<longleftrightarrow>
     find_pair (data (s (key (accounts ! b2_escrow_ix v)))) (b2_pair_ix v) (b2_payee v) = Inr (b2_append v, settled) \<and>
     b2_payee v \<noteq> replicate 32 0 \<and> settled < b2_cumulative v \<and> b2_delta v = b2_cumulative v - settled"

lemma verify_b2_ok:
  assumes "verify_b2 rt pid ctx accounts w first_ix nbw s es bs = Inr (v, es', bs')"
  obtains settled where "voucher_ok accounts v settled s"
  using assms by (elim verify_b2_run) (auto simp: voucher_ok_def)

lemma settle_escrow_moves:
  assumes "sane pid s" and "is_escrow pid (s k)" and "k = key (accounts ! b2_escrow_ix v)"
    and "voucher_ok accounts v settled s" and "pair_entry (data (s k)) v = Inr (e, off)"
  shows "moves A pid s (set_data s k (splice (splice e (off + P_SETTLED) (u64_le (b2_cumulative v))) E_BALANCE (u64_le bal)))"
proof -
  let ?i = "b2_pair_ix v"
  let ?e = "splice (splice e (off + P_SETTLED) (u64_le (b2_cumulative v))) E_BALANCE (u64_le bal)"
  have vo: "find_pair (data (s k)) ?i (b2_payee v) = Inr (b2_append v, settled)" "b2_payee v \<noteq> replicate 32 0"
    "settled < b2_cumulative v" using assms(3,4) by (auto simp: voucher_ok_def)
  note p = voucher_pair [OF vo(1) assms(5) sane_escrow [OF assms(1,2)] vo(2)]
  note fit = pair_fits [OF escrow_hdr_len [OF assms(2) p(3)] p(6,4)]
  have view: "escrow_of ?e = (escrow_of e)\<lparr>ev_pairs := (ev_pairs (escrow_of e))[?i := (pair_of e ?i)\<lparr>pv_settled := b2_cumulative v\<rparr>],
      ev_balance := bal\<rparr>"
    unfolding p(1) using fit
    by (subst escrow_of_balance) (simp_all add: escrow_of_settled [OF p(4) fit(1), unfolded P_SETTLED_def])
  have same: "escrow_of ?e = (escrow_of e)\<lparr>ev_pairs := (ev_pairs (escrow_of e))[?i := (pair_of e ?i)\<lparr>pv_settled := b2_cumulative v\<rparr>],
      ev_balance := bal, ev_pending := ev_pending (escrow_of e)\<rparr>" unfolding view by simp
  have nth: "ev_pairs (escrow_of e) ! ?i = pair_of e ?i" and i: "?i < length (ev_pairs (escrow_of e))"
    using ev_nth p(4) by auto
  have "escrow_sane (escrow_of ?e)"
    unfolding same by (rule escrow_sane_pair [OF p(6) i]) (simp_all add: nth p(8))
  moreover have "escrow_next (escrow_of (data (s k))) (escrow_of ?e)"
    unfolding same by (rule escrow_next_pair [OF p(5) i]) (use nth p(7) vo(3) in simp_all)
  moreover have "hdr_same (data (s k)) ?e"
    unfolding p(1) by (intro hdr_same_splice p(3)) (simp_all add: pair_off_def)
  ultimately show ?thesis by (intro escrow_moves [OF assms(1,2)])
qed

lemma stage_escrow_moves:
  assumes "sane pid s" and "is_escrow pid (s k)" and "k = key (accounts ! b2_escrow_ix v)"
    and "voucher_ok accounts v settled s" and "pair_entry (data (s k)) v = Inr (e, off)" and "batch_id \<noteq> 0"
    and "e2 = splice (splice e (off + P_PENDING_CUM) (u64_le (b2_cumulative v))) (off + P_PENDING_BATCH) (u64_le batch_id)"
    and "checked_add (get_u16 (splice e2 E_BALANCE (u64_le bal)) E_PENDING_COUNT) 1 = Some pc"
  shows "moves A pid s (set_data s k (splice (splice e2 E_BALANCE (u64_le bal)) E_PENDING_COUNT (u16_le pc)))"
proof -
  let ?i = "b2_pair_ix v"
  let ?e = "splice (splice e2 E_BALANCE (u64_le bal)) E_PENDING_COUNT (u16_le pc)"
  have vo: "find_pair (data (s k)) ?i (b2_payee v) = Inr (b2_append v, settled)" "b2_payee v \<noteq> replicate 32 0"
    "settled < b2_cumulative v" using assms(3,4) by (auto simp: voucher_ok_def)
  note p = voucher_pair [OF vo(1) assms(5) sane_escrow [OF assms(1,2)] vo(2)]
  note fit = pair_fits [OF escrow_hdr_len [OF assms(2) p(3)] p(6,4)]
  let ?p = "(pair_of e ?i)\<lparr>pv_cum := b2_cumulative v, pv_batch := batch_id\<rparr>"
  have nth: "ev_pairs (escrow_of e) ! ?i = pair_of e ?i" and i: "?i < length (ev_pairs (escrow_of e))"
    using ev_nth p(4) by auto
  let ?e1 = "splice e (pair_off ?i + P_PENDING_CUM) (u64_le (b2_cumulative v))"
  have c1: "?i < unat (?e1 ! E_PAIR_COUNT)" and f1: "pair_off ?i + 56 \<le> length ?e1"
    using p(4) fit by (simp_all add: byte_simps pair_off_def)
  have v1: "pair_of ?e1 ?i = (pair_of e ?i)\<lparr>pv_cum := b2_cumulative v\<rparr>" by (rule pair_of_splice(2) [OF fit(1)])
  have e2: "escrow_of e2 = (escrow_of e)\<lparr>ev_pairs := (ev_pairs (escrow_of e))[?i := ?p]\<rparr>"
    unfolding assms(7) p(1) escrow_of_batch [OF c1 f1] v1 escrow_of_cum [OF p(4) fit(1)] by simp
  have l2: "120 \<le> length e2" using fit by (simp add: assms(7))
  have same: "escrow_of ?e = (escrow_of e)\<lparr>ev_pairs := (ev_pairs (escrow_of e))[?i := ?p], ev_balance := bal, ev_pending := pc\<rparr>"
    using l2 by (subst escrow_of_pending) (simp_all add: escrow_of_balance [unfolded E_BALANCE_def] e2)
  have "get_u16 (splice e2 E_BALANCE (u64_le bal)) E_PENDING_COUNT = ev_pending (escrow_of e2)"
    using l2 by (simp add: byte_simps escrow_of_def)
  then have "unat pc = unat (ev_pending (escrow_of e)) + 1" using checked_add_unat [OF assms(8)] e2 by simp
  then have "escrow_sane (escrow_of ?e)"
    unfolding same by (intro escrow_sane_pair [OF p(6) i]) (use assms(6) vo(3) in \<open>simp_all add: nth p(7,8)\<close>)
  moreover have "escrow_next (escrow_of (data (s k))) (escrow_of ?e)"
    unfolding same by (rule escrow_next_pair [OF p(5) i]) (use nth in simp_all)
  moreover have "hdr_same (data (s k)) ?e"
    unfolding assms(7) p(1) by (intro hdr_same_splice p(3)) (simp_all add: pair_off_def)
  ultimately show ?thesis by (intro escrow_moves [OF assms(1,2)])
qed

section \<open>Settlement\<close>

lemma settle_apply_moves:
  assumes "sane pid s" and "settle_apply accounts v s = Inr s'" and "voucher_ok accounts v settled s"
    and "escrow_in pid L (s (key (accounts ! b2_escrow_ix v)))"
    and "book_in pid L (s (key (accounts ! b2_book_ix v)))" and "b2_slot v < BOOK_SLOTS"
  shows "moves A pid s s'" and "kept s s'"
  using assms(2)
proof (atomize (full), cases rule: settle_apply_run)
  case (1 escrow_acc book_acc e e2 off bal s1 bal')
  note run = 1
  have esc: "is_escrow pid (s (key escrow_acc))" using assms(4) by (simp add: run(2) escrow_in_def)
  have m: "moves A pid s s1"
    unfolding run(9,7)
    by (rule settle_escrow_moves [OF assms(1) esc _ assms(3) run(5)]) (simp add: run(2))
  note p = pair_entry_frame [OF run(5)]
  have "hdr_same (data (s (key escrow_acc))) (splice e2 E_BALANCE (u64_le bal))"
    unfolding run(7) p(3) by (intro hdr_same_splice p(1)) (simp_all add: pair_off_def)
  then have k: "kept s s1" unfolding run(9) by (rule kept_set_data)
  have bk: "book_in pid L (s1 (key book_acc))" using assms(5) kept_in(2) [OF k] by (simp add: run(4))
  note b = book_balance_moves [OF moves_sane [OF m] bk assms(6), where v = bal']
  show "moves A pid s s' \<and> kept s s'"
    using moves_trans [OF m b(1)] kept_trans [OF k kept_set_data [of s1 "key book_acc", OF b(2)]] by (simp add: run(11))
qed

definition settle_sane :: "key \<Rightarrow> key \<Rightarrow> account_info list \<Rightarrow> store \<times> seen \<times> seen \<Rightarrow> bool" where
  "settle_sane pid L accounts = (\<lambda>(s, es, bs). sane pid s \<and>
     seen_ok (escrow_in pid L) accounts es s \<and> seen_ok (book_in pid L) accounts bs s)"

interpretation settle_moves:
  fold_invariant "settle_one rt pid ctx accounts body" "settle_sane pid (ctx_ledger ctx) accounts"
    "\<lambda>(s, _) (s', _). evolves A pid s s'"
  for rt pid ctx accounts body A
proof
  fix st i st'
  assume inv: "settle_sane pid (ctx_ledger ctx) accounts st" and step: "settle_one rt pid ctx accounts body i st = Inr st'"
  obtain s es bs s' es' bs' where st: "st = (s, es, bs)" "st' = (s', es', bs')" by (metis prod.exhaust)
  from step obtain w v where v: "verify_b2 rt pid ctx accounts w 1 True s es bs = Inr (v, es', bs')"
    and a: "settle_apply accounts v s = Inr s'" by (auto simp: settle_one_def st Let_def)
  from inv have sn: "sane pid s" and seen: "seen_ok (escrow_in pid (ctx_ledger ctx)) accounts es s"
    "seen_ok (book_in pid (ctx_ledger ctx)) accounts bs s" by (auto simp: settle_sane_def st)
  obtain settled where vo: "voucher_ok accounts v settled s" by (rule verify_b2_ok [OF v])
  note c = verify_b2_checked [OF v seen]
  note m = settle_apply_moves [OF sn a vo c(4,5,3)]
  show "settle_sane pid (ctx_ledger ctx) accounts st' \<and> (case st of (s, _) \<Rightarrow> \<lambda>(s', _). evolves A pid s s') st'"
    using m(1) seen_ok_kept [OF m(2)] c(6,7) by (simp add: settle_sane_def st moves_def)
qed (auto intro: evolves_trans)

lemma settle_moves:
  assumes "sane pid s" and "settle rt pid accounts d s = Inr s'"
  shows "moves A pid s s'"
  using assms(2)
proof (cases rule: settle_run)
  case (1 nb body l es bs)
  have "settle_sane pid (key (accounts ! 0)) accounts (s, 0, 0)" using assms(1) by (simp add: settle_sane_def)
  with settle_moves.fold_inv [OF _ 1(6), where A = A] show ?thesis by (simp add: settle_sane_def moves_def)
qed

end
