(* ===== verification/XsEvolveChannel.thy ===== *)
theory XsEvolveChannel
  imports XsEvolveSettle
begin

text \<open>
  Evolution under the channel handlers: a channel goes from open through closing to closed, its
  best voucher amount grows and never exceeds the deposit.
\<close>

section \<open>Shared steps\<close>

lemma sane_channel: "sane pid s \<Longrightarrow> is_channel pid (s k) \<Longrightarrow> channel_sane (channel_of (data (s k)))"
  by (simp add: sane_def acct_sane_def)

lemma credit_slot_moves:
  assumes "sane pid s" and "credit_slot rt pid book_acc L slot payee amount chk s = Inr s'"
    and "chk \<or> book_in pid L (s (key book_acc))"
  shows "moves A pid s s'" "kept s s'" "book_in pid L (s (key book_acc))" "k \<noteq> key book_acc \<Longrightarrow> s' k = s k"
proof -
  from assms(2) obtain bal where run: "chk \<Longrightarrow> check_book rt s book_acc pid = Inr L" "slot < BOOK_SLOTS"
    "s' = set_data s (key book_acc)
       (splice (data (s (key book_acc))) (slot_off slot + S_BALANCE) (u64_le bal))"
    by (elim credit_slot_run) blast
  show bk: "book_in pid L (s (key book_acc))" using run(1) check_book_in assms(3) by blast
  note b = book_balance_moves [OF assms(1) bk run(2), where v = bal]
  show "moves A pid s s'" "kept s s'" unfolding run(3) by (rule b(1), rule kept_set_data [of s "key book_acc", OF b(2)])
  show "s' k = s k" if "k \<noteq> key book_acc" using that by (simp add: run(3))
qed

lemma channel_not_book: "is_channel pid (s k) \<Longrightarrow> book_in pid L (s j) \<Longrightarrow> k \<noteq> j"
  using kinds_disjoint(8) by (auto simp: book_in_def)

lemma channel_store_moves:
  assumes "sane pid s" and "channel_load rt s0 acc pid = Inr ch" and "s (key acc) = s0 (key acc)"
    and "channel_store c acc s = Inr s'" and "channel_next ch c" and "channel_sane c"
  shows "moves A pid s s'"
  by (rule channel_moves [OF assms(1) _ assms(4)]) (use assms in \<open>auto simp: channel_load_Inr\<close>)

lemma channel_store_kept:
  assumes "is_channel pid (s (key acc))" and "channel_store c acc s = Inr s'"
    and "c_ledger c = c_ledger (channel_of (data (s (key acc))))"
  shows "kept s s'"
proof -
  from assms(2) obtain e where e: "channel_pack c (data (s (key acc))) = Inr e"
    and s': "s' = set_data s (key acc) e" by (auto simp: channel_store_Inr)
  have led: "slice d 16 32 = c_ledger (channel_of d)" for d by (simp add: channel_of_def)
  show ?thesis
    unfolding s' using assms(1,3) channel_codec.pack_disc [OF e] channel_codec.pack_of [OF e] channel_codec.pack_length [OF e]
    by (intro kept_set_data) (simp add: hdr_same_def led is_channel_def)
qed

section \<open>Transitions of a channel\<close>

lemma channel_signed_close:
  assumes "channel_sane c" and "c_status c = CH_OPEN \<or> c_status c = CH_CLOSING" and "c_best_cum c \<le> cum"
    and "sub (c_balance c) cum = Inr bal"
  shows "channel_next c (c\<lparr>c_best_cum := cum, c_balance := bal, c_status := CH_CLOSED\<rparr>)"
    and "channel_sane (c\<lparr>c_best_cum := cum, c_balance := bal, c_status := CH_CLOSED\<rparr>)"
proof -
  have "c_payee c \<noteq> replicate 32 0" "c_balance c = c_deposit c" "c_status c \<le> CH_CLOSED" "c_status c \<noteq> CH_CLOSED"
    using assms(1,2) unfolding channel_sane_def by (elim disjE conjE; simp)+
  then show "channel_next c (c\<lparr>c_best_cum := cum, c_balance := bal, c_status := CH_CLOSED\<rparr>)"
    and "channel_sane (c\<lparr>c_best_cum := cum, c_balance := bal, c_status := CH_CLOSED\<rparr>)"
    using assms(3) sub_unat [OF assms(4)] by (simp_all add: channel_next_def channel_sane_def)
qed

lemma channel_start_close:
  assumes "channel_sane c" and "c_status c = CH_OPEN" and "cum \<le> c_balance c"
  shows "channel_next c (c\<lparr>c_best_cum := cum, c_status := CH_CLOSING, c_dispute_end_slot := de\<rparr>)"
    and "channel_sane (c\<lparr>c_best_cum := cum, c_status := CH_CLOSING, c_dispute_end_slot := de\<rparr>)"
  using assms by (auto simp: channel_next_def channel_sane_def)

lemma channel_better_voucher:
  assumes "channel_sane c" and "c_status c = CH_CLOSING" and "c_best_cum c \<le> cum" and "cum \<le> c_balance c"
  shows "channel_next c (c\<lparr>c_best_cum := cum\<rparr>)" and "channel_sane (c\<lparr>c_best_cum := cum\<rparr>)"
  using assms by (auto simp: channel_next_def channel_sane_def)

lemma channel_balance_same: "c\<lparr>c_balance := c_balance c\<rparr> = c"
  by (cases c) simp

lemma channel_best_same: "c_best_cum c = x \<Longrightarrow> c\<lparr>c_best_cum := x\<rparr> = c"
  by (cases c) simp

section \<open>Handlers\<close>

definition close_sane :: "key \<Rightarrow> key \<Rightarrow> account_info list \<Rightarrow> store \<times> seen \<Rightarrow> bool" where
  "close_sane pid L accounts = (\<lambda>(s, bs). sane pid s \<and> seen_ok (book_in pid L) accounts bs s)"

lemma close_status_open: "close_status ch t = Inr () \<Longrightarrow> c_status ch = CH_OPEN \<or> c_status ch = CH_CLOSING"
  by (auto simp: close_status_def split: if_splits)

lemma close_one_moves:
  assumes "close_sane pid L accounts (s, bs)"
    and "close_one rt pid L l signers accounts body i (s, bs) = Inr (s', bs')"
  shows "close_sane pid L accounts (s', bs') \<and> evolves A pid s s'"
  using assms(2)
proof (cases rule: close_one_run)
  case (1 w ch_acc ch ch' s1)
  note run = 1
  from assms(1) have sn: "sane pid s" and seen: "seen_ok (book_in pid L) accounts bs s" by (auto simp: close_sane_def)
  have chan: "is_channel pid (s (key ch_acc))" and ch: "channel_of (data (s (key ch_acc))) = ch"
    using run(4) by (simp_all add: channel_load_Inr)
  have cs: "channel_sane ch" using sane_channel [OF sn chan] ch by simp
  note st = close_status_open [OF run(6)]
  have cum: "c_best_cum ch \<le> wc_cumulative w" using run(8) by simp
  have ok: "channel_next ch ch' \<and> channel_sane ch' \<and> c_ledger ch' = c_ledger ch"
    using run(11)
  proof (elim disjE conjE exE)
    fix book_acc was bal
    assume "sub (c_balance ch) (wc_cumulative w) = Inr bal"
      and "ch' = ch\<lparr>c_best_cum := wc_cumulative w, c_balance := bal, c_status := CH_CLOSED\<rparr>"
    then show ?thesis using channel_signed_close [OF cs st cum] by simp
  next
    fix de
    assume "c_status ch = CH_OPEN"
      and "ch' = ch\<lparr>c_best_cum := wc_cumulative w, c_status := CH_CLOSING, c_dispute_end_slot := de\<rparr>"
    then show ?thesis using channel_start_close [OF cs _ run(9)] by simp
  next
    assume "c_status ch \<noteq> CH_OPEN" and "ch' = ch\<lparr>c_best_cum := wc_cumulative w\<rparr>"
    then show ?thesis using channel_better_voucher [OF cs _ cum run(9)] st by simp
  qed
  show ?thesis
  proof (cases "signers_has signers (c_payee ch)")
    case True
    with run(11) obtain was where bi: "unat (wc_book_ix w) < length accounts"
      and ts: "test_set bs (unat (wc_book_ix w)) = Inr (was, bs')"
      and cr: "credit_slot rt pid (accounts ! unat (wc_book_ix w)) L (unat (wc_slot w)) (c_payee ch)
        (wc_cumulative w) (\<not> was) s = Inr s1"
      by auto
    have "\<not> was \<or> book_in pid L (s (key (accounts ! unat (wc_book_ix w))))"
      using seen ts by (auto simp: seen_ok_def test_set_Inr)
    note c = credit_slot_moves [OF sn cr this]
    have same: "s1 (key ch_acc) = s (key ch_acc)" by (rule c(4)) (rule channel_not_book [of pid s, OF chan c(3)])
    note m = channel_store_moves [OF moves_sane [OF c(1)] run(4) same run(12) conjunct1 [OF ok] conjunct1 [OF conjunct2 [OF ok]]]
    have k: "kept s1 s'" by (rule channel_store_kept [of pid s1, OF _ run(12)]) (use chan ch same ok in auto)
    show ?thesis
      using moves_trans [OF c(1) m] seen_ok_insert(1) [OF seen ts bi] c(3) seen_ok_kept(2) [OF c(2)] seen_ok_kept(2) [OF k]
      by (auto simp: close_sane_def moves_def)
  next
    case False
    with run(11) have s1: "s1 = s" "bs' = bs" by auto
    note m = channel_store_moves [OF sn run(4) refl run(12) [unfolded s1] conjunct1 [OF ok] conjunct1 [OF conjunct2 [OF ok]]]
    have k: "kept s s'" by (rule channel_store_kept [of pid s, OF _ run(12) [unfolded s1]]) (use chan ch ok in auto)
    show ?thesis using m seen_ok_kept(2) [OF k seen] by (simp add: close_sane_def moves_def s1)
  qed
qed

interpretation close_moves:
  fold_invariant "close_one rt pid L l signers accounts body" "close_sane pid L accounts"
    "\<lambda>(s, _) (s', _). evolves A pid s s'"
  for rt pid L l signers accounts body A
proof
  fix st i st'
  assume "close_sane pid L accounts st" and "close_one rt pid L l signers accounts body i st = Inr st'"
  then show "close_sane pid L accounts st' \<and> (case st of (s, _) \<Rightarrow> \<lambda>(s', _). evolves A pid s s') st'"
    using close_one_moves by (cases st; cases st') simp
qed (auto intro: evolves_trans)

lemma close_channels_moves:
  assumes "sane pid s" and "close_channels rt pid accounts d s = Inr s'"
  shows "moves A pid s s'"
  using assms(2)
proof (cases rule: close_channels_run)
  case (1 nb body l books)
  have "close_sane pid (key (accounts ! 0)) accounts (s, 0)" using assms(1) by (simp add: close_sane_def)
  with close_moves.fold_inv [OF _ 1(6), where A = A] show ?thesis by (simp add: close_sane_def moves_def)
qed

lemma request_channel_close_moves:
  assumes "sane pid s" and "request_channel_close rt pid accounts d s = Inr s'"
  shows "moves A pid s s'"
  using assms(2)
proof (cases rule: request_channel_close_run)
  case (1 payer ledger_acc ch_acc rest l ch de)
  have ch: "is_channel pid (s (key ch_acc))" "channel_of (data (s (key ch_acc))) = ch"
    using 1(4) by (simp_all add: channel_load_Inr)
  have cs: "channel_sane ch" using sane_channel [OF assms(1) ch(1)] ch(2) by simp
  then have "c_best_cum ch = 0" using 1(7) by (auto simp: channel_sane_def)
  from channel_best_same [OF this] channel_start_close [OF cs 1(7), of 0 de]
  show ?thesis by (intro channel_store_moves [OF assms(1) 1(4) refl 1(10)]) simp_all
qed

lemma finalize_channel_moves:
  assumes "sane pid s" and "finalize_channel rt pid accounts d s = Inr s'"
  shows "moves A pid s s'"
  using assms(2)
proof (cases rule: finalize_channel_run)
  case (1 ch_acc ch ch' s1)
  note run = 1
  have chan: "is_channel pid (s (key ch_acc))" and ch: "channel_of (data (s (key ch_acc))) = ch"
    using run(4) by (simp_all add: channel_load_Inr)
  have cs: "channel_sane ch" using sane_channel [OF assms(1) chan] ch by simp
  have st: "c_status ch = CH_OPEN \<or> c_status ch = CH_CLOSING"
    using run(5) by (auto simp: finalize_status_def split: if_splits)
  show ?thesis
  proof (cases "c_best_cum ch > 0")
    case False
    with run(6) have s1: "s1 = s" "ch' = ch" and z: "c_best_cum ch = 0" by auto
    have "sub (c_balance ch) 0 = Inr (c_balance ch)" by (simp add: sub_Inr)
    from channel_signed_close [OF cs st _ this] z channel_best_same [OF z]
      channel_balance_same [of ch]
    show ?thesis by (intro channel_store_moves [OF assms(1) run(4) refl run(7) [unfolded s1]]) simp_all
  next
    case True
    with run(6) obtain bal where
      cr: "credit_slot rt pid (accounts ! 1) (c_ledger ch) (unat (d ! 0)) (c_payee ch) (c_best_cum ch) True s = Inr s1"
      and bal: "sub (c_balance ch) (c_best_cum ch) = Inr bal" and ch': "ch' = ch\<lparr>c_balance := bal\<rparr>" by auto
    note c = credit_slot_moves [OF assms(1) cr disjI1 [OF TrueI]]
    have same: "s1 (key ch_acc) = s (key ch_acc)" by (rule c(4)) (rule channel_not_book [of pid s, OF chan c(3)])
    have "moves A pid s1 s'"
      by (rule channel_store_moves [OF moves_sane [OF c(1)] run(4) same run(7)])
        (use channel_signed_close [OF cs st order_refl bal] in \<open>simp_all add: ch'\<close>)
    with c(1) show ?thesis by (rule moves_trans)
  qed
qed

context solana
begin

lemma reclaim_channel_step:
  assumes "sane pid s" and "reclaim_channel rt pid accounts d s = Inr s'"
  shows "step_ok (clock_slot rt) A pid s s'"
  using assms(2)
proof (cases rule: reclaim_channel_run)
  case (1 ch_acc escrow_acc payer rest ch bal e0 e oc)
  note run = 1
  let ?E = "key escrow_acc"
  note c = check_escrow_facts [OF run(4)]
  have chan: "is_channel pid (s (key ch_acc))" and ch: "channel_of (data (s (key ch_acc))) = ch"
    using run(2) by (simp_all add: channel_load_Inr)
  have "escrow_of e = (escrow_of (data (s ?E)))\<lparr>ev_balance := bal, ev_open_channels := oc\<rparr>"
    using c(2) by (simp add: run(7,9) escrow_header_writes)
  moreover have "hdr_same (data (s ?E)) e" unfolding run(7,9) by (intro hdr_same_splice hdr_same_refl) simp_all
  ultimately have m: "moves A pid s (set_data s ?E e)"
    by (intro escrow_moves [OF assms(1) c(1)])
      (use sane_escrow [OF assms(1) c(1)] in \<open>simp_all add: escrow_next_def escrow_sane_def\<close>)
  show ?thesis
    by (rule close_step_ok [OF m run(10)])
      (use chan ch run(3) kinds_exclusive(3) [OF chan] in \<open>auto simp: closable_def reclaim_status_def split: if_splits\<close>)
qed

lemma open_channel_moves:
  assumes "sane pid s" and "open_channel rt pid accounts d s = Inr s'"
  shows "moves {key (accounts ! 3)} pid s s'"
  using assms(2)
proof (cases rule: open_channel_run)
  case (1 payer ledger_acc escrow_acc channel_acc system rest l amount payee bump e0 e s1 s2 oc nx)
  note run = 1
  let ?E = "key escrow_acc" and ?L = "key ledger_acc" and ?C = "key channel_acc"
  note led = run(4) [unfolded ledger_load_Inr]
  note k = check_escrow_facts [OF run(5)]
  have view: "escrow_of e = (escrow_of (data (s ?E)))\<lparr>ev_balance := get_u64 (data (s ?E)) E_BALANCE - amount, ev_open_channels := oc\<rparr>"
    using k(2) by (simp add: run(11,13) escrow_header_writes)
  have "hdr_same (data (s ?E)) e" unfolding run(11,13) by (intro hdr_same_splice hdr_same_refl) simp_all
  then have m: "moves {?C} pid s (set_data s ?E e)"
    by (intro escrow_moves [OF assms(1) k(1)])
      (use sane_escrow [OF assms(1) k(1)] in \<open>simp_all add: view escrow_next_def escrow_sane_def\<close>)
  note c = create_pda_moves [OF moves_sane [OF m] run(14)]
  have EL: "?E \<noteq> ?L" using k(1) led kinds_exclusive(1) by metis
  then have LC: "?L \<noteq> ?C" using c(3) led by auto
  then have L1: "is_ledger pid (s1 ?L)" "data (s1 ?L) = data (s ?L)"
    using led c(4) [of ?L] EL by (auto simp: is_ledger_def)
  have "l_next_scope l \<le> nx" using add_unat [OF run(15)] by (simp add: word_le_nat_alt)
  then have m2: "moves {?C} pid s1 s2"
    by (intro ledger_moves [OF moves_sane [OF c(1)] L1(1) run(16)]) (use L1 led in \<open>simp_all add: ledger_next_def\<close>)
  from run(16,17) obtain ld ce where s2: "s2 = set_data s1 ?L ld"
    and ce: "channel_pack \<lparr>c_bump = bump, c_status = CH_OPEN, c_ledger = key ledger_acc, c_payer = key payer,
        c_payee = payee, c_channel_id = get_u64 d 0, c_scope = l_next_scope l, c_deposit = amount,
        c_balance = amount, c_best_cum = 0, c_expiry_slot = get_u64 d 48, c_dispute_end_slot = 0\<rparr>
       (data (s2 ?C)) = Inr ce" "s' = set_data s2 ?C ce" by (auto simp: ledger_store_Inr channel_store_Inr)
  have z: "data (s2 ?C) = replicate CHANNEL_LEN 0" using s2 LC c(2) by simp
  have "moves {?C} pid s2 s'"
    unfolding ce(2) by (rule creation_moves [OF moves_sane [OF m2]])
      (use z channel_codec.pack_disc [OF ce(1)] channel_codec.pack_of [OF ce(1)] run(18,19) in
        \<open>auto intro!: acct_sane_kind(2) simp: channel_sane_def\<close>)
  from moves_trans [OF moves_trans [OF moves_trans [OF m c(1)] m2] this] show ?thesis by (simp add: run(1))
qed

end

end
