(* ===== verification/XsEvolveBatch.thy ===== *)
theory XsEvolveBatch
  imports XsEvolveChannel
begin

text \<open>
  Evolution under the batch handlers: the header of a batch is fixed while it is staged, a batch
  is committed or aborted once, and resolving it releases each pending pair of its vouchers.
\<close>

section \<open>Writes to the batch account\<close>

lemma sane_batch: "sane pid s \<Longrightarrow> is_batch pid (s k) \<Longrightarrow> batch_sane (batch_of (data (s k)))"
  by (simp add: sane_def acct_sane_def)

lemma batch_store_moves:
  assumes "sane pid s" and "is_batch pid (s k)" and "batch_pack h d = Inr e" and "length d = length (data (s k))"
    and "batch_next (batch_of (data (s k))) h" and "batch_sane h"
  shows "moves A pid s (set_data s k e)"
  by (rule batch_moves [OF assms(1,2)])
    (use batch_codec.pack_disc [OF assms(3)] batch_codec.pack_of [OF assms(3)] batch_codec.pack_length [OF assms(3)]
      assms(4-6) in simp_all)

lemma batch_tail_moves:
  assumes "sane pid s" and "is_batch pid (s k)" and "hdr_same (data (s k)) e" and "batch_of e = batch_of (data (s k))"
  shows "moves A pid s (set_data s k e)"
  by (rule batch_moves [OF assms(1,2)])
    (use assms sane_batch [OF assms(1,2)] in \<open>simp_all add: hdr_same_def is_batch_def\<close>)

lemma kept_batch: "kept s s' \<Longrightarrow> is_batch pid (s' k) \<longleftrightarrow> is_batch pid (s k)"
  by (rule kept_kinds)

definition batch_at :: "key \<Rightarrow> key \<Rightarrow> batch_hdr \<Rightarrow> store \<Rightarrow> bool" where
  "batch_at pid B h s \<longleftrightarrow> sane pid s \<and> is_batch pid (s B) \<and> batch_of (data (s B)) = h"

lemma batch_load_at: "sane pid s \<Longrightarrow> batch_load rt s acc pid = Inr h \<Longrightarrow> batch_at pid (key acc) h s"
  by (simp add: batch_at_def batch_load_Inr)

lemma batch_at_finish:
  assumes "batch_at pid B h0 s" and "batch_pack h d = Inr e" and "length d = length (data (s B))"
    and "batch_next h0 h" and "batch_sane h"
  shows "moves A pid s (set_data s B e)"
  by (rule batch_store_moves [of pid s B h d e]) (use assms in \<open>auto simp: batch_at_def\<close>)

section \<open>Staging\<close>

text \<open>The header as staging changes it.\<close>

definition staged_from :: "batch_hdr \<Rightarrow> batch_hdr \<Rightarrow> bool" where
  "staged_from h h' \<longleftrightarrow> h' = h\<lparr>b_n_payees := b_n_payees h', b_staged_count := b_staged_count h',
       b_staged_total := b_staged_total h', b_held := b_held h', b_outstanding := b_outstanding h'\<rparr> \<and>
     b_held h' = b_staged_total h' \<and> b_outstanding h' = b_staged_count h'"

definition stage_sane :: "key \<Rightarrow> key \<Rightarrow> account_info list \<Rightarrow> key \<Rightarrow> batch_hdr \<Rightarrow> stage_st \<Rightarrow> bool" where
  "stage_sane pid L accounts B h0 = (\<lambda>(s, es, bs, hdr, leaves). batch_at pid B h0 s \<and> staged_from h0 hdr \<and>
     seen_ok (escrow_in pid L) accounts es s \<and> seen_ok (book_in pid L) accounts bs s)"

lemma stage_reserve_moves:
  assumes "sane pid s" and "stage_reserve accounts bid v s = Inr s'" and "voucher_ok accounts v settled s"
    and "escrow_in pid L (s (key (accounts ! b2_escrow_ix v)))" and "bid \<noteq> 0"
  shows "moves A pid s s'" and "kept s s'" and "is_batch pid (s k) \<Longrightarrow> s' k = s k"
proof -
  from assms(2) obtain escrow_acc e e2 off bal pc where
    run: "escrow_acc = accounts ! b2_escrow_ix v" "pair_entry (data (s (key escrow_acc))) v = Inr (e, off)"
    "e2 = splice (splice e (off + P_PENDING_CUM) (u64_le (b2_cumulative v))) (off + P_PENDING_BATCH) (u64_le bid)"
    "checked_add (get_u16 (splice e2 E_BALANCE (u64_le bal)) E_PENDING_COUNT) 1 = Some pc"
    "s' = set_data s (key escrow_acc) (splice (splice e2 E_BALANCE (u64_le bal)) E_PENDING_COUNT (u16_le pc))"
    by (elim stage_reserve_run) blast
  have esc: "is_escrow pid (s (key escrow_acc))" using assms(4) by (simp add: run(1) escrow_in_def)
  show "moves A pid s s'"
    unfolding run(5) by (rule stage_escrow_moves [OF assms(1) esc _ assms(3) run(2) assms(5) run(3,4)]) (simp add: run(1))
  note p = pair_entry_frame [OF run(2)]
  show "kept s s'"
    unfolding run(5,3) p(3) by (intro kept_set_data hdr_same_splice p(1)) (simp_all add: pair_off_def)
  show "s' k = s k" if "is_batch pid (s k)"
    using that kinds_exclusive(4) [OF that] esc by (cases "k = key escrow_acc") (auto simp: run(5))
qed

lemma add_batch_payee_from:
  assumes "add_batch_payee bd hdr bk slot amount = Inr (bd', hdr')"
  shows "hdr' = hdr\<lparr>b_n_payees := b_n_payees hdr'\<rparr>"
  using assms by (cases rule: add_batch_payee_run) auto

lemma stage_one_moves:
  assumes "stage_sane pid (ctx_ledger ctx) accounts (key batch_acc) h0 (s, es, bs, hdr, lv)"
    and "stage_one rt pid ctx accounts batch_acc body i (s, es, bs, hdr, lv) = Inr (s', es', bs', hdr', lv')"
  shows "stage_sane pid (ctx_ledger ctx) accounts (key batch_acc) h0 (s', es', bs', hdr', lv') \<and> evolves A pid s s'"
  using assms(2)
proof (cases rule: stage_one_run)
  case (1 w v s1 bd h1 sc stt hd out)
  note run = 1
  let ?L = "ctx_ledger ctx" and ?B = "key batch_acc"
  from assms(1) have at: "sane pid s" "is_batch pid (s ?B)" "batch_of (data (s ?B)) = h0" and sf: "staged_from h0 hdr"
    and seen: "seen_ok (escrow_in pid ?L) accounts es s" "seen_ok (book_in pid ?L) accounts bs s"
    by (auto simp: stage_sane_def batch_at_def)
  obtain settled where vo: "voucher_ok accounts v settled s" by (rule verify_b2_ok [OF run(2)])
  have "b_batch_id hdr = b_batch_id h0" using sf by (auto simp: staged_from_def elim: ssubst)
  then have bid: "b_batch_id hdr \<noteq> 0" using sane_batch [OF at(1,2)] at(3) by (simp add: batch_sane_def)
  note c = verify_b2_checked [OF run(2) seen]
  note r = stage_reserve_moves [OF at(1) run(3) vo c(4) bid]
  have same: "s1 ?B = s ?B" using r(3) at(2) by simp
  note p = add_batch_payee_frame [OF run(5)]
  have m: "moves A pid s1 s'"
    unfolding run(6) by (rule batch_tail_moves [OF moves_sane [OF r(1)]]) (use at p(1,2) same in simp_all)
  have k: "kept s s'" using kept_trans [OF r(2) kept_set_data [of s1 ?B bd]] p(1) by (simp add: run(6))
  have "batch_at pid ?B h0 s'"
    using moves_sane [OF m] kept_batch [OF k] at p(2) same by (simp add: batch_at_def run(6))
  moreover have "staged_from h0 hdr'"
  proof -
    obtain np where h1: "h1 = hdr\<lparr>b_n_payees := np\<rparr>" using add_batch_payee_from [OF run(5)] by blast
    obtain np0 sc0 st0 hd0 out0 where hdr: "hdr = h0\<lparr>b_n_payees := np0, b_staged_count := sc0,
       b_staged_total := st0, b_held := hd0, b_outstanding := out0\<rparr>" using sf unfolding staged_from_def by blast
    have "hd0 = st0" "out0 = sc0" using sf by (simp_all add: staged_from_def hdr)
    then have "stt = hd" "sc = out" using run(7-10) by (auto simp: h1 hdr add_Inr checked_add_Some)
    then show ?thesis unfolding run(11) h1 hdr by (simp add: staged_from_def)
  qed
  ultimately show ?thesis
    using moves_trans [OF r(1) m] c(6,7) seen_ok_kept [OF k] by (simp add: stage_sane_def moves_def)
qed

interpretation stage_moves:
  fold_invariant "stage_one rt pid ctx accounts batch_acc body"
    "stage_sane pid (ctx_ledger ctx) accounts (key batch_acc) h0" "\<lambda>(s, _) (s', _). evolves A pid s s'"
  for rt pid ctx accounts batch_acc body h0 A
proof
  fix st i st'
  assume "stage_sane pid (ctx_ledger ctx) accounts (key batch_acc) h0 st"
    and "stage_one rt pid ctx accounts batch_acc body i st = Inr st'"
  then show "stage_sane pid (ctx_ledger ctx) accounts (key batch_acc) h0 st' \<and>
      (case st of (s, _) \<Rightarrow> \<lambda>(s', _). evolves A pid s s') st'"
    by (cases st; cases st') (simp, rule stage_one_moves)
qed (auto intro: evolves_trans)

lemma stage_chunk_moves:
  assumes "sane pid s" and "stage_chunk rt pid accounts d s = Inr s'"
  shows "moves A pid s s'"
  using assms(2)
proof (cases rule: stage_chunk_run)
  case (1 ledger_acc batch_acc ci n pl l hdr s1 es bs h1 leaves bit_o bt bd pf)
  note run = 1
  let ?L = "key ledger_acc" and ?B = "key batch_acc"
  have at: "batch_at pid ?B hdr s" by (rule batch_load_at [OF assms(1) run(9)])
  have bs: "batch_sane hdr" using at sane_batch unfolding batch_at_def by blast
  then have "staged_from hdr hdr" using run(11) by (auto simp: staged_from_def batch_sane_def)
  then have "stage_sane pid ?L accounts ?B hdr (s, 0, 0, hdr, [])" using at by (simp add: stage_sane_def)
  with stage_moves.fold_inv [OF _ run(19), where A = A]
  have "stage_sane pid ?L accounts ?B hdr (s1, es, bs, h1, leaves)" and ev: "evolves A pid s s1" by simp_all
  then have at1: "batch_at pid ?B hdr s1" and sf: "staged_from hdr h1" by (auto simp: stage_sane_def)
  have "moves A pid s1 s'"
    unfolding run(24)
    by (rule batch_at_finish [OF at1 run(22)])
      (use sf run(11) bs in \<open>cases hdr; cases h1; simp add: staged_from_def batch_next_def batch_sane_def\<close>)+
  moreover have "moves A pid s s1" using ev at1 by (simp add: moves_def batch_at_def)
  ultimately show ?thesis by (auto intro: moves_trans)
qed

section \<open>Begin, commit and abort\<close>

context solana
begin

lemma begin_batch_moves:
  assumes "sane pid s" and "begin_batch rt pid accounts d s = Inr s'"
  shows "moves A pid s s'"
  using assms(2)
proof (cases rule: begin_batch_run)
  case (1 submitter ledger_acc batch_acc system rest l bump s1 deadline n bd hdr)
  note run = 1
  note c = create_pda_moves [OF assms(1) run(4)]
  note p = batch_codec.pack_disc [OF run(15)] batch_codec.pack_of [OF run(15)]
  have "moves A pid s1 s'"
    unfolding run(16)
    by (rule creation_moves [OF moves_sane [OF c(1)]])
      (use p run(11) in \<open>auto simp: c(2) run(14) batch_sane_def no_entry_def is_escrow_def is_channel_def is_ledger_def
        intro!: acct_sane_kind(3)\<close>)
  with c(1) show ?thesis by (auto intro: moves_trans)
qed

end

definition commit_sane :: "key \<Rightarrow> key \<Rightarrow> account_info list \<Rightarrow> key \<Rightarrow> batch_hdr \<Rightarrow> store \<times> seen \<times> u64 \<Rightarrow> bool" where
  "commit_sane pid L accounts B h0 = (\<lambda>(s, sn, cr). batch_at pid B h0 s \<and> seen_ok (book_in pid L) accounts sn s)"

lemma commit_one_moves:
  assumes "commit_sane pid L accounts (key batch_acc) h0 (s, sn, cr)"
    and "commit_one rt pid L accounts batch_acc i (s, sn, cr) = Inr (s', sn', cr')"
  shows "commit_sane pid L accounts (key batch_acc) h0 (s', sn', cr') \<and> evolves A pid s s'"
  using assms(2)
proof (cases rule: commit_one_run)
  case (1 off amount slot pos book_acc was bal)
  note run = 1
  let ?B = "key batch_acc"
  from assms(1) have at: "sane pid s" "is_batch pid (s ?B)" "batch_of (data (s ?B)) = h0"
    and seen: "seen_ok (book_in pid L) accounts sn s" by (auto simp: commit_sane_def batch_at_def)
  have "\<not> was \<Longrightarrow> book_in pid L (s (key (accounts ! Suc pos)))" using run(7,9) check_book_in by metis
  note c = seen_ok_insert [OF seen run(8,6) this]
  have bk: "book_in pid L (s (key book_acc))" using c(2) by (simp add: run(7))
  have slot: "slot < BOOK_SLOTS" using run(10) book_in_facts(4) [OF bk] by (intro slot_in_book) simp
  note m = book_balance_moves [OF at(1) bk slot, where v = bal]
  have k: "kept s s'" unfolding run(12) by (rule kept_set_data [of s "key book_acc", OF m(2)])
  have "?B \<noteq> key book_acc" using at(2) bk kinds_exclusive(4) [OF at(2)] by (auto simp: book_in_def)
  then have "s' ?B = s ?B" by (simp add: run(12))
  then have "batch_at pid ?B h0 s'" using at moves_sane [OF m(1)] by (simp add: batch_at_def run(12))
  then show ?thesis using m(1) c(1) seen_ok_kept(2) [OF k] by (simp add: commit_sane_def moves_def run(12))
qed

interpretation commit_moves:
  fold_invariant "commit_one rt pid L accounts batch_acc" "commit_sane pid L accounts (key batch_acc) h0"
    "\<lambda>(s, _) (s', _). evolves A pid s s'"
  for rt pid L accounts batch_acc h0 A
proof
  fix st i st'
  assume "commit_sane pid L accounts (key batch_acc) h0 st"
    and "commit_one rt pid L accounts batch_acc i st = Inr st'"
  then show "commit_sane pid L accounts (key batch_acc) h0 st' \<and> (case st of (s, _) \<Rightarrow> \<lambda>(s', _). evolves A pid s s') st'"
    by (cases st; cases st') (simp, rule commit_one_moves)
qed (auto intro: evolves_trans)

lemma commit_batch_moves:
  assumes "sane pid s" and "commit_batch rt pid accounts d s = Inr s'"
  shows "moves A pid s s'"
  using assms(2)
proof (cases rule: commit_batch_run)
  case (1 batch_acc hdr s1 sn bd)
  note run = 1
  let ?L = "b_ledger hdr" and ?B = "key batch_acc"
  have at: "batch_at pid ?B hdr s" by (rule batch_load_at [OF assms(1) run(3)])
  have bs: "batch_sane hdr" using at sane_batch unfolding batch_at_def by blast
  have "commit_sane pid ?L accounts ?B hdr (s, 0, 0)" using at by (simp add: commit_sane_def)
  with commit_moves.fold_inv [OF _ run(10), where A = A]
  have "commit_sane pid ?L accounts ?B hdr (s1, sn, b_held hdr)" and ev: "evolves A pid s s1" by simp_all
  then have at1: "batch_at pid ?B hdr s1" by (simp add: commit_sane_def)
  have "moves A pid s1 s'"
    unfolding run(12)
    by (rule batch_at_finish [OF at1 run(11)]) (use run(4,8) bs in \<open>auto simp: batch_next_def batch_sane_def\<close>)
  moreover have "moves A pid s s1" using ev at1 by (simp add: moves_def batch_at_def)
  ultimately show ?thesis by (auto intro: moves_trans)
qed

lemma abort_batch_moves:
  assumes "sane pid s" and "abort_batch rt pid accounts d s = Inr s'"
  shows "moves A pid s s'"
  using assms(2)
proof (cases rule: abort_batch_run)
  case (1 caller batch_acc rest hdr bd)
  have at: "batch_at pid (key batch_acc) hdr s" by (rule batch_load_at [OF assms(1) 1(3)])
  then have "batch_sane hdr" using sane_batch unfolding batch_at_def by blast
  then show ?thesis
    unfolding 1(7) by (intro batch_at_finish [OF at 1(6)]) (use 1(4) in \<open>auto simp: batch_next_def batch_sane_def\<close>)
qed

section \<open>Resolve and close\<close>

definition resolved_from :: "batch_hdr \<Rightarrow> batch_hdr \<Rightarrow> bool" where
  "resolved_from h h' \<longleftrightarrow> h' = h\<lparr>b_held := b_held h', b_outstanding := b_outstanding h'\<rparr> \<and>
     b_held h' \<le> b_held h \<and> b_outstanding h' \<le> b_outstanding h"

definition resolve_sane :: "key \<Rightarrow> key \<Rightarrow> account_info list \<Rightarrow> key \<Rightarrow> batch_hdr \<Rightarrow> store \<times> seen \<times> batch_hdr \<Rightarrow> bool" where
  "resolve_sane pid L accounts B h0 = (\<lambda>(s, sn, hdr). batch_at pid B h0 s \<and> resolved_from h0 hdr \<and>
     b_ledger h0 = L \<and> seen_ok (escrow_in pid L) accounts sn s)"

lemma resolve_escrow_moves:
  assumes "sane pid s" and "is_escrow pid (s k)" and "e = data (s k)" and "pi < unat (e ! E_PAIR_COUNT)" and "off = pair_off pi"
    and "get_u64 e (off + P_PENDING_BATCH) \<noteq> 0"
    and "e1 = splice e (off + P_SETTLED) (u64_le (get_u64 e (off + P_PENDING_CUM))) \<or> e1 = splice e E_BALANCE (u64_le bal)"
    and "checked_sub (get_u16 (splice (splice e1 (off + P_PENDING_CUM) (u64_le 0)) (off + P_PENDING_BATCH) (u64_le 0))
       E_PENDING_COUNT) 1 = Some pc"
    and "e' = splice (splice (splice e1 (off + P_PENDING_CUM) (u64_le 0)) (off + P_PENDING_BATCH) (u64_le 0)) E_PENDING_COUNT (u16_le pc)"
  shows "moves A pid s (set_data s k e')" and "hdr_same e e'"
proof -
  let ?p = "pair_of e pi"
  have sn: "escrow_sane (escrow_of e)" using sane_escrow [OF assms(1,2)] assms(3) by simp
  note fit = pair_fits [OF escrow_hdr_len [OF assms(2) hdr_same_refl] sn [unfolded assms(3)] assms(4) [unfolded assms(3)], folded assms(3)]
  have nth: "ev_pairs (escrow_of e) ! pi = ?p" and i: "pi < length (ev_pairs (escrow_of e))" using ev_nth assms(4) by auto
  have pend: "pv_batch ?p \<noteq> 0" using assms(6) by (simp add: pair_of_def assms(5))
  then have lt: "pv_settled ?p < pv_cum ?p" using sn i nth nth_mem unfolding escrow_sane_def by metis
  obtain b st where e1: "escrow_of e1 = (escrow_of e)\<lparr>ev_pairs := (ev_pairs (escrow_of e))[pi := ?p\<lparr>pv_settled := st\<rparr>], ev_balance := b\<rparr>"
    "pair_of e1 pi = ?p\<lparr>pv_settled := st\<rparr>" "pv_settled ?p \<le> st" "hdr_same e e1" "e1 ! E_PAIR_COUNT = e ! E_PAIR_COUNT"
    using assms(7)
  proof
    assume e1: "e1 = splice e (off + P_SETTLED) (u64_le (get_u64 e (off + P_PENDING_CUM)))"
    have cum: "get_u64 e (pair_off pi + P_PENDING_CUM) = pv_cum ?p" by (simp add: pair_of_def)
    have "escrow_of e1 = (escrow_of e)\<lparr>ev_pairs := (ev_pairs (escrow_of e))[pi := ?p\<lparr>pv_settled := pv_cum ?p\<rparr>]\<rparr>"
      unfolding e1 cum assms(5) by (rule escrow_of_settled [OF assms(4) fit(1)])
    moreover have "pair_of e1 pi = ?p\<lparr>pv_settled := pv_cum ?p\<rparr>"
      unfolding e1 cum assms(5) by (rule pair_of_splice(1) [OF fit(1)])
    ultimately show thesis
      by (intro that [of "ev_balance (escrow_of e)" "pv_cum ?p"])
        (use lt in \<open>simp_all add: e1 assms(5) hdr_same_splice byte_simps pair_off_def\<close>)
  next
    assume e1: "e1 = splice e E_BALANCE (u64_le bal)"
    have "(ev_pairs (escrow_of e))[pi := ?p\<lparr>pv_settled := pv_settled ?p\<rparr>] = ev_pairs (escrow_of e)"
      using nth by (metis list_update_id pair_view.surjective pair_view.update_convs(2))
    then show thesis
      by (intro that [of bal "pv_settled ?p"])
        (use fit in \<open>simp_all add: e1 escrow_header_writes pair_of_hdr hdr_same_splice byte_simps\<close>)
  qed
  let ?q = "?p\<lparr>pv_settled := st, pv_cum := 0, pv_batch := 0\<rparr>"
  let ?e2 = "splice e1 (pair_off pi + P_PENDING_CUM) (u64_le 0)"
  let ?e3 = "splice ?e2 (pair_off pi + P_PENDING_BATCH) (u64_le 0)"
  have l: "length e1 = length e" using e1(4) by (simp add: hdr_same_def)
  have c1: "pi < unat (e1 ! E_PAIR_COUNT)" and f1: "pair_off pi + 56 \<le> length e1" using assms(4) fit e1(5) l by simp_all
  have c2: "pi < unat (?e2 ! E_PAIR_COUNT)" and f2: "pair_off pi + 56 \<le> length ?e2"
    using c1 f1 by (simp_all add: byte_simps pair_off_def)
  have v2: "pair_of ?e2 pi = (pair_of e1 pi)\<lparr>pv_cum := 0\<rparr>" by (rule pair_of_splice(2) [OF f1])
  have e3: "escrow_of ?e3 = (escrow_of e)\<lparr>ev_pairs := (ev_pairs (escrow_of e))[pi := ?q], ev_balance := b\<rparr>"
    unfolding escrow_of_batch [OF c2 f2] v2 escrow_of_cum [OF c1 f1] e1(1,2) by simp
  have len3: "120 \<le> length ?e3" using fit(2) l by simp
  have view: "escrow_of e' = (escrow_of e)\<lparr>ev_pairs := (ev_pairs (escrow_of e))[pi := ?q], ev_balance := b, ev_pending := pc\<rparr>"
    unfolding assms(9,5) escrow_of_pending [OF len3] e3 by simp
  have "get_u16 ?e3 E_PENDING_COUNT = ev_pending (escrow_of ?e3)" by (simp add: escrow_of_def)
  then have "unat (ev_pending (escrow_of e)) = unat pc + 1" using checked_sub_unat [OF assms(8)] e3 by (simp add: assms(5))
  then have "escrow_sane (escrow_of e')"
    unfolding view by (intro escrow_sane_pair [OF sn i]) (use pend in \<open>simp_all add: nth\<close>)
  moreover have "escrow_next (escrow_of e) (escrow_of e')"
    unfolding view by (rule escrow_next_pair [OF escrow_next_refl i]) (use nth e1(3) in simp_all)
  moreover show hdr: "hdr_same e e'"
    unfolding assms(9,5) by (intro hdr_same_splice e1(4)) (simp_all add: pair_off_def)
  ultimately show "moves A pid s (set_data s k e')"
    unfolding assms(3) by (intro escrow_moves [OF assms(1,2)])
qed

lemma resolve_one_moves:
  assumes "resolve_sane pid L accounts B h0 (s, sn, hdr)"
    and "resolve_one rt pid committed accounts body i (s, sn, hdr) = Inr (s', sn', hdr')"
  shows "resolve_sane pid L accounts B h0 (s', sn', hdr') \<and> evolves A pid s s'"
  using assms(2)
proof (cases rule: resolve_one_run)
  case (1 ei pi escrow_acc was e off delta e1 h1 pc out cum settled)
  note run = 1
  let ?E = "key escrow_acc"
  from assms(1) have at: "sane pid s" "is_batch pid (s B)" "batch_of (data (s B)) = h0"
    and rf: "resolved_from h0 hdr" and L: "b_ledger h0 = L"
    and seen: "seen_ok (escrow_in pid L) accounts sn s" by (auto simp: resolve_sane_def batch_at_def)
  have hdr: "b_ledger hdr = L" "b_batch_id hdr = b_batch_id h0"
    using rf L by (cases hdr; cases h0; simp add: resolved_from_def)+
  have "\<not> was \<Longrightarrow> escrow_in pid L (s (key (accounts ! ei)))" using run(5,7) check_escrow_in hdr(1) by metis
  note c = seen_ok_insert [OF seen run(6,4) this]
  have esc: "is_escrow pid (s ?E)" using c(2) by (simp add: run(5) escrow_in_def)
  have bid: "get_u64 e (off + P_PENDING_BATCH) \<noteq> 0"
    using run(12) hdr(2) sane_batch [OF at(1,2)] at(3) by (simp add: batch_sane_def)
  obtain bal where "e1 = splice e (off + P_SETTLED) (u64_le (get_u64 e (off + P_PENDING_CUM))) \<or> e1 = splice e E_BALANCE (u64_le bal)"
    using run(13,16) by metis
  note m = resolve_escrow_moves [OF at(1) esc run(8,9,10) bid this run(17) refl]
  have k: "kept s s'" unfolding run(19) by (rule kept_set_data) (use m(2) run(8) in simp)
  have "B \<noteq> ?E" using at(2) esc kinds_exclusive(4) by metis
  then have "s' B = s B" by (simp add: run(19))
  then have "batch_at pid B h0 s'" using at moves_sane [OF m(1)] by (simp add: batch_at_def run(19))
  moreover have "resolved_from h0 hdr'"
  proof -
    have "b_held h1 \<le> b_held hdr \<and> h1 = hdr\<lparr>b_held := b_held h1\<rparr>"
      using run(16) sub_unat [of "b_held hdr" delta] by (auto simp: word_le_nat_alt)
    moreover have "out \<le> b_outstanding h1" using checked_sub_unat [OF run(18)] by (simp add: word_le_nat_alt)
    ultimately show ?thesis
      using rf unfolding run(20) resolved_from_def by (cases h0; cases hdr; cases h1) (auto intro: order_trans)
  qed
  ultimately show ?thesis
    using m(1) c(1) seen_ok_kept(1) [OF k] L by (simp add: resolve_sane_def moves_def run(19))
qed

interpretation resolve_moves:
  fold_invariant "resolve_one rt pid committed accounts body" "resolve_sane pid L accounts B h0"
    "\<lambda>(s, _) (s', _). evolves A pid s s'"
  for rt pid committed accounts body L B h0 A
proof
  fix st i st'
  assume "resolve_sane pid L accounts B h0 st" and "resolve_one rt pid committed accounts body i st = Inr st'"
  then show "resolve_sane pid L accounts B h0 st' \<and> (case st of (s, _) \<Rightarrow> \<lambda>(s', _). evolves A pid s s') st'"
    by (cases st; cases st') (simp, rule resolve_one_moves)
qed (auto intro: evolves_trans)

lemma resolve_staged_moves:
  assumes "sane pid s" and "resolve_staged rt pid accounts d s = Inr s'"
  shows "moves A pid s s'"
  using assms(2)
proof (cases rule: resolve_staged_run)
  case (1 nb body batch_acc hdr s1 sn h1 bd)
  note run = 1
  let ?L = "b_ledger hdr" and ?B = "key batch_acc"
  have at: "batch_at pid ?B hdr s" by (rule batch_load_at [OF assms(1) run(6)])
  have bs: "batch_sane hdr" using at sane_batch unfolding batch_at_def by blast
  have "resolve_sane pid ?L accounts ?B hdr (s, 0, hdr)" using at by (simp add: resolve_sane_def resolved_from_def)
  with resolve_moves.fold_inv [OF _ run(8), where A = A]
  have "resolve_sane pid ?L accounts ?B hdr (s1, sn, h1)" and ev: "evolves A pid s s1" by simp_all
  then have at1: "batch_at pid ?B hdr s1" and rf: "resolved_from hdr h1" by (auto simp: resolve_sane_def)
  have "batch_next hdr h1 \<and> batch_sane h1"
    using rf bs run(7) by (cases hdr; cases h1) (auto simp: resolved_from_def batch_next_def batch_sane_def)
  then have "moves A pid s1 s'"
    unfolding run(10) by (intro batch_at_finish [OF at1 run(9)]) simp_all
  moreover have "moves A pid s s1" using ev at1 by (simp add: moves_def batch_at_def)
  ultimately show ?thesis by (auto intro: moves_trans)
qed

context solana
begin

lemma close_batch_step:
  assumes "sane pid s" and "close_batch rt pid accounts d s = Inr s'"
  shows "step_ok t A pid s s'"
  using assms(2)
proof (cases rule: close_batch_run)
  case (1 batch_acc submitter rest hdr)
  then have b: "is_batch pid (s (key batch_acc))" "batch_of (data (s (key batch_acc))) = hdr"
    by (simp_all add: batch_load_Inr)
  show ?thesis
    by (rule close_step_ok [OF moves_refl [OF assms(1)] 1(7)])
      (use b 1(3-5) kinds_exclusive(4) [OF b(1)] in \<open>auto simp: closable_def\<close>)
qed

end

end
