(* ===== verification/XsReach.thy ===== *)
theory XsReach
  imports XsMoney XsEvolveBatch
begin

text \<open>
  Invariants of reachable states of \<open>x402_settle\<close>: every account is sane, scopes are never issued
  twice, ledgers that hold lamports cover their liabilities; and how accounts evolve along any
  sequence of steps.
\<close>

section \<open>Covered liabilities\<close>

definition covered :: "u64 \<Rightarrow> account \<Rightarrow> bool" where
  "covered m a \<longleftrightarrow> (l_kind (ledger_of (data a)) = KIND_SOL \<longrightarrow>
     unat (l_liabilities (ledger_of (data a))) \<le> unat (lamports a) - unat m)"

lemma solvent_covered:
  assumes "check_solvency rt l acc v s = Inr ()" and "ledger_of (data (s (key acc))) = l"
  shows "covered (minimum_balance rt LEDGER_LEN) (s (key acc))"
proof -
  have sat: "unat (saturating_sub a b) = unat a - unat b" for a b :: u64
    by (simp add: saturating_sub_def unat_sub word_le_nat_alt)
  show ?thesis
    using assms(1)
    by (auto simp: covered_def assms(2) check_solvency_def holdings_def Let_def linorder_not_less
        word_le_nat_alt sat split: if_splits)
qed

lemma stored_ledger: "ledger_store l acc s = Inr s' \<Longrightarrow> ledger_of (data (s' (key acc))) = l"
  by (auto simp: ledger_store_Inr dest: ledger_codec.pack_of)

context solana
begin

lemma pay_out_same_data:
  assumes "pay_out rt l ledger_acc dest spl amount s = Inr s'"
    and "\<And>v mt tp. spl = Some (v, mt, tp) \<Longrightarrow> key tp \<noteq> pid" and "owner (s k) = pid"
  shows "data (s' k) = data (s k)"
proof -
  have "\<forall>k. owner (s k) = pid \<longrightarrow> owner (s' k) = pid \<and> data (s' k) = data (s k)"
    by (rule conjunct1 [OF pay_out_foreign [OF assms(1)]]) (rule assms(2))
  with assms(3) show ?thesis by simp
qed

lemma deposit_covered:
  assumes "deposit rt pid accounts d s = Inr s'"
  shows "covered (minimum_balance rt LEDGER_LEN) (s' (key (accounts ! 1)))"
  using assms
proof (cases rule: deposit_run)
  case (1 depositor ledger_acc escrow_acc rest payer l c infos s1 e x dl v)
  show ?thesis using solvent_covered [OF 1(13) stored_ledger [OF 1(12)]] by (simp add: 1(1))
qed

lemma withdraw_escrow_covered:
  assumes "books_ok pid s" and "withdraw_escrow rt pid accounts d s = Inr s'"
  shows "covered (minimum_balance rt LEDGER_LEN) (s' (key (accounts ! 1)))"
  using assms(2)
proof (cases rule: withdraw_escrow_run)
  case (1 payer ledger_acc escrow_acc dest rest l spl amount e dl)
  note run = 1
  let ?L = "key ledger_acc"
  note led = run(3) [unfolded ledger_load_Inr]
  have tp: "l_token_program l \<noteq> pid" using books_okD(3) [OF assms(1)] led by auto
  have ne: "?L \<noteq> key escrow_acc"
    using check_escrow_facts(1) [OF run(4)] led kinds_exclusive(1) by metis
  have "ledger_of (data (s' ?L)) = dl"
    using run(11)
  proof (elim disjE conjE exE)
    assume "dl = l" "s' = set_data s (key escrow_acc) e"
    then show ?thesis using ne led by simp
  next
    fix s1
    assume st: "ledger_store dl ledger_acc (set_data s (key escrow_acc) e) = Inr s1"
      and po: "pay_out rt dl ledger_acc dest spl amount s1 = Inr s'"
    have ow: "owner (s1 ?L) = pid" using st led by (auto simp: ledger_store_Inr is_ledger_def)
    have "data (s' ?L) = data (s1 ?L)"
      by (rule pay_out_same_data [OF po _ ow]) (use run(6) tp in auto)
    then show ?thesis using stored_ledger [OF st] by simp
  qed
  with solvent_covered [OF run(12)] show ?thesis by (simp add: run(1))
qed

lemma withdraw_payee_covered:
  assumes "books_ok pid s" and "withdraw_payee rt pid accounts d s = Inr s'"
  shows "covered (minimum_balance rt LEDGER_LEN) (s' (key (accounts ! 1)))"
  using assms(2)
proof (cases rule: withdraw_payee_run)
  case (1 payee ledger_acc book_acc dest rest l spl amount slot b dl s1)
  note run = 1
  let ?L = "key ledger_acc"
  note led = run(8) [unfolded ledger_load_Inr]
  have tp: "l_token_program l \<noteq> pid" using books_okD(3) [OF assms(1)] led by auto
  have ow: "owner (s1 ?L) = pid" using run(16) led by (auto simp: ledger_store_Inr is_ledger_def)
  have "data (s' ?L) = data (s1 ?L)"
    by (rule pay_out_same_data [OF run(17) _ ow]) (use run(11) tp in auto)
  then show ?thesis using solvent_covered [OF run(18)] stored_ledger [OF run(16)] by (simp add: run(1))
qed

lemma init_ledger_covered:
  assumes "init_ledger rt pid accounts d s = Inr s'"
  shows "covered m (s' (key (accounts ! 1)))"
  using assms
proof (cases rule: init_ledger_run)
  case (1 funder ledger_acc it it' mint_key tp_key mint_acc vault_acc dec system bump sd s1 s2 vk vb l)
  show ?thesis using stored_ledger [OF 1(8)] by (simp add: 1(1,7) covered_def)
qed

end

section \<open>Issued scopes\<close>

definition entry_scope :: "key \<Rightarrow> account \<Rightarrow> (key \<times> u64) option" where
  "entry_scope pid a =
     (if is_escrow pid a then Some (ev_ledger (escrow_of (data a)), ev_scope (escrow_of (data a)))
      else if is_channel pid a then Some (c_ledger (channel_of (data a)), c_scope (channel_of (data a)))
      else None)"

definition next_scope :: "store \<Rightarrow> key \<Rightarrow> u64" where
  "next_scope s L = l_next_scope (ledger_of (data (s L)))"

text \<open>A step that issues a scope: the new entry gets the next scope of its ledger.\<close>

definition issues :: "key \<Rightarrow> store \<Rightarrow> store \<Rightarrow> key \<Rightarrow> bool" where
  "issues pid s s' k \<longleftrightarrow> (\<exists>L. is_ledger pid (s L) \<and> entry_scope pid (s' k) = Some (L, next_scope s L) \<and>
     next_scope s L < next_scope s' L \<and> \<not> is_ledger pid (s' k))"

definition step_effect :: "u64 \<Rightarrow> u64 \<Rightarrow> key \<Rightarrow> store \<Rightarrow> store \<Rightarrow> bool" where
  "step_effect t m pid s s' \<longleftrightarrow> (\<exists>k. step_ok t {k} pid s s' \<and>
     (no_entry pid (s k) (s' k) \<or> issues pid s s' k \<or> entry_scope pid (s' k) = None \<and> covered m (s' k)))"

lemma ledger_no_scope: "is_ledger pid a \<Longrightarrow> entry_scope pid a = None"
  using kinds_exclusive(5) by (simp add: entry_scope_def)

lemma set_data_scope: "slice d 0 8 = DISC_ESCROW \<Longrightarrow> owner (s k) = pid \<Longrightarrow> length d = escrow_len (unat (d ! E_CAPACITY)) \<Longrightarrow>
    entry_scope pid (set_data s k d k) = Some (ev_ledger (escrow_of d), ev_scope (escrow_of d))"
  by (simp add: entry_scope_def is_escrow_def)

context solana
begin

lemma open_escrow_issues:
  assumes "sane pid s" and "open_escrow rt pid accounts d s = Inr s'"
  shows "issues pid s s' (key (accounts ! 2))"
  using assms(2)
proof (cases rule: open_escrow_run)
  case (1 payer ledger_acc escrow_acc system rest l bump s1 nx e)
  note run = 1
  let ?E = "key escrow_acc" and ?L = "key ledger_acc"
  note led = run(5) [unfolded ledger_load_Inr]
  have sp: "escrow_len (unat (d ! 0)) < 2 ^ 64" using unat_u8_less [of "d ! 0"] by (simp add: escrow_len_def)
  note c = create_pda_effect [OF run(8) sp]
  have z: "data (s1 ?E) = replicate (escrow_len (unat (d ! 0))) 0" using c by simp
  note e = new_escrow [OF run(10) [unfolded z]]
  have ne: "?L \<noteq> ?E" using c led pid_not_system by (auto simp: is_ledger_def)
  from run(11) obtain ld where s': "s' = set_data (set_data s1 ?E e) ?L ld" by (auto simp: ledger_store_Inr)
  have E: "s' ?E = set_data s1 ?E e ?E" using ne by (simp add: s')
  have "entry_scope pid (s' ?E) = Some (ev_ledger (escrow_of e), ev_scope (escrow_of e))"
    unfolding E by (rule set_data_scope) (use e c in \<open>simp_all add: escrow_len_def\<close>)
  then have sc: "entry_scope pid (s' ?E) = Some (?L, next_scope s ?L)"
    using e(5) led by (simp add: next_scope_def escrow_len_def)
  moreover have "next_scope s ?L < next_scope s' ?L"
    using stored_ledger [OF run(11)] add_unat [OF run(9)] led by (simp add: next_scope_def word_less_nat_alt)
  ultimately show ?thesis
    using led ledger_no_scope by (auto simp: issues_def run(1))
qed

lemma open_channel_issues:
  assumes "sane pid s" and "open_channel rt pid accounts d s = Inr s'"
  shows "issues pid s s' (key (accounts ! 3))"
  using assms(2)
proof (cases rule: open_channel_run)
  case (1 payer ledger_acc escrow_acc channel_acc system rest l amount payee bump e0 e s1 s2 oc nx)
  note run = 1
  let ?E = "key escrow_acc" and ?L = "key ledger_acc" and ?C = "key channel_acc"
  note led = run(4) [unfolded ledger_load_Inr]
  have c: "owner (set_data s ?E e ?C) \<noteq> pid" "owner (s1 ?C) = pid" "length (data (s1 ?C)) = CHANNEL_LEN"
    using create_pda_effect [OF run(14)] pid_not_system by auto
  have ne: "?L \<noteq> ?C" using c(1) led by (auto simp: is_ledger_def)
  from run(16) obtain ld where s2: "s2 = set_data s1 ?L ld" by (auto simp: ledger_store_Inr)
  from run(17) obtain ce where ce: "channel_pack \<lparr>c_bump = bump, c_status = CH_OPEN, c_ledger = key ledger_acc, c_payer = key payer,
        c_payee = payee, c_channel_id = get_u64 d 0, c_scope = l_next_scope l, c_deposit = amount,
        c_balance = amount, c_best_cum = 0, c_expiry_slot = get_u64 d 48, c_dispute_end_slot = 0\<rparr>
       (data (s2 ?C)) = Inr ce" and s': "s' = set_data s2 ?C ce" by (auto simp: channel_store_Inr)
  have C: "is_channel pid (s' ?C)" "channel_of (data (s' ?C)) = \<lparr>c_bump = bump, c_status = CH_OPEN, c_ledger = key ledger_acc, c_payer = key payer,
        c_payee = payee, c_channel_id = get_u64 d 0, c_scope = l_next_scope l, c_deposit = amount,
        c_balance = amount, c_best_cum = 0, c_expiry_slot = get_u64 d 48, c_dispute_end_slot = 0\<rparr>"
    using channel_codec.pack_disc [OF ce] channel_codec.pack_of [OF ce] channel_codec.pack_length [OF ce] c(2,3) ne
    by (simp_all add: s' s2 is_channel_def)
  then have "entry_scope pid (s' ?C) = Some (?L, next_scope s ?L)"
    using kinds_exclusive(3) [OF C(1)] led by (simp add: entry_scope_def next_scope_def)
  moreover have "ledger_of (data (s' ?L)) = l\<lparr>l_next_scope := nx\<rparr>"
    using stored_ledger [OF run(16)] ne by (simp add: s')
  then have "next_scope s ?L < next_scope s' ?L"
    using add_unat [OF run(15)] led by (simp add: next_scope_def word_less_nat_alt)
  ultimately show ?thesis using led kinds_exclusive(3) [OF C(1)] by (auto simp: issues_def run(1))
qed

end

section \<open>Effect of one instruction\<close>

lemma step_effect_quiet: "(\<And>A. moves A pid s s') \<Longrightarrow> step_effect t m pid s s'"
  unfolding step_effect_def
  by (rule exI [of _ "[]"]) (use moves_step_ok [of "{}" pid s s' t] moves_step_ok [of "{[]}" pid s s' t] in
    \<open>auto simp: step_ok_def\<close>)

lemma step_effect_close: "(\<And>A. step_ok t A pid s s') \<Longrightarrow> step_effect t m pid s s'"
  unfolding step_effect_def by (rule exI [of _ "[]"]) (auto simp: step_ok_def)

lemma step_effect_issue: "moves {k} pid s s' \<Longrightarrow> issues pid s s' k \<Longrightarrow> step_effect t m pid s s'"
  unfolding step_effect_def using moves_step_ok by blast

lemma step_effect_ledger:
  assumes "moves {k} pid s s'" and "is_ledger pid (s' k)" and "covered m (s' k)"
  shows "step_effect t m pid s s'"
  unfolding step_effect_def using moves_step_ok [OF assms(1)] assms(2,3) ledger_no_scope by blast

text \<open>The ledger account of an instruction, before and after.\<close>

lemma moves_ledger: "moves A pid s s' \<Longrightarrow> is_ledger pid (s k) \<Longrightarrow> is_ledger pid (s' k)"
  by (simp add: moves_def evolves_def kind_next_def)

lemma deposit_ledger: "deposit rt pid accounts d s = Inr s' \<Longrightarrow> is_ledger pid (s (key (accounts ! 1)))"
  by (erule deposit_run) (simp add: ledger_load_Inr)

lemma withdraw_escrow_ledger: "withdraw_escrow rt pid accounts d s = Inr s' \<Longrightarrow> is_ledger pid (s (key (accounts ! 1)))"
  by (erule withdraw_escrow_run) (simp add: ledger_load_Inr)

lemma withdraw_payee_ledger: "withdraw_payee rt pid accounts d s = Inr s' \<Longrightarrow> is_ledger pid (s (key (accounts ! 1)))"
  by (erule withdraw_payee_run) (simp add: ledger_load_Inr)

context solana
begin

lemma init_ledger_ledger:
  assumes "init_ledger rt pid accounts d s = Inr s'" and "TOKEN_ID \<noteq> pid" and "TOKEN_2022_ID \<noteq> pid"
  shows "is_ledger pid (s' (key (accounts ! 1)))"
  using assms(1)
proof (cases rule: init_ledger_run)
  case (1 funder ledger_acc it it' mint_key tp_key mint_acc vault_acc dec system bump sd s1 s2 vk vb l)
  note run = 1
  let ?L = "key ledger_acc"
  have tp: "\<forall>v tp. vault_acc = Some (v, tp) \<longrightarrow> key tp \<noteq> pid"
    using run(2) by (cases rule: init_ledger_kind_run)
      (use assms(2,3) pid_not_system in \<open>auto simp: SYSTEM_ID_def\<close>)
  have f: "foreign_step pid s1 s2" by (rule init_vault_foreign [OF run(6)]) (use tp in auto)
  have "owner (s1 ?L) = pid" "data (s1 ?L) = replicate LEDGER_LEN 0" using create_pda_effect [OF run(5)] by simp_all
  then have "owner (s2 ?L) = pid" "length (data (s2 ?L)) = LEDGER_LEN" using f by (simp_all add: foreign_step_def)
  with run(8) show ?thesis
    by (auto simp: run(1) ledger_store_Inr is_ledger_def dest: ledger_codec.pack_disc ledger_codec.pack_length)
qed

lemma process_effect:
  assumes "sane pid s" and "books_ok pid s" and "process rt pid accounts d s = Inr s'"
    and "TOKEN_ID \<noteq> pid" and "TOKEN_2022_ID \<noteq> pid"
  shows "step_effect (clock_slot rt) (minimum_balance rt LEDGER_LEN) pid s s'"
proof (cases d)
  case Nil
  with assms(3) show ?thesis by (simp add: process_def)
next
  case (Cons t rest)
  note quiet = grow_escrow_moves request_exit_moves create_book_moves register_payee_moves settle_moves
    close_channels_moves request_channel_close_moves finalize_channel_moves begin_batch_moves stage_chunk_moves
    commit_batch_moves abort_batch_moves resolve_staged_moves
  note q = quiet [OF assms(1), THEN step_effect_quiet]
  note c = close_escrow_step [OF assms(1), THEN step_effect_close] close_batch_step [OF assms(1), THEN step_effect_close]
    reclaim_channel_step [OF assms(1), THEN step_effect_close]
  note i = open_escrow_moves [OF assms(1), THEN step_effect_issue, OF _ open_escrow_issues [OF assms(1)]]
    open_channel_moves [OF assms(1), THEN step_effect_issue, OF _ open_channel_issues [OF assms(1)]]
  have dep: ?thesis if "deposit rt pid accounts rest s = Inr s'"
    using deposit_moves [OF assms(1,2) that] deposit_ledger [OF that] deposit_covered [OF that]
    by (intro step_effect_ledger) (auto intro: moves_ledger)
  have we: ?thesis if "withdraw_escrow rt pid accounts rest s = Inr s'"
    using withdraw_escrow_moves [OF assms(1,2) that] withdraw_escrow_ledger [OF that] withdraw_escrow_covered [OF assms(2) that]
    by (intro step_effect_ledger) (auto intro: moves_ledger)
  have wp: ?thesis if "withdraw_payee rt pid accounts rest s = Inr s'"
    using withdraw_payee_moves [OF assms(1,2) that] withdraw_payee_ledger [OF that] withdraw_payee_covered [OF assms(2) that]
    by (intro step_effect_ledger) (auto intro: moves_ledger)
  have il: ?thesis if "init_ledger rt pid accounts rest s = Inr s'"
    by (rule step_effect_ledger [OF init_ledger_moves [OF assms(1) that assms(4,5)] init_ledger_ledger [OF that assms(4,5)]
          init_ledger_covered [OF that]])
  show ?thesis
    by (insert assms(3) [unfolded process_def Cons list.case if_Inr], elim disjE conjE;
        (rule q c i dep we wp il; assumption)?) simp
qed

end

section \<open>Invariants\<close>

definition scopes_ok :: "key \<Rightarrow> store \<Rightarrow> bool" where
  "scopes_ok pid s \<longleftrightarrow>
     (\<forall>k L n. entry_scope pid (s k) = Some (L, n) \<longrightarrow> is_ledger pid (s L) \<and> n < next_scope s L) \<and>
     (\<forall>j k x. entry_scope pid (s j) = Some x \<longrightarrow> entry_scope pid (s k) = Some x \<longrightarrow> j = k)"

definition all_covered :: "u64 \<Rightarrow> key \<Rightarrow> store \<Rightarrow> bool" where
  "all_covered m pid s \<longleftrightarrow> (\<forall>L. is_ledger pid (s L) \<longrightarrow> covered m (s L))"

definition settle_inv_all :: "u64 \<Rightarrow> key \<Rightarrow> store \<Rightarrow> bool" where
  "settle_inv_all m pid s \<longleftrightarrow> balanced pid s \<and> sane pid s \<and> scopes_ok pid s \<and> all_covered m pid s"

lemma entry_scope_kinds:
  "entry_scope pid a = Some x \<Longrightarrow> owner a = pid \<and> (is_escrow pid a \<or> is_channel pid a)"
  by (auto simp: entry_scope_def kinds_owner split: if_splits)

lemma ledger_next_fixed:
  assumes "ledger_next l l'"
  shows "l_kind l' = l_kind l" "l_mint l' = l_mint l" "l_token_program l' = l_token_program l" "l_vault l' = l_vault l"
    "l_salt l' = l_salt l" "l_exit_delay_slots l' = l_exit_delay_slots l" "l_dispute_slots l' = l_dispute_slots l"
    "l_batch_timeout_slots l' = l_batch_timeout_slots l" "l_next_scope l \<le> l_next_scope l'"
proof -
  have e: "l' = l\<lparr>l_liabilities := l_liabilities l', l_next_scope := l_next_scope l'\<rparr>"
    and "l_next_scope l \<le> l_next_scope l'" using assms by (auto simp: ledger_next_def)
  then show "l_next_scope l \<le> l_next_scope l'" by simp
  show "l_kind l' = l_kind l" "l_mint l' = l_mint l" "l_token_program l' = l_token_program l" "l_vault l' = l_vault l"
    "l_salt l' = l_salt l" "l_exit_delay_slots l' = l_exit_delay_slots l" "l_dispute_slots l' = l_dispute_slots l"
    "l_batch_timeout_slots l' = l_batch_timeout_slots l"
    by (subst e, simp)+
qed

lemma channel_next_fixed:
  assumes "channel_next c c'"
  shows "c_ledger c' = c_ledger c" "c_payer c' = c_payer c" "c_payee c' = c_payee c" "c_scope c' = c_scope c"
    "c_deposit c' = c_deposit c" "c_expiry_slot c' = c_expiry_slot c" "c_channel_id c' = c_channel_id c"
proof -
  have e: "c' = c\<lparr>c_status := c_status c', c_balance := c_balance c', c_best_cum := c_best_cum c',
            c_dispute_end_slot := c_dispute_end_slot c'\<rparr>" using assms by (auto simp: channel_next_def)
  show "c_ledger c' = c_ledger c" "c_payer c' = c_payer c" "c_payee c' = c_payee c" "c_scope c' = c_scope c"
    "c_deposit c' = c_deposit c" "c_expiry_slot c' = c_expiry_slot c" "c_channel_id c' = c_channel_id c"
    by (subst e, simp)+
qed

lemma kind_next_scope:
  assumes "kind_next pid a a'" and "is_escrow pid a \<or> is_channel pid a"
  shows "entry_scope pid a' = entry_scope pid a"
  using assms(2)
proof
  assume "is_escrow pid a"
  with assms(1) have "is_escrow pid a'" "escrow_next (escrow_of (data a)) (escrow_of (data a'))"
    by (auto simp: kind_next_def)
  with \<open>is_escrow pid a\<close> show ?thesis by (simp add: entry_scope_def escrow_next_def)
next
  assume c: "is_channel pid a"
  with assms(1) have c': "is_channel pid a'" "channel_next (channel_of (data a)) (channel_of (data a'))"
    by (auto simp: kind_next_def)
  show ?thesis
    using c c' kinds_exclusive(3) [OF c] kinds_exclusive(3) [OF c'(1)] channel_next_fixed [OF c'(2)]
    by (simp add: entry_scope_def)
qed

lemma step_scope_back:
  assumes "step_ok t A pid s s'" and "entry_scope pid (s' k) = Some x" and "no_entry pid (s k) (s' k)"
  shows "entry_scope pid (s k) = Some x" and "kind_next pid (s k) (s' k)"
proof -
  note k = entry_scope_kinds [OF assms(2)]
  then have old: "is_escrow pid (s k) \<or> is_channel pid (s k)" using assms(3) by (auto simp: no_entry_def)
  show "kind_next pid (s k) (s' k)" using assms(1) k by (auto simp: step_ok_def)
  from kind_next_scope [OF this old] assms(2) show "entry_scope pid (s k) = Some x" by simp
qed

lemma step_ledger:
  assumes "step_ok t A pid s s'" and "is_ledger pid (s L)"
  shows "is_ledger pid (s' L)" and "next_scope s L \<le> next_scope s' L" and "ledger_next (ledger_of (data (s L))) (ledger_of (data (s' L)))"
proof -
  have "kind_next pid (s L) (s' L)" using assms by (auto simp: step_ok_def closable_def)
  then show "is_ledger pid (s' L)" and "next_scope s L \<le> next_scope s' L" and "ledger_next (ledger_of (data (s L))) (ledger_of (data (s' L)))"
    using assms(2) by (auto simp: kind_next_def ledger_next_def next_scope_def)
qed

text \<open>Every entry of the new state is an old one or got a scope never issued before.\<close>

lemma step_scope:
  assumes "step_effect t m pid s s'" and "entry_scope pid (s' k) = Some (L, n)"
  shows "entry_scope pid (s k) = Some (L, n) \<and> kind_next pid (s k) (s' k) \<or>
    is_ledger pid (s L) \<and> n = next_scope s L \<and> next_scope s L < next_scope s' L"
proof -
  from assms(1) obtain j where st: "step_ok t {j} pid s s'" and j: "no_entry pid (s j) (s' j) \<or> issues pid s s' j \<or>
      entry_scope pid (s' j) = None \<and> covered m (s' j)" by (auto simp: step_effect_def)
  show ?thesis
  proof (cases "no_entry pid (s k) (s' k)")
    case True
    then show ?thesis using step_scope_back [OF st assms(2)] by simp
  next
    case False
    with st have "k = j" by (auto simp: step_ok_def)
    with j False assms(2) show ?thesis by (auto simp: issues_def)
  qed
qed

lemma step_scopes_ok:
  assumes "step_effect t m pid s s'" and "scopes_ok pid s"
  shows "scopes_ok pid s'"
proof -
  from assms(1) obtain j where st: "step_ok t {j} pid s s'" and j: "no_entry pid (s j) (s' j) \<or> issues pid s s' j \<or>
      entry_scope pid (s' j) = None \<and> covered m (s' j)" by (auto simp: step_effect_def)
  have old: "entry_scope pid (s k) = Some (L, n) \<and> n < next_scope s L"
    if "entry_scope pid (s' k) = Some (L, n)" "k \<noteq> j" for k L n
    using that st step_scope_back [OF st that(1)] assms(2) by (auto simp: step_ok_def scopes_ok_def)
  have new: "entry_scope pid (s j) = Some (L, n) \<and> n < next_scope s L \<or> n = next_scope s L"
    if "entry_scope pid (s' j) = Some (L, n)" for L n
    using step_scope [OF assms(1) that] assms(2) by (auto simp: scopes_ok_def)
  have "is_ledger pid (s' L) \<and> n < next_scope s' L" if "entry_scope pid (s' k) = Some (L, n)" for k L n
    using step_scope [OF assms(1) that]
  proof (elim disjE conjE)
    assume "entry_scope pid (s k) = Some (L, n)"
    then have "is_ledger pid (s L)" "n < next_scope s L" using assms(2) by (auto simp: scopes_ok_def)
    then show ?thesis using step_ledger [OF st] by fastforce
  qed (use step_ledger [OF st] in auto)
  moreover have "i = k" if x: "entry_scope pid (s' i) = Some x" "entry_scope pid (s' k) = Some x" for i k x
  proof -
    obtain L n where Ln: "x = (L, n)" by (cases x)
    have uniq: "entry_scope pid (s i) = Some x \<Longrightarrow> entry_scope pid (s k) = Some x \<Longrightarrow> i = k"
      using assms(2) unfolding scopes_ok_def by blast
    show ?thesis
    proof (rule ccontr)
      assume ne: "i \<noteq> k"
      then consider "k \<noteq> j" "i \<noteq> j" | "i = j" "k \<noteq> j" | "k = j" "i \<noteq> j" by auto
      then show False
        using old [of i L n] old [of k L n] new [of L n] x uniq ne by cases (auto simp: Ln)
    qed
  qed
  ultimately show ?thesis unfolding scopes_ok_def by blast
qed

lemma step_covered:
  assumes "step_effect t m pid s s'" and "all_covered m pid s"
  shows "all_covered m pid s'"
  unfolding all_covered_def
proof (intro allI impI)
  fix L
  assume L: "is_ledger pid (s' L)"
  from assms(1) obtain j where st: "step_ok t {j} pid s s'" and j: "no_entry pid (s j) (s' j) \<or> issues pid s s' j \<or>
      entry_scope pid (s' j) = None \<and> covered m (s' j)" by (auto simp: step_effect_def)
  show "covered m (s' L)"
  proof (cases "no_entry pid (s L) (s' L)")
    case True
    with L have n: "is_ledger pid (s L)" "lamports (s L) \<le> lamports (s' L)"
      "l_liabilities (ledger_of (data (s' L))) = l_liabilities (ledger_of (data (s L)))" by (auto simp: no_entry_def)
    then have "covered m (s L)" using assms(2) by (simp add: all_covered_def)
    moreover have "l_kind (ledger_of (data (s' L))) = l_kind (ledger_of (data (s L)))"
      by (rule ledger_next_fixed(1) [OF step_ledger(3) [OF st n(1)]])
    ultimately show ?thesis using n by (auto simp: covered_def word_le_nat_alt)
  next
    case False
    with st have "L = j" by (auto simp: step_ok_def)
    with j False L show ?thesis by (auto simp: issues_def)
  qed
qed

text \<open>A step of the cluster in slot \<open>t\<close>: what an instruction reads as the clock is the slot it runs in.\<close>

inductive cluster_step_at :: "u64 \<Rightarrow> u64 \<Rightarrow> key \<Rightarrow> store \<Rightarrow> store \<Rightarrow> bool" for t m pid where
  instruction_at: "solana rt pid \<Longrightarrow> minimum_balance rt LEDGER_LEN = m \<Longrightarrow> clock_slot rt = t \<Longrightarrow>
    process rt pid accounts d s = Inr s' \<Longrightarrow> cluster_step_at t m pid s s'"
| foreign_at: "foreign_step pid s s' \<Longrightarrow> cluster_step_at t m pid s s'"

lemma cluster_step_slot: "cluster_step m pid s s' \<longleftrightarrow> (\<exists>t. cluster_step_at t m pid s s')"
  by (auto simp: cluster_step.simps cluster_step_at.simps)

lemma cluster_step_at_effect:
  assumes "cluster_step_at t m pid s s'" and "settle_inv_all m pid s" and "TOKEN_ID \<noteq> pid" and "TOKEN_2022_ID \<noteq> pid"
  shows "step_effect t m pid s s'"
  using assms(1)
proof (cases rule: cluster_step_at.cases)
  case (instruction_at rt accounts d)
  have "books_ok pid s" "sane pid s" using assms(2) by (auto simp: settle_inv_all_def balanced_def)
  with solana.process_effect [OF instruction_at(1) _ _ instruction_at(4) assms(3,4)] instruction_at(2,3) show ?thesis by simp
next
  case foreign_at
  have "sane pid s" using assms(2) by (simp add: settle_inv_all_def)
  then have "moves A pid s s'" for A using foreign_at by (intro foreign_moves)
  then show ?thesis using step_effect_quiet by blast
qed

lemma cluster_step_effect:
  assumes "cluster_step m pid s s'" and "settle_inv_all m pid s" and "TOKEN_ID \<noteq> pid" and "TOKEN_2022_ID \<noteq> pid"
  shows "\<exists>t. step_effect t m pid s s'"
  using assms(1) cluster_step_at_effect [OF _ assms(2-4)] unfolding cluster_step_slot by blast

lemma cluster_step_inv:
  assumes "cluster_step m pid s s'" and "settle_inv_all m pid s" and "TOKEN_ID \<noteq> pid" and "TOKEN_2022_ID \<noteq> pid"
  shows "settle_inv_all m pid s'"
proof -
  obtain t where e: "step_effect t m pid s s'" using cluster_step_effect [OF assms] by blast
  then have "sane pid s'" by (auto simp: step_effect_def step_ok_def)
  then show ?thesis
    using cluster_step_balanced [OF assms(1) _ assms(3,4)] step_scopes_ok [OF e] step_covered [OF e] assms(2)
    by (simp add: settle_inv_all_def)
qed

lemma genesis_inv:
  assumes "\<And>k. owner (s k) \<noteq> pid"
  shows "settle_inv_all m pid s"
  using genesis_balanced [OF assms] not_owned_no_kind [OF assms]
  by (simp add: settle_inv_all_def sane_def acct_sane_def scopes_ok_def all_covered_def entry_scope_def)

lemma reachable_inv:
  assumes "reachable m pid s" and "TOKEN_ID \<noteq> pid" and "TOKEN_2022_ID \<noteq> pid"
  shows "settle_inv_all m pid s"
  using assms(1)
proof (induction rule: reachable.induct)
  case (genesis s)
  then show ?case by (rule genesis_inv)
next
  case (step s s')
  then show ?case using cluster_step_inv assms(2,3) by blast
qed

section \<open>Along sequences of steps\<close>

lemma cluster_steps_inv:
  assumes "cluster_steps m pid s s'" and "settle_inv_all m pid s" and "TOKEN_ID \<noteq> pid" and "TOKEN_2022_ID \<noteq> pid"
  shows "settle_inv_all m pid s'"
  using assms(1,2)
proof (induction rule: cluster_steps.induct)
  case none
  then show ?case .
next
  case more
  then show ?case using cluster_step_inv assms(3,4) by blast
qed

lemma steps_ledger:
  assumes "cluster_steps m pid s s'" and "settle_inv_all m pid s" and "TOKEN_ID \<noteq> pid" and "TOKEN_2022_ID \<noteq> pid"
    and "is_ledger pid (s L)"
  shows "is_ledger pid (s' L) \<and> ledger_next (ledger_of (data (s L))) (ledger_of (data (s' L)))"
  using assms(1,2,5)
proof (induction rule: cluster_steps.induct)
  case none
  then show ?case by simp
next
  case (more s1 s2 s3)
  have i2: "settle_inv_all m pid s2" by (rule cluster_steps_inv [OF more(1) more(4) assms(3,4)])
  obtain t where "step_effect t m pid s2 s3" using cluster_step_effect [OF more(2) i2 assms(3,4)] by blast
  then obtain j where "step_ok t {j} pid s2 s3" by (auto simp: step_effect_def)
  with step_ledger(1,3) more show ?case by (meson ledger_next_trans)
qed

text \<open>A scope issued before \<open>s\<close> can only be held by the account that held it in \<open>s\<close>.\<close>

lemma steps_scope:
  assumes "cluster_steps m pid s s'" and "settle_inv_all m pid s" and "TOKEN_ID \<noteq> pid" and "TOKEN_2022_ID \<noteq> pid"
    and "is_ledger pid (s L)" and "n < next_scope s L" and "entry_scope pid (s' k) = Some (L, n)"
  shows "entry_scope pid (s k) = Some (L, n) \<and> kind_next pid (s k) (s' k)"
  using assms(1,2,5-7)
proof (induction rule: cluster_steps.induct)
  case none
  then show ?case by simp
next
  case (more s1 s2 s3)
  have i2: "settle_inv_all m pid s2" by (rule cluster_steps_inv [OF more(1) more(4) assms(3,4)])
  obtain t where e: "step_effect t m pid s2 s3" using cluster_step_effect [OF more(2) i2 assms(3,4)] by blast
  have "n < next_scope s2 L"
    using steps_ledger [OF more(1,4) assms(3,4) more(5)] more(6) by (auto simp: next_scope_def ledger_next_def)
  with step_scope [OF e more(7)] have s2: "entry_scope pid (s2 k) = Some (L, n)" "kind_next pid (s2 k) (s3 k)" by auto
  with more(3) [OF more(4-6)] kind_next_trans show ?case by blast
qed

end
