(* ===== verification/XsEffect.thy ===== *)
theory XsEffect
  imports XsReach
begin

text \<open>
  Exact effects: what a settled voucher does to the escrow and the book it names, as functions on
  their views; and an abstract ledger of balances and settled amounts that the settlement
  instructions refine.
\<close>

section \<open>Voucher settlement on views\<close>

definition pay_view :: "b2 \<Rightarrow> escrow_view \<Rightarrow> escrow_view" where
  "pay_view v x =
     (let ps = ev_pairs x @ (if b2_append v then [\<lparr>pv_payee = b2_payee v, pv_settled = 0, pv_cum = 0, pv_batch = 0\<rparr>] else [])
      in x\<lparr>ev_pairs := ps[b2_pair_ix v := (ps ! b2_pair_ix v)\<lparr>pv_settled := b2_cumulative v\<rparr>],
           ev_balance := ev_balance x - b2_delta v\<rparr>)"

definition credit_view :: "nat \<Rightarrow> u64 \<Rightarrow> book_view \<Rightarrow> book_view" where
  "credit_view i amount b = b\<lparr>bv_slots := (bv_slots b)[i := (fst (bv_slots b ! i), snd (bv_slots b ! i) + amount)]\<rparr>"

lemma settle_apply_view_all:
  assumes "sane pid s" and "settle_apply accounts v s = Inr s'" and "voucher_ok accounts v settled s"
    and "escrow_in pid L (s (key (accounts ! b2_escrow_ix v)))"
    and "book_in pid L (s (key (accounts ! b2_book_ix v)))" and "b2_slot v < BOOK_SLOTS"
  shows "escrow_of (data (s' (key (accounts ! b2_escrow_ix v)))) = pay_view v (escrow_of (data (s (key (accounts ! b2_escrow_ix v))))) \<and>
    book_of (data (s' (key (accounts ! b2_book_ix v)))) =
      credit_view (b2_slot v) (b2_delta v) (book_of (data (s (key (accounts ! b2_book_ix v))))) \<and>
    unat (snd (bv_slots (book_of (data (s (key (accounts ! b2_book_ix v))))) ! b2_slot v)) + unat (b2_delta v) < 2 ^ 64 \<and>
    b2_delta v \<le> ev_balance (escrow_of (data (s (key (accounts ! b2_escrow_ix v))))) \<and>
    (\<forall>k. k \<noteq> key (accounts ! b2_escrow_ix v) \<longrightarrow> k \<noteq> key (accounts ! b2_book_ix v) \<longrightarrow> s' k = s k) \<and>
    lamports (s' k) = lamports (s k) \<and> key (accounts ! b2_escrow_ix v) \<noteq> key (accounts ! b2_book_ix v)"
  using assms(2)
proof (cases rule: settle_apply_run)
  case (1 escrow_acc book_acc e e2 off bal s1 bal')
  note run = 1
  let ?E = "key escrow_acc" and ?B = "key book_acc" and ?i = "b2_pair_ix v"
  have esc: "is_escrow pid (s ?E)" and bk: "is_book pid (s ?B)"
    using assms(4,5) by (simp_all add: run(2,4) escrow_in_def book_in_def)
  have ne: "?E \<noteq> ?B" using esc bk kinds_exclusive(2) by metis
  have vo: "find_pair (data (s ?E)) ?i (b2_payee v) = Inr (b2_append v, settled)" "b2_payee v \<noteq> replicate 32 0"
    using assms(3) by (auto simp: voucher_ok_def run(2))
  note p = voucher_pair [OF vo(1) run(5) sane_escrow [OF assms(1) esc] vo(2)]
  note fit = pair_fits [OF escrow_hdr_len [OF esc p(3)] p(6,4)]
  let ?e = "splice e2 E_BALANCE (u64_le bal)"
  have small: "unat (data (s ?E) ! E_PAIR_COUNT) < 255" if "b2_append v"
    using find_pair_view(1) [OF vo(1) that] unat_u8_less [of "data (s ?E) ! E_CAPACITY"] by linarith
  have app: "escrow_of e = (escrow_of (data (s ?E)))\<lparr>ev_pairs := ev_pairs (escrow_of (data (s ?E))) @
      (if b2_append v then [\<lparr>pv_payee = b2_payee v, pv_settled = 0, pv_cum = 0, pv_batch = 0\<rparr>] else [])\<rparr>"
  proof (cases "b2_append v")
    case True
    with pair_entry_view(3) [OF run(5) small [OF True]] find_pair_view(1) [OF vo(1) True] show ?thesis by simp
  next
    case False
    then show ?thesis using run(5) by (simp add: pair_entry_def)
  qed
  have e2: "escrow_of e2 = (escrow_of e)\<lparr>ev_pairs := (ev_pairs (escrow_of e))[?i := (pair_of e ?i)\<lparr>pv_settled := b2_cumulative v\<rparr>]\<rparr>"
    unfolding run(7) p(1) by (rule escrow_of_settled [OF p(4) fit(1)])
  have l2: "120 \<le> length e2" using fit(2) by (simp add: run(7))
  have nth: "pair_of e ?i = ev_pairs (escrow_of e) ! ?i" using ev_nth [OF p(4)] by simp
  have b0: "get_u64 e2 E_BALANCE = ev_balance (escrow_of (data (s ?E)))"
    using arg_cong [OF e2, of ev_balance] app by (simp add: escrow_of_def)
  have bal: "b2_delta v \<le> ev_balance (escrow_of (data (s ?E)))" "bal = ev_balance (escrow_of (data (s ?E))) - b2_delta v"
    using run(8) b0 by (simp_all add: sub_Inr)
  have E: "escrow_of ?e = pay_view v (escrow_of (data (s ?E)))"
    unfolding escrow_of_balance [OF l2] e2 nth app bal(2) by (simp add: pay_view_def Let_def)
  have s1B: "s1 ?B = s ?B" using ne by (simp add: run(9))
  have len: "slot_off (b2_slot v) + 40 \<le> length (data (s ?B))"
    using bk assms(6) by (simp add: is_book_def slot_off_def)
  have sl: "bv_slots (book_of (data (s ?B))) ! b2_slot v =
      (slice (data (s ?B)) (slot_off (b2_slot v)) 32, get_u64 (data (s ?B)) (slot_off (b2_slot v) + S_BALANCE))"
    by (rule bv_nth [OF assms(6)])
  have B: "book_of (splice (data (s ?B)) (slot_off (b2_slot v) + S_BALANCE) (u64_le bal')) =
      credit_view (b2_slot v) (b2_delta v) (book_of (data (s ?B)))"
    unfolding book_of_balance [OF assms(6) len] using run(10) s1B by (simp add: credit_view_def sl add_Inr)
  show ?thesis
    unfolding run(2,4) [symmetric]
    using E B ne bal(1) run(10) s1B sl by (simp add: run(9,11) add_Inr)
qed

lemma settle_apply_view:
  assumes "sane pid s" and "settle_apply accounts v s = Inr s'" and "voucher_ok accounts v settled s"
    and "escrow_in pid L (s (key (accounts ! b2_escrow_ix v)))"
    and "book_in pid L (s (key (accounts ! b2_book_ix v)))" and "b2_slot v < BOOK_SLOTS"
  shows "escrow_of (data (s' (key (accounts ! b2_escrow_ix v)))) = pay_view v (escrow_of (data (s (key (accounts ! b2_escrow_ix v)))))"
    and "book_of (data (s' (key (accounts ! b2_book_ix v)))) =
      credit_view (b2_slot v) (b2_delta v) (book_of (data (s (key (accounts ! b2_book_ix v)))))"
    and "unat (snd (bv_slots (book_of (data (s (key (accounts ! b2_book_ix v))))) ! b2_slot v)) + unat (b2_delta v) < 2 ^ 64"
    and "b2_delta v \<le> ev_balance (escrow_of (data (s (key (accounts ! b2_escrow_ix v)))))"
    and "\<And>k. k \<noteq> key (accounts ! b2_escrow_ix v) \<Longrightarrow> k \<noteq> key (accounts ! b2_book_ix v) \<Longrightarrow> s' k = s k"
    and "lamports (s' k) = lamports (s k)"
    and "key (accounts ! b2_escrow_ix v) \<noteq> key (accounts ! b2_book_ix v)"
  using settle_apply_view_all [OF assms] by (simp_all only: simp_thms)

section \<open>Abstract ledger\<close>

text \<open>
  A tab is an escrow without its layout: the balance and, per payee, the amount settled so far.
  \<open>pay\<close> settles a cumulative amount: the payee's slot receives what the escrow had not paid yet.
\<close>

record tab =
  t_balance :: nat
  t_settled :: "key \<Rightarrow> nat"

fun settled_of :: "pair_view list \<Rightarrow> key \<Rightarrow> nat" where
  "settled_of [] p = 0"
| "settled_of (q # qs) p = (if pv_payee q = p then unat (pv_settled q) else settled_of qs p)"

definition escrow_tab :: "escrow_view \<Rightarrow> tab" where
  "escrow_tab x = \<lparr>t_balance = unat (ev_balance x), t_settled = settled_of (ev_pairs x)\<rparr>"

definition book_tab :: "book_view \<Rightarrow> (key \<times> nat) list" where
  "book_tab b = map (\<lambda>(k, x). (k, unat x)) (bv_slots b)"

type_synonym tabs = "(key \<Rightarrow> tab option) \<times> (key \<Rightarrow> (key \<times> nat) list option)"

definition tabs_of :: "key \<Rightarrow> store \<Rightarrow> tabs" where
  "tabs_of pid s =
     ((\<lambda>k. if is_escrow pid (s k) then Some (escrow_tab (escrow_of (data (s k)))) else None),
      (\<lambda>k. if is_book pid (s k) then Some (book_tab (book_of (data (s k)))) else None))"

record payment =
  p_escrow :: key
  p_book :: key
  p_slot :: nat
  p_amount :: nat

definition pay :: "payment \<Rightarrow> tabs \<Rightarrow> tabs option" where
  "pay p T = (case T of (E, B) \<Rightarrow> (case (E (p_escrow p), B (p_book p)) of
     (Some t, Some b) \<Rightarrow>
       let payee = fst (b ! p_slot p); due = p_amount p - t_settled t payee in
       if p_slot p < length b \<and> payee \<noteq> replicate 32 0 \<and> t_settled t payee < p_amount p \<and> due \<le> t_balance t
       then Some (E(p_escrow p \<mapsto> \<lparr>t_balance = t_balance t - due, t_settled = (t_settled t)(payee := p_amount p)\<rparr>),
                  B(p_book p \<mapsto> b[p_slot p := (payee, snd (b ! p_slot p) + due)]))
       else None
     | _ \<Rightarrow> None))"

fun pay_all :: "payment list \<Rightarrow> tabs \<Rightarrow> tabs option" where
  "pay_all [] T = Some T"
| "pay_all (p # ps) T = (case pay p T of None \<Rightarrow> None | Some T' \<Rightarrow> pay_all ps T')"

lemma settled_of_fresh: "p \<notin> set (map pv_payee ps) \<Longrightarrow> settled_of ps p = 0"
  by (induction ps) auto

lemma settled_of_append: "pv_payee q \<notin> set (map pv_payee ps) \<Longrightarrow>
    settled_of (ps @ [q]) = (settled_of ps)(pv_payee q := unat (pv_settled q))"
  by (induction ps) (auto simp: fun_eq_iff)

lemma settled_of_nth: "distinct (map pv_payee ps) \<Longrightarrow> i < length ps \<Longrightarrow>
    settled_of ps (pv_payee (ps ! i)) = unat (pv_settled (ps ! i))"
proof (induction ps arbitrary: i)
  case Nil
  then show ?case by simp
next
  case (Cons q qs)
  show ?case
  proof (cases i)
    case (Suc j)
    with Cons.prems have "pv_payee (qs ! j) \<in> pv_payee ` set qs" by simp
    with Suc Cons show ?thesis by auto
  qed simp
qed

lemma settled_of_update: "distinct (map pv_payee ps) \<Longrightarrow> i < length ps \<Longrightarrow> pv_payee q = pv_payee (ps ! i) \<Longrightarrow>
    settled_of (ps[i := q]) = (settled_of ps)(pv_payee q := unat (pv_settled q))"
proof (induction ps arbitrary: i)
  case Nil
  then show ?case by simp
next
  case (Cons x xs)
  show ?case
  proof (cases i)
    case 0
    with Cons.prems show ?thesis by (auto simp: fun_eq_iff)
  next
    case (Suc j)
    with Cons.prems have "pv_payee (xs ! j) \<in> pv_payee ` set xs" by simp
    with Suc Cons.prems have "pv_payee x \<noteq> pv_payee q" by auto
    with Suc Cons.prems Cons.IH [of j] show ?thesis by (auto simp: fun_eq_iff)
  qed
qed

text \<open>Paying on views is paying on tabs; the voucher's index plays no role.\<close>

lemma pay_view_tab:
  assumes "find_pair d (b2_pair_ix v) (b2_payee v) = Inr (b2_append v, settled)" and "escrow_sane (escrow_of d)"
    and "settled < b2_cumulative v" and "b2_delta v = b2_cumulative v - settled"
    and "b2_delta v \<le> ev_balance (escrow_of d)"
  shows "settled_of (ev_pairs (escrow_of d)) (b2_payee v) = unat settled"
    and "escrow_tab (pay_view v (escrow_of d)) =
      \<lparr>t_balance = unat (ev_balance (escrow_of d)) - (unat (b2_cumulative v) - unat settled),
       t_settled = (settled_of (ev_pairs (escrow_of d)))(b2_payee v := unat (b2_cumulative v))\<rparr>"
proof -
  let ?ps = "ev_pairs (escrow_of d)"
  have dst: "distinct (map pv_payee ?ps)" using assms(2) by (simp add: escrow_sane_def)
  have delta: "unat (b2_delta v) = unat (b2_cumulative v) - unat settled"
    using assms(3,4) by (simp add: unat_sub word_le_nat_alt word_less_nat_alt)
  have bal: "unat (ev_balance (escrow_of d) - b2_delta v) = unat (ev_balance (escrow_of d)) - unat (b2_delta v)"
    using assms(5) by (rule unat_sub)
  show "settled_of ?ps (b2_payee v) = unat settled"
    and "escrow_tab (pay_view v (escrow_of d)) =
      \<lparr>t_balance = unat (ev_balance (escrow_of d)) - (unat (b2_cumulative v) - unat settled),
       t_settled = (settled_of ?ps)(b2_payee v := unat (b2_cumulative v))\<rparr>"
  proof (atomize (full), cases "b2_append v")
    case True
    note f = find_pair_view(1) [OF assms(1) True]
    have ix: "b2_pair_ix v = length ?ps" using f by simp
    have upd: "(?ps @ [\<lparr>pv_payee = b2_payee v, pv_settled = 0, pv_cum = 0, pv_batch = 0\<rparr>])[b2_pair_ix v :=
          ((?ps @ [\<lparr>pv_payee = b2_payee v, pv_settled = 0, pv_cum = 0, pv_batch = 0\<rparr>]) ! b2_pair_ix v)
            \<lparr>pv_settled := b2_cumulative v\<rparr>] =
        ?ps @ [\<lparr>pv_payee = b2_payee v, pv_settled = b2_cumulative v, pv_cum = 0, pv_batch = 0\<rparr>]"
      unfolding ix by (simp del: ev_length)
    have "settled_of (?ps @ [\<lparr>pv_payee = b2_payee v, pv_settled = b2_cumulative v, pv_cum = 0, pv_batch = 0\<rparr>]) =
        (settled_of ?ps)(b2_payee v := unat (b2_cumulative v))"
      using settled_of_append [of "\<lparr>pv_payee = b2_payee v, pv_settled = b2_cumulative v, pv_cum = 0, pv_batch = 0\<rparr>" ?ps] f by simp
    then show "settled_of ?ps (b2_payee v) = unat settled \<and>
      escrow_tab (pay_view v (escrow_of d)) =
      \<lparr>t_balance = unat (ev_balance (escrow_of d)) - (unat (b2_cumulative v) - unat settled),
       t_settled = (settled_of ?ps)(b2_payee v := unat (b2_cumulative v))\<rparr>"
      using True conjunct2 [OF f] bal delta settled_of_fresh [of "b2_payee v" ?ps]
      by (simp add: escrow_tab_def pay_view_def Let_def upd)
  next
    case False
    note f = find_pair_view(2) [OF assms(1) False]
    have nth: "?ps ! b2_pair_ix v = pair_of d (b2_pair_ix v)" using f ev_nth by simp
    have i: "b2_pair_ix v < length ?ps" using f by simp
    have "settled_of ?ps (b2_payee v) = unat settled" using settled_of_nth [OF dst i] nth f by simp
    moreover have "settled_of (?ps[b2_pair_ix v := (?ps ! b2_pair_ix v)\<lparr>pv_settled := b2_cumulative v\<rparr>]) =
        (settled_of ?ps)(b2_payee v := unat (b2_cumulative v))"
      using settled_of_update [OF dst i, of "(?ps ! b2_pair_ix v)\<lparr>pv_settled := b2_cumulative v\<rparr>"] nth f by simp
    ultimately show "settled_of ?ps (b2_payee v) = unat settled \<and>
      escrow_tab (pay_view v (escrow_of d)) =
      \<lparr>t_balance = unat (ev_balance (escrow_of d)) - (unat (b2_cumulative v) - unat settled),
       t_settled = (settled_of ?ps)(b2_payee v := unat (b2_cumulative v))\<rparr>"
      using False bal delta by (simp add: escrow_tab_def pay_view_def Let_def)
  qed
qed

section \<open>Settlement refines payment\<close>

definition payment_of :: "account_info list \<Rightarrow> wire_voucher \<Rightarrow> payment" where
  "payment_of accounts w = \<lparr>p_escrow = key (accounts ! unat (wv_escrow_ix w)), p_book = key (accounts ! unat (wv_book_ix w)),
     p_slot = unat (wv_slot w), p_amount = unat (wv_cumulative w)\<rparr>"

lemma verify_b2_indices:
  assumes "verify_b2 rt pid ctx accounts w first_ix nbw s es bs = Inr (v, es', bs')"
  shows "b2_escrow_ix v = unat (wv_escrow_ix w)" "b2_book_ix v = unat (wv_book_ix w)" "b2_slot v = unat (wv_slot w)"
  using assms by (auto simp: verify_b2_def Let_def split: if_splits)

lemma tabs_of_kept:
  assumes "\<And>k. k \<noteq> E \<Longrightarrow> k \<noteq> B \<Longrightarrow> s' k = s k" and "E \<noteq> B"
    and "is_escrow pid (s' E)" and "is_book pid (s' B)" and "is_escrow pid (s E)" and "is_book pid (s B)"
  shows "tabs_of pid s' =
    ((fst (tabs_of pid s))(E \<mapsto> escrow_tab (escrow_of (data (s' E)))), (snd (tabs_of pid s))(B \<mapsto> book_tab (book_of (data (s' B)))))"
  using assms(1) assms(2-) kinds_exclusive(2)
  by (force simp: tabs_of_def fun_eq_iff)

lemma settle_apply_pay:
  assumes "sane pid s" and "settle_apply accounts v s = Inr s'" and "voucher_ok accounts v settled s"
    and "escrow_in pid L (s (key (accounts ! b2_escrow_ix v)))"
    and "book_in pid L (s (key (accounts ! b2_book_ix v)))" and "b2_slot v < BOOK_SLOTS"
    and "b2_payee v = slice (data (s (key (accounts ! b2_book_ix v)))) (slot_off (b2_slot v)) 32"
  shows "pay \<lparr>p_escrow = key (accounts ! b2_escrow_ix v), p_book = key (accounts ! b2_book_ix v), p_slot = b2_slot v,
      p_amount = unat (b2_cumulative v)\<rparr> (tabs_of pid s) = Some (tabs_of pid s')"
proof -
  let ?E = "key (accounts ! b2_escrow_ix v)" and ?B = "key (accounts ! b2_book_ix v)" and ?i = "b2_slot v"
  note view = settle_apply_view [OF assms(1-6)]
  have esc: "is_escrow pid (s ?E)" and bk: "is_book pid (s ?B)" using assms(4,5) by (simp_all add: escrow_in_def book_in_def)
  have m: "moves {} pid s s'" by (rule settle_apply_moves(1) [OF assms(1-6)])
  have esc': "is_escrow pid (s' ?E)" and bk': "is_book pid (s' ?B)"
    using m esc bk by (auto simp: moves_def evolves_def kind_next_def)
  have vo: "find_pair (data (s ?E)) (b2_pair_ix v) (b2_payee v) = Inr (b2_append v, settled)"
    "b2_payee v \<noteq> replicate 32 0" "settled < b2_cumulative v" "b2_delta v = b2_cumulative v - settled"
    using assms(3) by (simp_all add: voucher_ok_def)
  note t = pay_view_tab [OF vo(1) sane_escrow [OF assms(1) esc] vo(3,4) view(4)]
  have delta: "unat (b2_delta v) = unat (b2_cumulative v) - unat settled"
    using vo(3,4) by (simp add: unat_sub word_le_nat_alt word_less_nat_alt)
  let ?sl = "bv_slots (book_of (data (s ?B)))"
  have sl: "?sl ! ?i = (b2_payee v, snd (?sl ! ?i))" using bv_nth [OF assms(6)] assms(7) by simp
  have "book_tab (book_of (data (s' ?B))) =
      (book_tab (book_of (data (s ?B))))[?i := (b2_payee v, unat (snd (?sl ! ?i)) + unat (b2_delta v))]"
    unfolding view(2) using view(3) sl
    by (simp add: book_tab_def credit_view_def map_update unat_word_ariths) (metis fst_conv)
  moreover have "book_tab (book_of (data (s ?B))) ! ?i = (b2_payee v, unat (snd (?sl ! ?i)))"
    using sl assms(6) by (simp add: book_tab_def split_beta)  (metis fst_conv)
  moreover have "length (book_tab (book_of (data (s ?B)))) = BOOK_SLOTS" by (simp add: book_tab_def)
  moreover have "tabs_of pid s' =
    ((fst (tabs_of pid s))(?E \<mapsto> escrow_tab (escrow_of (data (s' ?E)))), (snd (tabs_of pid s))(?B \<mapsto> book_tab (book_of (data (s' ?B)))))"
    by (rule tabs_of_kept [OF view(5) view(7) esc' bk' esc bk])
  moreover have "fst (tabs_of pid s) ?E = Some (escrow_tab (escrow_of (data (s ?E))))"
    "snd (tabs_of pid s) ?B = Some (book_tab (book_of (data (s ?B))))" using esc bk by (simp_all add: tabs_of_def)
  ultimately show ?thesis
    using t vo(2,3) delta view(1,4) assms(6)
    by (cases "tabs_of pid s") (simp add: pay_def escrow_tab_def Let_def word_less_nat_alt word_le_nat_alt)
qed

lemma settle_one_pay:
  assumes "settle_sane pid (ctx_ledger ctx) accounts (s, es, bs)"
    and "settle_one rt pid ctx accounts body i (s, es, bs) = Inr (s', es', bs')"
  obtains w where "voucher_decode (slice body (i * VOUCHER_WIRE_LEN) VOUCHER_WIRE_LEN) = Inr w"
    and "pay (payment_of accounts w) (tabs_of pid s) = Some (tabs_of pid s')"
proof -
  from assms(2) obtain w v where w: "voucher_decode (slice body (i * VOUCHER_WIRE_LEN) VOUCHER_WIRE_LEN) = Inr w"
    and v: "verify_b2 rt pid ctx accounts w 1 True s es bs = Inr (v, es', bs')"
    and a: "settle_apply accounts v s = Inr s'" by (auto simp: settle_one_def Let_def)
  from assms(1) have sn: "sane pid s" and seen: "seen_ok (escrow_in pid (ctx_ledger ctx)) accounts es s"
    "seen_ok (book_in pid (ctx_ledger ctx)) accounts bs s" by (auto simp: settle_sane_def)
  obtain settled where vo: "voucher_ok accounts v settled s" by (rule verify_b2_ok [OF v])
  note c = verify_b2_checked [OF v seen]
  have payee: "b2_payee v = slice (data (s (key (accounts ! b2_book_ix v)))) (slot_off (b2_slot v)) 32"
    and cum: "b2_cumulative v = wv_cumulative w" using v by (auto elim: verify_b2_run)
  from settle_apply_pay [OF sn a vo c(4,5,3) payee]
  have "pay (payment_of accounts w) (tabs_of pid s) = Some (tabs_of pid s')"
    by (simp add: payment_of_def verify_b2_indices [OF v] cum)
  with w show thesis by (rule that)
qed

lemma settle_fold_pay:
  assumes "settle_sane pid (ctx_ledger ctx) accounts (s, es, bs)"
    and "foldE (settle_one rt pid ctx accounts body) is (s, es, bs) = Inr (s', es', bs')"
  shows "\<exists>ws. list_all2 (\<lambda>i w. voucher_decode (slice body (i * VOUCHER_WIRE_LEN) VOUCHER_WIRE_LEN) = Inr w) is ws \<and>
    pay_all (map (payment_of accounts) ws) (tabs_of pid s) = Some (tabs_of pid s')"
  using assms
proof (induction "is" arbitrary: s es bs)
  case Nil
  then show ?case by simp
next
  case (Cons i js)
  from Cons.prems(2) obtain s1 es1 bs1 where one: "settle_one rt pid ctx accounts body i (s, es, bs) = Inr (s1, es1, bs1)"
    and rest: "foldE (settle_one rt pid ctx accounts body) js (s1, es1, bs1) = Inr (s', es', bs')" by auto
  obtain w where w: "voucher_decode (slice body (i * VOUCHER_WIRE_LEN) VOUCHER_WIRE_LEN) = Inr w"
    "pay (payment_of accounts w) (tabs_of pid s) = Some (tabs_of pid s1)"
    by (rule settle_one_pay [OF Cons.prems(1) one])
  have "settle_sane pid (ctx_ledger ctx) accounts (s1, es1, bs1)"
    using settle_moves.body_inv [OF Cons.prems(1) one] by simp
  from Cons.IH [OF this rest] obtain ws where
    "list_all2 (\<lambda>i w. voucher_decode (slice body (i * VOUCHER_WIRE_LEN) VOUCHER_WIRE_LEN) = Inr w) js ws"
    "pay_all (map (payment_of accounts) ws) (tabs_of pid s1) = Some (tabs_of pid s')" by blast
  with w show ?case by (intro exI [of _ "w # ws"]) simp
qed

lemma settle_pays:
  assumes "sane pid s" and "settle rt pid accounts d s = Inr s'"
  shows "\<exists>ws. d \<noteq> [] \<and> list_all2 (\<lambda>i w. voucher_decode (slice (tl d) (i * VOUCHER_WIRE_LEN) VOUCHER_WIRE_LEN) = Inr w) [0..<unat (hd d)] ws \<and>
    pay_all (map (payment_of accounts) ws) (tabs_of pid s) = Some (tabs_of pid s')"
  using assms(2)
proof (cases rule: settle_run)
  case (1 nb body l es bs)
  have "settle_sane pid (key (accounts ! 0)) accounts (s, 0, 0)" using assms(1) by (simp add: settle_sane_def)
  with settle_fold_pay [OF _ 1(6)] show ?thesis by (simp add: 1(1))
qed

section \<open>Payments only go up\<close>

definition tabs_le :: "tabs \<Rightarrow> tabs \<Rightarrow> bool" where
  "tabs_le T T' \<longleftrightarrow>
     (\<forall>k. (fst T k = None) = (fst T' k = None) \<and> (snd T k = None) = (snd T' k = None) \<and>
        (\<forall>t t'. fst T k = Some t \<longrightarrow> fst T' k = Some t' \<longrightarrow> (\<forall>x. t_settled t x \<le> t_settled t' x)) \<and>
        (\<forall>b b'. snd T k = Some b \<longrightarrow> snd T' k = Some b' \<longrightarrow> map fst b = map fst b'))"

lemma tabs_leD:
  "tabs_le T T' \<Longrightarrow> fst T' k = Some t' \<Longrightarrow> \<exists>t. fst T k = Some t \<and> (\<forall>x. t_settled t x \<le> t_settled t' x)"
  "tabs_le T T' \<Longrightarrow> snd T' k = Some b' \<Longrightarrow> \<exists>b. snd T k = Some b \<and> map fst b = map fst b'"
  unfolding tabs_le_def by (metis option.distinct(1) option.exhaust)+

lemma pay_Some:
  assumes "pay p T = Some T'"
  obtains t b where "fst T (p_escrow p) = Some t" and "snd T (p_book p) = Some b" and "p_slot p < length b"
    and "fst (b ! p_slot p) \<noteq> replicate 32 0" and "t_settled t (fst (b ! p_slot p)) < p_amount p"
    and "T' = ((fst T)(p_escrow p \<mapsto> \<lparr>t_balance = t_balance t - (p_amount p - t_settled t (fst (b ! p_slot p))),
         t_settled = (t_settled t)(fst (b ! p_slot p) := p_amount p)\<rparr>),
       (snd T)(p_book p \<mapsto> b[p_slot p := (fst (b ! p_slot p), snd (b ! p_slot p) + (p_amount p - t_settled t (fst (b ! p_slot p))))]))"
  using assms by (cases T) (auto simp: pay_def Let_def split: option.splits if_splits)

lemma pay_le:
  assumes "pay p T = Some T'"
  shows "tabs_le T T'"
proof (rule pay_Some [OF assms])
  fix t b
  assume a: "fst T (p_escrow p) = Some t" "snd T (p_book p) = Some b" "p_slot p < length b"
    "t_settled t (fst (b ! p_slot p)) < p_amount p"
    "T' = ((fst T)(p_escrow p \<mapsto> \<lparr>t_balance = t_balance t - (p_amount p - t_settled t (fst (b ! p_slot p))),
         t_settled = (t_settled t)(fst (b ! p_slot p) := p_amount p)\<rparr>),
       (snd T)(p_book p \<mapsto> b[p_slot p := (fst (b ! p_slot p), snd (b ! p_slot p) + (p_amount p - t_settled t (fst (b ! p_slot p))))]))"
  have "map fst (b[p_slot p := (fst (b ! p_slot p), x)]) = map fst b" for x
    using a(3) by (simp add: map_update) (metis list_update_id map_update)
  with a show ?thesis by (simp add: tabs_le_def)
qed

lemma pay_all_fresh:
  assumes "pay_all ps T = Some T'" and "p \<in> set ps"
  shows "\<exists>t b. fst T (p_escrow p) = Some t \<and> snd T (p_book p) = Some b \<and> p_slot p < length b \<and>
    t_settled t (fst (b ! p_slot p)) < p_amount p"
  using assms
proof (induction ps arbitrary: T)
  case Nil
  then show ?case by simp
next
  case (Cons q qs)
  from Cons.prems(1) obtain T1 where T1: "pay q T = Some T1" "pay_all qs T1 = Some T'" by (auto split: option.splits)
  show ?case
  proof (cases "p = q")
    case True
    show ?thesis by (rule pay_Some [OF T1(1)]) (use True in blast)
  next
    case False
    note le = pay_le [OF T1(1)]
    from Cons.IH [OF T1(2)] False Cons.prems(2) obtain t b where
      t: "fst T1 (p_escrow p) = Some t" "snd T1 (p_book p) = Some b" "p_slot p < length b"
        "t_settled t (fst (b ! p_slot p)) < p_amount p" by auto
    obtain t0 b0 where t0: "fst T (p_escrow p) = Some t0" "snd T (p_book p) = Some b0"
      and "map fst b0 = map fst b" and up: "\<And>x. t_settled t0 x \<le> t_settled t x"
      using tabs_leD(1) [OF le t(1)] tabs_leD(2) [OF le t(2)] by blast
    then have "length b0 = length b" and "fst (b0 ! p_slot p) = fst (b ! p_slot p)"
      using t(3) by (metis length_map, metis length_map nth_map)
    with t t0 up [of "fst (b ! p_slot p)"] show ?thesis by auto
  qed
qed

lemma settled_of_le:
  assumes "length ps \<le> length qs" and "distinct (map pv_payee qs)"
    and "\<And>i. i < length ps \<Longrightarrow> pv_payee (qs ! i) = pv_payee (ps ! i) \<and> pv_settled (ps ! i) \<le> pv_settled (qs ! i)"
  shows "settled_of ps p \<le> settled_of qs p"
proof (cases "p \<in> set (map pv_payee ps)")
  case True
  then obtain i where i: "i < length ps" "p = pv_payee (ps ! i)" by (auto simp: in_set_conv_nth)
  have "map pv_payee ps = take (length ps) (map pv_payee qs)"
    using assms(1,3) by (intro nth_equalityI) auto
  then have "distinct (map pv_payee ps)" using assms(2) by (metis distinct_take)
  with i settled_of_nth [of ps i] settled_of_nth [OF assms(2), of i] assms(1) assms(3) [OF i(1)]
  show ?thesis by (simp add: word_le_nat_alt)
next
  case False
  then show ?thesis by (simp add: settled_of_fresh)
qed

text \<open>
  What an escrow has paid a payee by state \<open>s\<close> stays paid for every later escrow of the same scope:
  a closed escrow that is opened again gets a new scope.
\<close>

lemma steps_settled:
  assumes "cluster_steps m pid s s'" and "settle_inv_all m pid s" and "TOKEN_ID \<noteq> pid" and "TOKEN_2022_ID \<noteq> pid"
    and "is_escrow pid (s E)" and "is_escrow pid (s' E')" and "entry_scope pid (s' E') = entry_scope pid (s E)"
  shows "E' = E" and "settled_of (ev_pairs (escrow_of (data (s E)))) p \<le> settled_of (ev_pairs (escrow_of (data (s' E')))) p"
proof -
  obtain L n where Ln: "entry_scope pid (s E) = Some (L, n)" using assms(5) by (simp add: entry_scope_def)
  have sc: "scopes_ok pid s" and sn: "sane pid s'"
    using assms(2) cluster_steps_inv [OF assms(1-4)] by (auto simp: settle_inv_all_def)
  have L: "is_ledger pid (s L)" "n < next_scope s L" using sc Ln by (auto simp: scopes_ok_def)
  have old: "entry_scope pid (s E') = Some (L, n)" "kind_next pid (s E') (s' E')"
    using steps_scope [OF assms(1-4) L] assms(7) Ln by auto
  show E: "E' = E" using sc old(1) Ln unfolding scopes_ok_def by blast
  have "escrow_next (escrow_of (data (s E))) (escrow_of (data (s' E')))"
    using old(2) assms(5) by (simp add: E kind_next_def)
  moreover have "distinct (map pv_payee (ev_pairs (escrow_of (data (s' E')))))"
    using sane_escrow [OF sn assms(6)] by (simp add: escrow_sane_def)
  ultimately show "settled_of (ev_pairs (escrow_of (data (s E)))) p \<le> settled_of (ev_pairs (escrow_of (data (s' E')))) p"
    by (intro settled_of_le) (auto simp: escrow_next_def)
qed

section \<open>Every settled voucher is signed by its payer\<close>

text \<open>
  The voucher an instruction carries, judged in state \<open>s\<close>: not expired, for a registered payee, and
  signed by the payer of the escrow over the ledger's mint and salt, the payee, the escrow's scope
  and the amount.
\<close>

definition voucher_valid :: "runtime \<Rightarrow> vctx \<Rightarrow> account_info list \<Rightarrow> store \<Rightarrow> wire_voucher \<Rightarrow> bool" where
  "voucher_valid rt ctx accounts s w =
     (let e = escrow_of (data (s (key (accounts ! unat (wv_escrow_ix w)))));
          payee = fst (bv_slots (book_of (data (s (key (accounts ! unat (wv_book_ix w)))))) ! unat (wv_slot w))
      in payee \<noteq> replicate 32 0 \<and> ctx_now ctx \<le> wv_expiry_slot w \<and>
         verify rt (ev_payer e) (voucher_message (ctx_program_id ctx) (ctx_mint ctx) (ctx_salt ctx) (ev_payer e) payee
           (ev_scope e) (wv_cumulative w) (wv_expiry_slot w) (wv_quote_hash w)) (wv_sig w))"

lemma verify_b2_valid:
  assumes "verify_b2 rt pid ctx accounts w first_ix nbw s es bs = Inr (v, es', bs')"
  shows "voucher_valid rt ctx accounts s w"
proof -
  obtain escrow_acc book_acc where
    a: "escrow_acc = accounts ! b2_escrow_ix v" "book_acc = accounts ! b2_book_ix v" "b2_slot v < BOOK_SLOTS"
      "b2_payee v = slice (data (s (key book_acc))) (slot_off (b2_slot v)) 32" "b2_payee v \<noteq> replicate 32 0"
      "ctx_now ctx \<le> wv_expiry_slot w"
      "b2_msg v = voucher_message (ctx_program_id ctx) (ctx_mint ctx) (ctx_salt ctx)
         (slice (data (s (key escrow_acc))) E_PAYER 32) (b2_payee v)
         (get_u64 (data (s (key escrow_acc))) E_SCOPE) (wv_cumulative w) (wv_expiry_slot w) (wv_quote_hash w)"
      "verify rt (slice (data (s (key escrow_acc))) E_PAYER 32) (b2_msg v) (wv_sig w)"
    using assms by (elim verify_b2_run) blast
  have "fst (bv_slots (book_of (data (s (key book_acc)))) ! b2_slot v) = b2_payee v"
    using bv_nth [OF a(3)] a(4) by simp
  then show ?thesis
    using a(5-8) by (simp add: voucher_valid_def Let_def verify_b2_indices [OF assms, symmetric] a(1,2) escrow_of_def)
qed

lemma tabs_of_le:
  assumes "tabs_le (tabs_of pid s) (tabs_of pid s1)"
  shows "is_escrow pid (s1 k) = is_escrow pid (s k)" and "is_book pid (s1 k) = is_book pid (s k)"
    and "is_book pid (s k) \<Longrightarrow> map fst (bv_slots (book_of (data (s1 k)))) = map fst (bv_slots (book_of (data (s k))))"
proof -
  have le: "(fst (tabs_of pid s) k = None) = (fst (tabs_of pid s1) k = None)"
    "(snd (tabs_of pid s) k = None) = (snd (tabs_of pid s1) k = None)"
    "\<And>b b'. snd (tabs_of pid s) k = Some b \<Longrightarrow> snd (tabs_of pid s1) k = Some b' \<Longrightarrow> map fst b = map fst b'"
    using assms unfolding tabs_le_def by blast+
  from le(1) show "is_escrow pid (s1 k) = is_escrow pid (s k)" by (simp add: tabs_of_def split: if_splits)
  from le(2) show bk: "is_book pid (s1 k) = is_book pid (s k)" by (simp add: tabs_of_def split: if_splits)
  show "map fst (bv_slots (book_of (data (s1 k)))) = map fst (bv_slots (book_of (data (s k))))" if "is_book pid (s k)"
    using le(3) [of "book_tab (book_of (data (s k)))" "book_tab (book_of (data (s1 k)))"] that bk
    by (simp add: tabs_of_def book_tab_def split_beta comp_def)
qed

text \<open>Settling other vouchers first does not change what a valid voucher names.\<close>

lemma voucher_valid_back:
  assumes "voucher_valid rt ctx accounts s1 w" and "moves A pid s s1" and "tabs_le (tabs_of pid s) (tabs_of pid s1)"
    and "is_escrow pid (s (key (accounts ! unat (wv_escrow_ix w))))" and "is_book pid (s (key (accounts ! unat (wv_book_ix w))))"
    and "unat (wv_slot w) < BOOK_SLOTS"
  shows "voucher_valid rt ctx accounts s w"
proof -
  let ?E = "key (accounts ! unat (wv_escrow_ix w))" and ?B = "key (accounts ! unat (wv_book_ix w))"
  have "kind_next pid (s ?E) (s1 ?E)" "kind_next pid (s ?B) (s1 ?B)" using assms(2) by (auto simp: moves_def evolves_def)
  then have e: "escrow_next (escrow_of (data (s ?E))) (escrow_of (data (s1 ?E)))"
    using assms(4) by (auto simp: kind_next_def)
  have "map fst (bv_slots (book_of (data (s1 ?B)))) = map fst (bv_slots (book_of (data (s ?B))))"
    by (rule tabs_of_le(3) [OF assms(3,5)])
  then have "fst (bv_slots (book_of (data (s ?B))) ! unat (wv_slot w)) = fst (bv_slots (book_of (data (s1 ?B))) ! unat (wv_slot w))"
    using assms(6) by (metis bv_length nth_map)
  with assms(1) e show ?thesis by (simp add: voucher_valid_def Let_def escrow_next_def)
qed

lemma settle_fold_valid:
  assumes "settle_sane pid (ctx_ledger ctx) accounts (s, es, bs)"
    and "foldE (settle_one rt pid ctx accounts body) is (s, es, bs) = Inr (s', es', bs')" and "i \<in> set is"
  shows "\<exists>w. voucher_decode (slice body (i * VOUCHER_WIRE_LEN) VOUCHER_WIRE_LEN) = Inr w \<and> voucher_valid rt ctx accounts s w \<and>
    is_escrow pid (s (key (accounts ! unat (wv_escrow_ix w)))) \<and> is_book pid (s (key (accounts ! unat (wv_book_ix w)))) \<and>
    unat (wv_slot w) < BOOK_SLOTS"
  using assms
proof (induction "is" arbitrary: s es bs)
  case Nil
  then show ?case by simp
next
  case (Cons j js)
  from Cons.prems(2) obtain s1 es1 bs1 where one: "settle_one rt pid ctx accounts body j (s, es, bs) = Inr (s1, es1, bs1)"
    and rest: "foldE (settle_one rt pid ctx accounts body) js (s1, es1, bs1) = Inr (s', es', bs')" by auto
  note inv = settle_moves.body_inv [OF Cons.prems(1) one, where A = "{}"]
  show ?case
  proof (cases "i = j")
    case True
    from one obtain w v where w: "voucher_decode (slice body (j * VOUCHER_WIRE_LEN) VOUCHER_WIRE_LEN) = Inr w"
      and v: "verify_b2 rt pid ctx accounts w 1 True s es bs = Inr (v, es1, bs1)" by (auto simp: settle_one_def Let_def)
    from Cons.prems(1) have seen: "seen_ok (escrow_in pid (ctx_ledger ctx)) accounts es s"
      "seen_ok (book_in pid (ctx_ledger ctx)) accounts bs s" by (auto simp: settle_sane_def)
    from w verify_b2_valid [OF v] verify_b2_checked [OF v seen] True show ?thesis
      by (auto simp: verify_b2_indices [OF v] escrow_in_def book_in_def)
  next
    case False
    have m: "moves {} pid s s1" using inv by (simp add: settle_sane_def moves_def)
    obtain w0 where "pay (payment_of accounts w0) (tabs_of pid s) = Some (tabs_of pid s1)"
      by (rule settle_one_pay [OF Cons.prems(1) one])
    note le = pay_le [OF this]
    have "i \<in> set js" using Cons.prems(3) False by simp
    with Cons.IH [OF _ rest] inv obtain w where w: "voucher_decode (slice body (i * VOUCHER_WIRE_LEN) VOUCHER_WIRE_LEN) = Inr w"
      "voucher_valid rt ctx accounts s1 w" "is_escrow pid (s1 (key (accounts ! unat (wv_escrow_ix w))))"
      "is_book pid (s1 (key (accounts ! unat (wv_book_ix w))))" "unat (wv_slot w) < BOOK_SLOTS" by auto
    have "is_escrow pid (s (key (accounts ! unat (wv_escrow_ix w))))" "is_book pid (s (key (accounts ! unat (wv_book_ix w))))"
      using w(3,4) tabs_of_le(1,2) [OF le] by auto
    with w voucher_valid_back [OF w(2) m le _ _ w(5)] show ?thesis by blast
  qed
qed

lemma settle_valid:
  assumes "sane pid s" and "settle rt pid (led # accounts) (nb # body) s = Inr s'" and "i < unat nb"
  shows "\<exists>w. voucher_decode (slice body (i * VOUCHER_WIRE_LEN) VOUCHER_WIRE_LEN) = Inr w \<and>
    is_ledger pid (s (key led)) \<and>
    voucher_valid rt \<lparr>ctx_program_id = pid, ctx_ledger = key led, ctx_mint = l_mint (ledger_of (data (s (key led)))),
       ctx_salt = l_salt (ledger_of (data (s (key led)))), ctx_now = clock_slot rt\<rparr> (led # accounts) s w"
  using assms(2)
proof (cases rule: settle_run)
  case (1 nb' body' l es bs)
  have "settle_sane pid (key led) (led # accounts) (s, 0, 0)" using assms(1) by (simp add: settle_sane_def)
  with settle_fold_valid [OF _ 1(6), of i] 1 assms(3) show ?thesis by (auto simp: ledger_load_Inr)
qed

end
