(* ===== verification/XsScenario.thy ===== *)
theory XsScenario
  imports XsEffect
begin

text \<open>
  A concrete run of \<open>x402_settle\<close> against the reference runtime: a SOL ledger, an escrow with a
  deposit, a book with a registered payee, and vouchers paid from it. The states of the run are
  the inputs of the witnesses.
\<close>

section \<open>Runtime and keys\<close>

text \<open>The reference runtime with a digest of 32 bytes and a chosen slot.\<close>

definition xs_rt :: "u64 \<Rightarrow> runtime" where
  "xs_rt t = ref_runtime\<lparr>clock_slot := t, hashv := ref_address\<rparr>"

definition PAYER :: key where "PAYER = replicate 32 1"
definition PAYEE :: key where "PAYEE = replicate 32 2"
definition SUBMITTER :: key where "SUBMITTER = replicate 32 3"
definition LED :: key where "LED = ref_address [LEDGER_SEED, SOL_MINT]"
definition ESC :: key where "ESC = ref_address [ESCROW_SEED, LED, PAYER]"
definition BOOK :: key where "BOOK = ref_address [BOOK_SEED, LED, u32_le 0]"
definition CHAN :: key where "CHAN = ref_address [CHANNEL_SEED, LED, PAYER, PAYEE, u64_le 7]"
definition BAT :: key where "BAT = ref_address [BATCH_SEED, LED, u64_le 9]"

definition ac :: "key \<Rightarrow> bool \<Rightarrow> account_info" where
  "ac k sg = \<lparr>key = k, is_signer = sg, is_writable = True\<rparr>"

lemma ac_simps [simp]: "key (ac k sg) = k" "is_signer (ac k sg) = sg" "is_writable (ac k sg)"
  by (simp_all add: ac_def)

lemma length_ref_address [simp]: "length (ref_address seeds) = 32"
  by (simp add: ref_address_def)

lemma xs_rt_simps [simp]:
  "clock_slot (xs_rt t) = t" "minimum_balance (xs_rt t) n = of_nat (n + 100)"
  "find_program_address (xs_rt t) seeds pid = (ref_address seeds, 255)"
  "create_program_address (xs_rt t) seeds pid = Some (ref_address (butlast seeds))"
  "hashv (xs_rt t) = ref_address" "invoke_signed (xs_rt t) = ref_invoke"
  "curve_multiscalar (xs_rt t) sc pts = Some (replicate 32 5)"
  by (simp_all add: xs_rt_def ref_runtime_def)

lemma PROGRAM_ID_not_system: "PROGRAM_ID \<noteq> SYSTEM_ID"
proof -
  have "hd PROGRAM_ID \<noteq> hd SYSTEM_ID" by (simp add: PROGRAM_ID_def SYSTEM_ID_def)
  then show ?thesis by metis
qed

lemma xs_rt_solana: "solana (xs_rt t) PROGRAM_ID"
  by (rule ref_invoke_solana [OF _ PROGRAM_ID_not_system]) simp

lemma token_not_program: "TOKEN_ID \<noteq> PROGRAM_ID" "TOKEN_2022_ID \<noteq> PROGRAM_ID"
  by (simp_all add: TOKEN_ID_def TOKEN_2022_ID_def PROGRAM_ID_def)

lemma ref_address_nth:
  assumes "i < 32"
  shows "ref_address seeds ! i = sum_list (map (\<lambda>sd. if i < length sd then sd ! i else 0) seeds)"
proof -
  have "[0..<32] ! i = i" using nth_upt [of 0 i 32] assms by (simp only: add_0)
  moreover have "i < length [0..<32]" using assms by (simp only: length_upt)
  ultimately show ?thesis unfolding ref_address_def by (simp only: nth_map)
qed

lemma hd_ref_address: "hd (ref_address seeds) = sum_list (map (\<lambda>sd. if sd = [] then 0 else hd sd) seeds)"
proof -
  have "hd (ref_address seeds) = ref_address seeds ! 0"
    by (rule hd_conv_nth) (metis length_ref_address list.size(3) zero_neq_numeral)
  also have "\<dots> = sum_list (map (\<lambda>sd. if sd = [] then 0 else hd sd) seeds)"
    by (simp add: ref_address_nth) (rule arg_cong [of _ _ sum_list], auto simp: hd_conv_nth)
  finally show ?thesis .
qed

lemma hd_le_bytes [simp]: "hd (le_bytes (Suc n) v) = of_nat v" "le_bytes (Suc n) v \<noteq> []"
  by simp_all

lemma hd_words: "hd (u32_le x) = of_nat (unat x)" "hd (u64_le y) = of_nat (unat y)" "u32_le x \<noteq> []" "u64_le y \<noteq> []"
  using hd_le_bytes [of 3] hd_le_bytes [of 7] by (simp_all add: u32_le_def u64_le_def del: hd_le_bytes le_bytes.simps)

lemma hd_names:
  "hd LEDGER_SEED = 108" "hd ESCROW_SEED = 101" "hd BOOK_SEED = 98" "hd CHANNEL_SEED = 99" "hd BATCH_SEED = 98"
  "LEDGER_SEED \<noteq> []" "ESCROW_SEED \<noteq> []" "BOOK_SEED \<noteq> []" "CHANNEL_SEED \<noteq> []" "BATCH_SEED \<noteq> []"
  by (simp_all add: LEDGER_SEED_def ESCROW_SEED_def BOOK_SEED_def CHANNEL_SEED_def BATCH_SEED_def ascii_def)

lemma hd_owners: "hd SOL_MINT = 0" "hd PAYER = 1" "hd PAYEE = 2" "SOL_MINT \<noteq> []" "PAYER \<noteq> []" "PAYEE \<noteq> []"
  by (simp_all add: SOL_MINT_def PAYER_def PAYEE_def)

lemma ref_address_not_empty: "ref_address seeds \<noteq> []"
  by (metis length_ref_address list.size(3) zero_neq_numeral)

lemma key_hds:
  "hd LED = 108" "hd ESC = 210" "hd BOOK = 206" "hd CHAN = 217" "hd BAT = 215"
proof -
  have "LED \<noteq> []" by (simp add: LED_def ref_address_not_empty)
  moreover show "hd LED = 108" by (simp add: LED_def hd_ref_address hd_names hd_owners)
  ultimately show "hd ESC = 210" "hd BOOK = 206" "hd CHAN = 217" "hd BAT = 215"
    by (simp_all add: ESC_def BOOK_def CHAN_def BAT_def hd_ref_address hd_names hd_owners hd_words)
qed

lemma keys_distinct:
  "distinct [LED, ESC, BOOK, CHAN, BAT, PAYER, PAYEE, SUBMITTER, SYSTEM_ID, SLOT_HASHES_ID, PROGRAM_ID]"
proof -
  have "distinct (map hd [LED, ESC, BOOK, CHAN, BAT, PAYER, PAYEE, SUBMITTER, SYSTEM_ID, SLOT_HASHES_ID, PROGRAM_ID])"
    by (simp add: key_hds PAYER_def PAYEE_def SUBMITTER_def SYSTEM_ID_def SLOT_HASHES_ID_def PROGRAM_ID_def)
  then show ?thesis by (simp only: distinct_map)
qed

lemma keys_neq [simp]:
  "LED \<noteq> ESC" "LED \<noteq> BOOK" "LED \<noteq> CHAN" "LED \<noteq> BAT" "LED \<noteq> PAYER" "LED \<noteq> PAYEE" "LED \<noteq> SUBMITTER" "LED \<noteq> SLOT_HASHES_ID"
  "ESC \<noteq> BOOK" "ESC \<noteq> CHAN" "ESC \<noteq> BAT" "ESC \<noteq> PAYER" "ESC \<noteq> PAYEE" "ESC \<noteq> SUBMITTER" "ESC \<noteq> SLOT_HASHES_ID"
  "BOOK \<noteq> CHAN" "BOOK \<noteq> BAT" "BOOK \<noteq> PAYER" "BOOK \<noteq> PAYEE" "BOOK \<noteq> SUBMITTER" "BOOK \<noteq> SLOT_HASHES_ID"
  "CHAN \<noteq> BAT" "CHAN \<noteq> PAYER" "CHAN \<noteq> PAYEE" "CHAN \<noteq> SUBMITTER" "CHAN \<noteq> SLOT_HASHES_ID"
  "BAT \<noteq> PAYER" "BAT \<noteq> PAYEE" "BAT \<noteq> SUBMITTER" "BAT \<noteq> SLOT_HASHES_ID"
  "PAYER \<noteq> PAYEE" "PAYER \<noteq> SUBMITTER" "PAYER \<noteq> SLOT_HASHES_ID" "PAYEE \<noteq> SUBMITTER" "PAYEE \<noteq> SLOT_HASHES_ID"
  "SUBMITTER \<noteq> SLOT_HASHES_ID" "SYSTEM_ID \<noteq> PROGRAM_ID"
  using keys_distinct by auto

lemmas keys_neq_sym [simp] = keys_neq [symmetric]

lemma key_lengths [simp]:
  "length LED = 32" "length ESC = 32" "length BOOK = 32" "length CHAN = 32" "length BAT = 32" "length PAYER = 32"
  "length PAYEE = 32" "length SUBMITTER = 32" "length SOL_MINT = 32"
  by (simp_all add: LED_def ESC_def BOOK_def CHAN_def BAT_def PAYER_def PAYEE_def SUBMITTER_def SOL_MINT_def)

section \<open>Genesis and creation\<close>

definition xs_genesis :: store where
  "xs_genesis = (\<lambda>k.
     if k = PAYER \<or> k = SUBMITTER then \<lparr>lamports = 1000000, owner = SYSTEM_ID, data = []\<rparr>
     else if k = SLOT_HASHES_ID
       then \<lparr>lamports = 1, owner = replicate 32 9, data = u64_le 1 @ u64_le 500 @ replicate 32 7\<rparr>
     else \<lparr>lamports = 0, owner = SYSTEM_ID, data = []\<rparr>)"

lemma xs_genesis_reachable: "reachable m PROGRAM_ID xs_genesis"
proof (rule reachable.genesis)
  have "hd (replicate 32 (9 :: u8)) \<noteq> hd PROGRAM_ID" by (simp add: PROGRAM_ID_def)
  then have nine: "replicate 32 9 \<noteq> PROGRAM_ID" by metis
  show "owner (xs_genesis k) \<noteq> PROGRAM_ID" for k
    using PROGRAM_ID_not_system nine by (auto simp: xs_genesis_def)
qed

text \<open>An account created and paid for by a system account.\<close>

definition created :: "store \<Rightarrow> key \<Rightarrow> key \<Rightarrow> nat \<Rightarrow> store" where
  "created s f t n = set_owner (set_data (set_lamports (set_lamports s f (lamports (s f) - of_nat (n + 100)))
     t (of_nat (n + 100))) t (replicate n 0)) t PROGRAM_ID"

definition unused :: "store \<Rightarrow> key \<Rightarrow> bool" where
  "unused s k \<longleftrightarrow> lamports (s k) = 0 \<and> owner (s k) = SYSTEM_ID \<and> data (s k) = []"

definition purse :: "store \<Rightarrow> key \<Rightarrow> nat \<Rightarrow> bool" where
  "purse s k n \<longleftrightarrow> owner (s k) = SYSTEM_ID \<and> data (s k) = [] \<and> n \<le> unat (lamports (s k))"

lemma create_pda_runs:
  assumes "unused s t" and "purse s f (n + 100)" and "f \<noteq> t" and "n < 100000"
  shows "create_pda (xs_rt c) (ac f True) (ac t w) (ac SYSTEM_ID v) n PROGRAM_ID seeds s = Inr (created s f t n)"
proof -
  have n: "unat (of_nat (n + 100) :: u64) = n + 100" "unat (of_nat n :: u64) = n" using assms(4) by (simp_all only: unat_of_nat) simp_all
  then have le: "\<not> lamports (s f) < of_nat (n + 100)" using assms(2) by (simp add: purse_def word_less_nat_alt)
  show ?thesis
    using assms n le
    by (simp add: create_pda_def unused_def purse_def ref_invoke_def signed_by_def move_lamports_def Let_def
        set_lamports_apply checked_add_def created_def del: of_nat_add)
qed

lemma created_simps [simp]:
  "f \<noteq> t \<Longrightarrow> created s f t n t = \<lparr>lamports = of_nat (n + 100), owner = PROGRAM_ID, data = replicate n 0\<rparr>"
  "f \<noteq> t \<Longrightarrow> created s f t n f = (s f)\<lparr>lamports := lamports (s f) - of_nat (n + 100)\<rparr>"
  "k \<noteq> f \<Longrightarrow> k \<noteq> t \<Longrightarrow> created s f t n k = s k"
  by (simp_all add: created_def set_owner_def set_data_def set_lamports_def)

section \<open>A ledger\<close>

definition XS_SALT :: bytes where
  "XS_SALT = ref_address [SALT_DOMAIN, PROGRAM_ID, SOL_MINT, u64_le 500, replicate 32 7]"

definition xs_ledger :: "u64 \<Rightarrow> u64 \<Rightarrow> u64 \<Rightarrow> ledger" where
  "xs_ledger c liab nx = \<lparr>l_bump = 255, l_vault_bump = 0, l_kind = KIND_SOL, l_decimals = 9, l_mint = SOL_MINT,
     l_token_program = replicate 32 0, l_vault = LED, l_salt = XS_SALT, l_exit_delay_slots = EXIT_DELAY_SLOTS,
     l_dispute_slots = DISPUTE_SLOTS, l_batch_timeout_slots = BATCH_TIMEOUT_SLOTS, l_liabilities = liab,
     l_next_scope = nx, l_created_slot = c\<rparr>"

lemma xs_ledger_simps [simp]:
  "l_next_scope (xs_ledger c l n) = n" "l_liabilities (xs_ledger c l n) = l" "l_kind (xs_ledger c l n) = 0"
  "l_mint (xs_ledger c l n) = SOL_MINT" "l_salt (xs_ledger c l n) = XS_SALT"
  "l_exit_delay_slots (xs_ledger c l n) = 9000" "l_dispute_slots (xs_ledger c l n) = 1500"
  "l_batch_timeout_slots (xs_ledger c l n) = 1500"
  "(xs_ledger c l n)\<lparr>l_next_scope := n'\<rparr> = xs_ledger c l n'"
  "(xs_ledger c l n)\<lparr>l_liabilities := l'\<rparr> = xs_ledger c l' n"
  by (simp_all add: xs_ledger_def EXIT_DELAY_SLOTS_def DISPUTE_SLOTS_def BATCH_TIMEOUT_SLOTS_def)

definition ledger_at :: "store \<Rightarrow> ledger \<Rightarrow> bool" where
  "ledger_at s l \<longleftrightarrow> is_ledger PROGRAM_ID (s LED) \<and> ledger_of (data (s LED)) = l"

lemma xs_ledger_wf: "ledger_wf (xs_ledger c liab nx)"
  by (simp add: ledger_wf_def xs_ledger_def XS_SALT_def)

lemma ledger_store_runs:
  assumes "LEDGER_LEN \<le> length (data (s LED))"
  obtains d where "ledger_store (xs_ledger c liab nx) (ac LED w) s = Inr (set_data s LED d)"
    and "ledger_of d = xs_ledger c liab nx" and "slice d 0 8 = DISC_LEDGER" and "length d = length (data (s LED))"
proof -
  obtain d where d: "ledger_pack (xs_ledger c liab nx) (data (s LED)) = Inr d"
    using ledger_codec.pack_total [OF xs_ledger_wf assms] by blast
  show thesis
    by (rule that [of d]) (use ledger_codec.pack_of [OF d] ledger_codec.pack_disc [OF d] ledger_codec.pack_length [OF d] d in
      \<open>simp_all add: ledger_store_def\<close>)
qed

definition slot_hashes_ok :: "account \<Rightarrow> bool" where
  "slot_hashes_ok a \<longleftrightarrow> data a = u64_le 1 @ u64_le 500 @ replicate 32 7"

lemma xs_init_ledger:
  assumes "unused s LED" and "purse s PAYER (LEDGER_LEN + 100)" and "slot_hashes_ok (s SLOT_HASHES_ID)"
  obtains s' where
    "process (xs_rt c) PROGRAM_ID [ac PAYER True, ac LED False, ac SYSTEM_ID False, ac SLOT_HASHES_ID False] [INIT_LEDGER, KIND_SOL] s = Inr s'"
    and "ledger_at s' (xs_ledger c 0 1)" and "lamports (s' LED) = 292"
    and "s' PAYER = (s PAYER)\<lparr>lamports := lamports (s PAYER) - 292\<rparr>"
    and "\<And>k. k \<noteq> LED \<Longrightarrow> k \<noteq> PAYER \<Longrightarrow> s' k = s k"
proof -
  let ?s = "created s PAYER LED LEDGER_LEN"
  obtain d where d: "ledger_store (xs_ledger c 0 1) (ac LED False) ?s = Inr (set_data ?s LED d)"
    "ledger_of d = xs_ledger c 0 1" "slice d 0 8 = DISC_LEDGER" "length d = length (data (?s LED))"
    by (rule ledger_store_runs [of ?s]) simp
  have cr: "create_pda (xs_rt c) (ac PAYER True) (ac LED False) (ac SYSTEM_ID False) LEDGER_LEN PROGRAM_ID seeds s = Inr ?s" for seeds
    by (rule create_pda_runs) (use assms in simp_all)
  have sh: "length (data (s SLOT_HASHES_ID)) = 48" "get_u64 (data (s SLOT_HASHES_ID)) 0 = 1"
    "get_u64 (data (s SLOT_HASHES_ID)) 8 = 500" "slice (data (s SLOT_HASHES_ID)) 16 32 = replicate 32 7"
    using assms(3) by (simp_all add: slot_hashes_ok_def get_u64_def slice_def)
  have led: "find_program_address (xs_rt c) [LEDGER_SEED, replicate 32 0] PROGRAM_ID = (LED, 255)"
    by (simp add: LED_def SOL_MINT_def)
  have salt: "ledger_salt (xs_rt c) PROGRAM_ID (replicate 32 0) 500 (replicate 32 7) = XS_SALT"
    by (simp add: ledger_salt_def XS_SALT_def SOL_MINT_def)
  have "init_ledger (xs_rt c) PROGRAM_ID [ac PAYER True, ac LED False, ac SYSTEM_ID False, ac SLOT_HASHES_ID False] [KIND_SOL] s
      = Inr (set_data ?s LED d)"
    using d(1) sh cr led salt
    by (simp add: init_ledger_def init_ledger_kind_def init_vault_def Let_def xs_ledger_def SOL_MINT_def
        check_solvency_def holdings_def)
  then have run: "process (xs_rt c) PROGRAM_ID [ac PAYER True, ac LED False, ac SYSTEM_ID False, ac SLOT_HASHES_ID False] [INIT_LEDGER, KIND_SOL] s
      = Inr (set_data ?s LED d)" by (simp add: process_def)
  show thesis
    by (rule that [OF run]) (use d in \<open>simp_all add: ledger_at_def is_ledger_def\<close>)
qed

section \<open>An escrow with a deposit\<close>

definition xs_escrow :: "u64 \<Rightarrow> u64 \<Rightarrow> u64 \<Rightarrow> escrow_view" where
  "xs_escrow bal ea er = \<lparr>ev_bump = 255, ev_capacity = 2, ev_pending = 0, ev_ledger = LED, ev_payer = PAYER, ev_scope = 1,
     ev_balance = bal, ev_exit_amount = ea, ev_exit_ready = er, ev_open_channels = 0, ev_pairs = []\<rparr>"

definition escrow_at :: "store \<Rightarrow> escrow_view \<Rightarrow> bool" where
  "escrow_at s v \<longleftrightarrow> is_escrow PROGRAM_ID (s ESC) \<and> escrow_of (data (s ESC)) = v"

lemma ledger_at_loads:
  assumes "ledger_at s (xs_ledger c l n)"
  shows "ledger_load (xs_rt t) s (ac LED w) PROGRAM_ID = Inr (xs_ledger c l n)"
    and "length (data (s LED)) = 192" and "owner (s LED) = PROGRAM_ID"
  using assms by (auto simp: ledger_at_def ledger_load_Inr check_pda_def xs_ledger_def LED_def is_ledger_def)

lemma payer_strict: "is_strict_pubkey PAYER"
proof -
  have y: "PAYER[31 := PAYER ! 31 AND 0x7f] = PAYER" by (simp add: PAYER_def list_update_same_conv)
  have "replicate 8 1 = [1, 1, 1, 1, 1, 1, 1, 1 :: u8]" by (simp add: eval_nat_numeral)
  then have w: "get_u64 PAYER 24 = 0x0101010101010101"
    by (simp add: PAYER_def get_u64_def slice_def)
  have four: "rev [0..<4] = [3, 2, 1, 0 :: nat]" by (simp add: upt_conv_Cons)
  have "words_below (map (\<lambda>i. (rd64 PAYER (8 * i), P64 ! i)) (rev [0..<4]))"
    unfolding four by (simp add: rd64_def w P64_def)
  moreover have "q \<noteq> PAYER" if "q \<in> set SMALL_ORDER_Y" for q
  proof -
    have "q ! 1 \<noteq> PAYER ! 1" using that by (auto simp: SMALL_ORDER_Y_def PAYER_def)
    then show ?thesis by metis
  qed
  ultimately show ?thesis unfolding is_strict_pubkey_def y Let_def by (auto simp: list_ex_iff)
qed

lemma xs_open_escrow:
  assumes "unused s ESC" and "purse s PAYER (escrow_len 2 + 100)" and "ledger_at s (xs_ledger c 0 1)"
  obtains s' where
    "process (xs_rt t) PROGRAM_ID [ac PAYER True, ac LED False, ac ESC False, ac SYSTEM_ID False] [OPEN_ESCROW, 2] s = Inr s'"
    and "ledger_at s' (xs_ledger c 0 2)" and "lamports (s' LED) = lamports (s LED)"
    and "escrow_at s' (xs_escrow 0 0 0)"
    and "s' PAYER = (s PAYER)\<lparr>lamports := lamports (s PAYER) - 332\<rparr>"
    and "\<And>k. k \<noteq> LED \<Longrightarrow> k \<noteq> PAYER \<Longrightarrow> k \<noteq> ESC \<Longrightarrow> s' k = s k"
proof -
  let ?s = "created s PAYER ESC 232"
  let ?w = "[(0, 8, DISC_ESCROW), (E_BUMP, 1, [255]), (E_CAPACITY, 1, [2]), (E_LEDGER, 32, LED), (E_PAYER, 32, PAYER),
              (E_SCOPE, 8, u64_le 1)]"
  note led = ledger_at_loads [OF assms(3)]
  have len: "escrow_len 2 = 232" by (simp add: escrow_len_def)
  have cr: "create_pda (xs_rt t) (ac PAYER True) (ac ESC False) (ac SYSTEM_ID False) 232 PROGRAM_ID seeds s = Inr ?s" for seeds
    by (rule create_pda_runs) (use assms len in simp_all)
  obtain e where e: "wr_all ?w (replicate 232 0) = Inr e"
    using wr_all_total [of "replicate 232 0" ?w] by auto
  note v = new_escrow [OF e]
  obtain d where d: "ledger_store (xs_ledger c 0 2) (ac LED False) (set_data ?s ESC e) = Inr (set_data (set_data ?s ESC e) LED d)"
    "ledger_of d = xs_ledger c 0 2" "slice d 0 8 = DISC_LEDGER" "length d = length (data (set_data ?s ESC e LED))"
    by (rule ledger_store_runs [of "set_data ?s ESC e"]) (use led in simp)
  have "open_escrow (xs_rt t) PROGRAM_ID [ac PAYER True, ac LED False, ac ESC False, ac SYSTEM_ID False] [2] s
      = Inr (set_data (set_data ?s ESC e) LED d)"
    using d(1) e cr led(1) len payer_strict
    by (simp add: open_escrow_def Let_def ESC_def [symmetric] add_Inr)
  then have run: "process (xs_rt t) PROGRAM_ID [ac PAYER True, ac LED False, ac ESC False, ac SYSTEM_ID False] [OPEN_ESCROW, 2] s
      = Inr (set_data (set_data ?s ESC e) LED d)" by (simp add: process_def)
  show thesis
    by (rule that [OF run])
      (use d v led len in \<open>simp_all add: ledger_at_def is_ledger_def escrow_at_def is_escrow_def xs_escrow_def\<close>)
qed

lemma escrow_at_loads:
  assumes "escrow_at s v" and "ev_ledger v = LED" and "ev_payer v = PAYER" and "ev_bump v = 255"
  shows "check_escrow (xs_rt t) s (ac ESC w) PROGRAM_ID = Inr (LED, PAYER)"
    and "120 \<le> length (data (s ESC))" and "owner (s ESC) = PROGRAM_ID"
  using assms
  by (auto simp: escrow_at_def check_escrow_Inr check_pda_def escrow_of_def ESC_def is_escrow_def escrow_len_def)

lemma escrow_at_write:
  assumes "escrow_at s v" and "escrow_of e = w" and "length e = length (data (s ESC))"
    and "slice e 0 8 = slice (data (s ESC)) 0 8" and "e ! E_CAPACITY = data (s ESC) ! E_CAPACITY"
    and "data (s' ESC) = e" and "owner (s' ESC) = owner (s ESC)"
  shows "escrow_at s' w"
  using assms by (auto simp: escrow_at_def is_escrow_def)

lemma xs_deposit:
  assumes "ledger_at s (xs_ledger c l n)" and "escrow_at s (xs_escrow bal ea er)" and "purse s PAYER (unat a)" and "a \<noteq> 0"
    and "unat l + unat a \<le> unat (lamports (s LED)) + unat a - 292" and "unat (lamports (s LED)) + unat a < 2 ^ 64"
    and "unat bal + unat a < 2 ^ 64"
  obtains s' where
    "process (xs_rt t) PROGRAM_ID [ac PAYER True, ac LED False, ac ESC False, ac SYSTEM_ID False] (DEPOSIT # u64_le a) s = Inr s'"
    and "ledger_at s' (xs_ledger c (l + a) n)" and "lamports (s' LED) = lamports (s LED) + a"
    and "escrow_at s' (xs_escrow (bal + a) ea er)" and "s' PAYER = (s PAYER)\<lparr>lamports := lamports (s PAYER) - a\<rparr>"
    and "\<And>k. k \<noteq> LED \<Longrightarrow> k \<noteq> PAYER \<Longrightarrow> k \<noteq> ESC \<Longrightarrow> s' k = s k"
proof -
  let ?s = "set_lamports (set_lamports s PAYER (lamports (s PAYER) - a)) LED (lamports (s LED) + a)"
  note led = ledger_at_loads [OF assms(1)]
  have esc: "check_escrow (xs_rt t) s (ac ESC w) PROGRAM_ID = Inr (LED, PAYER)" "120 \<le> length (data (s ESC))"
    "owner (s ESC) = PROGRAM_ID" for w
    using escrow_at_loads [OF assms(2)] by (simp_all add: xs_escrow_def)
  have bal: "get_u64 (data (s ESC)) E_BALANCE = bal"
    using assms(2) by (auto simp: escrow_at_def escrow_of_def xs_escrow_def)
  let ?e = "splice (data (s ESC)) E_BALANCE (u64_le (bal + a))"
  have inv: "invoke (xs_rt t) (SystemCpi (Transfer PAYER LED a)) [ac PAYER True, ac LED False, ac SYSTEM_ID False] s = Inr ?s"
    using assms(3,6)
    by (simp add: invoke_def ref_invoke_def signed_by_def move_lamports_def purse_def word_less_nat_alt Let_def
        checked_add_def set_lamports_apply)
  obtain d where d: "ledger_store (xs_ledger c (l + a) n) (ac LED False) (set_data ?s ESC ?e) = Inr (set_data (set_data ?s ESC ?e) LED d)"
    "ledger_of d = xs_ledger c (l + a) n" "slice d 0 8 = DISC_LEDGER" "length d = length (data (set_data ?s ESC ?e LED))"
    by (rule ledger_store_runs [of "set_data ?s ESC ?e"]) (use led in simp)
  have la: "unat l + unat a < 2 ^ 64" using assms(5,6) by linarith
  have sum: "unat (lamports (s LED) + a) = unat (lamports (s LED)) + unat a" "unat (l + a) = unat l + unat a"
    using assms(6) la by (simp_all add: unat_word_ariths)
  have solv: "\<not> saturating_sub (lamports (s LED) + a) 292 < l + a"
    using assms(5) sum by (auto simp: saturating_sub_def word_less_nat_alt word_le_nat_alt unat_sub)
  have "deposit (xs_rt t) PROGRAM_ID [ac PAYER True, ac LED False, ac ESC False, ac SYSTEM_ID False] (u64_le a) s
      = Inr (set_data (set_data ?s ESC ?e) LED d)"
    using d(1) inv esc bal led(1) assms(4,7) la solv
    by (simp add: deposit_def Let_def add_Inr liabilities_Inr check_solvency_def holdings_def set_apply)
  then have run: "process (xs_rt t) PROGRAM_ID [ac PAYER True, ac LED False, ac ESC False, ac SYSTEM_ID False] (DEPOSIT # u64_le a) s
      = Inr (set_data (set_data ?s ESC ?e) LED d)" by (simp add: process_def)
  have "escrow_of ?e = xs_escrow (bal + a) ea er"
    using assms(2) escrow_of_balance [OF esc(2)] by (simp add: escrow_at_def xs_escrow_def)
  then have "escrow_at (set_data (set_data ?s ESC ?e) LED d) (xs_escrow (bal + a) ea er)"
    by (rule escrow_at_write [OF assms(2)]) (use esc in \<open>simp_all add: byte_simps set_apply\<close>)
  then show thesis
    by (intro that [OF run])
      (use d led in \<open>simp_all add: ledger_at_def is_ledger_def set_apply\<close>)
qed

section \<open>A registered payee\<close>

definition book_at :: "store \<Rightarrow> key \<Rightarrow> u64 \<Rightarrow> bool" where
  "book_at s k b \<longleftrightarrow> is_book PROGRAM_ID (s BOOK) \<and> bv_bump (book_of (data (s BOOK))) = 255 \<and>
     bv_page (book_of (data (s BOOK))) = 0 \<and> bv_ledger (book_of (data (s BOOK))) = LED \<and>
     bv_slots (book_of (data (s BOOK))) ! 0 = (k, b)"

lemma book_at_loads:
  assumes "book_at s k b"
  shows "check_book (xs_rt t) s (ac BOOK w) PROGRAM_ID = Inr LED"
    and "length (data (s BOOK)) = BOOK_LEN" and "owner (s BOOK) = PROGRAM_ID"
    and "slice (data (s BOOK)) 48 32 = k" and "get_u64 (data (s BOOK)) 80 = b"
  using assms bv_nth [of 0 "data (s BOOK)"]
  by (auto simp: book_at_def check_book_Inr check_pda_def book_of_def BOOK_def is_book_def slot_off_def)

lemma book_at_keep:
  assumes "book_at s k b" and "book_of e = (book_of (data (s BOOK)))\<lparr>bv_slots := sl, bv_used := u\<rparr>" and "sl ! 0 = (k', b')"
    and "length e = length (data (s BOOK))" and "slice e 0 8 = slice (data (s BOOK)) 0 8"
    and "data (s' BOOK) = e" and "owner (s' BOOK) = owner (s BOOK)"
  shows "book_at s' k' b'"
  using assms by (simp add: book_at_def is_book_def)

lemma xs_create_book:
  assumes "ledger_at s (xs_ledger c l n)" and "unused s BOOK" and "purse s PAYER (BOOK_LEN + 100)"
  obtains s' where
    "process (xs_rt t) PROGRAM_ID [ac PAYER True, ac LED False, ac BOOK False, ac SYSTEM_ID False] (CREATE_BOOK # u32_le 0) s = Inr s'"
    and "book_at s' (replicate 32 0) 0" and "s' PAYER = (s PAYER)\<lparr>lamports := lamports (s PAYER) - 2708\<rparr>"
    and "\<And>k. k \<noteq> BOOK \<Longrightarrow> k \<noteq> PAYER \<Longrightarrow> s' k = s k"
proof -
  let ?s = "created s PAYER BOOK BOOK_LEN"
  let ?w = "[(0, 8, DISC_BOOK), (K_BUMP, 1, [255]), (K_PAGE, 4, u32_le 0), (K_LEDGER, 32, LED)]"
  note led = ledger_at_loads [OF assms(1)]
  have cr: "create_pda (xs_rt t) (ac PAYER True) (ac BOOK False) (ac SYSTEM_ID False) BOOK_LEN PROGRAM_ID seeds s = Inr ?s" for seeds
    by (rule create_pda_runs) (use assms in simp_all)
  obtain b where b: "wr_all ?w (replicate BOOK_LEN 0) = Inr b"
    using wr_all_total [of "replicate BOOK_LEN 0" ?w] by auto
  have dj: "disjoint_writes ?w" by (simp add: write_simps)
  have z: "slice b off k = slice (replicate BOOK_LEN 0) off k" if "list_all (apart off k) ?w" for off k
    by (rule wr_all_other [OF b that])
  have bv: "slice b 0 8 = DISC_BOOK" "b ! K_BUMP = 255" "slice b K_LEDGER 32 = LED" "slice b K_PAGE 4 = u32_le 0"
    by (rule wr_all_read [OF b dj] wr_all_nth [OF b dj]; simp)+
  have len: "length b = BOOK_LEN" using wr_all_length [OF b] by simp
  have "slice b 48 32 = replicate 32 0" "slice b 80 8 = replicate 8 0"
    by (simp_all add: z write_simps) (simp_all add: slice_def)
  then have sl: "bv_slots (book_of b) ! 0 = (replicate 32 0, 0)"
    using bv_nth [of 0 b] by (simp add: slot_off_def get_u64_def)
  have run: "process (xs_rt t) PROGRAM_ID [ac PAYER True, ac LED False, ac BOOK False, ac SYSTEM_ID False] (CREATE_BOOK # u32_le 0) s
      = Inr (set_data ?s BOOK b)"
    using led(1) cr b
    by (simp add: process_def create_book_def get_u32_def slice_def BOOK_def [symmetric])
  show thesis
    by (rule that [OF run])
      (use bv len sl in \<open>simp_all add: book_at_def is_book_def book_of_def get_u32_def\<close>)
qed

lemma xs_register_payee:
  assumes "book_at s (replicate 32 0) 0"
  obtains s' where
    "process (xs_rt t) PROGRAM_ID [ac PAYEE True, ac BOOK False] [REGISTER_PAYEE, 0] s = Inr s'"
    and "book_at s' PAYEE 0" and "\<And>k. k \<noteq> BOOK \<Longrightarrow> s' k = s k"
proof -
  note bk = book_at_loads [OF assms]
  let ?d = "data (s BOOK)" and ?b = "splice (data (s BOOK)) 48 PAYEE"
  let ?e = "splice ?b K_USED (u16_le (get_u16 ?b K_USED + 1))"
  have run: "process (xs_rt t) PROGRAM_ID [ac PAYEE True, ac BOOK False] [REGISTER_PAYEE, 0] s = Inr (set_data s BOOK ?e)"
    using bk by (simp add: process_def register_payee_def Let_def slot_off_def)
  have b: "book_of ?b = (book_of ?d)\<lparr>bv_slots := (bv_slots (book_of ?d))[0 := (PAYEE, 0)]\<rparr>"
    using book_of_owner [of 0 ?d PAYEE] bk by (simp add: slot_off_def)
  have e: "book_of ?e = (book_of ?d)\<lparr>bv_slots := (bv_slots (book_of ?d))[0 := (PAYEE, 0)],
      bv_used := get_u16 ?b K_USED + 1\<rparr>"
    using bk(2) by (subst book_of_used) (simp_all add: b)
  have "book_at (set_data s BOOK ?e) PAYEE 0"
    by (rule book_at_keep [OF assms e]) (use bk(2) in \<open>simp_all add: byte_simps\<close>)
  then show thesis by (intro that [OF run]) simp_all
qed

section \<open>A settled voucher\<close>

text \<open>Any signature with \<open>s = 0\<close> and the point the reference curve operation answers is accepted.\<close>

definition XS_SIG :: bytes where
  "XS_SIG = replicate 32 5 @ replicate 32 0"

lemma xs_verify: "verify (xs_rt t) pk msg XS_SIG"
proof -
  have four: "rev [0..<4] = [3, 2, 1, 0 :: nat]" by (simp add: upt_conv_Cons)
  have sig: "slice XS_SIG 32 32 = replicate 32 0" "slice XS_SIG 0 32 = replicate 32 5" by (simp_all add: XS_SIG_def slice_def)
  have "get_u64 (replicate 32 0) 24 = 0" by (simp add: get_u64_def slice_def)
  then have "is_canonical_scalar (replicate 32 0)"
    by (simp add: is_canonical_scalar_def four rd64_def L64_def)
  then show ?thesis by (simp add: verify_def sig Let_def double_mul_def)
qed

definition xs_voucher :: "u64 \<Rightarrow> u64 \<Rightarrow> wire_voucher" where
  "xs_voucher cum expiry = \<lparr>wv_escrow_ix = 1, wv_pair_ix = 0, wv_book_ix = 2, wv_slot = 0, wv_cumulative = cum,
     wv_expiry_slot = expiry, wv_quote_hash = replicate 32 0, wv_sig = XS_SIG\<rparr>"

lemma xs_voucher_wf: "voucher_wf (xs_voucher cum expiry)"
  by (simp add: voucher_wf_def xs_voucher_def XS_SIG_def)

definition xs_accounts :: "account_info list" where
  "xs_accounts = [ac LED False, ac ESC False, ac BOOK False]"

definition xs_ctx :: "u64 \<Rightarrow> vctx" where
  "xs_ctx t = \<lparr>ctx_program_id = PROGRAM_ID, ctx_ledger = LED, ctx_mint = SOL_MINT, ctx_salt = XS_SALT, ctx_now = t\<rparr>"

definition xs_msg :: "u64 \<Rightarrow> u64 \<Rightarrow> bytes" where
  "xs_msg cum expiry = voucher_message PROGRAM_ID SOL_MINT XS_SALT PAYER PAYEE 1 cum expiry (replicate 32 0)"

definition xs_b2 :: "u64 \<Rightarrow> u64 \<Rightarrow> b2" where
  "xs_b2 cum expiry = \<lparr>b2_escrow_ix = 1, b2_pair_ix = 0, b2_append = True, b2_payee = PAYEE, b2_book_ix = 2, b2_slot = 0,
     b2_cumulative = cum, b2_delta = cum, b2_msg = xs_msg cum expiry\<rparr>"

lemma escrow_at_bytes:
  assumes "escrow_at s (xs_escrow bal ea er)"
  shows "data (s ESC) ! 11 = 0" "data (s ESC) ! 10 = 2" "length (data (s ESC)) = 232" "get_u64 (data (s ESC)) 88 = bal"
    "get_u64 (data (s ESC)) 80 = 1" "slice (data (s ESC)) 48 32 = PAYER"
proof -
  from assms have v: "escrow_of (data (s ESC)) = xs_escrow bal ea er" and esc: "is_escrow PROGRAM_ID (s ESC)" by (simp_all add: escrow_at_def)
  have "unat (data (s ESC) ! E_PAIR_COUNT) = length (ev_pairs (escrow_of (data (s ESC))))" by simp
  also have "\<dots> = 0" unfolding v by (simp add: xs_escrow_def)
  finally show "data (s ESC) ! 11 = 0" by (simp add: unat_eq_zero)
  have "unat (data (s ESC) ! E_CAPACITY) = unat (2 :: u8)" using arg_cong [OF v, of ev_capacity] by (simp add: escrow_of_def xs_escrow_def)
  then show c: "data (s ESC) ! 10 = 2" by (simp add: word_unat_eq_iff)
  show "length (data (s ESC)) = 232" using esc c by (simp add: is_escrow_def escrow_len_def)
  show "get_u64 (data (s ESC)) 88 = bal" "get_u64 (data (s ESC)) 80 = 1" "slice (data (s ESC)) 48 32 = PAYER"
    using v by (simp_all add: escrow_of_def xs_escrow_def)
qed

lemma xs_find_pair: "escrow_at s (xs_escrow bal ea er) \<Longrightarrow> find_pair (data (s ESC)) 0 PAYEE = Inr (True, 0)"
  using escrow_at_bytes [of s bal ea er] by (auto simp: find_pair_def pair_exists_def Let_def)

lemma payee_not_zero: "PAYEE \<noteq> replicate 32 0"
  by (simp add: PAYEE_def)

lemma xs_verify_b2:
  assumes "escrow_at s (xs_escrow bal ea er)" and "book_at s PAYEE b" and "0 < cum" and "cum \<le> bal" and "t \<le> expiry"
  shows "\<exists>es bs. verify_b2 (xs_rt t) PROGRAM_ID (xs_ctx t) xs_accounts (xs_voucher cum expiry) 1 True s 0 0 = Inr (xs_b2 cum expiry, es, bs)"
proof -
  have esc: "check_escrow (xs_rt t) s (ac ESC w) PROGRAM_ID = Inr (LED, PAYER)" for w
    using escrow_at_loads [OF assms(1)] by (simp add: xs_escrow_def)
  note e = escrow_at_bytes [OF assms(1)]
  note bk = book_at_loads [OF assms(2)]
  have g: "cum \<noteq> 0" "\<not> bal < cum" "\<not> expiry < t" using assms(3-5) by auto
  show ?thesis
    using esc bk e xs_find_pair [OF assms(1)] payee_not_zero g xs_verify
    by (simp add: verify_b2_def Let_def xs_voucher_def xs_accounts_def xs_ctx_def test_set_def get_at_def slot_off_def
        xs_b2_def xs_msg_def)
qed

definition xs_escrow_paid :: "u64 \<Rightarrow> u64 \<Rightarrow> u64 \<Rightarrow> u64 \<Rightarrow> escrow_view" where
  "xs_escrow_paid bal cum ea er =
     (xs_escrow bal ea er)\<lparr>ev_pairs := [\<lparr>pv_payee = PAYEE, pv_settled = cum, pv_cum = 0, pv_batch = 0\<rparr>]\<rparr>"

lemma xs_settle:
  assumes "ledger_at s (xs_ledger c l n)" and "escrow_at s (xs_escrow bal ea er)" and "book_at s PAYEE b"
    and "0 < cum" and "cum \<le> bal" and "t \<le> expiry" and "unat b + unat cum < 2 ^ 64" and "sane PROGRAM_ID s"
  obtains s' where
    "process (xs_rt t) PROGRAM_ID xs_accounts ([SETTLE, 1] @ voucher_encode (xs_voucher cum expiry)) s = Inr s'"
    and "escrow_at s' (xs_escrow_paid (bal - cum) cum ea er)" and "book_at s' PAYEE (b + cum)"
    and "\<And>k. lamports (s' k) = lamports (s k)" and "\<And>k. k \<noteq> ESC \<Longrightarrow> k \<noteq> BOOK \<Longrightarrow> s' k = s k"
proof -
  let ?v = "xs_b2 cum expiry"
  note led = ledger_at_loads [OF assms(1)]
  note e = escrow_at_bytes [OF assms(2)]
  note bk = book_at_loads [OF assms(3)]
  obtain es bs where v: "verify_b2 (xs_rt t) PROGRAM_ID (xs_ctx t) xs_accounts (xs_voucher cum expiry) 1 True s 0 0 = Inr (?v, es, bs)"
    using xs_verify_b2 [OF assms(2-6)] by blast
  have keys: "key (xs_accounts ! 1) = ESC" "key (xs_accounts ! 2) = BOOK" by (simp_all add: xs_accounts_def)
  have "\<exists>s'. settle_apply xs_accounts ?v s = Inr s'"
    using e bk assms(5,7)
    by (simp add: settle_apply_def xs_b2_def xs_accounts_def get_at_def pair_entry_def Let_def pair_off_def byte_simps
        sub_Inr add_Inr slot_off_def)
  then obtain s' where a: "settle_apply xs_accounts ?v s = Inr s'" by blast
  have ix: "b2_escrow_ix ?v = 1" "b2_book_ix ?v = 2" "b2_slot ?v = 0" "b2_delta ?v = cum" by (simp_all add: xs_b2_def)
  have vo: "voucher_ok xs_accounts ?v 0 s"
    using xs_find_pair [OF assms(2)] payee_not_zero assms(4) by (simp add: voucher_ok_def xs_b2_def xs_accounts_def)
  have ein: "escrow_in PROGRAM_ID LED (s (key (xs_accounts ! b2_escrow_ix ?v)))"
    using assms(2) by (simp add: xs_b2_def xs_accounts_def escrow_in_def escrow_at_def xs_escrow_def escrow_of_def)
  have bin: "book_in PROGRAM_ID LED (s (key (xs_accounts ! b2_book_ix ?v)))"
    using assms(3) by (simp add: xs_b2_def xs_accounts_def book_in_def book_at_def book_of_def)
  have "b2_slot ?v < BOOK_SLOTS" by (simp add: ix)
  note view = settle_apply_view [OF assms(8) a vo ein bin this, unfolded ix keys]
  have m: "moves {} PROGRAM_ID s s'"
    by (rule settle_apply_moves(1) [OF assms(8) a vo ein bin]) (simp add: ix)
  have run: "process (xs_rt t) PROGRAM_ID xs_accounts ([SETTLE, 1] @ voucher_encode (xs_voucher cum expiry)) s = Inr s'"
  proof -
    have dec: "voucher_decode (slice (voucher_encode (xs_voucher cum expiry)) 0 VOUCHER_WIRE_LEN) = Inr (xs_voucher cum expiry)"
      using voucher_decode_encode [OF xs_voucher_wf, of cum expiry "[]"] length_voucher_encode [OF xs_voucher_wf, of cum expiry]
      by (simp add: slice_def)
    have "settle_one (xs_rt t) PROGRAM_ID (xs_ctx t) xs_accounts (voucher_encode (xs_voucher cum expiry)) 0 (s, 0, 0) = Inr (s', es, bs)"
      using v a dec length_voucher_encode [OF xs_voucher_wf, of cum expiry] by (simp add: settle_one_def Let_def)
    then show ?thesis
      using led(1) length_voucher_encode [OF xs_voucher_wf, of cum expiry]
      by (simp add: process_def settle_def Let_def xs_accounts_def get_at_def xs_ctx_def)
  qed
  have "is_escrow PROGRAM_ID (s' ESC)" "is_book PROGRAM_ID (s' BOOK)"
    using m assms(2,3) by (auto simp: moves_def evolves_def kind_next_def escrow_at_def book_at_def)
  moreover have "escrow_of (data (s' ESC)) = xs_escrow_paid (bal - cum) cum ea er"
    unfolding view(1) using assms(2) by (simp add: escrow_at_def pay_view_def xs_b2_def xs_escrow_def xs_escrow_paid_def)
  moreover have "book_of (data (s' BOOK)) = credit_view 0 cum (book_of (data (s BOOK)))" by (rule view(2))
  moreover have "0 < length (bv_slots (book_of (data (s BOOK))))" by simp
  ultimately have "escrow_at s' (xs_escrow_paid (bal - cum) cum ea er)" "book_at s' PAYEE (b + cum)"
    using assms(3) by (simp_all add: escrow_at_def book_at_def credit_view_def)
  then show thesis by (rule that [OF run]) (use view in auto)
qed

section \<open>Reachable states\<close>

lemma xs_rent: "minimum_balance (xs_rt t) LEDGER_LEN = 292"
  by simp

lemma xs_step: "process (xs_rt t) PROGRAM_ID accounts d s = Inr s' \<Longrightarrow> cluster_step 292 PROGRAM_ID s s'"
  by (rule cluster_step.instruction [OF xs_rt_solana xs_rent])

lemma xs_step_at: "process (xs_rt t) PROGRAM_ID accounts d s = Inr s' \<Longrightarrow> cluster_step_at t 292 PROGRAM_ID s s'"
  by (rule cluster_step_at.instruction_at [OF xs_rt_solana xs_rent]) simp

lemma xs_reach: "process (xs_rt t) PROGRAM_ID accounts d s = Inr s' \<Longrightarrow> reachable 292 PROGRAM_ID s \<Longrightarrow> reachable 292 PROGRAM_ID s'"
  using xs_step reachable.step by blast

lemma xs_reachable_sane: "reachable m PROGRAM_ID s \<Longrightarrow> sane PROGRAM_ID s"
  using reachable_inv [OF _ token_not_program] by (simp add: settle_inv_all_def)

text \<open>A ledger, an escrow with 500 lamports and a payee registered in slot 0 of a book.\<close>

definition xs_funded :: "store \<Rightarrow> bool" where
  "xs_funded s \<longleftrightarrow> reachable 292 PROGRAM_ID s \<and> ledger_at s (xs_ledger 1000 500 2) \<and> escrow_at s (xs_escrow 500 0 0) \<and>
     book_at s PAYEE 0 \<and> lamports (s LED) = 792 \<and> purse s PAYER 900000 \<and> purse s SUBMITTER 1000000 \<and>
     unused s CHAN \<and> unused s BAT \<and> unused s PAYEE \<and> lamports (s SUBMITTER) = 1000000"

lemma xs_funded_reached: "\<exists>s. xs_funded s"
proof -
  let ?g = xs_genesis
  have g: "unused ?g LED" "unused ?g ESC" "unused ?g BOOK" "unused ?g CHAN" "unused ?g BAT" "unused ?g PAYEE"
    "slot_hashes_ok (?g SLOT_HASHES_ID)" "purse ?g SUBMITTER 1000000" "lamports (?g SUBMITTER) = 1000000"
    "lamports (?g PAYER) = 1000000" "owner (?g PAYER) = SYSTEM_ID" "data (?g PAYER) = []"
    by (simp_all add: unused_def xs_genesis_def slot_hashes_ok_def purse_def)
  obtain s1 where s1: "process (xs_rt 1000) PROGRAM_ID [ac PAYER True, ac LED False, ac SYSTEM_ID False, ac SLOT_HASHES_ID False] [INIT_LEDGER, KIND_SOL] ?g = Inr s1"
    "ledger_at s1 (xs_ledger 1000 0 1)" "lamports (s1 LED) = 292" "s1 PAYER = (?g PAYER)\<lparr>lamports := lamports (?g PAYER) - 292\<rparr>"
    "\<And>k. k \<noteq> LED \<Longrightarrow> k \<noteq> PAYER \<Longrightarrow> s1 k = ?g k"
    by (rule xs_init_ledger [of ?g 1000]) (use g in \<open>simp_all add: purse_def\<close>)
  obtain s2 where s2: "process (xs_rt 1000) PROGRAM_ID [ac PAYER True, ac LED False, ac ESC False, ac SYSTEM_ID False] [OPEN_ESCROW, 2] s1 = Inr s2"
    "ledger_at s2 (xs_ledger 1000 0 2)" "lamports (s2 LED) = lamports (s1 LED)" "escrow_at s2 (xs_escrow 0 0 0)"
    "s2 PAYER = (s1 PAYER)\<lparr>lamports := lamports (s1 PAYER) - 332\<rparr>"
    "\<And>k. k \<noteq> LED \<Longrightarrow> k \<noteq> PAYER \<Longrightarrow> k \<noteq> ESC \<Longrightarrow> s2 k = s1 k"
    by (rule xs_open_escrow [of s1 1000 1000]) (use g s1 in \<open>simp_all add: purse_def unused_def escrow_len_def\<close>)
  obtain s3 where s3: "process (xs_rt 1000) PROGRAM_ID [ac PAYER True, ac LED False, ac ESC False, ac SYSTEM_ID False] (DEPOSIT # u64_le 500) s2 = Inr s3"
    "ledger_at s3 (xs_ledger 1000 (0 + 500) 2)" "lamports (s3 LED) = lamports (s2 LED) + 500" "escrow_at s3 (xs_escrow (0 + 500) 0 0)"
    "s3 PAYER = (s2 PAYER)\<lparr>lamports := lamports (s2 PAYER) - 500\<rparr>"
    "\<And>k. k \<noteq> LED \<Longrightarrow> k \<noteq> PAYER \<Longrightarrow> k \<noteq> ESC \<Longrightarrow> s3 k = s2 k"
    by (rule xs_deposit [of s2 1000 0 2 0 0 0 500 1000]) (use g s1 s2 in \<open>simp_all add: purse_def\<close>)
  obtain s4 where s4: "process (xs_rt 1000) PROGRAM_ID [ac PAYER True, ac LED False, ac BOOK False, ac SYSTEM_ID False] (CREATE_BOOK # u32_le 0) s3 = Inr s4"
    "book_at s4 (replicate 32 0) 0" "s4 PAYER = (s3 PAYER)\<lparr>lamports := lamports (s3 PAYER) - 2708\<rparr>"
    "\<And>k. k \<noteq> BOOK \<Longrightarrow> k \<noteq> PAYER \<Longrightarrow> s4 k = s3 k"
    by (rule xs_create_book [of s3 1000 "0 + 500" 2 1000]) (use g s1 s2 s3 in \<open>simp_all add: purse_def unused_def\<close>)
  obtain s5 where s5: "process (xs_rt 1000) PROGRAM_ID [ac PAYEE True, ac BOOK False] [REGISTER_PAYEE, 0] s4 = Inr s5"
    "book_at s5 PAYEE 0" "\<And>k. k \<noteq> BOOK \<Longrightarrow> s5 k = s4 k"
    by (rule xs_register_payee [of s4 1000]) (use s4 in simp_all)
  have "reachable 292 PROGRAM_ID s5"
    by (rule xs_reach [OF s5(1) xs_reach [OF s4(1) xs_reach [OF s3(1) xs_reach [OF s2(1) xs_reach [OF s1(1) xs_genesis_reachable]]]]])
  moreover have "ledger_at s5 (xs_ledger 1000 500 2)" "escrow_at s5 (xs_escrow 500 0 0)" "lamports (s5 LED) = 792"
    using s1(3) s2(3) s3(2,3,4) s4(4) s5(3) by (simp_all add: ledger_at_def escrow_at_def)
  moreover have "purse s5 PAYER 900000" using g s1 s2 s3 s4 s5 by (simp add: purse_def)
  moreover have "purse s5 SUBMITTER 1000000" "unused s5 CHAN" "unused s5 BAT" "unused s5 PAYEE" "lamports (s5 SUBMITTER) = 1000000"
    using g s1(5) s2(6) s3(6) s4(4) s5(3) by (simp_all add: purse_def unused_def)
  ultimately show ?thesis using s5(2) by (auto simp: xs_funded_def)
qed

end
