(* ===== verification/XsLiveness.thy ===== *)
theory XsLiveness
  imports XsEffect
begin

text \<open>
  What the invariants make available: withdrawals from SOL ledgers always go through, and pay
  exactly what the entry holds.
\<close>

section \<open>Payouts of SOL ledgers\<close>

lemma held_le_total:
  assumes "books_ok pid s"
  shows "held pid L (s k) \<le> ledger_total pid s L"
proof -
  have "total ((\<lambda>k. held pid L (s k))(k := 0)) + held pid L (s k) = total (\<lambda>k. held pid L (s k)) + 0"
    by (rule total_upd) (rule finite_held [OF assms])
  then show ?thesis by (simp add: ledger_total_def)
qed

lemma covered_solvent:
  assumes "covered (minimum_balance rt LEDGER_LEN) (s (key led))" and "l = ledger_of (data (s (key led)))" and "l_kind l = KIND_SOL"
  shows "check_solvency rt l led None s = Inr ()"
proof -
  have "unat (l_liabilities l) \<le> unat (lamports (s (key led))) - unat (minimum_balance rt LEDGER_LEN)"
    using assms by (simp add: covered_def)
  then have "\<not> saturating_sub (lamports (s (key led))) (minimum_balance rt LEDGER_LEN) < l_liabilities l"
    by (auto simp: saturating_sub_def word_less_nat_alt word_le_nat_alt unat_sub)
  then show ?thesis using assms(3) by (simp add: check_solvency_def holdings_def)
qed

text \<open>Recording and paying an amount the ledger owes succeeds on a covered SOL ledger.\<close>

lemma sol_payout_runs:
  assumes "is_ledger pid (s (key led))" and "l = ledger_of (data (s (key led)))" and "l_kind l = KIND_SOL"
    and "covered (minimum_balance rt LEDGER_LEN) (s (key led))" and "amount \<le> l_liabilities l" and "0 < amount"
    and "is_writable dest" and "key dest \<noteq> key led" and "unat (lamports (s (key dest))) + unat amount < 2 ^ 64"
    and "\<And>k. lamports (s1 k) = lamports (s k)" and "data (s1 (key led)) = data (s (key led))"
  obtains d s2 s' where "ledger_store (l\<lparr>l_liabilities := l_liabilities l - amount\<rparr>) led s1 = Inr s2"
    and "s2 = set_data s1 (key led) d"
    and "pay_out rt (l\<lparr>l_liabilities := l_liabilities l - amount\<rparr>) led dest None amount s2 = Inr s'"
    and "check_solvency rt (l\<lparr>l_liabilities := l_liabilities l - amount\<rparr>) led None s' = Inr ()"
    and "ledger_of d = l\<lparr>l_liabilities := l_liabilities l - amount\<rparr>"
    and "s' = set_lamports (set_lamports s2 (key led) (lamports (s (key led)) - amount)) (key dest) (lamports (s (key dest)) + amount)"
    and "amount \<le> lamports (s (key led))"
proof -
  let ?l = "l\<lparr>l_liabilities := l_liabilities l - amount\<rparr>" and ?L = "key led"
  have len: "LEDGER_LEN \<le> length (data (s1 ?L))" using assms(1,11) by (simp add: is_ledger_def)
  have "ledger_wf l" unfolding assms(2) by (rule ledger_codec.of_wf) (use assms(1) in \<open>simp add: is_ledger_def\<close>)
  then have "ledger_wf ?l" by (simp add: ledger_wf_def)
  from ledger_codec.pack_total [OF this len] obtain d where d: "ledger_pack ?l (data (s1 ?L)) = Inr d" by blast
  let ?s2 = "set_data s1 ?L d"
  have cov: "unat (l_liabilities l) \<le> unat (lamports (s ?L)) - unat (minimum_balance rt LEDGER_LEN)"
    using assms(2-4) by (simp add: covered_def)
  have am: "unat amount \<le> unat (l_liabilities l)" "0 < unat amount"
    using assms(5,6) by (simp_all add: word_le_nat_alt word_less_nat_alt)
  have le: "amount \<le> lamports (s ?L)" using cov am by (simp add: word_le_nat_alt)
  have u: "unat (lamports (s ?L) - amount) = unat (lamports (s ?L)) - unat amount"
    "unat (l_liabilities l - amount) = unat (l_liabilities l) - unat amount"
    using le assms(5) by (simp_all add: unat_sub)
  have solv: "\<not> saturating_sub (lamports (s ?L) - amount) (minimum_balance rt LEDGER_LEN) < l_liabilities l - amount"
    using cov am u by (auto simp: saturating_sub_def word_less_nat_alt word_le_nat_alt unat_sub)
  let ?s' = "set_lamports (set_lamports ?s2 ?L (lamports (s ?L) - amount)) (key dest) (lamports (s (key dest)) + amount)"
  have pay: "pay_out rt ?l led dest None amount ?s2 = Inr ?s'"
    using assms(3,7-10) le by (simp add: pay_out_def sub_Inr add_Inr Let_def set_lamports_apply)
  have "check_solvency rt ?l led None ?s' = Inr ()"
    using solv assms(3,8) by (simp add: check_solvency_def holdings_def set_lamports_apply)
  with d pay le show thesis
    by (intro that [of ?s2 d ?s']) (simp_all add: ledger_store_def ledger_codec.pack_of)
qed

section \<open>Withdrawals\<close>

lemma withdraw_escrow_runs:
  assumes inv: "settle_inv_all (minimum_balance rt LEDGER_LEN) pid s"
    and load: "ledger_load rt s led pid = Inr l" "l_kind l = KIND_SOL"
      "check_escrow rt s esc pid = Inr (key led, key payer)"
    and keys: "is_signer payer" "is_writable led" "is_writable esc" "is_writable dest" "key dest \<noteq> key led"
    and x: "x = escrow_of (data (s (key esc)))" "ev_exit_amount x \<noteq> 0" "ev_exit_ready x \<le> clock_slot rt"
    and am: "amount = min (ev_exit_amount x) (ev_balance x)"
    and fits: "unat (lamports (s (key dest))) + unat amount < 2 ^ 64"
  shows "\<exists>s'. withdraw_escrow rt pid (payer # led # esc # dest # rest) [] s = Inr s' \<and>
    escrow_of (data (s' (key esc))) = x\<lparr>ev_balance := ev_balance x - amount, ev_exit_amount := 0, ev_exit_ready := 0\<rparr> \<and>
    unat (lamports (s' (key dest))) = unat (lamports (s (key dest))) + unat amount \<and>
    unat (lamports (s' (key led))) + unat amount = unat (lamports (s (key led)))"
proof -
  let ?E = "key esc" and ?L = "key led"
  note led = load(1) [unfolded ledger_load_Inr]
  note esc = check_escrow_facts [OF load(3)]
  have ek: "is_escrow pid (s ?E)" using esc by simp
  have len: "120 \<le> length (data (s ?E))" by (rule is_escrow_length [OF ek])
  have ne: "?L \<noteq> ?E" using ek led kinds_exclusive(1) by metis
  have f: "get_u64 (data (s ?E)) E_BALANCE = ev_balance x" "get_u64 (data (s ?E)) E_EXIT_AMOUNT = ev_exit_amount x"
    "get_u64 (data (s ?E)) E_EXIT_READY = ev_exit_ready x" by (simp_all add: x(1) escrow_of_def)
  have ready: "\<not> clock_slot rt < ev_exit_ready x" using x(3) by simp
  let ?e = "splice (splice (splice (data (s ?E)) E_BALANCE (u64_le (ev_balance x - amount))) E_EXIT_AMOUNT (u64_le 0))
      E_EXIT_READY (u64_le 0)"
  let ?s1 = "set_data s ?E ?e"
  have e: "escrow_of ?e = x\<lparr>ev_balance := ev_balance x - amount, ev_exit_amount := 0, ev_exit_ready := 0\<rparr>"
    using len by (simp add: escrow_header_writes x(1))
  have cov: "covered (minimum_balance rt LEDGER_LEN) (s ?L)" and books: "books_ok pid s"
    and total: "liabilities s ?L = ledger_total pid s ?L"
    using inv led by (auto simp: settle_inv_all_def all_covered_def balanced_def)
  show ?thesis
  proof (cases "amount = 0")
    case True
    have zero: "ev_balance x = 0" using True am x(2) by (auto simp: min_def split: if_splits)
    have "check_solvency rt l led None ?s1 = Inr ()"
      by (rule covered_solvent) (use cov led load(2) ne in simp_all)
    then have "withdraw_escrow rt pid (payer # led # esc # dest # rest) [] s = Inr ?s1"
      using load keys x(2) ready zero True f len
      by (auto simp: withdraw_escrow_def Let_def)
    then show ?thesis using True e ne by simp
  next
    case False
    have "slice (data (s ?E)) 16 32 = ?L" using load(3) by (simp add: check_escrow_Inr)
    then have "unat (ev_balance x) = held pid ?L (s ?E)"
      using ek f(1) by (simp add: held_def entry_value_def is_escrow_def entry_ledger_def)
    then have "ev_balance x \<le> l_liabilities l" 
      using held_le_total [OF books, of ?L ?E] total led by (simp add: liabilities_def word_le_nat_alt)
    then have le: "amount \<le> l_liabilities l" using am by (auto simp: min_def split: if_splits)
    obtain d s2 s' where p: "ledger_store (l\<lparr>l_liabilities := l_liabilities l - amount\<rparr>) led ?s1 = Inr s2"
      "s2 = set_data ?s1 ?L d"
      "pay_out rt (l\<lparr>l_liabilities := l_liabilities l - amount\<rparr>) led dest None amount s2 = Inr s'"
      "check_solvency rt (l\<lparr>l_liabilities := l_liabilities l - amount\<rparr>) led None s' = Inr ()"
      "s' = set_lamports (set_lamports s2 ?L (lamports (s ?L) - amount)) (key dest) (lamports (s (key dest)) + amount)"
      "amount \<le> lamports (s ?L)"
      by (rule sol_payout_runs [of pid s led l rt amount dest ?s1]) (use led load(2) cov le False keys fits ne in \<open>auto simp: word_gt_0\<close>)
    have "liabilities_sub l amount = Inr (l\<lparr>l_liabilities := l_liabilities l - amount\<rparr>)"
      using le by (simp add: liabilities_Inr sub_Inr)
    then have "withdraw_escrow rt pid (payer # led # esc # dest # rest) [] s = Inr s'"
      using load keys x(2) ready am [symmetric] False f len p(1,3,4)
      by (simp add: withdraw_escrow_def Let_def word_gt_0) blast
    moreover have "unat (lamports (s ?L) - amount) + unat amount = unat (lamports (s ?L))"
      using p(6) by (simp add: unat_sub word_le_nat_alt)
    ultimately show ?thesis using e ne keys(5) fits by (simp add: p(2,5) set_apply unat_word_ariths)
  qed
qed

lemma withdraw_payee_runs:
  assumes inv: "settle_inv_all (minimum_balance rt LEDGER_LEN) pid s"
    and load: "ledger_load rt s led pid = Inr l" "l_kind l = KIND_SOL" "check_book rt s bk pid = Inr (key led)"
    and keys: "is_signer payee" "is_writable led" "is_writable bk" "is_writable dest" "key dest \<noteq> key led"
    and i: "unat slot < BOOK_SLOTS" "bv_slots (book_of (data (s (key bk)))) ! unat slot = (key payee, bal)"
    and am: "0 < amount" "amount \<le> bal"
    and fits: "unat (lamports (s (key dest))) + unat amount < 2 ^ 64"
  shows "\<exists>s'. withdraw_payee rt pid (payee # led # bk # dest # rest) (slot # u64_le amount) s = Inr s' \<and>
    bv_slots (book_of (data (s' (key bk)))) = (bv_slots (book_of (data (s (key bk)))))[unat slot := (key payee, bal - amount)] \<and>
    unat (lamports (s' (key dest))) = unat (lamports (s (key dest))) + unat amount \<and>
    unat (lamports (s' (key led))) + unat amount = unat (lamports (s (key led)))"
proof -
  let ?B = "key bk" and ?L = "key led" and ?i = "unat slot"
  note led = load(1) [unfolded ledger_load_Inr]
  have bk: "is_book pid (s ?B)" "slice (data (s ?B)) 16 32 = ?L" using load(3) by (simp_all add: check_book_Inr)
  have ne: "?L \<noteq> ?B" using bk(1) led kinds_disjoint(2) by metis
  have len: "length (data (s ?B)) = BOOK_LEN" using bk(1) by (simp add: is_book_def)
  have fits2: "slot_off ?i + 40 \<le> length (data (s ?B))" using len i(1) by (simp add: slot_off_def)
  have f: "slice (data (s ?B)) (slot_off ?i) 32 = key payee" "get_u64 (data (s ?B)) (slot_off ?i + S_BALANCE) = bal"
    using bv_nth [OF i(1)] i(2) by simp_all
  let ?b = "splice (data (s ?B)) (slot_off ?i + S_BALANCE) (u64_le (bal - amount))"
  let ?s1 = "set_data s ?B ?b"
  have cov: "covered (minimum_balance rt LEDGER_LEN) (s ?L)" and books: "books_ok pid s"
    and total: "liabilities s ?L = ledger_total pid s ?L"
    using inv led by (auto simp: settle_inv_all_def all_covered_def balanced_def)
  have "unat bal \<le> book_value (data (s ?B))"
    unfolding book_value_def f(2) [symmetric] by (rule member_le_sum) (use i(1) in simp_all)
  also have "\<dots> = held pid ?L (s ?B)"
    using bk by (simp add: held_def entry_value_def is_book_def entry_ledger_def)
  also have "\<dots> \<le> ledger_total pid s ?L" by (rule held_le_total [OF books])
  finally have "bal \<le> l_liabilities l" using total led by (simp add: liabilities_def word_le_nat_alt)
  with am(2) have le: "amount \<le> l_liabilities l" by simp
  obtain d s2 s' where p: "ledger_store (l\<lparr>l_liabilities := l_liabilities l - amount\<rparr>) led ?s1 = Inr s2"
    "s2 = set_data ?s1 ?L d"
    "pay_out rt (l\<lparr>l_liabilities := l_liabilities l - amount\<rparr>) led dest None amount s2 = Inr s'"
    "check_solvency rt (l\<lparr>l_liabilities := l_liabilities l - amount\<rparr>) led None s' = Inr ()"
    "s' = set_lamports (set_lamports s2 ?L (lamports (s ?L) - amount)) (key dest) (lamports (s (key dest)) + amount)"
    "amount \<le> lamports (s ?L)"
    by (rule sol_payout_runs [of pid s led l rt amount dest ?s1]) (use led load(2) cov le am keys fits ne in auto)
  have "liabilities_sub l amount = Inr (l\<lparr>l_liabilities := l_liabilities l - amount\<rparr>)"
    using le by (simp add: liabilities_Inr sub_Inr)
  moreover have "get_u64 (slot # u64_le amount) 1 = amount" by (simp add: get_u64_def slice_def)
  moreover have "amount \<noteq> 0" "\<not> bal < amount" using am by auto
  ultimately have "withdraw_payee rt pid (payee # led # bk # dest # rest) (slot # u64_le amount) s = Inr s'"
    using load keys i(1) f fits2 p(1,3,4)
    by (simp add: withdraw_payee_def Let_def)
  moreover have "unat (lamports (s ?L) - amount) + unat amount = unat (lamports (s ?L))"
    using p(6) by (simp add: unat_sub word_le_nat_alt)
  moreover have "book_of ?b = (book_of (data (s ?B)))\<lparr>bv_slots := (bv_slots (book_of (data (s ?B))))[?i := (key payee, bal - amount)]\<rparr>"
    by (subst book_of_balance [OF i(1) fits2]) (simp add: f(1))
  ultimately show ?thesis using ne keys(5) fits by (simp add: p(2,5) set_apply unat_word_ariths)
qed

end
