(* ===== verification/PropsSettle.thy ===== *)
theory PropsSettle
  imports XsScenario XsLiveness
begin

text \<open>
  The properties of \<open>x402_settle\<close> as a whole: what holds in every reachable state, what a
  settlement does, and what no sequence of transactions can do.
\<close>

section \<open>Money\<close>

text \<open>
  C1. In every reachable state the lamports of a SOL ledger above its rent cover all balances of
  the ledger: escrows, payee slots, channels and batch holds together.
\<close>

theorem sol_claims_backed:
  assumes "reachable m pid s" and "TOKEN_ID \<noteq> pid" and "TOKEN_2022_ID \<noteq> pid"
    and "is_ledger pid (s L)" and "l_kind (ledger_of (data (s L))) = KIND_SOL"
  shows "ledger_total pid s L \<le> unat (lamports (s L)) - unat m"
proof -
  have inv: "settle_inv_all m pid s" by (rule reachable_inv [OF assms(1-3)])
  then have "covered m (s L)" "liabilities s L = ledger_total pid s L"
    using assms(4) by (auto simp: settle_inv_all_def all_covered_def balanced_def)
  with assms(5) show ?thesis by (simp add: covered_def liabilities_def)
qed

theorem sol_claims_backed_witness:
  "\<exists>s. reachable 292 PROGRAM_ID s \<and> is_ledger PROGRAM_ID (s LED) \<and> lamports (s LED) = 792 \<and> ledger_total PROGRAM_ID s LED \<le> 500"
proof -
  obtain s where s: "xs_funded s" using xs_funded_reached by blast
  then have f: "reachable 292 PROGRAM_ID s" "is_ledger PROGRAM_ID (s LED)" "ledger_of (data (s LED)) = xs_ledger 1000 500 2"
    "lamports (s LED) = 792" by (auto simp: xs_funded_def ledger_at_def)
  have "ledger_total PROGRAM_ID s LED \<le> unat (lamports (s LED)) - unat (292 :: u64)"
    by (rule sol_claims_backed [OF f(1) token_not_program f(2)]) (simp add: f(3))
  then show ?thesis using f by auto
qed

text \<open>
  C6. In every reachable state the liabilities recorded in a ledger, of any kind, are the sum of
  the balances booked under it.
\<close>

theorem liabilities_are_claims:
  assumes "reachable m pid s" and "TOKEN_ID \<noteq> pid" and "TOKEN_2022_ID \<noteq> pid" and "is_ledger pid (s L)"
  shows "unat (l_liabilities (ledger_of (data (s L)))) = ledger_total pid s L"
  using reachable_inv [OF assms(1-3)] assms(4) by (simp add: settle_inv_all_def balanced_def liabilities_def)

theorem liabilities_are_claims_witness: "\<exists>s. reachable 292 PROGRAM_ID s \<and> ledger_total PROGRAM_ID s LED = 500"
proof -
  obtain s where s: "xs_funded s" using xs_funded_reached by blast
  then have f: "reachable 292 PROGRAM_ID s" "is_ledger PROGRAM_ID (s LED)" "ledger_of (data (s LED)) = xs_ledger 1000 500 2"
    by (auto simp: xs_funded_def ledger_at_def)
  from liabilities_are_claims [OF f(1) token_not_program f(2)] f show ?thesis by auto
qed

section \<open>Accounts\<close>

text \<open>
  C8. In every reachable state every account of the program is well formed: an escrow holds at most
  its capacity of pairs, no payee twice, and its pending count is the number of reserved pairs; a
  channel's balance and best amount fit its deposit and status; a batch's hold is what is staged.
\<close>

theorem accounts_sane:
  assumes "reachable m pid s" and "TOKEN_ID \<noteq> pid" and "TOKEN_2022_ID \<noteq> pid"
  shows "acct_sane pid (s k)"
  using reachable_inv [OF assms] by (simp add: settle_inv_all_def sane_def)

theorem accounts_sane_witness:
  "\<exists>s. reachable 292 PROGRAM_ID s \<and> is_escrow PROGRAM_ID (s ESC) \<and> acct_sane PROGRAM_ID (s ESC)"
proof -
  obtain s where s: "xs_funded s" using xs_funded_reached by blast
  then have f: "reachable 292 PROGRAM_ID s" "is_escrow PROGRAM_ID (s ESC)" by (auto simp: xs_funded_def escrow_at_def)
  from accounts_sane [OF f(1) token_not_program, of ESC] f show ?thesis by blast
qed

text \<open>
  C7. Whatever happens in a step in slot \<open>t\<close>, an account moves along the abstract lifecycle of its kind:
  ledgers and books are kept for ever, settled amounts, capacities, scopes and best amounts never
  fall, statuses only advance; and an account is only given up when nothing is left in it: an
  escrow without balance, reservations and channels, a channel that is closed or whose expiry slot
  is not after \<open>t\<close>, a finished batch without hold.
\<close>

theorem account_lifecycle:
  assumes "reachable m pid s" and "cluster_step_at t m pid s s'" and "TOKEN_ID \<noteq> pid" and "TOKEN_2022_ID \<noteq> pid"
  shows "kind_next pid (s k) (s' k) \<or> closable t pid (s k) \<and> owner (s' k) \<noteq> pid"
  using cluster_step_at_effect [OF assms(2) reachable_inv [OF assms(1,3,4)] assms(3,4)]
  by (auto simp: step_effect_def step_ok_def)

theorem account_lifecycle_witness:
  "\<exists>s s'. reachable 292 PROGRAM_ID s \<and> cluster_step_at 1000 292 PROGRAM_ID s s' \<and> s \<noteq> s' \<and>
    (kind_next PROGRAM_ID (s ESC) (s' ESC) \<or> closable 1000 PROGRAM_ID (s ESC) \<and> owner (s' ESC) \<noteq> PROGRAM_ID)"
proof -
  obtain s where s: "xs_funded s" using xs_funded_reached by blast
  then have f: "reachable 292 PROGRAM_ID s" "ledger_at s (xs_ledger 1000 500 2)" "escrow_at s (xs_escrow 500 0 0)" "book_at s PAYEE 0"
    by (simp_all add: xs_funded_def)
  obtain s' where s': "process (xs_rt 1000) PROGRAM_ID xs_accounts ([SETTLE, 1] @ voucher_encode (xs_voucher 100 2000)) s = Inr s'"
    "book_at s' PAYEE (0 + 100)"
    by (rule xs_settle [OF f(2-4), of 100 1000 2000]) (use xs_reachable_sane [OF f(1)] in simp_all)
  have "s \<noteq> s'" using f(4) s'(2) by (auto simp: book_at_def)
  with account_lifecycle [OF f(1) xs_step_at [OF s'(1)] token_not_program, of ESC] xs_step_at [OF s'(1)] f(1) show ?thesis by blast
qed

text \<open>C9. In every reachable state no two escrows or channels of a ledger share a scope.\<close>

theorem scopes_unique:
  assumes "reachable m pid s" and "TOKEN_ID \<noteq> pid" and "TOKEN_2022_ID \<noteq> pid"
    and "entry_scope pid (s j) = Some x" and "entry_scope pid (s k) = Some x"
  shows "j = k"
  using reachable_inv [OF assms(1-3)] assms(4,5) unfolding settle_inv_all_def scopes_ok_def by blast

theorem scopes_unique_witness:
  "\<exists>s. reachable 292 PROGRAM_ID s \<and> entry_scope PROGRAM_ID (s ESC) = Some (LED, 1) \<and>
    (\<forall>k. entry_scope PROGRAM_ID (s k) = Some (LED, 1) \<longrightarrow> k = ESC)"
proof -
  obtain s where s: "xs_funded s" using xs_funded_reached by blast
  then have f: "reachable 292 PROGRAM_ID s" "entry_scope PROGRAM_ID (s ESC) = Some (LED, 1)"
    by (auto simp: xs_funded_def escrow_at_def entry_scope_def xs_escrow_def)
  with scopes_unique [OF f(1) token_not_program _ f(2)] show ?thesis by blast
qed

section \<open>Settlement\<close>

text \<open>
  C4. A settlement pays its vouchers in order on the abstract ledger: from each escrow what the
  cumulative amount exceeds what its payee was paid before, into the payee's slot; \<open>pay_all\<close> is
  defined only when every amount is new and covered by the balance.
\<close>

theorem settle_refines_pay:
  assumes "reachable m pid s" and "TOKEN_ID \<noteq> pid" and "TOKEN_2022_ID \<noteq> pid"
    and "settle rt pid accounts (nb # body) s = Inr s'"
  shows "\<exists>ws. list_all2 (\<lambda>i w. voucher_decode (slice body (i * VOUCHER_WIRE_LEN) VOUCHER_WIRE_LEN) = Inr w) [0..<unat nb] ws \<and>
    pay_all (map (payment_of accounts) ws) (tabs_of pid s) = Some (tabs_of pid s')"
proof -
  have "sane pid s" using reachable_inv [OF assms(1-3)] by (simp add: settle_inv_all_def)
  from settle_pays [OF this assms(4)] show ?thesis by simp
qed

text \<open>
  C3. Every voucher of a settlement that succeeds was not expired and carries a signature of the
  escrow's payer over the program, the ledger's mint and salt, the payee, the escrow's scope, the
  amount, the expiry and the quote.
\<close>

theorem settle_needs_signatures:
  assumes "reachable m pid s" and "TOKEN_ID \<noteq> pid" and "TOKEN_2022_ID \<noteq> pid"
    and "settle rt pid (led # accounts) (nb # body) s = Inr s'" and "i < unat nb"
  shows "\<exists>w. voucher_decode (slice body (i * VOUCHER_WIRE_LEN) VOUCHER_WIRE_LEN) = Inr w \<and> is_ledger pid (s (key led)) \<and>
    voucher_valid rt \<lparr>ctx_program_id = pid, ctx_ledger = key led, ctx_mint = l_mint (ledger_of (data (s (key led)))),
       ctx_salt = l_salt (ledger_of (data (s (key led)))), ctx_now = clock_slot rt\<rparr> (led # accounts) s w"
proof -
  have "sane pid s" using reachable_inv [OF assms(1-3)] by (simp add: settle_inv_all_def)
  from settle_valid [OF this assms(4,5)] show ?thesis .
qed

text \<open>A state in which the settlement of the reference run succeeds, and its result.\<close>

lemma settled_reached:
  obtains s s' where "reachable 292 PROGRAM_ID s" and "reachable 292 PROGRAM_ID s'"
    and "settle (xs_rt 1000) PROGRAM_ID xs_accounts (1 # voucher_encode (xs_voucher 100 2000)) s = Inr s'"
    and "escrow_at s' (xs_escrow_paid 400 100 0 0)" and "book_at s' PAYEE 100"
    and "ledger_at s (xs_ledger 1000 500 2)" and "ledger_at s' (xs_ledger 1000 500 2)" and "lamports (s' PAYEE) = 0"
proof -
  obtain s where s: "xs_funded s" using xs_funded_reached by blast
  then have f: "reachable 292 PROGRAM_ID s" "ledger_at s (xs_ledger 1000 500 2)" "escrow_at s (xs_escrow 500 0 0)" "book_at s PAYEE 0"
    "lamports (s PAYEE) = 0" by (simp_all add: xs_funded_def unused_def)
  obtain s' where s': "process (xs_rt 1000) PROGRAM_ID xs_accounts ([SETTLE, 1] @ voucher_encode (xs_voucher 100 2000)) s = Inr s'"
    "escrow_at s' (xs_escrow_paid (500 - 100) 100 0 0)" "book_at s' PAYEE (0 + 100)" "\<And>k. lamports (s' k) = lamports (s k)"
    "\<And>k. k \<noteq> ESC \<Longrightarrow> k \<noteq> BOOK \<Longrightarrow> s' k = s k"
    by (rule xs_settle [OF f(2-4), of 100 1000 2000]) (use xs_reachable_sane [OF f(1)] in simp_all)
  show thesis
    by (rule that [OF f(1) xs_reach [OF s'(1) f(1)]]) (use s' f in \<open>simp_all add: process_def ledger_at_def\<close>)
qed

theorem settle_refines_pay_witness:
  "\<exists>s s' ws. settle (xs_rt 1000) PROGRAM_ID xs_accounts (1 # voucher_encode (xs_voucher 100 2000)) s = Inr s' \<and>
    length ws = 1 \<and> pay_all (map (payment_of xs_accounts) ws) (tabs_of PROGRAM_ID s) = Some (tabs_of PROGRAM_ID s')"
proof -
  obtain s s' where r: "reachable 292 PROGRAM_ID s"
    and st: "settle (xs_rt 1000) PROGRAM_ID xs_accounts (1 # voucher_encode (xs_voucher 100 2000)) s = Inr s'"
    by (rule settled_reached)
  from settle_refines_pay [OF r token_not_program st] obtain ws where
    ws: "list_all2 (\<lambda>i w. voucher_decode (slice (voucher_encode (xs_voucher 100 2000)) (i * VOUCHER_WIRE_LEN) VOUCHER_WIRE_LEN) = Inr w)
      [0..<unat (1 :: u8)] ws"
    and p: "pay_all (map (payment_of xs_accounts) ws) (tabs_of PROGRAM_ID s) = Some (tabs_of PROGRAM_ID s')" by blast
  from list_all2_lengthD [OF ws] have "length ws = 1" by simp
  with p st show ?thesis by blast
qed

theorem settle_needs_signatures_witness:
  "\<exists>s s' w. settle (xs_rt 1000) PROGRAM_ID xs_accounts (1 # voucher_encode (xs_voucher 100 2000)) s = Inr s' \<and>
    voucher_valid (xs_rt 1000) (xs_ctx 1000) xs_accounts s w"
proof -
  obtain s s' where r: "reachable 292 PROGRAM_ID s" and l: "ledger_at s (xs_ledger 1000 500 2)"
    and st: "settle (xs_rt 1000) PROGRAM_ID xs_accounts (1 # voucher_encode (xs_voucher 100 2000)) s = Inr s'"
    by (rule settled_reached)
  have a: "xs_accounts = ac LED False # [ac ESC False, ac BOOK False]" by (simp add: xs_accounts_def)
  from settle_needs_signatures [OF r token_not_program st [unfolded a], of 0] st l show ?thesis
    by (auto simp: a xs_ctx_def ledger_at_def)
qed

text \<open>
  C2. No voucher is paid twice: once an escrow has paid a payee a cumulative amount, a settlement
  with a voucher for that scope and payee at or below it fails, in every later state and for every
  later account of that scope.
\<close>

theorem no_double_settlement:
  assumes "reachable m pid s" and "cluster_steps m pid s s'" and "TOKEN_ID \<noteq> pid" and "TOKEN_2022_ID \<noteq> pid"
    and "is_escrow pid (s E)" and "i < unat nb"
    and "voucher_decode (slice body (i * VOUCHER_WIRE_LEN) VOUCHER_WIRE_LEN) = Inr w"
    and "entry_scope pid (s' (key (accounts ! unat (wv_escrow_ix w)))) = entry_scope pid (s E)"
    and "payee = fst (bv_slots (book_of (data (s' (key (accounts ! unat (wv_book_ix w)))))) ! unat (wv_slot w))"
    and "unat (wv_cumulative w) \<le> settled_of (ev_pairs (escrow_of (data (s E)))) payee"
  shows "settle rt pid accounts (nb # body) s' \<noteq> Inr s''"
proof
  assume st: "settle rt pid accounts (nb # body) s' = Inr s''"
  let ?E = "key (accounts ! unat (wv_escrow_ix w))" and ?B = "key (accounts ! unat (wv_book_ix w))"
  note inv = reachable_inv [OF assms(1,3,4)]
  have "sane pid s'" using cluster_steps_inv [OF assms(2) inv assms(3,4)] by (simp add: settle_inv_all_def)
  from settle_pays [OF this st] obtain ws where
    ws: "list_all2 (\<lambda>i w. voucher_decode (slice body (i * VOUCHER_WIRE_LEN) VOUCHER_WIRE_LEN) = Inr w) [0..<unat nb] ws"
    and pa: "pay_all (map (payment_of accounts) ws) (tabs_of pid s') = Some (tabs_of pid s'')" by auto
  have "w = ws ! i" "i < length ws"
    using list_all2_nthD [OF ws, of i] list_all2_lengthD [OF ws] assms(6,7) by auto
  then have "payment_of accounts w \<in> set (map (payment_of accounts) ws)" by simp
  from pay_all_fresh [OF pa this] have e: "is_escrow pid (s' ?E)" "is_book pid (s' ?B)" "unat (wv_slot w) < BOOK_SLOTS"
    and lt: "settled_of (ev_pairs (escrow_of (data (s' ?E)))) payee < unat (wv_cumulative w)"
    by (auto simp: tabs_of_def payment_of_def escrow_tab_def book_tab_def assms(9) split_beta split: if_splits)
  from steps_settled(2) [OF assms(2) inv assms(3,4,5) e(1) assms(8), of payee] lt assms(10) show False by simp
qed

theorem no_double_settlement_witness:
  "\<exists>s'. reachable 292 PROGRAM_ID s' \<and> book_at s' PAYEE 100 \<and>
    (\<forall>s''. settle (xs_rt 1000) PROGRAM_ID xs_accounts (1 # voucher_encode (xs_voucher 100 2000)) s' \<noteq> Inr s'')"
proof -
  obtain s' where r: "reachable 292 PROGRAM_ID s'" and e: "escrow_at s' (xs_escrow_paid 400 100 0 0)" and b: "book_at s' PAYEE 100"
    by (rule settled_reached)
  have dec: "voucher_decode (slice (voucher_encode (xs_voucher 100 2000)) (0 * VOUCHER_WIRE_LEN) VOUCHER_WIRE_LEN) = Inr (xs_voucher 100 2000)"
    using voucher_decode_encode [OF xs_voucher_wf, of 100 2000 "[]"] length_voucher_encode [OF xs_voucher_wf, of 100 2000]
    by (simp add: slice_def)
  have "settle (xs_rt 1000) PROGRAM_ID xs_accounts (1 # voucher_encode (xs_voucher 100 2000)) s' \<noteq> Inr s''" for s''
    by (rule no_double_settlement [OF r cluster_steps.none token_not_program, of ESC 0 _ _ "xs_voucher 100 2000" _ PAYEE])
      (use e b dec in \<open>simp_all add: escrow_at_def book_at_def xs_voucher_def xs_accounts_def xs_escrow_paid_def\<close>)
  with r b show ?thesis by blast
qed

section \<open>Withdrawals\<close>

lemma check_pda_same: "create_program_address rt' = create_program_address rt \<Longrightarrow> check_pda rt' k seeds b pid = check_pda rt k seeds b pid"
  by (simp add: check_pda_def)

lemma request_exit_state:
  assumes "request_exit rt pid (payer # led # esc # rest) d s = Inr s1" and "get_u64 d 0 \<noteq> 0"
    and "create_program_address rt2 = create_program_address rt"
  shows "\<exists>ready. unat ready = unat (clock_slot rt) + unat (l_exit_delay_slots (ledger_of (data (s (key led))))) \<and>
    escrow_of (data (s1 (key esc))) = (escrow_of (data (s (key esc))))\<lparr>ev_exit_amount := get_u64 d 0, ev_exit_ready := ready\<rparr> \<and>
    ledger_load rt2 s1 led pid = Inr (ledger_of (data (s (key led)))) \<and> s1 (key led) = s (key led) \<and>
    check_escrow rt2 s1 esc pid = Inr (key led, key payer) \<and> is_signer payer \<and> is_writable esc \<and>
    (\<forall>k. lamports (s1 k) = lamports (s k))"
  using assms(1)
proof (cases rule: request_exit_run)
  case (1 payer' ledger_acc escrow_acc rest' l ready)
  have w: "is_writable esc" using assms(1) by (auto simp: request_exit_def split: if_splits)
  let ?d = "data (s (key esc))"
  let ?e = "splice (splice ?d E_EXIT_AMOUNT (u64_le (get_u64 d 0))) E_EXIT_READY (u64_le ready)"
  have eq: "payer' = payer" "ledger_acc = led" "escrow_acc = esc" using 1(1) by simp_all
  note led = 1(4) [unfolded eq ledger_load_Inr] and esc = 1(5) [unfolded eq check_escrow_Inr]
  have ek: "is_escrow pid (s (key esc))" using esc by simp
  have len: "120 \<le> length ?d" by (rule is_escrow_length [OF ek])
  have ne: "key led \<noteq> key esc" using ek led kinds_exclusive(1) by metis
  have hdr: "hdr_same ?d ?e" by (intro hdr_same_splice hdr_same_refl) simp_all
  have s1: "s1 = set_data s (key esc) ?e" using 1(7) by (simp add: eq)
  have add: "add (clock_slot rt) (l_exit_delay_slots l) = Inr ready" using 1(6) assms(2) by simp
  have "is_escrow pid (s1 (key esc))"
    using ek len by (simp add: s1 is_escrow_def byte_simps)
  then have "check_escrow rt2 s1 esc pid = Inr (key led, key payer)"
    using esc [simplified] len by (clarsimp simp: check_escrow_Inr check_pda_same [OF assms(3)] s1 byte_simps)
  moreover have "escrow_of ?e = (escrow_of ?d)\<lparr>ev_exit_amount := get_u64 d 0, ev_exit_ready := ready\<rparr>"
    using len by (simp add: escrow_header_writes)
  ultimately show ?thesis
    using add_unat [OF add] 1(3) led ne w
    by (intro exI [of _ ready]) (clarsimp simp: eq ledger_load_Inr check_pda_same [OF assms(3)] s1)
qed

text \<open>
  C5. After an exit request a withdrawal from a SOL ledger succeeds exactly when the exit delay of
  the ledger has passed; it pays the destination the smaller of the requested amount and the
  balance and takes it from the balance.
\<close>

theorem exit_after_delay:
  assumes "reachable m pid s" and "TOKEN_ID \<noteq> pid" and "TOKEN_2022_ID \<noteq> pid" and "solana rt pid"
    and "minimum_balance rt LEDGER_LEN = m" and "minimum_balance rt2 LEDGER_LEN = m"
    and "create_program_address rt2 = create_program_address rt"
    and "request_exit rt pid (payer # led # esc # rest) d s = Inr s1" and "get_u64 d 0 \<noteq> 0"
    and "l = ledger_of (data (s (key led)))" and "l_kind l = KIND_SOL"
    and "is_writable led" and "is_writable dest" and "key dest \<noteq> key led"
    and "amount = min (get_u64 d 0) (ev_balance (escrow_of (data (s (key esc)))))"
    and "unat (lamports (s (key dest))) + unat amount < 2 ^ 64"
  shows "(\<exists>s'. withdraw_escrow rt2 pid (payer # led # esc # dest # rest2) [] s1 = Inr s' \<and>
      ev_balance (escrow_of (data (s' (key esc)))) = ev_balance (escrow_of (data (s (key esc)))) - amount \<and>
      unat (lamports (s' (key dest))) = unat (lamports (s (key dest))) + unat amount)
    \<longleftrightarrow> unat (clock_slot rt) + unat (l_exit_delay_slots l) \<le> unat (clock_slot rt2)"
proof
  obtain ready where ready: "unat ready = unat (clock_slot rt) + unat (l_exit_delay_slots l)"
    "escrow_of (data (s1 (key esc))) = (escrow_of (data (s (key esc))))\<lparr>ev_exit_amount := get_u64 d 0, ev_exit_ready := ready\<rparr>"
    "ledger_load rt2 s1 led pid = Inr l" "s1 (key led) = s (key led)" "check_escrow rt2 s1 esc pid = Inr (key led, key payer)"
    "is_signer payer" "is_writable esc" "\<And>k. lamports (s1 k) = lamports (s k)"
    using request_exit_state [OF assms(8,9,7)] assms(10) by blast
  {
    assume "\<exists>s'. withdraw_escrow rt2 pid (payer # led # esc # dest # rest2) [] s1 = Inr s' \<and>
      ev_balance (escrow_of (data (s' (key esc)))) = ev_balance (escrow_of (data (s (key esc)))) - amount \<and>
      unat (lamports (s' (key dest))) = unat (lamports (s (key dest))) + unat amount"
    then obtain s' where "withdraw_escrow rt2 pid (payer # led # esc # dest # rest2) [] s1 = Inr s'" by blast
    then have "ev_exit_ready (escrow_of (data (s1 (key esc)))) \<le> clock_slot rt2"
      by (cases rule: withdraw_escrow_run) (auto simp: escrow_of_def)
    then show "unat (clock_slot rt) + unat (l_exit_delay_slots l) \<le> unat (clock_slot rt2)"
      using ready(1,2) by (simp add: word_le_nat_alt)
  }
  assume "unat (clock_slot rt) + unat (l_exit_delay_slots l) \<le> unat (clock_slot rt2)"
  then have late: "ready \<le> clock_slot rt2" using ready(1) by (simp add: word_le_nat_alt)
  have "process rt pid (payer # led # esc # rest) (REQUEST_EXIT # d) s = Inr s1" using assms(8) by (simp add: process_def)
  from cluster_step.instruction [OF assms(4,5) this] have "settle_inv_all m pid s1"
    using cluster_step_inv reachable_inv [OF assms(1-3)] assms(2,3) by blast
  then have inv: "settle_inv_all (minimum_balance rt2 LEDGER_LEN) pid s1" by (simp only: assms(6))
  from withdraw_escrow_runs [OF inv ready(3) assms(11) ready(5) ready(6) assms(12) ready(7) assms(13,14) refl, of amount rest2]
  show "\<exists>s'. withdraw_escrow rt2 pid (payer # led # esc # dest # rest2) [] s1 = Inr s' \<and>
      ev_balance (escrow_of (data (s' (key esc)))) = ev_balance (escrow_of (data (s (key esc)))) - amount \<and>
      unat (lamports (s' (key dest))) = unat (lamports (s (key dest))) + unat amount"
    using ready(2,8) late assms(9,15,16) by auto
qed

lemma xs_request_exit:
  assumes "ledger_at s (xs_ledger c l n)" and "escrow_at s (xs_escrow bal ea er)"
  shows "\<exists>s1. request_exit (xs_rt 1000) PROGRAM_ID [ac PAYER True, ac LED False, ac ESC False] (u64_le a) s = Inr s1"
  using ledger_at_loads [OF assms(1)] escrow_at_loads [OF assms(2)]
  by (simp add: request_exit_def xs_escrow_def add_Inr Let_def)

theorem exit_after_delay_witness:
  "\<exists>s s1 s'. reachable 292 PROGRAM_ID s \<and>
    request_exit (xs_rt 1000) PROGRAM_ID [ac PAYER True, ac LED False, ac ESC False] (u64_le 300) s = Inr s1 \<and>
    withdraw_escrow (xs_rt 10000) PROGRAM_ID [ac PAYER True, ac LED False, ac ESC False, ac SUBMITTER False] [] s1 = Inr s' \<and>
    ev_balance (escrow_of (data (s' ESC))) = 200 \<and> unat (lamports (s' SUBMITTER)) = unat (lamports (s SUBMITTER)) + 300"
proof -
  obtain s where s: "xs_funded s" using xs_funded_reached by blast
  then have f: "reachable 292 PROGRAM_ID s" "ledger_at s (xs_ledger 1000 500 2)" "escrow_at s (xs_escrow 500 0 0)"
    "lamports (s SUBMITTER) = 1000000" by (simp_all add: xs_funded_def)
  obtain s1 where r: "request_exit (xs_rt 1000) PROGRAM_ID [ac PAYER True, ac LED False, ac ESC False] (u64_le 300) s = Inr s1"
    using xs_request_exit [OF f(2,3)] by blast
  have l: "ledger_of (data (s LED)) = xs_ledger 1000 500 2" "ev_balance (escrow_of (data (s ESC))) = 500"
    using f by (simp_all add: ledger_at_def escrow_at_def xs_escrow_def)
  have "\<exists>s'. withdraw_escrow (xs_rt 10000) PROGRAM_ID [ac PAYER True, ac LED False, ac ESC False, ac SUBMITTER False] [] s1 = Inr s' \<and>
      ev_balance (escrow_of (data (s' (key (ac ESC False))))) = ev_balance (escrow_of (data (s (key (ac ESC False))))) - 300 \<and>
      unat (lamports (s' (key (ac SUBMITTER False)))) = unat (lamports (s (key (ac SUBMITTER False)))) + unat (300 :: u64)"
    by (rule iffD2 [OF exit_after_delay [OF f(1) token_not_program xs_rt_solana xs_rent xs_rent _ r _ refl]])
      (use l f(4) in \<open>simp_all add: xs_rt_def ref_runtime_def\<close>)
  with f(1) r l show ?thesis by auto
qed

text \<open>
  A payee with a balance in a slot of a SOL ledger can withdraw any part of it at any time; the
  slot loses exactly what the destination receives.
\<close>

lemma payee_withdrawal:
  assumes "reachable m pid s" and "TOKEN_ID \<noteq> pid" and "TOKEN_2022_ID \<noteq> pid" and "minimum_balance rt LEDGER_LEN = m"
    and "ledger_load rt s led pid = Inr l" and "l_kind l = KIND_SOL" and "check_book rt s bk pid = Inr (key led)"
    and "is_signer payee" and "is_writable led" and "is_writable bk" and "is_writable dest" and "key dest \<noteq> key led"
    and "unat slot < BOOK_SLOTS" and "bv_slots (book_of (data (s (key bk)))) ! unat slot = (key payee, bal)"
    and "0 < amount" and "amount \<le> bal" and "unat (lamports (s (key dest))) + unat amount < 2 ^ 64"
  shows "\<exists>s'. withdraw_payee rt pid (payee # led # bk # dest # rest) (slot # u64_le amount) s = Inr s' \<and>
    bv_slots (book_of (data (s' (key bk)))) = (bv_slots (book_of (data (s (key bk)))))[unat slot := (key payee, bal - amount)] \<and>
    unat (lamports (s' (key dest))) = unat (lamports (s (key dest))) + unat amount \<and>
    unat (lamports (s' (key led))) + unat amount = unat (lamports (s (key led)))"
  by (rule withdraw_payee_runs [OF _ assms(5-17)]) (use reachable_inv [OF assms(1-3)] assms(4) in simp)

end
