(* ===== verification/XsLanes.thy ===== *)
theory XsLanes
  imports XsLiveness
begin

text \<open>
  Exact effects of the channel lane and of batches: closing and finalizing a channel, staging a
  chunk, committing and aborting a batch.
\<close>

section \<open>Credits\<close>

definition credited :: "key \<Rightarrow> nat \<Rightarrow> key \<Rightarrow> u64 \<Rightarrow> store \<Rightarrow> store \<Rightarrow> bool" where
  "credited B slot payee amount s s' \<longleftrightarrow> slot < BOOK_SLOTS \<and> fst (bv_slots (book_of (data (s B))) ! slot) = payee \<and>
     book_of (data (s' B)) = credit_view slot amount (book_of (data (s B))) \<and>
     unat (snd (bv_slots (book_of (data (s B))) ! slot)) + unat amount < 2 ^ 64"

lemma credit_slot_view:
  assumes "credit_slot rt pid bk led slot payee amount chk s = Inr s'" and "is_book pid (s (key bk))"
  shows "credited (key bk) slot payee amount s s' \<and> is_book pid (s' (key bk)) \<and> (\<forall>k. k \<noteq> key bk \<longrightarrow> s' k = s k)"
  using assms(1)
proof (cases rule: credit_slot_run)
  case (1 bal)
  let ?d = "data (s (key bk))"
  have len: "slot_off slot + 40 \<le> length ?d" using assms(2) 1(2) by (simp add: is_book_def slot_off_def)
  note sl = bv_nth [OF 1(2), of ?d]
  have "book_of (splice ?d (slot_off slot + S_BALANCE) (u64_le bal)) = credit_view slot amount (book_of ?d)"
    unfolding book_of_balance [OF 1(2) len] using 1(4) by (simp add: credit_view_def sl add_Inr)
  moreover have "is_book pid (s' (key bk))"
    using assms(2) len by (simp add: 1(5) is_book_def byte_simps slot_off_def)
  ultimately show ?thesis
    using 1(2-5) sl by (simp add: credited_def add_Inr)
qed

section \<open>Channels\<close>

lemma channel_stored:
  assumes "channel_store c acc s = Inr s'"
  shows "channel_of (data (s' (key acc))) = c" and "\<And>k. k \<noteq> key acc \<Longrightarrow> s' k = s k"
  using assms by (auto simp: channel_store_Inr dest: channel_codec.pack_of)

lemma finalize_channel_effect:
  assumes "finalize_channel rt pid (ch_acc # bk # rest) [slot] s = Inr s'" and "c = channel_of (data (s (key ch_acc)))"
  shows "(c_status c = CH_CLOSING \<and> c_dispute_end_slot c < clock_slot rt \<or>
     c_status c \<in> {CH_OPEN, CH_CLOSING} \<and> is_signer_key (ch_acc # bk # rest) (c_payee c)) \<and>
    channel_of (data (s' (key ch_acc))) = c\<lparr>c_balance := c_balance c - c_best_cum c, c_status := CH_CLOSED\<rparr> \<and>
    (c_best_cum c = 0 \<or> c_best_cum c \<le> c_balance c \<and> credited (key bk) (unat slot) (c_payee c) (c_best_cum c) s s')"
  using assms(1)
proof (cases rule: finalize_channel_run)
  case (1 acc ch ch' s1)
  have acc: "acc = ch_acc" using 1(2) by simp
  have ck: "is_channel pid (s (key ch_acc))" and c: "ch = c" using 1(4) assms(2) by (simp_all add: acc channel_load_Inr)
  have auth: "c_status c = CH_CLOSING \<and> c_dispute_end_slot c < clock_slot rt \<or>
     c_status c \<in> {CH_OPEN, CH_CLOSING} \<and> is_signer_key (ch_acc # bk # rest) (c_payee c)"
    using 1(5) by (auto simp: finalize_status_def c split: if_splits)
  note st = channel_stored [OF 1(7)]
  show ?thesis
    using 1(6)
  proof (elim disjE conjE exE)
    assume "c_best_cum ch = 0" "ch' = ch" "s1 = s"
    then show ?thesis using auth st(1) by (simp add: acc c)
  next
    fix bal
    assume a: "0 < c_best_cum ch" "sub (c_balance ch) (c_best_cum ch) = Inr bal" "ch' = ch\<lparr>c_balance := bal\<rparr>"
      and cr: "credit_slot rt pid ((ch_acc # bk # rest) ! 1) (c_ledger ch) (unat ([slot] ! 0)) (c_payee ch) (c_best_cum ch) True s = Inr s1"
    have bk: "is_book pid (s (key bk))" using cr by (elim credit_slot_run) (auto simp: check_book_Inr)
    have ne: "key bk \<noteq> key ch_acc" using ck bk kinds_disjoint(8) by metis
    from credit_slot_view [OF cr] bk have "credited (key bk) (unat slot) (c_payee c) (c_best_cum c) s s1" by (simp add: c)
    then have "credited (key bk) (unat slot) (c_payee c) (c_best_cum c) s s'"
      using st(2) ne by (simp add: acc credited_def)
    then show ?thesis using auth st(1) a by (simp add: acc c sub_Inr)
  qed
qed

text \<open>A close entry: what the payer signed, and what becomes of the channel.\<close>

lemma close_one_effect:
  assumes "close_one rt pid lk l signers accounts body i (s, books) = Inr (s', books')"
  shows "\<exists>w. close_decode (slice body (i * CLOSE_WIRE_LEN) CLOSE_WIRE_LEN) = Inr w \<and>
    (let C = key (accounts ! unat (wc_channel_ix w)); c = channel_of (data (s C)); c' = channel_of (data (s' C)) in
     is_channel pid (s C) \<and> c_ledger c = lk \<and> clock_slot rt \<le> wc_expiry_slot w \<and>
     verify rt (c_payer c) (voucher_message pid (l_mint l) (l_salt l) (c_payer c) (c_payee c) (c_scope c)
       (wc_cumulative w) (wc_expiry_slot w) (wc_quote_hash w)) (wc_sig w) \<and>
     c_best_cum c < wc_cumulative w \<and> wc_cumulative w \<le> c_balance c \<and> c_best_cum c' = wc_cumulative w \<and>
     (if signers_has signers (c_payee c) then c_status c' = CH_CLOSED \<and> c_balance c' = c_balance c - wc_cumulative w
      else c_status c' = CH_CLOSING \<and> c_balance c' = c_balance c))"
  using assms
proof (cases rule: close_one_run)
  case (1 w ch_acc ch ch' s1)
  have ch: "is_channel pid (s (key ch_acc))" "ch = channel_of (data (s (key ch_acc)))" using 1(4) by (simp_all add: channel_load_Inr)
  have stt: "c_status ch = CH_OPEN \<or> c_status ch = CH_CLOSING" using 1(6) by (auto simp: close_status_def split: if_splits)
  note st = channel_stored(1) [OF 1(12)]
  have "c_best_cum ch' = wc_cumulative w \<and>
     (if signers_has signers (c_payee ch) then c_status ch' = CH_CLOSED \<and> c_balance ch' = c_balance ch - wc_cumulative w
      else c_status ch' = CH_CLOSING \<and> c_balance ch' = c_balance ch)"
    using 1(11) stt by (auto simp: sub_Inr)
  then show ?thesis
    using 1(1,3,5,7-10) ch st by (intro exI [of _ w]) (simp add: Let_def)
qed

lemma credit_slot_kept: "credit_slot rt pid bk led slot payee amount chk s = Inr s' \<Longrightarrow> kept s s'"
  by (erule credit_slot_run) (auto intro!: kept_set_data hdr_same_splice hdr_same_refl simp: slot_off_def)

lemma close_only_channels:
  assumes "close_one rt pid lk l signers accounts body j (s, books) = Inr (s1, b1)" and "is_channel pid (s1 k)"
  shows "is_channel pid (s k)"
  using assms(1)
proof (cases rule: close_one_run)
  case (1 w ch_acc ch ch' s2)
  have "kept s s2" using 1(11) credit_slot_kept by auto
  then have same: "is_channel pid (s2 k) = is_channel pid (s k)" by (rule kept_kinds)
  show ?thesis
  proof (cases "k = key ch_acc")
    case True
    then show ?thesis using 1(4) by (simp add: channel_load_Inr)
  next
    case False
    then show ?thesis using channel_stored(2) [OF 1(12) False] assms(2) same by simp
  qed
qed

text \<open>
  A close entry of an instruction that succeeded, read against the state before it: the payer of
  the channel signed the amount, which the channel covers and has recorded.
\<close>

definition close_valid :: "runtime \<Rightarrow> key \<Rightarrow> key \<Rightarrow> ledger \<Rightarrow> account_info list \<Rightarrow> store \<Rightarrow> store \<Rightarrow> wire_close \<Rightarrow> bool" where
  "close_valid rt pid lk l accounts s s' w =
     (let C = key (accounts ! unat (wc_channel_ix w)); c = channel_of (data (s C)); c' = channel_of (data (s' C)) in
      is_channel pid (s C) \<and> c_ledger c = lk \<and> clock_slot rt \<le> wc_expiry_slot w \<and>
      verify rt (c_payer c) (voucher_message pid (l_mint l) (l_salt l) (c_payer c) (c_payee c) (c_scope c)
        (wc_cumulative w) (wc_expiry_slot w) (wc_quote_hash w)) (wc_sig w) \<and>
      c_best_cum c < wc_cumulative w \<and> wc_cumulative w \<le> c_best_cum c' \<and> c_status c' \<noteq> CH_OPEN)"

lemma evolves_channel:
  assumes "evolves A pid s s'" and "is_channel pid (s k)"
  shows "is_channel pid (s' k)" and "channel_next (channel_of (data (s k))) (channel_of (data (s' k)))"
  using assms by (auto simp: evolves_def kind_next_def)

lemma close_fold_valid:
  assumes "close_sane pid lk accounts (s, books)"
    and "foldE (close_one rt pid lk l signers accounts body) is (s, books) = Inr (s', books')" and "i \<in> set is"
  shows "\<exists>w. close_decode (slice body (i * CLOSE_WIRE_LEN) CLOSE_WIRE_LEN) = Inr w \<and> close_valid rt pid lk l accounts s s' w"
  using assms
proof (induction "is" arbitrary: s books)
  case Nil
  then show ?case by simp
next
  case (Cons j js)
  from Cons.prems(2) obtain s1 b1 where one: "close_one rt pid lk l signers accounts body j (s, books) = Inr (s1, b1)"
    and rest: "foldE (close_one rt pid lk l signers accounts body) js (s1, b1) = Inr (s', books')" by auto
  have inv: "close_sane pid lk accounts (s1, b1)" "evolves {} pid s s1"
    using close_moves.body_inv [OF Cons.prems(1) one, where A = "{}"] by simp_all
  have ev: "evolves {} pid s1 s'" using close_moves.fold_inv [OF inv(1) rest, where A = "{}"] by simp
  show ?case
  proof (cases "i = j")
    case True
    from close_one_effect [OF one] obtain w where w: "close_decode (slice body (j * CLOSE_WIRE_LEN) CLOSE_WIRE_LEN) = Inr w"
      and v: "let C = key (accounts ! unat (wc_channel_ix w)); c = channel_of (data (s C)); c' = channel_of (data (s1 C)) in
       is_channel pid (s C) \<and> c_ledger c = lk \<and> clock_slot rt \<le> wc_expiry_slot w \<and>
       verify rt (c_payer c) (voucher_message pid (l_mint l) (l_salt l) (c_payer c) (c_payee c) (c_scope c)
         (wc_cumulative w) (wc_expiry_slot w) (wc_quote_hash w)) (wc_sig w) \<and>
       c_best_cum c < wc_cumulative w \<and> wc_cumulative w \<le> c_balance c \<and> c_best_cum c' = wc_cumulative w \<and>
       (if signers_has signers (c_payee c) then c_status c' = CH_CLOSED \<and> c_balance c' = c_balance c - wc_cumulative w
        else c_status c' = CH_CLOSING \<and> c_balance c' = c_balance c)" by blast
    let ?C = "key (accounts ! unat (wc_channel_ix w))"
    have "is_channel pid (s1 ?C)" using evolves_channel(1) [OF inv(2)] v by (simp add: Let_def)
    from evolves_channel(2) [OF ev this]
    have "c_best_cum (channel_of (data (s1 ?C))) \<le> c_best_cum (channel_of (data (s' ?C)))"
      "c_status (channel_of (data (s1 ?C))) \<le> c_status (channel_of (data (s' ?C)))" by (simp_all add: channel_next_def)
    moreover have "1 < c_status (channel_of (data (s1 ?C)))" using v by (simp add: Let_def split: if_splits)
    ultimately show ?thesis
      using w v True by (intro exI [of _ w]) (auto simp: close_valid_def Let_def dest: order.strict_trans2)
  next
    case False
    with Cons.prems(3) have "i \<in> set js" by simp
    from Cons.IH [OF inv(1) rest this] obtain w where w: "close_decode (slice body (i * CLOSE_WIRE_LEN) CLOSE_WIRE_LEN) = Inr w"
      and v: "close_valid rt pid lk l accounts s1 s' w" by blast
    let ?C = "key (accounts ! unat (wc_channel_ix w))"
    have kn: "is_channel pid (s1 ?C)" using v by (simp add: close_valid_def Let_def)
    have ck: "is_channel pid (s ?C)" using close_only_channels [OF one kn] .
    from evolves_channel(2) [OF inv(2) ck] have c: "channel_of (data (s1 ?C)) = (channel_of (data (s ?C)))\<lparr>
        c_status := c_status (channel_of (data (s1 ?C))), c_balance := c_balance (channel_of (data (s1 ?C))),
        c_best_cum := c_best_cum (channel_of (data (s1 ?C))), c_dispute_end_slot := c_dispute_end_slot (channel_of (data (s1 ?C)))\<rparr>"
      and le: "c_best_cum (channel_of (data (s ?C))) \<le> c_best_cum (channel_of (data (s1 ?C)))" by (simp_all add: channel_next_def)
    have "c_ledger (channel_of (data (s1 ?C))) = c_ledger (channel_of (data (s ?C)))"
      "c_payer (channel_of (data (s1 ?C))) = c_payer (channel_of (data (s ?C)))"
      "c_payee (channel_of (data (s1 ?C))) = c_payee (channel_of (data (s ?C)))"
      "c_scope (channel_of (data (s1 ?C))) = c_scope (channel_of (data (s ?C)))" by (subst c, simp)+
    then have "close_valid rt pid lk l accounts s s' w"
      using v ck order.strict_trans1 [OF le] by (simp add: close_valid_def Let_def)
    with w show ?thesis by blast
  qed
qed

section \<open>Committing a batch\<close>

text \<open>A credit of a batch: book, slot and amount of a payee entry.\<close>

definition batch_credit :: "bytes \<Rightarrow> nat \<Rightarrow> key \<times> nat \<times> nat" where
  "batch_credit d i = (slice d (batch_payee_off i) 32, unat (d ! (batch_payee_off i + 40)), unat (get_u64 d (batch_payee_off i + 32)))"

fun credit_all :: "(key \<times> nat \<times> nat) list \<Rightarrow> (key \<Rightarrow> (key \<times> nat) list option) \<Rightarrow> (key \<Rightarrow> (key \<times> nat) list option) option" where
  "credit_all [] B = Some B"
| "credit_all ((k, i, x) # cs) B = (case B k of None \<Rightarrow> None
     | Some b \<Rightarrow> if i < length b then credit_all cs (B(k \<mapsto> b[i := (fst (b ! i), snd (b ! i) + x)])) else None)"

lemma account_position_key: "account_position accs k = Some i \<Longrightarrow> i < length accs \<and> key (accs ! i) = k"
proof -
  assume a: "account_position accs k = Some i"
  then obtain xs where "filter (\<lambda>i. key (accs ! i) = k) [0..<length accs] = i # xs"
    by (auto simp: account_position_def split: list.splits)
  then have "i \<in> set (filter (\<lambda>i. key (accs ! i) = k) [0..<length accs])" by (simp only: list.set_intros)
  then show ?thesis by simp
qed

lemma commit_one_credit:
  assumes "commit_sane pid L accounts (key bt) h0 (s, sn, cr)"
    and "commit_one rt pid L accounts bt i (s, sn, cr) = Inr (s', sn', cr')"
  shows "credit_all [batch_credit (data (s (key bt))) i] (snd (tabs_of pid s)) = Some (snd (tabs_of pid s')) \<and>
    unat cr' = unat cr + snd (snd (batch_credit (data (s (key bt))) i)) \<and> s' (key bt) = s (key bt)"
  using assms(2)
proof (cases rule: commit_one_run)
  case (1 off amount slot pos book_acc was bal)
  note run = 1
  let ?B = "key bt" and ?K = "key book_acc"
  from assms(1) have at: "is_batch pid (s ?B)" and seen: "seen_ok (book_in pid L) accounts sn s"
    by (auto simp: commit_sane_def batch_at_def)
  have "\<not> was \<Longrightarrow> book_in pid L (s (key (accounts ! Suc pos)))" using run(7,9) check_book_in by metis
  note c = seen_ok_insert [OF seen run(8,6) this]
  have bk: "book_in pid L (s ?K)" using c(2) by (simp add: run(7))
  have slot: "slot < BOOK_SLOTS" using run(10) book_in_facts(4) [OF bk] by (intro slot_in_book) simp
  have bkk: "is_book pid (s ?K)" using bk by (simp add: book_in_def)
  have ne: "?B \<noteq> ?K" using at bkk kinds_disjoint(9) by metis
  let ?d = "data (s ?K)"
  have len: "slot_off slot + 40 \<le> length ?d" using bkk slot by (simp add: is_book_def slot_off_def)
  let ?e = "splice ?d (slot_off slot + S_BALANCE) (u64_le bal)"
  have bkk': "is_book pid (s' ?K)"
    using bkk len by (simp add: run(12) is_book_def byte_simps slot_off_def)
  have "book_tab (book_of ?e) = (book_tab (book_of ?d))[slot := (slice ?d (slot_off slot) 32, unat bal)]"
    unfolding book_of_balance [OF slot len] by (simp add: book_tab_def map_update)
  moreover have "book_tab (book_of ?d) ! slot = (slice ?d (slot_off slot) 32, unat (get_u64 ?d (slot_off slot + S_BALANCE)))"
    using slot bv_nth [OF slot, of ?d] by (simp add: book_tab_def)
  moreover have "snd (tabs_of pid s') = (snd (tabs_of pid s))(?K \<mapsto> book_tab (book_of ?e))"
    using bkk' by (auto simp: tabs_of_def run(12) fun_eq_iff)
  moreover have "snd (tabs_of pid s) ?K = Some (book_tab (book_of ?d))" using bkk by (simp add: tabs_of_def)
  moreover have "key book_acc = slice (data (s ?B)) off 32"
    using account_position_key [OF run(5)] run(6,7) by (simp add: nth_tl)
  ultimately show ?thesis
    using run(1,3,4,12) ne add_unat [OF run(11)] add_unat [OF run(13)] slot
    by (simp add: batch_credit_def book_tab_def)
qed

lemma commit_fold_credit:
  assumes "commit_sane pid L accounts (key bt) h0 (s, sn, cr)"
    and "foldE (commit_one rt pid L accounts bt) is (s, sn, cr) = Inr (s', sn', cr')"
  shows "credit_all (map (batch_credit (data (s (key bt)))) is) (snd (tabs_of pid s)) = Some (snd (tabs_of pid s')) \<and>
    unat cr' = unat cr + sum_list (map (\<lambda>i. snd (snd (batch_credit (data (s (key bt))) i))) is) \<and> s' (key bt) = s (key bt)"
  using assms
proof (induction "is" arbitrary: s sn cr)
  case Nil
  then show ?case by simp
next
  case (Cons i js)
  from Cons.prems(2) obtain s1 sn1 cr1 where one: "commit_one rt pid L accounts bt i (s, sn, cr) = Inr (s1, sn1, cr1)"
    and rest: "foldE (commit_one rt pid L accounts bt) js (s1, sn1, cr1) = Inr (s', sn', cr')" by auto
  have "commit_sane pid L accounts (key bt) h0 (s1, sn1, cr1)"
    using commit_moves.body_inv [OF Cons.prems(1) one] by simp
  note ih = Cons.IH [OF this rest]
  note c = commit_one_credit [OF Cons.prems(1) one]
  obtain k j x where kjx: "batch_credit (data (s (key bt))) i = (k, j, x)" by (metis prod.exhaust)
  from c ih show ?case by (auto simp: kjx split: option.splits if_splits)
qed

lemma commit_batch_effect:
  assumes "sane pid s" and "commit_batch rt pid (bt # rest) d s = Inr s'" and "h = batch_of (data (s (key bt)))"
    and "cs = map (batch_credit (data (s (key bt)))) [0..<unat (b_n_payees h)]"
  shows "b_status h = B_STAGING \<and> clock_slot rt \<le> b_deadline_slot h \<and> b_chunks_staged h = b_num_chunks h \<and>
    b_staged_count h = b_count h \<and> b_staged_total h = b_total h \<and>
    credit_all cs (snd (tabs_of pid s)) = Some (snd (tabs_of pid s')) \<and>
    sum_list (map (\<lambda>(k, i, x). x) cs) = unat (b_total h) \<and>
    batch_of (data (s' (key bt))) = h\<lparr>b_held := 0, b_status := B_COMMITTED\<rparr>"
  using assms(2)
proof (cases rule: commit_batch_run)
  case (1 batch_acc hdr s1 sn bd)
  note run = 1
  have bt: "batch_acc = bt" using run(2) by simp
  have at: "batch_at pid (key bt) hdr s" using batch_load_at [OF assms(1) run(3)] by (simp add: bt)
  then have hdr: "hdr = h" and bk: "is_batch pid (s (key bt))" by (simp_all add: batch_at_def assms(3))
  have cs: "commit_sane pid (b_ledger hdr) (bt # rest) (key bt) hdr (s, 0, 0)" using at by (simp add: commit_sane_def)
  note f = commit_fold_credit [OF cs run(10) [unfolded bt]]
  have b1: "is_batch pid (s1 (key bt))" using f bk by simp
  have b2: "is_batch pid (s' (key bt))"
    using b1 batch_codec.pack_disc [OF run(11)] batch_codec.pack_length [OF run(11)] by (simp add: run(12) bt is_batch_def)
  have "snd (tabs_of pid s') = snd (tabs_of pid s1)"
  proof (rule ext)
    fix x show "snd (tabs_of pid s') x = snd (tabs_of pid s1) x"
      using b1 b2 kinds_disjoint(9) [of pid "s1 x"] kinds_disjoint(9) [of pid "s' x"]
      by (cases "x = key bt") (auto simp: tabs_of_def run(12) bt)
  qed
  moreover have "batch_of (data (s' (key bt))) = h\<lparr>b_held := 0, b_status := B_COMMITTED\<rparr>"
    using batch_codec.pack_of [OF run(11)] by (simp add: run(12) bt hdr)
  moreover have "sum_list (map (\<lambda>(k, i, x). x) cs) = unat (b_total h)"
    using f run(9) by (simp add: assms(4) hdr split_beta comp_def)
  ultimately show ?thesis using f run(4-8) by (simp add: hdr assms(4))
qed

section \<open>Aborting a batch\<close>

lemma abort_batch_iff:
  assumes "batch_load rt s bt pid = Inr h"
  shows "(\<exists>s'. abort_batch rt pid (caller # bt # rest) [] s = Inr s' \<and> batch_of (data (s' (key bt))) = h\<lparr>b_status := B_ABORTED\<rparr>) \<longleftrightarrow>
    is_signer caller \<and> is_writable bt \<and> b_status h = B_STAGING \<and> (key caller = b_submitter h \<or> b_deadline_slot h < clock_slot rt)"
proof -
  have b: "is_batch pid (s (key bt))" "h = batch_of (data (s (key bt)))" using assms by (simp_all add: batch_load_Inr)
  have "BATCH_HDR \<le> length (data (s (key bt)))" using b(1) by (simp add: is_batch_def)
  then have "batch_wf (h\<lparr>b_status := B_ABORTED\<rparr>)" and len: "BATCH_HDR \<le> length (data (s (key bt)))"
    using batch_codec.of_wf [of "data (s (key bt))"] by (simp_all add: b(2) batch_wf_def)
  from batch_codec.pack_total [OF this] obtain d where d: "batch_pack (h\<lparr>b_status := B_ABORTED\<rparr>) (data (s (key bt))) = Inr d" by blast
  show ?thesis
    using assms batch_codec.pack_of [OF d] d by (auto simp: abort_batch_def linorder_not_le)
qed

end
