(* ===== verification/XsStage.thy ===== *)
theory XsStage
  imports XsLanes
begin

text \<open>
  What a staged chunk is: its vouchers, all signed, their leaves proved against the batch root, and
  the bit that keeps the chunk from being staged again.
\<close>

section \<open>Leaves of vouchers\<close>

definition wire_message :: "vctx \<Rightarrow> account_info list \<Rightarrow> store \<Rightarrow> wire_voucher \<Rightarrow> bytes" where
  "wire_message ctx accounts s w =
     (let e = escrow_of (data (s (key (accounts ! unat (wv_escrow_ix w)))));
          payee = fst (bv_slots (book_of (data (s (key (accounts ! unat (wv_book_ix w)))))) ! unat (wv_slot w))
      in voucher_message (ctx_program_id ctx) (ctx_mint ctx) (ctx_salt ctx) (ev_payer e) payee
           (ev_scope e) (wv_cumulative w) (wv_expiry_slot w) (wv_quote_hash w))"

definition wire_leaf :: "runtime \<Rightarrow> vctx \<Rightarrow> account_info list \<Rightarrow> store \<Rightarrow> wire_voucher \<times> u64 \<Rightarrow> bytes" where
  "wire_leaf rt ctx accounts s = (\<lambda>(w, delta). batch_leaf rt delta (wire_message ctx accounts s w))"

definition voucher_names :: "key \<Rightarrow> account_info list \<Rightarrow> store \<Rightarrow> wire_voucher \<Rightarrow> bool" where
  "voucher_names pid accounts s w \<longleftrightarrow> is_escrow pid (s (key (accounts ! unat (wv_escrow_ix w)))) \<and>
     is_book pid (s (key (accounts ! unat (wv_book_ix w))))"

text \<open>What a message names is the same in two states.\<close>

definition names_kept :: "key \<Rightarrow> store \<Rightarrow> store \<Rightarrow> bool" where
  "names_kept pid s s' \<longleftrightarrow> (\<forall>k. is_escrow pid (s' k) = is_escrow pid (s k) \<and> is_book pid (s' k) = is_book pid (s k) \<and>
     (is_escrow pid (s k) \<longrightarrow> ev_payer (escrow_of (data (s' k))) = ev_payer (escrow_of (data (s k))) \<and>
        ev_scope (escrow_of (data (s' k))) = ev_scope (escrow_of (data (s k)))) \<and>
     (is_book pid (s k) \<longrightarrow> s' k = s k))"

lemma names_kept_refl [simp]: "names_kept pid s s"
  by (simp add: names_kept_def)

lemma names_kept_trans: "names_kept pid s1 s2 \<Longrightarrow> names_kept pid s2 s3 \<Longrightarrow> names_kept pid s1 s3"
  unfolding names_kept_def by metis

lemma names_keptD:
  assumes "names_kept pid s s'" and "voucher_names pid accounts s' w"
  shows "voucher_names pid accounts s w" and "wire_message ctx accounts s' w = wire_message ctx accounts s w"
    and "voucher_valid rt ctx accounts s' w = voucher_valid rt ctx accounts s w"
proof -
  let ?E = "key (accounts ! unat (wv_escrow_ix w))" and ?B = "key (accounts ! unat (wv_book_ix w))"
  from assms have k: "is_escrow pid (s ?E)" "is_book pid (s ?B)" by (auto simp: names_kept_def voucher_names_def)
  then show "voucher_names pid accounts s w" by (simp add: voucher_names_def)
  from k assms(1) have "ev_payer (escrow_of (data (s' ?E))) = ev_payer (escrow_of (data (s ?E)))"
    "ev_scope (escrow_of (data (s' ?E))) = ev_scope (escrow_of (data (s ?E)))" "s' ?B = s ?B"
    by (simp_all add: names_kept_def)
  then show "wire_message ctx accounts s' w = wire_message ctx accounts s w"
    "voucher_valid rt ctx accounts s' w = voucher_valid rt ctx accounts s w"
    by (simp_all add: wire_message_def voucher_valid_def Let_def)
qed

lemma verify_b2_message:
  assumes "verify_b2 rt pid ctx accounts w first_ix nbw s es bs = Inr (v, es', bs')"
  shows "b2_msg v = wire_message ctx accounts s w"
proof -
  obtain escrow_acc book_acc where
    a: "escrow_acc = accounts ! b2_escrow_ix v" "book_acc = accounts ! b2_book_ix v" "b2_slot v < BOOK_SLOTS"
      "b2_payee v = slice (data (s (key book_acc))) (slot_off (b2_slot v)) 32"
      "b2_msg v = voucher_message (ctx_program_id ctx) (ctx_mint ctx) (ctx_salt ctx)
         (slice (data (s (key escrow_acc))) E_PAYER 32) (b2_payee v)
         (get_u64 (data (s (key escrow_acc))) E_SCOPE) (wv_cumulative w) (wv_expiry_slot w) (wv_quote_hash w)"
    using assms by (elim verify_b2_run) blast
  have "fst (bv_slots (book_of (data (s (key book_acc)))) ! b2_slot v) = b2_payee v"
    using bv_nth [OF a(3)] a(4) by simp
  then show ?thesis
    using a(5) by (simp add: wire_message_def Let_def verify_b2_indices [OF assms, symmetric] a(1,2) escrow_of_def)
qed

section \<open>One voucher\<close>

lemma stage_one_effect:
  assumes "stage_sane pid (ctx_ledger ctx) accounts (key bt) h0 (s, es, bs, hdr, lv)"
    and "stage_one rt pid ctx accounts bt body i (s, es, bs, hdr, lv) = Inr (s', es', bs', hdr', lv')"
  shows "\<exists>w delta. voucher_decode (slice body (i * VOUCHER_WIRE_LEN) VOUCHER_WIRE_LEN) = Inr w \<and>
    voucher_names pid accounts s w \<and> voucher_valid rt ctx accounts s w \<and> lv' = lv @ [wire_leaf rt ctx accounts s (w, delta)] \<and>
    unat (b_staged_count hdr') = unat (b_staged_count hdr) + 1 \<and>
    unat (b_staged_total hdr') = unat (b_staged_total hdr) + unat delta \<and> names_kept pid s s'"
  using assms(2)
proof (cases rule: stage_one_run)
  case (1 w v s1 bd h1 sc stt hd out)
  note run = 1
  let ?L = "ctx_ledger ctx" and ?B = "key bt" and ?E = "key (accounts ! b2_escrow_ix v)"
  from assms(1) have at: "sane pid s" "is_batch pid (s ?B)" "batch_of (data (s ?B)) = h0" and sf: "staged_from h0 hdr"
    and seen: "seen_ok (escrow_in pid ?L) accounts es s" "seen_ok (book_in pid ?L) accounts bs s"
    by (auto simp: stage_sane_def batch_at_def)
  note c = verify_b2_checked [OF run(2) seen]
  have ev: "evolves {} pid s s'" using stage_one_moves [OF assms] by blast
  obtain e where s1: "s1 = set_data s ?E e" using run(3) by (elim stage_reserve_run) blast
  have other: "s' k = s k" if "k \<noteq> ?E" "k \<noteq> ?B" for k using that by (simp add: run(6) s1)
  have esc: "is_escrow pid (s ?E)" using c(4) by (simp add: escrow_in_def)
  have kn: "kind_next pid (s k) (s' k)" for k using ev by (simp add: evolves_def)
  have "names_kept pid s s'"
    unfolding names_kept_def
  proof (intro allI)
    fix k
    consider "k = ?E" | "k = ?B" | "s' k = s k" using other by blast
    then show "is_escrow pid (s' k) = is_escrow pid (s k) \<and> is_book pid (s' k) = is_book pid (s k) \<and>
       (is_escrow pid (s k) \<longrightarrow> ev_payer (escrow_of (data (s' k))) = ev_payer (escrow_of (data (s k))) \<and>
        ev_scope (escrow_of (data (s' k))) = ev_scope (escrow_of (data (s k)))) \<and> (is_book pid (s k) \<longrightarrow> s' k = s k)"
    proof cases
      case 1
      then have "is_escrow pid (s k)" "is_escrow pid (s' k)" "escrow_next (escrow_of (data (s k))) (escrow_of (data (s' k)))"
        using esc kn [of k] by (simp_all add: kind_next_def)
      then show ?thesis using kinds_exclusive(1) [of pid "s k"] kinds_exclusive(1) [of pid "s' k"] by (simp add: escrow_next_def)
    next
      case 2
      then have "is_batch pid (s k)" "is_batch pid (s' k)" using at(2) kn [of k] by (simp_all add: kind_next_def)
      then show ?thesis using kinds_exclusive(4) [of pid "s k"] kinds_exclusive(4) [of pid "s' k"] by simp
    qed simp
  qed
  moreover have "voucher_names pid accounts s w"
    using c(4,5) by (simp add: voucher_names_def verify_b2_indices [OF run(2)] escrow_in_def book_in_def)
  moreover obtain np where "h1 = hdr\<lparr>b_n_payees := np\<rparr>" using add_batch_payee_from [OF run(5)] by blast
  then have "unat (b_staged_count hdr') = unat (b_staged_count hdr) + 1"
    "unat (b_staged_total hdr') = unat (b_staged_total hdr) + unat (b2_delta v)"
    using checked_add_unat [OF run(7)] add_unat [OF run(8)] by (simp_all add: run(11))
  ultimately show ?thesis
    using run(1,12) verify_b2_valid [OF run(2)] verify_b2_message [OF run(2)] by (auto simp: wire_leaf_def)
qed

section \<open>The chunk\<close>

lemma stage_fold_effect:
  assumes "stage_sane pid (ctx_ledger ctx) accounts (key bt) h0 (s, es, bs, hdr, lv)"
    and "foldE (stage_one rt pid ctx accounts bt body) is (s, es, bs, hdr, lv) = Inr (s', es', bs', hdr', lv')"
  shows "\<exists>ws. list_all2 (\<lambda>i (w, _). voucher_decode (slice body (i * VOUCHER_WIRE_LEN) VOUCHER_WIRE_LEN) = Inr w \<and>
      voucher_names pid accounts s w \<and> voucher_valid rt ctx accounts s w) is ws \<and>
    lv' = lv @ map (wire_leaf rt ctx accounts s) ws \<and>
    unat (b_staged_count hdr') = unat (b_staged_count hdr) + length ws \<and>
    unat (b_staged_total hdr') = unat (b_staged_total hdr) + sum_list (map (unat \<circ> snd) ws)"
  using assms
proof (induction "is" arbitrary: s es bs hdr lv)
  case Nil
  then show ?case by simp
next
  case (Cons i js)
  from Cons.prems(2) obtain s1 es1 bs1 hdr1 lv1 where
    one: "stage_one rt pid ctx accounts bt body i (s, es, bs, hdr, lv) = Inr (s1, es1, bs1, hdr1, lv1)"
    and rest: "foldE (stage_one rt pid ctx accounts bt body) js (s1, es1, bs1, hdr1, lv1) = Inr (s', es', bs', hdr', lv')"
    by auto
  obtain w delta where w: "voucher_decode (slice body (i * VOUCHER_WIRE_LEN) VOUCHER_WIRE_LEN) = Inr w"
    "voucher_names pid accounts s w" "voucher_valid rt ctx accounts s w" "lv1 = lv @ [wire_leaf rt ctx accounts s (w, delta)]"
    "unat (b_staged_count hdr1) = unat (b_staged_count hdr) + 1"
    "unat (b_staged_total hdr1) = unat (b_staged_total hdr) + unat delta" and nk: "names_kept pid s s1"
    using stage_one_effect [OF Cons.prems(1) one] by blast
  have "stage_sane pid (ctx_ledger ctx) accounts (key bt) h0 (s1, es1, bs1, hdr1, lv1)"
    using stage_one_moves [OF Cons.prems(1) one] by blast
  from Cons.IH [OF this rest] obtain ws where
    ws: "list_all2 (\<lambda>i (w, _). voucher_decode (slice body (i * VOUCHER_WIRE_LEN) VOUCHER_WIRE_LEN) = Inr w \<and>
      voucher_names pid accounts s1 w \<and> voucher_valid rt ctx accounts s1 w) js ws"
    and lv': "lv' = lv1 @ map (wire_leaf rt ctx accounts s1) ws"
    and ct: "unat (b_staged_count hdr') = unat (b_staged_count hdr1) + length ws"
    "unat (b_staged_total hdr') = unat (b_staged_total hdr1) + sum_list (map (unat \<circ> snd) ws)" by blast
  have "list_all2 (\<lambda>i (w, _). voucher_decode (slice body (i * VOUCHER_WIRE_LEN) VOUCHER_WIRE_LEN) = Inr w \<and>
      voucher_names pid accounts s w \<and> voucher_valid rt ctx accounts s w) js ws"
    by (rule list_all2_mono [OF ws]) (use names_keptD [OF nk] in blast)
  moreover have "wire_leaf rt ctx accounts s1 x = wire_leaf rt ctx accounts s x" if "x \<in> set ws" for x
  proof -
    obtain w' d where x: "x = (w', d)" by (cases x)
    with ws that have "voucher_names pid accounts s1 w'" by (auto simp: list_all2_conv_all_nth in_set_conv_nth)
    then show ?thesis using names_keptD(2) [OF nk] by (simp add: wire_leaf_def x)
  qed
  then have "map (wire_leaf rt ctx accounts s1) ws = map (wire_leaf rt ctx accounts s) ws" by simp
  ultimately show ?case
    using w lv' ct by (intro exI [of _ "(w, delta) # ws"]) (simp add: comp_def)
qed

lemma unat_u16_u32: "unat (ucast c :: u32) = unat c" for c :: u16
  by (transfer, simp)

text \<open>The bit of a chunk in the batch account.\<close>

definition chunk_staged :: "bytes \<Rightarrow> nat \<Rightarrow> bool" where
  "chunk_staged d ci \<longleftrightarrow> bit (d ! (BATCH_HDR + ci div 8)) (ci mod 8)"

lemma stage_chunk_effect:
  assumes "sane pid s" and "stage_chunk rt pid (led # bt # rest) d s = Inr s'" and "h = batch_of (data (s (key bt)))"
    and "ci = unat (get_u16 d 0)" and "l = ledger_of (data (s (key led)))"
    and "ctx = \<lparr>ctx_program_id = pid, ctx_ledger = key led, ctx_mint = l_mint l, ctx_salt = l_salt l, ctx_now = clock_slot rt\<rparr>"
    and "depth = upper_depth (unat (b_num_chunks h))"
  shows "b_status h = B_STAGING \<and> clock_slot rt \<le> b_deadline_slot h \<and> ci < unat (b_num_chunks h) \<and>
    \<not> chunk_staged (data (s (key bt))) ci \<and> chunk_staged (data (s' (key bt))) ci \<and>
    (\<exists>ws. list_all2 (\<lambda>i (w, _). voucher_decode (slice (drop (4 + 32 * depth) d) (i * VOUCHER_WIRE_LEN) VOUCHER_WIRE_LEN) = Inr w \<and>
         voucher_valid rt ctx (led # bt # rest) s w) [0..<unat (d ! 2)] ws \<and>
       fold_proof rt (subtree_root rt (map (wire_leaf rt ctx (led # bt # rest) s) ws) (unat (b_chunk_log h))) ci
         (map (\<lambda>j. slice d (4 + 32 * j) 32) [0..<depth]) = b_root h \<and>
       unat (b_staged_count (batch_of (data (s' (key bt))))) = unat (b_staged_count h) + length ws \<and>
       unat (b_staged_total (batch_of (data (s' (key bt))))) = unat (b_staged_total h) + sum_list (map (unat \<circ> snd) ws))"
  using assms(2)
proof (cases rule: stage_chunk_run)
  case (1 ledger_acc batch_acc c n pl l' hdr s1 es bs h1 leaves bit_o m bd pf)
  note run = 1
  let ?B = "key bt" and ?accs = "led # bt # rest"
  have accs: "ledger_acc = led" "batch_acc = bt" using run(6,7) by simp_all
  have l': "l' = l" using run(8) by (simp add: accs assms(5) ledger_load_Inr)
  have at: "batch_at pid ?B hdr s" using batch_load_at [OF assms(1) run(9)] by (simp add: accs)
  then have hdr: "hdr = h" by (simp add: batch_at_def assms(3))
  have ci: "unat (ucast c :: u32) = ci" using assms(4) by (simp add: run(1) unat_u16_u32)
  have nc: "unat (ucast (b_num_chunks hdr) :: u32) = unat (b_num_chunks h)" by (simp add: hdr unat_u16_u32)
  have pl: "pl = depth" using run(18) by (simp add: nc assms(7))
  have bo: "bit_o = BATCH_HDR + ci div 8" and m: "m = 2 ^ (ci mod 8)"
    using run(14,15) by (simp_all add: unat_div unat_mod ci)
  have "batch_sane hdr" using at sane_batch unfolding batch_at_def by blast
  then have "staged_from hdr hdr" using run(11) by (auto simp: staged_from_def batch_sane_def)
  then have sane0: "stage_sane pid (ctx_ledger ctx) ?accs ?B hdr (s, 0, 0, hdr, [])" using at by (simp add: stage_sane_def)
  note fold = run(19) [unfolded accs l' pl, folded assms(6)]
  from stage_fold_effect [OF sane0 fold] obtain ws where
    ws: "list_all2 (\<lambda>i (w, _). voucher_decode (slice (drop (4 + depth * 32) d) (i * VOUCHER_WIRE_LEN) VOUCHER_WIRE_LEN) = Inr w \<and>
      voucher_names pid ?accs s w \<and> voucher_valid rt ctx ?accs s w) [0..<n] ws"
    and lv: "leaves = map (wire_leaf rt ctx ?accs s) ws"
    and ct: "unat (b_staged_count h1) = unat (b_staged_count h) + length ws"
      "unat (b_staged_total h1) = unat (b_staged_total h) + sum_list (map (unat \<circ> snd) ws)" by (auto simp: hdr)
  from stage_moves.fold_inv [OF sane0 fold, where A = "{}"] have "staged_from h h1" by (auto simp: stage_sane_def hdr)
  then have h1: "b_chunk_log h1 = b_chunk_log h" "b_root h1 = b_root h" by (auto simp: staged_from_def elim: ssubst)
  note root = run(21) [unfolded lv h1 ci run(20) pl]
  have "batch_of (data (s' ?B)) = h1\<lparr>b_chunks_staged := b_chunks_staged h1 + 1\<rparr>"
    using batch_codec.pack_of [OF run(22)] by (simp add: run(24) accs)
  moreover have "chunk_staged (data (s' ?B)) ci"
  proof -
    let ?old = "data (s1 ?B)"
    have "slice bd bit_o 1 = slice (splice ?old bit_o [?old ! bit_o OR m]) bit_o 1"
      using batch_codec.pack_rest [OF run(22) [unfolded accs], of bit_o 1] by (simp add: bo)
    moreover have "bit_o < length bd" using run(23) batch_codec.pack_length [OF run(22)] by (simp add: accs)
    ultimately have "bd ! bit_o = ?old ! bit_o OR m" using run(23) slice_single [of bit_o bd] by (simp add: accs byte_simps)
    moreover have "data (s' ?B) = bd" by (simp add: run(24) accs)
    ultimately show ?thesis
      unfolding chunk_staged_def bo [symmetric] by (simp add: m bit_simps possible_bit_word)
  qed
  moreover have "\<not> chunk_staged (data (s ?B)) ci"
    using run(16) by (simp add: chunk_staged_def accs bo m and_exp_eq_0_iff_not_bit)
  moreover have "ci < unat (b_num_chunks h)" using run(13) nc by (simp add: word_less_nat_alt ci)
  moreover have "list_all2 (\<lambda>i (w, _). voucher_decode (slice (drop (4 + 32 * depth) d) (i * VOUCHER_WIRE_LEN) VOUCHER_WIRE_LEN) = Inr w \<and>
      voucher_valid rt ctx ?accs s w) [0..<unat (d ! 2)] ws"
    by (rule list_all2_mono [OF ws [unfolded run(2)]]) (auto simp: mult.commute)
  ultimately show ?thesis
    using run(11,12) root ct by (intro conjI exI [of _ ws]) (simp_all add: hdr)
qed

lemma stage_chunk_again:
  assumes "chunk_staged (data (s (key bt))) (unat (get_u16 d 0))"
  shows "stage_chunk rt pid (led # bt # rest) d s \<noteq> Inr s'"
proof
  assume "stage_chunk rt pid (led # bt # rest) d s = Inr s'"
  then show False
  proof (cases rule: stage_chunk_run)
    case (1 ledger_acc batch_acc c n pl l' hdr s1 es bs h1 leaves bit_o m bd pf)
    have ci: "unat (ucast c :: u32) = unat (get_u16 d 0)" by (simp add: 1(1) unat_u16_u32)
    have "bit_o = BATCH_HDR + unat (get_u16 d 0) div 8" "m = 2 ^ (unat (get_u16 d 0) mod 8)"
      using 1(14,15) by (simp_all add: unat_div unat_mod ci)
    then show False
      using 1(7,16) assms by (simp add: chunk_staged_def and_exp_eq_0_iff_not_bit)
  qed
qed

end
