(* ===== verification/XsTree.thy ===== *)
theory XsTree
  imports XsCrypto
begin

text \<open>
  The batch tree of \<open>crypto.rs\<close> against a reference definition: \<open>subtree_root\<close>, which works
  in place on one buffer and skips the empty part of the tree, computes the root of the full
  binary tree; \<open>fold_proof\<close> accepts the honest path, and nothing else when \<open>node\<close> has no
  collisions; \<open>upper_depth\<close> is the logarithm rounded up.
\<close>

section \<open>Reference tree\<close>

fun merkle_root :: "runtime \<Rightarrow> nat \<Rightarrow> (nat \<Rightarrow> bytes) \<Rightarrow> bytes" where
  "merkle_root rt 0 f = f 0"
| "merkle_root rt (Suc h) f = node rt (merkle_root rt h f) (merkle_root rt h (\<lambda>i. f (i + 2 ^ h)))"

definition padded :: "bytes list \<Rightarrow> nat \<Rightarrow> bytes" where
  "padded leaves i = (if i < length leaves then leaves ! i else replicate 32 0)"

definition merkle_node :: "runtime \<Rightarrow> (nat \<Rightarrow> bytes) \<Rightarrow> nat \<Rightarrow> nat \<Rightarrow> bytes" where
  "merkle_node rt f j i = merkle_root rt j (\<lambda>k. f (i * 2 ^ j + k))"

definition sibling :: "nat \<Rightarrow> nat" where
  "sibling i = (if even i then i + 1 else i - 1)"

definition merkle_path :: "runtime \<Rightarrow> nat \<Rightarrow> (nat \<Rightarrow> bytes) \<Rightarrow> nat \<Rightarrow> bytes list" where
  "merkle_path rt h f index = map (\<lambda>j. merkle_node rt f j (sibling (index div 2 ^ j))) [0..<h]"

lemma merkle_root_cong:
  "(\<And>i. i < 2 ^ h \<Longrightarrow> f i = g i) \<Longrightarrow> merkle_root rt h f = merkle_root rt h g"
proof (induction h arbitrary: f g)
  case 0
  then show ?case by simp
next
  case (Suc h)
  have "merkle_root rt h f = merkle_root rt h g" by (rule Suc.IH) (simp add: Suc.prems)
  moreover have "merkle_root rt h (\<lambda>i. f (i + 2 ^ h)) = merkle_root rt h (\<lambda>i. g (i + 2 ^ h))"
    by (rule Suc.IH) (simp add: Suc.prems)
  ultimately show ?case by simp
qed

text \<open>The same tree built from the leaves up.\<close>

lemma merkle_root_up:
  "merkle_root rt (Suc h) f = merkle_root rt h (\<lambda>i. node rt (f (2 * i)) (f (2 * i + 1)))"
proof (induction h arbitrary: f)
  case 0
  then show ?case by simp
next
  case (Suc h)
  have "merkle_root rt (Suc h) (\<lambda>i. f (i + 2 ^ Suc h)) =
      merkle_root rt h (\<lambda>i. node rt (f (2 * i + 2 ^ Suc h)) (f (2 * i + 1 + 2 ^ Suc h)))"
    by (rule Suc.IH)
  moreover have "2 * (i + 2 ^ h) = 2 * i + 2 ^ Suc h" for i :: nat by simp
  ultimately show ?case using Suc.IH [of f] by (simp add: algebra_simps)
qed

lemma merkle_node_Suc:
  "merkle_node rt f (Suc j) i = node rt (merkle_node rt f j (2 * i)) (merkle_node rt f j (2 * i + 1))"
proof -
  have "i * 2 ^ Suc j + k = 2 * i * 2 ^ j + k" "i * 2 ^ Suc j + (k + 2 ^ j) = (2 * i + 1) * 2 ^ j + k" for k
    by (simp_all add: algebra_simps)
  then show ?thesis unfolding merkle_node_def merkle_root.simps by presburger
qed

text \<open>A tree of subtrees is the whole tree.\<close>

lemma merkle_root_split:
  "merkle_root rt d (\<lambda>c. merkle_root rt h (\<lambda>i. f (c * 2 ^ h + i))) = merkle_root rt (d + h) f"
proof (induction d arbitrary: f)
  case 0
  then show ?case by simp
next
  case (Suc d)
  have "(\<lambda>c. merkle_root rt h (\<lambda>i. f ((c + 2 ^ d) * 2 ^ h + i))) =
      (\<lambda>c. merkle_root rt h (\<lambda>i. f (c * 2 ^ h + i + 2 ^ (d + h))))"
    by (simp add: algebra_simps power_add)
  then show ?case using Suc.IH [of f] Suc.IH [of "\<lambda>i. f (i + 2 ^ (d + h))"] by simp
qed

section \<open>The in-place computation\<close>

lemma tree_level_nth:
  assumes "2 * half \<le> length lvl"
  shows "length (tree_level rt lvl half live zero) = length lvl"
    and "i < half \<Longrightarrow> tree_level rt lvl half live zero ! i =
      node rt (if 2 * i < live then lvl ! (2 * i) else zero) (if 2 * i + 1 < live then lvl ! (2 * i + 1) else zero)"
proof -
  let ?g = "\<lambda>i. node rt (if 2 * i < live then lvl ! (2 * i) else zero) (if 2 * i + 1 < live then lvl ! (2 * i + 1) else zero)"
  have "length (tree_level rt lvl m live zero) = length lvl \<and>
      (\<forall>i < length lvl. tree_level rt lvl m live zero ! i = (if i < m then ?g i else lvl ! i))"
    if "2 * m \<le> length lvl" for m
    using that
  proof (induction m)
    case 0
    then show ?case by (simp add: tree_level_def)
  next
    case (Suc m)
    let ?t = "tree_level rt lvl m live zero"
    from Suc have len: "length ?t = length lvl"
      and nth: "\<And>i. i < length lvl \<Longrightarrow> ?t ! i = (if i < m then ?g i else lvl ! i)" by auto
    have "tree_level rt lvl (Suc m) live zero = ?t[m := ?g m]"
      using nth [of "2 * m"] nth [of "2 * m + 1"] Suc.prems
      by (auto simp: tree_level_def Let_def)
    then show ?case using len nth by (auto simp: nth_list_update less_Suc_eq)
  qed
  from this [OF assms] show "length (tree_level rt lvl half live zero) = length lvl"
    and "i < half \<Longrightarrow> tree_level rt lvl half live zero ! i = ?g i" using assms by auto
qed

lemma subtree_levels_root:
  assumes "2 ^ h \<le> length lvl"
  shows "subtree_levels rt lvl (2 ^ h) live zero ! 0 =
    (if h = 0 then lvl ! 0 else merkle_root rt h (\<lambda>i. if i < live then lvl ! i else zero))"
  using assms
proof (induction h arbitrary: lvl live zero)
  case 0
  then show ?case by (simp add: subtree_levels.simps)
next
  case (Suc h)
  let ?t = "tree_level rt lvl (2 ^ h) live zero" and ?l = "div_ceil live 2" and ?z = "node rt zero zero"
  have fits: "2 * 2 ^ h \<le> length lvl" using Suc.prems by simp
  have "(1::nat) < 2 ^ Suc h" by (rule one_less_power) simp_all
  then have "subtree_levels rt lvl (2 ^ Suc h) live zero = subtree_levels rt ?t (2 ^ h) ?l ?z"
    by (subst subtree_levels.simps) (simp add: Let_def)
  moreover have "subtree_levels rt ?t (2 ^ h) ?l ?z ! 0 =
      (if h = 0 then ?t ! 0 else merkle_root rt h (\<lambda>i. if i < ?l then ?t ! i else ?z))"
    by (rule Suc.IH) (use tree_level_nth(1) [OF fits] fits in simp)
  moreover have t: "?t ! i = node rt (if 2 * i < live then lvl ! (2 * i) else zero)
      (if 2 * i + 1 < live then lvl ! (2 * i + 1) else zero)" if "i < 2 ^ h" for i
    by (rule tree_level_nth(2) [OF fits that])
  moreover have "merkle_root rt h (\<lambda>i. if i < ?l then ?t ! i else ?z) =
      merkle_root rt h (\<lambda>i. node rt (if 2 * i < live then lvl ! (2 * i) else zero)
        (if 2 * i + 1 < live then lvl ! (2 * i + 1) else zero))"
    by (rule merkle_root_cong) (use t in \<open>auto simp: div_ceil_def split: if_splits\<close>)
  ultimately show ?case
    using merkle_root_up [of rt h "\<lambda>i. if i < live then lvl ! i else zero"] t [of 0] by (cases h) auto
qed

lemma subtree_root_correct:
  assumes "length leaves \<le> 2 ^ h" and "h \<le> MAX_CHUNK_LOG"
  shows "subtree_root rt leaves h = merkle_root rt h (padded leaves)"
proof -
  have h: "2 ^ h \<le> (32::nat)" using assms(2) power_increasing [of h 5 "2::nat"] by simp
  let ?lvl = "leaves @ replicate (32 - length leaves) (replicate 32 0)"
  have len: "2 ^ h \<le> length ?lvl" using h assms(1) by simp
  have lvl: "i < 2 ^ h \<Longrightarrow> ?lvl ! i = padded leaves i" for i
    using h assms(1) by (auto simp: padded_def nth_append)
  show ?thesis
  proof (cases "h = 0")
    case True
    then show ?thesis using subtree_levels_root [OF len] lvl [of 0] by (simp add: subtree_root_def)
  next
    case False
    then have "subtree_root rt leaves h =
        merkle_root rt h (\<lambda>i. if i < length leaves then ?lvl ! i else replicate 32 0)"
      using subtree_levels_root [OF len] by (simp add: subtree_root_def)
    also have "\<dots> = merkle_root rt h (padded leaves)"
      by (rule merkle_root_cong) (simp add: padded_def nth_append)
    finally show ?thesis .
  qed
qed

section \<open>Proofs\<close>

lemma div_pow_Suc: "i div 2 ^ Suc j = i div 2 ^ j div 2" for i :: nat
  by (metis div_mult2_eq power_Suc2)

lemma fold_proof_snoc:
  "fold_proof rt acc index (xs @ [sib]) =
     (let a = fold_proof rt acc index xs in
      if odd (index div 2 ^ length xs) then node rt sib a else node rt a sib)"
  by (simp add: fold_proof_def enumerate_append_eq Let_def odd_iff_mod_2_eq_one)

lemma merkle_node_step:
  "merkle_node rt f (Suc j) (i div 2) =
     (if odd i then node rt (merkle_node rt f j (sibling i)) (merkle_node rt f j i)
      else node rt (merkle_node rt f j i) (merkle_node rt f j (sibling i)))"
proof (cases "odd i")
  case True
  then obtain k where "i = 2 * k + 1" by (rule oddE)
  then show ?thesis by (simp add: merkle_node_Suc sibling_def)
next
  case False
  then obtain k where "i = 2 * k" by auto
  then show ?thesis by (simp add: merkle_node_Suc sibling_def)
qed

lemma fold_proof_path:
  "fold_proof rt (f index) index (merkle_path rt j f index) = merkle_node rt f j (index div 2 ^ j)"
proof (induction j)
  case 0
  then show ?case by (simp add: merkle_path_def fold_proof_def merkle_node_def)
next
  case (Suc j)
  have "merkle_path rt (Suc j) f index =
      merkle_path rt j f index @ [merkle_node rt f j (sibling (index div 2 ^ j))]"
    by (simp add: merkle_path_def)
  moreover have "length (merkle_path rt j f index) = j" by (simp add: merkle_path_def)
  moreover have "index div 2 ^ Suc j = index div 2 ^ j div 2" by (rule div_pow_Suc)
  ultimately show ?case
    using merkle_node_step [of rt f j "index div 2 ^ j"] Suc.IH by (simp add: fold_proof_snoc Let_def)
qed

text \<open>
  The pairs hashed when a proof is folded and when a tree is computed. What follows holds when no two
  different pairs among those at hand have the same hash.
\<close>

definition fold_inputs :: "runtime \<Rightarrow> bytes \<Rightarrow> nat \<Rightarrow> bytes list \<Rightarrow> (bytes \<times> bytes) set" where
  "fold_inputs rt acc index xs =
     (\<lambda>j. let a = fold_proof rt acc index (take j xs) in if odd (index div 2 ^ j) then (xs ! j, a) else (a, xs ! j)) ` {..<length xs}"

definition tree_inputs :: "runtime \<Rightarrow> nat \<Rightarrow> (nat \<Rightarrow> bytes) \<Rightarrow> (bytes \<times> bytes) set" where
  "tree_inputs rt h f = {(merkle_node rt f j (2 * i), merkle_node rt f j (2 * i + 1)) | i j. j < h \<and> i < 2 ^ (h - Suc j)}"

definition nodes_distinct :: "runtime \<Rightarrow> (bytes \<times> bytes) set \<Rightarrow> bool" where
  "nodes_distinct rt S \<longleftrightarrow> inj_on (\<lambda>(a, b). node rt a b) S"

lemma nodes_distinctD:
  "nodes_distinct rt S \<Longrightarrow> (a, b) \<in> S \<Longrightarrow> (c, d) \<in> S \<Longrightarrow> node rt a b = node rt c d \<Longrightarrow> a = c \<and> b = d"
  unfolding nodes_distinct_def using inj_onD [of "\<lambda>(a, b). node rt a b" S "(a, b)" "(c, d)"] by simp

lemma fold_inputs_snoc:
  "fold_inputs rt acc index (xs @ [sib]) = insert
     (let a = fold_proof rt acc index xs in if odd (index div 2 ^ length xs) then (sib, a) else (a, sib))
     (fold_inputs rt acc index xs)"
proof -
  have "(xs @ [sib]) ! j = xs ! j \<and> take j (xs @ [sib]) = take j xs" if "j \<in> {..<length xs}" for j
    using that by (simp add: nth_append)
  then show ?thesis
    unfolding fold_inputs_def length_append_singleton lessThan_Suc image_insert by (simp add: Let_def cong: image_cong_simp)
qed

lemma fold_proof_unique:
  assumes inj: "nodes_distinct rt S"
    and "fold_proof rt acc index xs = merkle_node rt f (length xs) (index div 2 ^ length xs)"
    and "fold_inputs rt acc index xs \<subseteq> S"
    and "\<forall>j < length xs. (merkle_node rt f j (2 * (index div 2 ^ Suc j)), merkle_node rt f j (2 * (index div 2 ^ Suc j) + 1)) \<in> S"
  shows "acc = f index"
  using assms(2-)
proof (induction xs rule: rev_induct)
  case Nil
  then show ?case by (simp add: fold_proof_def merkle_node_def)
next
  case (snoc sib xs)
  let ?i = "index div 2 ^ length xs" and ?a = "fold_proof rt acc index xs"
  have d: "index div 2 ^ Suc (length xs) = ?i div 2" by (rule div_pow_Suc)
  with snoc.prems(1) have eq: "(if odd ?i then node rt sib ?a else node rt ?a sib) =
      node rt (merkle_node rt f (length xs) (2 * (?i div 2))) (merkle_node rt f (length xs) (2 * (?i div 2) + 1))"
    by (simp add: fold_proof_snoc merkle_node_Suc Let_def)
  from snoc.prems(3) have t: "(merkle_node rt f (length xs) (2 * (?i div 2)), merkle_node rt f (length xs) (2 * (?i div 2) + 1)) \<in> S"
    by (metis d length_append_singleton lessI)
  from snoc.prems(2) have p: "(if odd ?i then (sib, ?a) else (?a, sib)) \<in> S" "fold_inputs rt acc index xs \<subseteq> S"
    by (simp_all add: fold_inputs_snoc Let_def)
  have "?a = merkle_node rt f (length xs) ?i"
  proof (cases "odd ?i")
    case True
    then have "2 * (?i div 2) + 1 = ?i" by simp
    with nodes_distinctD [OF inj _ t] True p(1) eq show ?thesis by simp
  next
    case False
    then have "2 * (?i div 2) = ?i" by simp
    with nodes_distinctD [OF inj _ t] False p(1) eq show ?thesis by simp
  qed
  then show ?case using snoc.IH p(2) snoc.prems(3) by simp
qed

lemma merkle_node_top: "index < 2 ^ h \<Longrightarrow> merkle_node rt f h (index div 2 ^ h) = merkle_root rt h f"
  by (simp add: merkle_node_def)

text \<open>The root determines every leaf.\<close>

lemma merkle_root_inj:
  assumes inj: "nodes_distinct rt S" and "tree_inputs rt h f \<subseteq> S" and "tree_inputs rt h g \<subseteq> S"
    and "merkle_root rt h f = merkle_root rt h g" and "i < 2 ^ h"
  shows "f i = g i"
proof -
  have "merkle_node rt f j k = merkle_node rt g j k" if "j + d = h" "k < 2 ^ d" for j d k
    using that
  proof (induction d arbitrary: j k)
    case 0
    then show ?case using assms(4) by (simp add: merkle_node_def)
  next
    case (Suc d)
    then have j: "j < h" "h - Suc j = d" and k: "k div 2 < 2 ^ d" by auto
    then have t: "(merkle_node rt f j (2 * (k div 2)), merkle_node rt f j (2 * (k div 2) + 1)) \<in> S"
      "(merkle_node rt g j (2 * (k div 2)), merkle_node rt g j (2 * (k div 2) + 1)) \<in> S"
      using assms(2,3) unfolding tree_inputs_def by blast+
    have "merkle_node rt f (Suc j) (k div 2) = merkle_node rt g (Suc j) (k div 2)" using Suc k by simp
    with nodes_distinctD [OF inj t] have "merkle_node rt f j (2 * (k div 2)) = merkle_node rt g j (2 * (k div 2)) \<and>
        merkle_node rt f j (2 * (k div 2) + 1) = merkle_node rt g j (2 * (k div 2) + 1)"
      by (simp add: merkle_node_Suc)
    moreover have "k = 2 * (k div 2) \<or> k = 2 * (k div 2) + 1" by presburger
    ultimately show ?case by metis
  qed
  from this [of 0 h i] assms(5) show ?thesis by (simp add: merkle_node_def)
qed

lemma merkle_node_subtree:
  "merkle_node rt (\<lambda>i. f (c * 2 ^ (j + d) + i)) j k = merkle_node rt f j (c * 2 ^ d + k)"
  by (simp add: merkle_node_def algebra_simps power_add)

lemma merkle_node_above:
  "merkle_node rt (\<lambda>c. merkle_root rt h (\<lambda>i. f (c * 2 ^ h + i))) j k = merkle_node rt f (j + h) k"
  using merkle_root_split [of rt j h "\<lambda>i. f (k * 2 ^ (j + h) + i)"]
  by (simp add: merkle_node_def algebra_simps power_add)

lemma tree_inputs_subtree:
  assumes "c < 2 ^ d"
  shows "tree_inputs rt h (\<lambda>i. f (c * 2 ^ h + i)) \<subseteq> tree_inputs rt (d + h) f"
proof
  fix p assume "p \<in> tree_inputs rt h (\<lambda>i. f (c * 2 ^ h + i))"
  then obtain i j where p: "p = (merkle_node rt (\<lambda>i. f (c * 2 ^ h + i)) j (2 * i), merkle_node rt (\<lambda>i. f (c * 2 ^ h + i)) j (2 * i + 1))"
    and ij: "j < h" "i < 2 ^ (h - Suc j)" unfolding tree_inputs_def by blast
  define e where "e = h - Suc j"
  have h: "h = j + Suc e" using ij(1) by (simp add: e_def)
  have "p = (merkle_node rt f j (2 * (c * 2 ^ e + i)), merkle_node rt f j (2 * (c * 2 ^ e + i) + 1))"
    using merkle_node_subtree [of rt f c j "Suc e"] by (simp add: p h algebra_simps)
  moreover have "c * 2 ^ e + i < 2 ^ (d + h - Suc j)"
  proof -
    have "d + h - Suc j = d + e" using h by simp
    moreover have "c * 2 ^ e + 2 ^ e \<le> 2 ^ d * 2 ^ e" using assms by (metis Suc_leI add.commute mult_Suc mult_le_mono1)
    ultimately show ?thesis using ij(2) by (simp add: e_def power_add)
  qed
  moreover have "j < d + h" using ij(1) by simp
  ultimately show "p \<in> tree_inputs rt (d + h) f" unfolding tree_inputs_def by blast
qed

lemma path_inputs:
  assumes "c < 2 ^ d" and "j < d"
  shows "(merkle_node rt f (j + h) (2 * (c div 2 ^ Suc j)), merkle_node rt f (j + h) (2 * (c div 2 ^ Suc j) + 1)) \<in> tree_inputs rt (d + h) f"
proof -
  have "c < 2 ^ Suc j * 2 ^ (d - Suc j)" using assms by (metis Suc_leI le_add_diff_inverse power_add)
  then have "c div 2 ^ Suc j < 2 ^ (d - Suc j)" by (simp add: less_mult_imp_div_less mult.commute)
  moreover have "d + h - Suc (j + h) = d - Suc j" "j + h < d + h" using assms(2) by simp_all
  ultimately show ?thesis unfolding tree_inputs_def by force
qed

section \<open>Depth\<close>

lemma upper_depth_from_spec:
  "d \<le> upper_depth_from d n \<and> n \<le> 2 ^ upper_depth_from d n \<and> (\<forall>e. d \<le> e \<longrightarrow> e < upper_depth_from d n \<longrightarrow> 2 ^ e < n)"
proof (induction d n rule: upper_depth_from.induct)
  case (1 d n)
  show ?case
  proof (cases "2 ^ d < n")
    case True
    with 1 have "d + 1 \<le> upper_depth_from (d + 1) n" "n \<le> 2 ^ upper_depth_from (d + 1) n"
      "\<forall>e. d + 1 \<le> e \<longrightarrow> e < upper_depth_from (d + 1) n \<longrightarrow> 2 ^ e < n" by auto
    moreover have "upper_depth_from d n = upper_depth_from (d + 1) n"
      using True by (simp add: upper_depth_from.simps [of d n])
    moreover have "2 ^ e < n" if "d \<le> e" "e < upper_depth_from (d + 1) n" for e
      using that True calculation(3) by (cases "e = d") auto
    ultimately show ?thesis by auto
  next
    case False
    then have "upper_depth_from d n = d" by (simp add: upper_depth_from.simps [of d n])
    with False show ?thesis by simp
  qed
qed

end
