(* ===== verification/XsLaneRun.thy ===== *)
theory XsLaneRun
  imports XsScenario XsStage XsTree
begin

text \<open>
  Concrete states of the channel and batch lanes on top of the run of \<open>XsScenario\<close>: a closing
  channel that is finalized, a signed close, a batch of one voucher staged and committed.
\<close>

section \<open>Entries put into a funded state\<close>

definition entry_at :: "store \<Rightarrow> key \<Rightarrow> bytes \<Rightarrow> store" where
  "entry_at s k d = s(k := \<lparr>lamports = 2000, owner = PROGRAM_ID, data = d\<rparr>)"

lemma entry_at_simps [simp]:
  "entry_at s k d k = \<lparr>lamports = 2000, owner = PROGRAM_ID, data = d\<rparr>" "j \<noteq> k \<Longrightarrow> entry_at s k d j = s j"
  by (simp_all add: entry_at_def)

lemma entry_at_kept:
  "ledger_at (entry_at s k d) l \<longleftrightarrow> ledger_at s l" if "k \<noteq> LED" for k l
  using that by (simp add: ledger_at_def)

lemma entry_at_escrow: "k \<noteq> ESC \<Longrightarrow> escrow_at (entry_at s k d) v \<longleftrightarrow> escrow_at s v"
  by (simp add: escrow_at_def)

lemma entry_at_book: "k \<noteq> BOOK \<Longrightarrow> book_at (entry_at s k d) p b \<longleftrightarrow> book_at s p b"
  by (simp add: book_at_def)

lemma entry_at_sane: "sane PROGRAM_ID s \<Longrightarrow> acct_sane PROGRAM_ID \<lparr>lamports = 2000, owner = PROGRAM_ID, data = d\<rparr> \<Longrightarrow> sane PROGRAM_ID (entry_at s k d)"
  by (simp add: sane_def entry_at_def)

section \<open>A channel\<close>

text \<open>A channel of 200 lamports with status \<open>st\<close>, best amount \<open>best\<close> and dispute end 900.\<close>

definition xs_channel :: "u8 \<Rightarrow> u64 \<Rightarrow> channel" where
  "xs_channel st best = \<lparr>c_bump = 255, c_status = st, c_ledger = LED, c_payer = PAYER, c_payee = PAYEE, c_channel_id = 7,
     c_scope = 2, c_deposit = 200, c_balance = 200, c_best_cum = best, c_expiry_slot = 5000, c_dispute_end_slot = 900\<rparr>"

lemma xs_channel_entry:
  assumes "xs_funded s"
  obtains d where "channel_of d = xs_channel st best" and "is_channel PROGRAM_ID (entry_at s CHAN d CHAN)"
    and "channel_load (xs_rt t) (entry_at s CHAN d) (ac CHAN w) PROGRAM_ID = Inr (xs_channel st best)"
    and "length d = CHANNEL_LEN" and "slice d 0 8 = DISC_CHANNEL"
proof -
  have "channel_wf (xs_channel st best)" by (simp add: channel_wf_def xs_channel_def)
  then obtain d where d: "channel_pack (xs_channel st best) (replicate CHANNEL_LEN 0) = Inr d"
    using channel_codec.pack_total [of "xs_channel st best" "replicate CHANNEL_LEN 0"] by auto
  have f: "channel_of d = xs_channel st best" "slice d 0 8 = DISC_CHANNEL" "length d = CHANNEL_LEN"
    using channel_codec.pack_of [OF d] channel_codec.pack_disc [OF d] channel_codec.pack_length [OF d] by simp_all
  show thesis
    by (rule that [of d]) (use f in \<open>simp_all add: is_channel_def channel_load_Inr check_pda_def xs_channel_def CHAN_def\<close>)
qed

lemma channel_store_total:
  assumes "channel_wf c" and "CHANNEL_LEN \<le> length (data (s (key acc)))"
  obtains d where "channel_store c acc s = Inr (set_data s (key acc) d)"
  using channel_codec.pack_total [OF assms] by (auto simp: channel_store_def)

lemma xs_credit:
  assumes "book_at s PAYEE b" and "unat b + unat a < 2 ^ 64"
  shows "credit_slot (xs_rt t) PROGRAM_ID (ac BOOK w) LED 0 PAYEE a chk s =
    Inr (set_data s BOOK (splice (data (s BOOK)) 80 (u64_le (b + a))))"
  using book_at_loads [OF assms(1)] assms(2) by (simp add: credit_slot_def Let_def slot_off_def add_Inr)

text \<open>Finalizing after the dispute window: the best amount goes to the payee.\<close>

lemma xs_finalize:
  assumes "xs_funded s" and "channel_load (xs_rt 1000) (entry_at s CHAN d) (ac CHAN False) PROGRAM_ID = Inr (xs_channel CH_CLOSING 150)"
    and "length d = CHANNEL_LEN"
  shows "\<exists>s'. finalize_channel (xs_rt 1000) PROGRAM_ID [ac CHAN False, ac BOOK False] [0] (entry_at s CHAN d) = Inr s'"
proof -
  let ?s = "entry_at s CHAN d"
  have bk: "book_at ?s PAYEE 0" using assms(1) by (simp add: entry_at_book xs_funded_def)
  let ?s1 = "set_data ?s BOOK (splice (data (?s BOOK)) 80 (u64_le (0 + 150)))"
  have cr: "credit_slot (xs_rt 1000) PROGRAM_ID (ac BOOK False) LED 0 PAYEE 150 True ?s = Inr ?s1"
    by (rule xs_credit [OF bk]) simp
  have wf: "channel_wf ((xs_channel CH_CLOSING 150)\<lparr>c_balance := 50, c_status := CH_CLOSED\<rparr>)"
    by (simp add: channel_wf_def xs_channel_def)
  obtain e where "channel_store ((xs_channel CH_CLOSING 150)\<lparr>c_balance := 50, c_status := CH_CLOSED\<rparr>) (ac CHAN False) ?s1
      = Inr (set_data ?s1 (key (ac CHAN False)) e)"
    by (rule channel_store_total [OF wf, of ?s1 "ac CHAN False"]) (use assms(3) in simp)
  then show ?thesis
    using cr assms(2)
    by (simp add: finalize_channel_def finalize_status_def xs_channel_def get_at_def Let_def sub_Inr)
qed

text \<open>A close of the open channel signed by the payer for 150 of its 200 lamports.\<close>

definition xs_close :: wire_close where
  "xs_close = \<lparr>wc_channel_ix = 1, wc_book_ix = NO_BOOK, wc_slot = 0, wc_cumulative = 150, wc_expiry_slot = 2000,
     wc_quote_hash = replicate 32 0, wc_sig = XS_SIG\<rparr>"

lemma xs_close_simps [simp]:
  "wc_channel_ix xs_close = 1" "wc_cumulative xs_close = 150" "wc_expiry_slot xs_close = 2000" "wc_sig xs_close = XS_SIG"
  by (simp_all add: xs_close_def)

lemma xs_close_wire:
  "close_decode (slice (close_encode xs_close) (0 * CLOSE_WIRE_LEN) CLOSE_WIRE_LEN) = Inr xs_close"
  "length (close_encode xs_close) = CLOSE_WIRE_LEN"
proof -
  have wf: "close_wf xs_close" by (simp add: close_wf_def xs_close_def XS_SIG_def)
  show len: "length (close_encode xs_close) = CLOSE_WIRE_LEN" by (rule length_close_encode [OF wf])
  show "close_decode (slice (close_encode xs_close) (0 * CLOSE_WIRE_LEN) CLOSE_WIRE_LEN) = Inr xs_close"
    using close_decode_encode [OF wf, of "[]"] len by (simp add: slice_def)
qed

lemma xs_close_runs:
  assumes "xs_funded s" and "channel_load (xs_rt 1000) (entry_at s CHAN d) (ac CHAN False) PROGRAM_ID = Inr (xs_channel CH_OPEN 0)"
    and "length d = CHANNEL_LEN"
  shows "\<exists>s'. close_channels (xs_rt 1000) PROGRAM_ID [ac LED False, ac CHAN False] (1 # close_encode xs_close) (entry_at s CHAN d) = Inr s'"
proof -
  let ?s = "entry_at s CHAN d" and ?a = "[ac LED False, ac CHAN False]"
  let ?c = "(xs_channel CH_OPEN 0)\<lparr>c_best_cum := 150, c_status := CH_CLOSING, c_dispute_end_slot := 2500\<rparr>"
  have led: "ledger_load (xs_rt 1000) ?s (ac LED False) PROGRAM_ID = Inr (xs_ledger 1000 500 2)"
    by (rule ledger_at_loads) (use assms(1) in \<open>simp add: entry_at_kept xs_funded_def\<close>)
  have wf: "channel_wf ?c" by (simp add: channel_wf_def xs_channel_def)
  obtain e where st: "channel_store ?c (ac CHAN False) ?s = Inr (set_data ?s (key (ac CHAN False)) e)"
    by (rule channel_store_total [OF wf, of ?s "ac CHAN False"]) (use assms(3) in simp)
  have "close_one (xs_rt 1000) PROGRAM_ID LED (xs_ledger 1000 500 2) (signers_of ?a) ?a (close_encode xs_close) 0 (?s, 0)
      = Inr (set_data ?s CHAN e, 0)"
    using xs_close_wire assms(2) st xs_verify
    by (simp add: close_one_def Let_def xs_channel_def signers_of_def signers_has_def close_status_def get_at_def add_Inr)
  then show ?thesis
    using led xs_close_wire(2) by (simp add: close_channels_def Let_def get_at_def)
qed

section \<open>A batch of one voucher\<close>

definition xs_batch :: "bytes \<Rightarrow> u8 \<Rightarrow> nat \<Rightarrow> batch_hdr" where
  "xs_batch root np n = \<lparr>b_bump = 255, b_status = B_STAGING, b_chunk_log = 0, b_chunk_size = 1, b_n_payees = np,
     b_num_chunks = 1, b_chunks_staged = of_nat n, b_ledger = LED, b_submitter = SUBMITTER, b_batch_id = 9, b_root = root,
     b_count = 1, b_staged_count = of_nat n, b_total = 100, b_staged_total = of_nat (100 * n), b_held = of_nat (100 * n),
     b_deadline_slot = 1500, b_outstanding = of_nat n\<rparr>"

lemma xs_batch_entry:
  assumes "xs_funded s" and "length root = 32" and "length z = BATCH_LEN"
  obtains d where "batch_of d = xs_batch root np n" and "length d = BATCH_LEN"
    and "batch_load (xs_rt t) (entry_at s BAT d) (ac BAT w) PROGRAM_ID = Inr (xs_batch root np n)"
    and "\<And>off k. BATCH_HDR \<le> off \<Longrightarrow> slice d off k = slice z off k" and "sane PROGRAM_ID (entry_at s BAT d)"
proof -
  have "batch_wf (xs_batch root np n)" using assms(2) by (simp add: batch_wf_def xs_batch_def)
  then obtain d where d: "batch_pack (xs_batch root np n) z = Inr d"
    using batch_codec.pack_total [of "xs_batch root np n" z] assms(3) by auto
  have f: "batch_of d = xs_batch root np n" "slice d 0 8 = DISC_BATCH" "length d = BATCH_LEN"
    using batch_codec.pack_of [OF d] batch_codec.pack_disc [OF d] batch_codec.pack_length [OF d] assms(3) by simp_all
  have "is_batch PROGRAM_ID \<lparr>lamports = 2000, owner = PROGRAM_ID, data = d\<rparr>" using f by (simp add: is_batch_def)
  then have "acct_sane PROGRAM_ID \<lparr>lamports = 2000, owner = PROGRAM_ID, data = d\<rparr>"
    using kinds_exclusive(4) [of PROGRAM_ID "\<lparr>lamports = 2000, owner = PROGRAM_ID, data = d\<rparr>"] f(1)
    by (simp add: acct_sane_def batch_sane_def xs_batch_def)
  moreover have "sane PROGRAM_ID s" using assms(1) by (auto simp: xs_funded_def intro: xs_reachable_sane)
  ultimately have "sane PROGRAM_ID (entry_at s BAT d)" by (simp add: entry_at_sane)
  then show thesis
    by (intro that [of d])
      (use f batch_codec.pack_rest [OF d] in \<open>simp_all add: is_batch_def batch_load_Inr check_pda_def xs_batch_def BAT_def\<close>)
qed

lemma batch_store_total:
  assumes "batch_wf h" and "BATCH_HDR \<le> length d"
  obtains e where "batch_pack h d = Inr e"
  using batch_codec.pack_total [OF assms] by auto

text \<open>Committing a batch with one credit of 100 lamports for the payee.\<close>

definition xs_credits :: bytes where
  "xs_credits = splice (replicate BATCH_LEN 0) (batch_payee_off 0) (BOOK @ u64_le 100 @ [0])"

lemma xs_commit:
  assumes "xs_funded s"
  obtains d s' where "sane PROGRAM_ID (entry_at s BAT d)" and "batch_of d = xs_batch (replicate 32 5) 1 1"
    and "commit_batch (xs_rt 1000) PROGRAM_ID [ac BAT False, ac BOOK False] [] (entry_at s BAT d) = Inr s'"
proof -
  have len: "length xs_credits = BATCH_LEN" by (simp add: xs_credits_def byte_simps)
  obtain d where d: "batch_of d = xs_batch (replicate 32 5) 1 1" "length d = BATCH_LEN"
    "batch_load (xs_rt 1000) (entry_at s BAT d) (ac BAT False) PROGRAM_ID = Inr (xs_batch (replicate 32 5) 1 1)"
    "\<And>off k. BATCH_HDR \<le> off \<Longrightarrow> slice d off k = slice xs_credits off k" "sane PROGRAM_ID (entry_at s BAT d)"
    by (rule xs_batch_entry [OF assms _ len, of "replicate 32 5" 1 1 1000 False]) (simp, blast)
  let ?s = "entry_at s BAT d" and ?o = "batch_payee_off 0"
  have bk: "book_at ?s PAYEE 0" using assms by (simp add: entry_at_book xs_funded_def)
  have o: "?o = 200" by (simp add: batch_payee_off_def)
  have rd: "slice d 200 32 = BOOK" "get_u64 d 232 = 100" "slice d 240 1 = [0]"
    using d(4) [of 200 32] d(4) [of 232 8] d(4) [of 240 1]
    by (simp_all add: xs_credits_def o splice_def slice_def get_u64_def)
  then have "d ! 240 = 0" using slice_single [of 240 d] d(2) by simp
  let ?s1 = "set_data ?s BOOK (splice (data (?s BOOK)) 80 (u64_le 100))"
  have one: "commit_one (xs_rt 1000) PROGRAM_ID LED [ac BAT False, ac BOOK False] (ac BAT False) 0 (?s, 0, 0) =
      Inr (?s1, push_bit 1 1, 100)"
    using rd \<open>d ! 240 = 0\<close> d(2) book_at_loads [OF bk]
    by (simp add: commit_one_def o Let_def account_position_def get_at_def test_set_def slot_off_def add_Inr) blast
  obtain e where "batch_pack ((xs_batch (replicate 32 5) 1 1)\<lparr>b_held := 0, b_status := B_COMMITTED\<rparr>) d = Inr e"
    by (rule batch_store_total [of "(xs_batch (replicate 32 5) 1 1)\<lparr>b_held := 0, b_status := B_COMMITTED\<rparr>" d]) (use d(2) in \<open>simp_all add: batch_wf_def xs_batch_def\<close>)
  then have "commit_batch (xs_rt 1000) PROGRAM_ID [ac BAT False, ac BOOK False] [] ?s = Inr (set_data ?s1 BAT e)"
    using one d(3) by (simp add: commit_batch_def get_at_def Let_def xs_batch_def)
  then show thesis by (rule that [OF d(5,1)])
qed

text \<open>Staging the only chunk of a batch whose root is the leaf of the voucher.\<close>

definition xs_staged_voucher :: wire_voucher where
  "xs_staged_voucher = (xs_voucher 100 2000)\<lparr>wv_escrow_ix := 2, wv_book_ix := 3\<rparr>"

definition xs_stage_accounts :: "account_info list" where
  "xs_stage_accounts = [ac LED False, ac BAT False, ac ESC False, ac BOOK False]"

definition xs_stage_data :: bytes where
  "xs_stage_data = u16_le 0 @ [1, 0] @ voucher_encode xs_staged_voucher"

definition xs_leaf :: bytes where
  "xs_leaf = batch_leaf (xs_rt 1000) 100 (xs_msg 100 2000)"

definition xs_staged_b2 :: b2 where
  "xs_staged_b2 = (xs_b2 100 2000)\<lparr>b2_escrow_ix := 2, b2_book_ix := 3\<rparr>"

lemma xs_staged_wire:
  "voucher_decode (slice (voucher_encode xs_staged_voucher) (0 * VOUCHER_WIRE_LEN) VOUCHER_WIRE_LEN) = Inr xs_staged_voucher"
  "length (voucher_encode xs_staged_voucher) = VOUCHER_WIRE_LEN"
proof -
  have wf: "voucher_wf xs_staged_voucher" using xs_voucher_wf [of 100 2000] by (simp add: voucher_wf_def xs_staged_voucher_def)
  show len: "length (voucher_encode xs_staged_voucher) = VOUCHER_WIRE_LEN" by (rule length_voucher_encode [OF wf])
  show "voucher_decode (slice (voucher_encode xs_staged_voucher) (0 * VOUCHER_WIRE_LEN) VOUCHER_WIRE_LEN) = Inr xs_staged_voucher"
    using voucher_decode_encode [OF wf, of "[]"] len by (simp add: slice_def)
qed

lemma xs_stage_data_simps [simp]:
  "length xs_stage_data = 120" "get_u16 xs_stage_data 0 = 0" "xs_stage_data ! 2 = 1" "xs_stage_data ! 3 = 0"
  "drop 4 xs_stage_data = voucher_encode xs_staged_voucher"
proof -
  have u: "u16_le 0 = [0, 0]" by (simp add: u16_le_def numeral_2_eq_2)
  have d: "xs_stage_data = 0 # 0 # 1 # 0 # voucher_encode xs_staged_voucher" by (simp add: xs_stage_data_def u)
  show "length xs_stage_data = 120" using xs_staged_wire(2) by (simp add: d)
  show "xs_stage_data ! 2 = 1" "xs_stage_data ! 3 = 0" "drop 4 xs_stage_data = voucher_encode xs_staged_voucher" by (simp_all add: d)
  show "get_u16 xs_stage_data 0 = 0" by (simp add: get_u16_def d slice_def)
qed

lemma xs_stage_verify:
  assumes "escrow_at s (xs_escrow 500 0 0)" and "book_at s PAYEE 0"
  shows "\<exists>es bs. verify_b2 (xs_rt 1000) PROGRAM_ID (xs_ctx 1000) xs_stage_accounts xs_staged_voucher 2 False s 0 0
    = Inr (xs_staged_b2, es, bs)"
proof -
  have esc: "check_escrow (xs_rt 1000) s (ac ESC w) PROGRAM_ID = Inr (LED, PAYER)" for w
    using escrow_at_loads [OF assms(1)] by (simp add: xs_escrow_def)
  show ?thesis
    using esc book_at_loads [OF assms(2)] escrow_at_bytes [OF assms(1)] xs_find_pair [OF assms(1)] payee_not_zero xs_verify
    by (simp add: verify_b2_def Let_def xs_voucher_def xs_staged_voucher_def xs_stage_accounts_def xs_ctx_def test_set_def
        get_at_def slot_off_def xs_b2_def xs_staged_b2_def xs_msg_def)
qed

lemma xs_stage_reserve:
  assumes "escrow_at s (xs_escrow 500 0 0)"
  obtains e where "stage_reserve xs_stage_accounts 9 xs_staged_b2 s = Inr (set_data s ESC e)"
proof -
  have "ev_pending (escrow_of (data (s ESC))) = 0" using assms by (simp add: escrow_at_def xs_escrow_def)
  then have "get_u16 (data (s ESC)) 12 = 0" by (simp add: escrow_of_def)
  then have "\<exists>s1. stage_reserve xs_stage_accounts 9 xs_staged_b2 s = Inr s1"
    using escrow_at_bytes [OF assms]
    by (simp add: stage_reserve_def xs_staged_b2_def xs_b2_def xs_stage_accounts_def get_at_def pair_entry_def Let_def
        pair_off_def byte_simps sub_Inr checked_add_def)
  then obtain s1 where s1: "stage_reserve xs_stage_accounts 9 xs_staged_b2 s = Inr s1" by blast
  then obtain e where "s1 = set_data s (key (xs_stage_accounts ! b2_escrow_ix xs_staged_b2)) e"
    by (elim stage_reserve_run) blast
  then show thesis using s1 by (intro that [of e]) (simp add: xs_staged_b2_def xs_stage_accounts_def)
qed

lemma xs_stage:
  assumes "xs_funded s"
  obtains d s' where "sane PROGRAM_ID (entry_at s BAT d)" and "batch_of d = xs_batch xs_leaf 0 0"
    and "stage_chunk (xs_rt 1000) PROGRAM_ID xs_stage_accounts xs_stage_data (entry_at s BAT d) = Inr s'"
proof -
  have root: "length xs_leaf = 32" by (simp add: xs_leaf_def batch_leaf_def)
  obtain d where d: "batch_of d = xs_batch xs_leaf 0 0" "length d = BATCH_LEN"
    "batch_load (xs_rt 1000) (entry_at s BAT d) (ac BAT False) PROGRAM_ID = Inr (xs_batch xs_leaf 0 0)"
    "\<And>off k. BATCH_HDR \<le> off \<Longrightarrow> slice d off k = slice (replicate BATCH_LEN 0) off k" "sane PROGRAM_ID (entry_at s BAT d)"
    by (rule xs_batch_entry [OF assms root, of "replicate BATCH_LEN 0" 0 0 1000 False]) (simp, blast)
  let ?s = "entry_at s BAT d"
  have bk: "book_at ?s PAYEE 0" and esc: "escrow_at ?s (xs_escrow 500 0 0)"
    and led: "ledger_load (xs_rt 1000) ?s (ac LED False) PROGRAM_ID = Inr (xs_ledger 1000 500 2)"
    using assms by (auto simp: entry_at_book entry_at_escrow entry_at_kept xs_funded_def intro!: ledger_at_loads)
  have "[d ! 168] = slice d 168 1" using d(2) by (simp add: slice_single)
  also have "\<dots> = [0]" using d(4) [of 168 1] by (simp add: slice_def)
  finally have bit: "d ! 168 = 0" by simp
  obtain es bs where v: "verify_b2 (xs_rt 1000) PROGRAM_ID (xs_ctx 1000) xs_stage_accounts xs_staged_voucher 2 False ?s 0 0
    = Inr (xs_staged_b2, es, bs)" using xs_stage_verify [OF esc bk] by blast
  obtain e where r: "stage_reserve xs_stage_accounts 9 xs_staged_b2 ?s = Inr (set_data ?s ESC e)"
    by (rule xs_stage_reserve [OF esc])
  let ?h = "(xs_batch xs_leaf 0 0)\<lparr>b_n_payees := 1\<rparr>"
  let ?bd = "splice (splice (splice d 200 BOOK) 232 (u64_le 100)) 240 [0]"
  have pay: "add_batch_payee d (xs_batch xs_leaf 0 0) BOOK 0 100 = Inr (?bd, ?h)"
    using d(2) by (simp add: add_batch_payee_def xs_batch_def batch_payee_off_def Let_def)
  let ?s1 = "set_data (set_data ?s ESC e) BAT ?bd" and ?h1 = "xs_batch xs_leaf 1 1"
  have one: "stage_one (xs_rt 1000) PROGRAM_ID (xs_ctx 1000) xs_stage_accounts (ac BAT False) (voucher_encode xs_staged_voucher) 0
      (?s, 0, 0, xs_batch xs_leaf 0 0, []) = Inr (?s1, es, bs, ?h1\<lparr>b_chunks_staged := 0\<rparr>, [xs_leaf])"
    using xs_staged_wire v r pay
    by (simp add: stage_one_def Let_def xs_batch_def xs_staged_b2_def xs_b2_def xs_stage_accounts_def get_at_def add_Inr
        checked_add_def xs_leaf_def)
  have "subtree_root (xs_rt 1000) [xs_leaf] 0 = xs_leaf"
    using subtree_root_correct [of "[xs_leaf]" 0 "xs_rt 1000"] by (simp add: padded_def)
  then have root: "fold_proof (xs_rt 1000) (subtree_root (xs_rt 1000) [xs_leaf] 0) 0 [] = xs_leaf" by (simp add: fold_proof_def)
  have up: "upper_depth 1 = 0" by (simp add: upper_depth_def upper_depth_from.simps [of 0])
  obtain b where pk: "batch_pack ?h1 (splice ?bd 168 [1]) = Inr b"
    by (rule batch_store_total [of ?h1 "splice ?bd 168 [1]"]) (use d(2) root in \<open>simp_all add: batch_wf_def xs_batch_def xs_leaf_def batch_leaf_def byte_simps\<close>)
  have bd: "?bd ! 168 = 0" using bit d(2) by (simp add: byte_simps)
  have "stage_chunk (xs_rt 1000) PROGRAM_ID xs_stage_accounts xs_stage_data ?s = Inr (set_data ?s1 BAT b)"
    using d(3) led one root up pk bit bd xs_staged_wire(2) d(2)
    by (simp add: stage_chunk_def xs_stage_accounts_def get_at_def Let_def xs_ctx_def xs_batch_def)
  then show thesis by (rule that [OF d(5,1)])
qed

end
