(* ===== verification/PropsLanes.thy ===== *)
theory PropsLanes
  imports XsLaneRun
begin

text \<open>
  The properties of the channel lane and of batches: what a close and a finalized channel pay, what
  a staged chunk is, and what a commit credits.
\<close>

section \<open>Channels\<close>

text \<open>
  C12. Every entry of a close instruction that succeeds names a channel of the ledger and carries an
  unexpired voucher signed by its payer, for more than the best amount so far; afterwards the best
  amount of the channel is at least that and the channel is not open.
\<close>

theorem close_needs_signature:
  assumes "sane pid s" and "close_channels rt pid (led # accounts) (nb # body) s = Inr s'" and "i < unat nb"
  shows "\<exists>w. close_decode (slice body (i * CLOSE_WIRE_LEN) CLOSE_WIRE_LEN) = Inr w \<and> is_ledger pid (s (key led)) \<and>
    close_valid rt pid (key led) (ledger_of (data (s (key led)))) (led # accounts) s s' w"
  using assms(2)
proof (cases rule: close_channels_run)
  case (1 nb' body' l books)
  have "close_sane pid (key led) (led # accounts) (s, 0)" using assms(1) by (simp add: close_sane_def)
  with close_fold_valid [OF _ 1(6), of i] 1 assms(3) show ?thesis by (auto simp: ledger_load_Inr)
qed

theorem close_needs_signature_witness:
  "\<exists>s s'. close_channels (xs_rt 1000) PROGRAM_ID [ac LED False, ac CHAN False] (1 # close_encode xs_close) s = Inr s' \<and>
    close_valid (xs_rt 1000) PROGRAM_ID LED (xs_ledger 1000 500 2) [ac LED False, ac CHAN False] s s' xs_close"
proof -
  obtain s where s: "xs_funded s" using xs_funded_reached by blast
  obtain d where d: "channel_of d = xs_channel CH_OPEN 0" "length d = CHANNEL_LEN" "is_channel PROGRAM_ID (entry_at s CHAN d CHAN)"
    "channel_load (xs_rt 1000) (entry_at s CHAN d) (ac CHAN False) PROGRAM_ID = Inr (xs_channel CH_OPEN 0)"
    by (rule xs_channel_entry [OF s, of CH_OPEN 0 1000 False]) blast
  from xs_close_runs [OF s d(4,2)] obtain s' where
    run: "close_channels (xs_rt 1000) PROGRAM_ID [ac LED False, ac CHAN False] (1 # close_encode xs_close) (entry_at s CHAN d) = Inr s'"
    by blast
  have "acct_sane PROGRAM_ID \<lparr>lamports = 2000, owner = PROGRAM_ID, data = d\<rparr>"
    using d(1,3) kinds_exclusive(3) [of PROGRAM_ID "\<lparr>lamports = 2000, owner = PROGRAM_ID, data = d\<rparr>"] payee_not_zero
    by (simp add: acct_sane_def channel_sane_def xs_channel_def)
  with s have sn: "sane PROGRAM_ID (entry_at s CHAN d)" by (auto simp: xs_funded_def intro: entry_at_sane xs_reachable_sane)
  have "ledger_of (data (entry_at s CHAN d LED)) = xs_ledger 1000 500 2" using s by (simp add: xs_funded_def ledger_at_def)
  with close_needs_signature [OF sn run, of 0] xs_close_wire(1)
  have "close_valid (xs_rt 1000) PROGRAM_ID LED (xs_ledger 1000 500 2) [ac LED False, ac CHAN False] (entry_at s CHAN d) s' xs_close"
    by simp
  with run show ?thesis by blast
qed

text \<open>
  C13. Finalizing needs the dispute window to be over or the payee's signature; it credits the best
  amount exactly once, to a slot of the payee, takes it from the balance and closes the channel.
\<close>

theorem finalize_pays_best:
  assumes "finalize_channel rt pid (ch # bk # rest) [slot] s = Inr s'" and "c = channel_of (data (s (key ch)))"
  shows "(c_status c = CH_CLOSING \<and> c_dispute_end_slot c < clock_slot rt \<or>
     c_status c \<in> {CH_OPEN, CH_CLOSING} \<and> is_signer_key (ch # bk # rest) (c_payee c)) \<and>
    channel_of (data (s' (key ch))) = c\<lparr>c_balance := c_balance c - c_best_cum c, c_status := CH_CLOSED\<rparr> \<and>
    (c_best_cum c = 0 \<or> c_best_cum c \<le> c_balance c \<and> credited (key bk) (unat slot) (c_payee c) (c_best_cum c) s s')"
  by (rule finalize_channel_effect [OF assms])

theorem finalize_pays_best_witness:
  "\<exists>s s'. finalize_channel (xs_rt 1000) PROGRAM_ID [ac CHAN False, ac BOOK False] [0] s = Inr s' \<and>
    c_balance (channel_of (data (s' CHAN))) = 50 \<and> credited BOOK 0 PAYEE 150 s s'"
proof -
  obtain s where s: "xs_funded s" using xs_funded_reached by blast
  obtain d where d: "channel_of d = xs_channel CH_CLOSING 150" "length d = CHANNEL_LEN"
    "channel_load (xs_rt 1000) (entry_at s CHAN d) (ac CHAN False) PROGRAM_ID = Inr (xs_channel CH_CLOSING 150)"
    by (rule xs_channel_entry [OF s, of CH_CLOSING 150 1000 False]) blast
  from xs_finalize [OF s d(3,2)] obtain s' where
    run: "finalize_channel (xs_rt 1000) PROGRAM_ID [ac CHAN False, ac BOOK False] [0] (entry_at s CHAN d) = Inr s'" by blast
  from finalize_pays_best [OF run refl] d(1) run show ?thesis
    by (intro exI [of _ "entry_at s CHAN d"] exI [of _ s']) (simp add: xs_channel_def)
qed

section \<open>Batches\<close>

text \<open>
  C11. A chunk is staged only while the batch is staging and not past its deadline, and only once.
  Its vouchers are all valid as for a settlement, their leaves lead to the root of the batch, and
  the staged count and total grow by exactly these vouchers.
\<close>

theorem staged_chunk_proved:
  assumes "sane pid s" and "stage_chunk rt pid (led # bt # rest) d s = Inr s'" and "h = batch_of (data (s (key bt)))"
    and "ci = unat (get_u16 d 0)" and "l = ledger_of (data (s (key led)))"
    and "ctx = \<lparr>ctx_program_id = pid, ctx_ledger = key led, ctx_mint = l_mint l, ctx_salt = l_salt l, ctx_now = clock_slot rt\<rparr>"
    and "depth = upper_depth (unat (b_num_chunks h))"
  shows "b_status h = B_STAGING \<and> clock_slot rt \<le> b_deadline_slot h \<and> ci < unat (b_num_chunks h) \<and>
    \<not> chunk_staged (data (s (key bt))) ci \<and>
    (\<exists>ws. list_all2 (\<lambda>i (w, _). voucher_decode (slice (drop (4 + 32 * depth) d) (i * VOUCHER_WIRE_LEN) VOUCHER_WIRE_LEN) = Inr w \<and>
         voucher_valid rt ctx (led # bt # rest) s w) [0..<unat (d ! 2)] ws \<and>
       fold_proof rt (subtree_root rt (map (wire_leaf rt ctx (led # bt # rest) s) ws) (unat (b_chunk_log h))) ci
         (map (\<lambda>j. slice d (4 + 32 * j) 32) [0..<depth]) = b_root h \<and>
       unat (b_staged_count (batch_of (data (s' (key bt))))) = unat (b_staged_count h) + length ws \<and>
       unat (b_staged_total (batch_of (data (s' (key bt))))) = unat (b_staged_total h) + sum_list (map (unat \<circ> snd) ws)) \<and>
    (\<forall>rt2 rest2 d2 s2. get_u16 d2 0 = get_u16 d 0 \<longrightarrow> stage_chunk rt2 pid (led # bt # rest2) d2 s' \<noteq> Inr s2)"
proof -
  note e = stage_chunk_effect [OF assms]
  then have "chunk_staged (data (s' (key bt))) ci" by blast
  then have "stage_chunk rt2 pid (led # bt # rest2) d2 s' \<noteq> Inr s2" if "get_u16 d2 0 = get_u16 d 0" for rt2 rest2 d2 s2
    using stage_chunk_again [of s' bt d2] that by (simp add: assms(4))
  with e show ?thesis by blast
qed

theorem staged_chunk_proved_witness:
  "\<exists>s s'. stage_chunk (xs_rt 1000) PROGRAM_ID xs_stage_accounts xs_stage_data s = Inr s' \<and>
    b_root (batch_of (data (s BAT))) = xs_leaf \<and>
    unat (b_staged_count (batch_of (data (s' BAT)))) = unat (b_staged_count (batch_of (data (s BAT)))) + 1 \<and>
    (\<forall>s2. stage_chunk (xs_rt 1000) PROGRAM_ID xs_stage_accounts xs_stage_data s' \<noteq> Inr s2)"
proof -
  obtain s where s: "xs_funded s" using xs_funded_reached by blast
  obtain d s' where d: "sane PROGRAM_ID (entry_at s BAT d)" "batch_of d = xs_batch xs_leaf 0 0"
    and run: "stage_chunk (xs_rt 1000) PROGRAM_ID xs_stage_accounts xs_stage_data (entry_at s BAT d) = Inr s'"
    by (rule xs_stage [OF s])
  note c = staged_chunk_proved [OF d(1) run [unfolded xs_stage_accounts_def] refl refl refl refl refl]
  from c obtain ws :: "(wire_voucher \<times> u64) list" where n: "length ws = unat (xs_stage_data ! 2)"
    and ct: "unat (b_staged_count (batch_of (data (s' BAT)))) = unat (b_staged_count (batch_of (data (entry_at s BAT d BAT)))) + length ws"
    by (elim conjE exE) (drule list_all2_lengthD, simp)
  from c have again: "stage_chunk (xs_rt 1000) PROGRAM_ID xs_stage_accounts xs_stage_data s' \<noteq> Inr s2" for s2
    by (simp add: xs_stage_accounts_def)
  show ?thesis
    by (rule exI [of _ "entry_at s BAT d"], rule exI [of _ s'])
      (use run ct n again d(2) in \<open>simp add: xs_stage_accounts_def xs_batch_def\<close>)
qed

text \<open>
  C10. A commit needs the complete batch before its deadline; it credits the staged amounts in order
  to their book slots, they add up to the total of the batch, and nothing is held afterwards.
\<close>

theorem commit_pays_staged:
  assumes "sane pid s" and "commit_batch rt pid (bt # rest) d s = Inr s'" and "h = batch_of (data (s (key bt)))"
    and "cs = map (batch_credit (data (s (key bt)))) [0..<unat (b_n_payees h)]"
  shows "b_status h = B_STAGING \<and> clock_slot rt \<le> b_deadline_slot h \<and> b_chunks_staged h = b_num_chunks h \<and>
    b_staged_count h = b_count h \<and> b_staged_total h = b_total h \<and>
    credit_all cs (snd (tabs_of pid s)) = Some (snd (tabs_of pid s')) \<and>
    sum_list (map (\<lambda>(k, i, x). x) cs) = unat (b_total h) \<and>
    batch_of (data (s' (key bt))) = h\<lparr>b_held := 0, b_status := B_COMMITTED\<rparr>"
  by (rule commit_batch_effect [OF assms])

theorem commit_pays_staged_witness:
  "\<exists>s s' c. commit_batch (xs_rt 1000) PROGRAM_ID [ac BAT False, ac BOOK False] [] s = Inr s' \<and>
    credit_all [c] (snd (tabs_of PROGRAM_ID s)) = Some (snd (tabs_of PROGRAM_ID s')) \<and> snd (snd c) = 100"
proof -
  obtain s where s: "xs_funded s" using xs_funded_reached by blast
  obtain d s' where d: "sane PROGRAM_ID (entry_at s BAT d)" "batch_of d = xs_batch (replicate 32 5) 1 1"
    and run: "commit_batch (xs_rt 1000) PROGRAM_ID [ac BAT False, ac BOOK False] [] (entry_at s BAT d) = Inr s'"
    by (rule xs_commit [OF s])
  from commit_pays_staged [OF d(1) run refl refl] d(2)
  have "credit_all [batch_credit d 0] (snd (tabs_of PROGRAM_ID (entry_at s BAT d))) = Some (snd (tabs_of PROGRAM_ID s'))"
    and "snd (snd (batch_credit d 0)) = 100" by (simp_all add: xs_batch_def split_beta)
  with run show ?thesis by blast
qed

end
