(* ===== verification/XsHash.thy ===== *)
theory XsHash
  imports XsTree
begin

text \<open>
  The portable SHA-512 of \<open>crypto.rs\<close> against its block-wise definition: pad the whole message
  to a multiple of 128 bytes and compress block after block. The source never builds the padded
  message: it streams the parts through one 128-byte buffer.
\<close>

section \<open>Block-wise definition\<close>

function compress_all :: "u64 list \<Rightarrow> bytes \<Rightarrow> u64 list \<times> bytes" where
  "compress_all h m = (if length m < 128 then (h, m) else compress_all (compress h (take 128 m)) (drop 128 m))"
  by pat_completeness auto
termination
  by (relation "measure (\<lambda>(h, m). length m)") auto

declare compress_all.simps [simp del]

definition pad512 :: "bytes \<Rightarrow> bytes" where
  "pad512 m = m @ [0x80] @ replicate ((239 - length m mod 128) mod 128) 0 @ replicate 8 0 @
     u64_be (of_nat (length m) * 8)"

definition sha512_ref :: "bytes \<Rightarrow> bytes" where
  "sha512_ref m = (let h = fst (compress_all IV512 (pad512 m)) in concat (map (\<lambda>i. u64_be (h ! i)) [0..<8]))"

lemma compress_all_short: "length m < 128 \<Longrightarrow> compress_all h m = (h, m)"
  by (simp add: compress_all.simps)

lemma compress_all_block:
  "length b = 128 \<Longrightarrow> compress_all h (b @ m) = compress_all (compress h b) m"
  by (simp add: compress_all.simps [of h "b @ m"])

lemma compress_all_rest: "length (snd (compress_all h m)) = length m mod 128"
proof (induction h m rule: compress_all.induct)
  case (1 h m)
  show ?case
  proof (cases "length m < 128")
    case True
    then show ?thesis by (simp add: compress_all_short)
  next
    case False
    with 1 show ?thesis by (simp add: compress_all.simps [of h m] le_mod_geq)
  qed
qed

lemma compress_all_append:
  "compress_all h (m @ m2) = compress_all (fst (compress_all h m)) (snd (compress_all h m) @ m2)"
proof (induction h m rule: compress_all.induct)
  case (1 h m)
  show ?case
  proof (cases "length m < 128")
    case True
    then show ?thesis by (simp add: compress_all_short)
  next
    case False
    then have "compress_all h (m @ m2) = compress_all (compress h (take 128 m)) (drop 128 m @ m2)"
      using compress_all_block [of "take 128 m" h "drop 128 m @ m2"]
      by (metis append.assoc append_take_drop_id length_take linorder_not_less min_absorb2)
    with 1 False show ?thesis by (simp add: compress_all.simps [of h m])
  qed
qed

section \<open>Streaming\<close>

text \<open>The buffer holds the bytes not yet compressed.\<close>

lemma absorb_spec:
  assumes "n < 128" and "length buf = 128" and "absorb h buf n rest = (h', buf', n')"
  shows "n' < 128 \<and> length buf' = 128 \<and> compress_all h (take n buf @ rest) = (h', take n' buf')"
  using assms
proof (induction h buf n rest rule: absorb.induct)
  case (1 h buf n rest)
  show ?case
  proof (cases "rest = []")
    case True
    then have "absorb h buf n rest = (h, buf, n)" by (subst absorb.simps) simp
    with 1(3-5) True show ?thesis by (auto simp: compress_all_short)
  next
    case False
    let ?tk = "min (128 - n) (length rest)"
    let ?buf = "splice buf n (take ?tk rest)"
    have fits: "n + length (take ?tk rest) \<le> length buf" using 1(3,4) by simp
    have buf: "take (n + ?tk) ?buf = take n buf @ take ?tk rest"
      using fits 1(3,4) by (simp add: splice_def min_def)
    have split: "take n buf @ rest = take (n + ?tk) ?buf @ drop ?tk rest"
      unfolding buf by simp
    have len: "length ?buf = 128" using 1(4) by simp
    have c: "\<not> (rest = [] \<or> 128 \<le> n)" using False 1(3) by simp
    show ?thesis
    proof (cases "n + ?tk = 128")
      case True
      have "absorb (compress h ?buf) ?buf 0 (drop ?tk rest) = (h', buf', n')"
        using 1(5) c True by (subst (asm) absorb.simps) (simp add: Let_def)
      with 1(1) [OF c refl refl refl refl] True len
      have "n' < 128 \<and> length buf' = 128 \<and> compress_all (compress h ?buf) (drop ?tk rest) = (h', take n' buf')"
        by simp
      moreover have "take n buf @ rest = ?buf @ drop ?tk rest" using split True len by simp
      ultimately show ?thesis using compress_all_block [OF len] by simp
    next
      case False
      then have less: "n + ?tk < 128" using 1(3) by simp
      have "absorb h ?buf (n + ?tk) (drop ?tk rest) = (h', buf', n')"
        using 1(5) c False by (subst (asm) absorb.simps) (simp add: Let_def)
      with 1(2) [OF c refl refl refl refl False less len] split show ?thesis by simp
    qed
  qed
qed

lemma absorb_parts:
  assumes "foldl (\<lambda>(h, buf, n) p. absorb h buf n p) (h, buf, n) parts = (h', buf', n')"
    and "n < 128" and "length buf = 128"
  shows "n' < 128 \<and> length buf' = 128 \<and> compress_all h (take n buf @ concat parts) = (h', take n' buf')"
  using assms
proof (induction parts arbitrary: h buf n)
  case Nil
  then show ?case by (auto simp: compress_all_short)
next
  case (Cons p parts)
  obtain h1 b1 n1 where a: "absorb h buf n p = (h1, b1, n1)" by (metis prod.exhaust)
  note s = absorb_spec [OF Cons.prems(2,3) a]
  have "n' < 128 \<and> length buf' = 128 \<and> compress_all h1 (take n1 b1 @ concat parts) = (h', take n' buf')"
    by (rule Cons.IH) (use Cons.prems(1) a s in auto)
  then show ?case using s compress_all_append [of h "take n buf @ p" "concat parts"] by simp
qed

section \<open>Padding\<close>

lemma length_u64_be [simp]: "length (u64_be v) = 8"
  by (simp add: u64_be_def)

lemma take_splice: "n + length bs \<le> length d \<Longrightarrow> take (n + length bs) (splice d n bs) = take n d @ bs"
  by (simp add: splice_def)

lemma splice_fill: "n \<le> length d \<Longrightarrow> splice d n (replicate (length d - n) x) = take n d @ replicate (length d - n) x"
  by (simp add: splice_def)

lemma final_block:
  assumes "n \<le> 112" and "length b = 128"
  shows "splice (splice b n (replicate (120 - n) 0)) 120 (u64_be t) =
    take n b @ replicate (112 - n) 0 @ replicate 8 0 @ u64_be t"
proof -
  have "take 120 (splice b n (replicate (120 - n) 0)) = take n b @ replicate (120 - n) 0"
    using take_splice [of n "replicate (120 - n) 0" b] assms by simp
  moreover have "replicate (120 - n) (0::u8) = replicate (112 - n) 0 @ replicate 8 0"
    using assms(1) by (simp add: replicate_add [symmetric])
  moreover have "splice c 120 (u64_be t) = take 120 c @ u64_be t" if "length c = 128" for c
    using that by (simp add: splice_def)
  ultimately show ?thesis using assms(2) by simp
qed

lemma sha512_blocks: "sha512 parts = sha512_ref (concat parts)"
proof -
  obtain h b n where f: "foldl (\<lambda>(h, buf, n) p. absorb h buf n p) (IV512, replicate 128 0, 0) parts = (h, b, n)"
    by (metis prod.exhaust)
  let ?m = "concat parts" and ?t = "of_nat (sum_list (map length parts)) * 8 :: u64"
  have s: "n < 128" "length b = 128" "compress_all IV512 ?m = (h, take n b)"
    using absorb_parts [OF f] by auto
  have n: "length ?m mod 128 = n" using compress_all_rest [of IV512 ?m] s by simp
  have t: "of_nat (length ?m) * 8 = ?t" by (simp add: length_concat)
  have tk: "take (n + 1) (splice b n [0x80]) = take n b @ [0x80]"
    using take_splice [of n "[0x80]" b] s by simp
  have ca: "compress_all IV512 (pad512 ?m) =
      compress_all h (take n b @ [0x80] @ replicate ((239 - n) mod 128) 0 @ replicate 8 0 @ u64_be ?t)"
    using compress_all_append [of IV512 ?m] by (simp add: pad512_def n t s(3))
  show ?thesis
  proof (cases "112 < n + 1")
    case True
    define b1 where "b1 = splice (splice b n [0x80]) (n + 1) (replicate (128 - (n + 1)) 0)"
    define b2 where "b2 = splice (splice b1 0 (replicate (120 - 0) 0)) 120 (u64_be ?t)"
    have sh: "sha512 parts = concat (map (\<lambda>i. u64_be (compress (compress h b1) b2 ! i)) [0..<8])"
      using True by (simp add: sha512_def f Let_def b1_def b2_def)
    have len: "length b1 = 128" "length b2 = 128" using s by (simp_all add: b1_def b2_def)
    have b1: "b1 = take n b @ [0x80] @ replicate (127 - n) 0"
      using splice_fill [of "n + 1" "splice b n [0x80]"] tk s by (simp add: b1_def)
    have b2: "b2 = replicate 112 0 @ replicate 8 0 @ u64_be ?t"
      using final_block [of 0 b1 ?t] len by (simp add: b2_def)
    have "(239 - n) mod 128 = (127 - n) + 112" using True s(1) by (simp add: mod_if)
    then have "take n b @ [0x80] @ replicate ((239 - n) mod 128) 0 @ replicate 8 0 @ u64_be ?t = b1 @ b2 @ []"
      unfolding b1 b2 by (simp add: replicate_add [symmetric])
    then have "compress_all IV512 (pad512 ?m) = (compress (compress h b1) b2, [])"
      unfolding ca using compress_all_block [OF len(1), of h "b2 @ []"]
        compress_all_block [OF len(2), of "compress h b1" "[]"] by (simp add: compress_all_short)
    then show ?thesis unfolding sh sha512_ref_def by simp
  next
    case False
    define b2 where "b2 = splice (splice (splice b n [0x80]) (n + 1) (replicate (120 - (n + 1)) 0)) 120 (u64_be ?t)"
    have sh: "sha512 parts = concat (map (\<lambda>i. u64_be (compress h b2 ! i)) [0..<8])"
      using False by (simp add: sha512_def f Let_def b2_def)
    have len: "length b2 = 128" using s by (simp add: b2_def)
    have b2: "b2 = take n b @ [0x80] @ replicate (111 - n) 0 @ replicate 8 0 @ u64_be ?t"
      using final_block [of "n + 1" "splice b n [0x80]" ?t] tk s False by (simp add: b2_def)
    have "(239 - n) mod 128 = 111 - n" using False by (simp add: mod_if)
    then have "take n b @ [0x80] @ replicate ((239 - n) mod 128) 0 @ replicate 8 0 @ u64_be ?t = b2 @ []"
      unfolding b2 by simp
    then have "compress_all IV512 (pad512 ?m) = (compress h b2, [])"
      unfolding ca using compress_all_block [OF len, of h "[]"] by (simp add: compress_all_short)
    then show ?thesis unfolding sh sha512_ref_def by simp
  qed
qed

end
