(* ===== verification/XsScalar.thy ===== *)
theory XsScalar
  imports XsHash
begin

text \<open>
  The scalar arithmetic of \<open>crypto.rs\<close> against arithmetic modulo the group order: the byte
  comparisons, and the radix \<open>2 ^ 52\<close> limb operations with their borrows and carries.
\<close>

definition group_order :: nat where
  "group_order = 2 ^ 252 + 27742317777372353535851937790883648493"

definition field_prime :: nat where
  "field_prime = 2 ^ 255 - 19"

section \<open>Comparison with a constant\<close>

fun be_val :: "u64 list \<Rightarrow> nat" where
  "be_val [] = 0"
| "be_val (x # xs) = unat x * (2 ^ 64) ^ length xs + be_val xs"

lemma unat_u64_less: "unat (v :: u64) < 2 ^ 64"
  using unsigned_less [of v, where 'a = nat] by simp

lemma be_val_less: "be_val xs < (2 ^ 64) ^ length xs"
proof (induction xs)
  case Nil
  then show ?case by simp
next
  case (Cons x xs)
  let ?B = "(2 ^ 64) ^ length xs :: nat"
  have "unat x + 1 \<le> 2 ^ 64" using unat_u64_less [of x] by simp
  then have "(unat x + 1) * ?B \<le> 2 ^ 64 * ?B" by (rule mult_right_mono) simp
  moreover have "be_val (x # xs) < (unat x + 1) * ?B" using Cons unfolding be_val.simps distrib_right by linarith
  ultimately have "be_val (x # xs) < 2 ^ 64 * ?B" by (rule less_le_trans [rotated])
  then show ?case by (simp only: length_Cons power_Suc)
qed

lemma words_below_val:
  "length xs = length ys \<Longrightarrow> words_below (zip xs ys) \<longleftrightarrow> be_val xs < be_val ys"
proof (induction xs ys rule: list_induct2)
  case Nil
  then show ?case by simp
next
  case (Cons x xs y ys)
  let ?B = "(2 ^ 64) ^ length xs :: nat"
  have xs: "be_val xs < ?B" and ys: "be_val ys < ?B" using be_val_less [of xs] be_val_less [of ys] Cons by simp_all
  have step: "unat a * ?B + u < unat b * ?B + v" if "a < b" "u < ?B" for a b :: u64 and u v
  proof -
    have "unat a + 1 \<le> unat b" using that(1) by (simp add: word_less_nat_alt)
    then have "(unat a + 1) * ?B \<le> unat b * ?B" by (rule mult_right_mono) simp
    with that(2) show ?thesis by simp
  qed
  show ?case
    using Cons step [of x y "be_val xs" "be_val ys"] step [of y x "be_val ys" "be_val xs"] xs ys
    by (cases x y rule: linorder_cases) auto
qed

lemma le_nat_append: "le_nat (xs @ ys) = le_nat xs + 256 ^ length xs * le_nat ys"
  by (induction xs) (simp_all add: algebra_simps)

lemma unat_get_u64: "off + 8 \<le> length d \<Longrightarrow> unat (get_u64 d off) = le_nat (slice d off 8)"
  using le_nat_bound [of "slice d off 8"] by (simp add: get_u64_def unat_of_nat length_slice)

lemma le_nat_words:
  assumes "length s = 32"
  shows "le_nat s = be_val [get_u64 s 24, get_u64 s 16, get_u64 s 8, get_u64 s 0]"
proof -
  have cut: "drop off s = slice s off 8 @ drop (off + 8) s" for off
    by (metis add.commute append_take_drop_id drop_drop slice_def)
  have "s = slice s 0 8 @ slice s 8 8 @ slice s 16 8 @ slice s 24 8"
    using cut [of 0] cut [of 8] cut [of 16] cut [of 24] assms by simp
  then have "le_nat s = le_nat (slice s 0 8 @ slice s 8 8 @ slice s 16 8 @ slice s 24 8)" by simp
  also have "\<dots> = le_nat (slice s 0 8) + 256 ^ 8 * (le_nat (slice s 8 8) + 256 ^ 8 *
      (le_nat (slice s 16 8) + 256 ^ 8 * le_nat (slice s 24 8)))"
    using assms by (simp only: le_nat_append length_slice)
  finally show ?thesis using assms by (simp add: unat_get_u64)
qed

lemma rev_four: "rev [0..<4] = [3, 2, 1, 0::nat]"
  by (simp add: upt_rec)

lemma is_canonical_scalar_iff:
  assumes "length s = 32"
  shows "is_canonical_scalar s \<longleftrightarrow> le_nat s < group_order"
proof -
  have "is_canonical_scalar s = words_below (zip [get_u64 s 24, get_u64 s 16, get_u64 s 8, get_u64 s 0] (rev L64))"
    by (simp add: is_canonical_scalar_def rev_four rd64_def L64_def)
  also have "\<dots> \<longleftrightarrow> le_nat s < be_val (rev L64)"
    unfolding le_nat_words [OF assms] by (rule words_below_val) (simp add: L64_def)
  also have "be_val (rev L64) = group_order" by (simp add: L64_def group_order_def)
  finally show ?thesis .
qed

section \<open>Limbs\<close>

fun val52 :: "u64 list \<Rightarrow> nat" where
  "val52 [] = 0"
| "val52 (x # xs) = unat x + 2 ^ 52 * val52 xs"

definition limbs52 :: "u64 list \<Rightarrow> bool" where
  "limbs52 l \<longleftrightarrow> length l = 5 \<and> (\<forall>x \<in> set l. unat x < 2 ^ 52)"

lemma limbs52_cases:
  assumes "limbs52 l"
  obtains a b c d e where "l = [a, b, c, d, e]" "unat a < 2 ^ 52" "unat b < 2 ^ 52" "unat c < 2 ^ 52"
    "unat d < 2 ^ 52" "unat e < 2 ^ 52"
proof -
  from assms have "length l = Suc (Suc (Suc (Suc (Suc 0))))" by (simp add: limbs52_def)
  then obtain a b c d e where "l = [a, b, c, d, e]" by (auto simp: length_Suc_conv)
  with assms show thesis by (intro that) (auto simp: limbs52_def)
qed

lemma MASK_mask: "MASK = mask 52"
  by (simp add: MASK_def mask_eq_exp_minus_1)

lemma unat_and_MASK: "unat (w AND MASK) = unat w mod 2 ^ 52"
  unfolding MASK_mask take_bit_eq_mask [symmetric] unsigned_take_bit_eq by (simp only: take_bit_eq_mod)

lemma unat_drop_bit: "unat (drop_bit n w) = unat w div 2 ^ n" for w :: "'a::len word"
  unfolding unat_drop_bit_eq by (simp only: drop_bit_eq_div)

lemma sub_limb:
  fixes x y bo :: u64
  assumes "unat x < 2 ^ 52" and "unat y < 2 ^ 52" and "unat bo \<le> 1"
  defines "w \<equiv> x - (y + bo)"
  shows "int (unat (w AND MASK)) = int (unat x) - int (unat y) - int (unat bo) + 2 ^ 52 * int (unat (drop_bit 63 w))"
    and "unat (drop_bit 63 w) \<le> 1" and "unat (w AND MASK) < 2 ^ 52"
proof -
  have yb: "unat (y + bo) = unat y + unat bo" using assms(2,3) by (simp add: unat_word_ariths)
  have "int (unat (w AND MASK)) = int (unat x) - int (unat y) - int (unat bo) + 2 ^ 52 * int (unat (drop_bit 63 w))
      \<and> unat (drop_bit 63 w) \<le> 1"
  proof (cases "y + bo \<le> x")
    case True
    then have "unat w = unat x - (unat y + unat bo)" "unat y + unat bo \<le> unat x"
      unfolding w_def using yb by (simp_all add: unat_sub word_le_nat_alt)
    then show ?thesis using assms(1) by (simp add: unat_and_MASK unat_drop_bit)
  next
    case False
    then have lt: "unat x < unat y + unat bo" using yb by (simp add: word_le_nat_alt)
    have "unat w = 2 ^ 64 - (unat y + unat bo - unat x)"
      unfolding w_def using lt yb False by (simp add: unat_sub_if' word_le_nat_alt)
    moreover define k where "k = unat y + unat bo - unat x"
    ultimately have w: "unat w = 2 ^ 64 - k" and k: "0 < k" "k \<le> 2 ^ 52" using lt assms(2,3) by simp_all
    have "unat w div 2 ^ 63 = 1" using w k by simp
    moreover have "unat w mod 2 ^ 52 = 2 ^ 52 - k"
    proof -
      have "unat w = (2 ^ 52 - k) + 2 ^ 52 * (2 ^ 12 - 1)" using w k by simp
      then have "unat w mod 2 ^ 52 = (2 ^ 52 - k) mod 2 ^ 52" by (simp only: mod_mult_self2)
      then show ?thesis using k by simp
    qed
    ultimately show ?thesis using lt k by (simp add: unat_and_MASK unat_drop_bit k_def)
  qed
  then show "int (unat (w AND MASK)) = int (unat x) - int (unat y) - int (unat bo) + 2 ^ 52 * int (unat (drop_bit 63 w))"
    "unat (drop_bit 63 w) \<le> 1" by auto
  show "unat (w AND MASK) < 2 ^ 52" by (simp add: unat_and_MASK)
qed

lemma add_limb:
  fixes x y c :: u64
  assumes "unat x < 2 ^ 52" and "unat y < 2 ^ 52" and "unat c < 2 ^ 64"
  defines "w \<equiv> drop_bit 52 c + x + y"
  shows "unat (w AND MASK) + 2 ^ 52 * (unat w div 2 ^ 52) = unat c div 2 ^ 52 + unat x + unat y"
    and "unat (w AND MASK) < 2 ^ 52"
proof -
  have "unat c div 2 ^ 52 < 2 ^ 12" using assms(3) by simp
  then have "unat w = unat c div 2 ^ 52 + unat x + unat y"
    unfolding w_def using assms(1,2) by (simp add: unat_word_ariths unat_drop_bit)
  then show "unat (w AND MASK) + 2 ^ 52 * (unat w div 2 ^ 52) = unat c div 2 ^ 52 + unat x + unat y"
    by (simp add: unat_and_MASK)
  show "unat (w AND MASK) < 2 ^ 52" by (simp add: unat_and_MASK)
qed

section \<open>Subtraction and addition\<close>

lemma L52_facts: "limbs52 L52" "val52 L52 = group_order"
  by (simp_all add: L52_def limbs52_def group_order_def)

lemma upt_five: "[0..<5] = [0, 1, 2, 3, 4::nat]"
  by (simp add: upt_rec)

text \<open>The borrow pass: the difference, plus \<open>2 ^ 260\<close> when it is negative.\<close>

definition borrow_pass :: "u64 list \<Rightarrow> u64 list \<Rightarrow> u64 \<times> u64 list" where
  "borrow_pass a b = fold (\<lambda>i (borrow, d).
     let w = a ! i - (b ! i + drop_bit 63 borrow) in (w, d @ [w AND MASK])) [0..<5] (0, [])"

definition carry_pass :: "u64 list \<Rightarrow> u64 list \<Rightarrow> u64 \<times> u64 list" where
  "carry_pass a b = fold (\<lambda>i (carry, s).
     let c = drop_bit 52 carry + a ! i + b ! i in (c, s @ [c AND MASK])) [0..<5] (0, [])"

lemma borrow_pass_val:
  assumes "limbs52 a" and "limbs52 b" and "borrow_pass a b = (bo, d)"
  shows "limbs52 d" and "unat (drop_bit 63 bo) \<le> 1"
    and "int (val52 d) = int (val52 a) - int (val52 b) + 2 ^ 260 * int (unat (drop_bit 63 bo))"
proof -
  from assms(1) obtain a0 a1 a2 a3 a4 where a: "a = [a0, a1, a2, a3, a4]"
    and la: "unat a0 < 2 ^ 52" "unat a1 < 2 ^ 52" "unat a2 < 2 ^ 52" "unat a3 < 2 ^ 52" "unat a4 < 2 ^ 52"
    by (rule limbs52_cases)
  from assms(2) obtain b0 b1 b2 b3 b4 where b: "b = [b0, b1, b2, b3, b4]"
    and lb: "unat b0 < 2 ^ 52" "unat b1 < 2 ^ 52" "unat b2 < 2 ^ 52" "unat b3 < 2 ^ 52" "unat b4 < 2 ^ 52"
    by (rule limbs52_cases)
  define w0 where "w0 = a0 - (b0 + drop_bit 63 0)"
  define w1 where "w1 = a1 - (b1 + drop_bit 63 w0)"
  define w2 where "w2 = a2 - (b2 + drop_bit 63 w1)"
  define w3 where "w3 = a3 - (b3 + drop_bit 63 w2)"
  define w4 where "w4 = a4 - (b4 + drop_bit 63 w3)"
  have d: "bo = w4" "d = [w0 AND MASK, w1 AND MASK, w2 AND MASK, w3 AND MASK, w4 AND MASK]"
    using assms(3) by (auto simp: borrow_pass_def upt_five a b Let_def w0_def w1_def w2_def w3_def w4_def)
  note s0 = sub_limb [OF la(1) lb(1), of "drop_bit 63 0", folded w0_def]
  note s1 = sub_limb [OF la(2) lb(2), of "drop_bit 63 w0", folded w1_def]
  note s2 = sub_limb [OF la(3) lb(3), of "drop_bit 63 w1", folded w2_def]
  note s3 = sub_limb [OF la(4) lb(4), of "drop_bit 63 w2", folded w3_def]
  note s4 = sub_limb [OF la(5) lb(5), of "drop_bit 63 w3", folded w4_def]
  have c: "unat (drop_bit 63 w0) \<le> 1" "unat (drop_bit 63 w1) \<le> 1" "unat (drop_bit 63 w2) \<le> 1"
    "unat (drop_bit 63 w3) \<le> 1" "unat (drop_bit 63 w4) \<le> 1"
    using s0(2) s1(2) s2(2) s3(2) s4(2) by simp_all
  show "unat (drop_bit 63 bo) \<le> 1" using c(5) by (simp add: d)
  show "limbs52 d" using s0(3) s1(3) s2(3) s3(3) s4(3) c by (simp add: d limbs52_def)
  show "int (val52 d) = int (val52 a) - int (val52 b) + 2 ^ 260 * int (unat (drop_bit 63 bo))"
    using s0(1) s1(1) [OF c(1)] s2(1) [OF c(2)] s3(1) [OF c(3)] s4(1) [OF c(4)]
    by (simp add: d a b)
qed

lemma carry_pass_val:
  assumes "limbs52 a" and "limbs52 b" and "carry_pass a b = (c, d)"
  shows "limbs52 d" and "val52 d = (val52 a + val52 b) mod 2 ^ 260"
proof -
  from assms(1) obtain a0 a1 a2 a3 a4 where a: "a = [a0, a1, a2, a3, a4]"
    and la: "unat a0 < 2 ^ 52" "unat a1 < 2 ^ 52" "unat a2 < 2 ^ 52" "unat a3 < 2 ^ 52" "unat a4 < 2 ^ 52"
    by (rule limbs52_cases)
  from assms(2) obtain b0 b1 b2 b3 b4 where b: "b = [b0, b1, b2, b3, b4]"
    and lb: "unat b0 < 2 ^ 52" "unat b1 < 2 ^ 52" "unat b2 < 2 ^ 52" "unat b3 < 2 ^ 52" "unat b4 < 2 ^ 52"
    by (rule limbs52_cases)
  define w0 where "w0 = drop_bit 52 0 + a0 + b0"
  define w1 where "w1 = drop_bit 52 w0 + a1 + b1"
  define w2 where "w2 = drop_bit 52 w1 + a2 + b2"
  define w3 where "w3 = drop_bit 52 w2 + a3 + b3"
  define w4 where "w4 = drop_bit 52 w3 + a4 + b4"
  have d: "d = [w0 AND MASK, w1 AND MASK, w2 AND MASK, w3 AND MASK, w4 AND MASK]"
    using assms(3) by (auto simp: carry_pass_def upt_five a b Let_def w0_def w1_def w2_def w3_def w4_def)
  note s0 = add_limb [OF la(1) lb(1) unat_u64_less, of 0, folded w0_def]
  note s1 = add_limb [OF la(2) lb(2) unat_u64_less, of w0, folded w1_def]
  note s2 = add_limb [OF la(3) lb(3) unat_u64_less, of w1, folded w2_def]
  note s3 = add_limb [OF la(4) lb(4) unat_u64_less, of w2, folded w3_def]
  note s4 = add_limb [OF la(5) lb(5) unat_u64_less, of w3, folded w4_def]
  show lim: "limbs52 d" using s0(2) s1(2) s2(2) s3(2) s4(2) by (simp add: d limbs52_def)
  have "val52 d + 2 ^ 260 * (unat w4 div 2 ^ 52) = val52 a + val52 b"
    using s0(1) s1(1) s2(1) s3(1) s4(1) by (simp add: d a b)
  moreover have "val52 d < 2 ^ 260"
    using s0(2) s1(2) s2(2) s3(2) s4(2) by (simp add: d)
  ultimately show "val52 d = (val52 a + val52 b) mod 2 ^ 260" by (metis mod_less mod_mult_self2)
qed

lemma sub52_passes:
  assumes "limbs52 a" and "limbs52 b"
  obtains bo d c r where "borrow_pass a b = (bo, d)"
    "carry_pass d (if unat (drop_bit 63 bo) = 0 then [0, 0, 0, 0, 0] else L52) = (c, r)" "sub52 a b = r"
proof -
  obtain bo d where bp: "borrow_pass a b = (bo, d)" by (cases "borrow_pass a b")
  note v = borrow_pass_val [OF assms bp]
  obtain c r where cp: "carry_pass d (if unat (drop_bit 63 bo) = 0 then [0, 0, 0, 0, 0] else L52) = (c, r)"
    by (cases "carry_pass d (if unat (drop_bit 63 bo) = 0 then [0, 0, 0, 0, 0] else L52)")
  have "drop_bit 63 bo = 0 \<or> drop_bit 63 bo = 1" using v(2) by (metis le_antisym less_one linorder_not_less unat_1 unat_eq_zero word_unat_eq_iff)
  then have "fold (\<lambda>i (carry, r). let c = drop_bit 52 carry + d ! i + (L52 ! i AND (0 - drop_bit 63 bo)) in (c, r @ [c AND MASK]))
      [0..<5] (0, []) = (c, r)"
    using cp by (auto simp: carry_pass_def upt_five L52_def)
  with bp have "sub52 a b = r" by (simp add: sub52_def borrow_pass_def)
  with bp cp show thesis by (rule that)
qed

lemma val52_less: "limbs52 a \<Longrightarrow> val52 a < 2 ^ 260"
  by (erule limbs52_cases) simp

lemma sub52_val:
  assumes "limbs52 a" and "limbs52 b" and "val52 b \<le> val52 a + group_order"
  shows "limbs52 (sub52 a b)"
    and "val52 (sub52 a b) = (if val52 b \<le> val52 a then val52 a - val52 b else val52 a + group_order - val52 b)"
proof -
  obtain bo d c r where bp: "borrow_pass a b = (bo, d)"
    and cp: "carry_pass d (if unat (drop_bit 63 bo) = 0 then [0, 0, 0, 0, 0] else L52) = (c, r)"
    and r: "sub52 a b = r" using assms(1,2) by (rule sub52_passes)
  note v = borrow_pass_val [OF assms(1,2) bp]
  have lim: "limbs52 (if unat (drop_bit 63 bo) = 0 then [0, 0, 0, 0, 0] else L52)"
    using L52_facts(1) by (simp add: limbs52_def)
  note w = carry_pass_val [OF v(1) lim cp]
  show "limbs52 (sub52 a b)" using w(1) by (simp add: r)
  have da: "val52 d < 2 ^ 260" "val52 a < 2 ^ 260" "val52 b < 2 ^ 260" "group_order < 2 ^ 253"
    using val52_less v(1) assms(1,2) by (simp_all add: group_order_def)
  show "val52 (sub52 a b) = (if val52 b \<le> val52 a then val52 a - val52 b else val52 a + group_order - val52 b)"
  proof (cases "unat (drop_bit 63 bo) = 0")
    case True
    then have "int (val52 d) = int (val52 a) - int (val52 b)" using v(3) by simp
    then have "val52 d = val52 a - val52 b" "val52 b \<le> val52 a" by linarith+
    then show ?thesis using w(2) True da(1) by (simp add: r)
  next
    case False
    then have one: "unat (drop_bit 63 bo) = 1" using v(2) by linarith
    have "int (val52 d) = int (val52 a) - int (val52 b) + 2 ^ 260" using v(3) unfolding one by simp
    then have "int (val52 d + val52 b) = int (val52 a + 2 ^ 260)" by simp
    then have d: "val52 d + val52 b = val52 a + 2 ^ 260" by (simp only: of_nat_eq_iff)
    then have lt: "val52 a < val52 b" using da(1) by linarith
    have "val52 d + group_order = (val52 a + group_order - val52 b) + 2 ^ 260" using d assms(3) by linarith
    moreover have "val52 a + group_order - val52 b < 2 ^ 260" using lt da(4) by simp
    ultimately have "(val52 d + group_order) mod 2 ^ 260 = val52 a + group_order - val52 b"
      by (metis mod_add_self2 mod_less)
    then show ?thesis using w(2) False lt L52_facts(2) by (simp add: r)
  qed
qed

lemma add52_val:
  assumes "limbs52 a" and "limbs52 b" and "val52 a < group_order" and "val52 b < group_order"
  shows "limbs52 (add52 a b)" and "val52 (add52 a b) = (val52 a + val52 b) mod group_order"
proof -
  obtain c d where cp: "carry_pass a b = (c, d)" by (cases "carry_pass a b")
  note w = carry_pass_val [OF assms(1,2) cp]
  have "fold (\<lambda>i (carry, s). let c = a ! i + b ! i + drop_bit 52 carry in (c, s @ [c AND MASK])) [0..<5] (0, []) = (c, d)"
    using cp by (simp add: carry_pass_def add_ac)
  then have r: "add52 a b = sub52 d L52" by (simp add: add52_def)
  have "val52 a + val52 b < 2 ^ 260" using assms(3,4) by (simp add: group_order_def)
  then have d: "val52 d = val52 a + val52 b" using w(2) by simp
  note s = sub52_val [OF w(1) L52_facts(1)]
  show "limbs52 (add52 a b)" unfolding r by (rule s(1)) (simp add: L52_facts)
  have v: "val52 (add52 a b) = (if group_order \<le> val52 d then val52 d - group_order else val52 d + group_order - group_order)"
    unfolding r using s(2) by (simp add: L52_facts)
  show "val52 (add52 a b) = (val52 a + val52 b) mod group_order"
  proof (cases "group_order \<le> val52 a + val52 b")
    case True
    moreover have "val52 a + val52 b - group_order < group_order" using assms(3,4) by linarith
    ultimately show ?thesis using v d by (simp add: le_mod_geq)
  next
    case False
    then show ?thesis using v d by simp
  qed
qed

lemma replicate_five: "replicate 5 x = [x, x, x, x, x]"
  by (simp add: numeral_eq_Suc)

lemma neg52_val:
  assumes "limbs52 k" and "val52 k < group_order"
  shows "limbs52 (neg52 k)" and "(val52 (neg52 k) + val52 k) mod group_order = 0" and "val52 (neg52 k) < group_order"
proof -
  have z: "limbs52 (replicate 5 0)" "val52 (replicate 5 0) = 0" by (simp_all add: limbs52_def replicate_five)
  note s = sub52_val [OF z(1) assms(1)]
  show "limbs52 (neg52 k)" unfolding neg52_def by (rule s(1)) (use assms(2) z in simp)
  have v: "val52 (neg52 k) = (if val52 k = 0 then 0 else group_order - val52 k)"
    unfolding neg52_def using s(2) assms(2) z by simp
  show "(val52 (neg52 k) + val52 k) mod group_order = 0" using assms(2) by (simp add: v)
  show "val52 (neg52 k) < group_order" using assms(2) by (simp add: v)
qed

section \<open>Montgomery multiplication\<close>

lemma unat_add128: "unat x + unat y < 2 ^ 128 \<Longrightarrow> unat (x + y) = unat x + unat y" for x y :: u128
  by (simp add: unat_word_ariths)

lemma unat_mul128: "unat (mul128 a b) = unat a * unat b"
proof -
  have "unat a * unat b < 2 ^ 64 * 2 ^ 64"
    using unat_u64_less [of a] unat_u64_less [of b] by (intro mult_strict_mono) simp_all
  then have lt: "unat a * unat b < 2 ^ 128" by simp
  have "unat (ucast x :: u128) = unat x" for x :: u64
    using unat_u64_less [of x] by (simp add: unsigned_ucast_eq take_bit_eq_mod)
  then show ?thesis using lt by (simp add: mul128_def unat_word_ariths)
qed

lemma mul128_less:
  assumes "unat a < 2 ^ 52" "unat b < 2 ^ 52"
  shows "unat (mul128 a b) < 2 ^ 104"
proof -
  have "unat a * unat b < 2 ^ 52 * 2 ^ 52" using assms by (intro mult_strict_mono) simp_all
  then show ?thesis by (simp add: unat_mul128)
qed

lemma mod_mult_add: "(x + (q mod m) * k) mod m = (x + q * k) mod m" for x q k m :: nat
  by (metis mod_add_right_eq mod_mult_left_eq)

lemma mod_0_mult: "k mod m = 0 \<Longrightarrow> (x * k) mod m = 0" for x k m :: nat
  by auto

lemma mod_0_div: "x mod m = 0 \<Longrightarrow> m * (x div m) = x" for x m :: nat
  by auto

lemma part1_val:
  assumes "part1 x = (c, p)" and "unat x < 2 ^ 127"
  shows "2 ^ 52 * unat c = unat x + unat p * 0x2631a5cf5d3ed" and "unat p < 2 ^ 52"
proof -
  have p: "p = (ucast x * LFACTOR) AND MASK" and c: "c = drop_bit 52 (x + mul128 p (L52 ! 0))"
    using assms(1) by (auto simp: part1_def Let_def)
  show lt: "unat p < 2 ^ 52" by (simp add: p unat_and_MASK)
  have L0: "unat (L52 ! 0) = 0x2631a5cf5d3ed" by (simp add: L52_def)
  have m: "unat (mul128 p (L52 ! 0)) = unat p * 0x2631a5cf5d3ed" by (simp only: unat_mul128 L0)
  have sum: "unat (x + mul128 p (L52 ! 0)) = unat x + unat p * 0x2631a5cf5d3ed"
    using assms(2) lt by (subst unat_add128) (simp_all add: m)
  have "unat (ucast x * LFACTOR :: u64) = (unat x * 0x51da312547e1b) mod 2 ^ 64"
    by (simp add: unat_word_ariths unsigned_ucast_eq take_bit_eq_mod LFACTOR_def mod_mult_left_eq)
  then have "unat p = (unat x * 0x51da312547e1b) mod 2 ^ 52"
    by (simp add: p unat_and_MASK mod_mod_cancel)
  then have "(unat x + unat p * 0x2631a5cf5d3ed) mod 2 ^ 52 =
      (unat x + unat x * 0x51da312547e1b * 0x2631a5cf5d3ed) mod 2 ^ 52"
    by (simp only: mod_mult_add)
  also have "unat x + unat x * 0x51da312547e1b * 0x2631a5cf5d3ed = unat x * (1 + 0x51da312547e1b * 0x2631a5cf5d3ed)"
    by simp
  also have "(unat x * (1 + 0x51da312547e1b * 0x2631a5cf5d3ed)) mod 2 ^ 52 = 0" by (rule mod_0_mult) simp
  finally have z: "(unat x + unat p * 0x2631a5cf5d3ed) mod 2 ^ 52 = 0" .
  have "unat c = (unat x + unat p * 0x2631a5cf5d3ed) div 2 ^ 52" by (simp only: c unat_drop_bit sum)
  then show "2 ^ 52 * unat c = unat x + unat p * 0x2631a5cf5d3ed" using mod_0_div [OF z] by simp
qed

lemma part2_val:
  assumes "part2 x = (c, r)"
  shows "unat r + 2 ^ 52 * unat c = unat x" and "unat r < 2 ^ 52"
proof -
  have r: "r = ucast x AND MASK" and c: "c = drop_bit 52 x" using assms by (auto simp: part2_def)
  have "unat r = unat x mod 2 ^ 52"
    by (simp add: r unat_and_MASK unsigned_ucast_eq take_bit_eq_mod mod_mod_cancel)
  then show "unat r + 2 ^ 52 * unat c = unat x" "unat r < 2 ^ 52" by (simp_all add: c unat_drop_bit)
qed

definition columns :: "u64 list \<Rightarrow> u64 list \<Rightarrow> u128 list" where
  "columns a b = fold (\<lambda>i z. fold (\<lambda>j z. z[i + j := z ! (i + j) + mul128 (a ! i) (b ! j)]) [0..<5] z)
     [0..<5] (replicate 9 0)"

lemma replicate_nine: "replicate 9 x = [x, x, x, x, x, x, x, x, x]"
  by (simp add: numeral_eq_Suc)

lemma columns_explicit:
  "columns [a0, a1, a2, a3, a4] [b0, b1, b2, b3, b4] =
    [mul128 a0 b0, mul128 a0 b1 + mul128 a1 b0, mul128 a0 b2 + mul128 a1 b1 + mul128 a2 b0,
     mul128 a0 b3 + mul128 a1 b2 + mul128 a2 b1 + mul128 a3 b0,
     mul128 a0 b4 + mul128 a1 b3 + mul128 a2 b2 + mul128 a3 b1 + mul128 a4 b0,
     mul128 a1 b4 + mul128 a2 b3 + mul128 a3 b2 + mul128 a4 b1,
     mul128 a2 b4 + mul128 a3 b3 + mul128 a4 b2, mul128 a3 b4 + mul128 a4 b3, mul128 a4 b4]"
  by (simp add: columns_def upt_five replicate_nine)

fun val128 :: "u128 list \<Rightarrow> nat" where
  "val128 [] = 0"
| "val128 (x # xs) = unat x + 2 ^ 52 * val128 xs"

lemma columns_val:
  assumes "limbs52 a" and "limbs52 b"
  obtains z0 z1 z2 z3 z4 z5 z6 z7 z8 where "columns a b = [z0, z1, z2, z3, z4, z5, z6, z7, z8]"
    "list_all (\<lambda>z. unat z < 2 ^ 107) [z0, z1, z2, z3, z4, z5, z6, z7, z8]"
    "val128 [z0, z1, z2, z3, z4, z5, z6, z7, z8] = val52 a * val52 b"
proof -
  from assms(1) obtain a0 a1 a2 a3 a4 where a: "a = [a0, a1, a2, a3, a4]"
    and la: "unat a0 < 2 ^ 52" "unat a1 < 2 ^ 52" "unat a2 < 2 ^ 52" "unat a3 < 2 ^ 52" "unat a4 < 2 ^ 52"
    by (rule limbs52_cases)
  from assms(2) obtain b0 b1 b2 b3 b4 where b: "b = [b0, b1, b2, b3, b4]"
    and lb: "unat b0 < 2 ^ 52" "unat b1 < 2 ^ 52" "unat b2 < 2 ^ 52" "unat b3 < 2 ^ 52" "unat b4 < 2 ^ 52"
    by (rule limbs52_cases)
  note m = la(1) [THEN mul128_less, OF lb(1)] la(1) [THEN mul128_less, OF lb(2)] la(1) [THEN mul128_less, OF lb(3)]
    la(1) [THEN mul128_less, OF lb(4)] la(1) [THEN mul128_less, OF lb(5)] la(2) [THEN mul128_less, OF lb(1)]
    la(2) [THEN mul128_less, OF lb(2)] la(2) [THEN mul128_less, OF lb(3)] la(2) [THEN mul128_less, OF lb(4)]
    la(2) [THEN mul128_less, OF lb(5)] la(3) [THEN mul128_less, OF lb(1)] la(3) [THEN mul128_less, OF lb(2)]
    la(3) [THEN mul128_less, OF lb(3)] la(3) [THEN mul128_less, OF lb(4)] la(3) [THEN mul128_less, OF lb(5)]
    la(4) [THEN mul128_less, OF lb(1)] la(4) [THEN mul128_less, OF lb(2)] la(4) [THEN mul128_less, OF lb(3)]
    la(4) [THEN mul128_less, OF lb(4)] la(4) [THEN mul128_less, OF lb(5)] la(5) [THEN mul128_less, OF lb(1)]
    la(5) [THEN mul128_less, OF lb(2)] la(5) [THEN mul128_less, OF lb(3)] la(5) [THEN mul128_less, OF lb(4)]
    la(5) [THEN mul128_less, OF lb(5)]
  have add: "unat (x + y) = unat x + unat y" if "unat x < 2 ^ 107" "unat y < 2 ^ 104" for x y :: u128
    using that by (intro unat_add128) simp
  show thesis
  proof (rule that)
    show "columns a b = [mul128 a0 b0, mul128 a0 b1 + mul128 a1 b0, mul128 a0 b2 + mul128 a1 b1 + mul128 a2 b0,
     mul128 a0 b3 + mul128 a1 b2 + mul128 a2 b1 + mul128 a3 b0,
     mul128 a0 b4 + mul128 a1 b3 + mul128 a2 b2 + mul128 a3 b1 + mul128 a4 b0,
     mul128 a1 b4 + mul128 a2 b3 + mul128 a3 b2 + mul128 a4 b1,
     mul128 a2 b4 + mul128 a3 b3 + mul128 a4 b2, mul128 a3 b4 + mul128 a4 b3, mul128 a4 b4]"
      unfolding a b by (rule columns_explicit)
    show "list_all (\<lambda>z. unat z < 2 ^ 107) [mul128 a0 b0, mul128 a0 b1 + mul128 a1 b0, mul128 a0 b2 + mul128 a1 b1 + mul128 a2 b0,
     mul128 a0 b3 + mul128 a1 b2 + mul128 a2 b1 + mul128 a3 b0,
     mul128 a0 b4 + mul128 a1 b3 + mul128 a2 b2 + mul128 a3 b1 + mul128 a4 b0,
     mul128 a1 b4 + mul128 a2 b3 + mul128 a3 b2 + mul128 a4 b1,
     mul128 a2 b4 + mul128 a3 b3 + mul128 a4 b2, mul128 a3 b4 + mul128 a4 b3, mul128 a4 b4]"
      using m
      by (simp add: add)
    show "val128 [mul128 a0 b0, mul128 a0 b1 + mul128 a1 b0, mul128 a0 b2 + mul128 a1 b1 + mul128 a2 b0,
     mul128 a0 b3 + mul128 a1 b2 + mul128 a2 b1 + mul128 a3 b0,
     mul128 a0 b4 + mul128 a1 b3 + mul128 a2 b2 + mul128 a3 b1 + mul128 a4 b0,
     mul128 a1 b4 + mul128 a2 b3 + mul128 a3 b2 + mul128 a4 b1,
     mul128 a2 b4 + mul128 a3 b3 + mul128 a4 b2, mul128 a3 b4 + mul128 a4 b3, mul128 a4 b4] = val52 a * val52 b"
      using m
      by (simp add: add) (simp add: a b unat_mul128 algebra_simps)
  qed
qed

text \<open>The reduction rounds: their exact quotient relation, from the carries.\<close>

lemma reduction_sum:
  fixes c1 c2 c3 c4 c5 c6 c7 c8 c9 :: nat
  defines "M \<equiv> 2 ^ 52" and "l0 \<equiv> 0x2631a5cf5d3ed" and "l1 \<equiv> 0xdea2f79cd6581" and "l2 \<equiv> 0x14def9"
    and "l4 \<equiv> 0x100000000000"
  assumes "M * c1 = z0 + n0 * l0"
    and "M * c2 = c1 + z1 + n0 * l1 + n1 * l0"
    and "M * c3 = c2 + z2 + n0 * l2 + n1 * l1 + n2 * l0"
    and "M * c4 = c3 + z3 + n1 * l2 + n2 * l1 + n3 * l0"
    and "M * c5 = c4 + z4 + n0 * l4 + n2 * l2 + n3 * l1 + n4 * l0"
    and "r0 + M * c6 = c5 + z5 + n1 * l4 + n3 * l2 + n4 * l1"
    and "r1 + M * c7 = c6 + z6 + n2 * l4 + n4 * l2"
    and "r2 + M * c8 = c7 + z7 + n3 * l4"
    and "r3 + M * c9 = c8 + z8 + n4 * l4"
  shows "2 ^ 260 * (r0 + M * (r1 + M * (r2 + M * (r3 + M * c9)))) =
    (z0 + M * (z1 + M * (z2 + M * (z3 + M * (z4 + M * (z5 + M * (z6 + M * (z7 + M * z8)))))))) +
    (n0 + M * (n1 + M * (n2 + M * (n3 + M * n4)))) * group_order"
  using assms by (simp add: group_order_def)

lemma sum128_2: "unat x + unat y < 2 ^ 128 \<Longrightarrow> unat (x + y) = unat x + unat y" for x y :: u128
  by (rule unat_add128)

lemma sum128_3: "unat x + unat y + unat z < 2 ^ 128 \<Longrightarrow> unat (x + y + z) = unat x + unat y + unat z" for x y z :: u128
  by (simp add: unat_add128)

lemma sum128_4:
  "unat x + unat y + unat z + unat u < 2 ^ 128 \<Longrightarrow> unat (x + y + z + u) = unat x + unat y + unat z + unat u"
  for x y z u :: u128
  by (simp add: unat_add128)

lemma sum128_5:
  "unat x + unat y + unat z + unat u + unat v < 2 ^ 128 \<Longrightarrow>
   unat (x + y + z + u + v) = unat x + unat y + unat z + unat u + unat v"
  for x y z u v :: u128
  by (simp add: unat_add128)

lemma L52_nth: "L52 ! Suc 0 = 0xdea2f79cd6581" "L52 ! 2 = 0x14def9" "L52 ! 4 = 0x100000000000"
  by (simp_all add: L52_def)

lemma mul_L:
  assumes "unat n < 2 ^ 52"
  shows "unat (mul128 n (L52 ! Suc 0)) = unat n * 0xdea2f79cd6581" "unat (mul128 n (L52 ! 2)) = unat n * 0x14def9"
    "unat (mul128 n (L52 ! 4)) = unat n * 0x100000000000"
  by (simp_all add: unat_mul128 L52_nth)

lemma mont_mul_val:
  assumes "limbs52 a" and "limbs52 b" and "val52 a * val52 b < 2 ^ 260 * group_order"
  shows "limbs52 (mont_mul a b)" and "val52 (mont_mul a b) < group_order"
    and "(2 ^ 260 * val52 (mont_mul a b)) mod group_order = (val52 a * val52 b) mod group_order"
proof -
  obtain z0 z1 z2 z3 z4 z5 z6 z7 z8 where z: "columns a b = [z0, z1, z2, z3, z4, z5, z6, z7, z8]"
    and zl: "list_all (\<lambda>z. unat z < 2 ^ 107) [z0, z1, z2, z3, z4, z5, z6, z7, z8]"
    and zv: "val128 [z0, z1, z2, z3, z4, z5, z6, z7, z8] = val52 a * val52 b"
    using assms(1,2) by (rule columns_val)
  obtain c1 n0 where p1: "part1 z0 = (c1, n0)" by (cases "part1 z0")
  define x1 where "x1 = c1 + z1 + mul128 n0 (L52 ! 1)"
  obtain c2 n1 where p2: "part1 x1 = (c2, n1)" by (cases "part1 x1")
  define x2 where "x2 = c2 + z2 + mul128 n0 (L52 ! 2) + mul128 n1 (L52 ! 1)"
  obtain c3 n2 where p3: "part1 x2 = (c3, n2)" by (cases "part1 x2")
  define x3 where "x3 = c3 + z3 + mul128 n1 (L52 ! 2) + mul128 n2 (L52 ! 1)"
  obtain c4 n3 where p4: "part1 x3 = (c4, n3)" by (cases "part1 x3")
  define x4 where "x4 = c4 + z4 + mul128 n0 (L52 ! 4) + mul128 n2 (L52 ! 2) + mul128 n3 (L52 ! 1)"
  obtain c5 n4 where p5: "part1 x4 = (c5, n4)" by (cases "part1 x4")
  define x5 where "x5 = c5 + z5 + mul128 n1 (L52 ! 4) + mul128 n3 (L52 ! 2) + mul128 n4 (L52 ! 1)"
  obtain c6 r0 where p6: "part2 x5 = (c6, r0)" by (cases "part2 x5")
  define x6 where "x6 = c6 + z6 + mul128 n2 (L52 ! 4) + mul128 n4 (L52 ! 2)"
  obtain c7 r1 where p7: "part2 x6 = (c7, r1)" by (cases "part2 x6")
  define x7 where "x7 = c7 + z7 + mul128 n3 (L52 ! 4)"
  obtain c8 r2 where p8: "part2 x7 = (c8, r2)" by (cases "part2 x7")
  define x8 where "x8 = c8 + z8 + mul128 n4 (L52 ! 4)"
  obtain c9 r3 where p9: "part2 x8 = (c9, r3)" by (cases "part2 x8")
  have mm: "mont_mul a b = sub52 [r0, r1, r2, r3, ucast c9] L52"
    using z p1 p2 p3 p4 p5 p6 p7 p8 p9
    unfolding mont_mul_def columns_def [symmetric] x1_def x2_def x3_def x4_def x5_def x6_def x7_def x8_def
    by (simp add: Let_def)
  note zl' = zl [simplified]
  have e1: "2 ^ 52 * unat c1 = unat z0 + unat n0 * 0x2631a5cf5d3ed" "unat n0 < 2 ^ 52"
    using part1_val [OF p1] zl' by simp_all
  have x1: "unat x1 = unat c1 + unat z1 + unat n0 * 0xdea2f79cd6581"
    unfolding x1_def using e1 zl' by (subst sum128_3) (simp_all add: mul_L)
  have e2: "2 ^ 52 * unat c2 = unat x1 + unat n1 * 0x2631a5cf5d3ed" "unat n1 < 2 ^ 52"
    using part1_val [OF p2] x1 e1 zl' by simp_all
  have x2: "unat x2 = unat c2 + unat z2 + unat n0 * 0x14def9 + unat n1 * 0xdea2f79cd6581"
    unfolding x2_def using e1 e2 x1 zl' by (subst sum128_4) (simp_all add: mul_L)
  have e3: "2 ^ 52 * unat c3 = unat x2 + unat n2 * 0x2631a5cf5d3ed" "unat n2 < 2 ^ 52"
    using part1_val [OF p3] x1 x2 e1 e2 zl' by simp_all
  have x3: "unat x3 = unat c3 + unat z3 + unat n1 * 0x14def9 + unat n2 * 0xdea2f79cd6581"
    unfolding x3_def using e1 e2 e3 x1 x2 zl' by (subst sum128_4) (simp_all add: mul_L)
  have e4: "2 ^ 52 * unat c4 = unat x3 + unat n3 * 0x2631a5cf5d3ed" "unat n3 < 2 ^ 52"
    using part1_val [OF p4] x1 x2 x3 e1 e2 e3 zl' by simp_all
  have x4: "unat x4 = unat c4 + unat z4 + unat n0 * 0x100000000000 + unat n2 * 0x14def9 + unat n3 * 0xdea2f79cd6581"
    unfolding x4_def using e1 e2 e3 e4 x1 x2 x3 zl' by (subst sum128_5) (simp_all add: mul_L)
  have e5: "2 ^ 52 * unat c5 = unat x4 + unat n4 * 0x2631a5cf5d3ed" "unat n4 < 2 ^ 52"
    using part1_val [OF p5] x1 x2 x3 x4 e1 e2 e3 e4 zl' by simp_all
  have x5: "unat x5 = unat c5 + unat z5 + unat n1 * 0x100000000000 + unat n3 * 0x14def9 + unat n4 * 0xdea2f79cd6581"
    unfolding x5_def using e1 e2 e3 e4 e5 x1 x2 x3 x4 zl' by (subst sum128_5) (simp_all add: mul_L)
  note q0 = part2_val [OF p6]
  have x6: "unat x6 = unat c6 + unat z6 + unat n2 * 0x100000000000 + unat n4 * 0x14def9"
    unfolding x6_def using q0 e1 e2 e3 e4 e5 x1 x2 x3 x4 x5 zl' by (subst sum128_4) (simp_all add: mul_L)
  note q1 = part2_val [OF p7]
  have x7: "unat x7 = unat c7 + unat z7 + unat n3 * 0x100000000000"
    unfolding x7_def using q0 q1 e1 e2 e3 e4 e5 x1 x2 x3 x4 x5 x6 zl' by (subst sum128_3) (simp_all add: mul_L)
  note q2 = part2_val [OF p8]
  have x8: "unat x8 = unat c8 + unat z8 + unat n4 * 0x100000000000"
    unfolding x8_def using q0 q1 q2 e1 e2 e3 e4 e5 x1 x2 x3 x4 x5 x6 x7 zl' by (subst sum128_3) (simp_all add: mul_L)
  note q3 = part2_val [OF p9]
  let ?R = "val52 [r0, r1, r2, r3, ucast c9]" and ?N = "val52 [n0, n1, n2, n3, n4]"
  have "unat c9 < 2 ^ 64"
  proof -
    have "unat c8 < 2 ^ 76" using q2(1) unsigned_less [of x7, where 'a = nat] by simp
    then have "unat x8 < 2 ^ 110" using x8 zl' e5(2) by simp
    then show ?thesis using q3(1) by simp
  qed
  then have u9: "unat (ucast c9 :: u64) = unat c9" by (simp add: unsigned_ucast_eq take_bit_eq_mod)
  have eq: "2 ^ 260 * ?R = val52 a * val52 b + ?N * group_order"
    using reduction_sum [OF e1(1) e2(1) [unfolded x1] e3(1) [unfolded x2] e4(1) [unfolded x3] e5(1) [unfolded x4]
        q0(1) [unfolded x5] q1(1) [unfolded x6] q2(1) [unfolded x7] q3(1) [unfolded x8]]
    unfolding zv [symmetric] val52.simps val128.simps u9 mult_0_right add_0_right .
  have N: "?N < 2 ^ 260" using e1(2) e2(2) e3(2) e4(2) e5(2) by simp
  then have "?N * group_order \<le> 2 ^ 260 * group_order" by (intro mult_right_mono) simp_all
  then have "2 ^ 260 * ?R < 2 ^ 260 * (2 * group_order)" using eq assms(3) by linarith
  then have R: "?R < 2 * group_order" by (simp only: mult_less_cancel1)
  have "unat c9 < 2 ^ 52" using R by (simp add: u9 group_order_def)
  then have lim: "limbs52 [r0, r1, r2, r3, ucast c9]"
    using q0(2) q1(2) q2(2) q3(2) u9 by (simp add: limbs52_def)
  note s = sub52_val [OF lim L52_facts(1)]
  show "limbs52 (mont_mul a b)" unfolding mm by (rule s(1)) (simp only: L52_facts le_add2)
  have v: "val52 (mont_mul a b) = ?R mod group_order"
  proof (cases "group_order \<le> ?R")
    case True
    then show ?thesis using s(2) R unfolding mm L52_facts by (simp only: le_add2 if_True le_mod_geq) (subst mod_less; linarith)
  next
    case False
    then show ?thesis using s(2) unfolding mm L52_facts by simp
  qed
  show "val52 (mont_mul a b) < group_order" unfolding v by (rule mod_less_divisor) (simp add: group_order_def)
  have "(2 ^ 260 * val52 (mont_mul a b)) mod group_order = (2 ^ 260 * ?R) mod group_order"
    unfolding v by (rule mod_mult_right_eq)
  also have "\<dots> = (val52 a * val52 b) mod group_order" unfolding eq by (rule mod_mult_self1)
  finally show "(2 ^ 260 * val52 (mont_mul a b)) mod group_order = (val52 a * val52 b) mod group_order" .
qed

section \<open>Wide reduction\<close>

lemma or_push_nat: "x < 2 ^ t \<Longrightarrow> x OR push_bit t y = x + push_bit t y" for x y :: nat
proof -
  assume "x < 2 ^ t"
  then have x: "take_bit t x = x" by (simp add: take_bit_nat_eq_self)
  have "\<not> bit x n \<or> \<not> bit (push_bit t y) n" for n
    using x by (metis bit_push_bit_iff_nat bit_take_bit_iff linorder_not_less)
  then show ?thesis by (rule disjunctive_add [symmetric])
qed

lemma mod_glue:
  fixes r q :: nat
  assumes "r < 2 ^ t" and "t \<le> n"
  shows "(r + 2 ^ t * q) mod 2 ^ n = r + 2 ^ t * (q mod 2 ^ (n - t))"
proof -
  have n: "(2::nat) ^ n = 2 ^ t * 2 ^ (n - t)" using assms(2) by (simp add: power_add [symmetric])
  have "(r + 2 ^ t * q) mod 2 ^ t = r" "(r + 2 ^ t * q) div 2 ^ t = q" using assms(1) by simp_all
  then show ?thesis unfolding n mod_mult2_eq by simp
qed

lemma limb_glue:
  fixes x y :: u64
  assumes "s + t = 64" and "t \<le> 52"
  shows "unat ((drop_bit s x OR push_bit t y) AND MASK) = unat x div 2 ^ s + 2 ^ t * (unat y mod 2 ^ (52 - t))"
    and "unat ((drop_bit s x OR push_bit t y) AND MASK) < 2 ^ 52"
proof -
  have st: "64 - t = s" using assms(1) by simp
  have hi: "unat x div 2 ^ s < 2 ^ t"
  proof -
    have "unat x < 2 ^ s * 2 ^ t" using unat_u64_less [of x] assms(1) by (simp add: power_add [symmetric])
    then show ?thesis by (simp add: less_mult_imp_div_less mult.commute)
  qed
  have "unat (push_bit t y) = (unat y * 2 ^ t) mod 2 ^ 64"
    unfolding unsigned_push_bit_eq by (simp add: take_bit_eq_mod push_bit_eq_mult)
  also have "\<dots> = 2 ^ t * (unat y mod 2 ^ s)"
    using mod_glue [of 0 t 64 "unat y"] st assms(2) by (simp add: mult.commute)
  finally have lo: "unat (push_bit t y) = push_bit t (unat y mod 2 ^ s)" by (simp add: push_bit_eq_mult mult.commute)
  have "unat (drop_bit s x OR push_bit t y) = unat x div 2 ^ s + 2 ^ t * (unat y mod 2 ^ s)"
    unfolding unsigned_or_eq unat_drop_bit lo or_push_nat [OF hi] by (simp add: push_bit_eq_mult mult.commute)
  then have "unat ((drop_bit s x OR push_bit t y) AND MASK) = unat x div 2 ^ s + 2 ^ t * (unat y mod 2 ^ s mod 2 ^ (52 - t))"
    unfolding unat_and_MASK using mod_glue [OF hi assms(2)] by simp
  moreover have "unat y mod 2 ^ s mod 2 ^ (52 - t) = unat y mod 2 ^ (52 - t)"
    using assms by (intro mod_mod_cancel) (simp add: le_imp_power_dvd)
  ultimately show "unat ((drop_bit s x OR push_bit t y) AND MASK) = unat x div 2 ^ s + 2 ^ t * (unat y mod 2 ^ (52 - t))"
    by simp
  show "unat ((drop_bit s x OR push_bit t y) AND MASK) < 2 ^ 52" by (simp add: unat_and_MASK)
qed

lemma limb_glue2:
  fixes x y :: u64
  assumes "s + t = 64" and "t + u = 52"
  shows "unat ((drop_bit s x OR push_bit t y) AND MASK) = unat x div 2 ^ s + 2 ^ t * (unat y mod 2 ^ u)"
proof -
  from assms(2) have "t \<le> 52" "52 - t = u" by simp_all
  with limb_glue(1) [OF assms(1)] show ?thesis by simp
qed

lemma cancel_unit:
  fixes k u x y m :: nat
  assumes "(k * u) mod m = 1 mod m" and "(k * x) mod m = (k * y) mod m"
  shows "x mod m = y mod m"
proof -
  have "z mod m = (u * ((k * z) mod m)) mod m" for z
  proof -
    have "(u * ((k * z) mod m)) mod m = (((k * u) mod m) * z) mod m"
      by (simp add: mod_mult_right_eq mod_mult_left_eq ac_simps)
    also have "\<dots> = z mod m" unfolding assms(1) by (simp add: mod_mult_left_eq)
    finally show ?thesis by simp
  qed
  from this [of x] this [of y] assms(2) show ?thesis by simp
qed

lemma montgomery_consts:
  "limbs52 R52" "val52 R52 = 2 ^ 260 mod group_order"
  "limbs52 RR52" "val52 RR52 = 2 ^ 520 mod group_order"
  "(2 ^ 260 * 5706410653605570882457795059301885719620630590890452783038400561109479083972) mod group_order =
     1 mod group_order"
  by (simp_all add: R52_def RR52_def limbs52_def group_order_def)

lemma le_nat_words8:
  assumes "length s = 64"
  shows "le_nat s = unat (get_u64 s 0) + 2 ^ 64 * (unat (get_u64 s 8) + 2 ^ 64 * (unat (get_u64 s 16) + 2 ^ 64 *
    (unat (get_u64 s 24) + 2 ^ 64 * (unat (get_u64 s 32) + 2 ^ 64 * (unat (get_u64 s 40) + 2 ^ 64 *
    (unat (get_u64 s 48) + 2 ^ 64 * unat (get_u64 s 56)))))))"
proof -
  have cut: "drop off s = slice s off 8 @ drop (off + 8) s" for off
    by (metis add.commute append_take_drop_id drop_drop slice_def)
  have "s = slice s 0 8 @ slice s 8 8 @ slice s 16 8 @ slice s 24 8 @ slice s 32 8 @ slice s 40 8 @ slice s 48 8 @ slice s 56 8"
    using cut [of 0] cut [of 8] cut [of 16] cut [of 24] cut [of 32] cut [of 40] cut [of 48] cut [of 56] assms by simp
  then have "le_nat s = le_nat (slice s 0 8 @ slice s 8 8 @ slice s 16 8 @ slice s 24 8 @ slice s 32 8 @ slice s 40 8 @ slice s 48 8 @ slice s 56 8)"
    by simp
  also have "\<dots> = le_nat (slice s 0 8) + 256 ^ 8 * (le_nat (slice s 8 8) + 256 ^ 8 * (le_nat (slice s 16 8) + 256 ^ 8 *
      (le_nat (slice s 24 8) + 256 ^ 8 * (le_nat (slice s 32 8) + 256 ^ 8 * (le_nat (slice s 40 8) + 256 ^ 8 *
      (le_nat (slice s 48 8) + 256 ^ 8 * le_nat (slice s 56 8)))))))"
    using assms by (simp only: le_nat_append length_slice)
  finally show ?thesis using assms by (simp add: unat_get_u64)
qed

text \<open>The two halves of \<open>reduce_wide\<close>: the low 260 and the high 252 bits.\<close>

definition lo52 :: "u64 list \<Rightarrow> u64 list" where
  "lo52 w = [(w ! 0) AND MASK, (drop_bit 52 (w ! 0) OR push_bit 12 (w ! 1)) AND MASK,
     (drop_bit 40 (w ! 1) OR push_bit 24 (w ! 2)) AND MASK, (drop_bit 28 (w ! 2) OR push_bit 36 (w ! 3)) AND MASK,
     (drop_bit 16 (w ! 3) OR push_bit 48 (w ! 4)) AND MASK]"

definition hi52 :: "u64 list \<Rightarrow> u64 list" where
  "hi52 w = [drop_bit 4 (w ! 4) AND MASK, (drop_bit 56 (w ! 4) OR push_bit 8 (w ! 5)) AND MASK,
     (drop_bit 44 (w ! 5) OR push_bit 20 (w ! 6)) AND MASK, (drop_bit 32 (w ! 6) OR push_bit 32 (w ! 7)) AND MASK,
     drop_bit 20 (w ! 7)]"

lemma mod_div_nat: "x mod m + m * (x div m) = x" for x m :: nat
  by simp

lemma halves_sum:
  fixes m0 d0 m1 d1 m2 d2 m3 d3 m4 q4 e4 m5 d5 m6 d6 m7 d7 :: nat
  shows "(m0 + 2 ^ 52 * (d0 + 2 ^ 12 * m1 + 2 ^ 52 * (d1 + 2 ^ 24 * m2 + 2 ^ 52 * (d2 + 2 ^ 36 * m3 + 2 ^ 52 * (d3 + 2 ^ 48 * m4))))) +
      2 ^ 260 * (q4 + 2 ^ 52 * (e4 + 2 ^ 8 * m5 + 2 ^ 52 * (d5 + 2 ^ 20 * m6 + 2 ^ 52 * (d6 + 2 ^ 32 * m7 + 2 ^ 52 * d7)))) =
    (m0 + 2 ^ 52 * d0) + 2 ^ 64 * ((m1 + 2 ^ 40 * d1) + 2 ^ 64 * ((m2 + 2 ^ 28 * d2) + 2 ^ 64 * ((m3 + 2 ^ 16 * d3) + 2 ^ 64 *
      ((m4 + 2 ^ 4 * (q4 + 2 ^ 52 * e4)) + 2 ^ 64 * ((m5 + 2 ^ 44 * d5) + 2 ^ 64 * ((m6 + 2 ^ 32 * d6) + 2 ^ 64 * (m7 + 2 ^ 20 * d7)))))))"
  by simp

lemma halves_val:
  fixes w0 w1 w2 w3 w4 w5 w6 w7 :: u64
  defines "w \<equiv> [w0, w1, w2, w3, w4, w5, w6, w7]"
  shows "limbs52 (lo52 w)" and "limbs52 (hi52 w)" and "val52 (hi52 w) < 2 ^ 252"
    and "val52 (lo52 w) + 2 ^ 260 * val52 (hi52 w) = unat w0 + 2 ^ 64 * (unat w1 + 2 ^ 64 * (unat w2 + 2 ^ 64 *
      (unat w3 + 2 ^ 64 * (unat w4 + 2 ^ 64 * (unat w5 + 2 ^ 64 * (unat w6 + 2 ^ 64 * unat w7))))))"
proof -
  have m: "unat (x AND MASK) < 2 ^ 52" for x by (simp add: unat_and_MASK)
  have top: "unat (drop_bit 20 w7) < 2 ^ 44" using unat_u64_less [of w7] by (simp add: unat_drop_bit)
  show "limbs52 (lo52 w)" using m by (simp add: limbs52_def lo52_def)
  show "limbs52 (hi52 w)" using m top by (simp add: limbs52_def hi52_def w_def)
  show "val52 (hi52 w) < 2 ^ 252"
    using m [of "drop_bit 4 w4"] m [of "drop_bit 56 w4 OR push_bit 8 w5"] m [of "drop_bit 44 w5 OR push_bit 20 w6"]
      m [of "drop_bit 32 w6 OR push_bit 32 w7"] top by (simp add: hi52_def w_def)
  have w: "w ! 0 = w0" "w ! 1 = w1" "w ! 2 = w2" "w ! 3 = w3" "w ! 4 = w4" "w ! 5 = w5" "w ! 6 = w6" "w ! 7 = w7"
    by (simp_all add: w_def)
  have g: "unat ((drop_bit 52 w0 OR push_bit 12 w1) AND MASK) = unat w0 div 2 ^ 52 + 2 ^ 12 * (unat w1 mod 2 ^ 40)"
    "unat ((drop_bit 40 w1 OR push_bit 24 w2) AND MASK) = unat w1 div 2 ^ 40 + 2 ^ 24 * (unat w2 mod 2 ^ 28)"
    "unat ((drop_bit 28 w2 OR push_bit 36 w3) AND MASK) = unat w2 div 2 ^ 28 + 2 ^ 36 * (unat w3 mod 2 ^ 16)"
    "unat ((drop_bit 16 w3 OR push_bit 48 w4) AND MASK) = unat w3 div 2 ^ 16 + 2 ^ 48 * (unat w4 mod 2 ^ 4)"
    "unat ((drop_bit 56 w4 OR push_bit 8 w5) AND MASK) = unat w4 div 2 ^ 56 + 2 ^ 8 * (unat w5 mod 2 ^ 44)"
    "unat ((drop_bit 44 w5 OR push_bit 20 w6) AND MASK) = unat w5 div 2 ^ 44 + 2 ^ 20 * (unat w6 mod 2 ^ 32)"
    "unat ((drop_bit 32 w6 OR push_bit 32 w7) AND MASK) = unat w6 div 2 ^ 32 + 2 ^ 32 * (unat w7 mod 2 ^ 20)"
    by (rule limb_glue2; simp)+
  have w4: "(unat w4 div 2 ^ 4) mod 2 ^ 52 + 2 ^ 52 * (unat w4 div 2 ^ 56) = unat w4 div 2 ^ 4"
  proof -
    have "unat w4 div 2 ^ 56 = unat w4 div 2 ^ 4 div 2 ^ 52"
      using div_mult2_eq [of "unat w4" "2 ^ 4" "2 ^ 52"] by simp
    then show ?thesis by (simp only: mod_div_nat)
  qed
  show "val52 (lo52 w) + 2 ^ 260 * val52 (hi52 w) = unat w0 + 2 ^ 64 * (unat w1 + 2 ^ 64 * (unat w2 + 2 ^ 64 *
      (unat w3 + 2 ^ 64 * (unat w4 + 2 ^ 64 * (unat w5 + 2 ^ 64 * (unat w6 + 2 ^ 64 * unat w7))))))"
    unfolding val52.simps lo52_def hi52_def w mult_0_right add_0_right unat_drop_bit [of 20] unat_and_MASK [of w0]
      unat_and_MASK [of "drop_bit 4 w4"] unat_drop_bit [of 4 w4] g
      halves_sum mod_div_nat w4 by (rule refl)
qed

lemma reduce_wide_val:
  assumes "length b = 64"
  shows "limbs52 (reduce_wide b)" and "val52 (reduce_wide b) = le_nat b mod group_order"
proof -
  define w where "w = [get_u64 b 0, get_u64 b 8, get_u64 b 16, get_u64 b 24, get_u64 b 32, get_u64 b 40, get_u64 b 48, get_u64 b 56]"
  note h = halves_val [of "get_u64 b 0" "get_u64 b 8" "get_u64 b 16" "get_u64 b 24" "get_u64 b 32" "get_u64 b 40"
      "get_u64 b 48" "get_u64 b 56", folded w_def]
  have eight: "[0..<8] = [0, 1, 2, 3, 4, 5, 6, 7::nat]" by (simp add: upt_rec)
  have rw: "reduce_wide b = add52 (mont_mul (hi52 w) RR52) (mont_mul (lo52 w) R52)"
    by (simp add: reduce_wide_def Let_def eight rd64_def lo52_def hi52_def w_def)
  have pos: "0 < group_order" by (simp add: group_order_def)
  have "val52 RR52 < group_order" "val52 R52 < group_order" unfolding montgomery_consts using pos by simp_all
  moreover have "val52 (hi52 w) < 2 ^ 260" "val52 (lo52 w) < 2 ^ 260" using h(3) val52_less [OF h(1)] by simp_all
  ultimately have small: "val52 (hi52 w) * val52 RR52 < 2 ^ 260 * group_order" "val52 (lo52 w) * val52 R52 < 2 ^ 260 * group_order"
    by (auto intro!: mult_strict_mono)
  note m1 = mont_mul_val [OF h(2) montgomery_consts(3) small(1)]
  note m2 = mont_mul_val [OF h(1) montgomery_consts(1) small(2)]
  note a = add52_val [OF m1(1) m2(1) m1(2) m2(2)]
  show "limbs52 (reduce_wide b)" unfolding rw by (rule a(1))
  have "(2 ^ 260 * val52 (mont_mul (hi52 w) RR52)) mod group_order = (2 ^ 260 * (2 ^ 260 * val52 (hi52 w))) mod group_order"
  proof -
    have "(val52 (hi52 w) * val52 RR52) mod group_order = (val52 (hi52 w) * 2 ^ 520) mod group_order"
      unfolding montgomery_consts by (rule mod_mult_right_eq)
    moreover have "val52 (hi52 w) * 2 ^ 520 = 2 ^ 260 * (2 ^ 260 * val52 (hi52 w))" by simp
    ultimately show ?thesis unfolding m1(3) by (simp only:)
  qed
  note c1 = cancel_unit [OF montgomery_consts(5) this]
  have "(2 ^ 260 * val52 (mont_mul (lo52 w) R52)) mod group_order = (2 ^ 260 * val52 (lo52 w)) mod group_order"
    unfolding m2(3) montgomery_consts by (metis mod_mult_right_eq mult.commute)
  note c2 = cancel_unit [OF montgomery_consts(5) this]
  have "val52 (reduce_wide b) = (2 ^ 260 * val52 (hi52 w) + val52 (lo52 w)) mod group_order"
    unfolding rw a(2) using c1 c2 by (metis mod_add_eq)
  also have "2 ^ 260 * val52 (hi52 w) + val52 (lo52 w) = le_nat b"
    using h(4) le_nat_words8 [OF assms] by simp
  finally show "val52 (reduce_wide b) = le_nat b mod group_order" .
qed

section \<open>Bytes of a scalar\<close>

lemma word_glue:
  fixes x y :: u64
  assumes "unat x < 2 ^ t" and "t + u = 64"
  shows "unat (x OR push_bit t y) = unat x + 2 ^ t * (unat y mod 2 ^ u)"
proof -
  have "unat (push_bit t y) = (unat y * 2 ^ t) mod 2 ^ 64"
    unfolding unsigned_push_bit_eq by (simp add: take_bit_eq_mod push_bit_eq_mult)
  also have "\<dots> = 2 ^ t * (unat y mod 2 ^ (64 - t))"
    using mod_glue [of 0 t 64 "unat y"] assms(2) by (simp add: mult.commute)
  also have "64 - t = u" using assms(2) by simp
  finally have "unat (push_bit t y) = push_bit t (unat y mod 2 ^ u)" by (simp add: push_bit_eq_mult mult.commute)
  then have "unat (x OR push_bit t y) = unat x + push_bit t (unat y mod 2 ^ u)"
    unfolding unsigned_or_eq by (simp only: or_push_nat [OF assms(1)])
  then show ?thesis by (simp add: push_bit_eq_mult mult.commute)
qed

lemma bytes_sum:
  fixes m0 m1 d1 m2 d2 m3 d3 m4 :: nat
  shows "(m0 + 2 ^ 52 * m1) + 2 ^ 64 * ((d1 + 2 ^ 40 * m2) + 2 ^ 64 * ((d2 + 2 ^ 28 * m3) + 2 ^ 64 * (d3 + 2 ^ 16 * m4))) =
    m0 + 2 ^ 52 * ((m1 + 2 ^ 12 * d1) + 2 ^ 52 * ((m2 + 2 ^ 24 * d2) + 2 ^ 52 * ((m3 + 2 ^ 36 * d3) + 2 ^ 52 * m4)))"
  by simp

lemma limbs_to_bytes_val:
  assumes "limbs52 l" and "val52 l < 2 ^ 256"
  shows "length (limbs_to_bytes l) = 32" and "le_nat (limbs_to_bytes l) = val52 l"
proof -
  from assms(1) obtain a0 a1 a2 a3 a4 where l: "l = [a0, a1, a2, a3, a4]"
    and la: "unat a0 < 2 ^ 52" "unat a1 < 2 ^ 52" "unat a2 < 2 ^ 52" "unat a3 < 2 ^ 52" "unat a4 < 2 ^ 52"
    by (rule limbs52_cases)
  show "length (limbs_to_bytes l) = 32" by (simp add: limbs_to_bytes_def l)
  have a4: "unat a4 mod 2 ^ 48 = unat a4" using assms(2) by (simp add: l)
  have g: "unat (a0 OR push_bit 52 a1) = unat a0 + 2 ^ 52 * (unat a1 mod 2 ^ 12)"
    "unat (drop_bit 12 a1 OR push_bit 40 a2) = unat a1 div 2 ^ 12 + 2 ^ 40 * (unat a2 mod 2 ^ 24)"
    "unat (drop_bit 24 a2 OR push_bit 28 a3) = unat a2 div 2 ^ 24 + 2 ^ 28 * (unat a3 mod 2 ^ 36)"
    "unat (drop_bit 36 a3 OR push_bit 16 a4) = unat a3 div 2 ^ 36 + 2 ^ 16 * (unat a4 mod 2 ^ 48)"
    unfolding unat_drop_bit [symmetric] by (rule word_glue; use la in \<open>simp add: unat_drop_bit\<close>)+
  have "le_nat (limbs_to_bytes l) = unat (a0 OR push_bit 52 a1) + 2 ^ 64 * (unat (drop_bit 12 a1 OR push_bit 40 a2) +
      2 ^ 64 * (unat (drop_bit 24 a2 OR push_bit 28 a3) + 2 ^ 64 * unat (drop_bit 36 a3 OR push_bit 16 a4)))"
    by (simp add: limbs_to_bytes_def l le_nat_append)
  also have "\<dots> = val52 l"
    unfolding g a4 bytes_sum mod_div_nat l val52.simps mult_0_right add_0_right by (rule refl)
  finally show "le_nat (limbs_to_bytes l) = val52 l" .
qed

end
