(* ===== verification/PropsCrypto.thy ===== *)
theory PropsCrypto
  imports XsScalar
begin

text \<open>
  Properties of \<open>programs/x402_settle/src/crypto.rs\<close> and \<open>instruction.rs\<close>: signature
  verification reduced to arithmetic modulo the group order, the hash, the Merkle tree of a batch,
  the voucher message and the wire formats.
\<close>

section \<open>Scalars and signatures\<close>

lemma length_sha512_ref: "length (sha512_ref m) = 64"
  by (simp add: sha512_ref_def Let_def length_concat comp_def sum_list_triv)

text \<open>
  C14. \<open>reduce_wide\<close> reduces a 64-byte little-endian integer modulo the group order, for every
  input: the Montgomery arithmetic on 52-bit limbs neither overflows nor leaves an unreduced
  result.
\<close>

theorem reduce_wide_mod:
  "length b = 64 \<Longrightarrow> limbs52 (reduce_wide b) \<and> val52 (reduce_wide b) = le_nat b mod group_order"
  using reduce_wide_val by blast

theorem reduce_wide_mod_witness:
  "limbs52 (reduce_wide (replicate 64 255)) \<and>
   val52 (reduce_wide (replicate 64 255)) = le_nat (replicate 64 255) mod group_order"
  using reduce_wide_mod [of "replicate 64 255"] by simp

lemma verify_scalar:
  fixes h :: bytes
  assumes "length h = 64"
  defines "nk \<equiv> limbs_to_bytes (neg52 (reduce_wide h))"
  shows "length nk = 32" and "le_nat nk < group_order" and "(le_nat nk + le_nat h) mod group_order = 0"
proof -
  note r = reduce_wide_val [OF assms(1)]
  have lt: "val52 (reduce_wide h) < group_order" unfolding r(2) by (simp add: group_order_def)
  note n = neg52_val [OF r(1) lt]
  have "val52 (neg52 (reduce_wide h)) < 2 ^ 256" using n(3) by (simp add: group_order_def)
  note b = limbs_to_bytes_val [OF n(1) this]
  show "length nk = 32" by (simp add: nk_def b(1))
  show "le_nat nk < group_order" using n(3) by (simp add: nk_def b(2))
  have "(le_nat nk + le_nat h) mod group_order = (le_nat nk + le_nat h mod group_order) mod group_order"
    by (simp add: mod_add_right_eq)
  also have "\<dots> = 0" using n(2) by (simp add: nk_def b(2) r(2))
  finally show "(le_nat nk + le_nat h) mod group_order = 0" .
qed

text \<open>
  C15. \<open>verify\<close> implements the ed25519 equation: a signature \<open>(R, s)\<close> is accepted exactly when
  \<open>s\<close> is reduced and the curve operation returns \<open>R\<close> for the scalar \<open>s\<close> on the base point and,
  on the key, the scalar that is the negative modulo the group order of SHA-512 of \<open>R\<close>, the key
  and the message.
\<close>

theorem verify_equation:
  assumes "length sig = 64"
  shows "verify rt pk msg sig \<longleftrightarrow> le_nat (slice sig 32 32) < group_order \<and>
    (\<exists>nk. length nk = 32 \<and> le_nat nk < group_order \<and>
      (le_nat nk + le_nat (sha512_ref (slice sig 0 32 @ pk @ msg))) mod group_order = 0 \<and>
      curve_multiscalar rt (slice sig 32 32 @ nk) (BASEPOINT @ pk) = Some (slice sig 0 32))"
proof -
  let ?h = "sha512_ref (slice sig 0 32 @ pk @ msg)"
  let ?nk = "limbs_to_bytes (neg52 (reduce_wide ?h))"
  note v = verify_scalar [OF length_sha512_ref, of "slice sig 0 32 @ pk @ msg"]
  have can: "is_canonical_scalar (slice sig 32 32) \<longleftrightarrow> le_nat (slice sig 32 32) < group_order"
    by (rule is_canonical_scalar_iff) (simp add: assms length_slice)
  have uniq: "nk = ?nk" if "length nk = 32" "le_nat nk < group_order" "(le_nat nk + le_nat ?h) mod group_order = 0" for nk
  proof -
    have "(le_nat nk + le_nat ?h) mod group_order = (le_nat ?nk + le_nat ?h) mod group_order" using that(3) v(3) by simp
    then have "le_nat nk mod group_order = le_nat ?nk mod group_order" by (simp add: nat_mod_eq_iff)
    then have "le_nat nk = le_nat ?nk" using that(2) v(2) by simp
    then show ?thesis using le_bytes_le_nat [of nk] le_bytes_le_nat [of ?nk] that(1) v(1) by simp
  qed
  have "verify rt pk msg sig \<longleftrightarrow> is_canonical_scalar (slice sig 32 32) \<and>
      curve_multiscalar rt (slice sig 32 32 @ ?nk) (BASEPOINT @ pk) = Some (slice sig 0 32)"
    by (auto simp: verify_def Let_def double_mul_def sha512_blocks split: option.splits)
  with can uniq v show ?thesis by metis
qed

theorem verify_equation_witness:
  "verify ref_runtime (replicate 32 7) [1, 2, 3] (replicate 32 5 @ replicate 32 0) \<longleftrightarrow>
    le_nat (slice (replicate 32 5 @ replicate 32 0) 32 32) < group_order \<and>
    (\<exists>nk. length nk = 32 \<and> le_nat nk < group_order \<and>
      (le_nat nk + le_nat (sha512_ref (slice (replicate 32 5 @ replicate 32 0) 0 32 @ replicate 32 7 @ [1, 2, 3])))
        mod group_order = 0 \<and>
      curve_multiscalar ref_runtime (slice (replicate 32 5 @ replicate 32 0) 32 32 @ nk) (BASEPOINT @ replicate 32 7) =
        Some (slice (replicate 32 5 @ replicate 32 0) 0 32))"
  by (rule verify_equation) simp

end
