(* ===== verification/PropsWire.thy ===== *)
theory PropsWire
  imports PropsCrypto XsWire
begin

text \<open>
  Properties of the data formats of \<open>x402_settle\<close>: the streamed hash and the Merkle tree of a
  batch, the signed message and the wire entries, account records, mints, keys and error codes.
\<close>

section \<open>Hash and Merkle tree\<close>

text \<open>
  C17. The streaming SHA-512, which feeds the parts through one block buffer, is the block-wise
  hash of their concatenation, for every list of parts.
\<close>

theorem sha512_streaming: "sha512 parts = sha512_ref (concat parts)"
  by (rule sha512_blocks)

text \<open>
  C16. A chunk that is proved against the root of a tree of \<open>f\<close> consists of the leaves of \<open>f\<close> at
  its place, padding included, unless two different pairs hashed in the chunk, the proof and the tree
  have the same hash.
\<close>

theorem chunk_binds_leaves:
  assumes "length leaves \<le> 2 ^ h" and "h \<le> MAX_CHUNK_LOG" and "ci < 2 ^ length pf" and "i < 2 ^ h"
    and "fold_proof rt (subtree_root rt leaves h) ci pf = merkle_root rt (length pf + h) f"
    and inj: "nodes_distinct rt (tree_inputs rt h (padded leaves) \<union> fold_inputs rt (subtree_root rt leaves h) ci pf \<union>
      tree_inputs rt (length pf + h) f)"
  shows "padded leaves i = f (ci * 2 ^ h + i)"
proof -
  let ?g = "\<lambda>c. merkle_root rt h (\<lambda>i. f (c * 2 ^ h + i))"
  have "fold_proof rt (subtree_root rt leaves h) ci pf = merkle_root rt (length pf) ?g"
    by (simp add: assms(5) merkle_root_split)
  also have "\<dots> = merkle_node rt ?g (length pf) (ci div 2 ^ length pf)"
    by (rule merkle_node_top [symmetric]) (rule assms(3))
  finally have path: "fold_proof rt (subtree_root rt leaves h) ci pf = merkle_node rt ?g (length pf) (ci div 2 ^ length pf)" .
  have "subtree_root rt leaves h = ?g ci"
    by (rule fold_proof_unique [OF inj path]) (use path_inputs [OF assms(3)] in \<open>auto simp: merkle_node_above\<close>)
  then have "merkle_root rt h (padded leaves) = merkle_root rt h (\<lambda>i. f (ci * 2 ^ h + i))"
    by (simp add: subtree_root_correct [OF assms(1,2)])
  from merkle_root_inj [OF inj _ _ this assms(4)] tree_inputs_subtree [OF assms(3), of rt h f] show ?thesis by blast
qed

theorem chunk_binds_leaves_witness:
  "padded [[2]] 0 = (\<lambda>i. [of_nat i + 1]) (1 * 2 ^ 0 + 0)"
proof -
  let ?f = "\<lambda>i. [of_nat i + 1 :: u8]"
  have r: "subtree_root ref_runtime [[2]] 0 = [2]" by (subst subtree_root_correct) (simp_all add: padded_def)
  have p: "fold_proof ref_runtime (subtree_root ref_runtime [[2]] 0) 1 [[1]] = merkle_root ref_runtime (length [[1 :: u8]] + 0) ?f"
    by (simp add: r fold_proof_def)
  have "tree_inputs ref_runtime 0 g = {}" "tree_inputs ref_runtime (length [[1 :: u8]] + 0) ?f = {([1], [2])}"
    "fold_inputs ref_runtime (subtree_root ref_runtime [[2]] 0) 1 [[1]] = {([1], [2])}" for g
    unfolding r by (auto simp: tree_inputs_def fold_inputs_def fold_proof_def merkle_node_def)
  then have "nodes_distinct ref_runtime (tree_inputs ref_runtime 0 (padded [[2]]) \<union>
      fold_inputs ref_runtime (subtree_root ref_runtime [[2]] 0) 1 [[1]] \<union> tree_inputs ref_runtime (length [[1 :: u8]] + 0) ?f)"
    by (simp add: nodes_distinct_def)
  from chunk_binds_leaves [OF _ _ _ _ p this, of 0] show ?thesis by simp
qed

text \<open>
  The depth of the tree over the chunks is the logarithm rounded up, and for every number of
  chunks a batch can have it is at most eight, the length of the proof buffer of \<open>stage_chunk\<close>.
\<close>

lemma upper_depth_log:
  assumes "n \<le> MAX_CHUNKS"
  shows "upper_depth n \<le> 8 \<and> n \<le> 2 ^ upper_depth n \<and> \<not> (\<exists>e. e < upper_depth n \<and> n \<le> 2 ^ e)"
proof -
  have s: "n \<le> 2 ^ upper_depth n" "e < upper_depth n \<Longrightarrow> 2 ^ e < n" for e
    using upper_depth_from_spec [of 0 n] by (simp_all add: upper_depth_def)
  then have "\<not> 8 < upper_depth n" using s(2) [of 8] assms by auto
  moreover have "\<not> (\<exists>e. e < upper_depth n \<and> n \<le> 2 ^ e)" using s(2) by fastforce
  ultimately show ?thesis using s(1) by simp
qed

section \<open>Signed message and wire entries\<close>

lemma slices_join: "length b = n \<Longrightarrow> slice b 0 n = b"
  by (simp add: slice_def)

lemma voucher_wire_iff:
  assumes "length b = VOUCHER_WIRE_LEN"
  shows "voucher_decode b = Inr v \<longleftrightarrow> voucher_wf v \<and> b = voucher_encode v"
proof
  assume d: "voucher_decode b = Inr v"
  have l: "length b = 116" using assms by simp
  from d have v: "v = \<lparr>wv_escrow_ix = b ! 0, wv_pair_ix = b ! 1, wv_book_ix = b ! 2, wv_slot = b ! 3,
        wv_cumulative = get_u64 b 4, wv_expiry_slot = get_u64 b 12, wv_quote_hash = slice b 20 32, wv_sig = slice b 52 64\<rparr>"
    using assms by (simp add: voucher_decode_def)
  have four: "[b ! 0, b ! 1, b ! 2, b ! 3] = slice b 0 4"
    by (rule nth_equalityI) (use l in \<open>auto simp: slice_def less_Suc_eq numeral_eq_Suc\<close>)
  have "voucher_encode v = slice b 0 4 @ slice b 4 8 @ slice b 12 8 @ slice b 20 32 @ slice b 52 64"
    using l by (simp add: v voucher_encode_def u64_le_get_u64 four [symmetric])
  also have "\<dots> = slice b 0 116"
    using slice_join [of b 20 32 64] slice_join [of b 12 8 96] slice_join [of b 4 8 104] slice_join [of b 0 4 112] by simp
  finally have "voucher_encode v = b" using slices_join [OF l] by simp
  with l show "voucher_wf v \<and> b = voucher_encode v" by (simp add: voucher_wf_def v length_slice)
next
  assume "voucher_wf v \<and> b = voucher_encode v"
  then show "voucher_decode b = Inr v" using voucher_decode_encode [of v "[]"] by simp
qed

lemma close_wire_iff:
  assumes "length b = CLOSE_WIRE_LEN"
  shows "close_decode b = Inr v \<longleftrightarrow> close_wf v \<and> b = close_encode v"
proof
  assume d: "close_decode b = Inr v"
  have l: "length b = 115" using assms by simp
  from d have v: "v = \<lparr>wc_channel_ix = b ! 0, wc_book_ix = b ! 1, wc_slot = b ! 2,
        wc_cumulative = get_u64 b 3, wc_expiry_slot = get_u64 b 11, wc_quote_hash = slice b 19 32, wc_sig = slice b 51 64\<rparr>"
    using assms by (simp add: close_decode_def)
  have three: "[b ! 0, b ! 1, b ! 2] = slice b 0 3"
    by (rule nth_equalityI) (use l in \<open>auto simp: slice_def less_Suc_eq numeral_eq_Suc\<close>)
  have "close_encode v = slice b 0 3 @ slice b 3 8 @ slice b 11 8 @ slice b 19 32 @ slice b 51 64"
    using l by (simp add: v close_encode_def u64_le_get_u64 three [symmetric])
  also have "\<dots> = slice b 0 115"
    using slice_join [of b 19 32 64] slice_join [of b 11 8 96] slice_join [of b 3 8 104] slice_join [of b 0 3 112] by simp
  finally have "close_encode v = b" using slices_join [OF l] by simp
  with l show "close_wf v \<and> b = close_encode v" by (simp add: close_wf_def v length_slice)
next
  assume "close_wf v \<and> b = close_encode v"
  then show "close_decode b = Inr v" using close_decode_encode [of v "[]"] by simp
qed

text \<open>
  C19. Voucher and close entries of the wire format, when they have the right length, decode to a
  value exactly when they are its encoding.
\<close>

theorem wire_codecs:
  assumes "length b = VOUCHER_WIRE_LEN" and "length e = CLOSE_WIRE_LEN"
  shows "(voucher_decode b = Inr v \<longleftrightarrow> voucher_wf v \<and> b = voucher_encode v) \<and>
    (close_decode e = Inr c \<longleftrightarrow> close_wf c \<and> e = close_encode c)"
  using voucher_wire_iff [OF assms(1)] close_wire_iff [OF assms(2)] by blast

theorem wire_codecs_witness:
  "\<exists>v c. replicate VOUCHER_WIRE_LEN 0 = voucher_encode v \<and> replicate CLOSE_WIRE_LEN 0 = close_encode c"
proof -
  obtain v where v: "voucher_decode (replicate VOUCHER_WIRE_LEN 0) = Inr v" by (simp add: voucher_decode_def)
  obtain c where c: "close_decode (replicate CLOSE_WIRE_LEN 0) = Inr c" by (simp add: close_decode_def)
  have "length (replicate VOUCHER_WIRE_LEN (0 :: u8)) = VOUCHER_WIRE_LEN" "length (replicate CLOSE_WIRE_LEN (0 :: u8)) = CLOSE_WIRE_LEN"
    by simp_all
  from wire_codecs [OF this, of v c] v c show ?thesis by blast
qed

section \<open>Mints, keys and errors\<close>

text \<open>
  C18. A mint is accepted exactly when it is an initialised mint of the token program and either has
  no extensions or is a Token-2022 mint all of whose extensions, at most 32, are on the allowlist.
\<close>

theorem mint_allowlist:
  assumes "d = data (s (key mint))" and "length d < 2 ^ 60"
  shows "check_mint s mint tp = Inr decimals \<longleftrightarrow>
    owner (s (key mint)) = tp \<and> MINT_BASE_LEN \<le> length d \<and> d ! 45 = 1 \<and> decimals = d ! 44 \<and>
    (length d = MINT_BASE_LEN \<or>
     tp = TOKEN_2022_ID \<and> ACCOUNT_LEN < length d \<and> d ! ACCOUNT_LEN = 1 \<and>
       set (tlv_entries d (ACCOUNT_LEN + 1)) \<subseteq> set ALLOWED_MINT_EXTENSIONS \<and>
       length (tlv_entries d (ACCOUNT_LEN + 1)) \<le> MAX_MINT_EXTENSIONS)"
proof -
  let ?t = "tlv_entries d (ACCOUNT_LEN + 1)"
  have "mint_extensions d (ACCOUNT_LEN + 1) 0 = Inr () \<longleftrightarrow>
      set ?t \<subseteq> set ALLOWED_MINT_EXTENSIONS \<and> length ?t \<le> MAX_MINT_EXTENSIONS"
    using mint_extensions_allowed [of d "ACCOUNT_LEN + 1" 0] mint_extensions_small_len [OF assms(2), of 0 "ACCOUNT_LEN + 1"] by auto
  then show ?thesis
    by (cases "mint_extensions d (ACCOUNT_LEN + 1) 0") (auto simp: check_mint_def assms(1) [symmetric] Let_def)
qed

theorem mint_allowlist_witness:
  "check_mint (\<lambda>k. \<lparr>lamports = 1, owner = TOKEN_ID, data = (replicate MINT_BASE_LEN 0)[44 := 6, 45 := 1]\<rparr>)
     \<lparr>key = [], is_signer = False, is_writable = False\<rparr> TOKEN_ID = Inr 6"
  by (subst mint_allowlist [OF refl]) simp_all

text \<open>
  A key passes the strict check exactly when its y coordinate is below the field prime and is
  not the y coordinate of a point of small order.
\<close>

lemma strict_key:
  assumes "length pk = 32" and "y = pk[31 := pk ! 31 AND 0x7f]"
  shows "is_strict_pubkey pk \<longleftrightarrow> le_nat y < 2 ^ 255 - 19 \<and> y \<notin> set SMALL_ORDER_Y"
proof -
  have "words_below (map (\<lambda>i. (rd64 y (8 * i), P64 ! i)) (rev [0..<4])) = words_below (zip [get_u64 y 24, get_u64 y 16, get_u64 y 8, get_u64 y 0] (rev P64))"
    by (simp add: rev_four rd64_def P64_def)
  also have "\<dots> \<longleftrightarrow> le_nat y < be_val (rev P64)"
    unfolding le_nat_words [OF trans [OF arg_cong [OF assms(2), of length] trans [OF length_list_update assms(1)]]]
    by (rule words_below_val) (simp add: P64_def)
  also have "be_val (rev P64) = 2 ^ 255 - 19" by (simp add: P64_def)
  finally show ?thesis
    unfolding is_strict_pubkey_def Let_def assms(2) [symmetric] by (auto simp: list_ex_iff)
qed

text \<open>Error codes of different errors differ, and each lies in the program's own range.\<close>

theorem error_codes: "(code e = code e') = (e = e') \<and> ERROR_BASE < code e \<and> code e \<le> ERROR_BASE + 36"
proof -
  have "code e = code e' \<Longrightarrow> e = e'" by (cases e; cases e') (simp_all add: code_def ERROR_BASE_def)
  moreover have "ERROR_BASE < code e \<and> code e \<le> ERROR_BASE + 36" by (cases e) (simp_all add: code_def ERROR_BASE_def)
  ultimately show ?thesis by blast
qed

section \<open>Account records\<close>

lemma wr_all_fails: "wr_all ws d = Inl Panic \<or> (\<exists>d'. wr_all ws d = Inr d')"
proof (induction ws arbitrary: d)
  case (Cons w ws)
  obtain off n bs where w: "w = (off, n, bs)" by (cases w)
  show ?case
    using Cons.IH [of "splice d off bs"] by (simp add: w bindE_def wr_all_def wr_slice_def)
qed simp

lemma pack_unpack:
  assumes "pack = Inl Panic \<or> (\<exists>d'. pack = Inr d')" and "(\<exists>d'. pack = Inr d') \<longleftrightarrow> ok"
    and "\<And>d'. pack = Inr d' \<Longrightarrow> unpack d' = Inr x"
  shows "bindE pack unpack = (if ok then Inr x else Inl Panic)"
  using assms by (auto simp: bindE_def)

text \<open>
  Packing a ledger, channel or batch header and unpacking it again returns the record when its
  keys have 32 bytes and the account is long enough, and panics otherwise.
\<close>

lemma record_codecs:
  "bindE (ledger_pack l d) ledger_unpack = (if ledger_wf l \<and> LEDGER_LEN \<le> length d then Inr l else Inl Panic) \<and>
   bindE (channel_pack c d) channel_unpack = (if channel_wf c \<and> CHANNEL_LEN \<le> length d then Inr c else Inl Panic) \<and>
   bindE (batch_pack h d) batch_unpack = (if batch_wf h \<and> BATCH_HDR \<le> length d then Inr h else Inl Panic)"
proof (intro conjI pack_unpack)
  show "ledger_pack l d = Inl Panic \<or> (\<exists>d'. ledger_pack l d = Inr d')" "channel_pack c d = Inl Panic \<or> (\<exists>d'. channel_pack c d = Inr d')"
    "batch_pack h d = Inl Panic \<or> (\<exists>d'. batch_pack h d = Inr d')"
    by (simp_all only: ledger_pack_def channel_pack_def batch_pack_def wr_all_fails)
  show "ledger_unpack d' = Inr l" if "ledger_pack l d = Inr d'" for d'
    using ledger_codec.pack_of [OF that] ledger_codec.pack_length [OF that] ledger_codec.pack_wf [OF that] by (simp add: ledger_unpack_def)
  show "channel_unpack d' = Inr c" if "channel_pack c d = Inr d'" for d'
    using channel_codec.pack_of [OF that] channel_codec.pack_length [OF that] channel_codec.pack_wf [OF that] by (simp add: channel_unpack_def)
  show "batch_unpack d' = Inr h" if "batch_pack h d = Inr d'" for d'
    using batch_codec.pack_of [OF that] batch_codec.pack_length [OF that] batch_codec.pack_wf [OF that] by (simp add: batch_unpack_def)
qed (rule ledger_codec.pack_iff channel_codec.pack_iff batch_codec.pack_iff)+

end
