(* ===== verification/ReState.thy ===== *)
theory ReState
  imports Codec
begin

text \<open>
  The data of the program \<open>x402_refund_escrow\<close>: error codes (\<open>programs/x402_refund_escrow/src/error.rs\<close>),
  the packed escrow (\<open>state.rs\<close>), the settlement receipt a seller signs (\<open>receipt.rs\<close>), the
  parser of the ed25519 precompile's instruction data (\<open>ed25519.rs\<close>) and the instruction set
  (\<open>instruction.rs\<close>). Timestamps are \<open>i64\<close>: 64-bit words read as signed.
\<close>

type_synonym i64 = "64 word"

section \<open>error.rs\<close>

datatype escrow_error =
    ReInvalidInstruction | InvalidEscrowAccount | StateVersionMismatch | InvalidEscrowPda
  | MissingSignature | MissingSystemProgram | NotOpen | NotSettled | NotBuyer | NotSeller
  | DeadlinePassed | DeadlineNotReached | DisputeWindowOpen | InvalidReceiptSignature
  | ReceiptMismatch | NotEquivocation | ArithmeticOverflow | ZeroAmount | InsufficientBalance

fun re_code :: "escrow_error \<Rightarrow> u32" where
  "re_code ReInvalidInstruction = 0"
| "re_code InvalidEscrowAccount = 1"
| "re_code StateVersionMismatch = 2"
| "re_code InvalidEscrowPda = 3"
| "re_code MissingSignature = 4"
| "re_code MissingSystemProgram = 5"
| "re_code NotOpen = 6"
| "re_code NotSettled = 7"
| "re_code NotBuyer = 8"
| "re_code NotSeller = 9"
| "re_code DeadlinePassed = 10"
| "re_code DeadlineNotReached = 11"
| "re_code DisputeWindowOpen = 12"
| "re_code InvalidReceiptSignature = 13"
| "re_code ReceiptMismatch = 14"
| "re_code NotEquivocation = 15"
| "re_code ArithmeticOverflow = 16"
| "re_code ZeroAmount = 17"
| "re_code InsufficientBalance = 18"

definition re_err :: "escrow_error \<Rightarrow> perr" where
  "re_err e = Custom (re_code e)"

abbreviation re_fail :: "escrow_error \<Rightarrow> 'a res" where
  "re_fail e \<equiv> Inl (re_err e)"

section \<open>state.rs\<close>

definition ESCROW_STATE_VERSION :: u8 where [simp]: "ESCROW_STATE_VERSION = 1"

definition RE_OPEN :: u8 where [simp]: "RE_OPEN = 0"
definition RE_SETTLED_SUCCESS :: u8 where [simp]: "RE_SETTLED_SUCCESS = 1"
definition RE_REFUNDED :: u8 where [simp]: "RE_REFUNDED = 2"
definition RE_SLASHED :: u8 where [simp]: "RE_SLASHED = 3"

definition ESCROW_SEED_PREFIX :: bytes where
  "ESCROW_SEED_PREFIX = map of_char ''x402-escrow''"

definition ESCROW_ACCOUNT_LEN :: nat where
  [simp]: "ESCROW_ACCOUNT_LEN = 1 + 1 + 1 + 32 + 32 + 8 + 8 + 32 + 8 + 8 + 32 + 8 + 8"

record re_escrow =
  re_version :: u8
  re_bump :: u8
  re_status :: u8
  re_buyer :: key
  re_seller :: key
  re_amount :: u64
  re_bond :: u64
  re_payment_commitment :: bytes
  re_deadline :: i64
  re_dispute_deadline :: i64
  re_response_hash :: bytes
  re_created_at :: i64
  re_dispute_window :: i64

definition re_of :: "bytes \<Rightarrow> re_escrow" where
  "re_of d = \<lparr>re_version = d ! 0, re_bump = d ! 1, re_status = d ! 2, re_buyer = slice d 3 32,
     re_seller = slice d 35 32, re_amount = get_u64 d 67, re_bond = get_u64 d 75,
     re_payment_commitment = slice d 83 32, re_deadline = get_u64 d 115,
     re_dispute_deadline = get_u64 d 123, re_response_hash = slice d 131 32,
     re_created_at = get_u64 d 163, re_dispute_window = get_u64 d 171\<rparr>"

definition re_unpack :: "bytes \<Rightarrow> re_escrow res" where
  "re_unpack d =
     (if length d < ESCROW_ACCOUNT_LEN then Inl InvalidAccountData
      else if d ! 0 \<noteq> ESCROW_STATE_VERSION then re_fail StateVersionMismatch
      else Inr (re_of d))"

text \<open>\<open>pack_into_slice\<close> zeroes the record first and then writes every field.\<close>

definition re_fields :: "re_escrow \<Rightarrow> (nat \<times> nat \<times> bytes) list" where
  "re_fields e =
     [(0, 1, [re_version e]), (1, 1, [re_bump e]), (2, 1, [re_status e]), (3, 32, re_buyer e),
      (35, 32, re_seller e), (67, 8, u64_le (re_amount e)), (75, 8, u64_le (re_bond e)),
      (83, 32, re_payment_commitment e), (115, 8, u64_le (re_deadline e)),
      (123, 8, u64_le (re_dispute_deadline e)), (131, 32, re_response_hash e),
      (163, 8, u64_le (re_created_at e)), (171, 8, u64_le (re_dispute_window e))]"

definition re_pack :: "re_escrow \<Rightarrow> bytes \<Rightarrow> bytes res" where
  "re_pack e d =
     bindE (wr_slice d 0 ESCROW_ACCOUNT_LEN (replicate ESCROW_ACCOUNT_LEN 0)) (wr_all (re_fields e))"

section \<open>receipt.rs\<close>

definition RECEIPT_DOMAIN :: bytes where "RECEIPT_DOMAIN = map of_char ''NULLX402RCPT1''"
definition STATUS_FAIL :: u8 where [simp]: "STATUS_FAIL = 0"
definition STATUS_SUCCESS :: u8 where [simp]: "STATUS_SUCCESS = 1"
definition RECEIPT_MSG_LEN :: nat where [simp]: "RECEIPT_MSG_LEN = 13 + 32 + 1 + 32 + 8"

record receipt =
  rc_payment_commitment :: bytes
  rc_status :: u8
  rc_response_hash :: bytes
  rc_deadline :: i64

definition receipt_encode :: "receipt \<Rightarrow> bytes" where
  "receipt_encode r =
     RECEIPT_DOMAIN @ rc_payment_commitment r @ [rc_status r] @ rc_response_hash r @ u64_le (rc_deadline r)"

definition receipt_decode :: "bytes \<Rightarrow> receipt res" where
  "receipt_decode msg =
     (if length msg \<noteq> RECEIPT_MSG_LEN \<or> slice msg 0 13 \<noteq> RECEIPT_DOMAIN then re_fail ReceiptMismatch
      else let status = msg ! 45 in
        if status \<noteq> STATUS_FAIL \<and> status \<noteq> STATUS_SUCCESS then re_fail ReceiptMismatch
        else Inr \<lparr>rc_payment_commitment = slice msg 13 32, rc_status = status,
                  rc_response_hash = slice msg 46 32, rc_deadline = get_u64 msg 78\<rparr>)"

definition receipts_conflict :: "receipt \<Rightarrow> receipt \<Rightarrow> bool" where
  "receipts_conflict a b =
     (if rc_payment_commitment a \<noteq> rc_payment_commitment b then False
      else if rc_status a \<noteq> rc_status b then True
      else rc_status a = STATUS_SUCCESS \<and> rc_response_hash a \<noteq> rc_response_hash b)"

section \<open>ed25519.rs\<close>

definition OFFSETS_START :: nat where [simp]: "OFFSETS_START = 2"
definition OFFSETS_LEN :: nat where [simp]: "OFFSETS_LEN = 14"
definition U16_MAX :: u16 where [simp]: "U16_MAX = 0xffff"

text \<open>
  Offsets and sizes are 16-bit, so the saturating additions of the source are exact on a 64-bit
  \<open>usize\<close>.
\<close>

definition extract_pubkey_and_message :: "bytes \<Rightarrow> nat \<Rightarrow> (key \<times> bytes) res" where
  "extract_pubkey_and_message d sig_index =
     (if length d < OFFSETS_START then re_fail InvalidReceiptSignature
      else if unat (d ! 0) \<le> sig_index then re_fail InvalidReceiptSignature
      else let base = OFFSETS_START + sig_index * OFFSETS_LEN in
        if length d < base + OFFSETS_LEN then re_fail InvalidReceiptSignature
        else let sig_ii = get_u16 d (base + 2);
                 pk_off = unat (get_u16 d (base + 4));
                 pk_ii = get_u16 d (base + 6);
                 msg_off = unat (get_u16 d (base + 8));
                 msg_sz = unat (get_u16 d (base + 10));
                 msg_ii = get_u16 d (base + 12) in
          if sig_ii \<noteq> U16_MAX \<or> pk_ii \<noteq> U16_MAX \<or> msg_ii \<noteq> U16_MAX then re_fail InvalidReceiptSignature
          else if pk_off + 32 > length d then re_fail InvalidReceiptSignature
          else if msg_off + msg_sz > length d then re_fail InvalidReceiptSignature
          else Inr (slice d pk_off 32, slice d msg_off msg_sz))"

section \<open>instruction.rs\<close>

datatype escrow_instruction =
    OpenEscrow key u64 bytes i64 i64
  | PostBond u64
  | SettleSuccess u8
  | RefundOnTimeout
  | ProveEquivocation u8 u8
  | CloseAfterDispute

definition read_u64 :: "bytes \<Rightarrow> u64 res" where
  "read_u64 b = (if length b \<noteq> 8 then re_fail ReInvalidInstruction else Inr (of_nat (le_nat b)))"

definition read_i64 :: "bytes \<Rightarrow> i64 res" where
  "read_i64 b = (if length b \<noteq> 8 then re_fail ReInvalidInstruction else Inr (of_nat (le_nat b)))"

definition re_ix_unpack :: "bytes \<Rightarrow> escrow_instruction res" where
  "re_ix_unpack d =
     (case d of [] \<Rightarrow> re_fail ReInvalidInstruction
      | tag # rest \<Rightarrow>
          if tag = 0 then
            if length rest \<noteq> 32 + 8 + 32 + 8 + 8 then re_fail ReInvalidInstruction
            else
              bindE (read_u64 (slice rest 32 8)) (\<lambda>amount.
              bindE (read_i64 (slice rest 72 8)) (\<lambda>deadline.
              bindE (read_i64 (slice rest 80 8)) (\<lambda>window.
              Inr (OpenEscrow (slice rest 0 32) amount (slice rest 40 32) deadline window))))
          else if tag = 1 then
            if length rest \<noteq> 8 then re_fail ReInvalidInstruction
            else bindE (read_u64 rest) (\<lambda>amount. Inr (PostBond amount))
          else if tag = 2 then
            if length rest \<noteq> 1 then re_fail ReInvalidInstruction else Inr (SettleSuccess (rest ! 0))
          else if tag = 3 then
            if rest \<noteq> [] then re_fail ReInvalidInstruction else Inr RefundOnTimeout
          else if tag = 4 then
            if length rest \<noteq> 2 then re_fail ReInvalidInstruction
            else Inr (ProveEquivocation (rest ! 0) (rest ! 1))
          else if tag = 5 then
            if rest \<noteq> [] then re_fail ReInvalidInstruction else Inr CloseAfterDispute
          else re_fail ReInvalidInstruction)"

fun re_ix_pack :: "escrow_instruction \<Rightarrow> bytes" where
  "re_ix_pack (OpenEscrow seller amount pc deadline window) =
     0 # seller @ u64_le amount @ pc @ u64_le deadline @ u64_le window"
| "re_ix_pack (PostBond amount) = 1 # u64_le amount"
| "re_ix_pack (SettleSuccess i) = [2, i]"
| "re_ix_pack RefundOnTimeout = [3]"
| "re_ix_pack (ProveEquivocation a b) = [4, a, b]"
| "re_ix_pack CloseAfterDispute = [5]"

section \<open>The packed escrow\<close>

definition re_wf :: "re_escrow \<Rightarrow> bool" where
  "re_wf e \<longleftrightarrow> length (re_buyer e) = 32 \<and> length (re_seller e) = 32 \<and>
     length (re_payment_commitment e) = 32 \<and> length (re_response_hash e) = 32"

interpretation re_codec: packed_record re_pack re_of re_wf ESCROW_ACCOUNT_LEN
proof
  fix x d d'
  assume p: "re_pack x d = Inr d'"
  define z where "z = splice d 0 (replicate 179 0)"
  have z: "length z = length d" "\<And>off n. 179 \<le> off \<Longrightarrow> slice z off n = slice d off n"
    by (simp_all add: z_def slice_splice_other)
  from p have len: "179 \<le> length d" and w: "wr_all (re_fields x) z = Inr d'"
    by (simp_all add: re_pack_def z_def)
  have dj: "disjoint_writes (re_fields x)" by (simp add: re_fields_def write_simps)
  show "length d' = length d" using wr_all_length [OF w] z(1) by simp
  show "re_of d' = x"
    by (rule re_escrow.equality; simp add: re_of_def;
        (rule wr_all_nth [OF w dj] wr_all_u64 [OF w dj] wr_all_read [OF w dj]); simp add: re_fields_def)
  show "re_wf x \<and> ESCROW_ACCOUNT_LEN \<le> length d"
    using wr_all_range [OF w] len by (simp add: re_wf_def re_fields_def)
  show "slice d' off n = slice d off n" if "ESCROW_ACCOUNT_LEN \<le> off" for off n
  proof -
    have "slice d' off n = slice z off n"
      by (rule wr_all_other [OF w]) (use that in \<open>simp add: re_fields_def apart_def\<close>)
    with z(2) that show ?thesis by simp
  qed
next
  show "\<exists>d'. re_pack x d = Inr d'" if "re_wf x" "ESCROW_ACCOUNT_LEN \<le> length d" for x d
  proof -
    have "\<exists>d'. wr_all (re_fields x) (splice d 0 (replicate 179 0)) = Inr d'"
      by (rule wr_all_total) (use that in \<open>simp add: re_fields_def re_wf_def\<close>)
    with that show ?thesis by (simp add: re_pack_def wr_slice_def)
  qed
  show "re_wf (re_of d)" if "ESCROW_ACCOUNT_LEN \<le> length d" for d
    using that by (simp add: re_wf_def re_of_def length_slice)
qed

end
