(* ===== verification/ReProcess.thy ===== *)
theory ReProcess
  imports ReState
begin

text \<open>
  The handlers of \<open>x402_refund_escrow\<close> (\<open>programs/x402_refund_escrow/src/processor.rs\<close>), whole and
  in the order of the source. Lamports move inside the explicit store, so an account passed twice
  behaves as it does on the cluster. The instructions sysvar is \<open>load_instruction_at\<close> of the
  runtime.
\<close>

definition ED25519_ID :: key where
  "ED25519_ID =
    [3, 125, 70, 214, 124, 147, 251, 190, 18, 249, 66, 143, 131, 141, 64, 255,
     5, 112, 116, 73, 39, 244, 138, 100, 252, 202, 112, 68, 128, 0, 0, 0]"

definition INSTRUCTIONS_ID :: key where
  "INSTRUCTIONS_ID =
    [6, 167, 213, 23, 24, 123, 209, 102, 53, 218, 212, 4, 85, 253, 194, 192,
     193, 36, 198, 143, 33, 86, 117, 165, 219, 186, 203, 95, 8, 0, 0, 0]"

definition checked_add_i64 :: "i64 \<Rightarrow> i64 \<Rightarrow> i64 option" where
  "checked_add_i64 a b =
     (let r = sint a + sint b in if - (2 ^ 63) \<le> r \<and> r < 2 ^ 63 then Some (a + b) else None)"

section \<open>Helpers\<close>

definition re_derive :: "runtime \<Rightarrow> key \<Rightarrow> bytes \<Rightarrow> key \<times> u8" where
  "re_derive rt pid pc = find_program_address rt [ESCROW_SEED_PREFIX, pc] pid"

definition load_escrow :: "runtime \<Rightarrow> key \<Rightarrow> account_info \<Rightarrow> store \<Rightarrow> re_escrow res" where
  "load_escrow rt pid escrow s =
     (if owner (s (key escrow)) \<noteq> pid then re_fail InvalidEscrowAccount
      else
        bindE (re_unpack (data (s (key escrow)))) (\<lambda>state.
        bindE (ok_or (create_program_address rt
                 [ESCROW_SEED_PREFIX, re_payment_commitment state, [re_bump state]] pid)
               (re_err InvalidEscrowPda)) (\<lambda>expected.
        if expected \<noteq> key escrow then re_fail InvalidEscrowPda else Inr state)))"

definition write_escrow :: "account_info \<Rightarrow> re_escrow \<Rightarrow> store \<Rightarrow> store res" where
  "write_escrow escrow state s =
     bindE (re_pack state (data (s (key escrow)))) (\<lambda>d. Inr (set_data s (key escrow) d))"

definition re_pay_out :: "runtime \<Rightarrow> account_info \<Rightarrow> account_info \<Rightarrow> u64 \<Rightarrow> store \<Rightarrow> store res" where
  "re_pay_out rt escrow dest amount s =
     (if amount = 0 then Inr s
      else let rent_min = minimum_balance rt ESCROW_ACCOUNT_LEN; cur = lamports (s (key escrow)) in
        bindE (ok_or (checked_sub cur amount) (re_err InsufficientBalance)) (\<lambda>remaining.
        if remaining < rent_min then re_fail InsufficientBalance
        else let s = set_lamports s (key escrow) remaining in
          bindE (ok_or (checked_add (lamports (s (key dest))) amount) (re_err ArithmeticOverflow)) (\<lambda>v.
          Inr (set_lamports s (key dest) v))))"

definition re_close_escrow :: "account_info \<Rightarrow> account_info \<Rightarrow> store \<Rightarrow> store res" where
  "re_close_escrow escrow dest s =
     (let residual = lamports (s (key escrow));
          s = set_lamports s (key escrow) 0 in
      bindE (ok_or (checked_add (lamports (s (key dest))) residual) (re_err ArithmeticOverflow)) (\<lambda>v.
      let s = set_lamports s (key dest) v in
      Inr (set_data s (key escrow) (map (\<lambda>_. 0) (data (s (key escrow)))))))"

definition read_receipt :: "runtime \<Rightarrow> account_info \<Rightarrow> u8 \<Rightarrow> key \<Rightarrow> store \<Rightarrow> receipt res" where
  "read_receipt rt ix_sysvar index expected_signer s =
     (if key ix_sysvar \<noteq> INSTRUCTIONS_ID then re_fail InvalidReceiptSignature
      else
        bindE (load_instruction_at rt (unat index) ix_sysvar s) (\<lambda>i.
        if ix_program i \<noteq> ED25519_ID then re_fail InvalidReceiptSignature
        else
          bindE (extract_pubkey_and_message (ix_data i) 0) (\<lambda>(pubkey, message).
          if pubkey \<noteq> expected_signer then re_fail InvalidReceiptSignature
          else receipt_decode message)))"

section \<open>Handlers\<close>

definition re_open_escrow ::
  "runtime \<Rightarrow> key \<Rightarrow> account_info list \<Rightarrow> key \<Rightarrow> u64 \<Rightarrow> bytes \<Rightarrow> i64 \<Rightarrow> i64 \<Rightarrow> store \<Rightarrow> store res" where
  "re_open_escrow rt pid accounts seller amount pc deadline window s =
     bindE (next_account_info accounts) (\<lambda>(buyer, it).
     bindE (next_account_info it) (\<lambda>(escrow, it).
     bindE (next_account_info it) (\<lambda>(system_prog, it).
     if \<not> is_signer buyer then re_fail MissingSignature
     else if amount = 0 then re_fail ZeroAmount
     else if key system_prog \<noteq> SYSTEM_ID then re_fail MissingSystemProgram
     else let now = unix_timestamp rt in
     if sint deadline \<le> sint now \<or> sint window < 0 then re_fail DeadlinePassed
     else let (expected, bump) = re_derive rt pid pc in
     if expected \<noteq> key escrow then re_fail InvalidEscrowPda
     else if data (s (key escrow)) \<noteq> [] then re_fail InvalidEscrowAccount
     else let rent_min = minimum_balance rt ESCROW_ACCOUNT_LEN in
     bindE (ok_or (checked_add rent_min amount) (re_err ArithmeticOverflow)) (\<lambda>fund.
     bindE (invoke_signed rt
              (SystemCpi (CreateAccount (key buyer) (key escrow) fund (of_nat ESCROW_ACCOUNT_LEN) pid))
              [buyer, escrow, system_prog] [[ESCROW_SEED_PREFIX, pc, [bump]]] s) (\<lambda>s.
     bindE (ok_or (checked_add_i64 deadline window) (re_err ArithmeticOverflow)) (\<lambda>dispute.
     write_escrow escrow
       \<lparr>re_version = ESCROW_STATE_VERSION, re_bump = bump, re_status = RE_OPEN, re_buyer = key buyer,
        re_seller = seller, re_amount = amount, re_bond = 0, re_payment_commitment = pc,
        re_deadline = deadline, re_dispute_deadline = dispute, re_response_hash = replicate 32 0,
        re_created_at = now, re_dispute_window = window\<rparr> s))))))"

definition post_bond :: "runtime \<Rightarrow> key \<Rightarrow> account_info list \<Rightarrow> u64 \<Rightarrow> store \<Rightarrow> store res" where
  "post_bond rt pid accounts amount s =
     bindE (next_account_info accounts) (\<lambda>(seller, it).
     bindE (next_account_info it) (\<lambda>(escrow, it).
     bindE (next_account_info it) (\<lambda>(system_prog, it).
     if \<not> is_signer seller then re_fail MissingSignature
     else if amount = 0 then re_fail ZeroAmount
     else if key system_prog \<noteq> SYSTEM_ID then re_fail MissingSystemProgram
     else
     bindE (load_escrow rt pid escrow s) (\<lambda>state.
     if re_status state \<noteq> RE_OPEN then re_fail NotOpen
     else if key seller \<noteq> re_seller state then re_fail NotSeller
     else
     bindE (invoke rt (SystemCpi (Transfer (key seller) (key escrow) amount)) [seller, escrow, system_prog] s)
       (\<lambda>s.
     bindE (ok_or (checked_add (re_bond state) amount) (re_err ArithmeticOverflow)) (\<lambda>bond.
     write_escrow escrow (state\<lparr>re_bond := bond\<rparr>) s))))))"

definition settle_success :: "runtime \<Rightarrow> key \<Rightarrow> account_info list \<Rightarrow> u8 \<Rightarrow> store \<Rightarrow> store res" where
  "settle_success rt pid accounts receipt_ix_index s =
     bindE (next_account_info accounts) (\<lambda>(seller, it).
     bindE (next_account_info it) (\<lambda>(escrow, it).
     bindE (next_account_info it) (\<lambda>(seller_wallet, it).
     bindE (next_account_info it) (\<lambda>(ix_sysvar, it).
     if \<not> is_signer seller then re_fail MissingSignature
     else
     bindE (load_escrow rt pid escrow s) (\<lambda>state.
     if re_status state \<noteq> RE_OPEN then re_fail NotOpen
     else if key seller \<noteq> re_seller state \<or> key seller_wallet \<noteq> re_seller state then re_fail NotSeller
     else if sint (unix_timestamp rt) > sint (re_deadline state) then re_fail DeadlinePassed
     else
     bindE (read_receipt rt ix_sysvar receipt_ix_index (re_seller state) s) (\<lambda>rcpt.
     if rc_payment_commitment rcpt \<noteq> re_payment_commitment state \<or> rc_deadline rcpt \<noteq> re_deadline state \<or>
        rc_status rcpt \<noteq> STATUS_SUCCESS then re_fail ReceiptMismatch
     else
     bindE (re_pay_out rt escrow seller_wallet (re_amount state) s) (\<lambda>s.
     write_escrow escrow
       (state\<lparr>re_status := RE_SETTLED_SUCCESS, re_response_hash := rc_response_hash rcpt\<rparr>) s)))))))"

definition refund_on_timeout :: "runtime \<Rightarrow> key \<Rightarrow> account_info list \<Rightarrow> store \<Rightarrow> store res" where
  "refund_on_timeout rt pid accounts s =
     bindE (next_account_info accounts) (\<lambda>(escrow, it).
     bindE (next_account_info it) (\<lambda>(buyer_wallet, it).
     bindE (load_escrow rt pid escrow s) (\<lambda>state.
     if re_status state \<noteq> RE_OPEN then re_fail NotOpen
     else if key buyer_wallet \<noteq> re_buyer state then re_fail NotBuyer
     else if sint (unix_timestamp rt) \<le> sint (re_deadline state) then re_fail DeadlineNotReached
     else
     bindE (re_pay_out rt escrow buyer_wallet (re_amount state) s) (\<lambda>s.
     write_escrow escrow (state\<lparr>re_status := RE_REFUNDED\<rparr>) s))))"

definition prove_equivocation :: "runtime \<Rightarrow> key \<Rightarrow> account_info list \<Rightarrow> u8 \<Rightarrow> u8 \<Rightarrow> store \<Rightarrow> store res" where
  "prove_equivocation rt pid accounts ix_index_a ix_index_b s =
     bindE (next_account_info accounts) (\<lambda>(escrow, it).
     bindE (next_account_info it) (\<lambda>(buyer_wallet, it).
     bindE (next_account_info it) (\<lambda>(ix_sysvar, it).
     bindE (load_escrow rt pid escrow s) (\<lambda>state.
     if re_bond state = 0 then re_fail NotOpen
     else if key buyer_wallet \<noteq> re_buyer state then re_fail NotBuyer
     else
     bindE (read_receipt rt ix_sysvar ix_index_a (re_seller state) s) (\<lambda>ra.
     bindE (read_receipt rt ix_sysvar ix_index_b (re_seller state) s) (\<lambda>rb.
     if rc_payment_commitment ra \<noteq> re_payment_commitment state \<or>
        rc_payment_commitment rb \<noteq> re_payment_commitment state \<or>
        rc_deadline ra \<noteq> re_deadline state \<or> rc_deadline rb \<noteq> re_deadline state then re_fail ReceiptMismatch
     else if \<not> receipts_conflict ra rb then re_fail NotEquivocation
     else
     bindE (if re_status state = RE_OPEN then re_pay_out rt escrow buyer_wallet (re_amount state) s
            else Inr s) (\<lambda>s.
     bindE (re_pay_out rt escrow buyer_wallet (re_bond state) s) (\<lambda>s.
     re_close_escrow escrow buyer_wallet s))))))))"

definition close_after_dispute :: "runtime \<Rightarrow> key \<Rightarrow> account_info list \<Rightarrow> store \<Rightarrow> store res" where
  "close_after_dispute rt pid accounts s =
     bindE (next_account_info accounts) (\<lambda>(escrow, it).
     bindE (next_account_info it) (\<lambda>(seller_wallet, it).
     bindE (next_account_info it) (\<lambda>(buyer_wallet, it).
     bindE (load_escrow rt pid escrow s) (\<lambda>state.
     if re_status state = RE_OPEN then re_fail NotSettled
     else if key seller_wallet \<noteq> re_seller state then re_fail NotSeller
     else if key buyer_wallet \<noteq> re_buyer state then re_fail NotBuyer
     else if sint (unix_timestamp rt) \<le> sint (re_dispute_deadline state) then re_fail DisputeWindowOpen
     else
     bindE (re_pay_out rt escrow seller_wallet (re_bond state) s) (\<lambda>s.
     re_close_escrow escrow buyer_wallet s)))))"

definition re_process :: "runtime \<Rightarrow> key \<Rightarrow> account_info list \<Rightarrow> bytes \<Rightarrow> store \<Rightarrow> store res" where
  "re_process rt pid accounts d s =
     bindE (re_ix_unpack d) (\<lambda>i.
     case i of
       OpenEscrow seller amount pc deadline window \<Rightarrow>
         re_open_escrow rt pid accounts seller amount pc deadline window s
     | PostBond amount \<Rightarrow> post_bond rt pid accounts amount s
     | SettleSuccess index \<Rightarrow> settle_success rt pid accounts index s
     | RefundOnTimeout \<Rightarrow> refund_on_timeout rt pid accounts s
     | ProveEquivocation a b \<Rightarrow> prove_equivocation rt pid accounts a b s
     | CloseAfterDispute \<Rightarrow> close_after_dispute rt pid accounts s)"

end
