(* ===== verification/ReMoney.thy ===== *)
theory ReMoney
  imports ReProcess
begin

text \<open>
  The money of a refund escrow: what each handler has established when it succeeds, the
  solvency invariant (an escrow account always holds the rent minimum, its bond and, while open,
  its payment) and that every instruction, any code of other programs and the runtime's removal of
  empty accounts keep it.
\<close>

section \<open>Accounts and what they owe\<close>

definition re_live :: "key \<Rightarrow> account \<Rightarrow> bool" where
  "re_live pid a \<longleftrightarrow> owner a = pid \<and> ESCROW_ACCOUNT_LEN \<le> length (data a) \<and> data a ! 0 = ESCROW_STATE_VERSION"

definition re_state :: "account \<Rightarrow> re_escrow" where
  "re_state a = re_of (data a)"

definition re_due :: "re_escrow \<Rightarrow> nat" where
  "re_due e = unat (re_bond e) + (if re_status e = RE_OPEN then unat (re_amount e) else 0)"

definition re_sound :: "re_escrow \<Rightarrow> bool" where
  "re_sound e \<longleftrightarrow> re_status e \<in> {RE_OPEN, RE_SETTLED_SUCCESS, RE_REFUNDED} \<and> re_amount e \<noteq> 0 \<and>
     sint (re_deadline e) \<le> sint (re_dispute_deadline e)"

definition solvent :: "u64 \<Rightarrow> key \<Rightarrow> store \<Rightarrow> bool" where
  "solvent rent pid s \<longleftrightarrow>
     (\<forall>k. re_live pid (s k) \<longrightarrow>
        unat rent + re_due (re_state (s k)) \<le> unat (lamports (s k)) \<and> re_sound (re_state (s k)))"

section \<open>Inversion\<close>

lemma re_unpack_Inr [run_simps]:
  "re_unpack d = Inr e \<longleftrightarrow> 179 \<le> length d \<and> d ! 0 = 1 \<and> e = re_of d"
  by (auto simp: re_unpack_def)

lemma load_escrow_Inr [run_simps]:
  "load_escrow rt pid escrow s = Inr e \<longleftrightarrow>
     re_live pid (s (key escrow)) \<and> e = re_state (s (key escrow)) \<and>
     create_program_address rt [ESCROW_SEED_PREFIX, re_payment_commitment e, [re_bump e]] pid = Some (key escrow)"
  by (auto simp: load_escrow_def re_live_def re_state_def re_unpack_Inr)

lemma write_escrow_Inr [run_simps]:
  "write_escrow escrow e s = Inr s' \<longleftrightarrow>
     (\<exists>d. re_pack e (data (s (key escrow))) = Inr d \<and> s' = set_data s (key escrow) d)"
  by (auto simp: write_escrow_def)

text \<open>A payout leaves owners and data alone, debits only the escrow and only down to the rent.\<close>

lemma pay_out_frame:
  assumes "re_pay_out rt escrow dest amount s = Inr s'"
  shows "owner (s' k) = owner (s k)" and "data (s' k) = data (s k)"
    and "k \<noteq> key escrow \<Longrightarrow> lamports (s k) \<le> lamports (s' k)"
    and "unat (lamports (s (key escrow))) \<le> unat (lamports (s' (key escrow))) + unat amount"
proof -
  show "owner (s' k) = owner (s k)" and "data (s' k) = data (s k)"
    using assms by (auto simp: re_pay_out_def Let_def split: if_splits)
  show "lamports (s k) \<le> lamports (s' k)" if "k \<noteq> key escrow"
    using assms that
    by (auto simp: re_pay_out_def Let_def set_lamports_apply dest!: checked_add_ge split: if_splits)
  show "unat (lamports (s (key escrow))) \<le> unat (lamports (s' (key escrow))) + unat amount"
    using assms
    by (auto simp: re_pay_out_def Let_def set_lamports_apply dest!: checked_add_unat checked_sub_unat
        split: if_splits)
qed

lemma close_escrow_frame:
  assumes "re_close_escrow escrow dest s = Inr s'"
  shows "owner (s' k) = owner (s k)"
    and "k \<noteq> key escrow \<Longrightarrow> data (s' k) = data (s k) \<and> lamports (s k) \<le> lamports (s' k)"
    and "data (s' (key escrow)) = map (\<lambda>_. 0) (data (s (key escrow)))"
  using assms
  by (auto simp: re_close_escrow_def Let_def set_lamports_apply dest!: checked_add_ge split: if_splits)

section \<open>Successful runs\<close>

lemma next_account_bind: "bindE (next_account_info it) f = Inr y \<longleftrightarrow> (\<exists>a r. it = a # r \<and> f (a, r) = Inr y)"
  by auto

lemmas handler_simps = next_account_bind bindE_Inr ok_or_Inr if_Inr fst_conv snd_conv sum.distinct sum.inject

lemma re_open_escrow_Inr:
  "re_open_escrow rt pid accounts seller amount pc deadline window s = Inr s' \<longleftrightarrow>
   (\<exists>buyer escrow system_prog rest fund s1 dispute.
      accounts = buyer # escrow # system_prog # rest \<and> is_signer buyer \<and> amount \<noteq> 0 \<and>
      key system_prog = SYSTEM_ID \<and> sint (unix_timestamp rt) < sint deadline \<and> 0 \<le> sint window \<and>
      fst (re_derive rt pid pc) = key escrow \<and> data (s (key escrow)) = [] \<and>
      checked_add (minimum_balance rt ESCROW_ACCOUNT_LEN) amount = Some fund \<and>
      invoke_signed rt
        (SystemCpi (CreateAccount (key buyer) (key escrow) fund (of_nat ESCROW_ACCOUNT_LEN) pid))
        [buyer, escrow, system_prog] [[ESCROW_SEED_PREFIX, pc, [snd (re_derive rt pid pc)]]] s = Inr s1 \<and>
      checked_add_i64 deadline window = Some dispute \<and>
      write_escrow escrow
       \<lparr>re_version = ESCROW_STATE_VERSION, re_bump = snd (re_derive rt pid pc), re_status = RE_OPEN,
        re_buyer = key buyer, re_seller = seller, re_amount = amount, re_bond = 0,
        re_payment_commitment = pc, re_deadline = deadline, re_dispute_deadline = dispute,
        re_response_hash = replicate 32 0, re_created_at = unix_timestamp rt,
        re_dispute_window = window\<rparr> s1 = Inr s')"
  unfolding re_open_escrow_def Let_def case_prod_beta
  by (simp only: handler_simps) (auto simp: not_le not_less)

lemma post_bond_Inr:
  "post_bond rt pid accounts amount s = Inr s' \<longleftrightarrow>
   (\<exists>seller escrow system_prog rest e s1 bond.
      accounts = seller # escrow # system_prog # rest \<and> is_signer seller \<and> amount \<noteq> 0 \<and>
      key system_prog = SYSTEM_ID \<and> load_escrow rt pid escrow s = Inr e \<and> re_status e = RE_OPEN \<and>
      key seller = re_seller e \<and>
      invoke rt (SystemCpi (Transfer (key seller) (key escrow) amount)) [seller, escrow, system_prog] s = Inr s1 \<and>
      checked_add (re_bond e) amount = Some bond \<and> write_escrow escrow (e\<lparr>re_bond := bond\<rparr>) s1 = Inr s')"
  unfolding post_bond_def case_prod_beta
  by (simp only: handler_simps) (auto simp: not_le not_less)

lemma settle_success_Inr:
  "settle_success rt pid accounts index s = Inr s' \<longleftrightarrow>
   (\<exists>seller escrow seller_wallet ix_sysvar rest e rcpt s1.
      accounts = seller # escrow # seller_wallet # ix_sysvar # rest \<and> is_signer seller \<and>
      load_escrow rt pid escrow s = Inr e \<and> re_status e = RE_OPEN \<and> key seller = re_seller e \<and>
      key seller_wallet = re_seller e \<and> sint (unix_timestamp rt) \<le> sint (re_deadline e) \<and>
      read_receipt rt ix_sysvar index (re_seller e) s = Inr rcpt \<and>
      rc_payment_commitment rcpt = re_payment_commitment e \<and> rc_deadline rcpt = re_deadline e \<and>
      rc_status rcpt = STATUS_SUCCESS \<and>
      re_pay_out rt escrow seller_wallet (re_amount e) s = Inr s1 \<and>
      write_escrow escrow
        (e\<lparr>re_status := RE_SETTLED_SUCCESS, re_response_hash := rc_response_hash rcpt\<rparr>) s1 = Inr s')"
  unfolding settle_success_def case_prod_beta
  by (simp only: handler_simps) (auto simp: not_le not_less)

lemma refund_on_timeout_Inr:
  "refund_on_timeout rt pid accounts s = Inr s' \<longleftrightarrow>
   (\<exists>escrow buyer_wallet rest e s1.
      accounts = escrow # buyer_wallet # rest \<and> load_escrow rt pid escrow s = Inr e \<and>
      re_status e = RE_OPEN \<and> key buyer_wallet = re_buyer e \<and>
      sint (re_deadline e) < sint (unix_timestamp rt) \<and>
      re_pay_out rt escrow buyer_wallet (re_amount e) s = Inr s1 \<and>
      write_escrow escrow (e\<lparr>re_status := RE_REFUNDED\<rparr>) s1 = Inr s')"
  unfolding refund_on_timeout_def case_prod_beta
  by (simp only: handler_simps) (auto simp: not_le not_less)

lemma prove_equivocation_Inr:
  "prove_equivocation rt pid accounts ia ib s = Inr s' \<longleftrightarrow>
   (\<exists>escrow buyer_wallet ix_sysvar rest e ra rb s1 s2.
      accounts = escrow # buyer_wallet # ix_sysvar # rest \<and> load_escrow rt pid escrow s = Inr e \<and>
      re_bond e \<noteq> 0 \<and> key buyer_wallet = re_buyer e \<and>
      read_receipt rt ix_sysvar ia (re_seller e) s = Inr ra \<and>
      read_receipt rt ix_sysvar ib (re_seller e) s = Inr rb \<and>
      rc_payment_commitment ra = re_payment_commitment e \<and> rc_payment_commitment rb = re_payment_commitment e \<and>
      rc_deadline ra = re_deadline e \<and> rc_deadline rb = re_deadline e \<and> receipts_conflict ra rb \<and>
      (if re_status e = RE_OPEN then re_pay_out rt escrow buyer_wallet (re_amount e) s else Inr s) = Inr s1 \<and>
      re_pay_out rt escrow buyer_wallet (re_bond e) s1 = Inr s2 \<and>
      re_close_escrow escrow buyer_wallet s2 = Inr s')"
  unfolding prove_equivocation_def case_prod_beta
  by (simp only: handler_simps) auto

lemma close_after_dispute_Inr:
  "close_after_dispute rt pid accounts s = Inr s' \<longleftrightarrow>
   (\<exists>escrow seller_wallet buyer_wallet rest e s1.
      accounts = escrow # seller_wallet # buyer_wallet # rest \<and> load_escrow rt pid escrow s = Inr e \<and>
      re_status e \<noteq> RE_OPEN \<and> key seller_wallet = re_seller e \<and> key buyer_wallet = re_buyer e \<and>
      sint (re_dispute_deadline e) < sint (unix_timestamp rt) \<and>
      re_pay_out rt escrow seller_wallet (re_bond e) s = Inr s1 \<and>
      re_close_escrow escrow buyer_wallet s1 = Inr s')"
  unfolding close_after_dispute_def case_prod_beta
  by (simp only: handler_simps) (auto simp: not_le not_less)

section \<open>What steps leave alone\<close>

text \<open>An account keeps being an escrow or not; an escrow keeps its data and loses no lamports.\<close>

definition re_keeps :: "key \<Rightarrow> account \<Rightarrow> account \<Rightarrow> bool" where
  "re_keeps pid a a' \<longleftrightarrow> re_live pid a' = re_live pid a \<and>
     (re_live pid a \<longrightarrow> data a' = data a \<and> lamports a \<le> lamports a')"

definition re_grow :: "key \<Rightarrow> key set \<Rightarrow> store \<Rightarrow> store \<Rightarrow> bool" where
  "re_grow pid A s s' \<longleftrightarrow> (\<forall>k. k \<notin> A \<longrightarrow> re_keeps pid (s k) (s' k))"

lemma re_keeps_trans: "re_keeps pid a b \<Longrightarrow> re_keeps pid b c \<Longrightarrow> re_keeps pid a c"
  by (auto simp: re_keeps_def intro: order_trans)

lemma re_grow_refl: "re_grow pid A s s"
  by (simp add: re_grow_def re_keeps_def)

lemma re_grow_trans: "re_grow pid A s1 s2 \<Longrightarrow> re_grow pid A s2 s3 \<Longrightarrow> re_grow pid A s1 s3"
  unfolding re_grow_def using re_keeps_trans by blast

lemma re_grow_mono: "re_grow pid A s s' \<Longrightarrow> A \<subseteq> B \<Longrightarrow> re_grow pid B s s'"
  unfolding re_grow_def by blast

lemma zeroed_not_live: "\<forall>b \<in> set (data a). b = 0 \<Longrightarrow> \<not> re_live pid a"
proof
  assume z: "\<forall>b \<in> set (data a). b = 0" and l: "re_live pid a"
  from l have "0 < length (data a)" "data a ! 0 = 1" by (auto simp: re_live_def)
  with z show False by (metis nth_mem zero_neq_one)
qed

lemma foreign_grow:
  assumes "foreign_step pid s s'"
  shows "re_grow pid {} s s'"
  unfolding re_grow_def
proof (intro allI impI)
  fix k
  show "re_keeps pid (s k) (s' k)"
  proof (cases "owner (s k) = pid")
    case True
    with assms show ?thesis by (auto simp: foreign_step_def re_keeps_def re_live_def)
  next
    case False
    with assms have "owner (s' k) = pid \<Longrightarrow> \<forall>b \<in> set (data (s' k)). b = 0" by (simp add: foreign_step_def)
    then have "\<not> re_live pid (s' k)" using zeroed_not_live [of "s' k" pid] by (auto simp: re_live_def)
    with False show ?thesis by (simp add: re_keeps_def re_live_def)
  qed
qed

lemma pay_out_grow: "re_pay_out rt escrow dest amount s = Inr s' \<Longrightarrow> re_grow pid {key escrow} s s'"
  using pay_out_frame [of rt escrow dest amount s s'] by (simp add: re_grow_def re_keeps_def re_live_def)

lemma close_escrow_grow: "re_close_escrow escrow dest s = Inr s' \<Longrightarrow> re_grow pid {key escrow} s s'"
  using close_escrow_frame [of escrow dest s s'] by (simp add: re_grow_def re_keeps_def re_live_def)

lemma set_data_grow: "re_grow pid {k} s (set_data s k d)"
  by (simp add: re_grow_def re_keeps_def re_live_def)

lemma closed_not_live:
  assumes "re_close_escrow escrow dest s = Inr s'"
  shows "\<not> re_live pid (s' (key escrow))"
  by (rule zeroed_not_live) (simp add: close_escrow_frame(3) [OF assms])

lemma written_live:
  assumes "re_pack e d = Inr d'" and "re_version e = 1"
  shows "re_of d' = e" and "179 \<le> length d'" and "d' ! 0 = 1"
proof -
  show of: "re_of d' = e" by (rule re_codec.pack_of [OF assms(1)])
  show "179 \<le> length d'" using re_codec.pack_wf [OF assms(1)] re_codec.pack_length [OF assms(1)] by simp
  show "d' ! 0 = 1" using assms(2) of by (metis re_escrow.select_convs(1) re_of_def)
qed

section \<open>Solvency\<close>

lemma solventD:
  assumes "solvent rent pid s" and "re_live pid (s k)"
  shows "unat rent + re_due (re_state (s k)) \<le> unat (lamports (s k))" and "re_sound (re_state (s k))"
  using assms by (auto simp: solvent_def)

lemma solvent_grow:
  assumes "solvent rent pid s" and "re_grow pid {k} s s'"
    and "re_live pid (s' k) \<Longrightarrow> unat rent + re_due (re_state (s' k)) \<le> unat (lamports (s' k)) \<and> re_sound (re_state (s' k))"
  shows "solvent rent pid s'"
  unfolding solvent_def
proof (intro allI impI)
  fix j
  assume live: "re_live pid (s' j)"
  show "unat rent + re_due (re_state (s' j)) \<le> unat (lamports (s' j)) \<and> re_sound (re_state (s' j))"
  proof (cases "j = k")
    case True
    with assms(3) live show ?thesis by simp
  next
    case False
    with assms(2) live have "re_live pid (s j)" "data (s' j) = data (s j)" "lamports (s j) \<le> lamports (s' j)"
      by (auto simp: re_grow_def re_keeps_def)
    with solventD [OF assms(1), of j] show ?thesis
      by (simp add: re_state_def word_le_nat_alt)
  qed
qed

lemma foreign_solvent:
  assumes "solvent rent pid s" and "foreign_step pid s s'"
  shows "solvent rent pid s'"
proof -
  note g = foreign_grow [OF assms(2)]
  show ?thesis unfolding solvent_def
  proof (intro allI impI)
    fix j
    assume "re_live pid (s' j)"
    with g have "re_live pid (s j)" "data (s' j) = data (s j)" "lamports (s j) \<le> lamports (s' j)"
      by (auto simp: re_grow_def re_keeps_def)
    with solventD [OF assms(1), of j]
    show "unat rent + re_due (re_state (s' j)) \<le> unat (lamports (s' j)) \<and> re_sound (re_state (s' j))"
      by (simp add: re_state_def word_le_nat_alt)
  qed
qed

lemma close_solvent:
  assumes "solvent rent pid s" and "re_grow pid {key escrow} s s1" and "re_close_escrow escrow dest s1 = Inr s'"
  shows "solvent rent pid s'"
  by (rule solvent_grow [OF assms(1) re_grow_trans [OF assms(2) close_escrow_grow [OF assms(3)]]])
    (simp add: closed_not_live [OF assms(3)])

lemma write_solvent:
  assumes "solvent rent pid s" and "re_grow pid {key escrow} s s1" and "write_escrow escrow e s1 = Inr s'"
    and "re_version e = 1" and "unat rent + re_due e \<le> unat (lamports (s1 (key escrow)))" and "re_sound e"
  shows "solvent rent pid s'"
proof -
  from assms(3) obtain d where d: "re_pack e (data (s1 (key escrow))) = Inr d"
    and s': "s' = set_data s1 (key escrow) d" by (auto simp: write_escrow_Inr)
  have "re_state (s' (key escrow)) = e"
    using written_live(1) [OF d assms(4)] by (simp add: s' re_state_def)
  moreover have "re_grow pid {key escrow} s s'"
    unfolding s' by (rule re_grow_trans [OF assms(2) set_data_grow])
  ultimately show ?thesis
    using assms(5,6) by (intro solvent_grow [OF assms(1)]) (auto simp: s')
qed

end
