(* ===== verification/ReLife.thy ===== *)
theory ReLife
  imports ReMoney
begin

text \<open>
  Every instruction of \<open>x402_refund_escrow\<close> keeps escrows solvent and follows the lifecycle of
  \<open>state.rs\<close>, stated as the relation \<open>re_next\<close> on the contents of one account. Reachable states
  are sequences of instructions, foreign code and removals of empty accounts by the runtime.
\<close>

section \<open>Solvency of each handler\<close>

lemma re_live_version: "re_live pid a \<Longrightarrow> re_version (re_state a) = 1"
  by (simp add: re_live_def re_state_def re_of_def)

context solana_lamports
begin

lemma re_open_escrow_solvent:
  assumes "solvent (minimum_balance rt ESCROW_ACCOUNT_LEN) pid s"
    and "re_open_escrow rt pid accounts seller amount pc deadline window s = Inr s'"
  shows "solvent (minimum_balance rt ESCROW_ACCOUNT_LEN) pid s'"
proof -
  let ?rent = "minimum_balance rt ESCROW_ACCOUNT_LEN"
  from assms(2) obtain buyer escrow system_prog rest fund s1 dispute where
    r: "accounts = buyer # escrow # system_prog # rest" "amount \<noteq> 0" "0 \<le> sint window"
      "checked_add ?rent amount = Some fund"
      "checked_add_i64 deadline window = Some dispute"
    and inv: "invoke_signed rt
        (SystemCpi (CreateAccount (key buyer) (key escrow) fund (of_nat ESCROW_ACCOUNT_LEN) pid))
        [buyer, escrow, system_prog] [[ESCROW_SEED_PREFIX, pc, [snd (re_derive rt pid pc)]]] s = Inr s1"
    and w: "write_escrow escrow
       \<lparr>re_version = ESCROW_STATE_VERSION, re_bump = snd (re_derive rt pid pc), re_status = RE_OPEN,
        re_buyer = key buyer, re_seller = seller, re_amount = amount, re_bond = 0,
        re_payment_commitment = pc, re_deadline = deadline, re_dispute_deadline = dispute,
        re_response_hash = replicate 32 0, re_created_at = unix_timestamp rt,
        re_dispute_window = window\<rparr> s1 = Inr s'"
    unfolding re_open_escrow_Inr by (elim exE conjE) (rule that; assumption)
  have "sint dispute = sint deadline + sint window"
    using r(5) by (auto simp: checked_add_i64_def Let_def signed_take_bit_int_eq_self sint_word_ariths split: if_splits)
  then have "sint deadline \<le> sint dispute" using r(3) by simp
  moreover have "unat (lamports (s1 (key escrow))) = unat ?rent + unat amount"
    using create_account_lamports [OF inv] checked_add_unat [OF r(4)] by simp
  ultimately show ?thesis
    using r(2)
    by (intro write_solvent [OF assms(1) re_grow_mono [OF foreign_grow [OF system_foreign [OF inv]]] w])
      (auto simp: re_due_def re_sound_def)
qed

lemma post_bond_solvent:
  assumes "solvent rent pid s" and "post_bond rt pid accounts amount s = Inr s'"
  shows "solvent rent pid s'"
proof -
  from assms(2) obtain seller escrow system_prog rest e s1 bond where
    r: "load_escrow rt pid escrow s = Inr e" "re_status e = RE_OPEN" "checked_add (re_bond e) amount = Some bond"
    and inv: "invoke rt (SystemCpi (Transfer (key seller) (key escrow) amount)) [seller, escrow, system_prog] s = Inr s1"
    and w: "write_escrow escrow (e\<lparr>re_bond := bond\<rparr>) s1 = Inr s'"
    unfolding post_bond_Inr by (elim exE conjE) (rule that; assumption)
  have l: "re_live pid (s (key escrow))" and e: "e = re_state (s (key escrow))"
    using r(1) by (auto simp: load_escrow_Inr)
  note inv' = inv [unfolded invoke_def]
  have "key seller \<noteq> key escrow"
    using transfer_lamports [OF inv'] l pid_not_system by (auto simp: re_live_def)
  then have "unat (lamports (s1 (key escrow))) = unat (lamports (s (key escrow))) + unat amount"
    using transfer_lamports [OF inv'] by blast
  then show ?thesis
    using solventD [OF assms(1) l] checked_add_unat [OF r(3)] re_live_version [OF l] r(2)
    by (intro write_solvent [OF assms(1) re_grow_mono [OF foreign_grow [OF system_foreign [OF inv']]] w])
      (auto simp: e re_due_def re_sound_def)
qed

end

lemma pay_out_due:
  assumes "solvent rent pid s" and "re_live pid (s (key escrow))" and "re_status (re_state (s (key escrow))) = RE_OPEN"
    and "re_pay_out rt escrow dest (re_amount (re_state (s (key escrow)))) s = Inr s1"
  shows "unat rent + unat (re_bond (re_state (s (key escrow)))) \<le> unat (lamports (s1 (key escrow)))"
  using solventD(1) [OF assms(1,2)] pay_out_frame(4) [OF assms(4)] assms(3) by (simp add: re_due_def)

lemma settle_success_solvent:
  assumes "solvent rent pid s" and "settle_success rt pid accounts index s = Inr s'"
  shows "solvent rent pid s'"
proof -
  from assms(2) obtain escrow seller_wallet e s1 and rcpt :: receipt where
    r: "load_escrow rt pid escrow s = Inr e" "re_status e = RE_OPEN"
      "re_pay_out rt escrow seller_wallet (re_amount e) s = Inr s1"
    and w: "write_escrow escrow
        (e\<lparr>re_status := RE_SETTLED_SUCCESS, re_response_hash := rc_response_hash rcpt\<rparr>) s1 = Inr s'"
    unfolding settle_success_Inr by (elim exE conjE) (rule that; assumption)
  have l: "re_live pid (s (key escrow))" and e: "e = re_state (s (key escrow))"
    using r(1) by (auto simp: load_escrow_Inr)
  show ?thesis
    using pay_out_due [OF assms(1) l r(2) [unfolded e] r(3) [unfolded e]] solventD(2) [OF assms(1) l]
      re_live_version [OF l]
    by (intro write_solvent [OF assms(1) pay_out_grow [OF r(3)] w]) (auto simp: e re_due_def re_sound_def)
qed

lemma refund_on_timeout_solvent:
  assumes "solvent rent pid s" and "refund_on_timeout rt pid accounts s = Inr s'"
  shows "solvent rent pid s'"
proof -
  from assms(2) obtain escrow buyer_wallet e s1 where
    r: "load_escrow rt pid escrow s = Inr e" "re_status e = RE_OPEN"
      "re_pay_out rt escrow buyer_wallet (re_amount e) s = Inr s1"
    and w: "write_escrow escrow (e\<lparr>re_status := RE_REFUNDED\<rparr>) s1 = Inr s'"
    unfolding refund_on_timeout_Inr by (elim exE conjE) (rule that; assumption)
  have l: "re_live pid (s (key escrow))" and e: "e = re_state (s (key escrow))"
    using r(1) by (auto simp: load_escrow_Inr)
  show ?thesis
    using pay_out_due [OF assms(1) l r(2) [unfolded e] r(3) [unfolded e]] solventD(2) [OF assms(1) l]
      re_live_version [OF l]
    by (intro write_solvent [OF assms(1) pay_out_grow [OF r(3)] w]) (auto simp: e re_due_def re_sound_def)
qed

lemma prove_equivocation_solvent:
  assumes "solvent rent pid s" and "prove_equivocation rt pid accounts ia ib s = Inr s'"
  shows "solvent rent pid s'"
proof -
  from assms(2) obtain escrow buyer_wallet s1 s2 and e :: re_escrow where
    s1: "(if re_status e = RE_OPEN then re_pay_out rt escrow buyer_wallet (re_amount e) s else Inr s) = Inr s1"
    and s2: "re_pay_out rt escrow buyer_wallet (re_bond e) s1 = Inr s2"
    and s': "re_close_escrow escrow buyer_wallet s2 = Inr s'"
    unfolding prove_equivocation_Inr by (elim exE conjE) (rule that; assumption)
  have "re_grow pid {key escrow} s s1"
    using s1 by (auto intro: pay_out_grow re_grow_refl split: if_splits)
  then show ?thesis
    using re_grow_trans pay_out_grow [OF s2] close_solvent [OF assms(1) _ s'] by blast
qed

lemma close_after_dispute_solvent:
  assumes "solvent rent pid s" and "close_after_dispute rt pid accounts s = Inr s'"
  shows "solvent rent pid s'"
proof -
  from assms(2) obtain escrow seller_wallet buyer_wallet s1 and e :: re_escrow where
    "re_pay_out rt escrow seller_wallet (re_bond e) s = Inr s1" "re_close_escrow escrow buyer_wallet s1 = Inr s'"
    unfolding close_after_dispute_Inr by (elim exE conjE) (rule that; assumption)
  then show ?thesis using close_solvent [OF assms(1) pay_out_grow] by blast
qed

context solana_lamports
begin

lemmas re_handlers_solvent =
  re_open_escrow_solvent post_bond_solvent settle_success_solvent refund_on_timeout_solvent
  prove_equivocation_solvent close_after_dispute_solvent

lemma re_process_solvent:
  assumes "solvent (minimum_balance rt ESCROW_ACCOUNT_LEN) pid s" and "re_process rt pid accounts d s = Inr s'"
  shows "solvent (minimum_balance rt ESCROW_ACCOUNT_LEN) pid s'"
proof -
  from assms(2) obtain i where "re_ix_unpack d = Inr i" by (auto simp: re_process_def)
  with assms(2) show ?thesis
    by (cases i) (auto simp: re_process_def simp del: ESCROW_ACCOUNT_LEN_def
        intro: re_handlers_solvent [OF assms(1)])
qed

end

section \<open>Reachable states\<close>

inductive re_step :: "u64 \<Rightarrow> key \<Rightarrow> store \<Rightarrow> store \<Rightarrow> bool" for rent pid where
  instruction: "solana_lamports rt pid \<Longrightarrow> minimum_balance rt ESCROW_ACCOUNT_LEN = rent \<Longrightarrow>
    re_process rt pid accounts d s = Inr s' \<Longrightarrow> re_step rent pid s s'"
| foreign: "foreign_step pid s s' \<Longrightarrow> re_step rent pid s s'"
| reap: "lamports (s k) = 0 \<Longrightarrow> re_step rent pid s (s(k := (s k)\<lparr>owner := SYSTEM_ID, data := []\<rparr>))"

inductive re_reachable :: "u64 \<Rightarrow> key \<Rightarrow> store \<Rightarrow> bool" for rent pid where
  genesis: "(\<And>k. owner (s k) \<noteq> pid) \<Longrightarrow> re_reachable rent pid s"
| step: "re_reachable rent pid s \<Longrightarrow> re_step rent pid s s' \<Longrightarrow> re_reachable rent pid s'"

lemma reap_keeps:
  assumes "lamports (s k) = 0" and "solvent rent pid s" and "rent \<noteq> 0" and "pid \<noteq> SYSTEM_ID"
  shows "re_grow pid {} s (s(k := (s k)\<lparr>owner := SYSTEM_ID, data := []\<rparr>))"
proof -
  have "\<not> re_live pid (s k)"
  proof
    assume "re_live pid (s k)"
    from solventD(1) [OF assms(2) this] assms(1,3) show False by (simp add: unat_eq_0)
  qed
  with assms(4) show ?thesis by (auto simp: re_grow_def re_keeps_def re_live_def)
qed

lemma genesis_solvent: "(\<And>k. owner (s k) \<noteq> pid) \<Longrightarrow> solvent rent pid s"
  by (simp add: solvent_def re_live_def)

lemma re_step_solvent:
  assumes "re_step rent pid s s'" and "solvent rent pid s" and "pid \<noteq> SYSTEM_ID"
  shows "solvent rent pid s'"
  using assms(1)
proof (cases rule: re_step.cases)
  case (instruction rt accounts d)
  with assms(2) show ?thesis using solana_lamports.re_process_solvent by metis
next
  case foreign
  with assms(2) show ?thesis by (blast intro: foreign_solvent)
next
  case (reap k)
  with assms(2,3) show ?thesis by (auto simp: solvent_def re_live_def)
qed

lemma re_reachable_solvent: "re_reachable rent pid s \<Longrightarrow> pid \<noteq> SYSTEM_ID \<Longrightarrow> solvent rent pid s"
  by (induction rule: re_reachable.induct) (auto intro: genesis_solvent re_step_solvent)

section \<open>Lifecycle\<close>

definition re_view :: "key \<Rightarrow> account \<Rightarrow> re_escrow option" where
  "re_view pid a = (if re_live pid a then Some (re_state a) else None)"

text \<open>The terms fixed when the escrow is opened.\<close>

definition same_terms :: "re_escrow \<Rightarrow> re_escrow \<Rightarrow> bool" where
  "same_terms e e' \<longleftrightarrow> re_buyer e' = re_buyer e \<and> re_seller e' = re_seller e \<and> re_amount e' = re_amount e \<and>
     re_payment_commitment e' = re_payment_commitment e \<and> re_deadline e' = re_deadline e \<and>
     re_dispute_deadline e' = re_dispute_deadline e \<and> re_dispute_window e' = re_dispute_window e \<and>
     re_created_at e' = re_created_at e \<and> re_bump e' = re_bump e \<and> re_version e' = re_version e"

text \<open>
  The lifecycle of one account: opened unbonded; while open it collects bond and is settled or
  refunded once, keeping its terms; afterwards it never changes again; it disappears only when it is
  resolved or bonded (a slash).
\<close>

fun re_next :: "re_escrow option \<Rightarrow> re_escrow option \<Rightarrow> bool" where
  "re_next None None = True"
| "re_next None (Some e) = (re_status e = RE_OPEN \<and> re_bond e = 0)"
| "re_next (Some e) None = (re_status e \<noteq> RE_OPEN \<or> re_bond e \<noteq> 0)"
| "re_next (Some e) (Some e') =
     (e' = e \<or>
      re_status e = RE_OPEN \<and> same_terms e e' \<and>
      (re_status e' = RE_OPEN \<and> re_bond e < re_bond e' \<or>
       re_status e' \<in> {RE_SETTLED_SUCCESS, RE_REFUNDED} \<and> re_bond e' = re_bond e))"

lemma re_next_refl: "re_next x x"
  by (cases x) auto

lemma re_grow_view: "re_grow pid A s s' \<Longrightarrow> k \<notin> A \<Longrightarrow> re_view pid (s' k) = re_view pid (s k)"
  by (auto simp: re_grow_def re_keeps_def re_view_def re_state_def)

lemma write_view:
  assumes "write_escrow escrow e s = Inr s'" and "re_version e = 1" and "owner (s (key escrow)) = pid"
  shows "re_view pid (s' (key escrow)) = Some e"
proof -
  from assms(1) obtain d where d: "re_pack e (data (s (key escrow))) = Inr d" "s' = set_data s (key escrow) d"
    by (auto simp: write_escrow_Inr)
  from written_live [OF d(1) assms(2)] d(2) assms(3) show ?thesis
    by (simp add: re_view_def re_live_def re_state_def)
qed

text \<open>A step that grows every account but one, and moves that one along the lifecycle.\<close>

lemma re_next_grow:
  assumes "re_grow pid {j} s s'" and "re_next (re_view pid (s j)) (re_view pid (s' j))"
  shows "re_next (re_view pid (s k)) (re_view pid (s' k))"
  using assms re_grow_view [OF assms(1), of k] by (cases "k = j") (auto simp: re_next_refl)

lemma write_grow: "re_grow pid {key escrow} s s1 \<Longrightarrow> write_escrow escrow e s1 = Inr s' \<Longrightarrow> re_grow pid {key escrow} s s'"
  by (auto simp: write_escrow_Inr intro: re_grow_trans set_data_grow)

lemma settle_success_next:
  assumes "settle_success rt pid accounts index s = Inr s'"
  shows "re_next (re_view pid (s k)) (re_view pid (s' k))"
proof -
  from assms obtain escrow seller_wallet e s1 and rcpt :: receipt where
    r: "load_escrow rt pid escrow s = Inr e" "re_status e = RE_OPEN"
      "re_pay_out rt escrow seller_wallet (re_amount e) s = Inr s1"
    and w: "write_escrow escrow
        (e\<lparr>re_status := RE_SETTLED_SUCCESS, re_response_hash := rc_response_hash rcpt\<rparr>) s1 = Inr s'"
    unfolding settle_success_Inr by (elim exE conjE) (rule that; assumption)
  have l: "re_live pid (s (key escrow))" and e: "e = re_state (s (key escrow))"
    using r(1) by (auto simp: load_escrow_Inr)
  have v: "re_view pid (s' (key escrow)) =
      Some (e\<lparr>re_status := RE_SETTLED_SUCCESS, re_response_hash := rc_response_hash rcpt\<rparr>)"
    using l pay_out_frame(1) [OF r(3)] by (intro write_view [OF w]) (auto simp: e re_live_version re_live_def)
  show ?thesis
    by (rule re_next_grow [OF write_grow [OF pay_out_grow [OF r(3)] w]])
      (use v l r(2) in \<open>auto simp: re_view_def e same_terms_def\<close>)
qed

lemma refund_on_timeout_next:
  assumes "refund_on_timeout rt pid accounts s = Inr s'"
  shows "re_next (re_view pid (s k)) (re_view pid (s' k))"
proof -
  from assms obtain escrow buyer_wallet e s1 where
    r: "load_escrow rt pid escrow s = Inr e" "re_status e = RE_OPEN"
      "re_pay_out rt escrow buyer_wallet (re_amount e) s = Inr s1"
    and w: "write_escrow escrow (e\<lparr>re_status := RE_REFUNDED\<rparr>) s1 = Inr s'"
    unfolding refund_on_timeout_Inr by (elim exE conjE) (rule that; assumption)
  have l: "re_live pid (s (key escrow))" and e: "e = re_state (s (key escrow))"
    using r(1) by (auto simp: load_escrow_Inr)
  have v: "re_view pid (s' (key escrow)) = Some (e\<lparr>re_status := RE_REFUNDED\<rparr>)"
    using l pay_out_frame(1) [OF r(3)] by (intro write_view [OF w]) (auto simp: e re_live_version re_live_def)
  show ?thesis
    by (rule re_next_grow [OF write_grow [OF pay_out_grow [OF r(3)] w]])
      (use v l r(2) in \<open>auto simp: re_view_def e same_terms_def\<close>)
qed

lemma close_next:
  assumes "load_escrow rt pid escrow s = Inr e" and "re_status e \<noteq> RE_OPEN \<or> re_bond e \<noteq> 0"
    and "re_grow pid {key escrow} s s1" and "re_close_escrow escrow dest s1 = Inr s'"
  shows "re_next (re_view pid (s k)) (re_view pid (s' k))"
  by (rule re_next_grow [OF re_grow_trans [OF assms(3) close_escrow_grow [OF assms(4)]]])
    (use assms(1,2) closed_not_live [OF assms(4), of pid] in \<open>auto simp: re_view_def load_escrow_Inr\<close>)

lemma prove_equivocation_next:
  assumes "prove_equivocation rt pid accounts ia ib s = Inr s'"
  shows "re_next (re_view pid (s k)) (re_view pid (s' k))"
proof -
  from assms obtain escrow buyer_wallet e s1 s2 where e: "load_escrow rt pid escrow s = Inr e" "re_bond e \<noteq> 0"
    and s1: "(if re_status e = RE_OPEN then re_pay_out rt escrow buyer_wallet (re_amount e) s else Inr s) = Inr s1"
    and s2: "re_pay_out rt escrow buyer_wallet (re_bond e) s1 = Inr s2"
    and s': "re_close_escrow escrow buyer_wallet s2 = Inr s'"
    unfolding prove_equivocation_Inr by (elim exE conjE) (rule that; assumption)
  have "re_grow pid {key escrow} s s1"
    using s1 by (auto intro: pay_out_grow re_grow_refl split: if_splits)
  then show ?thesis
    using close_next [OF e(1) _ re_grow_trans [OF _ pay_out_grow [OF s2]] s'] e(2) by blast
qed

lemma close_after_dispute_next:
  assumes "close_after_dispute rt pid accounts s = Inr s'"
  shows "re_next (re_view pid (s k)) (re_view pid (s' k))"
proof -
  from assms obtain escrow seller_wallet buyer_wallet s1 and e :: re_escrow where
    r: "load_escrow rt pid escrow s = Inr e" "re_status e \<noteq> RE_OPEN"
      "re_pay_out rt escrow seller_wallet (re_bond e) s = Inr s1" "re_close_escrow escrow buyer_wallet s1 = Inr s'"
    unfolding close_after_dispute_Inr by (elim exE conjE) (rule that; assumption)
  then show ?thesis using close_next [OF r(1) _ pay_out_grow [OF r(3)] r(4)] by blast
qed

context solana_lamports
begin

lemma re_open_escrow_next:
  assumes "re_open_escrow rt pid accounts seller amount pc deadline window s = Inr s'"
  shows "re_next (re_view pid (s k)) (re_view pid (s' k))"
proof -
  from assms obtain buyer escrow system_prog fund s1 dispute where
    inv: "invoke_signed rt
        (SystemCpi (CreateAccount (key buyer) (key escrow) fund (of_nat ESCROW_ACCOUNT_LEN) pid))
        [buyer, escrow, system_prog] [[ESCROW_SEED_PREFIX, pc, [snd (re_derive rt pid pc)]]] s = Inr s1"
    and w: "write_escrow escrow
       \<lparr>re_version = ESCROW_STATE_VERSION, re_bump = snd (re_derive rt pid pc), re_status = RE_OPEN,
        re_buyer = key buyer, re_seller = seller, re_amount = amount, re_bond = 0,
        re_payment_commitment = pc, re_deadline = deadline, re_dispute_deadline = dispute,
        re_response_hash = replicate 32 0, re_created_at = unix_timestamp rt,
        re_dispute_window = window\<rparr> s1 = Inr s'"
    unfolding re_open_escrow_Inr by (elim exE conjE) (rule that; assumption)
  note c = create_account_effect [OF inv] created_not_owned [OF inv]
  have "owner (s1 (key escrow)) = pid" using c by blast
  from write_view [OF w _ this] have v: "\<exists>e. re_view pid (s' (key escrow)) = Some e \<and> re_status e = RE_OPEN \<and> re_bond e = 0"
    by simp
  have n: "re_view pid (s (key escrow)) = None" using c by (simp add: re_view_def re_live_def)
  show ?thesis
    by (rule re_next_grow [OF write_grow [OF re_grow_mono [OF foreign_grow [OF system_foreign [OF inv]]] w]])
      (use v n in auto)
qed

lemma post_bond_next:
  assumes "post_bond rt pid accounts amount s = Inr s'"
  shows "re_next (re_view pid (s k)) (re_view pid (s' k))"
proof -
  from assms obtain seller escrow system_prog e s1 bond where
    r: "load_escrow rt pid escrow s = Inr e" "re_status e = RE_OPEN" "checked_add (re_bond e) amount = Some bond"
      "amount \<noteq> 0"
    and inv: "invoke rt (SystemCpi (Transfer (key seller) (key escrow) amount)) [seller, escrow, system_prog] s = Inr s1"
    and w: "write_escrow escrow (e\<lparr>re_bond := bond\<rparr>) s1 = Inr s'"
    unfolding post_bond_Inr by (elim exE conjE) (rule that; assumption)
  have l: "re_live pid (s (key escrow))" and e: "e = re_state (s (key escrow))"
    using r(1) by (auto simp: load_escrow_Inr)
  note f = system_foreign [OF inv [unfolded invoke_def]]
  have "owner (s1 (key escrow)) = pid" using f l by (auto simp: foreign_step_def re_live_def)
  then have v: "re_view pid (s' (key escrow)) = Some (e\<lparr>re_bond := bond\<rparr>)"
    using l by (intro write_view [OF w]) (auto simp: e re_live_version)
  have b: "re_bond e < bond"
    using checked_add_unat [OF r(3)] r(4) by (simp add: word_less_nat_alt unat_gt_0)
  show ?thesis
    by (rule re_next_grow [OF write_grow [OF re_grow_mono [OF foreign_grow [OF f]] w]])
      (use b v l r(2) in \<open>auto simp: re_view_def e same_terms_def\<close>)
qed

lemmas re_handlers_next =
  re_open_escrow_next post_bond_next settle_success_next refund_on_timeout_next prove_equivocation_next
  close_after_dispute_next

lemma re_process_next:
  assumes "re_process rt pid accounts d s = Inr s'"
  shows "re_next (re_view pid (s k)) (re_view pid (s' k))"
proof -
  from assms obtain i where "re_ix_unpack d = Inr i" by (auto simp: re_process_def)
  with assms show ?thesis
    by (cases i) (auto simp: re_process_def intro: re_handlers_next)
qed

end

lemma re_step_next:
  assumes "re_step rent pid s s'" and "solvent rent pid s" and "rent \<noteq> 0" and "pid \<noteq> SYSTEM_ID"
  shows "re_next (re_view pid (s k)) (re_view pid (s' k))"
  using assms(1)
proof (cases rule: re_step.cases)
  case (instruction rt accounts d)
  then show ?thesis using solana_lamports.re_process_next by metis
next
  case foreign
  then show ?thesis using re_grow_view [OF foreign_grow] re_next_refl by fastforce
next
  case (reap j)
  then show ?thesis using re_grow_view [OF reap_keeps [OF _ assms(2-4)]] re_next_refl by fastforce
qed

end
