(* ===== verification/ReScenario.thy ===== *)
theory ReScenario
  imports ReLife
begin

text \<open>
  Payout and closing as total functions of the accounts (when they succeed and what they move),
  what a receipt read through the instructions sysvar says about the seller's signature, and a
  concrete escrow the witnesses of the refund properties run on.
\<close>

section \<open>Exact payouts\<close>

lemma pay_out_exact:
  assumes "key dest \<noteq> key escrow"
    and "unat (minimum_balance rt ESCROW_ACCOUNT_LEN) + unat amount \<le> unat (lamports (s (key escrow)))"
    and "unat (lamports (s (key dest))) + unat amount < 2 ^ 64"
  shows "re_pay_out rt escrow dest amount s =
    Inr (set_lamports (set_lamports s (key escrow) (lamports (s (key escrow)) - amount)) (key dest)
          (lamports (s (key dest)) + amount))"
proof (cases "amount = 0")
  case True
  then show ?thesis by (simp add: re_pay_out_def set_lamports_def)
next
  case False
  have le: "amount \<le> lamports (s (key escrow))" using assms(2) by (simp add: word_le_nat_alt)
  have "\<not> lamports (s (key escrow)) - amount < minimum_balance rt ESCROW_ACCOUNT_LEN"
    using unat_sub_le [OF le] assms(2) by (simp add: word_less_nat_alt)
  with False le assms show ?thesis
    by (simp add: re_pay_out_def Let_def checked_sub_def checked_add_def set_lamports_apply)
qed

lemma close_escrow_exact:
  assumes "key dest \<noteq> key escrow"
    and "unat (lamports (s (key dest))) + unat (lamports (s (key escrow))) < 2 ^ 64"
  shows "\<exists>s'. re_close_escrow escrow dest s = Inr s' \<and>
    lamports (s' (key dest)) = lamports (s (key dest)) + lamports (s (key escrow)) \<and>
    lamports (s' (key escrow)) = 0 \<and> (\<forall>k. k \<notin> {key dest, key escrow} \<longrightarrow> s' k = s k)"
  using assms by (simp add: re_close_escrow_def Let_def checked_add_def set_lamports_def set_data_def)

lemma write_escrow_exact:
  assumes "re_wf e" and "179 \<le> length (data (s (key escrow)))"
  shows "\<exists>d. write_escrow escrow e s = Inr (set_data s (key escrow) d)"
  using re_codec.pack_total [of e "data (s (key escrow))"] assms by (auto simp: write_escrow_def)

lemma re_state_wf: "re_live pid a \<Longrightarrow> re_wf (re_state a)"
  using re_codec.of_wf by (simp add: re_live_def re_state_def)

lemma re_pay_moves:
  assumes "re_pay_out rt escrow dest amount s = Inr s'" and "key dest \<noteq> key escrow"
  shows "unat (lamports (s' (key dest))) = unat (lamports (s (key dest))) + unat amount"
    and "unat (lamports (s' (key escrow))) + unat amount = unat (lamports (s (key escrow)))"
    and "k \<notin> {key dest, key escrow} \<Longrightarrow> s' k = s k"
  using assms
  by (auto simp: re_pay_out_def Let_def set_lamports_apply set_lamports_def
      dest!: checked_add_unat checked_sub_unat split: if_splits)

section \<open>Vouches\<close>

text \<open>
  What the ed25519 precompile guarantees of a transaction that runs: the first signature record of
  each of its instructions, when it refers to its own instruction only, has been verified;
  \<open>vouched pk m\<close> says that the owner of \<open>pk\<close> signed \<open>m\<close>.
\<close>

definition precompile_verified :: "runtime \<Rightarrow> (key \<Rightarrow> bytes \<Rightarrow> bool) \<Rightarrow> bool" where
  "precompile_verified rt vouched \<longleftrightarrow>
     (\<forall>i acc s ix pk m. load_instruction_at rt i acc s = Inr ix \<longrightarrow> ix_program ix = ED25519_ID \<longrightarrow>
        extract_pubkey_and_message (ix_data ix) 0 = Inr (pk, m) \<longrightarrow> vouched pk m)"

lemma length_receipt_fields:
  "receipt_decode m = Inr r \<Longrightarrow> length (rc_payment_commitment r) = 32 \<and> length (rc_response_hash r) = 32"
  by (auto simp: receipt_decode_def Let_def length_slice split: if_splits)

lemma bytes_split: "n \<le> length xs \<Longrightarrow> xs = take n xs @ drop n xs"
  by simp

lemma receipt_decode_encode:
  "receipt_decode m = Inr r \<Longrightarrow> receipt_encode r = m"
proof -
  assume a: "receipt_decode m = Inr r"
  then have l: "length m = 86" "slice m 0 13 = RECEIPT_DOMAIN" and r: "r = \<lparr>rc_payment_commitment = slice m 13 32,
      rc_status = m ! 45, rc_response_hash = slice m 46 32, rc_deadline = get_u64 m 78\<rparr>"
    by (auto simp: receipt_decode_def Let_def split: if_splits)
  have "receipt_encode r = slice m 0 13 @ slice m 13 32 @ slice m 45 1 @ slice m 46 32 @ slice m 78 8"
    using l by (simp add: r receipt_encode_def u64_le_get_u64 slice_single)
  also have "\<dots> = slice m 0 86"
    using slice_join [of m 46 32 8] slice_join [of m 45 1 40] slice_join [of m 13 32 41]
      slice_join [of m 0 13 73] by simp
  also have "\<dots> = m" using l by (simp add: slice_def)
  finally show ?thesis .
qed

lemma read_receipt_signed:
  assumes "precompile_verified rt vouched" and "read_receipt rt acc i pk s = Inr r"
  shows "vouched pk (receipt_encode r)"
proof -
  from assms(2) obtain ix m where "load_instruction_at rt (unat i) acc s = Inr ix" "ix_program ix = ED25519_ID"
    "extract_pubkey_and_message (ix_data ix) 0 = Inr (pk, m)" "receipt_decode m = Inr r"
    by (auto simp: read_receipt_def split: if_splits)
  with assms(1) receipt_decode_encode show ?thesis unfolding precompile_verified_def by blast
qed

section \<open>A concrete escrow\<close>

definition RE_PID :: key where "RE_PID = replicate 32 9"
definition RE_BUYER :: key where "RE_BUYER = replicate 32 1"
definition RE_SELLER :: key where "RE_SELLER = replicate 32 2"
definition RE_PC :: bytes where "RE_PC = replicate 32 3"
definition RE_KEY :: key where "RE_KEY = ref_address [ESCROW_SEED_PREFIX, RE_PC]"

definition re_bytes :: "re_escrow \<Rightarrow> bytes" where
  "re_bytes e = [re_version e, re_bump e, re_status e] @ re_buyer e @ re_seller e @ u64_le (re_amount e) @
     u64_le (re_bond e) @ re_payment_commitment e @ u64_le (re_deadline e) @ u64_le (re_dispute_deadline e) @
     re_response_hash e @ u64_le (re_created_at e) @ u64_le (re_dispute_window e)"

definition re_sample :: "u8 \<Rightarrow> re_escrow" where
  "re_sample st = \<lparr>re_version = 1, re_bump = 255, re_status = st, re_buyer = RE_BUYER, re_seller = RE_SELLER,
     re_amount = 50, re_bond = 20, re_payment_commitment = RE_PC, re_deadline = 900,
     re_dispute_deadline = 950, re_response_hash = replicate 32 0, re_created_at = 100,
     re_dispute_window = 50\<rparr>"

definition re_store :: "u8 \<Rightarrow> store" where
  "re_store st = (\<lambda>k. if k = RE_KEY then \<lparr>lamports = 349, owner = RE_PID, data = re_bytes (re_sample st)\<rparr>
     else \<lparr>lamports = 1000, owner = SYSTEM_ID, data = []\<rparr>)"

definition acc :: "key \<Rightarrow> bool \<Rightarrow> account_info" where
  "acc k sg = \<lparr>key = k, is_signer = sg, is_writable = True\<rparr>"

lemma slice_append_left: "n \<le> length xs \<Longrightarrow> slice (xs @ ys) 0 n = take n xs"
  by (simp add: slice_def)

lemma slice_append_right: "length xs \<le> off \<Longrightarrow> slice (xs @ ys) off n = slice ys (off - length xs) n"
  by (simp add: slice_def)

lemma slice_cons: "0 < off \<Longrightarrow> slice (x # xs) off n = slice xs (off - 1) n"
  by (cases off) (simp_all add: slice_def)

lemma slice_all: "length xs \<le> n \<Longrightarrow> slice xs 0 n = xs"
  by (simp add: slice_def)

lemma slice_hd: "slice (x # xs) 0 (Suc 0) = [x]"
  by (simp add: slice_def)

lemma re_of_bytes: "re_wf e \<Longrightarrow> re_of (re_bytes e) = e"
  by (simp add: re_wf_def re_of_def re_bytes_def get_u64_def slice_append_left slice_append_right slice_cons
      slice_all numeral_2_eq_2)

lemma length_re_bytes: "re_wf e \<Longrightarrow> length (re_bytes e) = 179"
  by (simp add: re_wf_def re_bytes_def)

lemma re_sample_wf: "re_wf (re_sample st)"
  by (simp add: re_wf_def re_sample_def RE_BUYER_def RE_SELLER_def RE_PC_def)

section \<open>Runs that succeed\<close>

text \<open>
  In a solvent state the payment of an overdue open escrow can be refunded, and the bond of a
  resolved escrow past its dispute deadline can be released: no guard of the handlers blocks it.
\<close>

lemma refund_runs:
  assumes sol: "solvent (minimum_balance rt ESCROW_ACCOUNT_LEN) pid s"
    and load: "load_escrow rt pid escrow s = Inr e" and st: "re_status e = RE_OPEN"
    and late: "sint (re_deadline e) < sint (unix_timestamp rt)"
    and b: "key buyer = re_buyer e" "key buyer \<noteq> key escrow"
    and fits: "unat (lamports (s (key buyer))) + unat (re_amount e) < 2 ^ 64"
  shows "\<exists>s'. refund_on_timeout rt pid (escrow # buyer # rest) s = Inr s' \<and>
    re_view pid (s' (key escrow)) = Some (e\<lparr>re_status := RE_REFUNDED\<rparr>) \<and>
    unat (lamports (s' (key buyer))) = unat (lamports (s (key buyer))) + unat (re_amount e) \<and>
    unat (lamports (s' (key escrow))) + unat (re_amount e) = unat (lamports (s (key escrow))) \<and>
    (\<forall>k. k \<notin> {key buyer, key escrow} \<longrightarrow> s' k = s k)"
proof -
  have l: "re_live pid (s (key escrow))" and e: "e = re_state (s (key escrow))"
    using load by (auto simp: load_escrow_Inr)
  have cover: "unat (minimum_balance rt ESCROW_ACCOUNT_LEN) + unat (re_amount e) \<le> unat (lamports (s (key escrow)))"
    using solventD(1) [OF sol l] st by (simp add: re_due_def e)
  from pay_out_exact [OF b(2) cover fits] obtain s1 where
    s1: "re_pay_out rt escrow buyer (re_amount e) s = Inr s1" by blast
  have own: "owner (s1 (key escrow)) = pid" "179 \<le> length (data (s1 (key escrow)))"
    using pay_out_frame(1,2) [OF s1] l by (auto simp: re_live_def)
  have wf: "re_wf (e\<lparr>re_status := RE_REFUNDED\<rparr>)" using re_state_wf [OF l] by (simp add: re_wf_def e)
  obtain d where w: "write_escrow escrow (e\<lparr>re_status := RE_REFUNDED\<rparr>) s1 = Inr (set_data s1 (key escrow) d)"
    using write_escrow_exact [of _ s1 escrow, OF wf own(2)] by blast
  have "refund_on_timeout rt pid (escrow # buyer # rest) s = Inr (set_data s1 (key escrow) d)"
    unfolding refund_on_timeout_Inr using load st late b(1) s1 w by blast
  moreover have "re_view pid (set_data s1 (key escrow) d (key escrow)) = Some (e\<lparr>re_status := RE_REFUNDED\<rparr>)"
    by (rule write_view [OF w _ own(1)]) (simp add: e re_live_version [OF l])
  ultimately show ?thesis
    using re_pay_moves [OF s1 b(2)] b(2)
    by (intro exI [of _ "set_data s1 (key escrow) d"]) auto
qed

lemma settle_runs:
  assumes sol: "solvent (minimum_balance rt ESCROW_ACCOUNT_LEN) pid s"
    and load: "load_escrow rt pid escrow s = Inr e" and st: "re_status e = RE_OPEN"
    and due: "sint (unix_timestamp rt) \<le> sint (re_deadline e)"
    and k: "is_signer seller" "key seller = re_seller e" "key wallet = re_seller e" "key wallet \<noteq> key escrow"
    and r: "read_receipt rt ix_sysvar index (re_seller e) s = Inr rcpt"
      "rc_payment_commitment rcpt = re_payment_commitment e" "rc_deadline rcpt = re_deadline e"
      "rc_status rcpt = STATUS_SUCCESS" "length (rc_response_hash rcpt) = 32"
    and fits: "unat (lamports (s (key wallet))) + unat (re_amount e) < 2 ^ 64"
  shows "\<exists>s'. settle_success rt pid (seller # escrow # wallet # ix_sysvar # rest) index s = Inr s'"
proof -
  have l: "re_live pid (s (key escrow))" and e: "e = re_state (s (key escrow))"
    using load by (auto simp: load_escrow_Inr)
  have cover: "unat (minimum_balance rt ESCROW_ACCOUNT_LEN) + unat (re_amount e) \<le> unat (lamports (s (key escrow)))"
    using solventD(1) [OF sol l] st by (simp add: re_due_def e)
  from pay_out_exact [OF k(4) cover fits] obtain s1 where
    s1: "re_pay_out rt escrow wallet (re_amount e) s = Inr s1" by blast
  have own: "179 \<le> length (data (s1 (key escrow)))"
    using pay_out_frame(1,2) [OF s1] l by (auto simp: re_live_def)
  have wf: "re_wf (e\<lparr>re_status := RE_SETTLED_SUCCESS, re_response_hash := rc_response_hash rcpt\<rparr>)"
    using re_state_wf [OF l] r(5) by (simp add: re_wf_def e)
  show ?thesis
    unfolding settle_success_Inr using write_escrow_exact [of _ s1 escrow, OF wf own] load st due k r s1 by blast
qed

lemma close_runs:
  assumes sol: "solvent (minimum_balance rt ESCROW_ACCOUNT_LEN) pid s"
    and load: "load_escrow rt pid escrow s = Inr e" and st: "re_status e \<noteq> RE_OPEN"
    and late: "sint (re_dispute_deadline e) < sint (unix_timestamp rt)"
    and k: "key buyer = re_buyer e" "key seller = re_seller e" "distinct [key escrow, key buyer, key seller]"
    and fits: "unat (lamports (s (key buyer))) + unat (lamports (s (key escrow))) < 2 ^ 64"
      "unat (lamports (s (key seller))) + unat (re_bond e) < 2 ^ 64"
  shows "\<exists>s'. close_after_dispute rt pid (escrow # seller # buyer # rest) s = Inr s' \<and>
    re_view pid (s' (key escrow)) = None \<and> lamports (s' (key escrow)) = 0 \<and>
    unat (lamports (s' (key seller))) = unat (lamports (s (key seller))) + unat (re_bond e) \<and>
    unat (lamports (s' (key buyer))) + unat (re_bond e) =
      unat (lamports (s (key buyer))) + unat (lamports (s (key escrow)))"
proof -
  have l: "re_live pid (s (key escrow))" and e: "e = re_state (s (key escrow))"
    using load by (auto simp: load_escrow_Inr)
  have ne: "key seller \<noteq> key escrow" "key buyer \<noteq> key escrow" "key seller \<noteq> key buyer" using k(3) by auto
  have cover: "unat (minimum_balance rt ESCROW_ACCOUNT_LEN) + unat (re_bond e) \<le> unat (lamports (s (key escrow)))"
    using solventD(1) [OF sol l] by (simp add: re_due_def e)
  from pay_out_exact [OF ne(1) cover fits(2)] obtain s1 where
    s1: "re_pay_out rt escrow seller (re_bond e) s = Inr s1" by blast
  note m = re_pay_moves [OF s1 ne(1)]
  have b1: "s1 (key buyer) = s (key buyer)" using m(3) [of "key buyer"] ne by simp
  with m(2) fits(1) have small: "unat (lamports (s1 (key buyer))) + unat (lamports (s1 (key escrow))) < 2 ^ 64" by simp
  from close_escrow_exact [OF ne(2) small] obtain s' where
    s': "re_close_escrow escrow buyer s1 = Inr s'"
      "lamports (s' (key buyer)) = lamports (s1 (key buyer)) + lamports (s1 (key escrow))"
      "lamports (s' (key escrow)) = 0" "\<forall>k. k \<notin> {key buyer, key escrow} \<longrightarrow> s' k = s1 k" by blast
  have "close_after_dispute rt pid (escrow # seller # buyer # rest) s = Inr s'"
    unfolding close_after_dispute_Inr using load st late k(1,2) s1 s'(1) by blast
  moreover have "unat (lamports (s' (key buyer))) = unat (lamports (s1 (key buyer))) + unat (lamports (s1 (key escrow)))"
    using small by (simp add: s'(2) unat_word_ariths)
  moreover have "s' (key seller) = s1 (key seller)" using s'(4) ne by simp
  ultimately show ?thesis
    using m(1,2) b1 s'(3) closed_not_live [OF s'(1), of pid]
    by (intro exI [of _ s']) (auto simp: re_view_def)
qed

lemma slash_runs:
  assumes sol: "solvent (minimum_balance rt ESCROW_ACCOUNT_LEN) pid s"
    and load: "load_escrow rt pid escrow s = Inr e" and st: "re_bond e \<noteq> 0"
    and r: "read_receipt rt ix_sysvar ia (re_seller e) s = Inr ra" "read_receipt rt ix_sysvar ib (re_seller e) s = Inr rb"
      "rc_payment_commitment ra = re_payment_commitment e" "rc_deadline ra = re_deadline e"
      "rc_deadline rb = re_deadline e" "receipts_conflict ra rb"
    and b: "key buyer = re_buyer e" "key buyer \<noteq> key escrow"
    and fits: "unat (lamports (s (key buyer))) + unat (lamports (s (key escrow))) < 2 ^ 64"
  shows "\<exists>s'. prove_equivocation rt pid (escrow # buyer # ix_sysvar # rest) ia ib s = Inr s' \<and>
    re_view pid (s' (key escrow)) = None \<and> lamports (s' (key escrow)) = 0 \<and>
    unat (lamports (s' (key buyer))) = unat (lamports (s (key buyer))) + unat (lamports (s (key escrow)))"
proof -
  have l: "re_live pid (s (key escrow))" and e: "e = re_state (s (key escrow))"
    using load by (auto simp: load_escrow_Inr)
  let ?rent = "unat (minimum_balance rt ESCROW_ACCOUNT_LEN)"
  note due = solventD(1) [OF sol l, folded e]
  obtain s1 where s1: "(if re_status e = RE_OPEN then re_pay_out rt escrow buyer (re_amount e) s else Inr s) = Inr s1"
    and m1: "?rent + unat (re_bond e) \<le> unat (lamports (s1 (key escrow)))"
      "unat (lamports (s1 (key buyer))) + unat (lamports (s1 (key escrow))) =
       unat (lamports (s (key buyer))) + unat (lamports (s (key escrow)))"
  proof (cases "re_status e = RE_OPEN")
    case True
    have "unat (lamports (s (key buyer))) + unat (re_amount e) < 2 ^ 64"
      and "?rent + unat (re_amount e) \<le> unat (lamports (s (key escrow)))"
      using due fits True by (auto simp: re_due_def)
    from pay_out_exact [OF b(2) this(2) this(1)] obtain s1 where
      s1: "re_pay_out rt escrow buyer (re_amount e) s = Inr s1" by blast
    with True due re_pay_moves [OF s1 b(2)] show ?thesis by (intro that [of s1]) (auto simp: re_due_def)
  next
    case False
    with due show ?thesis by (intro that [of s]) (auto simp: re_due_def)
  qed
  have "unat (lamports (s1 (key buyer))) + unat (re_bond e) < 2 ^ 64" using m1 fits by simp
  from pay_out_exact [OF b(2) m1(1) this] obtain s2 where
    s2: "re_pay_out rt escrow buyer (re_bond e) s1 = Inr s2" by blast
  note m2 = re_pay_moves [OF s2 b(2)]
  have small: "unat (lamports (s2 (key buyer))) + unat (lamports (s2 (key escrow))) < 2 ^ 64" using m1(2) m2 fits by simp
  from close_escrow_exact [OF b(2) small] obtain s' where s': "re_close_escrow escrow buyer s2 = Inr s'"
      "lamports (s' (key buyer)) = lamports (s2 (key buyer)) + lamports (s2 (key escrow))"
      "lamports (s' (key escrow)) = 0" by blast
  have "prove_equivocation rt pid (escrow # buyer # ix_sysvar # rest) ia ib s = Inr s'"
    unfolding prove_equivocation_Inr using load st r b(1) s1 s2 s'(1) by (metis receipts_conflict_def)
  moreover have "unat (lamports (s' (key buyer))) = unat (lamports (s2 (key buyer))) + unat (lamports (s2 (key escrow)))"
    using small by (simp add: s'(2) unat_word_ariths)
  ultimately show ?thesis
    using m1(2) m2 s'(3) closed_not_live [OF s'(1), of pid] by (intro exI [of _ s']) (auto simp: re_view_def)
qed

section \<open>A run from genesis\<close>

fun re_ix_wf :: "escrow_instruction \<Rightarrow> bool" where
  "re_ix_wf (OpenEscrow seller amount pc deadline window) = (length seller = 32 \<and> length pc = 32)"
| "re_ix_wf _ = True"

lemma re_ix_unpack_pack: "re_ix_wf i \<Longrightarrow> re_ix_unpack (re_ix_pack i) = Inr i"
  by (cases i)
    (simp_all add: re_ix_unpack_def read_u64_def read_i64_def slice_append_left slice_append_right slice_cons
      slice_all)

definition re_genesis :: store where
  "re_genesis = (\<lambda>k. \<lparr>lamports = (if k = RE_KEY then 0 else 1000), owner = SYSTEM_ID, data = []\<rparr>)"

definition re_opened :: re_escrow where
  "re_opened = \<lparr>re_version = 1, re_bump = 255, re_status = RE_OPEN, re_buyer = RE_BUYER, re_seller = RE_SELLER,
     re_amount = 50, re_bond = 0, re_payment_commitment = RE_PC, re_deadline = 1100,
     re_dispute_deadline = 1150, re_response_hash = replicate 32 0, re_created_at = 1000,
     re_dispute_window = 50\<rparr>"

definition re_open_accounts :: "account_info list" where
  "re_open_accounts = [acc RE_BUYER True, acc RE_KEY False, acc SYSTEM_ID False]"

lemma RE_KEY_hd: "hd RE_KEY = 123"
  by (simp add: RE_KEY_def ref_address_def ESCROW_SEED_PREFIX_def RE_PC_def upt_conv_Cons)

lemma re_keys_distinct: "distinct [RE_KEY, RE_BUYER, RE_SELLER, RE_PID, SYSTEM_ID]"
proof -
  have "distinct (map hd [RE_KEY, RE_BUYER, RE_SELLER, RE_PID, SYSTEM_ID])"
    by (simp add: RE_KEY_hd RE_BUYER_def RE_SELLER_def RE_PID_def SYSTEM_ID_def)
  then show ?thesis by (simp only: distinct_map)
qed

lemma re_keys_neq [simp]:
  "RE_KEY \<noteq> RE_BUYER" "RE_KEY \<noteq> RE_SELLER" "RE_BUYER \<noteq> RE_KEY" "RE_SELLER \<noteq> RE_KEY"
  "RE_BUYER \<noteq> RE_SELLER" "RE_SELLER \<noteq> RE_BUYER"
  using re_keys_distinct by auto

lemma re_opened_wf: "re_wf re_opened"
  by (simp add: re_wf_def re_opened_def RE_BUYER_def RE_SELLER_def RE_PC_def)

lemma re_pid_not_system: "RE_PID \<noteq> SYSTEM_ID"
  using re_keys_distinct by simp

lemma ref_rent: "minimum_balance ref_runtime 179 = 279"
  by (simp add: ref_runtime_def)

lemma re_open_run:
  "\<exists>s1. re_process ref_runtime RE_PID re_open_accounts (re_ix_pack (OpenEscrow RE_SELLER 50 RE_PC 1100 50)) re_genesis =
      Inr s1 \<and> re_view RE_PID (s1 RE_KEY) = Some re_opened \<and> lamports (s1 RE_KEY) = 329 \<and>
    lamports (s1 RE_BUYER) = 671 \<and> lamports (s1 RE_SELLER) = 1000 \<and> s1 RE_SELLER = re_genesis RE_SELLER"
proof -
  define s0 where "s0 = set_owner (set_data (set_lamports (set_lamports re_genesis RE_BUYER 671) RE_KEY 329)
      RE_KEY (replicate 179 0)) RE_KEY RE_PID"
  have k: "RE_KEY \<noteq> RE_BUYER" "RE_KEY \<noteq> RE_SELLER" "RE_SELLER \<noteq> RE_BUYER" using re_keys_distinct by auto
  have inv: "invoke_signed ref_runtime (SystemCpi (CreateAccount RE_BUYER RE_KEY 329 179 RE_PID))
      [acc RE_BUYER True, acc RE_KEY False, acc SYSTEM_ID False] [[ESCROW_SEED_PREFIX, RE_PC, [255]]] re_genesis = Inr s0"
    using k
    by (simp add: ref_runtime_def ref_invoke_def signed_by_def acc_def re_genesis_def move_lamports_def
        set_lamports_apply checked_add_def s0_def Let_def)
  have own: "owner (s0 RE_KEY) = RE_PID" and dat: "data (s0 RE_KEY) = replicate 179 0"
    by (simp_all add: s0_def set_apply)
  obtain d where w: "write_escrow (acc RE_KEY False) re_opened s0 = Inr (set_data s0 RE_KEY d)"
    using write_escrow_exact [OF re_opened_wf, of s0 "acc RE_KEY False"] dat by (auto simp: acc_def)
  have der: "re_derive ref_runtime RE_PID RE_PC = (RE_KEY, 255)"
    by (simp add: re_derive_def ref_runtime_def RE_KEY_def)
  have "re_open_escrow ref_runtime RE_PID re_open_accounts RE_SELLER 50 RE_PC 1100 50 re_genesis =
      Inr (set_data s0 RE_KEY d)"
    unfolding re_open_escrow_Inr re_open_accounts_def
    by (rule exI [of _ "acc RE_BUYER True"], rule exI [of _ "acc RE_KEY False"],
        rule exI [of _ "acc SYSTEM_ID False"], rule exI [of _ "[]"], rule exI [of _ 329], rule exI [of _ s0],
        rule exI [of _ 1150])
      (use inv w in \<open>simp add: der ref_rent acc_def checked_add_def checked_add_i64_def re_opened_def re_genesis_def,
        simp add: ref_runtime_def\<close>)
  moreover have "re_view RE_PID (set_data s0 RE_KEY d RE_KEY) = Some re_opened"
    using write_view [OF w, of RE_PID] own by (simp add: acc_def re_opened_def)
  moreover have "re_ix_unpack (re_ix_pack (OpenEscrow RE_SELLER 50 RE_PC 1100 50)) = Inr (OpenEscrow RE_SELLER 50 RE_PC 1100 50)"
    by (rule re_ix_unpack_pack) (simp add: RE_SELLER_def RE_PC_def)
  ultimately show ?thesis
    using k by (intro exI [of _ "set_data s0 RE_KEY d"])
      (auto simp: re_process_def s0_def set_apply re_genesis_def set_owner_def set_lamports_def
        simp del: re_ix_pack.simps)
qed

lemma re_genesis_reachable: "re_reachable rent RE_PID re_genesis"
  by (rule re_reachable.genesis) (use re_pid_not_system in \<open>simp add: re_genesis_def\<close>)

lemma re_open_step:
  assumes "re_process ref_runtime RE_PID accounts d s = Inr s'"
  shows "re_step 279 RE_PID s s'"
  using assms ref_rent ref_runtime_lamports [OF re_pid_not_system] by (auto intro: re_step.instruction)

text \<open>A reachable state with an open escrow of 50 lamports, due at 1100.\<close>

lemma re_reachable_open:
  "\<exists>s1. re_reachable 279 RE_PID s1 \<and> re_view RE_PID (s1 RE_KEY) = Some re_opened \<and> lamports (s1 RE_KEY) = 329 \<and>
    lamports (s1 RE_BUYER) = 671 \<and> lamports (s1 RE_SELLER) = 1000 \<and> s1 RE_SELLER = re_genesis RE_SELLER"
  using re_open_run re_open_step re_reachable.step [OF re_genesis_reachable] by metis

lemma re_view_load:
  assumes "re_view RE_PID (s RE_KEY) = Some e" and "re_payment_commitment e = RE_PC"
    and "create_program_address rt = create_program_address ref_runtime"
  shows "load_escrow rt RE_PID (acc RE_KEY False) s = Inr e"
  using assms
  by (auto simp: load_escrow_Inr re_view_def acc_def RE_KEY_def ref_runtime_def split: if_splits)

section \<open>Instructions of the ed25519 precompile\<close>

text \<open>
  The data of an ed25519 precompile instruction with one signature record, laid out as the client
  library does: offsets, key, signature, message.
\<close>

definition ed25519_blob :: "u16 \<Rightarrow> key \<Rightarrow> bytes \<Rightarrow> bytes \<Rightarrow> bytes" where
  "ed25519_blob ii pk sig msg =
     [1, 0] @ u16_le 48 @ u16_le ii @ u16_le 16 @ u16_le ii @ u16_le 112 @ u16_le (of_nat (length msg)) @ u16_le ii @
     pk @ sig @ msg"

text \<open>The same layout with a separate instruction index for the signature, the key and the message.\<close>

definition ed25519_record :: "u16 \<Rightarrow> u16 \<Rightarrow> u16 \<Rightarrow> key \<Rightarrow> bytes \<Rightarrow> bytes \<Rightarrow> bytes" where
  "ed25519_record sig_ii pk_ii msg_ii pk sig msg =
     [1, 0] @ u16_le 48 @ u16_le sig_ii @ u16_le 16 @ u16_le pk_ii @ u16_le 112 @ u16_le (of_nat (length msg)) @ u16_le msg_ii @
     pk @ sig @ msg"

lemma blob_record: "ed25519_blob ii pk sig msg = ed25519_record ii ii ii pk sig msg"
  by (simp add: ed25519_blob_def ed25519_record_def)

lemma extract_record:
  assumes "length pk = 32" and "length sig = 64" and "length msg < 65536"
  shows "extract_pubkey_and_message (ed25519_record si ki mi pk sig msg) 0 =
    (if si = U16_MAX \<and> ki = U16_MAX \<and> mi = U16_MAX then Inr (pk, msg) else re_fail InvalidReceiptSignature)"
proof -
  define d where "d = ed25519_record si ki mi pk sig msg"
  have len: "length d = 112 + length msg" using assms by (simp add: d_def ed25519_record_def)
  have f: "get_u16 d 4 = si" "get_u16 d 6 = 16" "get_u16 d 8 = ki" "get_u16 d 10 = 112"
    "get_u16 d 12 = of_nat (length msg)" "get_u16 d 14 = mi"
    by (simp_all add: d_def ed25519_record_def get_u16_def slice_append_left slice_append_right slice_cons slice_all)
  have p: "slice d 16 32 = pk" "slice d 112 (length msg) = msg"
    using assms by (simp_all add: d_def ed25519_record_def slice_append_left slice_append_right slice_cons slice_all)
  have m: "unat (of_nat (length msg) :: u16) = length msg" using assms(3) by (simp add: unat_of_nat)
  have one: "unat (d ! 0) = 1" by (simp add: d_def ed25519_record_def)
  show ?thesis
    unfolding d_def [symmetric] extract_pubkey_and_message_def Let_def by (auto simp: f len one m p)
qed

text \<open>What is accepted, from any bytes: a record whose three parts are in the same instruction.\<close>

lemma extract_accepts:
  assumes "extract_pubkey_and_message d i = Inr (pk, msg)"
  shows "\<forall>off \<in> {2, 6, 12}. get_u16 d (2 + i * 14 + off) = U16_MAX" and "length pk = 32"
    and "\<exists>off n. off + n \<le> length d \<and> msg = slice d off n" and "\<exists>off. off + 32 \<le> length d \<and> pk = slice d off 32"
  using assms by (auto simp: extract_pubkey_and_message_def Let_def length_slice not_less split: if_splits)

definition ed25519_runtime :: "u64 \<Rightarrow> bytes list \<Rightarrow> runtime" where
  "ed25519_runtime t blobs = ref_runtime\<lparr>unix_timestamp := t, load_instruction_at := (\<lambda>i _ _.
     if i < length blobs then Inr \<lparr>ix_program = ED25519_ID, ix_accounts = [], ix_data = blobs ! i\<rparr>
     else Inl InvalidAccountData)\<rparr>"

definition re_vouch :: "u8 \<Rightarrow> u8 \<Rightarrow> i64 \<Rightarrow> receipt" where
  "re_vouch st x t = \<lparr>rc_payment_commitment = RE_PC, rc_status = st, rc_response_hash = replicate 32 x, rc_deadline = t\<rparr>"

definition re_vouch_blob :: "receipt \<Rightarrow> bytes" where
  "re_vouch_blob r = ed25519_blob U16_MAX RE_SELLER (replicate 64 0) (receipt_encode r)"

lemma re_vouch_extract:
  "extract_pubkey_and_message (re_vouch_blob (re_vouch st x t)) 0 = Inr (RE_SELLER, receipt_encode (re_vouch st x t))"
  unfolding re_vouch_blob_def
  by (subst blob_record, subst extract_record) (simp_all add: RE_SELLER_def receipt_encode_def re_vouch_def RE_PC_def RECEIPT_DOMAIN_def)

lemma receipt_decode_of_encode:
  assumes "length (rc_payment_commitment r) = 32" and "length (rc_response_hash r) = 32"
    and "rc_status r = STATUS_FAIL \<or> rc_status r = STATUS_SUCCESS"
  shows "receipt_decode (receipt_encode r) = Inr r"
proof -
  have d: "length RECEIPT_DOMAIN = 13" by (simp add: RECEIPT_DOMAIN_def)
  let ?m = "receipt_encode r"
  have l: "length ?m = 86" using assms d by (simp add: receipt_encode_def)
  have "slice ?m 0 13 = RECEIPT_DOMAIN" "slice ?m 13 32 = rc_payment_commitment r" "slice ?m 45 1 = [rc_status r]"
    "slice ?m 46 32 = rc_response_hash r" "get_u64 ?m 78 = rc_deadline r"
    using assms d
    by (simp_all add: receipt_encode_def get_u64_def slice_append_left slice_append_right slice_cons slice_all
        slice_hd)
  moreover from this(3) have "?m ! 45 = rc_status r" using nth_as_slice [of 45 ?m] l by simp
  ultimately show ?thesis using l assms(3) by (auto simp: receipt_decode_def Let_def)
qed

lemma re_vouch_read:
  assumes "st = 0 \<or> st = 1" and "unat i < length vs" and "vs ! unat i = re_vouch st x d"
  shows "read_receipt (ed25519_runtime t (map re_vouch_blob vs)) (acc INSTRUCTIONS_ID False) i RE_SELLER s =
    Inr (re_vouch st x d)"
proof -
  have "receipt_decode (receipt_encode (re_vouch st x d)) = Inr (re_vouch st x d)"
    by (rule receipt_decode_of_encode) (use assms in \<open>auto simp: re_vouch_def RE_PC_def\<close>)
  with assms show ?thesis
    by (simp add: read_receipt_def acc_def ed25519_runtime_def re_vouch_extract)
qed

lemma re_vouch_verified:
  assumes "\<And>v. v \<in> set vs \<Longrightarrow> \<exists>st x d. v = re_vouch st x d"
  shows "precompile_verified (ed25519_runtime t (map re_vouch_blob vs))
    (\<lambda>pk m. pk = RE_SELLER \<and> m \<in> receipt_encode ` set vs)"
  unfolding precompile_verified_def
proof (intro allI impI)
  fix i a s ix pk m
  assume l: "load_instruction_at (ed25519_runtime t (map re_vouch_blob vs)) i a s = Inr ix"
    and x: "extract_pubkey_and_message (ix_data ix) 0 = Inr (pk, m)"
  from l have i: "i < length vs" "ix_data ix = re_vouch_blob (vs ! i)"
    by (auto simp: ed25519_runtime_def split: if_splits)
  from assms [of "vs ! i"] i(1) obtain st y d where v: "vs ! i = re_vouch st y d" by auto
  with x i(2) have "pk = RE_SELLER" "m = receipt_encode (vs ! i)" by (simp_all add: re_vouch_extract)
  with i(1) show "pk = RE_SELLER \<and> m \<in> receipt_encode ` set vs" by simp
qed

lemma ed25519_runtime_simps:
  "unix_timestamp (ed25519_runtime t vs) = t"
  "minimum_balance (ed25519_runtime t vs) 179 = 279"
  "create_program_address (ed25519_runtime t vs) = create_program_address ref_runtime"
  by (simp_all add: ed25519_runtime_def ref_runtime_def)

lemma re_opened_load:
  assumes "re_view RE_PID (s RE_KEY) = Some e" and "re_payment_commitment e = RE_PC"
  shows "load_escrow (ed25519_runtime t vs) RE_PID (acc RE_KEY False) s = Inr e"
proof (rule re_view_load)
  show "re_view RE_PID (s RE_KEY) = Some e" by (rule assms)
qed (simp_all add: assms(2) ed25519_runtime_simps)

text \<open>The seller of that escrow bonds 20 lamports.\<close>

lemma re_reachable_bonded:
  "\<exists>s. re_reachable 279 RE_PID s \<and> re_view RE_PID (s RE_KEY) = Some (re_opened\<lparr>re_bond := 20\<rparr>) \<and>
    lamports (s RE_KEY) = 349 \<and> lamports (s RE_BUYER) = 671"
proof -
  obtain s where s: "re_reachable 279 RE_PID s" "re_view RE_PID (s RE_KEY) = Some re_opened"
      "lamports (s RE_KEY) = 329" "lamports (s RE_BUYER) = 671" "s RE_SELLER = re_genesis RE_SELLER"
    using re_reachable_open by blast
  have live: "owner (s RE_KEY) = RE_PID" "179 \<le> length (data (s RE_KEY))"
    using s(2) by (auto simp: re_view_def re_live_def split: if_splits)
  define s1 where "s1 = set_lamports (set_lamports s RE_SELLER 980) RE_KEY 349"
  have inv: "invoke ref_runtime (SystemCpi (Transfer RE_SELLER RE_KEY 20))
      [acc RE_SELLER True, acc RE_KEY False, acc SYSTEM_ID False] s = Inr s1"
    using s(3,5)
    by (simp add: invoke_def ref_runtime_def ref_invoke_def signed_by_def acc_def move_lamports_def re_genesis_def
        set_lamports_apply checked_add_def s1_def Let_def)
  have load: "load_escrow ref_runtime RE_PID (acc RE_KEY False) s = Inr re_opened"
    by (rule re_view_load) (use s(2) in \<open>simp_all add: re_opened_def\<close>)
  have wf: "re_wf (re_opened\<lparr>re_bond := 20\<rparr>)" using re_opened_wf by (simp add: re_wf_def)
  have len: "179 \<le> length (data (s1 (key (acc RE_KEY False))))" using live(2) by (simp add: s1_def acc_def)
  obtain d where w: "write_escrow (acc RE_KEY False) (re_opened\<lparr>re_bond := 20\<rparr>) s1 = Inr (set_data s1 RE_KEY d)"
    using write_escrow_exact [OF wf, of s1 "acc RE_KEY False", OF len] by (auto simp: acc_def)
  have "post_bond ref_runtime RE_PID [acc RE_SELLER True, acc RE_KEY False, acc SYSTEM_ID False] 20 s = Inr (set_data s1 RE_KEY d)"
    unfolding post_bond_Inr
    by (rule exI [of _ "acc RE_SELLER True"], rule exI [of _ "acc RE_KEY False"],
        rule exI [of _ "acc SYSTEM_ID False"], rule exI [of _ "[]"], rule exI [of _ re_opened], rule exI [of _ s1],
        rule exI [of _ 20])
      (use inv w load in \<open>simp add: acc_def checked_add_def re_opened_def\<close>)
  then have "re_process ref_runtime RE_PID [acc RE_SELLER True, acc RE_KEY False, acc SYSTEM_ID False]
      (re_ix_pack (PostBond 20)) s = Inr (set_data s1 RE_KEY d)"
    using re_ix_unpack_pack [of "PostBond 20"] by (simp add: re_process_def del: re_ix_pack.simps)
  from re_reachable.step [OF s(1) re_open_step [OF this]]
  have "re_reachable 279 RE_PID (set_data s1 RE_KEY d)" .
  moreover have "re_view RE_PID (set_data s1 RE_KEY d RE_KEY) = Some (re_opened\<lparr>re_bond := 20\<rparr>)"
    using write_view [OF w, of RE_PID] live(1) by (simp add: acc_def re_opened_def s1_def)
  ultimately show ?thesis using s(4) by (intro exI [of _ "set_data s1 RE_KEY d"]) (simp add: s1_def set_apply)
qed

end
