(* ===== verification/PropsRefund.thy ===== *)
theory PropsRefund
  imports ReScenario
begin

text \<open>
  Properties of \<open>x402_refund_escrow\<close>: solvency and lifecycle of every reachable state, who can
  settle, refund, slash and close and what that moves, and the codecs.
\<close>

section \<open>Reachable states\<close>

text \<open>
  C20. In every reachable state an escrow account holds at least the rent minimum, its bond and,
  while it is open, its payment; its status is open, settled or refunded (the status "slashed" of
  \<open>state.rs\<close> is never stored).
\<close>

theorem escrow_solvent:
  assumes "re_reachable rent pid s" and "pid \<noteq> SYSTEM_ID" and "re_view pid (s k) = Some e"
  shows "unat rent + unat (re_bond e) + (if re_status e = RE_OPEN then unat (re_amount e) else 0)
      \<le> unat (lamports (s k)) \<and>
    re_status e \<in> {RE_OPEN, RE_SETTLED_SUCCESS, RE_REFUNDED}"
  using solventD [OF re_reachable_solvent [OF assms(1,2)], of k] assms(3)
  by (auto simp: re_view_def re_due_def re_sound_def split: if_splits)

theorem escrow_solvent_witness:
  "\<exists>s. re_reachable 279 RE_PID s \<and> re_view RE_PID (s RE_KEY) = Some re_opened \<and>
    unat (279 :: u64) + unat (re_bond re_opened) + 50 \<le> unat (lamports (s RE_KEY))"
  using re_reachable_open escrow_solvent [of 279 RE_PID _ RE_KEY re_opened] re_pid_not_system
  by (fastforce simp: re_opened_def)

text \<open>
  C21. Every step from a reachable state moves every account along the lifecycle: opened without
  bond; while open it gains bond or is settled or refunded once; then it is frozen; it disappears
  only when it is resolved or bonded. From the open on its terms stay: parties, amount, commitment,
  deadline, creation time, dispute window and the dispute deadline, which the open fixes and
  settling does not touch.
\<close>

theorem escrow_lifecycle:
  assumes "re_reachable rent pid s" and "re_step rent pid s s'" and "rent \<noteq> 0" and "pid \<noteq> SYSTEM_ID"
  shows "re_next (re_view pid (s k)) (re_view pid (s' k))"
  by (rule re_step_next [OF assms(2) re_reachable_solvent [OF assms(1,4)] assms(3,4)])

theorem escrow_lifecycle_witness:
  "\<exists>s'. re_process ref_runtime RE_PID re_open_accounts (re_ix_pack (OpenEscrow RE_SELLER 50 RE_PC 1100 50)) re_genesis =
      Inr s' \<and> re_next (re_view RE_PID (re_genesis RE_KEY)) (re_view RE_PID (s' RE_KEY))"
  using re_open_run escrow_lifecycle [OF re_genesis_reachable re_open_step _ re_pid_not_system] by fastforce

section \<open>Settlement\<close>

text \<open>
  C22. A settlement succeeds only before the deadline, signed by the seller, on an open escrow,
  with a success receipt for this payment and deadline that the seller's key signed; it moves
  exactly the payment from the escrow to the seller and records the response.
\<close>

theorem settle_needs_vouch:
  assumes "settle_success rt pid (seller # escrow # wallet # ix_sysvar # rest) index s = Inr s'"
    and "load_escrow rt pid escrow s = Inr e" and "precompile_verified rt vouched"
    and "re_seller e \<noteq> key escrow"
  shows "is_signer seller \<and> key seller = re_seller e \<and> re_status e = RE_OPEN \<and>
    sint (unix_timestamp rt) \<le> sint (re_deadline e) \<and>
    (\<exists>rh. vouched (re_seller e) (receipt_encode \<lparr>rc_payment_commitment = re_payment_commitment e,
        rc_status = STATUS_SUCCESS, rc_response_hash = rh, rc_deadline = re_deadline e\<rparr>) \<and>
      re_view pid (s' (key escrow)) = Some (e\<lparr>re_status := RE_SETTLED_SUCCESS, re_response_hash := rh\<rparr>)) \<and>
    unat (lamports (s' (re_seller e))) = unat (lamports (s (re_seller e))) + unat (re_amount e) \<and>
    unat (lamports (s' (key escrow))) + unat (re_amount e) = unat (lamports (s (key escrow))) \<and>
    (\<forall>k. k \<notin> {re_seller e, key escrow} \<longrightarrow> s' k = s k)"
proof -
  from assms(1,2) obtain rcpt s1 where r: "is_signer seller" "re_status e = RE_OPEN" "key seller = re_seller e"
      "key wallet = re_seller e" "sint (unix_timestamp rt) \<le> sint (re_deadline e)"
      "read_receipt rt ix_sysvar index (re_seller e) s = Inr rcpt"
      "rc_payment_commitment rcpt = re_payment_commitment e" "rc_deadline rcpt = re_deadline e"
      "rc_status rcpt = STATUS_SUCCESS" "re_pay_out rt escrow wallet (re_amount e) s = Inr s1"
    and w: "write_escrow escrow
        (e\<lparr>re_status := RE_SETTLED_SUCCESS, re_response_hash := rc_response_hash rcpt\<rparr>) s1 = Inr s'"
    unfolding settle_success_Inr by auto
  have l: "re_live pid (s (key escrow))" and e: "e = re_state (s (key escrow))"
    using assms(2) by (auto simp: load_escrow_Inr)
  have v: "vouched (re_seller e) (receipt_encode rcpt)" by (rule read_receipt_signed [OF assms(3) r(6)])
  have "rcpt = \<lparr>rc_payment_commitment = re_payment_commitment e, rc_status = STATUS_SUCCESS,
      rc_response_hash = rc_response_hash rcpt, rc_deadline = re_deadline e\<rparr>"
    using r by (cases rcpt) simp
  moreover have "re_view pid (s' (key escrow)) =
      Some (e\<lparr>re_status := RE_SETTLED_SUCCESS, re_response_hash := rc_response_hash rcpt\<rparr>)"
    using l pay_out_frame(1) [OF r(10)] by (intro write_view [OF w]) (auto simp: e re_live_version re_live_def)
  ultimately have "\<exists>rh. vouched (re_seller e) (receipt_encode \<lparr>rc_payment_commitment = re_payment_commitment e,
        rc_status = STATUS_SUCCESS, rc_response_hash = rh, rc_deadline = re_deadline e\<rparr>) \<and>
      re_view pid (s' (key escrow)) = Some (e\<lparr>re_status := RE_SETTLED_SUCCESS, re_response_hash := rh\<rparr>)"
    using v by metis
  moreover note re_pay_moves [OF r(10), unfolded r(4), OF assms(4)]
  ultimately show ?thesis using w r assms(4) by (auto simp: write_escrow_Inr)
qed

lemma vouch_run:
  "\<exists>s s'. re_view RE_PID (s RE_KEY) = Some re_opened \<and> lamports (s RE_SELLER) = 1000 \<and>
    load_escrow (ed25519_runtime 1000 [re_vouch_blob (re_vouch 1 7 1100)]) RE_PID (acc RE_KEY False) s = Inr re_opened \<and>
    settle_success (ed25519_runtime 1000 [re_vouch_blob (re_vouch 1 7 1100)]) RE_PID
      [acc RE_SELLER True, acc RE_KEY False, acc RE_SELLER False, acc INSTRUCTIONS_ID False] 0 s = Inr s'"
proof -
  obtain s where s: "re_reachable 279 RE_PID s" "re_view RE_PID (s RE_KEY) = Some re_opened"
      "lamports (s RE_SELLER) = 1000" using re_reachable_open by blast
  let ?rt = "ed25519_runtime 1000 [re_vouch_blob (re_vouch 1 7 1100)]"
  have load: "load_escrow ?rt RE_PID (acc RE_KEY False) s = Inr re_opened"
    by (rule re_opened_load [where e = re_opened]) (use s(2) in \<open>simp_all add: re_opened_def\<close>)
  have sol: "solvent (minimum_balance ?rt ESCROW_ACCOUNT_LEN) RE_PID s"
    using re_reachable_solvent [OF s(1) re_pid_not_system] by (simp add: ed25519_runtime_simps)
  have read: "read_receipt ?rt (acc INSTRUCTIONS_ID False) 0 (re_seller re_opened) s = Inr (re_vouch 1 7 1100)"
    using re_vouch_read [of 1 0 "[re_vouch 1 7 1100]" 7 1100 1000 s] by (simp add: re_opened_def)
  have "\<exists>s'. settle_success ?rt RE_PID
      (acc RE_SELLER True # acc RE_KEY False # acc RE_SELLER False # acc INSTRUCTIONS_ID False # []) 0 s = Inr s'"
    by (rule settle_runs [OF sol load _ _ _ _ _ _ read])
      (use re_keys_distinct s(3) in \<open>simp_all add: re_opened_def ed25519_runtime_simps acc_def re_vouch_def\<close>)
  with s load show ?thesis by blast
qed

theorem settle_needs_vouch_witness:
  "\<exists>s s'. settle_success (ed25519_runtime 1000 [re_vouch_blob (re_vouch 1 7 1100)]) RE_PID
      [acc RE_SELLER True, acc RE_KEY False, acc RE_SELLER False, acc INSTRUCTIONS_ID False] 0 s = Inr s' \<and>
    lamports (s RE_SELLER) = 1000 \<and> unat (lamports (s' RE_SELLER)) = 1050"
proof -
  obtain s s' where r: "lamports (s RE_SELLER) = 1000"
    "load_escrow (ed25519_runtime 1000 [re_vouch_blob (re_vouch 1 7 1100)]) RE_PID (acc RE_KEY False) s = Inr re_opened"
    "settle_success (ed25519_runtime 1000 [re_vouch_blob (re_vouch 1 7 1100)]) RE_PID
      [acc RE_SELLER True, acc RE_KEY False, acc RE_SELLER False, acc INSTRUCTIONS_ID False] 0 s = Inr s'"
    using vouch_run by blast
  have v: "precompile_verified (ed25519_runtime 1000 [re_vouch_blob (re_vouch 1 7 1100)])
      (\<lambda>pk m. pk = RE_SELLER \<and> m \<in> receipt_encode ` set [re_vouch 1 7 1100])"
    using re_vouch_verified [of "[re_vouch 1 7 1100]" 1000] by auto
  have "re_seller re_opened \<noteq> key (acc RE_KEY False)"
    by (simp add: re_opened_def acc_def)
  from settle_needs_vouch [OF r(3,2) v this] r(1)
  have "unat (lamports (s' RE_SELLER)) = 1050" by (simp add: re_opened_def)
  with r show ?thesis by blast
qed

section \<open>Refund\<close>

text \<open>
  C23. In every reachable state the payment of an open escrow past its deadline can be refunded: the
  call succeeds for anyone, pays exactly the payment to the buyer and marks the escrow refunded;
  no guard or balance check can block it.
\<close>

theorem refund_available:
  assumes "re_reachable (minimum_balance rt ESCROW_ACCOUNT_LEN) pid s" and "pid \<noteq> SYSTEM_ID"
    and "load_escrow rt pid escrow s = Inr e" and "re_status e = RE_OPEN"
    and "sint (re_deadline e) < sint (unix_timestamp rt)"
    and "key buyer = re_buyer e" and "key buyer \<noteq> key escrow"
    and "unat (lamports (s (key buyer))) + unat (re_amount e) < 2 ^ 64"
  shows "\<exists>s'. refund_on_timeout rt pid (escrow # buyer # rest) s = Inr s' \<and>
    re_view pid (s' (key escrow)) = Some (e\<lparr>re_status := RE_REFUNDED\<rparr>) \<and>
    unat (lamports (s' (key buyer))) = unat (lamports (s (key buyer))) + unat (re_amount e) \<and>
    unat (lamports (s' (key escrow))) + unat (re_amount e) = unat (lamports (s (key escrow))) \<and>
    (\<forall>k. k \<notin> {key buyer, key escrow} \<longrightarrow> s' k = s k)"
  by (rule refund_runs [OF re_reachable_solvent [OF assms(1,2)] assms(3-8)])

theorem refund_available_witness:
  "\<exists>s s'. re_reachable 279 RE_PID s \<and> lamports (s RE_BUYER) = 671 \<and>
    refund_on_timeout (ed25519_runtime 1101 []) RE_PID [acc RE_KEY False, acc RE_BUYER False] s = Inr s' \<and>
    unat (lamports (s' RE_BUYER)) = 721"
proof -
  obtain s where s: "re_reachable 279 RE_PID s" "re_view RE_PID (s RE_KEY) = Some re_opened"
      "lamports (s RE_BUYER) = 671" using re_reachable_open by blast
  have load: "load_escrow (ed25519_runtime 1101 []) RE_PID (acc RE_KEY False) s = Inr re_opened"
    by (rule re_opened_load [where e = re_opened]) (use s(2) in \<open>simp_all add: re_opened_def\<close>)
  have "re_reachable (minimum_balance (ed25519_runtime 1101 []) ESCROW_ACCOUNT_LEN) RE_PID s"
    using s(1) by (simp add: ed25519_runtime_simps)
  from refund_available [OF this re_pid_not_system load, of "acc RE_BUYER False" "[]"] s re_keys_distinct
  show ?thesis by (auto simp: re_opened_def ed25519_runtime_simps acc_def)
qed

section \<open>Slashing and closing\<close>

text \<open>
  C24. In every reachable state two conflicting receipts of the seller for a bonded escrow slash it,
  whatever its status and at any time: the call succeeds, the buyer receives every lamport the
  account holds and the escrow is gone.
\<close>

theorem equivocation_slashes:
  assumes "re_reachable (minimum_balance rt ESCROW_ACCOUNT_LEN) pid s" and "pid \<noteq> SYSTEM_ID"
    and "load_escrow rt pid escrow s = Inr e" and "re_bond e \<noteq> 0"
    and "read_receipt rt ix_sysvar ia (re_seller e) s = Inr ra" and "read_receipt rt ix_sysvar ib (re_seller e) s = Inr rb"
    and "rc_payment_commitment ra = re_payment_commitment e" and "rc_deadline ra = re_deadline e"
    and "rc_deadline rb = re_deadline e" and "receipts_conflict ra rb"
    and "key buyer = re_buyer e" and "key buyer \<noteq> key escrow"
    and "unat (lamports (s (key buyer))) + unat (lamports (s (key escrow))) < 2 ^ 64"
  shows "\<exists>s'. prove_equivocation rt pid (escrow # buyer # ix_sysvar # rest) ia ib s = Inr s' \<and>
    re_view pid (s' (key escrow)) = None \<and> lamports (s' (key escrow)) = 0 \<and>
    unat (lamports (s' (key buyer))) = unat (lamports (s (key buyer))) + unat (lamports (s (key escrow)))"
  by (rule slash_runs [OF re_reachable_solvent [OF assms(1,2)] assms(3-13)])

theorem equivocation_slashes_witness:
  "\<exists>s s'. re_reachable 279 RE_PID s \<and> lamports (s RE_BUYER) = 671 \<and> lamports (s RE_KEY) = 349 \<and>
    prove_equivocation (ed25519_runtime 1000 (map re_vouch_blob [re_vouch 1 7 1100, re_vouch 0 0 1100])) RE_PID
      [acc RE_KEY False, acc RE_BUYER False, acc INSTRUCTIONS_ID False] 0 1 s = Inr s' \<and>
    unat (lamports (s' RE_BUYER)) = 1020"
proof -
  let ?vs = "[re_vouch 1 7 1100, re_vouch 0 0 1100]"
  let ?rt = "ed25519_runtime 1000 (map re_vouch_blob ?vs)"
  obtain s where s: "re_reachable 279 RE_PID s" "re_view RE_PID (s RE_KEY) = Some (re_opened\<lparr>re_bond := 20\<rparr>)"
      "lamports (s RE_KEY) = 349" "lamports (s RE_BUYER) = 671" using re_reachable_bonded by blast
  have load: "load_escrow ?rt RE_PID (acc RE_KEY False) s = Inr (re_opened\<lparr>re_bond := 20\<rparr>)"
    by (rule re_opened_load [of s]) (use s(2) in \<open>simp_all add: re_opened_def\<close>)
  have reach: "re_reachable (minimum_balance ?rt ESCROW_ACCOUNT_LEN) RE_PID s"
    using s(1) by (simp add: ed25519_runtime_simps)
  have a: "read_receipt ?rt (acc INSTRUCTIONS_ID False) 0 (re_seller (re_opened\<lparr>re_bond := 20\<rparr>)) s = Inr (re_vouch 1 7 1100)"
    using re_vouch_read [of 1 0 ?vs 7 1100 1000 s] by (simp add: re_opened_def)
  have b: "read_receipt ?rt (acc INSTRUCTIONS_ID False) 1 (re_seller (re_opened\<lparr>re_bond := 20\<rparr>)) s = Inr (re_vouch 0 0 1100)"
    using re_vouch_read [of 0 1 ?vs 0 1100 1000 s] by (simp add: re_opened_def)
  have "\<exists>s'. prove_equivocation ?rt RE_PID (acc RE_KEY False # acc RE_BUYER False # acc INSTRUCTIONS_ID False # []) 0 1 s =
      Inr s' \<and> re_view RE_PID (s' (key (acc RE_KEY False))) = None \<and> lamports (s' (key (acc RE_KEY False))) = 0 \<and>
    unat (lamports (s' (key (acc RE_BUYER False)))) =
      unat (lamports (s (key (acc RE_BUYER False)))) + unat (lamports (s (key (acc RE_KEY False))))"
    by (rule equivocation_slashes [OF reach re_pid_not_system load _ a b])
      (use s in \<open>simp_all add: re_opened_def acc_def re_vouch_def receipts_conflict_def\<close>)
  with s show ?thesis by (auto simp: acc_def)
qed

text \<open>
  C25. A seller whose signed receipts for this payment never contradict each other cannot be
  slashed: the proof of equivocation fails for every choice of instructions.
\<close>

theorem honest_seller_not_slashed:
  assumes "precompile_verified rt vouched" and "load_escrow rt pid escrow s = Inr e"
    and "\<And>a b. vouched (re_seller e) (receipt_encode a) \<Longrightarrow> vouched (re_seller e) (receipt_encode b) \<Longrightarrow>
      rc_payment_commitment a = re_payment_commitment e \<Longrightarrow> rc_payment_commitment b = re_payment_commitment e \<Longrightarrow>
      \<not> receipts_conflict a b"
  shows "prove_equivocation rt pid (escrow # buyer # ix_sysvar # rest) ia ib s \<noteq> Inr s'"
proof
  assume "prove_equivocation rt pid (escrow # buyer # ix_sysvar # rest) ia ib s = Inr s'"
  with assms(2) obtain ra rb where r: "read_receipt rt ix_sysvar ia (re_seller e) s = Inr ra"
      "read_receipt rt ix_sysvar ib (re_seller e) s = Inr rb" "rc_payment_commitment ra = re_payment_commitment e"
      "rc_payment_commitment rb = re_payment_commitment e" "receipts_conflict ra rb"
    unfolding prove_equivocation_Inr by auto
  from assms(3) [OF read_receipt_signed [OF assms(1) r(1)] read_receipt_signed [OF assms(1) r(2)] r(3,4)] r(5)
  show False by simp
qed

theorem honest_seller_not_slashed_witness:
  "\<exists>s. re_view RE_PID (s RE_KEY) = Some (re_opened\<lparr>re_bond := 20\<rparr>) \<and>
    (\<forall>ia ib s'. prove_equivocation (ed25519_runtime 1000 []) RE_PID
      [acc RE_KEY False, acc RE_BUYER False, acc INSTRUCTIONS_ID False] ia ib s \<noteq> Inr s')"
proof -
  obtain s where s: "re_view RE_PID (s RE_KEY) = Some (re_opened\<lparr>re_bond := 20\<rparr>)"
    using re_reachable_bonded by blast
  have load: "load_escrow (ed25519_runtime 1000 []) RE_PID (acc RE_KEY False) s = Inr (re_opened\<lparr>re_bond := 20\<rparr>)"
    by (rule re_opened_load [of s]) (use s in \<open>simp_all add: re_opened_def\<close>)
  have v: "precompile_verified (ed25519_runtime 1000 []) (\<lambda>_ _. False)"
    by (simp add: precompile_verified_def ed25519_runtime_def)
  have "prove_equivocation (ed25519_runtime 1000 []) RE_PID
      (acc RE_KEY False # acc RE_BUYER False # acc INSTRUCTIONS_ID False # []) ia ib s \<noteq> Inr s'" for ia ib s'
    by (rule honest_seller_not_slashed [OF v load]) simp
  with s show ?thesis by blast
qed

text \<open>
  C26. In every reachable state a resolved escrow past its dispute deadline can be closed: the bond
  goes to the seller, everything else to the buyer, nothing is left behind.
\<close>

theorem close_releases_bond:
  assumes "re_reachable (minimum_balance rt ESCROW_ACCOUNT_LEN) pid s" and "pid \<noteq> SYSTEM_ID"
    and "load_escrow rt pid escrow s = Inr e" and "re_status e \<noteq> RE_OPEN"
    and "sint (re_dispute_deadline e) < sint (unix_timestamp rt)"
    and "key buyer = re_buyer e" and "key seller = re_seller e" and "distinct [key escrow, key buyer, key seller]"
    and "unat (lamports (s (key buyer))) + unat (lamports (s (key escrow))) < 2 ^ 64"
    and "unat (lamports (s (key seller))) + unat (re_bond e) < 2 ^ 64"
  shows "\<exists>s'. close_after_dispute rt pid (escrow # seller # buyer # rest) s = Inr s' \<and>
    re_view pid (s' (key escrow)) = None \<and> lamports (s' (key escrow)) = 0 \<and>
    unat (lamports (s' (key seller))) = unat (lamports (s (key seller))) + unat (re_bond e) \<and>
    unat (lamports (s' (key buyer))) + unat (re_bond e) =
      unat (lamports (s (key buyer))) + unat (lamports (s (key escrow)))"
  by (rule close_runs [OF re_reachable_solvent [OF assms(1,2)] assms(3-10)])

theorem close_releases_bond_witness:
  "\<exists>s s'. close_after_dispute (ed25519_runtime 1151 []) RE_PID
      [acc RE_KEY False, acc RE_SELLER False, acc RE_BUYER False] s = Inr s' \<and>
    lamports (s RE_BUYER) = 721 \<and> unat (lamports (s' RE_BUYER)) = 1000"
proof -
  let ?rt = "ed25519_runtime 1151 []"
  obtain s where s: "re_reachable 279 RE_PID s" "re_view RE_PID (s RE_KEY) = Some re_opened"
      "lamports (s RE_BUYER) = 671" "lamports (s RE_SELLER) = 1000" "lamports (s RE_KEY) = 329"
    using re_reachable_open by blast
  have load: "load_escrow ?rt RE_PID (acc RE_KEY False) s = Inr re_opened"
    by (rule re_opened_load [of s]) (use s(2) in \<open>simp_all add: re_opened_def\<close>)
  have sol: "solvent (minimum_balance ?rt ESCROW_ACCOUNT_LEN) RE_PID s"
    using re_reachable_solvent [OF s(1) re_pid_not_system] by (simp add: ed25519_runtime_simps)
  obtain s1 where s1: "refund_on_timeout ?rt RE_PID [acc RE_KEY False, acc RE_BUYER False] s = Inr s1"
      "re_view RE_PID (s1 RE_KEY) = Some (re_opened\<lparr>re_status := RE_REFUNDED\<rparr>)"
      "unat (lamports (s1 RE_BUYER)) = 721" "unat (lamports (s1 RE_KEY)) = 279"
      "lamports (s1 RE_SELLER) = 1000"
    using refund_runs [OF sol load, of "acc RE_BUYER False" "[]"] s(3-5)
    by (auto simp: re_opened_def ed25519_runtime_simps acc_def)
  have "re_process ?rt RE_PID [acc RE_KEY False, acc RE_BUYER False] (re_ix_pack RefundOnTimeout) s = Inr s1"
    using s1(1) re_ix_unpack_pack [of RefundOnTimeout] by (simp add: re_process_def del: re_ix_pack.simps)
  moreover have "solana_lamports ?rt RE_PID"
    by (rule ref_invoke_lamports [OF _ re_pid_not_system]) (simp add: ed25519_runtime_def ref_runtime_def)
  ultimately have "re_step 279 RE_PID s s1"
    by (auto intro!: re_step.instruction simp: ed25519_runtime_simps)
  with s(1) have reach: "re_reachable (minimum_balance ?rt ESCROW_ACCOUNT_LEN) RE_PID s1"
    by (auto intro: re_reachable.step simp: ed25519_runtime_simps)
  have load1: "load_escrow ?rt RE_PID (acc RE_KEY False) s1 = Inr (re_opened\<lparr>re_status := RE_REFUNDED\<rparr>)"
    by (rule re_opened_load [of s1]) (use s1(2) in \<open>simp_all add: re_opened_def\<close>)
  have "lamports (s1 RE_BUYER) = 721" using s1(3) by (simp add: word_unat_eq_iff)
  moreover from close_releases_bond [OF reach re_pid_not_system load1, of "acc RE_BUYER False" "acc RE_SELLER False" "[]"]
    s1(3-5)
  have "\<exists>s'. close_after_dispute ?rt RE_PID [acc RE_KEY False, acc RE_SELLER False, acc RE_BUYER False] s1 = Inr s' \<and>
      unat (lamports (s' RE_BUYER)) = 1000"
    by (auto simp: re_opened_def ed25519_runtime_simps acc_def)
  ultimately show ?thesis by blast
qed

section \<open>Opening\<close>

text \<open>
  An escrow cannot be opened at an address that already holds lamports, whoever sent them:
  \<open>open_escrow\<close> relies on the system program's account creation, which refuses it. (Anyone can send
  lamports to the address, which is determined by the payment commitment alone.)
\<close>

lemma open_blocked_by_prefunding:
  assumes "solana_lamports rt pid" and "lamports (s (key escrow)) \<noteq> 0"
  shows "re_open_escrow rt pid (buyer # escrow # rest) seller amount pc deadline window s \<noteq> Inr s'"
proof
  assume "re_open_escrow rt pid (buyer # escrow # rest) seller amount pc deadline window s = Inr s'"
  then obtain fund infos seeds s1 where "invoke_signed rt
      (SystemCpi (CreateAccount (key buyer) (key escrow) fund (of_nat ESCROW_ACCOUNT_LEN) pid)) infos seeds s = Inr s1"
    unfolding re_open_escrow_Inr by auto
  then have "lamports (s (key escrow)) = 0" using solana_lamports.create_account_lamports [OF assms(1)] by blast
  with assms(2) show False by simp
qed

section \<open>Codecs\<close>

text \<open>
  \<open>decode\<close> accepts exactly the encodings of receipts with 32-byte fields and a status of 0 or 1,
  and returns the receipt: a signed message stands for one receipt only.
\<close>

lemma receipt_codec:
  "receipt_decode m = Inr r \<longleftrightarrow>
     m = receipt_encode r \<and> length (rc_payment_commitment r) = 32 \<and> length (rc_response_hash r) = 32 \<and>
     (rc_status r = STATUS_FAIL \<or> rc_status r = STATUS_SUCCESS)"
proof
  assume d: "receipt_decode m = Inr r"
  then have "rc_status r = STATUS_FAIL \<or> rc_status r = STATUS_SUCCESS"
    by (auto simp: receipt_decode_def Let_def split: if_splits)
  with length_receipt_fields [OF d] receipt_decode_encode [OF d]
  show "m = receipt_encode r \<and> length (rc_payment_commitment r) = 32 \<and> length (rc_response_hash r) = 32 \<and>
     (rc_status r = STATUS_FAIL \<or> rc_status r = STATUS_SUCCESS)" by simp
qed (use receipt_decode_of_encode in blast)

text \<open>
  C27. From an ed25519 precompile instruction with one signature record the parser recovers exactly the
  key and message that were verified, and refuses it when the signature, the key or the message alone
  refers to another instruction. Whatever the bytes and the record, nothing is read unless all three
  refer to the instruction itself, and what is read lies within it.
\<close>

theorem extract_verified_bytes:
  assumes "length pk = 32" and "length sig = 64" and "length msg < 65536"
  shows "extract_pubkey_and_message (ed25519_record sig_ii pk_ii msg_ii pk sig msg) 0 =
      (if sig_ii = U16_MAX \<and> pk_ii = U16_MAX \<and> msg_ii = U16_MAX then Inr (pk, msg) else re_fail InvalidReceiptSignature) \<and>
    (\<forall>d i k m. extract_pubkey_and_message d i = Inr (k, m) \<longrightarrow>
      (\<forall>off \<in> {2, 6, 12}. get_u16 d (2 + i * 14 + off) = U16_MAX) \<and> length k = 32 \<and>
      (\<exists>off. off + 32 \<le> length d \<and> k = slice d off 32) \<and> (\<exists>off n. off + n \<le> length d \<and> m = slice d off n))"
  by (intro conjI allI impI; (rule extract_record [OF assms] | erule extract_accepts))

theorem extract_verified_bytes_witness:
  "extract_pubkey_and_message (ed25519_record U16_MAX U16_MAX U16_MAX (replicate 32 7) (replicate 64 0) [1, 2]) 0 =
     Inr (replicate 32 7, [1, 2]) \<and>
   extract_pubkey_and_message (ed25519_record U16_MAX 0 U16_MAX (replicate 32 7) (replicate 64 0) [1, 2]) 0 =
     re_fail InvalidReceiptSignature"
  using extract_verified_bytes [of "replicate 32 7" "replicate 64 0" "[1, 2]"] by simp

end
