(* ===== verification/Anchor.thy ===== *)
theory Anchor
  imports Codec
begin

text \<open>
  The program \<open>receipt_anchor\<close>: error codes (\<open>programs/receipt_anchor/src/error.rs\<close>), the bucket
  account (\<open>state.rs\<close>), the two instructions (\<open>instruction.rs\<close>) and the processor
  (\<open>processor.rs\<close>), which hashes receipt anchors into the running root of a bucket.
\<close>

section \<open>error.rs\<close>

datatype anchor_error =
    AnInvalidInstruction | AnInvalidVersion | AnInvalidBatchLength | AnInvalidBucketPda | AnMissingPayerSignature
  | AnInvalidBucketAccount | AnMissingSystemProgram | AnBucketStateMismatch | AnArithmeticOverflow

fun an_code :: "anchor_error \<Rightarrow> u32" where
  "an_code AnInvalidInstruction = 0"
| "an_code AnInvalidVersion = 1"
| "an_code AnInvalidBatchLength = 2"
| "an_code AnInvalidBucketPda = 3"
| "an_code AnMissingPayerSignature = 4"
| "an_code AnInvalidBucketAccount = 5"
| "an_code AnMissingSystemProgram = 6"
| "an_code AnBucketStateMismatch = 7"
| "an_code AnArithmeticOverflow = 8"

definition an_err :: "anchor_error \<Rightarrow> perr" where
  "an_err e = Custom (an_code e)"

abbreviation an_fail :: "anchor_error \<Rightarrow> 'a res" where
  "an_fail e \<equiv> Inl (an_err e)"

section \<open>state.rs\<close>

definition BUCKET_STATE_VERSION :: u8 where [simp]: "BUCKET_STATE_VERSION = 1"

definition ANCHOR_BUCKET_ACCOUNT_LEN :: nat where
  [simp]: "ANCHOR_BUCKET_ACCOUNT_LEN = 1 + 1 + 8 + 4 + 32 + 8"

record bucket =
  bk_version :: u8
  bk_bump :: u8
  bk_bucket_id :: u64
  bk_count :: u32
  bk_root :: bytes
  bk_updated_at :: u64

definition bucket_of :: "bytes \<Rightarrow> bucket" where
  "bucket_of d = \<lparr>bk_version = d ! 0, bk_bump = d ! 1, bk_bucket_id = get_u64 d 2, bk_count = get_u32 d 10,
     bk_root = slice d 14 32, bk_updated_at = get_u64 d 46\<rparr>"

definition bucket_unpack :: "bytes \<Rightarrow> bucket res" where
  "bucket_unpack d =
     (if length d < ANCHOR_BUCKET_ACCOUNT_LEN then Inl InvalidAccountData
      else if d ! 0 \<noteq> BUCKET_STATE_VERSION then an_fail AnBucketStateMismatch
      else Inr (bucket_of d))"

text \<open>\<open>pack_into_slice\<close> zeroes the whole account first.\<close>

definition bucket_fields :: "bucket \<Rightarrow> (nat \<times> nat \<times> bytes) list" where
  "bucket_fields b =
     [(0, 1, [bk_version b]), (1, 1, [bk_bump b]), (2, 8, u64_le (bk_bucket_id b)), (10, 4, u32_le (bk_count b)),
      (14, 32, bk_root b), (46, 8, u64_le (bk_updated_at b))]"

definition bucket_pack :: "bucket \<Rightarrow> bytes \<Rightarrow> bytes res" where
  "bucket_pack b d = wr_all (bucket_fields b) (replicate (length d) 0)"

section \<open>instruction.rs\<close>

definition INSTRUCTION_VERSION_V1 :: u8 where [simp]: "INSTRUCTION_VERSION_V1 = 1"
definition FLAG_HAS_BUCKET_ID :: u8 where [simp]: "FLAG_HAS_BUCKET_ID = 1"
definition SINGLE_LEN_NO_BUCKET :: nat where [simp]: "SINGLE_LEN_NO_BUCKET = 34"
definition SINGLE_LEN_WITH_BUCKET :: nat where [simp]: "SINGLE_LEN_WITH_BUCKET = 42"
definition BATCH_PREFIX_LEN :: nat where [simp]: "BATCH_PREFIX_LEN = 2"
definition ANCHOR_BYTES :: nat where [simp]: "ANCHOR_BYTES = 32"
definition MAX_BATCH_ANCHORS :: nat where [simp]: "MAX_BATCH_ANCHORS = 32"

record anchor_single =
  as_version :: u8
  as_flags :: u8
  as_anchor32 :: bytes
  as_bucket_id :: "u64 option"

record anchor_batch =
  ab_version :: u8
  ab_count :: u8
  ab_anchors :: "bytes list"

datatype anchor_ix = AnchorSingle anchor_single | AnchorBatch anchor_batch

definition unpack_single :: "bytes \<Rightarrow> anchor_ix res" where
  "unpack_single d =
     (if length d \<noteq> SINGLE_LEN_NO_BUCKET \<and> length d \<noteq> SINGLE_LEN_WITH_BUCKET then an_fail AnInvalidInstruction
      else let version = d ! 0 in
        if version \<noteq> INSTRUCTION_VERSION_V1 then an_fail AnInvalidVersion
        else let flags = d ! 1; anchor = slice d 2 32 in
          bindE (if length d = SINGLE_LEN_WITH_BUCKET then
                   if flags AND FLAG_HAS_BUCKET_ID = 0 then an_fail AnInvalidInstruction
                   else Inr (Some (get_u64 d SINGLE_LEN_NO_BUCKET))
                 else if flags AND FLAG_HAS_BUCKET_ID \<noteq> 0 then an_fail AnInvalidInstruction
                 else Inr None) (\<lambda>bid.
          Inr (AnchorSingle \<lparr>as_version = version, as_flags = flags, as_anchor32 = anchor, as_bucket_id = bid\<rparr>)))"

definition unpack_batch :: "bytes \<Rightarrow> anchor_ix res" where
  "unpack_batch d =
     (if length d < BATCH_PREFIX_LEN + ANCHOR_BYTES * 2 then an_fail AnInvalidInstruction
      else let version = d ! 0 in
        if version \<noteq> INSTRUCTION_VERSION_V1 then an_fail AnInvalidVersion
        else let cnt = unat (d ! 1) in
          if cnt < 2 \<or> MAX_BATCH_ANCHORS < cnt then an_fail AnInvalidBatchLength
          else if length d \<noteq> BATCH_PREFIX_LEN + cnt * ANCHOR_BYTES then an_fail AnInvalidBatchLength
          else Inr (AnchorBatch \<lparr>ab_version = version, ab_count = of_nat cnt,
            ab_anchors = map (\<lambda>i. slice d (BATCH_PREFIX_LEN + i * ANCHOR_BYTES) ANCHOR_BYTES) [0..<cnt]\<rparr>))"

definition anchor_unpack :: "bytes \<Rightarrow> anchor_ix res" where
  "anchor_unpack d =
     (if length d = SINGLE_LEN_NO_BUCKET \<or> length d = SINGLE_LEN_WITH_BUCKET then unpack_single d else unpack_batch d)"

section \<open>processor.rs\<close>

definition BUCKET_SEED_PREFIX :: bytes where "BUCKET_SEED_PREFIX = map of_char ''bucket''"
definition BUCKET_WINDOW_SECONDS :: u64 where [simp]: "BUCKET_WINDOW_SECONDS = 3600"

definition bucket_id_from_unix :: "u64 \<Rightarrow> u64" where
  "bucket_id_from_unix ts = (if sint ts \<le> 0 then 0 else ts div BUCKET_WINDOW_SECONDS)"

definition derive_bucket_address :: "runtime \<Rightarrow> key \<Rightarrow> u64 \<Rightarrow> key \<times> u8" where
  "derive_bucket_address rt pid bid = find_program_address rt [BUCKET_SEED_PREFIX, u64_le bid] pid"

definition ensure_bucket_account ::
  "runtime \<Rightarrow> key \<Rightarrow> account_info \<Rightarrow> account_info \<Rightarrow> account_info option \<Rightarrow> u64 \<Rightarrow> store \<Rightarrow> (u8 \<times> store) res" where
  "ensure_bucket_account rt pid payer bk maybe_system bid s =
     (let (expected, bump) = derive_bucket_address rt pid bid in
      if expected \<noteq> key bk then an_fail AnInvalidBucketPda
      else if \<not> (owner (s (key bk)) \<noteq> pid \<or> length (data (s (key bk))) < ANCHOR_BUCKET_ACCOUNT_LEN) then Inr (bump, s)
      else
      bindE (ok_or maybe_system (an_err AnMissingSystemProgram)) (\<lambda>system.
      if key system \<noteq> SYSTEM_ID then an_fail AnMissingSystemProgram
      else let required = minimum_balance rt ANCHOR_BUCKET_ACCOUNT_LEN in
      bindE (invoke_signed rt
              (SystemCpi (CreateAccount (key payer) (key bk) required (of_nat ANCHOR_BUCKET_ACCOUNT_LEN) pid))
              [payer, bk, system] [[BUCKET_SEED_PREFIX, u64_le bid, [bump]]] s) (\<lambda>s. Inr (bump, s))))"

definition load_or_initialize_bucket :: "account_info \<Rightarrow> u64 \<Rightarrow> u8 \<Rightarrow> u64 \<Rightarrow> store \<Rightarrow> bucket res" where
  "load_or_initialize_bucket bk expected bump now s =
     (let d = data (s (key bk)) in
      if length d < ANCHOR_BUCKET_ACCOUNT_LEN then Inl InvalidAccountData
      else if d ! 0 = 0 then
        Inr \<lparr>bk_version = BUCKET_STATE_VERSION, bk_bump = bump, bk_bucket_id = expected, bk_count = 0,
             bk_root = replicate 32 0, bk_updated_at = now\<rparr>
      else bindE (bucket_unpack d) (\<lambda>loaded.
        if bk_bucket_id loaded \<noteq> expected then an_fail AnBucketStateMismatch else Inr loaded))"

definition hash_accumulate :: "runtime \<Rightarrow> bytes \<Rightarrow> bytes \<Rightarrow> bytes" where
  "hash_accumulate rt root anchor = hashv rt [root, anchor]"

definition apply_single :: "runtime \<Rightarrow> bucket \<Rightarrow> anchor_single \<Rightarrow> bucket res" where
  "apply_single rt b x =
     (let b = b\<lparr>bk_root := hash_accumulate rt (bk_root b) (as_anchor32 x)\<rparr> in
      bindE (ok_or (checked_add (bk_count b) 1) (an_err AnArithmeticOverflow)) (\<lambda>n. Inr (b\<lparr>bk_count := n\<rparr>)))"

definition apply_batch :: "runtime \<Rightarrow> bucket \<Rightarrow> anchor_batch \<Rightarrow> bucket res" where
  "apply_batch rt b x =
     (let b = b\<lparr>bk_root := foldl (hash_accumulate rt) (bk_root b) (ab_anchors x)\<rparr> in
      bindE (ok_or (checked_add (bk_count b) (ucast (ab_count x))) (an_err AnArithmeticOverflow))
        (\<lambda>n. Inr (b\<lparr>bk_count := n\<rparr>)))"

fun apply_anchor :: "runtime \<Rightarrow> bucket \<Rightarrow> anchor_ix \<Rightarrow> bucket res" where
  "apply_anchor rt b (AnchorSingle x) = apply_single rt b x"
| "apply_anchor rt b (AnchorBatch x) = apply_batch rt b x"

fun anchor_bucket_id :: "anchor_ix \<Rightarrow> u64 \<Rightarrow> u64" where
  "anchor_bucket_id (AnchorSingle x) now = (case as_bucket_id x of Some b \<Rightarrow> b | None \<Rightarrow> bucket_id_from_unix now)"
| "anchor_bucket_id (AnchorBatch x) now = bucket_id_from_unix now"

definition anchor_process :: "runtime \<Rightarrow> key \<Rightarrow> account_info list \<Rightarrow> bytes \<Rightarrow> store \<Rightarrow> store res" where
  "anchor_process rt pid accounts d s =
     bindE (anchor_unpack d) (\<lambda>ix.
     let now = unix_timestamp rt in
     bindE (next_account_info accounts) (\<lambda>(payer, it).
     bindE (next_account_info it) (\<lambda>(bk, it).
     let maybe_system = (case it of [] \<Rightarrow> None | a # _ \<Rightarrow> Some a) in
     if \<not> is_signer payer then an_fail AnMissingPayerSignature
     else if \<not> is_writable payer then an_fail AnMissingPayerSignature
     else if \<not> is_writable bk then an_fail AnInvalidBucketAccount
     else let bid = anchor_bucket_id ix now in
     bindE (ensure_bucket_account rt pid payer bk maybe_system bid s) (\<lambda>(bump, s).
     bindE (load_or_initialize_bucket bk bid bump now s) (\<lambda>st.
     bindE (apply_anchor rt st ix) (\<lambda>st.
     bindE (bucket_pack (st\<lparr>bk_updated_at := now\<rparr>) (data (s (key bk)))) (\<lambda>e.
     Inr (set_data s (key bk) e))))))))"

section \<open>The bucket account\<close>

definition bucket_wf :: "bucket \<Rightarrow> bool" where
  "bucket_wf b \<longleftrightarrow> length (bk_root b) = 32"

lemma bucket_pack_of:
  assumes "bucket_pack b d = Inr e"
  shows "bucket_of e = b" and "length e = length d" and "bucket_wf b" and "ANCHOR_BUCKET_ACCOUNT_LEN \<le> length d"
proof -
  note w = assms [unfolded bucket_pack_def]
  have dj: "disjoint_writes (bucket_fields b)" by (simp add: bucket_fields_def write_simps)
  show "bucket_of e = b"
    by (rule bucket.equality; simp add: bucket_of_def;
        (rule wr_all_nth [OF w dj] wr_all_u64 [OF w dj] wr_all_u32 [OF w dj] wr_all_read [OF w dj]); simp add: bucket_fields_def)
  show "length e = length d" using wr_all_length [OF w] by simp
  show "bucket_wf b" "ANCHOR_BUCKET_ACCOUNT_LEN \<le> length d"
    using wr_all_range [OF w] by (simp_all add: bucket_wf_def bucket_fields_def)
qed

lemma bucket_pack_total:
  assumes "bucket_wf b" and "ANCHOR_BUCKET_ACCOUNT_LEN \<le> length d"
  obtains e where "bucket_pack b d = Inr e"
proof -
  have "\<exists>e. wr_all (bucket_fields b) (replicate (length d) 0) = Inr e"
    by (rule wr_all_total) (use assms in \<open>simp add: bucket_fields_def bucket_wf_def\<close>)
  then show thesis using that by (auto simp: bucket_pack_def)
qed

section \<open>Instructions\<close>

fun anchors_of :: "anchor_ix \<Rightarrow> bytes list" where
  "anchors_of (AnchorSingle x) = [as_anchor32 x]"
| "anchors_of (AnchorBatch x) = ab_anchors x"

lemma anchor_unpack_count:
  assumes "anchor_unpack d = Inr (AnchorBatch x)"
  shows "length (ab_anchors x) = unat (ab_count x)"
  using assms by (auto simp: anchor_unpack_def unpack_single_def unpack_batch_def Let_def split: if_splits)

lemma anchor_unpack_len:
  assumes "anchor_unpack d = Inr ix" and "a \<in> set (anchors_of ix)"
  shows "length a = 32"
  using assms
  by (auto simp: anchor_unpack_def unpack_single_def unpack_batch_def Let_def length_slice split: if_splits)

end
