(* ===== verification/AnchorLog.thy ===== *)
theory AnchorLog
  imports Anchor
begin

text \<open>
  The root of a bucket as a hash chain over the anchors it has taken: the abstract state of a bucket
  is the list of its anchors, and every instruction appends to it.
\<close>

section \<open>Hash chains\<close>

definition chain :: "(bytes list \<Rightarrow> bytes) \<Rightarrow> bytes \<Rightarrow> bytes list \<Rightarrow> bytes" where
  "chain H = foldl (\<lambda>root anchor. H [root, anchor])"

lemma chain_simps [simp]: "chain H r [] = r" "chain H r (xs @ ys) = chain H (chain H r xs) ys" "chain H r [a] = H [r, a]"
  by (simp_all add: chain_def)

lemma chain_hash: "foldl (hash_accumulate rt) r xs = chain (hashv rt) r xs"
  by (simp add: chain_def hash_accumulate_def [abs_def])

text \<open>The pairs hashed along a chain; where they have different hashes, the chain determines the list.\<close>

definition chain_inputs :: "(bytes list \<Rightarrow> bytes) \<Rightarrow> bytes \<Rightarrow> bytes list \<Rightarrow> (bytes \<times> bytes) set" where
  "chain_inputs H r xs = (\<lambda>i. (chain H r (take i xs), xs ! i)) ` {..<length xs}"

lemma chain_inputs_snoc: "chain_inputs H r (xs @ [x]) = insert (chain H r xs, x) (chain_inputs H r xs)"
proof -
  have "(xs @ [x]) ! j = xs ! j \<and> take j (xs @ [x]) = take j xs" if "j \<in> {..<length xs}" for j
    using that by (simp add: nth_append)
  then show ?thesis
    unfolding chain_inputs_def length_append_singleton lessThan_Suc image_insert by (simp cong: image_cong_simp)
qed

lemma chain_inj:
  assumes "inj_on (\<lambda>(a, b). H [a, b]) (chain_inputs H r xs \<union> chain_inputs H r ys)"
    and "chain H r xs = chain H r ys" and "length xs = length ys"
  shows "xs = ys"
  using assms
proof (induction xs arbitrary: ys rule: rev_induct)
  case (snoc x xs)
  then obtain y zs where ys: "ys = zs @ [y]" "length xs = length zs" by (cases ys rule: rev_cases) auto
  with snoc.prems(2) have "H [chain H r xs, x] = H [chain H r zs, y]" by simp
  moreover have "(chain H r xs, x) \<in> chain_inputs H r (xs @ [x]) \<union> chain_inputs H r ys"
    "(chain H r zs, y) \<in> chain_inputs H r (xs @ [x]) \<union> chain_inputs H r ys"
    by (simp_all add: chain_inputs_snoc ys)
  ultimately have "(chain H r xs, x) = (chain H r zs, y)" by (intro inj_onD [OF snoc.prems(1)]) simp_all
  have "inj_on (\<lambda>(a, b). H [a, b]) (chain_inputs H r xs \<union> chain_inputs H r zs)"
    by (rule inj_on_subset [OF snoc.prems(1)]) (auto simp: chain_inputs_snoc ys)
  with snoc.IH [of zs] ys \<open>(chain H r xs, x) = (chain H r zs, y)\<close> show ?case by simp
qed simp

section \<open>What an instruction does\<close>

definition fresh_bucket :: "u64 \<Rightarrow> u8 \<Rightarrow> bucket" where
  "fresh_bucket bid bump = \<lparr>bk_version = 1, bk_bump = bump, bk_bucket_id = bid, bk_count = 0, bk_root = replicate 32 0,
     bk_updated_at = 0\<rparr>"

definition bucket_live :: "key \<Rightarrow> account \<Rightarrow> bool" where
  "bucket_live pid a \<longleftrightarrow> owner a = pid \<and> ANCHOR_BUCKET_ACCOUNT_LEN \<le> length (data a) \<and> data a ! 0 \<noteq> 0"

lemma apply_anchor_Inr:
  assumes "apply_anchor rt b ix = Inr b'" and "\<And>x. ix = AnchorBatch x \<Longrightarrow> length (ab_anchors x) = unat (ab_count x)"
  shows "unat (bk_count b') = unat (bk_count b) + length (anchors_of ix)"
    and "b' = b\<lparr>bk_root := chain (hashv rt) (bk_root b) (anchors_of ix), bk_count := bk_count b'\<rparr>"
proof -
  have "unat (bk_count b') = unat (bk_count b) + length (anchors_of ix) \<and>
      b' = b\<lparr>bk_root := chain (hashv rt) (bk_root b) (anchors_of ix), bk_count := bk_count b'\<rparr>"
  proof (cases ix)
    case (AnchorSingle x)
    with assms(1) obtain n where n: "checked_add (bk_count b) 1 = Some n"
      "b' = b\<lparr>bk_root := hash_accumulate rt (bk_root b) (as_anchor32 x), bk_count := n\<rparr>"
      by (auto simp: apply_single_def Let_def)
    with checked_add_unat [OF n(1)] AnchorSingle show ?thesis by (simp add: hash_accumulate_def)
  next
    case (AnchorBatch x)
    with assms(1) obtain n where n: "checked_add (bk_count b) (ucast (ab_count x)) = Some n"
      "b' = b\<lparr>bk_root := foldl (hash_accumulate rt) (bk_root b) (ab_anchors x), bk_count := n\<rparr>"
      by (auto simp: apply_batch_def Let_def)
    have "unat (ucast (ab_count x) :: u32) = unat (ab_count x)"
      using unsigned_less [of "ab_count x", where 'a = nat] by (simp add: unsigned_ucast_eq take_bit_nat_eq_self)
    with checked_add_unat [OF n(1)] AnchorBatch n(2) assms(2) show ?thesis by (simp add: chain_hash)
  qed
  then show "unat (bk_count b') = unat (bk_count b) + length (anchors_of ix)"
    "b' = b\<lparr>bk_root := chain (hashv rt) (bk_root b) (anchors_of ix), bk_count := bk_count b'\<rparr>" by blast+
qed

lemma ensure_bucket_Inr:
  assumes "solana rt pid" and "ensure_bucket_account rt pid payer bk sys bid s = Inr (bump, s1)"
  shows "derive_bucket_address rt pid bid = (key bk, bump)"
    and "s1 = s \<and> owner (s (key bk)) = pid \<and> ANCHOR_BUCKET_ACCOUNT_LEN \<le> length (data (s (key bk))) \<or>
      owner (s (key bk)) = SYSTEM_ID \<and> owner (s1 (key bk)) = pid \<and> data (s1 (key bk)) = replicate 54 0 \<and>
      same_data {key bk} s s1"
proof -
  obtain expected b where d: "derive_bucket_address rt pid bid = (expected, b)" by (cases "derive_bucket_address rt pid bid")
  from assms(2) show "derive_bucket_address rt pid bid = (key bk, bump)"
    by (auto simp: ensure_bucket_account_def d Let_def split: if_splits)
  show "s1 = s \<and> owner (s (key bk)) = pid \<and> ANCHOR_BUCKET_ACCOUNT_LEN \<le> length (data (s (key bk))) \<or>
      owner (s (key bk)) = SYSTEM_ID \<and> owner (s1 (key bk)) = pid \<and> data (s1 (key bk)) = replicate 54 0 \<and>
      same_data {key bk} s s1"
  proof (cases "owner (s (key bk)) \<noteq> pid \<or> length (data (s (key bk))) < ANCHOR_BUCKET_ACCOUNT_LEN")
    case True
    with assms(2) obtain l infos seeds where
      "invoke_signed rt (SystemCpi (CreateAccount (key payer) (key bk) l (of_nat ANCHOR_BUCKET_ACCOUNT_LEN) pid)) infos seeds s = Inr s1"
      by (auto simp: ensure_bucket_account_def d Let_def split: if_splits)
    from solana.create_account_effect [OF assms(1) this] show ?thesis by simp
  next
    case False
    with assms(2) show ?thesis by (auto simp: ensure_bucket_account_def d Let_def split: if_splits)
  qed
qed

text \<open>
  An instruction that succeeds appends its anchors to the bucket at the address of its id and
  leaves the data of every other account alone.
\<close>

lemma anchor_process_effect:
  assumes "solana rt pid" and "anchor_process rt pid (payer # bk # rest) d s = Inr s'" and "anchor_unpack d = Inr ix"
  shows "\<exists>bid bump b n. is_signer payer \<and> derive_bucket_address rt pid bid = (key bk, bump) \<and>
    b = (if bucket_live pid (s (key bk)) then bucket_of (data (s (key bk))) else fresh_bucket bid bump) \<and>
    bk_bucket_id b = bid \<and> bk_version b = 1 \<and> bucket_live pid (s' (key bk)) \<and>
    bucket_of (data (s' (key bk))) = b\<lparr>bk_root := chain (hashv rt) (bk_root b) (anchors_of ix),
      bk_count := n, bk_updated_at := unix_timestamp rt\<rparr> \<and>
    unat n = unat (bk_count b) + length (anchors_of ix) \<and>
    same_data {key bk} s s'"
proof -
  let ?K = "key bk" and ?now = "unix_timestamp rt"
  obtain maybe bid bump s1 st st' e where sg: "is_signer payer"
    and en: "ensure_bucket_account rt pid payer bk maybe bid s = Inr (bump, s1)"
    and ld: "load_or_initialize_bucket bk bid bump ?now s1 = Inr st"
    and ap: "apply_anchor rt st ix = Inr st'"
    and pk: "bucket_pack (st'\<lparr>bk_updated_at := ?now\<rparr>) (data (s1 ?K)) = Inr e"
    and s': "s' = set_data s1 ?K e"
    using assms(2,3) by (auto simp: anchor_process_def Let_def split: if_splits)
  note der = ensure_bucket_Inr(1) [OF assms(1) en] and cr = ensure_bucket_Inr(2) [OF assms(1) en]
  note p = bucket_pack_of [OF pk]
  define b where "b = (if bucket_live pid (s ?K) then bucket_of (data (s ?K)) else fresh_bucket bid bump)"
  have own1: "owner (s1 ?K) = pid" using cr by auto
  have len1: "54 \<le> length (data (s1 ?K))" using p(4) by simp
  have st: "bk_version st = 1 \<and> bk_bucket_id st = bid \<and> b\<lparr>bk_updated_at := x\<rparr> = st\<lparr>bk_updated_at := x\<rparr> \<and> bk_bucket_id b = bid \<and> bk_version b = 1" for x
  proof (cases "data (s1 ?K) ! 0 = 0")
    case True
    then have "\<not> bucket_live pid (s ?K)"
      using cr solana.pid_not_system [OF assms(1)] by (auto simp: bucket_live_def)
    with True ld len1 show ?thesis by (auto simp: load_or_initialize_bucket_def Let_def b_def fresh_bucket_def)
  next
    case False
    then have "s1 = s" "bucket_live pid (s ?K)" using cr len1 by (auto simp: bucket_live_def)
    with False ld len1 show ?thesis
      by (auto simp: load_or_initialize_bucket_def Let_def b_def bucket_unpack_def bucket_of_def split: if_splits)
  qed
  have cnt: "unat (bk_count st') = unat (bk_count st) + length (anchors_of ix)"
    and st': "st' = st\<lparr>bk_root := chain (hashv rt) (bk_root st) (anchors_of ix), bk_count := bk_count st'\<rparr>"
    using apply_anchor_Inr [OF ap] anchor_unpack_count assms(3) by blast+
  have eq: "bk_root b = bk_root st" "bk_count b = bk_count st"
    using st [of 0] by (cases b; cases st; simp)+
  have "bucket_of e = st\<lparr>bk_root := chain (hashv rt) (bk_root b) (anchors_of ix), bk_count := bk_count st', bk_updated_at := ?now\<rparr>"
    unfolding p(1) eq by (subst st') simp
  also have "\<dots> = b\<lparr>bk_root := chain (hashv rt) (bk_root b) (anchors_of ix), bk_count := bk_count st', bk_updated_at := ?now\<rparr>"
    using st [of 0] by (cases b; cases st) simp
  finally have be: "bucket_of e = b\<lparr>bk_root := chain (hashv rt) (bk_root b) (anchors_of ix), bk_count := bk_count st', bk_updated_at := ?now\<rparr>" .
  have "e ! 0 = bk_version (bucket_of e)" by (simp add: bucket_of_def)
  also have "\<dots> = 1" using st [of 0] by (simp add: be)
  finally have "bucket_live pid (s' ?K)" using own1 len1 p(2) by (simp add: s' bucket_live_def)
  moreover have "same_data {?K} s s'" using cr by (auto simp: s' same_data_def)
  ultimately show ?thesis
    using sg der st [of 0] be cnt eq by (intro exI [of _ bid] exI [of _ bump] exI [of _ b] exI [of _ "bk_count st'"]) (simp add: s' b_def)
qed

section \<open>Histories\<close>

text \<open>
  The history of the cluster: instructions of the program with the hash \<open>H\<close>, code of other
  programs, and the runtime removing accounts without lamports; the log of an address is the list
  of the anchors its account has taken since it was created.
\<close>

inductive anchor_run :: "(bytes list \<Rightarrow> bytes) \<Rightarrow> key \<Rightarrow> store \<Rightarrow> (key \<Rightarrow> bytes list) \<Rightarrow> bool" for H pid where
  genesis: "(\<And>k. owner (s k) \<noteq> pid) \<Longrightarrow> anchor_run H pid s (\<lambda>_. [])"
| instruction: "anchor_run H pid s log \<Longrightarrow> solana rt pid \<Longrightarrow> hashv rt = H \<Longrightarrow>
    anchor_process rt pid (payer # bk # rest) d s = Inr s' \<Longrightarrow> anchor_unpack d = Inr ix \<Longrightarrow>
    anchor_run H pid s' (log(key bk := log (key bk) @ anchors_of ix))"
| foreign: "anchor_run H pid s log \<Longrightarrow> foreign_step pid s s' \<Longrightarrow> anchor_run H pid s' log"
| reap: "anchor_run H pid s log \<Longrightarrow> lamports (s k) = 0 \<Longrightarrow>
    anchor_run H pid (s(k := (s k)\<lparr>owner := SYSTEM_ID, data := []\<rparr>)) (log(k := []))"

definition bucket_inv :: "(bytes list \<Rightarrow> bytes) \<Rightarrow> key \<Rightarrow> account \<Rightarrow> bytes list \<Rightarrow> bool" where
  "bucket_inv H pid a xs \<longleftrightarrow>
     (if bucket_live pid a then bk_root (bucket_of (data a)) = chain H (replicate 32 0) xs \<and>
        unat (bk_count (bucket_of (data a))) = length xs
      else xs = [])"

lemma anchor_run_inv:
  assumes "anchor_run H pid s log" and "pid \<noteq> SYSTEM_ID"
  shows "bucket_inv H pid (s k) (log k)"
  using assms(1)
proof (induction arbitrary: k rule: anchor_run.induct)
  case (genesis s)
  then show ?case by (simp add: bucket_inv_def bucket_live_def)
next
  case (instruction s log rt payer bk rest d s' ix)
  note eff = anchor_process_effect [OF instruction.hyps(2,4,5)]
  show ?case
  proof (cases "k = key bk")
    case True
    with eff instruction.IH [of "key bk"] instruction.hyps(3) show ?thesis
      by (auto simp: bucket_inv_def fresh_bucket_def split: if_splits)
  next
    case False
    with eff have "owner (s' k) = owner (s k)" "data (s' k) = data (s k)" by (auto simp: same_data_def)
    with False instruction.IH [of k] show ?thesis by (simp add: bucket_inv_def bucket_live_def)
  qed
next
  case (foreign s log s')
  have own: "owner (s k) = pid \<Longrightarrow> owner (s' k) = pid \<and> data (s' k) = data (s k)"
    and new: "owner (s k) \<noteq> pid \<Longrightarrow> owner (s' k) = pid \<Longrightarrow> \<forall>b \<in> set (data (s' k)). b = 0"
    using foreign.hyps(2) unfolding foreign_step_def by blast+
  have "bucket_live pid (s' k) = bucket_live pid (s k) \<and> (bucket_live pid (s k) \<longrightarrow> data (s' k) = data (s k))"
  proof (cases "owner (s k) = pid")
    case True
    with own show ?thesis by (simp add: bucket_live_def)
  next
    case False
    have "\<not> bucket_live pid (s' k)"
    proof
      assume l: "bucket_live pid (s' k)"
      then have "54 \<le> length (data (s' k))" by (simp add: bucket_live_def)
      then have "0 < length (data (s' k))" by linarith
      then have "data (s' k) ! 0 \<in> set (data (s' k))" by (rule nth_mem)
      with new [OF False] l show False by (auto simp: bucket_live_def)
    qed
    with False show ?thesis by (simp add: bucket_live_def)
  qed
  then show ?case using foreign.IH [of k] by (auto simp: bucket_inv_def)
next
  case (reap s log k')
  then show ?case using assms(2) by (auto simp: bucket_inv_def bucket_live_def)
qed

end
