(* ===== verification/PropsAnchor.thy ===== *)
theory PropsAnchor
  imports AnchorLog
begin

text \<open>
  Properties of \<open>receipt_anchor\<close>: a bucket is the hash chain of the anchors sent to it, its root and
  count determine them, and where a bucket can be kept from being created.
\<close>

section \<open>A concrete bucket\<close>

definition an_rt :: runtime where
  "an_rt = ref_runtime\<lparr>hashv := ref_address\<rparr>"

definition AN_PID :: key where "AN_PID = replicate 32 7"
definition AN_PAYER :: key where "AN_PAYER = replicate 32 1"
definition AN_BUCKET :: key where "AN_BUCKET = ref_address [BUCKET_SEED_PREFIX, u64_le 0]"

definition an_genesis :: store where
  "an_genesis = (\<lambda>k. \<lparr>lamports = if k = AN_PAYER then 5000 else 0, owner = SYSTEM_ID, data = []\<rparr>)"

definition an_accounts :: "account_info list" where
  "an_accounts = [\<lparr>key = AN_PAYER, is_signer = True, is_writable = True\<rparr>, \<lparr>key = AN_BUCKET, is_signer = False, is_writable = True\<rparr>,
     \<lparr>key = SYSTEM_ID, is_signer = False, is_writable = False\<rparr>]"

definition an_data :: bytes where
  "an_data = 1 # 0 # replicate 32 9"

lemma an_pid: "AN_PID \<noteq> SYSTEM_ID"
proof -
  have "hd AN_PID \<noteq> hd SYSTEM_ID" by (simp add: AN_PID_def SYSTEM_ID_def)
  then show ?thesis by metis
qed

lemma an_rt_solana: "solana an_rt AN_PID"
  by (rule ref_invoke_solana [OF _ an_pid]) (simp add: an_rt_def ref_runtime_def)

lemma an_rt_simps [simp]:
  "unix_timestamp an_rt = 1000" "hashv an_rt = ref_address" "invoke_signed an_rt = ref_invoke"
  "minimum_balance an_rt n = of_nat (n + 100)" "find_program_address an_rt seeds p = (ref_address seeds, 255)"
  by (simp_all add: an_rt_def ref_runtime_def)

lemma an_bucket_payer: "AN_BUCKET \<noteq> AN_PAYER"
proof -
  have u: "u64_le 0 ! 0 = 0" by (simp add: u64_le_def le_bytes.simps(2) [of 7, simplified])
  have "AN_BUCKET ! 0 = 98"
    by (simp add: AN_BUCKET_def ref_address_def BUCKET_SEED_PREFIX_def u)
  moreover have "AN_PAYER ! 0 = 1" by (simp add: AN_PAYER_def)
  ultimately show ?thesis by auto
qed

lemma an_unpack: "anchor_unpack an_data =
    Inr (AnchorSingle \<lparr>as_version = 1, as_flags = 0, as_anchor32 = replicate 32 9, as_bucket_id = None\<rparr>)"
  by (simp add: anchor_unpack_def unpack_single_def an_data_def Let_def slice_def)

lemma an_runs: "\<exists>s'. anchor_process an_rt AN_PID an_accounts an_data an_genesis = Inr s'"
proof -
  let ?s = "set_owner (set_data (set_lamports (set_lamports an_genesis AN_PAYER 4846) AN_BUCKET 154) AN_BUCKET (replicate 54 0))
    AN_BUCKET AN_PID"
  have en: "ensure_bucket_account an_rt AN_PID (an_accounts ! 0) (an_accounts ! 1) (Some (an_accounts ! 2)) 0 an_genesis = Inr (255, ?s)"
    using an_bucket_payer an_pid
    by (simp add: ensure_bucket_account_def derive_bucket_address_def AN_BUCKET_def [symmetric] an_accounts_def an_genesis_def
        ref_invoke_def signed_by_def move_lamports_def Let_def set_lamports_apply checked_add_def)
  let ?b = "\<lparr>bk_version = 1, bk_bump = 255, bk_bucket_id = 0, bk_count = 1,
    bk_root = ref_address [replicate 32 0, replicate 32 9], bk_updated_at = 1000\<rparr>"
  obtain e where e: "bucket_pack ?b (replicate 54 0) = Inr e"
    by (rule bucket_pack_total [of ?b "replicate 54 0"]) (simp_all add: bucket_wf_def ref_address_def)
  have id: "bucket_id_from_unix 1000 = 0" by (simp add: bucket_id_from_unix_def)
  have "anchor_process an_rt AN_PID an_accounts an_data an_genesis = Inr (set_data ?s AN_BUCKET e)"
    using en e id
    by (simp add: anchor_process_def an_unpack an_accounts_def load_or_initialize_bucket_def Let_def apply_single_def
        hash_accumulate_def checked_add_def set_owner_def set_data_def)
  then show ?thesis by blast
qed

lemma an_anchored:
  obtains s log where "anchor_run ref_address AN_PID s log" and "log AN_BUCKET = [replicate 32 9]"
    and "bucket_live AN_PID (s AN_BUCKET)"
proof -
  obtain s where run: "anchor_process an_rt AN_PID an_accounts an_data an_genesis = Inr s" using an_runs by blast
  have g: "anchor_run ref_address AN_PID an_genesis (\<lambda>_. [])"
    by (rule anchor_run.genesis) (use an_pid in \<open>simp add: an_genesis_def\<close>)
  note r = run [unfolded an_accounts_def]
  have a: "anchor_run ref_address AN_PID s ((\<lambda>_. [])(AN_BUCKET := [] @ anchors_of
      (AnchorSingle \<lparr>as_version = 1, as_flags = 0, as_anchor32 = replicate 32 9, as_bucket_id = None\<rparr>)))"
    using anchor_run.instruction [OF g an_rt_solana _ r an_unpack] by simp
  have b: "bucket_live AN_PID (s AN_BUCKET)"
    using anchor_process_effect [OF an_rt_solana r an_unpack] by auto
  show thesis by (rule that [OF a _ b]) simp
qed

section \<open>Logs\<close>

text \<open>
  C28. In every history the account of a bucket stands for the list of the anchors it has taken since
  it was created: its root is the hash chain over them and its count is their number.
\<close>

theorem bucket_is_log:
  assumes "anchor_run H pid s log" and "pid \<noteq> SYSTEM_ID" and "bucket_live pid (s k)"
  shows "bk_root (bucket_of (data (s k))) = chain H (replicate 32 0) (log k) \<and>
    unat (bk_count (bucket_of (data (s k)))) = length (log k)"
  using anchor_run_inv [OF assms(1,2), of k] assms(3) by (simp add: bucket_inv_def)

theorem bucket_is_log_witness:
  "\<exists>s. bucket_live AN_PID (s AN_BUCKET) \<and> unat (bk_count (bucket_of (data (s AN_BUCKET)))) = 1 \<and>
    bk_root (bucket_of (data (s AN_BUCKET))) = ref_address [replicate 32 0, replicate 32 9]"
proof -
  obtain s log where r: "anchor_run ref_address AN_PID s log" "log AN_BUCKET = [replicate 32 9]" "bucket_live AN_PID (s AN_BUCKET)"
    by (rule an_anchored)
  from bucket_is_log [OF r(1) an_pid r(3)] r show ?thesis by (intro exI [of _ s]) simp
qed

text \<open>
  C29. Root and count of a bucket commit to its anchors and their order: two histories that show the
  same root and count for a bucket have the same log, unless two different pairs hashed along the two
  chains have the same hash.
\<close>

theorem root_binds_log:
  assumes "anchor_run H pid s log" and "anchor_run H pid s' log'" and "pid \<noteq> SYSTEM_ID"
    and "bucket_live pid (s k)" and "bucket_live pid (s' k)"
    and "bk_root (bucket_of (data (s k))) = bk_root (bucket_of (data (s' k)))"
    and "bk_count (bucket_of (data (s k))) = bk_count (bucket_of (data (s' k)))"
    and "inj_on (\<lambda>(a, b). H [a, b]) (chain_inputs H (replicate 32 0) (log k) \<union> chain_inputs H (replicate 32 0) (log' k))"
  shows "log k = log' k"
proof (rule chain_inj [OF assms(8)])
  have "bucket_inv H pid (s k) (log k)" "bucket_inv H pid (s' k) (log' k)"
    by (rule anchor_run_inv [OF assms(1,3)], rule anchor_run_inv [OF assms(2,3)])
  with assms(4-7) show "chain H (replicate 32 0) (log k) = chain H (replicate 32 0) (log' k)" "length (log k) = length (log' k)"
    by (simp_all add: bucket_inv_def)
qed

theorem root_binds_log_witness:
  "\<exists>s log log'. anchor_run ref_address AN_PID s log \<and> anchor_run ref_address AN_PID s log' \<and>
    inj_on (\<lambda>(a, b). ref_address [a, b])
      (chain_inputs ref_address (replicate 32 0) (log AN_BUCKET) \<union> chain_inputs ref_address (replicate 32 0) (log' AN_BUCKET)) \<and>
    log AN_BUCKET \<noteq> [] \<and> log AN_BUCKET = log' AN_BUCKET"
proof -
  obtain s log where r: "anchor_run ref_address AN_PID s log" "log AN_BUCKET = [replicate 32 9]" "bucket_live AN_PID (s AN_BUCKET)"
    by (rule an_anchored)
  have i: "inj_on (\<lambda>(a, b). ref_address [a, b])
      (chain_inputs ref_address (replicate 32 0) (log AN_BUCKET) \<union> chain_inputs ref_address (replicate 32 0) (log AN_BUCKET))"
    using chain_inputs_snoc [of ref_address "replicate 32 0" "[]"] r(2) by (simp add: chain_inputs_def)
  have "log AN_BUCKET = log AN_BUCKET" by (rule root_binds_log [OF r(1,1) an_pid r(3,3) refl refl i])
  with r i show ?thesis by (intro exI [of _ s] exI [of _ log] conjI) simp_all
qed

section \<open>Creation\<close>

text \<open>
  A bucket that does not exist yet cannot be created at an address that holds lamports, whoever
  sent them there; the addresses of future buckets are known to everyone.
\<close>

lemma anchor_blocked_by_prefunding:
  assumes "solana_lamports rt pid" and "owner (s (key bk)) \<noteq> pid" and "lamports (s (key bk)) \<noteq> 0"
  shows "anchor_process rt pid (payer # bk # rest) d s \<noteq> Inr s'"
proof
  assume "anchor_process rt pid (payer # bk # rest) d s = Inr s'"
  then obtain sys bid bump s1 where "ensure_bucket_account rt pid payer bk sys bid s = Inr (bump, s1)"
    by (auto simp: anchor_process_def Let_def split: if_splits)
  then obtain l infos seeds where
    "invoke_signed rt (SystemCpi (CreateAccount (key payer) (key bk) l (of_nat ANCHOR_BUCKET_ACCOUNT_LEN) pid)) infos seeds s = Inr s1"
    using assms(2) by (auto simp: ensure_bucket_account_def Let_def split: if_splits prod.splits)
  then show False using solana_lamports.create_account_lamports [OF assms(1)] assms(3) by blast
qed

end
