(* ===== verification/FdTree.thy ===== *)
theory FdTree
  imports Codec
begin

text \<open>
  The sum tree of entries of \<open>null_fair_draw\<close> (\<open>programs/null_fair_draw/src/sumtree.rs\<close>): leaf and
  node hashes that commit to weights, appending with a frontier, proof verification and the
  off-chain builders. The lemmas relate them all to one recursive tree over a sequence of pairs.
\<close>

section \<open>sumtree.rs\<close>

type_synonym pair = "bytes \<times> u64"

definition LEAF_TAG :: bytes where "LEAF_TAG = map of_char ''null-fair-draw:leaf:v1''"
definition NODE_PREFIX :: bytes where "NODE_PREFIX = [1]"
definition OPEN_DEPTH :: nat where "OPEN_DEPTH = 20"
definition MAX_LIST_DEPTH :: nat where [simp]: "MAX_LIST_DEPTH = 22"
definition TREE_PAIR_LEN :: nat where [simp]: "TREE_PAIR_LEN = 40"
definition FRONTIER_LEN :: nat where "FRONTIER_LEN = OPEN_DEPTH * TREE_PAIR_LEN"

definition entry_leaf :: "runtime \<Rightarrow> key \<Rightarrow> key \<Rightarrow> u64 \<Rightarrow> bytes" where
  "entry_leaf rt draw wallet weight = hashv rt [LEAF_TAG, draw, wallet, u64_le weight]"

definition node_hash :: "runtime \<Rightarrow> pair \<Rightarrow> pair \<Rightarrow> bytes" where
  "node_hash rt l r = hashv rt [NODE_PREFIX, fst l, u64_le (snd l), fst r, u64_le (snd r)]"

definition sum_node :: "runtime \<Rightarrow> pair \<Rightarrow> pair \<Rightarrow> pair option" where
  "sum_node rt l r = (case checked_add (snd l) (snd r) of None \<Rightarrow> None | Some w \<Rightarrow> Some (node_hash rt l r, w))"

text \<open>
  The constant table \<open>ZEROS\<close> holds the values of \<open>compute_zeros\<close> for SHA-256; the hash is a
  parameter here, so the table is the computation.
\<close>

fun zeros :: "runtime \<Rightarrow> nat \<Rightarrow> bytes" where
  "zeros rt 0 = replicate 32 0"
| "zeros rt (Suc i) = node_hash rt (zeros rt i, 0) (zeros rt i, 0)"

definition read_pair :: "bytes \<Rightarrow> pair" where
  "read_pair b = (slice b 0 32, get_u64 b 32)"

definition write_pair :: "bytes \<Rightarrow> nat \<Rightarrow> pair \<Rightarrow> bytes" where
  "write_pair b off p = splice (splice b off (fst p)) (off + 32) (u64_le (snd p))"

text \<open>One level of \<open>append\<close>, then all of them; \<open>n\<close> levels are left.\<close>

fun append_levels :: "runtime \<Rightarrow> nat \<Rightarrow> nat \<Rightarrow> bytes \<Rightarrow> u64 \<Rightarrow> pair \<Rightarrow> (bytes \<times> pair) option" where
  "append_levels rt level 0 filled idx cur = Some (filled, cur)"
| "append_levels rt level (Suc n) filled idx cur =
     (if idx AND 1 = 0 then
        (case sum_node rt cur (zeros rt level, 0) of None \<Rightarrow> None
         | Some c \<Rightarrow> append_levels rt (level + 1) n (write_pair filled (level * TREE_PAIR_LEN) cur) (drop_bit 1 idx) c)
      else
        (case sum_node rt (read_pair (slice filled (level * TREE_PAIR_LEN) TREE_PAIR_LEN)) cur of None \<Rightarrow> None
         | Some c \<Rightarrow> append_levels rt (level + 1) n filled (drop_bit 1 idx) c))"

definition tree_append :: "runtime \<Rightarrow> bytes \<Rightarrow> u64 \<Rightarrow> pair \<Rightarrow> (bytes \<times> pair) option" where
  "tree_append rt filled index leaf = append_levels rt 0 OPEN_DEPTH filled index leaf"

text \<open>The loop of \<open>verify\<close> over the levels that are left.\<close>

fun verify_levels :: "runtime \<Rightarrow> u64 \<Rightarrow> bytes \<Rightarrow> nat list \<Rightarrow> pair \<Rightarrow> u64 \<Rightarrow> (pair \<times> u64) option" where
  "verify_levels rt index path [] acc prefix = Some (acc, prefix)"
| "verify_levels rt index path (level # ls) acc prefix =
     (let sib = read_pair (slice path (level * TREE_PAIR_LEN) TREE_PAIR_LEN) in
      if drop_bit level index AND 1 = 1 then
        (case checked_add prefix (snd sib) of None \<Rightarrow> None
         | Some q \<Rightarrow> (case sum_node rt sib acc of None \<Rightarrow> None | Some a \<Rightarrow> verify_levels rt index path ls a q))
      else (case sum_node rt acc sib of None \<Rightarrow> None | Some a \<Rightarrow> verify_levels rt index path ls a prefix))"

definition tree_verify :: "runtime \<Rightarrow> bytes \<Rightarrow> u64 \<Rightarrow> nat \<Rightarrow> u64 \<Rightarrow> u64 \<Rightarrow> bytes \<Rightarrow> u64 \<Rightarrow> bytes \<Rightarrow> u64 option" where
  "tree_verify rt root tot depth cnt index leaf weight path =
     (if weight = 0 \<or> cnt \<le> index \<or> length path \<noteq> depth * TREE_PAIR_LEN \<or> MAX_LIST_DEPTH < depth then None
      else if depth < 64 \<and> drop_bit depth index \<noteq> 0 then None
      else (case verify_levels rt index path [0..<depth] (leaf, weight) 0 of None \<Rightarrow> None
            | Some (acc, prefix) \<Rightarrow> if fst acc \<noteq> root \<or> snd acc \<noteq> tot then None else Some prefix))"

text \<open>
  The off-chain builders. Adding the weights of a level can overflow, which is a panic of the
  helper (\<open>expect\<close>) and \<open>None\<close> here.
\<close>

fun pair_level :: "runtime \<Rightarrow> pair list \<Rightarrow> pair list option" where
  "pair_level rt (a # b # r) =
     (case (sum_node rt a b, pair_level rt r) of (Some n, Some ns) \<Rightarrow> Some (n # ns) | _ \<Rightarrow> None)"
| "pair_level rt _ = Some []"

definition pad_level :: "bytes \<Rightarrow> pair list \<Rightarrow> pair list" where
  "pad_level z cur =
     (let cur = (if length cur mod 2 = 1 then cur @ [(z, 0)] else cur) in
      if cur = [] then [(z, 0), (z, 0)] else cur)"

fun build_from :: "runtime \<Rightarrow> nat \<Rightarrow> nat \<Rightarrow> pair list \<Rightarrow> pair list list option" where
  "build_from rt level 0 cur = Some [cur]"
| "build_from rt level (Suc n) cur =
     (let lv = pad_level (zeros rt level) cur in
      case pair_level rt lv of None \<Rightarrow> None
      | Some up \<Rightarrow> (case build_from rt (level + 1) n up of None \<Rightarrow> None | Some ls \<Rightarrow> Some (lv # ls)))"

definition tree_build :: "runtime \<Rightarrow> pair list \<Rightarrow> nat \<Rightarrow> pair list list option" where
  "tree_build rt leaves depth = build_from rt 0 depth leaves"

definition root_of :: "runtime \<Rightarrow> pair list \<Rightarrow> nat \<Rightarrow> pair option" where
  "root_of rt leaves depth =
     (if leaves = [] then Some (zeros rt depth, 0)
      else case tree_build rt leaves depth of None \<Rightarrow> None | Some ls \<Rightarrow> Some (ls ! depth ! 0))"

definition pair_sibling :: "runtime \<Rightarrow> pair list list \<Rightarrow> nat \<Rightarrow> nat \<Rightarrow> pair" where
  "pair_sibling rt ls l i = (case get_at (ls ! l) (i XOR 1) of Some p \<Rightarrow> p | None \<Rightarrow> (zeros rt l, 0))"

definition proof_of :: "runtime \<Rightarrow> pair list \<Rightarrow> nat \<Rightarrow> nat \<Rightarrow> bytes option" where
  "proof_of rt leaves depth index =
     (case tree_build rt leaves depth of None \<Rightarrow> None
      | Some ls \<Rightarrow> Some (concat (map (\<lambda>l. let (h, w) = pair_sibling rt ls l (index div 2 ^ l) in h @ u64_le w) [0..<depth])))"

text \<open>\<open>1u64 << d\<close> leaves the word at 64, which is a panic of the helper.\<close>

function depth_from :: "nat \<Rightarrow> nat \<Rightarrow> nat option" where
  "depth_from d n = (if 64 \<le> d then None else if 2 ^ d < n then depth_from (d + 1) n else Some d)"
  by auto
termination
  by (relation "measure (\<lambda>(d, n). 64 - d)") auto

declare depth_from.simps [simp del]

definition depth_for :: "u64 \<Rightarrow> nat option" where
  "depth_for cnt = depth_from 1 (unat cnt)"

section \<open>The tree over a sequence of pairs\<close>

fun subtree :: "runtime \<Rightarrow> nat \<Rightarrow> (nat \<Rightarrow> pair) \<Rightarrow> pair option" where
  "subtree rt 0 f = Some (f 0)"
| "subtree rt (Suc h) f =
     (case (subtree rt h f, subtree rt h (\<lambda>i. f (i + 2 ^ h))) of (Some a, Some b) \<Rightarrow> sum_node rt a b | _ \<Rightarrow> None)"

definition sub_node :: "runtime \<Rightarrow> (nat \<Rightarrow> pair) \<Rightarrow> nat \<Rightarrow> nat \<Rightarrow> pair option" where
  "sub_node rt f l k = subtree rt l (\<lambda>j. f (k * 2 ^ l + j))"

definition padded_pairs :: "pair list \<Rightarrow> nat \<Rightarrow> pair" where
  "padded_pairs leaves i = (if i < length leaves then leaves ! i else (replicate 32 0, 0))"

definition weights :: "(nat \<Rightarrow> pair) \<Rightarrow> nat \<Rightarrow> nat \<Rightarrow> nat" where
  "weights f i n = (\<Sum>j = i..<n. unat (snd (f j)))"

lemma weights_split: "i \<le> m \<Longrightarrow> m \<le> n \<Longrightarrow> weights f i n = weights f i m + weights f m n"
  by (simp add: weights_def sum.atLeastLessThan_concat)

lemma sum_node_Some: "sum_node rt l r = Some p \<longleftrightarrow>
    unat (snd l) + unat (snd r) < 2 ^ 64 \<and> p = (node_hash rt l r, snd l + snd r)"
  by (auto simp: sum_node_def checked_add_def)

lemma sum_node_weight: "sum_node rt l r = Some p \<Longrightarrow> unat (snd p) = unat (snd l) + unat (snd r)"
  by (auto simp: sum_node_Some unat_word_ariths)

lemma sub_node_0 [simp]: "sub_node rt f 0 k = Some (f k)"
  by (simp add: sub_node_def)

lemma sub_node_Suc: "sub_node rt f (Suc l) k =
    (case (sub_node rt f l (2 * k), sub_node rt f l (2 * k + 1)) of (Some a, Some b) \<Rightarrow> sum_node rt a b | _ \<Rightarrow> None)"
  by (simp add: sub_node_def algebra_simps)

lemma sub_node_weight:
  "sub_node rt f l k = Some p \<Longrightarrow> unat (snd p) = weights f (k * 2 ^ l) ((k + 1) * 2 ^ l)"
proof (induction l arbitrary: k p)
  case 0
  then show ?case by (simp add: weights_def)
next
  case (Suc l)
  then obtain a b where ab: "sub_node rt f l (2 * k) = Some a" "sub_node rt f l (2 * k + 1) = Some b" "sum_node rt a b = Some p"
    by (auto simp: sub_node_Suc split: option.splits)
  have "weights f (k * 2 ^ Suc l) ((k + 1) * 2 ^ Suc l) =
      weights f (2 * k * 2 ^ l) ((2 * k + 1) * 2 ^ l) + weights f ((2 * k + 1) * 2 ^ l) ((2 * k + 1 + 1) * 2 ^ l)"
    by (subst weights_split [where m = "(2 * k + 1) * 2 ^ l"]) (simp_all add: algebra_simps)
  with Suc.IH [OF ab(1)] Suc.IH [OF ab(2)] sum_node_weight [OF ab(3)] show ?case by simp
qed

lemma sub_node_total:
  "weights f (k * 2 ^ l) ((k + 1) * 2 ^ l) < 2 ^ 64 \<Longrightarrow> \<exists>p. sub_node rt f l k = Some p"
proof (induction l arbitrary: k)
  case (Suc l)
  have w: "weights f (k * 2 ^ Suc l) ((k + 1) * 2 ^ Suc l) =
      weights f (2 * k * 2 ^ l) ((2 * k + 1) * 2 ^ l) + weights f ((2 * k + 1) * 2 ^ l) ((2 * k + 1 + 1) * 2 ^ l)"
    by (subst weights_split [where m = "(2 * k + 1) * 2 ^ l"]) (simp_all add: algebra_simps)
  with Suc obtain a b where ab: "sub_node rt f l (2 * k) = Some a" "sub_node rt f l (2 * k + 1) = Some b" by fastforce
  with sub_node_weight [OF ab(1)] sub_node_weight [OF ab(2)] w Suc.prems show ?case
    by (auto simp: sub_node_Suc sum_node_Some)
qed simp

lemma sub_node_cong:
  "(\<And>j. k * 2 ^ l \<le> j \<Longrightarrow> j < (k + 1) * 2 ^ l \<Longrightarrow> f j = g j) \<Longrightarrow> sub_node rt f l k = sub_node rt g l k"
proof (induction l arbitrary: k)
  case (Suc l)
  have "sub_node rt f l (2 * k) = sub_node rt g l (2 * k)"
    by (rule Suc.IH, rule Suc.prems) (simp_all add: algebra_simps)
  moreover have "sub_node rt f l (2 * k + 1) = sub_node rt g l (2 * k + 1)"
    by (rule Suc.IH, rule Suc.prems) (simp_all add: algebra_simps)
  ultimately show ?case by (simp add: sub_node_Suc)
qed simp

lemma sub_node_zero: "length leaves \<le> k * 2 ^ l \<Longrightarrow> sub_node rt (padded_pairs leaves) l k = Some (zeros rt l, 0)"
proof (induction l arbitrary: k)
  case (Suc l)
  then have "sub_node rt (padded_pairs leaves) l (2 * k) = Some (zeros rt l, 0)"
    "sub_node rt (padded_pairs leaves) l (2 * k + 1) = Some (zeros rt l, 0)"
    by (simp_all add: algebra_simps trans_le_add2)
  then show ?case by (simp add: sub_node_Suc sum_node_Some)
qed (simp add: padded_pairs_def)


section \<open>Proofs as paths\<close>

fun climb :: "runtime \<Rightarrow> nat \<Rightarrow> pair list \<Rightarrow> pair \<Rightarrow> u64 \<Rightarrow> (pair \<times> u64) option" where
  "climb rt i [] acc pre = Some (acc, pre)"
| "climb rt i (s # ss) acc pre =
     (if odd i then
        (case checked_add pre (snd s) of None \<Rightarrow> None
         | Some q \<Rightarrow> (case sum_node rt s acc of None \<Rightarrow> None | Some a \<Rightarrow> climb rt (i div 2) ss a q))
      else (case sum_node rt acc s of None \<Rightarrow> None | Some a \<Rightarrow> climb rt (i div 2) ss a pre))"

definition path_pairs :: "bytes \<Rightarrow> nat \<Rightarrow> pair list" where
  "path_pairs path depth = map (\<lambda>l. read_pair (slice path (l * TREE_PAIR_LEN) TREE_PAIR_LEN)) [0..<depth]"

lemma drop_bit_odd: "drop_bit l (w :: u64) AND 1 = 1 \<longleftrightarrow> odd (unat w div 2 ^ l)"
proof -
  have "drop_bit l w AND 1 = 1 \<longleftrightarrow> odd (drop_bit l w)" by (simp add: and_one_eq odd_iff_mod_2_eq_one)
  also have "\<dots> \<longleftrightarrow> bit w l" by (rule bit_iff_odd_drop_bit [symmetric])
  also have "\<dots> \<longleftrightarrow> bit (unat w) l" by (auto simp: bit_unsigned_iff dest: bit_imp_le_length)
  also have "\<dots> \<longleftrightarrow> odd (unat w div 2 ^ l)" by (rule bit_iff_odd)
  finally show ?thesis .
qed

lemma and_one_even: "(w :: u64) AND 1 = 0 \<longleftrightarrow> even (unat w)"
  using drop_bit_odd [of 0 w] by (auto simp: and_one_eq mod_2_eq_odd)

lemma verify_levels_climb:
  "verify_levels rt index path [k..<k + n] acc pre =
   climb rt (unat index div 2 ^ k) (map (\<lambda>l. read_pair (slice path (l * TREE_PAIR_LEN) TREE_PAIR_LEN)) [k..<k + n]) acc pre"
proof (induction n arbitrary: k acc pre)
  case (Suc n)
  have u: "[k..<k + Suc n] = k # [Suc k..<Suc k + n]" by (simp add: upt_conv_Cons)
  have d: "unat index div 2 ^ Suc k = unat index div 2 ^ k div 2" by (metis div_mult2_eq power_Suc2)
  show ?case
    unfolding u verify_levels.simps climb.simps list.map Let_def drop_bit_odd Suc.IH d by simp
qed simp

lemma tree_verify_Some:
  "tree_verify rt root tot depth cnt index leaf weight path = Some start \<longleftrightarrow>
   weight \<noteq> 0 \<and> index < cnt \<and> length path = depth * TREE_PAIR_LEN \<and> depth \<le> MAX_LIST_DEPTH \<and> unat index < 2 ^ depth \<and>
   climb rt (unat index) (path_pairs path depth) (leaf, weight) 0 = Some ((root, tot), start)"
proof -
  have z: "drop_bit depth index = 0 \<longleftrightarrow> unat index < 2 ^ depth" if "depth \<le> 22"
    by (metis (no_types) div_eq_0_iff drop_bit_eq_div power_not_zero unat_drop_bit_eq unat_eq_0 zero_neq_numeral)
  show ?thesis
    using verify_levels_climb [of rt index path 0 depth "(leaf, weight)" 0] z
    by (auto simp: tree_verify_def path_pairs_def split: option.splits if_splits)
qed


lemma climb_snoc:
  "climb rt i (ss @ [t]) acc pre =
   (case climb rt i ss acc pre of None \<Rightarrow> None
    | Some (a, q) \<Rightarrow> climb rt (i div 2 ^ length ss) [t] a q)"
proof (induction ss arbitrary: i acc pre)
  case (Cons s ss)
  have d: "i div 2 div 2 ^ length ss = i div 2 ^ length (s # ss)" by (simp add: div_mult2_eq)
  show ?case by (simp add: Cons.IH d del: climb.simps(2) split: option.split) (simp add: Cons.IH d split: option.split)
qed simp

lemma climb_one:
  "climb rt i [t] acc pre = Some (a, q) \<longleftrightarrow>
   (if odd i then checked_add pre (snd t) = Some q \<and> sum_node rt t acc = Some a
    else q = pre \<and> sum_node rt acc t = Some a)"
  by (auto split: option.splits)

text \<open>
  The node inputs a proof hashes on its way up. That the hash does not collide is only ever used
  for such inputs: \<open>node_inj S\<close> says no two different inputs of the set \<open>S\<close> have the same hash.
\<close>

fun node_pairs :: "runtime \<Rightarrow> nat \<Rightarrow> pair list \<Rightarrow> pair \<Rightarrow> (pair \<times> pair) list" where
  "node_pairs rt i [] acc = []"
| "node_pairs rt i (s # ss) acc =
     (let lr = (if odd i then (s, acc) else (acc, s)) in
      lr # node_pairs rt (i div 2) ss (node_hash rt (fst lr) (snd lr), snd (fst lr) + snd (snd lr)))"

definition node_inj :: "runtime \<Rightarrow> (pair \<times> pair) set \<Rightarrow> bool" where
  "node_inj rt S \<longleftrightarrow> (\<forall>(a, b) \<in> S. \<forall>(c, d) \<in> S. node_hash rt a b = node_hash rt c d \<longrightarrow> a = c \<and> b = d)"

lemma node_injD: "node_inj rt S \<Longrightarrow> (a, b) \<in> S \<Longrightarrow> (c, d) \<in> S \<Longrightarrow> node_hash rt a b = node_hash rt c d \<Longrightarrow> a = c \<and> b = d"
  by (fastforce simp: node_inj_def)

lemma node_pairs_snoc:
  assumes "climb rt i ss acc pre = Some (a, q)"
  shows "node_pairs rt i (ss @ [t]) acc = node_pairs rt i ss acc @ [if odd (i div 2 ^ length ss) then (t, a) else (a, t)]"
  using assms
proof (induction ss arbitrary: i acc pre)
  case (Cons s ss)
  have d: "i div 2 div 2 ^ length ss = i div 2 ^ length (s # ss)" by (simp add: div_mult2_eq)
  show ?case
  proof (cases "odd i")
    case True
    with Cons.prems obtain q' c where "sum_node rt s acc = Some c" "climb rt (i div 2) ss c q' = Some (a, q)"
      by (auto split: option.splits)
    with Cons.IH [OF this(2)] True d show ?thesis by (simp add: sum_node_Some Let_def)
  next
    case False
    with Cons.prems obtain c where "sum_node rt acc s = Some c" "climb rt (i div 2) ss c pre = Some (a, q)"
      by (auto split: option.splits)
    with Cons.IH [OF this(2)] False d show ?thesis by (simp add: sum_node_Some Let_def)
  qed
qed simp

lemma climb_mod: "climb rt (i mod 2 ^ length ss) ss acc pre = climb rt i ss acc pre"
proof (induction ss arbitrary: i acc pre)
  case (Cons s ss)
  have d: "i mod 2 ^ length (s # ss) div 2 = i div 2 mod 2 ^ length ss" by (simp add: mod_mult2_eq)
  have o: "odd (i mod 2 ^ length (s # ss)) \<longleftrightarrow> odd i" by (simp add: mod_mult2_eq)
  show ?case unfolding climb.simps o d Cons.IH by simp
qed simp

lemma climb_bound:
  "climb rt i ss acc pre = Some (a, q) \<Longrightarrow> unat q + unat (snd acc) \<le> unat pre + unat (snd a)"
proof (induction ss arbitrary: i acc pre)
  case (Cons s ss)
  then show ?case
    by (fastforce split: if_splits option.splits dest!: checked_add_unat sum_node_weight)
qed simp

lemma sum_node_hash32: "\<forall>xs. length (hashv rt xs) = 32 \<Longrightarrow> sum_node rt l r = Some p \<Longrightarrow> length (fst p) = 32"
  by (auto simp: sum_node_Some node_hash_def)

lemma climb_hash32:
  "\<forall>xs. length (hashv rt xs) = 32 \<Longrightarrow> length (fst acc) = 32 \<Longrightarrow> climb rt i ss acc pre = Some (a, q) \<Longrightarrow> length (fst a) = 32"
  by (induction ss arbitrary: i acc pre) (auto split: if_splits option.splits dest: sum_node_hash32)

lemma sum_node_inj:
  assumes "node_inj rt S" and "sum_node rt a b = Some r" and "sum_node rt c d = Some r" and "(a, b) \<in> S" and "(c, d) \<in> S"
  shows "a = c \<and> b = d"
  by (rule node_injD [OF assms(1,4,5)]) (use assms in \<open>auto simp: sum_node_Some\<close>)

lemma node_pairs_mod: "node_pairs rt (i mod 2 ^ length ss) ss acc = node_pairs rt i ss acc"
proof (induction ss arbitrary: i acc)
  case (Cons s ss)
  have d: "i mod 2 ^ length (s # ss) div 2 = i div 2 mod 2 ^ length ss" by (simp add: mod_mult2_eq)
  have o: "odd (i mod 2 ^ length (s # ss)) \<longleftrightarrow> odd i" by (simp add: mod_mult2_eq)
  show ?case unfolding node_pairs.simps o d Cons.IH ..
qed simp

text \<open>
  Two proofs that lead to the same pair: the same place has the same leaf and start, and a place
  further right starts after the interval of the left one.
\<close>

lemma climb_two:
  assumes inj: "node_inj rt S" and "length ss = n" "length tt = n"
    and "set (node_pairs rt i ss a) \<subseteq> S" and "set (node_pairs rt j tt b) \<subseteq> S"
    and "climb rt i ss a 0 = Some (r, s)" and "climb rt j tt b 0 = Some (r, t)" and "i < 2 ^ n" "j < 2 ^ n"
  shows "(i = j \<longrightarrow> a = b \<and> s = t) \<and> (i < j \<longrightarrow> unat s + unat (snd a) \<le> unat t)"
  using assms(2-)
proof (induction n arbitrary: ss tt i j r s t)
  case 0
  then show ?case by simp
next
  case (Suc n)
  obtain ss' x where ss: "ss = ss' @ [x]" "length ss' = n" using Suc.prems(1) by (metis length_Suc_conv_rev)
  obtain tt' y where tt: "tt = tt' @ [y]" "length tt' = n" using Suc.prems(2) by (metis length_Suc_conv_rev)
  let ?i = "i mod 2 ^ n" and ?j = "j mod 2 ^ n"
  from Suc.prems(5) obtain p s' where i: "climb rt i ss' a 0 = Some (p, s')" "climb rt (i div 2 ^ n) [x] p s' = Some (r, s)"
    by (auto simp: ss climb_snoc split: option.splits simp del: climb.simps)
  from Suc.prems(6) obtain q t' where j: "climb rt j tt' b 0 = Some (q, t')" "climb rt (j div 2 ^ n) [y] q t' = Some (r, t)"
    by (auto simp: tt climb_snoc split: option.splits simp del: climb.simps)
  have S: "set (node_pairs rt ?i ss' a) \<subseteq> S" "set (node_pairs rt ?j tt' b) \<subseteq> S"
    "(if odd (i div 2 ^ n) then (x, p) else (p, x)) \<in> S" "(if odd (j div 2 ^ n) then (y, q) else (q, y)) \<in> S"
    using Suc.prems(3,4) node_pairs_mod [of rt i ss' a] node_pairs_mod [of rt j tt' b]
    by (simp_all only: ss tt node_pairs_snoc [OF i(1)] node_pairs_snoc [OF j(1)]) simp_all
  note inj = sum_node_inj [OF inj]
  have IH: "(?i = ?j \<longrightarrow> a = b \<and> s' = t') \<and> (?i < ?j \<longrightarrow> unat s' + unat (snd a) \<le> unat t')" if "p = q"
    by (rule Suc.IH [OF ss(2) tt(2) S(1,2)])
      (use i(1) j(1) that climb_mod [of rt i ss'] climb_mod [of rt j tt'] ss(2) tt(2) in simp_all)
  have top: "i div 2 ^ n < 2" "j div 2 ^ n < 2" using Suc.prems(7,8) by (simp_all add: less_mult_imp_div_less)
  have dm: "i = i div 2 ^ n * 2 ^ n + ?i" "j = j div 2 ^ n * 2 ^ n + ?j" by (simp_all only: div_mult_mod_eq)
  note un = checked_add_unat [of s' "snd x" s] checked_add_unat [of t' "snd y" t]
  consider "i div 2 ^ n = 0" "j div 2 ^ n = 0" | "i div 2 ^ n = 1" "j div 2 ^ n = 1"
    | "i div 2 ^ n = 0" "j div 2 ^ n = 1" | "i div 2 ^ n = 1" "j div 2 ^ n = 0" using top by linarith
  then show ?case
  proof cases
    case 1
    then have "sum_node rt p x = Some r" "sum_node rt q y = Some r" "s = s'" "t = t'"
      using i(2) j(2) by (simp_all only: climb_one) simp_all
    with inj [OF this(1,2)] S(3,4) IH 1 dm show ?thesis by auto
  next
    case 2
    then have n: "sum_node rt x p = Some r" "sum_node rt y q = Some r"
      and c: "checked_add s' (snd x) = Some s" "checked_add t' (snd y) = Some t"
      using i(2) j(2) by (simp_all only: climb_one) simp_all
    from inj [OF n] S(3,4) 2 have e: "x = y" "p = q" by simp_all
    have dm': "i = 2 ^ n + ?i" "j = 2 ^ n + ?j" using dm unfolding 2 mult_1 .
    have "i = j \<longleftrightarrow> ?i = ?j" by (metis dm' add_left_cancel)
    moreover have "i < j \<longleftrightarrow> ?i < ?j" by (metis dm' nat_add_left_cancel_less)
    ultimately have "i = j \<longleftrightarrow> ?i = ?j" "i < j \<longleftrightarrow> ?i < ?j" .
    with IH [OF e(2)] un(1) [OF c(1)] un(2) [OF c(2)] c e show ?thesis by auto
  next
    case 3
    then have n: "sum_node rt p x = Some r" "sum_node rt y q = Some r" and "s = s'"
      and c: "checked_add t' (snd y) = Some t"
      using i(2) j(2) by (simp_all only: climb_one) simp_all
    from inj [OF n] S(3,4) 3 have "p = y" by simp
    with climb_bound [OF i(1)] un(2) [OF c] \<open>s = s'\<close> have "unat s + unat (snd a) \<le> unat t" by simp
    moreover have "i \<noteq> j" using 3 by auto
    ultimately show ?thesis by simp
  next
    case 4
    have "j < 2 ^ n" using 4(2) by (simp add: div_eq_0_iff)
    moreover have "\<not> i < 2 ^ n" using 4(1) by auto
    ultimately have "j < i" by simp
    then show ?thesis by simp
  qed
qed

text \<open>What \<open>verify\<close> hashes, and what two accepted proofs under one root say about each other.\<close>

definition verify_pairs :: "runtime \<Rightarrow> nat \<Rightarrow> u64 \<Rightarrow> bytes \<Rightarrow> u64 \<Rightarrow> bytes \<Rightarrow> (pair \<times> pair) set" where
  "verify_pairs rt depth index leaf weight path =
     set (node_pairs rt (unat index) (path_pairs path depth) (leaf, weight))"

lemma tree_verify_range:
  "tree_verify rt root tot depth cnt index leaf weight path = Some start \<Longrightarrow> unat start + unat weight \<le> unat tot"
  using climb_bound by (fastforce simp: tree_verify_Some)

lemma tree_verify_two:
  assumes "node_inj rt S" and "tree_verify rt root tot depth cnt i l v p = Some s" and "tree_verify rt root tot depth cnt j m w q = Some t"
    and "verify_pairs rt depth i l v p \<subseteq> S" and "verify_pairs rt depth j m w q \<subseteq> S"
  shows "i = j \<and> l = m \<and> v = w \<and> s = t \<or> i < j \<and> unat s + unat v \<le> unat t \<or> j < i \<and> unat t + unat w \<le> unat s"
proof -
  have len: "length (path_pairs x depth) = depth" for x by (simp add: path_pairs_def)
  note i = assms(2) [unfolded tree_verify_Some] and j = assms(3) [unfolded tree_verify_Some]
  have ij: "(unat i = unat j \<longrightarrow> (l, v) = (m, w) \<and> s = t) \<and> (unat i < unat j \<longrightarrow> unat s + unat v \<le> unat t)"
    using climb_two [OF assms(1) len len assms(4,5) [unfolded verify_pairs_def], of "(root, tot)" s t] i j by simp
  have ji: "unat j < unat i \<longrightarrow> unat t + unat w \<le> unat s"
    using climb_two [OF assms(1) len len assms(5,4) [unfolded verify_pairs_def], of "(root, tot)" t s] i j by simp
  consider "i = j" | "i < j" | "j < i" by (metis linorder_neqE)
  then show ?thesis using ij ji by cases (auto simp: word_less_nat_alt)
qed

section \<open>Honest proofs\<close>

lemma sub_node_parts:
  assumes "sub_node rt f (l + m) k = Some p" and "j < 2 ^ m"
  shows "\<exists>q. sub_node rt f l (k * 2 ^ m + j) = Some q"
  using assms
proof (induction m arbitrary: k p j)
  case (Suc m)
  from Suc.prems(1) obtain a b where ab: "sub_node rt f (l + m) (2 * k) = Some a" "sub_node rt f (l + m) (2 * k + 1) = Some b"
    by (auto simp: sub_node_Suc split: option.splits)
  show ?case
  proof (cases "j < 2 ^ m")
    case True
    from Suc.IH [OF ab(1) this] show ?thesis by (simp add: algebra_simps)
  next
    case False
    then have "j - 2 ^ m < 2 ^ m" "2 ^ m \<le> j" using Suc.prems(2) by simp_all
    from Suc.IH [OF ab(2) this(1)] this(2) show ?thesis by (simp add: algebra_simps)
  qed
qed simp

definition honest :: "runtime \<Rightarrow> (nat \<Rightarrow> pair) \<Rightarrow> nat \<Rightarrow> nat \<Rightarrow> pair" where
  "honest rt f i l = the (sub_node rt f l (i div 2 ^ l XOR 1))"

lemma xor_one: "(n :: nat) XOR Suc 0 = (if odd n then n - 1 else n + 1)"
  by (simp add: xor_Suc_0_eq)

lemma xor_one_less: "k < 2 ^ m \<Longrightarrow> 0 < m \<Longrightarrow> k XOR 1 < (2 :: nat) ^ m"
proof -
  assume k: "k < 2 ^ m" and m: "0 < m"
  from m have e: "even ((2 :: nat) ^ m)" by simp
  show ?thesis
  proof (cases "odd k")
    case False
    then have "k + 1 \<noteq> 2 ^ m" using e by (metis even_plus_one_iff)
    with k False show ?thesis by (simp add: xor_one)
  qed (use k in \<open>simp add: xor_one less_imp_diff_less\<close>)
qed

lemma div_pow_less: "i < 2 ^ d \<Longrightarrow> l \<le> d \<Longrightarrow> i div 2 ^ l < (2 :: nat) ^ (d - l)"
  by (simp add: less_mult_imp_div_less power_add [symmetric])

lemma climb_honest:
  assumes "sub_node rt f d 0 = Some root" and "i < 2 ^ d" and "l \<le> d"
  shows "\<exists>q s. sub_node rt f l (i div 2 ^ l) = Some q \<and> climb rt i (map (honest rt f i) [0..<l]) (f i) 0 = Some (q, s) \<and>
    unat s = weights f (i div 2 ^ l * 2 ^ l) i"
  using assms(3)
proof (induction l)
  case 0
  then show ?case by (simp add: weights_def)
next
  case (Suc l)
  let ?k = "i div 2 ^ l"
  from Suc obtain q s where q: "sub_node rt f l ?k = Some q" and c: "climb rt i (map (honest rt f i) [0..<l]) (f i) 0 = Some (q, s)"
    and s: "unat s = weights f (?k * 2 ^ l) i" by auto
  have k2: "i div 2 ^ Suc l = ?k div 2" by (metis div_mult2_eq power_Suc2)
  have "?k div 2 < 2 ^ (d - Suc l)"
    using div_pow_less [OF assms(2) Suc.prems] k2 by simp
  with sub_node_parts [of rt f "Suc l" "d - Suc l" 0 root] assms(1) Suc.prems obtain p where p: "sub_node rt f (Suc l) (?k div 2) = Some p"
    by auto blast
  then obtain a b where ab: "sub_node rt f l (2 * (?k div 2)) = Some a" "sub_node rt f l (2 * (?k div 2) + 1) = Some b" "sum_node rt a b = Some p"
    by (auto simp: sub_node_Suc split: option.splits)
  have map: "map (honest rt f i) [0..<Suc l] = map (honest rt f i) [0..<l] @ [honest rt f i l]" by simp
  show ?case
  proof (cases "odd ?k")
    case True
    then have e: "?k = 2 * (?k div 2) + 1" by simp
    have "b = q" using ab(2) q e by simp
    have h: "honest rt f i l = a" using ab(1) True by (simp add: honest_def xor_one)
    have le: "?k * 2 ^ l \<le> i" by simp
    have w: "unat (snd a) = weights f (2 * (?k div 2) * 2 ^ l) (?k * 2 ^ l)"
      using sub_node_weight [OF ab(1)] by (simp only: e [symmetric])
    have sum: "weights f (2 * (?k div 2) * 2 ^ l) i = unat (snd a) + unat s"
      unfolding s w by (rule weights_split) (use e le in \<open>simp_all add: algebra_simps\<close>)
    have "unat (snd a) + unat (snd q) < 2 ^ 64" using ab(3) \<open>b = q\<close> by (simp add: sum_node_Some)
    then have "unat s + unat (snd a) < 2 ^ 64" using climb_bound [OF c] by simp
    then have ca: "checked_add s (snd a) = Some (s + snd a)" by (simp add: checked_add_def)
    have "climb rt i (map (honest rt f i) [0..<Suc l]) (f i) 0 = Some (p, s + snd a)"
      unfolding map climb_snoc c using ab(3) True ca h \<open>b = q\<close> by (simp only: length_map length_upt option.case prod.case climb_one) simp
    moreover have "unat (s + snd a) = weights f (i div 2 ^ Suc l * 2 ^ Suc l) i"
      using checked_add_unat [OF ca] sum k2 by (simp add: algebra_simps)
    ultimately show ?thesis using p [folded k2] by blast
  next
    case False
    then have e: "?k = 2 * (?k div 2)" by simp
    have "a = q" using ab(1) q e by simp
    have h: "honest rt f i l = b" using ab(2) False by (simp add: honest_def xor_one)
    have "climb rt i (map (honest rt f i) [0..<Suc l]) (f i) 0 = Some (p, s)"
      unfolding map climb_snoc c using ab(3) False h \<open>a = q\<close> by (simp only: length_map length_upt option.case prod.case climb_one) simp
    moreover have "i div 2 ^ Suc l * 2 ^ Suc l = ?k * 2 ^ l" using e k2 by simp
    then have "unat s = weights f (i div 2 ^ Suc l * 2 ^ Suc l) i" by (simp only: s)
    ultimately show ?thesis using p [folded k2] by blast
  qed
qed

lemma honest_verifies:
  assumes "sub_node rt f d 0 = Some root" and "i < 2 ^ d"
  obtains s where "climb rt i (map (honest rt f i) [0..<d]) (f i) 0 = Some (root, s)" and "unat s = weights f 0 i"
  using climb_honest [OF assms order_refl] assms by auto

lemma sub_node_hash32:
  assumes "\<forall>xs. length (hashv rt xs) = 32" and "\<And>j. length (fst (f j)) = 32"
  shows "sub_node rt f l k = Some p \<Longrightarrow> length (fst p) = 32"
  using assms by (induction l arbitrary: k p) (auto simp: sub_node_Suc split: option.splits dest: sum_node_hash32)

text \<open>
  Any proof that leads to the root of a known tree is the honest one, unless an input it hashes
  collides with an input of the tree.
\<close>

lemma climb_tree:
  assumes inj: "node_inj rt S" and root: "sub_node rt f d 0 = Some r" and ss: "length ss = d" and "i < 2 ^ d"
    and c: "climb rt i ss a 0 = Some (r, s)"
    and "set (node_pairs rt i ss a) \<subseteq> S" and "set (node_pairs rt i (map (honest rt f i) [0..<d]) (f i)) \<subseteq> S"
  shows "a = f i \<and> unat s = weights f 0 i"
proof -
  obtain t where t: "climb rt i (map (honest rt f i) [0..<d]) (f i) 0 = Some (r, t)" "unat t = weights f 0 i"
    by (rule honest_verifies [OF root assms(4)])
  from climb_two [OF inj ss _ assms(6,7) c t(1) assms(4,4)] t(2) show ?thesis by simp
qed

end
