(* ===== verification/FdGrow.thy ===== *)
theory FdGrow
  imports FdTree
begin

text \<open>
  Growing the sum tree of \<open>null_fair_draw\<close>: the frontier of an open raffle always holds the complete
  left subtrees of the entries so far, so appending computes the root of the tree over all of them;
  the off-chain builders compute the same tree, and the proofs they build verify.
\<close>

section \<open>The frontier\<close>

definition slot_pair :: "bytes \<Rightarrow> nat \<Rightarrow> pair" where
  "slot_pair d l = read_pair (slice d (l * TREE_PAIR_LEN) TREE_PAIR_LEN)"

lemma slice_slice: "off + n \<le> m \<Longrightarrow> slice (slice d o' m) off n = slice d (o' + off) n"
  by (simp add: slice_def drop_take min_def add.commute)

lemma slot_pair_alt: "slot_pair d l = (slice d (l * 40) 32, get_u64 d (l * 40 + 32))"
  by (simp add: slot_pair_def read_pair_def slice_slice get_u64_def)

lemma length_write_pair [simp]: "length (write_pair d off p) = length d"
  by (simp add: write_pair_def)

lemma slot_write_same:
  "length (fst p) = 32 \<Longrightarrow> l * 40 + 40 \<le> length d \<Longrightarrow> slot_pair (write_pair d (l * TREE_PAIR_LEN) p) l = p"
  by (simp add: slot_pair_alt write_pair_def byte_simps prod_eq_iff)

lemma slot_write_other:
  assumes "length (fst p) = 32" and "l \<noteq> k"
  shows "slot_pair (write_pair d (l * TREE_PAIR_LEN) p) k = slot_pair d k"
proof -
  have "l * 40 + 40 \<le> k * 40 \<or> k * 40 + 40 \<le> l * 40" using assms(2) by linarith
  then show ?thesis using assms(1) by (auto simp: slot_pair_alt write_pair_def byte_simps)
qed

definition frontier_ok :: "runtime \<Rightarrow> nat \<Rightarrow> bytes \<Rightarrow> pair list \<Rightarrow> bool" where
  "frontier_ok rt D filled leaves \<longleftrightarrow> length filled = D * TREE_PAIR_LEN \<and>
     (\<forall>l < D. odd (length leaves div 2 ^ l) \<longrightarrow>
        sub_node rt (padded_pairs leaves) l (length leaves div 2 ^ l - 1) = Some (slot_pair filled l))"

lemma padded_hash32: "\<forall>p \<in> set leaves. length (fst p) = 32 \<Longrightarrow> length (fst (padded_pairs leaves j)) = 32"
  by (simp add: padded_pairs_def)

lemma append_levels_spec:
  assumes h32: "\<forall>xs. length (hashv rt xs) = 32" and f32: "\<forall>p \<in> set leaves. length (fst p) = 32"
    and root: "sub_node rt (padded_pairs leaves) D 0 = Some root" and n: "length leaves = Suc n" "n < 2 ^ D"
    and "L + m = D" and "sub_node rt (padded_pairs leaves) L (n div 2 ^ L) = Some cur" and "unat idx = n div 2 ^ L"
    and "length filled = D * TREE_PAIR_LEN"
    and "\<And>l. L \<le> l \<Longrightarrow> l < D \<Longrightarrow> odd (n div 2 ^ l) \<Longrightarrow>
      sub_node rt (padded_pairs leaves) l (n div 2 ^ l - 1) = Some (slot_pair filled l)"
  shows "\<exists>filled'. append_levels rt L m filled idx cur = Some (filled', root) \<and> length filled' = D * TREE_PAIR_LEN \<and>
    (\<forall>l < D. if L \<le> l \<and> even (n div 2 ^ l) then sub_node rt (padded_pairs leaves) l (n div 2 ^ l) = Some (slot_pair filled' l)
      else slot_pair filled' l = slot_pair filled l)"
  using assms(6-)
proof (induction m arbitrary: L cur idx filled)
  case 0
  then have "cur = root" using root n(2) by simp
  with 0 show ?case by simp
next
  case (Suc m)
  let ?f = "padded_pairs leaves" and ?k = "n div 2 ^ L"
  have LD: "L < D" "L + 1 + m = D" using Suc.prems(1) by simp_all
  have k2: "n div 2 ^ (L + 1) = ?k div 2" by (metis Suc_eq_plus1 div_mult2_eq power_Suc2)
  have idx2: "unat (drop_bit 1 idx) = n div 2 ^ (L + 1)"
    unfolding k2 unat_drop_bit_eq by (simp add: drop_bit_eq_div Suc.prems(3))
  have "n div 2 ^ (L + 1) < 2 ^ (D - (L + 1))" by (rule div_pow_less [OF n(2)]) (use LD in simp)
  then obtain c where c: "sub_node rt ?f (L + 1) (?k div 2) = Some c"
    using sub_node_parts [of rt ?f "L + 1" "D - (L + 1)" 0 root "n div 2 ^ (L + 1)"] root LD unfolding k2 by auto
  have cur32: "length (fst cur) = 32" by (rule sub_node_hash32 [OF h32 padded_hash32 [OF f32] Suc.prems(2)])
  have ev: "idx AND 1 = 0 \<longleftrightarrow> even ?k" by (simp only: and_one_even Suc.prems(3))
  note step = Suc.IH [OF LD(2) _ idx2]
  show ?case
  proof (cases "even ?k")
    case True
    let ?fl = "write_pair filled (L * TREE_PAIR_LEN) cur"
    have e: "2 * (?k div 2) = ?k" using True by simp
    have "n < (?k + 1) * 2 ^ L" by (simp add: dividend_less_times_div algebra_simps)
    then have z: "sub_node rt ?f L (?k + 1) = Some (zeros rt L, 0)"
      by (intro sub_node_zero) (simp add: n(1))
    have sn: "sum_node rt cur (zeros rt L, 0) = Some c"
      using c Suc.prems(2) z by (simp add: sub_node_Suc e)
    have sl: "slot_pair ?fl L = cur" by (rule slot_write_same [OF cur32]) (use Suc.prems(4) LD in simp)
    have other: "slot_pair ?fl l = slot_pair filled l" if "l \<noteq> L" for l
      using slot_write_other [OF cur32] that by simp
    obtain fl' where r: "append_levels rt (L + 1) m ?fl (drop_bit 1 idx) c = Some (fl', root)"
      "length fl' = D * TREE_PAIR_LEN" and s: "\<forall>l < D. if L + 1 \<le> l \<and> even (n div 2 ^ l)
        then sub_node rt ?f l (n div 2 ^ l) = Some (slot_pair fl' l) else slot_pair fl' l = slot_pair ?fl l"
      using step [of c ?fl] c k2 Suc.prems(4,5) other by auto
    have "\<forall>l < D. if L \<le> l \<and> even (n div 2 ^ l) then sub_node rt ?f l (n div 2 ^ l) = Some (slot_pair fl' l)
        else slot_pair fl' l = slot_pair filled l"
    proof (intro allI impI)
      fix l assume "l < D"
      with s have sD: "if L + 1 \<le> l \<and> even (n div 2 ^ l)
        then sub_node rt ?f l (n div 2 ^ l) = Some (slot_pair fl' l) else slot_pair fl' l = slot_pair ?fl l" by blast
      show "if L \<le> l \<and> even (n div 2 ^ l) then sub_node rt ?f l (n div 2 ^ l) = Some (slot_pair fl' l)
        else slot_pair fl' l = slot_pair filled l"
        using sD other [of l] sl Suc.prems(2) True by (cases "l = L") (auto split: if_splits)
    qed
    with r show ?thesis using sn ev True by auto
  next
    case False
    then have e: "2 * (?k div 2) = ?k - 1" "2 * (?k div 2) + 1 = ?k" by simp_all
    have sl: "sub_node rt ?f L (?k - 1) = Some (slot_pair filled L)"
      using Suc.prems(5) [of L] False LD by simp
    have sn: "sum_node rt (slot_pair filled L) cur = Some c"
      using c Suc.prems(2) sl e by (simp add: sub_node_Suc)
    obtain fl' where r: "append_levels rt (L + 1) m filled (drop_bit 1 idx) c = Some (fl', root)"
      "length fl' = D * TREE_PAIR_LEN" and s: "\<forall>l < D. if L + 1 \<le> l \<and> even (n div 2 ^ l)
        then sub_node rt ?f l (n div 2 ^ l) = Some (slot_pair fl' l) else slot_pair fl' l = slot_pair filled l"
      using step [of c filled] c k2 Suc.prems(4,5) by auto
    have "\<forall>l < D. if L \<le> l \<and> even (n div 2 ^ l) then sub_node rt ?f l (n div 2 ^ l) = Some (slot_pair fl' l)
        else slot_pair fl' l = slot_pair filled l"
    proof (intro allI impI)
      fix l assume "l < D"
      with s have "if L + 1 \<le> l \<and> even (n div 2 ^ l)
        then sub_node rt ?f l (n div 2 ^ l) = Some (slot_pair fl' l) else slot_pair fl' l = slot_pair filled l" by blast
      then show "if L \<le> l \<and> even (n div 2 ^ l) then sub_node rt ?f l (n div 2 ^ l) = Some (slot_pair fl' l)
        else slot_pair fl' l = slot_pair filled l"
        using False by (cases "l = L") (auto split: if_splits)
    qed
    with r show ?thesis using sn ev False by (auto simp: slot_pair_def)
  qed
qed


lemma padded_snoc_eq: "j < length leaves \<Longrightarrow> padded_pairs (leaves @ [x]) j = padded_pairs leaves j"
  by (simp add: padded_pairs_def nth_append)

lemma frontier_append:
  assumes h32: "\<forall>xs. length (hashv rt xs) = 32" and f32: "\<forall>p \<in> set (leaves @ [leaf]). length (fst p) = 32"
    and root: "sub_node rt (padded_pairs (leaves @ [leaf])) D 0 = Some root" and n: "length leaves < 2 ^ D" "D \<le> 64"
    and ok: "frontier_ok rt D filled leaves"
  shows "\<exists>filled'. append_levels rt 0 D filled (of_nat (length leaves)) leaf = Some (filled', root) \<and>
    frontier_ok rt D filled' (leaves @ [leaf])"
proof -
  let ?n = "length leaves" and ?f = "padded_pairs (leaves @ [leaf])"
  have old: "sub_node rt ?f l (?n div 2 ^ l - 1) = sub_node rt (padded_pairs leaves) l (?n div 2 ^ l - 1)" if "odd (?n div 2 ^ l)" for l
  proof (rule sub_node_cong)
    fix j assume "j < (?n div 2 ^ l - 1 + 1) * 2 ^ l"
    moreover have "?n div 2 ^ l - 1 + 1 = ?n div 2 ^ l" using that by (cases "?n div 2 ^ l") auto
    then have "(?n div 2 ^ l - 1 + 1) * 2 ^ l \<le> ?n" by (simp only: div_times_less_eq_dividend)
    ultimately show "?f j = padded_pairs leaves j" by (simp add: padded_snoc_eq)
  qed
  have "(2 :: nat) ^ D \<le> 2 ^ 64" by (rule power_increasing) (use n(2) in simp_all)
  then have un: "unat (of_nat ?n :: u64) = ?n" using n(1) by (simp add: unat_of_nat)
  obtain fl where fl: "append_levels rt 0 D filled (of_nat ?n) leaf = Some (fl, root)" "length fl = D * TREE_PAIR_LEN"
    and s: "\<forall>l < D. if 0 \<le> l \<and> even (?n div 2 ^ l) then sub_node rt ?f l (?n div 2 ^ l) = Some (slot_pair fl l)
      else slot_pair fl l = slot_pair filled l"
    using append_levels_spec [OF h32 f32 root _ n(1), of 0 D leaf "of_nat ?n" filled] ok old un
    by (auto simp: frontier_ok_def padded_pairs_def)
  have "frontier_ok rt D fl (leaves @ [leaf])"
    unfolding frontier_ok_def
  proof (intro conjI allI impI)
    fix l assume l: "l < D" and odd: "odd (length (leaves @ [leaf]) div 2 ^ l)"
    show "sub_node rt ?f l (length (leaves @ [leaf]) div 2 ^ l - 1) = Some (slot_pair fl l)"
    proof (cases "Suc ?n mod 2 ^ l = 0")
      case True
      then have "Suc ?n div 2 ^ l = Suc (?n div 2 ^ l)" by (simp add: div_Suc)
      then show ?thesis using s l odd by auto
    next
      case False
      then have "Suc ?n div 2 ^ l = ?n div 2 ^ l" by (simp add: div_Suc)
      then show ?thesis using s l odd ok old [of l] by (auto simp: frontier_ok_def)
    qed
  qed (rule fl(2))
  with fl(1) show ?thesis by blast
qed

section \<open>The builders\<close>

lemma pair_level_nth:
  "length cur = 2 * m \<Longrightarrow> (\<And>i. i < m \<Longrightarrow> sum_node rt (cur ! (2 * i)) (cur ! (2 * i + 1)) = Some (g i)) \<Longrightarrow>
   pair_level rt cur = Some (map g [0..<m])"
proof (induction m arbitrary: cur g)
  case (Suc m)
  then have "length cur = Suc (Suc (2 * m))" by simp
  then obtain a b r where cur: "cur = a # b # r" "length r = 2 * m" by (auto simp: length_Suc_conv)
  have "pair_level rt r = Some (map (\<lambda>i. g (Suc i)) [0..<m])"
  proof (rule Suc.IH [OF cur(2)])
    fix i assume "i < m"
    with Suc.prems(2) [of "Suc i"] show "sum_node rt (r ! (2 * i)) (r ! (2 * i + 1)) = Some (g (Suc i))" by (simp add: cur)
  qed
  moreover have "sum_node rt a b = Some (g 0)" using Suc.prems(2) [of 0] by (simp add: cur)
  moreover have "map g [0..<Suc m] = g 0 # map (\<lambda>i. g (Suc i)) [0..<m]"
    by (simp add: upt_conv_Cons map_Suc_upt [symmetric] del: upt_Suc)
  ultimately show ?case by (simp add: cur del: upt_Suc)
qed simp

definition level_nodes :: "runtime \<Rightarrow> pair list \<Rightarrow> nat \<Rightarrow> nat \<Rightarrow> pair list" where
  "level_nodes rt leaves l m = map (\<lambda>k. the (sub_node rt (padded_pairs leaves) l k)) [0..<m]"

text \<open>Number of nodes of a level as built, padding included.\<close>

definition padded_len :: "nat \<Rightarrow> nat" where
  "padded_len m = (if m = 0 then 2 else if odd m then m + 1 else m)"

lemma pad_level_nodes:
  assumes "length leaves \<le> m * 2 ^ l"
  shows "pad_level (zeros rt l) (level_nodes rt leaves l m) = level_nodes rt leaves l (padded_len m)"
proof -
  have z: "the (sub_node rt (padded_pairs leaves) l k) = (zeros rt l, 0)" if "m \<le> k" for k
  proof -
    have "m * 2 ^ l \<le> k * 2 ^ l" using that by simp
    with assms have "length leaves \<le> k * 2 ^ l" by (rule le_trans)
    then show ?thesis by (simp add: sub_node_zero)
  qed
  show ?thesis
  proof (cases "m = 0")
    case True
    then show ?thesis using z by (simp add: pad_level_def level_nodes_def padded_len_def Let_def numeral_2_eq_2)
  next
    case False
    then show ?thesis using z [of m]
      by (auto simp: pad_level_def level_nodes_def padded_len_def Let_def odd_iff_mod_2_eq_one)
  qed
qed

lemma build_from_spec:
  assumes root: "sub_node rt (padded_pairs leaves) D 0 = Some root" and "L + n = D" and "length leaves \<le> m * 2 ^ L"
    and "0 < m" and "m \<le> 2 ^ n"
  shows "\<exists>ls. build_from rt L n (level_nodes rt leaves L m) = Some ls \<and> ls ! n = [root] \<and>
    (\<forall>l \<le> n. \<exists>q. length leaves \<le> q * 2 ^ (L + l) \<and> ls ! l = level_nodes rt leaves (L + l) q)"
  using assms(2-)
proof (induction n arbitrary: L m)
  case 0
  then have "L = D" "m = 1" by simp_all
  with root 0 show ?case by (intro exI [of _ "[[root]]"]) (auto simp: level_nodes_def intro!: exI [of _ 1])
next
  case (Suc n)
  let ?f = "padded_pairs leaves"
  have "even (padded_len m)" "0 < padded_len m" by (simp_all add: padded_len_def)
  then obtain h where h: "padded_len m = 2 * h" "0 < h" by (elim evenE) simp
  have "padded_len m \<le> 2 ^ Suc n"
    using Suc.prems(3,4) by (simp add: padded_len_def) presburger
  with h have hn: "h \<le> 2 ^ n" by simp
  have "m \<le> 2 * h" using h Suc.prems(3) by (auto simp: padded_len_def split: if_splits)
  then have "m * 2 ^ L \<le> h * 2 ^ Suc L" by simp
  with Suc.prems(2) have len: "length leaves \<le> h * 2 ^ Suc L" by (rule le_trans)
  have nodes: "sum_node rt (level_nodes rt leaves L (2 * h) ! (2 * i)) (level_nodes rt leaves L (2 * h) ! (2 * i + 1)) =
      Some (the (sub_node rt ?f (Suc L) i))" if "i < h" for i
  proof -
    have "i < 2 ^ n" using that hn by simp
    with sub_node_parts [of rt ?f "Suc L" n 0 root i] root Suc.prems(1) obtain c where c: "sub_node rt ?f (Suc L) i = Some c" by auto
    then obtain a b where "sub_node rt ?f L (2 * i) = Some a" "sub_node rt ?f L (2 * i + 1) = Some b" "sum_node rt a b = Some c"
      by (auto simp: sub_node_Suc split: option.splits)
    with c that show ?thesis by (simp add: level_nodes_def)
  qed
  have up: "pair_level rt (level_nodes rt leaves L (2 * h)) = Some (level_nodes rt leaves (Suc L) h)"
    unfolding level_nodes_def [of rt leaves "Suc L"]
    by (rule pair_level_nth [OF _ nodes]) (simp_all add: level_nodes_def)
  obtain ls where ls: "build_from rt (Suc L) n (level_nodes rt leaves (Suc L) h) = Some ls" "ls ! n = [root]"
    and lv: "\<forall>l \<le> n. \<exists>q. length leaves \<le> q * 2 ^ (Suc L + l) \<and> ls ! l = level_nodes rt leaves (Suc L + l) q"
    using Suc.IH [OF _ len h(2) hn] Suc.prems(1) by auto
  have "build_from rt L (Suc n) (level_nodes rt leaves L m) = Some (level_nodes rt leaves L (2 * h) # ls)"
    using pad_level_nodes [OF Suc.prems(2)] up ls(1) by (simp add: h(1) Let_def)
  moreover have "\<exists>q. length leaves \<le> q * 2 ^ (L + l) \<and> (level_nodes rt leaves L (2 * h) # ls) ! l = level_nodes rt leaves (L + l) q"
    if "l \<le> Suc n" for l
  proof (cases l)
    case 0
    then show ?thesis using len by (intro exI [of _ "2 * h"]) simp
  next
    case (Suc k)
    then show ?thesis using lv that by auto
  qed
  ultimately show ?case using ls(2) by (intro exI [of _ "level_nodes rt leaves L (2 * h) # ls"]) simp
qed

lemma tree_build_spec:
  assumes "sub_node rt (padded_pairs leaves) D 0 = Some root" and "leaves \<noteq> []" and "length leaves \<le> 2 ^ D"
  shows "\<exists>ls. tree_build rt leaves D = Some ls \<and> ls ! D = [root] \<and>
    (\<forall>l \<le> D. \<exists>q. length leaves \<le> q * 2 ^ l \<and> ls ! l = level_nodes rt leaves l q)"
proof -
  have e: "level_nodes rt leaves 0 (length leaves) = leaves"
    by (rule nth_equalityI) (simp_all add: level_nodes_def padded_pairs_def)
  have "length leaves \<le> length leaves * 2 ^ 0" "0 < length leaves" "0 + D = D" using assms(2) by simp_all
  from build_from_spec [OF assms(1) this(3,1,2) assms(3)] show ?thesis
    unfolding e tree_build_def add_0 .
qed

lemma root_of_tree:
  assumes "sub_node rt (padded_pairs leaves) D 0 = Some root" and "length leaves \<le> 2 ^ D"
  shows "root_of rt leaves D = Some root"
proof (cases "leaves = []")
  case True
  then show ?thesis using sub_node_zero [of leaves 0 D rt] assms(1) by (simp add: root_of_def)
next
  case False
  with tree_build_spec [OF assms(1) False assms(2)] show ?thesis by (auto simp: root_of_def)
qed

lemma padded_weights: "length leaves \<le> n \<Longrightarrow> weights (padded_pairs leaves) 0 n = sum_list (map (unat \<circ> snd) leaves)"
proof -
  assume n: "length leaves \<le> n"
  have "weights (padded_pairs leaves) 0 n = weights (padded_pairs leaves) 0 (length leaves) + weights (padded_pairs leaves) (length leaves) n"
    by (rule weights_split) (use n in simp_all)
  also have "weights (padded_pairs leaves) (length leaves) n = 0" by (simp add: weights_def padded_pairs_def)
  also have "weights (padded_pairs leaves) 0 (length leaves) = sum_list (map (unat \<circ> snd) leaves)"
    by (simp add: weights_def padded_pairs_def sum_list_sum_nth)
  finally show ?thesis by simp
qed

lemma padded_prefix: "i \<le> length leaves \<Longrightarrow> weights (padded_pairs leaves) 0 i = sum_list (map (unat \<circ> snd) (take i leaves))"
proof -
  assume i: "i \<le> length leaves"
  have "weights (padded_pairs leaves) 0 i = weights (padded_pairs (take i leaves)) 0 i"
    using i by (simp add: weights_def padded_pairs_def)
  also have "\<dots> = sum_list (map (unat \<circ> snd) (take i leaves))" by (rule padded_weights) (use i in simp)
  finally show ?thesis .
qed

lemma tree_total:
  assumes "length leaves \<le> 2 ^ D" and "sum_list (map (unat \<circ> snd) leaves) < 2 ^ 64"
  obtains root where "sub_node rt (padded_pairs leaves) D 0 = Some root" and "unat (snd root) = sum_list (map (unat \<circ> snd) leaves)"
  using sub_node_total [of "padded_pairs leaves" 0 D rt] sub_node_weight [of rt "padded_pairs leaves" D 0] padded_weights [OF assms(1)] assms(2) that
  by auto

text \<open>The proof the helper builds is the honest one.\<close>

lemma proof_of_honest:
  assumes h32: "\<forall>xs. length (hashv rt xs) = 32" and f32: "\<forall>p \<in> set leaves. length (fst p) = 32"
    and root: "sub_node rt (padded_pairs leaves) D 0 = Some root" and len: "length leaves \<le> 2 ^ D" and i: "i < length leaves"
  shows "\<exists>path. proof_of rt leaves D i = Some path \<and> length path = D * TREE_PAIR_LEN \<and>
    path_pairs path D = map (honest rt (padded_pairs leaves) i) [0..<D]"
proof -
  let ?f = "padded_pairs leaves"
  have "leaves \<noteq> []" using i by auto
  from tree_build_spec [OF root this len] obtain ls where ls: "tree_build rt leaves D = Some ls"
    and lv: "\<forall>l \<le> D. \<exists>q. length leaves \<le> q * 2 ^ l \<and> ls ! l = level_nodes rt leaves l q" by blast
  have sib: "pair_sibling rt ls l (i div 2 ^ l) = honest rt ?f i l \<and> length (fst (honest rt ?f i l)) = 32" if "l < D" for l
  proof -
    let ?k = "i div 2 ^ l XOR 1"
    from lv that have "\<exists>q. length leaves \<le> q * 2 ^ l \<and> ls ! l = level_nodes rt leaves l q" by simp
    then obtain q where q: "length leaves \<le> q * 2 ^ l" "ls ! l = level_nodes rt leaves l q" by blast
    have "?k < 2 ^ (D - l)" by (rule xor_one_less [OF div_pow_less]) (use i len that in simp_all)
    with sub_node_parts [of rt ?f l "D - l" 0 root] root that obtain n where n: "sub_node rt ?f l ?k = Some n" by auto blast
    have "n = (zeros rt l, 0)" if "q \<le> ?k"
    proof -
      have "q * 2 ^ l \<le> ?k * 2 ^ l" using that by simp
      with q(1) have "length leaves \<le> ?k * 2 ^ l" by (rule le_trans)
      with sub_node_zero [of leaves ?k l rt] n show ?thesis by simp
    qed
    then have "pair_sibling rt ls l (i div 2 ^ l) = n"
      using n by (auto simp: pair_sibling_def get_at_def q(2) level_nodes_def not_less)
    moreover have "length (fst n) = 32" by (rule sub_node_hash32 [OF h32 padded_hash32 [OF f32] n])
    ultimately show ?thesis using n by (simp add: honest_def)
  qed
  let ?pc = "\<lambda>l. let (h, w) = pair_sibling rt ls l (i div 2 ^ l) in h @ u64_le w"
  have piece: "length (?pc l) = 40 \<and> read_pair (?pc l) = honest rt ?f i l" if "l < D" for l
    using sib [OF that] by (cases "honest rt ?f i l") (simp add: read_pair_def slice_def get_u64_def Let_def)
  have cat: "length (concat (map ?pc [0..<n])) = n * 40 \<and>
      (\<forall>l < n. slice (concat (map ?pc [0..<n])) (l * 40) 40 = ?pc l)" if "n \<le> D" for n
    using that
  proof (induction n)
    case (Suc n)
    then have l: "length (concat (map ?pc [0..<n])) = n * 40" and IH: "\<forall>l < n. slice (concat (map ?pc [0..<n])) (l * 40) 40 = ?pc l"
      and p: "length (?pc n) = 40" using piece [of n] by simp_all
    have "slice (concat (map ?pc [0..<Suc n])) (l * 40) 40 = ?pc l" if "l < Suc n" for l
    proof (cases "l = n")
      case True
      then show ?thesis using l p by (simp add: slice_def)
    next
      case False
      then have "l * 40 + 40 \<le> n * 40" using that by simp
      then show ?thesis using l IH that False by (simp add: slice_def)
    qed
    with l p show ?case by simp
  qed simp
  let ?path = "concat (map ?pc [0..<D])"
  have "proof_of rt leaves D i = Some ?path" using ls by (simp add: proof_of_def)
  moreover have "path_pairs ?path D = map (honest rt ?f i) [0..<D]"
    using cat [of D] piece by (simp add: path_pairs_def)
  ultimately show ?thesis using cat [of D] by auto
qed

end
