(* ===== verification/FdStream.thy ===== *)
theory FdStream
  imports Solana "HOL-Library.Product_Lexorder"
begin

text \<open>
  The randomness of \<open>null_fair_draw\<close> (\<open>programs/null_fair_draw/src/stream.rs\<close>): the seed of a round,
  the stream value of a slot reduced to the remaining weight, and the map of that point past the
  intervals already won. The lemmas give the exact distribution of the reduction and show that the
  map is the increasing bijection onto the points not yet won.
\<close>

section \<open>stream.rs\<close>

definition SEED_TAG :: bytes where "SEED_TAG = map of_char ''null-fair-draw:seed:v1''"
definition STREAM_TAG :: bytes where "STREAM_TAG = map of_char ''null-fair-draw:stream:v1''"

definition round_seed :: "runtime \<Rightarrow> key \<Rightarrow> u8 \<Rightarrow> u64 \<Rightarrow> u64 \<Rightarrow> bytes \<Rightarrow> bytes \<Rightarrow> u64 \<Rightarrow> u64 \<Rightarrow> bytes" where
  "round_seed rt draw rnd target_slot used_slot slot_hash root tot cnt =
     hashv rt [SEED_TAG, draw, [rnd], u64_le target_slot, u64_le used_slot, slot_hash, root, u64_le tot, u64_le cnt]"

definition stream_block :: "runtime \<Rightarrow> bytes \<Rightarrow> u64 \<Rightarrow> bytes" where
  "stream_block rt sd j =
     hashv rt [STREAM_TAG, sd, u64_le j, [0]] @ hashv rt [STREAM_TAG, sd, u64_le j, [1]]"

text \<open>\<open>u64::from_be_bytes\<close> of the next eight bytes, shifted into a 128-bit accumulator.\<close>

definition be_nat :: "bytes \<Rightarrow> nat" where
  "be_nat bs = le_nat (rev bs)"

definition wide_step :: "u128 \<Rightarrow> u128 \<Rightarrow> bytes \<Rightarrow> u128" where
  "wide_step m acc chunk = ((push_bit 64 acc) OR of_nat (be_nat chunk)) mod m"

text \<open>Reduction modulo zero is a Rust panic; the callers pass the remaining weight, which is positive.\<close>

definition wide_mod :: "bytes \<Rightarrow> u64 \<Rightarrow> u64 res" where
  "wide_mod x m =
     (if m = 0 then Inl Panic
      else Inr (ucast (foldl (wide_step (ucast m)) 0 (map (\<lambda>i. slice x (8 * i) 8) [0..<length x div 8]))))"

definition stream_point :: "runtime \<Rightarrow> bytes \<Rightarrow> u64 \<Rightarrow> u64 \<Rightarrow> u64 res" where
  "stream_point rt sd j m = wide_mod (stream_block rt sd j) m"

fun remap :: "u64 \<Rightarrow> (u64 \<times> u64) list \<Rightarrow> u64 option" where
  "remap p [] = Some p"
| "remap p ((start, weight) # r) =
     (if start \<le> p then (case checked_add p weight of None \<Rightarrow> None | Some q \<Rightarrow> remap q r) else Some p)"

text \<open>
  The off-chain reference draw. The running sums are \<open>u64\<close>; an index out of range is a panic.
  \<open>binary_search\<close> may return any position of the value it finds: here it is the leftmost, and the
  loop that follows skips the empty leaves from there.
\<close>

fun leaf_starts :: "u64 \<Rightarrow> u64 list \<Rightarrow> u64 list" where
  "leaf_starts acc [] = []"
| "leaf_starts acc (w # ws) = acc # leaf_starts (acc + w) ws"

function skip_empty :: "u64 list \<Rightarrow> nat \<Rightarrow> nat res" where
  "skip_empty ws i =
     (if length ws \<le> i then Inl Panic else if ws ! i = 0 then skip_empty ws (i + 1) else Inr i)"
  by pat_completeness auto
termination
  by (relation "measure (\<lambda>(ws, i). length ws - i)") auto

declare skip_empty.simps [simp del]

definition find_leaf :: "u64 list \<Rightarrow> u64 list \<Rightarrow> u64 \<Rightarrow> nat res" where
  "find_leaf starts ws p =
     (let n = length (takeWhile (\<lambda>x. x < p) starts) in
      if n < length starts \<and> starts ! n = p then skip_empty ws n
      else if n = 0 then Inl Panic else Inr (n - 1))"

definition insert_at :: "(u64 \<times> u64) list \<Rightarrow> u64 \<Rightarrow> u64 \<Rightarrow> (u64 \<times> u64) list" where
  "insert_at won st w = (let pos = length (takeWhile (\<lambda>x. fst x < st) won) in take pos won @ (st, w) # drop pos won)"

fun reference_slots ::
  "runtime \<Rightarrow> u64 list \<Rightarrow> u64 list \<Rightarrow> u64 \<Rightarrow> bytes \<Rightarrow> nat \<Rightarrow> u64 \<Rightarrow> (u64 \<times> u64) list \<Rightarrow> u64 \<Rightarrow> nat option list res" where
  "reference_slots rt ws starts tot sd 0 j won won_weight = Inr []"
| "reference_slots rt ws starts tot sd (Suc n) j won won_weight =
     (let m = tot - won_weight in
      if m = 0 then
        bindE (reference_slots rt ws starts tot sd n (j + 1) won won_weight) (\<lambda>out. Inr (None # out))
      else
        bindE (stream_point rt sd j m) (\<lambda>u.
        bindE (ok_or (remap u won) Panic) (\<lambda>p.
        bindE (find_leaf starts ws p) (\<lambda>i.
        bindE (ok_or (get_at ws i) Panic) (\<lambda>w.
        bindE (reference_slots rt ws starts tot sd n (j + 1) (insert_at won (starts ! i) w) (won_weight + w)) (\<lambda>out.
        Inr (Some i # out)))))))"

definition reference_draw ::
  "runtime \<Rightarrow> u64 list \<Rightarrow> nat list \<Rightarrow> bytes \<Rightarrow> u64 \<Rightarrow> nat \<Rightarrow> nat option list res" where
  "reference_draw rt ws already sd first_slot slots =
     (let starts = leaf_starts 0 ws; tot = sum_list ws in
      if \<exists>i \<in> set already. length ws \<le> i then Inl Panic
      else let won = sort (map (\<lambda>i. (starts ! i, ws ! i)) already);
               won_weight = sum_list (map snd won) in
        reference_slots rt ws starts tot sd slots first_slot won won_weight)"

section \<open>The reduction\<close>

lemma push_or_add:
  fixes a :: u128
  assumes "unat a < 2 ^ 64" and "v < 2 ^ 64"
  shows "unat (push_bit 64 a OR of_nat v) = unat a * 2 ^ 64 + v"
proof -
  have z: "push_bit 64 a AND (of_nat v :: u128) = 0"
  proof (rule bit_word_eqI)
    fix n assume "n < LENGTH(128)"
    show "bit (push_bit 64 a AND (of_nat v :: u128)) n = bit (0 :: u128) n"
    proof (cases "n < 64")
      case True
      then show ?thesis by (simp add: bit_and_iff bit_push_bit_iff)
    next
      case False
      then have "v div 2 ^ n = 0" using assms(2)
        by (metis div_less linorder_not_less order_less_le_trans power_increasing one_le_numeral)
      then have "\<not> bit v n" by (simp add: bit_iff_odd)
      then show ?thesis by (simp add: bit_simps)
    qed
  qed
  have "push_bit 64 a OR of_nat v = push_bit 64 a + of_nat v"
    by (rule disjunctive_add_eq_or [OF z, symmetric])
  moreover have "unat (push_bit 64 a) = unat a * 2 ^ 64"
    using assms(1) by (simp add: push_bit_eq_mult unat_mult_lem [THEN iffD1])
  ultimately show ?thesis
    using assms by (simp add: unat_word_ariths unat_of_nat)
qed


lemma be_nat_append: "be_nat (x @ y) = be_nat x * 256 ^ length y + be_nat y"
proof -
  have le: "le_nat (a @ b) = le_nat a + 256 ^ length a * le_nat b" for a b
    by (induction a) (simp_all add: algebra_simps)
  show ?thesis by (simp add: be_nat_def le)
qed

lemma be_nat_bound: "be_nat x < 256 ^ length x"
  using le_nat_bound [of "rev x"] by (simp add: be_nat_def)

lemma wide_step_unat:
  fixes m :: u64
  assumes "m \<noteq> 0" and "unat acc < unat m" and "length chunk = 8"
  shows "unat (wide_step (ucast m) acc chunk) = (unat acc * 2 ^ 64 + be_nat chunk) mod unat m"
    and "unat (wide_step (ucast m) acc chunk) < unat m"
proof -
  have m: "unat (ucast m :: u128) = unat m" by (transfer, simp)
  have "unat acc < 2 ^ 64" using assms(2) unsigned_less [of m, where 'a = nat] by simp
  moreover have "be_nat chunk < 2 ^ 64" using be_nat_bound [of chunk] assms(3) by simp
  ultimately show "unat (wide_step (ucast m) acc chunk) = (unat acc * 2 ^ 64 + be_nat chunk) mod unat m"
    by (simp add: wide_step_def unat_mod m push_or_add)
  then show "unat (wide_step (ucast m) acc chunk) < unat m"
    using assms(1) by (simp add: unat_gt_0)
qed

lemma wide_fold:
  fixes m :: u64
  assumes "m \<noteq> 0" and "\<forall>c \<in> set cs. length c = 8" and "unat acc < unat m"
  shows "unat (foldl (wide_step (ucast m)) acc cs) = (unat acc * 256 ^ length (concat cs) + be_nat (concat cs)) mod unat m"
  using assms(2,3)
proof (induction cs arbitrary: acc)
  case Nil
  then show ?case by (simp add: be_nat_def)
next
  case (Cons c cs)
  note st = wide_step_unat [OF assms(1) Cons.prems(2), of c]
  have c8: "length c = 8" using Cons.prems(1) by simp
  have "unat (foldl (wide_step (ucast m)) acc (c # cs)) =
      (unat (wide_step (ucast m) acc c) * 256 ^ length (concat cs) + be_nat (concat cs)) mod unat m"
    using Cons.IH [of "wide_step (ucast m) acc c"] Cons.prems(1) st(2) [OF c8] by simp
  also have "\<dots> = ((unat acc * 2 ^ 64 + be_nat c) * 256 ^ length (concat cs) + be_nat (concat cs)) mod unat m"
    unfolding st(1) [OF c8] by (metis mod_add_left_eq mod_mult_left_eq)
  also have "\<dots> = (unat acc * 256 ^ length (concat (c # cs)) + be_nat (concat (c # cs))) mod unat m"
    by (simp add: be_nat_append power_add c8 algebra_simps)
  finally show ?case .
qed

lemma concat_chunks: "8 * n \<le> length x \<Longrightarrow> concat (map (\<lambda>i. slice x (8 * i) 8) [0..<n]) = take (8 * n) x"
  by (induction n) (simp_all add: slice_def take_add [symmetric] add.commute)

lemma wide_mod_nat:
  assumes "m \<noteq> 0" and "length x = 64"
  obtains r where "wide_mod x m = Inr r" and "unat r = be_nat x mod unat m"
proof -
  let ?cs = "map (\<lambda>i. slice x (8 * i) 8) [0..<length x div 8]"
  let ?a = "foldl (wide_step (ucast m)) 0 ?cs"
  have cs: "concat ?cs = x" using concat_chunks [of 8 x] assms(2) by simp
  have l8: "\<forall>c \<in> set ?cs. length c = 8" using assms(2) by (auto simp: length_slice)
  have a: "unat ?a = be_nat x mod unat m"
    using wide_fold [OF assms(1) l8, of 0] assms(1) unfolding cs by (simp add: unat_gt_0)
  then have "unat ?a < unat m" using assms(1) by (simp add: unat_gt_0)
  then have "unat (ucast ?a :: u64) = unat ?a"
    using unsigned_less [of m, where 'a = nat] by (simp add: unsigned_ucast_eq take_bit_nat_eq_self)
  with a show thesis using that [of "ucast ?a"] assms(1) by (simp add: wide_mod_def)
qed

lemma wide_mod_zero [simp]: "wide_mod x 0 = Inl Panic"
  by (simp add: wide_mod_def)

text \<open>Big-endian reading is a bijection, so residues of byte strings are residues of numbers.\<close>

lemma be_nat_bij: "bij_betw be_nat {x. length x = n} {..<256 ^ n}"
proof (rule bij_betw_byWitness [where f' = "\<lambda>v. rev (le_bytes n v)"])
  show "\<forall>x \<in> {x. length x = n}. rev (le_bytes n (be_nat x)) = x"
    by (auto simp: be_nat_def) (metis le_bytes_le_nat length_rev rev_rev_ident)
  show "\<forall>v \<in> {..<256 ^ n}. be_nat (rev (le_bytes n v)) = v" by (simp add: be_nat_def le_nat_le_bytes)
  show "be_nat ` {x. length x = n} \<subseteq> {..<256 ^ n}" using be_nat_bound by auto
  show "(\<lambda>v. rev (le_bytes n v)) ` {..<256 ^ n} \<subseteq> {x. length x = n}" by auto
qed

lemma residue_count:
  fixes m u B :: nat
  assumes "u < m"
  shows "card {v. v < B \<and> v mod m = u} = B div m + (if u < B mod m then 1 else 0)"
proof -
  let ?q = "B div m" and ?r = "B mod m"
  have B: "B = ?q * m + ?r" by simp
  have r: "?r < m" using assms by simp
  have "{v. v < B \<and> v mod m = u} = (\<lambda>k. u + m * k) ` {k. k < ?q \<or> k = ?q \<and> u < ?r}"
  proof (intro set_eqI iffI)
    fix v assume "v \<in> {v. v < B \<and> v mod m = u}"
    then have v: "v < B" "v mod m = u" by auto
    have e: "v = u + m * (v div m)" using v(2) by (metis add.commute mult_div_mod_eq)
    have le: "v div m \<le> ?q" using v(1) by (simp add: div_le_mono)
    moreover have "u < ?r" if "v div m = ?q"
      using v(1) B e that by (metis add.commute mult.commute nat_add_left_cancel_less)
    ultimately have "v div m \<in> {k. k < ?q \<or> k = ?q \<and> u < ?r}" by auto
    with e show "v \<in> (\<lambda>k. u + m * k) ` {k. k < ?q \<or> k = ?q \<and> u < ?r}" by blast
  next
    fix v assume "v \<in> (\<lambda>k. u + m * k) ` {k. k < ?q \<or> k = ?q \<and> u < ?r}"
    then obtain k where v: "v = u + m * k" and k: "k < ?q \<or> k = ?q \<and> u < ?r" by auto
    have "v < B"
    proof (cases "k < ?q")
      case True
      then have "m * k + m \<le> m * ?q" by (metis Suc_leI add.commute mult_Suc_right mult_le_mono2)
      then have "v < m * ?q" using assms v by linarith
      also have "m * ?q \<le> B" by simp
      finally show ?thesis .
    next
      case False
      then have "k = ?q" "u < ?r" using k by auto
      then show ?thesis using B v by (metis add.commute mult.commute nat_add_left_cancel_less)
    qed
    with v assms show "v \<in> {v. v < B \<and> v mod m = u}" by simp
  qed
  moreover have "inj (\<lambda>k. u + m * k)" using assms by (auto simp: inj_on_def)
  ultimately have "card {v. v < B \<and> v mod m = u} = card {k. k < ?q \<or> k = ?q \<and> u < ?r}"
    by (simp add: card_image inj_on_def)
  also have "{k. k < ?q \<or> k = ?q \<and> u < ?r} = {..<?q + (if u < ?r then 1 else 0)}" by auto
  finally show ?thesis by simp
qed

section \<open>The map past the won intervals\<close>

text \<open>The won intervals in ascending order, disjoint, between \<open>lo\<close> and \<open>hi\<close>.\<close>

fun won_ok :: "nat \<Rightarrow> nat \<Rightarrow> (u64 \<times> u64) list \<Rightarrow> bool" where
  "won_ok lo hi [] \<longleftrightarrow> lo \<le> hi"
| "won_ok lo hi ((st, w) # r) \<longleftrightarrow> lo \<le> unat st \<and> won_ok (unat st + unat w) hi r"

definition won_points :: "(u64 \<times> u64) list \<Rightarrow> nat set" where
  "won_points ws = (\<Union>(st, w) \<in> set ws. {unat st..<unat st + unat w})"

definition won_sum :: "(u64 \<times> u64) list \<Rightarrow> nat" where
  "won_sum ws = sum_list (map (\<lambda>(st, w). unat w) ws)"

lemma won_simps [simp]:
  "won_points [] = {}" "won_points ((st, w) # r) = {unat st..<unat st + unat w} \<union> won_points r"
  "won_sum [] = 0" "won_sum ((st, w) # r) = unat w + won_sum r"
  by (simp_all add: won_points_def won_sum_def)

lemma won_ok_le: "won_ok lo hi ws \<Longrightarrow> lo + won_sum ws \<le> hi"
  by (induction lo hi ws rule: won_ok.induct) auto

lemma won_points_range: "won_ok lo hi ws \<Longrightarrow> won_points ws \<subseteq> {lo..<hi}"
proof (induction lo hi ws rule: won_ok.induct)
  case (2 lo hi st w r)
  then show ?case using won_ok_le [of "unat st + unat w" hi r] by fastforce
qed simp

lemma won_points_card: "won_ok lo hi ws \<Longrightarrow> card (won_points ws) = won_sum ws"
proof (induction lo hi ws rule: won_ok.induct)
  case (2 lo hi st w r)
  then have r: "won_points r \<subseteq> {unat st + unat w..<hi}" using won_points_range by simp
  have "card ({unat st..<unat st + unat w} \<union> won_points r) = card {unat st..<unat st + unat w} + card (won_points r)"
    by (rule card_Un_disjoint) (use r finite_subset [OF r] in auto)
  with 2 show ?case by simp
qed simp


lemma remap_spec:
  assumes "won_ok lo hi ws" and "lo \<le> unat u" and "unat u + won_sum ws < hi" and "hi \<le> 2 ^ 64"
  shows "\<exists>p. remap u ws = Some p \<and> unat u \<le> unat p \<and> unat p < hi \<and> unat p \<notin> won_points ws"
  using assms
proof (induction lo hi ws arbitrary: u rule: won_ok.induct)
  case (2 lo hi st w r)
  show ?case
  proof (cases "st \<le> u")
    case True
    with "2.prems" obtain q where q: "checked_add u w = Some q" and uq: "unat q = unat u + unat w"
      using checked_add_unat [of u w "u + w"] by (auto simp: checked_add_def)
    have le: "unat st \<le> unat u" using True by (simp add: word_le_nat_alt)
    from "2.IH" [of q] "2.prems" uq le obtain p where "remap q r = Some p"
      "unat q \<le> unat p" "unat p < hi" "unat p \<notin> won_points r" by auto
    with True q uq le show ?thesis by auto
  next
    case False
    then have "unat u < unat st" by (simp add: word_le_nat_alt)
    moreover have "unat u \<notin> won_points r" if "won_ok (unat st + unat w) hi r"
      using won_points_range [OF that] \<open>unat u < unat st\<close> by auto
    ultimately show ?thesis using "2.prems" False by auto
  qed
qed auto

lemma remap_mono:
  assumes "won_ok lo hi ws" and "lo \<le> unat u" and "unat v + won_sum ws < hi" and "hi \<le> 2 ^ 64" and "unat u < unat v"
    and "remap u ws = Some p" and "remap v ws = Some q"
  shows "unat p < unat q"
  using assms
proof (induction lo hi ws arbitrary: u v rule: won_ok.induct)
  case (2 lo hi st w r)
  show ?case
  proof (cases "st \<le> u")
    case True
    then have le: "unat st \<le> unat u" by (simp add: word_le_nat_alt)
    with "2.prems"(5) have v: "st \<le> v" by (simp add: word_le_nat_alt)
    from "2.prems"(6,7) True v obtain u' v' where u': "checked_add u w = Some u'" "remap u' r = Some p"
      and v': "checked_add v w = Some v'" "remap v' r = Some q" by (auto split: option.splits)
    note un = checked_add_unat [OF u'(1)] checked_add_unat [OF v'(1)]
    show ?thesis by (rule "2.IH" [OF _ _ _ _ _ u'(2) v'(2)]) (use "2.prems" un le in auto)
  next
    case False
    then have p: "p = u" using "2.prems"(6) by simp
    from "2.prems" have ok: "won_ok lo hi ((st, w) # r)" "lo \<le> unat v" by simp_all
    from remap_spec [OF ok "2.prems"(3,4)] "2.prems"(7) have "unat v \<le> unat q" by auto
    with p "2.prems"(5) show ?thesis by simp
  qed
qed auto

lemma remap_range_bij:
  assumes ok: "won_ok lo hi ws" and hi: "hi \<le> 2 ^ 64"
  shows "bij_betw (\<lambda>u. unat (the (remap (of_nat u) ws))) {lo..<hi - won_sum ws} ({lo..<hi} - won_points ws)"
    (is "bij_betw ?f ?A ?B")
proof -
  have u: "unat (of_nat u :: u64) = u" if "u \<in> ?A" for u
    using that hi by (auto simp: unat_of_nat intro!: mod_less)
  have f: "\<exists>p. remap (of_nat u) ws = Some p \<and> u \<le> unat p \<and> unat p < hi \<and> unat p \<notin> won_points ws" if "u \<in> ?A" for u
    using remap_spec [OF ok _ _ hi, of "of_nat u"] u [OF that] that by auto
  have mono: "?f u < ?f v" if "u \<in> ?A" "v \<in> ?A" "u < v" for u v
  proof -
    from f [OF that(1)] f [OF that(2)] obtain p q where "remap (of_nat u) ws = Some p" "remap (of_nat v) ws = Some q" by auto
    with remap_mono [OF ok _ _ hi _ this] u [OF that(1)] u [OF that(2)] that show ?thesis by auto
  qed
  have inj: "inj_on ?f ?A"
    by (rule inj_onI) (metis mono linorder_neqE_nat less_irrefl)
  have sub: "?f ` ?A \<subseteq> ?B" using f by fastforce
  have pts: "won_points ws \<subseteq> {lo..<hi}" by (rule won_points_range [OF ok])
  have "card ?B = card ?A"
    using pts finite_subset [OF pts] won_points_card [OF ok] won_ok_le [OF ok] by (simp add: card_Diff_subset)
  then have "?f ` ?A = ?B" using card_image [OF inj] sub by (simp add: card_subset_eq)
  with inj show ?thesis by (simp add: bij_betw_def)
qed

end
