(* ===== verification/FdCommon.thy ===== *)
theory FdCommon
  imports Solana
begin

text \<open>
  The crate \<open>null-draw-common\<close> (\<open>crates/null-draw-common/src/pda.rs\<close>, \<open>slot_hashes.rs\<close>): creating a
  program-derived account that a transfer made before cannot block, and choosing the slot hash of a
  draw from the SlotHashes sysvar.
\<close>

section \<open>pda.rs\<close>

definition fd_create_pda ::
  "runtime \<Rightarrow> account_info \<Rightarrow> account_info \<Rightarrow> account_info \<Rightarrow> key \<Rightarrow> nat \<Rightarrow> bytes list \<Rightarrow> perr \<Rightarrow> store \<Rightarrow> store res" where
  "fd_create_pda rt payer target system own space seeds in_use s =
     (let need = minimum_balance rt space in
      if lamports (s (key target)) = 0 then
        invoke_signed rt (SystemCpi (CreateAccount (key payer) (key target) need (of_nat space) own))
          [payer, target, system] [seeds] s
      else if owner (s (key target)) \<noteq> SYSTEM_ID \<or> data (s (key target)) \<noteq> [] then Inl in_use
      else let top_up = saturating_sub need (lamports (s (key target))) in
        bindE (if top_up > 0 then
                 invoke rt (SystemCpi (Transfer (key payer) (key target) top_up)) [payer, target, system] s
               else Inr s) (\<lambda>s.
        bindE (invoke_signed rt (SystemCpi (Allocate (key target) (of_nat space))) [target, system] [seeds] s) (\<lambda>s.
        invoke_signed rt (SystemCpi (Assign (key target) own)) [target, system] [seeds] s)))"

section \<open>slot_hashes.rs\<close>

definition DRAW_DELAY_SLOTS :: u64 where [simp]: "DRAW_DELAY_SLOTS = 32"
definition FALLBACK_STEP_SLOTS :: u64 where [simp]: "FALLBACK_STEP_SLOTS = 512"
definition MAX_SLOT_HASH_ENTRIES :: nat where [simp]: "MAX_SLOT_HASH_ENTRIES = 512"
definition ENTRY_LEN :: nat where [simp]: "ENTRY_LEN = 40"

datatype select_error = SelMalformed | SelTooEarly | SelOverflow

record selection =
  se_attempt :: u64
  se_target_slot :: u64
  se_used_slot :: u64
  se_hash :: bytes

definition entry_slot :: "bytes \<Rightarrow> nat \<Rightarrow> u64" where
  "entry_slot d i = get_u64 d (8 + i * ENTRY_LEN)"

definition first_target :: "u64 \<Rightarrow> u64 option" where
  "first_target slot = checked_add slot DRAW_DELAY_SLOTS"

definition checked_mul :: "u64 \<Rightarrow> u64 \<Rightarrow> u64 option" where
  "checked_mul a b = (if unat a * unat b < 2 ^ 64 then Some (a * b) else None)"

text \<open>The binary search for the last entry whose slot is at least the target.\<close>

function hash_search :: "bytes \<Rightarrow> u64 \<Rightarrow> nat \<Rightarrow> nat \<Rightarrow> nat" where
  "hash_search d target lo hi =
     (if lo < hi then let mid = lo + div_ceil (hi - lo) 2 in
        if target \<le> entry_slot d mid then hash_search d target mid hi else hash_search d target lo (mid - 1)
      else lo)"
  by pat_completeness auto
termination
  by (relation "measure (\<lambda>(d, target, lo, hi). hi - lo)") (auto simp: div_ceil_def split: if_splits)

declare hash_search.simps [simp del]

definition select :: "bytes \<Rightarrow> u64 \<Rightarrow> select_error + selection" where
  "select d t0 =
     (if length d < 8 then Inl SelMalformed
      else let len = unat (get_u64 d 0) in
      if len = 0 \<or> MAX_SLOT_HASH_ENTRIES < len \<or> length d < 8 + len * ENTRY_LEN then Inl SelMalformed
      else let newest = entry_slot d 0; oldest = entry_slot d (len - 1) in
      if newest < oldest then Inl SelMalformed
      else let attempt = (if oldest \<le> t0 then 0 else of_nat (div_ceil (unat (oldest - t0)) (unat FALLBACK_STEP_SLOTS))) in
      bindE (ok_or (case checked_mul attempt FALLBACK_STEP_SLOTS of None \<Rightarrow> None | Some x \<Rightarrow> checked_add x t0)
               SelOverflow) (\<lambda>target.
      if newest < target then Inl SelTooEarly
      else let lo = hash_search d target 0 (len - 1); off = 8 + lo * ENTRY_LEN in
        Inr \<lparr>se_attempt = attempt, se_target_slot = target, se_used_slot = entry_slot d lo,
             se_hash = slice d (off + 8) 32\<rparr>))"

text \<open>Stable sort by descending slot, then the account bytes.\<close>

definition encode_slot_hashes :: "(u64 \<times> bytes) list \<Rightarrow> bytes" where
  "encode_slot_hashes entries =
     (let e = rev (sort_key fst (rev entries)) in
      u64_le (of_nat (length e)) @ concat (map (\<lambda>(sl, h). u64_le sl @ h) e))"


section \<open>The choice of the slot hash\<close>

text \<open>The sysvar lists the produced slots newest first.\<close>

definition fd_hashes_ok :: "bytes \<Rightarrow> nat \<Rightarrow> bool" where
  "fd_hashes_ok d len \<longleftrightarrow> unat (get_u64 d 0) = len \<and> 0 < len \<and> len \<le> MAX_SLOT_HASH_ENTRIES \<and> 8 + len * ENTRY_LEN \<le> length d \<and>
     (\<forall>i j. i < j \<longrightarrow> j < len \<longrightarrow> entry_slot d j < entry_slot d i)"

lemma hash_search_spec:
  assumes "lo \<le> hi" and "hi < len" and "target \<le> entry_slot d lo" and "Suc hi < len \<longrightarrow> entry_slot d (Suc hi) < target"
  shows "lo \<le> hash_search d target lo hi \<and> hash_search d target lo hi \<le> hi \<and> target \<le> entry_slot d (hash_search d target lo hi) \<and>
    (Suc (hash_search d target lo hi) < len \<longrightarrow> entry_slot d (Suc (hash_search d target lo hi)) < target)"
  using assms
proof (induction "hi - lo" arbitrary: lo hi rule: less_induct)
  case less
  define m where "m = lo + div_ceil (hi - lo) 2"
  show ?case
  proof (cases "lo < hi")
    case False
    then have "hash_search d target lo hi = lo" by (subst hash_search.simps) simp
    moreover have "lo = hi" using False less.prems(1) by simp
    ultimately show ?thesis using less.prems by metis
  next
    case True
    have m: "lo < m" "m \<le> hi" using True by (auto simp: m_def div_ceil_def)
    show ?thesis
    proof (cases "target \<le> entry_slot d m")
      case ge: True
      have "hash_search d target lo hi = hash_search d target m hi"
        using True ge by (simp add: hash_search.simps [of d target lo hi] Let_def m_def)
      moreover have "hi - m < hi - lo" using m True by simp
      ultimately show ?thesis using less.hyps [of hi m] less.prems m ge by auto
    next
      case lt: False
      then have s: "entry_slot d (Suc (m - 1)) < target" using m(1) by simp
      have "hash_search d target lo hi = hash_search d target lo (m - 1)"
        using True lt by (simp add: hash_search.simps [of d target lo hi] Let_def m_def)
      moreover have "m - 1 - lo < hi - lo" "lo \<le> m - 1" "m - 1 < len" using m True less.prems(2) by simp_all
      ultimately show ?thesis using less.hyps [of "m - 1" lo] less.prems(3) s m by auto
    qed
  qed
qed

lemma div_ceil_bounds: "0 < b \<Longrightarrow> a \<le> div_ceil a b * b \<and> (\<forall>k < div_ceil a b. k * b < a)"
proof (intro conjI allI impI)
  assume b: "0 < b"
  have e: "a = a div b * b + a mod b" "a mod b < b" using b by simp_all
  show "a \<le> div_ceil a b * b"
  proof (cases "a mod b = 0")
    case False
    then have "div_ceil a b * b = a div b * b + b" by (simp add: div_ceil_def)
    with e show ?thesis by linarith
  qed (use e in \<open>simp add: div_ceil_def\<close>)
  fix k assume k: "k < div_ceil a b"
  show "k * b < a"
  proof (cases "a mod b = 0")
    case True
    then have "k < a div b" using k by (simp add: div_ceil_def)
    then have "k * b < a div b * b" using b by simp
    with e show ?thesis by linarith
  next
    case False
    then have "k \<le> a div b" using k by (simp add: div_ceil_def)
    then have "k * b \<le> a div b * b" by simp
    with e False show ?thesis by linarith
  qed
qed

lemma checked_mul_Some: "checked_mul a b = Some c \<longleftrightarrow> unat a * unat b < 2 ^ 64 \<and> c = a * b"
  by (auto simp: checked_mul_def)

lemma checked_mul_unat: "checked_mul a b = Some c \<Longrightarrow> unat c = unat a * unat b"
  by (auto simp: checked_mul_Some unat_word_ariths)

definition fallback_attempt :: "u64 \<Rightarrow> u64 \<Rightarrow> nat" where
  "fallback_attempt oldest t0 = div_ceil (unat oldest - unat t0) 512"

lemma select_spec:
  assumes ok: "fd_hashes_ok d len"
  shows "select d t0 =
    (let a = fallback_attempt (entry_slot d (len - 1)) t0; t = unat t0 + a * 512;
         i = hash_search d (of_nat t) 0 (len - 1) in
     if 2 ^ 64 \<le> t then Inl SelOverflow
     else if unat (entry_slot d 0) < t then Inl SelTooEarly
     else Inr \<lparr>se_attempt = of_nat a, se_target_slot = of_nat t, se_used_slot = entry_slot d i,
       se_hash = slice d (8 + i * ENTRY_LEN + 8) 32\<rparr>)"
proof -
  let ?old = "entry_slot d (len - 1)"
  define a where "a = fallback_attempt ?old t0"
  have len: "unat (get_u64 d 0) = len" "0 < len" "len \<le> 512" "8 + len * 40 \<le> length d"
    using ok by (simp_all add: fd_hashes_ok_def)
  have newest: "\<not> entry_slot d 0 < ?old"
  proof (cases "len - 1 = 0")
    case False
    then have "?old < entry_slot d 0" using ok len(2) by (simp add: fd_hashes_ok_def)
    then show ?thesis by simp
  qed simp
  have abound: "a < 2 ^ 64"
  proof -
    have "a \<le> unat ?old"
    proof (cases "a = 0")
      case False
      then have "a - 1 < a" by simp
      with div_ceil_bounds [of 512 "unat ?old - unat t0"] have "(a - 1) * 512 < unat ?old - unat t0"
        by (simp add: a_def fallback_attempt_def)
      then show ?thesis by linarith
    qed simp
    then show ?thesis using unsigned_less [of ?old, where 'a = nat] by simp
  qed
  have att: "(if ?old \<le> t0 then 0 else of_nat (div_ceil (unat (?old - t0)) (unat FALLBACK_STEP_SLOTS))) = (of_nat a :: u64)"
    by (auto simp: a_def fallback_attempt_def div_ceil_def word_le_nat_alt unat_sub_if' not_le)
  have ua: "unat (of_nat a :: u64) = a" using abound by (simp add: unat_of_nat)
  have tgt: "(case checked_mul (of_nat a) FALLBACK_STEP_SLOTS of None \<Rightarrow> None | Some x \<Rightarrow> checked_add x t0) =
      (if 2 ^ 64 \<le> unat t0 + a * 512 then None else Some (of_nat (unat t0 + a * 512)))"
  proof (cases "a * 512 < 2 ^ 64")
    case True
    then have "checked_mul (of_nat a) FALLBACK_STEP_SLOTS = Some (of_nat a * 512)" by (simp add: checked_mul_def ua)
    moreover have "unat (of_nat a * 512 :: u64) = a * 512" using True ua by (simp add: unat_word_ariths)
    ultimately show ?thesis by (simp add: checked_add_def add.commute [of "unat t0"] add.commute [of "of_nat a * 512 :: u64"])
  next
    case False
    then show ?thesis by (auto simp: checked_mul_def ua)
  qed
  have cmp: "entry_slot d 0 < of_nat t \<longleftrightarrow> unat (entry_slot d 0) < t" if "t < 2 ^ 64" for t
    using that by (simp add: word_less_nat_alt unat_of_nat)
  have g: "\<not> length d < 8" "\<not> (len = 0 \<or> MAX_SLOT_HASH_ENTRIES < len \<or> length d < 8 + len * ENTRY_LEN)"
    using len by simp_all
  show ?thesis
  proof (cases "2 ^ 64 \<le> unat t0 + a * 512")
    case True
    then show ?thesis
      unfolding select_def Let_def len(1) att tgt a_def [symmetric] if_not_P [OF g(1)] if_not_P [OF g(2)] if_not_P [OF newest] by simp
  next
    case False
    then have c: "entry_slot d 0 < of_nat (unat t0 + a * 512) \<longleftrightarrow> unat (entry_slot d 0) < unat t0 + a * 512"
      by (intro cmp) simp
    show ?thesis
      unfolding select_def Let_def len(1) att tgt a_def [symmetric] if_not_P [OF g(1)] if_not_P [OF g(2)] if_not_P [OF newest]
        if_not_P [OF False] ok_or_simps bindE_simps c ..
  qed
qed

lemma lowest_entry:
  assumes "fd_hashes_ok d len" and "i < len" and "Suc i < len \<longrightarrow> entry_slot d (Suc i) < t" and "j < len" and "t \<le> entry_slot d j"
  shows "entry_slot d i \<le> entry_slot d j"
proof (rule ccontr)
  have desc: "i < j \<Longrightarrow> j < len \<Longrightarrow> entry_slot d j < entry_slot d i" for i j
    using assms(1) by (simp add: fd_hashes_ok_def)
  assume n: "\<not> entry_slot d i \<le> entry_slot d j"
  have "i < j"
  proof (rule ccontr)
    assume "\<not> i < j"
    then have "j = i \<or> j < i" by linarith
    with desc [of j i] assms(2) n show False by auto
  qed
  then have "entry_slot d j \<le> entry_slot d (Suc i)" using desc [of "Suc i" j] assms(4) by (cases "j = Suc i") auto
  with assms(3,4,5) \<open>i < j\<close> show False by (meson leD le_less_trans order_trans Suc_leI le_less_trans)
qed

lemma select_used:
  assumes ok: "fd_hashes_ok d len" and sel: "select d t0 = Inr se"
  shows "unat (se_target_slot se) = unat t0 + unat (se_attempt se) * 512"
    and "entry_slot d (len - 1) \<le> se_target_slot se"
    and "\<forall>a < unat (se_attempt se). unat t0 + a * 512 < unat (entry_slot d (len - 1))"
    and "\<exists>i < len. se_used_slot se = entry_slot d i \<and> se_hash se = slice d (8 + i * 40 + 8) 32 \<and>
      se_target_slot se \<le> entry_slot d i \<and> (\<forall>j < len. se_target_slot se \<le> entry_slot d j \<longrightarrow> entry_slot d i \<le> entry_slot d j)"
proof -
  let ?a = "fallback_attempt (entry_slot d (len - 1)) t0"
  let ?t = "unat t0 + ?a * 512"
  let ?i = "hash_search d (of_nat ?t) 0 (len - 1)"
  have t: "?t < 2 ^ 64" "?t \<le> unat (entry_slot d 0)"
    and se: "se = \<lparr>se_attempt = of_nat ?a, se_target_slot = of_nat ?t, se_used_slot = entry_slot d ?i,
       se_hash = slice d (8 + ?i * ENTRY_LEN + 8) 32\<rparr>"
    using sel unfolding select_spec [OF ok] Let_def by (simp_all split: if_splits)
  have ut: "unat (of_nat ?t :: u64) = ?t" using t(1) by (simp only: unat_of_nat) simp
  have "?a < 2 ^ 64" using t(1) by simp
  then have ua: "unat (of_nat ?a :: u64) = ?a" by (simp add: unat_of_nat)
  note b = div_ceil_bounds [of 512 "unat (entry_slot d (len - 1)) - unat t0"]
  show "unat (se_target_slot se) = unat t0 + unat (se_attempt se) * 512" by (simp only: se selection.select_convs ut ua)
  show "entry_slot d (len - 1) \<le> se_target_slot se"
    using b by (simp only: se selection.select_convs word_le_nat_alt ut) (simp add: fallback_attempt_def, linarith)
  show "\<forall>a < unat (se_attempt se). unat t0 + a * 512 < unat (entry_slot d (len - 1))"
    using b by (simp only: se selection.select_convs ua) (auto simp: fallback_attempt_def)
  have len: "0 < len" and desc: "i < j \<Longrightarrow> j < len \<Longrightarrow> entry_slot d j < entry_slot d i" for i j
    using ok by (simp_all add: fd_hashes_ok_def)
  have "of_nat ?t \<le> entry_slot d 0" using t(2) by (simp only: word_le_nat_alt ut)
  then have i: "?i \<le> len - 1" "of_nat ?t \<le> entry_slot d ?i" "Suc ?i < len \<longrightarrow> entry_slot d (Suc ?i) < of_nat ?t"
    using hash_search_spec [of 0 "len - 1" len "of_nat ?t" d] len by simp_all
  have "entry_slot d ?i \<le> entry_slot d j" if "j < len" "of_nat ?t \<le> entry_slot d j" for j
    by (rule lowest_entry [OF ok _ i(3) that]) (use i(1) len in simp)
  with i len show "\<exists>i < len. se_used_slot se = entry_slot d i \<and> se_hash se = slice d (8 + i * 40 + 8) 32 \<and>
      se_target_slot se \<le> entry_slot d i \<and> (\<forall>j < len. se_target_slot se \<le> entry_slot d j \<longrightarrow> entry_slot d i \<le> entry_slot d j)"
    by (intro exI [of _ ?i]) (simp add: se)
qed

end
