(* ===== verification/PropsDraw.thy ===== *)
theory PropsDraw
  imports FdGrow FdStream FdCommon
begin

text \<open>
  The fairness of \<open>null_fair_draw\<close>: the choice of the slot hash, the distribution of the drawn point,
  its map past the won entries, and the sum tree that turns points into entries.
\<close>

section \<open>Drawing a point\<close>

text \<open>
  C38. \<open>remap\<close> is the order-preserving enumeration of the points not yet won: for disjoint won
  intervals in ascending order below the total weight, it maps the points below the remaining weight
  one to one onto the points of the draw outside those intervals. So no won entry is drawn again and
  every remaining unit of weight keeps exactly one preimage.
\<close>

theorem point_map_bijection:
  assumes "won_ok 0 tot ws" and "tot \<le> 2 ^ 64"
  shows "bij_betw (\<lambda>u. unat (the (remap (of_nat u) ws))) {0..<tot - won_sum ws} ({0..<tot} - won_points ws) \<and>
    (\<forall>u < tot - won_sum ws. remap (of_nat u) ws \<noteq> None)"
proof -
  have "remap (of_nat u) ws \<noteq> None" if "u < tot - won_sum ws" for u
  proof -
    have "unat (of_nat u :: u64) = u" using that assms(2) by (simp add: unat_of_nat)
    with remap_spec [OF assms(1) _ _ assms(2), of "of_nat u"] that show ?thesis by (auto simp: less_diff_conv)
  qed
  with remap_range_bij [OF assms] show ?thesis by blast
qed

theorem point_map_bijection_witness:
  "bij_betw (\<lambda>u. unat (the (remap (of_nat u) [(2, 3), (7, 1)]))) {0..<6} ({0..<10} - {2, 3, 4, 7}) \<and>
    remap 4 [(2, 3), (7, 1)] = Some 8"
proof -
  have "won_points [(2, 3), (7, 1)] = {2, 3, 4, 7}" by auto
  with point_map_bijection [of 10 "[(2, 3), (7, 1)]"] show ?thesis by (simp add: checked_add_def)
qed

text \<open>
  C39. The bias of the reduction is exactly known and below one part in \<open>2^448\<close>: of the \<open>2^512\<close>
  stream blocks, each residue below the remaining weight is reached by the rounded-down or
  rounded-up share of them.
\<close>

theorem point_distribution:
  assumes "u < m"
  shows "card {x. length x = 64 \<and> wide_mod x m = Inr u} =
    2 ^ 512 div unat m + (if unat u < 2 ^ 512 mod unat m then 1 else 0)"
proof -
  have m: "m \<noteq> 0" using assms by auto
  have um: "unat u < unat m" using assms by (simp add: word_less_nat_alt)
  have w: "wide_mod x m = Inr u \<longleftrightarrow> be_nat x mod unat m = unat u" if x: "length x = 64" for x
  proof -
    obtain r where "wide_mod x m = Inr r" "unat r = be_nat x mod unat m" by (rule wide_mod_nat [OF m x])
    then show ?thesis by (simp add: word_unat_eq_iff)
  qed
  have B: "(256 :: nat) ^ 64 = 2 ^ 512" by simp
  have "bij_betw be_nat {x. length x = 64 \<and> wide_mod x m = Inr u} {v. v < 2 ^ 512 \<and> v mod unat m = unat u}"
  proof (rule bij_betw_subset [OF be_nat_bij [of 64]])
    show "be_nat ` {x. length x = 64 \<and> wide_mod x m = Inr u} = {v. v < 2 ^ 512 \<and> v mod unat m = unat u}"
    proof (intro set_eqI iffI)
      fix v assume "v \<in> {v. v < 2 ^ 512 \<and> v mod unat m = unat u}"
      then have v: "v < 256 ^ 64" "v mod unat m = unat u" unfolding B by simp_all
      then obtain x where "length x = 64" "v = be_nat x"
        using be_nat_bij [of 64] unfolding bij_betw_def by (metis (mono_tags, lifting) imageE lessThan_iff mem_Collect_eq)
      with v(2) w show "v \<in> be_nat ` {x. length x = 64 \<and> wide_mod x m = Inr u}" by auto
    next
      fix v assume "v \<in> be_nat ` {x. length x = 64 \<and> wide_mod x m = Inr u}"
      then obtain x where x: "length x = 64" "wide_mod x m = Inr u" "v = be_nat x" by auto
      with be_nat_bound [of x] w have "v < 256 ^ 64" "v mod unat m = unat u" by auto
      then show "v \<in> {v. v < 2 ^ 512 \<and> v mod unat m = unat u}" unfolding B by simp
    qed
  qed auto
  then have "card {x. length x = 64 \<and> wide_mod x m = Inr u} = card {v. v < 2 ^ 512 \<and> v mod unat m = unat u}"
    by (rule bij_betw_same_card)
  with residue_count [OF um, of "2 ^ 512"] show ?thesis by simp
qed

theorem point_distribution_witness:
  "card {x. length x = 64 \<and> wide_mod x 2 = Inr 1} = 2 ^ 511"
  using point_distribution [of 1 2] by simp

text \<open>
  C40. The slot hash of a draw is forced: whatever snapshot of the SlotHashes sysvar a crank presents, the
  attempt is the smallest multiple of the fallback step that brings the target into the snapshot, and
  the hash used is that of the earliest produced slot at or after the target.
\<close>

theorem slot_hash_forced:
  assumes "fd_hashes_ok d len" and "select d t0 = Inr se"
  shows "unat (se_target_slot se) = unat t0 + unat (se_attempt se) * 512 \<and>
    entry_slot d (len - 1) \<le> se_target_slot se \<and>
    (\<forall>a < unat (se_attempt se). unat t0 + a * 512 < unat (entry_slot d (len - 1))) \<and>
    (\<exists>i < len. se_used_slot se = entry_slot d i \<and> se_hash se = slice d (8 + i * 40 + 8) 32 \<and>
      se_target_slot se \<le> entry_slot d i \<and> (\<forall>j < len. se_target_slot se \<le> entry_slot d j \<longrightarrow> entry_slot d i \<le> entry_slot d j))"
  using select_used [OF assms] by blast

lemma two_entries_ok:
  assumes "unat (get_u64 d 0) = 2" and "88 \<le> length d" and "entry_slot d 1 < entry_slot d 0"
  shows "fd_hashes_ok d 2"
proof -
  have "i = 0 \<and> j = 1" if "i < j" "j < 2" for i j :: nat using that by linarith
  then have "entry_slot d j < entry_slot d i" if "i < j" "j < 2" for i j using that assms(3) by metis
  with assms(1,2) show ?thesis by (simp add: fd_hashes_ok_def)
qed

lemma two_hashes:
  "fd_hashes_ok (encode_slot_hashes [(40, replicate 32 1), (60, replicate 32 2)]) 2"
  "select (encode_slot_hashes [(40, replicate 32 1), (60, replicate 32 2)]) 41 =
     Inr \<lparr>se_attempt = 0, se_target_slot = 41, se_used_slot = 60, se_hash = replicate 32 2\<rparr>"
proof -
  let ?d = "encode_slot_hashes [(40, replicate 32 1), (60, replicate 32 2)]"
  have l: "unat (get_u64 ?d 0) = 2" by code_simp
  have m: "88 \<le> length ?d" by code_simp
  have e: "entry_slot ?d 0 = 60" "entry_slot ?d 1 = 40" by code_simp+
  then have n: "entry_slot ?d 1 < entry_slot ?d 0" by simp
  have h: "slice ?d 16 32 = replicate 32 2" by code_simp
  show ok: "fd_hashes_ok ?d 2" by (rule two_entries_ok [OF l m n])
  have a: "fallback_attempt (entry_slot ?d (2 - 1)) 41 = 0" using e by (simp add: fallback_attempt_def div_ceil_def)
  have "hash_search ?d 41 0 1 = 0"
    by (subst hash_search.simps) (use e hash_search.simps [of ?d 41 0 0] in \<open>simp add: div_ceil_def Let_def\<close>)
  then have i: "hash_search ?d (of_nat (unat (41 :: u64) + 0 * 512)) 0 (2 - 1) = 0" by simp
  show "select ?d 41 = Inr \<lparr>se_attempt = 0, se_target_slot = 41, se_used_slot = 60, se_hash = replicate 32 2\<rparr>"
    unfolding select_spec [OF ok] Let_def a i e using h by simp
qed

theorem slot_hash_forced_witness:
  "\<exists>i < 2. entry_slot (encode_slot_hashes [(40, replicate 32 1), (60, replicate 32 2)]) i = 60"
  using slot_hash_forced [OF two_hashes] by (metis selection.select_convs(3))

section \<open>The entries\<close>

text \<open>The successive appends of the entries of an open raffle, from an empty frontier.\<close>

fun append_all :: "runtime \<Rightarrow> bytes \<Rightarrow> nat \<Rightarrow> pair \<Rightarrow> pair list \<Rightarrow> (bytes \<times> pair) option" where
  "append_all rt filled n root [] = Some (filled, root)"
| "append_all rt filled n root (p # ps) =
     (case tree_append rt filled (of_nat n) p of None \<Rightarrow> None
      | Some (filled, root) \<Rightarrow> append_all rt filled (n + 1) root ps)"

lemma append_all_spec:
  assumes h32: "\<forall>xs. length (hashv rt xs) = 32" and "\<forall>p \<in> set (done @ ps). length (fst p) = 32"
    and "length (done @ ps) \<le> 2 ^ OPEN_DEPTH" and "sum_list (map (unat \<circ> snd) (done @ ps)) < 2 ^ 64"
    and "frontier_ok rt OPEN_DEPTH filled done" and "root_of rt done OPEN_DEPTH = Some root"
  shows "\<exists>filled' root'. append_all rt filled (length done) root ps = Some (filled', root') \<and>
    root_of rt (done @ ps) OPEN_DEPTH = Some root'"
  using assms(2-)
proof (induction ps arbitrary: "done" filled root)
  case (Cons p ps)
  have l: "length (done @ [p]) \<le> 2 ^ OPEN_DEPTH" "sum_list (map (unat \<circ> snd) (done @ [p])) < 2 ^ 64"
    using Cons.prems(2,3) by (simp_all add: comp_def)
  from tree_total [OF l, of rt] obtain r where r: "sub_node rt (padded_pairs (done @ [p])) OPEN_DEPTH 0 = Some r" .
  have "length done < 2 ^ OPEN_DEPTH" "OPEN_DEPTH \<le> 64" using l(1) by (simp_all add: OPEN_DEPTH_def)
  from frontier_append [OF h32 _ r this Cons.prems(4)] Cons.prems(1) obtain fl where
    "tree_append rt filled (of_nat (length done)) p = Some (fl, r)" "frontier_ok rt OPEN_DEPTH fl (done @ [p])"
    by (auto simp: tree_append_def)
  with Cons.IH [of "done @ [p]" fl r] Cons.prems root_of_tree [OF r l(1)] show ?case by simp
qed simp

text \<open>
  C35. The incremental tree of an open raffle is the batch tree: appending the entries one after another to
  the frontier of a fresh draw never fails within the capacity and ends with the root and the total
  weight that the off-chain builder computes from the whole list.
\<close>

theorem append_is_batch:
  assumes "\<forall>xs. length (hashv rt xs) = 32" and "\<forall>p \<in> set ps. length (fst p) = 32"
    and "length ps \<le> 2 ^ OPEN_DEPTH" and "sum_list (map (unat \<circ> snd) ps) < 2 ^ 64" and "length filled = FRONTIER_LEN"
  shows "\<exists>filled' root. append_all rt filled 0 (zeros rt OPEN_DEPTH, 0) ps = Some (filled', root) \<and>
    root_of rt ps OPEN_DEPTH = Some root"
proof -
  have "frontier_ok rt OPEN_DEPTH filled []" using assms(5) by (simp add: frontier_ok_def FRONTIER_LEN_def)
  moreover have "root_of rt [] OPEN_DEPTH = Some (zeros rt OPEN_DEPTH, 0)" by (simp add: root_of_def)
  ultimately show ?thesis using append_all_spec [of rt "[]" ps filled "(zeros rt OPEN_DEPTH, 0)"] assms by simp
qed

text \<open>
  C36. Every entrant can prove its entry: for a list that fits its depth, the proof the off-chain helper
  builds for an entry is accepted by the program under the root and total of that list, and shows the
  sum of the weights before it as the start of its interval.
\<close>

theorem built_proofs_verify:
  assumes "\<forall>xs. length (hashv rt xs) = 32" and "\<forall>p \<in> set ps. length (fst p) = 32"
    and "length ps \<le> 2 ^ D" and "D \<le> MAX_LIST_DEPTH" and "sum_list (map (unat \<circ> snd) ps) < 2 ^ 64"
    and "i < length ps" and "snd (ps ! i) \<noteq> 0"
  shows "\<exists>path root start. proof_of rt ps D i = Some path \<and> root_of rt ps D = Some root \<and>
    tree_verify rt (fst root) (snd root) D (of_nat (length ps)) (of_nat i) (fst (ps ! i)) (snd (ps ! i)) path = Some start \<and>
    unat start = sum_list (map (unat \<circ> snd) (take i ps))"
proof -
  obtain root where root: "sub_node rt (padded_pairs ps) D 0 = Some root" by (rule tree_total [OF assms(3,5)])
  obtain path where p: "proof_of rt ps D i = Some path" "length path = D * TREE_PAIR_LEN"
    "path_pairs path D = map (honest rt (padded_pairs ps) i) [0..<D]"
    using proof_of_honest [OF assms(1,2) root assms(3,6)] by blast
  have i: "i < 2 ^ D" using assms(3,6) by simp
  obtain s where s: "climb rt i (map (honest rt (padded_pairs ps) i) [0..<D]) (padded_pairs ps i) 0 = Some (root, s)"
    "unat s = weights (padded_pairs ps) 0 i" by (rule honest_verifies [OF root i])
  have "(2 :: nat) ^ D \<le> 2 ^ 22" using assms(4) by (intro power_increasing) simp_all
  then have un: "unat (of_nat i :: u64) = i" "unat (of_nat (length ps) :: u64) = length ps"
    using assms(3) i by (simp_all add: unat_of_nat)
  have "drop_bit D (of_nat i :: u64) = 0" using i un by (simp add: word_unat_eq_iff unat_drop_bit_eq drop_bit_eq_div [where 'a = nat] del: drop_bit_of_nat)
  then have "tree_verify rt (fst root) (snd root) D (of_nat (length ps)) (of_nat i) (fst (ps ! i)) (snd (ps ! i)) path = Some s"
    unfolding tree_verify_Some using un s(1) p(2,3) assms(4,6,7) i by (simp add: padded_pairs_def word_less_nat_alt)
  with p(1) root_of_tree [OF root assms(3)] s(2) padded_prefix [of i ps] assms(6) show ?thesis by auto
qed

text \<open>
  C37. No entry can stand in for another: two proofs accepted under the same root and total are for the same
  entry with the same interval, or for different indices whose weight intervals do not overlap and lie
  in the order of the indices, unless two different nodes hashed in the proofs collide.
\<close>

theorem accepted_proofs_agree:
  assumes "tree_verify rt root tot D cnt i l v p = Some s" and "tree_verify rt root tot D cnt j m w q = Some t"
    and "node_inj rt (verify_pairs rt D i l v p \<union> verify_pairs rt D j m w q)"
  shows "unat s + unat v \<le> unat tot \<and> (i = j \<and> l = m \<and> v = w \<and> s = t \<or>
    i < j \<and> unat s + unat v \<le> unat t \<or> j < i \<and> unat t + unat w \<le> unat s)"
  using tree_verify_two [OF assms(3,1,2)] tree_verify_range [OF assms(1)] by blast

section \<open>Witnesses\<close>

definition flat_runtime :: runtime where
  "flat_runtime = ref_runtime\<lparr>hashv := (\<lambda>parts. take 32 (concat parts @ replicate 32 0))\<rparr>"

lemma node_inj_single: "node_inj rt {x}"
  by (cases x) (simp add: node_inj_def)

lemma flat_hash32: "\<forall>xs. length (hashv flat_runtime xs) = 32"
  by (auto simp: flat_runtime_def)

theorem append_is_batch_witness:
  "\<exists>filled' root. append_all flat_runtime (replicate 800 0) 0 (zeros flat_runtime OPEN_DEPTH, 0)
     [(replicate 32 7, 2), (replicate 32 8, 3)] = Some (filled', root) \<and>
   root_of flat_runtime [(replicate 32 7, 2), (replicate 32 8, 3)] OPEN_DEPTH = Some root"
  by (rule append_is_batch [OF flat_hash32]) (simp_all add: FRONTIER_LEN_def OPEN_DEPTH_def)

theorem built_proofs_verify_witness:
  "\<exists>path root start. proof_of flat_runtime [(replicate 32 7, 2), (replicate 32 8, 3)] 1 1 = Some path \<and>
     root_of flat_runtime [(replicate 32 7, 2), (replicate 32 8, 3)] 1 = Some root \<and>
     tree_verify flat_runtime (fst root) (snd root) 1 2 1 (replicate 32 8) 3 path = Some start \<and> unat start = 2"
proof -
  let ?ps = "[(replicate 32 7, 2), (replicate 32 8, 3)] :: pair list"
  have "\<exists>path root start. proof_of flat_runtime ?ps 1 1 = Some path \<and> root_of flat_runtime ?ps 1 = Some root \<and>
      tree_verify flat_runtime (fst root) (snd root) 1 (of_nat (length ?ps)) (of_nat 1) (fst (?ps ! 1)) (snd (?ps ! 1)) path = Some start \<and>
      unat start = sum_list (map (unat \<circ> snd) (take 1 ?ps))"
    by (rule built_proofs_verify [OF flat_hash32]) simp_all
  moreover have "of_nat (length ?ps) = (2 :: u64)" "of_nat 1 = (1 :: u64)" "?ps ! 1 = (replicate 32 8, 3)"
    "sum_list (map (unat \<circ> snd) (take 1 ?ps)) = 2" by simp_all
  ultimately show ?thesis by (simp only: fst_conv snd_conv)
qed

theorem accepted_proofs_agree_witness:
  "unat (0 :: u64) + unat (2 :: u64) \<le> unat (5 :: u64) \<and>
    ((0 :: u64) = 1 \<and> replicate 32 7 = (replicate 32 8 :: bytes) \<and> (2 :: u64) = 3 \<and> (0 :: u64) = 2 \<or>
     (0 :: u64) < 1 \<and> unat (0 :: u64) + unat (2 :: u64) \<le> unat (2 :: u64) \<or>
     (1 :: u64) < 0 \<and> unat (2 :: u64) + unat (3 :: u64) \<le> unat (0 :: u64))"
proof -
  let ?root = "node_hash ref_runtime (replicate 32 7, 2) (replicate 32 8, 3)"
  let ?p = "replicate 32 8 @ u64_le 3" and ?q = "replicate 32 7 @ u64_le 2"
  have p: "tree_verify ref_runtime ?root 5 1 2 0 (replicate 32 7) 2 ?p = Some 0"
    by (simp add: tree_verify_def sum_node_def checked_add_def read_pair_def slice_def get_u64_def word_le_nat_alt)
  have q: "tree_verify ref_runtime ?root 5 1 2 1 (replicate 32 8) 3 ?q = Some 2"
    by (simp add: tree_verify_def sum_node_def checked_add_def read_pair_def slice_def get_u64_def word_le_nat_alt)
  have "verify_pairs ref_runtime 1 0 (replicate 32 7) 2 ?p = {((replicate 32 7, 2), (replicate 32 8, 3))}"
    "verify_pairs ref_runtime 1 1 (replicate 32 8) 3 ?q = {((replicate 32 7, 2), (replicate 32 8, 3))}"
    by code_simp+
  then have "node_inj ref_runtime (verify_pairs ref_runtime 1 0 (replicate 32 7) 2 ?p \<union> verify_pairs ref_runtime 1 1 (replicate 32 8) 3 ?q)"
    by (simp only: Un_absorb node_inj_single)
  from accepted_proofs_agree [OF p q this] show ?thesis .
qed

end
