(* ===== verification/FdState.thy ===== *)
theory FdState
  imports FdTree
begin

text \<open>
  The data of \<open>null_fair_draw\<close>: error codes (\<open>programs/null_fair_draw/src/error.rs\<close>), the packed
  draw account with its slot table and the table of won intervals, the entrant record
  (\<open>state.rs\<close>), and token accounts (\<open>token.rs\<close>).
\<close>

section \<open>error.rs\<close>

datatype draw_error =
    DfInvalidInstruction | DfInvalidParams | DfInvalidAccount | DfAccountInUse | DfWrongStatus | DfEntriesClosed
  | DfEntriesOpen | DfWalletCapExceeded | DfTreeFull | DfInvalidSysvar | DfDrawTooEarly | DfInvalidProof
  | DfPointNotInLeaf | DfMissingProof | DfNotWinner | DfClaimWindowClosed | DfClaimWindowOpen | DfNotOrganizer
  | DfInsolvent | DfMathOverflow | DfInvalidTokenAccount | DfNothingToResolve | DfZeroWeight | DfAlreadyClaimed
  | DfEntrantInUse | DfAccountNotExtended

definition FD_ERROR_BASE :: u32 where "FD_ERROR_BASE = 0x46440000"

fun fd_discr :: "draw_error \<Rightarrow> u32" where
  "fd_discr DfInvalidInstruction = 1"
| "fd_discr DfInvalidParams = 2"
| "fd_discr DfInvalidAccount = 3"
| "fd_discr DfAccountInUse = 4"
| "fd_discr DfWrongStatus = 5"
| "fd_discr DfEntriesClosed = 6"
| "fd_discr DfEntriesOpen = 7"
| "fd_discr DfWalletCapExceeded = 8"
| "fd_discr DfTreeFull = 9"
| "fd_discr DfInvalidSysvar = 10"
| "fd_discr DfDrawTooEarly = 11"
| "fd_discr DfInvalidProof = 12"
| "fd_discr DfPointNotInLeaf = 13"
| "fd_discr DfMissingProof = 14"
| "fd_discr DfNotWinner = 15"
| "fd_discr DfClaimWindowClosed = 16"
| "fd_discr DfClaimWindowOpen = 17"
| "fd_discr DfNotOrganizer = 18"
| "fd_discr DfInsolvent = 19"
| "fd_discr DfMathOverflow = 20"
| "fd_discr DfInvalidTokenAccount = 21"
| "fd_discr DfNothingToResolve = 22"
| "fd_discr DfZeroWeight = 23"
| "fd_discr DfAlreadyClaimed = 24"
| "fd_discr DfEntrantInUse = 25"
| "fd_discr DfAccountNotExtended = 26"

definition fd_code :: "draw_error \<Rightarrow> u32" where
  "fd_code e = FD_ERROR_BASE + fd_discr e"

definition fd_err :: "draw_error \<Rightarrow> perr" where
  "fd_err e = Custom (fd_code e)"

abbreviation fd_fail :: "draw_error \<Rightarrow> 'a res" where
  "fd_fail e \<equiv> Inl (fd_err e)"

section \<open>state.rs: constants\<close>

definition DRAW_SEED :: bytes where "DRAW_SEED = map of_char ''draw''"
definition FD_VAULT_SEED :: bytes where "FD_VAULT_SEED = map of_char ''vault''"
definition ENTRANT_SEED :: bytes where "ENTRANT_SEED = map of_char ''entrant''"
definition DRAW_DISC :: bytes where "DRAW_DISC = map of_char ''NFDDRAW1''"
definition ENTRANT_DISC :: bytes where "ENTRANT_DISC = map of_char ''NFDENTR1''"

definition MAX_TIERS :: nat where [simp]: "MAX_TIERS = 8"
definition MAX_ROUNDS :: nat where [simp]: "MAX_ROUNDS = 4"
definition MAX_REDRAW_ROUNDS :: u8 where [simp]: "MAX_REDRAW_ROUNDS = 3"
definition MAX_SLOTS :: nat where [simp]: "MAX_SLOTS = 1024"
definition MODE_OPEN :: u8 where [simp]: "MODE_OPEN = 0"
definition MODE_LIST :: u8 where [simp]: "MODE_LIST = 1"
definition STATUS_CREATED :: u8 where [simp]: "STATUS_CREATED = 0"
definition STATUS_FUNDED :: u8 where [simp]: "STATUS_FUNDED = 1"
definition STATUS_AWAIT_DRAW :: u8 where [simp]: "STATUS_AWAIT_DRAW = 2"
definition STATUS_RESOLVING :: u8 where [simp]: "STATUS_RESOLVING = 3"
definition STATUS_COMPLETE :: u8 where [simp]: "STATUS_COMPLETE = 4"
definition SLOT_PENDING :: u8 where [simp]: "SLOT_PENDING = 0"
definition SLOT_WON :: u8 where [simp]: "SLOT_WON = 1"
definition SLOT_CLAIMED :: u8 where [simp]: "SLOT_CLAIMED = 2"
definition SLOT_FORFEITED :: u8 where [simp]: "SLOT_FORFEITED = 3"
definition SLOT_VOID :: u8 where [simp]: "SLOT_VOID = 4"
definition ROUND_INFO_LEN :: nat where [simp]: "ROUND_INFO_LEN = 8 * 4 + 32 + 32"
definition HEADER_LEN :: nat where [simp]: "HEADER_LEN = 408 + MAX_ROUNDS * ROUND_INFO_LEN"
definition DRAW_SLOT_LEN :: nat where [simp]: "DRAW_SLOT_LEN = 8 + 8 + 8 + 32 + 4"
definition WON_LEN :: nat where [simp]: "WON_LEN = 16"
definition ENTRANT_LEN :: nat where [simp]: "ENTRANT_LEN = 8 + 32 + 32 + 8 + 1"
definition MAX_ALLOC_STEP :: nat where [simp]: "MAX_ALLOC_STEP = 10240"

definition draw_len :: "u8 \<Rightarrow> nat \<Rightarrow> nat" where
  "draw_len mode cap = HEADER_LEN + (if mode = MODE_OPEN then FRONTIER_LEN else 0) + cap * (DRAW_SLOT_LEN + WON_LEN)"

section \<open>state.rs: the draw header\<close>

record tier =
  tr_count :: u32
  tr_amount :: u64

record round_info =
  ri_first_target :: u64
  ri_target_slot :: u64
  ri_used_slot :: u64
  ri_attempt :: u64
  ri_slot_hash :: bytes
  ri_seed :: bytes

record fair_draw =
  fd_organizer :: key
  fd_draw_id :: u64
  fd_bump :: u8
  fd_vault_bump :: u8
  fd_mode :: u8
  fd_weighted :: bool
  fd_status :: u8
  fd_round :: u8
  fd_redraw_rounds :: u8
  fd_tier_count :: u8
  fd_depth :: u8
  fd_won_count :: u16
  fd_prize_mint :: key
  fd_entry_mint :: key
  fd_fee_dest :: key
  fd_entry_price :: u64
  fd_wallet_cap :: u64
  fd_close_slot :: u64
  fd_claim_window_slots :: u64
  fd_tiers :: "tier list"
  fd_total_prize :: u64
  fd_funded :: u64
  fd_paid :: u64
  fd_returned :: u64
  fd_refundable :: u64
  fd_root :: bytes
  fd_total_weight :: u64
  fd_leaf_count :: u64
  fd_commit_slot :: u64
  fd_won_weight :: u64
  fd_capacity :: u16
  fd_slot_count :: u16
  fd_next_slot :: u16
  fd_round_first_slot :: u16
  fd_window_end :: u64
  fd_rounds :: "round_info list"

definition default_tier :: tier where
  "default_tier = \<lparr>tr_count = 0, tr_amount = 0\<rparr>"

definition default_round :: round_info where
  "default_round = \<lparr>ri_first_target = 0, ri_target_slot = 0, ri_used_slot = 0, ri_attempt = 0,
     ri_slot_hash = replicate 32 0, ri_seed = replicate 32 0\<rparr>"

text \<open>The reads of \<open>Rd\<close> in order, at the offsets they reach.\<close>

definition tier_of :: "bytes \<Rightarrow> nat \<Rightarrow> tier" where
  "tier_of d off = \<lparr>tr_count = get_u32 d off, tr_amount = get_u64 d (off + 4)\<rparr>"

definition round_of :: "bytes \<Rightarrow> nat \<Rightarrow> round_info" where
  "round_of d off = \<lparr>ri_first_target = get_u64 d off, ri_target_slot = get_u64 d (off + 8), ri_used_slot = get_u64 d (off + 16),
     ri_attempt = get_u64 d (off + 24), ri_slot_hash = slice d (off + 32) 32, ri_seed = slice d (off + 64) 32\<rparr>"

definition fd_of :: "bytes \<Rightarrow> fair_draw" where
  "fd_of d = \<lparr>fd_organizer = slice d 8 32, fd_draw_id = get_u64 d 40, fd_bump = d ! 48, fd_vault_bump = d ! 49,
     fd_mode = d ! 50, fd_weighted = (d ! 51 \<noteq> 0), fd_status = d ! 52, fd_round = d ! 53, fd_redraw_rounds = d ! 54,
     fd_tier_count = d ! 55, fd_depth = d ! 56, fd_won_count = get_u16 d 57,
     fd_prize_mint = slice d 64 32, fd_entry_mint = slice d 96 32, fd_fee_dest = slice d 128 32,
     fd_entry_price = get_u64 d 160, fd_wallet_cap = get_u64 d 168, fd_close_slot = get_u64 d 176,
     fd_claim_window_slots = get_u64 d 184, fd_tiers = map (\<lambda>i. tier_of d (192 + i * 12)) [0..<MAX_TIERS],
     fd_total_prize = get_u64 d 288, fd_funded = get_u64 d 296, fd_paid = get_u64 d 304, fd_returned = get_u64 d 312,
     fd_refundable = get_u64 d 320, fd_root = slice d 328 32, fd_total_weight = get_u64 d 360,
     fd_leaf_count = get_u64 d 368, fd_commit_slot = get_u64 d 376, fd_won_weight = get_u64 d 384,
     fd_capacity = get_u16 d 392, fd_slot_count = get_u16 d 394, fd_next_slot = get_u16 d 396,
     fd_round_first_slot = get_u16 d 398, fd_window_end = get_u64 d 400,
     fd_rounds = map (\<lambda>i. round_of d (408 + i * 96)) [0..<MAX_ROUNDS]\<rparr>"

definition fd_len :: "fair_draw \<Rightarrow> nat" where
  "fd_len dr = draw_len (fd_mode dr) (unat (fd_capacity dr))"

definition fd_unpack :: "bytes \<Rightarrow> fair_draw option" where
  "fd_unpack d =
     (if length d < HEADER_LEN \<or> slice d 0 8 \<noteq> DRAW_DISC then None
      else let dr = fd_of d;
        full = (length d = fd_len dr);
        growing = (fd_status dr = STATUS_CREATED \<and> length d < fd_len dr \<and> HEADER_LEN \<le> length d) in
        if \<not> (full \<or> growing) \<or> MODE_LIST < fd_mode dr \<or> MAX_SLOTS < unat (fd_capacity dr) then None else Some dr)"

definition tier_bytes :: "tier \<Rightarrow> bytes" where
  "tier_bytes t = u32_le (tr_count t) @ u64_le (tr_amount t)"

definition round_bytes :: "round_info \<Rightarrow> bytes" where
  "round_bytes r = u64_le (ri_first_target r) @ u64_le (ri_target_slot r) @ u64_le (ri_used_slot r) @
     u64_le (ri_attempt r) @ ri_slot_hash r @ ri_seed r"

text \<open>The writes of \<open>Wr\<close> in order; the tiers and the rounds are each one run of bytes.\<close>

definition fd_fields :: "fair_draw \<Rightarrow> (nat \<times> nat \<times> bytes) list" where
  "fd_fields dr =
     [(0, 8, DRAW_DISC), (8, 32, fd_organizer dr), (40, 8, u64_le (fd_draw_id dr)), (48, 1, [fd_bump dr]),
      (49, 1, [fd_vault_bump dr]), (50, 1, [fd_mode dr]), (51, 1, [of_bool (fd_weighted dr)]), (52, 1, [fd_status dr]),
      (53, 1, [fd_round dr]), (54, 1, [fd_redraw_rounds dr]), (55, 1, [fd_tier_count dr]), (56, 1, [fd_depth dr]),
      (57, 2, u16_le (fd_won_count dr)), (59, 5, replicate 5 0), (64, 32, fd_prize_mint dr),
      (96, 32, fd_entry_mint dr), (128, 32, fd_fee_dest dr), (160, 8, u64_le (fd_entry_price dr)),
      (168, 8, u64_le (fd_wallet_cap dr)), (176, 8, u64_le (fd_close_slot dr)),
      (184, 8, u64_le (fd_claim_window_slots dr)), (192, 96, concat (map tier_bytes (fd_tiers dr))),
      (288, 8, u64_le (fd_total_prize dr)), (296, 8, u64_le (fd_funded dr)), (304, 8, u64_le (fd_paid dr)),
      (312, 8, u64_le (fd_returned dr)), (320, 8, u64_le (fd_refundable dr)), (328, 32, fd_root dr),
      (360, 8, u64_le (fd_total_weight dr)), (368, 8, u64_le (fd_leaf_count dr)), (376, 8, u64_le (fd_commit_slot dr)),
      (384, 8, u64_le (fd_won_weight dr)), (392, 2, u16_le (fd_capacity dr)), (394, 2, u16_le (fd_slot_count dr)),
      (396, 2, u16_le (fd_next_slot dr)), (398, 2, u16_le (fd_round_first_slot dr)),
      (400, 8, u64_le (fd_window_end dr)), (408, 384, concat (map round_bytes (fd_rounds dr)))]"

definition fd_pack :: "fair_draw \<Rightarrow> bytes \<Rightarrow> bytes res" where
  "fd_pack dr d = (if length d < HEADER_LEN then Inl Panic else wr_all (fd_fields dr) d)"

definition frontier_offset :: "fair_draw \<Rightarrow> nat" where
  "frontier_offset dr = HEADER_LEN"

definition slots_offset :: "fair_draw \<Rightarrow> nat" where
  "slots_offset dr = HEADER_LEN + (if fd_mode dr = MODE_OPEN then FRONTIER_LEN else 0)"

definition sorted_offset :: "fair_draw \<Rightarrow> nat" where
  "sorted_offset dr = slots_offset dr + unat (fd_capacity dr) * DRAW_SLOT_LEN"

definition prize_count :: "fair_draw \<Rightarrow> nat res" where
  "prize_count dr =
     (if length (fd_tiers dr) < unat (fd_tier_count dr) then Inl Panic
      else Inr (sum_list (map (\<lambda>t. unat (tr_count t)) (take (unat (fd_tier_count dr)) (fd_tiers dr)))))"

definition outstanding :: "fair_draw \<Rightarrow> u64 option" where
  "outstanding dr =
     (case checked_sub (fd_funded dr) (fd_paid dr) of None \<Rightarrow> None | Some x \<Rightarrow> checked_sub x (fd_returned dr))"

definition is_sol_prize :: "fair_draw \<Rightarrow> bool" where
  "is_sol_prize dr \<longleftrightarrow> fd_prize_mint dr = replicate 32 0"

definition is_sol_entry :: "fair_draw \<Rightarrow> bool" where
  "is_sol_entry dr \<longleftrightarrow> fd_entry_mint dr = replicate 32 0"

section \<open>state.rs: winner slots\<close>

record draw_slot =
  sl_start :: u64
  sl_weight :: u64
  sl_leaf_index :: u64
  sl_wallet :: key
  sl_tier :: u8
  sl_status :: u8
  sl_round :: u8

definition default_slot :: draw_slot where
  "default_slot = \<lparr>sl_start = 0, sl_weight = 0, sl_leaf_index = 0, sl_wallet = replicate 32 0,
     sl_tier = 0, sl_status = 0, sl_round = 0\<rparr>"

definition slot_of :: "bytes \<Rightarrow> draw_slot" where
  "slot_of b = \<lparr>sl_start = get_u64 b 0, sl_weight = get_u64 b 8, sl_leaf_index = get_u64 b 16,
     sl_wallet = slice b 24 32, sl_tier = b ! 56, sl_status = b ! 57, sl_round = b ! 58\<rparr>"

definition slot_bytes :: "draw_slot \<Rightarrow> bytes" where
  "slot_bytes s = u64_le (sl_start s) @ u64_le (sl_weight s) @ u64_le (sl_leaf_index s) @ sl_wallet s @
     [sl_tier s, sl_status s, sl_round s, 0]"

definition read_slot :: "fair_draw \<Rightarrow> bytes \<Rightarrow> nat \<Rightarrow> draw_slot res" where
  "read_slot dr d i = bindE (rd_slice d (slots_offset dr + i * DRAW_SLOT_LEN) DRAW_SLOT_LEN) (\<lambda>b. Inr (slot_of b))"

definition write_slot :: "fair_draw \<Rightarrow> bytes \<Rightarrow> nat \<Rightarrow> draw_slot \<Rightarrow> bytes res" where
  "write_slot dr d i s = wr_slice d (slots_offset dr + i * DRAW_SLOT_LEN) DRAW_SLOT_LEN (slot_bytes s)"

section \<open>state.rs: won intervals\<close>

definition won_at :: "fair_draw \<Rightarrow> bytes \<Rightarrow> nat \<Rightarrow> (u64 \<times> u64) res" where
  "won_at dr d k =
     bindE (rd_slice d (sorted_offset dr + WON_LEN * k) WON_LEN) (\<lambda>b. Inr (get_u64 b 0, get_u64 b 8))"

text \<open>The binary search of \<open>won_insert\<close>.\<close>

function won_search :: "fair_draw \<Rightarrow> bytes \<Rightarrow> u64 \<Rightarrow> nat \<Rightarrow> nat \<Rightarrow> nat res" where
  "won_search dr d start lo hi =
     (if lo < hi then
        bindE (won_at dr d ((lo + hi) div 2)) (\<lambda>(st, w).
          if st \<le> start then won_search dr d start ((lo + hi) div 2 + 1) hi
          else won_search dr d start lo ((lo + hi) div 2))
      else Inr lo)"
  by pat_completeness auto
termination
  by (relation "measure (\<lambda>(dr, d, start, lo, hi). hi - lo)") auto

declare won_search.simps [simp del]

definition won_insert :: "fair_draw \<Rightarrow> bytes \<Rightarrow> u64 \<Rightarrow> u64 \<Rightarrow> (fair_draw \<times> bytes) res" where
  "won_insert dr d start weight =
     (let n = unat (fd_won_count dr); off = sorted_offset dr in
      bindE (won_search dr d start 0 n) (\<lambda>lo.
      bindE (rd_slice d (off + WON_LEN * lo) (WON_LEN * (n - lo))) (\<lambda>chunk.
      bindE (wr_slice d (off + WON_LEN * (lo + 1)) (WON_LEN * (n - lo)) chunk) (\<lambda>d.
      bindE (wr_slice d (off + WON_LEN * lo) 8 (u64_le start)) (\<lambda>d.
      bindE (wr_slice d (off + WON_LEN * lo + 8) 8 (u64_le weight)) (\<lambda>d.
      Inr (dr\<lparr>fd_won_count := fd_won_count dr + 1\<rparr>, d)))))))"

section \<open>state.rs: the entrant record\<close>

record entrant =
  en_draw :: key
  en_owner :: key
  en_count :: u64
  en_bump :: u8

definition entrant_of :: "bytes \<Rightarrow> entrant" where
  "entrant_of d = \<lparr>en_draw = slice d 8 32, en_owner = slice d 40 32, en_count = get_u64 d 72, en_bump = d ! 80\<rparr>"

definition entrant_unpack :: "bytes \<Rightarrow> entrant option" where
  "entrant_unpack d = (if length d \<noteq> ENTRANT_LEN \<or> slice d 0 8 \<noteq> ENTRANT_DISC then None else Some (entrant_of d))"

definition entrant_fields :: "entrant \<Rightarrow> (nat \<times> nat \<times> bytes) list" where
  "entrant_fields e = [(0, 8, ENTRANT_DISC), (8, 32, en_draw e), (40, 32, en_owner e), (72, 8, u64_le (en_count e)),
     (80, 1, [en_bump e])]"

definition entrant_pack :: "entrant \<Rightarrow> bytes \<Rightarrow> bytes res" where
  "entrant_pack e d = wr_all (entrant_fields e) d"

section \<open>token.rs\<close>

definition FD_TOKEN_PROGRAM_ID :: key where
  "FD_TOKEN_PROGRAM_ID =
    [6, 221, 246, 225, 215, 101, 161, 147, 217, 203, 225, 70, 206, 235, 121, 172,
     28, 180, 133, 237, 95, 91, 55, 145, 58, 140, 245, 133, 126, 255, 0, 169]"

definition FD_ACCOUNT_LEN :: nat where [simp]: "FD_ACCOUNT_LEN = 165"
definition FD_MINT_LEN :: nat where [simp]: "FD_MINT_LEN = 82"

record token_account =
  ta_mint :: key
  ta_owner :: key
  ta_amount :: u64

definition read_account :: "store \<Rightarrow> account_info \<Rightarrow> token_account option" where
  "read_account s ai =
     (let d = data (s (key ai)) in
      if owner (s (key ai)) \<noteq> FD_TOKEN_PROGRAM_ID then None
      else if length d \<noteq> FD_ACCOUNT_LEN \<or> d ! 108 \<noteq> 1 then None
      else Some \<lparr>ta_mint = slice d 0 32, ta_owner = slice d 32 32, ta_amount = get_u64 d 64\<rparr>)"

definition fd_transfer :: "key \<Rightarrow> key \<Rightarrow> key \<Rightarrow> u64 \<Rightarrow> instruction" where
  "fd_transfer source dest authority amount =
     \<lparr>ix_program = FD_TOKEN_PROGRAM_ID,
      ix_accounts = [\<lparr>key = source, is_signer = False, is_writable = True\<rparr>,
                     \<lparr>key = dest, is_signer = False, is_writable = True\<rparr>,
                     \<lparr>key = authority, is_signer = True, is_writable = False\<rparr>],
      ix_data = 3 # u64_le amount\<rparr>"

definition fd_initialize_account3 :: "key \<Rightarrow> key \<Rightarrow> key \<Rightarrow> instruction" where
  "fd_initialize_account3 account mint own =
     \<lparr>ix_program = FD_TOKEN_PROGRAM_ID,
      ix_accounts = [\<lparr>key = account, is_signer = False, is_writable = True\<rparr>,
                     \<lparr>key = mint, is_signer = False, is_writable = False\<rparr>],
      ix_data = 18 # own\<rparr>"

definition fd_close_account :: "key \<Rightarrow> key \<Rightarrow> key \<Rightarrow> instruction" where
  "fd_close_account account dest own =
     \<lparr>ix_program = FD_TOKEN_PROGRAM_ID,
      ix_accounts = [\<lparr>key = account, is_signer = False, is_writable = True\<rparr>,
                     \<lparr>key = dest, is_signer = False, is_writable = True\<rparr>,
                     \<lparr>key = own, is_signer = True, is_writable = False\<rparr>],
      ix_data = [9]\<rparr>"

definition pack_account :: "key \<Rightarrow> key \<Rightarrow> u64 \<Rightarrow> bytes" where
  "pack_account mint own amount = mint @ own @ u64_le amount @ replicate 36 0 @ [1] @ replicate 56 0"

definition pack_mint :: "u64 \<Rightarrow> u8 \<Rightarrow> bytes" where
  "pack_mint supply decimals = replicate 36 0 @ u64_le supply @ [decimals, 1] @ replicate 36 0"

end
