(* ===== verification/FdWire.thy ===== *)
theory FdWire
  imports FdState "HOL-Library.Monad_Syntax"
begin

text \<open>
  The instructions of \<open>null_fair_draw\<close> (\<open>programs/null_fair_draw/src/instruction.rs\<close>): the wire
  format, the program addresses and the builders callers use, then the round trip of the format.
\<close>

section \<open>Instructions\<close>

record create_params =
  cp_mode :: u8
  cp_weighted :: bool
  cp_redraw_rounds :: u8
  cp_tiers :: "tier list"
  cp_entry_price :: u64
  cp_wallet_cap :: u64
  cp_close_slot :: u64
  cp_claim_window_slots :: u64
  cp_prize_mint :: key
  cp_entry_mint :: key
  cp_fee_dest :: key

record leaf_proof =
  lp_leaf_index :: u64
  lp_wallet :: key
  lp_weight :: u64
  lp_path :: bytes

datatype draw_instruction =
    FdCreateDraw u64 create_params
  | FdFundPrizes
  | FdEnter u32 key
  | FdCommitList bytes u64 u64 u8
  | FdDraw
  | FdResolve u8 "leaf_proof list"
  | FdClaim u16 "leaf_proof option"
  | FdAdvance
  | FdReclaim
  | FdClose
  | FdCancel
  | FdProveEntry leaf_proof
  | FdCloseEntrant
  | FdExtend

section \<open>The cursor\<close>

definition cur_take :: "bytes \<Rightarrow> nat \<Rightarrow> nat \<Rightarrow> (bytes \<times> nat) option" where
  "cur_take d p n = (if p + n \<le> length d then Some (slice d p n, p + n) else None)"

definition cur_u8 :: "bytes \<Rightarrow> nat \<Rightarrow> (u8 \<times> nat) option" where
  "cur_u8 d p = do { (b, p) \<leftarrow> cur_take d p 1; Some (b ! 0, p) }"

definition cur_u16 :: "bytes \<Rightarrow> nat \<Rightarrow> (u16 \<times> nat) option" where
  "cur_u16 d p = do { (b, p) \<leftarrow> cur_take d p 2; Some (get_u16 b 0, p) }"

definition cur_u32 :: "bytes \<Rightarrow> nat \<Rightarrow> (u32 \<times> nat) option" where
  "cur_u32 d p = do { (b, p) \<leftarrow> cur_take d p 4; Some (get_u32 b 0, p) }"

definition cur_u64 :: "bytes \<Rightarrow> nat \<Rightarrow> (u64 \<times> nat) option" where
  "cur_u64 d p = do { (b, p) \<leftarrow> cur_take d p 8; Some (get_u64 b 0, p) }"

definition cur_proof :: "bytes \<Rightarrow> nat \<Rightarrow> (leaf_proof \<times> nat) option" where
  "cur_proof d p =
     do { (leaf_index, p) \<leftarrow> cur_u64 d p;
          (wallet, p) \<leftarrow> cur_take d p 32;
          (weight, p) \<leftarrow> cur_u64 d p;
          (depth, p) \<leftarrow> cur_u8 d p;
          if MAX_LIST_DEPTH < unat depth then None
          else do { (path, p) \<leftarrow> cur_take d p (unat depth * TREE_PAIR_LEN);
                    Some (\<lparr>lp_leaf_index = leaf_index, lp_wallet = wallet, lp_weight = weight, lp_path = path\<rparr>, p) } }"

fun cur_tiers :: "bytes \<Rightarrow> nat \<Rightarrow> nat \<Rightarrow> (tier list \<times> nat) option" where
  "cur_tiers d 0 p = Some ([], p)"
| "cur_tiers d (Suc n) p =
     do { (c, p) \<leftarrow> cur_u32 d p; (a, p) \<leftarrow> cur_u64 d p; (ts, p) \<leftarrow> cur_tiers d n p;
          Some (\<lparr>tr_count = c, tr_amount = a\<rparr> # ts, p) }"

fun cur_proofs :: "bytes \<Rightarrow> nat \<Rightarrow> nat \<Rightarrow> (leaf_proof list \<times> nat) option" where
  "cur_proofs d 0 p = Some ([], p)"
| "cur_proofs d (Suc n) p =
     do { (x, p) \<leftarrow> cur_proof d p; (xs, p) \<leftarrow> cur_proofs d n p; Some (x # xs, p) }"

definition put_proof :: "leaf_proof \<Rightarrow> bytes" where
  "put_proof x = u64_le (lp_leaf_index x) @ lp_wallet x @ u64_le (lp_weight x) @
     [of_nat (length (lp_path x) div TREE_PAIR_LEN)] @ lp_path x"

section \<open>unpack and pack\<close>

definition unpack_create :: "bytes \<Rightarrow> nat \<Rightarrow> (draw_instruction \<times> nat) option" where
  "unpack_create d p =
     do { (draw_id, p) \<leftarrow> cur_u64 d p;
          (mode, p) \<leftarrow> cur_u8 d p;
          (w, p) \<leftarrow> cur_u8 d p;
          if w \<noteq> 0 \<and> w \<noteq> 1 then None
          else do { (redraw_rounds, p) \<leftarrow> cur_u8 d p;
                    (tier_count, p) \<leftarrow> cur_u8 d p;
                    if tier_count = 0 \<or> MAX_TIERS < unat tier_count then None
                    else do { (tiers, p) \<leftarrow> cur_tiers d (unat tier_count) p;
                              (entry_price, p) \<leftarrow> cur_u64 d p;
                              (wallet_cap, p) \<leftarrow> cur_u64 d p;
                              (close_slot, p) \<leftarrow> cur_u64 d p;
                              (claim_window_slots, p) \<leftarrow> cur_u64 d p;
                              (prize_mint, p) \<leftarrow> cur_take d p 32;
                              (entry_mint, p) \<leftarrow> cur_take d p 32;
                              (fee_dest, p) \<leftarrow> cur_take d p 32;
                              Some (FdCreateDraw draw_id
                                \<lparr>cp_mode = mode, cp_weighted = (w = 1), cp_redraw_rounds = redraw_rounds, cp_tiers = tiers,
                                 cp_entry_price = entry_price, cp_wallet_cap = wallet_cap, cp_close_slot = close_slot,
                                 cp_claim_window_slots = claim_window_slots, cp_prize_mint = prize_mint,
                                 cp_entry_mint = entry_mint, cp_fee_dest = fee_dest\<rparr>, p) } } }"

definition unpack_body :: "bytes \<Rightarrow> nat \<Rightarrow> u8 \<Rightarrow> (draw_instruction \<times> nat) option" where
  "unpack_body d p t =
     (if t = 0 then unpack_create d p
      else if t = 1 then Some (FdFundPrizes, p)
      else if t = 2 then do { (n, p) \<leftarrow> cur_u32 d p; (own, p) \<leftarrow> cur_take d p 32; Some (FdEnter n own, p) }
      else if t = 3 then
        do { (root, p) \<leftarrow> cur_take d p 32; (w, p) \<leftarrow> cur_u64 d p; (n, p) \<leftarrow> cur_u64 d p; (dep, p) \<leftarrow> cur_u8 d p;
             Some (FdCommitList root w n dep, p) }
      else if t = 4 then Some (FdDraw, p)
      else if t = 5 then
        do { (mx, p) \<leftarrow> cur_u8 d p; (n, p) \<leftarrow> cur_u8 d p; (xs, p) \<leftarrow> cur_proofs d (unat n) p; Some (FdResolve mx xs, p) }
      else if t = 6 then
        do { (sl, p) \<leftarrow> cur_u16 d p; (h, p) \<leftarrow> cur_u8 d p;
             if h = 0 then Some (FdClaim sl None, p)
             else if h = 1 then do { (x, p) \<leftarrow> cur_proof d p; Some (FdClaim sl (Some x), p) }
             else None }
      else if t = 7 then Some (FdAdvance, p)
      else if t = 8 then Some (FdReclaim, p)
      else if t = 9 then Some (FdClose, p)
      else if t = 10 then Some (FdCancel, p)
      else if t = 11 then do { (x, p) \<leftarrow> cur_proof d p; Some (FdProveEntry x, p) }
      else if t = 12 then Some (FdCloseEntrant, p)
      else if t = 13 then Some (FdExtend, p)
      else None)"

definition fd_ix_unpack :: "bytes \<Rightarrow> draw_instruction option" where
  "fd_ix_unpack d =
     do { t \<leftarrow> get_at d 0;
          (i, p) \<leftarrow> unpack_body d 1 t;
          if p \<noteq> length d then None else Some i }"

fun fd_ix_pack :: "draw_instruction \<Rightarrow> bytes" where
  "fd_ix_pack (FdCreateDraw draw_id c) =
     [0] @ u64_le draw_id @ [cp_mode c, of_bool (cp_weighted c), cp_redraw_rounds c, of_nat (length (cp_tiers c))] @
     concat (map tier_bytes (cp_tiers c)) @ u64_le (cp_entry_price c) @ u64_le (cp_wallet_cap c) @
     u64_le (cp_close_slot c) @ u64_le (cp_claim_window_slots c) @ cp_prize_mint c @ cp_entry_mint c @ cp_fee_dest c"
| "fd_ix_pack FdFundPrizes = [1]"
| "fd_ix_pack (FdEnter n own) = [2] @ u32_le n @ own"
| "fd_ix_pack (FdCommitList root w n dep) = [3] @ root @ u64_le w @ u64_le n @ [dep]"
| "fd_ix_pack FdDraw = [4]"
| "fd_ix_pack (FdResolve mx xs) = [5, mx, of_nat (length xs)] @ concat (map put_proof xs)"
| "fd_ix_pack (FdClaim sl x) = [6] @ u16_le sl @ (case x of None \<Rightarrow> [0] | Some x \<Rightarrow> [1] @ put_proof x)"
| "fd_ix_pack FdAdvance = [7]"
| "fd_ix_pack FdReclaim = [8]"
| "fd_ix_pack FdClose = [9]"
| "fd_ix_pack FdCancel = [10]"
| "fd_ix_pack (FdProveEntry x) = [11] @ put_proof x"
| "fd_ix_pack FdCloseEntrant = [12]"
| "fd_ix_pack FdExtend = [13]"

section \<open>Program addresses\<close>

definition draw_address :: "runtime \<Rightarrow> key \<Rightarrow> key \<Rightarrow> u64 \<Rightarrow> key \<times> u8" where
  "draw_address rt pid organizer draw_id = find_program_address rt [DRAW_SEED, organizer, u64_le draw_id] pid"

definition fd_vault_address :: "runtime \<Rightarrow> key \<Rightarrow> key \<Rightarrow> key \<times> u8" where
  "fd_vault_address rt pid draw = find_program_address rt [FD_VAULT_SEED, draw] pid"

definition entrant_address :: "runtime \<Rightarrow> key \<Rightarrow> key \<Rightarrow> key \<Rightarrow> key \<times> u8" where
  "entrant_address rt pid draw own = find_program_address rt [ENTRANT_SEED, draw, own] pid"

section \<open>Builders\<close>

definition meta :: "key \<Rightarrow> bool \<Rightarrow> account_info" where
  "meta k sg = \<lparr>key = k, is_signer = sg, is_writable = True\<rparr>"

definition fd_meta_ro :: "key \<Rightarrow> bool \<Rightarrow> account_info" where
  "fd_meta_ro k sg = \<lparr>key = k, is_signer = sg, is_writable = False\<rparr>"

definition fd_ix :: "key \<Rightarrow> account_info list \<Rightarrow> draw_instruction \<Rightarrow> instruction" where
  "fd_ix pid accs i = \<lparr>ix_program = pid, ix_accounts = accs, ix_data = fd_ix_pack i\<rparr>"

definition spl :: "key \<Rightarrow> bool" where
  "spl m \<longleftrightarrow> m \<noteq> replicate 32 0"

definition b_create_draw :: "runtime \<Rightarrow> key \<Rightarrow> key \<Rightarrow> u64 \<Rightarrow> create_params \<Rightarrow> instruction" where
  "b_create_draw rt pid organizer draw_id c =
     (let draw = fst (draw_address rt pid organizer draw_id) in
      fd_ix pid ([meta organizer True, meta draw False, fd_meta_ro SYSTEM_ID False] @
        (if spl (cp_prize_mint c) then
           [meta (fst (fd_vault_address rt pid draw)) False, fd_meta_ro (cp_prize_mint c) False, fd_meta_ro FD_TOKEN_PROGRAM_ID False]
         else [])) (FdCreateDraw draw_id c))"

definition b_extend :: "key \<Rightarrow> key \<Rightarrow> key \<Rightarrow> instruction" where
  "b_extend pid payer draw = fd_ix pid [meta payer True, meta draw False, fd_meta_ro SYSTEM_ID False] FdExtend"

text \<open>The \<open>while have < full\<close> loop: one Extend per started step.\<close>

definition create_draw_with_extends :: "runtime \<Rightarrow> key \<Rightarrow> key \<Rightarrow> u64 \<Rightarrow> create_params \<Rightarrow> instruction list" where
  "create_draw_with_extends rt pid organizer draw_id c =
     (let prizes = sum_list (map (\<lambda>t. unat (tr_count t)) (cp_tiers c));
          cap = prizes * (1 + unat (cp_redraw_rounds c));
          full = draw_len (cp_mode c) cap;
          draw = fst (draw_address rt pid organizer draw_id);
          have0 = min full MAX_ALLOC_STEP in
      b_create_draw rt pid organizer draw_id c #
      replicate (div_ceil (full - have0) MAX_ALLOC_STEP) (b_extend pid organizer draw))"

definition b_fund_prizes :: "runtime \<Rightarrow> key \<Rightarrow> key \<Rightarrow> key \<Rightarrow> key option \<Rightarrow> instruction" where
  "b_fund_prizes rt pid funder draw funder_token =
     fd_ix pid ([meta funder True, meta draw False, fd_meta_ro SYSTEM_ID False] @
       (case funder_token of None \<Rightarrow> []
        | Some t \<Rightarrow> [meta t False, meta (fst (fd_vault_address rt pid draw)) False, fd_meta_ro FD_TOKEN_PROGRAM_ID False]))
       FdFundPrizes"

definition b_enter :: "runtime \<Rightarrow> key \<Rightarrow> key \<Rightarrow> key \<Rightarrow> key \<Rightarrow> u32 \<Rightarrow> key \<Rightarrow> key option \<Rightarrow> instruction" where
  "b_enter rt pid payer draw own n fee_dest payer_token =
     fd_ix pid ([meta payer True, meta draw False, fd_meta_ro SYSTEM_ID False,
        meta (fst (entrant_address rt pid draw own)) False, meta fee_dest False] @
       (case payer_token of None \<Rightarrow> [] | Some t \<Rightarrow> [meta t False, fd_meta_ro FD_TOKEN_PROGRAM_ID False]))
       (FdEnter n own)"

definition b_commit_list :: "key \<Rightarrow> key \<Rightarrow> key \<Rightarrow> bytes \<Rightarrow> u64 \<Rightarrow> u64 \<Rightarrow> u8 \<Rightarrow> instruction" where
  "b_commit_list pid organizer draw root total_weight leaf_count depth =
     fd_ix pid [fd_meta_ro organizer True, meta draw False] (FdCommitList root total_weight leaf_count depth)"

definition FD_SLOT_HASHES_ID :: key where
  "FD_SLOT_HASHES_ID =
    [6, 167, 213, 23, 25, 47, 10, 175, 198, 242, 101, 227, 251, 119, 204, 122,
     218, 130, 197, 41, 208, 190, 59, 19, 110, 45, 0, 85, 32, 0, 0, 0]"

definition b_draw_with_sysvar :: "key \<Rightarrow> key \<Rightarrow> key \<Rightarrow> instruction" where
  "b_draw_with_sysvar pid draw hashes = fd_ix pid [meta draw False, fd_meta_ro hashes False] FdDraw"

definition b_draw :: "key \<Rightarrow> key \<Rightarrow> instruction" where
  "b_draw pid draw = b_draw_with_sysvar pid draw FD_SLOT_HASHES_ID"

definition b_resolve :: "key \<Rightarrow> key \<Rightarrow> u8 \<Rightarrow> leaf_proof list \<Rightarrow> instruction" where
  "b_resolve pid draw mx xs = fd_ix pid [meta draw False] (FdResolve mx xs)"

definition b_claim :: "runtime \<Rightarrow> key \<Rightarrow> key \<Rightarrow> key \<Rightarrow> u16 \<Rightarrow> leaf_proof option \<Rightarrow> key option \<Rightarrow> instruction" where
  "b_claim rt pid winner draw sl x winner_token =
     fd_ix pid ([meta winner True, meta draw False] @
       (case winner_token of None \<Rightarrow> []
        | Some t \<Rightarrow> [meta t False, meta (fst (fd_vault_address rt pid draw)) False, fd_meta_ro FD_TOKEN_PROGRAM_ID False]))
       (FdClaim sl x)"

definition b_advance :: "key \<Rightarrow> key \<Rightarrow> instruction" where
  "b_advance pid draw = fd_ix pid [meta draw False] FdAdvance"

definition organizer_ix :: "runtime \<Rightarrow> key \<Rightarrow> key \<Rightarrow> key \<Rightarrow> key option \<Rightarrow> draw_instruction \<Rightarrow> instruction" where
  "organizer_ix rt pid organizer draw organizer_token i =
     fd_ix pid ([meta organizer True, meta draw False] @
       (case organizer_token of None \<Rightarrow> []
        | Some t \<Rightarrow> [meta t False, meta (fst (fd_vault_address rt pid draw)) False, fd_meta_ro FD_TOKEN_PROGRAM_ID False])) i"

definition b_reclaim :: "runtime \<Rightarrow> key \<Rightarrow> key \<Rightarrow> key \<Rightarrow> key option \<Rightarrow> instruction" where
  "b_reclaim rt pid organizer draw t = organizer_ix rt pid organizer draw t FdReclaim"

definition b_close :: "runtime \<Rightarrow> key \<Rightarrow> key \<Rightarrow> key \<Rightarrow> key option \<Rightarrow> instruction" where
  "b_close rt pid organizer draw t = organizer_ix rt pid organizer draw t FdClose"

definition b_cancel :: "runtime \<Rightarrow> key \<Rightarrow> key \<Rightarrow> key \<Rightarrow> key option \<Rightarrow> instruction" where
  "b_cancel rt pid organizer draw t = organizer_ix rt pid organizer draw t FdCancel"

definition b_prove_entry :: "key \<Rightarrow> key \<Rightarrow> leaf_proof \<Rightarrow> instruction" where
  "b_prove_entry pid draw x = fd_ix pid [fd_meta_ro draw False] (FdProveEntry x)"

definition b_close_entrant :: "runtime \<Rightarrow> key \<Rightarrow> key \<Rightarrow> key \<Rightarrow> instruction" where
  "b_close_entrant rt pid own draw =
     fd_ix pid [meta own True, fd_meta_ro draw False, meta (fst (entrant_address rt pid draw own)) False] FdCloseEntrant"

end
