(* ===== verification/FdProcess.thy ===== *)
theory FdProcess
  imports FdWire FdStream FdCommon
begin

text \<open>
  The handlers of \<open>null_fair_draw\<close> (\<open>programs/null_fair_draw/src/processor.rs\<close>), whole and in the
  order of the source. The store is explicit, so an account passed twice behaves as on the cluster;
  log records are left out. A slot table of the draw account is read and written in place.
\<close>

definition MIN_CLAIM_WINDOW_SLOTS :: u64 where [simp]: "MIN_CLAIM_WINDOW_SLOTS = 150"
definition MAX_CLAIM_WINDOW_SLOTS :: u64 where [simp]: "MAX_CLAIM_WINDOW_SLOTS = 1512000"
definition MAX_ENTRIES_PER_IX :: u32 where [simp]: "MAX_ENTRIES_PER_IX = 8"
definition MAX_RESOLVE_PER_IX :: u8 where [simp]: "MAX_RESOLVE_PER_IX = 24"
definition MAX_OPEN_LEAVES :: u64 where [simp]: "MAX_OPEN_LEAVES = 1048576"

definition SYSVAR_ID :: key where
  "SYSVAR_ID =
    [6, 167, 213, 23, 24, 117, 247, 41, 199, 61, 147, 64, 143, 33, 97, 32,
     6, 126, 216, 140, 118, 224, 140, 40, 127, 193, 148, 96, 0, 0, 0, 0]"

section \<open>Helpers\<close>

definition fd_add :: "u64 \<Rightarrow> u64 \<Rightarrow> u64 res" where
  "fd_add a b = ok_or (checked_add a b) (fd_err DfMathOverflow)"

definition fd_sub :: "u64 \<Rightarrow> u64 \<Rightarrow> u64 res" where
  "fd_sub a b = ok_or (checked_sub a b) (fd_err DfMathOverflow)"

definition require_signer :: "account_info \<Rightarrow> unit res" where
  "require_signer ai = (if is_signer ai then Inr () else Inl MissingRequiredSignature)"

definition require_system :: "account_info \<Rightarrow> unit res" where
  "require_system ai = (if key ai = SYSTEM_ID then Inr () else fd_fail DfInvalidAccount)"

definition require_token_program :: "account_info \<Rightarrow> unit res" where
  "require_token_program ai = (if key ai = FD_TOKEN_PROGRAM_ID then Inr () else fd_fail DfInvalidAccount)"

definition load_draw :: "runtime \<Rightarrow> key \<Rightarrow> account_info \<Rightarrow> store \<Rightarrow> fair_draw res" where
  "load_draw rt pid ai s =
     (if owner (s (key ai)) \<noteq> pid then fd_fail DfInvalidAccount
      else bindE (ok_or (fd_unpack (data (s (key ai)))) (fd_err DfInvalidAccount)) (\<lambda>d.
      bindE (ok_or (create_program_address rt [DRAW_SEED, fd_organizer d, u64_le (fd_draw_id d), [fd_bump d]] pid)
               (fd_err DfInvalidAccount)) (\<lambda>expected.
      if expected \<noteq> key ai then fd_fail DfInvalidAccount else Inr d)))"

definition store_draw :: "account_info \<Rightarrow> fair_draw \<Rightarrow> store \<Rightarrow> store res" where
  "store_draw ai d s = bindE (fd_pack d (data (s (key ai)))) (\<lambda>b. Inr (set_data s (key ai) b))"

definition check_vault :: "runtime \<Rightarrow> key \<Rightarrow> key \<Rightarrow> fair_draw \<Rightarrow> account_info \<Rightarrow> store \<Rightarrow> token_account res" where
  "check_vault rt pid draw_key d ai s =
     bindE (ok_or (create_program_address rt [FD_VAULT_SEED, draw_key, [fd_vault_bump d]] pid) (fd_err DfInvalidAccount)) (\<lambda>expected.
     if expected \<noteq> key ai then fd_fail DfInvalidAccount
     else bindE (ok_or (read_account s ai) (fd_err DfInvalidTokenAccount)) (\<lambda>t.
     if ta_mint t \<noteq> fd_prize_mint d \<or> ta_owner t \<noteq> draw_key then fd_fail DfInvalidTokenAccount else Inr t))"

definition assert_solvent :: "runtime \<Rightarrow> account_info \<Rightarrow> fair_draw \<Rightarrow> account_info option \<Rightarrow> store \<Rightarrow> unit res" where
  "assert_solvent rt draw_ai d vault s =
     (let rent = minimum_balance rt (length (data (s (key draw_ai)))) in
      bindE (ok_or (outstanding d) (fd_err DfMathOverflow)) (\<lambda>out.
      if is_sol_prize d then
        bindE (fd_add rent out) (\<lambda>need. if lamports (s (key draw_ai)) < need then fd_fail DfInsolvent else Inr ())
      else if lamports (s (key draw_ai)) < rent then fd_fail DfInsolvent
      else case vault of None \<Rightarrow> Inr ()
        | Some v \<Rightarrow> bindE (ok_or (read_account s v) (fd_err DfInvalidTokenAccount)) (\<lambda>t.
            if ta_amount t < out then fd_fail DfInsolvent else Inr ())))"

definition debit :: "account_info \<Rightarrow> account_info \<Rightarrow> u64 \<Rightarrow> store \<Rightarrow> store res" where
  "debit fr to amount s =
     bindE (ok_or (checked_sub (lamports (s (key fr))) amount) (fd_err DfInsolvent)) (\<lambda>f.
     bindE (ok_or (checked_add (lamports (s (key to))) amount) (fd_err DfMathOverflow)) (\<lambda>t.
     Inr (set_lamports (set_lamports s (key fr) f) (key to) t)))"

text \<open>
  \<open>AccountInfo::realloc\<close> and \<open>assign\<close>. No handler changes the length of an account twice, so the
  current length is the one at the start of the instruction.
\<close>

definition fd_realloc :: "key \<Rightarrow> nat \<Rightarrow> store \<Rightarrow> store res" where
  "fd_realloc k n s =
     (let d = data (s k) in
      if MAX_PERMITTED_DATA_INCREASE < n - length d then Inl InvalidRealloc
      else Inr (set_data s k (take n d @ replicate (n - length d) 0)))"

definition close_into :: "account_info \<Rightarrow> account_info \<Rightarrow> store \<Rightarrow> store res" where
  "close_into acct to s =
     bindE (debit acct to (lamports (s (key acct))) s) (\<lambda>s.
     bindE (fd_realloc (key acct) 0 s) (\<lambda>s.
     Inr (set_owner s (key acct) SYSTEM_ID)))"

definition draw_seeds :: "fair_draw \<Rightarrow> bytes list" where
  "draw_seeds d = [DRAW_SEED, fd_organizer d, u64_le (fd_draw_id d), [fd_bump d]]"

definition pay_prize ::
  "runtime \<Rightarrow> fair_draw \<Rightarrow> account_info \<Rightarrow> account_info \<Rightarrow> (account_info \<times> account_info) option \<Rightarrow> u64 \<Rightarrow> store \<Rightarrow> store res" where
  "pay_prize rt d draw_ai dest splv amount s =
     (if amount = 0 then Inr s
      else case splv of None \<Rightarrow> debit draw_ai dest amount s
        | Some (vault, token_program) \<Rightarrow>
            invoke_signed rt (ProgramCpi (fd_transfer (key vault) (key dest) (key draw_ai) amount))
              [vault, dest, draw_ai, token_program] [draw_seeds d] s)"

definition tier_amount :: "fair_draw \<Rightarrow> u8 \<Rightarrow> u64 res" where
  "tier_amount d t =
     ok_or (case get_at (fd_tiers d) (unat t) of None \<Rightarrow> None | Some x \<Rightarrow> Some (tr_amount x)) (fd_err DfInvalidAccount)"

fun tier_sums :: "tier list \<Rightarrow> u64 \<Rightarrow> u64 \<Rightarrow> (u64 \<times> u64) option" where
  "tier_sums [] prizes tot = Some (prizes, tot)"
| "tier_sums (t # ts) prizes tot =
     (if tr_count t = 0 \<or> tr_amount t = 0 then None
      else case checked_add prizes (ucast (tr_count t)) of None \<Rightarrow> None
        | Some prizes \<Rightarrow> (case checked_mul (ucast (tr_count t)) (tr_amount t) of None \<Rightarrow> None
          | Some m \<Rightarrow> (case checked_add tot m of None \<Rightarrow> None | Some tot \<Rightarrow> tier_sums ts prizes tot)))"

definition validate_create :: "create_params \<Rightarrow> u64 \<Rightarrow> (u64 \<times> nat) option" where
  "validate_create p now =
     (if MODE_LIST < cp_mode p \<or> MAX_REDRAW_ROUNDS < cp_redraw_rounds p \<or> cp_tiers p = [] \<or>
         MAX_TIERS < length (cp_tiers p) \<or> cp_claim_window_slots p < MIN_CLAIM_WINDOW_SLOTS \<or>
         MAX_CLAIM_WINDOW_SLOTS < cp_claim_window_slots p then None
      else if cp_mode p = MODE_OPEN \<and> cp_close_slot p \<le> now then None
      else if cp_mode p \<noteq> MODE_OPEN \<and> (cp_entry_price p \<noteq> 0 \<or> cp_wallet_cap p \<noteq> 0 \<or> cp_close_slot p \<noteq> 0 \<or>
         cp_entry_mint p \<noteq> replicate 32 0) then None
      else case tier_sums (cp_tiers p) 0 0 of None \<Rightarrow> None
        | Some (prizes, tot) \<Rightarrow> (case checked_mul prizes (1 + ucast (cp_redraw_rounds p)) of None \<Rightarrow> None
          | Some capacity \<Rightarrow> if of_nat MAX_SLOTS < capacity then None else Some (tot, unat capacity)))"

section \<open>CreateDraw\<close>

definition create_vault ::
  "runtime \<Rightarrow> key \<Rightarrow> account_info \<Rightarrow> account_info \<Rightarrow> account_info \<Rightarrow> create_params \<Rightarrow> account_info list \<Rightarrow> store \<Rightarrow> (u8 \<times> store) res" where
  "create_vault rt pid organizer draw_ai system p it s =
     (if cp_prize_mint p = replicate 32 0 then Inr (0, s)
      else
        bindE (next_account_info it) (\<lambda>(vault, it).
        bindE (next_account_info it) (\<lambda>(mint, it).
        bindE (next_account_info it) (\<lambda>(token_program, it).
        bindE (require_token_program token_program) (\<lambda>_.
        if key mint \<noteq> cp_prize_mint p \<or> owner (s (key mint)) \<noteq> FD_TOKEN_PROGRAM_ID then fd_fail DfInvalidTokenAccount
        else let (vk, vb) = find_program_address rt [FD_VAULT_SEED, key draw_ai] pid in
        if vk \<noteq> key vault then fd_fail DfInvalidAccount
        else
        bindE (fd_create_pda rt organizer vault system FD_TOKEN_PROGRAM_ID FD_ACCOUNT_LEN [FD_VAULT_SEED, key draw_ai, [vb]]
                 (fd_err DfAccountInUse) s) (\<lambda>s.
        bindE (invoke rt (ProgramCpi (fd_initialize_account3 (key vault) (key mint) (key draw_ai)))
                 [vault, mint, token_program] s) (\<lambda>s.
        Inr (vb, s))))))))"

definition new_draw :: "runtime \<Rightarrow> key \<Rightarrow> u64 \<Rightarrow> u8 \<Rightarrow> u8 \<Rightarrow> create_params \<Rightarrow> u64 \<Rightarrow> nat \<Rightarrow> round_info list \<Rightarrow> fair_draw" where
  "new_draw rt organizer draw_id bump vault_bump p total_prize capacity rounds =
     \<lparr>fd_organizer = organizer, fd_draw_id = draw_id, fd_bump = bump, fd_vault_bump = vault_bump, fd_mode = cp_mode p,
      fd_weighted = cp_weighted p, fd_status = STATUS_CREATED, fd_round = 0, fd_redraw_rounds = cp_redraw_rounds p,
      fd_tier_count = of_nat (length (cp_tiers p)),
      fd_depth = (if cp_mode p = MODE_OPEN then of_nat OPEN_DEPTH else 0), fd_won_count = 0,
      fd_prize_mint = cp_prize_mint p, fd_entry_mint = cp_entry_mint p, fd_fee_dest = cp_fee_dest p,
      fd_entry_price = cp_entry_price p, fd_wallet_cap = cp_wallet_cap p, fd_close_slot = cp_close_slot p,
      fd_claim_window_slots = cp_claim_window_slots p,
      fd_tiers = cp_tiers p @ replicate (MAX_TIERS - length (cp_tiers p)) default_tier,
      fd_total_prize = total_prize, fd_funded = 0, fd_paid = 0, fd_returned = 0, fd_refundable = 0,
      fd_root = (if cp_mode p = MODE_OPEN then zeros rt OPEN_DEPTH else replicate 32 0),
      fd_total_weight = 0, fd_leaf_count = 0, fd_commit_slot = 0, fd_won_weight = 0, fd_capacity = of_nat capacity,
      fd_slot_count = of_nat (capacity div (1 + unat (cp_redraw_rounds p))), fd_next_slot = 0,
      fd_round_first_slot = 0, fd_window_end = 0, fd_rounds = rounds\<rparr>"

definition fd_create_draw ::
  "runtime \<Rightarrow> key \<Rightarrow> account_info list \<Rightarrow> u64 \<Rightarrow> create_params \<Rightarrow> store \<Rightarrow> store res" where
  "fd_create_draw rt pid accounts draw_id p s =
     bindE (next_account_info accounts) (\<lambda>(organizer, it).
     bindE (next_account_info it) (\<lambda>(draw_ai, it).
     bindE (next_account_info it) (\<lambda>(system, it).
     bindE (require_signer organizer) (\<lambda>_.
     bindE (require_system system) (\<lambda>_.
     let now = clock_slot rt in
     bindE (ok_or (validate_create p now) (fd_err DfInvalidParams)) (\<lambda>(total_prize, capacity).
     let (expected, bump) = draw_address rt pid (key organizer) draw_id in
     if expected \<noteq> key draw_ai then fd_fail DfInvalidAccount
     else let len = min (draw_len (cp_mode p) capacity) MAX_ALLOC_STEP in
     bindE (fd_create_pda rt organizer draw_ai system pid len [DRAW_SEED, key organizer, u64_le draw_id, [bump]]
              (fd_err DfAccountInUse) s) (\<lambda>s.
     bindE (create_vault rt pid organizer draw_ai system p it s) (\<lambda>(vault_bump, s).
     bindE (if cp_mode p = MODE_OPEN then
              bindE (ok_or (first_target (cp_close_slot p)) (fd_err DfMathOverflow)) (\<lambda>t0.
              Inr (default_round\<lparr>ri_first_target := t0\<rparr> # replicate 3 default_round))
            else Inr (replicate MAX_ROUNDS default_round)) (\<lambda>rounds.
     let d = new_draw rt (key organizer) draw_id bump vault_bump p total_prize capacity rounds in
     bindE (store_draw draw_ai d s) (\<lambda>s.
     bindE (assert_solvent rt draw_ai d None s) (\<lambda>_. Inr s)))))))))))"

section \<open>FundPrizes\<close>

text \<open>The tier of every round-0 slot, in order.\<close>

definition slot_tiers :: "fair_draw \<Rightarrow> nat list" where
  "slot_tiers d = concat (map (\<lambda>ti. replicate (unat (tr_count (fd_tiers d ! ti))) ti) [0..<unat (fd_tier_count d)])"

definition write_slots :: "fair_draw \<Rightarrow> (nat \<times> draw_slot) list \<Rightarrow> bytes \<Rightarrow> bytes res" where
  "write_slots d = foldE (\<lambda>(j, sl) b. write_slot d b j sl)"

definition pending_slot :: "u8 \<Rightarrow> u8 \<Rightarrow> draw_slot" where
  "pending_slot t rnd = default_slot\<lparr>sl_tier := t, sl_status := SLOT_PENDING, sl_round := rnd\<rparr>"

definition fd_fund_prizes :: "runtime \<Rightarrow> key \<Rightarrow> account_info list \<Rightarrow> store \<Rightarrow> store res" where
  "fd_fund_prizes rt pid accounts s =
     bindE (next_account_info accounts) (\<lambda>(funder, it).
     bindE (next_account_info it) (\<lambda>(draw_ai, it).
     bindE (next_account_info it) (\<lambda>(system, it).
     bindE (require_signer funder) (\<lambda>_.
     bindE (require_system system) (\<lambda>_.
     bindE (load_draw rt pid draw_ai s) (\<lambda>d.
     if fd_status d \<noteq> STATUS_CREATED then fd_fail DfWrongStatus
     else if length (data (s (key draw_ai))) \<noteq> fd_len d then fd_fail DfAccountNotExtended
     else let amount = fd_total_prize d in
     bindE (if is_sol_prize d then
              bindE (invoke rt (SystemCpi (Transfer (key funder) (key draw_ai) amount)) [funder, draw_ai, system] s)
                (\<lambda>s. Inr (None, s))
            else
              bindE (next_account_info it) (\<lambda>(funder_token, it).
              bindE (next_account_info it) (\<lambda>(vault, it).
              bindE (next_account_info it) (\<lambda>(token_program, it).
              bindE (require_token_program token_program) (\<lambda>_.
              bindE (check_vault rt pid (key draw_ai) d vault s) (\<lambda>_.
              bindE (invoke rt (ProgramCpi (fd_transfer (key funder_token) (key vault) (key funder) amount))
                       [funder_token, vault, funder, token_program] s) (\<lambda>s.
              Inr (Some vault, s)))))))) (\<lambda>(vault_ai, s).
     let d = d\<lparr>fd_funded := amount, fd_status := STATUS_FUNDED\<rparr> in
     bindE (fd_pack d (data (s (key draw_ai)))) (\<lambda>b.
     if length (fd_tiers d) < unat (fd_tier_count d) then Inl Panic
     else
     bindE (write_slots d (map (\<lambda>(j, ti). (j, pending_slot (of_nat ti) 0)) (enumerate 0 (slot_tiers d))) b) (\<lambda>b.
     let s = set_data s (key draw_ai) b in
     bindE (assert_solvent rt draw_ai d vault_ai s) (\<lambda>_. Inr s))))))))))"


section \<open>Enter\<close>

definition enter_cap ::
  "runtime \<Rightarrow> key \<Rightarrow> fair_draw \<Rightarrow> account_info \<Rightarrow> account_info \<Rightarrow> account_info \<Rightarrow> account_info \<Rightarrow> u32 \<Rightarrow> key \<Rightarrow> store \<Rightarrow> store res" where
  "enter_cap rt pid d payer draw_ai system entrant_ai cnt own s =
     (if \<not> 0 < fd_wallet_cap d then Inr s
      else let (ek, eb) = find_program_address rt [ENTRANT_SEED, key draw_ai, own] pid in
      if ek \<noteq> key entrant_ai then fd_fail DfInvalidAccount
      else
        bindE (if owner (s (key entrant_ai)) = pid then
                 bindE (ok_or (entrant_unpack (data (s (key entrant_ai)))) (fd_err DfInvalidAccount)) (\<lambda>r.
                 if en_draw r \<noteq> key draw_ai \<or> en_owner r \<noteq> own then fd_fail DfInvalidAccount else Inr (r, s))
               else
                 bindE (fd_create_pda rt payer entrant_ai system pid ENTRANT_LEN [ENTRANT_SEED, key draw_ai, own, [eb]]
                          (fd_err DfAccountInUse) s) (\<lambda>s.
                 Inr (\<lparr>en_draw = key draw_ai, en_owner = own, en_count = 0, en_bump = eb\<rparr>, s))) (\<lambda>(r, s).
        bindE (fd_add (en_count r) (ucast cnt)) (\<lambda>n.
        if fd_wallet_cap d < n then fd_fail DfWalletCapExceeded
        else bindE (entrant_pack (r\<lparr>en_count := n\<rparr>) (data (s (key entrant_ai)))) (\<lambda>b.
             Inr (set_data s (key entrant_ai) b)))))"

definition enter_fee ::
  "runtime \<Rightarrow> fair_draw \<Rightarrow> account_info \<Rightarrow> account_info \<Rightarrow> account_info \<Rightarrow> u64 \<Rightarrow> account_info list \<Rightarrow> store \<Rightarrow> store res" where
  "enter_fee rt d payer system fee_dest price it s =
     (if \<not> 0 < price then Inr s
      else if is_sol_entry d then
        invoke rt (SystemCpi (Transfer (key payer) (key fee_dest) price)) [payer, fee_dest, system] s
      else
        bindE (next_account_info it) (\<lambda>(payer_token, it).
        bindE (next_account_info it) (\<lambda>(token_program, it).
        bindE (require_token_program token_program) (\<lambda>_.
        bindE (ok_or (read_account s payer_token) (fd_err DfInvalidTokenAccount)) (\<lambda>t.
        if ta_mint t \<noteq> fd_entry_mint d then fd_fail DfInvalidTokenAccount
        else invoke rt (ProgramCpi (fd_transfer (key payer_token) (key fee_dest) (key payer) price))
               [payer_token, fee_dest, payer, token_program] s)))))"

text \<open>One round of the append loop, on the header and the account bytes.\<close>

definition enter_leaf :: "runtime \<Rightarrow> bytes \<Rightarrow> u64 \<Rightarrow> fair_draw \<times> bytes \<Rightarrow> (fair_draw \<times> bytes) res" where
  "enter_leaf rt leaf weight db =
     (let (d, b) = db; f = frontier_offset d; index = fd_leaf_count d in
      bindE (rd_slice b f FRONTIER_LEN) (\<lambda>filled.
      bindE (ok_or (tree_append rt filled index (leaf, weight)) (fd_err DfMathOverflow)) (\<lambda>(filled, root).
      bindE (wr_slice b f FRONTIER_LEN filled) (\<lambda>b.
      bindE (fd_add (fd_total_weight d) weight) (\<lambda>tot.
      bindE (fd_add index 1) (\<lambda>n.
      Inr (d\<lparr>fd_root := fst root, fd_total_weight := tot, fd_leaf_count := n\<rparr>, b)))))))"

definition fd_enter :: "runtime \<Rightarrow> key \<Rightarrow> account_info list \<Rightarrow> u32 \<Rightarrow> key \<Rightarrow> store \<Rightarrow> store res" where
  "fd_enter rt pid accounts cnt own s =
     bindE (next_account_info accounts) (\<lambda>(payer, it).
     bindE (next_account_info it) (\<lambda>(draw_ai, it).
     bindE (next_account_info it) (\<lambda>(system, it).
     bindE (next_account_info it) (\<lambda>(entrant_ai, it).
     bindE (next_account_info it) (\<lambda>(fee_dest, it).
     bindE (require_signer payer) (\<lambda>_.
     bindE (require_system system) (\<lambda>_.
     bindE (load_draw rt pid draw_ai s) (\<lambda>d.
     if fd_mode d \<noteq> MODE_OPEN \<or> fd_status d \<noteq> STATUS_FUNDED then fd_fail DfWrongStatus
     else if fd_close_slot d \<le> clock_slot rt then fd_fail DfEntriesClosed
     else if cnt = 0 then fd_fail DfZeroWeight
     else
     bindE (ok_or (checked_mul (fd_entry_price d) (ucast cnt)) (fd_err DfMathOverflow)) (\<lambda>price.
     if 0 < price \<and> key fee_dest \<noteq> fd_fee_dest d then fd_fail DfInvalidAccount
     else if \<not> fd_weighted d \<and> MAX_ENTRIES_PER_IX < cnt then fd_fail DfInvalidParams
     else let leaves = (if fd_weighted d then 1 else ucast cnt) in
     bindE (fd_add (fd_leaf_count d) leaves) (\<lambda>n.
     if MAX_OPEN_LEAVES < n then fd_fail DfTreeFull
     else
     bindE (enter_cap rt pid d payer draw_ai system entrant_ai cnt own s) (\<lambda>s.
     bindE (enter_fee rt d payer system fee_dest price it s) (\<lambda>s.
     let weight = (if fd_weighted d then ucast cnt else 1); leaf = entry_leaf rt (key draw_ai) own weight in
     bindE (foldE (\<lambda>_. enter_leaf rt leaf weight) [0..<unat (leaves :: u64)] (d, data (s (key draw_ai)))) (\<lambda>(d, b).
     bindE (fd_pack d b) (\<lambda>b. Inr (set_data s (key draw_ai) b)))))))))))))))"

section \<open>CommitList\<close>

definition fd_commit_list ::
  "runtime \<Rightarrow> key \<Rightarrow> account_info list \<Rightarrow> bytes \<Rightarrow> u64 \<Rightarrow> u64 \<Rightarrow> u8 \<Rightarrow> store \<Rightarrow> store res" where
  "fd_commit_list rt pid accounts root total_weight leaf_count depth s =
     bindE (next_account_info accounts) (\<lambda>(organizer, it).
     bindE (next_account_info it) (\<lambda>(draw_ai, it).
     bindE (require_signer organizer) (\<lambda>_.
     bindE (load_draw rt pid draw_ai s) (\<lambda>d.
     if key organizer \<noteq> fd_organizer d then fd_fail DfNotOrganizer
     else if fd_mode d \<noteq> MODE_LIST \<or> fd_status d \<noteq> STATUS_FUNDED then fd_fail DfWrongStatus
     else if depth = 0 \<or> MAX_LIST_DEPTH < unat depth \<or> leaf_count = 0 \<or> push_bit (unat depth) 1 < leaf_count \<or>
        total_weight = 0 \<or> (\<not> fd_weighted d \<and> total_weight \<noteq> leaf_count) then fd_fail DfInvalidParams
     else let now = clock_slot rt in
     bindE (ok_or (first_target now) (fd_err DfMathOverflow)) (\<lambda>t0.
     if fd_rounds d = [] then Inl Panic
     else store_draw draw_ai (d\<lparr>fd_root := root, fd_total_weight := total_weight, fd_leaf_count := leaf_count,
       fd_depth := depth, fd_commit_slot := now, fd_rounds := (fd_rounds d)[0 := (fd_rounds d ! 0)\<lparr>ri_first_target := t0\<rparr>],
       fd_status := STATUS_AWAIT_DRAW\<rparr>) s)))))"

section \<open>Draw\<close>

fun select_err :: "select_error \<Rightarrow> perr" where
  "select_err SelMalformed = fd_err DfInvalidSysvar"
| "select_err SelTooEarly = fd_err DfDrawTooEarly"
| "select_err SelOverflow = fd_err DfMathOverflow"

definition void_slots :: "fair_draw \<Rightarrow> bytes \<Rightarrow> bytes res" where
  "void_slots d b =
     foldE (\<lambda>j b. bindE (read_slot d b j) (\<lambda>sl. write_slot d b j (sl\<lparr>sl_status := SLOT_VOID\<rparr>)))
       [0..<unat (fd_slot_count d)] b"

definition draw_empty :: "account_info \<Rightarrow> fair_draw \<Rightarrow> store \<Rightarrow> store res" where
  "draw_empty draw_ai d s =
     bindE (void_slots d (data (s (key draw_ai)))) (\<lambda>b.
     bindE (fd_pack (d\<lparr>fd_next_slot := fd_slot_count d, fd_refundable := fd_total_prize d,
        fd_status := STATUS_COMPLETE\<rparr>) b) (\<lambda>b.
     Inr (set_data s (key draw_ai) b)))"

definition fix_seed :: "runtime \<Rightarrow> account_info \<Rightarrow> account_info \<Rightarrow> fair_draw \<Rightarrow> store \<Rightarrow> store res" where
  "fix_seed rt draw_ai hashes_ai d s =
     (let r = unat (fd_round d) in
      if length (fd_rounds d) \<le> r then Inl Panic
      else let t0 = ri_first_target (fd_rounds d ! r) in
      bindE (case select (data (s (key hashes_ai))) t0 of Inl e \<Rightarrow> Inl (select_err e) | Inr sel \<Rightarrow> Inr sel) (\<lambda>sel.
      let sd = round_seed rt (key draw_ai) (fd_round d) (se_target_slot sel) (se_used_slot sel) (se_hash sel)
                 (fd_root d) (fd_total_weight d) (fd_leaf_count d) in
      store_draw draw_ai (d\<lparr>fd_rounds := (fd_rounds d)[r := \<lparr>ri_first_target = t0, ri_target_slot = se_target_slot sel,
          ri_used_slot = se_used_slot sel, ri_attempt = se_attempt sel, ri_slot_hash = se_hash sel, ri_seed = sd\<rparr>],
        fd_status := STATUS_RESOLVING\<rparr>) s))"

definition fd_draw_ix :: "runtime \<Rightarrow> key \<Rightarrow> account_info list \<Rightarrow> store \<Rightarrow> store res" where
  "fd_draw_ix rt pid accounts s =
     bindE (next_account_info accounts) (\<lambda>(draw_ai, it).
     bindE (next_account_info it) (\<lambda>(hashes_ai, it).
     if key hashes_ai \<noteq> FD_SLOT_HASHES_ID \<or> owner (s (key hashes_ai)) \<noteq> SYSVAR_ID then fd_fail DfInvalidSysvar
     else
     bindE (load_draw rt pid draw_ai s) (\<lambda>d.
     if fd_status d = STATUS_FUNDED \<and> fd_mode d = MODE_OPEN then
       if clock_slot rt < fd_close_slot d then fd_fail DfEntriesOpen
       else if fd_leaf_count d = 0 then draw_empty draw_ai d s
       else fix_seed rt draw_ai hashes_ai d s
     else if fd_status d = STATUS_AWAIT_DRAW then fix_seed rt draw_ai hashes_ai d s
     else fd_fail DfWrongStatus)))"

section \<open>Resolve\<close>

text \<open>\<open>remap\<close> over the won table of the account, reading it lazily.\<close>

fun remap_won :: "fair_draw \<Rightarrow> bytes \<Rightarrow> nat list \<Rightarrow> u64 \<Rightarrow> u64 option res" where
  "remap_won d b [] p = Inr (Some p)"
| "remap_won d b (k # ks) p =
     bindE (won_at d b k) (\<lambda>(start, weight).
     if start \<le> p then (case checked_add p weight of None \<Rightarrow> Inr None | Some q \<Rightarrow> remap_won d b ks q)
     else Inr (Some p))"

text \<open>A proof of the next winner: the drawn point must be in the leaf's interval.\<close>

definition check_winner ::
  "runtime \<Rightarrow> key \<Rightarrow> fair_draw \<Rightarrow> u64 \<Rightarrow> leaf_proof \<Rightarrow> draw_slot \<Rightarrow> draw_slot res" where
  "check_winner rt draw_key d p pr sl =
     (if length (lp_path pr) \<noteq> unat (fd_depth d) * TREE_PAIR_LEN then fd_fail DfInvalidProof
      else if lp_weight pr = 0 then fd_fail DfZeroWeight
      else let leaf = entry_leaf rt draw_key (lp_wallet pr) (lp_weight pr) in
      bindE (ok_or (tree_verify rt (fd_root d) (fd_total_weight d) (unat (fd_depth d)) (fd_leaf_count d)
               (lp_leaf_index pr) leaf (lp_weight pr) (lp_path pr)) (fd_err DfInvalidProof)) (\<lambda>start.
      if p < start \<or> lp_weight pr \<le> p - start then fd_fail DfPointNotInLeaf
      else Inr (sl\<lparr>sl_start := start, sl_weight := lp_weight pr, sl_leaf_index := lp_leaf_index pr,
                   sl_wallet := lp_wallet pr\<rparr>)))"

definition void_slot :: "fair_draw \<Rightarrow> bytes \<Rightarrow> nat \<Rightarrow> draw_slot \<Rightarrow> (fair_draw \<times> bytes) res" where
  "void_slot d b j sl =
     bindE (write_slot d b j (sl\<lparr>sl_status := SLOT_VOID\<rparr>)) (\<lambda>b.
     bindE (tier_amount d (sl_tier sl)) (\<lambda>a.
     bindE (fd_add (fd_refundable d) a) (\<lambda>r.
     Inr (d\<lparr>fd_refundable := r, fd_next_slot := fd_next_slot d + 1\<rparr>, b))))"

definition win_slot :: "fair_draw \<Rightarrow> bytes \<Rightarrow> nat \<Rightarrow> draw_slot \<Rightarrow> (fair_draw \<times> bytes) res" where
  "win_slot d b j sl =
     bindE (write_slot d b j (sl\<lparr>sl_status := SLOT_WON\<rparr>)) (\<lambda>b.
     bindE (won_insert d b (sl_start sl) (sl_weight sl)) (\<lambda>(d, b).
     bindE (fd_add (fd_won_weight d) (sl_weight sl)) (\<lambda>w.
     Inr (d\<lparr>fd_won_weight := w, fd_next_slot := fd_next_slot d + 1\<rparr>, b))))"

text \<open>
  The resolve loop. The budget \<open>n\<close> is \<open>max - done\<close>, so it also bounds the rounds; \<open>first\<close> says that
  no slot was processed yet. The result is the header, the bytes and the unused proofs.
\<close>

fun resolve_loop ::
  "runtime \<Rightarrow> key \<Rightarrow> bytes \<Rightarrow> nat \<Rightarrow> bool \<Rightarrow> leaf_proof list \<Rightarrow> fair_draw \<Rightarrow> bytes \<Rightarrow> (fair_draw \<times> bytes \<times> leaf_proof list) res" where
  "resolve_loop rt draw_key sd 0 first prs d b = Inr (d, b, prs)"
| "resolve_loop rt draw_key sd (Suc n) first prs d b =
     (if \<not> fd_next_slot d < fd_slot_count d then Inr (d, b, prs)
      else let j = unat (fd_next_slot d) in
      bindE (read_slot d b j) (\<lambda>sl.
      bindE (fd_sub (fd_total_weight d) (fd_won_weight d)) (\<lambda>remaining.
      if remaining = 0 then
        bindE (void_slot d b j sl) (\<lambda>(d, b). resolve_loop rt draw_key sd n False prs d b)
      else
        bindE (stream_point rt sd (of_nat j) remaining) (\<lambda>u.
        bindE (remap_won d b [0..<unat (fd_won_count d)] u) (\<lambda>q.
        bindE (ok_or q (fd_err DfMathOverflow)) (\<lambda>p.
        if fd_weighted d then
          (case prs of [] \<Rightarrow> if first then fd_fail DfMissingProof else Inr (d, b, [])
           | pr # prs \<Rightarrow>
               bindE (check_winner rt draw_key d p pr sl) (\<lambda>sl.
               bindE (win_slot d b j sl) (\<lambda>(d, b). resolve_loop rt draw_key sd n False prs d b)))
        else
          bindE (win_slot d b j (sl\<lparr>sl_start := p, sl_weight := 1, sl_leaf_index := p, sl_wallet := replicate 32 0\<rparr>))
            (\<lambda>(d, b). resolve_loop rt draw_key sd n False prs d b)))))))"

definition fd_resolve :: "runtime \<Rightarrow> key \<Rightarrow> account_info list \<Rightarrow> u8 \<Rightarrow> leaf_proof list \<Rightarrow> store \<Rightarrow> store res" where
  "fd_resolve rt pid accounts mx prs s =
     bindE (next_account_info accounts) (\<lambda>(draw_ai, it).
     bindE (load_draw rt pid draw_ai s) (\<lambda>d.
     if fd_status d \<noteq> STATUS_RESOLVING then fd_fail DfWrongStatus
     else if fd_slot_count d \<le> fd_next_slot d then fd_fail DfNothingToResolve
     else let mx = (if mx = 0 \<or> MAX_RESOLVE_PER_IX < mx then MAX_RESOLVE_PER_IX else mx) in
     if length (fd_rounds d) \<le> unat (fd_round d) then Inl Panic
     else let sd = ri_seed (fd_rounds d ! unat (fd_round d)) in
     bindE (resolve_loop rt (key draw_ai) sd (unat mx) True prs d (data (s (key draw_ai)))) (\<lambda>(d, b, prs).
     if prs \<noteq> [] then fd_fail DfInvalidInstruction
     else
     bindE (if fd_next_slot d = fd_slot_count d then
              bindE (fd_add (clock_slot rt) (fd_claim_window_slots d)) (\<lambda>e. Inr (d\<lparr>fd_window_end := e\<rparr>))
            else Inr d) (\<lambda>d.
     bindE (fd_pack d b) (\<lambda>b. Inr (set_data s (key draw_ai) b))))))"

end
