(* ===== verification/FdProcess2.thy ===== *)
theory FdProcess2
  imports FdProcess
begin

text \<open>
  The handlers of \<open>null_fair_draw\<close> after the draw (\<open>processor.rs\<close>): claiming, advancing to the next
  round, reclaiming, closing, the participation receipt, the entrant record and growing a draw
  account, and the dispatch of \<open>process\<close>.
\<close>

section \<open>Claim\<close>

definition check_claim ::
  "runtime \<Rightarrow> key \<Rightarrow> key \<Rightarrow> fair_draw \<Rightarrow> draw_slot \<Rightarrow> leaf_proof option \<Rightarrow> draw_slot res" where
  "check_claim rt draw_key me d sl x =
     (if sl_wallet sl = replicate 32 0 then
        bindE (ok_or x (fd_err DfMissingProof)) (\<lambda>pr.
        if lp_leaf_index pr \<noteq> sl_leaf_index sl \<or> lp_wallet pr \<noteq> me \<or> lp_weight pr \<noteq> 1 then fd_fail DfNotWinner
        else if length (lp_path pr) \<noteq> unat (fd_depth d) * TREE_PAIR_LEN then fd_fail DfInvalidProof
        else let leaf = entry_leaf rt draw_key me 1 in
        bindE (ok_or (tree_verify rt (fd_root d) (fd_total_weight d) (unat (fd_depth d)) (fd_leaf_count d)
                 (lp_leaf_index pr) leaf 1 (lp_path pr)) (fd_err DfInvalidProof)) (\<lambda>start.
        if start \<noteq> sl_start sl then fd_fail DfInvalidProof else Inr (sl\<lparr>sl_wallet := me\<rparr>)))
      else if sl_wallet sl \<noteq> me then fd_fail DfNotWinner
      else Inr sl)"

text \<open>
  The SPL side of Claim and Reclaim: destination, vault and token program from the account list,
  checked, and the payment.
\<close>

definition pay_spl ::
  "runtime \<Rightarrow> key \<Rightarrow> fair_draw \<Rightarrow> account_info \<Rightarrow> key \<Rightarrow> u64 \<Rightarrow> account_info list \<Rightarrow> store \<Rightarrow> (account_info option \<times> store) res" where
  "pay_spl rt pid d draw_ai own amount it s =
     bindE (next_account_info it) (\<lambda>(dest, it).
     bindE (next_account_info it) (\<lambda>(vault, it).
     bindE (next_account_info it) (\<lambda>(token_program, it).
     bindE (require_token_program token_program) (\<lambda>_.
     bindE (check_vault rt pid (key draw_ai) d vault s) (\<lambda>_.
     bindE (ok_or (read_account s dest) (fd_err DfInvalidTokenAccount)) (\<lambda>t.
     if ta_mint t \<noteq> fd_prize_mint d \<or> ta_owner t \<noteq> own then fd_fail DfInvalidTokenAccount
     else bindE (pay_prize rt d draw_ai dest (Some (vault, token_program)) amount s) (\<lambda>s. Inr (Some vault, s))))))))"

definition fd_claim :: "runtime \<Rightarrow> key \<Rightarrow> account_info list \<Rightarrow> u16 \<Rightarrow> leaf_proof option \<Rightarrow> store \<Rightarrow> store res" where
  "fd_claim rt pid accounts slot x s =
     bindE (next_account_info accounts) (\<lambda>(winner, it).
     bindE (next_account_info it) (\<lambda>(draw_ai, it).
     bindE (require_signer winner) (\<lambda>_.
     bindE (load_draw rt pid draw_ai s) (\<lambda>d.
     if fd_status d \<noteq> STATUS_RESOLVING \<or> fd_next_slot d \<le> slot then fd_fail DfWrongStatus
     else let j = unat slot in
     bindE (read_slot d (data (s (key draw_ai))) j) (\<lambda>sl.
     if sl_status sl = SLOT_CLAIMED then fd_fail DfAlreadyClaimed
     else if sl_status sl \<noteq> SLOT_WON \<or> sl_round sl \<noteq> fd_round d then fd_fail DfNotWinner
     else if fd_window_end d \<noteq> 0 \<and> fd_window_end d < clock_slot rt then fd_fail DfClaimWindowClosed
     else
     bindE (check_claim rt (key draw_ai) (key winner) d sl x) (\<lambda>sl.
     bindE (tier_amount d (sl_tier sl)) (\<lambda>amount.
     bindE (if is_sol_prize d then bindE (pay_prize rt d draw_ai winner None amount s) (\<lambda>s. Inr (None, s))
            else pay_spl rt pid d draw_ai (key winner) amount it s) (\<lambda>(vault_ai, s).
     bindE (fd_add (fd_paid d) amount) (\<lambda>pd.
     let d = d\<lparr>fd_paid := pd\<rparr> in
     bindE (write_slot d (data (s (key draw_ai))) j (sl\<lparr>sl_status := SLOT_CLAIMED\<rparr>)) (\<lambda>b.
     bindE (fd_pack d b) (\<lambda>b.
     let s = set_data s (key draw_ai) b in
     bindE (assert_solvent rt draw_ai d vault_ai s) (\<lambda>_. Inr s))))))))))))"

section \<open>Advance\<close>

text \<open>Forfeiting the unclaimed slots of a round; the tiers of the forfeited slots in order.\<close>

definition forfeit_slot :: "fair_draw \<Rightarrow> nat \<Rightarrow> bytes \<times> u8 list \<Rightarrow> (bytes \<times> u8 list) res" where
  "forfeit_slot d j bt =
     (let (b, ts) = bt in
      bindE (read_slot d b j) (\<lambda>sl.
      if sl_status sl = SLOT_WON then
        bindE (write_slot d b j (sl\<lparr>sl_status := SLOT_FORFEITED\<rparr>)) (\<lambda>b. Inr (b, ts @ [sl_tier sl]))
      else Inr (b, ts)))"

definition refund_tiers :: "fair_draw \<Rightarrow> u8 list \<Rightarrow> fair_draw res" where
  "refund_tiers d ts =
     foldE (\<lambda>t d. bindE (tier_amount d t) (\<lambda>a. bindE (fd_add (fd_refundable d) a) (\<lambda>r. Inr (d\<lparr>fd_refundable := r\<rparr>)))) ts d"

definition next_round :: "fair_draw \<Rightarrow> u8 list \<Rightarrow> bytes \<Rightarrow> (fair_draw \<times> bytes) res" where
  "next_round d ts b =
     (let base = unat (fd_slot_count d) in
      bindE (write_slots d (map (\<lambda>(k, t). (base + k, pending_slot t (fd_round d + 1))) (enumerate 0 ts)) b) (\<lambda>b.
      let r = unat (fd_round d + 1) in
      bindE (ok_or (first_target (fd_window_end d)) (fd_err DfMathOverflow)) (\<lambda>t0.
      if length (fd_rounds d) \<le> r then Inl Panic
      else Inr (d\<lparr>fd_round := fd_round d + 1, fd_round_first_slot := fd_slot_count d,
        fd_slot_count := fd_slot_count d + of_nat (length ts),
        fd_rounds := (fd_rounds d)[r := (fd_rounds d ! r)\<lparr>ri_first_target := t0\<rparr>],
        fd_window_end := 0, fd_status := STATUS_AWAIT_DRAW\<rparr>, b))))"

definition fd_advance :: "runtime \<Rightarrow> key \<Rightarrow> account_info list \<Rightarrow> store \<Rightarrow> store res" where
  "fd_advance rt pid accounts s =
     bindE (next_account_info accounts) (\<lambda>(draw_ai, it).
     bindE (load_draw rt pid draw_ai s) (\<lambda>d.
     if fd_status d \<noteq> STATUS_RESOLVING \<or> fd_next_slot d \<noteq> fd_slot_count d \<or> fd_window_end d = 0 then fd_fail DfWrongStatus
     else if clock_slot rt \<le> fd_window_end d then fd_fail DfClaimWindowOpen
     else
     bindE (foldE (forfeit_slot d) [unat (fd_round_first_slot d)..<unat (fd_slot_count d)] (data (s (key draw_ai)), []))
       (\<lambda>(b, ts).
     bindE (fd_sub (fd_total_weight d) (fd_won_weight d)) (\<lambda>remaining.
     bindE (if ts \<noteq> [] \<and> fd_round d < fd_redraw_rounds d \<and> 0 < remaining then next_round d ts b
            else bindE (refund_tiers d ts) (\<lambda>d. Inr (d\<lparr>fd_status := STATUS_COMPLETE\<rparr>, b))) (\<lambda>(d, b).
     bindE (fd_pack d b) (\<lambda>b. Inr (set_data s (key draw_ai) b)))))))"

section \<open>Reclaim\<close>

definition fd_reclaim :: "runtime \<Rightarrow> key \<Rightarrow> account_info list \<Rightarrow> store \<Rightarrow> store res" where
  "fd_reclaim rt pid accounts s =
     bindE (next_account_info accounts) (\<lambda>(organizer, it).
     bindE (next_account_info it) (\<lambda>(draw_ai, it).
     bindE (require_signer organizer) (\<lambda>_.
     bindE (load_draw rt pid draw_ai s) (\<lambda>d.
     if key organizer \<noteq> fd_organizer d then fd_fail DfNotOrganizer
     else if fd_status d \<noteq> STATUS_COMPLETE \<or> fd_refundable d = 0 then fd_fail DfWrongStatus
     else let amount = fd_refundable d in
     bindE (if is_sol_prize d then bindE (pay_prize rt d draw_ai organizer None amount s) (\<lambda>s. Inr (None, s))
            else pay_spl rt pid d draw_ai (fd_organizer d) amount it s) (\<lambda>(vault_ai, s).
     bindE (fd_add (fd_returned d) amount) (\<lambda>r.
     let d = d\<lparr>fd_returned := r, fd_refundable := 0\<rparr> in
     bindE (store_draw draw_ai d s) (\<lambda>s.
     bindE (assert_solvent rt draw_ai d vault_ai s) (\<lambda>_. Inr s))))))))"

section \<open>Close and Cancel\<close>

definition close_allowed :: "fair_draw \<Rightarrow> bool \<Rightarrow> bool" where
  "close_allowed d cancel =
     (if cancel then fd_status d = STATUS_CREATED \<or> fd_status d = STATUS_FUNDED \<and> fd_mode d = MODE_LIST
      else fd_status d = STATUS_COMPLETE \<and> fd_refundable d = 0 \<and> outstanding d = Some 0)"

definition close_vault ::
  "runtime \<Rightarrow> key \<Rightarrow> fair_draw \<Rightarrow> account_info \<Rightarrow> account_info \<Rightarrow> account_info list \<Rightarrow> store \<Rightarrow> store res" where
  "close_vault rt pid d organizer draw_ai it s =
     bindE (next_account_info it) (\<lambda>(dest, it).
     bindE (next_account_info it) (\<lambda>(vault, it).
     bindE (next_account_info it) (\<lambda>(token_program, it).
     bindE (require_token_program token_program) (\<lambda>_.
     bindE (check_vault rt pid (key draw_ai) d vault s) (\<lambda>v.
     bindE (ok_or (read_account s dest) (fd_err DfInvalidTokenAccount)) (\<lambda>t.
     if ta_mint t \<noteq> fd_prize_mint d \<or> ta_owner t \<noteq> fd_organizer d then fd_fail DfInvalidTokenAccount
     else
     bindE (if 0 < ta_amount v then
              invoke_signed rt (ProgramCpi (fd_transfer (key vault) (key dest) (key draw_ai) (ta_amount v)))
                [vault, dest, draw_ai, token_program] [draw_seeds d] s
            else Inr s) (\<lambda>s.
     invoke_signed rt (ProgramCpi (fd_close_account (key vault) (key organizer) (key draw_ai)))
       [vault, organizer, draw_ai, token_program] [draw_seeds d] s)))))))"

definition fd_close :: "runtime \<Rightarrow> key \<Rightarrow> account_info list \<Rightarrow> bool \<Rightarrow> store \<Rightarrow> store res" where
  "fd_close rt pid accounts cancel s =
     bindE (next_account_info accounts) (\<lambda>(organizer, it).
     bindE (next_account_info it) (\<lambda>(draw_ai, it).
     bindE (require_signer organizer) (\<lambda>_.
     bindE (load_draw rt pid draw_ai s) (\<lambda>d.
     if key organizer \<noteq> fd_organizer d then fd_fail DfNotOrganizer
     else if \<not> close_allowed d cancel then fd_fail DfWrongStatus
     else
     bindE (if \<not> is_sol_prize d then close_vault rt pid d organizer draw_ai it s else Inr s) (\<lambda>s.
     close_into draw_ai organizer s)))))"

section \<open>ProveEntry, CloseEntrant, Extend\<close>

definition fd_prove_entry :: "runtime \<Rightarrow> key \<Rightarrow> account_info list \<Rightarrow> leaf_proof \<Rightarrow> store \<Rightarrow> store res" where
  "fd_prove_entry rt pid accounts pr s =
     bindE (next_account_info accounts) (\<lambda>(draw_ai, it).
     bindE (load_draw rt pid draw_ai s) (\<lambda>d.
     if fd_depth d = 0 \<or> fd_leaf_count d = 0 then fd_fail DfWrongStatus
     else if lp_weight pr = 0 then fd_fail DfZeroWeight
     else if length (lp_path pr) \<noteq> unat (fd_depth d) * TREE_PAIR_LEN then fd_fail DfInvalidProof
     else let leaf = entry_leaf rt (key draw_ai) (lp_wallet pr) (lp_weight pr) in
     bindE (ok_or (tree_verify rt (fd_root d) (fd_total_weight d) (unat (fd_depth d)) (fd_leaf_count d)
              (lp_leaf_index pr) leaf (lp_weight pr) (lp_path pr)) (fd_err DfInvalidProof)) (\<lambda>start.
     Inr s)))"

definition fd_close_entrant :: "runtime \<Rightarrow> key \<Rightarrow> account_info list \<Rightarrow> store \<Rightarrow> store res" where
  "fd_close_entrant rt pid accounts s =
     bindE (next_account_info accounts) (\<lambda>(own, it).
     bindE (next_account_info it) (\<lambda>(draw_ai, it).
     bindE (next_account_info it) (\<lambda>(entrant_ai, it).
     bindE (require_signer own) (\<lambda>_.
     if owner (s (key entrant_ai)) \<noteq> pid then fd_fail DfInvalidAccount
     else
     bindE (ok_or (entrant_unpack (data (s (key entrant_ai)))) (fd_err DfInvalidAccount)) (\<lambda>r.
     bindE (ok_or (create_program_address rt [ENTRANT_SEED, en_draw r, en_owner r, [en_bump r]] pid)
              (fd_err DfInvalidAccount)) (\<lambda>expected.
     if expected \<noteq> key entrant_ai \<or> en_owner r \<noteq> key own \<or> en_draw r \<noteq> key draw_ai then fd_fail DfInvalidAccount
     else
     bindE (if owner (s (key draw_ai)) = pid then
              bindE (load_draw rt pid draw_ai s) (\<lambda>d.
              if fd_status d \<le> STATUS_FUNDED \<and> clock_slot rt < fd_close_slot d then fd_fail DfEntrantInUse else Inr ())
            else Inr ()) (\<lambda>_.
     close_into entrant_ai own s)))))))"

definition fd_extend :: "runtime \<Rightarrow> key \<Rightarrow> account_info list \<Rightarrow> store \<Rightarrow> store res" where
  "fd_extend rt pid accounts s =
     bindE (next_account_info accounts) (\<lambda>(payer, it).
     bindE (next_account_info it) (\<lambda>(draw_ai, it).
     bindE (next_account_info it) (\<lambda>(system, it).
     bindE (require_signer payer) (\<lambda>_.
     bindE (require_system system) (\<lambda>_.
     bindE (load_draw rt pid draw_ai s) (\<lambda>d.
     let full = fd_len d; have_len = length (data (s (key draw_ai))) in
     if fd_status d \<noteq> STATUS_CREATED \<or> full \<le> have_len then fd_fail DfWrongStatus
     else let new_len = min full (have_len + MAX_ALLOC_STEP);
              need = saturating_sub (minimum_balance rt new_len) (lamports (s (key draw_ai))) in
     bindE (if 0 < need then
              invoke rt (SystemCpi (Transfer (key payer) (key draw_ai) need)) [payer, draw_ai, system] s
            else Inr s) (\<lambda>s.
     fd_realloc (key draw_ai) new_len s)))))))"

section \<open>Dispatch\<close>

fun fd_run :: "runtime \<Rightarrow> key \<Rightarrow> account_info list \<Rightarrow> draw_instruction \<Rightarrow> store \<Rightarrow> store res" where
  "fd_run rt pid accounts (FdCreateDraw draw_id p) s = fd_create_draw rt pid accounts draw_id p s"
| "fd_run rt pid accounts FdFundPrizes s = fd_fund_prizes rt pid accounts s"
| "fd_run rt pid accounts (FdEnter cnt own) s = fd_enter rt pid accounts cnt own s"
| "fd_run rt pid accounts (FdCommitList root w n dep) s = fd_commit_list rt pid accounts root w n dep s"
| "fd_run rt pid accounts FdDraw s = fd_draw_ix rt pid accounts s"
| "fd_run rt pid accounts (FdResolve mx prs) s = fd_resolve rt pid accounts mx prs s"
| "fd_run rt pid accounts (FdClaim slot x) s = fd_claim rt pid accounts slot x s"
| "fd_run rt pid accounts FdAdvance s = fd_advance rt pid accounts s"
| "fd_run rt pid accounts FdReclaim s = fd_reclaim rt pid accounts s"
| "fd_run rt pid accounts FdClose s = fd_close rt pid accounts False s"
| "fd_run rt pid accounts FdCancel s = fd_close rt pid accounts True s"
| "fd_run rt pid accounts (FdProveEntry pr) s = fd_prove_entry rt pid accounts pr s"
| "fd_run rt pid accounts FdCloseEntrant s = fd_close_entrant rt pid accounts s"
| "fd_run rt pid accounts FdExtend s = fd_extend rt pid accounts s"

definition fd_process :: "runtime \<Rightarrow> key \<Rightarrow> account_info list \<Rightarrow> bytes \<Rightarrow> store \<Rightarrow> store res" where
  "fd_process rt pid accounts d s =
     bindE (ok_or (fd_ix_unpack d) (fd_err DfInvalidInstruction)) (\<lambda>i. fd_run rt pid accounts i s)"

definition FD_PROGRAM_ID :: key where
  "FD_PROGRAM_ID =
    [216, 116, 237, 162, 109, 148, 59, 71, 151, 168, 2, 126, 31, 46, 111, 170,
     248, 74, 239, 106, 169, 221, 69, 215, 126, 144, 36, 120, 249, 95, 10, 109]"

end
