(* ===== verification/FdView.thy ===== *)
theory FdView
  imports FdProcess2
begin

text \<open>
  The draw account as data: the header reads back what was packed and packing leaves the tables
  alone; writing a slot changes one entry of the slot table; inserting a won interval inserts it
  into the sorted table. All later proofs about accounts go through these views.
\<close>

section \<open>Runs of equal pieces\<close>

lemma uniform_pieces:
  assumes "\<forall>x \<in> set xs. length (g x) = n"
  shows "length (concat (map g xs)) = length xs * n"
    and "i < length xs \<Longrightarrow> slice (concat (map g xs)) (i * n) n = g (xs ! i)"
proof -
  show "length (concat (map g xs)) = length xs * n" using assms by (induction xs) auto
  show "slice (concat (map g xs)) (i * n) n = g (xs ! i)" if "i < length xs"
    using assms that
  proof (induction xs arbitrary: i)
    case (Cons x xs)
    then show ?case by (cases i) (auto simp: slice_def)
  qed simp
qed

lemma get_u64_slice: "off' + 8 \<le> n \<Longrightarrow> get_u64 (slice d off n) off' = get_u64 d (off + off')"
  by (simp add: get_u64_def slice_def drop_take min_def add.commute)

lemma get_u32_slice: "off' + 4 \<le> n \<Longrightarrow> get_u32 (slice d off n) off' = get_u32 d (off + off')"
  by (simp add: get_u32_def slice_def drop_take min_def add.commute)

lemma slice_of_slice: "off' + k \<le> n \<Longrightarrow> slice (slice d off n) off' k = slice d (off + off') k"
  by (simp add: slice_def drop_take min_def add.commute)

lemma get_u64_split: "get_u64 d off = get_u64 (slice d off 8) 0"
  by (simp add: get_u64_slice)

section \<open>The header\<close>

definition fd_wf :: "fair_draw \<Rightarrow> bool" where
  "fd_wf d \<longleftrightarrow> length (fd_organizer d) = 32 \<and> length (fd_prize_mint d) = 32 \<and> length (fd_entry_mint d) = 32 \<and>
     length (fd_fee_dest d) = 32 \<and> length (fd_root d) = 32 \<and> length (fd_tiers d) = 8 \<and> length (fd_rounds d) = 4 \<and>
     (\<forall>r \<in> set (fd_rounds d). length (ri_slot_hash r) = 32 \<and> length (ri_seed r) = 32)"

lemma fd_of_wf: "HEADER_LEN \<le> length b \<Longrightarrow> fd_wf (fd_of b)"
  by (auto simp: fd_wf_def fd_of_def round_of_def length_slice)

lemma tier_of_bytes: "slice d off 12 = tier_bytes t \<Longrightarrow> tier_of d off = t"
  using get_u32_slice [of 0 12 d off] get_u64_slice [of 4 12 d off]
  by (simp add: tier_of_def tier_bytes_def get_u32_def get_u64_def slice_def)

lemma round_of_bytes:
  assumes "slice d off 96 = round_bytes r" and "length (ri_slot_hash r) = 32" and "length (ri_seed r) = 32"
  shows "round_of d off = r"
proof -
  have g: "get_u64 d (off + k) = get_u64 (round_bytes r) k" if "k + 8 \<le> 96" for k
    using get_u64_slice [OF that, of d off] assms(1) by simp
  have sl: "slice d (off + k) 32 = slice (round_bytes r) k 32" if "k + 32 \<le> 96" for k
    using slice_of_slice [OF that, of d off] assms(1) by simp
  have "get_u64 d off = get_u64 (round_bytes r) 0" using g [of 0] by simp
  note gs = this g [of 8, simplified] g [of 16, simplified] g [of 24, simplified] sl [of 32, simplified] sl [of 64, simplified]
  show ?thesis
    unfolding round_of_def gs using assms(2,3) by (simp add: round_bytes_def get_u64_def slice_def)
qed

lemma fd_fields_disjoint: "disjoint_writes (fd_fields dr)"
  by (simp add: fd_fields_def write_simps)

lemma fd_pack_of:
  assumes wf: "fd_wf dr" and pk: "fd_pack dr b = Inr b'"
  shows "fd_of b' = dr" and "length b' = length b" and "slice b' 0 8 = DRAW_DISC" and "HEADER_LEN \<le> length b"
    and "HEADER_LEN \<le> off \<Longrightarrow> slice b' off n = slice b off n"
proof -
  from pk have w: "wr_all (fd_fields dr) b = Inr b'" and len: "HEADER_LEN \<le> length b"
    by (auto simp: fd_pack_def simp del: HEADER_LEN_def split: if_splits)
  note dj = fd_fields_disjoint [of dr]
  show "length b' = length b" by (rule wr_all_length [OF w])
  show "HEADER_LEN \<le> length b" by (rule len)
  show "slice b' 0 8 = DRAW_DISC" by (rule wr_all_read [OF w dj]) (simp add: fd_fields_def)
  show "slice b' off n = slice b off n" if "HEADER_LEN \<le> off"
    by (rule wr_all_other [OF w]) (use that in \<open>simp add: fd_fields_def apart_def\<close>)
  have t: "slice b' 192 96 = concat (map tier_bytes (fd_tiers dr))" by (rule wr_all_read [OF w dj]) (simp add: fd_fields_def)
  have "tier_of b' (192 + i * 12) = fd_tiers dr ! i" if "i < 8" for i
  proof (rule tier_of_bytes)
    have "slice (slice b' 192 96) (i * 12) 12 = tier_bytes (fd_tiers dr ! i)"
      unfolding t by (rule uniform_pieces(2)) (use wf that in \<open>simp_all add: fd_wf_def tier_bytes_def\<close>)
    then show "slice b' (192 + i * 12) 12 = tier_bytes (fd_tiers dr ! i)"
      using slice_of_slice [of "i * 12" 12 96 b' 192] that by simp
  qed
  then have tiers: "map (\<lambda>i. tier_of b' (192 + i * 12)) [0..<MAX_TIERS] = fd_tiers dr"
    using wf by (intro nth_equalityI) (simp_all add: fd_wf_def)
  have r: "slice b' 408 384 = concat (map round_bytes (fd_rounds dr))" by (rule wr_all_read [OF w dj]) (simp add: fd_fields_def)
  have "round_of b' (408 + i * 96) = fd_rounds dr ! i" if "i < 4" for i
  proof (rule round_of_bytes)
    have "slice (slice b' 408 384) (i * 96) 96 = round_bytes (fd_rounds dr ! i)"
      unfolding r by (rule uniform_pieces(2)) (use wf that in \<open>auto simp: fd_wf_def round_bytes_def\<close>)
    then show "slice b' (408 + i * 96) 96 = round_bytes (fd_rounds dr ! i)"
      using slice_of_slice [of "i * 96" 96 384 b' 408] that by simp
  qed (use wf that in \<open>simp_all add: fd_wf_def\<close>)
  then have rounds: "map (\<lambda>i. round_of b' (408 + i * 96)) [0..<MAX_ROUNDS] = fd_rounds dr"
    using wf by (intro nth_equalityI) (simp_all add: fd_wf_def)
  have "b' ! 51 = of_bool (fd_weighted dr)" by (rule wr_all_nth [OF w dj]) (simp add: fd_fields_def)
  then have wtd: "(b' ! 51 \<noteq> 0) = fd_weighted dr" by simp
  show "fd_of b' = dr"
    by (rule fair_draw.equality; simp only: fd_of_def fair_draw.select_convs tiers rounds wtd;
        (rule wr_all_nth [OF w dj] wr_all_u64 [OF w dj] wr_all_u16 [OF w dj] wr_all_read [OF w dj])?;
        simp add: fd_fields_def)
qed

lemma fd_pack_total:
  assumes "fd_wf dr" and "HEADER_LEN \<le> length b"
  shows "\<exists>b'. fd_pack dr b = Inr b'"
proof -
  have l: "length (concat (map tier_bytes (fd_tiers dr))) = 96"
    using assms(1) uniform_pieces(1) [of "fd_tiers dr" tier_bytes 12] by (simp add: fd_wf_def tier_bytes_def)
  have r: "length (concat (map round_bytes (fd_rounds dr))) = 384"
    using assms(1) uniform_pieces(1) [of "fd_rounds dr" round_bytes 96] by (simp add: fd_wf_def round_bytes_def)
  have "\<exists>b'. wr_all (fd_fields dr) b = Inr b'"
    by (rule wr_all_total) (use assms l r in \<open>simp add: fd_fields_def fd_wf_def DRAW_DISC_def\<close>)
  with assms(2) show ?thesis by (simp add: fd_pack_def)
qed


text \<open>The entrant record is a packed record of the common kind.\<close>

definition entrant_wf :: "entrant \<Rightarrow> bool" where
  "entrant_wf e \<longleftrightarrow> length (en_draw e) = 32 \<and> length (en_owner e) = 32"

interpretation entrant_codec: account_codec entrant_pack entrant_of entrant_wf ENTRANT_LEN ENTRANT_DISC
proof (unfold_locales)
  fix x y :: entrant and d d' :: bytes and off n :: nat
  note dj = disjoint_writes.simps apart_def
  show "length d' = length d" if "entrant_pack x d = Inr d'"
    using that wr_all_length by (simp add: entrant_pack_def)
  show "entrant_of d' = x" if "entrant_pack x d = Inr d'"
  proof -
    note w = that [unfolded entrant_pack_def]
    have dj: "disjoint_writes (entrant_fields x)" by (simp add: entrant_fields_def write_simps)
    show ?thesis
      by (rule entrant.equality; simp add: entrant_of_def;
          (rule wr_all_nth [OF w dj] wr_all_u64 [OF w dj] wr_all_read [OF w dj]); simp add: entrant_fields_def)
  qed
  show "slice d' off n = slice d off n" if "entrant_pack x d = Inr d'" "ENTRANT_LEN \<le> off"
    by (rule wr_all_other [OF that(1) [unfolded entrant_pack_def]]) (use that(2) in \<open>simp add: entrant_fields_def apart_def\<close>)
  show "entrant_wf x \<and> ENTRANT_LEN \<le> length d" if "entrant_pack x d = Inr d'"
    using wr_all_range [OF that [unfolded entrant_pack_def]] by (simp add: entrant_wf_def entrant_fields_def)
  show "\<exists>d'. entrant_pack x d = Inr d'" if "entrant_wf x" "ENTRANT_LEN \<le> length d"
    unfolding entrant_pack_def
    by (rule wr_all_total) (use that in \<open>simp add: entrant_fields_def entrant_wf_def ENTRANT_DISC_def\<close>)
  show "entrant_wf (entrant_of d)" if "ENTRANT_LEN \<le> length d"
    using that by (simp add: entrant_wf_def entrant_of_def length_slice)
  show "slice d' 0 8 = ENTRANT_DISC" if "entrant_pack x d = Inr d'"
  proof (rule wr_all_read [OF that [unfolded entrant_pack_def]])
    show "disjoint_writes (entrant_fields x)" by (simp add: entrant_fields_def write_simps)
  qed (simp add: entrant_fields_def)
qed

section \<open>The slot table\<close>

definition slot_view :: "nat \<Rightarrow> bytes \<Rightarrow> nat \<Rightarrow> draw_slot" where
  "slot_view base b j = slot_of (slice b (base + j * DRAW_SLOT_LEN) DRAW_SLOT_LEN)"

lemma read_slot_Inr [run_simps]:
  "read_slot d b j = Inr sl \<longleftrightarrow> slots_offset d + j * DRAW_SLOT_LEN + DRAW_SLOT_LEN \<le> length b \<and> sl = slot_view (slots_offset d) b j"
  by (auto simp: read_slot_def slot_view_def)

lemma write_slot_Inr [run_simps]:
  "write_slot d b j sl = Inr b' \<longleftrightarrow> slots_offset d + j * DRAW_SLOT_LEN + DRAW_SLOT_LEN \<le> length b \<and> length (sl_wallet sl) = 32 \<and>
     b' = splice b (slots_offset d + j * DRAW_SLOT_LEN) (slot_bytes sl)"
  by (auto simp: write_slot_def slot_bytes_def)

lemma slot_of_bytes: "length (sl_wallet sl) = 32 \<Longrightarrow> slot_of (slot_bytes sl) = sl"
  by (simp add: slot_of_def slot_bytes_def get_u64_def slice_def nth_append)

lemma length_slot_bytes: "length (sl_wallet sl) = 32 \<Longrightarrow> length (slot_bytes sl) = DRAW_SLOT_LEN"
  by (simp add: slot_bytes_def)

lemma length_slot_wallet: "base + j * DRAW_SLOT_LEN + DRAW_SLOT_LEN \<le> length b \<Longrightarrow> length (sl_wallet (slot_view base b j)) = 32"
  by (simp add: slot_view_def slot_of_def length_slice)

text \<open>What writing one slot does: the other slots, the header and the won table stay.\<close>

lemma splice_slot_view:
  assumes "length (sl_wallet sl) = 32" and "base + j * DRAW_SLOT_LEN + DRAW_SLOT_LEN \<le> length b"
  shows "slot_view base (splice b (base + j * DRAW_SLOT_LEN) (slot_bytes sl)) i = (if i = j then sl else slot_view base b i)"
proof (cases "i = j")
  case True
  then show ?thesis using assms by (simp add: slot_view_def length_slot_bytes slice_splice_same slot_of_bytes)
next
  case False
  then have "base + i * DRAW_SLOT_LEN + DRAW_SLOT_LEN \<le> base + j * DRAW_SLOT_LEN \<or> base + j * DRAW_SLOT_LEN + DRAW_SLOT_LEN \<le> base + i * DRAW_SLOT_LEN"
    by (simp del: mult_Suc) linarith
  then show ?thesis using False assms(1)
    by (simp add: slot_view_def slice_splice_other length_slot_bytes del: DRAW_SLOT_LEN_def)
qed

lemma splice_header: "HEADER_LEN \<le> off \<Longrightarrow> fd_of (splice b off bs) = fd_of b"
  by (simp add: fd_of_def tier_of_def round_of_def byte_simps)

section \<open>The table of won intervals\<close>

definition won_view :: "nat \<Rightarrow> bytes \<Rightarrow> nat \<Rightarrow> u64 \<times> u64" where
  "won_view base b k = (get_u64 b (base + 16 * k), get_u64 b (base + 16 * k + 8))"

definition won_list :: "nat \<Rightarrow> bytes \<Rightarrow> nat \<Rightarrow> (u64 \<times> u64) list" where
  "won_list base b n = map (won_view base b) [0..<n]"

lemma won_at_Inr [run_simps]:
  "won_at d b k = Inr x \<longleftrightarrow> sorted_offset d + 16 * k + 16 \<le> length b \<and> x = won_view (sorted_offset d) b k"
  by (auto simp: won_at_def won_view_def get_u64_slice)

lemma won_view_other:
  "off + length bs \<le> base \<Longrightarrow> won_view base (splice b off bs) k = won_view base b k"
  by (simp add: won_view_def byte_simps)

lemma remap_won_list:
  assumes "\<forall>k \<in> set ks. sorted_offset d + 16 * k + 16 \<le> length b"
  shows "remap_won d b ks p = Inr (remap p (map (won_view (sorted_offset d) b) ks))"
  using assms
proof (induction ks arbitrary: p)
  case (Cons k ks)
  obtain st w where v: "won_view (sorted_offset d) b k = (st, w)" by fastforce
  then have "won_at d b k = Inr (st, w)" using Cons.prems by (simp add: won_at_Inr)
  with Cons v show ?case by (simp split: option.split)
qed simp

text \<open>The binary search finds the place after the last start at or below the new one.\<close>

definition first_above :: "u64 \<Rightarrow> (u64 \<times> u64) list \<Rightarrow> nat" where
  "first_above start ws = length (takeWhile (\<lambda>x. fst x \<le> start) ws)"

lemma first_above_split:
  assumes "i \<le> length ws" and "\<forall>k < i. fst (ws ! k) \<le> start" and "i < length ws \<Longrightarrow> start < fst (ws ! i)"
  shows "first_above start ws = i"
proof -
  have "takeWhile (\<lambda>x. fst x \<le> start) ws = take i ws"
    by (rule takeWhile_eq_take_P_nth) (use assms in \<open>auto simp: not_le\<close>)
  then show ?thesis using assms(1) by (simp add: first_above_def)
qed

lemma won_search_spec:
  assumes "sorted (map fst ws)" and "ws = won_list (sorted_offset d) b n" and "sorted_offset d + 16 * n \<le> length b"
    and "lo \<le> hi" "hi \<le> n" and "\<forall>k < lo. fst (ws ! k) \<le> start" and "\<forall>k. hi \<le> k \<longrightarrow> k < n \<longrightarrow> start < fst (ws ! k)"
  shows "won_search d b start lo hi = Inr (first_above start ws)"
  using assms(4-)
proof (induction "hi - lo" arbitrary: lo hi rule: less_induct)
  case less
  have len: "length ws = n" by (simp add: assms(2) won_list_def)
  show ?case
  proof (cases "lo < hi")
    case False
    then have "first_above start ws = lo" using less.prems len by (intro first_above_split) auto
    with False show ?thesis by (simp add: won_search.simps [of d b start lo hi])
  next
    case True
    let ?m = "(lo + hi) div 2"
    have m: "lo \<le> ?m" "?m < hi" using True by auto
    have at: "won_at d b ?m = Inr (ws ! ?m)"
      using assms(3) m less.prems(2) by (simp add: won_at_Inr assms(2) won_list_def)
    have srt: "fst (ws ! i) \<le> fst (ws ! k)" if "i \<le> k" "k < n" for i k
      using sorted_nth_mono [OF assms(1) that(1)] that len by simp
    show ?thesis
    proof (cases "fst (ws ! ?m) \<le> start")
      case le: True
      have "won_search d b start (?m + 1) hi = Inr (first_above start ws)"
      proof (rule less.hyps)
        show "\<forall>k < ?m + 1. fst (ws ! k) \<le> start"
        proof (intro allI impI)
          fix k assume "k < ?m + 1"
          then have "k \<le> ?m" "?m < n" using m less.prems(2) by simp_all
          from srt [OF this] le show "fst (ws ! k) \<le> start" by (rule order_trans)
        qed
      qed (use m True less.prems in auto)
      with True at le show ?thesis by (simp add: won_search.simps [of d b start lo hi] case_prod_beta)
    next
      case gt: False
      have "won_search d b start lo ?m = Inr (first_above start ws)"
      proof (rule less.hyps)
        show "\<forall>k. ?m \<le> k \<longrightarrow> k < n \<longrightarrow> start < fst (ws ! k)"
        proof (intro allI impI)
          fix k assume "?m \<le> k" "k < n"
          from gt have "start < fst (ws ! ?m)" by simp
          also have "\<dots> \<le> fst (ws ! k)" by (rule srt) fact+
          finally show "start < fst (ws ! k)" .
        qed
      qed (use m True less.prems in auto)
      with True at gt show ?thesis by (simp add: won_search.simps [of d b start lo hi] case_prod_beta)
    qed
  qed
qed


section \<open>Inserting a won interval\<close>

definition insert_won :: "u64 \<Rightarrow> u64 \<Rightarrow> (u64 \<times> u64) list \<Rightarrow> (u64 \<times> u64) list" where
  "insert_won start weight ws =
     (let i = first_above start ws in take i ws @ (start, weight) # drop i ws)"

lemma slice_splice_in:
  assumes "off \<le> p" and "p + n \<le> off + length bs" and "off + length bs \<le> length d"
  shows "slice (splice d off bs) p n = slice bs (p - off) n"
proof -
  obtain k where k: "p = off + k" using assms(1) le_Suc_ex by blast
  have "drop p (take off d @ bs @ drop (off + length bs) d) = drop k bs @ drop (off + length bs) d"
    using assms k by simp
  moreover have "n \<le> length (drop k bs)" using assms(2) k by simp
  ultimately show ?thesis using assms(3) k by (simp add: slice_def splice_def)
qed

lemma get_u64_splice_in:
  "off \<le> p \<Longrightarrow> p + 8 \<le> off + length bs \<Longrightarrow> off + length bs \<le> length d \<Longrightarrow>
   get_u64 (splice d off bs) p = get_u64 bs (p - off)"
  by (simp add: get_u64_def slice_splice_in)

lemma won_insert_spec:
  assumes "sorted (map fst ws)" and "ws = won_list base b n" and "base = sorted_offset d" and "n = unat (fd_won_count d)"
    and "base + 16 * (n + 1) \<le> length b" and "won_insert d b start weight = Inr (d', b')"
  shows "d' = d\<lparr>fd_won_count := fd_won_count d + 1\<rparr>" and "length b' = length b"
    and "won_list base b' (n + 1) = insert_won start weight ws"
    and "p + m \<le> base \<Longrightarrow> slice b' p m = slice b p m"
proof -
  let ?lo = "first_above start ws"
  have len: "length ws = n" by (simp add: assms(2) won_list_def)
  have lo: "?lo \<le> n" unfolding first_above_def using length_takeWhile_le [of _ ws] len by simp
  have "sorted_offset d + 16 * n \<le> length b" using assms(3,5) by simp
  from won_search_spec [OF assms(1) _ this, of 0 n start] have srch: "won_search d b start 0 n = Inr ?lo"
    using assms(2,3) by simp
  let ?c = "slice b (base + 16 * ?lo) (16 * (n - ?lo))"
  let ?b1 = "splice b (base + 16 * (?lo + 1)) ?c"
  let ?b2 = "splice ?b1 (base + 16 * ?lo) (u64_le start)"
  have cl: "length ?c = 16 * (n - ?lo)" using lo assms(5) by (simp add: length_slice)
  have b': "b' = splice ?b2 (base + 16 * ?lo + 8) (u64_le weight)" and d': "d' = d\<lparr>fd_won_count := fd_won_count d + 1\<rparr>"
    using assms(6) srch lo by (auto simp: won_insert_def Let_def assms(3,4))
  show "d' = d\<lparr>fd_won_count := fd_won_count d + 1\<rparr>" by (rule d')
  show "length b' = length b" by (simp add: b')
  have fits: "base + 16 * (?lo + 1) + length ?c \<le> length b" using lo assms(5) cl by simp
  have chunk: "get_u64 ?b1 (base + 16 * k + r) = get_u64 b (base + 16 * (k - 1) + r)" if "?lo < k" "k \<le> n" "r + 8 \<le> 16" for k r
  proof -
    have "get_u64 ?b1 (base + 16 * k + r) = get_u64 ?c (base + 16 * k + r - (base + 16 * (?lo + 1)))"
      by (rule get_u64_splice_in [OF _ _ fits]) (use that lo cl in simp_all)
    also have "\<dots> = get_u64 b (base + 16 * ?lo + (base + 16 * k + r - (base + 16 * (?lo + 1))))"
      by (rule get_u64_slice) (use that lo in simp)
    also have "base + 16 * ?lo + (base + 16 * k + r - (base + 16 * (?lo + 1))) = base + 16 * (k - 1) + r"
      using that by simp
    finally show ?thesis .
  qed
  have v: "won_view base b' k = (if k < ?lo then ws ! k else if k = ?lo then (start, weight) else ws ! (k - 1))" if "k \<le> n" for k
  proof -
    consider "k < ?lo" | "k = ?lo" | "?lo < k" by linarith
    then show ?thesis
    proof cases
      case 1
      then have "won_view base b' k = won_view base b k" by (simp add: won_view_def b' byte_simps)
      moreover have "ws ! k = won_view base b k" using 1 lo by (simp add: assms(2) won_list_def)
      ultimately show ?thesis using 1 by simp
    next
      case 2
      have "base + 16 * ?lo + 16 \<le> length b" using lo assms(5) by simp
      with 2 show ?thesis by (simp add: won_view_def b' byte_simps)
    next
      case 3
      have "won_view base b' k = (get_u64 ?b1 (base + 16 * k + 0), get_u64 ?b1 (base + 16 * k + 8))"
        using 3 by (simp add: won_view_def b' byte_simps)
      also have "\<dots> = won_view base b (k - 1)"
        by (simp only: chunk [OF 3 that, of 0] chunk [OF 3 that, of 8]) (simp add: won_view_def)
      also have "\<dots> = ws ! (k - 1)" using 3 that by (simp add: assms(2) won_list_def)
      finally show ?thesis using 3 by simp
    qed
  qed
  show "won_list base b' (n + 1) = insert_won start weight ws"
  proof (rule nth_equalityI)
    show "length (won_list base b' (n + 1)) = length (insert_won start weight ws)"
      using lo len by (simp add: won_list_def insert_won_def Let_def)
    fix k assume "k < length (won_list base b' (n + 1))"
    then have k: "k \<le> n" by (simp add: won_list_def)
    have "won_list base b' (n + 1) ! k = won_view base b' k" using k by (simp add: won_list_def del: upt_Suc)
    moreover have "insert_won start weight ws ! k = (if k < ?lo then ws ! k else if k = ?lo then (start, weight) else ws ! (k - 1))"
    proof (cases "?lo < k")
      case True
      then obtain m where "k = Suc (?lo + m)" using less_imp_Suc_add by blast
      then show ?thesis using lo len by (simp add: insert_won_def Let_def nth_append)
    qed (use lo len in \<open>simp add: insert_won_def Let_def nth_append\<close>)
    ultimately show "won_list base b' (n + 1) ! k = insert_won start weight ws ! k"
      using v [OF k] by simp
  qed
  show "slice b' p m = slice b p m" if "p + m \<le> base"
    using that by (simp add: b' slice_splice_other)
qed

lemma won_insert_total:
  assumes "sorted (map fst (won_list (sorted_offset d) b n))" and "n = unat (fd_won_count d)"
    and "sorted_offset d + 16 * (n + 1) \<le> length b"
  shows "\<exists>x. won_insert d b start weight = Inr x"
proof -
  let ?ws = "won_list (sorted_offset d) b n"
  let ?lo = "first_above start ?ws"
  have lo: "?lo \<le> n" unfolding first_above_def
    using length_takeWhile_le [of _ ?ws] by (simp add: won_list_def)
  have "sorted_offset d + 16 * n \<le> length b" using assms(3) by simp
  from won_search_spec [OF assms(1) refl this, of 0 n start] have "won_search d b start 0 n = Inr ?lo"
    by simp
  with lo assms(3) show ?thesis by (simp add: won_insert_def Let_def assms(2) [symmetric] rd_slice_def wr_slice_def length_slice)
qed

lemma won_ok_ge: "won_ok lo hi ws \<Longrightarrow> x \<in> set ws \<Longrightarrow> lo \<le> unat (fst x)"
  by (induction lo hi ws rule: won_ok.induct) force+

lemma won_ok_sorted: "won_ok lo hi ws \<Longrightarrow> sorted (map fst ws)"
proof (induction lo hi ws rule: won_ok.induct)
  case (2 lo hi st w r)
  then have "\<forall>x \<in> set r. st \<le> fst x" using won_ok_ge by (fastforce simp: word_le_nat_alt)
  with 2 show ?case by simp
qed simp

lemma won_ok_insert:
  assumes "won_ok lo hi ws" and "lo \<le> unat st" and "unat st + unat w \<le> hi" and "w \<noteq> 0"
    and "\<forall>(s', w') \<in> set ws. unat st + unat w \<le> unat s' \<or> unat s' + unat w' \<le> unat st"
  shows "won_ok lo hi (insert_won st w ws)"
  using assms
proof (induction lo hi ws rule: won_ok.induct)
  case (2 lo hi s' w' r)
  have w: "0 < unat w" using "2.prems"(4) by (simp add: unat_gt_0)
  from "2.prems"(5) have d: "unat st + unat w \<le> unat s' \<or> unat s' + unat w' \<le> unat st" by simp
  show ?case
  proof (cases "s' \<le> st")
    case True
    then have le: "unat s' \<le> unat st" by (simp add: word_le_nat_alt)
    with d w have sep: "unat s' + unat w' \<le> unat st" by linarith
    have ins: "insert_won st w ((s', w') # r) = (s', w') # insert_won st w r"
      using True by (simp add: insert_won_def first_above_def Let_def)
    have "won_ok (unat s' + unat w') hi (insert_won st w r)"
      by (rule "2.IH") (use "2.prems" sep in auto)
    with "2.prems"(1) show ?thesis by (simp add: ins)
  next
    case False
    then have "unat st < unat s'" by (simp add: word_le_nat_alt)
    with d have sep: "unat st + unat w \<le> unat s'" by linarith
    have ins: "insert_won st w ((s', w') # r) = (st, w) # (s', w') # r"
      using False by (simp add: insert_won_def first_above_def Let_def)
    from "2.prems" sep show ?thesis by (simp add: ins)
  qed
qed (simp_all add: insert_won_def first_above_def Let_def)

lemma insert_won_set: "set (insert_won st w ws) = insert (st, w) (set ws)"
proof -
  let ?i = "first_above st ws"
  have "set ws = set (take ?i ws) \<union> set (drop ?i ws)" by (metis append_take_drop_id set_append)
  then show ?thesis by (simp add: insert_won_def Let_def)
qed

lemma won_sum_insert: "won_sum (insert_won st w ws) = unat w + won_sum ws"
proof -
  let ?i = "first_above st ws"
  have "won_sum ws = won_sum (take ?i ws @ drop ?i ws)" by simp
  then show ?thesis unfolding insert_won_def Let_def won_sum_def by (simp only: map_append sum_list_append) simp
qed

lemma won_points_insert: "won_points (insert_won st w ws) = {unat st..<unat st + unat w} \<union> won_points ws"
  by (simp add: won_points_def insert_won_set)

end
