(* ===== verification/FdTables.thy ===== *)
theory FdTables
  imports FdView
begin

text \<open>
  The two tables of a draw account as lists, and what every access and every loop of the handlers
  does to them: writing the header or the frontier leaves them alone, writing a slot updates one
  entry, a won interval is inserted in order.
\<close>

definition slot_tab :: "fair_draw \<Rightarrow> bytes \<Rightarrow> nat \<Rightarrow> draw_slot list" where
  "slot_tab d b n = map (slot_view (slots_offset d) b) [0..<n]"

definition slots :: "fair_draw \<Rightarrow> bytes \<Rightarrow> draw_slot list" where
  "slots d b = slot_tab d b (unat (fd_slot_count d))"

definition won :: "fair_draw \<Rightarrow> bytes \<Rightarrow> (u64 \<times> u64) list" where
  "won d b = won_list (sorted_offset d) b (unat (fd_won_count d))"

text \<open>An account of full length.\<close>

definition full :: "fair_draw \<Rightarrow> bytes \<Rightarrow> bool" where
  "full d b \<longleftrightarrow> length b = fd_len d"

definition same_shape :: "fair_draw \<Rightarrow> fair_draw \<Rightarrow> bool" where
  "same_shape d e \<longleftrightarrow> fd_mode e = fd_mode d \<and> fd_capacity e = fd_capacity d"

lemma same_shapeD:
  assumes "same_shape d e"
  shows "slots_offset e = slots_offset d" "sorted_offset e = sorted_offset d" "fd_len e = fd_len d"
    "slot_tab e = slot_tab d" "full e = full d"
  using assms by (auto simp: same_shape_def slots_offset_def sorted_offset_def fd_len_def slot_tab_def full_def fun_eq_iff)

lemma same_shape_refl [simp]: "same_shape d d"
  by (simp add: same_shape_def)

lemma same_shape_trans: "same_shape d e \<Longrightarrow> same_shape e f \<Longrightarrow> same_shape d f"
  by (simp add: same_shape_def)

lemma layout:
  "HEADER_LEN \<le> slots_offset d"
  "slots_offset d + unat (fd_capacity d) * DRAW_SLOT_LEN = sorted_offset d"
  "sorted_offset d + unat (fd_capacity d) * WON_LEN = fd_len d"
  by (simp_all add: slots_offset_def sorted_offset_def fd_len_def draw_len_def)

lemma slot_fits:
  assumes "j < unat (fd_capacity d)"
  shows "slots_offset d + j * DRAW_SLOT_LEN + DRAW_SLOT_LEN \<le> sorted_offset d"
proof -
  have "(j + 1) * DRAW_SLOT_LEN \<le> unat (fd_capacity d) * DRAW_SLOT_LEN" by (rule mult_le_mono1) (use assms in simp)
  then show ?thesis using layout(2) [of d] by simp
qed

lemma sorted_le_len: "sorted_offset d \<le> fd_len d"
  using layout(3) [of d] by linarith

lemma won_fits:
  assumes "n \<le> unat (fd_capacity d)"
  shows "sorted_offset d + 16 * n \<le> fd_len d"
proof -
  have "n * 16 \<le> unat (fd_capacity d) * 16" by (rule mult_le_mono1) (rule assms)
  then show ?thesis using layout(3) [of d] by simp
qed

lemma header_le_len: "HEADER_LEN \<le> fd_len d"
  using layout(1) [of d] sorted_le_len [of d] layout(2) [of d] by linarith

section \<open>Tables after a change elsewhere\<close>

lemma slot_tab_eq:
  assumes "\<And>j. j < n \<Longrightarrow> slice b' (slots_offset d + j * DRAW_SLOT_LEN) DRAW_SLOT_LEN = slice b (slots_offset d + j * DRAW_SLOT_LEN) DRAW_SLOT_LEN"
  shows "slot_tab d b' n = slot_tab d b n"
  using assms by (simp add: slot_tab_def slot_view_def del: DRAW_SLOT_LEN_def)

lemma won_list_eq:
  assumes "\<And>off m. base \<le> off \<Longrightarrow> slice b' off m = slice b off m"
  shows "won_list base b' n = won_list base b n"
  using assms by (simp add: won_list_def won_view_def get_u64_def)

text \<open>Packing a header of the same shape.\<close>

lemma pack_tables:
  assumes "fd_wf e" and "fd_pack e b = Inr b'"
  shows "fd_of b' = e" and "length b' = length b" and "slot_tab d b' n = slot_tab d b n"
    and "won_list (sorted_offset d) b' m = won_list (sorted_offset d) b m"
    and "slice b' 0 8 = DRAW_DISC" and "HEADER_LEN \<le> length b"
    and "HEADER_LEN \<le> off \<Longrightarrow> slice b' off len = slice b off len"
proof -
  note p = fd_pack_of [OF assms]
  show "fd_of b' = e" "length b' = length b" "slice b' 0 8 = DRAW_DISC" "HEADER_LEN \<le> length b" by (fact p)+
  show "HEADER_LEN \<le> off \<Longrightarrow> slice b' off len = slice b off len" by (rule p(5))
  show "slot_tab d b' n = slot_tab d b n"
    by (rule slot_tab_eq) (rule p(5), use layout(1) [of d] in linarith)
  show "won_list (sorted_offset d) b' m = won_list (sorted_offset d) b m"
    by (rule won_list_eq) (rule p(5), use layout [of d] in linarith)
qed

lemma pack_wf:
  assumes "fd_pack e b = Inr b'" and "length (fd_tiers e) = 8" and "length (fd_rounds e) = 4"
    and "\<forall>r \<in> set (fd_rounds e). length (ri_slot_hash r) = 32 \<and> length (ri_seed r) = 32"
  shows "fd_wf e"
proof -
  from assms(1) have "wr_all (fd_fields e) b = Inr b'" by (auto simp: fd_pack_def simp del: HEADER_LEN_def split: if_splits)
  from wr_all_range [OF this] assms(2-4) show ?thesis by (simp add: fd_wf_def fd_fields_def)
qed

text \<open>Writing a slot.\<close>

lemma write_slot_tables:
  assumes "write_slot d b j sl = Inr b'" and "j < unat (fd_capacity d)"
  shows "length b' = length b" and "slot_tab d b' n = (slot_tab d b n)[j := sl]"
    and "won_list (sorted_offset d) b' m = won_list (sorted_offset d) b m" and "fd_of b' = fd_of b"
    and "off + len \<le> HEADER_LEN \<Longrightarrow> slice b' off len = slice b off len" and "length (sl_wallet sl) = 32"
proof -
  from assms(1) have b': "b' = splice b (slots_offset d + j * DRAW_SLOT_LEN) (slot_bytes sl)"
    and fits: "slots_offset d + j * DRAW_SLOT_LEN + DRAW_SLOT_LEN \<le> length b" and w: "length (sl_wallet sl) = 32"
    by (simp_all add: write_slot_Inr del: DRAW_SLOT_LEN_def)
  show "length (sl_wallet sl) = 32" by (rule w)
  show "length b' = length b" by (simp add: b')
  show "slot_tab d b' n = (slot_tab d b n)[j := sl]"
    by (rule nth_equalityI) (simp_all add: slot_tab_def b' splice_slot_view [OF w fits] nth_list_update del: DRAW_SLOT_LEN_def)
  have "slots_offset d + j * DRAW_SLOT_LEN + length (slot_bytes sl) \<le> sorted_offset d"
    using slot_fits [OF assms(2)] by (simp only: length_slot_bytes [OF w])
  then show "won_list (sorted_offset d) b' m = won_list (sorted_offset d) b m"
    by (intro won_list_eq) (simp add: b' slice_splice_other)
  show "fd_of b' = fd_of b" unfolding b' by (rule splice_header) (use layout(1) [of d] in linarith)
  show "slice b' off len = slice b off len" if "off + len \<le> HEADER_LEN"
    unfolding b' by (rule slice_splice_other) (use layout(1) [of d] that in linarith)
qed

lemma read_slot_tab:
  assumes "read_slot d b j = Inr sl" and "j < n"
  shows "sl = slot_tab d b n ! j"
  using assms by (simp add: read_slot_Inr slot_tab_def)

lemma read_slot_total:
  assumes "full d b" and "j < unat (fd_capacity d)"
  shows "read_slot d b j = Inr (slot_view (slots_offset d) b j)"
  using slot_fits [OF assms(2)] sorted_le_len [of d] assms(1) by (simp add: read_slot_Inr full_def del: DRAW_SLOT_LEN_def)

lemma write_slot_total:
  assumes "full d b" and "j < unat (fd_capacity d)" and "length (sl_wallet sl) = 32"
  shows "\<exists>b'. write_slot d b j sl = Inr b'"
  using slot_fits [OF assms(2)] sorted_le_len [of d] assms(1,3) by (simp add: write_slot_Inr full_def del: DRAW_SLOT_LEN_def)

lemma slot_tab_wallet:
  assumes "full d b" and "n \<le> unat (fd_capacity d)" and "sl \<in> set (slot_tab d b n)"
  shows "length (sl_wallet sl) = 32"
proof -
  from assms(3) obtain j where j: "j < n" "sl = slot_view (slots_offset d) b j" by (auto simp: slot_tab_def)
  have "slots_offset d + j * DRAW_SLOT_LEN + DRAW_SLOT_LEN \<le> length b"
    using slot_fits [of j d] sorted_le_len [of d] assms(1,2) j(1) by (simp add: full_def del: DRAW_SLOT_LEN_def)
  then show ?thesis unfolding j(2) by (rule length_slot_wallet)
qed

lemma upt_append_le: "n \<le> m \<Longrightarrow> [0..<n] @ [n..<m] = [0..<m]"
  using upt_add_eq_append [of 0 n "m - n"] by simp

lemma slot_tab_extend: "n \<le> m \<Longrightarrow> slot_tab d b m = slot_tab d b n @ map (slot_view (slots_offset d) b) [n..<m]"
  unfolding slot_tab_def map_append [symmetric] by (simp only: upt_append_le)

lemma length_slot_tab [simp]: "length (slot_tab d b n) = n"
  by (simp add: slot_tab_def)

lemma length_slots [simp]: "length (slots d b) = unat (fd_slot_count d)"
  by (simp add: slots_def)

lemma take_slot_tab: "k \<le> n \<Longrightarrow> take k (slot_tab d b n) = slot_tab d b k"
  by (simp add: slot_tab_def take_map)

text \<open>Writing a run of slots.\<close>

lemma write_slots_tables:
  assumes "write_slots d xs b = Inr b'" and "\<forall>(j, sl) \<in> set xs. j < unat (fd_capacity d)"
  shows "length b' = length b \<and> slot_tab d b' n = fold (\<lambda>(j, sl) t. t[j := sl]) xs (slot_tab d b n) \<and>
    won_list (sorted_offset d) b' m = won_list (sorted_offset d) b m \<and> fd_of b' = fd_of b \<and>
    (off + len \<le> HEADER_LEN \<longrightarrow> slice b' off len = slice b off len)"
  using assms
proof (induction xs arbitrary: b)
  case Nil
  then show ?case by (simp add: write_slots_def)
next
  case (Cons x xs)
  obtain j sl where x: "x = (j, sl)" by fastforce
  with Cons.prems obtain b1 where w: "write_slot d b j sl = Inr b1" and r: "write_slots d xs b1 = Inr b'"
    by (auto simp: write_slots_def)
  have j: "j < unat (fd_capacity d)" using Cons.prems(2) x by simp
  note t = write_slot_tables [OF w j]
  from Cons.IH [OF r] Cons.prems(2) t x show ?case by simp
qed

lemma fold_updates:
  "fold (\<lambda>(j, sl) t. t[j := sl]) (map (\<lambda>(k, y). (m + k, g y)) (enumerate i ys)) t =
    take (m + i) t @ take (length t - (m + i)) (map g ys) @ drop (m + i + length ys) t"
proof (induction ys arbitrary: i t)
  case (Cons y ys)
  have "t[m + i := g y] = take (m + i) t @ take (length t - (m + i)) [g y] @ drop (m + i + 1) t"
    by (cases "m + i < length t") (simp_all add: upd_conv_take_nth_drop list_update_beyond)
  then show ?case using Cons.IH [of "Suc i" "t[m + i := g y]"]
    by (cases "m + i < length t") (simp_all add: take_Suc_conv_app_nth Suc_diff_Suc [symmetric] add.commute)
qed simp

section \<open>The frontier\<close>

lemma frontier_tables:
  assumes "fd_mode d = MODE_OPEN" and "length bs \<le> FRONTIER_LEN"
  shows "slot_tab d (splice b (frontier_offset d) bs) n = slot_tab d b n"
    and "won_list (sorted_offset d) (splice b (frontier_offset d) bs) m = won_list (sorted_offset d) b m"
    and "fd_of (splice b (frontier_offset d) bs) = fd_of b"
proof -
  have so: "frontier_offset d + length bs \<le> slots_offset d"
    using assms by (simp add: frontier_offset_def slots_offset_def)
  show "slot_tab d (splice b (frontier_offset d) bs) n = slot_tab d b n"
    by (rule slot_tab_eq) (rule slice_splice_other, use so in linarith)
  show "won_list (sorted_offset d) (splice b (frontier_offset d) bs) m = won_list (sorted_offset d) b m"
    by (rule won_list_eq, rule slice_splice_other) (use so layout(2) [of d] in linarith)
  show "fd_of (splice b (frontier_offset d) bs) = fd_of b" by (rule splice_header) (simp add: frontier_offset_def)
qed

section \<open>A won interval\<close>

lemma won_insert_tables:
  assumes "won_insert d b st w = Inr (d', b')" and "sorted (map fst (won d b))" and "full d b"
    and "unat (fd_won_count d) < unat (fd_capacity d)"
  shows "d' = d\<lparr>fd_won_count := fd_won_count d + 1\<rparr>" and "length b' = length b" and "won d' b' = insert_won st w (won d b)"
    and "n \<le> unat (fd_capacity d) \<Longrightarrow> slot_tab d b' n = slot_tab d b n"
    and "off + len \<le> HEADER_LEN \<Longrightarrow> slice b' off len = slice b off len"
proof -
  have "sorted_offset d + 16 * (unat (fd_won_count d) + 1) \<le> length b"
    using won_fits [of "unat (fd_won_count d) + 1" d] assms(3,4) by (simp add: full_def)
  note s = won_insert_spec [OF assms(2) won_def refl refl this assms(1)]
  show d': "d' = d\<lparr>fd_won_count := fd_won_count d + 1\<rparr>" and "length b' = length b" by (fact s)+
  have "unat (fd_won_count d) + 1 < 2 ^ 16"
    using assms(4) unsigned_less [of "fd_capacity d", where 'a = nat] by simp
  then have "unat (fd_won_count d + 1) = unat (fd_won_count d) + 1" by (simp add: unat_word_ariths)
  then show "won d' b' = insert_won st w (won d b)" using s(3) by (simp add: won_def d' sorted_offset_def slots_offset_def)
  show "slot_tab d b' n = slot_tab d b n" if "n \<le> unat (fd_capacity d)"
    by (rule slot_tab_eq) (rule s(4), rule slot_fits, use that in simp)
  show "slice b' off len = slice b off len" if "off + len \<le> HEADER_LEN"
    by (rule s(4)) (use that layout [of d] in linarith)
qed

lemma remap_won_ok:
  assumes "full d b" and "unat (fd_won_count d) \<le> unat (fd_capacity d)"
  shows "remap_won d b [0..<unat (fd_won_count d)] u = Inr (remap u (won d b))"
proof -
  have "\<forall>k \<in> set [0..<unat (fd_won_count d)]. sorted_offset d + 16 * k + 16 \<le> length b"
  proof
    fix k assume "k \<in> set [0..<unat (fd_won_count d)]"
    then have "k + 1 \<le> unat (fd_capacity d)" using assms(2) by simp
    from won_fits [OF this] assms(1) show "sorted_offset d + 16 * k + 16 \<le> length b" by (simp add: full_def)
  qed
  from remap_won_list [OF this] show ?thesis by (simp add: won_def won_list_def)
qed

end
