(* ===== verification/FdInv.thy ===== *)
theory FdInv
  imports FdTables FdGrow "HOL-Library.Multiset"
begin

text \<open>
  The invariant of a draw account of \<open>null_fair_draw\<close>: the fixed terms, the phase of the round, the
  accounting of every prize, and the won table as the sorted intervals of the winner slots. It is a
  predicate on the header, the list of slots and the list of won intervals; \<open>FdKeep\<close> shows that each
  change the handlers make keeps it.
\<close>

section \<open>Terms and amounts\<close>

definition prizes :: "fair_draw \<Rightarrow> nat" where
  "prizes d = sum_list (map (\<lambda>t. unat (tr_count t)) (take (unat (fd_tier_count d)) (fd_tiers d)))"

definition prize_sum :: "fair_draw \<Rightarrow> nat" where
  "prize_sum d = sum_list (map (\<lambda>t. unat (tr_count t) * unat (tr_amount t)) (take (unat (fd_tier_count d)) (fd_tiers d)))"

definition terms_ok :: "fair_draw \<Rightarrow> bool" where
  "terms_ok d \<longleftrightarrow> fd_wf d \<and> fd_mode d \<le> MODE_LIST \<and> unat (fd_tier_count d) \<le> 8 \<and> fd_redraw_rounds d \<le> 3 \<and>
     MIN_CLAIM_WINDOW_SLOTS \<le> fd_claim_window_slots d \<and> 0 < prizes d \<and>
     unat (fd_capacity d) = prizes d * (1 + unat (fd_redraw_rounds d)) \<and> unat (fd_capacity d) \<le> MAX_SLOTS \<and>
     unat (fd_total_prize d) = prize_sum d"

definition fd_terms :: "fair_draw \<Rightarrow> fair_draw \<Rightarrow> bool" where
  "fd_terms d e \<longleftrightarrow> fd_mode e = fd_mode d \<and> fd_weighted e = fd_weighted d \<and> fd_tier_count e = fd_tier_count d \<and>
     fd_redraw_rounds e = fd_redraw_rounds d \<and> fd_claim_window_slots e = fd_claim_window_slots d \<and>
     fd_tiers e = fd_tiers d \<and> fd_capacity e = fd_capacity d \<and> fd_total_prize e = fd_total_prize d \<and>
     fd_organizer e = fd_organizer d \<and> fd_draw_id e = fd_draw_id d \<and> fd_bump e = fd_bump d \<and> fd_vault_bump e = fd_vault_bump d \<and>
     fd_prize_mint e = fd_prize_mint d \<and> fd_entry_mint e = fd_entry_mint d \<and> fd_fee_dest e = fd_fee_dest d \<and>
     fd_entry_price e = fd_entry_price d \<and> fd_wallet_cap e = fd_wallet_cap d \<and> fd_close_slot e = fd_close_slot d"

lemma fd_terms_refl [simp]: "fd_terms d d"
  by (simp add: fd_terms_def)

lemma fd_terms_trans: "fd_terms d e \<Longrightarrow> fd_terms e f \<Longrightarrow> fd_terms d f"
  by (simp add: fd_terms_def)

lemma fd_terms_shape: "fd_terms d e \<Longrightarrow> same_shape d e"
  by (simp add: fd_terms_def same_shape_def)

lemma terms_ok_same: "fd_terms d e \<Longrightarrow> terms_ok d \<Longrightarrow> fd_wf e \<Longrightarrow> terms_ok e"
  by (simp add: fd_terms_def terms_ok_def prizes_def prize_sum_def)

lemma fd_terms_prizes: "fd_terms d e \<Longrightarrow> prizes e = prizes d"
  by (simp add: fd_terms_def prizes_def)

definition amount_of :: "fair_draw \<Rightarrow> draw_slot \<Rightarrow> nat" where
  "amount_of d sl = unat (tr_amount (fd_tiers d ! unat (sl_tier sl)))"

definition is_open :: "draw_slot \<Rightarrow> bool" where
  "is_open sl \<longleftrightarrow> sl_status sl = SLOT_PENDING \<or> sl_status sl = SLOT_WON"

definition is_winner :: "draw_slot \<Rightarrow> bool" where
  "is_winner sl \<longleftrightarrow> sl_status sl = SLOT_WON \<or> sl_status sl = SLOT_CLAIMED \<or> sl_status sl = SLOT_FORFEITED"

definition owes :: "fair_draw \<Rightarrow> draw_slot \<Rightarrow> nat" where
  "owes d sl = (if is_open sl then amount_of d sl else 0)"

definition owed :: "fair_draw \<Rightarrow> draw_slot list \<Rightarrow> nat" where
  "owed d sls = sum_list (map (owes d) sls)"

definition interval :: "draw_slot \<Rightarrow> u64 \<times> u64" where
  "interval sl = (sl_start sl, sl_weight sl)"

definition won_set :: "draw_slot list \<Rightarrow> (u64 \<times> u64) multiset" where
  "won_set sls = image_mset interval (filter_mset is_winner (mset sls))"

lemma tier_amount_Inr: "fd_wf d \<Longrightarrow> tier_amount d t = Inr a \<longleftrightarrow> unat t < 8 \<and> a = tr_amount (fd_tiers d ! unat t)"
  by (auto simp: tier_amount_def fd_wf_def get_at_def split: option.splits)

lemma owes_terms: "fd_terms d e \<Longrightarrow> owes e = owes d"
  by (simp add: owes_def amount_of_def fd_terms_def fun_eq_iff)

lemma owed_terms: "fd_terms d e \<Longrightarrow> owed e = owed d"
  by (simp add: owed_def owes_terms fun_eq_iff)

lemma owed_update: "j < length sls \<Longrightarrow> owed d (sls[j := sl]) + owes d (sls ! j) = owed d sls + owes d sl"
proof -
  assume j: "j < length sls"
  have "owes d (sls ! j) \<le> sum_list (map (owes d) sls)" using j by (intro member_le_sum_list) simp_all
  then show ?thesis using j by (simp add: owed_def map_update sum_list_update)
qed

lemma won_set_update:
  assumes "j < length sls" and "\<not> is_winner (sls ! j)"
  shows "won_set (sls[j := sl]) = (if is_winner sl then add_mset (interval sl) (won_set sls) else won_set sls)"
proof -
  have e: "filter_mset is_winner (mset sls - {#sls ! j#}) = filter_mset is_winner (mset sls)"
    using assms(2) by (metis add_mset_remove_trivial_eq filter_mset_add_mset insert_DiffM diff_single_trivial)
  show ?thesis using assms(1) by (simp add: won_set_def mset_update e del: filter_diff_mset)
qed

lemma won_set_same:
  assumes "j < length sls" and "is_winner (sls ! j)" and "is_winner sl" and "interval sl = interval (sls ! j)"
  shows "won_set (sls[j := sl]) = won_set sls"
proof -
  have "mset sls = add_mset (sls ! j) (mset sls - {#sls ! j#})" using assms(1) by simp
  then have "won_set sls = add_mset (interval (sls ! j)) (image_mset interval (filter_mset is_winner (mset sls - {#sls ! j#})))"
    using assms(2) unfolding won_set_def by (metis filter_mset_add_mset image_mset_add_mset)
  then show ?thesis using assms by (simp add: won_set_def mset_update)
qed

lemma won_set_append: "won_set (xs @ ys) = won_set xs + won_set ys"
  by (simp add: won_set_def)

lemma won_set_none: "\<forall>sl \<in> set xs. \<not> is_winner sl \<Longrightarrow> won_set xs = {#}"
proof -
  assume a: "\<forall>sl \<in> set xs. \<not> is_winner sl"
  then have "filter_mset is_winner (mset xs) = {#}" by (induction xs) simp_all
  then show ?thesis by (simp add: won_set_def)
qed

section \<open>Winners\<close>

text \<open>The hash alone decides what the tree functions compute.\<close>

definition hash_rt :: "(bytes list \<Rightarrow> bytes) \<Rightarrow> runtime" where
  "hash_rt H = ref_runtime\<lparr>hashv := H\<rparr>"

lemma hash_rts:
  assumes h: "hashv rt = H"
  shows "entry_leaf rt = entry_leaf (hash_rt H)" and "tree_verify rt = tree_verify (hash_rt H)"
    and "verify_pairs rt = verify_pairs (hash_rt H)"
proof -
  have n: "node_hash rt = node_hash (hash_rt H)"
    using h by (intro ext) (simp add: node_hash_def hash_rt_def)
  then have s: "sum_node rt = sum_node (hash_rt H)" by (intro ext) (simp add: sum_node_def split: option.split)
  have v: "verify_levels rt i path ls acc pre = verify_levels (hash_rt H) i path ls acc pre" for i path ls acc pre
    by (induction ls arbitrary: acc pre) (simp_all add: s Let_def split: option.split)
  have p: "node_pairs rt i ss acc = node_pairs (hash_rt H) i ss acc" for i ss acc
    by (induction ss arbitrary: i acc) (simp_all add: n Let_def)
  show "entry_leaf rt = entry_leaf (hash_rt H)" using h by (intro ext) (simp add: entry_leaf_def hash_rt_def)
  show "tree_verify rt = tree_verify (hash_rt H)" by (intro ext) (simp add: tree_verify_def v)
  show "verify_pairs rt = verify_pairs (hash_rt H)" by (intro ext) (simp add: verify_pairs_def p)
qed

text \<open>
  The interval of a winner is one that a proof showed under the committed root, for the entry of the
  slot's wallet, hashing only inputs of \<open>S\<close>; in an unweighted draw it is the drawn leaf index.
\<close>

definition authentic :: "(bytes list \<Rightarrow> bytes) \<Rightarrow> (pair \<times> pair) set \<Rightarrow> key \<Rightarrow> fair_draw \<Rightarrow> draw_slot \<Rightarrow> bool" where
  "authentic H S k d sl \<longleftrightarrow>
     (if fd_weighted d then
        (\<exists>path wallet. (wallet = sl_wallet sl \<or> wallet = replicate 32 0) \<and>
           tree_verify (hash_rt H) (fd_root d) (fd_total_weight d) (unat (fd_depth d)) (fd_leaf_count d) (sl_leaf_index sl)
            (entry_leaf (hash_rt H) k wallet (sl_weight sl)) (sl_weight sl) path = Some (sl_start sl) \<and>
           verify_pairs (hash_rt H) (unat (fd_depth d)) (sl_leaf_index sl) (entry_leaf (hash_rt H) k wallet (sl_weight sl))
             (sl_weight sl) path \<subseteq> S)
      else sl_weight sl = 1 \<and> sl_leaf_index sl = sl_start sl \<and> sl_start sl < fd_total_weight d)"

lemma authenticI:
  assumes "fd_weighted d" and "wallet = sl_wallet sl \<or> wallet = replicate 32 0"
    and "tree_verify (hash_rt H) (fd_root d) (fd_total_weight d) (unat (fd_depth d)) (fd_leaf_count d) (sl_leaf_index sl)
      (entry_leaf (hash_rt H) k wallet (sl_weight sl)) (sl_weight sl) path = Some (sl_start sl)"
    and "verify_pairs (hash_rt H) (unat (fd_depth d)) (sl_leaf_index sl) (entry_leaf (hash_rt H) k wallet (sl_weight sl))
      (sl_weight sl) path \<subseteq> S"
  shows "authentic H S k d sl"
  using assms unfolding authentic_def by auto

definition same_entries :: "fair_draw \<Rightarrow> fair_draw \<Rightarrow> bool" where
  "same_entries d e \<longleftrightarrow> fd_weighted e = fd_weighted d \<and> fd_root e = fd_root d \<and> fd_total_weight e = fd_total_weight d \<and>
     fd_depth e = fd_depth d \<and> fd_leaf_count e = fd_leaf_count d"

lemma authentic_same: "same_entries d e \<Longrightarrow> authentic H S k e = authentic H S k d"
  by (intro ext) (simp add: authentic_def same_entries_def)

lemma authentic_mono: "authentic H S k d sl \<Longrightarrow> S \<subseteq> T \<Longrightarrow> authentic H T k d sl"
  unfolding authentic_def by (simp split: if_splits) blast

lemma authentic_range:
  assumes "authentic H S k d sl"
  shows "unat (sl_start sl) + unat (sl_weight sl) \<le> unat (fd_total_weight d)"
  using assms
  by (auto simp: authentic_def word_less_nat_alt dest: tree_verify_range split: if_splits)

text \<open>Two authentic intervals are the same or do not meet.\<close>

lemma authentic_apart:
  assumes "authentic H S k d x" and "authentic H S k d y" and "node_inj (hash_rt H) S"
  shows "interval x = interval y \<or> unat (sl_start x) + unat (sl_weight x) \<le> unat (sl_start y) \<or>
    unat (sl_start y) + unat (sl_weight y) \<le> unat (sl_start x)"
proof (cases "fd_weighted d")
  case True
  with assms(1,2) obtain p q u v where
    "tree_verify (hash_rt H) (fd_root d) (fd_total_weight d) (unat (fd_depth d)) (fd_leaf_count d) (sl_leaf_index x)
      (entry_leaf (hash_rt H) k u (sl_weight x)) (sl_weight x) p = Some (sl_start x)"
    "tree_verify (hash_rt H) (fd_root d) (fd_total_weight d) (unat (fd_depth d)) (fd_leaf_count d) (sl_leaf_index y)
      (entry_leaf (hash_rt H) k v (sl_weight y)) (sl_weight y) q = Some (sl_start y)"
    "verify_pairs (hash_rt H) (unat (fd_depth d)) (sl_leaf_index x) (entry_leaf (hash_rt H) k u (sl_weight x)) (sl_weight x) p \<subseteq> S"
    "verify_pairs (hash_rt H) (unat (fd_depth d)) (sl_leaf_index y) (entry_leaf (hash_rt H) k v (sl_weight y)) (sl_weight y) q \<subseteq> S"
    unfolding authentic_def by (auto split: if_splits)
  from tree_verify_two [OF assms(3) this] show ?thesis by (auto simp: interval_def)
next
  case False
  with assms(1,2) have "sl_weight x = 1" "sl_weight y = 1" by (simp_all add: authentic_def)
  then show ?thesis by (cases "sl_start x" "sl_start y" rule: linorder_cases) (auto simp: interval_def word_less_nat_alt)
qed

section \<open>The phases\<close>

definition early_ok :: "fair_draw \<Rightarrow> bool" where
  "early_ok d \<longleftrightarrow> fd_round d = 0 \<and> fd_round_first_slot d = 0 \<and> fd_next_slot d = 0 \<and> unat (fd_slot_count d) = prizes d \<and>
     fd_won_count d = 0 \<and> fd_won_weight d = 0 \<and> fd_refundable d = 0 \<and> fd_paid d = 0 \<and> fd_returned d = 0 \<and>
     fd_window_end d = 0"

text \<open>
  The slots before the current round are settled; those of the round up to the next slot are drawn,
  the rest are pending.
\<close>

definition round_ok :: "fair_draw \<Rightarrow> draw_slot list \<Rightarrow> bool" where
  "round_ok d sls \<longleftrightarrow> fd_round d \<le> fd_redraw_rounds d \<and>
     unat (fd_round_first_slot d) \<le> unat (fd_next_slot d) \<and> unat (fd_next_slot d) \<le> unat (fd_slot_count d) \<and>
     unat (fd_round_first_slot d) < unat (fd_slot_count d) \<and>
     unat (fd_slot_count d) \<le> prizes d * (1 + unat (fd_round d)) \<and>
     unat (fd_slot_count d) - unat (fd_round_first_slot d) \<le> prizes d \<and> length sls = unat (fd_slot_count d) \<and>
     (\<forall>j < unat (fd_round_first_slot d). \<not> is_open (sls ! j)) \<and>
     (\<forall>j < length sls. unat (fd_round_first_slot d) \<le> j \<longrightarrow> sl_round (sls ! j) = fd_round d) \<and>
     (\<forall>j < unat (fd_next_slot d). sl_status (sls ! j) \<noteq> SLOT_PENDING) \<and>
     (\<forall>j < length sls. unat (fd_next_slot d) \<le> j \<longrightarrow> sl_status (sls ! j) = SLOT_PENDING)"

definition phase_ok :: "fair_draw \<Rightarrow> draw_slot list \<Rightarrow> bool" where
  "phase_ok d sls \<longleftrightarrow>
     (if fd_status d = STATUS_FUNDED then early_ok d \<and> round_ok d sls
      else if fd_status d = STATUS_AWAIT_DRAW then round_ok d sls \<and> fd_next_slot d = fd_round_first_slot d \<and>
        fd_returned d = 0 \<and> fd_window_end d = 0
      else if fd_status d = STATUS_RESOLVING then round_ok d sls \<and> fd_returned d = 0 \<and>
        (fd_window_end d = 0 \<longleftrightarrow> fd_next_slot d \<noteq> fd_slot_count d)
      else fd_status d = STATUS_COMPLETE \<and> unat (fd_slot_count d) \<le> unat (fd_capacity d) \<and> (\<forall>sl \<in> set sls. \<not> is_open sl))"

definition money_ok :: "fair_draw \<Rightarrow> draw_slot list \<Rightarrow> bool" where
  "money_ok d sls \<longleftrightarrow> fd_funded d = fd_total_prize d \<and> (\<forall>sl \<in> set sls. unat (sl_tier sl) < 8) \<and>
     unat (fd_paid d) + unat (fd_returned d) + unat (fd_refundable d) + owed d sls = unat (fd_funded d)"

definition wins_ok :: "(bytes list \<Rightarrow> bytes) \<Rightarrow> (pair \<times> pair) set \<Rightarrow> key \<Rightarrow> fair_draw \<Rightarrow> draw_slot list \<Rightarrow> (u64 \<times> u64) list \<Rightarrow> bool" where
  "wins_ok H S k d sls ws \<longleftrightarrow> won_ok 0 (unat (fd_total_weight d)) ws \<and> unat (fd_won_weight d) = won_sum ws \<and>
     length ws = unat (fd_won_count d) \<and> mset ws = won_set sls \<and>
     (\<forall>sl \<in> set sls. is_winner sl \<longrightarrow> sl_weight sl \<noteq> 0 \<and> authentic H S k d sl)"

definition dinv :: "(bytes list \<Rightarrow> bytes) \<Rightarrow> (pair \<times> pair) set \<Rightarrow> key \<Rightarrow> fair_draw \<Rightarrow> draw_slot list \<Rightarrow> (u64 \<times> u64) list \<Rightarrow> bool" where
  "dinv H S k d sls ws \<longleftrightarrow> terms_ok d \<and>
     (if fd_status d = STATUS_CREATED then early_ok d \<and> fd_funded d = 0
      else phase_ok d sls \<and> money_ok d sls \<and> wins_ok H S k d sls ws)"

definition draw_inv :: "(bytes list \<Rightarrow> bytes) \<Rightarrow> (pair \<times> pair) set \<Rightarrow> key \<Rightarrow> fair_draw \<Rightarrow> bytes \<Rightarrow> bool" where
  "draw_inv H S k d b \<longleftrightarrow> dinv H S k d (slots d b) (won d b) \<and> (if fd_status d = STATUS_CREATED then length b \<le> fd_len d else full d b)"

lemma won_size:
  assumes "wins_ok H S k d sls ws"
  shows "unat (fd_won_count d) = size (filter_mset is_winner (mset sls))" and "unat (fd_won_count d) \<le> length sls"
proof -
  have "size (mset ws) = size (won_set sls)" using assms by (simp add: wins_ok_def)
  then show "unat (fd_won_count d) = size (filter_mset is_winner (mset sls))"
    using assms by (simp add: won_set_def wins_ok_def)
  also have "\<dots> \<le> size (mset sls)" by (rule size_mset_mono) (rule multiset_filter_subset)
  finally show "unat (fd_won_count d) \<le> length sls" by simp
qed

lemma round_capacity:
  assumes "terms_ok d" and "round_ok d sls"
  shows "unat (fd_slot_count d) \<le> unat (fd_capacity d)"
proof -
  have "unat (fd_round d) \<le> unat (fd_redraw_rounds d)" using assms(2) by (simp add: round_ok_def word_le_nat_alt)
  then have "prizes d * (1 + unat (fd_round d)) \<le> prizes d * (1 + unat (fd_redraw_rounds d))"
    by (intro mult_le_mono2) simp
  moreover have "unat (fd_slot_count d) \<le> prizes d * (1 + unat (fd_round d))" using assms(2) unfolding round_ok_def by blast
  moreover have "unat (fd_capacity d) = prizes d * (1 + unat (fd_redraw_rounds d))" using assms(1) unfolding terms_ok_def by blast
  ultimately show ?thesis by linarith
qed

lemma phase_capacity:
  assumes "terms_ok d" and "phase_ok d sls"
  shows "unat (fd_slot_count d) \<le> unat (fd_capacity d)"
  using assms round_capacity [OF assms(1)] by (auto simp: phase_ok_def split: if_splits)

lemma dinv_mono: "dinv H S k d sls ws \<Longrightarrow> S \<subseteq> T \<Longrightarrow> dinv H T k d sls ws"
  by (auto simp: dinv_def wins_ok_def intro: authentic_mono [where S = S])

lemma draw_inv_mono: "draw_inv H S k d b \<Longrightarrow> S \<subseteq> T \<Longrightarrow> draw_inv H T k d b"
  using dinv_mono by (auto simp: draw_inv_def)

end
