(* ===== verification/FdKeep.thy ===== *)
theory FdKeep
  imports FdInv
begin

text \<open>
  The changes the handlers of \<open>null_fair_draw\<close> make to a draw, as changes of the header, the slots and
  the won intervals, and the proof that each keeps the invariant.
\<close>

definition same_progress :: "fair_draw \<Rightarrow> fair_draw \<Rightarrow> bool" where
  "same_progress d e \<longleftrightarrow> fd_round e = fd_round d \<and> fd_round_first_slot e = fd_round_first_slot d \<and> fd_next_slot e = fd_next_slot d \<and>
     fd_slot_count e = fd_slot_count d \<and> fd_won_count e = fd_won_count d \<and> fd_won_weight e = fd_won_weight d \<and>
     fd_refundable e = fd_refundable d \<and> fd_paid e = fd_paid d \<and> fd_returned e = fd_returned d \<and>
     fd_window_end e = fd_window_end d \<and> fd_funded e = fd_funded d"

lemma progress_ok:
  assumes "fd_terms d e" and "same_progress d e"
  shows "early_ok e = early_ok d" and "round_ok e = round_ok d" and "money_ok e = money_ok d"
  using assms owed_terms [OF assms(1)] fd_terms_prizes [OF assms(1)]
  by (simp_all add: same_progress_def early_ok_def round_ok_def money_ok_def fun_eq_iff) (simp_all add: fd_terms_def)

lemma pending_not_winner: "sl_status sl = SLOT_PENDING \<Longrightarrow> \<not> is_winner sl"
  by (simp add: is_winner_def)

section \<open>Before the draw\<close>

lemma early_no_winner:
  assumes "early_ok d" and "round_ok d sls" and "wins_ok H S k d sls ws"
  shows "\<forall>sl \<in> set sls. sl_status sl = SLOT_PENDING" and "ws = []"
proof -
  show p: "\<forall>sl \<in> set sls. sl_status sl = SLOT_PENDING"
    using assms(1,2) by (auto simp: early_ok_def round_ok_def in_set_conv_nth)
  show "ws = []" using assms(1,3) by (simp add: wins_ok_def early_ok_def)
qed

text \<open>Entries change only before the draw, when nothing is won.\<close>

lemma entries_dinv:
  assumes inv: "dinv H S k d sls ws" and st: "fd_status d = STATUS_FUNDED" and "fd_terms d e" and "same_progress d e"
    and "fd_wf e" and st': "fd_status e = STATUS_FUNDED \<or> fd_status e = STATUS_AWAIT_DRAW"
  shows "dinv H S k e sls ws"
proof -
  note p = progress_ok [OF assms(3,4)]
  from inv st have d: "terms_ok d" "early_ok d" "round_ok d sls" "money_ok d sls" "wins_ok H S k d sls ws"
    by (simp_all add: dinv_def phase_ok_def)
  note n = early_no_winner [OF d(2,3,5)]
  have "wins_ok H S k e sls ws"
    using d(2,5) n assms(4) pending_not_winner by (auto simp: wins_ok_def early_ok_def same_progress_def)
  moreover have "phase_ok e sls" using st' d(2,3) p assms(4) by (auto simp: phase_ok_def early_ok_def same_progress_def)
  ultimately show ?thesis using terms_ok_same [OF assms(3) d(1) assms(5)] d(4) p(3) st' by (auto simp: dinv_def)
qed

lemma seed_dinv:
  assumes inv: "dinv H S k d sls ws" and st: "fd_status d = STATUS_FUNDED \<or> fd_status d = STATUS_AWAIT_DRAW"
    and "fd_terms d e" and "same_progress d e" and "same_entries d e" and "fd_wf e" and "fd_status e = STATUS_RESOLVING"
  shows "dinv H S k e sls ws"
proof -
  note p = progress_ok [OF assms(3,4)]
  from inv st have d: "terms_ok d" "phase_ok d sls" "money_ok d sls" "wins_ok H S k d sls ws"
    by (auto simp: dinv_def)
  have "fd_next_slot d = fd_round_first_slot d \<and> fd_window_end d = 0 \<and> fd_returned d = 0 \<and> round_ok d sls"
    using d(2) st by (auto simp: phase_ok_def early_ok_def)
  then have "phase_ok e sls"
    using assms(7) p assms(4) by (auto simp: phase_ok_def same_progress_def round_ok_def)
  moreover have "wins_ok H S k e sls ws"
    using d(4) assms(4) authentic_same [OF assms(5)] assms(5) by (simp add: wins_ok_def same_progress_def same_entries_def)
  ultimately show ?thesis using terms_ok_same [OF assms(3) d(1) assms(6)] d(3) p(3) assms(7) by (auto simp: dinv_def)
qed

lemma slot_tiers_length:
  assumes "length (fd_tiers d) = 8" and "unat (fd_tier_count d) \<le> 8"
  shows "length (slot_tiers d) = prizes d" and "\<forall>t \<in> set (slot_tiers d). t < 8"
    and "sum_list (map (\<lambda>ti. unat (tr_amount (fd_tiers d ! ti))) (slot_tiers d)) = prize_sum d"
proof -
  have t: "take n (fd_tiers d) = map (\<lambda>i. fd_tiers d ! i) [0..<n]" if "n \<le> 8" for n
    using that assms(1) by (intro nth_equalityI) simp_all
  show "length (slot_tiers d) = prizes d"
    by (simp add: slot_tiers_def prizes_def t [OF assms(2)] length_concat comp_def)
  show "\<forall>t \<in> set (slot_tiers d). t < 8" using assms(2) by (auto simp: slot_tiers_def)
  have c: "sum_list (map f (concat (map g xs))) = sum_list (map (\<lambda>x. sum_list (map f (g x))) xs)" for f :: "nat \<Rightarrow> nat" and g and xs :: "nat list"
    by (induction xs) simp_all
  show "sum_list (map (\<lambda>ti. unat (tr_amount (fd_tiers d ! ti))) (slot_tiers d)) = prize_sum d"
    by (simp add: slot_tiers_def prize_sum_def t [OF assms(2)] c sum_list_replicate comp_def)
qed

lemma fund_dinv:
  assumes inv: "dinv H S k d sls ws" and st: "fd_status d = STATUS_CREATED" and "fd_terms d e" and wf: "fd_wf e"
    and "same_progress (d\<lparr>fd_funded := fd_total_prize d\<rparr>) e" and "fd_status e = STATUS_FUNDED"
    and sls': "sls' = map (\<lambda>ti. pending_slot (of_nat ti) 0) (slot_tiers d)"
  shows "dinv H S k e sls' []"
proof -
  from inv st have d: "terms_ok d" "early_ok d" by (simp_all add: dinv_def)
  have "length (fd_tiers d) = 8" "unat (fd_tier_count d) \<le> 8" using d(1) by (simp_all add: terms_ok_def fd_wf_def)
  note sl = slot_tiers_length [OF this]
  have un: "unat (of_nat t :: u8) = t" if "t \<in> set (slot_tiers d)" for t
    using sl(2) that by (fastforce simp: unat_of_nat)
  have te: "terms_ok e" by (rule terms_ok_same [OF assms(3) d(1) wf])
  have pe: "prizes e = prizes d" by (rule fd_terms_prizes [OF assms(3)])
  have pos: "0 < prizes d" using d(1) by (simp add: terms_ok_def)
  have early: "early_ok e" using d(2) assms(5) pe by (simp add: early_ok_def same_progress_def)
  have pend: "sl_status x = SLOT_PENDING" "sl_round x = 0" if "x \<in> set sls'" for x
    using that by (auto simp: sls' pending_slot_def)
  have len: "length sls' = prizes d" by (simp add: sls' sl(1))
  have "round_ok e sls'"
    using early pe pos len pend by (auto simp: round_ok_def early_ok_def)
  moreover have "owed e sls' = unat (fd_total_prize d)"
  proof -
    have "owes e (pending_slot (of_nat t) 0) = unat (tr_amount (fd_tiers d ! t))" if "t \<in> set (slot_tiers d)" for t
      using un [OF that] assms(3) by (simp add: owes_def amount_of_def is_open_def pending_slot_def fd_terms_def)
    then have "owed e sls' = sum_list (map (\<lambda>ti. unat (tr_amount (fd_tiers d ! ti))) (slot_tiers d))"
      by (simp add: owed_def sls' comp_def cong: map_cong)
    with sl(3) d(1) show ?thesis by (simp add: terms_ok_def)
  qed
  then have "money_ok e sls'"
    using assms(3,5) d(2) sl(2) un
    by (auto simp: money_ok_def same_progress_def early_ok_def fd_terms_def sls' pending_slot_def)
  moreover have "wins_ok H S k e sls' []"
    using won_set_none [of sls'] pend pending_not_winner early by (auto simp: wins_ok_def early_ok_def)
  ultimately show ?thesis using te early assms(6) by (simp add: dinv_def phase_ok_def)
qed

lemma empty_dinv:
  assumes inv: "dinv H S k d sls ws" and st: "fd_status d = STATUS_FUNDED" and "fd_terms d e" and wf: "fd_wf e"
    and e: "same_progress (d\<lparr>fd_next_slot := fd_slot_count d, fd_refundable := fd_total_prize d\<rparr>) e" "fd_status e = STATUS_COMPLETE"
    and sls': "sls' = map (\<lambda>sl. sl\<lparr>sl_status := SLOT_VOID\<rparr>) sls"
  shows "dinv H S k e sls' ws"
proof -
  from inv st have d: "terms_ok d" "early_ok d" "round_ok d sls" "money_ok d sls" "wins_ok H S k d sls ws"
    by (simp_all add: dinv_def phase_ok_def)
  note n = early_no_winner [OF d(2,3,5)]
  have v: "\<not> is_open x \<and> \<not> is_winner x \<and> unat (sl_tier x) < 8" if "x \<in> set sls'" for x
    using that d(4) by (auto simp: sls' is_open_def is_winner_def money_ok_def)
  then have "owed e sls' = 0" by (simp add: owed_def owes_def)
  moreover have "fd_funded d = fd_total_prize d" using d(4) by (simp add: money_ok_def)
  ultimately have "money_ok e sls'"
    using v d(2) e assms(3) by (auto simp: money_ok_def same_progress_def early_ok_def fd_terms_def)
  moreover have "wins_ok H S k e sls' ws"
    using n(2) v won_set_none [of sls'] d(2) e by (auto simp: wins_ok_def early_ok_def same_progress_def)
  moreover have "unat (fd_slot_count e) \<le> unat (fd_capacity e)"
    using round_capacity [OF d(1,3)] e(1) assms(3) by (simp add: same_progress_def fd_terms_def)
  ultimately show ?thesis using terms_ok_same [OF assms(3) d(1) wf] v e(2) by (auto simp: dinv_def phase_ok_def)
qed

section \<open>Resolving\<close>

definition rinv :: "(bytes list \<Rightarrow> bytes) \<Rightarrow> (pair \<times> pair) set \<Rightarrow> key \<Rightarrow> fair_draw \<Rightarrow> draw_slot list \<Rightarrow> (u64 \<times> u64) list \<Rightarrow> bool" where
  "rinv H S k d sls ws \<longleftrightarrow> terms_ok d \<and> fd_status d = STATUS_RESOLVING \<and> round_ok d sls \<and> fd_returned d = 0 \<and>
     fd_window_end d = 0 \<and> money_ok d sls \<and> wins_ok H S k d sls ws"

lemma rinv_start:
  "dinv H S k d sls ws \<Longrightarrow> fd_status d = STATUS_RESOLVING \<Longrightarrow> fd_next_slot d < fd_slot_count d \<Longrightarrow> rinv H S k d sls ws"
  by (auto simp: dinv_def phase_ok_def rinv_def)

lemma rinv_end:
  assumes "rinv H S k d sls ws" and "e = (if fd_next_slot d = fd_slot_count d then d\<lparr>fd_window_end := w\<rparr> else d)" and "w \<noteq> 0"
  shows "dinv H S k e sls ws"
proof -
  have t: "fd_terms d e" "same_progress (d\<lparr>fd_window_end := fd_window_end e\<rparr>) e" by (simp_all add: assms(2) fd_terms_def same_progress_def)
  have "terms_ok e" using assms(1) by (auto simp: rinv_def assms(2) terms_ok_def fd_wf_def prizes_def prize_sum_def)
  moreover have "round_ok e sls" using assms(1) by (simp add: rinv_def assms(2) round_ok_def prizes_def)
  moreover have "money_ok e sls"
    using assms(1) unfolding money_ok_def owed_terms [OF t(1)] rinv_def by (auto simp: assms(2))
  moreover have "wins_ok H S k e sls ws"
    using assms(1) authentic_same [of d e H S k] by (simp add: rinv_def assms(2) wins_ok_def same_entries_def)
  moreover have "fd_status e = STATUS_RESOLVING" "fd_returned e = 0" using assms(1) by (simp_all add: rinv_def assms(2))
  moreover have "fd_window_end e = 0 \<longleftrightarrow> fd_next_slot e \<noteq> fd_slot_count e" using assms by (simp add: rinv_def)
  ultimately show ?thesis by (simp add: dinv_def phase_ok_def)
qed

lemma next_word: "(a :: u16) < b \<Longrightarrow> unat (a + 1) = unat a + 1"
proof -
  assume "a < b"
  then have "unat a + 1 < 2 ^ 16" using unsigned_less [of b, where 'a = nat] by (simp add: word_less_nat_alt)
  then show ?thesis by (simp add: unat_word_ariths)
qed

text \<open>Processing the next slot of the round leaves it drawn.\<close>

lemma round_step:
  assumes r: "round_ok d sls" and lt: "fd_next_slot d < fd_slot_count d" and "fd_terms d e"
    and e: "fd_round e = fd_round d" "fd_round_first_slot e = fd_round_first_slot d" "fd_next_slot e = fd_next_slot d + 1"
      "fd_slot_count e = fd_slot_count d"
    and sl: "sl_status sl \<noteq> SLOT_PENDING" "sl_round sl = sl_round (sls ! unat (fd_next_slot d))"
  shows "round_ok e (sls[unat (fd_next_slot d) := sl])"
proof -
  let ?j = "unat (fd_next_slot d)"
  have n: "unat (fd_next_slot e) = ?j + 1" using next_word [OF lt] e(3) by simp
  have j: "?j < unat (fd_slot_count d)" using lt by (simp add: word_less_nat_alt)
  show ?thesis
    using r j sl e fd_terms_prizes [OF assms(3)] assms(3)
    unfolding round_ok_def n by (auto simp: nth_list_update less_Suc_eq fd_terms_def)
qed

lemma void_rinv:
  assumes inv: "rinv H S k d sls ws" and lt: "fd_next_slot d < fd_slot_count d"
    and a: "tier_amount d (sl_tier (sls ! unat (fd_next_slot d))) = Inr a" and r: "fd_add (fd_refundable d) a = Inr r"
  shows "rinv H S k (d\<lparr>fd_refundable := r, fd_next_slot := fd_next_slot d + 1\<rparr>)
    (sls[unat (fd_next_slot d) := (sls ! unat (fd_next_slot d))\<lparr>sl_status := SLOT_VOID\<rparr>]) ws"
proof -
  let ?j = "unat (fd_next_slot d)" and ?e = "d\<lparr>fd_refundable := r, fd_next_slot := fd_next_slot d + 1\<rparr>"
  let ?sl = "(sls ! ?j)\<lparr>sl_status := SLOT_VOID\<rparr>"
  from inv have d: "terms_ok d" "round_ok d sls" "money_ok d sls" "wins_ok H S k d sls ws" by (simp_all add: rinv_def)
  have t: "fd_terms d ?e" by (simp add: fd_terms_def)
  have j: "?j < length sls" using d(2) lt by (simp add: round_ok_def word_less_nat_alt)
  have pend: "sl_status (sls ! ?j) = SLOT_PENDING" using d(2) j by (simp add: round_ok_def)
  have wf: "fd_wf d" using d(1) by (simp add: terms_ok_def)
  have am: "unat a = amount_of d (sls ! ?j)" using a by (simp add: tier_amount_Inr [OF wf] amount_of_def)
  have ru: "unat r = unat (fd_refundable d) + unat a" using r checked_add_unat by (auto simp: fd_add_def)
  have "round_ok ?e (sls[?j := ?sl])" by (rule round_step [OF d(2) lt t]) simp_all
  moreover have "owed d (sls[?j := ?sl]) + amount_of d (sls ! ?j) = owed d sls"
    using owed_update [OF j, of d ?sl] pend by (simp add: owes_def is_open_def)
  then have "money_ok ?e (sls[?j := ?sl])"
    using d(3) owed_terms [OF t] am ru j by (auto simp: money_ok_def dest!: set_update_subset_insert [THEN subsetD])
  moreover have "wins_ok H S k ?e (sls[?j := ?sl]) ws"
    using d(4) won_set_update [OF j, of ?sl] pend authentic_same [of d ?e H S k]
    by (auto simp: wins_ok_def is_winner_def same_entries_def dest!: set_update_subset_insert [THEN subsetD])
  moreover have "terms_ok ?e" by (rule terms_ok_same [OF t d(1)]) (use wf in \<open>simp add: fd_wf_def\<close>)
  ultimately show ?thesis using inv by (simp add: rinv_def)
qed

text \<open>Recording a winner whose interval is authentic and holds a point outside the won intervals.\<close>

lemma win_rinv:
  assumes inv: "rinv H S k d sls ws" and lt: "fd_next_slot d < fd_slot_count d"
    and auth: "authentic H S k d sl" and inj: "node_inj (hash_rt H) S" and nz: "sl_weight sl \<noteq> 0"
    and p: "p \<notin> won_points ws" "unat (sl_start sl) \<le> p" "p < unat (sl_start sl) + unat (sl_weight sl)"
    and sl: "sl_status sl = SLOT_WON" "sl_round sl = sl_round (sls ! unat (fd_next_slot d))" "sl_tier sl = sl_tier (sls ! unat (fd_next_slot d))"
    and w: "fd_add (fd_won_weight d) (sl_weight sl) = Inr w"
  shows "rinv H S k (d\<lparr>fd_won_count := fd_won_count d + 1, fd_won_weight := w, fd_next_slot := fd_next_slot d + 1\<rparr>)
    (sls[unat (fd_next_slot d) := sl]) (insert_won (sl_start sl) (sl_weight sl) ws)"
proof -
  let ?j = "unat (fd_next_slot d)"
  let ?e = "d\<lparr>fd_won_count := fd_won_count d + 1, fd_won_weight := w, fd_next_slot := fd_next_slot d + 1\<rparr>"
  from inv have d: "terms_ok d" "round_ok d sls" "money_ok d sls" "wins_ok H S k d sls ws" by (simp_all add: rinv_def)
  have t: "fd_terms d ?e" by (simp add: fd_terms_def)
  have j: "?j < length sls" using d(2) lt by (simp add: round_ok_def word_less_nat_alt)
  have pend: "sl_status (sls ! ?j) = SLOT_PENDING" using d(2) j by (simp add: round_ok_def)
  have wf: "fd_wf d" using d(1) by (simp add: terms_ok_def)
  have wu: "unat w = unat (fd_won_weight d) + unat (sl_weight sl)" using w checked_add_unat by (auto simp: fd_add_def)
  have "round_ok ?e (sls[?j := sl])" by (rule round_step [OF d(2) lt t]) (simp_all add: sl)
  moreover have "owed d (sls[?j := sl]) = owed d sls"
    using owed_update [OF j, of d sl] pend sl by (simp add: owes_def is_open_def amount_of_def)
  then have "money_ok ?e (sls[?j := sl])"
    using d(3) owed_terms [OF t] j sl by (auto simp: money_ok_def dest!: set_update_subset_insert [THEN subsetD])
  moreover have "wins_ok H S k ?e (sls[?j := sl]) (insert_won (sl_start sl) (sl_weight sl) ws)"
  proof -
    have set: "set ws = interval ` {x \<in> set sls. is_winner x}"
    proof -
      have "set_mset (mset ws) = set_mset (won_set sls)" using d(4) by (simp add: wins_ok_def)
      then show ?thesis by (simp add: won_set_def)
    qed
    have apart: "\<forall>(s', w') \<in> set ws. unat (sl_start sl) + unat (sl_weight sl) \<le> unat s' \<or> unat s' + unat w' \<le> unat (sl_start sl)"
    proof (safe)
      fix s' w' assume i: "(s', w') \<in> set ws" and n: "\<not> unat s' + unat w' \<le> unat (sl_start sl)"
      then obtain y where y: "y \<in> set sls" "is_winner y" "interval y = (s', w')" unfolding set by auto
      then have "authentic H S k d y" using d(4) by (auto simp: wins_ok_def)
      from authentic_apart [OF auth this inj] have "interval sl = (s', w') \<or>
          unat (sl_start sl) + unat (sl_weight sl) \<le> unat s' \<or> unat s' + unat w' \<le> unat (sl_start sl)"
        using y(3) by (simp add: interval_def)
      moreover have "interval sl \<noteq> (s', w')"
      proof
        assume "interval sl = (s', w')"
        then have "p \<in> won_points ws" using i p(2,3) by (auto simp: won_points_def interval_def intro!: bexI [of _ "(s', w')"])
        with p(1) show False by simp
      qed
      ultimately show "unat (sl_start sl) + unat (sl_weight sl) \<le> unat s'" using n by blast
    qed
    have "won_ok 0 (unat (fd_total_weight d)) (insert_won (sl_start sl) (sl_weight sl) ws)"
      by (rule won_ok_insert) (use d(4) authentic_range [OF auth] nz apart in \<open>auto simp: wins_ok_def\<close>)
    moreover have "mset (insert_won (sl_start sl) (sl_weight sl) ws) = add_mset (interval sl) (mset ws)"
      unfolding insert_won_def Let_def by (simp add: interval_def) (metis append_take_drop_id mset_append)
    moreover have "length (insert_won (sl_start sl) (sl_weight sl) ws) = unat (fd_won_count d + 1)"
    proof -
      have "first_above (sl_start sl) ws \<le> length ws" unfolding first_above_def by (rule length_takeWhile_le)
      moreover have "unat (fd_won_count d) + 1 < 2 ^ 16"
        using won_size(2) [OF d(4)] j round_capacity [OF d(1,2)] d(1,2) by (simp add: round_ok_def terms_ok_def)
      then have "unat (fd_won_count d + 1) = unat (fd_won_count d) + 1" by (simp add: unat_word_ariths)
      ultimately show ?thesis using d(4) by (simp add: insert_won_def Let_def wins_ok_def)
    qed
    moreover have "is_winner sl" using sl(1) by (simp add: is_winner_def)
    ultimately show ?thesis
      using d(4) won_set_update [OF j pending_not_winner [OF pend], of sl] authentic_same [of d ?e H S k] wu nz auth
      by (auto simp: wins_ok_def same_entries_def won_sum_insert dest!: set_update_subset_insert [THEN subsetD])
  qed
  moreover have "terms_ok ?e" by (rule terms_ok_same [OF t d(1)]) (use wf in \<open>simp add: fd_wf_def\<close>)
  ultimately show ?thesis using inv by (simp add: rinv_def)
qed

section \<open>After the draw\<close>

lemma claim_dinv:
  assumes inv: "dinv H S k d sls ws" and st: "fd_status d = STATUS_RESOLVING" and j: "j < unat (fd_next_slot d)"
    and won: "sl_status (sls ! j) = SLOT_WON"
    and a: "tier_amount d (sl_tier (sls ! j)) = Inr a" and pd: "fd_add (fd_paid d) a = Inr pd" and e: "e = d\<lparr>fd_paid := pd\<rparr>"
    and sl: "sl_status sl = SLOT_CLAIMED" "sl_round sl = sl_round (sls ! j)" "sl_tier sl = sl_tier (sls ! j)"
      "interval sl = interval (sls ! j)" "authentic H S k d sl"
  shows "dinv H S k e (sls[j := sl]) ws"
proof -
  from inv st have d: "terms_ok d" "phase_ok d sls" "round_ok d sls" "money_ok d sls" "wins_ok H S k d sls ws"
    by (simp_all add: dinv_def phase_ok_def)
  have t: "fd_terms d e" by (simp add: e fd_terms_def)
  have jl: "j < length sls" using d(3) j by (simp add: round_ok_def)
  have wf: "fd_wf d" using d(1) by (simp add: terms_ok_def)
  have am: "unat a = amount_of d (sls ! j)" using a by (simp add: tier_amount_Inr [OF wf] amount_of_def)
  have pu: "unat pd = unat (fd_paid d) + unat a" using pd checked_add_unat by (auto simp: fd_add_def)
  have first: "unat (fd_round_first_slot d) \<le> j"
  proof (rule ccontr)
    assume "\<not> unat (fd_round_first_slot d) \<le> j"
    then have "\<not> is_open (sls ! j)" using d(3) by (simp add: round_ok_def)
    with won show False by (simp add: is_open_def)
  qed
  have "round_ok e (sls[j := sl])"
    using d(3) j first sl fd_terms_prizes [OF t] by (auto simp: e round_ok_def nth_list_update)
  then have "phase_ok e (sls[j := sl])" using d(2) st by (simp add: phase_ok_def e)
  moreover have "owed d (sls[j := sl]) + amount_of d (sls ! j) = owed d sls"
    using owed_update [OF jl, of d sl] won sl(1) by (simp add: owes_def is_open_def)
  then have "money_ok e (sls[j := sl])"
    using d(4) owed_terms [OF t] am pu jl sl by (auto simp: e money_ok_def dest!: set_update_subset_insert [THEN subsetD])
  moreover have "wins_ok H S k e (sls[j := sl]) ws"
  proof -
    have w: "is_winner (sls ! j)" "is_winner sl" using won sl(1) by (simp_all add: is_winner_def)
    have "sl_weight sl \<noteq> 0" using d(5) jl w(1) sl(4) by (auto simp: wins_ok_def interval_def)
    then show ?thesis
      using d(5) won_set_same [OF jl w sl(4)] authentic_same [of d e H S k] sl(5)
      by (auto simp: e wins_ok_def same_entries_def dest!: set_update_subset_insert [THEN subsetD])
  qed
  moreover have "terms_ok e" by (rule terms_ok_same [OF t d(1)]) (use wf in \<open>simp add: e fd_wf_def\<close>)
  ultimately show ?thesis using st by (simp add: dinv_def e)
qed

lemma reclaim_dinv:
  assumes inv: "dinv H S k d sls ws" and st: "fd_status d = STATUS_COMPLETE" and r: "fd_add (fd_returned d) (fd_refundable d) = Inr r"
    and e: "e = d\<lparr>fd_returned := r, fd_refundable := 0\<rparr>"
  shows "dinv H S k e sls ws"
proof -
  have t: "fd_terms d e" by (simp add: e fd_terms_def)
  have "unat r = unat (fd_returned d) + unat (fd_refundable d)" using r checked_add_unat by (auto simp: fd_add_def)
  then have "money_ok e sls"
    using inv st unfolding money_ok_def owed_terms [OF t] by (auto simp: dinv_def money_ok_def e)
  moreover have "terms_ok e"
    by (rule terms_ok_same [OF t]) (use inv in \<open>simp_all add: e dinv_def terms_ok_def fd_wf_def\<close>)
  moreover have "wins_ok H S k e sls ws"
    using inv st authentic_same [of d e H S k] by (simp add: dinv_def e wins_ok_def same_entries_def)
  moreover have "phase_ok e sls" using inv st by (simp add: dinv_def e phase_ok_def)
  ultimately show ?thesis using st by (simp add: dinv_def e)
qed

section \<open>Advancing\<close>

definition forfeit :: "draw_slot \<Rightarrow> draw_slot" where
  "forfeit sl = (if sl_status sl = SLOT_WON then sl\<lparr>sl_status := SLOT_FORFEITED\<rparr> else sl)"

definition unclaimed :: "draw_slot list \<Rightarrow> u8 list" where
  "unclaimed sls = map sl_tier (filter (\<lambda>sl. sl_status sl = SLOT_WON) sls)"

definition tier_worth :: "fair_draw \<Rightarrow> u8 \<Rightarrow> nat" where
  "tier_worth d t = unat (tr_amount (fd_tiers d ! unat t))"

lemma forfeit_won_set: "won_set (map forfeit sls) = won_set sls"
proof (induction sls)
  case (Cons sl sls)
  have "won_set (x # xs) = (if is_winner x then {#interval x#} else {#}) + won_set xs" for x xs
    by (simp add: won_set_def)
  moreover have "is_winner (forfeit sl) = is_winner sl" "interval (forfeit sl) = interval sl"
    by (simp_all add: forfeit_def is_winner_def interval_def)
  ultimately show ?case using Cons by simp
qed simp

text \<open>When a round is drawn, its open prizes are exactly the unclaimed wins.\<close>

lemma drawn_round:
  assumes inv: "dinv H S k d sls ws" and st: "fd_status d = STATUS_RESOLVING" "fd_window_end d \<noteq> 0"
  shows "fd_next_slot d = fd_slot_count d" and "\<forall>sl \<in> set (map forfeit sls). \<not> is_open sl"
    and "owed d sls = sum_list (map (tier_worth d) (unclaimed sls))"
    and "length (unclaimed sls) \<le> unat (fd_slot_count d) - unat (fd_round_first_slot d)"
    and "unclaimed sls = unclaimed (drop (unat (fd_round_first_slot d)) sls)"
    and "map forfeit sls = take (unat (fd_round_first_slot d)) sls @ map forfeit (drop (unat (fd_round_first_slot d)) sls)"
proof -
  let ?f = "unat (fd_round_first_slot d)"
  from inv st have r: "round_ok d sls" and n: "fd_next_slot d = fd_slot_count d" by (auto simp: dinv_def phase_ok_def)
  show "fd_next_slot d = fd_slot_count d" by (rule n)
  have np: "sl_status sl \<noteq> SLOT_PENDING" if "sl \<in> set sls" for sl
    using that r n by (auto simp: round_ok_def in_set_conv_nth)
  then show "\<forall>sl \<in> set (map forfeit sls). \<not> is_open sl" by (auto simp: forfeit_def is_open_def)
  have "owes d sl = (if sl_status sl = SLOT_WON then tier_worth d (sl_tier sl) else 0)" if "sl \<in> set sls" for sl
    using np [OF that] by (simp add: owes_def is_open_def amount_of_def tier_worth_def)
  then have "owed d sls = sum_list (map (\<lambda>sl. if sl_status sl = SLOT_WON then tier_worth d (sl_tier sl) else 0) sls)"
    by (simp add: owed_def cong: map_cong)
  also have "\<dots> = sum_list (map (tier_worth d) (unclaimed sls))"
    unfolding unclaimed_def by (induction sls) simp_all
  finally show "owed d sls = sum_list (map (tier_worth d) (unclaimed sls))" .
  have old: "sl_status sl \<noteq> SLOT_WON" if "sl \<in> set (take ?f sls)" for sl
  proof -
    from that obtain i where "i < ?f" "i < length sls" "sl = sls ! i" by (auto simp: in_set_conv_nth)
    then have "\<not> is_open sl" using r by (simp add: round_ok_def)
    then show ?thesis by (simp add: is_open_def)
  qed
  have "unclaimed sls = unclaimed (take ?f sls) @ unclaimed (drop ?f sls)"
    unfolding unclaimed_def map_append [symmetric] filter_append [symmetric] by simp
  moreover have "unclaimed (take ?f sls) = []" using old by (simp add: unclaimed_def filter_empty_conv)
  ultimately show u: "unclaimed sls = unclaimed (drop ?f sls)" by simp
  have "length (unclaimed (drop ?f sls)) \<le> length (drop ?f sls)" unfolding unclaimed_def length_map by (rule length_filter_le)
  then show "length (unclaimed sls) \<le> unat (fd_slot_count d) - ?f" using r u by (simp add: round_ok_def)
  have "map forfeit (take ?f sls) = take ?f sls" by (rule map_idI) (use old in \<open>simp add: forfeit_def\<close>)
  then show "map forfeit sls = take ?f sls @ map forfeit (drop ?f sls)" by (metis append_take_drop_id map_append)
qed

lemma forfeit_wins:
  assumes "wins_ok H S k d sls ws"
  shows "wins_ok H S k d (map forfeit sls) ws"
proof -
  have "is_winner (forfeit sl) = is_winner sl" "sl_weight (forfeit sl) = sl_weight sl"
    "authentic H S k d (forfeit sl) = authentic H S k d sl" for sl
    by (simp_all add: forfeit_def is_winner_def authentic_def)
  then show ?thesis using assms by (auto simp: wins_ok_def forfeit_won_set)
qed

lemma complete_dinv:
  assumes inv: "dinv H S k d sls ws" and st: "fd_status d = STATUS_RESOLVING" "fd_window_end d \<noteq> 0"
    and r: "unat r = unat (fd_refundable d) + sum_list (map (tier_worth d) (unclaimed sls))"
    and e: "e = d\<lparr>fd_refundable := r, fd_status := STATUS_COMPLETE\<rparr>"
  shows "dinv H S k e (map forfeit sls) ws"
proof -
  note dr = drawn_round [OF inv st]
  have t: "fd_terms d e" by (simp add: e fd_terms_def)
  from inv st have d: "terms_ok d" "round_ok d sls" "money_ok d sls" "wins_ok H S k d sls ws"
    by (simp_all add: dinv_def phase_ok_def)
  have "owed d (map forfeit sls) = 0" using dr(2) by (simp add: owed_def owes_def)
  then have "money_ok e (map forfeit sls)"
    using d(3) r dr(3) unfolding money_ok_def owed_terms [OF t] by (auto simp: e forfeit_def)
  moreover have "wins_ok H S k e (map forfeit sls) ws"
    using forfeit_wins [OF d(4)] authentic_same [of d e H S k] by (simp add: e wins_ok_def same_entries_def)
  moreover have "phase_ok e (map forfeit sls)"
    using dr(2) round_capacity [OF d(1,2)] by (simp add: phase_ok_def e)
  moreover have "terms_ok e" by (rule terms_ok_same [OF t d(1)]) (use d(1) in \<open>simp add: e terms_ok_def fd_wf_def\<close>)
  ultimately show ?thesis by (simp add: dinv_def e)
qed

lemma next_dinv:
  assumes inv: "dinv H S k d sls ws" and st: "fd_status d = STATUS_RESOLVING" "fd_window_end d \<noteq> 0"
    and go: "unclaimed sls \<noteq> []" "fd_round d < fd_redraw_rounds d"
    and e: "e = d\<lparr>fd_round := fd_round d + 1, fd_round_first_slot := fd_slot_count d,
        fd_slot_count := fd_slot_count d + of_nat (length (unclaimed sls)), fd_rounds := rs,
        fd_window_end := 0, fd_status := STATUS_AWAIT_DRAW\<rparr>"
    and wf: "fd_wf e"
  shows "dinv H S k e (map forfeit sls @ map (\<lambda>t. pending_slot t (fd_round d + 1)) (unclaimed sls)) ws"
    and "unat (fd_slot_count e) = unat (fd_slot_count d) + length (unclaimed sls)"
    and "unat (fd_slot_count d) + length (unclaimed sls) \<le> unat (fd_capacity d)"
proof -
  let ?n = "length (unclaimed sls)" and ?c = "unat (fd_slot_count d)"
  let ?new = "map (\<lambda>t. pending_slot t (fd_round d + 1)) (unclaimed sls)"
  note dr = drawn_round [OF inv st]
  have t: "fd_terms d e" by (simp add: e fd_terms_def)
  from inv st have d: "terms_ok d" "round_ok d sls" "money_ok d sls" "wins_ok H S k d sls ws" "fd_returned d = 0"
    by (simp_all add: dinv_def phase_ok_def)
  have rd: "unat (fd_round d + 1) = unat (fd_round d) + 1" "unat (fd_round d) + 1 \<le> unat (fd_redraw_rounds d)"
  proof -
    have lt: "unat (fd_round d) < unat (fd_redraw_rounds d)" using go(2) by (simp add: word_less_nat_alt)
    then show "unat (fd_round d) + 1 \<le> unat (fd_redraw_rounds d)" by simp
    then have "unat (fd_round d) + 1 < 2 ^ 8" using unsigned_less [of "fd_redraw_rounds d", where 'a = nat] by simp
    then show "unat (fd_round d + 1) = unat (fd_round d) + 1" by (simp add: unat_word_ariths)
  qed
  have np: "?n \<le> prizes d" using dr(4) d(2) by (simp add: round_ok_def)
  have cr: "?c \<le> prizes d * (1 + unat (fd_round d))" using d(2) unfolding round_ok_def by blast
  have c2: "?c + ?n \<le> prizes d * (1 + unat (fd_round e))" using cr np by (simp add: e rd(1))
  have "prizes d * (1 + unat (fd_round e)) \<le> prizes d * (1 + unat (fd_redraw_rounds d))"
    using rd by (intro mult_le_mono2) (simp add: e)
  moreover have "unat (fd_capacity d) = prizes d * (1 + unat (fd_redraw_rounds d))" using d(1) unfolding terms_ok_def by blast
  ultimately show cap: "?c + ?n \<le> unat (fd_capacity d)" using c2 by linarith
  then have "?c + ?n < 2 ^ 16" using unsigned_less [of "fd_capacity d", where 'a = nat] by simp
  then show ce: "unat (fd_slot_count e) = ?c + ?n" by (simp add: e unat_word_ariths unat_of_nat)
  have len: "length sls = ?c" using d(2) by (simp add: round_ok_def)
  have r: "round_ok e (map forfeit sls @ ?new)"
    unfolding round_ok_def ce fd_terms_prizes [OF t]
  proof (intro conjI allI impI)
    show "fd_round e \<le> fd_redraw_rounds e" using rd by (simp add: e word_le_nat_alt)
    show "?c + ?n \<le> prizes d * (1 + unat (fd_round e))" by (rule c2)
    show "?c + ?n - unat (fd_round_first_slot e) \<le> prizes d" using np by (simp add: e)
    fix j
    show "\<not> is_open ((map forfeit sls @ ?new) ! j)" if "j < unat (fd_round_first_slot e)"
      using dr(2) that len by (simp add: e nth_append)
    show "sl_round ((map forfeit sls @ ?new) ! j) = fd_round e"
      if "j < length (map forfeit sls @ ?new)" "unat (fd_round_first_slot e) \<le> j"
      using that len by (simp add: e nth_append pending_slot_def)
    show "sl_status ((map forfeit sls @ ?new) ! j) \<noteq> SLOT_PENDING" if "j < unat (fd_next_slot e)"
    proof -
      have "j < length sls" using that len dr(1) by (simp add: e)
      then show ?thesis using dr(2) by (auto simp: nth_append is_open_def)
    qed
    show "sl_status ((map forfeit sls @ ?new) ! j) = SLOT_PENDING"
      if "j < length (map forfeit sls @ ?new)" "unat (fd_next_slot e) \<le> j"
      using that len dr(1) by (simp add: e nth_append pending_slot_def)
  qed (use dr(1) go(1) len in \<open>simp_all add: e\<close>)
  have "owed d (map forfeit sls) = 0" using dr(2) by (simp add: owed_def owes_def)
  moreover have "owed d ?new = sum_list (map (tier_worth d) (unclaimed sls))"
    by (simp add: owed_def owes_def pending_slot_def is_open_def amount_of_def tier_worth_def [abs_def] comp_def)
  ultimately have "owed d (map forfeit sls @ ?new) = owed d sls" using dr(3) by (simp add: owed_def)
  moreover have "\<forall>sl \<in> set (map forfeit sls @ ?new). unat (sl_tier sl) < 8"
    using d(3) by (auto simp: money_ok_def forfeit_def unclaimed_def pending_slot_def)
  ultimately have "money_ok e (map forfeit sls @ ?new)"
    using d(3) unfolding money_ok_def owed_terms [OF t] by (auto simp: e)
  moreover have "wins_ok H S k e (map forfeit sls @ ?new) ws"
  proof -
    have nw: "\<forall>sl \<in> set ?new. \<not> is_winner sl" by (simp add: pending_slot_def is_winner_def)
    then show ?thesis
      using forfeit_wins [OF d(4)] authentic_same [of d e H S k] won_set_none [OF nw]
      by (auto simp: e wins_ok_def same_entries_def won_set_append)
  qed
  moreover have "phase_ok e (map forfeit sls @ ?new)" using r d(5) dr(1) by (simp add: phase_ok_def e)
  ultimately show "dinv H S k e (map forfeit sls @ ?new) ws"
    using terms_ok_same [OF t d(1) wf] by (simp add: dinv_def e)
qed

section \<open>Creation\<close>

lemma tier_sums_Some:
  assumes "tier_sums ts p a = Some (p', a')"
  shows "unat p' = unat p + sum_list (map (\<lambda>t. unat (tr_count t)) ts)"
    and "unat a' = unat a + sum_list (map (\<lambda>t. unat (tr_count t) * unat (tr_amount t)) ts)"
    and "ts \<noteq> [] \<Longrightarrow> 0 < sum_list (map (\<lambda>t. unat (tr_count t)) ts)"
proof -
  have u: "unat (ucast (c :: u32) :: u64) = unat c" for c by (transfer, simp)
  have "unat p' = unat p + sum_list (map (\<lambda>t. unat (tr_count t)) ts) \<and>
    unat a' = unat a + sum_list (map (\<lambda>t. unat (tr_count t) * unat (tr_amount t)) ts) \<and>
    (ts \<noteq> [] \<longrightarrow> 0 < sum_list (map (\<lambda>t. unat (tr_count t)) ts))"
    using assms
  proof (induction ts p a rule: tier_sums.induct)
    case (2 t ts p a)
    from "2.prems" obtain q m b where q: "checked_add p (ucast (tr_count t)) = Some q"
      and m: "checked_mul (ucast (tr_count t)) (tr_amount t) = Some m" and b: "checked_add a m = Some b"
      and r: "tier_sums ts q b = Some (p', a')" and nz: "tr_count t \<noteq> 0"
      by (auto split: if_splits option.splits)
    have "0 < unat (tr_count t)" using nz by (simp add: unat_gt_0)
    with "2.IH" [OF _ q m b r] "2.prems" checked_add_unat [OF q] checked_mul_unat [OF m] checked_add_unat [OF b]
    show ?case by (auto simp: u split: if_splits)
  qed simp
  then show "unat p' = unat p + sum_list (map (\<lambda>t. unat (tr_count t)) ts)"
    "unat a' = unat a + sum_list (map (\<lambda>t. unat (tr_count t) * unat (tr_amount t)) ts)"
    "ts \<noteq> [] \<Longrightarrow> 0 < sum_list (map (\<lambda>t. unat (tr_count t)) ts)" by blast+
qed

lemma create_dinv:
  assumes v: "validate_create p now = Some (tot, cap)" and d: "d = new_draw rt own draw_id bump vb p tot cap rounds" and wf: "fd_wf d"
  shows "dinv H S k d sls ws" and "fd_status d = STATUS_CREATED" and "fd_len d = draw_len (cp_mode p) cap"
proof -
  from v obtain pr cp where g: "cp_mode p \<le> MODE_LIST" "cp_redraw_rounds p \<le> MAX_REDRAW_ROUNDS" "cp_tiers p \<noteq> []"
      "length (cp_tiers p) \<le> MAX_TIERS" "MIN_CLAIM_WINDOW_SLOTS \<le> cp_claim_window_slots p"
    and ts: "tier_sums (cp_tiers p) 0 0 = Some (pr, tot)" and m: "checked_mul pr (1 + ucast (cp_redraw_rounds p)) = Some cp"
    and c: "cp \<le> of_nat MAX_SLOTS" "cap = unat cp"
    by (auto simp: validate_create_def not_less split: if_splits option.splits)
  note s = tier_sums_Some [OF ts]
  have "unat (cp_redraw_rounds p) \<le> 3" using g(2) by (simp add: word_le_nat_alt)
  then have r: "unat (1 + ucast (cp_redraw_rounds p) :: u64) = 1 + unat (cp_redraw_rounds p)"
  proof -
    have "unat (ucast (w :: u8) :: u64) = unat w" for w by (transfer, simp)
    then show ?thesis using \<open>unat (cp_redraw_rounds p) \<le> 3\<close> by (simp add: unat_word_ariths)
  qed
  have cap: "cap = unat pr * (1 + unat (cp_redraw_rounds p))" using checked_mul_unat [OF m] r c(2) by simp
  have cap1: "cap \<le> 1024" using c by (simp add: word_le_nat_alt)
  have tc: "unat (of_nat (length (cp_tiers p)) :: u8) = length (cp_tiers p)" using g(4) by (simp add: unat_of_nat)
  have tk: "take (unat (fd_tier_count d)) (fd_tiers d) = cp_tiers p" by (simp add: d new_draw_def tc)
  have pz: "prizes d = unat pr" using s(1) by (simp add: prizes_def tk)
  have ps: "prize_sum d = unat tot" using s(2) by (simp add: prize_sum_def tk)
  have uc: "unat (fd_capacity d) = cap" using cap1 by (simp add: d new_draw_def unat_of_nat)
  have q: "cap div (1 + unat (cp_redraw_rounds p)) = unat pr"
    unfolding cap by (rule nonzero_mult_div_cancel_right) simp
  have "unat pr \<le> cap" by (simp add: cap)
  moreover have "unat (of_nat n :: u16) = n" if "n \<le> 1024" for n using that by (simp add: unat_of_nat)
  ultimately have sc: "unat (fd_slot_count d) = unat pr"
    using cap1 by (simp only: d new_draw_def fair_draw.select_convs q)
  have "terms_ok d"
    using wf g(1,2,4,5) s(1,3) pz ps uc cap cap1 tc g(3) by (simp add: terms_ok_def d new_draw_def)
  moreover have "early_ok d" using sc pz by (simp add: early_ok_def) (simp add: d new_draw_def)
  moreover show "fd_status d = STATUS_CREATED" by (simp add: d new_draw_def)
  moreover have "fd_funded d = 0" by (simp add: d new_draw_def)
  ultimately show "dinv H S k d sls ws" by (simp add: dinv_def)
  show "fd_len d = draw_len (cp_mode p) cap" using uc by (simp add: fd_len_def) (simp add: d new_draw_def)
qed

end
