(* ===== verification/FdLoops.thy ===== *)
theory FdLoops
  imports FdKeep
begin

text \<open>
  The loops of the handlers of \<open>null_fair_draw\<close> on the bytes of the account: what they write, and that
  the result of every handler keeps the invariant of the account.
\<close>

lemmas inline_errors = fd_add_def fd_sub_def

lemma fd_add_Inr: "fd_add a b = Inr c \<longleftrightarrow> checked_add a b = Some c"
  by (simp add: fd_add_def)

lemma fd_sub_Inr: "fd_sub a b = Inr c \<longleftrightarrow> checked_sub a b = Some c"
  by (simp add: fd_sub_def)

text \<open>What stays of an account when only its tables are written.\<close>

definition body_only :: "bytes \<Rightarrow> bytes \<Rightarrow> bool" where
  "body_only b b' \<longleftrightarrow> length b' = length b \<and> fd_of b' = fd_of b \<and> slice b' 0 8 = slice b 0 8"

lemma body_only_refl [simp]: "body_only b b"
  by (simp add: body_only_def)

lemma body_only_trans: "body_only a b \<Longrightarrow> body_only b c \<Longrightarrow> body_only a c"
  by (simp add: body_only_def)

lemma write_slot_body: "write_slot d b j sl = Inr b' \<Longrightarrow> j < unat (fd_capacity d) \<Longrightarrow> body_only b b'"
  using write_slot_tables(1,4) write_slot_tables(5) [of d b j sl b' 0 8] by (simp add: body_only_def)

lemma full_length: "full d b \<Longrightarrow> length b' = length b \<Longrightarrow> full d b'"
  by (simp add: full_def)

section \<open>Table loops\<close>

lemma void_loop:
  assumes "foldE (\<lambda>j b. bindE (read_slot d b j) (\<lambda>sl. write_slot d b j (sl\<lparr>sl_status := SLOT_VOID\<rparr>))) [0..<m] b = Inr b'"
    and "m \<le> n" and "n \<le> unat (fd_capacity d)"
  shows "slot_tab d b' n = map (\<lambda>sl. sl\<lparr>sl_status := SLOT_VOID\<rparr>) (take m (slot_tab d b n)) @ drop m (slot_tab d b n) \<and>
    won_list (sorted_offset d) b' w = won_list (sorted_offset d) b w \<and> body_only b b'"
  using assms
proof (induction m arbitrary: b')
  case (Suc m)
  then obtain b1 sl where f: "foldE (\<lambda>j b. bindE (read_slot d b j) (\<lambda>sl. write_slot d b j (sl\<lparr>sl_status := SLOT_VOID\<rparr>))) [0..<m] b = Inr b1"
    and r: "read_slot d b1 m = Inr sl" and wr: "write_slot d b1 m (sl\<lparr>sl_status := SLOT_VOID\<rparr>) = Inr b'"
    by (auto simp: foldE_append)
  let ?t = "slot_tab d b n"
  have m: "m < n" "m < unat (fd_capacity d)" using Suc.prems by simp_all
  from Suc.IH [OF f] m Suc.prems(3) have t: "slot_tab d b1 n = map (\<lambda>sl. sl\<lparr>sl_status := SLOT_VOID\<rparr>) (take m ?t) @ drop m ?t"
    "won_list (sorted_offset d) b1 w = won_list (sorted_offset d) b w" "body_only b b1" by auto
  have sl: "sl = ?t ! m" using read_slot_tab [OF r m(1)] t(1) m(1) by (simp add: nth_append)
  have "slot_tab d b' n = (map (\<lambda>sl. sl\<lparr>sl_status := SLOT_VOID\<rparr>) (take m ?t) @ drop m ?t)[m := sl\<lparr>sl_status := SLOT_VOID\<rparr>]"
    using write_slot_tables(2) [OF wr m(2)] t(1) by simp
  also have "\<dots> = map (\<lambda>sl. sl\<lparr>sl_status := SLOT_VOID\<rparr>) (take (Suc m) ?t) @ drop (Suc m) ?t"
    using m(1) by (simp add: list_update_append take_Suc_conv_app_nth sl Cons_nth_drop_Suc [symmetric])
  finally show ?case
    using t(2,3) write_slot_tables(3) [OF wr m(2)] write_slot_body [OF wr m(2)] by (auto intro: body_only_trans)
qed (simp add: slot_tab_def)

lemma forfeit_loop:
  assumes "foldE (forfeit_slot d) [f..<f + m] (b, []) = Inr (b', ts)" and "f + m \<le> n" and "n \<le> unat (fd_capacity d)"
  shows "slot_tab d b' n = take f (slot_tab d b n) @ map forfeit (take m (drop f (slot_tab d b n))) @ drop (f + m) (slot_tab d b n) \<and>
    ts = unclaimed (take m (drop f (slot_tab d b n))) \<and>
    won_list (sorted_offset d) b' w = won_list (sorted_offset d) b w \<and> body_only b b'"
  using assms
proof (induction m arbitrary: b' ts)
  case (Suc m)
  then obtain b1 ts1 where f: "foldE (forfeit_slot d) [f..<f + m] (b, []) = Inr (b1, ts1)"
    and r: "forfeit_slot d (f + m) (b1, ts1) = Inr (b', ts)"
    by (auto simp: foldE_append)
  let ?t = "slot_tab d b n"
  have m: "f + m < n" "f + m < unat (fd_capacity d)" using Suc.prems by simp_all
  from Suc.IH [OF f] m Suc.prems(3) have t: "slot_tab d b1 n = take f ?t @ map forfeit (take m (drop f ?t)) @ drop (f + m) ?t"
    "ts1 = unclaimed (take m (drop f ?t))"
    "won_list (sorted_offset d) b1 w = won_list (sorted_offset d) b w" "body_only b b1" by auto
  have tk: "take (Suc m) (drop f ?t) = take m (drop f ?t) @ [?t ! (f + m)]" using m(1) by (simp add: take_Suc_conv_app_nth)
  have dr: "drop (f + m) ?t = ?t ! (f + m) # drop (Suc (f + m)) ?t" using m(1) by (simp add: Cons_nth_drop_Suc)
  have n1: "slot_tab d b1 n ! (f + m) = ?t ! (f + m)" using m(1) t(1) by (simp add: nth_append)
  from r obtain sl where sl: "read_slot d b1 (f + m) = Inr sl"
    and c: "if sl_status sl = SLOT_WON then write_slot d b1 (f + m) (forfeit sl) = Inr b' \<and> ts = ts1 @ [sl_tier sl] else b' = b1 \<and> ts = ts1"
    by (auto simp: forfeit_slot_def forfeit_def split: if_splits)
  have sl': "sl = ?t ! (f + m)" using read_slot_tab [OF sl m(1)] n1 by simp
  show ?case
  proof (cases "sl_status sl = SLOT_WON")
    case True
    with c have wr: "write_slot d b1 (f + m) (forfeit sl) = Inr b'" and ts: "ts = ts1 @ [sl_tier sl]" by simp_all
    have "slot_tab d b' n = (take f ?t @ map forfeit (take m (drop f ?t)) @ drop (f + m) ?t)[f + m := forfeit sl]"
      using write_slot_tables(2) [OF wr m(2)] t(1) by simp
    also have "\<dots> = take f ?t @ map forfeit (take (Suc m) (drop f ?t)) @ drop (f + Suc m) ?t"
      using m(1) unfolding tk dr by (simp add: list_update_append sl')
    finally show ?thesis
      using t write_slot_tables(3) [OF wr m(2)] write_slot_body [OF wr m(2)] True
      by (auto simp: ts tk unclaimed_def sl' intro: body_only_trans)
  next
    case False
    with c have "b' = b1" "ts = ts1" by simp_all
    moreover have "forfeit sl = sl" using False by (simp add: forfeit_def)
    ultimately show ?thesis using t False by (simp add: tk dr unclaimed_def sl')
  qed
qed (simp add: unclaimed_def)

lemma fund_slots:
  assumes wf: "fd_wf e" and pk: "fd_pack e b = Inr b1" and full: "full e b"
    and ws: "write_slots e (map (\<lambda>(j, ti). (j, pending_slot (of_nat ti) 0)) (enumerate 0 (slot_tiers e))) b1 = Inr b2"
    and n: "unat (fd_slot_count e) = length (slot_tiers e)" "length (slot_tiers e) \<le> unat (fd_capacity e)"
  shows "slots e b2 = map (\<lambda>ti. pending_slot (of_nat ti) 0) (slot_tiers e)" and "fd_of b2 = e" and "full e b2" and "slice b2 0 8 = DRAW_DISC"
proof -
  let ?g = "\<lambda>ti. pending_slot (of_nat ti) 0" and ?n = "length (slot_tiers e)"
  have rng: "\<forall>(j, sl) \<in> set (map (\<lambda>(j, ti). (j, ?g ti)) (enumerate 0 (slot_tiers e))). j < unat (fd_capacity e)"
    using n(2) by (auto simp: in_set_enumerate_eq)
  note p = pack_tables [OF wf pk]
  note w = write_slots_tables [OF ws rng, where n = ?n and off = 0 and len = 8]
  have "map (\<lambda>(k, y). (0 + k, ?g y)) (enumerate 0 (slot_tiers e)) = map (\<lambda>(j, ti). (j, ?g ti)) (enumerate 0 (slot_tiers e))" by simp
  with fold_updates [of 0 ?g 0 "slot_tiers e" "slot_tab e b1 ?n"] w show "slots e b2 = map ?g (slot_tiers e)"
    by (simp add: slots_def n(1))
  show "fd_of b2 = e" "full e b2" "slice b2 0 8 = DRAW_DISC" using w p(1,2,5) full by (simp_all add: full_def)
qed

section \<open>Entering\<close>

definition entry_step :: "fair_draw \<Rightarrow> fair_draw \<Rightarrow> bool" where
  "entry_step d e \<longleftrightarrow> (\<exists>r t n. e = d\<lparr>fd_root := r, fd_total_weight := t, fd_leaf_count := n\<rparr>)"

lemma entry_step_facts:
  assumes "entry_step d e"
  shows "fd_terms d e" and "same_progress d e" and "fd_status e = fd_status d" and "fd_rounds e = fd_rounds d"
    and "fd_tiers e = fd_tiers d" and "fd_won_count e = fd_won_count d" and "fd_slot_count e = fd_slot_count d"
    and "frontier_offset e = frontier_offset d"
  using assms by (auto simp: entry_step_def fd_terms_def same_progress_def frontier_offset_def)

lemma entry_step_refl: "entry_step d d"
  unfolding entry_step_def by (intro exI [of _ "fd_root d"] exI [of _ "fd_total_weight d"] exI [of _ "fd_leaf_count d"]) simp

lemma entry_step_trans: "entry_step d e \<Longrightarrow> entry_step e f \<Longrightarrow> entry_step d f"
  unfolding entry_step_def by (elim exE) (simp, blast)

lemma enter_leaf_step:
  assumes "enter_leaf rt leaf weight (d, b) = Inr (e, b')" and "fd_mode d = MODE_OPEN"
  shows "entry_step d e \<and> slot_tab d b' n = slot_tab d b n \<and> won_list (sorted_offset d) b' m = won_list (sorted_offset d) b m \<and> body_only b b'"
proof -
  from assms(1) obtain filled' where len: "length filled' = FRONTIER_LEN" and b': "b' = splice b (frontier_offset d) filled'"
    and e: "\<exists>r t n. e = d\<lparr>fd_root := r, fd_total_weight := t, fd_leaf_count := n\<rparr>"
    by (auto simp: enter_leaf_def Let_def)
  have "length filled' \<le> FRONTIER_LEN" using len by simp
  note f = frontier_tables [OF assms(2) this, of b, folded b']
  have "slice b' 0 8 = slice b 0 8" unfolding b' by (rule slice_splice_other) (simp add: frontier_offset_def)
  with e f show ?thesis by (auto simp: entry_step_def body_only_def b')
qed

lemma enter_loop:
  assumes "foldE (\<lambda>_. enter_leaf rt leaf weight) xs (d, b) = Inr (e, b')" and "fd_mode d = MODE_OPEN"
  shows "entry_step d e \<and> slot_tab d b' n = slot_tab d b n \<and> won_list (sorted_offset d) b' m = won_list (sorted_offset d) b m \<and> body_only b b'"
  using assms
proof (induction xs arbitrary: d b)
  case (Cons x xs)
  then obtain d1 b1 where s: "enter_leaf rt leaf weight (d, b) = Inr (d1, b1)"
    and r: "foldE (\<lambda>_. enter_leaf rt leaf weight) xs (d1, b1) = Inr (e, b')" by auto
  note st = enter_leaf_step [OF s Cons.prems(2), of n m]
  have t: "fd_terms d d1" using entry_step_facts(1) st by blast
  then have "fd_mode d1 = MODE_OPEN" using Cons.prems(2) by (simp add: fd_terms_def)
  from Cons.IH [OF r this] st same_shapeD [OF fd_terms_shape [OF t]] show ?case
    by (auto intro: entry_step_trans body_only_trans)
qed (simp add: entry_step_refl)

section \<open>Resolving\<close>

definition resolve_step :: "fair_draw \<Rightarrow> fair_draw \<Rightarrow> bool" where
  "resolve_step d e \<longleftrightarrow> (\<exists>c w n r. e = d\<lparr>fd_won_count := c, fd_won_weight := w, fd_next_slot := n, fd_refundable := r\<rparr>)"

lemma resolve_step_facts:
  assumes "resolve_step d e"
  shows "fd_terms d e" and "same_entries d e" and "fd_status e = fd_status d" and "fd_rounds e = fd_rounds d" and "fd_wf e = fd_wf d"
    and "fd_slot_count e = fd_slot_count d" and "fd_round e = fd_round d" and "fd_funded e = fd_funded d" and "fd_paid e = fd_paid d"
    and "fd_returned e = fd_returned d" and "fd_tiers e = fd_tiers d" and "fd_depth e = fd_depth d"
    and "fd_round_first_slot e = fd_round_first_slot d"
  using assms by (auto simp: resolve_step_def fd_terms_def same_entries_def fd_wf_def)

lemma resolve_step_refl: "resolve_step d d"
  unfolding resolve_step_def
  by (intro exI [of _ "fd_won_count d"] exI [of _ "fd_won_weight d"] exI [of _ "fd_next_slot d"] exI [of _ "fd_refundable d"]) simp

lemma resolve_step_trans: "resolve_step d e \<Longrightarrow> resolve_step e f \<Longrightarrow> resolve_step d f"
  unfolding resolve_step_def by (elim exE) (simp, blast)

definition proof_pairs :: "runtime \<Rightarrow> key \<Rightarrow> fair_draw \<Rightarrow> leaf_proof \<Rightarrow> (pair \<times> pair) set" where
  "proof_pairs rt k d pr = verify_pairs rt (unat (fd_depth d)) (lp_leaf_index pr)
     (entry_leaf rt k (lp_wallet pr) (lp_weight pr)) (lp_weight pr) (lp_path pr)"

text \<open>One processed slot.\<close>

lemma void_slot_account:
  assumes v: "void_slot d b j sl = Inr (e, b')" and j: "j = unat (fd_next_slot d)" and lt: "fd_next_slot d < fd_slot_count d"
    and inv: "rinv H S k d (slots d b) (won d b)" and full: "full d b" and r: "read_slot d b j = Inr sl"
  shows "rinv H S k e (slots e b') (won e b') \<and> full e b' \<and> body_only b b' \<and> resolve_step d e \<and> fd_next_slot e = fd_next_slot d + 1"
proof -
  from v obtain b1 a r1 where w: "write_slot d b j (sl\<lparr>sl_status := SLOT_VOID\<rparr>) = Inr b1" and a: "tier_amount d (sl_tier sl) = Inr a"
    and r1: "fd_add (fd_refundable d) a = Inr r1" and e: "e = d\<lparr>fd_refundable := r1, fd_next_slot := fd_next_slot d + 1\<rparr>" "b' = b1"
    by (auto simp: void_slot_def simp del: DRAW_SLOT_LEN_def)
  have d: "terms_ok d" "round_ok d (slots d b)" using inv by (simp_all add: rinv_def)
  have jc: "j < unat (fd_slot_count d)" "j < unat (fd_capacity d)"
    using lt round_capacity [OF d] by (simp_all add: j word_less_nat_alt)
  have sl: "sl = slots d b ! j" using read_slot_tab [OF r jc(1)] by (simp add: slots_def)
  note t = write_slot_tables [OF w jc(2)]
  have st: "resolve_step d e" unfolding resolve_step_def e
    by (intro exI [of _ "fd_won_count d"] exI [of _ "fd_won_weight d"] exI [of _ "fd_next_slot d + 1"] exI [of _ r1]) simp
  note sh = same_shapeD [OF fd_terms_shape [OF resolve_step_facts(1) [OF st]]]
  have "slots e b' = (slots d b)[j := sl\<lparr>sl_status := SLOT_VOID\<rparr>]" "won e b' = won d b"
    using t sh(1,2,4) by (simp_all add: slots_def won_def e)
  moreover have "full e b'" using full t(1) sh(5) by (simp add: e(2) full_def)
  ultimately show ?thesis
    using void_rinv [OF inv lt, of a r1] a r1 write_slot_body [OF w jc(2)] st by (simp add: sl j e)
qed

lemma won_room:
  assumes lt: "fd_next_slot d < fd_slot_count d" and inv: "rinv H S k d (slots d b) (won d b)"
  shows "unat (fd_won_count d) < unat (fd_capacity d)" and "sorted (map fst (won d b))"
proof -
  have d: "terms_ok d" "round_ok d (slots d b)" "wins_ok H S k d (slots d b) (won d b)" using inv by (simp_all add: rinv_def)
  let ?j = "unat (fd_next_slot d)"
  have jc: "?j < unat (fd_slot_count d)" using lt by (simp add: word_less_nat_alt)
  have "sl_status (slots d b ! ?j) = SLOT_PENDING" using d(2) jc by (simp add: round_ok_def)
  then have "\<not> is_winner (slots d b ! ?j)" "slots d b ! ?j \<in># mset (slots d b)" using jc by (simp_all add: is_winner_def)
  then have "filter_mset is_winner (mset (slots d b)) \<noteq> mset (slots d b)" by (metis filter_mset_eq_conv)
  then have "filter_mset is_winner (mset (slots d b)) \<subset># mset (slots d b)" by (simp add: subset_mset.less_le)
  then have "size (filter_mset is_winner (mset (slots d b))) < size (mset (slots d b))" by (rule mset_subset_size)
  then show "unat (fd_won_count d) < unat (fd_capacity d)" using won_size(1) [OF d(3)] round_capacity [OF d(1,2)] by simp
  show "sorted (map fst (won d b))" using d(3) won_ok_sorted by (auto simp: wins_ok_def)
qed

lemma same_header:
  assumes "\<And>off len. off + len \<le> HEADER_LEN \<Longrightarrow> slice b' off len = slice b off len"
    and "HEADER_LEN \<le> length b" and "length b' = length b"
  shows "body_only b b'"
proof -
  have "slice b' 0 HEADER_LEN = slice b 0 HEADER_LEN" by (rule assms(1)) simp
  then have tk: "take HEADER_LEN b' = take HEADER_LEN b" by (simp add: slice_def)
  have "fd_of x = fd_of (take HEADER_LEN x)" if "HEADER_LEN \<le> length x" for x
    using that by (simp add: fd_of_def tier_of_def round_of_def get_u64_def get_u32_def get_u16_def slice_def drop_take min_def)
  then have "fd_of b' = fd_of b" using tk assms(2,3) by metis
  moreover have "slice b' 0 8 = slice b 0 8" by (rule assms(1)) simp
  ultimately show ?thesis using assms(3) by (simp add: body_only_def)
qed

lemma win_slot_account:
  assumes v: "win_slot d b j sl' = Inr (e, b')" and j: "j = unat (fd_next_slot d)" and lt: "fd_next_slot d < fd_slot_count d"
    and inv: "rinv H S k d (slots d b) (won d b)" and full: "full d b" and r: "read_slot d b j = Inr sl"
    and sl': "sl_round sl' = sl_round sl" "sl_tier sl' = sl_tier sl" and auth: "authentic H S k d sl'" and inj: "node_inj (hash_rt H) S"
    and nz: "sl_weight sl' \<noteq> 0" and p: "p \<notin> won_points (won d b)" "unat (sl_start sl') \<le> p" "p < unat (sl_start sl') + unat (sl_weight sl')"
  shows "rinv H S k e (slots e b') (won e b') \<and> full e b' \<and> body_only b b' \<and> resolve_step d e \<and> fd_next_slot e = fd_next_slot d + 1 \<and>
    slots e b' = (slots d b)[j := sl'\<lparr>sl_status := SLOT_WON\<rparr>] \<and> won e b' = insert_won (sl_start sl') (sl_weight sl') (won d b)"
proof -
  let ?sl = "sl'\<lparr>sl_status := SLOT_WON\<rparr>"
  from v obtain b1 d2 w where wr: "write_slot d b j ?sl = Inr b1" and ins: "won_insert d b1 (sl_start sl') (sl_weight sl') = Inr (d2, b')"
    and w: "fd_add (fd_won_weight d2) (sl_weight sl') = Inr w" and e: "e = d2\<lparr>fd_won_weight := w, fd_next_slot := fd_next_slot d2 + 1\<rparr>"
    by (auto simp: win_slot_def)
  have d: "terms_ok d" "round_ok d (slots d b)" "wins_ok H S k d (slots d b) (won d b)" using inv by (simp_all add: rinv_def)
  have cap: "unat (fd_slot_count d) \<le> unat (fd_capacity d)" by (rule round_capacity [OF d(1,2)])
  have jc: "j < unat (fd_slot_count d)" "j < unat (fd_capacity d)" using lt cap by (simp_all add: j word_less_nat_alt)
  have sl: "sl = slots d b ! j" using read_slot_tab [OF r jc(1)] by (simp add: slots_def)
  note t = write_slot_tables [OF wr jc(2)]
  have won1: "won d b1 = won d b" using t(3) by (simp add: won_def)
  have srt: "sorted (map fst (won d b1))" using won_room(2) [OF lt inv] by (simp add: won1)
  have full1: "full d b1" using full t(1) by (simp add: full_def)
  note i = won_insert_tables [OF ins srt full1 won_room(1) [OF lt inv]]
  have e': "e = d\<lparr>fd_won_count := fd_won_count d + 1, fd_won_weight := w, fd_next_slot := fd_next_slot d + 1\<rparr>"
    by (simp add: e i(1))
  have st: "resolve_step d e" unfolding resolve_step_def e'
    by (intro exI [of _ "fd_won_count d + 1"] exI [of _ w] exI [of _ "fd_next_slot d + 1"] exI [of _ "fd_refundable d"]) simp
  note sh = same_shapeD [OF fd_terms_shape [OF resolve_step_facts(1) [OF st]]]
  have sls: "slots e b' = (slots d b)[j := ?sl]" using t(2) i(4) [OF cap] sh(4) by (simp add: slots_def e')
  have ws: "won e b' = insert_won (sl_start sl') (sl_weight sl') (won d b)"
  proof -
    have "won e b' = won d2 b'" by (simp add: won_def e sorted_offset_def slots_offset_def)
    with i(3) won1 show ?thesis by simp
  qed
  have "full e b'" using full t(1) i(2) sh(5) by (simp add: full_def)
  moreover have "body_only b1 b'"
    by (rule same_header [OF i(5)]) (use full1 header_le_len [of d] i(2) in \<open>simp_all add: full_def\<close>)
  then have "body_only b b'" using write_slot_body [OF wr jc(2)] by (blast intro: body_only_trans)
  moreover have "authentic H S k d ?sl" using auth by (simp add: authentic_def)
  then have "rinv H S k e ((slots d b)[j := ?sl]) (insert_won (sl_start sl') (sl_weight sl') (won d b))"
    unfolding e' using win_rinv [OF inv lt, of ?sl p w] inj nz p sl' w i(1) by (simp add: sl j)
  then have "rinv H S k e (slots e b') (won e b')" unfolding sls ws .
  ultimately show ?thesis using st sls ws by (simp add: e')
qed

lemma wide_mod_less:
  assumes "m \<noteq> 0" and "wide_mod x m = Inr r"
  shows "unat r < unat m"
proof -
  let ?cs = "map (\<lambda>i. slice x (8 * i) 8) [0..<length x div 8]"
  have l8: "\<forall>c \<in> set ?cs. length c = 8" by (auto intro!: length_slice)
  have "0 < unat m" using assms(1) by (simp add: unat_gt_0)
  with wide_fold [OF assms(1) l8, of 0] have "unat (foldl (wide_step (ucast m)) 0 ?cs) < unat m" by simp
  moreover have "unat r = unat (foldl (wide_step (ucast m)) 0 ?cs)"
    using assms calculation unsigned_less [of m, where 'a = nat]
    by (auto simp: wide_mod_def unsigned_ucast_eq take_bit_nat_eq_self)
  ultimately show ?thesis by simp
qed

lemma drawn_point:
  assumes inv: "rinv H S k d (slots d b) (won d b)" and full: "full d b" and rem: "fd_sub (fd_total_weight d) (fd_won_weight d) = Inr m" "m \<noteq> 0"
    and u: "stream_point rt sd j m = Inr u" and q: "remap_won d b [0..<unat (fd_won_count d)] u = Inr (Some p)"
  shows "unat p \<notin> won_points (won d b)" and "p < fd_total_weight d" and "remap u (won d b) = Some p"
proof -
  have d: "terms_ok d" "round_ok d (slots d b)" "wins_ok H S k d (slots d b) (won d b)" using inv by (simp_all add: rinv_def)
  have "unat (fd_won_count d) \<le> unat (fd_capacity d)" using won_size(2) [OF d(3)] round_capacity [OF d(1,2)] by simp
  from remap_won_ok [OF full this, of u] q show rm: "remap u (won d b) = Some p" by simp
  have ok: "won_ok 0 (unat (fd_total_weight d)) (won d b)" using d(3) by (simp add: wins_ok_def)
  have mu: "unat m + won_sum (won d b) = unat (fd_total_weight d)"
    using rem(1) d(3) checked_sub_unat by (fastforce simp: fd_sub_def wins_ok_def)
  have "unat u < unat m"
    using wide_mod_less [OF rem(2)] u by (auto simp: stream_point_def)
  then have "unat u + won_sum (won d b) < unat (fd_total_weight d)" using mu by linarith
  moreover have "unat (fd_total_weight d) \<le> 2 ^ 64" using unsigned_less [of "fd_total_weight d", where 'a = nat] by simp
  ultimately show "unat p \<notin> won_points (won d b)" "p < fd_total_weight d"
    using remap_spec [OF ok, of u] rm by (auto simp: word_less_nat_alt)
qed

text \<open>
  The whole loop. The proofs it consumes hash only inputs of \<open>S\<close>.
\<close>

lemma resolve_loop_account:
  assumes "resolve_loop rt k sd n first prs d b = Inr (e, b', rest)" and h: "hashv rt = H" and inj: "node_inj (hash_rt H) S"
    and "\<forall>pr \<in> set prs. proof_pairs rt k d pr \<subseteq> S" and "rinv H S k d (slots d b) (won d b)" and "full d b"
  shows "rinv H S k e (slots e b') (won e b') \<and> full e b' \<and> body_only b b' \<and> resolve_step d e \<and> fd_next_slot d \<le> fd_next_slot e \<and>
    (0 < n \<longrightarrow> first \<longrightarrow> fd_next_slot d < fd_slot_count d \<longrightarrow> fd_next_slot d < fd_next_slot e)"
  using assms(1,4-)
proof (induction n arbitrary: first prs d b)
  case 0
  then show ?case by (simp add: resolve_step_refl)
next
  case (Suc n)
  show ?case
  proof (cases "fd_next_slot d < fd_slot_count d")
    case False
    with Suc.prems show ?thesis by (simp add: resolve_step_refl)
  next
    case lt: True
    let ?j = "unat (fd_next_slot d)"
    have up: "fd_next_slot d < fd_next_slot d + 1" using next_word [OF lt] by (simp add: word_less_nat_alt)
    have go: ?thesis
      if "rinv H S k d1 (slots d1 b1) (won d1 b1) \<and> full d1 b1 \<and> body_only b b1 \<and> resolve_step d d1 \<and> fd_next_slot d1 = fd_next_slot d + 1"
        and r: "resolve_loop rt k sd n False ps d1 b1 = Inr (e, b', rest)" and ps: "set ps \<subseteq> set prs" for d1 b1 ps
    proof -
      from that(1) have "fd_depth d1 = fd_depth d" using resolve_step_facts(12) by blast
      then have "\<forall>pr \<in> set ps. proof_pairs rt k d1 pr \<subseteq> S"
        using Suc.prems(2) ps unfolding proof_pairs_def by auto
      from Suc.IH [OF r this] that(1) up show ?thesis
        by (auto intro: body_only_trans resolve_step_trans dest: order_less_le_trans)
    qed
    from Suc.prems(1) lt obtain sl m where sl: "read_slot d b ?j = Inr sl" and m: "fd_sub (fd_total_weight d) (fd_won_weight d) = Inr m"
      by (auto simp: Let_def)
    show ?thesis
    proof (cases "m = 0")
      case True
      with Suc.prems(1) lt sl m obtain d1 b1 where v: "void_slot d b ?j sl = Inr (d1, b1)"
        and r: "resolve_loop rt k sd n False prs d1 b1 = Inr (e, b', rest)" by (auto simp: Let_def)
      show ?thesis by (rule go [OF _ r]) (use void_slot_account [OF v refl lt Suc.prems(3,4) sl] in simp_all)
    next
      case nz: False
      with Suc.prems(1) lt sl m obtain u p where u: "stream_point rt sd (of_nat ?j) m = Inr u"
        and q: "remap_won d b [0..<unat (fd_won_count d)] u = Inr (Some p)" by (auto simp: Let_def)
      note pt = drawn_point [OF Suc.prems(3,4) m nz u q]
      show ?thesis
      proof (cases "fd_weighted d")
        case wt: True
        show ?thesis
        proof (cases prs)
          case Nil
          with Suc.prems lt sl m nz u q wt show ?thesis
            by (auto simp: Let_def resolve_step_refl split: if_splits)
        next
          case (Cons pr ps)
          with Suc.prems(1) lt sl m nz u q wt obtain sl' d1 b1 where c: "check_winner rt k d p pr sl = Inr sl'"
            and w: "win_slot d b ?j sl' = Inr (d1, b1)" and r: "resolve_loop rt k sd n False ps d1 b1 = Inr (e, b', rest)"
            by (auto simp: Let_def)
          from c obtain st where v: "tree_verify rt (fd_root d) (fd_total_weight d) (unat (fd_depth d)) (fd_leaf_count d)
              (lp_leaf_index pr) (entry_leaf rt k (lp_wallet pr) (lp_weight pr)) (lp_weight pr) (lp_path pr) = Some st"
            and nzw: "lp_weight pr \<noteq> 0" and pin: "st \<le> p" "p - st < lp_weight pr"
            and sl': "sl' = sl\<lparr>sl_start := st, sl_weight := lp_weight pr, sl_leaf_index := lp_leaf_index pr, sl_wallet := lp_wallet pr\<rparr>"
            by (auto simp: check_winner_def Let_def not_le split: if_splits)
          have "authentic H S k d sl'"
            by (rule authenticI [where wallet = "lp_wallet pr" and path = "lp_path pr"])
              (use v wt Suc.prems(2) Cons in \<open>simp_all add: sl' hash_rts [OF h] proof_pairs_def\<close>)
          moreover have "unat st \<le> unat p" "unat p < unat st + unat (lp_weight pr)"
            using pin by (simp_all add: word_le_nat_alt word_less_nat_alt unat_sub_if')
          ultimately show ?thesis
            using win_slot_account [OF w refl lt Suc.prems(3,4) sl, of "unat p"] inj nzw pt(1) Cons
            by (intro go [OF _ r]) (auto simp: sl')
        qed
      next
        case wt: False
        let ?sl = "sl\<lparr>sl_start := p, sl_weight := 1, sl_leaf_index := p, sl_wallet := replicate 32 0\<rparr>"
        from Suc.prems(1) lt sl m nz u q wt obtain d1 b1 where w: "win_slot d b ?j ?sl = Inr (d1, b1)"
          and r: "resolve_loop rt k sd n False prs d1 b1 = Inr (e, b', rest)" by (auto simp: Let_def)
        have "authentic H S k d ?sl" using wt pt(2) by (simp add: authentic_def)
        then show ?thesis
          using win_slot_account [OF w refl lt Suc.prems(3,4) sl, of "unat p"] inj pt(1)
          by (intro go [OF _ r]) auto
      qed
    qed
  qed
qed

end
