(* ===== verification/FdStore.thy ===== *)
theory FdStore
  imports FdLoops
begin

text \<open>
  The store as \<open>null_fair_draw\<close> sees it: live draw accounts, what other code can do to them, and
  the invariant of every live draw, which steps elsewhere keep.
\<close>

definition fd_live :: "key \<Rightarrow> account \<Rightarrow> bool" where
  "fd_live pid a \<longleftrightarrow> owner a = pid \<and> fd_unpack (data a) \<noteq> None"

abbreviation draw_at :: "account \<Rightarrow> fair_draw" where
  "draw_at a \<equiv> fd_of (data a)"

lemma fd_unpack_Some:
  "fd_unpack b = Some d \<longleftrightarrow> d = fd_of b \<and> HEADER_LEN \<le> length b \<and> slice b 0 8 = DRAW_DISC \<and>
     (full d b \<or> fd_status d = STATUS_CREATED \<and> length b < fd_len d) \<and> fd_mode d \<le> MODE_LIST \<and> unat (fd_capacity d) \<le> MAX_SLOTS"
  by (auto simp: fd_unpack_def full_def Let_def not_le not_less simp del: HEADER_LEN_def MODE_LIST_def split: if_splits)

lemma live_unpack: "fd_live pid a \<Longrightarrow> fd_unpack (data a) = Some (draw_at a)"
  by (auto simp: fd_live_def fd_unpack_Some)

lemma zero_not_draw: "\<forall>x \<in> set b. x = 0 \<Longrightarrow> fd_unpack b = None"
proof -
  assume z: "\<forall>x \<in> set b. x = 0"
  have "slice b 0 8 \<noteq> DRAW_DISC"
  proof
    assume e: "slice b 0 8 = DRAW_DISC"
    have "hd DRAW_DISC \<in> set (slice b 0 8)" unfolding e by (rule hd_in_set) (simp add: DRAW_DISC_def)
    then have "hd DRAW_DISC = 0" using z by (auto simp: slice_def dest: in_set_takeD in_set_dropD)
    then show False by (simp add: DRAW_DISC_def)
  qed
  then show ?thesis by (simp add: fd_unpack_def)
qed

lemma short_not_draw: "length b < HEADER_LEN \<Longrightarrow> fd_unpack b = None"
  by (simp add: fd_unpack_def)

section \<open>What stays\<close>

text \<open>Every draw outside \<open>A\<close> keeps its owner and data and loses no lamports; none appears there.\<close>

definition fd_keeps :: "key \<Rightarrow> key set \<Rightarrow> store \<Rightarrow> store \<Rightarrow> bool" where
  "fd_keeps pid A s s' \<longleftrightarrow> (\<forall>k. k \<notin> A \<longrightarrow> fd_live pid (s k) \<or> fd_live pid (s' k) \<longrightarrow>
     owner (s' k) = owner (s k) \<and> data (s' k) = data (s k) \<and> lamports (s k) \<le> lamports (s' k))"

lemma fd_keeps_refl: "fd_keeps pid A s s"
  by (simp add: fd_keeps_def)

lemma fd_keeps_live: "fd_keeps pid A s s' \<Longrightarrow> k \<notin> A \<Longrightarrow> fd_live pid (s' k) = fd_live pid (s k)"
proof -
  assume "fd_keeps pid A s s'" and "k \<notin> A"
  then have "fd_live pid (s k) \<or> fd_live pid (s' k) \<Longrightarrow> owner (s' k) = owner (s k) \<and> data (s' k) = data (s k)"
    unfolding fd_keeps_def by blast
  then show ?thesis unfolding fd_live_def by metis
qed

lemma fd_keeps_trans:
  assumes "fd_keeps pid A s1 s2" and "fd_keeps pid A s2 s3"
  shows "fd_keeps pid A s1 s3"
  unfolding fd_keeps_def
proof (intro allI impI)
  fix k assume k: "k \<notin> A" and l: "fd_live pid (s1 k) \<or> fd_live pid (s3 k)"
  then have "fd_live pid (s1 k)" "fd_live pid (s2 k)"
    using fd_keeps_live [OF assms(1) k] fd_keeps_live [OF assms(2) k] by auto
  then show "owner (s3 k) = owner (s1 k) \<and> data (s3 k) = data (s1 k) \<and> lamports (s1 k) \<le> lamports (s3 k)"
    using assms k unfolding fd_keeps_def by (metis order_trans)
qed

lemma fd_keeps_mono: "fd_keeps pid A s s' \<Longrightarrow> A \<subseteq> B \<Longrightarrow> fd_keeps pid B s s'"
  by (auto simp: fd_keeps_def)

lemma foreign_keeps: "foreign_step pid s s' \<Longrightarrow> fd_keeps pid {} s s'"
  unfolding fd_keeps_def foreign_step_def fd_live_def using zero_not_draw by metis

lemma set_data_keeps: "fd_keeps pid {k} s (set_data s k b)"
  by (auto simp: fd_keeps_def)

lemma set_data_dead:
  "fd_unpack (data (s k)) = None \<Longrightarrow> fd_unpack b = None \<Longrightarrow> fd_keeps pid {} s (set_data s k b)"
  by (auto simp: fd_keeps_def fd_live_def set_data_apply)

lemma debit_frame:
  assumes "debit fr to amount s = Inr s'"
  shows "owner (s' j) = owner (s j)" and "data (s' j) = data (s j)" and "j \<noteq> key fr \<Longrightarrow> lamports (s j) \<le> lamports (s' j)"
  using assms checked_add_ge by (auto simp: debit_def set_apply)

lemma debit_keeps: "debit fr to amount s = Inr s' \<Longrightarrow> fd_keeps pid {key fr} s s'"
  using debit_frame unfolding fd_keeps_def by blast

section \<open>The invariant of the store\<close>

definition reserve :: "fair_draw \<Rightarrow> nat" where
  "reserve d = (if is_sol_prize d then unat (fd_funded d) - unat (fd_paid d) - unat (fd_returned d) else 0)"

definition fd_account_ok :: "(bytes list \<Rightarrow> bytes) \<Rightarrow> (pair \<times> pair) set \<Rightarrow> (nat \<Rightarrow> u64) \<Rightarrow> key \<Rightarrow> account \<Rightarrow> bool" where
  "fd_account_ok H S rent k a \<longleftrightarrow> draw_inv H S k (draw_at a) (data a) \<and>
     unat (rent (length (data a))) + reserve (draw_at a) \<le> unat (lamports a)"

definition fd_inv :: "(bytes list \<Rightarrow> bytes) \<Rightarrow> (pair \<times> pair) set \<Rightarrow> (nat \<Rightarrow> u64) \<Rightarrow> key \<Rightarrow> store \<Rightarrow> bool" where
  "fd_inv H S rent pid s \<longleftrightarrow> (\<forall>k. fd_live pid (s k) \<longrightarrow> fd_account_ok H S rent k (s k))"

lemma fd_inv_mono: "fd_inv H S rent pid s \<Longrightarrow> S \<subseteq> T \<Longrightarrow> fd_inv H T rent pid s"
  by (auto simp: fd_inv_def fd_account_ok_def intro: draw_inv_mono [where S = S])

lemma ok_more: "fd_account_ok H S rent k a \<Longrightarrow> data b = data a \<Longrightarrow> lamports a \<le> lamports b \<Longrightarrow> fd_account_ok H S rent k b"
  by (simp add: fd_account_ok_def word_le_nat_alt)

lemma keeps_inv:
  assumes "fd_inv H S rent pid s" and "fd_keeps pid {k} s s'" and "fd_live pid (s' k) \<Longrightarrow> fd_account_ok H S rent k (s' k)"
  shows "fd_inv H S rent pid s'"
  unfolding fd_inv_def
proof (intro allI impI)
  fix j assume l: "fd_live pid (s' j)"
  show "fd_account_ok H S rent j (s' j)"
  proof (cases "j = k")
    case True
    then show ?thesis using assms(3) l by simp
  next
    case False
    then have "j \<notin> {k}" by simp
    moreover from fd_keeps_live [OF assms(2) this] l have "fd_live pid (s j)" by simp
    moreover from this have "fd_account_ok H S rent j (s j)" using assms(1) by (simp add: fd_inv_def)
    ultimately show ?thesis using assms(2) unfolding fd_keeps_def by (blast intro: ok_more)
  qed
qed

lemma keeps_all_inv:
  assumes "fd_inv H S rent pid s" and "fd_keeps pid {} s s'"
  shows "fd_inv H S rent pid s'"
proof -
  have "fd_account_ok H S rent k (s' k)" if "fd_live pid (s' k)" for k
    using assms fd_keeps_live [OF assms(2), of k] that unfolding fd_inv_def fd_keeps_def by (auto intro: ok_more)
  then show ?thesis by (simp add: fd_inv_def)
qed

text \<open>An account whose header was written last.\<close>

lemma packed_ok:
  assumes pk: "fd_pack e b = Inr b'" and inv: "dinv H S k e (slots e b) (won e b)" and wf: "fd_wf e"
    and len: "if fd_status e = STATUS_CREATED then length b \<le> fd_len e else full e b"
    and a: "data a = b'" and r: "unat (rent (length b)) + reserve e \<le> unat (lamports a)"
  shows "fd_account_ok H S rent k a"
proof -
  note p = pack_tables [OF wf pk]
  have "slots e b' = slots e b" "won e b' = won e b" by (simp_all add: slots_def won_def p(3,4))
  then show ?thesis using inv len r p(1,2) a by (auto simp: fd_account_ok_def draw_inv_def full_def)
qed

lemma load_draw_Inr:
  "load_draw rt pid ai s = Inr d \<longleftrightarrow> fd_live pid (s (key ai)) \<and> d = draw_at (s (key ai)) \<and>
     create_program_address rt (draw_seeds d) pid = Some (key ai)"
  by (auto simp: load_draw_def fd_live_def fd_unpack_Some draw_seeds_def split: if_splits)

lemma loaded:
  assumes "load_draw rt pid ai s = Inr d" and "fd_inv H S rent pid s"
  shows "fd_live pid (s (key ai))" and "d = draw_at (s (key ai))" and "draw_inv H S (key ai) d (data (s (key ai)))"
    and "dinv H S (key ai) d (slots d (data (s (key ai)))) (won d (data (s (key ai))))"
    and "unat (rent (length (data (s (key ai))))) + reserve d \<le> unat (lamports (s (key ai)))"
    and "fd_wf d" and "owner (s (key ai)) = pid"
    and "fd_status d \<noteq> STATUS_CREATED \<Longrightarrow> full d (data (s (key ai)))"
proof -
  show l: "fd_live pid (s (key ai))" and d: "d = draw_at (s (key ai))" using assms(1) by (simp_all add: load_draw_Inr)
  then have "fd_account_ok H S rent (key ai) (s (key ai))" using assms(2) by (simp add: fd_inv_def)
  then show i: "draw_inv H S (key ai) d (data (s (key ai)))"
    and "unat (rent (length (data (s (key ai))))) + reserve d \<le> unat (lamports (s (key ai)))" by (simp_all add: fd_account_ok_def d)
  then show "dinv H S (key ai) d (slots d (data (s (key ai)))) (won d (data (s (key ai))))" by (simp add: draw_inv_def)
  then show "fd_wf d" by (simp add: dinv_def terms_ok_def)
  show "owner (s (key ai)) = pid" using l by (simp add: fd_live_def)
  show "full d (data (s (key ai)))" if "fd_status d \<noteq> STATUS_CREATED" using i that by (simp add: draw_inv_def)
qed

lemma store_draw_Inr: "store_draw ai d s = Inr s' \<longleftrightarrow> (\<exists>b. fd_pack d (data (s (key ai))) = Inr b \<and> s' = set_data s (key ai) b)"
  by (auto simp: store_draw_def)

lemma wf_rounds: "fd_wf d \<Longrightarrow> length (fd_tiers d) = 8 \<and> length (fd_rounds d) = 4 \<and>
    (\<forall>r \<in> set (fd_rounds d). length (ri_slot_hash r) = 32 \<and> length (ri_seed r) = 32)"
  by (simp add: fd_wf_def)

lemma reserve_progress: "fd_terms d e \<Longrightarrow> same_progress d e \<Longrightarrow> reserve e = reserve d"
  by (simp add: reserve_def is_sol_prize_def fd_terms_def same_progress_def)

lemma solvent_ok:
  assumes "assert_solvent rt ai e v s = Inr ()"
  shows "unat (minimum_balance rt (length (data (s (key ai))))) + reserve e \<le> unat (lamports (s (key ai)))"
proof -
  from assms obtain out where out: "outstanding e = Some out" by (auto simp: assert_solvent_def Let_def)
  then have u: "unat out = unat (fd_funded e) - unat (fd_paid e) - unat (fd_returned e)"
    by (auto simp: outstanding_def dest!: checked_sub_unat split: option.splits)
  show ?thesis
  proof (cases "is_sol_prize e")
    case True
    with assms out obtain need where "checked_add (minimum_balance rt (length (data (s (key ai))))) out = Some need"
      "need \<le> lamports (s (key ai))"
      by (auto simp: assert_solvent_def Let_def fd_add_Inr not_less split: if_splits)
    with u True show ?thesis by (auto simp: reserve_def word_le_nat_alt dest: checked_add_unat)
  next
    case False
    with assms out show ?thesis
      by (auto simp: assert_solvent_def Let_def not_less reserve_def word_le_nat_alt split: if_splits)
  qed
qed

end
