(* ===== verification/FdEvolve.thy ===== *)
theory FdEvolve
  imports FdStore
begin

text \<open>
  The instructions of \<open>null_fair_draw\<close> that only write the draw account keep the invariant of the store.
\<close>

section \<open>Handlers that only write the draw account\<close>

text \<open>The new header \<open>e\<close> goes with bytes \<open>b\<close> that carry the tables; lamports stay.\<close>

lemma write_inv:
  assumes inv: "fd_inv H S rent pid s" and ld: "load_draw rt pid ai s = Inr d"
    and pk: "fd_pack e b = Inr b'" and dinv: "dinv H S (key ai) e (slots e b) (won e b)" and wf: "fd_wf e"
    and len: "fd_status e \<noteq> STATUS_CREATED" "full e b" and lb: "length b = length (data (s (key ai)))"
    and r: "reserve e = reserve d"
  shows "fd_inv H S rent pid (set_data s (key ai) b')"
proof (rule keeps_inv [OF inv set_data_keeps [where k = "key ai"]])
  show "fd_account_ok H S rent (key ai) (set_data s (key ai) b' (key ai))"
    by (rule packed_ok [OF pk dinv wf]) (use len lb r loaded(5) [OF ld inv] in \<open>simp_all add: set_data_def\<close>)
qed

lemma fd_commit_Inr:
  assumes "fd_commit_list rt pid accounts root w n dep s = Inr s'"
  shows "\<exists>ai d t0 b'. load_draw rt pid ai s = Inr d \<and> fd_status d = STATUS_FUNDED \<and>
    fd_pack (d\<lparr>fd_root := root, fd_total_weight := w, fd_leaf_count := n,
       fd_depth := dep, fd_commit_slot := clock_slot rt, fd_rounds := (fd_rounds d)[0 := (fd_rounds d ! 0)\<lparr>ri_first_target := t0\<rparr>],
       fd_status := STATUS_AWAIT_DRAW\<rparr>) (data (s (key ai))) = Inr b' \<and> s' = set_data s (key ai) b'"
  using assms by (auto simp: fd_commit_list_def store_draw_Inr Let_def split: if_splits)

lemma commit_inv:
  assumes inv: "fd_inv H S rent pid s" and run: "fd_commit_list rt pid accounts root w n dep s = Inr s'"
  shows "fd_inv H S rent pid s'"
proof -
  from fd_commit_Inr [OF run] obtain ai d t0 b' where ld: "load_draw rt pid ai s = Inr d" and st: "fd_status d = STATUS_FUNDED"
    and pk: "fd_pack (d\<lparr>fd_root := root, fd_total_weight := w, fd_leaf_count := n,
       fd_depth := dep, fd_commit_slot := clock_slot rt, fd_rounds := (fd_rounds d)[0 := (fd_rounds d ! 0)\<lparr>ri_first_target := t0\<rparr>],
       fd_status := STATUS_AWAIT_DRAW\<rparr>) (data (s (key ai))) = Inr b'"
    and s': "s' = set_data s (key ai) b'"
    by (elim exE conjE) (rule that, assumption+)
  let ?e = "d\<lparr>fd_root := root, fd_total_weight := w, fd_leaf_count := n,
       fd_depth := dep, fd_commit_slot := clock_slot rt, fd_rounds := (fd_rounds d)[0 := (fd_rounds d ! 0)\<lparr>ri_first_target := t0\<rparr>],
       fd_status := STATUS_AWAIT_DRAW\<rparr>"
  note l = loaded [OF ld inv]
  have t: "fd_terms d ?e" "same_progress d ?e" by (simp_all add: fd_terms_def same_progress_def)
  have wf: "fd_wf ?e"
    by (rule pack_wf [OF pk]) (use wf_rounds [OF l(6)] in \<open>auto dest!: set_update_subset_insert [THEN subsetD]\<close>)
  note sh = same_shapeD [OF fd_terms_shape [OF t(1)]]
  have tabs: "slots ?e b = slots d b" "won ?e b = won d b" for b
    using sh t(2) by (simp_all add: slots_def won_def same_progress_def)
  have "dinv H S (key ai) ?e (slots ?e (data (s (key ai)))) (won ?e (data (s (key ai))))"
    unfolding tabs by (rule entries_dinv [OF l(4) st t wf]) simp
  then show ?thesis
    unfolding s' by (rule write_inv [OF inv ld pk _ wf])
      (use l(8) st sh(5) reserve_progress [OF t] in \<open>simp_all\<close>)
qed

lemma hash_search_le: "lo \<le> hi \<Longrightarrow> hash_search d target lo hi \<le> hi"
proof (induction "hi - lo" arbitrary: lo hi rule: less_induct)
  case less
  define m where "m = lo + div_ceil (hi - lo) 2"
  show ?case
  proof (cases "lo < hi")
    case True
    have m: "lo < m" "m \<le> hi" using True by (auto simp: m_def div_ceil_def)
    have "hash_search d target lo hi = (if target \<le> entry_slot d m then hash_search d target m hi else hash_search d target lo (m - 1))"
      using True by (simp add: hash_search.simps [of d target lo hi] Let_def m_def)
    moreover have "hash_search d target m hi \<le> hi" by (rule less.hyps) (use m True in simp_all)
    moreover have "hash_search d target lo (m - 1) \<le> m - 1" by (rule less.hyps) (use m True in simp_all)
    ultimately show ?thesis using m by (auto split: if_splits)
  qed (use less.prems in \<open>simp add: hash_search.simps [of d target hi hi]\<close>)
qed

lemma select_hash_length:
  assumes "select d t0 = Inr sel"
  shows "length (se_hash sel) = 32"
proof -
  define len where "len = unat (get_u64 d 0)"
  from assms obtain target where fits: "8 + len * ENTRY_LEN \<le> length d" and pos: "0 < len"
    and hs: "se_hash sel = slice d (8 + hash_search d target 0 (len - 1) * ENTRY_LEN + 8) 32"
    by (auto simp: select_def Let_def len_def not_less split: if_splits simp del: ENTRY_LEN_def)
  have "hash_search d target 0 (len - 1) \<le> len - 1" by (rule hash_search_le) simp
  then have "(hash_search d target 0 (len - 1) + 1) * ENTRY_LEN \<le> len * ENTRY_LEN" using pos by (intro mult_le_mono1) linarith
  with fits show ?thesis unfolding hs by (intro length_slice) simp
qed

lemma fix_seed_Inr:
  assumes "fix_seed rt ai hashes_ai d s = Inr s'" and "fd_wf d" and "\<forall>xs. length (hashv rt xs) = 32"
  shows "\<exists>rs b'. fd_wf (d\<lparr>fd_rounds := rs, fd_status := STATUS_RESOLVING\<rparr>) \<and>
    fd_pack (d\<lparr>fd_rounds := rs, fd_status := STATUS_RESOLVING\<rparr>) (data (s (key ai))) = Inr b' \<and> s' = set_data s (key ai) b'"
proof -
  let ?r = "unat (fd_round d)"
  from assms(1) obtain sel b' where sel: "select (data (s (key hashes_ai))) (ri_first_target (fd_rounds d ! ?r)) = Inr sel"
    and pk: "fd_pack (d\<lparr>fd_rounds := (fd_rounds d)[?r := \<lparr>ri_first_target = ri_first_target (fd_rounds d ! ?r), ri_target_slot = se_target_slot sel,
          ri_used_slot = se_used_slot sel, ri_attempt = se_attempt sel, ri_slot_hash = se_hash sel,
          ri_seed = round_seed rt (key ai) (fd_round d) (se_target_slot sel) (se_used_slot sel) (se_hash sel)
                 (fd_root d) (fd_total_weight d) (fd_leaf_count d)\<rparr>],
        fd_status := STATUS_RESOLVING\<rparr>) (data (s (key ai))) = Inr b'"
    and s': "s' = set_data s (key ai) b'"
    by (auto simp: fix_seed_def store_draw_Inr Let_def split: if_splits sum.splits)
  have "fd_wf (d\<lparr>fd_rounds := (fd_rounds d)[?r := \<lparr>ri_first_target = ri_first_target (fd_rounds d ! ?r), ri_target_slot = se_target_slot sel,
          ri_used_slot = se_used_slot sel, ri_attempt = se_attempt sel, ri_slot_hash = se_hash sel,
          ri_seed = round_seed rt (key ai) (fd_round d) (se_target_slot sel) (se_used_slot sel) (se_hash sel)
                 (fd_root d) (fd_total_weight d) (fd_leaf_count d)\<rparr>],
        fd_status := STATUS_RESOLVING\<rparr>)"
    by (rule pack_wf [OF pk])
      (use wf_rounds [OF assms(2)] select_hash_length [OF sel] assms(3)
       in \<open>auto simp: round_seed_def dest!: set_update_subset_insert [THEN subsetD]\<close>)
  with pk s' show ?thesis by blast
qed

lemma fix_seed_inv:
  assumes inv: "fd_inv H S rent pid s" and ld: "load_draw rt pid ai s = Inr d"
    and st: "fd_status d = STATUS_FUNDED \<or> fd_status d = STATUS_AWAIT_DRAW"
    and run: "fix_seed rt ai hashes_ai d s = Inr s'" and h32: "\<forall>xs. length (hashv rt xs) = 32"
  shows "fd_inv H S rent pid s'"
proof -
  note l = loaded [OF ld inv]
  from fix_seed_Inr [OF run l(6) h32] obtain rs b' where wf: "fd_wf (d\<lparr>fd_rounds := rs, fd_status := STATUS_RESOLVING\<rparr>)"
    and pk: "fd_pack (d\<lparr>fd_rounds := rs, fd_status := STATUS_RESOLVING\<rparr>) (data (s (key ai))) = Inr b'" and s': "s' = set_data s (key ai) b'"
    by (elim exE conjE) (rule that, assumption+)
  let ?e = "d\<lparr>fd_rounds := rs, fd_status := STATUS_RESOLVING\<rparr>"
  have t: "fd_terms d ?e" "same_progress d ?e" "same_entries d ?e" by (simp_all add: fd_terms_def same_progress_def same_entries_def)
  note sh = same_shapeD [OF fd_terms_shape [OF t(1)]]
  have tabs: "slots ?e b = slots d b" "won ?e b = won d b" for b
    using sh t(2) by (simp_all add: slots_def won_def same_progress_def)
  have "dinv H S (key ai) ?e (slots ?e (data (s (key ai)))) (won ?e (data (s (key ai))))"
    unfolding tabs by (rule seed_dinv [OF l(4) st t wf]) simp
  then show ?thesis
    unfolding s' by (rule write_inv [OF inv ld pk _ wf])
      (use l(8) st sh(5) reserve_progress [OF t(1,2)] in \<open>auto\<close>)
qed

lemma draw_empty_inv:
  assumes inv: "fd_inv H S rent pid s" and ld: "load_draw rt pid ai s = Inr d" and st: "fd_status d = STATUS_FUNDED"
    and run: "draw_empty ai d s = Inr s'"
  shows "fd_inv H S rent pid s'"
proof -
  let ?b = "data (s (key ai))" and ?void = "\<lambda>sl. sl\<lparr>sl_status := SLOT_VOID\<rparr>"
  let ?e = "d\<lparr>fd_next_slot := fd_slot_count d, fd_refundable := fd_total_prize d, fd_status := STATUS_COMPLETE\<rparr>"
  from run obtain b1 b' where v: "void_slots d ?b = Inr b1" and pk: "fd_pack ?e b1 = Inr b'" and s': "s' = set_data s (key ai) b'"
    by (auto simp: draw_empty_def)
  note l = loaded [OF ld inv]
  let ?n = "unat (fd_slot_count d)"
  have cap: "?n \<le> unat (fd_capacity d)" using l(4) st phase_capacity by (auto simp: dinv_def)
  from void_loop [OF v [unfolded void_slots_def] order_refl cap, of "unat (fd_won_count d)"]
  have vt: "slots d b1 = map ?void (slots d ?b)" "won d b1 = won d ?b" "body_only ?b b1"
    by (simp_all add: slots_def won_def)
  have t: "fd_terms d ?e" "same_progress (d\<lparr>fd_next_slot := fd_slot_count d, fd_refundable := fd_total_prize d\<rparr>) ?e"
    by (simp_all add: fd_terms_def same_progress_def)
  have wf: "fd_wf ?e" by (rule pack_wf [OF pk]) (use wf_rounds [OF l(6)] in simp_all)
  note sh = same_shapeD [OF fd_terms_shape [OF t(1)]]
  have tabs: "slots ?e b1 = map ?void (slots d ?b)" "won ?e b1 = won d ?b" using sh vt by (simp_all add: slots_def won_def)
  have "dinv H S (key ai) ?e (slots ?e b1) (won ?e b1)"
    unfolding tabs by (rule empty_dinv [OF l(4) st t(1) wf t(2)]) simp_all
  then show ?thesis
    unfolding s' by (rule write_inv [OF inv ld pk _ wf])
      (use l(8) st sh(5) vt(3) in \<open>simp_all add: reserve_def is_sol_prize_def body_only_def full_def\<close>)
qed

lemma draw_inv_step:
  assumes inv: "fd_inv H S rent pid s" and run: "fd_draw_ix rt pid accounts s = Inr s'" and h32: "\<forall>xs. length (hashv rt xs) = 32"
  shows "fd_inv H S rent pid s'"
  using run fix_seed_inv [OF inv _ _ _ h32] draw_empty_inv [OF inv]
  by (auto simp: fd_draw_ix_def split: if_splits)

lemma fd_resolve_Inr:
  assumes "fd_resolve rt pid accounts mx prs s = Inr s'"
  shows "\<exists>ai d n b1 e1 e b'. ai = hd accounts \<and> load_draw rt pid ai s = Inr d \<and> fd_status d = STATUS_RESOLVING \<and>
    fd_next_slot d < fd_slot_count d \<and> 0 < n \<and>
    resolve_loop rt (key ai) (ri_seed (fd_rounds d ! unat (fd_round d))) n True prs d (data (s (key ai))) = Inr (e1, b1, []) \<and>
    (if fd_next_slot e1 = fd_slot_count e1
     then bindE (fd_add (clock_slot rt) (fd_claim_window_slots e1)) (\<lambda>w. Inr (e1\<lparr>fd_window_end := w\<rparr>)) else Inr e1) = Inr e \<and>
    fd_pack e b1 = Inr b' \<and> s' = set_data s (key ai) b'"
proof -
  define close where "close = (\<lambda>d :: fair_draw. if fd_next_slot d = fd_slot_count d
    then bindE (fd_add (clock_slot rt) (fd_claim_window_slots d)) (\<lambda>w. Inr (d\<lparr>fd_window_end := w\<rparr>)) else Inr d)"
  define cap where "cap = (if mx = 0 \<or> MAX_RESOLVE_PER_IX < mx then MAX_RESOLVE_PER_IX else mx)"
  have "0 < unat cap" by (auto simp: cap_def unat_gt_0)
  with assms show ?thesis
    unfolding fd_resolve_def close_def [symmetric, THEN fun_cong] cap_def [symmetric] Let_def
    by (auto simp: not_le split: if_splits)
qed

lemma resolve_inv:
  assumes inv: "fd_inv H S rent pid s" and run: "fd_resolve rt pid accounts mx prs s = Inr s'" and h: "hashv rt = H"
    and inj: "node_inj (hash_rt H) S"
    and prs: "\<forall>pr \<in> set prs. proof_pairs rt (key (hd accounts)) (draw_at (s (key (hd accounts)))) pr \<subseteq> S"
  shows "fd_inv H S rent pid s'"
proof -
  from fd_resolve_Inr [OF run] obtain ai d n b1 e1 e b' where hd: "ai = hd accounts" and ld: "load_draw rt pid ai s = Inr d"
    and st: "fd_status d = STATUS_RESOLVING" and lt: "fd_next_slot d < fd_slot_count d"
    and lp: "resolve_loop rt (key ai) (ri_seed (fd_rounds d ! unat (fd_round d))) n True prs d (data (s (key ai))) = Inr (e1, b1, [])"
    and e: "(if fd_next_slot e1 = fd_slot_count e1
     then bindE (fd_add (clock_slot rt) (fd_claim_window_slots e1)) (\<lambda>w. Inr (e1\<lparr>fd_window_end := w\<rparr>)) else Inr e1) = Inr e"
    and pk: "fd_pack e b1 = Inr b'" and s': "s' = set_data s (key ai) b'"
    by (elim exE conjE) (rule that, assumption+)
  note l = loaded [OF ld inv]
  let ?b = "data (s (key ai))"
  have full: "full d ?b" using l(8) st by simp
  have p: "\<forall>pr \<in> set prs. proof_pairs rt (key ai) d pr \<subseteq> S" using prs l(2) hd by simp
  from resolve_loop_account [OF lp h inj p rinv_start [OF l(4) st lt] full]
  have r: "rinv H S (key ai) e1 (slots e1 b1) (won e1 b1)" "full e1 b1" "body_only ?b b1" "resolve_step d e1" by blast+
  note f = resolve_step_facts [OF r(4)]
  have "\<exists>w. w \<noteq> 0 \<and> e = (if fd_next_slot e1 = fd_slot_count e1 then e1\<lparr>fd_window_end := w\<rparr> else e1)"
  proof (cases "fd_next_slot e1 = fd_slot_count e1")
    case True
    with e obtain w where w: "fd_add (clock_slot rt) (fd_claim_window_slots e1) = Inr w" "e = e1\<lparr>fd_window_end := w\<rparr>" by auto
    have "MIN_CLAIM_WINDOW_SLOTS \<le> fd_claim_window_slots e1" using r(1) by (simp add: rinv_def terms_ok_def)
    then have "0 < unat (fd_claim_window_slots e1)" by (simp add: word_le_nat_alt)
    moreover have "unat w = unat (clock_slot rt) + unat (fd_claim_window_slots e1)" using w(1) checked_add_unat by (auto simp: fd_add_Inr)
    ultimately have "w \<noteq> 0" by (intro notI) simp
    with True w(2) show ?thesis by auto
  next
    case False
    with e show ?thesis by (intro exI [of _ 1]) simp
  qed
  then obtain w where w: "w \<noteq> 0" "e = (if fd_next_slot e1 = fd_slot_count e1 then e1\<lparr>fd_window_end := w\<rparr> else e1)" by blast
  have t1: "fd_terms e1 e" by (simp add: w(2) fd_terms_def)
  have sc: "fd_slot_count e = fd_slot_count e1" "fd_won_count e = fd_won_count e1" by (simp_all add: w(2))
  note sh = same_shapeD [OF fd_terms_shape [OF t1]]
  have tabs: "slots e b1 = slots e1 b1" "won e b1 = won e1 b1" using sh sc by (simp_all add: slots_def won_def)
  have dinv: "dinv H S (key ai) e (slots e b1) (won e b1)" unfolding tabs by (rule rinv_end [OF r(1) w(2,1)])
  have wf: "fd_wf e" using dinv by (simp add: dinv_def terms_ok_def)
  show ?thesis
    unfolding s' by (rule write_inv [OF inv ld pk dinv wf])
      (use f st sh(5) r(2,3) in \<open>simp_all add: w(2) reserve_def is_sol_prize_def fd_terms_def body_only_def full_def\<close>)
qed

lemma refund_tiers_Inr:
  assumes "refund_tiers d ts = Inr e" and "fd_wf d"
  shows "\<exists>r. e = d\<lparr>fd_refundable := r\<rparr> \<and> unat r = unat (fd_refundable d) + sum_list (map (tier_worth d) ts)"
  using assms
proof (induction ts arbitrary: d)
  case Nil
  then show ?case by (intro exI [of _ "fd_refundable d"]) (simp add: refund_tiers_def)
next
  case (Cons t ts)
  then obtain a r where a: "tier_amount d t = Inr a" and r: "fd_add (fd_refundable d) a = Inr r"
    and rec: "refund_tiers (d\<lparr>fd_refundable := r\<rparr>) ts = Inr e"
    by (auto simp: refund_tiers_def)
  have "fd_wf (d\<lparr>fd_refundable := r\<rparr>)" using Cons.prems(2) by (simp add: fd_wf_def)
  from Cons.IH [OF rec this] obtain r' where "e = d\<lparr>fd_refundable := r'\<rparr>"
    "unat r' = unat r + sum_list (map (tier_worth (d\<lparr>fd_refundable := r\<rparr>)) ts)" by auto
  moreover have "unat r = unat (fd_refundable d) + tier_worth d t"
    using r a checked_add_unat by (auto simp: fd_add_Inr tier_amount_Inr [OF Cons.prems(2)] tier_worth_def)
  moreover have "tier_worth (d\<lparr>fd_refundable := r\<rparr>) = tier_worth d" by (intro ext) (simp add: tier_worth_def)
  ultimately show ?case by (intro exI [of _ r']) simp
qed

lemma fd_advance_Inr:
  assumes "fd_advance rt pid accounts s = Inr s'"
  shows "\<exists>ai d b1 ts m e b2 b'. load_draw rt pid ai s = Inr d \<and> fd_status d = STATUS_RESOLVING \<and> fd_window_end d \<noteq> 0 \<and>
    ai = hd accounts \<and> fd_next_slot d = fd_slot_count d \<and>
    foldE (forfeit_slot d) [unat (fd_round_first_slot d)..<unat (fd_slot_count d)] (data (s (key ai)), []) = Inr (b1, ts) \<and>
    fd_sub (fd_total_weight d) (fd_won_weight d) = Inr m \<and>
    (if ts \<noteq> [] \<and> fd_round d < fd_redraw_rounds d \<and> 0 < m then next_round d ts b1
     else bindE (refund_tiers d ts) (\<lambda>d. Inr (d\<lparr>fd_status := STATUS_COMPLETE\<rparr>, b1))) = Inr (e, b2) \<and>
    fd_pack e b2 = Inr b' \<and> s' = set_data s (key ai) b'"
proof -
  define branch where "branch = (\<lambda>d ts b (m :: u64).
    if ts \<noteq> [] \<and> fd_round d < fd_redraw_rounds d \<and> 0 < m then next_round d ts b
    else bindE (refund_tiers d ts) (\<lambda>d. Inr (d\<lparr>fd_status := STATUS_COMPLETE\<rparr>, b)))"
  from assms show ?thesis
    unfolding fd_advance_def branch_def [symmetric, THEN fun_cong, THEN fun_cong, THEN fun_cong, THEN fun_cong]
    by (auto split: if_splits)
qed

lemma advance_inv:
  assumes inv: "fd_inv H S rent pid s" and run: "fd_advance rt pid accounts s = Inr s'"
  shows "fd_inv H S rent pid s'"
proof -
  from fd_advance_Inr [OF run] obtain ai d b1 ts and m :: u64 and e b2 b' where ld: "load_draw rt pid ai s = Inr d"
    and st: "fd_status d = STATUS_RESOLVING" "fd_window_end d \<noteq> 0"
    and lp: "foldE (forfeit_slot d) [unat (fd_round_first_slot d)..<unat (fd_slot_count d)] (data (s (key ai)), []) = Inr (b1, ts)"
    and br: "(if ts \<noteq> [] \<and> fd_round d < fd_redraw_rounds d \<and> 0 < m then next_round d ts b1
            else bindE (refund_tiers d ts) (\<lambda>d. Inr (d\<lparr>fd_status := STATUS_COMPLETE\<rparr>, b1))) = Inr (e, b2)"
    and pk: "fd_pack e b2 = Inr b'" and s': "s' = set_data s (key ai) b'"
    by (elim exE conjE) (rule that, assumption+)
  note l = loaded [OF ld inv]
  let ?b = "data (s (key ai))" and ?n = "unat (fd_slot_count d)" and ?f = "unat (fd_round_first_slot d)"
  let ?t = "slots d ?b"
  have full: "full d ?b" using l(8) st by simp
  have d: "terms_ok d" "round_ok d ?t" using l(4) st by (simp_all add: dinv_def phase_ok_def)
  have cap: "?n \<le> unat (fd_capacity d)" by (rule round_capacity [OF d])
  have fn: "?f \<le> ?n" using d(2) by (simp add: round_ok_def)
  note dr = drawn_round [OF l(4) st]
  have lp': "foldE (forfeit_slot d) [?f..<?f + (?n - ?f)] (?b, []) = Inr (b1, ts)" using lp fn by simp
  note fl = forfeit_loop [OF lp', of ?n "unat (fd_won_count d)"]
  have tk: "take (?n - ?f) (drop ?f ?t) = drop ?f ?t" by simp
  from fl fn cap have "slot_tab d b1 ?n = take ?f ?t @ map forfeit (drop ?f ?t)" "ts = unclaimed (drop ?f ?t)"
    "won d b1 = won d ?b" "body_only ?b b1"
    unfolding slots_def [symmetric] tk by (simp_all add: won_def slots_def)
  then have b1: "slot_tab d b1 ?n = map forfeit ?t" "ts = unclaimed ?t" "won d b1 = won d ?b" "body_only ?b b1"
    using dr(5,6) by simp_all
  have full1: "full d b1" using full b1(4) by (simp add: body_only_def full_def)
  show ?thesis
  proof (cases "ts \<noteq> [] \<and> fd_round d < fd_redraw_rounds d \<and> 0 < m")
    case True
    with br have nr: "next_round d ts b1 = Inr (e, b2)" by simp
    let ?xs = "map (\<lambda>(k, t). (?n + k, pending_slot t (fd_round d + 1))) (enumerate 0 ts)"
    from nr obtain t0 where ws: "write_slots d ?xs b1 = Inr b2"
      and e: "e = d\<lparr>fd_round := fd_round d + 1, fd_round_first_slot := fd_slot_count d,
        fd_slot_count := fd_slot_count d + of_nat (length ts),
        fd_rounds := (fd_rounds d)[unat (fd_round d + 1) := (fd_rounds d ! unat (fd_round d + 1))\<lparr>ri_first_target := t0\<rparr>],
        fd_window_end := 0, fd_status := STATUS_AWAIT_DRAW\<rparr>" and rl: "unat (fd_round d + 1) < length (fd_rounds d)"
      by (auto simp: next_round_def Let_def split: if_splits)
    have wf: "fd_wf e"
      by (rule pack_wf [OF pk]) (use wf_rounds [OF l(6)] rl in \<open>auto simp: e dest!: set_update_subset_insert [THEN subsetD]\<close>)
    note nx = next_dinv [OF l(4) st _ _ e [unfolded b1(2)] wf, folded b1(2)]
    have nx': "dinv H S (key ai) e (map forfeit ?t @ map (\<lambda>t. pending_slot t (fd_round d + 1)) ts) (won d ?b)"
      "unat (fd_slot_count e) = ?n + length ts" "?n + length ts \<le> unat (fd_capacity d)" using nx True by simp_all
    have t: "fd_terms d e" by (simp add: e fd_terms_def)
    note sh = same_shapeD [OF fd_terms_shape [OF t]]
    have rng: "\<forall>(j, sl) \<in> set ?xs. j < unat (fd_capacity d)" using nx'(3) by (auto simp: in_set_enumerate_eq)
    note w = write_slots_tables [OF ws rng, where n = "?n + length ts" and m = "unat (fd_won_count d)" and off = 0 and len = 8]
    have "fold (\<lambda>(j, sl) t. t[j := sl]) ?xs (slot_tab d b1 (?n + length ts)) =
        slot_tab d b1 ?n @ map (\<lambda>t. pending_slot t (fd_round d + 1)) ts"
      using fold_updates [of ?n "\<lambda>t. pending_slot t (fd_round d + 1)" 0 ts "slot_tab d b1 (?n + length ts)"]
        take_slot_tab [of ?n "?n + length ts" d b1] by simp
    with w b1(1) have tabs: "slots e b2 = map forfeit ?t @ map (\<lambda>t. pending_slot t (fd_round d + 1)) ts"
      by (simp add: slots_def nx'(2) sh(4))
    have wn: "won e b2 = won d ?b" using w b1(3) sh(2) by (simp add: won_def e)
    have "dinv H S (key ai) e (slots e b2) (won e b2)" unfolding tabs wn by (rule nx'(1))
    then show ?thesis
      unfolding s' by (rule write_inv [OF inv ld pk _ wf])
        (use w full1 sh(5) full in \<open>simp_all add: e reserve_def is_sol_prize_def full_def\<close>)
  next
    case False
    with br have br': "bindE (refund_tiers d ts) (\<lambda>d. Inr (d\<lparr>fd_status := STATUS_COMPLETE\<rparr>, b1)) = Inr (e, b2)" by (simp only: if_False)
    then obtain d1 where "refund_tiers d ts = Inr d1" and e1: "e = d1\<lparr>fd_status := STATUS_COMPLETE\<rparr>" "b2 = b1" by auto
    from refund_tiers_Inr [OF this(1) l(6)] obtain r where r: "unat r = unat (fd_refundable d) + sum_list (map (tier_worth d) (unclaimed ?t))"
      and e: "e = d\<lparr>fd_refundable := r, fd_status := STATUS_COMPLETE\<rparr>" using b1(2) e1(1) by auto
    have t: "fd_terms d e" by (simp add: e fd_terms_def)
    note sh = same_shapeD [OF fd_terms_shape [OF t]]
    have tabs: "slots e b2 = map forfeit ?t" "won e b2 = won d ?b"
      using b1 sh by (simp_all add: slots_def won_def e e1(2))
    have wf: "fd_wf e" using l(6) by (simp add: e fd_wf_def)
    have "dinv H S (key ai) e (slots e b2) (won e b2)" unfolding tabs by (rule complete_dinv [OF l(4) st r e])
    then show ?thesis
      unfolding s' by (rule write_inv [OF inv ld pk _ wf])
        (use full1 sh(5) full in \<open>simp_all add: e e1(2) reserve_def is_sol_prize_def full_def\<close>)
  qed
qed

end
