(* ===== verification/FdEvolveCpi.thy ===== *)
theory FdEvolveCpi
  imports FdEvolve
begin

text \<open>
  The invariant of the store over the handlers of \<open>null_fair_draw\<close> that move lamports, call the system
  and token programs, or create, grow and close accounts.
\<close>

lemma not_live_keeps: "fd_keeps pid {k} s s' \<Longrightarrow> \<not> fd_live pid (s k) \<Longrightarrow> \<not> fd_live pid (s' k) \<Longrightarrow> fd_keeps pid {} s s'"
  unfolding fd_keeps_def by (metis empty_iff insert_iff)

lemma keeps_at: "fd_keeps pid A s s' \<Longrightarrow> k \<notin> A \<Longrightarrow> fd_live pid (s k) \<Longrightarrow>
    owner (s' k) = owner (s k) \<and> data (s' k) = data (s k) \<and> lamports (s k) \<le> lamports (s' k)"
  by (simp add: fd_keeps_def)

lemma fd_realloc_Inr: "fd_realloc k n s = Inr s' \<longleftrightarrow> n - length (data (s k)) \<le> MAX_PERMITTED_DATA_INCREASE \<and>
    s' = set_data s k (take n (data (s k)) @ replicate (n - length (data (s k))) 0)"
  by (auto simp: fd_realloc_def Let_def)

lemma close_into_keeps:
  assumes "close_into acct to s = Inr s'" and "pid \<noteq> SYSTEM_ID"
  shows "fd_keeps pid {key acct} s s'" and "\<not> fd_live pid (s' (key acct))"
proof -
  from assms(1) obtain s1 where d: "debit acct to (lamports (s (key acct))) s = Inr s1"
    and s': "s' = set_owner (set_data s1 (key acct) []) (key acct) SYSTEM_ID"
    by (auto simp: close_into_def fd_realloc_Inr)
  note f = debit_frame [OF d]
  show "fd_keeps pid {key acct} s s'"
    unfolding fd_keeps_def s' using f by (simp add: set_apply)
  show "\<not> fd_live pid (s' (key acct))" using assms(2) by (simp add: s' fd_live_def set_apply)
qed

lemma entrant_dead: "entrant_unpack b = Some r \<Longrightarrow> fd_unpack b = None"
  by (rule short_not_draw) (auto simp: entrant_unpack_def split: if_splits)

lemma entrant_pack_dead: "entrant_pack e b = Inr b' \<Longrightarrow> length b = ENTRANT_LEN \<Longrightarrow> fd_unpack b' = None"
  by (rule short_not_draw) (auto simp: entrant_pack_def dest: wr_all_length)

lemma close_entrant_keeps:
  assumes "fd_close_entrant rt pid accounts s = Inr s'" and "pid \<noteq> SYSTEM_ID"
  shows "fd_keeps pid {} s s'"
proof -
  from assms(1) obtain own ai r where "entrant_unpack (data (s (key ai))) = Some r" and c: "close_into ai own s = Inr s'"
    by (auto simp: fd_close_entrant_def split: if_splits)
  then have "\<not> fd_live pid (s (key ai))" using entrant_dead by (auto simp: fd_live_def)
  then show ?thesis using not_live_keeps close_into_keeps [OF c assms(2)] by blast
qed

lemma check_claim_Inr:
  assumes "check_claim rt k me d sl x = Inr sl'"
  shows "sl' = sl \<or> sl_wallet sl = replicate 32 0 \<and> sl' = sl\<lparr>sl_wallet := me\<rparr>"
  using assms by (auto simp: check_claim_def Let_def split: if_splits)

lemma authentic_wallet:
  assumes "authentic H S k d sl" and "sl_wallet sl = replicate 32 0"
  shows "authentic H S k d (sl\<lparr>sl_wallet := me\<rparr>)"
  using assms unfolding authentic_def by (simp split: if_splits) blast

lemma authentic_status: "authentic H S k d (sl\<lparr>sl_status := st\<rparr>) = authentic H S k d sl"
  by (simp add: authentic_def)

lemma claimed_facts:
  assumes "check_claim rt k me d sl x = Inr sl'" and "authentic H S k' d sl"
  shows "authentic H S k' d sl'" and "sl_round sl' = sl_round sl" and "sl_tier sl' = sl_tier sl" and "interval sl' = interval sl"
  using check_claim_Inr [OF assms(1)] assms(2) by (auto simp: interval_def intro: authentic_wallet)

lemma slice_append: "off + n \<le> length xs \<Longrightarrow> slice (xs @ ys) off n = slice xs off n"
  by (simp add: slice_def)

lemma fd_of_append:
  assumes "HEADER_LEN \<le> length b"
  shows "fd_of (b @ z) = fd_of b"
  using assms
  by (simp add: fd_of_def tier_of_def round_of_def get_u64_def get_u32_def get_u16_def slice_append nth_append)

context solana_lamports
begin

lemma create_pda_effect:
  assumes "fd_create_pda rt payer target system own space seeds in_use s = Inr s'" and "space < 2 ^ 64"
  shows "owner (s (key target)) \<noteq> pid" and "owner (s' (key target)) = own" and "data (s' (key target)) = replicate space 0"
    and "foreign_step pid s s'"
proof -
  have n: "unat (of_nat space :: u64) = space" using assms(2) by (simp add: unat_of_nat)
  have "owner (s (key target)) = SYSTEM_ID \<and> owner (s' (key target)) = own \<and> data (s' (key target)) = replicate space 0 \<and> foreign_step pid s s'"
  proof (cases "lamports (s (key target)) = 0")
    case True
    with assms(1) have "invoke_signed rt (SystemCpi (CreateAccount (key payer) (key target) (minimum_balance rt space) (of_nat space) own))
          [payer, target, system] [seeds] s = Inr s'"
      by (simp add: fd_create_pda_def Let_def)
    from create_account_effect [OF this] system_foreign [OF this] n show ?thesis by simp
  next
    case False
    let ?top = "saturating_sub (minimum_balance rt space) (lamports (s (key target)))"
    from assms(1) False obtain s1 s2 where o: "owner (s (key target)) = SYSTEM_ID"
      and s1: "(if ?top > 0 then invoke rt (SystemCpi (Transfer (key payer) (key target) ?top)) [payer, target, system] s else Inr s) = Inr s1"
      and s2: "invoke_signed rt (SystemCpi (Allocate (key target) (of_nat space))) [target, system] [seeds] s1 = Inr s2"
      and s3: "invoke_signed rt (SystemCpi (Assign (key target) own)) [target, system] [seeds] s2 = Inr s'"
      by (auto simp: fd_create_pda_def Let_def split: if_splits)
    have "foreign_step pid s s1" using s1 system_foreign foreign_step_refl by (auto simp: invoke_def split: if_splits)
    then have "foreign_step pid s s'" using system_foreign [OF s2] system_foreign [OF s3] foreign_step_trans by blast
    then show ?thesis using o allocate_effect [OF s2] assign_effect [OF s3] n by simp
  qed
  then show "owner (s (key target)) \<noteq> pid" "owner (s' (key target)) = own" "data (s' (key target)) = replicate space 0" "foreign_step pid s s'"
    using pid_not_system by simp_all
qed

lemma invoke_foreign: "invoke rt c infos s = Inr s' \<Longrightarrow> cpi_program c \<noteq> pid \<Longrightarrow> foreign_step pid s s'"
  unfolding invoke_def by (rule cpi_foreign)

lemma token_cpi:
  "pid \<noteq> FD_TOKEN_PROGRAM_ID \<Longrightarrow> cpi_program (ProgramCpi (fd_transfer a b c n)) \<noteq> pid"
  "pid \<noteq> FD_TOKEN_PROGRAM_ID \<Longrightarrow> cpi_program (ProgramCpi (fd_close_account a b c)) \<noteq> pid"
  "pid \<noteq> FD_TOKEN_PROGRAM_ID \<Longrightarrow> cpi_program (ProgramCpi (fd_initialize_account3 a b c)) \<noteq> pid"
  "cpi_program (SystemCpi i) \<noteq> pid"
  using pid_not_system by (auto simp: fd_transfer_def fd_close_account_def fd_initialize_account3_def)

section \<open>Entrants and fees\<close>

lemma enter_cap_keeps:
  assumes "enter_cap rt pid d payer draw_ai system entrant_ai cnt own s = Inr s'"
  shows "fd_keeps pid {} s s'"
proof (cases "0 < fd_wallet_cap d")
  case False
  with assms show ?thesis by (simp add: enter_cap_def fd_keeps_refl)
next
  case True
  let ?k = "key entrant_ai"
  from assms True obtain eb r s1 b where
    src: "if owner (s ?k) = pid then entrant_unpack (data (s ?k)) \<noteq> None \<and> s1 = s
      else fd_create_pda rt payer entrant_ai system pid ENTRANT_LEN [ENTRANT_SEED, key draw_ai, own, [eb]] (fd_err DfAccountInUse) s = Inr s1"
    and pk: "entrant_pack r (data (s1 ?k)) = Inr b" and s': "s' = set_data s1 ?k b"
    by (auto simp: enter_cap_def Let_def simp del: ENTRANT_LEN_def split: if_splits prod.splits)
  have "fd_keeps pid {} s s1 \<and> fd_unpack (data (s1 ?k)) = None \<and> length (data (s1 ?k)) = ENTRANT_LEN"
  proof (cases "owner (s ?k) = pid")
    case True
    with src show ?thesis using entrant_dead fd_keeps_refl by (auto simp: entrant_unpack_def split: if_splits)
  next
    case False
    with src have c: "fd_create_pda rt payer entrant_ai system pid ENTRANT_LEN [ENTRANT_SEED, key draw_ai, own, [eb]] (fd_err DfAccountInUse) s = Inr s1"
      by simp
    have "ENTRANT_LEN < (2 :: nat) ^ 64" by simp
    from create_pda_effect [OF c this] show ?thesis using foreign_keeps zero_not_draw by auto
  qed
  then have a: "fd_keeps pid {} s s1" "fd_unpack (data (s1 ?k)) = None" "length (data (s1 ?k)) = ENTRANT_LEN" by blast+
  from a(1) set_data_dead [where pid = pid and s = s1, OF a(2) entrant_pack_dead [OF pk a(3)]] show ?thesis unfolding s' by (blast intro: fd_keeps_trans)
qed

lemma enter_fee_keeps:
  assumes "enter_fee rt d payer system fee_dest price it s = Inr s'" and "pid \<noteq> FD_TOKEN_PROGRAM_ID"
  shows "fd_keeps pid {} s s'"
proof (cases "0 < price")
  case False
  with assms show ?thesis by (simp add: enter_fee_def fd_keeps_refl)
next
  case True
  with assms have "foreign_step pid s s'"
    using assms(2) invoke_foreign token_cpi by (auto simp: enter_fee_def split: if_splits)
  then show ?thesis by (rule foreign_keeps)
qed

lemma fd_enter_Inr:
  assumes "fd_enter rt pid accounts cnt own s = Inr s'" and tok: "pid \<noteq> FD_TOKEN_PROGRAM_ID"
  shows "\<exists>ai d s2 leaf weight xs e b b'. load_draw rt pid ai s = Inr d \<and> fd_mode d = MODE_OPEN \<and> fd_status d = STATUS_FUNDED \<and>
    fd_keeps pid {} s s2 \<and> foldE (\<lambda>_. enter_leaf rt leaf weight) (xs :: nat list) (d, data (s2 (key ai))) = Inr (e, b) \<and>
    fd_pack e b = Inr b' \<and> s' = set_data s2 (key ai) b'"
proof -
  from assms(1) obtain payer ai system entrant_ai fee_dest it d price s1 s2 leaf weight and xs :: "nat list" and e b b' where
    ld: "load_draw rt pid ai s = Inr d" and st: "fd_mode d = MODE_OPEN" "fd_status d = STATUS_FUNDED"
    and s1: "enter_cap rt pid d payer ai system entrant_ai cnt own s = Inr s1"
    and s2: "enter_fee rt d payer system fee_dest price it s1 = Inr s2"
    and lp: "foldE (\<lambda>_. enter_leaf rt leaf weight) xs (d, data (s2 (key ai))) = Inr (e, b)"
    and pk: "fd_pack e b = Inr b'" and s': "s' = set_data s2 (key ai) b'"
    unfolding fd_enter_def Let_def by (auto simp del: upt_Suc upt_rec_numeral split: if_splits)
  have "fd_keeps pid {} s s2"
    by (rule fd_keeps_trans [OF enter_cap_keeps [OF s1] enter_fee_keeps [OF s2 tok]])
  with ld st lp pk s' show ?thesis by blast
qed

lemma enter_inv:
  assumes inv: "fd_inv H S rent pid s" and run: "fd_enter rt pid accounts cnt own s = Inr s'" and tok: "pid \<noteq> FD_TOKEN_PROGRAM_ID"
  shows "fd_inv H S rent pid s'"
proof -
  from fd_enter_Inr [OF run tok] obtain ai d s2 leaf weight and xs :: "nat list" and e b b' where
    ld: "load_draw rt pid ai s = Inr d" and st: "fd_mode d = MODE_OPEN" "fd_status d = STATUS_FUNDED" and k: "fd_keeps pid {} s s2"
    and lp: "foldE (\<lambda>_. enter_leaf rt leaf weight) xs (d, data (s2 (key ai))) = Inr (e, b)"
    and pk: "fd_pack e b = Inr b'" and s': "s' = set_data s2 (key ai) b'"
    by (elim exE conjE) (rule that, assumption+)
  have inv2: "fd_inv H S rent pid s2" by (rule keeps_all_inv [OF inv k])
  have "data (s2 (key ai)) = data (s (key ai))" using keeps_at [OF k] ld by (simp add: load_draw_Inr)
  moreover have "fd_live pid (s2 (key ai))" using fd_keeps_live [OF k] ld by (simp add: load_draw_Inr)
  ultimately have ld2: "load_draw rt pid ai s2 = Inr d" using ld unfolding load_draw_Inr by metis
  note l = loaded [OF ld2 inv2]
  let ?b = "data (s2 (key ai))"
  from enter_loop [OF lp st(1)] have e: "entry_step d e" and tb: "slot_tab d b n = slot_tab d ?b n"
    "won_list (sorted_offset d) b m = won_list (sorted_offset d) ?b m" "body_only ?b b" for n m by blast+
  note f = entry_step_facts [OF e]
  note sh = same_shapeD [OF fd_terms_shape [OF f(1)]]
  have tabs: "slots e b = slots d ?b" "won e b = won d ?b"
    using sh f(6,7) tb by (simp_all add: slots_def won_def)
  have wf: "fd_wf e" by (rule pack_wf [OF pk]) (use wf_rounds [OF l(6)] f(4,5) in simp_all)
  have "dinv H S (key ai) e (slots e b) (won e b)"
    unfolding tabs by (rule entries_dinv [OF l(4) st(2) f(1,2) wf]) (use st(2) f(3) in simp)
  then show ?thesis
    unfolding s' by (rule write_inv [OF inv2 ld2 pk _ wf])
      (use l(8) st(2) f(3) sh(5) tb(3) reserve_progress [OF f(1,2)] in \<open>simp_all add: body_only_def full_def\<close>)
qed

section \<open>Payments\<close>

lemma pay_prize_keeps:
  assumes "pay_prize rt d ai dest splv amount s = Inr s'" and "pid \<noteq> FD_TOKEN_PROGRAM_ID"
  shows "fd_keeps pid {key ai} s s'" and "data (s' (key ai)) = data (s (key ai)) \<or> owner (s (key ai)) \<noteq> pid"
proof -
  have "fd_keeps pid {key ai} s s' \<and> (data (s' (key ai)) = data (s (key ai)) \<or> owner (s (key ai)) \<noteq> pid)"
  proof (cases "amount = 0 \<or> splv = None")
    case True
    with assms(1) show ?thesis using debit_keeps debit_frame(2) by (auto simp: pay_prize_def fd_keeps_refl split: if_splits)
  next
    case False
    with assms have "foreign_step pid s s'" using cpi_foreign token_cpi(1) by (auto simp: pay_prize_def)
    then show ?thesis using fd_keeps_mono [OF foreign_keeps] by (auto simp: foreign_step_def)
  qed
  then show "fd_keeps pid {key ai} s s'" "data (s' (key ai)) = data (s (key ai)) \<or> owner (s (key ai)) \<noteq> pid" by blast+
qed

lemma pay_spl_keeps:
  assumes "pay_spl rt pid d ai own amount it s = Inr (v, s')" and "pid \<noteq> FD_TOKEN_PROGRAM_ID"
  shows "fd_keeps pid {key ai} s s'" and "data (s' (key ai)) = data (s (key ai)) \<or> owner (s (key ai)) \<noteq> pid"
proof -
  from assms(1) obtain dest splv where "pay_prize rt d ai dest splv amount s = Inr s'"
    by (auto simp: pay_spl_def split: if_splits)
  from pay_prize_keeps [OF this assms(2)]
  show "fd_keeps pid {key ai} s s'" "data (s' (key ai)) = data (s (key ai)) \<or> owner (s (key ai)) \<noteq> pid" by blast+
qed

lemma paid_keeps:
  assumes "(if is_sol_prize d then bindE (pay_prize rt d ai dest None amount s) (\<lambda>s. Inr (None, s))
      else pay_spl rt pid d ai own amount it s) = Inr (v, s')"
    and "pid \<noteq> FD_TOKEN_PROGRAM_ID" and "owner (s (key ai)) = pid"
  shows "fd_keeps pid {key ai} s s' \<and> data (s' (key ai)) = data (s (key ai))"
proof (cases "is_sol_prize d")
  case True
  with assms(1) have "pay_prize rt d ai dest None amount s = Inr s'" by auto
  from pay_prize_keeps [OF this assms(2)] assms(3) show ?thesis by blast
next
  case False
  with assms(1) have "pay_spl rt pid d ai own amount it s = Inr (v, s')" by simp
  from pay_spl_keeps [OF this assms(2)] assms(3) show ?thesis by blast
qed

text \<open>The draw is written last and checked for solvency.\<close>

lemma paid_inv:
  assumes inv: "fd_inv H S rent pid s" and kp: "fd_keeps pid {key ai} s s1"
    and pk: "fd_pack e b = Inr b'" and dinv: "dinv H S (key ai) e (slots e b) (won e b)"
    and len: "fd_status e \<noteq> STATUS_CREATED" "full e b" and rent: "minimum_balance rt = rent"
    and sol: "assert_solvent rt ai e v (set_data s1 (key ai) b') = Inr ()"
  shows "fd_inv H S rent pid (set_data s1 (key ai) b')"
proof (rule keeps_inv [OF inv fd_keeps_trans [OF kp set_data_keeps]])
  have wf: "fd_wf e" using dinv by (simp add: dinv_def terms_ok_def)
  show "fd_account_ok H S rent (key ai) (set_data s1 (key ai) b' (key ai))"
    by (rule packed_ok [OF pk dinv wf])
      (use len solvent_ok [OF sol] rent pack_tables(2) [OF wf pk] in \<open>simp_all add: set_data_def\<close>)
qed

lemma fd_claim_Inr:
  assumes "fd_claim rt pid accounts slot x s = Inr s'"
  shows "\<exists>me it ai d sl sl' amount s1 v pd b b'. load_draw rt pid ai s = Inr d \<and> fd_status d = STATUS_RESOLVING \<and>
    slot < fd_next_slot d \<and> read_slot d (data (s (key ai))) (unat slot) = Inr sl \<and> sl_status sl = SLOT_WON \<and>
    check_claim rt (key ai) (key me) d sl x = Inr sl' \<and> tier_amount d (sl_tier sl') = Inr amount \<and>
    (if is_sol_prize d then bindE (pay_prize rt d ai me None amount s) (\<lambda>s. Inr (None, s))
     else pay_spl rt pid d ai (key me) amount it s) = Inr (v, s1) \<and> fd_add (fd_paid d) amount = Inr pd \<and>
    write_slot (d\<lparr>fd_paid := pd\<rparr>) (data (s1 (key ai))) (unat slot) (sl'\<lparr>sl_status := SLOT_CLAIMED\<rparr>) = Inr b \<and>
    fd_pack (d\<lparr>fd_paid := pd\<rparr>) b = Inr b' \<and> s' = set_data s1 (key ai) b' \<and>
    assert_solvent rt ai (d\<lparr>fd_paid := pd\<rparr>) v s' = Inr ()"
proof -
  define pay where "pay = (\<lambda>d ai me amount it s. if is_sol_prize d then bindE (pay_prize rt d ai me None amount s) (\<lambda>s. Inr (None, s))
     else pay_spl rt pid d ai (key me) amount it s)"
  from assms show ?thesis
    unfolding fd_claim_def pay_def [symmetric, THEN fun_cong, THEN fun_cong, THEN fun_cong, THEN fun_cong, THEN fun_cong, THEN fun_cong] Let_def
    by (auto simp: not_le split: if_splits) blast+
qed

lemma claim_inv:
  assumes inv: "fd_inv H S rent pid s" and run: "fd_claim rt pid accounts slot x s = Inr s'"
    and rent: "minimum_balance rt = rent" and tok: "pid \<noteq> FD_TOKEN_PROGRAM_ID"
  shows "fd_inv H S rent pid s'"
proof -
  from fd_claim_Inr [OF run] obtain me it ai d sl sl' amount s1 v pd b b' where ld: "load_draw rt pid ai s = Inr d"
    and st: "fd_status d = STATUS_RESOLVING" and j: "slot < fd_next_slot d"
    and sl: "read_slot d (data (s (key ai))) (unat slot) = Inr sl" "sl_status sl = SLOT_WON"
    and ck: "check_claim rt (key ai) (key me) d sl x = Inr sl'" and am: "tier_amount d (sl_tier sl') = Inr amount"
    and pay: "(if is_sol_prize d then bindE (pay_prize rt d ai me None amount s) (\<lambda>s. Inr (None, s))
     else pay_spl rt pid d ai (key me) amount it s) = Inr (v, s1)" and pd: "fd_add (fd_paid d) amount = Inr pd"
    and ws: "write_slot (d\<lparr>fd_paid := pd\<rparr>) (data (s1 (key ai))) (unat slot) (sl'\<lparr>sl_status := SLOT_CLAIMED\<rparr>) = Inr b"
    and pk: "fd_pack (d\<lparr>fd_paid := pd\<rparr>) b = Inr b'" and s': "s' = set_data s1 (key ai) b'"
    and sol: "assert_solvent rt ai (d\<lparr>fd_paid := pd\<rparr>) v s' = Inr ()"
    by (elim exE conjE) (rule that, assumption+)
  let ?e = "d\<lparr>fd_paid := pd\<rparr>" and ?b = "data (s (key ai))" and ?j = "unat slot"
  note l = loaded [OF ld inv]
  from paid_keeps [OF pay tok l(7)] have kp: "fd_keeps pid {key ai} s s1" and s1: "data (s1 (key ai)) = ?b" by blast+
  have d: "terms_ok d" "round_ok d (slots d ?b)" "wins_ok H S (key ai) d (slots d ?b) (won d ?b)"
    using l(4) st by (simp_all add: dinv_def phase_ok_def)
  have jn: "?j < unat (fd_next_slot d)" using j by (simp add: word_less_nat_alt)
  then have js: "?j < unat (fd_slot_count d)" using d(2) by (simp add: round_ok_def)
  then have jc: "?j < unat (fd_capacity ?e)" using round_capacity [OF d(1,2)] by simp
  have slj: "sl = slots d ?b ! ?j" unfolding slots_def by (rule read_slot_tab [OF sl(1) js])
  have "sl \<in> set (slots d ?b)" unfolding slj using js by (intro nth_mem) (simp add: slots_def slot_tab_def)
  then have au: "authentic H S (key ai) d sl" using d(3) sl(2) by (auto simp: wins_ok_def is_winner_def)
  note cf = claimed_facts [OF ck au]
  note w = write_slot_tables [OF ws jc]
  have t: "fd_terms d ?e" by (simp add: fd_terms_def)
  note sh = same_shapeD [OF fd_terms_shape [OF t]]
  have tabs: "slots ?e b = (slots d ?b)[?j := sl'\<lparr>sl_status := SLOT_CLAIMED\<rparr>]" "won ?e b = won d ?b"
    using w(2) [of "unat (fd_slot_count d)"] w(3) [of "unat (fd_won_count d)"] s1 sh by (simp_all add: slots_def won_def)
  have "dinv H S (key ai) ?e ((slots d ?b)[?j := sl'\<lparr>sl_status := SLOT_CLAIMED\<rparr>]) (won d ?b)"
    by (rule claim_dinv [OF l(4) st jn _ _ pd refl])
      (use sl(2) slj am cf in \<open>simp_all add: interval_def authentic_status\<close>)
  then show ?thesis
    unfolding s' by (intro paid_inv [OF inv kp pk _ _ _ rent sol [unfolded s']])
      (use st l(8) w(1) s1 sh(5) tabs in \<open>simp_all add: full_def\<close>)
qed

lemma fd_reclaim_Inr:
  assumes "fd_reclaim rt pid accounts s = Inr s'"
  shows "\<exists>organizer it ai d s1 v r b'. load_draw rt pid ai s = Inr d \<and> fd_status d = STATUS_COMPLETE \<and>
    key organizer = fd_organizer d \<and> fd_refundable d \<noteq> 0 \<and>
    (if is_sol_prize d then bindE (pay_prize rt d ai organizer None (fd_refundable d) s) (\<lambda>s. Inr (None, s))
     else pay_spl rt pid d ai (fd_organizer d) (fd_refundable d) it s) = Inr (v, s1) \<and>
    fd_add (fd_returned d) (fd_refundable d) = Inr r \<and>
    fd_pack (d\<lparr>fd_returned := r, fd_refundable := 0\<rparr>) (data (s1 (key ai))) = Inr b' \<and> s' = set_data s1 (key ai) b' \<and>
    assert_solvent rt ai (d\<lparr>fd_returned := r, fd_refundable := 0\<rparr>) v s' = Inr ()"
proof -
  define pay where "pay = (\<lambda>d ai me amount it s. if is_sol_prize d then bindE (pay_prize rt d ai me None amount s) (\<lambda>s. Inr (None, s))
     else pay_spl rt pid d ai (fd_organizer d) amount it s)"
  from assms show ?thesis
    unfolding fd_reclaim_def pay_def [symmetric, THEN fun_cong, THEN fun_cong, THEN fun_cong, THEN fun_cong, THEN fun_cong, THEN fun_cong] Let_def
    by (auto simp: store_draw_Inr split: if_splits) blast+
qed

lemma reclaim_inv:
  assumes inv: "fd_inv H S rent pid s" and run: "fd_reclaim rt pid accounts s = Inr s'"
    and rent: "minimum_balance rt = rent" and tok: "pid \<noteq> FD_TOKEN_PROGRAM_ID"
  shows "fd_inv H S rent pid s'"
proof -
  from fd_reclaim_Inr [OF run] obtain organizer it ai d s1 v r b' where ld: "load_draw rt pid ai s = Inr d" and st: "fd_status d = STATUS_COMPLETE"
    and pay: "(if is_sol_prize d then bindE (pay_prize rt d ai organizer None (fd_refundable d) s) (\<lambda>s. Inr (None, s))
     else pay_spl rt pid d ai (fd_organizer d) (fd_refundable d) it s) = Inr (v, s1)"
    and r: "fd_add (fd_returned d) (fd_refundable d) = Inr r"
    and pk: "fd_pack (d\<lparr>fd_returned := r, fd_refundable := 0\<rparr>) (data (s1 (key ai))) = Inr b'" and s': "s' = set_data s1 (key ai) b'"
    and sol: "assert_solvent rt ai (d\<lparr>fd_returned := r, fd_refundable := 0\<rparr>) v s' = Inr ()"
    by (elim exE conjE) (rule that, assumption+)
  let ?e = "d\<lparr>fd_returned := r, fd_refundable := 0\<rparr>" and ?b = "data (s (key ai))"
  note l = loaded [OF ld inv]
  from paid_keeps [OF pay tok l(7)] have kp: "fd_keeps pid {key ai} s s1" and s1: "data (s1 (key ai)) = ?b" by blast+
  have t: "fd_terms d ?e" by (simp add: fd_terms_def)
  note sh = same_shapeD [OF fd_terms_shape [OF t]]
  have tabs: "slots ?e ?b = slots d ?b" "won ?e ?b = won d ?b" using sh by (simp_all add: slots_def won_def)
  show ?thesis
    unfolding s' by (intro paid_inv [OF inv kp pk [unfolded s1] _ _ _ rent sol [unfolded s']])
      (use reclaim_dinv [OF l(4) st r refl] st l(8) sh(5) tabs in \<open>simp_all add: full_def\<close>)
qed

section \<open>Funding\<close>

lemma fd_fund_Inr:
  assumes "fd_fund_prizes rt pid accounts s = Inr s'" and tok: "pid \<noteq> FD_TOKEN_PROGRAM_ID"
  shows "\<exists>ai d s1 v b1 b2. load_draw rt pid ai s = Inr d \<and> fd_status d = STATUS_CREATED \<and>
    length (data (s (key ai))) = fd_len d \<and> foreign_step pid s s1 \<and>
    fd_pack (d\<lparr>fd_funded := fd_total_prize d, fd_status := STATUS_FUNDED\<rparr>) (data (s1 (key ai))) = Inr b1 \<and>
    write_slots (d\<lparr>fd_funded := fd_total_prize d, fd_status := STATUS_FUNDED\<rparr>)
      (map (\<lambda>(j, ti). (j, pending_slot (of_nat ti) 0)) (enumerate 0 (slot_tiers (d\<lparr>fd_funded := fd_total_prize d, fd_status := STATUS_FUNDED\<rparr>)))) b1 = Inr b2 \<and>
    s' = set_data s1 (key ai) b2 \<and>
    assert_solvent rt ai (d\<lparr>fd_funded := fd_total_prize d, fd_status := STATUS_FUNDED\<rparr>) v s' = Inr ()"
proof -
  define pay where "pay = (\<lambda>funder ai system d it s. if is_sol_prize d then
              bindE (invoke rt (SystemCpi (Transfer (key funder) (key ai) (fd_total_prize d))) [funder, ai, system] s)
                (\<lambda>s. Inr (None, s))
            else
              bindE (next_account_info it) (\<lambda>(funder_token, it).
              bindE (next_account_info it) (\<lambda>(vault, it).
              bindE (next_account_info it) (\<lambda>(token_program, it).
              bindE (require_token_program token_program) (\<lambda>_.
              bindE (check_vault rt pid (key ai) d vault s) (\<lambda>_.
              bindE (invoke rt (ProgramCpi (fd_transfer (key funder_token) (key vault) (key funder) (fd_total_prize d)))
                       [funder_token, vault, funder, token_program] s) (\<lambda>s.
              Inr (Some vault, s))))))))"
  have f: "foreign_step pid s s1" if "pay funder ai system d it s = Inr (v, s1)" for funder ai system d it s1 v
    using that tok invoke_foreign token_cpi by (auto simp: pay_def split: if_splits)
  from assms(1) show ?thesis
    unfolding fd_fund_prizes_def Let_def pay_def [symmetric, THEN fun_cong, THEN fun_cong, THEN fun_cong, THEN fun_cong, THEN fun_cong, THEN fun_cong]
    by (auto split: if_splits dest!: f) blast+
qed

lemma fund_inv:
  assumes inv: "fd_inv H S rent pid s" and run: "fd_fund_prizes rt pid accounts s = Inr s'"
    and rent: "minimum_balance rt = rent" and tok: "pid \<noteq> FD_TOKEN_PROGRAM_ID"
  shows "fd_inv H S rent pid s'"
proof -
  from fd_fund_Inr [OF run tok] obtain ai d s1 v b1 b2 where ld: "load_draw rt pid ai s = Inr d" and st: "fd_status d = STATUS_CREATED"
    and len: "length (data (s (key ai))) = fd_len d" and fs: "foreign_step pid s s1"
    and pk: "fd_pack (d\<lparr>fd_funded := fd_total_prize d, fd_status := STATUS_FUNDED\<rparr>) (data (s1 (key ai))) = Inr b1"
    and ws: "write_slots (d\<lparr>fd_funded := fd_total_prize d, fd_status := STATUS_FUNDED\<rparr>)
      (map (\<lambda>(j, ti). (j, pending_slot (of_nat ti) 0)) (enumerate 0 (slot_tiers (d\<lparr>fd_funded := fd_total_prize d, fd_status := STATUS_FUNDED\<rparr>)))) b1 = Inr b2"
    and s': "s' = set_data s1 (key ai) b2"
    and sol: "assert_solvent rt ai (d\<lparr>fd_funded := fd_total_prize d, fd_status := STATUS_FUNDED\<rparr>) v s' = Inr ()"
    by (elim exE conjE) (rule that, assumption+)
  let ?e = "d\<lparr>fd_funded := fd_total_prize d, fd_status := STATUS_FUNDED\<rparr>" and ?b = "data (s (key ai))"
  note l = loaded [OF ld inv]
  have s1: "data (s1 (key ai)) = ?b" using fs l(7) by (simp add: foreign_step_def)
  have t: "fd_terms d ?e" by (simp add: fd_terms_def)
  have p: "same_progress (d\<lparr>fd_funded := fd_total_prize d\<rparr>) ?e" by (simp add: same_progress_def)
  have wf: "fd_wf ?e" using l(6) by (simp add: fd_wf_def)
  have sh: "fd_len ?e = fd_len d" by (simp add: fd_len_def)
  have full: "full ?e (data (s1 (key ai)))" using len s1 sh by (simp add: full_def)
  have d: "terms_ok d" "early_ok d" using l(4) st by (simp_all add: dinv_def)
  have te: "slot_tiers ?e = slot_tiers d" by (simp add: slot_tiers_def)
  have n: "unat (fd_slot_count ?e) = length (slot_tiers ?e)" "length (slot_tiers ?e) \<le> unat (fd_capacity ?e)"
    using d slot_tiers_length [of d] unfolding te by (simp_all add: early_ok_def terms_ok_def fd_wf_def)
  note f = fund_slots [OF wf pk full ws n]
  have w0: "won ?e b2 = []" using d(2) by (simp add: won_def early_ok_def won_list_def)
  have "dinv H S (key ai) ?e (slots ?e b2) (won ?e b2)"
    unfolding w0 by (rule fund_dinv [OF l(4) st t wf p _ f(1) [unfolded te]]) simp
  then have "draw_inv H S (key ai) ?e b2" using f(3) by (simp add: draw_inv_def)
  then have "fd_account_ok H S rent (key ai) (s' (key ai))"
    using f(2) solvent_ok [OF sol] rent by (simp add: fd_account_ok_def s')
  then show ?thesis
    unfolding s' by (intro keeps_inv [OF inv fd_keeps_trans [OF fd_keeps_mono [OF foreign_keeps [OF fs]] set_data_keeps]]) simp_all
qed

section \<open>Creating, growing and closing\<close>

lemma fd_create_Inr:
  assumes "fd_create_draw rt pid accounts draw_id p s = Inr s'" and tok: "pid \<noteq> FD_TOKEN_PROGRAM_ID"
  shows "\<exists>organizer ai system bump tot cap s1 s2 vb rounds b'.
    validate_create p (clock_slot rt) = Some (tot, cap) \<and>
    fd_create_pda rt organizer ai system pid (min (draw_len (cp_mode p) cap) MAX_ALLOC_STEP)
      [DRAW_SEED, key organizer, u64_le draw_id, [bump]] (fd_err DfAccountInUse) s = Inr s1 \<and>
    foreign_step pid s1 s2 \<and> length rounds = 4 \<and> (\<forall>r \<in> set rounds. length (ri_slot_hash r) = 32 \<and> length (ri_seed r) = 32) \<and>
    fd_pack (new_draw rt (key organizer) draw_id bump vb p tot cap rounds) (data (s2 (key ai))) = Inr b' \<and>
    s' = set_data s2 (key ai) b' \<and>
    assert_solvent rt ai (new_draw rt (key organizer) draw_id bump vb p tot cap rounds) None s' = Inr ()"
proof -
  define rs where "rs = (\<lambda>p :: create_params. if cp_mode p = MODE_OPEN then
              bindE (ok_or (first_target (cp_close_slot p)) (fd_err DfMathOverflow)) (\<lambda>t0.
              Inr (default_round\<lparr>ri_first_target := t0\<rparr> # replicate 3 default_round))
            else Inr (replicate MAX_ROUNDS default_round))"
  have rl: "length rounds = 4 \<and> (\<forall>r \<in> set rounds. length (ri_slot_hash r) = 32 \<and> length (ri_seed r) = 32)"
    if "rs p = Inr rounds" for rounds
    using that by (auto simp: rs_def default_round_def MAX_ROUNDS_def split: if_splits)
  have v: "foreign_step pid s1 s2" if "create_vault rt pid organizer ai system p it s1 = Inr (vb, s2)" for organizer ai system it s1 s2 vb
  proof (cases "cp_prize_mint p = replicate 32 0")
    case True
    with that show ?thesis by (simp add: create_vault_def foreign_step_refl)
  next
    case False
    with that obtain vault seeds err infos mint s3 where
      c: "fd_create_pda rt organizer vault system FD_TOKEN_PROGRAM_ID FD_ACCOUNT_LEN seeds err s1 = Inr s3"
      and i: "invoke rt (ProgramCpi (fd_initialize_account3 (key vault) mint (key ai))) infos s3 = Inr s2"
      by (auto simp: create_vault_def Let_def simp del: FD_ACCOUNT_LEN_def split: if_splits prod.splits)
    have "FD_ACCOUNT_LEN < (2 :: nat) ^ 64" by simp
    from create_pda_effect(4) [OF c this] invoke_foreign [OF i token_cpi(3) [OF tok]] show ?thesis
      by (rule foreign_step_trans)
  qed
  from assms(1) obtain organizer ai system it tot cap s1 vs rounds b' where c:
    "validate_create p (clock_slot rt) = Some (tot, cap)"
    "fd_create_pda rt organizer ai system pid (min (draw_len (cp_mode p) cap) MAX_ALLOC_STEP)
      [DRAW_SEED, key organizer, u64_le draw_id, [snd (draw_address rt pid (key organizer) draw_id)]] (fd_err DfAccountInUse) s = Inr s1"
    "create_vault rt pid organizer ai system p it s1 = Inr (fst vs, snd vs)" "rs p = Inr rounds"
    "fd_pack (new_draw rt (key organizer) draw_id (snd (draw_address rt pid (key organizer) draw_id)) (fst vs) p tot cap rounds)
      (data (snd vs (key ai))) = Inr b'" "s' = set_data (snd vs) (key ai) b'"
    "assert_solvent rt ai (new_draw rt (key organizer) draw_id (snd (draw_address rt pid (key organizer) draw_id)) (fst vs) p tot cap rounds) None s' = Inr ()"
    unfolding fd_create_draw_def Let_def rs_def [symmetric, THEN fun_cong]
    by (simp add: store_draw_Inr case_prod_beta del: MAX_ALLOC_STEP_def split: if_splits) (elim exE conjE, simp)
  from c v [OF c(3)] rl [OF c(4)] show ?thesis by blast
qed

lemma create_inv:
  assumes inv: "fd_inv H S rent pid s" and run: "fd_create_draw rt pid accounts draw_id p s = Inr s'"
    and rent: "minimum_balance rt = rent" and tok: "pid \<noteq> FD_TOKEN_PROGRAM_ID"
  shows "fd_inv H S rent pid s'"
proof -
  from fd_create_Inr [OF run tok] obtain organizer ai system bump tot cap s1 s2 vb rounds b' where
    v: "validate_create p (clock_slot rt) = Some (tot, cap)"
    and c: "fd_create_pda rt organizer ai system pid (min (draw_len (cp_mode p) cap) MAX_ALLOC_STEP)
      [DRAW_SEED, key organizer, u64_le draw_id, [bump]] (fd_err DfAccountInUse) s = Inr s1"
    and fs: "foreign_step pid s1 s2" and rl: "length rounds = 4" "\<forall>r \<in> set rounds. length (ri_slot_hash r) = 32 \<and> length (ri_seed r) = 32"
    and pk: "fd_pack (new_draw rt (key organizer) draw_id bump vb p tot cap rounds) (data (s2 (key ai))) = Inr b'"
    and s': "s' = set_data s2 (key ai) b'"
    and sol: "assert_solvent rt ai (new_draw rt (key organizer) draw_id bump vb p tot cap rounds) None s' = Inr ()"
    by (elim exE conjE) (rule that, assumption+)
  let ?d = "new_draw rt (key organizer) draw_id bump vb p tot cap rounds"
  let ?n = "min (draw_len (cp_mode p) cap) MAX_ALLOC_STEP"
  have "?n < 2 ^ 64" by (simp add: min_def)
  note c1 = create_pda_effect [OF c this]
  have d2: "data (s2 (key ai)) = replicate ?n 0" using fs c1(2,3) by (simp add: foreign_step_def)
  have "length (fd_tiers ?d) = 8" using v by (auto simp: validate_create_def new_draw_def split: if_splits)
  then have wf: "fd_wf ?d" by (rule pack_wf [OF pk]) (use rl in \<open>simp_all add: new_draw_def\<close>)
  note cd = create_dinv [OF v refl wf]
  have fs': "foreign_step pid s s2" by (rule foreign_step_trans [OF c1(4) fs])
  note so = solvent_ok [OF sol]
  have "fd_account_ok H S rent (key ai) (s' (key ai))"
    unfolding s' by (rule packed_ok [OF pk cd(1) wf])
      (use cd(2,3) d2 so rent pack_tables(2) [OF wf pk] in \<open>simp_all add: s'\<close>)
  then show ?thesis
    unfolding s' by (intro keeps_inv [OF inv fd_keeps_trans [OF fd_keeps_mono [OF foreign_keeps [OF fs']] set_data_keeps]]) simp_all
qed

lemma fd_close_Inr:
  assumes run: "fd_close rt pid accounts cancel s = Inr s'" and tok: "pid \<noteq> FD_TOKEN_PROGRAM_ID"
  shows "\<exists>ai :: account_info. fd_keeps pid {key ai} s s' \<and> \<not> fd_live pid (s' (key ai))"
proof -
  have v: "foreign_step pid s s1" if "close_vault rt pid d organizer ai it s = Inr s1" for d organizer ai it s1
  proof -
    have f: "foreign_step pid s1 s2" if "invoke_signed rt (ProgramCpi (fd_transfer a b c n)) infos seeds s1 = Inr s2" for a b c n infos seeds s1 s2
      by (rule cpi_foreign [OF that token_cpi(1) [OF tok]])
    have g: "foreign_step pid s1 s2" if "invoke_signed rt (ProgramCpi (fd_close_account a b c)) infos seeds s1 = Inr s2" for a b c infos seeds s1 s2
      by (rule cpi_foreign [OF that token_cpi(2) [OF tok]])
    from that show ?thesis
      by (auto simp: close_vault_def split: if_splits dest!: f g intro: foreign_step_trans)
  qed
  from run obtain organizer ai s1 where s1: "s1 = s \<or> (\<exists>d it. close_vault rt pid d organizer ai it s = Inr s1)"
    and c: "close_into ai organizer s1 = Inr s'"
    by (auto simp: fd_close_def split: if_splits) blast+
  have "fd_keeps pid {} s s1" using s1 v foreign_keeps fd_keeps_refl by blast
  then have "fd_keeps pid {key ai} s s1" by (rule fd_keeps_mono) simp
  note k = fd_keeps_trans [OF this close_into_keeps(1) [OF c pid_not_system]]
  from k close_into_keeps(2) [OF c pid_not_system] show ?thesis by blast
qed

lemma close_inv:
  assumes inv: "fd_inv H S rent pid s" and run: "fd_close rt pid accounts cancel s = Inr s'" and tok: "pid \<noteq> FD_TOKEN_PROGRAM_ID"
  shows "fd_inv H S rent pid s'"
  using fd_close_Inr [OF run tok] keeps_inv [OF inv] by blast

lemma extend_inv:
  assumes inv: "fd_inv H S rent pid s" and run: "fd_extend rt pid accounts s = Inr s'" and rent: "minimum_balance rt = rent"
  shows "fd_inv H S rent pid s'"
proof -
  from run obtain payer ai system d s1 where ld: "load_draw rt pid ai s = Inr d" and st: "fd_status d = STATUS_CREATED"
    and lt: "length (data (s (key ai))) < fd_len d"
    and s1: "if 0 < saturating_sub (minimum_balance rt (min (fd_len d) (length (data (s (key ai))) + MAX_ALLOC_STEP))) (lamports (s (key ai)))
      then invoke rt (SystemCpi (Transfer (key payer) (key ai)
        (saturating_sub (minimum_balance rt (min (fd_len d) (length (data (s (key ai))) + MAX_ALLOC_STEP))) (lamports (s (key ai))))))
        [payer, ai, system] s = Inr s1 else s1 = s"
    and re: "fd_realloc (key ai) (min (fd_len d) (length (data (s (key ai))) + MAX_ALLOC_STEP)) s1 = Inr s'"
    by (auto simp: fd_extend_def Let_def not_le simp del: MAX_ALLOC_STEP_def split: if_splits)
  let ?b = "data (s (key ai))"
  define n where "n = min (fd_len d) (length ?b + MAX_ALLOC_STEP)"
  define need where "need = saturating_sub (minimum_balance rt n) (lamports (s (key ai)))"
  note s1 = s1 [folded n_def, folded need_def] note re = re [folded n_def]
  note l = loaded [OF ld inv]
  have fs: "foreign_step pid s s1" using s1 invoke_foreign token_cpi(4) foreign_step_refl by (auto split: if_splits)
  then have d1: "data (s1 (key ai)) = ?b" using l(7) by (simp add: foreign_step_def)
  have n: "length ?b < n" "n \<le> fd_len d" using lt by (simp_all add: n_def)
  have s': "s' = set_data s1 (key ai) (?b @ replicate (n - length ?b) 0)" using re n(1) by (simp add: fd_realloc_Inr d1)
  have lam: "unat (minimum_balance rt n) \<le> unat (lamports (s1 (key ai)))"
  proof (cases "0 < need")
    case True
    with s1 have t: "invoke_signed rt (SystemCpi (Transfer (key payer) (key ai) need)) [payer, ai, system] [] s = Inr s1"
      by (simp add: invoke_def)
    have "key payer \<noteq> key ai" using transfer_lamports [OF t] l(7) pid_not_system by metis
    then have "unat (lamports (s1 (key ai))) = unat (lamports (s (key ai))) + unat need" using transfer_lamports [OF t] by blast
    moreover have "unat need = unat (minimum_balance rt n) - unat (lamports (s (key ai)))"
      by (auto simp: need_def saturating_sub_def word_le_nat_alt unat_sub_if')
    ultimately show ?thesis by linarith
  next
    case False
    then have "minimum_balance rt n \<le> lamports (s (key ai))"
      by (auto simp: need_def saturating_sub_def not_le word_gt_0 split: if_splits)
    with False s1 show ?thesis by (simp add: word_le_nat_alt)
  qed
  have h: "HEADER_LEN \<le> length ?b" using l(1) live_unpack [OF l(1)] by (simp add: fd_unpack_Some)
  have same: "fd_of (?b @ z) = d" for z using l(2) h by (simp add: fd_of_append)
  have e: "terms_ok d" "early_ok d" "fd_funded d = 0" using l(4) st by (simp_all add: dinv_def)
  then have "draw_inv H S (key ai) d (?b @ replicate (n - length ?b) 0)"
    using st n by (simp add: draw_inv_def dinv_def)
  moreover have "reserve d = 0" using e(2,3) by (simp add: reserve_def)
  ultimately have "fd_account_ok H S rent (key ai) (s' (key ai))"
    using lam n rent by (simp add: s' fd_account_ok_def same)
  then show ?thesis
    unfolding s' by (intro keeps_inv [OF inv fd_keeps_trans [OF fd_keeps_mono [OF foreign_keeps [OF fs]] set_data_keeps]]) simp_all
qed

end

end
