(* ===== verification/FdReach.thy ===== *)
theory FdReach
  imports FdEvolveCpi
begin

text \<open>
  The histories of \<open>null_fair_draw\<close>: any sequence of its instructions, of steps of other programs and of
  account collections. The set they build up is the set of node inputs that the proofs accepted by
  \<open>Resolve\<close> hashed; as long as the hash does not collide on it, the invariant of every live draw holds.
\<close>

definition fd_env :: "(bytes list \<Rightarrow> bytes) \<Rightarrow> (nat \<Rightarrow> u64) \<Rightarrow> runtime \<Rightarrow> key \<Rightarrow> bool" where
  "fd_env H rent rt pid \<longleftrightarrow> solana_lamports rt pid \<and> hashv rt = H \<and> minimum_balance rt = rent \<and> (\<forall>xs. length (H xs) = 32)"

definition proofs_of :: "draw_instruction option \<Rightarrow> leaf_proof list" where
  "proofs_of i = (case i of Some (FdResolve mx prs) \<Rightarrow> prs | _ \<Rightarrow> [])"

definition hashed :: "(bytes list \<Rightarrow> bytes) \<Rightarrow> account_info list \<Rightarrow> bytes \<Rightarrow> store \<Rightarrow> (pair \<times> pair) set" where
  "hashed H accounts b s = (let k = key (hd accounts) in
     \<Union>pr \<in> set (proofs_of (fd_ix_unpack b)). proof_pairs (hash_rt H) k (draw_at (s k)) pr)"

inductive fd_history :: "(bytes list \<Rightarrow> bytes) \<Rightarrow> (nat \<Rightarrow> u64) \<Rightarrow> key \<Rightarrow> store \<Rightarrow> (pair \<times> pair) set \<Rightarrow> bool"
  for H rent pid where
  genesis: "(\<And>k. owner (s k) \<noteq> pid) \<Longrightarrow> fd_history H rent pid s {}"
| instruction: "fd_history H rent pid s S \<Longrightarrow> fd_env H rent rt pid \<Longrightarrow> fd_process rt pid accounts b s = Inr s' \<Longrightarrow>
    fd_history H rent pid s' (S \<union> hashed H accounts b s)"
| foreign: "fd_history H rent pid s S \<Longrightarrow> foreign_step pid s s' \<Longrightarrow> fd_history H rent pid s' S"
| reap: "fd_history H rent pid s S \<Longrightarrow> lamports (s k) = 0 \<Longrightarrow>
    fd_history H rent pid (s(k := (s k)\<lparr>owner := SYSTEM_ID, data := []\<rparr>)) S"

lemma proof_pairs_hash:
  assumes h: "hashv rt = H"
  shows "proof_pairs rt = proof_pairs (hash_rt H)"
  by (intro ext) (simp only: proof_pairs_def hash_rts [OF h])

lemma fd_run_inv:
  assumes env: "fd_env H rent rt pid" and tok: "pid \<noteq> FD_TOKEN_PROGRAM_ID" and inv: "fd_inv H S rent pid s"
    and run: "fd_run rt pid accounts i s = Inr s'" and inj: "node_inj (hash_rt H) S"
    and prs: "\<forall>pr \<in> set (proofs_of (Some i)). proof_pairs (hash_rt H) (key (hd accounts)) (draw_at (s (key (hd accounts)))) pr \<subseteq> S"
  shows "fd_inv H S rent pid s'"
proof -
  from env have sol: "solana_lamports rt pid" and h: "hashv rt = H" and rent: "minimum_balance rt = rent"
    and h32: "\<forall>xs. length (hashv rt xs) = 32" by (auto simp: fd_env_def)
  have ns: "pid \<noteq> SYSTEM_ID" by (rule solana.pid_not_system [OF solana_lamports.axioms(1) [OF sol]])
  show ?thesis
  proof (cases i)
    case (FdCreateDraw draw_id p)
    with run show ?thesis using solana_lamports.create_inv [OF sol inv _ rent tok] by simp
  next
    case FdFundPrizes
    with run show ?thesis using solana_lamports.fund_inv [OF sol inv _ rent tok] by simp
  next
    case (FdEnter cnt own)
    with run show ?thesis using solana_lamports.enter_inv [OF sol inv _ tok] by simp
  next
    case (FdCommitList root w n dep)
    with run show ?thesis using commit_inv [OF inv] by simp
  next
    case FdDraw
    with run show ?thesis using draw_inv_step [OF inv _ h32] by simp
  next
    case (FdResolve mx ps)
    with run prs show ?thesis
      by (intro resolve_inv [OF inv _ h inj]) (simp_all add: proofs_of_def proof_pairs_hash [OF h])
  next
    case (FdClaim slot x)
    with run show ?thesis using solana_lamports.claim_inv [OF sol inv _ rent tok] by simp
  next
    case FdAdvance
    with run show ?thesis using advance_inv [OF inv] by simp
  next
    case FdReclaim
    with run show ?thesis using solana_lamports.reclaim_inv [OF sol inv _ rent tok] by simp
  next
    case FdClose
    with run show ?thesis using solana_lamports.close_inv [OF sol inv _ tok] by simp
  next
    case FdCancel
    with run show ?thesis using solana_lamports.close_inv [OF sol inv _ tok] by simp
  next
    case (FdProveEntry pr)
    with run show ?thesis using inv by (auto simp: fd_prove_entry_def Let_def split: if_splits)
  next
    case FdCloseEntrant
    with run show ?thesis using keeps_all_inv [OF inv close_entrant_keeps] ns by simp
  next
    case FdExtend
    with run show ?thesis using solana_lamports.extend_inv [OF sol inv _ rent] by simp
  qed
qed

lemma node_inj_mono: "node_inj rt T \<Longrightarrow> S \<subseteq> T \<Longrightarrow> node_inj rt S"
  unfolding node_inj_def by blast

theorem fd_history_inv:
  assumes "fd_history H rent pid s S" and "node_inj (hash_rt H) S" and "pid \<noteq> FD_TOKEN_PROGRAM_ID" and "pid \<noteq> SYSTEM_ID"
  shows "fd_inv H S rent pid s"
  using assms(1,2)
proof (induction rule: fd_history.induct)
  case (genesis s)
  then show ?case by (simp add: fd_inv_def fd_live_def)
next
  case (instruction s S rt accounts b s')
  let ?T = "S \<union> hashed H accounts b s"
  from instruction.hyps(3) obtain i where i: "fd_ix_unpack b = Some i" "fd_run rt pid accounts i s = Inr s'"
    by (auto simp: fd_process_def)
  have "fd_inv H S rent pid s" using instruction.IH node_inj_mono [OF instruction.prems] by simp
  then have "fd_inv H ?T rent pid s" by (rule fd_inv_mono) simp
  then show ?case
    by (rule fd_run_inv [OF instruction.hyps(2) assms(3) _ i(2) instruction.prems]) (use i in \<open>auto simp: hashed_def Let_def\<close>)
next
  case (foreign s S s')
  then show ?case using keeps_all_inv foreign_keeps by blast
next
  case (reap s S k)
  then show ?case using assms(4) by (auto simp: fd_inv_def fd_live_def)
qed

end
