(* ===== verification/FdFair.thy ===== *)
theory FdFair
  imports FdReach
begin

text \<open>
  Consequences of the invariant of a draw: winners have disjoint intervals, and every claim that is due
  can be paid.
\<close>

section \<open>Winners\<close>

lemma won_ok_mset:
  assumes "won_ok lo hi ws" and "{#x, y#} \<subseteq># mset ws" and "snd x \<noteq> 0" and "snd y \<noteq> 0"
  shows "unat (fst x) + unat (snd x) \<le> unat (fst y) \<or> unat (fst y) + unat (snd y) \<le> unat (fst x)"
  using assms(1,2)
proof (induction lo hi ws rule: won_ok.induct)
  case (2 lo hi st w r)
  have ge: "unat st + unat w \<le> unat (fst z)" if "z \<in> set r" for z using won_ok_ge "2.prems"(1) that by fastforce
  have "x = (st, w) \<and> y \<in> set r \<or> y = (st, w) \<and> x \<in> set r \<or> {#x, y#} \<subseteq># mset r"
  proof -
    have "{#x, y#} \<subseteq># add_mset (st, w) (mset r)" using "2.prems"(2) by simp
    then show ?thesis
      by (cases "x = (st, w)"; cases "y = (st, w)")
        (auto simp: insert_subset_eq_iff mset_subset_eq_insertD dest: mset_subset_eqD split: if_splits)
  qed
  with ge "2.IH" "2.prems"(1) show ?case by (cases x; cases y) auto
qed simp

lemma winners_apart:
  assumes "wins_ok H S k d sls ws" and "i < j" and "j < length sls" and "is_winner (sls ! i)" and "is_winner (sls ! j)"
  shows "unat (sl_start (sls ! i)) + unat (sl_weight (sls ! i)) \<le> unat (sl_start (sls ! j)) \<or>
    unat (sl_start (sls ! j)) + unat (sl_weight (sls ! j)) \<le> unat (sl_start (sls ! i))"
proof -
  let ?x = "sls ! i" and ?y = "sls ! j"
  have "sls = take i sls @ ?x # drop (Suc i) sls" using assms(2,3) by (simp add: id_take_nth_drop)
  moreover have "?y \<in> set (drop (Suc i) sls)"
  proof -
    have "drop (Suc i) sls ! (j - Suc i) = ?y" using assms(2,3) by simp
    moreover have "j - Suc i < length (drop (Suc i) sls)" using assms(2,3) by simp
    ultimately show ?thesis by (metis nth_mem)
  qed
  then obtain ys zs where "drop (Suc i) sls = ys @ ?y # zs" by (meson split_list)
  ultimately have "mset sls = {#?x, ?y#} + (mset (take i sls) + mset ys + mset zs)"
    by (metis add_mset_add_single mset.simps(2) mset_append union_assoc union_commute union_mset_add_mset_left)
  then have "won_set sls = {#interval ?x, interval ?y#} + won_set (take i sls @ ys @ zs)"
    using assms(4,5) by (simp add: won_set_def)
  then have "{#interval ?x, interval ?y#} \<subseteq># mset ws" using assms(1) by (simp add: wins_ok_def)
  moreover have "sl_weight ?x \<noteq> 0" "sl_weight ?y \<noteq> 0" using assms by (simp_all add: wins_ok_def)
  ultimately show ?thesis
    using won_ok_mset [of 0 "unat (fd_total_weight d)" ws "interval ?x" "interval ?y"] assms(1)
    by (simp add: wins_ok_def interval_def)
qed

section \<open>Claims\<close>

lemma won_this_round:
  assumes "dinv H S k d sls ws" and "fd_status d = STATUS_RESOLVING" and "j < length sls" and "sl_status (sls ! j) = SLOT_WON"
  shows "sl_round (sls ! j) = fd_round d" and "j < unat (fd_next_slot d)"
proof -
  have r: "round_ok d sls" using assms(1,2) by (simp add: dinv_def phase_ok_def)
  then have "\<not> j < unat (fd_round_first_slot d)" using assms(4) by (auto simp: round_ok_def is_open_def)
  then show "sl_round (sls ! j) = fd_round d" using r assms(3) by (simp add: round_ok_def)
  show "j < unat (fd_next_slot d)"
  proof (rule ccontr)
    assume "\<not> j < unat (fd_next_slot d)"
    then have "sl_status (sls ! j) = SLOT_PENDING" using r assms(3) by (simp add: round_ok_def)
    with assms(4) show False by simp
  qed
qed

lemma owes_le:
  assumes "money_ok d sls" and "j < length sls" and "is_open (sls ! j)"
  shows "unat (fd_paid d) + unat (fd_returned d) + amount_of d (sls ! j) \<le> unat (fd_funded d)"
proof -
  have "owes d (sls ! j) \<le> owed d sls" unfolding owed_def using assms(2) by (intro member_le_sum_list) simp_all
  then have "amount_of d (sls ! j) \<le> owed d sls" using assms(3) by (simp add: owes_def)
  moreover have "unat (fd_paid d) + unat (fd_returned d) + unat (fd_refundable d) + owed d sls = unat (fd_funded d)"
    using assms(1) unfolding money_ok_def by blast
  ultimately show ?thesis by linarith
qed

lemma debit_ok:
  assumes "key fr \<noteq> key to" and "amount \<le> lamports (s (key fr))" and "unat (lamports (s (key to))) + unat amount < 2 ^ 64"
  shows "\<exists>s'. debit fr to amount s = Inr s' \<and> lamports (s' (key fr)) = lamports (s (key fr)) - amount \<and>
    lamports (s' (key to)) = lamports (s (key to)) + amount \<and> data (s' (key fr)) = data (s (key fr))"
  using assms by (auto simp: debit_def checked_sub_def checked_add_def set_apply word_le_nat_alt)

lemma solvent_intro:
  assumes "is_sol_prize e" and "unat (fd_paid e) + unat (fd_returned e) \<le> unat (fd_funded e)"
    and "unat (minimum_balance rt (length (data (s (key ai))))) + reserve e \<le> unat (lamports (s (key ai)))"
  shows "assert_solvent rt ai e v s = Inr ()"
proof -
  have p: "fd_paid e \<le> fd_funded e" "fd_returned e \<le> fd_funded e - fd_paid e"
    using assms(2) by (simp_all add: word_le_nat_alt unat_sub_if')
  then have o1: "outstanding e = Some (fd_funded e - fd_paid e - fd_returned e)"
    by (simp add: outstanding_def checked_sub_def)
  let ?out = "fd_funded e - fd_paid e - fd_returned e" and ?min = "minimum_balance rt (length (data (s (key ai))))"
  have uo: "unat ?out = reserve e"
    using p assms(1) by (simp add: reserve_def unat_sub_if' word_le_nat_alt)
  have "unat (lamports (s (key ai))) < 2 ^ 64" using unsigned_less [of "lamports (s (key ai))", where 'a = nat] by simp
  with assms(3) uo have "unat ?min + unat ?out < 2 ^ 64" by linarith
  then have "fd_add ?min ?out = Inr (?min + ?out)" "unat (?min + ?out) = unat ?min + unat ?out"
    by (simp_all add: fd_add_def checked_add_def unat_word_ariths)
  then show ?thesis using assms o1 uo by (simp add: assert_solvent_def Let_def word_less_nat_alt)
qed

text \<open>A claim of a won slot of a SOL draw goes through.\<close>

lemma claim_goes_through:
  assumes inv: "fd_inv H S rent pid s" and rent: "minimum_balance rt = rent" and ld: "load_draw rt pid ai s = Inr d"
    and st: "fd_status d = STATUS_RESOLVING" and sol: "is_sol_prize d"
    and acc: "accounts = me # ai # rest" "is_signer me" "length (key me) = 32" "key me \<noteq> key ai"
    and j: "unat j < unat (fd_slot_count d)" and sl: "sl = slots d (data (s (key ai))) ! unat j" "sl_status sl = SLOT_WON"
    and ck: "check_claim rt (key ai) (key me) d sl x = Inr sl'"
    and win: "fd_window_end d = 0 \<or> clock_slot rt \<le> fd_window_end d"
    and room: "unat (lamports (s (key me))) + amount_of d sl < 2 ^ 64"
  shows "\<exists>s'. fd_claim rt pid accounts j x s = Inr s' \<and>
    unat (lamports (s' (key me))) = unat (lamports (s (key me))) + amount_of d sl \<and>
    unat (lamports (s' (key ai))) + amount_of d sl = unat (lamports (s (key ai))) \<and>
    slots d (data (s' (key ai))) = (slots d (data (s (key ai))))[unat j := sl'\<lparr>sl_status := SLOT_CLAIMED\<rparr>]"
proof -
  let ?b = "data (s (key ai))" and ?j = "unat j"
  let ?sls = "slots d ?b"
  note l = loaded [OF ld inv]
  have full: "full d ?b" using l(8) st by simp
  have d: "terms_ok d" "round_ok d ?sls" "money_ok d ?sls" "fd_returned d = 0"
    using l(4) st by (simp_all add: dinv_def phase_ok_def)
  have js: "?j < length ?sls" using j by simp
  note w = won_this_round [OF l(4) st js sl(2) [unfolded sl(1)]]
  have jc: "?j < unat (fd_capacity d)" using round_capacity [OF d(1,2)] j by simp
  have rd: "read_slot d ?b ?j = Inr sl" using read_slot_total [OF full jc] j by (simp add: sl(1) slots_def slot_tab_def)
  have t8: "unat (sl_tier sl) < 8" using d(3) js sl(1) by (simp add: money_ok_def)
  let ?a = "tr_amount (fd_tiers d ! unat (sl_tier sl))"
  have ua: "amount_of d sl = unat ?a" by (simp add: amount_of_def)
  have tier: "sl_tier sl' = sl_tier sl" using check_claim_Inr [OF ck] by auto
  have am: "tier_amount d (sl_tier sl') = Inr ?a" using t8 by (simp add: tier_amount_Inr [OF l(6)] tier)
  have "is_open (?sls ! ?j)" using sl by (simp add: is_open_def)
  from owes_le [OF d(3) js this] have le: "unat (fd_paid d) + unat ?a \<le> unat (fd_funded d)" using d(4) sl(1) ua by simp
  then have "unat (fd_paid d) + unat ?a < 2 ^ 64" using unsigned_less [of "fd_funded d", where 'a = nat] by simp
  then have pd: "fd_add (fd_paid d) ?a = Inr (fd_paid d + ?a)" and up: "unat (fd_paid d + ?a) = unat (fd_paid d) + unat ?a"
    by (simp_all add: fd_add_def checked_add_def unat_word_ariths)
  let ?e = "d\<lparr>fd_paid := fd_paid d + ?a\<rparr>"
  have res: "reserve d = unat (fd_funded d) - unat (fd_paid d)" using sol d(4) by (simp add: reserve_def)
  have al: "unat (rent (length ?b)) + (unat (fd_funded d) - unat (fd_paid d)) \<le> unat (lamports (s (key ai)))" using l(5) res by simp
  then have "unat ?a \<le> unat (lamports (s (key ai)))" using le by linarith
  then have age: "?a \<le> lamports (s (key ai))" by (simp add: word_le_nat_alt)
  have "\<exists>s1. pay_prize rt d ai me None ?a s = Inr s1 \<and> lamports (s1 (key ai)) = lamports (s (key ai)) - ?a \<and>
      lamports (s1 (key me)) = lamports (s (key me)) + ?a \<and> data (s1 (key ai)) = ?b"
    using debit_ok [of ai me ?a s] acc(4) age room ua by (cases "?a = 0") (auto simp: pay_prize_def)
  then obtain s1 where s1: "pay_prize rt d ai me None ?a s = Inr s1" "lamports (s1 (key ai)) = lamports (s (key ai)) - ?a"
    "lamports (s1 (key me)) = lamports (s (key me)) + ?a" "data (s1 (key ai)) = ?b" by blast
  have shape: "same_shape d ?e" by (simp add: same_shape_def)
  have "length (sl_wallet sl) = 32"
    using slot_tab_wallet [OF full, of "unat (fd_slot_count d)" sl] round_capacity [OF d(1,2)] js nth_mem [OF js]
    by (simp add: sl(1) slots_def)
  then have wl: "length (sl_wallet (sl'\<lparr>sl_status := SLOT_CLAIMED\<rparr>)) = 32" using check_claim_Inr [OF ck] acc(3) by auto
  have fe: "full ?e ?b" using full same_shapeD(5) [OF shape] by simp
  from write_slot_total [OF fe _ wl] jc obtain b1 where b1: "write_slot ?e ?b ?j (sl'\<lparr>sl_status := SLOT_CLAIMED\<rparr>) = Inr b1" by auto
  note wt = write_slot_tables [OF b1]
  have wf: "fd_wf ?e" using l(6) by (simp add: fd_wf_def)
  have "HEADER_LEN \<le> length b1" using wt(1) jc full header_le_len [of d] by (simp add: full_def)
  from fd_pack_total [OF wf this] obtain b' where b': "fd_pack ?e b1 = Inr b'" by blast
  note pt = pack_tables [OF wf b']
  let ?s' = "set_data s1 (key ai) b'"
  have len: "length b' = length ?b" using pt(2) wt(1) jc by simp
  have solv: "assert_solvent rt ai ?e None ?s' = Inr ()"
  proof (rule solvent_intro)
    show "is_sol_prize ?e" using sol by (simp add: is_sol_prize_def)
    show "unat (fd_paid ?e) + unat (fd_returned ?e) \<le> unat (fd_funded ?e)" using up le d(4) by simp
    have "reserve ?e = unat (fd_funded d) - (unat (fd_paid d) + unat ?a)"
      using sol d(4) by (simp add: reserve_def is_sol_prize_def up)
    then show "unat (minimum_balance rt (length (data (?s' (key ai))))) + reserve ?e \<le> unat (lamports (?s' (key ai)))"
      using al le age by (simp add: len rent s1(2) unat_sub word_le_nat_alt)
  qed
  have run: "fd_claim rt pid accounts j x s = Inr ?s'"
    using acc ld st w sl rd ck am s1 sol pd b1 b' solv win
    by (simp add: fd_claim_def require_signer_def Let_def word_less_nat_alt not_le not_less word_le_nat_alt)
  have "slots d b' = ?sls[?j := sl'\<lparr>sl_status := SLOT_CLAIMED\<rparr>]"
    using wt(2) [where n = "unat (fd_slot_count d)"] pt(3) [where n = "unat (fd_slot_count d)"] jc same_shapeD [OF shape] by (simp add: slots_def)
  moreover have "unat (lamports (s (key me)) + ?a) = unat (lamports (s (key me))) + unat ?a"
    using room ua by (simp add: unat_word_ariths)
  moreover have "unat (lamports (s (key ai)) - ?a) + unat ?a = unat (lamports (s (key ai)))"
    using age by (simp add: unat_sub word_le_nat_alt)
  ultimately show ?thesis
    using run acc(4) s1 ua by (intro exI [of _ ?s']) (simp add: set_apply)
qed

end
