(* ===== verification/FdRank.thy ===== *)
theory FdRank
  imports FdFair
begin

text \<open>
  Progress of a draw of \<open>null_fair_draw\<close>: Advance always goes through once its window has closed, and every
  successful Draw, Resolve or Advance lowers a rank that starts below 4108 and that nothing raises.
\<close>

section \<open>Advance goes through\<close>

lemma forfeit_total:
  assumes "full d b" and "i + n \<le> unat (fd_capacity d)"
  shows "\<exists>r. foldE (forfeit_slot d) [i..<i + n] (b, ts) = Inr r"
  using assms
proof (induction n arbitrary: i b ts)
  case (Suc n)
  have c: "i < unat (fd_capacity d)" using Suc.prems by simp
  let ?sl = "slot_view (slots_offset d) b i"
  have rd: "read_slot d b i = Inr ?sl" by (rule read_slot_total [OF Suc.prems(1) c])
  have u: "[i..<i + Suc n] = i # [Suc i..<Suc i + n]" using upt_rec by simp
  have "length (sl_wallet ?sl) = 32"
    using slot_tab_wallet [OF Suc.prems(1), of "Suc i" ?sl] c by (simp add: slot_tab_def)
  then have wl: "length (sl_wallet (?sl\<lparr>sl_status := SLOT_FORFEITED\<rparr>)) = 32" by simp
  from write_slot_total [OF Suc.prems(1) c wl] obtain b1 where b1: "write_slot d b i (?sl\<lparr>sl_status := SLOT_FORFEITED\<rparr>) = Inr b1" by blast
  have "full d b1" using write_slot_tables(1) [OF b1 c] Suc.prems(1) by (simp add: full_def)
  with b1 rd Suc.IH [of b1 "Suc i"] Suc.IH [of b "Suc i" ts] Suc.prems show ?case
    unfolding u by (auto simp: forfeit_slot_def)
qed simp

lemma refund_total:
  assumes "fd_wf d" and "\<forall>t \<in> set ts. unat t < 8" and "unat (fd_refundable d) + sum_list (map (tier_worth d) ts) < 2 ^ 64"
  shows "\<exists>e. refund_tiers d ts = Inr e"
  using assms
proof (induction ts arbitrary: d)
  case Nil
  then show ?case by (simp add: refund_tiers_def)
next
  case (Cons t ts)
  let ?a = "tr_amount (fd_tiers d ! unat t)"
  have a: "tier_amount d t = Inr ?a" using Cons.prems by (simp add: tier_amount_Inr)
  have "unat (fd_refundable d) + unat ?a < 2 ^ 64" using Cons.prems(3) by (simp add: tier_worth_def)
  then have r: "fd_add (fd_refundable d) ?a = Inr (fd_refundable d + ?a)" "unat (fd_refundable d + ?a) = unat (fd_refundable d) + unat ?a"
    by (simp_all add: fd_add_def checked_add_def unat_word_ariths)
  let ?d = "d\<lparr>fd_refundable := fd_refundable d + ?a\<rparr>"
  have w: "tier_worth ?d = tier_worth d" by (intro ext) (simp add: tier_worth_def)
  have "fd_wf ?d" using Cons.prems(1) by (simp add: fd_wf_def)
  then have "\<exists>e. refund_tiers ?d ts = Inr e"
    by (rule Cons.IH) (use Cons.prems r(2) in \<open>simp_all add: w tier_worth_def\<close>)
  with a r(1) show ?case by (simp add: refund_tiers_def)
qed

lemma write_slots_total:
  assumes "full d b" and "\<forall>(j, sl) \<in> set xs. j < unat (fd_capacity d) \<and> length (sl_wallet sl) = 32"
  shows "\<exists>b'. write_slots d xs b = Inr b'"
  using assms
proof (induction xs arbitrary: b)
  case Nil
  then show ?case by (simp add: write_slots_def)
next
  case (Cons x xs)
  obtain j sl where x: "x = (j, sl)" by (cases x)
  then have j: "j < unat (fd_capacity d)" "length (sl_wallet sl) = 32" using Cons.prems(2) by auto
  from write_slot_total [OF Cons.prems(1) j] obtain b1 where b1: "write_slot d b j sl = Inr b1" by blast
  have "full d b1" using write_slot_tables(1) [OF b1 j(1)] Cons.prems(1) by (simp add: full_def)
  from Cons.IH [OF this] Cons.prems(2) b1 show ?case by (auto simp: write_slots_def x)
qed

lemma advance_goes_through:
  assumes inv: "fd_inv H S rent pid s" and ld: "load_draw rt pid ai s = Inr d" and acc: "accounts = ai # rest"
    and st: "fd_status d = STATUS_RESOLVING" and all: "fd_next_slot d = fd_slot_count d"
    and now: "fd_window_end d < clock_slot rt" and room: "unat (fd_window_end d) + 32 < 2 ^ 64"
  shows "\<exists>s'. fd_advance rt pid accounts s = Inr s'"
proof -
  let ?b = "data (s (key ai))" and ?n = "unat (fd_slot_count d)" and ?f = "unat (fd_round_first_slot d)"
  let ?t = "slots d ?b"
  note l = loaded [OF ld inv]
  have full: "full d ?b" using l(8) st by simp
  have d: "terms_ok d" "round_ok d ?t" "money_ok d ?t" "wins_ok H S (key ai) d ?t (won d ?b)" and we: "fd_window_end d \<noteq> 0"
    using l(4) st all by (auto simp: dinv_def phase_ok_def)
  have cap: "?n \<le> unat (fd_capacity d)" by (rule round_capacity [OF d(1,2)])
  have fn: "?f \<le> ?n" using d(2) by (simp add: round_ok_def)
  note dr = drawn_round [OF l(4) st we]
  from forfeit_total [OF full, of ?f "?n - ?f" "[]"] fn cap obtain b1 ts where
    lp': "foldE (forfeit_slot d) [?f..<?f + (?n - ?f)] (?b, []) = Inr (b1, ts)" by auto
  then have lp: "foldE (forfeit_slot d) [?f..<?n] (?b, []) = Inr (b1, ts)" using fn by simp
  have tk: "take (?n - ?f) (drop ?f ?t) = drop ?f ?t" by simp
  from forfeit_loop [OF lp', of ?n 0] fn cap have "ts = unclaimed (drop ?f ?t)" "body_only ?b b1"
    unfolding slots_def [symmetric] tk by simp_all
  then have ts: "ts = unclaimed ?t" and b1: "body_only ?b b1" using dr(5) by simp_all
  have full1: "full d b1" using full b1 by (simp add: body_only_def full_def)
  have len1: "HEADER_LEN \<le> length b1" using full1 header_le_len [of d] by (simp add: full_def)
  have "won_sum (won d ?b) \<le> unat (fd_total_weight d)" using won_ok_le d(4) unfolding wins_ok_def by fastforce
  then have "fd_won_weight d \<le> fd_total_weight d" using d(4) by (simp add: wins_ok_def word_le_nat_alt)
  then obtain m where m: "fd_sub (fd_total_weight d) (fd_won_weight d) = Inr m" by (simp add: fd_sub_def checked_sub_def)
  have "\<exists>e b2. (if ts \<noteq> [] \<and> fd_round d < fd_redraw_rounds d \<and> 0 < m then next_round d ts b1
            else bindE (refund_tiers d ts) (\<lambda>d. Inr (d\<lparr>fd_status := STATUS_COMPLETE\<rparr>, b1))) = Inr (e, b2) \<and>
          fd_wf e \<and> HEADER_LEN \<le> length b2"
  proof (cases "ts \<noteq> [] \<and> fd_round d < fd_redraw_rounds d \<and> 0 < m")
    case True
    let ?xs = "map (\<lambda>(k, t). (?n + k, pending_slot t (fd_round d + 1))) (enumerate 0 ts)"
    have r3: "fd_redraw_rounds d \<le> 3" using d(1) by (simp add: terms_ok_def)
    have r1: "unat (fd_round d + 1) = unat (fd_round d) + 1"
      using True r3 by (simp add: word_less_nat_alt word_le_nat_alt unat_word_ariths)
    have rl: "unat (fd_round d + 1) < length (fd_rounds d)"
      using True r3 r1 l(6) by (simp add: fd_wf_def word_less_nat_alt word_le_nat_alt)
    have "unat (fd_round d) + 1 \<le> unat (fd_redraw_rounds d)" using True by (simp add: word_less_nat_alt)
    then have "prizes d * (2 + unat (fd_round d)) \<le> prizes d * (1 + unat (fd_redraw_rounds d))"
      by (intro mult_le_mono2) simp
    moreover have "?n \<le> prizes d * (1 + unat (fd_round d))" "?n - ?f \<le> prizes d" using d(2) unfolding round_ok_def by blast+
    moreover have "unat (fd_capacity d) = prizes d * (1 + unat (fd_redraw_rounds d))" using d(1) unfolding terms_ok_def by blast
    ultimately have room2: "?n + length ts \<le> unat (fd_capacity d)" using dr(4) ts by (simp add: algebra_simps)
    have "\<forall>(j, sl) \<in> set ?xs. j < unat (fd_capacity d) \<and> length (sl_wallet sl) = 32"
      using room2 by (auto simp: in_set_enumerate_eq pending_slot_def default_slot_def)
    from write_slots_total [OF full1 this] obtain b2 where ws: "write_slots d ?xs b1 = Inr b2" by blast
    have rng: "\<forall>(j, sl) \<in> set ?xs. j < unat (fd_capacity d)" using room2 by (auto simp: in_set_enumerate_eq)
    have "length b2 = length b1" using write_slots_tables [OF ws rng] by blast
    moreover have "first_target (fd_window_end d) = Some (fd_window_end d + 32)"
      using room by (simp add: first_target_def checked_add_def)
    ultimately show ?thesis
      using True ws rl len1 wf_rounds [OF l(6)] l(6)
      by (auto simp: next_round_def Let_def fd_wf_def dest!: set_update_subset_insert [THEN subsetD])
  next
    case False
    have "unat (fd_refundable d) + owed d ?t \<le> unat (fd_funded d)" using d(3) by (auto simp: money_ok_def)
    then have "unat (fd_refundable d) + sum_list (map (tier_worth d) ts) < 2 ^ 64"
      using dr(3) ts unsigned_less [of "fd_funded d", where 'a = nat] by simp
    moreover have "\<forall>t \<in> set ts. unat t < 8" using d(3) by (auto simp: money_ok_def ts unclaimed_def)
    ultimately obtain e where e: "refund_tiers d ts = Inr e" using refund_total [OF l(6)] by blast
    from refund_tiers_Inr [OF this l(6)] have "fd_wf (e\<lparr>fd_status := STATUS_COMPLETE\<rparr>)"
      using l(6) by (auto simp: fd_wf_def)
    with False e len1 show ?thesis by auto
  qed
  then obtain e b2 where br: "(if ts \<noteq> [] \<and> fd_round d < fd_redraw_rounds d \<and> 0 < m then next_round d ts b1
            else bindE (refund_tiers d ts) (\<lambda>d. Inr (d\<lparr>fd_status := STATUS_COMPLETE\<rparr>, b1))) = Inr (e, b2)"
    and e: "fd_wf e" "HEADER_LEN \<le> length b2" by blast
  from fd_pack_total [OF e] obtain b' where pk: "fd_pack e b2 = Inr b'" by blast
  have nx: "next_account_info accounts = Inr (ai, rest)" by (simp add: acc)
  have g: "\<not> (fd_status d \<noteq> STATUS_RESOLVING \<or> fd_next_slot d \<noteq> fd_slot_count d \<or> fd_window_end d = 0)"
    "\<not> clock_slot rt \<le> fd_window_end d" using st all we now by simp_all
  have "fd_advance rt pid accounts s = Inr (set_data s (key ai) b')"
    unfolding fd_advance_def nx bindE_simps prod.case ld if_not_P [OF g(1)] if_not_P [OF g(2)] lp m br pk ..
  then show ?thesis by blast
qed

section \<open>The rank\<close>

definition draw_rank :: "fair_draw \<Rightarrow> nat" where
  "draw_rank d = (unat (fd_redraw_rounds d) - unat (fd_round d)) * (prizes d + 3) +
     (if fd_status d = STATUS_COMPLETE then 0
      else unat (fd_slot_count d) - unat (fd_next_slot d) + (if fd_status d = STATUS_RESOLVING then 1 else 2))"

lemma written_at: "fd_wf e \<Longrightarrow> fd_pack e b = Inr b' \<Longrightarrow> draw_at (set_data s k b' k) = e"
  using pack_tables(1) by simp

lemma draw_lowers_rank:
  assumes inv: "fd_inv H S rent pid s" and run: "fd_draw_ix rt pid accounts s = Inr s'" and h32: "\<forall>xs. length (hashv rt xs) = 32"
  shows "draw_rank (draw_at (s' (key (hd accounts)))) < draw_rank (draw_at (s (key (hd accounts))))"
proof -
  from run obtain ai hs d where hd: "hd accounts = ai" and ld: "load_draw rt pid ai s = Inr d"
    and st: "fd_status d = STATUS_FUNDED \<or> fd_status d = STATUS_AWAIT_DRAW"
    and c: "fix_seed rt ai hs d s = Inr s' \<or> draw_empty ai d s = Inr s'"
    by (auto simp: fd_draw_ix_def split: if_splits)
  note l = loaded [OF ld inv]
  have a: "draw_rank d \<ge> (unat (fd_redraw_rounds d) - unat (fd_round d)) * (prizes d + 3) + unat (fd_slot_count d) - unat (fd_next_slot d) + 2"
    using st by (auto simp: draw_rank_def)
  from c show ?thesis
  proof
    assume "fix_seed rt ai hs d s = Inr s'"
    from fix_seed_Inr [OF this l(6) h32] obtain rs b' where wf: "fd_wf (d\<lparr>fd_rounds := rs, fd_status := STATUS_RESOLVING\<rparr>)"
      and pk: "fd_pack (d\<lparr>fd_rounds := rs, fd_status := STATUS_RESOLVING\<rparr>) (data (s (key ai))) = Inr b'" and s': "s' = set_data s (key ai) b'"
      by (elim exE conjE) (rule that, assumption+)
    have "draw_at (s' (key ai)) = d\<lparr>fd_rounds := rs, fd_status := STATUS_RESOLVING\<rparr>" unfolding s' by (rule written_at [OF wf pk])
    then show ?thesis using st l(2) by (auto simp: hd draw_rank_def prizes_def)
  next
    assume "draw_empty ai d s = Inr s'"
    then obtain b1 b' where pk: "fd_pack (d\<lparr>fd_next_slot := fd_slot_count d, fd_refundable := fd_total_prize d, fd_status := STATUS_COMPLETE\<rparr>) b1 = Inr b'"
      and s': "s' = set_data s (key ai) b'" by (auto simp: draw_empty_def)
    have "fd_wf (d\<lparr>fd_next_slot := fd_slot_count d, fd_refundable := fd_total_prize d, fd_status := STATUS_COMPLETE\<rparr>)"
      using l(6) by (simp add: fd_wf_def)
    from written_at [OF this pk] have "draw_at (s' (key ai)) = d\<lparr>fd_next_slot := fd_slot_count d, fd_refundable := fd_total_prize d, fd_status := STATUS_COMPLETE\<rparr>"
      unfolding s' .
    then show ?thesis using st l(2) by (auto simp: hd draw_rank_def prizes_def)
  qed
qed

lemma resolve_lowers_rank:
  assumes inv: "fd_inv H S rent pid s" and run: "fd_resolve rt pid accounts mx prs s = Inr s'" and h: "hashv rt = H"
    and inj: "node_inj (hash_rt H) S"
    and prs: "\<forall>pr \<in> set prs. proof_pairs rt (key (hd accounts)) (draw_at (s (key (hd accounts)))) pr \<subseteq> S"
  shows "draw_rank (draw_at (s' (key (hd accounts)))) < draw_rank (draw_at (s (key (hd accounts))))"
proof -
  from fd_resolve_Inr [OF run] obtain ai d n b1 e1 e b' where hd: "ai = hd accounts" and ld: "load_draw rt pid ai s = Inr d"
    and st: "fd_status d = STATUS_RESOLVING" and lt: "fd_next_slot d < fd_slot_count d" and n: "0 < n"
    and lp: "resolve_loop rt (key ai) (ri_seed (fd_rounds d ! unat (fd_round d))) n True prs d (data (s (key ai))) = Inr (e1, b1, [])"
    and e: "(if fd_next_slot e1 = fd_slot_count e1
     then bindE (fd_add (clock_slot rt) (fd_claim_window_slots e1)) (\<lambda>w. Inr (e1\<lparr>fd_window_end := w\<rparr>)) else Inr e1) = Inr e"
    and pk: "fd_pack e b1 = Inr b'" and s': "s' = set_data s (key ai) b'"
    by (elim exE conjE) (rule that, assumption+)
  note l = loaded [OF ld inv]
  have full: "full d (data (s (key ai)))" using l(8) st by simp
  have p: "\<forall>pr \<in> set prs. proof_pairs rt (key ai) d pr \<subseteq> S" using prs l(2) hd by simp
  from resolve_loop_account [OF lp h inj p rinv_start [OF l(4) st lt] full] n lt
  have r: "rinv H S (key ai) e1 (slots e1 b1) (won e1 b1)" "resolve_step d e1" "fd_next_slot d < fd_next_slot e1" by blast+
  note f = resolve_step_facts [OF r(2)]
  have es: "\<exists>w. e = e1\<lparr>fd_window_end := w\<rparr>" using e by (auto split: if_splits intro: exI [of _ "fd_window_end e1"])
  then have wf: "fd_wf e" using l(6) f(5) by (auto simp: fd_wf_def)
  have at: "draw_at (s' (key ai)) = e" unfolding s' by (rule written_at [OF wf pk])
  have sc: "fd_status e = STATUS_RESOLVING" "fd_slot_count e = fd_slot_count d" "fd_round e = fd_round d"
    "fd_redraw_rounds e = fd_redraw_rounds d" "prizes e = prizes d" "fd_next_slot e = fd_next_slot e1"
    using es f st by (auto simp: fd_terms_def prizes_def)
  have "unat (fd_next_slot d) < unat (fd_next_slot e1)" "unat (fd_next_slot d) < unat (fd_slot_count d)"
    using r(3) lt by (simp_all add: word_less_nat_alt)
  then show ?thesis using at sc st l(2) hd by (simp add: draw_rank_def)
qed

lemma advance_lowers_rank:
  assumes inv: "fd_inv H S rent pid s" and run: "fd_advance rt pid accounts s = Inr s'"
  shows "draw_rank (draw_at (s' (key (hd accounts)))) < draw_rank (draw_at (s (key (hd accounts))))"
proof -
  from fd_advance_Inr [OF run] obtain ai d b1 ts and m :: u64 and e b2 b' where ld: "load_draw rt pid ai s = Inr d"
    and st: "fd_status d = STATUS_RESOLVING" "fd_window_end d \<noteq> 0" and hd: "ai = hd accounts"
    and lp: "foldE (forfeit_slot d) [unat (fd_round_first_slot d)..<unat (fd_slot_count d)] (data (s (key ai)), []) = Inr (b1, ts)"
    and br: "(if ts \<noteq> [] \<and> fd_round d < fd_redraw_rounds d \<and> 0 < m then next_round d ts b1
            else bindE (refund_tiers d ts) (\<lambda>d. Inr (d\<lparr>fd_status := STATUS_COMPLETE\<rparr>, b1))) = Inr (e, b2)"
    and pk: "fd_pack e b2 = Inr b'" and s': "s' = set_data s (key ai) b'"
    by (elim exE conjE) (rule that, assumption+)
  note l = loaded [OF ld inv]
  let ?t = "slots d (data (s (key ai)))" and ?n = "unat (fd_slot_count d)" and ?f = "unat (fd_round_first_slot d)"
  have d: "terms_ok d" "round_ok d ?t" using l(4) st by (simp_all add: dinv_def phase_ok_def)
  note dr = drawn_round [OF l(4) st]
  have rk: "draw_rank d = (unat (fd_redraw_rounds d) - unat (fd_round d)) * (prizes d + 3) + 1"
    using st dr(1) by (simp add: draw_rank_def)
  have "draw_rank e < draw_rank d \<and> fd_wf e"
  proof (cases "ts \<noteq> [] \<and> fd_round d < fd_redraw_rounds d \<and> 0 < m")
    case True
    with br have "next_round d ts b1 = Inr (e, b2)" by simp
    then obtain t0 where e: "e = d\<lparr>fd_round := fd_round d + 1, fd_round_first_slot := fd_slot_count d,
        fd_slot_count := fd_slot_count d + of_nat (length ts),
        fd_rounds := (fd_rounds d)[unat (fd_round d + 1) := (fd_rounds d ! unat (fd_round d + 1))\<lparr>ri_first_target := t0\<rparr>],
        fd_window_end := 0, fd_status := STATUS_AWAIT_DRAW\<rparr>" and rl: "unat (fd_round d + 1) < length (fd_rounds d)"
      by (auto simp: next_round_def Let_def split: if_splits)
    have fn: "?f \<le> ?n" using d(2) by (simp add: round_ok_def)
    have full: "full d (data (s (key ai)))" using l(8) st by simp
    have lp': "foldE (forfeit_slot d) [?f..<?f + (?n - ?f)] (data (s (key ai)), []) = Inr (b1, ts)" using lp fn by simp
    have tk: "take (?n - ?f) (drop ?f ?t) = drop ?f ?t" by simp
    from forfeit_loop [OF lp', of ?n 0] fn round_capacity [OF d] have "ts = unclaimed (drop ?f ?t)"
      unfolding slots_def [symmetric] tk by simp
    then have "length ts \<le> ?n - ?f" using dr(4,5) by simp
    moreover have "?n - ?f \<le> prizes d" using d(2) unfolding round_ok_def by blast
    ultimately have lt: "length ts \<le> prizes d" by simp
    have "unat (of_nat (length ts) :: u16) \<le> length ts" by (simp add: unat_of_nat)
    then have "unat (fd_slot_count e) - unat (fd_next_slot e) \<le> prizes d"
      using lt dr(1) by (simp add: e unat_word_ariths)
    moreover have r1: "unat (fd_redraw_rounds d) - unat (fd_round d) = Suc (unat (fd_redraw_rounds d) - unat (fd_round d + 1))"
      using True d(1) by (auto simp: terms_ok_def word_less_nat_alt word_le_nat_alt unat_word_ariths)
    ultimately have "draw_rank e < draw_rank d" unfolding rk r1 by (simp add: draw_rank_def prizes_def e)
    moreover have "fd_wf e"
      by (rule pack_wf [OF pk]) (use wf_rounds [OF l(6)] rl in \<open>auto simp: e dest!: set_update_subset_insert [THEN subsetD]\<close>)
    ultimately show ?thesis by blast
  next
    case False
    with br have "bindE (refund_tiers d ts) (\<lambda>d. Inr (d\<lparr>fd_status := STATUS_COMPLETE\<rparr>, b1)) = Inr (e, b2)" by (simp only: if_False)
    then obtain d1 where "refund_tiers d ts = Inr d1" and e1: "e = d1\<lparr>fd_status := STATUS_COMPLETE\<rparr>" by auto
    from refund_tiers_Inr [OF this(1) l(6)] obtain r where "e = d\<lparr>fd_refundable := r, fd_status := STATUS_COMPLETE\<rparr>" using e1 by auto
    then show ?thesis using l(6) st(1) by (simp add: draw_rank_def prizes_def fd_wf_def)
  qed
  then show ?thesis using written_at [OF _ pk, of s "key ai"] l(2) hd by (simp add: s')
qed

lemma rank_bound:
  assumes "dinv H S k d sls ws"
  shows "draw_rank d < 4108"
proof -
  have t: "terms_ok d" using assms by (simp add: dinv_def)
  then have "prizes d * 1 \<le> prizes d * (1 + unat (fd_redraw_rounds d))" by (intro mult_le_mono2) simp
  moreover have "unat (fd_capacity d) = prizes d * (1 + unat (fd_redraw_rounds d))" "unat (fd_capacity d) \<le> 1024"
    using t by (simp_all add: terms_ok_def)
  ultimately have p: "prizes d \<le> 1024" by linarith
  have "unat (fd_redraw_rounds d) \<le> 3" using t by (simp add: terms_ok_def word_le_nat_alt)
  then have r: "(unat (fd_redraw_rounds d) - unat (fd_round d)) * (prizes d + 3) \<le> 3 * 1027" using p by (intro mult_le_mono) simp_all
  have "unat (fd_slot_count d) - unat (fd_next_slot d) \<le> 1024 \<or> fd_status d = STATUS_COMPLETE"
    using assms p by (auto simp: dinv_def early_ok_def phase_ok_def round_ok_def split: if_splits)
  with r show ?thesis by (auto simp: draw_rank_def)
qed

section \<open>No instruction raises the rank\<close>

definition fd_moves :: "key \<Rightarrow> store \<Rightarrow> store \<Rightarrow> bool" where
  "fd_moves pid s s' \<longleftrightarrow> (\<forall>k. fd_live pid (s k) \<longrightarrow> fd_live pid (s' k) \<longrightarrow> draw_rank (draw_at (s' k)) \<le> draw_rank (draw_at (s k)))"

lemma keeps_moves:
  assumes "fd_keeps pid {k} s s'"
    and "fd_live pid (s k) \<Longrightarrow> fd_live pid (s' k) \<Longrightarrow> draw_rank (draw_at (s' k)) \<le> draw_rank (draw_at (s k))"
  shows "fd_moves pid s s'"
  unfolding fd_moves_def
proof (intro allI impI)
  fix j assume l: "fd_live pid (s j)" "fd_live pid (s' j)"
  show "draw_rank (draw_at (s' j)) \<le> draw_rank (draw_at (s j))"
  proof (cases "j = k")
    case True
    then show ?thesis using assms(2) l by simp
  next
    case False
    then have "j \<notin> {k}" by simp
    then show ?thesis using keeps_at [OF assms(1) _ l(1)] by simp
  qed
qed

lemma keeps_all_moves: "fd_keeps pid {} s s' \<Longrightarrow> fd_moves pid s s'"
  using keeps_at by (fastforce simp: fd_moves_def)

lemma written_moves:
  assumes "fd_keeps pid {k} s s1" and "draw_at (s k) = d" and "fd_pack e b = Inr b'" and "fd_wf e" and "draw_rank e \<le> draw_rank d"
  shows "fd_moves pid s (set_data s1 k b')"
  by (rule keeps_moves [OF fd_keeps_trans [OF assms(1) set_data_keeps]]) (use assms written_at [OF assms(4,3)] in simp)

lemma entry_rank: "entry_step d e \<Longrightarrow> draw_rank e = draw_rank d"
  by (auto simp: entry_step_def draw_rank_def prizes_def)

lemma commit_moves:
  assumes inv: "fd_inv H S rent pid s" and run: "fd_commit_list rt pid accounts root w n dep s = Inr s'"
  shows "fd_moves pid s s'"
proof -
  from fd_commit_Inr [OF run] obtain ai d t0 b' where ld: "load_draw rt pid ai s = Inr d" and st: "fd_status d = STATUS_FUNDED"
    and pk: "fd_pack (d\<lparr>fd_root := root, fd_total_weight := w, fd_leaf_count := n,
       fd_depth := dep, fd_commit_slot := clock_slot rt, fd_rounds := (fd_rounds d)[0 := (fd_rounds d ! 0)\<lparr>ri_first_target := t0\<rparr>],
       fd_status := STATUS_AWAIT_DRAW\<rparr>) (data (s (key ai))) = Inr b'"
    and s': "s' = set_data s (key ai) b'"
    by (elim exE conjE) (rule that, assumption+)
  note l = loaded [OF ld inv]
  let ?e = "d\<lparr>fd_root := root, fd_total_weight := w, fd_leaf_count := n,
       fd_depth := dep, fd_commit_slot := clock_slot rt, fd_rounds := (fd_rounds d)[0 := (fd_rounds d ! 0)\<lparr>ri_first_target := t0\<rparr>],
       fd_status := STATUS_AWAIT_DRAW\<rparr>"
  have wf: "fd_wf ?e"
    by (rule pack_wf [OF pk]) (use wf_rounds [OF l(6)] in \<open>auto dest!: set_update_subset_insert [THEN subsetD]\<close>)
  show ?thesis
    unfolding s' by (rule written_moves [where k = "key ai" and s = s, OF fd_keeps_refl l(2) [symmetric] pk wf]) (use st in \<open>simp add: draw_rank_def prizes_def\<close>)
qed

context solana_lamports
begin

lemma enter_moves:
  assumes inv: "fd_inv H S rent pid s" and run: "fd_enter rt pid accounts cnt own s = Inr s'" and tok: "pid \<noteq> FD_TOKEN_PROGRAM_ID"
  shows "fd_moves pid s s'"
proof -
  from fd_enter_Inr [OF run tok] obtain ai d s2 leaf weight and xs :: "nat list" and e b b' where
    ld: "load_draw rt pid ai s = Inr d" and md: "fd_mode d = MODE_OPEN" and k: "fd_keeps pid {} s s2"
    and lp: "foldE (\<lambda>_. enter_leaf rt leaf weight) xs (d, data (s2 (key ai))) = Inr (e, b)"
    and pk: "fd_pack e b = Inr b'" and s': "s' = set_data s2 (key ai) b'"
    by (elim exE conjE) (rule that, assumption+)
  note l = loaded [OF ld inv]
  have e: "entry_step d e" using enter_loop [OF lp md] by blast
  have wf: "fd_wf e" by (rule pack_wf [OF pk]) (use wf_rounds [OF l(6)] entry_step_facts(4,5) [OF e] in simp_all)
  have "fd_keeps pid {key ai} s s2" by (rule fd_keeps_mono [OF k]) simp
  then show ?thesis
    unfolding s' by (rule written_moves [where k = "key ai" and s = s, OF _ l(2) [symmetric] pk wf]) (simp add: entry_rank [OF e])
qed

lemma claim_moves:
  assumes inv: "fd_inv H S rent pid s" and run: "fd_claim rt pid accounts slot x s = Inr s'" and tok: "pid \<noteq> FD_TOKEN_PROGRAM_ID"
  shows "fd_moves pid s s'"
proof -
  from fd_claim_Inr [OF run] obtain me it ai d sl sl' amount s1 v pd b b' where ld: "load_draw rt pid ai s = Inr d"
    and pay: "(if is_sol_prize d then bindE (pay_prize rt d ai me None amount s) (\<lambda>s. Inr (None, s))
     else pay_spl rt pid d ai (key me) amount it s) = Inr (v, s1)"
    and pk: "fd_pack (d\<lparr>fd_paid := pd\<rparr>) b = Inr b'" and s': "s' = set_data s1 (key ai) b'"
    by (elim exE conjE) (rule that, assumption+)
  note l = loaded [OF ld inv]
  from paid_keeps [OF pay tok l(7)] have kp: "fd_keeps pid {key ai} s s1" by blast
  show ?thesis
    unfolding s' by (rule written_moves [where k = "key ai" and s = s, OF kp l(2) [symmetric] pk]) (use l(6) in \<open>simp_all add: fd_wf_def draw_rank_def prizes_def\<close>)
qed

lemma reclaim_moves:
  assumes inv: "fd_inv H S rent pid s" and run: "fd_reclaim rt pid accounts s = Inr s'" and tok: "pid \<noteq> FD_TOKEN_PROGRAM_ID"
  shows "fd_moves pid s s'"
proof -
  from fd_reclaim_Inr [OF run] obtain organizer it ai d s1 v r b' where ld: "load_draw rt pid ai s = Inr d"
    and pay: "(if is_sol_prize d then bindE (pay_prize rt d ai organizer None (fd_refundable d) s) (\<lambda>s. Inr (None, s))
     else pay_spl rt pid d ai (fd_organizer d) (fd_refundable d) it s) = Inr (v, s1)"
    and pk: "fd_pack (d\<lparr>fd_returned := r, fd_refundable := 0\<rparr>) (data (s1 (key ai))) = Inr b'" and s': "s' = set_data s1 (key ai) b'"
    by (elim exE conjE) (rule that, assumption+)
  note l = loaded [OF ld inv]
  from paid_keeps [OF pay tok l(7)] have kp: "fd_keeps pid {key ai} s s1" by blast
  show ?thesis
    unfolding s' by (rule written_moves [where k = "key ai" and s = s, OF kp l(2) [symmetric] pk]) (use l(6) in \<open>simp_all add: fd_wf_def draw_rank_def prizes_def\<close>)
qed

lemma fund_moves:
  assumes inv: "fd_inv H S rent pid s" and run: "fd_fund_prizes rt pid accounts s = Inr s'" and tok: "pid \<noteq> FD_TOKEN_PROGRAM_ID"
  shows "fd_moves pid s s'"
proof -
  from fd_fund_Inr [OF run tok] obtain ai d s1 v b1 b2 where ld: "load_draw rt pid ai s = Inr d" and st: "fd_status d = STATUS_CREATED"
    and len: "length (data (s (key ai))) = fd_len d" and fs: "foreign_step pid s s1"
    and pk: "fd_pack (d\<lparr>fd_funded := fd_total_prize d, fd_status := STATUS_FUNDED\<rparr>) (data (s1 (key ai))) = Inr b1"
    and ws: "write_slots (d\<lparr>fd_funded := fd_total_prize d, fd_status := STATUS_FUNDED\<rparr>)
      (map (\<lambda>(j, ti). (j, pending_slot (of_nat ti) 0)) (enumerate 0 (slot_tiers (d\<lparr>fd_funded := fd_total_prize d, fd_status := STATUS_FUNDED\<rparr>)))) b1 = Inr b2"
    and s': "s' = set_data s1 (key ai) b2"
    by (elim exE conjE) (rule that, assumption+)
  let ?e = "d\<lparr>fd_funded := fd_total_prize d, fd_status := STATUS_FUNDED\<rparr>"
  note l = loaded [OF ld inv]
  have s1: "data (s1 (key ai)) = data (s (key ai))" using fs l(7) by (simp add: foreign_step_def)
  have wf: "fd_wf ?e" using l(6) by (simp add: fd_wf_def)
  have full: "full ?e (data (s1 (key ai)))" using len s1 by (simp add: full_def fd_len_def)
  have d: "terms_ok d" "early_ok d" using l(4) st by (simp_all add: dinv_def)
  have te: "slot_tiers ?e = slot_tiers d" by (simp add: slot_tiers_def)
  have n: "unat (fd_slot_count ?e) = length (slot_tiers ?e)" "length (slot_tiers ?e) \<le> unat (fd_capacity ?e)"
    using d slot_tiers_length [of d] unfolding te by (simp_all add: early_ok_def terms_ok_def fd_wf_def)
  have "fd_of b2 = ?e" by (rule fund_slots(2) [OF wf pk full ws n])
  then show ?thesis
    unfolding s' using st l(2)
    by (intro keeps_moves [OF fd_keeps_trans [OF fd_keeps_mono [OF foreign_keeps [OF fs]] set_data_keeps]])
      (simp_all add: draw_rank_def prizes_def)
qed

lemma create_moves:
  assumes run: "fd_create_draw rt pid accounts draw_id p s = Inr s'" and tok: "pid \<noteq> FD_TOKEN_PROGRAM_ID"
  shows "fd_moves pid s s'"
proof -
  from fd_create_Inr [OF run tok] obtain organizer ai system bump tot cap s1 s2 vb rounds b' where
    c: "fd_create_pda rt organizer ai system pid (min (draw_len (cp_mode p) cap) MAX_ALLOC_STEP)
      [DRAW_SEED, key organizer, u64_le draw_id, [bump]] (fd_err DfAccountInUse) s = Inr s1"
    and fs: "foreign_step pid s1 s2" and s': "s' = set_data s2 (key ai) b'"
    by (elim exE conjE) (rule that, assumption+)
  have "min (draw_len (cp_mode p) cap) MAX_ALLOC_STEP < 2 ^ 64" by (simp add: min_def)
  note c1 = create_pda_effect [OF c this]
  have "fd_keeps pid {key ai} s s2" by (rule fd_keeps_mono [OF foreign_keeps [OF foreign_step_trans [OF c1(4) fs]]]) simp
  then show ?thesis
    unfolding s' by (intro keeps_moves [OF fd_keeps_trans [OF _ set_data_keeps]]) (use c1(1) in \<open>simp_all add: fd_live_def\<close>)
qed

lemma extend_moves:
  assumes inv: "fd_inv H S rent pid s" and run: "fd_extend rt pid accounts s = Inr s'"
  shows "fd_moves pid s s'"
proof -
  from run obtain payer ai system d s1 where ld: "load_draw rt pid ai s = Inr d" and lt: "length (data (s (key ai))) < fd_len d"
    and s1: "if 0 < saturating_sub (minimum_balance rt (min (fd_len d) (length (data (s (key ai))) + MAX_ALLOC_STEP))) (lamports (s (key ai)))
      then invoke rt (SystemCpi (Transfer (key payer) (key ai)
        (saturating_sub (minimum_balance rt (min (fd_len d) (length (data (s (key ai))) + MAX_ALLOC_STEP))) (lamports (s (key ai))))))
        [payer, ai, system] s = Inr s1 else s1 = s"
    and re: "fd_realloc (key ai) (min (fd_len d) (length (data (s (key ai))) + MAX_ALLOC_STEP)) s1 = Inr s'"
    by (auto simp: fd_extend_def Let_def not_le simp del: MAX_ALLOC_STEP_def split: if_splits)
  define n where "n = min (fd_len d) (length (data (s (key ai))) + MAX_ALLOC_STEP)"
  have n: "length (data (s (key ai))) \<le> n" using lt by (simp add: n_def)
  note re = re [folded n_def]
  note l = loaded [OF ld inv]
  have fs: "foreign_step pid s s1" using s1 invoke_foreign token_cpi(4) foreign_step_refl by (auto split: if_splits)
  then have d1: "data (s1 (key ai)) = data (s (key ai))" using l(7) by (simp add: foreign_step_def)
  have s': "s' = set_data s1 (key ai) (data (s (key ai)) @ replicate (n - length (data (s (key ai)))) 0)"
    using re n by (simp add: fd_realloc_Inr d1)
  have "HEADER_LEN \<le> length (data (s (key ai)))" using l(1) live_unpack [OF l(1)] by (simp add: fd_unpack_Some)
  then show ?thesis
    unfolding s' by (intro keeps_moves [OF fd_keeps_trans [OF fd_keeps_mono [OF foreign_keeps [OF fs]] set_data_keeps]])
      (simp_all add: fd_of_append)
qed

lemma close_moves:
  assumes "fd_close rt pid accounts cancel s = Inr s'" and "pid \<noteq> FD_TOKEN_PROGRAM_ID"
  shows "fd_moves pid s s'"
proof -
  from fd_close_Inr [OF assms] obtain ai :: account_info where k: "fd_keeps pid {key ai} s s'" and d: "\<not> fd_live pid (s' (key ai))" by blast
  from d show ?thesis by (intro keeps_moves [OF k]) (rule notE)
qed

end

text \<open>The instructions that carry the drawing on.\<close>

definition drawing_step :: "draw_instruction \<Rightarrow> bool" where
  "drawing_step i \<longleftrightarrow> (case i of FdDraw \<Rightarrow> True | FdResolve _ _ \<Rightarrow> True | FdAdvance \<Rightarrow> True | _ \<Rightarrow> False)"

lemma drawing_writes:
  assumes "fd_run rt pid accounts i s = Inr s'" and "drawing_step i"
  shows "\<exists>b. s' = set_data s (key (hd accounts)) b"
proof (cases i)
  case FdDraw
  with assms show ?thesis
    by (auto simp: fd_draw_ix_def fix_seed_def draw_empty_def store_draw_Inr Let_def split: if_splits sum.splits)
next
  case (FdResolve mx prs)
  with assms(1) have "fd_resolve rt pid accounts mx prs s = Inr s'" by simp
  from fd_resolve_Inr [OF this] show ?thesis by blast
next
  case FdAdvance
  with assms(1) have "fd_advance rt pid accounts s = Inr s'" by simp
  from fd_advance_Inr [OF this] show ?thesis by blast
qed (use assms(2) in \<open>simp_all add: drawing_step_def\<close>)

lemma fd_run_moves:
  assumes env: "fd_env H rent rt pid" and tok: "pid \<noteq> FD_TOKEN_PROGRAM_ID" and inv: "fd_inv H S rent pid s"
    and run: "fd_run rt pid accounts i s = Inr s'" and inj: "node_inj (hash_rt H) S"
    and prs: "\<forall>pr \<in> set (proofs_of (Some i)). proof_pairs (hash_rt H) (key (hd accounts)) (draw_at (s (key (hd accounts)))) pr \<subseteq> S"
  shows "fd_moves pid s s'"
    and "drawing_step i \<Longrightarrow> draw_rank (draw_at (s' (key (hd accounts)))) < draw_rank (draw_at (s (key (hd accounts))))"
proof -
  from env have sol: "solana_lamports rt pid" and h: "hashv rt = H" and h32: "\<forall>xs. length (hashv rt xs) = 32" by (auto simp: fd_env_def)
  have ns: "pid \<noteq> SYSTEM_ID" by (rule solana.pid_not_system [OF solana_lamports.axioms(1) [OF sol]])
  show lower: "draw_rank (draw_at (s' (key (hd accounts)))) < draw_rank (draw_at (s (key (hd accounts))))" if "drawing_step i"
  proof (cases i)
    case FdDraw
    with run show ?thesis using draw_lowers_rank [OF inv _ h32] by simp
  next
    case (FdResolve mx ps)
    with run prs show ?thesis by (intro resolve_lowers_rank [OF inv _ h inj]) (simp_all add: proofs_of_def proof_pairs_hash [OF h])
  next
    case FdAdvance
    with run show ?thesis using advance_lowers_rank [OF inv] by simp
  qed (use that in \<open>simp_all add: drawing_step_def\<close>)
  show "fd_moves pid s s'"
  proof (cases "drawing_step i")
    case True
    from drawing_writes [OF run True] obtain b where "s' = set_data s (key (hd accounts)) b" by blast
    then have "fd_keeps pid {key (hd accounts)} s s'" using set_data_keeps by simp
    then show ?thesis by (rule keeps_moves) (use lower [OF True] in simp)
  next
    case False
    show ?thesis
    proof (cases i)
      case (FdCreateDraw draw_id p)
      with run show ?thesis using solana_lamports.create_moves [OF sol _ tok] by simp
    next
      case FdFundPrizes
      with run show ?thesis using solana_lamports.fund_moves [OF sol inv _ tok] by simp
    next
      case (FdEnter cnt own)
      with run show ?thesis using solana_lamports.enter_moves [OF sol inv _ tok] by simp
    next
      case (FdCommitList root w n dep)
      with run show ?thesis using commit_moves [OF inv] by simp
    next
      case (FdClaim slot x)
      with run show ?thesis using solana_lamports.claim_moves [OF sol inv _ tok] by simp
    next
      case FdReclaim
      with run show ?thesis using solana_lamports.reclaim_moves [OF sol inv _ tok] by simp
    next
      case FdClose
      with run show ?thesis using solana_lamports.close_moves [OF sol _ tok] by simp
    next
      case FdCancel
      with run show ?thesis using solana_lamports.close_moves [OF sol _ tok] by simp
    next
      case (FdProveEntry pr)
      with run show ?thesis by (auto simp: fd_prove_entry_def Let_def fd_moves_def split: if_splits)
    next
      case FdCloseEntrant
      with run show ?thesis using keeps_all_moves [OF close_entrant_keeps] ns by simp
    next
      case FdExtend
      with run show ?thesis using solana_lamports.extend_moves [OF sol inv] by simp
    qed (use False in \<open>simp_all add: drawing_step_def\<close>)
  qed
qed

end
