(* ===== verification/FdLive.thy ===== *)
theory FdLive
  imports FdRank
begin

text \<open>
  Resolving an unweighted draw goes through for anybody, without proofs: no step of the loop can fail.
\<close>

lemma won_fits_next:
  assumes "unat (fd_won_count d) < unat (fd_capacity d)" and "full d b"
  shows "sorted_offset d + 16 * (unat (fd_won_count d) + 1) \<le> length b"
  using assms layout(3) [of d] by (simp add: full_def)

lemma win_slot_total:
  assumes lt: "fd_next_slot d < fd_slot_count d" and inv: "rinv H S k d (slots d b) (won d b)" and full: "full d b"
    and j: "j = unat (fd_next_slot d)" and wl: "length (sl_wallet sl) = 32" and room: "unat (fd_won_weight d) + unat (sl_weight sl) < 2 ^ 64"
  shows "\<exists>e b'. win_slot d b j sl = Inr (e, b')"
proof -
  have d: "terms_ok d" "round_ok d (slots d b)" using inv by (simp_all add: rinv_def)
  have jc: "j < unat (fd_capacity d)" using lt round_capacity [OF d] by (simp add: j word_less_nat_alt)
  have wl': "length (sl_wallet (sl\<lparr>sl_status := SLOT_WON\<rparr>)) = 32" using wl by simp
  from write_slot_total [OF full jc wl'] obtain b1 where b1: "write_slot d b j (sl\<lparr>sl_status := SLOT_WON\<rparr>) = Inr b1" by blast
  note t = write_slot_tables [OF b1 jc]
  have full1: "full d b1" using full t(1) by (simp add: full_def)
  note wr = won_room [OF lt inv]
  have srt: "sorted (map fst (won_list (sorted_offset d) b1 (unat (fd_won_count d))))" using wr(2) t(3) by (simp add: won_def)
  from won_insert_total [OF srt refl won_fits_next [OF wr(1) full1]] obtain d2 b2 where
    ins: "won_insert d b1 (sl_start sl) (sl_weight sl) = Inr (d2, b2)" by (metis surj_pair)
  have srt': "sorted (map fst (won d b1))" using srt by (simp add: won_def)
  have "fd_won_weight d2 = fd_won_weight d" using won_insert_tables(1) [OF ins srt' full1 wr(1)] by simp
  then have "fd_add (fd_won_weight d2) (sl_weight sl) = Inr (fd_won_weight d + sl_weight sl)"
    using room by (simp add: fd_add_def checked_add_def)
  with b1 ins show ?thesis by (simp add: win_slot_def)
qed

lemma void_slot_total:
  assumes lt: "fd_next_slot d < fd_slot_count d" and inv: "rinv H S k d (slots d b) (won d b)" and full: "full d b"
    and j: "j = unat (fd_next_slot d)" and r: "read_slot d b j = Inr sl"
  shows "\<exists>e b'. void_slot d b j sl = Inr (e, b')"
proof -
  have d: "terms_ok d" "round_ok d (slots d b)" "money_ok d (slots d b)" using inv by (simp_all add: rinv_def)
  have jc: "j < unat (fd_slot_count d)" "j < unat (fd_capacity d)" using lt round_capacity [OF d(1,2)] by (simp_all add: j word_less_nat_alt)
  have sl: "sl = slots d b ! j" using read_slot_tab [OF r jc(1)] by (simp add: slots_def)
  have js: "j < length (slots d b)" using jc by simp
  have "length (sl_wallet sl) = 32"
    using slot_tab_wallet [OF full round_capacity [OF d(1,2)]] nth_mem [OF js] by (simp add: sl slots_def)
  then have wl: "length (sl_wallet (sl\<lparr>sl_status := SLOT_VOID\<rparr>)) = 32" by simp
  from write_slot_total [OF full jc(2) wl] obtain b1 where b1: "write_slot d b j (sl\<lparr>sl_status := SLOT_VOID\<rparr>) = Inr b1" by blast
  have wf: "fd_wf d" using d(1) by (simp add: terms_ok_def)
  have t8: "unat (sl_tier sl) < 8" using d(3) js by (simp add: money_ok_def sl)
  let ?a = "tr_amount (fd_tiers d ! unat (sl_tier sl))"
  have a: "tier_amount d (sl_tier sl) = Inr ?a" using t8 by (simp add: tier_amount_Inr [OF wf])
  have "is_open sl" using d(2) js j by (simp add: round_ok_def is_open_def sl)
  then have "unat ?a \<le> owed d (slots d b)"
    unfolding owed_def using js member_le_sum_list [of "owes d sl" "map (owes d) (slots d b)"]
    by (simp add: sl owes_def amount_of_def)
  moreover have "unat (fd_refundable d) + owed d (slots d b) \<le> unat (fd_funded d)" using d(3) by (auto simp: money_ok_def)
  ultimately have "unat (fd_refundable d) + unat ?a < 2 ^ 64" using unsigned_less [of "fd_funded d", where 'a = nat] by simp
  then have "fd_add (fd_refundable d) ?a = Inr (fd_refundable d + ?a)" by (simp add: fd_add_def checked_add_def)
  with b1 a show ?thesis by (simp add: void_slot_def)
qed

lemma stream_point_total:
  assumes "\<forall>xs. length (hashv rt xs) = 32" and "m \<noteq> 0"
  shows "\<exists>u. stream_point rt sd j m = Inr u \<and> u < m"
proof -
  have "length (stream_block rt sd j) = 64" using assms(1) by (simp add: stream_block_def)
  from wide_mod_nat [OF assms(2) this] obtain u where u: "wide_mod (stream_block rt sd j) m = Inr u" by blast
  with wide_mod_less [OF assms(2)] show ?thesis by (auto simp: stream_point_def word_less_nat_alt)
qed

lemma remap_total:
  assumes inv: "rinv H S k d (slots d b) (won d b)" and full: "full d b" and rem: "fd_sub (fd_total_weight d) (fd_won_weight d) = Inr m"
    and u: "u < m"
  shows "\<exists>p. remap_won d b [0..<unat (fd_won_count d)] u = Inr (Some p)"
proof -
  have d: "terms_ok d" "round_ok d (slots d b)" "wins_ok H S k d (slots d b) (won d b)" using inv by (simp_all add: rinv_def)
  have "unat (fd_won_count d) \<le> unat (fd_capacity d)" using won_size(2) [OF d(3)] round_capacity [OF d(1,2)] by simp
  note rw = remap_won_ok [OF full this]
  have ok: "won_ok 0 (unat (fd_total_weight d)) (won d b)" using d(3) by (simp add: wins_ok_def)
  have "unat m + won_sum (won d b) = unat (fd_total_weight d)"
    using rem d(3) checked_sub_unat by (fastforce simp: fd_sub_def wins_ok_def)
  then have "unat u + won_sum (won d b) < unat (fd_total_weight d)" using u by (simp add: word_less_nat_alt)
  moreover have "unat (fd_total_weight d) \<le> 2 ^ 64" using unsigned_less [of "fd_total_weight d", where 'a = nat] by simp
  ultimately show ?thesis using remap_spec [OF ok, of u] rw by auto
qed

text \<open>A slot the drawn point \<open>p\<close> wins in an unweighted draw.\<close>

definition drawn_slot :: "draw_slot \<Rightarrow> u64 \<Rightarrow> draw_slot" where
  "drawn_slot sl p = sl\<lparr>sl_start := p, sl_weight := 1, sl_leaf_index := p, sl_wallet := replicate 32 0, sl_status := SLOT_WON\<rparr>"

text \<open>One slot of an unweighted draw.\<close>

lemma resolve_one_total:
  assumes lt: "fd_next_slot d < fd_slot_count d" and inv: "rinv H S k d (slots d b) (won d b)" and full: "full d b"
    and h32: "\<forall>xs. length (hashv rt xs) = 32" and inj: "node_inj (hash_rt H) S" and un: "\<not> fd_weighted d"
  shows "\<exists>e b'. resolve_loop rt k sd (Suc n) first [] d b = resolve_loop rt k sd n False [] e b' \<and>
    rinv H S k e (slots e b') (won e b') \<and> full e b' \<and> \<not> fd_weighted e \<and> fd_next_slot e = fd_next_slot d + 1 \<and>
    fd_slot_count e = fd_slot_count d \<and> fd_total_weight e = fd_total_weight d \<and>
    (fd_won_weight d < fd_total_weight d \<longrightarrow> unat (fd_won_weight e) = unat (fd_won_weight d) + 1 \<and>
      (\<exists>p. slots e b' = (slots d b)[unat (fd_next_slot d) := drawn_slot (slots d b ! unat (fd_next_slot d)) p]))"
proof -
  let ?j = "unat (fd_next_slot d)"
  have d: "terms_ok d" "round_ok d (slots d b)" "wins_ok H S k d (slots d b) (won d b)" using inv by (simp_all add: rinv_def)
  have jc: "?j < unat (fd_slot_count d)" "?j < unat (fd_capacity d)"
    using lt round_capacity [OF d(1,2)] by (simp_all add: word_less_nat_alt)
  obtain sl where sl: "read_slot d b ?j = Inr sl" using read_slot_total [OF full jc(2)] by blast
  have sle: "sl = slots d b ! ?j" using read_slot_tab [OF sl jc(1)] by (simp add: slots_def)
  have "won_sum (won d b) \<le> unat (fd_total_weight d)" using won_ok_le d(3) unfolding wins_ok_def by fastforce
  then have le: "fd_won_weight d \<le> fd_total_weight d" using d(3) by (simp add: wins_ok_def word_le_nat_alt)
  then have m: "fd_sub (fd_total_weight d) (fd_won_weight d) = Inr (fd_total_weight d - fd_won_weight d)"
    by (simp add: fd_sub_def checked_sub_def)
  let ?m = "fd_total_weight d - fd_won_weight d"
  have fin: ?thesis
    if "resolve_loop rt k sd (Suc n) first [] d b = resolve_loop rt k sd n False [] e b'"
      and "rinv H S k e (slots e b') (won e b') \<and> full e b' \<and> body_only b b' \<and> resolve_step d e \<and> fd_next_slot e = fd_next_slot d + 1"
      and "fd_won_weight d < fd_total_weight d \<longrightarrow> unat (fd_won_weight e) = unat (fd_won_weight d) + 1 \<and>
        (\<exists>p. slots e b' = (slots d b)[?j := drawn_slot (slots d b ! ?j) p])" for e b'
  proof -
    have "fd_weighted e = fd_weighted d" "fd_slot_count e = fd_slot_count d" "fd_total_weight e = fd_total_weight d"
      using that(2) resolve_step_facts [of d e] by (auto simp: fd_terms_def same_entries_def)
    with that un show ?thesis by blast
  qed
  show ?thesis
  proof (cases "?m = 0")
    case True
    then have nl: "\<not> fd_won_weight d < fd_total_weight d" by simp
    from void_slot_total [OF lt inv full refl sl] obtain e b' where v: "void_slot d b ?j sl = Inr (e, b')" by blast
    show ?thesis by (rule fin [OF _ void_slot_account [OF v refl lt inv full sl]]) (use lt sl m True v nl in \<open>simp_all add: Let_def\<close>)
  next
    case nz: False
    from stream_point_total [OF h32 nz] obtain u where u: "stream_point rt sd (of_nat ?j) ?m = Inr u" "u < ?m" by blast
    from remap_total [OF inv full m u(2)] obtain p where q: "remap_won d b [0..<unat (fd_won_count d)] u = Inr (Some p)" by blast
    note pt = drawn_point [OF inv full m nz u(1) q]
    let ?sl = "sl\<lparr>sl_start := p, sl_weight := 1, sl_leaf_index := p, sl_wallet := replicate 32 0\<rparr>"
    have "fd_won_weight d \<noteq> fd_total_weight d" using nz by auto
    with le have "fd_won_weight d < fd_total_weight d" by (simp add: order_less_le)
    then have "unat (fd_won_weight d) < unat (fd_total_weight d)" by (simp add: word_less_nat_alt)
    then have room: "unat (fd_won_weight d) + unat (sl_weight ?sl) < 2 ^ 64"
      using unsigned_less [of "fd_total_weight d", where 'a = nat] by simp
    from win_slot_total [OF lt inv full refl _ room] obtain e b' where w: "win_slot d b ?j ?sl = Inr (e, b')" by auto
    have au: "authentic H S k d ?sl" using un pt(2) by (simp add: authentic_def)
    have W: "rinv H S k e (slots e b') (won e b') \<and> full e b' \<and> body_only b b' \<and> resolve_step d e \<and> fd_next_slot e = fd_next_slot d + 1 \<and>
      slots e b' = (slots d b)[?j := ?sl\<lparr>sl_status := SLOT_WON\<rparr>] \<and> won e b' = insert_won (sl_start ?sl) (sl_weight ?sl) (won d b)"
      by (rule win_slot_account [OF w refl lt inv full sl _ _ au inj _ pt(1)]) simp_all
    then have W1: "rinv H S k e (slots e b') (won e b') \<and> full e b' \<and> body_only b b' \<and> resolve_step d e \<and> fd_next_slot e = fd_next_slot d + 1"
      by blast
    from W have "slots e b' = (slots d b)[?j := ?sl\<lparr>sl_status := SLOT_WON\<rparr>]" by blast
    then have W2: "slots e b' = (slots d b)[?j := drawn_slot (slots d b ! ?j) p]" unfolding drawn_slot_def sle [symmetric] .
    from W have "won e b' = insert_won (sl_start ?sl) (sl_weight ?sl) (won d b)" by blast
    then have W3: "won e b' = insert_won p 1 (won d b)" by simp
    have "won_sum (won e b') = won_sum (won d b) + 1" unfolding W3 by (simp add: won_sum_insert)
    then have "unat (fd_won_weight e) = unat (fd_won_weight d) + 1" using W1 d(3) by (simp add: rinv_def wins_ok_def)
    with W2 have last: "fd_won_weight d < fd_total_weight d \<longrightarrow> unat (fd_won_weight e) = unat (fd_won_weight d) + 1 \<and>
        (\<exists>p. slots e b' = (slots d b)[?j := drawn_slot (slots d b ! ?j) p])" by blast
    show ?thesis
      by (rule fin [OF _ W1 last]) (use lt sl m nz u q w un pt(1) in \<open>simp add: Let_def\<close>)
  qed
qed

lemma resolve_loop_total:
  assumes "rinv H S k d (slots d b) (won d b)" and "full d b" and "\<forall>xs. length (hashv rt xs) = 32"
    and "node_inj (hash_rt H) S" and "\<not> fd_weighted d"
  shows "\<exists>e b'. resolve_loop rt k sd n first [] d b = Inr (e, b', []) \<and>
    unat (fd_next_slot e) = min (unat (fd_next_slot d) + n) (unat (fd_slot_count d)) \<and>
    (unat (fd_won_weight d) + (unat (fd_slot_count d) - unat (fd_next_slot d)) \<le> unat (fd_total_weight d) \<longrightarrow>
      (\<forall>i < unat (fd_slot_count d). if unat (fd_next_slot d) \<le> i \<and> i < unat (fd_next_slot e)
         then \<exists>p. slots e b' ! i = drawn_slot (slots d b ! i) p else slots e b' ! i = slots d b ! i))"
  using assms
proof (induction n arbitrary: first d b)
  case 0
  then have "unat (fd_next_slot d) \<le> unat (fd_slot_count d)" by (simp add: rinv_def round_ok_def)
  then show ?case by auto
next
  case (Suc n)
  show ?case
  proof (cases "fd_next_slot d < fd_slot_count d")
    case False
    have "unat (fd_next_slot d) \<le> unat (fd_slot_count d)" using Suc.prems(1) by (simp add: rinv_def round_ok_def)
    with False show ?thesis by (simp add: word_less_nat_alt)
  next
    case lt: True
    let ?j = "unat (fd_next_slot d)"
    from resolve_one_total [where sd = sd and n = n and first = first, OF lt Suc.prems] obtain e b' where
      e: "resolve_loop rt k sd (Suc n) first [] d b = resolve_loop rt k sd n False [] e b'"
      "rinv H S k e (slots e b') (won e b')" "full e b'" "\<not> fd_weighted e" "fd_next_slot e = fd_next_slot d + 1" "fd_slot_count e = fd_slot_count d"
      "fd_total_weight e = fd_total_weight d"
      and won: "fd_won_weight d < fd_total_weight d \<longrightarrow> unat (fd_won_weight e) = unat (fd_won_weight d) + 1 \<and>
        (\<exists>p. slots e b' = (slots d b)[?j := drawn_slot (slots d b ! ?j) p])"
      by (elim exE conjE) (rule that, assumption+)
    have nx: "unat (fd_next_slot e) = ?j + 1" using e(5) next_word [OF lt] by simp
    have jl: "?j < unat (fd_slot_count d)" using lt by (simp add: word_less_nat_alt)
    from Suc.IH [OF e(2,3) Suc.prems(3,4) e(4), of False] obtain g c where
      g: "resolve_loop rt k sd n False [] e b' = Inr (g, c, [])" "unat (fd_next_slot g) = min (?j + 1 + n) (unat (fd_slot_count d))"
      and gw: "unat (fd_won_weight e) + (unat (fd_slot_count d) - (?j + 1)) \<le> unat (fd_total_weight d) \<longrightarrow>
      (\<forall>i < unat (fd_slot_count d). if ?j + 1 \<le> i \<and> i < unat (fd_next_slot g)
         then \<exists>p. slots g c ! i = drawn_slot (slots e b' ! i) p else slots g c ! i = slots e b' ! i)"
      unfolding e(6,7) nx by blast
    have "\<forall>i < unat (fd_slot_count d). if ?j \<le> i \<and> i < unat (fd_next_slot g)
         then \<exists>p. slots g c ! i = drawn_slot (slots d b ! i) p else slots g c ! i = slots d b ! i"
      if room: "unat (fd_won_weight d) + (unat (fd_slot_count d) - ?j) \<le> unat (fd_total_weight d)"
    proof -
      have "fd_won_weight d < fd_total_weight d" using room jl by (simp add: word_less_nat_alt)
      with won obtain p where w: "unat (fd_won_weight e) = unat (fd_won_weight d) + 1"
        "slots e b' = (slots d b)[?j := drawn_slot (slots d b ! ?j) p]" by blast
      have all: "\<forall>i < unat (fd_slot_count d). if ?j + 1 \<le> i \<and> i < unat (fd_next_slot g)
         then \<exists>p. slots g c ! i = drawn_slot (slots e b' ! i) p else slots g c ! i = slots e b' ! i"
        by (rule mp [OF gw]) (use w(1) room jl in simp)
      show ?thesis
      proof (intro allI impI)
        fix i
        assume i: "i < unat (fd_slot_count d)"
        show "if ?j \<le> i \<and> i < unat (fd_next_slot g)
         then \<exists>p. slots g c ! i = drawn_slot (slots d b ! i) p else slots g c ! i = slots d b ! i"
          using all [rule_format, OF i] jl g(2) w(2) i by (cases "i = ?j") (auto split: if_splits)
      qed
    qed
    with e(1) g show ?thesis by auto
  qed
qed

lemma resolve_goes_through:
  assumes inv: "fd_inv H S rent pid s" and ld: "load_draw rt pid ai s = Inr d" and acc: "accounts = ai # rest"
    and h: "hashv rt = H" and h32: "\<forall>xs. length (hashv rt xs) = 32" and inj: "node_inj (hash_rt H) S"
    and st: "fd_status d = STATUS_RESOLVING" and lt: "fd_next_slot d < fd_slot_count d" and un: "\<not> fd_weighted d"
    and room: "unat (clock_slot rt) + unat (fd_claim_window_slots d) < 2 ^ 64"
  shows "\<exists>b' e. fd_resolve rt pid accounts 0 [] s = Inr (set_data s (key ai) b') \<and> fd_of b' = e \<and> fd_wf e \<and>
    length b' = length (data (s (key ai))) \<and> slice b' 0 8 = DRAW_DISC \<and>
    fd_terms d e \<and> same_entries d e \<and> fd_status e = fd_status d \<and> fd_slot_count e = fd_slot_count d \<and> fd_round e = fd_round d \<and>
    unat (fd_next_slot e) = min (unat (fd_next_slot d) + 24) (unat (fd_slot_count d)) \<and>
    (fd_next_slot e = fd_slot_count d \<longrightarrow> fd_window_end e = clock_slot rt + fd_claim_window_slots d) \<and>
    (unat (fd_won_weight d) + (unat (fd_slot_count d) - unat (fd_next_slot d)) \<le> unat (fd_total_weight d) \<longrightarrow>
      (\<forall>i < unat (fd_slot_count d). if unat (fd_next_slot d) \<le> i \<and> i < unat (fd_next_slot d) + 24
         then \<exists>p. slots d b' ! i = drawn_slot (slots d (data (s (key ai))) ! i) p
         else slots d b' ! i = slots d (data (s (key ai))) ! i))"
proof -
  let ?b = "data (s (key ai))"
  note l = loaded [OF ld inv]
  have full: "full d ?b" using l(8) st by simp
  note ri = rinv_start [OF l(4) st lt]
  let ?sd = "ri_seed (fd_rounds d ! unat (fd_round d))"
  from resolve_loop_total [OF ri full h32 inj un, of ?sd 24 True] obtain e b1 where
    lp: "resolve_loop rt (key ai) ?sd 24 True [] d ?b = Inr (e, b1, [])"
    and nx: "unat (fd_next_slot e) = min (unat (fd_next_slot d) + 24) (unat (fd_slot_count d))"
    and won: "unat (fd_won_weight d) + (unat (fd_slot_count d) - unat (fd_next_slot d)) \<le> unat (fd_total_weight d) \<longrightarrow>
      (\<forall>i < unat (fd_slot_count d). if unat (fd_next_slot d) \<le> i \<and> i < unat (fd_next_slot e)
         then \<exists>p. slots e b1 ! i = drawn_slot (slots d ?b ! i) p else slots e b1 ! i = slots d ?b ! i)"
    by (elim exE conjE) (rule that, assumption+)
  from resolve_loop_account [OF lp h inj _ ri full] have rs: "resolve_step d e" "length b1 = length ?b"
    by (simp_all add: body_only_def)
  note f = resolve_step_facts [OF rs(1)]
  have "fd_claim_window_slots e = fd_claim_window_slots d" using f(1) by (simp add: fd_terms_def)
  then have add: "fd_add (clock_slot rt) (fd_claim_window_slots e) = Inr (clock_slot rt + fd_claim_window_slots e)"
    using room by (simp add: fd_add_def checked_add_def)
  define e' where "e' = (if fd_next_slot e = fd_slot_count e then e\<lparr>fd_window_end := clock_slot rt + fd_claim_window_slots e\<rparr> else e)"
  have wf: "fd_wf e'" using l(6) f(5) by (simp add: e'_def fd_wf_def)
  have "HEADER_LEN \<le> length b1" using rs(2) full header_le_len [of d] by (simp add: full_def)
  from fd_pack_total [OF wf this] obtain b' where b': "fd_pack e' b1 = Inr b'" by blast
  have "fd_round d \<le> 3" using l(4) st by (auto simp: dinv_def phase_ok_def round_ok_def terms_ok_def)
  then have rl: "\<not> length (fd_rounds d) \<le> unat (fd_round d)" using l(6) by (simp add: fd_wf_def word_le_nat_alt)
  have nxa: "next_account_info accounts = Inr (ai, rest)" by (simp add: acc)
  have run: "fd_resolve rt pid accounts 0 [] s = Inr (set_data s (key ai) b')"
  proof (cases "fd_next_slot e = fd_slot_count e")
    case True
    with b' have "fd_pack (e\<lparr>fd_window_end := clock_slot rt + fd_claim_window_slots e\<rparr>) b1 = Inr b'" by (simp add: e'_def)
    with True ld st lt rl lp add show ?thesis by (simp add: fd_resolve_def nxa Let_def not_le)
  next
    case False
    with b' have "fd_pack e b1 = Inr b'" by (simp add: e'_def)
    with False ld st lt rl lp show ?thesis by (simp add: fd_resolve_def nxa Let_def not_le)
  qed
  note p = pack_tables [OF wf b']
  have "slots d b' = slots e b1"
  proof -
    have sh: "same_shape d e" "same_shape e e'" using f(1) fd_terms_shape by (auto simp: e'_def same_shape_def)
    show ?thesis
      using p(3) [where n = "unat (fd_slot_count d)"] same_shapeD [OF sh(1)] same_shapeD [OF sh(2)] f(6)
      by (simp add: slots_def)
  qed
  moreover have "i < unat (fd_next_slot e) \<longleftrightarrow> i < unat (fd_next_slot d) + 24" if "i < unat (fd_slot_count d)" for i
    using that nx by auto
  ultimately have won': "unat (fd_won_weight d) + (unat (fd_slot_count d) - unat (fd_next_slot d)) \<le> unat (fd_total_weight d) \<longrightarrow>
      (\<forall>i < unat (fd_slot_count d). if unat (fd_next_slot d) \<le> i \<and> i < unat (fd_next_slot d) + 24
         then \<exists>p. slots d b' ! i = drawn_slot (slots d ?b ! i) p else slots d b' ! i = slots d ?b ! i)"
    using won by simp
  have e'f: "fd_terms d e'" "same_entries d e'" "fd_status e' = fd_status d" "fd_slot_count e' = fd_slot_count d" "fd_round e' = fd_round d"
    "fd_next_slot e' = fd_next_slot e"
    using f by (simp_all add: e'_def fd_terms_def same_entries_def)
  have we: "fd_next_slot e' = fd_slot_count d \<longrightarrow> fd_window_end e' = clock_slot rt + fd_claim_window_slots d"
    using f(1,6) by (simp add: e'_def fd_terms_def)
  have nx': "unat (fd_next_slot e') = min (unat (fd_next_slot d) + 24) (unat (fd_slot_count d))" using nx e'f(6) by (simp only:)
  have len: "length b' = length ?b" using p(2) rs(2) by simp
  show ?thesis
    by (rule exI [of _ b'], rule exI [of _ e']) (intro conjI run p(1) wf len p(5) e'f nx' we won')
qed

end
