(* ===== verification/FdScenario.thy ===== *)
theory FdScenario
  imports FdLive
begin

text \<open>
  A concrete draw the witnesses of the fairness properties run on: a list draw with two SOL prizes of five
  lamports, created, funded, committed, drawn and resolved. Its hash is constant, which
  is harmless here: no proof is sent to Resolve in its history, so no node inputs are collected.
\<close>

definition fd_rt :: runtime where
  "fd_rt = ref_runtime\<lparr>hashv := (\<lambda>_. replicate 32 0)\<rparr>"

abbreviation fd_hash :: "bytes list \<Rightarrow> bytes" where
  "fd_hash \<equiv> \<lambda>_. replicate 32 0"

definition fd_rent :: "nat \<Rightarrow> u64" where
  "fd_rent n = of_nat (n + 100)"

definition FD_ORG :: key where "FD_ORG = replicate 32 1"

definition FD_DRAW :: key where
  "FD_DRAW = ref_address [DRAW_SEED, FD_ORG, u64_le 7]"

definition fd_params :: create_params where
  "fd_params = \<lparr>cp_mode = 1, cp_weighted = False, cp_redraw_rounds = 0, cp_tiers = [\<lparr>tr_count = 2, tr_amount = 5\<rparr>],
     cp_entry_price = 0, cp_wallet_cap = 0, cp_close_slot = 0, cp_claim_window_slots = 150,
     cp_prize_mint = replicate 32 0, cp_entry_mint = replicate 32 0, cp_fee_dest = replicate 32 0\<rparr>"

definition fd_store :: store where
  "fd_store = (\<lambda>k. if k = FD_ORG then \<lparr>lamports = 10000, owner = SYSTEM_ID, data = []\<rparr>
     else if k = FD_SLOT_HASHES_ID then \<lparr>lamports = 1, owner = SYSVAR_ID, data = u64_le 1 @ u64_le 1032 @ replicate 32 9\<rparr>
     else \<lparr>lamports = 0, owner = SYSTEM_ID, data = []\<rparr>)"

definition fd_draw0 :: fair_draw where
  "fd_draw0 = new_draw fd_rt FD_ORG 7 255 0 fd_params 10 2 (replicate 4 default_round)"

lemma fd_keys: "FD_DRAW \<noteq> FD_ORG" "FD_DRAW \<noteq> FD_SLOT_HASHES_ID" "FD_ORG \<noteq> FD_SLOT_HASHES_ID" "length FD_DRAW = 32"
  "FD_PROGRAM_ID \<noteq> SYSTEM_ID" "FD_PROGRAM_ID \<noteq> FD_TOKEN_PROGRAM_ID" "FD_PROGRAM_ID \<noteq> SYSVAR_ID"
  by code_simp+

lemma fd_rt_env: "fd_env fd_hash fd_rent fd_rt FD_PROGRAM_ID"
proof -
  have "solana_lamports fd_rt FD_PROGRAM_ID"
    by (rule ref_invoke_lamports) (simp_all add: fd_rt_def ref_runtime_def fd_keys)
  then show ?thesis by (simp add: fd_env_def fd_rt_def ref_runtime_def fd_rent_def fun_eq_iff)
qed

lemma fd_rt_simps: "clock_slot fd_rt = 1000" "minimum_balance fd_rt n = of_nat (n + 100)" "hashv fd_rt = fd_hash"
  "find_program_address fd_rt seeds pid = (ref_address seeds, 255)"
  "create_program_address fd_rt seeds pid = Some (ref_address (butlast seeds))" "invoke_signed fd_rt = ref_invoke"
  by (simp_all add: fd_rt_def ref_runtime_def)

lemma fd_unpacks:
  "fd_ix_unpack (fd_ix_pack (FdCreateDraw 7 fd_params)) = Some (FdCreateDraw 7 fd_params)"
  "fd_ix_unpack [1] = Some FdFundPrizes"
  "fd_ix_unpack (fd_ix_pack (FdCommitList (replicate 32 0) 2 2 1)) = Some (FdCommitList (replicate 32 0) 2 2 1)"
  "fd_ix_unpack [4] = Some FdDraw"
  "fd_ix_unpack [5, 0, 0] = Some (FdResolve 0 [])"
  by code_simp+

lemma fd_params_ok: "validate_create fd_params 1000 = Some (10, 2)"
  by (simp add: validate_create_def fd_params_def checked_add_def checked_mul_def)

section \<open>Runs\<close>

text \<open>The draw account of the scenario holds header \<open>d\<close>, and lamports \<open>x\<close>.\<close>

definition holds :: "store \<Rightarrow> fair_draw \<Rightarrow> nat \<Rightarrow> bool" where
  "holds s d x \<longleftrightarrow> owner (s FD_DRAW) = FD_PROGRAM_ID \<and> fd_of (data (s FD_DRAW)) = d \<and> length (data (s FD_DRAW)) = 944 \<and>
     slice (data (s FD_DRAW)) 0 8 = DRAW_DISC \<and> unat (lamports (s FD_DRAW)) = x \<and>
     fd_terms fd_draw0 d \<and> fd_wf d"

definition fd_acc :: "key \<Rightarrow> bool \<Rightarrow> account_info" where
  "fd_acc k sg = \<lparr>key = k, is_signer = sg, is_writable = True\<rparr>"

lemma fd_acc_simps [simp]: "key (fd_acc k sg) = k" "is_signer (fd_acc k sg) = sg"
  by (simp_all add: fd_acc_def)

lemma draw0_wf: "fd_wf fd_draw0"
  by (simp add: fd_wf_def fd_draw0_def new_draw_def fd_params_def FD_ORG_def default_round_def default_tier_def)

lemma draw0_shape: "fd_mode fd_draw0 = 1" "unat (fd_capacity fd_draw0) = 2" "fd_organizer fd_draw0 = FD_ORG" "fd_draw_id fd_draw0 = 7"
  "fd_bump fd_draw0 = 255" "fd_len fd_draw0 = 944" "fd_prize_mint fd_draw0 = replicate 32 0"
  by (simp_all add: fd_draw0_def new_draw_def fd_params_def fd_len_def draw_len_def)

lemma holds_load:
  assumes "holds s d x" and "key ai = FD_DRAW"
  shows "load_draw fd_rt FD_PROGRAM_ID ai s = Inr d" and "full d (data (s FD_DRAW))"
proof -
  have t: "fd_mode d = 1" "unat (fd_capacity d) = 2" "fd_organizer d = FD_ORG" "fd_draw_id d = 7" "fd_bump d = 255"
    using assms(1) draw0_shape by (simp_all add: holds_def fd_terms_def)
  then show f: "full d (data (s FD_DRAW))" using assms(1) by (simp add: holds_def full_def fd_len_def draw_len_def)
  have "draw_seeds d = [DRAW_SEED, FD_ORG, u64_le 7, [255]]" using t by (simp add: draw_seeds_def)
  then have "create_program_address fd_rt (draw_seeds d) FD_PROGRAM_ID = Some FD_DRAW" by (simp add: fd_rt_simps FD_DRAW_def)
  then show "load_draw fd_rt FD_PROGRAM_ID ai s = Inr d"
    unfolding load_draw_Inr fd_live_def using assms f t by (auto simp: holds_def fd_unpack_Some)
qed

lemma store_holds:
  assumes "fd_pack e b = Inr b'" and "fd_wf e" and "fd_terms fd_draw0 e" and "length b = 944" and "owner (s FD_DRAW) = FD_PROGRAM_ID"
  shows "holds (set_data s FD_DRAW b') e (unat (lamports (s FD_DRAW)))"
  using pack_tables [OF assms(2,1)] assms(3-5) by (simp add: holds_def assms(2))

lemma runs: "fd_ix_unpack b = Some i \<Longrightarrow> fd_run rt pid accounts i s = Inr s' \<Longrightarrow> fd_process rt pid accounts b s = Inr s'"
  by (simp add: fd_process_def)

lemma create_runs:
  "\<exists>s. fd_process fd_rt FD_PROGRAM_ID [fd_acc FD_ORG True, fd_acc FD_DRAW False, fd_acc SYSTEM_ID False]
      (fd_ix_pack (FdCreateDraw 7 fd_params)) fd_store = Inr s \<and> holds s fd_draw0 1044 \<and>
    s FD_SLOT_HASHES_ID = fd_store FD_SLOT_HASHES_ID \<and> s FD_ORG = \<lparr>lamports = 8956, owner = SYSTEM_ID, data = []\<rparr>"
proof -
  let ?s1 = "set_owner (set_data (set_lamports (set_lamports fd_store FD_ORG 8956) FD_DRAW 1044) FD_DRAW (replicate 944 0)) FD_DRAW FD_PROGRAM_ID"
  have c: "fd_create_pda fd_rt (fd_acc FD_ORG True) (fd_acc FD_DRAW False) (fd_acc SYSTEM_ID False) FD_PROGRAM_ID 944
      [DRAW_SEED, FD_ORG, u64_le 7, [255]] e fd_store = Inr ?s1" for e
    using fd_keys
    by (simp add: fd_create_pda_def Let_def fd_rt_simps ref_invoke_def signed_by_def move_lamports_def fd_store_def set_apply checked_add_def)
  obtain b where b: "fd_pack fd_draw0 (replicate 944 0) = Inr b"
    using fd_pack_total [OF draw0_wf, of "replicate 944 0"] by auto
  have h: "holds (set_data ?s1 FD_DRAW b) fd_draw0 1044"
    using store_holds [OF b draw0_wf fd_terms_refl, of ?s1] by (simp add: set_apply)
  have l: "min (draw_len (cp_mode fd_params) 2) MAX_ALLOC_STEP = 944" by (simp add: draw_len_def fd_params_def)
  have a: "draw_address fd_rt FD_PROGRAM_ID FD_ORG 7 = (FD_DRAW, 255)" by (simp add: draw_address_def fd_rt_simps FD_DRAW_def)
  have v: "create_vault fd_rt FD_PROGRAM_ID o' ai sy fd_params it s = Inr (0, s)" for o' ai sy it s
    by (simp add: create_vault_def fd_params_def)
  have so: "assert_solvent fd_rt (fd_acc FD_DRAW False) fd_draw0 None (set_data ?s1 FD_DRAW b) = Inr ()"
    by (rule solvent_intro)
      (use pack_tables(2) [OF draw0_wf b] in \<open>simp_all add: is_sol_prize_def draw0_shape fd_rt_simps set_apply reserve_def,
       simp_all add: fd_draw0_def new_draw_def\<close>)
  have "fd_create_draw fd_rt FD_PROGRAM_ID [fd_acc FD_ORG True, fd_acc FD_DRAW False, fd_acc SYSTEM_ID False] 7 fd_params fd_store =
      Inr (set_data ?s1 FD_DRAW b)"
    using so b
    by (simp add: fd_create_draw_def next_account_info_def require_signer_def require_system_def Let_def fd_rt_simps(1) fd_params_ok a l c v
        store_draw_def set_apply fd_draw0_def [symmetric] del: MAX_ALLOC_STEP_def) (simp add: fd_params_def)
  then have "fd_run fd_rt FD_PROGRAM_ID [fd_acc FD_ORG True, fd_acc FD_DRAW False, fd_acc SYSTEM_ID False] (FdCreateDraw 7 fd_params) fd_store =
      Inr (set_data ?s1 FD_DRAW b)" by simp
  from runs [OF fd_unpacks(1) this] h fd_keys show ?thesis
    by (intro exI [of _ "set_data ?s1 FD_DRAW b"] conjI) (simp_all add: set_data_def set_owner_def set_lamports_def fd_store_def)
qed

definition fd_draw1 :: fair_draw where
  "fd_draw1 = fd_draw0\<lparr>fd_funded := 10, fd_status := STATUS_FUNDED\<rparr>"

definition fd_draw2 :: fair_draw where
  "fd_draw2 = fd_draw1\<lparr>fd_root := replicate 32 0, fd_total_weight := 2, fd_leaf_count := 2, fd_depth := 1, fd_commit_slot := 1000,
     fd_rounds := (fd_rounds fd_draw1)[0 := (fd_rounds fd_draw1 ! 0)\<lparr>ri_first_target := 1032\<rparr>], fd_status := STATUS_AWAIT_DRAW\<rparr>"

lemma draw_wfs: "fd_wf fd_draw1" "fd_wf fd_draw2" "fd_terms fd_draw0 fd_draw1" "fd_terms fd_draw0 fd_draw2"
  using draw0_wf
  by (simp_all add: fd_draw1_def fd_draw2_def fd_wf_def fd_terms_def default_round_def fd_draw0_def new_draw_def numeral_nat)

lemma draw0_values: "fd_total_prize fd_draw0 = 10" "fd_slot_count fd_draw0 = 2" "fd_status fd_draw0 = STATUS_CREATED"
  "fd_won_count fd_draw0 = 0" "fd_won_weight fd_draw0 = 0" "fd_next_slot fd_draw0 = 0" "fd_round fd_draw0 = 0" "fd_weighted fd_draw0 = False"
  "fd_paid fd_draw0 = 0" "fd_returned fd_draw0 = 0" "fd_rounds fd_draw0 = replicate 4 default_round" "fd_claim_window_slots fd_draw0 = 150"
  "fd_round_first_slot fd_draw0 = 0" "fd_window_end fd_draw0 = 0" "fd_refundable fd_draw0 = 0" "fd_redraw_rounds fd_draw0 = 0"
  by (simp_all add: fd_draw0_def new_draw_def fd_params_def)

lemma draw0_tiers: "slot_tiers fd_draw1 = [0, 0]" "length (fd_tiers fd_draw1) = 8" "unat (fd_tier_count fd_draw1) = 1"
  "fd_tiers fd_draw0 ! 0 = \<lparr>tr_count = 2, tr_amount = 5\<rparr>"
proof -
  have "replicate 2 (0 :: nat) = [0, 0]" by (simp add: numeral_2_eq_2)
  then show "slot_tiers fd_draw1 = [0, 0]" by (simp add: slot_tiers_def fd_draw1_def fd_draw0_def new_draw_def fd_params_def)
qed (simp_all add: fd_draw1_def fd_draw0_def new_draw_def fd_params_def)

lemma fund_runs:
  assumes h: "holds s fd_draw0 1044" and og: "s FD_ORG = \<lparr>lamports = 8956, owner = SYSTEM_ID, data = []\<rparr>"
  shows "\<exists>s'. fd_process fd_rt FD_PROGRAM_ID [fd_acc FD_ORG True, fd_acc FD_DRAW False, fd_acc SYSTEM_ID False] [1] s = Inr s' \<and>
    holds s' fd_draw1 1054 \<and> slots fd_draw1 (data (s' FD_DRAW)) = [pending_slot 0 0, pending_slot 0 0] \<and>
    s' FD_SLOT_HASHES_ID = s FD_SLOT_HASHES_ID \<and> s' FD_ORG = \<lparr>lamports = 8946, owner = SYSTEM_ID, data = []\<rparr>"
proof -
  let ?ai = "fd_acc FD_DRAW False" and ?b = "data (s FD_DRAW)"
  note ld = holds_load [OF h, of ?ai, simplified]
  let ?s1 = "set_lamports (set_lamports s FD_ORG 8946) FD_DRAW 1054"
  have lam: "lamports (s FD_DRAW) = 1044" using h by (simp add: holds_def word_unat_eq_iff)
  have tr: "invoke fd_rt (SystemCpi (Transfer FD_ORG FD_DRAW 10)) [fd_acc FD_ORG True, ?ai, fd_acc SYSTEM_ID False] s = Inr ?s1"
    using og lam fd_keys
    by (simp add: invoke_def fd_rt_simps ref_invoke_def signed_by_def move_lamports_def Let_def set_apply checked_add_def)
  have len: "length ?b = 944" using h by (simp add: holds_def)
  obtain b1 where b1: "fd_pack fd_draw1 ?b = Inr b1" using fd_pack_total [OF draw_wfs(1), of ?b] len by auto
  have f1: "full fd_draw1 ?b" using len by (simp add: full_def fd_len_def draw_len_def fd_draw1_def draw0_shape)
  then have f1': "full fd_draw1 b1" using pack_tables(2) [OF draw_wfs(1) b1] by (simp add: full_def)
  let ?xs = "map (\<lambda>(j, ti). (j, pending_slot (of_nat ti) 0)) (enumerate 0 (slot_tiers fd_draw1))"
  have cap: "unat (fd_capacity fd_draw1) = 2" by (simp add: fd_draw1_def draw0_shape)
  have "\<forall>(j, sl) \<in> set ?xs. j < unat (fd_capacity fd_draw1) \<and> length (sl_wallet sl) = 32"
    by (simp add: draw0_tiers cap pending_slot_def default_slot_def)
  from write_slots_total [OF f1' this] obtain b2 where b2: "write_slots fd_draw1 ?xs b1 = Inr b2" by blast
  have n: "unat (fd_slot_count fd_draw1) = length (slot_tiers fd_draw1)" "length (slot_tiers fd_draw1) \<le> unat (fd_capacity fd_draw1)"
    by (simp_all add: draw0_tiers cap) (simp add: fd_draw1_def draw0_values)
  note fs = fund_slots [OF draw_wfs(1) b1 f1 b2 n]
  have l2: "length b2 = 944" using fs(3) by (simp add: full_def fd_len_def draw_len_def fd_draw1_def draw0_shape)
  let ?s' = "set_data ?s1 FD_DRAW b2"
  have so: "assert_solvent fd_rt ?ai fd_draw1 None ?s' = Inr ()"
    by (rule solvent_intro)
      (use l2 in \<open>simp_all add: is_sol_prize_def fd_draw1_def draw0_shape draw0_values fd_rt_simps set_apply reserve_def\<close>)
  have d1: "fd_draw0\<lparr>fd_funded := 10, fd_status := STATUS_FUNDED\<rparr> = fd_draw1" by (simp add: fd_draw1_def)
  have "\<not> length (fd_tiers fd_draw1) < unat (fd_tier_count fd_draw1)" by (simp add: draw0_tiers)
  moreover have "is_sol_prize fd_draw0" by (simp add: is_sol_prize_def draw0_shape)
  ultimately have "fd_fund_prizes fd_rt FD_PROGRAM_ID [fd_acc FD_ORG True, ?ai, fd_acc SYSTEM_ID False] s = Inr ?s'"
    unfolding fd_fund_prizes_def Let_def
    using ld(1) len draw0_shape(6) draw0_values(1,3) tr b1 b2 so d1
    by (simp add: next_account_info_def require_signer_def require_system_def set_apply)
  then have r: "fd_run fd_rt FD_PROGRAM_ID [fd_acc FD_ORG True, ?ai, fd_acc SYSTEM_ID False] FdFundPrizes s = Inr ?s'" by simp
  have "owner (s FD_DRAW) = FD_PROGRAM_ID" using h by (simp add: holds_def)
  then have "holds ?s' fd_draw1 1054"
    using fs l2 draw_wfs by (simp add: holds_def set_apply)
  with runs [OF fd_unpacks(2) r] fs(1) fd_keys og show ?thesis
    by (intro exI [of _ ?s'] conjI) (simp_all add: draw0_tiers set_lamports_def)
qed

lemma commit_runs:
  assumes h: "holds s fd_draw1 1054"
  shows "\<exists>s'. fd_process fd_rt FD_PROGRAM_ID [fd_acc FD_ORG True, fd_acc FD_DRAW False]
      (fd_ix_pack (FdCommitList (replicate 32 0) 2 2 1)) s = Inr s' \<and>
    holds s' fd_draw2 1054 \<and> slots fd_draw2 (data (s' FD_DRAW)) = slots fd_draw1 (data (s FD_DRAW)) \<and>
    (\<forall>k. k \<noteq> FD_DRAW \<longrightarrow> s' k = s k)"
proof -
  let ?ai = "fd_acc FD_DRAW False" and ?b = "data (s FD_DRAW)"
  note ld = holds_load [OF h, of ?ai, simplified]
  have len: "length ?b = 944" "owner (s FD_DRAW) = FD_PROGRAM_ID" "unat (lamports (s FD_DRAW)) = 1054"
    using h by (simp_all add: holds_def)
  obtain b where b: "fd_pack fd_draw2 ?b = Inr b" using fd_pack_total [OF draw_wfs(2), of ?b] len by auto
  note p = pack_tables [OF draw_wfs(2) b]
  have f: "first_target 1000 = Some 1032" by (simp add: first_target_def checked_add_def)
  have d: "fd_organizer fd_draw1 = FD_ORG" "fd_mode fd_draw1 = MODE_LIST" "fd_status fd_draw1 = STATUS_FUNDED" "fd_weighted fd_draw1 = False"
    "fd_rounds fd_draw1 \<noteq> []"
    by (simp_all add: fd_draw1_def draw0_shape draw0_values)
  have "fd_commit_list fd_rt FD_PROGRAM_ID [fd_acc FD_ORG True, ?ai] (replicate 32 0) 2 2 1 s = Inr (set_data s FD_DRAW b)"
    using ld(1) d f b
    by (simp add: fd_commit_list_def next_account_info_def require_signer_def Let_def fd_rt_simps store_draw_def fd_draw2_def
        push_bit_eq_mult)
  then have r: "fd_run fd_rt FD_PROGRAM_ID [fd_acc FD_ORG True, ?ai] (FdCommitList (replicate 32 0) 2 2 1) s = Inr (set_data s FD_DRAW b)"
    by simp
  have "slots fd_draw2 b = slots fd_draw1 ?b"
    using p(3) [where n = 2] same_shapeD [OF fd_terms_shape, of fd_draw1 fd_draw2]
    by (simp add: slots_def fd_draw2_def fd_draw1_def draw0_values fd_terms_def)
  with runs [OF fd_unpacks(3) r] store_holds [where s = s, OF b draw_wfs(2,4) len(1,2)] len(3) show ?thesis
    by (intro exI [of _ "set_data s FD_DRAW b"]) simp
qed

lemma hash_selects: "\<exists>sel. select (u64_le 1 @ u64_le 1032 @ replicate 32 9) 1032 = Inr sel"
proof -
  let ?d = "u64_le 1 @ u64_le 1032 @ replicate 32 9"
  have l: "unat (get_u64 ?d 0) = 1" "48 \<le> length ?d" "entry_slot ?d 0 = 1032" by code_simp+
  have ok: "fd_hashes_ok ?d 1" using l by (simp add: fd_hashes_ok_def)
  have a: "fallback_attempt (entry_slot ?d (1 - 1)) 1032 = 0" using l by (simp add: fallback_attempt_def div_ceil_def)
  show ?thesis unfolding select_spec [OF ok] Let_def a using l by simp
qed

lemma draw_runs:
  assumes h: "holds s fd_draw2 1054" and hs: "s FD_SLOT_HASHES_ID = fd_store FD_SLOT_HASHES_ID"
  shows "\<exists>s' rs. fd_process fd_rt FD_PROGRAM_ID [fd_acc FD_DRAW False, fd_acc FD_SLOT_HASHES_ID False] [4] s = Inr s' \<and>
    holds s' (fd_draw2\<lparr>fd_rounds := rs, fd_status := STATUS_RESOLVING\<rparr>) 1054 \<and>
    slots fd_draw2 (data (s' FD_DRAW)) = slots fd_draw2 (data (s FD_DRAW)) \<and>
    (\<forall>k. k \<noteq> FD_DRAW \<longrightarrow> s' k = s k)"
proof -
  let ?ai = "fd_acc FD_DRAW False" and ?hs = "fd_acc FD_SLOT_HASHES_ID False" and ?b = "data (s FD_DRAW)"
  note ld = holds_load [OF h, of ?ai, simplified]
  have len: "length ?b = 944" "owner (s FD_DRAW) = FD_PROGRAM_ID" "unat (lamports (s FD_DRAW)) = 1054"
    using h by (simp_all add: holds_def)
  obtain sel where sel: "select (u64_le 1 @ u64_le 1032 @ replicate 32 9) 1032 = Inr sel" using hash_selects by blast
  have hd: "data (s FD_SLOT_HASHES_ID) = u64_le 1 @ u64_le 1032 @ replicate 32 9" "owner (s FD_SLOT_HASHES_ID) = SYSVAR_ID"
    using fd_keys by (simp_all add: hs fd_store_def)
  have d: "fd_status fd_draw2 = STATUS_AWAIT_DRAW" "fd_round fd_draw2 = 0" "length (fd_rounds fd_draw2) = 4"
    "ri_first_target (fd_rounds fd_draw2 ! 0) = 1032"
    by (simp_all add: fd_draw2_def fd_draw1_def draw0_values)
  let ?rs = "(fd_rounds fd_draw2)[0 := \<lparr>ri_first_target = 1032, ri_target_slot = se_target_slot sel,
      ri_used_slot = se_used_slot sel, ri_attempt = se_attempt sel, ri_slot_hash = se_hash sel,
      ri_seed = round_seed fd_rt FD_DRAW 0 (se_target_slot sel) (se_used_slot sel) (se_hash sel)
             (fd_root fd_draw2) (fd_total_weight fd_draw2) (fd_leaf_count fd_draw2)\<rparr>]"
  let ?e = "fd_draw2\<lparr>fd_rounds := ?rs, fd_status := STATUS_RESOLVING\<rparr>"
  have wf: "fd_wf ?e"
    using draw_wfs(2) select_hash_length [OF sel]
    by (auto simp: fd_wf_def round_seed_def fd_rt_simps dest!: set_update_subset_insert [THEN subsetD])
  obtain b where b: "fd_pack ?e ?b = Inr b" using fd_pack_total [OF wf, of ?b] len by auto
  note p = pack_tables [OF wf b]
  have "fix_seed fd_rt ?ai ?hs fd_draw2 s = Inr (set_data s FD_DRAW b)"
    using sel b d by (simp add: fix_seed_def Let_def hd store_draw_def)
  then have "fd_draw_ix fd_rt FD_PROGRAM_ID [?ai, ?hs] s = Inr (set_data s FD_DRAW b)"
    using ld(1) d hd(2) by (simp add: fd_draw_ix_def next_account_info_def)
  then have r: "fd_run fd_rt FD_PROGRAM_ID [?ai, ?hs] FdDraw s = Inr (set_data s FD_DRAW b)" by simp
  have t: "fd_terms fd_draw0 ?e" using draw_wfs(4) by (simp add: fd_terms_def)
  have "slots fd_draw2 b = slots fd_draw2 ?b"
    using p(3) [where n = 2] same_shapeD [OF fd_terms_shape, of fd_draw2 ?e]
    by (simp add: slots_def fd_draw2_def fd_draw1_def draw0_values fd_terms_def)
  with runs [OF fd_unpacks(4) r] store_holds [where s = s, OF b wf t len(1,2)] len(3) show ?thesis
    by (intro exI [of _ "set_data s FD_DRAW b"] exI [of _ ?rs]) simp
qed

section \<open>The history\<close>

lemma fd_step:
  assumes "fd_history fd_hash fd_rent FD_PROGRAM_ID s {}" and "fd_process fd_rt FD_PROGRAM_ID accounts b s = Inr s'"
    and "fd_ix_unpack b = Some i" and "proofs_of (Some i) = []"
  shows "fd_history fd_hash fd_rent FD_PROGRAM_ID s' {}"
proof -
  have "hashed fd_hash accounts b s = {}" using assms(3,4) by (simp add: hashed_def)
  then show ?thesis using fd_history.instruction [OF assms(1) fd_rt_env assms(2)] by simp
qed

lemma no_nodes: "node_inj (hash_rt fd_hash) {}"
  by (simp add: node_inj_def)

definition fd_draw3 :: "round_info list \<Rightarrow> fair_draw" where
  "fd_draw3 rs = fd_draw2\<lparr>fd_rounds := rs, fd_status := STATUS_RESOLVING\<rparr>"

text \<open>Created, funded, committed and drawn.\<close>

lemma resolving_reached:
  "\<exists>s rs. fd_history fd_hash fd_rent FD_PROGRAM_ID s {} \<and> holds s (fd_draw3 rs) 1054 \<and>
    slots (fd_draw3 rs) (data (s FD_DRAW)) = [pending_slot 0 0, pending_slot 0 0] \<and>
    s FD_ORG = \<lparr>lamports = 8946, owner = SYSTEM_ID, data = []\<rparr>"
proof -
  have h0: "fd_history fd_hash fd_rent FD_PROGRAM_ID fd_store {}"
    by (rule fd_history.genesis) (use fd_keys in \<open>simp add: fd_store_def\<close>)
  from create_runs obtain s1 where s1: "fd_process fd_rt FD_PROGRAM_ID [fd_acc FD_ORG True, fd_acc FD_DRAW False, fd_acc SYSTEM_ID False]
      (fd_ix_pack (FdCreateDraw 7 fd_params)) fd_store = Inr s1" "holds s1 fd_draw0 1044"
    "s1 FD_SLOT_HASHES_ID = fd_store FD_SLOT_HASHES_ID" "s1 FD_ORG = \<lparr>lamports = 8956, owner = SYSTEM_ID, data = []\<rparr>" by blast
  have h1: "fd_history fd_hash fd_rent FD_PROGRAM_ID s1 {}" by (rule fd_step [OF h0 s1(1) fd_unpacks(1)]) (simp add: proofs_of_def)
  from fund_runs [OF s1(2,4)] obtain s2 where s2: "fd_process fd_rt FD_PROGRAM_ID [fd_acc FD_ORG True, fd_acc FD_DRAW False, fd_acc SYSTEM_ID False] [1] s1 = Inr s2"
    "holds s2 fd_draw1 1054" "slots fd_draw1 (data (s2 FD_DRAW)) = [pending_slot 0 0, pending_slot 0 0]"
    "s2 FD_SLOT_HASHES_ID = s1 FD_SLOT_HASHES_ID" "s2 FD_ORG = \<lparr>lamports = 8946, owner = SYSTEM_ID, data = []\<rparr>" by blast
  have h2: "fd_history fd_hash fd_rent FD_PROGRAM_ID s2 {}" by (rule fd_step [OF h1 s2(1) fd_unpacks(2)]) (simp add: proofs_of_def)
  from commit_runs [OF s2(2)] obtain s3 where s3: "fd_process fd_rt FD_PROGRAM_ID [fd_acc FD_ORG True, fd_acc FD_DRAW False]
      (fd_ix_pack (FdCommitList (replicate 32 0) 2 2 1)) s2 = Inr s3"
    "holds s3 fd_draw2 1054" "slots fd_draw2 (data (s3 FD_DRAW)) = slots fd_draw1 (data (s2 FD_DRAW))" "\<forall>k. k \<noteq> FD_DRAW \<longrightarrow> s3 k = s2 k" by blast
  have h3: "fd_history fd_hash fd_rent FD_PROGRAM_ID s3 {}" by (rule fd_step [OF h2 s3(1) fd_unpacks(3)]) (simp add: proofs_of_def)
  have hs: "s3 FD_SLOT_HASHES_ID = fd_store FD_SLOT_HASHES_ID" using s1(3) s2(4) s3(4) fd_keys by simp
  from draw_runs [OF s3(2) hs] obtain s4 rs where s4: "fd_process fd_rt FD_PROGRAM_ID [fd_acc FD_DRAW False, fd_acc FD_SLOT_HASHES_ID False] [4] s3 = Inr s4"
    "holds s4 (fd_draw2\<lparr>fd_rounds := rs, fd_status := STATUS_RESOLVING\<rparr>) 1054"
    "slots fd_draw2 (data (s4 FD_DRAW)) = slots fd_draw2 (data (s3 FD_DRAW))" "\<forall>k. k \<noteq> FD_DRAW \<longrightarrow> s4 k = s3 k" by blast
  have h4: "fd_history fd_hash fd_rent FD_PROGRAM_ID s4 {}" by (rule fd_step [OF h3 s4(1) fd_unpacks(4)]) (simp add: proofs_of_def)
  have "slots (fd_draw3 rs) (data (s4 FD_DRAW)) = slots fd_draw2 (data (s4 FD_DRAW))"
    using same_shapeD [OF fd_terms_shape, of fd_draw2 "fd_draw3 rs"] by (simp add: slots_def fd_draw3_def fd_terms_def)
  with h4 s2 s3 s4 fd_keys show ?thesis
    unfolding fd_draw3_def by (intro exI [of _ s4] exI [of _ rs]) simp
qed

lemma draw3_values: "fd_status (fd_draw3 rs) = STATUS_RESOLVING" "fd_next_slot (fd_draw3 rs) = 0" "fd_slot_count (fd_draw3 rs) = 2"
  "fd_weighted (fd_draw3 rs) = False" "fd_won_weight (fd_draw3 rs) = 0" "fd_total_weight (fd_draw3 rs) = 2"
  "fd_claim_window_slots (fd_draw3 rs) = 150" "fd_root (fd_draw3 rs) = replicate 32 0" "fd_depth (fd_draw3 rs) = 1"
  "fd_leaf_count (fd_draw3 rs) = 2" "fd_terms fd_draw0 (fd_draw3 rs)"
  using draw_wfs(4) by (simp_all add: fd_draw3_def fd_draw2_def fd_draw1_def draw0_values fd_terms_def)

text \<open>Resolved: both slots are won, by the points \<open>p\<close> and \<open>q\<close>.\<close>

lemma resolve_runs:
  "\<exists>s0 rs s e p q. fd_history fd_hash fd_rent FD_PROGRAM_ID s0 {} \<and> holds s0 (fd_draw3 rs) 1054 \<and>
    fd_process fd_rt FD_PROGRAM_ID [fd_acc FD_DRAW False] [5, 0, 0] s0 = Inr s \<and> holds s e 1054 \<and>
    fd_status e = STATUS_RESOLVING \<and> same_entries (fd_draw3 []) e \<and>
    fd_slot_count e = 2 \<and> fd_next_slot e = 2 \<and> fd_window_end e = 1150 \<and>
    slots e (data (s FD_DRAW)) = [drawn_slot (pending_slot 0 0) p, drawn_slot (pending_slot 0 0) q] \<and>
    s FD_ORG = \<lparr>lamports = 8946, owner = SYSTEM_ID, data = []\<rparr>"
proof -
  let ?ai = "fd_acc FD_DRAW False"
  from resolving_reached obtain s rs where s: "fd_history fd_hash fd_rent FD_PROGRAM_ID s {}" "holds s (fd_draw3 rs) 1054"
    "slots (fd_draw3 rs) (data (s FD_DRAW)) = [pending_slot 0 0, pending_slot 0 0]" "s FD_ORG = \<lparr>lamports = 8946, owner = SYSTEM_ID, data = []\<rparr>"
    by blast
  note inv = fd_history_inv [OF s(1) no_nodes fd_keys(6,5)]
  note ld = holds_load [OF s(2), of ?ai, simplified]
  note v = draw3_values [of rs]
  have h32: "\<forall>xs. length (hashv fd_rt xs) = 32" by (simp add: fd_rt_simps)
  have lt: "fd_next_slot (fd_draw3 rs) < fd_slot_count (fd_draw3 rs)" "\<not> fd_weighted (fd_draw3 rs)"
    "unat (clock_slot fd_rt) + unat (fd_claim_window_slots (fd_draw3 rs)) < 2 ^ 64" by (simp_all add: v fd_rt_simps)
  from resolve_goes_through [OF inv ld(1) refl fd_rt_simps(3) h32 no_nodes v(1) lt, of "[]"] obtain b e where
    run: "fd_resolve fd_rt FD_PROGRAM_ID [?ai] 0 [] s = Inr (set_data s FD_DRAW b)" and e: "fd_of b = e" "fd_wf e" "length b = 944" "slice b 0 8 = DRAW_DISC"
    "fd_terms (fd_draw3 rs) e" "same_entries (fd_draw3 rs) e" "fd_status e = STATUS_RESOLVING" "fd_slot_count e = 2"
    and nx: "unat (fd_next_slot e) = 2"
    and we: "fd_next_slot e = fd_slot_count (fd_draw3 rs) \<longrightarrow> fd_window_end e = clock_slot fd_rt + fd_claim_window_slots (fd_draw3 rs)"
    and won: "\<forall>i < 2. \<exists>p. slots (fd_draw3 rs) b ! i = drawn_slot (slots (fd_draw3 rs) (data (s FD_DRAW)) ! i) p"
    using s(2) by (simp add: v holds_def) blast
  have n2: "fd_next_slot e = 2" using nx by (simp add: word_unat_eq_iff)
  have w: "fd_window_end e = 1150" using we n2 by (simp add: v fd_rt_simps)
  from won [rule_format, of 0] obtain p where p: "slots (fd_draw3 rs) b ! 0 = drawn_slot (pending_slot 0 0) p" by (auto simp: s(3))
  from won [rule_format, of 1] obtain q where q: "slots (fd_draw3 rs) b ! 1 = drawn_slot (pending_slot 0 0) q" by (auto simp: s(3))
  note pq = p q
  have "length (slots (fd_draw3 rs) b) = 2" by (simp add: v)
  then have "slots (fd_draw3 rs) b = [drawn_slot (pending_slot 0 0) p, drawn_slot (pending_slot 0 0) q]"
    using pq by (simp add: list_eq_iff_nth_eq less_2_cases_iff)
  moreover have "slots e b = slots (fd_draw3 rs) b"
    using same_shapeD [OF fd_terms_shape [OF e(5)]] e(8) by (simp add: slots_def v)
  ultimately have sl: "slots e b = [drawn_slot (pending_slot 0 0) p, drawn_slot (pending_slot 0 0) q]" by simp
  let ?s = "set_data s FD_DRAW b"
  have "holds ?s e 1054"
    using s(2) e fd_terms_trans [OF v(11) e(5)] by (simp add: holds_def set_apply)
  moreover have "same_entries (fd_draw3 []) e" using e(6) by (simp add: same_entries_def v draw3_values)
  moreover have "fd_process fd_rt FD_PROGRAM_ID [?ai] [5, 0, 0] s = Inr ?s" by (rule runs [OF fd_unpacks(5)]) (simp add: run)
  ultimately show ?thesis
    using sl s(1,2,4) e(7,8) n2 w fd_keys
    by (intro exI [of _ s] exI [of _ rs] exI [of _ ?s] exI [of _ e] exI [of _ p] exI [of _ q]) simp
qed

lemma drawn_reached:
  "\<exists>s e p q. fd_history fd_hash fd_rent FD_PROGRAM_ID s {} \<and> holds s e 1054 \<and> fd_status e = STATUS_RESOLVING \<and> same_entries (fd_draw3 []) e \<and>
    fd_slot_count e = 2 \<and> fd_next_slot e = 2 \<and> fd_window_end e = 1150 \<and>
    slots e (data (s FD_DRAW)) = [drawn_slot (pending_slot 0 0) p, drawn_slot (pending_slot 0 0) q] \<and>
    s FD_ORG = \<lparr>lamports = 8946, owner = SYSTEM_ID, data = []\<rparr>"
proof -
  from resolve_runs obtain s0 rs s e p q where s: "fd_history fd_hash fd_rent FD_PROGRAM_ID s0 {}"
    "fd_process fd_rt FD_PROGRAM_ID [fd_acc FD_DRAW False] [5, 0, 0] s0 = Inr s" "holds s e 1054"
    "fd_status e = STATUS_RESOLVING" "same_entries (fd_draw3 []) e" "fd_slot_count e = 2" "fd_next_slot e = 2" "fd_window_end e = 1150"
    "slots e (data (s FD_DRAW)) = [drawn_slot (pending_slot 0 0) p, drawn_slot (pending_slot 0 0) q]"
    "s FD_ORG = \<lparr>lamports = 8946, owner = SYSTEM_ID, data = []\<rparr>" by (elim exE conjE) (rule that, assumption+)
  have "fd_history fd_hash fd_rent FD_PROGRAM_ID s {}" by (rule fd_step [OF s(1,2) fd_unpacks(5)]) (simp add: proofs_of_def)
  with s(3-) show ?thesis by blast
qed

end
