(* ===== verification/PropsFair.thy ===== *)
theory PropsFair
  imports FdScenario
begin

text \<open>
  The properties of \<open>null_fair_draw\<close> that hold in every state its instructions can reach, interleaved with
  other programs (\<open>fd_history\<close>), and their witnesses on the draw of \<open>FdScenario\<close>. The hash is only assumed
  not to collide on the node inputs that accepted proofs of \<open>Resolve\<close> hashed (\<open>node_inj\<close>).
\<close>

lemma live_inv:
  assumes "fd_history H rent pid s S" and "node_inj (hash_rt H) S" and "pid \<noteq> FD_TOKEN_PROGRAM_ID" and "pid \<noteq> SYSTEM_ID"
    and "fd_live pid (s k)"
  shows "dinv H S k (draw_at (s k)) (slots (draw_at (s k)) (data (s k))) (won (draw_at (s k)) (data (s k)))"
    and "unat (rent (length (data (s k)))) + reserve (draw_at (s k)) \<le> unat (lamports (s k))"
  using fd_history_inv [OF assms(1-4)] assms(5) by (simp_all add: fd_inv_def fd_account_ok_def draw_inv_def)

lemma authentic_leaf:
  assumes "authentic H S k d x" and "authentic H S k d y" and "node_inj (hash_rt H) S" and "sl_leaf_index x = sl_leaf_index y"
  shows "interval x = interval y"
proof (cases "fd_weighted d")
  case True
  with assms(1,2) obtain p q u v where
    "tree_verify (hash_rt H) (fd_root d) (fd_total_weight d) (unat (fd_depth d)) (fd_leaf_count d) (sl_leaf_index x)
      (entry_leaf (hash_rt H) k u (sl_weight x)) (sl_weight x) p = Some (sl_start x)"
    "tree_verify (hash_rt H) (fd_root d) (fd_total_weight d) (unat (fd_depth d)) (fd_leaf_count d) (sl_leaf_index y)
      (entry_leaf (hash_rt H) k v (sl_weight y)) (sl_weight y) q = Some (sl_start y)"
    "verify_pairs (hash_rt H) (unat (fd_depth d)) (sl_leaf_index x) (entry_leaf (hash_rt H) k u (sl_weight x)) (sl_weight x) p \<subseteq> S"
    "verify_pairs (hash_rt H) (unat (fd_depth d)) (sl_leaf_index y) (entry_leaf (hash_rt H) k v (sl_weight y)) (sl_weight y) q \<subseteq> S"
    unfolding authentic_def by (auto split: if_splits)
  from tree_verify_two [OF assms(3) this] assms(4) show ?thesis by (auto simp: interval_def)
next
  case False
  with assms show ?thesis by (simp add: authentic_def interval_def)
qed

section \<open>Winners\<close>

text \<open>
  C30. No entry wins twice. In every reachable state, any two winning prize slots of a draw, of whatever
  round, belong to entries with different leaf indexes whose point intervals inside the total weight do not
  overlap; so an entry that has won, claimed or not, is out of the later drawings and re-draws.
\<close>

theorem no_entry_wins_twice:
  assumes "fd_history H rent pid s S" and "node_inj (hash_rt H) S" and "pid \<noteq> FD_TOKEN_PROGRAM_ID" and "pid \<noteq> SYSTEM_ID"
    and "fd_live pid (s k)" and "d = draw_at (s k)" and "fd_status d \<noteq> STATUS_CREATED"
    and "i < j" and "j < unat (fd_slot_count d)"
    and "x = slots d (data (s k)) ! i" and "is_winner x" and "y = slots d (data (s k)) ! j" and "is_winner y"
  shows "sl_leaf_index x \<noteq> sl_leaf_index y \<and>
    (unat (sl_start x) + unat (sl_weight x) \<le> unat (sl_start y) \<or> unat (sl_start y) + unat (sl_weight y) \<le> unat (sl_start x)) \<and>
    unat (sl_start x) + unat (sl_weight x) \<le> unat (fd_total_weight d) \<and> unat (sl_start y) + unat (sl_weight y) \<le> unat (fd_total_weight d)"
proof -
  let ?t = "slots d (data (s k))"
  have w: "wins_ok H S k d ?t (won d (data (s k)))"
    using live_inv(1) [OF assms(1-5)] assms(6,7) by (simp add: dinv_def)
  have js: "j < length ?t" "i < length ?t" using assms(8,9) by simp_all
  then have a: "authentic H S k d x" "authentic H S k d y" "sl_weight x \<noteq> 0" "sl_weight y \<noteq> 0"
    using w assms(10-13) by (simp_all add: wins_ok_def)
  note ap = winners_apart [OF w assms(8) js(1), folded assms(10,12), OF assms(11,13)]
  have "sl_leaf_index x \<noteq> sl_leaf_index y"
  proof
    assume "sl_leaf_index x = sl_leaf_index y"
    then have "interval x = interval y" by (rule authentic_leaf [OF a(1,2) assms(2)])
    with ap a(3) show False by (auto simp: interval_def unat_eq_0)
  qed
  with ap authentic_range [OF a(1)] authentic_range [OF a(2)] show ?thesis by blast
qed

text \<open>A winner of the drawn scenario, and the facts its witnesses share.\<close>

lemma drawn_winner: "is_winner (drawn_slot sl p)"
  by (simp add: is_winner_def drawn_slot_def)

theorem no_entry_wins_twice_witness:
  "\<exists>s e x y. fd_history fd_hash fd_rent FD_PROGRAM_ID s {} \<and> e = draw_at (s FD_DRAW) \<and> slots e (data (s FD_DRAW)) = [x, y] \<and>
    is_winner x \<and> is_winner y \<and> sl_leaf_index x \<noteq> sl_leaf_index y"
proof -
  from drawn_reached obtain s e p q where s: "fd_history fd_hash fd_rent FD_PROGRAM_ID s {}" "holds s e 1054" "fd_status e = STATUS_RESOLVING"
    "fd_slot_count e = 2" "slots e (data (s FD_DRAW)) = [drawn_slot (pending_slot 0 0) p, drawn_slot (pending_slot 0 0) q]"
    by blast
  have e: "e = draw_at (s FD_DRAW)" using s(2) by (simp add: holds_def)
  have "fd_live FD_PROGRAM_ID (s FD_DRAW)"
    using holds_load(1) [OF s(2), of "fd_acc FD_DRAW False"] by (simp add: load_draw_Inr)
  from no_entry_wins_twice [OF s(1) no_nodes fd_keys(6,5) this e, of 0 1, OF _ _ _ refl _ refl] s e show ?thesis
    by (intro exI [of _ s] exI [of _ e]) (simp add: drawn_winner)
qed

section \<open>Prizes\<close>

text \<open>
  C31. Prizes are accounted for. In every reachable state of a funded draw, what was paid to winners, what went
  back to the organizer, what is refundable and the prizes still owed to undrawn or unclaimed slots add up to
  the sum funded, which is the total prize; and the account of a SOL draw holds its rent plus all that is owed
  or refundable. (The tokens of an SPL draw are in a vault account of the token program.)
\<close>

theorem prizes_accounted:
  assumes "fd_history H rent pid s S" and "node_inj (hash_rt H) S" and "pid \<noteq> FD_TOKEN_PROGRAM_ID" and "pid \<noteq> SYSTEM_ID"
    and "fd_live pid (s k)" and "d = draw_at (s k)" and "fd_status d \<noteq> STATUS_CREATED" and "sls = slots d (data (s k))"
  shows "unat (fd_paid d) + unat (fd_returned d) + unat (fd_refundable d) + owed d sls = unat (fd_funded d) \<and>
    fd_funded d = fd_total_prize d \<and>
    (is_sol_prize d \<longrightarrow> unat (rent (length (data (s k)))) + owed d sls + unat (fd_refundable d) \<le> unat (lamports (s k)))"
proof -
  have m: "money_ok d sls" using live_inv(1) [OF assms(1-5)] assms(6-8) by (simp add: dinv_def)
  then have e: "unat (fd_paid d) + unat (fd_returned d) + unat (fd_refundable d) + owed d sls = unat (fd_funded d)"
    unfolding money_ok_def by blast
  have "reserve d = owed d sls + unat (fd_refundable d)" if "is_sol_prize d" using that e by (simp add: reserve_def)
  with e m live_inv(2) [OF assms(1-5)] assms(6) show ?thesis by (auto simp: money_ok_def)
qed

theorem prizes_accounted_witness:
  "\<exists>s e x y. fd_history fd_hash fd_rent FD_PROGRAM_ID s {} \<and> e = draw_at (s FD_DRAW) \<and> slots e (data (s FD_DRAW)) = [x, y] \<and>
    owed e [x, y] = 10 \<and> unat (fd_funded e) = 10 \<and> 1044 + owed e [x, y] \<le> unat (lamports (s FD_DRAW))"
proof -
  from drawn_reached obtain s e p q where s: "fd_history fd_hash fd_rent FD_PROGRAM_ID s {}" "holds s e 1054" "fd_status e = STATUS_RESOLVING"
    "fd_slot_count e = 2" "slots e (data (s FD_DRAW)) = [drawn_slot (pending_slot 0 0) p, drawn_slot (pending_slot 0 0) q]"
    by blast
  have e: "e = draw_at (s FD_DRAW)" using s(2) by (simp add: holds_def)
  have live: "fd_live FD_PROGRAM_ID (s FD_DRAW)"
    using holds_load(1) [OF s(2), of "fd_acc FD_DRAW False"] by (simp add: load_draw_Inr)
  have st: "fd_status e \<noteq> STATUS_CREATED" using s(3) by simp
  have t: "is_sol_prize e" "fd_total_prize e = 10" "fd_tiers e ! 0 = \<lparr>tr_count = 2, tr_amount = 5\<rparr>" "length (data (s FD_DRAW)) = 944"
    using s(2) draw0_tiers(4) by (simp_all add: holds_def fd_terms_def is_sol_prize_def draw0_shape draw0_values)
  have o5: "owes e (drawn_slot (pending_slot 0 0) p) = 5" for p
    by (simp add: owes_def is_open_def amount_of_def drawn_slot_def pending_slot_def default_slot_def t)
  note pa = prizes_accounted [OF s(1) no_nodes fd_keys(6,5) live e st refl]
  have "owed e (slots e (data (s FD_DRAW))) = 10" unfolding s(5) by (simp add: owed_def o5)
  with pa t s(1,5) e show ?thesis by (intro exI [of _ s] exI [of _ e]) (simp add: fd_rent_def)
qed

text \<open>
  C32. A winner can claim. In every reachable state of a SOL draw, whoever signs and passes the winner check of a
  slot won in the current round while its claim window is open gets the prize by Claim: the call succeeds, moves
  exactly the tier amount from the draw to the winner and marks the slot claimed. No earlier payment, refund or
  foreign program can have used up the lamports.
\<close>

theorem winner_can_claim:
  assumes "fd_history H rent pid s S" and "node_inj (hash_rt H) S" and "pid \<noteq> FD_TOKEN_PROGRAM_ID" and "pid \<noteq> SYSTEM_ID"
    and "fd_env H rent rt pid" and "load_draw rt pid ai s = Inr d" and "fd_status d = STATUS_RESOLVING" and "is_sol_prize d"
    and "accounts = me # ai # rest" and "is_signer me" and "length (key me) = 32" and "key me \<noteq> key ai"
    and "unat j < unat (fd_slot_count d)" and "sl = slots d (data (s (key ai))) ! unat j" and "sl_status sl = SLOT_WON"
    and "check_claim rt (key ai) (key me) d sl x = Inr sl'" and "fd_window_end d = 0 \<or> clock_slot rt \<le> fd_window_end d"
    and "unat (lamports (s (key me))) + amount_of d sl < 2 ^ 64" and "fd_ix_unpack b = Some (FdClaim j x)"
  shows "\<exists>s'. fd_process rt pid accounts b s = Inr s' \<and>
    unat (lamports (s' (key me))) = unat (lamports (s (key me))) + amount_of d sl \<and>
    unat (lamports (s' (key ai))) + amount_of d sl = unat (lamports (s (key ai))) \<and>
    slots d (data (s' (key ai))) = (slots d (data (s (key ai))))[unat j := sl'\<lparr>sl_status := SLOT_CLAIMED\<rparr>]"
proof -
  have rent: "minimum_balance rt = rent" using assms(5) by (simp add: fd_env_def)
  from claim_goes_through [OF fd_history_inv [OF assms(1-4)] rent assms(6-18)] obtain s' where
    "fd_claim rt pid accounts j x s = Inr s'" and "unat (lamports (s' (key me))) = unat (lamports (s (key me))) + amount_of d sl"
    "unat (lamports (s' (key ai))) + amount_of d sl = unat (lamports (s (key ai)))"
    "slots d (data (s' (key ai))) = (slots d (data (s (key ai))))[unat j := sl'\<lparr>sl_status := SLOT_CLAIMED\<rparr>]" by blast
  then show ?thesis using assms(19) by (intro exI [of _ s']) (simp add: fd_process_def)
qed

definition fd_proof :: "u64 \<Rightarrow> leaf_proof" where
  "fd_proof p = \<lparr>lp_leaf_index = p, lp_wallet = FD_ORG, lp_weight = 1, lp_path = replicate 32 0 @ u64_le 1\<rparr>"

lemma fd_proof_verifies:
  assumes "p = 0 \<or> p = 1"
  shows "tree_verify fd_rt (replicate 32 0) 2 1 2 p (replicate 32 0) 1 (lp_path (fd_proof p)) = Some p"
proof -
  have pp: "path_pairs (replicate 32 0 @ u64_le 1) 1 = [(replicate 32 0, 1)]" by code_simp
  have "sum_node fd_rt (a, 1) (c, 1) = Some (replicate 32 0, 2)" for a c
    by (simp add: sum_node_def checked_add_def node_hash_def fd_rt_simps)
  then show ?thesis using assms pp by (auto simp: tree_verify_Some fd_proof_def checked_add_def)
qed

lemma fd_proof_unpack:
  assumes "p = 0 \<or> p = 1"
  shows "fd_ix_unpack (fd_ix_pack (FdClaim 0 (Some (fd_proof p)))) = Some (FdClaim 0 (Some (fd_proof p)))"
proof -
  have "fd_ix_unpack (fd_ix_pack (FdClaim 0 (Some (fd_proof 0)))) = Some (FdClaim 0 (Some (fd_proof 0)))"
    "fd_ix_unpack (fd_ix_pack (FdClaim 0 (Some (fd_proof 1)))) = Some (FdClaim 0 (Some (fd_proof 1)))"
    by code_simp+
  with assms show ?thesis by blast
qed

theorem winner_can_claim_witness:
  "\<exists>s s' p. fd_history fd_hash fd_rent FD_PROGRAM_ID s {} \<and>
    fd_process fd_rt FD_PROGRAM_ID [fd_acc FD_ORG True, fd_acc FD_DRAW False] (fd_ix_pack (FdClaim 0 (Some (fd_proof p)))) s = Inr s' \<and>
    unat (lamports (s FD_ORG)) = 8946 \<and> unat (lamports (s' FD_ORG)) = 8951"
proof -
  let ?ai = "fd_acc FD_DRAW False" and ?me = "fd_acc FD_ORG True"
  from drawn_reached obtain s e p q where s: "fd_history fd_hash fd_rent FD_PROGRAM_ID s {}" "holds s e 1054" "fd_status e = STATUS_RESOLVING"
    "same_entries (fd_draw3 []) e" "fd_slot_count e = 2" "fd_window_end e = 1150"
    "slots e (data (s FD_DRAW)) = [drawn_slot (pending_slot 0 0) p, drawn_slot (pending_slot 0 0) q]"
    "s FD_ORG = \<lparr>lamports = 8946, owner = SYSTEM_ID, data = []\<rparr>" by blast
  let ?sl = "drawn_slot (pending_slot 0 0) p"
  note ld = holds_load(1) [OF s(2), of ?ai, simplified]
  have e: "e = draw_at (s FD_DRAW)" using s(2) by (simp add: holds_def)
  have live: "fd_live FD_PROGRAM_ID (s FD_DRAW)" using ld by (simp add: load_draw_Inr)
  have en: "fd_weighted e = False" "fd_root e = replicate 32 0" "fd_total_weight e = 2" "fd_depth e = 1" "fd_leaf_count e = 2"
    using s(4) by (simp_all add: same_entries_def draw3_values)
  have t: "is_sol_prize e" "fd_tiers e ! 0 = \<lparr>tr_count = 2, tr_amount = 5\<rparr>"
    using s(2) draw0_tiers(4) by (simp_all add: holds_def fd_terms_def is_sol_prize_def draw0_shape)
  have "wins_ok fd_hash {} FD_DRAW e (slots e (data (s FD_DRAW))) (won e (data (s FD_DRAW)))"
    using live_inv(1) [OF s(1) no_nodes fd_keys(6,5) live] s(3) e by (simp add: dinv_def)
  then have "authentic fd_hash {} FD_DRAW e ?sl" using s(7) by (simp add: wins_ok_def drawn_winner)
  then have "p < 2" using en by (simp add: authentic_def drawn_slot_def)
  then have p: "p = 0 \<or> p = 1" by (auto simp: word_less_nat_alt word_unat_eq_iff)
  have ck: "check_claim fd_rt FD_DRAW FD_ORG e ?sl (Some (fd_proof p)) = Inr (?sl\<lparr>sl_wallet := FD_ORG\<rparr>)"
    using fd_proof_verifies [OF p] en
    by (simp add: check_claim_def drawn_slot_def fd_proof_def entry_leaf_def fd_rt_simps Let_def)
  have am: "amount_of e ?sl = 5" by (simp add: amount_of_def drawn_slot_def pending_slot_def default_slot_def t)
  have FDO: "length FD_ORG = 32" by (simp add: FD_ORG_def)
  have sl: "?sl = slots e (data (s FD_DRAW)) ! unat (0 :: u16)" using s(7) by simp
  have "\<exists>s'. fd_process fd_rt FD_PROGRAM_ID [?me, ?ai] (fd_ix_pack (FdClaim 0 (Some (fd_proof p)))) s = Inr s' \<and>
    unat (lamports (s' (key ?me))) = unat (lamports (s (key ?me))) + amount_of e ?sl \<and>
    unat (lamports (s' (key ?ai))) + amount_of e ?sl = unat (lamports (s (key ?ai))) \<and>
    slots e (data (s' (key ?ai))) = (slots e (data (s (key ?ai))))[unat (0 :: u16) := ?sl\<lparr>sl_wallet := FD_ORG\<rparr>\<lparr>sl_status := SLOT_CLAIMED\<rparr>]"
    by (rule winner_can_claim [OF s(1) no_nodes fd_keys(6,5) fd_rt_env ld s(3) t(1) refl _ _ _ _ _ _ _ _ _ fd_proof_unpack [OF p]])
      (use ck am FDO fd_keys s(5-8) in \<open>simp_all add: fd_rt_simps, simp_all add: drawn_slot_def\<close>)
  then show ?thesis using s(1,8) am by (elim exE conjE) (intro exI [of _ s] exI [of _ p] exI conjI, auto)
qed

section \<open>Progress\<close>

text \<open>
  C33. The drawing terminates. The rank of a draw, a measure of rounds, slots and phase, is below 4108 in every
  reachable state; no instruction, whoever sends it, ever raises the rank of a draw that lives on (other programs cannot write
  the account), and every successful Draw, Resolve or Advance lowers the rank of its draw. So over the life of a draw fewer than 4108
  of these instructions succeed, and a draw cannot be re-drawn forever.
\<close>

theorem drawing_terminates:
  assumes "fd_history H rent pid s S" and "node_inj (hash_rt H) (S \<union> hashed H accounts b s)"
    and "pid \<noteq> FD_TOKEN_PROGRAM_ID" and "pid \<noteq> SYSTEM_ID"
    and "fd_env H rent rt pid" and "fd_ix_unpack b = Some i" and "fd_process rt pid accounts b s = Inr s'"
  shows "(\<forall>k. fd_live pid (s k) \<longrightarrow> draw_rank (draw_at (s k)) < 4108 \<and>
      (fd_live pid (s' k) \<longrightarrow> draw_rank (draw_at (s' k)) \<le> draw_rank (draw_at (s k)))) \<and>
    (drawing_step i \<longrightarrow> draw_rank (draw_at (s' (key (hd accounts)))) < draw_rank (draw_at (s (key (hd accounts)))))"
proof -
  let ?T = "S \<union> hashed H accounts b s"
  have "node_inj (hash_rt H) S" using node_inj_mono [OF assms(2)] by simp
  from fd_history_inv [OF assms(1) this assms(3,4)] have "fd_inv H S rent pid s" .
  then have inv: "fd_inv H ?T rent pid s" by (rule fd_inv_mono) simp
  have run: "fd_run rt pid accounts i s = Inr s'" using assms(6,7) by (simp add: fd_process_def)
  have "\<forall>pr \<in> set (proofs_of (Some i)). proof_pairs (hash_rt H) (key (hd accounts)) (draw_at (s (key (hd accounts)))) pr \<subseteq> ?T"
    using assms(6) by (auto simp: hashed_def Let_def)
  note m = fd_run_moves [OF assms(5,3) inv run assms(2) this]
  have "draw_rank (draw_at (s k)) < 4108" if "fd_live pid (s k)" for k
    using inv that rank_bound by (auto simp: fd_inv_def fd_account_ok_def draw_inv_def)
  with m show ?thesis by (auto simp: fd_moves_def)
qed

theorem drawing_terminates_witness:
  "\<exists>s s'. fd_history fd_hash fd_rent FD_PROGRAM_ID s {} \<and> fd_process fd_rt FD_PROGRAM_ID [fd_acc FD_DRAW False] [5, 0, 0] s = Inr s' \<and>
    draw_rank (draw_at (s FD_DRAW)) < 4108 \<and> draw_rank (draw_at (s' FD_DRAW)) < draw_rank (draw_at (s FD_DRAW))"
proof -
  from resolve_runs obtain s0 rs s where s: "fd_history fd_hash fd_rent FD_PROGRAM_ID s0 {}" "holds s0 (fd_draw3 rs) 1054"
    "fd_process fd_rt FD_PROGRAM_ID [fd_acc FD_DRAW False] [5, 0, 0] s0 = Inr s" by blast
  have "hashed fd_hash [fd_acc FD_DRAW False] [5, 0, 0] s0 = {}" by (simp add: hashed_def fd_unpacks proofs_of_def)
  then have inj: "node_inj (hash_rt fd_hash) ({} \<union> hashed fd_hash [fd_acc FD_DRAW False] [5, 0, 0] s0)" using no_nodes by simp
  have "fd_live FD_PROGRAM_ID (s0 FD_DRAW)" using holds_load(1) [OF s(2), of "fd_acc FD_DRAW False"] by (simp add: load_draw_Inr)
  with drawing_terminates [OF s(1) inj fd_keys(6,5) fd_rt_env fd_unpacks(5) s(3)] s show ?thesis
    by (intro exI [of _ s0] exI [of _ s]) (simp add: drawing_step_def)
qed

text \<open>
  C34. The drawing goes on. In every reachable state anybody can carry a Resolving draw forward: while slots of
  an unweighted draw are undrawn, Resolve without proofs succeeds and draws the next 24 of them or all that are
  left, and each of them is won if the undrawn weight suffices for the slots left; once all are drawn and the claim window
  is over, Advance succeeds.
\<close>

theorem drawing_goes_on:
  assumes "fd_history H rent pid s S" and "node_inj (hash_rt H) S" and "pid \<noteq> FD_TOKEN_PROGRAM_ID" and "pid \<noteq> SYSTEM_ID"
    and "fd_env H rent rt pid" and "load_draw rt pid ai s = Inr d" and "fd_status d = STATUS_RESOLVING" and "accounts = ai # rest"
    and "unat (clock_slot rt) + unat (fd_claim_window_slots d) < 2 ^ 64" and "unat (fd_window_end d) + 32 < 2 ^ 64"
  shows "(fd_next_slot d < fd_slot_count d \<and> \<not> fd_weighted d \<and> fd_ix_unpack b = Some (FdResolve 0 []) \<longrightarrow>
      (\<exists>s'. fd_process rt pid accounts b s = Inr s' \<and>
        unat (fd_next_slot (draw_at (s' (key ai)))) = min (unat (fd_next_slot d) + 24) (unat (fd_slot_count d)) \<and>
        (unat (fd_won_weight d) + (unat (fd_slot_count d) - unat (fd_next_slot d)) \<le> unat (fd_total_weight d) \<longrightarrow>
          (\<forall>i < unat (fd_slot_count d). unat (fd_next_slot d) \<le> i \<and> i < unat (fd_next_slot d) + 24 \<longrightarrow>
            sl_status (slots d (data (s' (key ai))) ! i) = SLOT_WON)))) \<and>
    (fd_next_slot d = fd_slot_count d \<and> fd_window_end d < clock_slot rt \<and> fd_ix_unpack b = Some FdAdvance \<longrightarrow>
      (\<exists>s'. fd_process rt pid accounts b s = Inr s'))"
proof -
  note inv = fd_history_inv [OF assms(1-4)]
  have h: "hashv rt = H" "\<forall>xs. length (hashv rt xs) = 32" using assms(5) by (auto simp: fd_env_def)
  have "\<exists>s'. fd_process rt pid accounts b s = Inr s' \<and>
        unat (fd_next_slot (draw_at (s' (key ai)))) = min (unat (fd_next_slot d) + 24) (unat (fd_slot_count d)) \<and>
        (unat (fd_won_weight d) + (unat (fd_slot_count d) - unat (fd_next_slot d)) \<le> unat (fd_total_weight d) \<longrightarrow>
          (\<forall>i < unat (fd_slot_count d). unat (fd_next_slot d) \<le> i \<and> i < unat (fd_next_slot d) + 24 \<longrightarrow>
            sl_status (slots d (data (s' (key ai))) ! i) = SLOT_WON))"
    if r: "fd_next_slot d < fd_slot_count d" "\<not> fd_weighted d" and u: "fd_ix_unpack b = Some (FdResolve 0 [])"
  proof -
    from resolve_goes_through [OF inv assms(6,8) h assms(2,7) r assms(9)] obtain b' e where
      run: "fd_resolve rt pid accounts 0 [] s = Inr (set_data s (key ai) b')" and e: "fd_of b' = e"
      and nx: "unat (fd_next_slot e) = min (unat (fd_next_slot d) + 24) (unat (fd_slot_count d))"
      and won: "unat (fd_won_weight d) + (unat (fd_slot_count d) - unat (fd_next_slot d)) \<le> unat (fd_total_weight d) \<longrightarrow>
      (\<forall>i < unat (fd_slot_count d). if unat (fd_next_slot d) \<le> i \<and> i < unat (fd_next_slot d) + 24
         then \<exists>p. slots d b' ! i = drawn_slot (slots d (data (s (key ai))) ! i) p
         else slots d b' ! i = slots d (data (s (key ai))) ! i)"
      by (elim exE conjE) (rule that, assumption+)
    have "sl_status (slots d b' ! i) = SLOT_WON"
      if "unat (fd_won_weight d) + (unat (fd_slot_count d) - unat (fd_next_slot d)) \<le> unat (fd_total_weight d)"
        and "i < unat (fd_slot_count d)" and "unat (fd_next_slot d) \<le> i \<and> i < unat (fd_next_slot d) + 24" for i
    proof -
      from mp [OF won that(1)] that(2,3) obtain p where "slots d b' ! i = drawn_slot (slots d (data (s (key ai))) ! i) p"
        by (metis (no_types, lifting))
      then show ?thesis by (simp add: drawn_slot_def)
    qed
    with run u e nx show ?thesis by (intro exI [of _ "set_data s (key ai) b'"]) (auto simp: fd_process_def)
  qed
  moreover have "\<exists>s'. fd_process rt pid accounts b s = Inr s'"
    if "fd_next_slot d = fd_slot_count d" "fd_window_end d < clock_slot rt" "fd_ix_unpack b = Some FdAdvance"
    using advance_goes_through [OF inv assms(6,8,7) that(1,2) assms(10)] that(3) by (auto simp: fd_process_def)
  ultimately show ?thesis by blast
qed

theorem drawing_goes_on_witness:
  "\<exists>s s' d. fd_history fd_hash fd_rent FD_PROGRAM_ID s {} \<and> d = draw_at (s FD_DRAW) \<and> unat (fd_next_slot d) = 0 \<and>
    fd_process fd_rt FD_PROGRAM_ID [fd_acc FD_DRAW False] [5, 0, 0] s = Inr s' \<and> unat (fd_next_slot (draw_at (s' FD_DRAW))) = 2 \<and>
    sl_status (slots d (data (s' FD_DRAW)) ! 1) = SLOT_WON"
proof -
  let ?ai = "fd_acc FD_DRAW False"
  from resolving_reached obtain s rs where s: "fd_history fd_hash fd_rent FD_PROGRAM_ID s {}" "holds s (fd_draw3 rs) 1054" by blast
  note ld = holds_load(1) [OF s(2), of ?ai, simplified]
  note v = draw3_values [of rs]
  have d: "fd_draw3 rs = draw_at (s FD_DRAW)" using s(2) by (simp add: holds_def)
  have we: "fd_window_end (fd_draw3 rs) = 0" by (simp add: fd_draw3_def fd_draw2_def fd_draw1_def draw0_values)
  have c: "unat (clock_slot fd_rt) + unat (fd_claim_window_slots (fd_draw3 rs)) < 2 ^ 64" "unat (fd_window_end (fd_draw3 rs)) + 32 < 2 ^ 64"
    by (simp_all add: v we fd_rt_simps)
  from drawing_goes_on [OF s(1) no_nodes fd_keys(6,5) fd_rt_env ld v(1) refl c, where rest = "[]" and b = "[5, 0, 0]"] obtain s' where
    "fd_process fd_rt FD_PROGRAM_ID [?ai] [5, 0, 0] s = Inr s'" "unat (fd_next_slot (draw_at (s' FD_DRAW))) = 2"
    "sl_status (slots (fd_draw3 rs) (data (s' FD_DRAW)) ! 1) = SLOT_WON"
    by (auto simp: v fd_unpacks)
  then show ?thesis using s(1) d v by (intro exI [of _ s] exI [of _ s'] exI [of _ "fd_draw3 rs"]) simp
qed

end
