(* ===== verification/Spec2Isabelle.thy ===== *)
theory Spec2Isabelle
  imports PropsSettle PropsLanes PropsWire PropsRefund PropsAnchor PropsDraw PropsFair
begin

text \<open>
  \<^bold>\<open>The payment programs of dna-x402.\<close> The repository settles payments of AI agents (HTTP 402) on
  Solana. Its on-chain payment rail consists of three programs, each modelled here whole, and so is the
  program that draws raffles on the same platform:

  \<^item> \<open>programs/x402_settle\<close>: one ledger per mint, payer escrows, payee balance slots in books, payment
    channels and two-phase batches. Payers sign vouchers off chain; anyone can settle them.
  \<^item> \<open>programs/x402_refund_escrow\<close>: one escrow per purchase; the seller's signed receipt releases the
    payment, a missed deadline refunds it, two conflicting receipts slash the seller's bond.
  \<^item> \<open>programs/receipt_anchor\<close>: hourly buckets that hash receipt anchors into a running root.
  \<^item> \<open>programs/null_fair_draw\<close> with \<open>crates/null-draw-common\<close>: prize draws over a sum tree of weighted
    entries, with public randomness, claims, re-draws of unclaimed prizes and refunds.

  \<^bold>\<open>Common ground.\<close> \<open>Prelude\<close> holds results with an error side (the question mark operator is \<open>bindE\<close>,
  loops with early exit are \<open>foldE\<close> with the locale \<open>fold_invariant\<close>), machine integers as words with
  checked operations (a failed \<open>checked_add\<close> is an error, an unchecked overflow or an index out of
  range is \<open>Panic\<close>), and byte access. \<open>Solana\<close> is the platform: a store maps addresses to accounts
  (lamports, owner, data); two positions of an account list with one address share the account. What
  a program gets from the cluster (clock, rent, derived addresses, SHA-256, the curve syscall, calls
  into other programs) is the record \<open>runtime\<close>; the locales \<open>solana\<close> and \<open>solana_lamports\<close> state the
  documented rules it obeys, and are interpreted by a reference runtime with the documented system
  program. \<open>Codec\<close> gives packed records (locale \<open>packed_record\<close>, extended by \<open>account_codec\<close>), interpreted
  for every account record that is packed at fixed offsets.

  \<^bold>\<open>x402_settle.\<close> The model follows the source files:

  \<^item> \<open>error.rs\<close> and \<open>state.rs\<close>: \<open>XsState\<close> (constants, records \<open>ledger\<close>, \<open>channel\<close>, \<open>batch_hdr\<close>, offsets of
    escrows and books, load and check functions), \<open>XsLayout\<close> (account kinds and codecs);
  \<^item> \<open>token.rs\<close>: \<open>XsToken\<close>; \<open>crypto.rs\<close>: \<open>XsCrypto\<close>; \<open>instruction.rs\<close>: \<open>XsWire\<close>;
  \<^item> \<open>processor.rs\<close>: \<open>XsHelpers\<close>, \<open>XsEscrow\<close> (ledgers, escrows, books, withdrawals), \<open>XsSettle\<close> (vouchers),
    \<open>XsChannel\<close>, \<open>XsBatch\<close>; \<open>lib.rs\<close>: \<open>XsProcess\<close> (\<open>process\<close>, the dispatch on the tag).

  The lemmas about it come in layers. \<open>XsTree\<close>, \<open>XsHash\<close> and \<open>XsScalar\<close> relate the optimised routines
  of \<open>crypto.rs\<close> to reference definitions (a binary Merkle tree, block-wise SHA-512, arithmetic modulo
  the group order). \<open>XsValue\<close> to \<open>XsMoney\<close> show conservation: the liabilities of a ledger are the sum of
  its entries, in every state reachable by instructions interleaved with arbitrary code of other
  programs. \<open>XsView\<close> reads the byte layouts as records; \<open>XsEvolve\<close> to \<open>XsEvolveBatch\<close> show that every
  account stays well formed and moves along the lifecycle of its kind; \<open>XsReach\<close> collects the
  invariants of reachable states (\<open>reachable\<close>, an inductive relation over instructions and steps of other
  programs; \<open>cluster_step_at\<close> is one step with the slot it runs in). \<open>XsEffect\<close>, \<open>XsLanes\<close> and \<open>XsStage\<close> compute exact effects and an abstract
  ledger (\<open>tabs\<close>) that settlement and commit refine; \<open>XsLiveness\<close> shows that withdrawals go through.
  \<open>XsScenario\<close> and \<open>XsLaneRun\<close> run the program on a concrete ledger, escrow, book, channel and batch;
  the witnesses of the properties are inputs of these runs. The properties are in \<open>PropsSettle\<close>,
  \<open>PropsLanes\<close>, \<open>PropsCrypto\<close> and \<open>PropsWire\<close>.

  \<^bold>\<open>x402_refund_escrow.\<close> \<open>ReState\<close> (\<open>error.rs\<close>, \<open>state.rs\<close>, \<open>receipt.rs\<close>, \<open>ed25519.rs\<close>, \<open>instruction.rs\<close>) and
  \<open>ReProcess\<close> (\<open>processor.rs\<close>); \<open>ReMoney\<close> (solvency of every escrow), \<open>ReLife\<close> (step relation, lifecycle),
  \<open>ReScenario\<close> (a concrete escrow), \<open>PropsRefund\<close>. Verified signatures reach this program through the
  instructions sysvar; the law that the ed25519 precompile accepts an instruction only when its
  signatures verify is the hypothesis \<open>precompile_verified\<close>, which the witnesses instantiate with the
  runtimes \<open>ed25519_runtime\<close>.

  \<^bold>\<open>receipt_anchor.\<close> \<open>Anchor\<close> models the program, \<open>AnchorLog\<close> its histories: the abstract state of a bucket
  is the list of its anchors. Properties in \<open>PropsAnchor\<close>.

  \<^bold>\<open>null_fair_draw.\<close> \<open>FdCommon\<close> (\<open>pda.rs\<close>, \<open>slot_hashes.rs\<close> of the crate), \<open>FdStream\<close> (\<open>stream.rs\<close>), \<open>FdTree\<close>
  (\<open>sumtree.rs\<close>), \<open>FdState\<close> (\<open>error.rs\<close>, \<open>state.rs\<close>, \<open>token.rs\<close>), \<open>FdWire\<close> (\<open>instruction.rs\<close>), \<open>FdProcess\<close> and
  \<open>FdProcess2\<close> (\<open>processor.rs\<close>). The state of a draw is one account: a packed header (\<open>fair_draw\<close>), for open
  raffles the frontier of the tree, a table of prize slots, and the table of won intervals in ascending
  order. \<open>FdGrow\<close> shows that the incremental tree, the batch builders and the proof helper all compute
  one recursive tree; \<open>FdView\<close> reads header, slots and won table as records and lists and shows that the
  binary insertion keeps the won table sorted and disjoint. The table \<open>ZEROS\<close> is modelled by its
  computation, since the hash is a parameter. Collisions are excluded only among the nodes a statement
  mentions (\<open>node_inj\<close>), never for all inputs. Properties of the single routines are in \<open>PropsDraw\<close>.

  The reachable states have their own layer. \<open>FdTables\<close> says what writing a header, a slot or the won table
  does to the other tables; \<open>FdInv\<close> states the invariant of a draw (\<open>dinv\<close>: fixed terms, phase of the round,
  accounting of every prize, winners with disjoint proved intervals) and \<open>FdKeep\<close> shows that it survives each
  change of a header and its tables; \<open>FdLoops\<close> runs the loops over entries, slots and winners. \<open>FdStore\<close>
  lifts the invariant to all live draws of a store (\<open>fd_inv\<close>), \<open>FdEvolve\<close> and \<open>FdEvolveCpi\<close> prove it for every
  handler, and \<open>FdReach\<close> for the histories (\<open>fd_history\<close>) of instructions, steps of other programs and
  account collections; a history also collects the node inputs its accepted proofs hashed. \<open>FdFair\<close>, \<open>FdRank\<close>
  and \<open>FdLive\<close> draw the consequences: winners apart, claims, Advance and Resolve that go through, a rank that
  the drawing lowers. \<open>FdScenario\<close> creates, funds, commits, draws and resolves a concrete draw for the
  witnesses. Properties in \<open>PropsFair\<close>; Resolve of a weighted draw needs the proofs of the winners, so that it
  goes through is stated for unweighted draws only, and tokens of SPL draws are outside the account.

  \<^bold>\<open>Bounds and fuel.\<close> No definition needs fuel: loops over account or entry counts are folds, the other
  recursions have termination proofs (\<open>mint_extensions\<close> by the bytes left, \<open>upper_depth_from\<close> by the
  distance to the count, the binary searches by the interval left). The resolve loop recurses on the
  budget of the instruction, which bounds its rounds in the source too. Lengths of byte vectors are natural numbers; where the source computes an
  offset that could wrap on 64 bits, the bound is written out. The mint property assumes accounts
  below \<open>2 ^ 60\<close> bytes, far above the ten megabytes of the platform.

  \<^bold>\<open>Not modelled.\<close> SHA-256, the curve operation, address derivation and code of other programs are
  parameters. Of \<open>x402_settle\<close>: the measurement hook of test builds, the syscall variant of SHA-512
  and the curve crate used off chain. Log messages and unit tests are left out everywhere. Borrow
  failures of \<open>RefCell\<close> do not occur in the modelled handlers, which never hold two borrows of one
  account. The other programs (lotteries, registrars, zero-knowledge gates), the
  research crates under \<open>crates/\<close>, and the TypeScript server and SDKs are not modelled.

  \<^bold>\<open>What modelling showed.\<close> Two programs create accounts in a way that anyone can block by sending a
  lamport to the address first (\<open>open_blocked_by_prefunding\<close>, \<open>anchor_blocked_by_prefunding\<close>); the status
  Slashed of the refund escrow is documented but never stored (\<open>escrow_solvent\<close>), and its dispute deadline,
  documented as zero until settled and set at settle, is fixed when the escrow is opened
  (\<open>escrow_lifecycle\<close>).
\<close>

end
